(* ===== verification/Redunar_Prelude.thy ===== *)
theory Redunar_Prelude
  imports Main "HOL-Library.Word" "HOL-Library.Sublist"
begin

unbundle bit_operations_syntax

text \<open>
  Shared vocabulary of the development: the machine integers of the Rust sources and their
  checked and saturating arithmetic, \<open>Result\<close> as a sum type with its \<open>and_then\<close>, byte encodings
  of integers, in-place writes into byte buffers, the four interfaces several components
  implement (a prefix codec, an event system with an invariant, a simulation, a bounded history) as locales,
  and the generic lemmas on lists and words the component theories rest on.
\<close>

section \<open>Machine integers\<close>

type_synonym u8 = "8 word"
type_synonym u16 = "16 word"
type_synonym u32 = "32 word"
type_synonym u64 = "64 word"

text \<open>
  A \<open>usize\<close> is a \<open>nat\<close>: it only ever counts elements of lists the model holds, and the
  conversions to a fixed width that the code makes are written with \<open>try_from\<close> below.
\<close>

named_theorems word_nat \<open>rules that move machine-integer facts to natural numbers\<close>

lemmas [word_nat] = word_le_nat_alt word_less_nat_alt

definition saturating_add :: "'a::len word \<Rightarrow> 'a word \<Rightarrow> 'a word" where
  "saturating_add a b = (if unat a + unat b < 2 ^ LENGTH('a) then a + b else - 1)"

definition saturating_sub :: "'a::len word \<Rightarrow> 'a word \<Rightarrow> 'a word" where
  "saturating_sub a b = (if a < b then 0 else a - b)"

definition saturating_mul :: "'a::len word \<Rightarrow> 'a word \<Rightarrow> 'a word" where
  "saturating_mul a b = (if unat a * unat b < 2 ^ LENGTH('a) then a * b else - 1)"

definition checked_add :: "'a::len word \<Rightarrow> 'a word \<Rightarrow> 'a word option" where
  "checked_add a b = (if unat a + unat b < 2 ^ LENGTH('a) then Some (a + b) else None)"

definition checked_sub :: "'a::len word \<Rightarrow> 'a word \<Rightarrow> 'a word option" where
  "checked_sub a b = (if a < b then None else Some (a - b))"

definition checked_mul :: "'a::len word \<Rightarrow> 'a word \<Rightarrow> 'a word option" where
  "checked_mul a b = (if unat a * unat b < 2 ^ LENGTH('a) then Some (a * b) else None)"

definition div_ceil :: "'a::len word \<Rightarrow> 'a word \<Rightarrow> 'a word" where
  "div_ceil a b = (if a mod b > 0 then a div b + 1 else a div b)"

text \<open>\<open>T::try_from(n)\<close> of a length or of a wider integer, and \<open>unwrap_or\<close>.\<close>

definition try_from :: "nat \<Rightarrow> 'a::len word option" where
  "try_from n = (if n < 2 ^ LENGTH('a) then Some (word_of_nat n) else None)"

definition unwrap_or :: "'a option \<Rightarrow> 'a \<Rightarrow> 'a" where
  "unwrap_or x d = (case x of None \<Rightarrow> d | Some v \<Rightarrow> v)"

lemma unat_max [simp]: "unat (- 1 :: 'a::len word) = 2 ^ LENGTH('a) - 1"
  by (simp add: unsigned_minus_1_eq_mask mask_eq_exp_minus_1)

lemma unat_lt_2p: "unat (a :: 'a::len word) < 2 ^ LENGTH('a)"
  by (rule unsigned_less)

lemma unat_saturating_add [word_nat]:
  "unat (saturating_add a b :: 'a::len word) = min (unat a + unat b) (2 ^ LENGTH('a) - 1)"
  by (auto simp: saturating_add_def unat_word_ariths min_def)

lemma unat_saturating_sub [word_nat]: "unat (saturating_sub a b) = unat a - unat b"
  by (auto simp: saturating_sub_def word_less_nat_alt unat_sub_if_size word_le_nat_alt)

lemma unat_saturating_mul [word_nat]:
  "unat (saturating_mul a b :: 'a::len word) = min (unat a * unat b) (2 ^ LENGTH('a) - 1)"
proof (cases "unat a * unat b < 2 ^ LENGTH('a)")
  case True
  then have "unat a * unat b \<le> 2 ^ LENGTH('a) - 1" by linarith
  with True show ?thesis by (simp add: saturating_mul_def unat_word_ariths min_absorb1)
next
  case False
  then have "2 ^ LENGTH('a) - 1 \<le> unat a * unat b" by linarith
  with False show ?thesis by (simp add: saturating_mul_def min_absorb2)
qed

lemma checked_add_Some [word_nat]:
  "checked_add a b = Some c \<longleftrightarrow>
    unat a + unat b < 2 ^ LENGTH('a) \<and> unat (c :: 'a::len word) = unat a + unat b"
proof -
  have "unat (a + b) = unat a + unat b" if "unat a + unat b < 2 ^ LENGTH('a)"
    using that by (simp add: unat_word_ariths)
  then show ?thesis
    by (auto simp: checked_add_def) (metis word_unat_eq_iff)
qed

lemma checked_add_None: "checked_add a b = None \<longleftrightarrow> 2 ^ LENGTH('a) \<le> unat (a :: 'a::len word) + unat b"
  by (auto simp: checked_add_def)

lemma checked_sub_Some [word_nat]:
  "checked_sub a b = Some c \<longleftrightarrow> unat b \<le> unat a \<and> unat (c :: 'a::len word) = unat a - unat b"
proof -
  have "unat (a - b) = unat a - unat b" if "\<not> a < b"
    using that by (simp add: unat_sub_if_size word_le_nat_alt word_less_nat_alt)
  then show ?thesis
    by (auto simp: checked_sub_def word_less_nat_alt not_less) (metis word_unat_eq_iff)
qed

lemma checked_mul_Some [word_nat]:
  "checked_mul a b = Some c \<longleftrightarrow>
    unat a * unat b < 2 ^ LENGTH('a) \<and> unat (c :: 'a::len word) = unat a * unat b"
proof -
  have "unat (a * b) = unat a * unat b" if "unat a * unat b < 2 ^ LENGTH('a)"
    using that by (simp add: unat_word_ariths)
  then show ?thesis
    by (auto simp: checked_mul_def) (metis word_unat_eq_iff)
qed

lemma try_from_Some [word_nat]:
  "try_from n = Some (w :: 'a::len word) \<longleftrightarrow> n < 2 ^ LENGTH('a) \<and> unat w = n"
  by (auto simp: try_from_def unat_of_nat)

lemma try_from_None: "(try_from n :: 'a::len word option) = None \<longleftrightarrow> 2 ^ LENGTH('a) \<le> n"
  by (auto simp: try_from_def)

lemma unwrap_or_simps [simp]: "unwrap_or None d = d" "unwrap_or (Some v) d = v"
  by (simp_all add: unwrap_or_def)

lemma unat_try_from_max [word_nat]:
  "unat (unwrap_or (try_from n) (- 1) :: 'a::len word) = min n (2 ^ LENGTH('a) - 1)"
  by (auto simp: try_from_def unat_of_nat min_def)

lemma word_eq_iff_unat: "(a :: 'a::len word) = b \<longleftrightarrow> unat a = unat b"
  by (simp add: word_unat_eq_iff)

text \<open>Repeated saturating additions add up: \<open>sadd\<close> adds a number that need not fit the word.\<close>

definition sadd :: "'a::len word \<Rightarrow> nat \<Rightarrow> 'a word" where
  "sadd a k = word_of_nat (min (unat a + k) (2 ^ LENGTH('a) - 1))"

lemma unat_sadd [word_nat]: "unat (sadd a k :: 'a::len word) = min (unat a + k) (2 ^ LENGTH('a) - 1)"
proof -
  have "min (unat a + k) (2 ^ LENGTH('a) - 1) < 2 ^ LENGTH('a)"
    by (metis Suc_pred' less_Suc_eq_le min.cobounded2 zero_less_numeral zero_less_power)
  then show ?thesis by (simp add: sadd_def unat_of_nat)
qed

lemma saturating_add_sadd: "saturating_add a b = sadd a (unat b)"
  by (simp add: word_eq_iff_unat unat_sadd unat_saturating_add)

lemma sadd_sadd [simp]: "sadd (sadd a i) j = sadd a (i + j)"
  by (auto simp: word_eq_iff_unat unat_sadd min_def)

lemma sadd_0 [simp]: "sadd (a :: 'a::len word) 0 = a"
proof -
  have "unat a \<le> 2 ^ LENGTH('a) - 1" using unat_lt_2p [of a] by linarith
  then show ?thesis by (simp add: word_eq_iff_unat unat_sadd min_def)
qed

lemma word_of_nat_unat [simp]: "word_of_nat (unat w) = w"
  by (metis of_nat_unat ucast_id)

lemma unat_push_bit_1: "k < LENGTH('a) \<Longrightarrow> unat (push_bit k 1 :: 'a::len word) = 2 ^ k"
  using unat_of_nat [where ?'a = 'a and x = "2 ^ k"] by simp

lemma find_SomeD: "List.find P xs = Some x \<Longrightarrow> x \<in> set xs \<and> P x"
  by (induction xs) (auto split: if_splits)

lemma unat_ucast_widen [word_nat]:
  "LENGTH('a) \<le> LENGTH('b) \<Longrightarrow> unat (ucast (w :: 'a::len word) :: 'b::len word) = unat w"
  using unat_lt_2p [of w]
  by (simp add: unsigned_ucast_eq take_bit_nat_eq_self order_less_le_trans [OF unat_lt_2p])

lemma unat_div_ceil_dvd: "unat b dvd unat a \<Longrightarrow> unat (div_ceil a b) = unat a div unat b"
proof -
  assume "unat b dvd unat a"
  then have "a mod b = 0" by (simp add: word_eq_iff_unat unat_mod)
  then show ?thesis by (simp add: div_ceil_def unat_div)
qed



section \<open>Results\<close>

text \<open>
  \<open>Result<T, E>\<close> is \<open>'e + 't\<close>; the \<open>?\<close> operator and \<open>Result::and_then\<close> are the same function,
  \<open>ok_or\<close> turns an option into a result and \<open>map_err\<close> changes the error.
\<close>

definition and_then :: "'e + 'a \<Rightarrow> ('a \<Rightarrow> 'e + 'b) \<Rightarrow> 'e + 'b" where
  "and_then m f = (case m of Inl e \<Rightarrow> Inl e | Inr x \<Rightarrow> f x)"

definition ok_or :: "'a option \<Rightarrow> 'e \<Rightarrow> 'e + 'a" where
  "ok_or x e = (case x of None \<Rightarrow> Inl e | Some v \<Rightarrow> Inr v)"

definition map_err :: "('e \<Rightarrow> 'f) \<Rightarrow> 'e + 'a \<Rightarrow> 'f + 'a" where
  "map_err f m = (case m of Inl e \<Rightarrow> Inl (f e) | Inr x \<Rightarrow> Inr x)"

definition is_ok :: "'e + 'a \<Rightarrow> bool" where
  "is_ok m = (case m of Inl _ \<Rightarrow> False | Inr _ \<Rightarrow> True)"

lemma and_then_simps [simp]: "and_then (Inl e) f = Inl e" "and_then (Inr x) f = f x"
  by (simp_all add: and_then_def)

lemma ok_or_simps [simp]: "ok_or None e = Inl e" "ok_or (Some v) e = Inr v"
  by (simp_all add: ok_or_def)

lemma map_err_simps [simp]: "map_err f (Inl e) = Inl (f e)" "map_err f (Inr x) = Inr x"
  by (simp_all add: map_err_def)

lemma is_ok_simps [simp]: "\<not> is_ok (Inl e)" "is_ok (Inr x)"
  by (simp_all add: is_ok_def)

lemma and_then_Inr: "and_then m f = Inr y \<longleftrightarrow> (\<exists>x. m = Inr x \<and> f x = Inr y)"
  by (cases m) auto

lemma and_then_Inl: "and_then m f = Inl e \<longleftrightarrow> m = Inl e \<or> (\<exists>x. m = Inr x \<and> f x = Inl e)"
  by (cases m) auto

lemma ok_or_Inr: "ok_or x e = Inr v \<longleftrightarrow> x = Some v"
  by (cases x) auto

lemma ok_or_Inl: "ok_or x e = Inl e' \<longleftrightarrow> x = None \<and> e' = e"
  by (cases x) auto

lemma map_err_Inr: "map_err f m = Inr x \<longleftrightarrow> m = Inr x"
  by (cases m) auto

lemma is_ok_iff: "is_ok m \<longleftrightarrow> (\<exists>x. m = Inr x)"
  by (cases m) auto

lemmas result_iffs = and_then_Inr ok_or_Inr map_err_Inr

lemma and_then_assoc: "and_then (and_then m f) g = and_then m (\<lambda>x. and_then (f x) g)"
  by (cases m) auto

text \<open>\<open>iter().try_fold\<close> and \<open>for\<close> loops with \<open>?\<close> in the body.\<close>

fun try_fold :: "('s \<Rightarrow> 'a \<Rightarrow> 'e + 's) \<Rightarrow> 's \<Rightarrow> 'a list \<Rightarrow> 'e + 's" where
  "try_fold f s [] = Inr s"
| "try_fold f s (x # xs) = and_then (f s x) (\<lambda>s'. try_fold f s' xs)"

fun try_all :: "('a \<Rightarrow> 'e + unit) \<Rightarrow> 'a list \<Rightarrow> 'e + unit" where
  "try_all f [] = Inr ()"
| "try_all f (x # xs) = and_then (f x) (\<lambda>_. try_all f xs)"

lemma try_all_Inr: "try_all f xs = Inr u \<longleftrightarrow> (\<forall>x \<in> set xs. f x = Inr ())"
  by (induction xs) (auto simp: and_then_Inr)

lemma try_fold_append:
  "try_fold f s (xs @ ys) = and_then (try_fold f s xs) (\<lambda>s'. try_fold f s' ys)"
  by (induction xs arbitrary: s) (auto simp: and_then_assoc)

lemma try_fold_invariant:
  assumes "try_fold f s xs = Inr s'" and "P s"
    and "\<And>s x s'. x \<in> set xs \<Longrightarrow> P s \<Longrightarrow> f s x = Inr s' \<Longrightarrow> P s'"
  shows "P s'"
  using assms
proof (induction xs arbitrary: s)
  case Nil
  then show ?case by simp
next
  case (Cons x xs)
  from Cons.prems(1) obtain t where "f s x = Inr t" "try_fold f t xs = Inr s'"
    by (auto simp: and_then_Inr)
  moreover from calculation(1) have "P t"
    using Cons.prems(2) Cons.prems(3) [of x s t] by simp
  ultimately show ?case using Cons.IH Cons.prems(3) by (metis list.set_intros(2))
qed


section \<open>Byte encodings\<close>

text \<open>
  \<open>be_nat k n\<close> is the big-endian encoding of \<open>n\<close> in \<open>k\<close> bytes, so \<open>w.to_be_bytes()\<close> of a
  \<open>k\<close>-byte integer is \<open>be_nat k (unat w)\<close>; the little-endian form is its reverse.
\<close>

fun be_nat :: "nat \<Rightarrow> nat \<Rightarrow> u8 list" where
  "be_nat 0 n = []"
| "be_nat (Suc k) n = word_of_nat (n div 256 ^ k) # be_nat k n"

definition nat_of_be :: "u8 list \<Rightarrow> nat" where
  "nat_of_be bs = foldl (\<lambda>acc b. acc * 256 + unat b) 0 bs"

definition u16_to_be_bytes :: "u16 \<Rightarrow> u8 list" where "u16_to_be_bytes w = be_nat 2 (unat w)"
definition u32_to_be_bytes :: "u32 \<Rightarrow> u8 list" where "u32_to_be_bytes w = be_nat 4 (unat w)"
definition u64_to_be_bytes :: "u64 \<Rightarrow> u8 list" where "u64_to_be_bytes w = be_nat 8 (unat w)"

definition u16_to_le_bytes :: "u16 \<Rightarrow> u8 list" where "u16_to_le_bytes w = rev (be_nat 2 (unat w))"
definition u32_to_le_bytes :: "u32 \<Rightarrow> u8 list" where "u32_to_le_bytes w = rev (be_nat 4 (unat w))"
definition u64_to_le_bytes :: "u64 \<Rightarrow> u8 list" where "u64_to_le_bytes w = rev (be_nat 8 (unat w))"

definition u16_from_be_bytes :: "u8 list \<Rightarrow> u16" where "u16_from_be_bytes bs = word_of_nat (nat_of_be bs)"
definition u32_from_be_bytes :: "u8 list \<Rightarrow> u32" where "u32_from_be_bytes bs = word_of_nat (nat_of_be bs)"

definition u16_from_le_bytes :: "u8 list \<Rightarrow> u16" where "u16_from_le_bytes bs = word_of_nat (nat_of_be (rev bs))"
definition u32_from_le_bytes :: "u8 list \<Rightarrow> u32" where "u32_from_le_bytes bs = word_of_nat (nat_of_be (rev bs))"
definition u64_from_le_bytes :: "u8 list \<Rightarrow> u64" where "u64_from_le_bytes bs = word_of_nat (nat_of_be (rev bs))"

lemma length_be_nat [simp]: "length (be_nat k n) = k"
  by (induction k) auto

lemma be_nat_2: "be_nat 2 n = [word_of_nat (n div 256), word_of_nat n]"
proof -
  have "(2 :: nat) = Suc (Suc 0)" by simp
  then show ?thesis by (simp only: be_nat.simps) simp
qed

lemma be_nat_4: "be_nat 4 n =
  [word_of_nat (n div 16777216), word_of_nat (n div 65536), word_of_nat (n div 256), word_of_nat n]"
proof -
  have "(4 :: nat) = Suc (Suc (Suc (Suc 0)))" by simp
  then show ?thesis by (simp only: be_nat.simps) simp
qed

lemma nat_of_be_Nil [simp]: "nat_of_be [] = 0"
  by (simp add: nat_of_be_def)

lemma nat_of_be_snoc [simp]: "nat_of_be (bs @ [b]) = nat_of_be bs * 256 + unat b"
  by (simp add: nat_of_be_def)

lemma nat_of_be_Cons: "nat_of_be (b # bs) = unat b * 256 ^ length bs + nat_of_be bs"
proof (induction bs rule: rev_induct)
  case Nil
  then show ?case by (simp add: nat_of_be_def)
next
  case (snoc c cs)
  have "nat_of_be (b # cs @ [c]) = nat_of_be (b # cs) * 256 + unat c"
    using nat_of_be_snoc [of "b # cs" c] by simp
  with snoc show ?case by (simp add: algebra_simps)
qed

lemma nat_of_be_append: "nat_of_be (as @ bs) = nat_of_be as * 256 ^ length bs + nat_of_be bs"
  by (induction as) (auto simp: nat_of_be_Cons algebra_simps power_add)

lemma nat_of_be_bound: "nat_of_be bs < 256 ^ length bs"
proof (induction bs)
  case Nil
  then show ?case by simp
next
  case (Cons b bs)
  have "unat b \<le> 255" using unat_lt_2p [of b] by simp
  then have "unat b * 256 ^ length bs \<le> 255 * 256 ^ length bs" by (rule mult_le_mono1)
  with Cons show ?case unfolding nat_of_be_Cons length_Cons power_Suc by linarith
qed

lemma nat_of_be_be_nat [simp]: "nat_of_be (be_nat k n) = n mod 256 ^ k"
proof (induction k)
  case 0
  then show ?case by simp
next
  case (Suc k)
  have "n mod 256 ^ Suc k = n div 256 ^ k mod 256 * 256 ^ k + n mod 256 ^ k"
    using mod_mult2_eq [of n "256 ^ k" 256] by (simp add: mult.commute)
  with Suc show ?case by (simp add: nat_of_be_Cons unat_of_nat)
qed

lemma be_nat_nat_of_be: "be_nat (length bs) (nat_of_be bs) = bs"
proof (induction bs)
  case Nil
  then show ?case by simp
next
  case (Cons b bs)
  have "be_nat k (m * 256 ^ k + n) = be_nat k n" for k m n :: nat
  proof (induction k arbitrary: m)
    case 0
    then show ?case by simp
  next
    case (Suc k)
    have "(m * 256 ^ Suc k + n) div 256 ^ k = m * 256 + n div 256 ^ k"
      using div_mult_self1 [of "256 ^ k" n "m * 256"] by (simp add: algebra_simps)
    moreover have "(word_of_nat (m * 256 + n div 256 ^ k) :: u8) = word_of_nat (n div 256 ^ k)"
      unfolding word_eq_iff_unat unat_of_nat by simp
    moreover have "be_nat k (m * 256 ^ Suc k + n) = be_nat k n"
      using Suc [of "m * 256"] by (simp add: algebra_simps)
    ultimately show ?case by simp
  qed
  with Cons nat_of_be_bound [of bs] show ?case by (simp add: nat_of_be_Cons)
qed

lemma u32_from_to_be [simp]: "u32_from_be_bytes (u32_to_be_bytes w) = w"
  using unat_lt_2p [of w] by (simp add: u32_from_be_bytes_def u32_to_be_bytes_def)

lemma u16_from_to_be [simp]: "u16_from_be_bytes (u16_to_be_bytes w) = w"
  using unat_lt_2p [of w] by (simp add: u16_from_be_bytes_def u16_to_be_bytes_def)

lemma u16_from_to_le [simp]: "u16_from_le_bytes (u16_to_le_bytes w) = w"
  using unat_lt_2p [of w] by (simp add: u16_from_le_bytes_def u16_to_le_bytes_def)

lemma u32_from_to_le [simp]: "u32_from_le_bytes (u32_to_le_bytes w) = w"
  using unat_lt_2p [of w] by (simp add: u32_from_le_bytes_def u32_to_le_bytes_def)

lemma u64_from_to_le [simp]: "u64_from_le_bytes (u64_to_le_bytes w) = w"
  using unat_lt_2p [of w] by (simp add: u64_from_le_bytes_def u64_to_le_bytes_def)

lemma length_to_bytes [simp]:
  "length (u16_to_be_bytes a) = 2" "length (u32_to_be_bytes b) = 4" "length (u64_to_be_bytes c) = 8"
  "length (u16_to_le_bytes a) = 2" "length (u32_to_le_bytes b) = 4" "length (u64_to_le_bytes c) = 8"
  by (simp_all add: u16_to_be_bytes_def u32_to_be_bytes_def u64_to_be_bytes_def
      u16_to_le_bytes_def u32_to_le_bytes_def u64_to_le_bytes_def)

text \<open>The bytes of an ASCII literal such as \<open>b"moov"\<close>.\<close>

definition ascii :: "string \<Rightarrow> u8 list" where
  "ascii s = map (\<lambda>c. word_of_nat (of_char c)) s"

lemma length_ascii [simp]: "length (ascii s) = length s"
  by (simp add: ascii_def)


section \<open>Fixed-layout buffers\<close>

text \<open>
  \<open>copy_at off bs out\<close> is \<open>out[off..off + bs.len()].copy_from_slice(bs)\<close> for an in-range window
  (every use has one, which the component theories prove), \<open>slice off n inp\<close> is
  \<open>inp[off..off + n]\<close>.
\<close>

definition copy_at :: "nat \<Rightarrow> 'a list \<Rightarrow> 'a list \<Rightarrow> 'a list" where
  "copy_at off bs out = take off out @ bs @ drop (off + length bs) out"

definition slice :: "nat \<Rightarrow> nat \<Rightarrow> 'a list \<Rightarrow> 'a list" where
  "slice off n inp = take n (drop off inp)"

lemma length_copy_at [simp]:
  "off + length bs \<le> length out \<Longrightarrow> length (copy_at off bs out) = length out"
  by (simp add: copy_at_def)

lemma length_slice [simp]: "off + n \<le> length inp \<Longrightarrow> length (slice off n inp) = n"
  by (simp add: slice_def)

lemma nth_copy_at:
  assumes "off + length bs \<le> length out" and "i < length out"
  shows "copy_at off bs out ! i =
    (if off \<le> i \<and> i < off + length bs then bs ! (i - off) else out ! i)"
  using assms by (auto simp: copy_at_def nth_append min_def)

lemma slice_copy_at_same:
  "off + length bs \<le> length out \<Longrightarrow> n = length bs \<Longrightarrow> slice off n (copy_at off bs out) = bs"
  by (simp add: slice_def copy_at_def)

lemma slice_copy_at_other:
  assumes "off' + length bs \<le> length out" and "off + n \<le> off' \<or> off' + length bs \<le> off"
    and "off + n \<le> length out"
  shows "slice off n (copy_at off' bs out) = slice off n out"
  using assms by (intro nth_equalityI) (auto simp: slice_def nth_copy_at)

lemma slice_replicate: "off + n \<le> m \<Longrightarrow> slice off n (replicate m x) = replicate n x"
  by (simp add: slice_def)

lemma nth_list_update_buffer:
  "j < length out \<Longrightarrow> out[j := v] ! i = (if i = j then v else out ! i)"
  by simp

lemma slice_list_update_other:
  "j < off \<or> off + n \<le> j \<Longrightarrow> slice off n (out[j := v]) = slice off n out"
  by (auto simp: slice_def drop_update_swap take_update_swap list_eq_iff_nth_eq nth_list_update)

lemma slice_append1: "off + n \<le> length xs \<Longrightarrow> slice off n (xs @ ys) = slice off n xs"
  by (simp add: slice_def)

lemma slice_append2: "length xs \<le> off \<Longrightarrow> slice off n (xs @ ys) = slice (off - length xs) n ys"
  by (simp add: slice_def)

lemma slice_Cons: "0 < off \<Longrightarrow> slice off n (x # xs) = slice (off - 1) n xs"
  by (cases off) (simp_all add: slice_def)

lemma slice_all: "length xs = n \<Longrightarrow> slice 0 n xs = xs"
  by (simp add: slice_def)

lemma slice_Cons0: "0 < n \<Longrightarrow> slice 0 n (x # xs) = x # slice 0 (n - 1) xs"
  by (cases n) (simp_all add: slice_def)

lemma slice_none: "slice off 0 xs = []"
  by (simp add: slice_def)

lemmas slice_layout = slice_none slice_append1 slice_append2 slice_Cons slice_all slice_Cons0

section \<open>Interface: prefix codecs\<close>

text \<open>
  A decoder that is told nothing about where its input ends: it takes one encoded value off the
  front and returns the rest. \<open>decode_all\<close> repeats it until the input is used up; the fuel is the
  input's length, since every value takes at least one byte.
\<close>

fun decode_fuel :: "('b list \<Rightarrow> ('a \<times> 'b list) option) \<Rightarrow> nat \<Rightarrow> 'b list \<Rightarrow> 'a list option" where
  "decode_fuel dec n [] = Some []"
| "decode_fuel dec 0 (b # bs) = None"
| "decode_fuel dec (Suc n) (b # bs) =
     (case dec (b # bs) of None \<Rightarrow> None
      | Some (x, rest) \<Rightarrow> map_option ((#) x) (decode_fuel dec n rest))"

definition decode_all :: "('b list \<Rightarrow> ('a \<times> 'b list) option) \<Rightarrow> 'b list \<Rightarrow> 'a list option" where
  "decode_all dec bs = decode_fuel dec (length bs) bs"

locale prefix_codec =
  fixes enc :: "'a \<Rightarrow> 'b list"
    and dec :: "'b list \<Rightarrow> ('a \<times> 'b list) option"
    and ok :: "'a \<Rightarrow> bool"
  assumes dec_enc: "ok x \<Longrightarrow> dec (enc x @ rest) = Some (x, rest)"
    and enc_nonempty: "ok x \<Longrightarrow> enc x \<noteq> []"
begin

lemma decode_fuel_concat:
  "(\<forall>x \<in> set xs. ok x) \<Longrightarrow> length xs \<le> n \<Longrightarrow>
    decode_fuel dec n (concat (map enc xs)) = Some xs"
proof (induction xs arbitrary: n)
  case Nil
  then show ?case by simp
next
  case (Cons x xs)
  then obtain m where n: "n = Suc m" by (cases n) auto
  obtain b bs where b: "enc x @ concat (map enc xs) = b # bs"
    using Cons.prems(1) enc_nonempty by (cases "enc x @ concat (map enc xs)") auto
  have "dec (b # bs) = Some (x, concat (map enc xs))"
    using Cons.prems(1) dec_enc b by (metis list.set_intros(1))
  with Cons n b show ?case by simp
qed

lemma length_le_concat: "(\<forall>x \<in> set xs. ok x) \<Longrightarrow> length xs \<le> length (concat (map enc xs))"
proof (induction xs)
  case Nil
  then show ?case by simp
next
  case (Cons x xs)
  then have "enc x \<noteq> []" using enc_nonempty by simp
  then have "1 \<le> length (enc x)" by (cases "enc x") auto
  with Cons show ?case by simp
qed

lemma decode_all_concat:
  "(\<forall>x \<in> set xs. ok x) \<Longrightarrow> decode_all dec (concat (map enc xs)) = Some xs"
  unfolding decode_all_def by (rule decode_fuel_concat [OF _ length_le_concat])

lemma enc_prefix_free:
  "ok x \<Longrightarrow> ok y \<Longrightarrow> enc x @ r = enc y @ s \<Longrightarrow> x = y \<and> r = s"
  by (metis dec_enc option.inject prod.inject)

end

section \<open>Interface: event systems with an invariant\<close>

text \<open>
  A component with state is an initial predicate and a labelled step relation; \<open>reach\<close> is the
  set of states some run leads to. An interpretation discharges the two laws for a component's
  own steps and gets the invariant in every reachable state.
\<close>

inductive reach :: "('s \<Rightarrow> bool) \<Rightarrow> ('s \<Rightarrow> 'e \<Rightarrow> 's \<Rightarrow> bool) \<Rightarrow> 's \<Rightarrow> bool"
  for init step where
  reach_init: "init s \<Longrightarrow> reach init step s"
| reach_step: "reach init step s \<Longrightarrow> step s e t \<Longrightarrow> reach init step t"

locale event_system =
  fixes init :: "'s \<Rightarrow> bool"
    and step :: "'s \<Rightarrow> 'e \<Rightarrow> 's \<Rightarrow> bool"
    and inv :: "'s \<Rightarrow> bool"
  assumes inv_init: "init s \<Longrightarrow> inv s"
    and inv_step: "inv s \<Longrightarrow> step s e t \<Longrightarrow> inv t"
begin

lemma inv_reach: "reach init step s \<Longrightarrow> inv s"
  by (induction rule: reach.induct) (auto intro: inv_init inv_step)

end

section \<open>Interface: simulations\<close>

text \<open>
  A component refines a specification when every step it makes corresponds to the specification's
  answer to the same event. \<open>ok\<close> is what the specification expects of its input; a run is admissible when
  every event of it is acceptable in the specification's state at that point.
\<close>

inductive runs :: "('s \<Rightarrow> 'e \<Rightarrow> 's \<Rightarrow> bool) \<Rightarrow> 's \<Rightarrow> 'e list \<Rightarrow> 's \<Rightarrow> bool" for step where
  runs_Nil: "runs step s [] s"
| runs_Cons: "step s e t \<Longrightarrow> runs step t es u \<Longrightarrow> runs step s (e # es) u"

inductive_cases runs_NilE: "runs step s [] t"
inductive_cases runs_ConsE: "runs step s (e # es) t"

fun admissible :: "('a \<Rightarrow> 'e \<Rightarrow> bool) \<Rightarrow> ('a \<Rightarrow> 'e \<Rightarrow> 'a) \<Rightarrow> 'a \<Rightarrow> 'e list \<Rightarrow> bool" where
  "admissible ok answer a [] \<longleftrightarrow> True"
| "admissible ok answer a (e # es) \<longleftrightarrow> ok a e \<and> admissible ok answer (answer a e) es"

locale simulation =
  fixes rel :: "'c \<Rightarrow> 'a \<Rightarrow> bool"
    and step :: "'c \<Rightarrow> 'e \<Rightarrow> 'c \<Rightarrow> bool"
    and answer :: "'a \<Rightarrow> 'e \<Rightarrow> 'a"
    and ok :: "'a \<Rightarrow> 'e \<Rightarrow> bool"
  assumes simulates: "rel c a \<Longrightarrow> ok a e \<Longrightarrow> step c e c' \<Longrightarrow> rel c' (answer a e)"
begin

lemma simulates_runs:
  "runs step c es c' \<Longrightarrow> rel c a \<Longrightarrow> admissible ok answer a es \<Longrightarrow> rel c' (foldl answer a es)"
  by (induction arbitrary: a rule: runs.induct) (auto dest: simulates)

end

section \<open>Longest suffixes\<close>

text \<open>
  Dropping elements off the front until a condition holds, the shape of every eviction loop.
  \<open>longest_suffix P xs\<close> is the longest suffix with \<open>P\<close> (empty when there is none); for a
  condition that suffixes inherit, two loops in a row compute the longest suffix for both.
\<close>

fun longest_suffix :: "('a list \<Rightarrow> bool) \<Rightarrow> 'a list \<Rightarrow> 'a list" where
  "longest_suffix P [] = []"
| "longest_suffix P (x # xs) = (if P (x # xs) then x # xs else longest_suffix P xs)"

lemma sorted_wrt_suffix: "suffix ys xs \<Longrightarrow> sorted_wrt R xs \<Longrightarrow> sorted_wrt R ys"
  by (auto simp: suffix_def sorted_wrt_append)

lemma longest_suffix_suffix: "suffix (longest_suffix P xs) xs"
  by (induction xs) (auto simp: suffix_Cons)

lemma longest_suffix_holds: "P [] \<Longrightarrow> P (longest_suffix P xs)"
  by (induction xs) auto

lemma longest_suffix_maximal: "suffix ys xs \<Longrightarrow> P ys \<Longrightarrow> suffix ys (longest_suffix P xs)"
  by (induction xs) (auto simp: suffix_Cons)

lemma longest_suffix_id: "P xs \<Longrightarrow> longest_suffix P xs = xs"
  by (cases xs) auto

lemma dropWhile_longest_suffix:
  "dropWhile (\<lambda>x. \<not> f x) xs = longest_suffix (\<lambda>ys. ys \<noteq> [] \<longrightarrow> f (hd ys)) xs"
  by (induction xs) auto

lemma longest_suffix_conj:
  assumes "\<And>ys zs. suffix ys xs \<Longrightarrow> suffix zs ys \<Longrightarrow> P ys \<Longrightarrow> P zs"
  shows "longest_suffix Q (longest_suffix P xs) = longest_suffix (\<lambda>ys. P ys \<and> Q ys) xs"
  using assms
proof (induction xs)
  case Nil
  then show ?case by simp
next
  case (Cons x xs)
  show ?case
  proof (cases "P (x # xs)")
    case True
    then have P: "P ys" if "suffix ys (x # xs)" for ys
      using Cons.prems [of "x # xs" ys] that by simp
    have "longest_suffix Q ys = longest_suffix (\<lambda>ys. P ys \<and> Q ys) ys" if "suffix ys (x # xs)" for ys
      using that by (induction ys) (auto simp: P dest: suffix_ConsD)
    from this [of xs] True show ?thesis by (simp add: suffix_Cons)
  next
    case False
    with Cons show ?thesis by (auto simp: suffix_Cons)
  qed
qed

lemma longest_suffix_absorb:
  "(\<And>ys. P ys \<Longrightarrow> Q ys) \<Longrightarrow> longest_suffix P (longest_suffix Q xs) = longest_suffix P xs"
  by (induction xs) auto

section \<open>Interface: bounded histories\<close>

text \<open>
  What the packet flow relies on from a rolling history: an accepted push keeps a suffix of the
  old contents followed by the new item, a rejected one keeps a suffix of the old contents, and
  both keep the history's own invariant. \<open>None\<close> stands for a push that does not return, which the
  first law excludes.
\<close>

locale bounded_history =
  fixes items :: "'s \<Rightarrow> 'p list"
    and inv :: "'s \<Rightarrow> bool"
    and item_ok :: "'p \<Rightarrow> bool"
    and push :: "'p \<Rightarrow> 's \<Rightarrow> ('s \<times> ('e + 'o)) option"
    and clear :: "'s \<Rightarrow> 's"
  assumes push_returns: "inv s \<Longrightarrow> item_ok p \<Longrightarrow> \<exists>t r. push p s = Some (t, r)"
    and push_inv: "inv s \<Longrightarrow> item_ok p \<Longrightarrow> push p s = Some (t, r) \<Longrightarrow> inv t"
    and push_ok: "inv s \<Longrightarrow> item_ok p \<Longrightarrow> push p s = Some (t, Inr u) \<Longrightarrow> suffix (items t) (items s @ [p])"
    and push_err: "inv s \<Longrightarrow> item_ok p \<Longrightarrow> push p s = Some (t, Inl e) \<Longrightarrow> suffix (items t) (items s)"
    and clear_inv: "inv s \<Longrightarrow> inv (clear s)"
    and clear_items: "items (clear s) = []"
begin

lemma push_set:
  assumes "inv s" "item_ok p" "push p s = Some (t, r)"
  shows "set (items t) \<subseteq> insert p (set (items s))"
  using assms push_ok [of s p t] push_err [of s p t]
  by (cases r) (fastforce dest: set_mono_suffix)+

text \<open>Pushing a whole list, stopping at the first error.\<close>

primrec push_all :: "'p list \<Rightarrow> 's \<Rightarrow> ('s \<times> ('e + unit)) option" where
  "push_all [] s = Some (s, Inr ())"
| "push_all (p # ps) s = (case push p s of None \<Rightarrow> None
     | Some (t, Inl e) \<Rightarrow> Some (t, Inl e)
     | Some (t, Inr _) \<Rightarrow> push_all ps t)"

lemma push_all_returns:
  "inv s \<Longrightarrow> (\<forall>p \<in> set ps. item_ok p) \<Longrightarrow>
    \<exists>t r. push_all ps s = Some (t, r) \<and> inv t \<and> set (items t) \<subseteq> set ps \<union> set (items s)"
proof (induction ps arbitrary: s)
  case Nil
  then show ?case by simp
next
  case (Cons p ps)
  then obtain t r where t: "push p s = Some (t, r)" using push_returns by fastforce
  then have i: "inv t" and sub: "set (items t) \<subseteq> insert p (set (items s))"
    using Cons.prems push_inv push_set by (simp_all) blast+
  show ?case
  proof (cases r)
    case (Inl e)
    with t i sub show ?thesis by auto
  next
    case (Inr u)
    from Cons.IH [OF i] Cons.prems obtain t' r' where
      "push_all ps t = Some (t', r')" "inv t'" "set (items t') \<subseteq> set ps \<union> set (items t)" by auto
    with t Inr sub show ?thesis by auto
  qed
qed

lemma push_all_suffix:
  "inv s \<Longrightarrow> (\<forall>p \<in> set ps. item_ok p) \<Longrightarrow> push_all ps s = Some (t, Inr ()) \<Longrightarrow>
    suffix (items t) (items s @ ps)"
proof (induction ps arbitrary: s)
  case Nil
  then show ?case by simp
next
  case (Cons p ps)
  then obtain u v where u: "push p s = Some (u, Inr v)" "push_all ps u = Some (t, Inr ())"
    by (auto split: option.splits sum.splits)
  then have "suffix (items t) (items u @ ps)"
    using Cons.IH [of u] Cons.prems push_inv [of s p u "Inr v"] by simp
  moreover have "suffix (items u @ ps) ((items s @ [p]) @ ps)"
    using push_ok [of s p u v] Cons.prems u(1) by (auto simp: suffix_def)
  ultimately show ?case by (metis append.assoc append_Cons append_Nil suffix_order.trans)
qed

end

end
