(* ===== verification/Capture_Protocol.thy ===== *)
theory Capture_Protocol
  imports Redunar_Prelude
begin

text \<open>
  The datagram protocol between capture producers and the daemon,
  \<open>redunar-capture/src/lib.rs\<close> and \<open>redunar-capture/src/gpu_identity.rs\<close>: message types and
  their validation, the fixed little-endian layout written into caller-owned storage, and the
  decoder. Arrays \<open>[u8; 16]\<close> are byte lists whose length the well-formedness predicate states;
  an error is the message string the code returns.
\<close>

type_synonym protocol_error = string

section \<open>Constants\<close>

definition PROTOCOL_VERSION :: u16 where "PROTOCOL_VERSION = 7"
definition MAX_FRAME_INTERVALS :: nat where "MAX_FRAME_INTERVALS = 128"
definition MAX_REPLAY_SOURCE_WIDTH :: u32 where "MAX_REPLAY_SOURCE_WIDTH = 8192"
definition MAX_REPLAY_SOURCE_HEIGHT :: u32 where "MAX_REPLAY_SOURCE_HEIGHT = 8192"
definition MAX_REPLAY_SOURCE_PIXELS :: u64 where "MAX_REPLAY_SOURCE_PIXELS = 3840 * 2160"
definition REPLAY_ENCODER_PIPELINE_DEPTH :: nat where "REPLAY_ENCODER_PIPELINE_DEPTH = 4"
definition HEADER_BYTES :: nat where "HEADER_BYTES = 32"
definition HELLO_BYTES :: nat where "HELLO_BYTES = 16"
definition FRAME_BATCH_PREFIX_BYTES :: nat where "FRAME_BATCH_PREFIX_BYTES = 16"
definition GOODBYE_BYTES :: nat where "GOODBYE_BYTES = 16"
definition GPU_WIRE_BYTES :: nat where "GPU_WIRE_BYTES = 40"
definition REPLAY_SOURCE_CANDIDATE_BYTES :: nat where "REPLAY_SOURCE_CANDIDATE_BYTES = 16 + GPU_WIRE_BYTES"
definition REPLAY_SOURCE_REJECTED_BYTES :: nat where "REPLAY_SOURCE_REJECTED_BYTES = 8"
definition REPLAY_FRAME_COPIED_BYTES :: nat where "REPLAY_FRAME_COPIED_BYTES = 32 + GPU_WIRE_BYTES"
definition REPLAY_FRAME_EXPORTED_BYTES :: nat where "REPLAY_FRAME_EXPORTED_BYTES = 56 + GPU_WIRE_BYTES"
definition REPLAY_FRAME_RELEASED_BYTES :: nat where "REPLAY_FRAME_RELEASED_BYTES = 16"
definition OVERLAY_STATUS_BYTES :: nat where "OVERLAY_STATUS_BYTES = 8"
definition GPU_IDENTITY_BYTES :: nat where "GPU_IDENTITY_BYTES = 48"
definition MAX_MESSAGE_BYTES :: nat where
  "MAX_MESSAGE_BYTES = HEADER_BYTES + FRAME_BATCH_PREFIX_BYTES + 8 * MAX_FRAME_INTERVALS"
definition MAGIC :: "u8 list" where "MAGIC = ascii ''RDCAP001''"

definition KIND_HELLO :: u8 where "KIND_HELLO = 1"
definition KIND_FRAME_BATCH :: u8 where "KIND_FRAME_BATCH = 2"
definition KIND_GOODBYE :: u8 where "KIND_GOODBYE = 3"
definition KIND_REPLAY_SOURCE_CANDIDATE :: u8 where "KIND_REPLAY_SOURCE_CANDIDATE = 4"
definition KIND_REPLAY_SOURCE_REJECTED :: u8 where "KIND_REPLAY_SOURCE_REJECTED = 5"
definition KIND_REPLAY_FRAME_COPIED :: u8 where "KIND_REPLAY_FRAME_COPIED = 6"
definition KIND_OVERLAY_STATUS :: u8 where "KIND_OVERLAY_STATUS = 7"
definition KIND_REPLAY_FRAME_EXPORTED :: u8 where "KIND_REPLAY_FRAME_EXPORTED = 8"
definition KIND_REPLAY_FRAME_RELEASED :: u8 where "KIND_REPLAY_FRAME_RELEASED = 9"
definition KIND_GPU_IDENTITY :: u8 where "KIND_GPU_IDENTITY = 10"

lemmas size_consts = HEADER_BYTES_def HELLO_BYTES_def FRAME_BATCH_PREFIX_BYTES_def GOODBYE_BYTES_def
  GPU_WIRE_BYTES_def REPLAY_SOURCE_CANDIDATE_BYTES_def REPLAY_SOURCE_REJECTED_BYTES_def
  REPLAY_FRAME_COPIED_BYTES_def REPLAY_FRAME_EXPORTED_BYTES_def REPLAY_FRAME_RELEASED_BYTES_def
  OVERLAY_STATUS_BYTES_def GPU_IDENTITY_BYTES_def MAX_MESSAGE_BYTES_def MAX_FRAME_INTERVALS_def

lemmas kind_consts = KIND_HELLO_def KIND_FRAME_BATCH_def KIND_GOODBYE_def
  KIND_REPLAY_SOURCE_CANDIDATE_def KIND_REPLAY_SOURCE_REJECTED_def KIND_REPLAY_FRAME_COPIED_def
  KIND_OVERLAY_STATUS_def KIND_REPLAY_FRAME_EXPORTED_def KIND_REPLAY_FRAME_RELEASED_def
  KIND_GPU_IDENTITY_def

definition replay_source_dimensions_supported :: "u32 \<Rightarrow> u32 \<Rightarrow> bool" where
  "replay_source_dimensions_supported width height \<longleftrightarrow>
     width > 0 \<and> height > 0 \<and> width \<le> MAX_REPLAY_SOURCE_WIDTH \<and> height \<le> MAX_REPLAY_SOURCE_HEIGHT
     \<and> (ucast width :: u64) * ucast height \<le> MAX_REPLAY_SOURCE_PIXELS
     \<and> div_ceil width 16 * div_ceil height 16 \<le> 36864"

section \<open>GPU identity\<close>

record capture_gpu_identity =
  gi_vendor_id :: u32
  gi_device_uuid :: "u8 list"
  gi_driver_uuid :: "u8 list"

definition gpu_identity_new :: "u32 \<Rightarrow> u8 list \<Rightarrow> u8 list \<Rightarrow> protocol_error + capture_gpu_identity" where
  "gpu_identity_new vendor_id device_uuid driver_uuid =
     (if vendor_id = 0 \<or> vendor_id > 65535 \<or> device_uuid = replicate 16 0 \<or> driver_uuid = replicate 16 0
      then Inl ''capture GPU identity is unavailable''
      else Inr \<lparr>gi_vendor_id = vendor_id, gi_device_uuid = device_uuid, gi_driver_uuid = driver_uuid\<rparr>)"

text \<open>\<open>gpu_identity::encode(identity, &mut output[base..])\<close> and \<open>decode(&input[..])\<close>.\<close>

definition gpu_encode :: "capture_gpu_identity option \<Rightarrow> nat \<Rightarrow> u8 list \<Rightarrow> u8 list" where
  "gpu_encode identity base out =
     (let out = copy_at base (replicate GPU_WIRE_BYTES 0) out
      in case identity of None \<Rightarrow> out
       | Some i \<Rightarrow> copy_at (base + 20) (gi_driver_uuid i)
                    (copy_at (base + 4) (gi_device_uuid i)
                      (copy_at base (u32_to_le_bytes (gi_vendor_id i)) out)))"

definition gpu_decode :: "u8 list \<Rightarrow> protocol_error + capture_gpu_identity option" where
  "gpu_decode inp =
     (if list_all (\<lambda>b. b = 0) (take GPU_WIRE_BYTES inp) then Inr None
      else if list_ex (\<lambda>b. b \<noteq> 0) (slice 36 (GPU_WIRE_BYTES - 36) inp)
      then Inl ''capture GPU reserved fields are non-zero''
      else and_then (gpu_identity_new (u32_from_le_bytes (take 4 inp)) (slice 4 16 inp) (slice 20 16 inp))
             (\<lambda>i. Inr (Some i)))"

section \<open>Session ids\<close>

type_synonym capture_session_id = "u8 list"

definition session_id_new :: "u8 list \<Rightarrow> protocol_error + capture_session_id" where
  "session_id_new bytes = (if bytes = replicate 16 0 then Inl ''capture session id cannot be zero'' else Inr bytes)"

definition HEX :: "u8 list" where "HEX = ascii ''0123456789abcdef''"

definition to_hex :: "capture_session_id \<Rightarrow> u8 list" where
  "to_hex s = concat (map (\<lambda>byte. [HEX ! unat (drop_bit 4 byte), HEX ! unat (byte AND 0x0f)]) s)"

definition decode_hex :: "u8 \<Rightarrow> protocol_error + u8" where
  "decode_hex value =
     (if 48 \<le> value \<and> value \<le> 57 then Inr (value - 48)
      else if 97 \<le> value \<and> value \<le> 102 then Inr (value - 97 + 10)
      else Inl ''capture session id is not canonical lowercase hex'')"

fun decode_hex_pairs :: "u8 list \<Rightarrow> protocol_error + u8 list" where
  "decode_hex_pairs (a # b # rest) =
     and_then (decode_hex a) (\<lambda>hi. and_then (decode_hex b) (\<lambda>lo.
       and_then (decode_hex_pairs rest) (\<lambda>bytes. Inr ((push_bit 4 hi OR lo) # bytes))))"
| "decode_hex_pairs _ = Inr []"

definition from_hex :: "u8 list \<Rightarrow> protocol_error + capture_session_id" where
  "from_hex value =
     (if length value \<noteq> 32 then Inl ''capture session id has invalid length''
      else and_then (decode_hex_pairs value) session_id_new)"

section \<open>Message types\<close>

datatype capture_api = Vulkan | OpenGl
datatype goodbye_reason = NormalExit | ProcessExit | ProducerError
datatype overlay_failure_reason = RequiredVulkanFunctionsUnavailable | GraphicsQueueUnavailable
  | RendererCapacityReached | RequiredOpenGlFunctionsUnavailable
datatype overlay_runtime_status = Requested | Active | OverlayError overlay_failure_reason
datatype replay_pixel_format = Rgba8Unorm | Rgba8Srgb | Bgra8Unorm | Bgra8Srgb
  | A2b10g10r10Unorm | A2r10g10b10Unorm
datatype replay_source_rejection = InvalidStructure | ProtectedSwapchain | ArrayLayersUnsupported
  | TransferSourceUsageMissing | DimensionsUnsupported | PixelFormatUnsupported
  | ExternalMemoryUnsupported | EncoderBackendUnavailable | VideoEncodeUnsupported
  | GpuIdentityUnavailable

primrec api_wire :: "capture_api \<Rightarrow> u8" where "api_wire Vulkan = 1" | "api_wire OpenGl = 2"

definition api_from_wire :: "u8 \<Rightarrow> protocol_error + capture_api" where
  "api_from_wire v = (if v = 1 then Inr Vulkan else if v = 2 then Inr OpenGl
     else Inl ''unsupported capture API'')"

primrec goodbye_wire :: "goodbye_reason \<Rightarrow> u8" where
  "goodbye_wire NormalExit = 1" | "goodbye_wire ProcessExit = 2" | "goodbye_wire ProducerError = 3"

definition goodbye_from_wire :: "u8 \<Rightarrow> protocol_error + goodbye_reason" where
  "goodbye_from_wire v = (if v = 1 then Inr NormalExit else if v = 2 then Inr ProcessExit
     else if v = 3 then Inr ProducerError else Inl ''unsupported capture goodbye reason'')"

primrec overlay_failure_wire :: "overlay_failure_reason \<Rightarrow> u8" where
  "overlay_failure_wire RequiredVulkanFunctionsUnavailable = 1"
| "overlay_failure_wire GraphicsQueueUnavailable = 2"
| "overlay_failure_wire RendererCapacityReached = 3"
| "overlay_failure_wire RequiredOpenGlFunctionsUnavailable = 4"

definition overlay_failure_from_wire :: "u8 \<Rightarrow> protocol_error + overlay_failure_reason" where
  "overlay_failure_from_wire v =
     (if v = 1 then Inr RequiredVulkanFunctionsUnavailable
      else if v = 2 then Inr GraphicsQueueUnavailable
      else if v = 3 then Inr RendererCapacityReached
      else if v = 4 then Inr RequiredOpenGlFunctionsUnavailable
      else Inl ''overlay failure reason is unsupported'')"

primrec pixel_format_wire :: "replay_pixel_format \<Rightarrow> u8" where
  "pixel_format_wire Rgba8Unorm = 1" | "pixel_format_wire Rgba8Srgb = 2"
| "pixel_format_wire Bgra8Unorm = 3" | "pixel_format_wire Bgra8Srgb = 4"
| "pixel_format_wire A2b10g10r10Unorm = 5" | "pixel_format_wire A2r10g10b10Unorm = 6"

definition pixel_format_from_wire :: "u8 \<Rightarrow> protocol_error + replay_pixel_format" where
  "pixel_format_from_wire v =
     (if v = 1 then Inr Rgba8Unorm else if v = 2 then Inr Rgba8Srgb
      else if v = 3 then Inr Bgra8Unorm else if v = 4 then Inr Bgra8Srgb
      else if v = 5 then Inr A2b10g10r10Unorm else if v = 6 then Inr A2r10g10b10Unorm
      else Inl ''replay source pixel format is unsupported'')"

primrec rejection_wire :: "replay_source_rejection \<Rightarrow> u8" where
  "rejection_wire InvalidStructure = 1" | "rejection_wire ProtectedSwapchain = 2"
| "rejection_wire ArrayLayersUnsupported = 3" | "rejection_wire TransferSourceUsageMissing = 4"
| "rejection_wire DimensionsUnsupported = 5" | "rejection_wire PixelFormatUnsupported = 6"
| "rejection_wire ExternalMemoryUnsupported = 7" | "rejection_wire EncoderBackendUnavailable = 8"
| "rejection_wire VideoEncodeUnsupported = 9" | "rejection_wire GpuIdentityUnavailable = 10"

definition rejection_from_wire :: "u8 \<Rightarrow> protocol_error + replay_source_rejection" where
  "rejection_from_wire v =
     (if v = 1 then Inr InvalidStructure else if v = 2 then Inr ProtectedSwapchain
      else if v = 3 then Inr ArrayLayersUnsupported else if v = 4 then Inr TransferSourceUsageMissing
      else if v = 5 then Inr DimensionsUnsupported else if v = 6 then Inr PixelFormatUnsupported
      else if v = 7 then Inr ExternalMemoryUnsupported else if v = 8 then Inr EncoderBackendUnavailable
      else if v = 9 then Inr VideoEncodeUnsupported else if v = 10 then Inr GpuIdentityUnavailable
      else Inl ''replay source rejection reason is unsupported'')"

record replay_source_candidate =
  sc_gpu_identity :: "capture_gpu_identity option"
  sc_width :: u32
  sc_height :: u32
  sc_pixel_format :: replay_pixel_format
  sc_target_frames_per_second :: u8

definition candidate_validate :: "replay_source_candidate \<Rightarrow> protocol_error + unit" where
  "candidate_validate c =
     (if \<not> replay_source_dimensions_supported (sc_width c) (sc_height c)
      then Inl ''replay source dimensions are invalid''
      else if \<not> (sc_target_frames_per_second c = 30 \<or> sc_target_frames_per_second c = 60
                 \<or> sc_target_frames_per_second c = 120)
      then Inl ''replay source frame rate is invalid''
      else Inr ())"

text \<open>One constructor per variant, its fields in the order of the source.\<close>

datatype capture_message =
    GpuIdentity capture_session_id capture_api "capture_gpu_identity option"
  | Hello capture_session_id u32 capture_api u64
  | FrameBatch capture_session_id capture_api u64 "u64 list"
  | Goodbye capture_session_id capture_api u64 goodbye_reason
  | SourceCandidate capture_session_id replay_source_candidate
  | SourceRejected capture_session_id replay_source_rejection
  | FrameCopied capture_session_id u64 replay_source_candidate u32 u64
  | FrameExported capture_session_id u64 u32 replay_source_candidate u32 u32 u64 u64 u64
  | FrameReleased capture_session_id u64
  | OverlayStatus capture_session_id overlay_runtime_status

primrec message_session :: "capture_message \<Rightarrow> capture_session_id" where
  "message_session (GpuIdentity s _ _) = s"
| "message_session (Hello s _ _ _) = s"
| "message_session (FrameBatch s _ _ _) = s"
| "message_session (Goodbye s _ _ _) = s"
| "message_session (SourceCandidate s _) = s"
| "message_session (SourceRejected s _) = s"
| "message_session (FrameCopied s _ _ _ _) = s"
| "message_session (FrameExported s _ _ _ _ _ _ _ _) = s"
| "message_session (FrameReleased s _) = s"
| "message_session (OverlayStatus s _) = s"

section \<open>Validation\<close>

definition validate_intervals :: "u64 list \<Rightarrow> protocol_error + unit" where
  "validate_intervals intervals =
     (if intervals = [] then Inl ''capture frame batch cannot be empty''
      else if length intervals > MAX_FRAME_INTERVALS
      then Inl ''capture frame batch exceeds protocol limit''
      else if 0 \<in> set intervals then Inl ''capture frame intervals must be greater than zero''
      else Inr ())"

definition validate_copied_bytes :: "replay_source_candidate \<Rightarrow> u32 \<Rightarrow> protocol_error + unit" where
  "validate_copied_bytes source copied_bytes =
     and_then (ok_or (Option.bind (checked_mul (sc_width source) (sc_height source))
                        (\<lambda>pixels. checked_mul pixels 4)) ''replay copied byte count overflowed'')
       (\<lambda>expected. if copied_bytes \<noteq> expected
          then Inl ''replay copied byte count does not match its source'' else Inr ())"

definition validate_exported_frame :: "u32 \<Rightarrow> u32 \<Rightarrow> u32 \<Rightarrow> u64 \<Rightarrow> u64 \<Rightarrow> protocol_error + unit" where
  "validate_exported_frame fd_number offset stride timestamp_ns duration_ns =
     (if \<not> (3 \<le> fd_number \<and> fd_number \<le> 1000000) then Inl ''replay export FD number is invalid''
      else if stride = 0 \<or> stride > saturating_mul MAX_REPLAY_SOURCE_WIDTH 4
      then Inl ''replay export stride is invalid''
      else if duration_ns = 0 \<or> duration_ns > 1000000000 then Inl ''replay export duration is invalid''
      else if checked_add timestamp_ns duration_ns = None then Inl ''replay export timestamp overflows''
      else Inr ())"

primrec message_layout :: "capture_message \<Rightarrow> protocol_error + (u8 \<times> nat)" where
  "message_layout (GpuIdentity _ _ _) = Inr (KIND_GPU_IDENTITY, GPU_IDENTITY_BYTES)"
| "message_layout (Hello _ _ _ _) = Inr (KIND_HELLO, HELLO_BYTES)"
| "message_layout (FrameBatch _ _ _ intervals) =
     and_then (validate_intervals intervals)
       (\<lambda>_. Inr (KIND_FRAME_BATCH, FRAME_BATCH_PREFIX_BYTES + length intervals * 8))"
| "message_layout (Goodbye _ _ _ _) = Inr (KIND_GOODBYE, GOODBYE_BYTES)"
| "message_layout (SourceCandidate _ candidate) =
     and_then (candidate_validate candidate)
       (\<lambda>_. Inr (KIND_REPLAY_SOURCE_CANDIDATE, REPLAY_SOURCE_CANDIDATE_BYTES))"
| "message_layout (SourceRejected _ _) = Inr (KIND_REPLAY_SOURCE_REJECTED, REPLAY_SOURCE_REJECTED_BYTES)"
| "message_layout (FrameCopied _ _ source copied_bytes _) =
     and_then (candidate_validate source) (\<lambda>_. and_then (validate_copied_bytes source copied_bytes)
       (\<lambda>_. Inr (KIND_REPLAY_FRAME_COPIED, REPLAY_FRAME_COPIED_BYTES)))"
| "message_layout (FrameExported _ _ fd_number source offset stride _ timestamp_ns duration_ns) =
     and_then (candidate_validate source) (\<lambda>_.
       and_then (validate_exported_frame fd_number offset stride timestamp_ns duration_ns)
         (\<lambda>_. Inr (KIND_REPLAY_FRAME_EXPORTED, REPLAY_FRAME_EXPORTED_BYTES)))"
| "message_layout (FrameReleased _ _) = Inr (KIND_REPLAY_FRAME_RELEASED, REPLAY_FRAME_RELEASED_BYTES)"
| "message_layout (OverlayStatus _ _) = Inr (KIND_OVERLAY_STATUS, OVERLAY_STATUS_BYTES)"

section \<open>Encoding\<close>

definition write_u16 :: "nat \<Rightarrow> u16 \<Rightarrow> u8 list \<Rightarrow> u8 list" where
  "write_u16 offset value out = copy_at offset (u16_to_le_bytes value) out"
definition write_u32 :: "nat \<Rightarrow> u32 \<Rightarrow> u8 list \<Rightarrow> u8 list" where
  "write_u32 offset value out = copy_at offset (u32_to_le_bytes value) out"
definition write_u64 :: "nat \<Rightarrow> u64 \<Rightarrow> u8 list \<Rightarrow> u8 list" where
  "write_u64 offset value out = copy_at offset (u64_to_le_bytes value) out"

text \<open>\<open>output[offset] = byte\<close>.\<close>

definition write_u8 :: "nat \<Rightarrow> u8 \<Rightarrow> u8 list \<Rightarrow> u8 list" where
  "write_u8 offset byte out = out[offset := byte]"

fun write_intervals :: "nat \<Rightarrow> u64 list \<Rightarrow> u8 list \<Rightarrow> u8 list" where
  "write_intervals index [] out = out"
| "write_intervals index (interval # rest) out = write_intervals (index + 1) rest
     (write_u64 (HEADER_BYTES + FRAME_BATCH_PREFIX_BYTES + index * 8) interval out)"

definition encode_gpu_identity :: "capture_api \<Rightarrow> capture_gpu_identity option \<Rightarrow> u8 list \<Rightarrow> u8 list" where
  "encode_gpu_identity api identity out =
     write_u8 (HEADER_BYTES + 40) (api_wire api) (gpu_encode identity HEADER_BYTES out)"

definition encode_replay_source_candidate :: "replay_source_candidate \<Rightarrow> u8 list \<Rightarrow> u8 list" where
  "encode_replay_source_candidate c out =
     (let out = write_u32 HEADER_BYTES (sc_width c) out;
          out = write_u32 (HEADER_BYTES + 4) (sc_height c) out;
          out = write_u8 (HEADER_BYTES + 8) (pixel_format_wire (sc_pixel_format c)) out;
          out = write_u8 (HEADER_BYTES + 9) (sc_target_frames_per_second c) out
      in gpu_encode (sc_gpu_identity c) (HEADER_BYTES + 16) out)"

definition encode_replay_frame_copied ::
    "u64 \<Rightarrow> replay_source_candidate \<Rightarrow> u32 \<Rightarrow> u64 \<Rightarrow> u8 list \<Rightarrow> u8 list" where
  "encode_replay_frame_copied sequence c copied_bytes sample_checksum out =
     (let out = write_u64 HEADER_BYTES sequence out;
          out = write_u32 (HEADER_BYTES + 8) copied_bytes out;
          out = write_u32 (HEADER_BYTES + 12) (sc_width c) out;
          out = write_u32 (HEADER_BYTES + 16) (sc_height c) out;
          out = write_u8 (HEADER_BYTES + 20) (pixel_format_wire (sc_pixel_format c)) out;
          out = write_u8 (HEADER_BYTES + 21) (sc_target_frames_per_second c) out;
          out = write_u64 (HEADER_BYTES + 24) sample_checksum out
      in gpu_encode (sc_gpu_identity c) (HEADER_BYTES + 32) out)"

primrec status_wire :: "overlay_runtime_status \<Rightarrow> u8 \<times> u8" where
  "status_wire Requested = (1, 0)"
| "status_wire Active = (2, 0)"
| "status_wire (OverlayError reason) = (3, overlay_failure_wire reason)"

primrec encode_payload :: "capture_message \<Rightarrow> u8 list \<Rightarrow> protocol_error + u8 list" where
  "encode_payload (GpuIdentity _ api identity) out = Inr (encode_gpu_identity api identity out)"
| "encode_payload (Hello _ process_id api started) out =
     (let out = write_u32 HEADER_BYTES process_id out;
          out = write_u8 (HEADER_BYTES + 4) (api_wire api) out
      in Inr (write_u64 (HEADER_BYTES + 8) started out))"
| "encode_payload (FrameBatch _ api first_sequence intervals) out =
     (let out = write_u64 HEADER_BYTES first_sequence out
      in and_then (ok_or (try_from (length intervals)) ''capture frame count exceeds wire field'')
           (\<lambda>frame_count.
              let out = write_u16 (HEADER_BYTES + 8) frame_count out;
                  out = write_u8 (HEADER_BYTES + 10) (api_wire api) out
              in Inr (write_intervals 0 intervals out)))"
| "encode_payload (Goodbye _ api last_sequence reason) out =
     (let out = write_u64 HEADER_BYTES last_sequence out;
          out = write_u8 (HEADER_BYTES + 8) (goodbye_wire reason) out
      in Inr (write_u8 (HEADER_BYTES + 9) (api_wire api) out))"
| "encode_payload (SourceCandidate _ candidate) out = Inr (encode_replay_source_candidate candidate out)"
| "encode_payload (SourceRejected _ reason) out = Inr (write_u8 HEADER_BYTES (rejection_wire reason) out)"
| "encode_payload (FrameCopied _ sequence source copied_bytes checksum) out =
     Inr (encode_replay_frame_copied sequence source copied_bytes checksum out)"
| "encode_payload (FrameExported _ sequence fd_number source offset stride modifier timestamp_ns duration_ns) out =
     (let base = HEADER_BYTES;
          out = write_u64 base sequence out;
          out = write_u32 (base + 8) fd_number out;
          out = write_u32 (base + 12) (sc_width source) out;
          out = write_u32 (base + 16) (sc_height source) out;
          out = write_u8 (base + 20) (pixel_format_wire (sc_pixel_format source)) out;
          out = write_u8 (base + 21) (sc_target_frames_per_second source) out;
          out = write_u32 (base + 24) offset out;
          out = write_u32 (base + 28) stride out;
          out = write_u64 (base + 32) modifier out;
          out = write_u64 (base + 40) timestamp_ns out;
          out = write_u64 (base + 48) duration_ns out
      in Inr (gpu_encode (sc_gpu_identity source) (base + 56) out))"
| "encode_payload (FrameReleased _ sequence) out = Inr (write_u64 HEADER_BYTES sequence out)"
| "encode_payload (OverlayStatus _ status) out =
     (case status_wire status of (state, reason) \<Rightarrow>
        Inr (write_u8 (HEADER_BYTES + 1) reason (write_u8 HEADER_BYTES state out)))"

text \<open>The result: the storage after the call and the number of bytes written. A call that fails
  is given only its error; the storage is then of no interest to any caller.\<close>

definition encode_message :: "capture_message \<Rightarrow> u8 list \<Rightarrow> protocol_error + (u8 list \<times> nat)" where
  "encode_message message output =
     and_then (message_layout message) (\<lambda>(kind, payload_bytes).
       let message_bytes = HEADER_BYTES + payload_bytes
       in if message_bytes > MAX_MESSAGE_BYTES then Inl ''capture message exceeds protocol limit''
          else if length output < message_bytes then Inl ''capture output buffer is too small''
          else
            let out = copy_at 0 (replicate message_bytes 0) output;
                out = copy_at 0 MAGIC out;
                out = write_u16 8 PROTOCOL_VERSION out;
                out = write_u8 10 kind out
            in and_then (ok_or (try_from payload_bytes) ''capture payload length exceeds wire field'')
                 (\<lambda>payload_bytes.
                    let out = write_u16 12 payload_bytes out;
                        out = copy_at 16 (message_session message) out
                    in and_then (encode_payload message out) (\<lambda>out. Inr (out, message_bytes))))"

definition encode_frame_batch :: "capture_session_id \<Rightarrow> capture_api \<Rightarrow> u64 \<Rightarrow> u64 list \<Rightarrow> u8 list \<Rightarrow>
    protocol_error + (u8 list \<times> nat)" where
  "encode_frame_batch session_id api first_sequence intervals output =
     and_then (validate_intervals intervals) (\<lambda>_.
       let payload_bytes = FRAME_BATCH_PREFIX_BYTES + length intervals * 8;
           message_bytes = HEADER_BYTES + payload_bytes
       in if length output < message_bytes then Inl ''capture output buffer is too small''
          else
            let out = copy_at 0 (replicate message_bytes 0) output;
                out = copy_at 0 MAGIC out;
                out = write_u16 8 PROTOCOL_VERSION out;
                out = write_u8 10 KIND_FRAME_BATCH out
            in and_then (ok_or (try_from payload_bytes) ''capture payload length exceeds wire field'')
                 (\<lambda>payload_bytes.
                    and_then (ok_or (try_from (length intervals)) ''capture frame count exceeds wire field'')
                      (\<lambda>frame_count.
                         let out = write_u16 12 payload_bytes out;
                             out = copy_at 16 session_id out;
                             out = write_u64 HEADER_BYTES first_sequence out;
                             out = write_u16 (HEADER_BYTES + 8) frame_count out;
                             out = write_u8 (HEADER_BYTES + 10) (api_wire api) out
                         in Inr (write_intervals 0 intervals out, message_bytes))))"

section \<open>Decoding\<close>

definition read_u16 :: "u8 list \<Rightarrow> nat \<Rightarrow> u16" where
  "read_u16 inp offset = u16_from_le_bytes (slice offset 2 inp)"
definition read_u32 :: "u8 list \<Rightarrow> nat \<Rightarrow> u32" where
  "read_u32 inp offset = u32_from_le_bytes (slice offset 4 inp)"
definition read_u64 :: "u8 list \<Rightarrow> nat \<Rightarrow> u64" where
  "read_u64 inp offset = u64_from_le_bytes (slice offset 8 inp)"

text \<open>\<open>input[from..to].iter().any(|byte| *byte != 0)\<close>.\<close>

definition any_non_zero :: "u8 list \<Rightarrow> nat \<Rightarrow> nat \<Rightarrow> bool" where
  "any_non_zero inp start stop \<longleftrightarrow> list_ex (\<lambda>b. b \<noteq> 0) (slice start (stop - start) inp)"

definition decode_header :: "u8 list \<Rightarrow> protocol_error + (u8 \<times> nat \<times> capture_session_id)" where
  "decode_header inp =
     (if length inp < HEADER_BYTES then Inl ''capture message is truncated''
      else if length inp > MAX_MESSAGE_BYTES then Inl ''capture message exceeds protocol limit''
      else if slice 0 8 inp \<noteq> MAGIC then Inl ''capture message has invalid magic''
      else if read_u16 inp 8 \<noteq> PROTOCOL_VERSION then Inl ''capture protocol version is unsupported''
      else if inp ! 11 \<noteq> 0 \<or> read_u16 inp 14 \<noteq> 0
      then Inl ''capture message reserved fields are non-zero''
      else
        let payload_bytes = unat (read_u16 inp 12)
        in if length inp \<noteq> HEADER_BYTES + payload_bytes
           then Inl ''capture message length does not match header''
           else and_then (session_id_new (slice 16 16 inp))
                  (\<lambda>session_id. Inr (inp ! 10, payload_bytes, session_id)))"

definition decode_frame_batch :: "u8 list \<Rightarrow> capture_session_id \<Rightarrow> nat \<Rightarrow> protocol_error + capture_message" where
  "decode_frame_batch inp session_id payload_bytes =
     (if any_non_zero inp (HEADER_BYTES + 11) (HEADER_BYTES + FRAME_BATCH_PREFIX_BYTES)
      then Inl ''capture frame batch reserved fields are non-zero''
      else
        let count = unat (read_u16 inp (HEADER_BYTES + 8))
        in if payload_bytes \<noteq> FRAME_BATCH_PREFIX_BYTES + count * 8
           then Inl ''capture frame batch count does not match payload''
           else
             let intervals = map (\<lambda>index. read_u64 inp (HEADER_BYTES + FRAME_BATCH_PREFIX_BYTES + index * 8))
                               [0..<count]
             in and_then (validate_intervals intervals) (\<lambda>_.
                  and_then (api_from_wire (inp ! (HEADER_BYTES + 10))) (\<lambda>api.
                    Inr (FrameBatch session_id api (read_u64 inp HEADER_BYTES) intervals))))"

definition decode_goodbye :: "u8 list \<Rightarrow> capture_session_id \<Rightarrow> protocol_error + capture_message" where
  "decode_goodbye inp session_id =
     (if any_non_zero inp (HEADER_BYTES + 10) (HEADER_BYTES + GOODBYE_BYTES)
      then Inl ''capture goodbye reserved fields are non-zero''
      else and_then (api_from_wire (inp ! (HEADER_BYTES + 9))) (\<lambda>api.
             and_then (goodbye_from_wire (inp ! (HEADER_BYTES + 8))) (\<lambda>reason.
               Inr (Goodbye session_id api (read_u64 inp HEADER_BYTES) reason))))"

definition decode_overlay_status :: "u8 list \<Rightarrow> capture_session_id \<Rightarrow> protocol_error + capture_message" where
  "decode_overlay_status inp session_id =
     (if any_non_zero inp (HEADER_BYTES + 2) (HEADER_BYTES + OVERLAY_STATUS_BYTES)
      then Inl ''overlay status reserved fields are non-zero''
      else
        let state = inp ! HEADER_BYTES; reason = inp ! (HEADER_BYTES + 1)
        in and_then
             (if state = 1 \<and> reason = 0 then Inr Requested
              else if state = 2 \<and> reason = 0 then Inr Active
              else if state = 3
              then and_then (overlay_failure_from_wire reason) (\<lambda>r. Inr (OverlayError r))
              else Inl ''overlay status is invalid'')
             (\<lambda>status. Inr (OverlayStatus session_id status)))"

definition decode_replay_source_candidate ::
    "u8 list \<Rightarrow> capture_session_id \<Rightarrow> protocol_error + capture_message" where
  "decode_replay_source_candidate inp session_id =
     (if any_non_zero inp (HEADER_BYTES + 10) (HEADER_BYTES + 16)
      then Inl ''replay source reserved fields are non-zero''
      else and_then (gpu_decode (drop (HEADER_BYTES + 16) inp)) (\<lambda>gpu.
             and_then (pixel_format_from_wire (inp ! (HEADER_BYTES + 8))) (\<lambda>format.
               let candidate = \<lparr>sc_gpu_identity = gpu, sc_width = read_u32 inp HEADER_BYTES,
                     sc_height = read_u32 inp (HEADER_BYTES + 4), sc_pixel_format = format,
                     sc_target_frames_per_second = inp ! (HEADER_BYTES + 9)\<rparr>
               in and_then (candidate_validate candidate)
                    (\<lambda>_. Inr (SourceCandidate session_id candidate)))))"

definition decode_replay_source_rejection ::
    "u8 list \<Rightarrow> capture_session_id \<Rightarrow> protocol_error + capture_message" where
  "decode_replay_source_rejection inp session_id =
     (if any_non_zero inp (HEADER_BYTES + 1) (HEADER_BYTES + REPLAY_SOURCE_REJECTED_BYTES)
      then Inl ''replay source rejection reserved fields are non-zero''
      else and_then (rejection_from_wire (inp ! HEADER_BYTES))
             (\<lambda>reason. Inr (SourceRejected session_id reason)))"

definition decode_replay_frame_copied ::
    "u8 list \<Rightarrow> capture_session_id \<Rightarrow> protocol_error + capture_message" where
  "decode_replay_frame_copied inp session_id =
     (if any_non_zero inp (HEADER_BYTES + 22) (HEADER_BYTES + 24)
      then Inl ''replay frame copy reserved fields are non-zero''
      else
        let copied_bytes = read_u32 inp (HEADER_BYTES + 8)
        in and_then (gpu_decode (drop (HEADER_BYTES + 32) inp)) (\<lambda>gpu.
             and_then (pixel_format_from_wire (inp ! (HEADER_BYTES + 20))) (\<lambda>format.
               let source = \<lparr>sc_gpu_identity = gpu, sc_width = read_u32 inp (HEADER_BYTES + 12),
                     sc_height = read_u32 inp (HEADER_BYTES + 16), sc_pixel_format = format,
                     sc_target_frames_per_second = inp ! (HEADER_BYTES + 21)\<rparr>
               in and_then (candidate_validate source) (\<lambda>_.
                    and_then (validate_copied_bytes source copied_bytes) (\<lambda>_.
                      Inr (FrameCopied session_id (read_u64 inp HEADER_BYTES) source copied_bytes
                             (read_u64 inp (HEADER_BYTES + 24))))))))"

definition decode_replay_frame_exported ::
    "u8 list \<Rightarrow> capture_session_id \<Rightarrow> protocol_error + capture_message" where
  "decode_replay_frame_exported inp session_id =
     (let base = HEADER_BYTES
      in if any_non_zero inp (base + 22) (base + 24)
         then Inl ''replay frame export reserved fields are non-zero''
         else and_then (gpu_decode (drop (HEADER_BYTES + 56) inp)) (\<lambda>gpu.
             and_then (pixel_format_from_wire (inp ! (base + 20))) (\<lambda>format.
               let source = \<lparr>sc_gpu_identity = gpu, sc_width = read_u32 inp (base + 12),
                     sc_height = read_u32 inp (base + 16), sc_pixel_format = format,
                     sc_target_frames_per_second = inp ! (base + 21)\<rparr>;
                   fd_number = read_u32 inp (base + 8);
                   offset = read_u32 inp (base + 24);
                   stride = read_u32 inp (base + 28);
                   modifier = read_u64 inp (base + 32);
                   timestamp_ns = read_u64 inp (base + 40);
                   duration_ns = read_u64 inp (base + 48)
               in and_then (candidate_validate source) (\<lambda>_.
                    and_then (validate_exported_frame fd_number offset stride timestamp_ns duration_ns) (\<lambda>_.
                      Inr (FrameExported session_id (read_u64 inp base) fd_number source offset stride
                             modifier timestamp_ns duration_ns))))))"

definition decode_message :: "u8 list \<Rightarrow> protocol_error + capture_message" where
  "decode_message inp =
     and_then (decode_header inp) (\<lambda>(kind, payload_bytes, session_id).
       if kind = KIND_GPU_IDENTITY \<and> payload_bytes = GPU_IDENTITY_BYTES then
         (if any_non_zero inp (HEADER_BYTES + 41) (length inp)
          then Inl ''capture GPU message reserved fields are non-zero''
          else and_then (api_from_wire (inp ! (HEADER_BYTES + 40))) (\<lambda>api.
                 and_then (gpu_decode (drop HEADER_BYTES inp)) (\<lambda>identity.
                   Inr (GpuIdentity session_id api identity))))
       else if kind = KIND_HELLO \<and> payload_bytes = HELLO_BYTES then
         (let process_id = read_u32 inp HEADER_BYTES
          in and_then (api_from_wire (inp ! (HEADER_BYTES + 4))) (\<lambda>api.
               Inr (Hello session_id process_id api (read_u64 inp (HEADER_BYTES + 8)))))
       else if kind = KIND_FRAME_BATCH \<and> payload_bytes \<ge> FRAME_BATCH_PREFIX_BYTES then
         decode_frame_batch inp session_id payload_bytes
       else if kind = KIND_GOODBYE \<and> payload_bytes = GOODBYE_BYTES then decode_goodbye inp session_id
       else if kind = KIND_REPLAY_SOURCE_CANDIDATE \<and> payload_bytes = REPLAY_SOURCE_CANDIDATE_BYTES then
         decode_replay_source_candidate inp session_id
       else if kind = KIND_REPLAY_SOURCE_REJECTED \<and> payload_bytes = REPLAY_SOURCE_REJECTED_BYTES then
         decode_replay_source_rejection inp session_id
       else if kind = KIND_REPLAY_FRAME_COPIED \<and> payload_bytes = REPLAY_FRAME_COPIED_BYTES then
         decode_replay_frame_copied inp session_id
       else if kind = KIND_REPLAY_FRAME_EXPORTED \<and> payload_bytes = REPLAY_FRAME_EXPORTED_BYTES then
         decode_replay_frame_exported inp session_id
       else if kind = KIND_REPLAY_FRAME_RELEASED \<and> payload_bytes = REPLAY_FRAME_RELEASED_BYTES then
         (if any_non_zero inp (HEADER_BYTES + 8) (HEADER_BYTES + REPLAY_FRAME_RELEASED_BYTES)
          then Inl ''replay frame release reserved fields are non-zero''
          else Inr (FrameReleased session_id (read_u64 inp HEADER_BYTES)))
       else if kind = KIND_OVERLAY_STATUS \<and> payload_bytes = OVERLAY_STATUS_BYTES then
         decode_overlay_status inp session_id
       else if kind \<in> {KIND_GPU_IDENTITY, KIND_HELLO, KIND_FRAME_BATCH, KIND_GOODBYE,
                  KIND_REPLAY_SOURCE_CANDIDATE, KIND_REPLAY_SOURCE_REJECTED, KIND_REPLAY_FRAME_COPIED,
                  KIND_REPLAY_FRAME_EXPORTED, KIND_REPLAY_FRAME_RELEASED, KIND_OVERLAY_STATUS}
       then Inl ''capture message payload has invalid size''
       else Inl ''capture message kind is unsupported'')"

section \<open>Well-formed messages\<close>

text \<open>What Rust's types guarantee: arrays of sixteen bytes, ids and identities from their
  constructors.\<close>

definition session_ok :: "capture_session_id \<Rightarrow> bool" where
  "session_ok s \<longleftrightarrow> length s = 16 \<and> s \<noteq> replicate 16 0"

definition gpu_ok :: "capture_gpu_identity option \<Rightarrow> bool" where
  "gpu_ok g = (case g of None \<Rightarrow> True
     | Some i \<Rightarrow> length (gi_device_uuid i) = 16 \<and> length (gi_driver_uuid i) = 16
         \<and> gpu_identity_new (gi_vendor_id i) (gi_device_uuid i) (gi_driver_uuid i) = Inr i)"

fun message_gpu :: "capture_message \<Rightarrow> capture_gpu_identity option" where
  "message_gpu (GpuIdentity _ _ g) = g"
| "message_gpu (SourceCandidate _ c) = sc_gpu_identity c"
| "message_gpu (FrameCopied _ _ c _ _) = sc_gpu_identity c"
| "message_gpu (FrameExported _ _ _ c _ _ _ _ _) = sc_gpu_identity c"
| "message_gpu _ = None"

definition message_ok :: "capture_message \<Rightarrow> bool" where
  "message_ok m \<longleftrightarrow> session_ok (message_session m) \<and> gpu_ok (message_gpu m)"

end
