(* ===== verification/Capture_Wire.thy ===== *)
theory Capture_Wire
  imports Capture_Protocol
begin

text \<open>
  The wire layout of the capture protocol as a specification, and the two directions against it:
  the in-place encoder writes exactly that layout, and the decoder accepts exactly the encodings
  of well-formed messages (up to the three bytes of a Hello it does not look at).
\<close>

section \<open>The wire layout\<close>

text \<open>The layout as a specification: what bytes a message is.\<close>

definition gpu_wire :: "capture_gpu_identity option \<Rightarrow> u8 list" where
  "gpu_wire g = (case g of None \<Rightarrow> replicate 40 0
     | Some i \<Rightarrow> u32_to_le_bytes (gi_vendor_id i) @ gi_device_uuid i @ gi_driver_uuid i @ replicate 4 0)"

primrec payload_wire :: "capture_message \<Rightarrow> u8 list" where
  "payload_wire (GpuIdentity _ api g) = gpu_wire g @ [api_wire api] @ replicate 7 0"
| "payload_wire (Hello _ pid api started) =
     u32_to_le_bytes pid @ [api_wire api] @ replicate 3 0 @ u64_to_le_bytes started"
| "payload_wire (FrameBatch _ api first intervals) =
     u64_to_le_bytes first @ u16_to_le_bytes (word_of_nat (length intervals)) @ [api_wire api]
       @ replicate 5 0 @ concat (map u64_to_le_bytes intervals)"
| "payload_wire (Goodbye _ api seq reason) =
     u64_to_le_bytes seq @ [goodbye_wire reason] @ [api_wire api] @ replicate 6 0"
| "payload_wire (SourceCandidate _ c) =
     u32_to_le_bytes (sc_width c) @ u32_to_le_bytes (sc_height c)
       @ [pixel_format_wire (sc_pixel_format c)] @ [sc_target_frames_per_second c] @ replicate 6 0
       @ gpu_wire (sc_gpu_identity c)"
| "payload_wire (SourceRejected _ reason) = [rejection_wire reason] @ replicate 7 0"
| "payload_wire (FrameCopied _ seq c copied checksum) =
     u64_to_le_bytes seq @ u32_to_le_bytes copied @ u32_to_le_bytes (sc_width c)
       @ u32_to_le_bytes (sc_height c) @ [pixel_format_wire (sc_pixel_format c)]
       @ [sc_target_frames_per_second c] @ replicate 2 0 @ u64_to_le_bytes checksum
       @ gpu_wire (sc_gpu_identity c)"
| "payload_wire (FrameExported _ seq fd c offset stride modifier timestamp duration) =
     u64_to_le_bytes seq @ u32_to_le_bytes fd @ u32_to_le_bytes (sc_width c)
       @ u32_to_le_bytes (sc_height c) @ [pixel_format_wire (sc_pixel_format c)]
       @ [sc_target_frames_per_second c] @ replicate 2 0 @ u32_to_le_bytes offset
       @ u32_to_le_bytes stride @ u64_to_le_bytes modifier @ u64_to_le_bytes timestamp
       @ u64_to_le_bytes duration @ gpu_wire (sc_gpu_identity c)"
| "payload_wire (FrameReleased _ seq) = u64_to_le_bytes seq @ replicate 8 0"
| "payload_wire (OverlayStatus _ status) =
     [fst (status_wire status)] @ [snd (status_wire status)] @ replicate 6 0"

definition header_wire :: "u8 \<Rightarrow> nat \<Rightarrow> capture_session_id \<Rightarrow> u8 list" where
  "header_wire kind n session = MAGIC @ u16_to_le_bytes PROTOCOL_VERSION @ [kind] @ [0]
     @ u16_to_le_bytes (word_of_nat n) @ [0, 0] @ session"

text \<open>A buffer with the part \<open>A\<close> already written, then \<open>k\<close> zero bytes, then what lies behind
  the message. The encoder only ever writes forward.\<close>

definition zbuf :: "u8 list \<Rightarrow> nat \<Rightarrow> u8 list \<Rightarrow> u8 list" where
  "zbuf A k R = A @ replicate k 0 @ R"

lemma copy_at_zbuf:
  assumes "length A \<le> off" "off + length bs \<le> length A + k"
  shows "copy_at off bs (zbuf A k R) =
    zbuf (A @ replicate (off - length A) 0 @ bs) (length A + k - off - length bs) R"
  using assms by (auto simp: zbuf_def copy_at_def min_def add.commute)

lemma write_u8_zbuf:
  assumes "length A \<le> off" "off < length A + k"
  shows "write_u8 off b (zbuf A k R) =
    zbuf (A @ replicate (off - length A) 0 @ [b]) (length A + k - off - 1) R"
proof -
  have "write_u8 off b (zbuf A k R) = copy_at off [b] (zbuf A k R)"
    using assms by (simp add: write_u8_def zbuf_def copy_at_def upd_conv_take_nth_drop)
  then show ?thesis using assms by (simp add: copy_at_zbuf)
qed

lemma copy_zeros_zbuf:
  assumes "length A \<le> off" "off + n \<le> length A + k"
  shows "copy_at off (replicate n 0) (zbuf A k R) = zbuf A k R"
proof -
  have "k = (off - length A) + (n + (length A + k - off - n))" using assms by linarith
  then have "replicate k (0 :: u8) = replicate (off - length A) 0 @ replicate n 0
      @ replicate (length A + k - off - n) 0" by (metis replicate_add)
  then show ?thesis using copy_at_zbuf [of A off "replicate n 0" k R] assms by (simp add: zbuf_def)
qed

lemma zbuf_advance: "n \<le> k \<Longrightarrow> zbuf A k R = zbuf (A @ replicate n 0) (k - n) R"
  by (metis (no_types, lifting) append.assoc le_add_diff_inverse replicate_add zbuf_def)

lemma gpu_encode_zbuf:
  assumes "length A \<le> base" "base + 40 \<le> length A + k" "gpu_ok g"
  shows "gpu_encode g base (zbuf A k R) =
    zbuf (A @ replicate (base - length A) 0 @ gpu_wire g) (length A + k - base - 40) R"
proof (cases g)
  case None
  have "gpu_encode g base (zbuf A k R) = zbuf A k R"
    using assms copy_zeros_zbuf [of A base 40 k R] by (simp add: gpu_encode_def None GPU_WIRE_BYTES_def)
  also have "\<dots> = zbuf (A @ replicate (base - length A + 40) 0) (k - (base - length A + 40)) R"
    using assms by (intro zbuf_advance) linarith
  also have "k - (base - length A + 40) = length A + k - base - 40" using assms by linarith
  finally show ?thesis by (simp add: None gpu_wire_def replicate_add)
next
  case (Some i)
  then have len: "length (gi_device_uuid i) = 16" "length (gi_driver_uuid i) = 16"
    using assms(3) by (auto simp: gpu_ok_def)
  have "gpu_encode g base (zbuf A k R) = zbuf (A @ replicate (base - length A) 0
      @ u32_to_le_bytes (gi_vendor_id i) @ gi_device_uuid i @ gi_driver_uuid i) (length A + k - base - 36) R"
    using assms(1,2) copy_zeros_zbuf [of A base 40 k R]
    by (simp add: gpu_encode_def Some GPU_WIRE_BYTES_def copy_at_zbuf len add.commute)
  also have "\<dots> = zbuf ((A @ replicate (base - length A) 0 @ u32_to_le_bytes (gi_vendor_id i)
      @ gi_device_uuid i @ gi_driver_uuid i) @ replicate 4 0) (length A + k - base - 36 - 4) R"
    using assms(2) by (intro zbuf_advance) linarith
  finally show ?thesis by (simp add: Some gpu_wire_def add.commute)
qed

lemma write_intervals_zbuf:
  assumes "length A = 48 + index * 8" "length xs * 8 \<le> k"
  shows "write_intervals index xs (zbuf A k R) =
    zbuf (A @ concat (map u64_to_le_bytes xs)) (k - length xs * 8) R"
  using assms
proof (induction xs arbitrary: index A k)
  case Nil
  then show ?case by simp
next
  case (Cons x xs)
  have "write_u64 (HEADER_BYTES + FRAME_BATCH_PREFIX_BYTES + index * 8) x (zbuf A k R)
      = zbuf (A @ u64_to_le_bytes x) (k - 8) R"
    using Cons.prems by (simp add: write_u64_def size_consts copy_at_zbuf)
  with Cons.IH [of "A @ u64_to_le_bytes x" "index + 1" "k - 8"] Cons.prems show ?case
    by (simp add: algebra_simps)
qed

lemma length_MAGIC [simp]: "length MAGIC = 8"
  by (simp add: MAGIC_def)

lemma length_gpu_wire [simp]: "gpu_ok g \<Longrightarrow> length (gpu_wire g) = 40"
  by (auto simp: gpu_wire_def gpu_ok_def split: option.splits)

lemma length_header_wire [simp]: "length s = 16 \<Longrightarrow> length (header_wire kind n s) = 32"
  by (simp add: header_wire_def)

lemma length_concat_u64 [simp]: "length (concat (map u64_to_le_bytes xs)) = length xs * 8"
  by (induction xs) auto

lemma validate_intervals_Inr:
  "validate_intervals xs = Inr u \<longleftrightarrow> xs \<noteq> [] \<and> length xs \<le> 128 \<and> 0 \<notin> set xs"
  by (auto simp: validate_intervals_def size_consts)

lemma layout_payload:
  assumes "message_ok m" "message_layout m = Inr (kind, n)"
  shows "length (payload_wire m) = n \<and> n \<le> 1040"
  using assms
  by (cases m) (auto simp: message_ok_def size_consts and_then_Inr validate_intervals_Inr)

lemma encode_payload_zbuf:
  assumes "message_ok m" "message_layout m = Inr (kind, n)" "length A = 32"
  shows "encode_payload m (zbuf A n R) = Inr (A @ payload_wire m @ R)"
proof (cases m)
  case (FrameBatch s api first xs)
  then have "length xs \<le> 128" "n = 16 + length xs * 8"
    using assms(2) by (auto simp: and_then_Inr validate_intervals_Inr size_consts)
  moreover have "write_intervals 0 xs (zbuf B (5 + length xs * 8) R) =
      B @ replicate 5 0 @ concat (map u64_to_le_bytes xs) @ R" if "length B = 43" for B
    using write_intervals_zbuf [of "B @ replicate 5 0" 0 xs "length xs * 8" R] that
      zbuf_advance [of 5 "5 + length xs * 8" B R]
    by (simp add: zbuf_def)
  ultimately show ?thesis using FrameBatch assms(3)
    by (simp add: Let_def write_u64_def write_u16_def write_u8_zbuf copy_at_zbuf size_consts
        try_from_def)
qed (use assms in \<open>auto simp: message_ok_def Let_def write_u64_def write_u16_def write_u32_def write_u8_zbuf
    copy_at_zbuf size_consts gpu_encode_zbuf and_then_Inr encode_gpu_identity_def
    encode_replay_source_candidate_def encode_replay_frame_copied_def split: prod.splits\<close>,
    (simp add: zbuf_def)+)

lemma encode_message_wire:
  assumes "message_ok m" "message_layout m = Inr (kind, n)" "32 + n \<le> length out"
  shows "encode_message m out =
    Inr ((header_wire kind n (message_session m) @ payload_wire m) @ drop (32 + n) out, 32 + n)"
proof -
  have n: "n \<le> 1040" using layout_payload [OF assms(1,2)] by simp
  let ?R = "drop (32 + n) out"
  have s: "length (message_session m) = 16" using assms(1) by (simp add: message_ok_def session_ok_def)
  have z: "copy_at 0 (replicate (32 + n) 0) out = zbuf [] (32 + n) ?R"
    by (simp add: copy_at_def zbuf_def)
  have "copy_at 16 (message_session m) (write_u16 12 (word_of_nat n) (write_u8 10 kind
      (write_u16 8 PROTOCOL_VERSION (copy_at 0 MAGIC (zbuf [] (32 + n) ?R)))))
    = zbuf (header_wire kind n (message_session m)) n ?R"
    by (simp add: write_u16_def write_u8_zbuf copy_at_zbuf s header_wire_def numeral_2_eq_2)
  then show ?thesis
    using assms n encode_payload_zbuf [OF assms(1,2), of "header_wire kind n (message_session m)" ?R]
    by (simp add: encode_message_def size_consts Let_def z try_from_def s del: replicate_add)
qed

section \<open>Decoding the layout\<close>

lemma candidate_eta [simp]:
  "\<lparr>sc_gpu_identity = sc_gpu_identity c, sc_width = sc_width c, sc_height = sc_height c,
    sc_pixel_format = sc_pixel_format c,
    sc_target_frames_per_second = sc_target_frames_per_second c\<rparr> = c"
  by (cases c) simp


lemma from_wire_wire [simp]:
  "api_from_wire (api_wire a) = Inr a" "goodbye_from_wire (goodbye_wire g) = Inr g"
  "overlay_failure_from_wire (overlay_failure_wire f) = Inr f"
  "pixel_format_from_wire (pixel_format_wire p) = Inr p"
  "rejection_from_wire (rejection_wire r) = Inr r"
proof -
  show "api_from_wire (api_wire a) = Inr a" by (cases a) (simp_all add: api_from_wire_def)
  show "goodbye_from_wire (goodbye_wire g) = Inr g" by (cases g) (simp_all add: goodbye_from_wire_def)
  show "overlay_failure_from_wire (overlay_failure_wire f) = Inr f"
    by (cases f) (simp_all add: overlay_failure_from_wire_def)
  show "pixel_format_from_wire (pixel_format_wire p) = Inr p"
    by (cases p) (simp_all add: pixel_format_from_wire_def)
  show "rejection_from_wire (rejection_wire r) = Inr r"
    by (cases r) (simp_all add: rejection_from_wire_def)
qed

lemma u32_le_zero: "u32_to_le_bytes v = replicate 4 0 \<Longrightarrow> v = 0"
  using u32_from_to_le [of v] by (simp add: u32_from_le_bytes_def nat_of_be_def numeral_eq_Suc)

lemma u16_le_zeros: "u16_from_le_bytes [0, 0] = 0"
  by (simp add: u16_from_le_bytes_def nat_of_be_def)

lemma gpu_decode_wire: "gpu_ok g \<Longrightarrow> gpu_decode (gpu_wire g @ rest) = Inr g"
proof (cases g)
  case None
  then show ?thesis by (simp add: gpu_wire_def gpu_decode_def GPU_WIRE_BYTES_def list_all_iff)
next
  case (Some i)
  assume "gpu_ok g"
  with Some have len: "length (gi_device_uuid i) = 16" "length (gi_driver_uuid i) = 16"
    and new: "gpu_identity_new (gi_vendor_id i) (gi_device_uuid i) (gi_driver_uuid i) = Inr i"
    by (auto simp: gpu_ok_def)
  have "gi_vendor_id i \<noteq> 0" using new by (auto simp: gpu_identity_new_def split: if_splits)
  then have "\<not> list_all (\<lambda>b. b = 0) (u32_to_le_bytes (gi_vendor_id i))"
    using u32_le_zero [of "gi_vendor_id i"] replicate_length_same [of "u32_to_le_bytes (gi_vendor_id i)" 0]
    unfolding list_all_iff by force
  then show ?thesis
    using new by (simp add: gpu_decode_def Some gpu_wire_def GPU_WIRE_BYTES_def len slice_layout list_ex_iff)
qed

lemma decode_header_wire:
  assumes "session_ok s" "length p = n" "n \<le> 1040"
  shows "decode_header (header_wire kind n s @ p) = Inr (kind, n, s)"
proof -
  have "unat (word_of_nat n :: u16) = n" using assms(3) by (simp add: unat_of_nat)
  with assms show ?thesis
    by (simp add: decode_header_def header_wire_def session_ok_def size_consts read_u16_def
        slice_layout nth_append session_id_new_def u16_le_zeros Let_def)
qed

lemma any_non_zero_payload:
  "length h = 32 \<Longrightarrow> 32 \<le> a \<Longrightarrow> any_non_zero (h @ p) a b \<longleftrightarrow> any_non_zero p (a - 32) (b - 32)"
  by (simp add: any_non_zero_def slice_append2)

lemma slice_payload:
  "length h = 32 \<Longrightarrow> 32 \<le> a \<Longrightarrow> slice a n (h @ p) = slice (a - 32) n p"
  by (simp add: slice_append2)

lemma any_non_zero_replicate:
  "slice a (b - a) p = replicate k 0 \<Longrightarrow> \<not> any_non_zero p a b"
  by (simp add: any_non_zero_def list_ex_iff)

lemma decode_intervals:
  "map (\<lambda>i. read_u64 (A @ concat (map u64_to_le_bytes xs)) (length A + i * 8)) [0..<length xs] = xs"
proof (induction xs arbitrary: A)
  case Nil
  then show ?case by simp
next
  case (Cons x xs)
  have hd: "read_u64 (A @ concat (map u64_to_le_bytes (x # xs))) (length A) = x"
    by (simp add: read_u64_def slice_layout)
  have "[0..<length (x # xs)] = 0 # map Suc [0..<length xs]" by (simp add: upt_conv_Cons map_Suc_upt del: upt_Suc)
  with hd Cons.IH [of "A @ u64_to_le_bytes x"] show ?case
    by (simp add: comp_def add.commute add.left_commute)
qed

lemma decode_message_wire:
  assumes "message_ok m" "message_layout m = Inr (kind, n)"
  shows "decode_message (header_wire kind n (message_session m) @ payload_wire m) = Inr m"
proof -
  let ?h = "header_wire kind n (message_session m)"
  have s: "session_ok (message_session m)" and g: "gpu_ok (message_gpu m)"
    using assms(1) by (simp_all add: message_ok_def)
  have sl: "length (message_session m) = 16" using s by (simp add: session_ok_def)
  then have h: "length ?h = 32" by simp
  have d: "decode_header (?h @ payload_wire m) = Inr (kind, n, message_session m)"
    using layout_payload [OF assms] s by (intro decode_header_wire) auto
  note red = decode_message_def d size_consts kind_consts h nth_append read_u32_def read_u64_def
    read_u16_def slice_payload slice_layout any_non_zero_payload any_non_zero_def list_ex_iff Let_def
  show ?thesis
  proof (cases m)
    case (FrameBatch sid api first xs)
    then have n: "length xs \<le> 128" "n = 16 + length xs * 8" "validate_intervals xs = Inr ()"
      "kind = KIND_FRAME_BATCH"
      using assms(2) by (auto simp: and_then_Inr validate_intervals_Inr size_consts)
    then have c: "unat (word_of_nat (length xs) :: u16) = length xs" by (simp add: unat_of_nat)
    let ?A = "?h @ u64_to_le_bytes first @ u16_to_le_bytes (word_of_nat (length xs)) @ [api_wire api] @ replicate 5 0"
    have "map (\<lambda>i. read_u64 (?A @ concat (map u64_to_le_bytes xs)) (48 + i * 8)) [0..<length xs] = xs"
      using decode_intervals [of ?A xs] by (simp add: h)
    then show ?thesis using FrameBatch d n sl
      by (simp add: decode_message_def size_consts kind_consts decode_frame_batch_def Let_def
          any_non_zero_payload h any_non_zero_def list_ex_iff slice_layout read_u16_def slice_payload c)
        (simp add: nth_append h read_u64_def slice_layout slice_payload)
  next
    case (OverlayStatus sid status)
    with assms(2) d sl show ?thesis
      by (cases status) (auto simp: red decode_overlay_status_def)
  qed (use assms g sl d in \<open>auto simp: red and_then_Inr gpu_decode_wire
      gpu_decode_wire [where rest = "[]", simplified] decode_goodbye_def
      decode_replay_source_candidate_def decode_replay_source_rejection_def
      decode_replay_frame_copied_def decode_replay_frame_exported_def\<close>)
qed

section \<open>What the decoder accepts\<close>

lemma le_to_from:
  "length a = 2 \<Longrightarrow> u16_to_le_bytes (u16_from_le_bytes a) = a"
  "length b = 4 \<Longrightarrow> u32_to_le_bytes (u32_from_le_bytes b) = b"
  "length c = 8 \<Longrightarrow> u64_to_le_bytes (u64_from_le_bytes c) = c"
  using nat_of_be_bound [of "rev a"] nat_of_be_bound [of "rev b"] nat_of_be_bound [of "rev c"]
    be_nat_nat_of_be [of "rev a"] be_nat_nat_of_be [of "rev b"] be_nat_nat_of_be [of "rev c"]
  by (simp_all add: u16_to_le_bytes_def u32_to_le_bytes_def u64_to_le_bytes_def u16_from_le_bytes_def
      u32_from_le_bytes_def u64_from_le_bytes_def unat_of_nat)

fun parts :: "nat \<Rightarrow> nat list \<Rightarrow> 'a list \<Rightarrow> 'a list" where
  "parts off [] p = []"
| "parts off (n # ns) p = slice off n p @ parts (off + n) ns p"

lemma parts_drop: "length p = off + sum_list ns \<Longrightarrow> parts off ns p = drop off p"
proof (induction ns arbitrary: off)
  case Nil
  then show ?case by simp
next
  case (Cons n ns)
  then have "parts (off + n) ns p = drop (off + n) p" by simp
  then show ?case by (simp add: slice_def) (metis add.commute append_take_drop_id drop_drop)
qed

lemma parts_all: "length p = sum_list ns \<Longrightarrow> p = parts 0 ns p"
  using parts_drop [of p 0 ns] by simp

lemma slice_one: "i < length p \<Longrightarrow> slice i 1 p = [p ! i]"
  by (simp add: slice_def take_Suc_conv_app_nth Cons_nth_drop_Suc [symmetric])

lemma zeros_slice: "\<not> any_non_zero p a b \<Longrightarrow> b \<le> length p \<Longrightarrow> slice a (b - a) p = replicate (b - a) 0"
  using replicate_length_same [of "slice a (b - a) p" 0]
  by (cases "a \<le> b") (auto simp: any_non_zero_def list_ex_iff slice_none)

lemma gpu_decode_sound:
  assumes "gpu_decode q = Inr g" "40 \<le> length q"
  shows "gpu_ok g \<and> gpu_wire g = take 40 q"
proof (cases g)
  case None
  then have "list_all (\<lambda>b. b = 0) (take 40 q)"
    using assms by (auto simp: gpu_decode_def GPU_WIRE_BYTES_def and_then_Inr split: if_splits)
  then have "take 40 q = replicate 40 0"
    using assms(2) replicate_length_same [of "take 40 q" 0] by (simp add: list_all_iff min_absorb2)
  then show ?thesis by (simp add: None gpu_ok_def gpu_wire_def)
next
  case (Some i)
  then have new: "gpu_identity_new (u32_from_le_bytes (take 4 q)) (slice 4 16 q) (slice 20 16 q) = Inr i"
    and z: "\<not> list_ex (\<lambda>b. b \<noteq> 0) (slice 36 4 q)"
    using assms by (auto simp: gpu_decode_def GPU_WIRE_BYTES_def and_then_Inr split: if_splits)
  from new have i: "i = \<lparr>gi_vendor_id = u32_from_le_bytes (take 4 q), gi_device_uuid = slice 4 16 q,
      gi_driver_uuid = slice 20 16 q\<rparr>" by (auto simp: gpu_identity_new_def split: if_splits)
  have z': "slice 36 4 q = replicate 4 0" using zeros_slice [of q 36 40] z assms(2) by (simp add: any_non_zero_def)
  have "take 40 q = parts 0 [4, 16, 16, 4] (take 40 q)" by (rule parts_all) (use assms(2) in simp)
  also have "\<dots> = take 4 q @ slice 4 16 q @ slice 20 16 q @ slice 36 4 q"
    by (simp add: slice_def drop_take)
  finally show ?thesis
    using new assms(2) by (simp add: Some gpu_ok_def gpu_wire_def i le_to_from z')
qed

lemma decode_header_sound:
  assumes "decode_header inp = Inr (kind, n, s)"
  shows "inp = header_wire kind n s @ drop 32 inp \<and> length inp = 32 + n \<and> session_ok s \<and> n \<le> 1040"
proof -
  from assms have len: "32 \<le> length inp" "length inp \<le> 1072" and magic: "slice 0 8 inp = MAGIC"
    and v: "u16_from_le_bytes (slice 8 2 inp) = PROTOCOL_VERSION" and z: "inp ! 11 = 0"
    "u16_from_le_bytes (slice 14 2 inp) = 0" and n: "n = unat (u16_from_le_bytes (slice 12 2 inp))"
    "length inp = 32 + n" and s: "s = slice 16 16 inp" "s \<noteq> replicate 16 0" and k: "kind = inp ! 10"
    by (auto simp: decode_header_def size_consts read_u16_def Let_def session_id_new_def and_then_Inr
        split: if_splits)
  have r: "slice 8 2 inp = u16_to_le_bytes PROTOCOL_VERSION" "slice 14 2 inp = u16_to_le_bytes 0"
    using le_to_from(1) [of "slice 8 2 inp"] le_to_from(1) [of "slice 14 2 inp"] len(1)
    by (simp_all add: v z(2))
  have n': "slice 12 2 inp = u16_to_le_bytes (word_of_nat n)"
    using le_to_from(1) [of "slice 12 2 inp"] len(1) by (simp add: n(1))
  have zz: "u16_to_le_bytes 0 = [0, 0]" by (simp add: u16_to_le_bytes_def numeral_2_eq_2)
  have "take 32 inp = parts 0 [8, 2, 1, 1, 2, 2, 16] (take 32 inp)" by (rule parts_all) (use len in simp)
  also have "\<dots> = slice 0 8 inp @ slice 8 2 inp @ slice 10 1 inp @ slice 11 1 inp @ slice 12 2 inp
      @ slice 14 2 inp @ slice 16 16 inp"
    by (simp add: slice_def drop_take)
  also have "\<dots> = header_wire kind n s"
    using len by (simp add: header_wire_def magic r n' slice_one [unfolded One_nat_def] k z(1) s(1) zz)
  finally have "inp = header_wire kind n s @ drop 32 inp" by (metis append_take_drop_id)
  with len n(2) s show ?thesis by (simp add: session_ok_def)
qed

lemma wire_from_wire:
  "api_from_wire v = Inr a \<Longrightarrow> api_wire a = v" "goodbye_from_wire v = Inr g \<Longrightarrow> goodbye_wire g = v"
  "overlay_failure_from_wire v = Inr f \<Longrightarrow> overlay_failure_wire f = v"
  "pixel_format_from_wire v = Inr p \<Longrightarrow> pixel_format_wire p = v"
  "rejection_from_wire v = Inr r \<Longrightarrow> rejection_wire r = v"
  by (auto simp: api_from_wire_def goodbye_from_wire_def overlay_failure_from_wire_def
      pixel_format_from_wire_def rejection_from_wire_def split: if_splits)

definition is_hello :: "capture_message \<Rightarrow> bool" where
  "is_hello m = (case m of Hello _ _ _ _ \<Rightarrow> True | _ \<Rightarrow> False)"

text \<open>Each branch of the decoder, for a payload \<open>p\<close> behind a header \<open>h\<close>.\<close>

lemma slice_drop: "slice 0 n (drop k p) = slice k n p"
  by (simp add: slice_def)

lemmas payload_reads = slice_payload any_non_zero_payload nth_append drop_append read_u64_def
  read_u32_def read_u16_def size_consts Let_def and_then_Inr

lemmas slice_byte = slice_one [unfolded One_nat_def]

lemma decode_goodbye_sound:
  assumes "decode_goodbye (h @ p) s = Inr m" "length h = 32" "length p = 16"
  shows "m = Goodbye s (projr (api_from_wire (p ! 9))) (u64_from_le_bytes (slice 0 8 p))
      (projr (goodbye_from_wire (p ! 8))) \<and> payload_wire m = p"
proof -
  from assms obtain api reason where z: "\<not> any_non_zero p 10 16"
    and a: "api_from_wire (p ! 9) = Inr api" "goodbye_from_wire (p ! 8) = Inr reason"
    and m: "m = Goodbye s api (u64_from_le_bytes (slice 0 8 p)) reason"
    by (auto simp: decode_goodbye_def payload_reads split: if_splits)
  have "p = parts 0 [8, 1, 1, 6] p" by (rule parts_all) (use assms(3) in simp)
  also have "\<dots> = slice 0 8 p @ [p ! 8] @ [p ! 9] @ slice 10 6 p"
    using assms(3) by (simp add: slice_byte)
  finally have "payload_wire m = p"
    using zeros_slice [OF z] assms(3) by (simp add: m wire_from_wire(1) [OF a(1)] wire_from_wire(2) [OF a(2)] le_to_from)
  with m a show ?thesis by simp
qed

lemma decode_gpu_identity_sound:
  assumes "\<not> any_non_zero p 41 48" "api_from_wire (p ! 40) = Inr api" "gpu_decode p = Inr g"
    "length p = 48"
  shows "payload_wire (GpuIdentity s api g) = p \<and> gpu_ok g"
proof -
  have "p = parts 0 [40, 1, 7] p" by (rule parts_all) (use assms(4) in simp)
  also have "\<dots> = take 40 p @ [p ! 40] @ slice 41 7 p"
    using assms(4) by (simp add: slice_byte) (simp add: slice_def)
  finally show ?thesis
    using zeros_slice [OF assms(1)] assms gpu_decode_sound [OF assms(3)] wire_from_wire(1) [OF assms(2)] by simp
qed

lemma decode_overlay_status_sound:
  assumes "decode_overlay_status (h @ p) s = Inr m" "length h = 32" "length p = 8"
  shows "\<exists>status. m = OverlayStatus s status \<and> payload_wire m = p"
proof -
  from assms obtain status where z: "\<not> any_non_zero p 2 8"
    and w: "status_wire status = (p ! 0, p ! 1)" and m: "m = OverlayStatus s status"
    by (auto simp: decode_overlay_status_def payload_reads split: if_splits)
      (metis status_wire.simps(3) wire_from_wire(3))
  have "p = parts 0 [1, 1, 6] p" by (rule parts_all) (use assms(3) in simp)
  also have "\<dots> = [p ! 0] @ [p ! 1] @ slice 2 6 p"
    using assms(3) by (simp add: slice_byte numeral_2_eq_2)
  finally have "payload_wire m = p"
    using zeros_slice [OF z] assms(3) by (simp add: m w)
  with m show ?thesis by blast
qed

lemma decode_rejection_sound:
  assumes "decode_replay_source_rejection (h @ p) s = Inr m" "length h = 32" "length p = 8"
  shows "\<exists>reason. m = SourceRejected s reason \<and> payload_wire m = p"
proof -
  from assms obtain reason where z: "\<not> any_non_zero p 1 8"
    and w: "rejection_from_wire (p ! 0) = Inr reason" and m: "m = SourceRejected s reason"
    by (auto simp: decode_replay_source_rejection_def payload_reads split: if_splits)
  have "p = parts 0 [1, 7] p" by (rule parts_all) (use assms(3) in simp)
  also have "\<dots> = [p ! 0] @ slice 1 7 p"
    using assms(3) by (simp add: slice_byte)
  finally have "payload_wire m = p"
    using zeros_slice [OF z] assms(3) by (simp add: m wire_from_wire(5) [OF w])
  with m show ?thesis by blast
qed

lemma decode_candidate_sound:
  assumes "decode_replay_source_candidate (h @ p) s = Inr m" "length h = 32" "length p = 56"
  shows "\<exists>c. m = SourceCandidate s c \<and> payload_wire m = p \<and> candidate_validate c = Inr () \<and> gpu_ok (sc_gpu_identity c)"
proof -
  from assms obtain g f c where z: "\<not> any_non_zero p 10 16"
    and w: "gpu_decode (drop 16 p) = Inr g" "pixel_format_from_wire (p ! 8) = Inr f"
    and c: "c = \<lparr>sc_gpu_identity = g, sc_width = u32_from_le_bytes (slice 0 4 p),
        sc_height = u32_from_le_bytes (slice 4 4 p), sc_pixel_format = f,
        sc_target_frames_per_second = p ! 9\<rparr>" and m: "m = SourceCandidate s c"
    and v: "candidate_validate c = Inr ()"
    by (auto simp: decode_replay_source_candidate_def payload_reads split: if_splits)
  have g: "gpu_ok g" "gpu_wire g = slice 16 40 p"
    using gpu_decode_sound [OF w(1)] assms(3) by (simp_all add: slice_def)
  have "p = parts 0 [4, 4, 1, 1, 6, 40] p" by (rule parts_all) (use assms(3) in simp)
  also have "\<dots> = slice 0 4 p @ slice 4 4 p @ [p ! 8] @ [p ! 9] @ slice 10 6 p @ slice 16 40 p"
    using assms(3) by (simp add: slice_byte)
  finally have "payload_wire m = p"
    using zeros_slice [OF z] assms(3) by (simp add: m c le_to_from wire_from_wire(4) [OF w(2)] g)
  with m v g c show ?thesis by simp
qed

lemma decode_copied_sound:
  assumes "decode_replay_frame_copied (h @ p) s = Inr m" "length h = 32" "length p = 72"
  shows "\<exists>seq c n k. m = FrameCopied s seq c n k \<and> payload_wire m = p \<and> candidate_validate c = Inr ()
    \<and> validate_copied_bytes c n = Inr () \<and> gpu_ok (sc_gpu_identity c)"
proof -
  from assms obtain g f c where z: "\<not> any_non_zero p 22 24"
    and w: "gpu_decode (drop 32 p) = Inr g" "pixel_format_from_wire (p ! 20) = Inr f"
    and c: "c = \<lparr>sc_gpu_identity = g,
        sc_width = u32_from_le_bytes (slice 12 4 p), sc_height = u32_from_le_bytes (slice 16 4 p),
        sc_pixel_format = f, sc_target_frames_per_second = p ! 21\<rparr>"
    and m: "m = FrameCopied s (u64_from_le_bytes (slice 0 8 p)) c (u32_from_le_bytes (slice 8 4 p))
        (u64_from_le_bytes (slice 24 8 p))"
    and v: "candidate_validate c = Inr ()" "validate_copied_bytes c (u32_from_le_bytes (slice 8 4 p)) = Inr ()"
    by (auto simp: decode_replay_frame_copied_def payload_reads split: if_splits)
  have g: "gpu_ok g" "gpu_wire g = slice 32 40 p"
    using gpu_decode_sound [OF w(1)] assms(3) by (simp_all add: slice_def)
  have "p = parts 0 [8, 4, 4, 4, 1, 1, 2, 8, 40] p" by (rule parts_all) (use assms(3) in simp)
  also have "\<dots> = slice 0 8 p @ slice 8 4 p @ slice 12 4 p @ slice 16 4 p @ [p ! 20] @ [p ! 21]
      @ slice 22 2 p @ slice 24 8 p @ slice 32 40 p"
    using assms(3) by (simp add: slice_byte)
  finally have "payload_wire m = p"
    using zeros_slice [OF z] assms(3) by (simp add: m c le_to_from wire_from_wire(4) [OF w(2)] g)
  with m v g c show ?thesis by simp
qed

lemma decode_exported_sound:
  assumes "decode_replay_frame_exported (h @ p) s = Inr m" "length h = 32" "length p = 96"
  shows "\<exists>seq fd c off stride md t d. m = FrameExported s seq fd c off stride md t d \<and> payload_wire m = p
    \<and> candidate_validate c = Inr () \<and> validate_exported_frame fd off stride t d = Inr ()
    \<and> gpu_ok (sc_gpu_identity c)"
proof -
  from assms obtain g f c where z: "\<not> any_non_zero p 22 24"
    and w: "gpu_decode (drop 56 p) = Inr g" "pixel_format_from_wire (p ! 20) = Inr f"
    and c: "c = \<lparr>sc_gpu_identity = g,
        sc_width = u32_from_le_bytes (slice 12 4 p), sc_height = u32_from_le_bytes (slice 16 4 p),
        sc_pixel_format = f, sc_target_frames_per_second = p ! 21\<rparr>"
    and m: "m = FrameExported s (u64_from_le_bytes (slice 0 8 p)) (u32_from_le_bytes (slice 8 4 p))
        c (u32_from_le_bytes (slice 24 4 p))
        (u32_from_le_bytes (slice 28 4 p)) (u64_from_le_bytes (slice 32 8 p))
        (u64_from_le_bytes (slice 40 8 p)) (u64_from_le_bytes (slice 48 8 p))"
    and v: "candidate_validate c = Inr ()" "validate_exported_frame (u32_from_le_bytes (slice 8 4 p))
        (u32_from_le_bytes (slice 24 4 p)) (u32_from_le_bytes (slice 28 4 p))
        (u64_from_le_bytes (slice 40 8 p)) (u64_from_le_bytes (slice 48 8 p)) = Inr ()"
    by (auto simp: decode_replay_frame_exported_def payload_reads split: if_splits)
  have g: "gpu_ok g" "gpu_wire g = slice 56 40 p"
    using gpu_decode_sound [OF w(1)] assms(3) by (simp_all add: slice_def)
  have "p = parts 0 [8, 4, 4, 4, 1, 1, 2, 4, 4, 8, 8, 8, 40] p" by (rule parts_all) (use assms(3) in simp)
  also have "\<dots> = slice 0 8 p @ slice 8 4 p @ slice 12 4 p @ slice 16 4 p @ [p ! 20] @ [p ! 21]
      @ slice 22 2 p @ slice 24 4 p @ slice 28 4 p @ slice 32 8 p @ slice 40 8 p @ slice 48 8 p
      @ slice 56 40 p"
    using assms(3) by (simp add: slice_byte)
  finally have "payload_wire m = p"
    using zeros_slice [OF z] assms(3) by (simp add: m c le_to_from wire_from_wire(4) [OF w(2)] g)
  with m v g c show ?thesis by simp
qed

lemma concat_intervals:
  "length p = off + n * 8 \<Longrightarrow>
    concat (map u64_to_le_bytes (map (\<lambda>i. u64_from_le_bytes (slice (off + i * 8) 8 p)) [0..<n])) = drop off p"
proof (induction n arbitrary: off)
  case 0
  then show ?case by simp
next
  case (Suc n)
  have "[0..<Suc n] = 0 # map Suc [0..<n]" by (simp add: upt_conv_Cons map_Suc_upt del: upt_Suc)
  moreover have "slice off 8 p @ drop (off + 8) p = drop off p"
    by (simp add: slice_def) (metis add.commute append_take_drop_id drop_drop)
  ultimately show ?case
    using Suc.IH [of "off + 8"] Suc.prems
    by (simp add: comp_def le_to_from add.assoc del: upt_Suc)
qed

lemma decode_frame_batch_sound:
  assumes "decode_frame_batch (h @ p) s n = Inr m" "length h = 32" "length p = n" "16 \<le> n"
  shows "\<exists>api first xs. m = FrameBatch s api first xs \<and> payload_wire m = p
    \<and> validate_intervals xs = Inr () \<and> n = 16 + length xs * 8"
proof -
  define count where "count = unat (u16_from_le_bytes (slice 8 2 p))"
  define xs where "xs = map (\<lambda>i. u64_from_le_bytes (slice (16 + i * 8) 8 p)) [0..<count]"
  from assms obtain api where z: "\<not> any_non_zero p 11 16" and n: "length p = 16 + count * 8"
    and v: "validate_intervals xs = Inr ()" and a: "api_from_wire (p ! 10) = Inr api"
    and m: "m = FrameBatch s api (u64_from_le_bytes (slice 0 8 p)) xs"
    by (auto simp: decode_frame_batch_def payload_reads count_def xs_def split: if_splits)
  have cnt: "u16_to_le_bytes (word_of_nat count) = slice 8 2 p"
    using le_to_from(1) [of "slice 8 2 p"] n by (simp add: count_def)
  have lx: "length xs = count" by (simp add: xs_def)
  have "p = parts 0 [8, 2, 1, 5, count * 8] p" by (rule parts_all) (use n in simp)
  also have "\<dots> = slice 0 8 p @ slice 8 2 p @ [p ! 10] @ slice 11 5 p @ slice 16 (count * 8) p"
    using n by (simp add: slice_byte)
  also have "slice 16 (count * 8) p = drop 16 p" using n by (simp add: slice_def)
  also have "drop 16 p = concat (map u64_to_le_bytes xs)"
    using concat_intervals [OF n] by (simp add: xs_def)
  finally have "payload_wire m = p"
    using zeros_slice [OF z] n by (simp add: m le_to_from wire_from_wire(1) [OF a] lx cnt)
  with m v n lx assms(3) show ?thesis by simp
qed

text \<open>Everything the decoder accepts is well-formed and re-encodes to the bytes it came from,
  apart from a Hello, whose three reserved bytes it ignores.\<close>

lemma decode_hello_sound:
  assumes "length p = 16" "api_from_wire (p ! 4) = Inr api"
  shows "payload_wire (Hello s (u32_from_le_bytes (slice 0 4 p)) api (u64_from_le_bytes (slice 8 8 p)))
    = take 5 p @ replicate 3 0 @ drop 8 p"
proof -
  have "take 5 p = slice 0 4 p @ [p ! 4]" "slice 8 8 p = drop 8 p"
    using assms(1) by (simp_all add: slice_def take_Suc_conv_app_nth numeral_eq_Suc)
  with assms show ?thesis by (simp add: le_to_from wire_from_wire(1) [OF assms(2)])
qed

lemma decode_message_branches:
  assumes "decode_message (h @ p) = Inr m" "decode_header (h @ p) = Inr (kind, n, s)"
    "length h = 32" "length p = n"
  shows "kind = 10 \<and> n = 48 \<and> \<not> any_non_zero p 41 48
      \<and> (\<exists>api g. api_from_wire (p ! 40) = Inr api \<and> gpu_decode p = Inr g \<and> m = GpuIdentity s api g)
    \<or> kind = 1 \<and> n = 16 \<and> (\<exists>api. api_from_wire (p ! 4) = Inr api
      \<and> m = Hello s (u32_from_le_bytes (slice 0 4 p)) api (u64_from_le_bytes (slice 8 8 p)))
    \<or> kind = 2 \<and> 16 \<le> n \<and> decode_frame_batch (h @ p) s n = Inr m
    \<or> kind = 3 \<and> n = 16 \<and> decode_goodbye (h @ p) s = Inr m
    \<or> kind = 4 \<and> n = 56 \<and> decode_replay_source_candidate (h @ p) s = Inr m
    \<or> kind = 5 \<and> n = 8 \<and> decode_replay_source_rejection (h @ p) s = Inr m
    \<or> kind = 6 \<and> n = 72 \<and> decode_replay_frame_copied (h @ p) s = Inr m
    \<or> kind = 8 \<and> n = 96 \<and> decode_replay_frame_exported (h @ p) s = Inr m
    \<or> kind = 9 \<and> n = 16 \<and> \<not> any_non_zero p 8 16 \<and> m = FrameReleased s (u64_from_le_bytes (slice 0 8 p))
    \<or> kind = 7 \<and> n = 8 \<and> decode_overlay_status (h @ p) s = Inr m"
  using assms
  by (simp add: decode_message_def kind_consts size_consts split: if_splits)
    (auto simp: payload_reads)

lemma decode_released_sound:
  assumes "\<not> any_non_zero p 8 16" "length p = 16"
  shows "payload_wire (FrameReleased s (u64_from_le_bytes (slice 0 8 p))) = p"
proof -
  have "p = parts 0 [8, 8] p" by (rule parts_all) (use assms(2) in simp)
  also have "\<dots> = slice 0 8 p @ slice 8 8 p" by simp
  finally show ?thesis using zeros_slice [OF assms(1)] assms(2) by (simp add: le_to_from)
qed

lemma decode_message_sound:
  assumes "decode_message inp = Inr m"
  shows "message_ok m \<and> (\<exists>kind n. message_layout m = Inr (kind, n) \<and> length inp = 32 + n
    \<and> header_wire kind n (message_session m) @
        (if is_hello m then take 5 (payload_wire m) @ slice 37 3 inp @ drop 8 (payload_wire m)
         else payload_wire m) = inp)"
proof -
  from assms obtain kind n s where d: "decode_header inp = Inr (kind, n, s)"
    by (auto simp: decode_message_def and_then_Inr)
  define h where "h = header_wire kind n s"
  define p where "p = drop 32 inp"
  have inp: "inp = h @ p" "session_ok s" and len: "length h = 32" "length p = n" and n: "n \<le> 1040"
    using decode_header_sound [OF d] by (auto simp: h_def p_def session_ok_def)
  have d': "decode_header (h @ p) = Inr (kind, n, s)" using d inp by simp
  have *: "message_ok m \<and> message_layout m = Inr (kind, n) \<and> message_session m = s
      \<and> (if is_hello m then take 5 (payload_wire m) @ slice 5 3 p @ drop 8 (payload_wire m)
         else payload_wire m) = p"
    using decode_message_branches [OF assms [unfolded inp(1)] d' len]
  proof (elim disjE conjE exE)
    fix api g
    assume a: "kind = 10" "n = 48" "\<not> any_non_zero p 41 48" "api_from_wire (p ! 40) = Inr api"
      "gpu_decode p = Inr g" "m = GpuIdentity s api g"
    with decode_gpu_identity_sound [OF a(3,4,5)] len inp(2) show ?thesis
      by (simp add: message_ok_def is_hello_def kind_consts size_consts)
  next
    fix api
    assume a: "kind = 1" "n = 16" "api_from_wire (p ! 4) = Inr api"
      "m = Hello s (u32_from_le_bytes (slice 0 4 p)) api (u64_from_le_bytes (slice 8 8 p))"
    have "take 5 p @ slice 5 3 p @ drop 8 p = p"
      by (simp add: slice_def) (metis append_take_drop_id drop_drop numeral_plus_numeral add_num_simps)
    with a decode_hello_sound [OF _ a(3)] len inp(2) show ?thesis
      by (simp add: message_ok_def is_hello_def kind_consts size_consts gpu_ok_def del: payload_wire.simps)
  next
    assume a: "kind = 2" "16 \<le> n" "decode_frame_batch (h @ p) s n = Inr m"
    with decode_frame_batch_sound [OF a(3) len a(2)] inp(2) show ?thesis
      by (auto simp: message_ok_def is_hello_def kind_consts size_consts gpu_ok_def)
  next
    assume a: "kind = 3" "n = 16" "decode_goodbye (h @ p) s = Inr m"
    with decode_goodbye_sound [OF a(3) len(1)] len inp(2) show ?thesis
      by (auto simp: message_ok_def is_hello_def kind_consts size_consts gpu_ok_def)
  next
    assume a: "kind = 4" "n = 56" "decode_replay_source_candidate (h @ p) s = Inr m"
    with decode_candidate_sound [OF a(3) len(1)] len inp(2) show ?thesis
      by (auto simp: message_ok_def is_hello_def kind_consts size_consts)
  next
    assume a: "kind = 5" "n = 8" "decode_replay_source_rejection (h @ p) s = Inr m"
    with decode_rejection_sound [OF a(3) len(1)] len inp(2) show ?thesis
      by (auto simp: message_ok_def is_hello_def kind_consts size_consts gpu_ok_def)
  next
    assume a: "kind = 6" "n = 72" "decode_replay_frame_copied (h @ p) s = Inr m"
    with decode_copied_sound [OF a(3) len(1)] len inp(2) show ?thesis
      by (auto simp: message_ok_def is_hello_def kind_consts size_consts)
  next
    assume a: "kind = 8" "n = 96" "decode_replay_frame_exported (h @ p) s = Inr m"
    with decode_exported_sound [OF a(3) len(1)] len inp(2) show ?thesis
      by (auto simp: message_ok_def is_hello_def kind_consts size_consts)
  next
    assume a: "kind = 9" "n = 16" "\<not> any_non_zero p 8 16"
      "m = FrameReleased s (u64_from_le_bytes (slice 0 8 p))"
    with decode_released_sound [OF a(3)] len inp(2) show ?thesis
      by (simp add: message_ok_def is_hello_def kind_consts size_consts gpu_ok_def del: payload_wire.simps)
  next
    assume a: "kind = 7" "n = 8" "decode_overlay_status (h @ p) s = Inr m"
    with decode_overlay_status_sound [OF a(3) len(1)] len inp(2) show ?thesis
      by (auto simp: message_ok_def is_hello_def kind_consts size_consts gpu_ok_def)
  qed
  then show ?thesis using len inp(1) by (auto simp: h_def slice_append2)
qed

section \<open>Properties\<close>

lemma encode_message_layout:
  "encode_message m out = Inr (out', k) \<Longrightarrow>
    \<exists>kind n. message_layout m = Inr (kind, n) \<and> 32 + n \<le> length out"
  by (auto simp: encode_message_def and_then_Inr size_consts Let_def not_less split: if_splits)

text \<open>C9: Every well-formed message the encoder accepts decodes back to itself from exactly the
  bytes written, and the rest of the caller's storage is untouched.\<close>

theorem capture_message_roundtrip:
  assumes "message_ok m" "encode_message m out = Inr (out', n)"
  shows "decode_message (take n out') = Inr m \<and> n \<le> length out \<and> drop n out' = drop n out
    \<and> length out' = length out"
proof -
  obtain kind k where l: "message_layout m = Inr (kind, k)" "32 + k \<le> length out"
    using encode_message_layout [OF assms(2)] by blast
  note w = encode_message_wire [OF assms(1) l] layout_payload [OF assms(1) l(1)]
  have "length (message_session m) = 16" using assms(1) by (simp add: message_ok_def session_ok_def)
  with w assms(2) l decode_message_wire [OF assms(1) l(1)] show ?thesis by auto
qed

definition sample_session :: capture_session_id where
  "sample_session = replicate 15 0 @ [1]"

lemma sample_session_ok: "session_ok sample_session"
  by (simp add: session_ok_def sample_session_def numeral_eq_Suc)

theorem capture_message_roundtrip_witness:
  "message_ok (FrameReleased sample_session 5)
   \<and> (case encode_message (FrameReleased sample_session 5) (replicate 64 9) of
        Inl _ \<Rightarrow> False
      | Inr (out', n) \<Rightarrow> n = 48 \<and> decode_message (take n out') = Inr (FrameReleased sample_session 5))"
proof -
  let ?m = "FrameReleased sample_session 5"
  have ok: "message_ok ?m" using sample_session_ok by (simp add: message_ok_def gpu_ok_def)
  have e: "encode_message ?m (replicate 64 9) = Inr ((header_wire 9 16 sample_session @ payload_wire ?m)
      @ drop 48 (replicate 64 9), 48)"
    using encode_message_wire [OF ok, of 9 16 "replicate 64 9"] by (simp add: kind_consts size_consts)
  from capture_message_roundtrip [OF ok e] ok e show ?thesis
    by (simp only: sum.case prod.case simp_thms)
qed

text \<open>C10: The decoder accepts only canonical encodings: whatever it accepts, Hello messages apart,
  is well-formed and encodes back to the same bytes.\<close>

theorem capture_decode_canonical:
  assumes "decode_message inp = Inr m" "\<not> is_hello m"
  shows "message_ok m \<and> encode_message m (replicate (length inp) 0) = Inr (inp, length inp)"
proof -
  from decode_message_sound [OF assms(1)] assms(2) obtain kind n where
    ok: "message_ok m" and l: "message_layout m = Inr (kind, n)" and len: "length inp = 32 + n"
    and eq: "header_wire kind n (message_session m) @ payload_wire m = inp" by auto
  have "encode_message m (replicate (length inp) 0) =
      Inr ((header_wire kind n (message_session m) @ payload_wire m)
        @ drop (32 + n) (replicate (length inp) 0), 32 + n)"
    using encode_message_wire [OF ok l] len by simp
  with ok len show ?thesis unfolding eq by simp
qed

theorem capture_decode_canonical_witness:
  "\<exists>inp. decode_message inp = Inr (FrameReleased sample_session 5)
     \<and> encode_message (FrameReleased sample_session 5) (replicate (length inp) 0) = Inr (inp, length inp)"
proof -
  let ?m = "FrameReleased sample_session 5"
  have ok: "message_ok ?m" using sample_session_ok by (simp add: message_ok_def gpu_ok_def)
  have d: "decode_message (header_wire 9 16 sample_session @ payload_wire ?m) = Inr ?m"
    using decode_message_wire [OF ok, of 9 16] by (simp add: kind_consts size_consts)
  have "\<not> is_hello ?m" by (simp add: is_hello_def)
  from capture_decode_canonical [OF d this] d show ?thesis by blast
qed

text \<open>The reserved bytes of a Hello are not checked: two datagrams that differ there decode to
  the same message, so the canonicity above cannot be extended to Hello.\<close>

theorem hello_reserved_bytes_ignored:
  "\<exists>a b. a \<noteq> b \<and> decode_message a = decode_message b
     \<and> decode_message a = Inr (Hello sample_session 1 Vulkan 2)"
proof -
  let ?h = "header_wire 1 16 sample_session"
  let ?p = "\<lambda>z. u32_to_le_bytes 1 @ [1] @ [z, 0, 0] @ u64_to_le_bytes 2"
  have l: "length sample_session = 16" by (simp add: sample_session_def)
  have d: "decode_message (?h @ ?p z) = Inr (Hello sample_session 1 Vulkan 2)" for z
  proof -
    have "decode_header (?h @ ?p z) = Inr (1, 16, sample_session)"
      using sample_session_ok by (intro decode_header_wire) auto
    then show ?thesis
      by (simp add: decode_message_def kind_consts size_consts l nth_append read_u32_def read_u64_def
          slice_payload slice_layout api_from_wire_def)
  qed
  have "?h @ ?p 0 \<noteq> ?h @ ?p 1" by simp
  then show ?thesis using d [of 0] d [of 1] by (intro exI [of _ "?h @ ?p 0"] exI [of _ "?h @ ?p 1"]) simp
qed

text \<open>The allocation-free batch encoder of the presentation path is the general encoder: the
  same bytes, the same length and the same error for every input.\<close>

theorem encode_frame_batch_is_encode_message:
  "encode_frame_batch session api first intervals out =
     encode_message (FrameBatch session api first intervals) out"
proof (cases "validate_intervals intervals")
  case (Inl e)
  then show ?thesis by (simp add: encode_frame_batch_def encode_message_def)
next
  case (Inr u)
  then have "length intervals \<le> 128" by (simp add: validate_intervals_Inr)
  then show ?thesis
    by (simp add: encode_frame_batch_def encode_message_def Inr Let_def size_consts try_from_def)
qed

section \<open>Session ids in hexadecimal\<close>

lemma length_HEX: "length HEX = 16"
  by (simp add: HEX_def)

lemma hex_digit:
  assumes "n < 16"
  shows "decode_hex (HEX ! n) = Inr (word_of_nat n)"
proof -
  have "n \<in> {0, 1, 2, 3, 4, 5, 6, 7, 8, 9, 10, 11, 12, 13, 14, 15}"
    using assms unfolding insert_iff empty_iff by presburger
  then show ?thesis by (auto simp: HEX_def ascii_def decode_hex_def)
qed

lemma nibbles:
  fixes b :: u8
  shows "unat (drop_bit 4 b) < 16" "unat (b AND 0x0f) < 16"
    "push_bit 4 (drop_bit 4 b) OR (b AND 0x0f) = b"
proof -
  show "unat (drop_bit 4 b) < 16"
    using unat_lt_2p [of b] by (simp add: drop_bit_eq_div unat_div less_mult_imp_div_less)
  have m: "(0x0f :: u8) = mask 4" by (simp add: mask_eq_exp_minus_1)
  show "unat (b AND 0x0f) < 16"
    unfolding m using take_bit_nat_less_exp [of 4 "unat b"]
    by (simp add: unsigned_take_bit_eq flip: take_bit_eq_mask)
  show "push_bit 4 (drop_bit 4 b) OR (b AND 0x0f) = b"
    unfolding m by (rule bit_eqI) (auto simp: bit_simps)
qed

lemma decode_hex_pairs_to_hex: "decode_hex_pairs (to_hex s) = Inr s"
  by (induction s) (simp_all add: to_hex_def hex_digit nibbles)

lemma length_to_hex [simp]: "length (to_hex s) = 2 * length s"
  by (induction s) (simp_all add: to_hex_def)

text \<open>The hexadecimal form of a session id parses back to it.\<close>

theorem session_hex_roundtrip:
  assumes "session_ok s"
  shows "from_hex (to_hex s) = Inr s"
  using assms by (simp add: from_hex_def decode_hex_pairs_to_hex session_id_new_def session_ok_def)

theorem session_hex_roundtrip_witness:
  "session_ok sample_session \<and> from_hex (to_hex sample_session) = Inr sample_session"
  using session_hex_roundtrip [OF sample_session_ok] sample_session_ok by simp

end
