(* ===== verification/Redunar_Text.thy ===== *)
theory Redunar_Text
  imports Redunar_Prelude
begin

text \<open>
  Text as the components read and write it. A Rust string is its UTF-8 bytes, here a \<open>string\<close>
  (a \<open>char\<close> is one byte). The theory models the standard library's \<open>lines\<close>, \<open>split\<close>,
  \<open>split_once\<close>, \<open>strip_prefix\<close>, decimal printing and parsing, and UTF-8 validation, and proves the
  round trips the line-based state files rest on.
\<close>

section \<open>Splitting\<close>

fun split_on :: "'a \<Rightarrow> 'a list \<Rightarrow> 'a list list" where
  "split_on sep [] = [[]]"
| "split_on sep (x # xs) =
     (if x = sep then [] # split_on sep xs
      else (case split_on sep xs of [] \<Rightarrow> [[x]] | p # ps \<Rightarrow> (x # p) # ps))"

definition split_once :: "'a \<Rightarrow> 'a list \<Rightarrow> ('a list \<times> 'a list) option" where
  "split_once sep s = (case dropWhile (\<lambda>c. c \<noteq> sep) s of [] \<Rightarrow> None
     | _ # rest \<Rightarrow> Some (takeWhile (\<lambda>c. c \<noteq> sep) s, rest))"

definition strip_prefix :: "'a list \<Rightarrow> 'a list \<Rightarrow> 'a list option" where
  "strip_prefix p s = (if take (length p) s = p then Some (drop (length p) s) else None)"

definition strip_suffix :: "'a list \<Rightarrow> 'a list \<Rightarrow> 'a list option" where
  "strip_suffix p s = map_option rev (strip_prefix (rev p) (rev s))"

lemma split_on_nonempty [simp]: "split_on sep xs \<noteq> []"
  by (induction xs) (auto split: list.splits)

lemma split_on_free: "sep \<notin> set xs \<Longrightarrow> split_on sep xs = [xs]"
  by (induction xs) auto

lemma split_on_append: "sep \<notin> set xs \<Longrightarrow> split_on sep (xs @ sep # ys) = xs # split_on sep ys"
  by (induction xs) auto

lemma split_once_append [simp]: "sep \<notin> set a \<Longrightarrow> split_once sep (a @ sep # b) = Some (a, b)"
  by (auto simp: split_once_def dropWhile_append takeWhile_append dropWhile_eq_Nil_conv)

lemma split_once_None: "split_once sep s = None \<longleftrightarrow> sep \<notin> set s"
proof -
  have "split_once sep s = None \<longleftrightarrow> dropWhile (\<lambda>c. c \<noteq> sep) s = []"
    by (cases "dropWhile (\<lambda>c. c \<noteq> sep) s") (simp_all add: split_once_def del: dropWhile_eq_Nil_conv)
  also have "\<dots> \<longleftrightarrow> sep \<notin> set s" by auto
  finally show ?thesis .
qed

lemma split_once_Some:
  assumes "split_once sep s = Some (a, b)"
  shows "s = a @ sep # b" "sep \<notin> set a"
proof -
  obtain c where d: "dropWhile (\<lambda>c. c \<noteq> sep) s = c # b" and a: "a = takeWhile (\<lambda>c. c \<noteq> sep) s"
    using assms by (auto simp: split_once_def split: list.splits)
  have "c = sep" using hd_dropWhile [of "\<lambda>c. c \<noteq> sep" s] d by simp
  then show "s = a @ sep # b" using takeWhile_dropWhile_id [of "\<lambda>c. c \<noteq> sep" s] a d by simp
  show "sep \<notin> set a" using a by (auto dest: set_takeWhileD)
qed

lemma split_once_Cons [simp]:
  "split_once c (c # s) = Some ([], s)"
  "x \<noteq> c \<Longrightarrow> split_once c (x # s) = map_option (apfst ((#) x)) (split_once c s)"
  by (simp add: split_once_def)
    (cases "dropWhile (\<lambda>ca. ca \<noteq> c) s"; simp add: split_once_def del: dropWhile_eq_Nil_conv)

lemma strip_prefix_append [simp]: "strip_prefix p (p @ s) = Some s"
  by (simp add: strip_prefix_def)

lemma strip_prefix_Some: "strip_prefix p s = Some t \<longleftrightarrow> s = p @ t"
proof
  assume "strip_prefix p s = Some t"
  then have "take (length p) s = p" "t = drop (length p) s" by (auto simp: strip_prefix_def split: if_splits)
  then show "s = p @ t" by (metis append_take_drop_id)
qed simp

lemma strip_suffix_append [simp]: "strip_suffix p (s @ p) = Some s"
  by (simp add: strip_suffix_def)

section \<open>Lines\<close>

definition newline :: char where "newline = CHR 0x0A"
definition carriage_return :: char where "carriage_return = CHR 0x0D"

definition strip_cr :: "string \<Rightarrow> string" where
  "strip_cr l = (if l \<noteq> [] \<and> last l = carriage_return then butlast l else l)"

text \<open>\<open>str::lines\<close>: a line ends at a line feed, with a carriage return before it dropped; text
  after the last line feed is a line of its own, if there is any.\<close>

function lines :: "string \<Rightarrow> string list" where
  "lines s = (if s = [] then []
     else case split_once newline s of None \<Rightarrow> [s] | Some (l, rest) \<Rightarrow> strip_cr l # lines rest)"
  by pat_completeness auto
termination
  by (relation "measure length") (auto dest: split_once_Some(1))

declare lines.simps [simp del]

definition line_text :: "string \<Rightarrow> bool" where
  "line_text l \<longleftrightarrow> newline \<notin> set l \<and> (l = [] \<or> last l \<noteq> carriage_return)"

lemma lines_Nil [simp]: "lines [] = []"
  by (simp add: lines.simps)

lemma lines_Cons: "line_text l \<Longrightarrow> lines (l @ newline # rest) = l # lines rest"
  by (subst lines.simps) (auto simp: line_text_def strip_cr_def)

lemma lines_concat:
  "\<forall>l \<in> set ls. line_text l \<Longrightarrow> lines (concat (map (\<lambda>l. l @ [newline]) ls)) = ls"
  by (induction ls) (simp_all add: lines_Cons)

lemma line_text_Cons:
  "line_text []" "line_text (c # s) \<longleftrightarrow> c \<noteq> newline \<and> (if s = [] then c \<noteq> carriage_return else line_text s)"
  by (auto simp: line_text_def)

lemma line_text_append: "newline \<notin> set a \<Longrightarrow> line_text b \<Longrightarrow> b \<noteq> [] \<or> line_text a \<Longrightarrow> line_text (a @ b)"
  by (auto simp: line_text_def last_append)

section \<open>Decimal numbers\<close>

definition is_digit :: "char \<Rightarrow> bool" where
  "is_digit c \<longleftrightarrow> 48 \<le> (of_char c :: nat) \<and> (of_char c :: nat) \<le> 57"

fun parse_digits :: "nat \<Rightarrow> string \<Rightarrow> nat option" where
  "parse_digits acc [] = Some acc"
| "parse_digits acc (c # cs) = (if is_digit c then parse_digits (acc * 10 + (of_char c - 48)) cs else None)"

text \<open>\<open>str::parse\<close> for unsigned integers: an optional plus sign and at least one digit, a value in
  range. For signed integers a minus sign may stand there.\<close>

definition parse_number :: "string \<Rightarrow> nat option" where
  "parse_number s = (if s = [] then None else parse_digits 0 s)"

definition parse_unsigned :: "nat \<Rightarrow> string \<Rightarrow> nat option" where
  "parse_unsigned maximum s =
     (case parse_number (if s \<noteq> [] \<and> hd s = CHR ''+'' then tl s else s) of
        None \<Rightarrow> None | Some n \<Rightarrow> if n \<le> maximum then Some n else None)"

definition parse_signed :: "nat \<Rightarrow> string \<Rightarrow> int option" where
  "parse_signed bound s =
     (if s \<noteq> [] \<and> hd s = CHR ''-''
      then (case parse_number (tl s) of None \<Rightarrow> None
            | Some n \<Rightarrow> if n \<le> bound then Some (- int n) else None)
      else map_option int (parse_unsigned (bound - 1) s))"

function show_nat :: "nat \<Rightarrow> string" where
  "show_nat n = (if n < 10 then [char_of (n + 48)] else show_nat (n div 10) @ [char_of (n mod 10 + 48)])"
  by pat_completeness auto
termination
  by (relation "measure id") auto

declare show_nat.simps [simp del]

definition show_int :: "int \<Rightarrow> string" where
  "show_int i = (if i < 0 then CHR ''-'' # show_nat (nat (- i)) else show_nat (nat i))"

lemma show_int_nonempty [simp]: "show_int i \<noteq> []"
  unfolding show_int_def by (subst show_nat.simps, subst show_nat.simps) simp

lemma of_char_digit: "d < (10 :: nat) \<Longrightarrow> (of_char (char_of (d + 48) :: char) :: nat) = d + 48"
  by (simp add: of_char_of)

lemma is_digit_char: "d < (10 :: nat) \<Longrightarrow> is_digit (char_of (d + 48))"
  by (simp add: is_digit_def of_char_digit)

lemma parse_digits_append:
  "parse_digits acc (xs @ ys) = Option.bind (parse_digits acc xs) (\<lambda>n. parse_digits n ys)"
  by (induction xs arbitrary: acc) auto

lemma parse_digits_show: "parse_digits acc (show_nat n) = Some (acc * 10 ^ length (show_nat n) + n)"
proof (induction n rule: show_nat.induct)
  case (1 n)
  show ?case
  proof (cases "n < 10")
    case True
    then show ?thesis by (simp add: show_nat.simps [of n] is_digit_char of_char_digit)
  next
    case False
    then have "parse_digits acc (show_nat n) = Some ((acc * 10 ^ length (show_nat (n div 10)) + n div 10) * 10 + n mod 10)"
      using 1 by (simp add: show_nat.simps [of n] parse_digits_append is_digit_char of_char_digit)
    moreover have "length (show_nat n) = Suc (length (show_nat (n div 10)))"
      using False by (simp add: show_nat.simps [of n])
    ultimately show ?thesis by (simp add: algebra_simps)
  qed
qed

lemma show_nat_digits: "\<forall>c \<in> set (show_nat n). is_digit c"
proof (induction n rule: show_nat.induct)
  case (1 n)
  show ?case
    by (cases "n < 10") (use 1 in \<open>simp_all add: show_nat.simps [of n] is_digit_char\<close>)
qed

lemma show_nat_nonempty [simp]: "show_nat n \<noteq> []"
  by (subst show_nat.simps) simp

lemma hd_show_nat: "is_digit (hd (show_nat n))"
  using show_nat_digits [of n] hd_in_set [OF show_nat_nonempty [of n]] by blast

lemma not_digits: "\<not> is_digit (CHR ''+'')" "\<not> is_digit (CHR ''-'')" "\<not> is_digit newline"
  "\<not> is_digit carriage_return" "\<not> is_digit (CHR '':'')" "\<not> is_digit (CHR ''='')" "\<not> is_digit (CHR '' '')"
  by (simp_all add: is_digit_def newline_def carriage_return_def)

lemma parse_unsigned_show: "n \<le> maximum \<Longrightarrow> parse_unsigned maximum (show_nat n) = Some n"
  using hd_show_nat [of n] not_digits(1)
  by (auto simp: parse_unsigned_def parse_number_def parse_digits_show)

lemma parse_signed_show:
  assumes "- int bound \<le> i" "i < int bound"
  shows "parse_signed bound (show_int i) = Some i"
proof (cases "i < 0")
  case True
  then show ?thesis using assms by (simp add: show_int_def parse_signed_def parse_number_def parse_digits_show)
next
  case False
  then have "hd (show_nat (nat i)) \<noteq> CHR ''-''" using hd_show_nat not_digits(2) by metis
  moreover have "nat i \<le> bound - 1" using False assms(2) by linarith
  ultimately show ?thesis using False by (simp add: show_int_def parse_signed_def parse_unsigned_show)
qed

lemma length_show_nat: "n < 10 ^ k \<Longrightarrow> 1 \<le> k \<Longrightarrow> length (show_nat n) \<le> k"
proof (induction n arbitrary: k rule: show_nat.induct)
  case (1 n)
  show ?case
  proof (cases "n < 10")
    case True
    then show ?thesis using "1.prems" by (simp add: show_nat.simps [of n])
  next
    case False
    obtain j where k: "k = Suc j" using "1.prems" by (cases k) auto
    then have j: "k = Suc j" "1 \<le> j" using "1.prems"(1) False by (cases j; simp)+
    then have "n div 10 < 10 ^ j" using "1.prems" by (simp add: div_less_iff_less_mult mult.commute)
    then show ?thesis using "1.IH" [OF False _ j(2)] False j(1) by (simp add: show_nat.simps [of n])
  qed
qed

lemma length_show_int: "\<bar>i\<bar> < 10 ^ k \<Longrightarrow> 1 \<le> k \<Longrightarrow> length (show_int i) \<le> k + 1"
proof -
  assume "\<bar>i\<bar> < 10 ^ k" "1 \<le> k"
  moreover from this have "nat \<bar>i\<bar> < 10 ^ k" by (simp add: nat_less_iff)
  ultimately show ?thesis using length_show_nat [of "nat \<bar>i\<bar>" k] by (auto simp: show_int_def)
qed

lemma show_nat_free: "\<not> is_digit c \<Longrightarrow> c \<notin> set (show_nat n)"
  using show_nat_digits by blast

lemma line_text_show_nat: "line_text (show_nat n)"
  using show_nat_digits [of n] last_in_set [OF show_nat_nonempty [of n]] not_digits(3,4)
  unfolding line_text_def by metis

lemma line_text_show_int: "line_text (show_int i)"
  using line_text_show_nat [of "nat (- i)"] line_text_show_nat [of "nat i"]
  by (auto simp: show_int_def line_text_def newline_def)

section \<open>UTF-8\<close>

text \<open>\<open>String::from_utf8\<close> and \<open>chars\<close>: the code points, or nothing for invalid bytes (stray or missing
  continuation bytes, overlong forms, surrogates, values beyond U+10FFFF).\<close>

definition continuation :: "nat \<Rightarrow> bool" where
  "continuation b \<longleftrightarrow> 128 \<le> b \<and> b < 192"

fun utf8 :: "nat list \<Rightarrow> nat list option" where
  "utf8 [] = Some []"
| "utf8 (a # s) =
     (if a < 128 then map_option ((#) a) (utf8 s)
      else case s of [] \<Rightarrow> None | b # s2 \<Rightarrow>
        if \<not> continuation b then None
        else if 194 \<le> a \<and> a < 224 then map_option ((#) ((a - 192) * 64 + (b - 128))) (utf8 s2)
        else case s2 of [] \<Rightarrow> None | c # s3 \<Rightarrow>
          if \<not> continuation c then None
          else if 224 \<le> a \<and> a < 240 then
            (let p = (a - 224) * 4096 + (b - 128) * 64 + (c - 128)
             in if p < 2048 \<or> 55296 \<le> p \<and> p < 57344 then None else map_option ((#) p) (utf8 s3))
          else case s3 of [] \<Rightarrow> None | d # s4 \<Rightarrow>
            if \<not> continuation d then None
            else if 240 \<le> a \<and> a < 245 then
              (let p = (a - 240) * 262144 + (b - 128) * 4096 + (c - 128) * 64 + (d - 128)
               in if p < 65536 \<or> 1114112 \<le> p then None else map_option ((#) p) (utf8 s4))
            else None)"

definition chars :: "string \<Rightarrow> nat list option" where
  "chars s = utf8 (map of_char s)"

definition is_control :: "nat \<Rightarrow> bool" where
  "is_control p \<longleftrightarrow> p < 32 \<or> 127 \<le> p \<and> p < 160"

end
