(* ===== verification/Capture_Lifecycle.thy ===== *)
theory Capture_Lifecycle
  imports Redunar_Text
begin

text \<open>
  The supervision of a launched game, \<open>redunar-daemon/src/capture_lifecycle.rs\<close>: the bounded reader
  of \<open>/proc/<pid>/stat\<close>, the process identity made of a process id and the kernel's start time, and
  \<open>evaluate\<close>, which the monitor calls again and again and which decides whether the launch goes on,
  ends or has failed, and whether its resources may be released. The proc file system is outside
  the program: \<open>proc n pid\<close> is what the \<open>n\<close>-th read of a stat file gives for a process id. Times
  are nanoseconds since the launch.
\<close>

datatype capture_phase = Armed | Capturing | Completed | CaptureFailed

datatype error_kind = NotFound | InvalidData | OtherKind

type_synonym proc_files = "nat \<Rightarrow> nat \<Rightarrow> error_kind + string"

definition ARMED_STARTUP_GRACE :: nat where "ARMED_STARTUP_GRACE = 5 * 10 ^ 9"
definition PRODUCER_EXIT_GRACE :: nat where "PRODUCER_EXIT_GRACE = 500 * 10 ^ 6"
definition MAX_PROC_STAT_BYTES :: nat where "MAX_PROC_STAT_BYTES = 4 * 1024"

section \<open>Process identity\<close>

record process_stat =
  ps_state :: char
  ps_start_time_ticks :: nat

definition is_ascii_whitespace :: "char \<Rightarrow> bool" where
  "is_ascii_whitespace c \<longleftrightarrow> c \<in> {CHR '' '', CHR 0x09, CHR 0x0A, CHR 0x0C, CHR 0x0D}"

text \<open>\<open>slice.split(predicate)\<close>.\<close>

fun split_by :: "('a \<Rightarrow> bool) \<Rightarrow> 'a list \<Rightarrow> 'a list list" where
  "split_by P [] = [[]]"
| "split_by P (x # xs) =
     (if P x then [] # split_by P xs
      else (case split_by P xs of [] \<Rightarrow> [[x]] | p # ps \<Rightarrow> (x # p) # ps))"

text \<open>What follows the last closing parenthesis.\<close>

definition after_comm :: "string \<Rightarrow> string option" where
  "after_comm contents = (if CHR '')'' \<in> set contents
     then Some (rev (takeWhile (\<lambda>c. c \<noteq> CHR '')'') (rev contents))) else None)"

text \<open>A start time that is not UTF-8 has a byte that is no digit, so both errors of the source are
  the failure of the number parser.\<close>

definition parse_process_stat :: "string \<Rightarrow> error_kind + process_stat" where
  "parse_process_stat contents = (case after_comm contents of
       None \<Rightarrow> Inl InvalidData
     | Some tail_text \<Rightarrow>
         (case filter (\<lambda>field. field \<noteq> []) (split_by is_ascii_whitespace tail_text) of
            [] \<Rightarrow> Inl InvalidData
          | state # others \<Rightarrow>
              if length others \<le> 18 then Inl InvalidData
              else (case parse_unsigned (2 ^ 64 - 1) (others ! 18) of
                      None \<Rightarrow> Inl InvalidData
                    | Some ticks \<Rightarrow> Inr \<lparr>ps_state = hd state, ps_start_time_ticks = ticks\<rparr>)))"

definition read_process_stat :: "proc_files \<Rightarrow> nat \<Rightarrow> nat \<Rightarrow> error_kind + process_stat" where
  "read_process_stat proc n process_id =
     and_then (proc n process_id) (\<lambda>contents.
       let contents = take (MAX_PROC_STAT_BYTES + 1) contents
       in if length contents > MAX_PROC_STAT_BYTES then Inl InvalidData else parse_process_stat contents)"

record process_identity =
  pi_process_id :: nat
  pi_start_time_ticks :: nat

definition ended_state :: "char \<Rightarrow> bool" where
  "ended_state c \<longleftrightarrow> c \<in> {CHR ''Z'', CHR ''X'', CHR ''x''}"

definition identity_capture :: "proc_files \<Rightarrow> nat \<Rightarrow> nat \<Rightarrow> error_kind + process_identity" where
  "identity_capture proc n process_id =
     and_then (read_process_stat proc n process_id) (\<lambda>stat.
       if ended_state (ps_state stat) then Inl NotFound
       else Inr \<lparr>pi_process_id = process_id, pi_start_time_ticks = ps_start_time_ticks stat\<rparr>)"

definition identity_is_alive :: "proc_files \<Rightarrow> nat \<Rightarrow> process_identity \<Rightarrow> error_kind + bool" where
  "identity_is_alive proc n identity =
     and_then (read_process_stat proc n (pi_process_id identity)) (\<lambda>stat.
       Inr (ps_start_time_ticks stat = pi_start_time_ticks identity \<and> \<not> ended_state (ps_state stat)))"

section \<open>Decisions\<close>

datatype launch_process_state = LaunchRunning | LaunchExited string | MonitorFailed string

definition has_exited :: "launch_process_state \<Rightarrow> bool" where
  "has_exited launched = (case launched of LaunchExited _ \<Rightarrow> True | _ \<Rightarrow> False)"

datatype launch_disposition = KeepActive | Release
datatype lifecycle_action = Continue | Finish | Fail string
datatype process_liveness = Alive | Dead | Unknown

record lifecycle_decision =
  ld_action :: lifecycle_action
  ld_disposition :: launch_disposition

definition decision_keep :: lifecycle_decision where
  "decision_keep = \<lparr>ld_action = Continue, ld_disposition = KeepActive\<rparr>"

definition decision_finish :: "bool \<Rightarrow> lifecycle_decision" where
  "decision_finish release = \<lparr>ld_action = Finish, ld_disposition = (if release then Release else KeepActive)\<rparr>"

definition decision_fail :: "string \<Rightarrow> bool \<Rightarrow> lifecycle_decision" where
  "decision_fail message release =
     \<lparr>ld_action = Fail message, ld_disposition = (if release then Release else KeepActive)\<rparr>"

text \<open>\<open>ll_reads\<close> counts the stat files read so far; it selects the state of the proc file system.\<close>

record launch_lifecycle =
  ll_producer :: "process_identity option"
  ll_producer_unavailable_since :: "nat option"
  ll_reads :: nat

definition lifecycle_new :: launch_lifecycle where
  "lifecycle_new = \<lparr>ll_producer = None, ll_producer_unavailable_since = None, ll_reads = 0\<rparr>"

definition liveness_of :: "error_kind + bool \<Rightarrow> process_liveness" where
  "liveness_of alive = (case alive of Inr True \<Rightarrow> Alive | Inr False \<Rightarrow> Dead | Inl NotFound \<Rightarrow> Dead | Inl _ \<Rightarrow> Unknown)"

definition known_liveness :: "proc_files \<Rightarrow> process_identity \<Rightarrow> launch_lifecycle \<Rightarrow>
    launch_lifecycle \<times> process_liveness" where
  "known_liveness proc identity l =
     (l\<lparr>ll_reads := ll_reads l + 1\<rparr>, liveness_of (identity_is_alive proc (ll_reads l) identity))"

definition producer_liveness :: "proc_files \<Rightarrow> nat \<Rightarrow> launch_lifecycle \<Rightarrow> launch_lifecycle \<times> process_liveness" where
  "producer_liveness proc process_id l = (case ll_producer l of
       Some producer \<Rightarrow>
         if pi_process_id producer \<noteq> process_id then (l, Dead) else known_liveness proc producer l
     | None \<Rightarrow>
         (let read = identity_capture proc (ll_reads l) process_id; l = l\<lparr>ll_reads := ll_reads l + 1\<rparr>
          in case read of
               Inr identity \<Rightarrow> known_liveness proc identity (l\<lparr>ll_producer := Some identity\<rparr>)
             | Inl NotFound \<Rightarrow> (l, Dead)
             | Inl _ \<Rightarrow> (l, Unknown)))"

definition no_producer_message :: "launch_process_state \<Rightarrow> string" where
  "no_producer_message launched = (case launched of
       LaunchExited status \<Rightarrow> ''The launcher exited with '' @ status
         @ '', but no capture producer connected within '' @ show_nat (ARMED_STARTUP_GRACE div 10 ^ 9) @ '' seconds.''
     | _ \<Rightarrow> ''No capture producer connected within '' @ show_nat (ARMED_STARTUP_GRACE div 10 ^ 9) @ '' seconds.'')"

definition lost_producer_message :: "process_liveness \<Rightarrow> string" where
  "lost_producer_message liveness = (case liveness of
       Dead \<Rightarrow> ''The capture producer exited without completing capture.''
     | _ \<Rightarrow> ''Redunar could not verify that the capture producer is still running.'')"

definition evaluate_with_proc :: "proc_files \<Rightarrow> nat \<Rightarrow> capture_phase \<Rightarrow> nat option \<Rightarrow> launch_process_state \<Rightarrow>
    launch_lifecycle \<Rightarrow> launch_lifecycle \<times> lifecycle_decision" where
  "evaluate_with_proc proc elapsed phase producer_process_id launched l = (case launched of
       MonitorFailed error \<Rightarrow>
         (l, decision_fail (''Could not monitor the launched game process: '' @ error) False)
     | _ \<Rightarrow>
       if phase = CaptureFailed \<and> producer_process_id = None then (l, decision_finish (has_exited launched))
       else (case producer_process_id of
         None \<Rightarrow>
           if elapsed < ARMED_STARTUP_GRACE then (l, decision_keep)
           else (l, decision_fail (no_producer_message launched) (has_exited launched))
       | Some process_id \<Rightarrow>
           (case producer_liveness proc process_id l of (l, liveness) \<Rightarrow>
              if phase = CaptureFailed then (l, decision_finish (liveness = Dead \<and> has_exited launched))
              else if liveness = Alive then (l\<lparr>ll_producer_unavailable_since := None\<rparr>, decision_keep)
              else
                (let unavailable_since = unwrap_or (ll_producer_unavailable_since l) elapsed;
                     l = l\<lparr>ll_producer_unavailable_since := Some unavailable_since\<rparr>
                 in if phase = Completed then (l, decision_finish (liveness = Dead \<and> has_exited launched))
                    else if elapsed - unavailable_since < PRODUCER_EXIT_GRACE then (l, decision_keep)
                    else (l, decision_fail (lost_producer_message liveness)
                               (liveness = Dead \<and> has_exited launched))))))"

section \<open>Reading the stat file\<close>

lemma split_by_free: "\<forall>x \<in> set xs. \<not> P x \<Longrightarrow> split_by P xs = [xs]"
  by (induction xs) auto

lemma split_by_append: "\<forall>x \<in> set xs. \<not> P x \<Longrightarrow> P sep \<Longrightarrow> split_by P (xs @ sep # ys) = xs # split_by P ys"
  by (induction xs) auto

lemma after_comm_last: "CHR '')'' \<notin> set b \<Longrightarrow> after_comm (a @ CHR '')'' # b) = Some b"
proof -
  assume "CHR '')'' \<notin> set b"
  then have "takeWhile (\<lambda>c. c \<noteq> CHR '')'') (rev b) = rev b" by (auto simp: takeWhile_eq_all_conv)
  then show ?thesis by (simp add: after_comm_def takeWhile_tail del: takeWhile_eq_all_conv)
qed

text \<open>A field the kernel prints after the command name.\<close>

definition stat_field :: "string \<Rightarrow> bool" where
  "stat_field f \<longleftrightarrow> f \<noteq> [] \<and> (\<forall>c \<in> set f. \<not> is_ascii_whitespace c \<and> c \<noteq> CHR '')'')"

text \<open>The line of \<open>proc(5)\<close>: process id, command name in parentheses, state and the further fields.\<close>

definition stat_line :: "nat \<Rightarrow> string \<Rightarrow> char \<Rightarrow> string list \<Rightarrow> string" where
  "stat_line pid comm state others = show_nat pid @ '' ('' @ comm @ '')''
     @ concat (map (\<lambda>f. '' '' @ f) ([state] # others)) @ [newline]"

lemma stat_fields:
  "\<forall>f \<in> set fs. stat_field f \<Longrightarrow>
    filter (\<lambda>f. f \<noteq> []) (split_by is_ascii_whitespace (concat (map (\<lambda>f. '' '' @ f) fs) @ [newline])) = fs"
proof (induction fs)
  case Nil
  show ?case by (simp add: is_ascii_whitespace_def newline_def)
next
  case (Cons f fs)
  obtain sep rest where rest: "concat (map (\<lambda>f. '' '' @ f) fs) @ [newline] = sep # rest" "is_ascii_whitespace sep"
    by (cases fs) (auto simp: is_ascii_whitespace_def newline_def)
  have "split_by is_ascii_whitespace (f @ sep # rest) = f # split_by is_ascii_whitespace rest"
    using Cons.prems rest(2) by (intro split_by_append) (simp_all add: stat_field_def)
  moreover have "filter (\<lambda>f. f \<noteq> []) (split_by is_ascii_whitespace rest) = fs"
    using Cons rest by simp
  moreover have "is_ascii_whitespace (CHR '' '')" by (simp add: is_ascii_whitespace_def)
  ultimately show ?case using Cons.prems rest(1) by (simp add: stat_field_def)
qed

lemma parse_stat_fields:
  assumes "stat_field [state]" "\<forall>f \<in> set others. stat_field f" "19 \<le> length others"
    and "others ! 18 = show_nat ticks" "ticks < 2 ^ 64"
  shows "parse_process_stat (stat_line pid comm state others) = Inr \<lparr>ps_state = state, ps_start_time_ticks = ticks\<rparr>"
proof -
  let ?tail = "concat (map (\<lambda>f. '' '' @ f) ([state] # others)) @ [newline]"
  have "CHR '')'' \<notin> set ?tail"
    using assms(1,2) by (auto simp: stat_field_def newline_def)
  from after_comm_last [OF this, of "show_nat pid @ '' ('' @ comm"] have "after_comm (stat_line pid comm state others) = Some ?tail"
    by (simp add: stat_line_def)
  moreover have "filter (\<lambda>f. f \<noteq> []) (split_by is_ascii_whitespace ?tail) = [state] # others"
    using assms(1,2) by (intro stat_fields) simp
  moreover have "parse_unsigned (2 ^ 64 - 1) (show_nat ticks) = Some ticks"
    using assms(5) by (intro parse_unsigned_show) simp
  ultimately show ?thesis using assms(3,4) by (simp add: parse_process_stat_def)
qed

text \<open>The stat parser is not misled by the command name, which a process chooses itself and
  which may hold spaces and closing parentheses: for every line in the kernel's format it returns
  the state and the start time of that line.\<close>

theorem parse_stat_line:
  assumes "stat_field [state]" "\<forall>f \<in> set others. stat_field f" "19 \<le> length others"
    and "others ! 18 = show_nat ticks" "ticks < 2 ^ 64"
  shows "parse_process_stat (stat_line pid comm state others) = Inr \<lparr>ps_state = state, ps_start_time_ticks = ticks\<rparr>"
  using assms by (rule parse_stat_fields)

theorem parse_stat_line_witness:
  "parse_process_stat (stat_line 42 ''a) b (c'' CHR ''S'' (replicate 18 ''1'' @ [''77''])) =
    Inr \<lparr>ps_state = CHR ''S'', ps_start_time_ticks = 77\<rparr>"
proof -
  have n: "show_nat 77 = ''77''" by code_simp
  show ?thesis
    by (rule parse_stat_line)
      (simp_all add: stat_field_def is_ascii_whitespace_def n nth_append)
qed

section \<open>Evidence of an end\<close>










section \<open>Continuous unavailability\<close>

text \<open>A supervised launch with the observations of the producer that \<open>evaluate\<close> made outside the
  failed phase, each with its time.\<close>

record supervision =
  su_lifecycle :: launch_lifecycle
  su_log :: "(nat \<times> process_liveness) list"

datatype evaluation = Evaluate nat capture_phase "nat option" launch_process_state

definition observation :: "proc_files \<Rightarrow> evaluation \<Rightarrow> launch_lifecycle \<Rightarrow> (nat \<times> process_liveness) list" where
  "observation proc e l = (case e of Evaluate elapsed phase producer launched \<Rightarrow>
     (case (launched, producer) of
        (MonitorFailed _, _) \<Rightarrow> []
      | (_, None) \<Rightarrow> []
      | (_, Some pid) \<Rightarrow> if phase = CaptureFailed then [] else [(elapsed, snd (producer_liveness proc pid l))]))"

definition supervise :: "proc_files \<Rightarrow> supervision \<Rightarrow> evaluation \<Rightarrow> supervision \<times> lifecycle_decision" where
  "supervise proc s e = (case e of Evaluate elapsed phase producer launched \<Rightarrow>
     (case evaluate_with_proc proc elapsed phase producer launched (su_lifecycle s) of (l, d) \<Rightarrow>
        (\<lparr>su_lifecycle = l, su_log = su_log s @ observation proc e (su_lifecycle s)\<rparr>, d)))"

definition supervise_step :: "proc_files \<Rightarrow> supervision \<Rightarrow> evaluation \<Rightarrow> supervision \<Rightarrow> bool" where
  "supervise_step proc s e t \<longleftrightarrow> t = fst (supervise proc s e)"

definition supervise_init :: "supervision \<Rightarrow> bool" where
  "supervise_init s \<longleftrightarrow> s = \<lparr>su_lifecycle = lifecycle_new, su_log = []\<rparr>"

text \<open>Since \<open>t\<close> no observation found the producer alive.\<close>

definition unavailable_from :: "nat \<Rightarrow> (nat \<times> process_liveness) list \<Rightarrow> bool" where
  "unavailable_from t log \<longleftrightarrow> (\<exists>earlier later. log = earlier @ later \<and> later \<noteq> [] \<and> fst (hd later) = t
     \<and> (\<forall>seen \<in> set later. snd seen \<noteq> Alive))"

definition supervise_inv :: "supervision \<Rightarrow> bool" where
  "supervise_inv s \<longleftrightarrow> (case ll_producer_unavailable_since (su_lifecycle s) of None \<Rightarrow> True
     | Some t \<Rightarrow> unavailable_from t (su_log s))"

lemma unavailable_from_snoc:
  "x \<noteq> Alive \<Longrightarrow> unavailable_from t log \<Longrightarrow> unavailable_from t (log @ [(e, x)])"
  "x \<noteq> Alive \<Longrightarrow> unavailable_from e (log @ [(e, x)])"
proof -
  show "x \<noteq> Alive \<Longrightarrow> unavailable_from e (log @ [(e, x)])"
    unfolding unavailable_from_def by (intro exI [of _ log] exI [of _ "[(e, x)]"]) simp
  assume x: "x \<noteq> Alive" and "unavailable_from t log"
  then obtain a b where "log = a @ b" "b \<noteq> []" "fst (hd b) = t" "\<forall>seen \<in> set b. snd seen \<noteq> Alive"
    by (auto simp: unavailable_from_def)
  with x show "unavailable_from t (log @ [(e, x)])"
    unfolding unavailable_from_def by (intro exI [of _ a] exI [of _ "b @ [(e, x)]"]) auto
qed

lemma liveness_keeps_since:
  "producer_liveness proc pid l = (l', x) \<Longrightarrow> ll_producer_unavailable_since l' = ll_producer_unavailable_since l"
  by (auto simp: producer_liveness_def known_liveness_def Let_def split: option.splits sum.splits if_splits error_kind.splits)

lemma evaluate_since:
  assumes "supervise_inv s" "supervise proc s (Evaluate elapsed phase producer launched) = (t, d)"
  shows "supervise_inv t"
    and "ld_action d = Fail m \<Longrightarrow> producer = Some pid \<Longrightarrow> (\<forall>e. launched \<noteq> MonitorFailed e) \<Longrightarrow>
      \<exists>since. since + PRODUCER_EXIT_GRACE \<le> elapsed \<and> unavailable_from since (su_log t)"
proof -
  let ?l = "su_lifecycle s"
  consider (observed) pid' where "producer = Some pid'" "phase \<noteq> CaptureFailed" "\<forall>e. launched \<noteq> MonitorFailed e"
    | (skipped) "ll_producer_unavailable_since (su_lifecycle t) = ll_producer_unavailable_since ?l"
        "su_log t = su_log s" "\<forall>m. ld_action d = Fail m \<longrightarrow> producer = None \<or> (\<exists>e. launched = MonitorFailed e)"
  proof (cases "producer = None \<or> phase = CaptureFailed \<or> (\<exists>e. launched = MonitorFailed e)")
    case True
    then have "ll_producer_unavailable_since (su_lifecycle t) = ll_producer_unavailable_since ?l"
      "su_log t = su_log s" "\<forall>m. ld_action d = Fail m \<longrightarrow> producer = None \<or> (\<exists>e. launched = MonitorFailed e)"
      using assms(2)
      by (auto dest: liveness_keeps_since simp: supervise_def evaluate_with_proc_def observation_def decision_finish_def
          split: launch_process_state.splits option.splits if_splits prod.splits)
    then show thesis by (rule that(2))
  qed (use that(1) in \<open>cases producer; auto\<close>)
  then have "supervise_inv t \<and> (ld_action d = Fail m \<longrightarrow> producer = Some pid \<longrightarrow> (\<forall>e. launched \<noteq> MonitorFailed e) \<longrightarrow>
      (\<exists>since. since + PRODUCER_EXIT_GRACE \<le> elapsed \<and> unavailable_from since (su_log t)))"
  proof cases
    case skipped
    then show ?thesis using assms(1) by (auto simp: supervise_inv_def split: option.splits)
  next
    case (observed pid')
    obtain l x where live: "producer_liveness proc pid' ?l = (l, x)" by fastforce
    then have since: "ll_producer_unavailable_since l = ll_producer_unavailable_since ?l"
      by (rule liveness_keeps_since)
    have log: "su_log t = su_log s @ [(elapsed, x)]"
      using assms(2) observed live
      by (auto simp: supervise_def observation_def split: launch_process_state.splits prod.splits)
    show ?thesis
    proof (cases "x = Alive")
      case True
      then show ?thesis
        using assms(2) observed live
        by (auto simp: supervise_def evaluate_with_proc_def supervise_inv_def decision_keep_def
            split: launch_process_state.splits)
    next
      case False
      let ?t = "unwrap_or (ll_producer_unavailable_since ?l) elapsed"
      have from_t: "unavailable_from ?t (su_log t)"
        using False assms(1) unavailable_from_snoc [OF False] unfolding log supervise_inv_def
        by (cases "ll_producer_unavailable_since ?l") simp_all
      have "ll_producer_unavailable_since (su_lifecycle t) = Some ?t"
        "ld_action d = Fail m \<Longrightarrow> \<not> elapsed - ?t < PRODUCER_EXIT_GRACE"
        using assms(2) observed live False since
        by (auto simp: supervise_def evaluate_with_proc_def Let_def decision_keep_def decision_finish_def
            split: launch_process_state.splits if_splits)
      with from_t show ?thesis by (auto simp: supervise_inv_def PRODUCER_EXIT_GRACE_def intro!: exI [of _ ?t])
    qed
  qed
  then show "supervise_inv t"
    and "ld_action d = Fail m \<Longrightarrow> producer = Some pid \<Longrightarrow> (\<forall>e. launched \<noteq> MonitorFailed e) \<Longrightarrow>
      \<exists>since. since + PRODUCER_EXIT_GRACE \<le> elapsed \<and> unavailable_from since (su_log t)"
    by blast+
qed

interpretation supervision: event_system supervise_init "supervise_step proc" supervise_inv for proc
proof
  show "supervise_inv s" if "supervise_init s" for s
    using that by (simp add: supervise_init_def supervise_inv_def lifecycle_new_def)
  show "supervise_inv t" if "supervise_inv s" "supervise_step proc s e t" for s e t
    using that evaluate_since(1) [of s proc] by (cases e) (auto simp: supervise_step_def prod_eq_iff)
qed

section \<open>Release\<close>

text \<open>A capture session accepts one producer process only (\<open>Capture_Session.session_keeps_producer\<close>), so
  all evaluations of a launch name the same process or, before its hello, none.\<close>

definition names_producer :: "nat \<Rightarrow> evaluation \<Rightarrow> bool" where
  "names_producer pid e = (case e of Evaluate _ _ producer _ \<Rightarrow> producer \<in> {None, Some pid})"

definition producer_step :: "proc_files \<Rightarrow> nat \<Rightarrow> supervision \<Rightarrow> evaluation \<Rightarrow> supervision \<Rightarrow> bool" where
  "producer_step proc pid s e t \<longleftrightarrow> names_producer pid e \<and> supervise_step proc s e t"




text \<open>C15: A connected producer is given up only after half a second without a sign of life: in every
  supervised launch, when an evaluation reports a failure although the launched process could be
  monitored and a producer is known, then some observation at least 500 ms earlier did not find the
  producer alive, and no observation since then did.\<close>

theorem producer_lost_after_grace:
  assumes "reach supervise_init (supervise_step proc) s"
    and "supervise proc s (Evaluate elapsed phase (Some pid) launched) = (t, d)"
    and "ld_action d = Fail m" "\<forall>e. launched \<noteq> MonitorFailed e"
  shows "\<exists>since. since + PRODUCER_EXIT_GRACE \<le> elapsed \<and> unavailable_from since (su_log t)"
  using evaluate_since(2) [OF supervision.inv_reach [OF assms(1)] assms(2,3) refl assms(4)] .

text \<open>A launch whose producer, process 42 started at tick 77, ends after its first observation.\<close>

definition sample_proc :: proc_files where
  "sample_proc n pid = (if n < 2 then Inr (stat_line 42 ''game'' CHR ''S'' (replicate 18 ''1'' @ [''77''])) else Inl NotFound)"

lemma sample_reads:
  "n < 2 \<Longrightarrow> read_process_stat sample_proc n pid = Inr \<lparr>ps_state = CHR ''S'', ps_start_time_ticks = 77\<rparr>"
  "\<not> n < 2 \<Longrightarrow> read_process_stat sample_proc n pid = Inl NotFound"
proof -
  have "parse_process_stat (stat_line 42 ''game'' CHR ''S'' (replicate 18 ''1'' @ [''77'']))
      = Inr \<lparr>ps_state = CHR ''S'', ps_start_time_ticks = 77\<rparr>"
    "length (stat_line 42 ''game'' CHR ''S'' (replicate 18 ''1'' @ [''77''])) \<le> MAX_PROC_STAT_BYTES"
  proof -
    have n: "show_nat 77 = ''77''" "show_nat 42 = ''42''" by code_simp+
    show "parse_process_stat (stat_line 42 ''game'' CHR ''S'' (replicate 18 ''1'' @ [''77'']))
        = Inr \<lparr>ps_state = CHR ''S'', ps_start_time_ticks = 77\<rparr>"
      by (rule parse_stat_fields) (simp_all add: stat_field_def is_ascii_whitespace_def n nth_append)
    show "length (stat_line 42 ''game'' CHR ''S'' (replicate 18 ''1'' @ [''77''])) \<le> MAX_PROC_STAT_BYTES"
      by (simp add: stat_line_def n MAX_PROC_STAT_BYTES_def length_concat sum_list_replicate)
  qed
  then show "n < 2 \<Longrightarrow> read_process_stat sample_proc n pid = Inr \<lparr>ps_state = CHR ''S'', ps_start_time_ticks = 77\<rparr>"
    "\<not> n < 2 \<Longrightarrow> read_process_stat sample_proc n pid = Inl NotFound"
    by (simp_all add: read_process_stat_def sample_proc_def)
qed

definition sample_lost :: supervision where
  "sample_lost = \<lparr>su_lifecycle = \<lparr>ll_producer = Some \<lparr>pi_process_id = 42, pi_start_time_ticks = 77\<rparr>,
       ll_producer_unavailable_since = Some (2 * 10 ^ 9), ll_reads = 3\<rparr>,
     su_log = [(10 ^ 9, Alive), (2 * 10 ^ 9, Dead)]\<rparr>"

lemma producer_reach: "reach supervise_init (producer_step proc pid) s \<Longrightarrow> reach supervise_init (supervise_step proc) s"
  by (induction rule: reach.induct) (auto simp: producer_step_def intro: reach.intros)

lemma sample_lost_reach: "reach supervise_init (producer_step sample_proc 42) sample_lost"
proof -
  let ?e = "\<lambda>t. Evaluate t Capturing (Some 42) (LaunchExited ''code 0'')"
  let ?s0 = "\<lparr>su_lifecycle = lifecycle_new, su_log = []\<rparr>"
  let ?s1 = "\<lparr>su_lifecycle = \<lparr>ll_producer = Some \<lparr>pi_process_id = 42, pi_start_time_ticks = 77\<rparr>,
       ll_producer_unavailable_since = None, ll_reads = 2\<rparr>, su_log = [(10 ^ 9, Alive)]\<rparr>"
  note run = producer_step_def names_producer_def supervise_step_def supervise_def evaluate_with_proc_def observation_def producer_liveness_def
    known_liveness_def identity_capture_def identity_is_alive_def liveness_of_def sample_reads ended_state_def
    PRODUCER_EXIT_GRACE_def Let_def
  have "producer_step sample_proc 42 ?s0 (?e (10 ^ 9)) ?s1" by (simp add: run lifecycle_new_def)
  moreover have "producer_step sample_proc 42 ?s1 (?e (2 * 10 ^ 9)) sample_lost"
    by (simp add: run sample_lost_def)
  moreover have "reach supervise_init (producer_step sample_proc 42) ?s0"
    by (rule reach_init) (simp add: supervise_init_def)
  ultimately show ?thesis by (meson reach_step)
qed

lemma sample_lost_decision:
  "\<exists>t m. supervise sample_proc sample_lost (Evaluate (3 * 10 ^ 9) Capturing (Some 42) (LaunchExited ''code 0''))
    = (t, \<lparr>ld_action = Fail m, ld_disposition = Release\<rparr>)"
  by (simp add: sample_lost_def supervise_def evaluate_with_proc_def producer_liveness_def known_liveness_def
      identity_is_alive_def liveness_of_def sample_reads PRODUCER_EXIT_GRACE_def decision_fail_def has_exited_def)

theorem producer_lost_after_grace_witness:
  "\<exists>since. since + 500000000 \<le> 3000000000 \<and> unavailable_from since
    (su_log (fst (supervise sample_proc sample_lost
       (Evaluate (3 * 10 ^ 9) Capturing (Some 42) (LaunchExited ''code 0'')))))"
proof -
  obtain t m where d: "supervise sample_proc sample_lost (Evaluate (3 * 10 ^ 9) Capturing (Some 42) (LaunchExited ''code 0''))
    = (t, \<lparr>ld_action = Fail m, ld_disposition = Release\<rparr>)"
    using sample_lost_decision by blast
  show ?thesis
    unfolding d fst_conv using producer_lost_after_grace [OF producer_reach [OF sample_lost_reach] d] by (simp add: PRODUCER_EXIT_GRACE_def)
qed


end
