(* ===== verification/Capture_Session.thy ===== *)
theory Capture_Session
  imports Capture_Protocol Capture_Lifecycle
begin

text \<open>
  The daemon's model of one capture producer, \<open>CaptureSessionModel\<close> of
  \<open>redunar-daemon/src/capture.rs\<close>: which decoded messages it accepts in which phase, the frame
  counters and the bounded history, the Replay sources, copies and exports a producer announces,
  and the overlay status it reports. The frame metrics of the snapshot are floating-point numbers
  computed from the history and are not modelled.
\<close>

definition LIVE_FRAME_HISTORY_CAPACITY :: nat where "LIVE_FRAME_HISTORY_CAPACITY = 240"
definition REPLAY_SOURCE_HISTORY_CAPACITY :: nat where "REPLAY_SOURCE_HISTORY_CAPACITY = 8"

record capture_session_model =
  cs_session_id :: capture_session_id
  cs_phase :: capture_phase
  cs_producer_process_id :: "u32 option"
  cs_capture_api :: "capture_api option"
  cs_gpu_identity :: "capture_gpu_identity option"
  cs_next_sequence :: "u64 option"
  cs_received_frame_count :: u64
  cs_dropped_frame_count :: u64
  cs_rejected_message_count :: u64
  cs_history :: "u64 list"
  cs_replay_source_candidate :: "replay_source_candidate option"
  cs_replay_announced_sources :: "replay_source_candidate list"
  cs_replay_source_rejection :: "replay_source_rejection option"
  cs_replay_last_copy_sequence :: "u64 option"
  cs_replay_copied_frame_count :: u64
  cs_replay_latest_copy_source :: "replay_source_candidate option"
  cs_replay_latest_copied_bytes :: "u32 option"
  cs_replay_latest_sample_checksum :: "u64 option"
  cs_replay_exported_frame_count :: u64
  cs_replay_latest_export_fd :: "u32 option"
  cs_replay_latest_export_sequence :: "u64 option"
  cs_replay_last_export_sequence :: "u64 option"
  cs_replay_latest_export_source :: "replay_source_candidate option"
  cs_replay_latest_export_offset :: "u32 option"
  cs_replay_latest_export_stride :: "u32 option"
  cs_replay_latest_export_modifier :: "u64 option"
  cs_replay_latest_export_timestamp_ns :: "u64 option"
  cs_replay_latest_export_duration_ns :: "u64 option"
  cs_overlay_status :: "overlay_runtime_status option"
  cs_revision :: u64
  cs_failure :: "string option"

definition session_model_new :: "capture_session_id \<Rightarrow> capture_session_model" where
  "session_model_new session_id = \<lparr>cs_session_id = session_id, cs_phase = Armed, cs_producer_process_id = None,
     cs_capture_api = None, cs_gpu_identity = None, cs_next_sequence = None, cs_received_frame_count = 0,
     cs_dropped_frame_count = 0, cs_rejected_message_count = 0, cs_history = [],
     cs_replay_source_candidate = None, cs_replay_announced_sources = [], cs_replay_source_rejection = None,
     cs_replay_last_copy_sequence = None, cs_replay_copied_frame_count = 0, cs_replay_latest_copy_source = None,
     cs_replay_latest_copied_bytes = None, cs_replay_latest_sample_checksum = None,
     cs_replay_exported_frame_count = 0, cs_replay_latest_export_fd = None, cs_replay_latest_export_sequence = None,
     cs_replay_last_export_sequence = None, cs_replay_latest_export_source = None,
     cs_replay_latest_export_offset = None, cs_replay_latest_export_stride = None,
     cs_replay_latest_export_modifier = None, cs_replay_latest_export_timestamp_ns = None,
     cs_replay_latest_export_duration_ns = None, cs_overlay_status = None, cs_revision = 0, cs_failure = None\<rparr>"

type_synonym state_result = "capture_session_model \<times> (string + unit)"

definition bump_revision :: "capture_session_model \<Rightarrow> capture_session_model" where
  "bump_revision s = s\<lparr>cs_revision := saturating_add (cs_revision s) 1\<rparr>"

definition reject_transport_message :: "capture_session_model \<Rightarrow> capture_session_model" where
  "reject_transport_message s =
     bump_revision (s\<lparr>cs_rejected_message_count := saturating_add (cs_rejected_message_count s) 1\<rparr>)"

definition reject_message :: "string \<Rightarrow> capture_session_model \<Rightarrow> state_result" where
  "reject_message message s =
     (bump_revision (s\<lparr>cs_rejected_message_count := saturating_add (cs_rejected_message_count s) 1\<rparr>), Inl message)"

definition accept_gpu_identity :: "capture_api \<Rightarrow> capture_gpu_identity option \<Rightarrow> capture_session_model \<Rightarrow> state_result" where
  "accept_gpu_identity api identity s =
     (if cs_phase s \<noteq> Capturing \<or> cs_capture_api s \<noteq> Some api
      then reject_message ''capture GPU identity requires the active graphics API'' s
      else (bump_revision (s\<lparr>cs_gpu_identity := identity\<rparr>), Inr ()))"

definition accept_hello :: "u32 \<Rightarrow> capture_api \<Rightarrow> u64 \<Rightarrow> capture_session_model \<Rightarrow> state_result" where
  "accept_hello process_id api producer_started_monotonic_ns s =
     (if cs_phase s \<notin> {Armed, Completed} then reject_message ''capture hello is only valid while armed'' s
      else if process_id = 0 \<or> producer_started_monotonic_ns = 0
      then reject_message ''capture hello contains invalid producer identity'' s
      else if (case cs_producer_process_id s of None \<Rightarrow> False | Some existing \<Rightarrow> existing \<noteq> process_id)
      then reject_message ''capture session cannot change producer process'' s
      else (bump_revision (s\<lparr>cs_phase := Capturing, cs_producer_process_id := Some process_id,
              cs_capture_api := Some api, cs_gpu_identity := None, cs_next_sequence := None,
              cs_replay_source_candidate := None, cs_replay_announced_sources := [],
              cs_replay_source_rejection := None, cs_replay_last_copy_sequence := None,
              cs_replay_copied_frame_count := 0, cs_replay_latest_copy_source := None,
              cs_replay_latest_copied_bytes := None, cs_replay_latest_sample_checksum := None,
              cs_replay_exported_frame_count := 0, cs_replay_latest_export_fd := None,
              cs_replay_latest_export_sequence := None, cs_replay_last_export_sequence := None,
              cs_replay_latest_export_source := None, cs_replay_latest_export_offset := None,
              cs_replay_latest_export_stride := None, cs_replay_latest_export_modifier := None,
              cs_replay_latest_export_timestamp_ns := None, cs_replay_latest_export_duration_ns := None,
              cs_overlay_status := None\<rparr>), Inr ()))"

text \<open>\<open>pop_front\<close> at full capacity, then \<open>push_back\<close>.\<close>

definition push_bounded :: "nat \<Rightarrow> 'a \<Rightarrow> 'a list \<Rightarrow> 'a list" where
  "push_bounded capacity x xs = (if length xs = capacity then tl xs else xs) @ [x]"

definition accept_frames :: "capture_api \<Rightarrow> u64 \<Rightarrow> u64 list \<Rightarrow> capture_session_model \<Rightarrow> state_result" where
  "accept_frames api first_sequence frame_intervals_ns s =
     (if cs_phase s \<noteq> Capturing then reject_message ''capture frames require an active producer'' s
      else if cs_capture_api s \<noteq> Some api
      then reject_message ''capture frames do not match the active graphics API'' s
      else if frame_intervals_ns = [] \<or> 0 \<in> set frame_intervals_ns
      then reject_message ''capture frames must contain positive intervals'' s
      else if (case cs_next_sequence s of None \<Rightarrow> False | Some expected \<Rightarrow> first_sequence < expected)
      then reject_message ''capture frames are duplicate or out of order'' s
      else
        let s = s\<lparr>cs_dropped_frame_count := saturating_add (cs_dropped_frame_count s)
                  (case cs_next_sequence s of None \<Rightarrow> first_sequence
                   | Some expected \<Rightarrow> saturating_sub first_sequence expected)\<rparr>
        in case try_from (length frame_intervals_ns) of
             None \<Rightarrow> (s, Inl ''capture frame count cannot fit sequence'')
           | Some frame_count \<Rightarrow>
               (case checked_add first_sequence frame_count of
                  None \<Rightarrow> (s, Inl ''capture frame sequence overflowed'')
                | Some next_sequence \<Rightarrow>
                    (bump_revision (s\<lparr>
                       cs_history := fold (push_bounded LIVE_FRAME_HISTORY_CAPACITY) frame_intervals_ns (cs_history s),
                       cs_received_frame_count := saturating_add (cs_received_frame_count s) frame_count,
                       cs_next_sequence := Some next_sequence\<rparr>), Inr ())))"

definition accept_goodbye :: "capture_api \<Rightarrow> u64 \<Rightarrow> capture_session_model \<Rightarrow> state_result" where
  "accept_goodbye api last_sequence s =
     (if cs_phase s \<noteq> Capturing then reject_message ''capture goodbye requires an active producer'' s
      else if cs_capture_api s \<noteq> Some api
      then reject_message ''capture goodbye does not match the active graphics API'' s
      else if (case cs_next_sequence s of None \<Rightarrow> False | Some expected \<Rightarrow> last_sequence < saturating_sub expected 1)
      then reject_message ''capture goodbye precedes accepted frame data'' s
      else
        let dropped = (case cs_next_sequence s of
                Some expected \<Rightarrow> saturating_sub last_sequence (saturating_sub expected 1)
              | None \<Rightarrow> if last_sequence > 0 then saturating_add last_sequence 1 else 0)
        in (bump_revision (s\<lparr>cs_dropped_frame_count := saturating_add (cs_dropped_frame_count s) dropped,
              cs_phase := Completed, cs_gpu_identity := None\<rparr>), Inr ()))"

definition source_area :: "replay_source_candidate \<Rightarrow> u64" where
  "source_area c = saturating_mul (ucast (sc_width c)) (ucast (sc_height c))"

definition accept_replay_source_candidate :: "replay_source_candidate \<Rightarrow> capture_session_model \<Rightarrow> state_result" where
  "accept_replay_source_candidate candidate s =
     (if cs_phase s \<noteq> Capturing then reject_message ''replay source candidate requires an active producer'' s
      else
        let s = (if candidate \<in> set (cs_replay_announced_sources s) then s
                 else s\<lparr>cs_replay_announced_sources := push_bounded REPLAY_SOURCE_HISTORY_CAPACITY candidate
                          (cs_replay_announced_sources s)\<rparr>);
            current_area = (case cs_replay_source_candidate s of None \<Rightarrow> 0 | Some current \<Rightarrow> source_area current)
        in (if source_area candidate > current_area
            then bump_revision (s\<lparr>cs_replay_source_candidate := Some candidate, cs_replay_source_rejection := None\<rparr>)
            else s, Inr ()))"

definition accept_replay_source_rejection :: "replay_source_rejection \<Rightarrow> capture_session_model \<Rightarrow> state_result" where
  "accept_replay_source_rejection reason s =
     (if cs_phase s \<noteq> Capturing then reject_message ''replay source rejection requires an active producer'' s
      else if cs_replay_source_candidate s \<noteq> None \<or> cs_replay_source_rejection s \<noteq> Some reason
      then (bump_revision (s\<lparr>cs_replay_source_candidate := None, cs_replay_announced_sources := [],
              cs_replay_latest_copy_source := None, cs_replay_latest_copied_bytes := None,
              cs_replay_latest_sample_checksum := None, cs_replay_latest_export_fd := None,
              cs_replay_latest_export_sequence := None, cs_replay_latest_export_source := None,
              cs_replay_latest_export_offset := None, cs_replay_latest_export_stride := None,
              cs_replay_latest_export_modifier := None, cs_replay_latest_export_timestamp_ns := None,
              cs_replay_latest_export_duration_ns := None, cs_replay_source_rejection := Some reason\<rparr>), Inr ())
      else (s, Inr ()))"

definition select_replay_source :: "replay_source_candidate \<Rightarrow> capture_session_model \<Rightarrow> capture_session_model" where
  "select_replay_source source s =
     (let s = s\<lparr>cs_gpu_identity := sc_gpu_identity source\<rparr>
      in if cs_replay_source_candidate s \<noteq> Some source
         then bump_revision (s\<lparr>cs_replay_source_candidate := Some source, cs_replay_source_rejection := None\<rparr>)
         else s)"

definition clear_replay_copy_tracking :: "capture_session_model \<Rightarrow> capture_session_model" where
  "clear_replay_copy_tracking s = bump_revision (s\<lparr>cs_replay_last_copy_sequence := None,
     cs_replay_latest_copy_source := None, cs_replay_latest_copied_bytes := None,
     cs_replay_latest_sample_checksum := None\<rparr>)"

definition not_newer :: "u64 \<Rightarrow> u64 option \<Rightarrow> bool" where
  "not_newer sequence previous = (case previous of None \<Rightarrow> False | Some p \<Rightarrow> sequence \<le> p)"

definition expected_bytes :: "replay_source_candidate \<Rightarrow> u32 option" where
  "expected_bytes source = Option.bind (checked_mul (sc_width source) (sc_height source)) (\<lambda>pixels. checked_mul pixels 4)"

definition accept_replay_frame_copied :: "u64 \<Rightarrow> replay_source_candidate \<Rightarrow> u32 \<Rightarrow> u64 \<Rightarrow>
    capture_session_model \<Rightarrow> state_result" where
  "accept_replay_frame_copied sequence source copied_bytes sample_checksum s =
     (if cs_phase s \<noteq> Capturing \<or> source \<notin> set (cs_replay_announced_sources s)
      then reject_message ''replay frame copy requires an active eligible source'' s
      else if expected_bytes source \<noteq> Some copied_bytes \<or> not_newer sequence (cs_replay_last_copy_sequence s)
      then reject_message ''replay frame copy metadata is invalid or out of order'' s
      else (bump_revision (s\<lparr>cs_replay_last_copy_sequence := Some sequence,
              cs_replay_copied_frame_count := saturating_add (cs_replay_copied_frame_count s) 1,
              cs_replay_latest_copy_source := Some source, cs_replay_latest_copied_bytes := Some copied_bytes,
              cs_replay_latest_sample_checksum := Some sample_checksum\<rparr>), Inr ()))"

definition export_metadata_invalid :: "u32 \<Rightarrow> replay_source_candidate \<Rightarrow> u32 \<Rightarrow> u32 \<Rightarrow> u64 \<Rightarrow> u64 \<Rightarrow> bool" where
  "export_metadata_invalid fd_number source offset stride timestamp_ns duration_ns \<longleftrightarrow> fd_number < 3
     \<or> stride < saturating_mul (sc_width source) 4 \<or> offset > saturating_mul (sc_height source) stride
     \<or> duration_ns = 0 \<or> checked_add timestamp_ns duration_ns = None"

definition accept_replay_frame_exported :: "u64 \<Rightarrow> u32 \<Rightarrow> replay_source_candidate \<Rightarrow> u32 \<Rightarrow> u32 \<Rightarrow> u64 \<Rightarrow> u64 \<Rightarrow> u64 \<Rightarrow>
    capture_session_model \<Rightarrow> state_result" where
  "accept_replay_frame_exported sequence fd_number source offset stride modifier timestamp_ns duration_ns s =
     (if cs_capture_api s \<notin> {Some Vulkan, Some OpenGl}
      then reject_message ''replay frame export requires a native capture backend'' s
      else if cs_phase s \<noteq> Capturing \<or> source \<notin> set (cs_replay_announced_sources s)
        \<or> export_metadata_invalid fd_number source offset stride timestamp_ns duration_ns
        \<or> not_newer sequence (cs_replay_last_export_sequence s)
      then reject_message ''replay frame export metadata is invalid or out of order'' s
      else (bump_revision (s\<lparr>cs_replay_latest_export_sequence := Some sequence,
              cs_replay_last_export_sequence := Some sequence, cs_replay_latest_export_fd := Some fd_number,
              cs_replay_latest_export_source := Some source, cs_replay_latest_export_offset := Some offset,
              cs_replay_latest_export_stride := Some stride, cs_replay_latest_export_modifier := Some modifier,
              cs_replay_latest_export_timestamp_ns := Some timestamp_ns,
              cs_replay_latest_export_duration_ns := Some duration_ns,
              cs_replay_exported_frame_count := saturating_add (cs_replay_exported_frame_count s) 1\<rparr>), Inr ()))"

definition overlay_transition :: "overlay_runtime_status option \<Rightarrow> overlay_runtime_status \<Rightarrow> bool" where
  "overlay_transition current status = (case current of
       None \<Rightarrow> status = Requested
     | Some Active \<Rightarrow> status \<noteq> Requested
     | Some _ \<Rightarrow> True)"

definition accept_overlay_status :: "overlay_runtime_status \<Rightarrow> capture_session_model \<Rightarrow> state_result" where
  "accept_overlay_status status s =
     (if cs_capture_api s = None then reject_message ''overlay status requires a capture backend'' s
      else if cs_phase s \<noteq> Capturing then reject_message ''overlay status requires an active producer'' s
      else if \<not> overlay_transition (cs_overlay_status s) status
      then reject_message ''overlay status transition is invalid'' s
      else (if cs_overlay_status s \<noteq> Some status then bump_revision (s\<lparr>cs_overlay_status := Some status\<rparr>) else s,
            Inr ()))"

definition session_accept :: "capture_message \<Rightarrow> capture_session_model \<Rightarrow> state_result" where
  "session_accept message s =
     (if message_session message \<noteq> cs_session_id s
      then reject_message ''capture message belongs to a different session'' s
      else case message of
          GpuIdentity _ api identity \<Rightarrow> accept_gpu_identity api identity s
        | Hello _ process_id api started \<Rightarrow> accept_hello process_id api started s
        | FrameBatch _ api first_sequence intervals \<Rightarrow> accept_frames api first_sequence intervals s
        | Goodbye _ api last_sequence _ \<Rightarrow> accept_goodbye api last_sequence s
        | SourceCandidate _ candidate \<Rightarrow> accept_replay_source_candidate candidate s
        | SourceRejected _ reason \<Rightarrow> accept_replay_source_rejection reason s
        | FrameCopied _ sequence source copied_bytes checksum \<Rightarrow>
            accept_replay_frame_copied sequence source copied_bytes checksum s
        | FrameExported _ sequence fd_number source offset stride modifier timestamp_ns duration_ns \<Rightarrow>
            accept_replay_frame_exported sequence fd_number source offset stride modifier timestamp_ns duration_ns s
        | FrameReleased _ _ \<Rightarrow> reject_message ''replay frame release is daemon-to-producer only'' s
        | OverlayStatus _ status \<Rightarrow> accept_overlay_status status s)"

definition accept_frame_batch :: "capture_session_id \<Rightarrow> capture_api \<Rightarrow> u64 \<Rightarrow> u64 list \<Rightarrow> capture_session_model \<Rightarrow> state_result" where
  "accept_frame_batch session_id api first_sequence intervals s =
     (if session_id \<noteq> cs_session_id s then reject_message ''capture message belongs to a different session'' s
      else accept_frames api first_sequence intervals s)"

definition session_fail :: "string \<Rightarrow> capture_session_model \<Rightarrow> capture_session_model" where
  "session_fail message s =
     (if cs_phase s \<in> {Completed, CaptureFailed} then s
      else bump_revision (s\<lparr>cs_phase := CaptureFailed, cs_gpu_identity := None, cs_failure := Some message\<rparr>))"

section \<open>Rejected messages\<close>

text \<open>Decoded batches whose sequence numbers end beyond 64 bits.\<close>

definition overflows :: "capture_message \<Rightarrow> bool" where
  "overflows message = (case message of
       FrameBatch _ _ first_sequence intervals \<Rightarrow> 2 ^ 64 \<le> unat first_sequence + length intervals | _ \<Rightarrow> False)"

lemma frames_in_range:
  fixes first_sequence :: u64
  assumes "unat first_sequence + length intervals < 2 ^ 64"
  shows "(try_from (length intervals) :: u64 option) = Some (word_of_nat (length intervals))"
    "checked_add first_sequence (word_of_nat (length intervals)) = Some (first_sequence + word_of_nat (length intervals))"
    "unat (word_of_nat (length intervals) :: u64) = length intervals"
    "unat (first_sequence + word_of_nat (length intervals)) = unat first_sequence + length intervals"
proof -
  show n: "unat (word_of_nat (length intervals) :: u64) = length intervals"
    using assms by (simp add: unat_of_nat)
  show "(try_from (length intervals) :: u64 option) = Some (word_of_nat (length intervals))"
    using assms by (simp add: try_from_def)
  show "checked_add first_sequence (word_of_nat (length intervals)) = Some (first_sequence + word_of_nat (length intervals))"
    "unat (first_sequence + word_of_nat (length intervals)) = unat first_sequence + length intervals"
    using assms n by (simp_all add: checked_add_def unat_word_ariths)
qed

lemmas accept_defs = accept_gpu_identity_def accept_hello_def accept_goodbye_def
  accept_replay_source_candidate_def accept_replay_source_rejection_def accept_replay_frame_copied_def
  accept_replay_frame_exported_def accept_overlay_status_def

lemma frames_error:
  assumes "accept_frames api first_sequence intervals s = (t, Inl e)" "unat first_sequence + length intervals < 2 ^ 64"
  shows "t = reject_transport_message s"
  using assms frames_in_range [OF assms(2)]
  by (auto simp: accept_frames_def reject_message_def reject_transport_message_def Let_def split: if_splits)

lemma refused_unchanged:
  assumes "session_accept message s = (t, Inl e)" "\<not> overflows message"
  shows "t = reject_transport_message s"
proof (cases "message_session message = cs_session_id s")
  case True
  then show ?thesis
    using assms frames_error [of _ _ _ s t e]
    by (cases message)
      (auto simp: session_accept_def accept_defs reject_message_def reject_transport_message_def Let_def overflows_def
        split: if_splits)
qed (use assms(1) in \<open>simp add: session_accept_def reject_message_def reject_transport_message_def\<close>)

text \<open>The frames a batch claims were lost before it.\<close>

definition batch_gap :: "capture_message \<Rightarrow> capture_session_model \<Rightarrow> u64" where
  "batch_gap message s = (case message of
       FrameBatch _ _ first_sequence _ \<Rightarrow>
         (case cs_next_sequence s of None \<Rightarrow> first_sequence | Some expected \<Rightarrow> saturating_sub first_sequence expected)
     | _ \<Rightarrow> 0)"

lemma frames_refused:
  assumes "accept_frames api first_sequence intervals s = (t, Inl e)"
  shows "t = reject_transport_message s \<or> t = s\<lparr>cs_dropped_frame_count := saturating_add (cs_dropped_frame_count s)
    (batch_gap (FrameBatch session_id api first_sequence intervals) s)\<rparr>"
  using assms
  by (simp add: accept_frames_def reject_message_def reject_transport_message_def batch_gap_def Let_def
      split: if_splits option.splits)

lemma overflowing_unchanged:
  assumes "session_accept message s = (t, Inl e)" "overflows message"
  shows "t = reject_transport_message s
    \<or> t = s\<lparr>cs_dropped_frame_count := saturating_add (cs_dropped_frame_count s) (batch_gap message s)\<rparr>"
proof -
  obtain session_id api first_sequence intervals where m: "message = FrameBatch session_id api first_sequence intervals"
    using assms(2) by (cases message) (simp_all add: overflows_def)
  show ?thesis
  proof (cases "message_session message = cs_session_id s")
    case True
    then have "accept_frames api first_sequence intervals s = (t, Inl e)"
      using assms(1) by (simp add: m session_accept_def)
    from frames_refused [OF this] show ?thesis by (simp add: m)
  qed (use assms(1) in \<open>simp add: session_accept_def reject_message_def reject_transport_message_def\<close>)
qed

text \<open>C13: A message the session refuses changes nothing but the count of refused messages and the
  revision: phase, counters, history, sources, exports and overlay status stay as they were. The one
  exception is a batch whose last sequence number does not fit 64 bits: it may be refused without
  being counted as refused, and then adds the frames it claims were lost before it (its first
  sequence number less the expected one) to the dropped count, and changes nothing else.\<close>

theorem refused_message_is_only_counted:
  assumes "session_accept message s = (t, Inl e)"
  shows "t = reject_transport_message s \<or> overflows message
    \<and> t = s\<lparr>cs_dropped_frame_count := saturating_add (cs_dropped_frame_count s) (batch_gap message s)\<rparr>"
  using refused_unchanged [OF assms] overflowing_unchanged [OF assms] by blast

definition sample_session :: capture_session_model where
  "sample_session = fst (session_accept (Hello [] 7 Vulkan 1) (session_model_new []))"

lemma sample_session_fields:
  "cs_session_id sample_session = []" "cs_phase sample_session = Capturing" "cs_capture_api sample_session = Some Vulkan"
  "cs_next_sequence sample_session = None" "cs_dropped_frame_count sample_session = 0"
  "cs_rejected_message_count sample_session = 0" "cs_revision sample_session = 1" "cs_history sample_session = []"
  "cs_received_frame_count sample_session = 0"
  by (simp_all add: sample_session_def session_accept_def accept_hello_def session_model_new_def bump_revision_def
      saturating_add_def)

theorem refused_message_is_only_counted_witness:
  "session_accept (Hello [] 8 OpenGl 5) sample_session
    = (reject_transport_message sample_session, Inl ''capture hello is only valid while armed'')"
proof -
  obtain t where t: "session_accept (Hello [] 8 OpenGl 5) sample_session = (t, Inl ''capture hello is only valid while armed'')"
    by (simp add: session_accept_def accept_hello_def sample_session_fields reject_message_def)
  from refused_message_is_only_counted [OF this] show ?thesis using t by (simp add: overflows_def)
qed

text \<open>The exception is reached: one datagram of an active producer drives the published dropped count
  to its maximum, and neither the count of refused messages nor the revision tells anyone.\<close>

lemma overflowing_batch_counts_drops:
  "session_accept (FrameBatch [] Vulkan (- 1) [1]) sample_session
    = (sample_session\<lparr>cs_dropped_frame_count := - 1\<rparr>, Inl ''capture frame sequence overflowed'')"
  by (simp add: session_accept_def accept_frames_def sample_session_fields try_from_def checked_add_def
      saturating_add_def)

section \<open>Well-formed sessions\<close>

datatype session_event =
    AcceptMessage capture_message
  | AcceptFrameBatch capture_session_id capture_api u64 "u64 list"
  | FailSession string
  | RejectTransport
  | SelectSource replay_source_candidate
  | ClearCopyTracking

primrec session_apply :: "session_event \<Rightarrow> capture_session_model \<Rightarrow> capture_session_model" where
  "session_apply (AcceptMessage message) s = fst (session_accept message s)"
| "session_apply (AcceptFrameBatch session_id api first_sequence intervals) s =
     fst (accept_frame_batch session_id api first_sequence intervals s)"
| "session_apply (FailSession message) s = session_fail message s"
| "session_apply RejectTransport s = reject_transport_message s"
| "session_apply (SelectSource source) s = select_replay_source source s"
| "session_apply ClearCopyTracking s = clear_replay_copy_tracking s"

definition session_step :: "capture_session_model \<Rightarrow> session_event \<Rightarrow> capture_session_model \<Rightarrow> bool" where
  "session_step s e t \<longleftrightarrow> t = session_apply e s"

definition session_init :: "capture_session_model \<Rightarrow> bool" where
  "session_init s \<longleftrightarrow> (\<exists>session_id. s = session_model_new session_id)"

definition phase_wf :: "capture_session_model \<Rightarrow> bool" where
  "phase_wf s \<longleftrightarrow> (cs_phase s = Armed \<longrightarrow> cs_producer_process_id s = None \<and> cs_capture_api s = None)
     \<and> (cs_phase s \<in> {Capturing, Completed} \<longrightarrow> cs_capture_api s \<noteq> None
          \<and> (\<exists>p. cs_producer_process_id s = Some p \<and> p \<noteq> 0))
     \<and> (cs_failure s \<noteq> None \<longleftrightarrow> cs_phase s = CaptureFailed)
     \<and> (cs_overlay_status s \<noteq> None \<longrightarrow> cs_capture_api s \<noteq> None)"

definition history_wf :: "capture_session_model \<Rightarrow> bool" where
  "history_wf s \<longleftrightarrow> length (cs_history s) \<le> LIVE_FRAME_HISTORY_CAPACITY \<and> 0 \<notin> set (cs_history s)
     \<and> length (cs_replay_announced_sources s) \<le> REPLAY_SOURCE_HISTORY_CAPACITY
     \<and> distinct (cs_replay_announced_sources s)"

definition copy_wf :: "capture_session_model \<Rightarrow> bool" where
  "copy_wf s \<longleftrightarrow> (case cs_replay_latest_copy_source s of
       None \<Rightarrow> cs_replay_latest_copied_bytes s = None \<and> cs_replay_latest_sample_checksum s = None
     | Some source \<Rightarrow> cs_replay_latest_copied_bytes s = expected_bytes source
         \<and> cs_replay_latest_copied_bytes s \<noteq> None \<and> cs_replay_latest_sample_checksum s \<noteq> None)"

definition export_wf :: "capture_session_model \<Rightarrow> bool" where
  "export_wf s \<longleftrightarrow> (case cs_replay_latest_export_source s of
       None \<Rightarrow> cs_replay_latest_export_fd s = None \<and> cs_replay_latest_export_sequence s = None
         \<and> cs_replay_latest_export_offset s = None \<and> cs_replay_latest_export_stride s = None
         \<and> cs_replay_latest_export_modifier s = None \<and> cs_replay_latest_export_timestamp_ns s = None
         \<and> cs_replay_latest_export_duration_ns s = None
     | Some source \<Rightarrow> (\<exists>fd offset stride modifier t d. cs_replay_latest_export_fd s = Some fd
         \<and> cs_replay_latest_export_offset s = Some offset \<and> cs_replay_latest_export_stride s = Some stride
         \<and> cs_replay_latest_export_modifier s = Some modifier \<and> cs_replay_latest_export_timestamp_ns s = Some t
         \<and> cs_replay_latest_export_duration_ns s = Some d
         \<and> \<not> export_metadata_invalid fd source offset stride t d)
         \<and> cs_replay_latest_export_sequence s \<noteq> None
         \<and> cs_replay_latest_export_sequence s = cs_replay_last_export_sequence s)"

definition session_wf :: "capture_session_model \<Rightarrow> bool" where
  "session_wf s \<longleftrightarrow> phase_wf s \<and> history_wf s \<and> copy_wf s \<and> export_wf s"

lemma fold_push_bounded:
  "length h \<le> c \<Longrightarrow> 0 < c \<Longrightarrow> length (fold (push_bounded c) xs h) \<le> c"
  "set (fold (push_bounded c) xs h) \<subseteq> set h \<union> set xs"
proof -
  show "length h \<le> c \<Longrightarrow> 0 < c \<Longrightarrow> length (fold (push_bounded c) xs h) \<le> c"
    by (induction xs arbitrary: h) (auto simp: push_bounded_def)
  have tl: "set (tl ys) \<subseteq> set ys" for ys :: "'a list" by (cases ys) auto
  show "set (fold (push_bounded c) xs h) \<subseteq> set h \<union> set xs"
  proof (induction xs arbitrary: h)
    case (Cons x xs)
    have "set (push_bounded c x h) \<subseteq> insert x (set h)" using tl [of h] by (auto simp: push_bounded_def)
    with Cons.IH [of "push_bounded c x h"] show ?case by auto
  qed simp
qed

lemmas session_wf_defs = session_wf_def phase_wf_def history_wf_def copy_wf_def export_wf_def

lemma bump_revision_wf [simp]: "session_wf (bump_revision s) = session_wf s"
  by (simp add: session_wf_defs bump_revision_def cong: option.case_cong)

lemma reject_wf [simp]: "session_wf (reject_transport_message s) = session_wf s"
  "session_wf (fst (reject_message m s)) = session_wf s"
  by (simp_all add: reject_transport_message_def reject_message_def)
    (simp_all add: session_wf_defs cong: option.case_cong)

lemma history_wf_push:
  assumes "history_wf s" "0 \<notin> set xs"
  shows "length (fold (push_bounded LIVE_FRAME_HISTORY_CAPACITY) xs (cs_history s)) \<le> LIVE_FRAME_HISTORY_CAPACITY"
    "0 \<notin> set (fold (push_bounded LIVE_FRAME_HISTORY_CAPACITY) xs (cs_history s))"
  using assms fold_push_bounded(1) [of "cs_history s" LIVE_FRAME_HISTORY_CAPACITY xs]
    fold_push_bounded(2) [of LIVE_FRAME_HISTORY_CAPACITY xs "cs_history s"]
  by (auto simp: history_wf_def LIVE_FRAME_HISTORY_CAPACITY_def)

lemma accept_frames_wf:
  assumes "session_wf s"
  shows "session_wf (fst (accept_frames api first_sequence intervals s))"
proof (cases "0 \<in> set intervals")
  case False
  note push = history_wf_push [OF _ False, of s]
  show ?thesis
    using assms push
    by (auto simp: accept_frames_def Let_def split: option.split)
      (auto simp: session_wf_defs cong: option.case_cong)
qed (use assms in \<open>auto simp: accept_frames_def\<close>)

lemma accept_hello_wf: "session_wf s \<Longrightarrow> session_wf (fst (accept_hello process_id api started s))"
  by (auto simp: accept_hello_def split: option.split)
    (auto simp: session_wf_defs cong: option.case_cong)

lemma accept_goodbye_wf: "session_wf s \<Longrightarrow> session_wf (fst (accept_goodbye api last_sequence s))"
  by (auto simp: accept_goodbye_def Let_def split: option.split)
    (auto simp: session_wf_defs cong: option.case_cong)

lemma push_source:
  assumes "length xs \<le> c" "distinct xs" "x \<notin> set xs" "0 < c"
  shows "length (push_bounded c x xs) \<le> c" "distinct (push_bounded c x xs)"
  using assms by (cases xs; auto simp: push_bounded_def)+

lemma accept_candidate_wf: "session_wf s \<Longrightarrow> session_wf (fst (accept_replay_source_candidate candidate s))"
  using push_source [of "cs_replay_announced_sources s" REPLAY_SOURCE_HISTORY_CAPACITY candidate]
  by (auto simp: accept_replay_source_candidate_def Let_def)
    (auto simp: session_wf_defs REPLAY_SOURCE_HISTORY_CAPACITY_def cong: option.case_cong)

lemma accept_rejection_wf: "session_wf s \<Longrightarrow> session_wf (fst (accept_replay_source_rejection reason s))"
  by (auto simp: accept_replay_source_rejection_def)
    (auto simp: session_wf_defs cong: option.case_cong)

lemma accept_copied_wf:
  "session_wf s \<Longrightarrow> session_wf (fst (accept_replay_frame_copied sequence source bytes checksum s))"
  by (auto simp: accept_replay_frame_copied_def)
    (auto simp: session_wf_defs cong: option.case_cong)

lemma accept_exported_wf:
  "session_wf s \<Longrightarrow>
    session_wf (fst (accept_replay_frame_exported sequence fd source offset stride modifier t d s))"
  by (simp add: accept_replay_frame_exported_def)
    (simp add: session_wf_defs cong: option.case_cong)

lemma accept_overlay_wf: "session_wf s \<Longrightarrow> session_wf (fst (accept_overlay_status status s))"
  by (auto simp: accept_overlay_status_def)
    (auto simp: session_wf_defs cong: option.case_cong)

lemma accept_gpu_wf: "session_wf s \<Longrightarrow> session_wf (fst (accept_gpu_identity api identity s))"
  by (auto simp: accept_gpu_identity_def)
    (auto simp: session_wf_defs cong: option.case_cong)

lemmas accept_wf = accept_frames_wf accept_hello_wf accept_goodbye_wf accept_candidate_wf accept_rejection_wf
  accept_copied_wf accept_exported_wf accept_overlay_wf accept_gpu_wf

lemma session_wf_apply: "session_wf s \<Longrightarrow> session_wf (session_apply e s)"
proof (cases e)
  case (AcceptMessage message)
  assume "session_wf s"
  then show ?thesis
    unfolding AcceptMessage session_apply.simps
    by (cases message) (simp_all add: session_accept_def accept_wf)
next
  case (AcceptFrameBatch session_id api first_sequence intervals)
  assume "session_wf s"
  then show ?thesis by (simp add: AcceptFrameBatch accept_frame_batch_def accept_wf)
next
  case (FailSession message)
  assume "session_wf s"
  then show ?thesis
    by (auto simp: FailSession session_fail_def)
      (auto simp: session_wf_defs cong: option.case_cong)
next
  case (SelectSource source)
  assume "session_wf s"
  then show ?thesis
    by (auto simp: SelectSource select_replay_source_def Let_def)
      (auto simp: session_wf_defs cong: option.case_cong)
next
  case ClearCopyTracking
  assume "session_wf s"
  then show ?thesis
    by (simp add: ClearCopyTracking clear_replay_copy_tracking_def)
      (auto simp: session_wf_defs cong: option.case_cong)
qed simp

text \<open>A session never changes its producer process: what the supervision of the launch relies on.\<close>

lemma session_keeps_producer:
  assumes "cs_producer_process_id s = Some pid"
  shows "cs_producer_process_id (session_apply e s) = Some pid"
proof (cases e)
  case (AcceptMessage message)
  then show ?thesis
    using assms
    by (cases message) (auto simp: session_accept_def accept_defs accept_frames_def reject_message_def
        bump_revision_def Let_def split: option.splits)
qed (use assms in \<open>auto simp: accept_frame_batch_def accept_frames_def session_fail_def reject_message_def
    reject_transport_message_def select_replay_source_def clear_replay_copy_tracking_def bump_revision_def Let_def
    split: option.splits\<close>)

interpretation capture_session: event_system session_init session_step session_wf
proof
  show "session_wf s" if "session_init s" for s
    using that by (auto simp: session_init_def session_model_new_def session_wf_defs)
  show "session_wf t" if "session_wf s" "session_step s e t" for s e t
    using that session_wf_apply by (simp add: session_step_def)
qed

text \<open>C12: A capture session is always well formed, whatever messages, failures and selections it has
  seen: its phase matches the known producer, API and failure, the frame history holds at most 240
  positive intervals and the announced sources at most eight different ones, and the published
  copy and export are complete and valid: the right number of bytes, a row stride and an offset
  that fit the source, a duration that does not overflow, and the newest accepted sequence number.\<close>

theorem capture_session_wf:
  "reach session_init session_step s \<Longrightarrow> phase_wf s \<and> history_wf s \<and> copy_wf s \<and> export_wf s"
  using capture_session.inv_reach by (simp add: session_wf_def)

lemma sample_session_reached: "reach session_init session_step sample_session"
proof (rule reach_step)
  show "reach session_init session_step (session_model_new [])"
    by (rule reach_init) (auto simp: session_init_def)
  show "session_step (session_model_new []) (AcceptMessage (Hello [] 7 Vulkan 1)) sample_session"
    by (simp add: session_step_def sample_session_def)
qed

theorem capture_session_wf_witness:
  "phase_wf sample_session \<and> history_wf sample_session \<and> copy_wf sample_session \<and> export_wf sample_session"
  by (rule capture_session_wf [OF sample_session_reached])

end
