(* ===== verification/Capture_Frames.thy ===== *)
theory Capture_Frames
  imports Capture_Session
begin

text \<open>
  What the counters of a capture session mean. Next to the session runs a ledger that only looks at
  the accepted messages: how many frame intervals they brought, how many frames the sequence
  numbers of all producers account for, and which exports of the current producer were accepted.
\<close>

record frame_ledger =
  fl_session :: capture_session_model
  fl_received :: nat
  fl_covered :: nat
  fl_epoch :: nat
  fl_exports :: "u64 list"

text \<open>What an accepted message adds; \<open>s\<close> is the session before it.\<close>

definition ledger_entry :: "capture_session_model \<Rightarrow> capture_message \<Rightarrow> frame_ledger \<Rightarrow> frame_ledger" where
  "ledger_entry s message l = (case message of
       Hello _ _ _ _ \<Rightarrow> l\<lparr>fl_covered := fl_covered l + fl_epoch l, fl_epoch := 0, fl_exports := []\<rparr>
     | FrameBatch _ _ first_sequence intervals \<Rightarrow>
         l\<lparr>fl_received := fl_received l + length intervals, fl_epoch := unat first_sequence + length intervals\<rparr>
     | Goodbye _ _ last_sequence _ \<Rightarrow>
         l\<lparr>fl_epoch := (if cs_next_sequence s = None \<and> last_sequence = 0 then 0 else unat last_sequence + 1)\<rparr>
     | FrameExported _ sequence _ _ _ _ _ _ _ \<Rightarrow> l\<lparr>fl_exports := fl_exports l @ [sequence]\<rparr>
     | _ \<Rightarrow> l)"

definition ledger_accept :: "capture_message \<Rightarrow> frame_ledger \<Rightarrow> frame_ledger" where
  "ledger_accept message l = (case session_accept message (fl_session l) of
       (s, Inl _) \<Rightarrow> l\<lparr>fl_session := s\<rparr>
     | (s, Inr _) \<Rightarrow> (ledger_entry (fl_session l) message l)\<lparr>fl_session := s\<rparr>)"

text \<open>The steps of a session whose batches stay within 64-bit sequence numbers.\<close>

inductive ledger_step :: "frame_ledger \<Rightarrow> session_event \<Rightarrow> frame_ledger \<Rightarrow> bool" where
  message: "\<not> overflows message \<Longrightarrow> ledger_step l (AcceptMessage message) (ledger_accept message l)"
| batch: "\<not> overflows (FrameBatch session_id api first_sequence intervals) \<Longrightarrow>
    ledger_step l (AcceptFrameBatch session_id api first_sequence intervals)
      (ledger_accept (FrameBatch session_id api first_sequence intervals) l)"
| other: "e \<in> {RejectTransport, ClearCopyTracking} \<or> (\<exists>m. e = FailSession m) \<or> (\<exists>c. e = SelectSource c) \<Longrightarrow>
    ledger_step l e (l\<lparr>fl_session := session_apply e (fl_session l)\<rparr>)"

definition ledger_init :: "frame_ledger \<Rightarrow> bool" where
  "ledger_init l \<longleftrightarrow> session_init (fl_session l) \<and> fl_received l = 0 \<and> fl_covered l = 0 \<and> fl_epoch l = 0 \<and> fl_exports l = []"

text \<open>The ledger runs the session itself.\<close>

lemma ledger_session: "ledger_step l e k \<Longrightarrow> fl_session k = session_apply e (fl_session l)"
  by (cases rule: ledger_step.cases, assumption)
    (auto simp: ledger_accept_def session_accept_def accept_frame_batch_def split: prod.split sum.split)

definition counts_to :: "u64 \<Rightarrow> nat \<Rightarrow> bool" where
  "counts_to c n \<longleftrightarrow> unat c = min n (2 ^ 64 - 1)"

definition ledger_counts :: "capture_session_model \<Rightarrow> frame_ledger \<Rightarrow> bool" where
  "ledger_counts s l \<longleftrightarrow> fl_received l \<le> fl_covered l + fl_epoch l
     \<and> counts_to (cs_received_frame_count s) (fl_received l)
     \<and> counts_to (cs_dropped_frame_count s) (fl_covered l + fl_epoch l - fl_received l)
     \<and> (cs_phase s = Capturing \<longrightarrow> (case cs_next_sequence s of None \<Rightarrow> fl_epoch l = 0
          | Some n \<Rightarrow> fl_epoch l = unat n \<and> 0 < unat n))"

definition ledger_exports :: "capture_session_model \<Rightarrow> frame_ledger \<Rightarrow> bool" where
  "ledger_exports s l \<longleftrightarrow> sorted_wrt (<) (fl_exports l)
     \<and> cs_replay_last_export_sequence s = (if fl_exports l = [] then None else Some (last (fl_exports l)))"

definition ledger_inv :: "frame_ledger \<Rightarrow> bool" where
  "ledger_inv l \<longleftrightarrow> ledger_counts (fl_session l) l \<and> ledger_exports (fl_session l) l"

lemma counts_to_add: "counts_to c n \<Longrightarrow> counts_to (saturating_add c (w :: u64)) (n + unat w)"
  by (auto simp: counts_to_def unat_saturating_add min_def)

text \<open>Operations that leave the frame counters and the export order alone.\<close>

definition same_frames :: "capture_session_model \<Rightarrow> capture_session_model \<Rightarrow> bool" where
  "same_frames s t \<longleftrightarrow> cs_phase t = cs_phase s \<and> cs_next_sequence t = cs_next_sequence s
     \<and> cs_received_frame_count t = cs_received_frame_count s \<and> cs_dropped_frame_count t = cs_dropped_frame_count s
     \<and> cs_replay_last_export_sequence t = cs_replay_last_export_sequence s"

lemma same_frames_reject: "same_frames s (reject_transport_message s)" "same_frames s (fst (reject_message m s))"
  by (simp_all add: same_frames_def reject_transport_message_def reject_message_def bump_revision_def)

lemma same_frames_ops:
  "same_frames s (fst (accept_gpu_identity api identity s))"
  "same_frames s (fst (accept_replay_source_candidate candidate s))"
  "same_frames s (fst (accept_replay_source_rejection reason s))"
  "same_frames s (fst (accept_replay_frame_copied sequence source bytes checksum s))"
  "same_frames s (fst (accept_overlay_status status s))"
  "same_frames s (select_replay_source source s)" "same_frames s (clear_replay_copy_tracking s)"
  by (simp_all add: accept_gpu_identity_def accept_replay_source_candidate_def accept_replay_source_rejection_def
      accept_replay_frame_copied_def accept_overlay_status_def select_replay_source_def clear_replay_copy_tracking_def
      same_frames_reject Let_def)
    (simp_all add: same_frames_def bump_revision_def)

lemma same_frames_inv:
  "ledger_inv l \<Longrightarrow> same_frames (fl_session l) s \<Longrightarrow> ledger_inv (l\<lparr>fl_session := s\<rparr>)"
  by (simp add: ledger_inv_def ledger_counts_def ledger_exports_def same_frames_def cong: option.case_cong)

lemma refused_inv:
  "ledger_inv l \<Longrightarrow> session_accept message (fl_session l) = (s, Inl e) \<Longrightarrow> \<not> overflows message \<Longrightarrow>
    ledger_inv (l\<lparr>fl_session := s\<rparr>)"
  using refused_unchanged same_frames_reject(1) same_frames_inv by blast

section \<open>Accepted messages\<close>

lemma hello_inv:
  assumes "ledger_inv l" "accept_hello process_id api started (fl_session l) = (s, Inr u)"
  shows "ledger_inv (l\<lparr>fl_covered := fl_covered l + fl_epoch l, fl_epoch := 0, fl_exports := [], fl_session := s\<rparr>)"
proof -
  have "cs_next_sequence s = None" "cs_received_frame_count s = cs_received_frame_count (fl_session l)"
    "cs_dropped_frame_count s = cs_dropped_frame_count (fl_session l)" "cs_replay_last_export_sequence s = None"
    using assms(2) by (auto simp: accept_hello_def reject_message_def bump_revision_def split: if_splits)
  then show ?thesis using assms(1) by (simp add: ledger_inv_def ledger_counts_def ledger_exports_def)
qed

lemma batch_inv:
  assumes "ledger_inv l" "accept_frames api first_sequence intervals (fl_session l) = (s, Inr u)"
    and range: "unat first_sequence + length intervals < 2 ^ 64"
  shows "ledger_inv (l\<lparr>fl_received := fl_received l + length intervals,
           fl_epoch := unat first_sequence + length intervals, fl_session := s\<rparr>)"
proof -
  let ?s = "fl_session l"
  let ?gap = "case cs_next_sequence ?s of None \<Rightarrow> first_sequence | Some expected \<Rightarrow> saturating_sub first_sequence expected"
  note r = frames_in_range [OF range]
  have guard: "cs_phase ?s = Capturing" "intervals \<noteq> []"
    "case cs_next_sequence ?s of None \<Rightarrow> True | Some expected \<Rightarrow> expected \<le> first_sequence"
    using assms(2) by (auto simp: accept_frames_def reject_message_def split: if_splits option.split)
  have s: "cs_received_frame_count s = saturating_add (cs_received_frame_count ?s) (word_of_nat (length intervals))"
    "cs_dropped_frame_count s = saturating_add (cs_dropped_frame_count ?s) ?gap"
    "cs_next_sequence s = Some (first_sequence + word_of_nat (length intervals))"
    "cs_replay_last_export_sequence s = cs_replay_last_export_sequence ?s"
    using assms(2) r(1,2) by (auto simp: accept_frames_def reject_message_def bump_revision_def Let_def split: if_splits)
  have gap: "unat ?gap = unat first_sequence - fl_epoch l" "fl_epoch l \<le> unat first_sequence"
    using assms(1) guard
    by (auto simp: ledger_inv_def ledger_counts_def unat_saturating_sub word_le_nat_alt split: option.splits)
  have sum: "fl_covered l + (unat first_sequence + length intervals) - (fl_received l + length intervals)
      = (fl_covered l + fl_epoch l - fl_received l) + unat ?gap"
    using assms(1) gap by (simp add: ledger_inv_def ledger_counts_def)
  have dropped: "counts_to (cs_dropped_frame_count s)
      (fl_covered l + (unat first_sequence + length intervals) - (fl_received l + length intervals))"
    unfolding s(2) sum by (rule counts_to_add) (use assms(1) in \<open>simp add: ledger_inv_def ledger_counts_def\<close>)
  have received: "counts_to (cs_received_frame_count s) (fl_received l + length intervals)"
    using counts_to_add [of _ _ "word_of_nat (length intervals)"] assms(1)
    by (simp add: s(1) r(3) ledger_inv_def ledger_counts_def)
  show ?thesis
    using assms(1) gap(2) guard(2) received dropped by (simp add: ledger_inv_def ledger_counts_def ledger_exports_def s(3,4) r(4))
qed

text \<open>What a goodbye adds to the drops; with 64-bit numbers the sum may only saturate.\<close>

lemma goodbye_drops:
  fixes last_sequence :: u64
  assumes "counts_to c (covered + epoch - received)" "received \<le> covered + epoch"
    and "case expected of None \<Rightarrow> epoch = 0 | Some n \<Rightarrow> epoch = unat n \<and> 0 < unat n"
    and "case expected of None \<Rightarrow> True | Some n \<Rightarrow> \<not> last_sequence < saturating_sub n 1"
  shows "counts_to (saturating_add c (case expected of
             Some n \<Rightarrow> saturating_sub last_sequence (saturating_sub n 1)
           | None \<Rightarrow> if last_sequence > 0 then saturating_add last_sequence 1 else 0))
           (covered + (if expected = None \<and> last_sequence = 0 then 0 else unat last_sequence + 1) - received)"
    "received \<le> covered + (if expected = None \<and> last_sequence = 0 then 0 else unat last_sequence + 1)"
proof -
  have le: "unat last_sequence < 2 ^ 64" using unat_lt_2p [of last_sequence] by simp
  show "counts_to (saturating_add c (case expected of
             Some n \<Rightarrow> saturating_sub last_sequence (saturating_sub n 1)
           | None \<Rightarrow> if last_sequence > 0 then saturating_add last_sequence 1 else 0))
           (covered + (if expected = None \<and> last_sequence = 0 then 0 else unat last_sequence + 1) - received)"
    using assms le
    by (cases expected)
      (auto simp: counts_to_def unat_saturating_add unat_saturating_sub word_less_nat_alt word_eq_iff_unat min_def simp del: unat_gt_0)
  show "received \<le> covered + (if expected = None \<and> last_sequence = 0 then 0 else unat last_sequence + 1)"
    using assms by (cases expected) (auto simp: unat_saturating_sub word_less_nat_alt)
qed

lemma goodbye_inv:
  assumes "ledger_inv l" "accept_goodbye api last_sequence (fl_session l) = (s, Inr u)"
  shows "ledger_inv (l\<lparr>fl_epoch := (if cs_next_sequence (fl_session l) = None \<and> last_sequence = 0 then 0
           else unat last_sequence + 1), fl_session := s\<rparr>)"
proof -
  let ?s = "fl_session l"
  have guard: "cs_phase ?s = Capturing"
    "case cs_next_sequence ?s of None \<Rightarrow> True | Some n \<Rightarrow> \<not> last_sequence < saturating_sub n 1"
    using assms(2) by (auto simp: accept_goodbye_def reject_message_def split: if_splits option.split)
  have s: "cs_phase s = Completed" "cs_received_frame_count s = cs_received_frame_count ?s"
    "cs_dropped_frame_count s = saturating_add (cs_dropped_frame_count ?s) (case cs_next_sequence ?s of
             Some n \<Rightarrow> saturating_sub last_sequence (saturating_sub n 1)
           | None \<Rightarrow> if last_sequence > 0 then saturating_add last_sequence 1 else 0)"
    "cs_replay_last_export_sequence s = cs_replay_last_export_sequence ?s"
    using assms(2) by (auto simp: accept_goodbye_def reject_message_def bump_revision_def Let_def split: if_splits)
  have inv: "counts_to (cs_dropped_frame_count ?s) (fl_covered l + fl_epoch l - fl_received l)"
    "fl_received l \<le> fl_covered l + fl_epoch l"
    "case cs_next_sequence ?s of None \<Rightarrow> fl_epoch l = 0 | Some n \<Rightarrow> fl_epoch l = unat n \<and> 0 < unat n"
    using assms(1) guard(1) by (simp_all add: ledger_inv_def ledger_counts_def)
  have exports: "counts_to (cs_received_frame_count ?s) (fl_received l)" "ledger_exports ?s l"
    using assms(1) by (simp_all add: ledger_inv_def ledger_counts_def)
  show ?thesis
    using goodbye_drops [OF inv guard(2)] exports by (simp add: ledger_inv_def ledger_counts_def ledger_exports_def s)
qed

lemma sorted_last: "sorted_wrt (<) xs \<Longrightarrow> x \<in> set xs \<Longrightarrow> x \<le> last (xs :: 'a :: linorder list)"
  by (induction xs) (auto intro: less_imp_le)

lemma exported_inv:
  assumes "ledger_inv l"
    and "accept_replay_frame_exported sequence fd source offset stride modifier t d (fl_session l) = (s, Inr u)"
  shows "ledger_inv (l\<lparr>fl_exports := fl_exports l @ [sequence], fl_session := s\<rparr>)"
proof -
  let ?s = "fl_session l"
  have new: "\<not> not_newer sequence (cs_replay_last_export_sequence ?s)"
    and s: "cs_phase s = cs_phase ?s" "cs_next_sequence s = cs_next_sequence ?s"
      "cs_received_frame_count s = cs_received_frame_count ?s" "cs_dropped_frame_count s = cs_dropped_frame_count ?s"
      "cs_replay_last_export_sequence s = Some sequence"
    using assms(2)
    by (auto simp: accept_replay_frame_exported_def reject_message_def bump_revision_def split: if_splits)
  have "x < sequence" if "x \<in> set (fl_exports l)" for x
  proof -
    have "x \<le> last (fl_exports l)"
      using assms(1) that by (intro sorted_last) (simp_all add: ledger_inv_def ledger_exports_def)
    also have "\<dots> < sequence"
      using assms(1) new that by (cases "fl_exports l") (simp_all add: ledger_inv_def ledger_exports_def not_newer_def)
    finally show ?thesis .
  qed
  then have "sorted_wrt (<) (fl_exports l @ [sequence])"
    using assms(1) by (simp add: ledger_inv_def ledger_exports_def sorted_wrt_append)
  then show ?thesis
    using assms(1) by (simp add: ledger_inv_def ledger_counts_def ledger_exports_def s cong: option.case_cong)
qed

lemma accepted_inv:
  assumes inv: "ledger_inv l" and accept: "session_accept message (fl_session l) = (s, Inr u)"
    and range: "\<not> overflows message"
  shows "ledger_inv ((ledger_entry (fl_session l) message l)\<lparr>fl_session := s\<rparr>)"
proof -
  have m: "message_session message = cs_session_id (fl_session l)"
    using accept by (auto simp: session_accept_def reject_message_def split: if_splits)
  have same: "ledger_inv (l\<lparr>fl_session := s\<rparr>)" if "same_frames (fl_session l) (fst p)" "p = (s, Inr u)" for p :: state_result
    using inv that by (auto intro: same_frames_inv)
  show ?thesis
  proof (cases message)
    case (Hello session_id process_id api started)
    with accept m have "accept_hello process_id api started (fl_session l) = (s, Inr u)" by (simp add: session_accept_def)
    from hello_inv [OF inv this] show ?thesis by (simp add: Hello ledger_entry_def)
  next
    case (FrameBatch session_id api first_sequence intervals)
    with accept m have "accept_frames api first_sequence intervals (fl_session l) = (s, Inr u)" by (simp add: session_accept_def)
    from batch_inv [OF inv this] range show ?thesis by (simp add: FrameBatch ledger_entry_def overflows_def)
  next
    case (Goodbye session_id api last_sequence reason)
    with accept m have "accept_goodbye api last_sequence (fl_session l) = (s, Inr u)" by (simp add: session_accept_def)
    from goodbye_inv [OF inv this] show ?thesis by (simp add: Goodbye ledger_entry_def)
  next
    case (FrameExported session_id sequence fd source offset stride modifier t d)
    with accept m have "accept_replay_frame_exported sequence fd source offset stride modifier t d (fl_session l) = (s, Inr u)"
      by (simp add: session_accept_def)
    from exported_inv [OF inv this] show ?thesis by (simp add: FrameExported ledger_entry_def)
  next
    case (FrameReleased session_id sequence)
    with accept m show ?thesis by (simp add: session_accept_def reject_message_def)
  qed (use accept m in \<open>simp_all add: session_accept_def ledger_entry_def same [OF same_frames_ops(1)]
      same [OF same_frames_ops(2)] same [OF same_frames_ops(3)] same [OF same_frames_ops(4)] same [OF same_frames_ops(5)]\<close>)
qed

text \<open>Failing a session only ends its phase.\<close>

lemma fail_inv: "ledger_inv l \<Longrightarrow> ledger_inv (l\<lparr>fl_session := session_fail m (fl_session l)\<rparr>)"
  by (simp add: session_fail_def ledger_inv_def ledger_counts_def ledger_exports_def bump_revision_def)

interpretation frame_accounting: event_system ledger_init ledger_step ledger_inv
proof
  show "ledger_inv l" if "ledger_init l" for l
    using that
    by (auto simp: ledger_init_def session_init_def session_model_new_def ledger_inv_def ledger_counts_def
        ledger_exports_def counts_to_def)
  have accept: "ledger_inv (ledger_accept message l)" if "ledger_inv l" "\<not> overflows message" for message l
    using that refused_inv [OF that(1) _ that(2)] accepted_inv [OF that(1) _ that(2)]
    by (simp add: ledger_accept_def split: prod.split sum.split)
  show "ledger_inv k" if "ledger_inv l" "ledger_step l e k" for l e k
    using that(2)
  proof cases
    case other
    with that(1) show ?thesis
      using fail_inv [of l] same_frames_inv [OF that(1) same_frames_reject(1)]
        same_frames_inv [OF that(1) same_frames_ops(6)] same_frames_inv [OF that(1) same_frames_ops(7)]
      by auto
  qed (use that(1) accept in simp_all)
qed

text \<open>C11: The frame counters are exact: after any sequence of messages, failures and selections in which
  no batch carries sequence numbers beyond 64 bits (such a batch is refused, but only after the
  dropped count has changed), the received count is the number of intervals of the accepted batches, and the dropped count is the
  number of frames the sequence numbers of all producers of the session account for less those
  received, each saturating at the largest 64-bit number. The accepted exports of the current
  producer carry strictly increasing sequence numbers, the last of which the session remembers.\<close>

theorem frame_counters_are_exact:
  assumes "reach ledger_init ledger_step l"
  shows "unat (cs_received_frame_count (fl_session l)) = min (fl_received l) (2 ^ 64 - 1)
    \<and> unat (cs_dropped_frame_count (fl_session l)) = min (fl_covered l + fl_epoch l - fl_received l) (2 ^ 64 - 1)
    \<and> fl_received l \<le> fl_covered l + fl_epoch l \<and> sorted_wrt (<) (fl_exports l)
    \<and> cs_replay_last_export_sequence (fl_session l) = (if fl_exports l = [] then None else Some (last (fl_exports l)))"
  using frame_accounting.inv_reach [OF assms]
  by (simp add: ledger_inv_def ledger_counts_def ledger_exports_def counts_to_def)

text \<open>A producer whose first batch starts at frame 3 has lost three frames.\<close>

definition sample_ledger :: frame_ledger where
  "sample_ledger = ledger_accept (FrameBatch [] Vulkan 3 [16, 17]) (ledger_accept (Hello [] 7 Vulkan 1)
     \<lparr>fl_session = session_model_new [], fl_received = 0, fl_covered = 0, fl_epoch = 0, fl_exports = []\<rparr>)"

lemma sample_ledger_fields: "fl_received sample_ledger = 2" "fl_covered sample_ledger = 0" "fl_epoch sample_ledger = 5"
  by (simp_all add: sample_ledger_def ledger_accept_def session_accept_def accept_hello_def accept_frames_def
      session_model_new_def bump_revision_def try_from_def checked_add_def ledger_entry_def)

lemma sample_ledger_reached: "reach ledger_init ledger_step sample_ledger"
  unfolding sample_ledger_def
  by (rule reach_step, rule reach_step, rule reach_init)
    (auto simp: ledger_init_def session_init_def overflows_def intro: ledger_step.message)

theorem frame_counters_are_exact_witness:
  "unat (cs_received_frame_count (fl_session sample_ledger)) = 2
    \<and> unat (cs_dropped_frame_count (fl_session sample_ledger)) = 3"
  using frame_counters_are_exact [OF sample_ledger_reached] by (simp add: sample_ledger_fields)

end
