(* ===== verification/Game_Settings.thy ===== *)
theory Game_Settings
  imports Redunar_Text
begin

text \<open>
  The typed settings, profiles and game records of \<open>redunar-core/src/game.rs\<close>: overlay and
  replay options with their validating constructors, the inheritance of a per-game profile
  from the global one, and the matching of a detected process against the local catalog.
  The matching loop is shown equal to its specification (the records of the best score).
\<close>

section \<open>Identities and paths\<close>

text \<open>A \<open>GameId\<close> is a non-zero \<open>u64\<close>; its error type has one value.\<close>

type_synonym game_id = u64

definition game_id_new :: "u64 \<Rightarrow> unit + game_id" where
  "game_id_new value = (if value = 0 then Inl () else Inr value)"

text \<open>
  \<open>std::path::Path\<close> compares and takes file names by components: repeated and trailing
  separators and inner \<open>.\<close> components do not count, a leading \<open>.\<close> does.
\<close>

datatype path_component = RootDir | CurDir | ParentDir | Normal string

definition component_of :: "string \<Rightarrow> path_component" where
  "component_of s = (if s = ''..'' then ParentDir else Normal s)"

definition path_components :: "string \<Rightarrow> path_component list" where
  "path_components p =
     (let parts = split_on (CHR ''/'') p;
          names = filter (\<lambda>s. s \<noteq> [] \<and> s \<noteq> ''.'') parts;
          front = (if p \<noteq> [] \<and> hd p = CHR ''/'' then [RootDir]
                   else if parts \<noteq> [] \<and> hd parts = ''.'' then [CurDir] else [])
      in front @ map component_of names)"

definition path_eq :: "string \<Rightarrow> string \<Rightarrow> bool" where
  "path_eq p q \<longleftrightarrow> path_components p = path_components q"

definition path_file_name :: "string \<Rightarrow> string option" where
  "path_file_name p =
     (case rev (path_components p) of Normal s # _ \<Rightarrow> Some s | _ \<Rightarrow> None)"

record game_process =
  gp_pid :: u32
  gp_comm :: string
  gp_executable :: string
  gp_steam_app_id :: "u32 option"
  gp_game_mode_active :: bool

datatype game_match_rule = SteamAppId u32 | Executable string | ExecutableName string

section \<open>Overlay options\<close>

datatype overlay_preset = Compact | FpsOnly | Detailed | Custom_preset
datatype overlay_layout = Grid | Ribbon | Telemetry
datatype overlay_palette =
  Redunar | Glacier | Ember | Mint | Mono | Amethyst | Solar | Rose
datatype overlay_corner = TopLeft | TopRight | BottomLeft | BottomRight

type_synonym overlay_metric_set = u16

definition METRIC_FPS :: u16 where "METRIC_FPS = push_bit 0 1"
definition METRIC_FRAME_TIME :: u16 where "METRIC_FRAME_TIME = push_bit 1 1"
definition METRIC_ONE_PERCENT_LOW :: u16 where "METRIC_ONE_PERCENT_LOW = push_bit 2 1"
definition METRIC_POINT_ONE_PERCENT_LOW :: u16 where "METRIC_POINT_ONE_PERCENT_LOW = push_bit 3 1"
definition METRIC_CPU_LOAD :: u16 where "METRIC_CPU_LOAD = push_bit 4 1"
definition METRIC_CPU_TEMPERATURE :: u16 where "METRIC_CPU_TEMPERATURE = push_bit 5 1"
definition METRIC_GPU_LOAD :: u16 where "METRIC_GPU_LOAD = push_bit 6 1"
definition METRIC_GPU_TEMPERATURE :: u16 where "METRIC_GPU_TEMPERATURE = push_bit 7 1"

lemmas metric_bits = METRIC_FPS_def METRIC_FRAME_TIME_def METRIC_ONE_PERCENT_LOW_def
  METRIC_POINT_ONE_PERCENT_LOW_def METRIC_CPU_LOAD_def METRIC_CPU_TEMPERATURE_def
  METRIC_GPU_LOAD_def METRIC_GPU_TEMPERATURE_def

definition METRIC_KNOWN :: u16 where
  "METRIC_KNOWN = METRIC_FPS OR METRIC_FRAME_TIME OR METRIC_ONE_PERCENT_LOW
     OR METRIC_POINT_ONE_PERCENT_LOW OR METRIC_CPU_LOAD OR METRIC_CPU_TEMPERATURE
     OR METRIC_GPU_LOAD OR METRIC_GPU_TEMPERATURE"

definition METRIC_SET_COMPACT :: overlay_metric_set where
  "METRIC_SET_COMPACT = METRIC_FPS OR METRIC_FRAME_TIME OR METRIC_CPU_LOAD
     OR METRIC_CPU_TEMPERATURE OR METRIC_GPU_LOAD OR METRIC_GPU_TEMPERATURE"

definition metric_set_from_bits :: "u16 \<Rightarrow> unit + overlay_metric_set" where
  "metric_set_from_bits bits =
     (if bits \<noteq> 0 \<and> bits AND NOT METRIC_KNOWN = 0 then Inr bits else Inl ())"

definition metric_set_contains :: "overlay_metric_set \<Rightarrow> u16 \<Rightarrow> bool" where
  "metric_set_contains s metric \<longleftrightarrow> s AND metric \<noteq> 0"

definition overlay_opacity_new :: "u8 \<Rightarrow> unit + u8" where
  "overlay_opacity_new percent = (if percent \<le> 100 then Inr percent else Inl ())"

definition overlay_scale_new :: "u8 \<Rightarrow> u8 option" where
  "overlay_scale_new percent =
     (if percent \<ge> 50 \<and> percent \<le> 200 \<and> percent mod 5 = 0 then Some percent else None)"

section \<open>Replay options\<close>

datatype replay_duration = Seconds15 | Seconds30 | Seconds60 | Seconds120 | Seconds180
  | Seconds300 | Seconds600 | Seconds900

primrec duration_seconds :: "replay_duration \<Rightarrow> u16" where
  "duration_seconds Seconds15 = 15"
| "duration_seconds Seconds30 = 30"
| "duration_seconds Seconds60 = 60"
| "duration_seconds Seconds120 = 120"
| "duration_seconds Seconds180 = 180"
| "duration_seconds Seconds300 = 300"
| "duration_seconds Seconds600 = 600"
| "duration_seconds Seconds900 = 900"

datatype replay_frame_rate = Fps60 | Variable

primrec frames_per_second :: "replay_frame_rate \<Rightarrow> u16" where
  "frames_per_second Fps60 = 60"
| "frames_per_second Variable = 120"

definition supports_dimensions :: "replay_frame_rate \<Rightarrow> u32 \<Rightarrow> u32 \<Rightarrow> bool" where
  "supports_dimensions rate width height =
     (let macroblocks = saturating_mul (div_ceil width 16) (div_ceil height 16)
      in width > 0 \<and> height > 0 \<and> macroblocks \<le> 36864
         \<and> (rate = Variable
            \<or> saturating_mul macroblocks (ucast (frames_per_second rate)) \<le> 2073600))"

datatype replay_quality = Efficient | Balanced | High

primrec target_megabits_per_second :: "replay_quality \<Rightarrow> u16" where
  "target_megabits_per_second Efficient = 12"
| "target_megabits_per_second Balanced = 24"
| "target_megabits_per_second High = 40"

datatype replay_storage_limit = Unlimited

definition storage_gibibytes :: "replay_storage_limit \<Rightarrow> u8" where
  "storage_gibibytes limit = 0"

definition storage_bytes :: "replay_storage_limit \<Rightarrow> u64 \<Rightarrow> u64" where
  "storage_bytes limit bytes_per_gibibyte = - 1"

record replay_settings =
  rs_duration :: replay_duration
  rs_frame_rate :: replay_frame_rate
  rs_quality :: replay_quality
  rs_storage_limit :: replay_storage_limit

definition default_replay_settings :: replay_settings where
  "default_replay_settings = \<lparr>rs_duration = Seconds30, rs_frame_rate = Fps60,
     rs_quality = Balanced, rs_storage_limit = Unlimited\<rparr>"

section \<open>Profiles\<close>

record global_game_profile =
  gg_capture_metrics :: bool
  gg_overlay_visible :: bool
  gg_overlay_preset :: overlay_preset
  gg_overlay_layout :: overlay_layout
  gg_overlay_palette :: overlay_palette
  gg_overlay_branding :: bool
  gg_overlay_metrics :: overlay_metric_set
  gg_overlay_corner :: overlay_corner
  gg_overlay_opacity :: u8
  gg_overlay_scale :: u8
  gg_gamescope_enabled :: bool
  gg_gamemode_enabled :: bool
  gg_replay :: replay_settings
  gg_instant_replay :: bool

definition default_global_profile :: global_game_profile where
  "default_global_profile = \<lparr>gg_capture_metrics = True, gg_overlay_visible = False,
     gg_overlay_preset = Compact, gg_overlay_layout = Grid, gg_overlay_palette = Redunar,
     gg_overlay_branding = True, gg_overlay_metrics = METRIC_SET_COMPACT,
     gg_overlay_corner = TopLeft, gg_overlay_opacity = 50, gg_overlay_scale = 100,
     gg_gamescope_enabled = False, gg_gamemode_enabled = False,
     gg_replay = default_replay_settings, gg_instant_replay = False\<rparr>"

datatype 'a inheritable = InheritGlobal | Custom 'a

primrec inheritable_resolve :: "'a inheritable \<Rightarrow> 'a \<Rightarrow> 'a" where
  "inheritable_resolve InheritGlobal global = global"
| "inheritable_resolve (Custom value) global = value"

record per_game_profile =
  pg_capture_metrics :: "bool inheritable"
  pg_overlay_visible :: "bool inheritable"
  pg_instant_replay :: "bool inheritable"

definition default_per_game_profile :: per_game_profile where
  "default_per_game_profile = \<lparr>pg_capture_metrics = InheritGlobal,
     pg_overlay_visible = InheritGlobal, pg_instant_replay = InheritGlobal\<rparr>"

record effective_game_profile =
  eg_capture_metrics :: bool
  eg_overlay_visible :: bool
  eg_overlay_preset :: overlay_preset
  eg_overlay_layout :: overlay_layout
  eg_overlay_palette :: overlay_palette
  eg_overlay_branding :: bool
  eg_overlay_metrics :: overlay_metric_set
  eg_overlay_corner :: overlay_corner
  eg_overlay_opacity :: u8
  eg_overlay_scale :: u8
  eg_gamescope_enabled :: bool
  eg_gamemode_enabled :: bool
  eg_replay :: replay_settings
  eg_instant_replay :: bool

definition profile_resolve :: "per_game_profile \<Rightarrow> global_game_profile \<Rightarrow> effective_game_profile" where
  "profile_resolve p g = \<lparr>
     eg_capture_metrics = inheritable_resolve (pg_capture_metrics p) (gg_capture_metrics g),
     eg_overlay_visible = inheritable_resolve (pg_overlay_visible p) (gg_overlay_visible g),
     eg_overlay_preset = gg_overlay_preset g,
     eg_overlay_layout = gg_overlay_layout g,
     eg_overlay_palette = gg_overlay_palette g,
     eg_overlay_branding = gg_overlay_branding g,
     eg_overlay_metrics = gg_overlay_metrics g,
     eg_overlay_corner = gg_overlay_corner g,
     eg_overlay_opacity = gg_overlay_opacity g,
     eg_overlay_scale = gg_overlay_scale g,
     eg_gamescope_enabled = gg_gamescope_enabled g,
     eg_gamemode_enabled = gg_gamemode_enabled g,
     eg_replay = gg_replay g,
     eg_instant_replay = inheritable_resolve (pg_instant_replay p) (gg_instant_replay g)\<rparr>"

definition inherits_everything :: "per_game_profile \<Rightarrow> bool" where
  "inherits_everything p \<longleftrightarrow> pg_capture_metrics p = InheritGlobal
     \<and> pg_overlay_visible p = InheritGlobal \<and> pg_instant_replay p = InheritGlobal"

section \<open>Game records and resolution\<close>

record game_launch_config =
  gl_executable :: string
  gl_arguments :: "string list"
  gl_working_directory :: "string option"

record game_record =
  gr_id :: game_id
  gr_display_name :: string
  gr_match_rules :: "game_match_rule list"
  gr_launch :: game_launch_config
  gr_profile :: per_game_profile

datatype game_resolution =
  Automatic game_id | Suggested game_id | Ambiguous "game_id list" | Unknown

definition match_score :: "game_match_rule \<Rightarrow> game_process \<Rightarrow> u8" where
  "match_score rule p = (case rule of
       SteamAppId app \<Rightarrow> if gp_steam_app_id p = Some app then 100 else 0
     | Executable path \<Rightarrow> if path_eq (gp_executable p) path then 90 else 0
     | ExecutableName name \<Rightarrow>
         if gp_comm p = name \<or> path_file_name (gp_executable p) = Some name then 50 else 0)"

text \<open>\<open>iter().map(..).max().unwrap_or(0)\<close>: the maximum, 0 for no rules.\<close>

definition record_score :: "game_process \<Rightarrow> game_record \<Rightarrow> u8" where
  "record_score p r = foldr (\<lambda>rule m. max (match_score rule p) m) (gr_match_rules r) 0"

fun resolve_loop :: "game_process \<Rightarrow> game_record list \<Rightarrow> u8 \<Rightarrow> game_id list \<Rightarrow> u8 \<times> game_id list" where
  "resolve_loop p [] best_score best = (best_score, best)"
| "resolve_loop p (r # rs) best_score best =
     (let score = record_score p r
      in if score > best_score then resolve_loop p rs score [gr_id r]
         else if score > 0 \<and> score = best_score then resolve_loop p rs best_score (best @ [gr_id r])
         else resolve_loop p rs best_score best)"

definition resolve_game :: "game_record list \<Rightarrow> game_process \<Rightarrow> game_resolution" where
  "resolve_game records p = (case resolve_loop p records 0 [] of (best_score, best) \<Rightarrow>
     if best_score = 0 then Unknown
     else (case best of
         [game] \<Rightarrow> if best_score \<ge> 80 then Automatic game else Suggested game
       | games \<Rightarrow> Ambiguous games))"

section \<open>The matching loop computes the records of the best score\<close>

definition top_score :: "game_process \<Rightarrow> game_record list \<Rightarrow> u8" where
  "top_score p rs = foldr (\<lambda>r m. max (record_score p r) m) rs 0"

definition top_records :: "game_process \<Rightarrow> game_record list \<Rightarrow> game_record list" where
  "top_records p rs = filter (\<lambda>r. record_score p r = top_score p rs) rs"

definition resolve_spec :: "game_record list \<Rightarrow> game_process \<Rightarrow> game_resolution" where
  "resolve_spec rs p =
     (if top_score p rs = 0 then Unknown
      else if length (top_records p rs) = 1
      then (if top_score p rs \<ge> 80 then Automatic (gr_id (hd (top_records p rs)))
            else Suggested (gr_id (hd (top_records p rs))))
      else Ambiguous (map gr_id (top_records p rs)))"

lemma top_score_simps [simp]:
  "top_score p [] = 0" "top_score p (r # rs) = max (record_score p r) (top_score p rs)"
  by (simp_all add: top_score_def)

lemma record_score_le_top: "r \<in> set rs \<Longrightarrow> record_score p r \<le> top_score p rs"
  by (induction rs) (auto simp: max_def)

lemma resolve_loop_eq:
  "resolve_loop p rs b best =
     (let m = max b (top_score p rs)
      in (m, if b < m then map gr_id (filter (\<lambda>r. record_score p r = m) rs)
             else best @ map gr_id (filter (\<lambda>r. record_score p r > 0 \<and> record_score p r = b) rs)))"
proof (induction rs arbitrary: b best)
  case Nil
  then show ?case by simp
next
  case (Cons r rs)
  consider (gt) "record_score p r > b" | (eq) "record_score p r = b" | (lt) "record_score p r < b"
    by (metis linorder_neqE)
  then show ?case
  proof cases
    case gt
    have "filter (\<lambda>x. record_score p x > 0 \<and> record_score p x = record_score p r) rs
          = filter (\<lambda>x. record_score p x = record_score p r) rs"
      using gt by (intro filter_cong) (auto simp: word_gt_0)
    with gt Cons.IH [of "record_score p r" "[gr_id r]"] show ?thesis
      by (auto simp: Let_def max_def not_le)
  next
    case eq
    with Cons.IH [of b "best @ [gr_id r]"] Cons.IH [of b best] show ?thesis
      by (auto simp: Let_def max_def not_le not_less)
  next
    case lt
    with Cons.IH [of b best] show ?thesis
      by (auto simp: Let_def max_def not_le not_less)
  qed
qed

lemma resolve_loop_top:
  "resolve_loop p rs 0 [] =
     (top_score p rs, if top_score p rs = 0 then [] else map gr_id (top_records p rs))"
proof -
  have "filter (\<lambda>r. record_score p r > 0 \<and> record_score p r = 0) rs = []"
    by (auto simp: filter_empty_conv)
  then show ?thesis
    by (simp add: resolve_loop_eq Let_def top_records_def word_gt_0)
qed

lemma length_one_hd: "length xs = 1 \<Longrightarrow> xs = [hd xs]"
  by (cases xs) auto

lemma resolve_game_spec_eq: "resolve_game rs p = resolve_spec rs p"
proof (cases "top_score p rs = 0")
  case True
  then show ?thesis by (simp add: resolve_game_def resolve_spec_def resolve_loop_top)
next
  case False
  then show ?thesis
    by (auto simp: resolve_game_def resolve_spec_def resolve_loop_top
        split: list.splits dest!: length_one_hd)
qed

lemma match_score_values: "match_score rule p \<in> {0, 50, 90, 100}"
  by (auto simp: match_score_def split: game_match_rule.splits)

text \<open>A rule that may activate a session on its own: an app id or an exact executable path.\<close>

definition strong_match :: "game_match_rule \<Rightarrow> game_process \<Rightarrow> bool" where
  "strong_match rule p = (case rule of
       SteamAppId app \<Rightarrow> gp_steam_app_id p = Some app
     | Executable path \<Rightarrow> path_eq (gp_executable p) path
     | ExecutableName _ \<Rightarrow> False)"

lemma match_score_strong: "match_score rule p \<ge> 80 \<longleftrightarrow> strong_match rule p"
  by (auto simp: match_score_def strong_match_def split: game_match_rule.splits)

lemma record_score_ge: "c > 0 \<Longrightarrow>
  record_score p r \<ge> c \<longleftrightarrow> (\<exists>rule \<in> set (gr_match_rules r). match_score rule p \<ge> c)"
proof -
  assume "c > 0"
  moreover have "foldr (\<lambda>rule m. max (match_score rule p) m) rules 0 \<ge> c \<longleftrightarrow>
      (\<exists>rule \<in> set rules. match_score rule p \<ge> c)" if "c > 0" for rules
    using that by (induction rules) (auto simp: le_max_iff_disj)
  ultimately show ?thesis by (simp add: record_score_def)
qed

lemma filter_single_position:
  assumes "filter P xs = [x]"
  shows "\<exists>i < length xs. xs ! i = x \<and> P x \<and> (\<forall>j < length xs. j \<noteq> i \<longrightarrow> \<not> P (xs ! j))"
  using assms
proof (induction xs)
  case Nil
  then show ?case by simp
next
  case (Cons y ys)
  show ?case
  proof (cases "P y")
    case True
    with Cons.prems have "y = x" "filter P ys = []" by auto
    with True show ?thesis
      by (intro exI [of _ 0]) (auto simp: filter_empty_conv nth_Cons split: nat.splits)
  next
    case False
    with Cons obtain i where "i < length ys" "ys ! i = x" "P x"
      "\<forall>j < length ys. j \<noteq> i \<longrightarrow> \<not> P (ys ! j)" by auto
    with False show ?thesis
      by (intro exI [of _ "Suc i"]) (auto simp: nth_Cons split: nat.splits)
  qed
qed

text \<open>A process activates a game session automatically only when one catalog position has an
  app-id or exact-path rule for it and every other position scores strictly lower: a name match
  or a tie never does.\<close>

theorem resolve_automatic_unique:
  assumes "resolve_game records p = Automatic g"
  shows "\<exists>i < length records. gr_id (records ! i) = g
    \<and> (\<exists>rule \<in> set (gr_match_rules (records ! i)). strong_match rule p)
    \<and> (\<forall>j < length records. j \<noteq> i \<longrightarrow>
          record_score p (records ! j) < record_score p (records ! i))"
proof -
  from assms have one: "length (top_records p records) = 1" and ge: "top_score p records \<ge> 80"
    and g: "g = gr_id (hd (top_records p records))"
    by (auto simp: resolve_game_spec_eq resolve_spec_def split: if_splits)
  obtain r where r: "top_records p records = [r]" using length_one_hd [OF one] by blast
  obtain i where i: "i < length records" "records ! i = r"
    and top: "record_score p r = top_score p records"
    and others: "\<forall>j < length records. j \<noteq> i \<longrightarrow> record_score p (records ! j) \<noteq> top_score p records"
    using filter_single_position [OF r [unfolded top_records_def]] by blast
  have "\<exists>rule \<in> set (gr_match_rules r). strong_match rule p"
    using ge top record_score_ge [of 80 p r] by (simp add: match_score_strong)
  moreover have "record_score p (records ! j) < record_score p r" if "j < length records" "j \<noteq> i" for j
    using that others record_score_le_top [OF nth_mem [OF that(1)], of p]
    by (simp add: top order_less_le)
  ultimately show ?thesis using i g r by auto
qed

definition sample_record :: "u64 \<Rightarrow> game_match_rule list \<Rightarrow> game_record" where
  "sample_record i rules = \<lparr>gr_id = i, gr_display_name = ''game'', gr_match_rules = rules,
     gr_launch = \<lparr>gl_executable = ''/g'', gl_arguments = [], gl_working_directory = None\<rparr>,
     gr_profile = default_per_game_profile\<rparr>"

definition sample_process :: game_process where
  "sample_process = \<lparr>gp_pid = 7, gp_comm = ''game'', gp_executable = ''/opt/game'',
     gp_steam_app_id = Some 570, gp_game_mode_active = False\<rparr>"

lemmas sample_defs = sample_record_def sample_process_def

theorem resolve_automatic_unique_witness:
  "resolve_game [sample_record 4 [ExecutableName ''game''], sample_record 9 [SteamAppId 570]]
      sample_process = Automatic 9
   \<and> (\<exists>i < length [sample_record 4 [ExecutableName ''game''], sample_record 9 [SteamAppId 570]].
        gr_id ([sample_record 4 [ExecutableName ''game''], sample_record 9 [SteamAppId 570]] ! i) = 9)"
proof -
  let ?rs = "[sample_record 4 [ExecutableName ''game''], sample_record 9 [SteamAppId 570]]"
  have h: "resolve_game ?rs sample_process = Automatic 9"
    by (simp add: resolve_game_def record_score_def match_score_def sample_defs)
  show ?thesis using h resolve_automatic_unique [OF h] by blast
qed

text \<open>The streaming matching loop returns exactly what a two-pass specification does: the
  records of the maximal score, Unknown when no rule matches, one id or all the tied ids.\<close>

theorem resolve_game_is_best_score: "resolve_game records p = resolve_spec records p"
  by (rule resolve_game_spec_eq)

section \<open>Profile inheritance\<close>

definition effective_of_global :: "global_game_profile \<Rightarrow> effective_game_profile" where
  "effective_of_global g = \<lparr>eg_capture_metrics = gg_capture_metrics g,
     eg_overlay_visible = gg_overlay_visible g, eg_overlay_preset = gg_overlay_preset g,
     eg_overlay_layout = gg_overlay_layout g, eg_overlay_palette = gg_overlay_palette g,
     eg_overlay_branding = gg_overlay_branding g, eg_overlay_metrics = gg_overlay_metrics g,
     eg_overlay_corner = gg_overlay_corner g, eg_overlay_opacity = gg_overlay_opacity g,
     eg_overlay_scale = gg_overlay_scale g, eg_gamescope_enabled = gg_gamescope_enabled g,
     eg_gamemode_enabled = gg_gamemode_enabled g, eg_replay = gg_replay g,
     eg_instant_replay = gg_instant_replay g\<rparr>"

lemma inheritable_resolve_id:
  "(\<forall>b :: bool. inheritable_resolve x b = b) \<longleftrightarrow> x = InheritGlobal"
  by (cases x) auto

text \<open>A per-game profile follows the global profile on every field, for every global
  profile, exactly when \<open>inherits_everything\<close> says so.\<close>

theorem inherits_everything_iff:
  "inherits_everything p \<longleftrightarrow> (\<forall>g. profile_resolve p g = effective_of_global g)"
proof
  assume "inherits_everything p"
  then show "\<forall>g. profile_resolve p g = effective_of_global g"
    by (simp add: inherits_everything_def profile_resolve_def effective_of_global_def)
next
  assume all: "\<forall>g. profile_resolve p g = effective_of_global g"
  have "inheritable_resolve (pg_capture_metrics p) b = b" for b
    using all [rule_format, of "default_global_profile\<lparr>gg_capture_metrics := b\<rparr>"]
    by (simp add: profile_resolve_def effective_of_global_def)
  moreover have "inheritable_resolve (pg_overlay_visible p) b = b" for b
    using all [rule_format, of "default_global_profile\<lparr>gg_overlay_visible := b\<rparr>"]
    by (simp add: profile_resolve_def effective_of_global_def)
  moreover have "inheritable_resolve (pg_instant_replay p) b = b" for b
    using all [rule_format, of "default_global_profile\<lparr>gg_instant_replay := b\<rparr>"]
    by (simp add: profile_resolve_def effective_of_global_def)
  ultimately show "inherits_everything p"
    by (simp add: inherits_everything_def flip: inheritable_resolve_id)
qed

section \<open>Bounded options\<close>

lemma metric_known_mask: "METRIC_KNOWN = mask 8"
  by (simp add: METRIC_KNOWN_def metric_bits mask_eq_exp_minus_1)

lemma metric_set_from_bits_iff:
  "metric_set_from_bits b = Inr s \<longleftrightarrow> s = b \<and> 0 < unat b \<and> unat b < 256"
proof -
  have "b AND NOT (mask 8) = 0 \<longleftrightarrow> take_bit 8 b = b"
    by (auto simp: bit_eq_iff bit_simps)
  also have "\<dots> \<longleftrightarrow> unat b < 256"
    using take_bit_nat_eq_self_iff [of 8 "unat b"]
    by (simp add: word_eq_iff_unat unsigned_take_bit_eq)
  finally show ?thesis
    by (auto simp: metric_set_from_bits_def metric_known_mask unat_gt_0)
qed

end
