(* ===== verification/Replay_Lifecycle.thy ===== *)
theory Replay_Lifecycle
  imports Game_Settings
begin

text \<open>
  The daemon-owned replay lifecycle of \<open>redunar-daemon/src/replay.rs\<close>: the backend readiness
  bits and the capability derived from them, the resource budget computed from the settings,
  the published runtime status and its five transitions. The transitions form an event system;
  its invariant ties phase, capability, failure and budget together.
\<close>

section \<open>Phases, failures, capability\<close>

datatype replay_phase = Unavailable | Inactive | Buffering | Saving | Failed
datatype replay_recorder_health =
  HealthInactive | HealthStarting | HealthHealthy | HealthStalled | HealthFailed
datatype replay_failure = FrameSourceLost | EncoderFailed | ContainerFailed | StorageFailed
  | ResourceBudgetExceeded
datatype replay_unavailable_reason = BackendNotVerified
datatype replay_capability =
  CapUnavailable replay_unavailable_reason | ValidationCandidate | Available
datatype replay_backend_component = EncodedPacketRing | AtomicClipStore | LiveFrameTransfer
  | HardwareEncoder | PlayableContainer | PerformanceBudget

section \<open>Backend readiness bits\<close>

type_synonym replay_backend_readiness = u8

definition ENCODED_PACKET_RING :: u8 where "ENCODED_PACKET_RING = push_bit 0 1"
definition ATOMIC_CLIP_STORE :: u8 where "ATOMIC_CLIP_STORE = push_bit 1 1"
definition LIVE_FRAME_TRANSFER :: u8 where "LIVE_FRAME_TRANSFER = push_bit 2 1"
definition HARDWARE_ENCODER :: u8 where "HARDWARE_ENCODER = push_bit 3 1"
definition PLAYABLE_CONTAINER :: u8 where "PLAYABLE_CONTAINER = push_bit 4 1"
definition PERFORMANCE_BUDGET :: u8 where "PERFORMANCE_BUDGET = push_bit 5 1"

definition READINESS_REQUIRED :: u8 where
  "READINESS_REQUIRED = ENCODED_PACKET_RING OR ATOMIC_CLIP_STORE OR LIVE_FRAME_TRANSFER
     OR HARDWARE_ENCODER OR PLAYABLE_CONTAINER OR PERFORMANCE_BUDGET"

definition VALIDATION_REQUIRED :: u8 where
  "VALIDATION_REQUIRED = READINESS_REQUIRED AND NOT PERFORMANCE_BUDGET"

lemmas readiness_bits = ENCODED_PACKET_RING_def ATOMIC_CLIP_STORE_def LIVE_FRAME_TRANSFER_def
  HARDWARE_ENCODER_def PLAYABLE_CONTAINER_def PERFORMANCE_BUDGET_def
  READINESS_REQUIRED_def VALIDATION_REQUIRED_def

definition headless_foundation :: replay_backend_readiness where
  "headless_foundation = ENCODED_PACKET_RING OR ATOMIC_CLIP_STORE"

definition hardware_validation_candidate :: replay_backend_readiness where
  "hardware_validation_candidate = VALIDATION_REQUIRED"

definition fully_verified :: replay_backend_readiness where
  "fully_verified = READINESS_REQUIRED"

definition validation_allowed :: "replay_backend_readiness \<Rightarrow> bool" where
  "validation_allowed r \<longleftrightarrow> r AND VALIDATION_REQUIRED = VALIDATION_REQUIRED"

definition activation_allowed :: "replay_backend_readiness \<Rightarrow> bool" where
  "activation_allowed r \<longleftrightarrow> r AND READINESS_REQUIRED = READINESS_REQUIRED"

primrec component_bit :: "replay_backend_component \<Rightarrow> u8" where
  "component_bit EncodedPacketRing = ENCODED_PACKET_RING"
| "component_bit AtomicClipStore = ATOMIC_CLIP_STORE"
| "component_bit LiveFrameTransfer = LIVE_FRAME_TRANSFER"
| "component_bit HardwareEncoder = HARDWARE_ENCODER"
| "component_bit PlayableContainer = PLAYABLE_CONTAINER"
| "component_bit PerformanceBudget = PERFORMANCE_BUDGET"

definition is_verified :: "replay_backend_readiness \<Rightarrow> replay_backend_component \<Rightarrow> bool" where
  "is_verified r component \<longleftrightarrow> r AND component_bit component \<noteq> 0"

definition readiness_capability :: "replay_backend_readiness \<Rightarrow> replay_capability" where
  "readiness_capability r =
     (if activation_allowed r then Available
      else if validation_allowed r then ValidationCandidate
      else CapUnavailable BackendNotVerified)"

section \<open>Budget\<close>

definition BYTES_PER_MEGABIT :: u64 where "BYTES_PER_MEGABIT = 1000000 div 8"
definition CONTAINER_HEADROOM_PERCENT :: u64 where "CONTAINER_HEADROOM_PERCENT = 10"

record replay_budget =
  bu_frame_capacity :: u32
  bu_target_bitrate :: u16
  bu_maximum_ring_bytes :: u64
  bu_storage_limit_bytes :: u64
  bu_minimum_full_clip_capacity :: u32

definition budget_from_settings :: "replay_settings \<Rightarrow> replay_budget" where
  "budget_from_settings settings =
     (let seconds = (ucast (duration_seconds (rs_duration settings)) :: u64);
          rate_multiplier = (if rs_frame_rate settings = Variable then 2 else 1);
          fps = saturating_mul (ucast (frames_per_second (rs_frame_rate settings))) rate_multiplier;
          bitrate = target_megabits_per_second (rs_quality settings);
          video_bytes = saturating_mul (saturating_mul (saturating_mul seconds (ucast bitrate))
                          BYTES_PER_MEGABIT) rate_multiplier;
          maximum_ring_bytes =
            div_ceil (saturating_mul video_bytes (100 + CONTAINER_HEADROOM_PERCENT)) 100;
          storage_limit_bytes = - 1;
          full_clips = storage_limit_bytes div max maximum_ring_bytes 1
      in \<lparr>bu_frame_capacity = unwrap_or (try_from (unat (saturating_mul seconds fps))) (- 1),
          bu_target_bitrate = bitrate,
          bu_maximum_ring_bytes = maximum_ring_bytes,
          bu_storage_limit_bytes = storage_limit_bytes,
          bu_minimum_full_clip_capacity = unwrap_or (try_from (unat full_clips)) (- 1)\<rparr>)"

section \<open>Runtime status and its transitions\<close>

record replay_runtime_status =
  st_phase :: replay_phase
  st_capability :: replay_capability
  st_backend_readiness :: replay_backend_readiness
  st_last_failure :: "replay_failure option"
  st_completed_save_revision :: u64
  st_buffered_duration_ns :: u64
  st_received_frame_count :: u64
  st_encoded_packet_count :: u64
  st_audio_packet_count :: u64
  st_audio_byte_count :: u64
  st_audio_active :: bool
  st_recorder_health :: replay_recorder_health
  st_settings :: replay_settings
  st_budget :: replay_budget

definition status_with :: "replay_phase \<Rightarrow> replay_backend_readiness \<Rightarrow> replay_settings \<Rightarrow>
    replay_runtime_status" where
  "status_with phase readiness settings = \<lparr>st_phase = phase,
     st_capability = readiness_capability readiness, st_backend_readiness = readiness,
     st_last_failure = None, st_completed_save_revision = 0, st_buffered_duration_ns = 0,
     st_received_frame_count = 0, st_encoded_packet_count = 0, st_audio_packet_count = 0,
     st_audio_byte_count = 0, st_audio_active = False, st_recorder_health = HealthInactive,
     st_settings = settings, st_budget = budget_from_settings settings\<rparr>"

definition status_unavailable :: "replay_settings \<Rightarrow> replay_runtime_status" where
  "status_unavailable settings = status_with Unavailable headless_foundation settings"

definition status_validation_candidate :: "replay_settings \<Rightarrow> replay_runtime_status" where
  "status_validation_candidate settings = status_with Inactive hardware_validation_candidate settings"

datatype lifecycle_error = ReplayStartError | ReplayTransitionError

definition request_start :: "replay_runtime_status \<Rightarrow> lifecycle_error + replay_runtime_status" where
  "request_start s =
     (case (st_capability s, activation_allowed (st_backend_readiness s), st_phase s) of
        (Available, True, Inactive) \<Rightarrow>
          Inr (s\<lparr>st_phase := Buffering, st_last_failure := None\<rparr>)
      | (ValidationCandidate, False, Inactive) \<Rightarrow>
          if validation_allowed (st_backend_readiness s)
          then Inr (s\<lparr>st_phase := Buffering, st_last_failure := None\<rparr>)
          else Inl ReplayStartError
      | _ \<Rightarrow> Inl ReplayStartError)"

definition begin_save :: "replay_runtime_status \<Rightarrow> lifecycle_error + replay_runtime_status" where
  "begin_save s = (if st_phase s = Buffering then Inr (s\<lparr>st_phase := Saving\<rparr>)
     else Inl ReplayTransitionError)"

definition complete_save :: "replay_runtime_status \<Rightarrow> lifecycle_error + replay_runtime_status" where
  "complete_save s = (if st_phase s = Saving
     then Inr (s\<lparr>st_phase := Buffering,
       st_completed_save_revision := saturating_add (st_completed_save_revision s) 1\<rparr>)
     else Inl ReplayTransitionError)"

definition lifecycle_fail :: "replay_failure \<Rightarrow> replay_runtime_status \<Rightarrow>
    lifecycle_error + replay_runtime_status" where
  "lifecycle_fail failure s = (if st_phase s = Buffering \<or> st_phase s = Saving
     then Inr (s\<lparr>st_phase := Failed, st_last_failure := Some failure\<rparr>)
     else Inl ReplayTransitionError)"

definition lifecycle_stop :: "replay_runtime_status \<Rightarrow> lifecycle_error + replay_runtime_status" where
  "lifecycle_stop s = (if st_phase s = Buffering \<or> st_phase s = Saving \<or> st_phase s = Failed
     then Inr (s\<lparr>st_phase := Inactive, st_last_failure := None\<rparr>)
     else Inl ReplayTransitionError)"

section \<open>The lifecycle as an event system\<close>

datatype lifecycle_event = RequestStart | BeginSave | CompleteSave | Fail replay_failure | Stop

primrec lifecycle_apply :: "lifecycle_event \<Rightarrow> replay_runtime_status \<Rightarrow>
    lifecycle_error + replay_runtime_status" where
  "lifecycle_apply RequestStart s = request_start s"
| "lifecycle_apply BeginSave s = begin_save s"
| "lifecycle_apply CompleteSave s = complete_save s"
| "lifecycle_apply (Fail f) s = lifecycle_fail f s"
| "lifecycle_apply Stop s = lifecycle_stop s"

definition lifecycle_step ::
    "replay_runtime_status \<Rightarrow> lifecycle_event \<Rightarrow> replay_runtime_status \<Rightarrow> bool" where
  "lifecycle_step s e t \<longleftrightarrow> lifecycle_apply e s = Inr t"

text \<open>The two constructors, and an inactive status with any attested readiness that allows at least validation, as
  \<open>start_validated_pipeline\<close> accepts it.\<close>

definition lifecycle_init :: "replay_runtime_status \<Rightarrow> bool" where
  "lifecycle_init s \<longleftrightarrow>
     (\<exists>settings. s = status_unavailable settings \<or> s = status_validation_candidate settings
        \<or> (\<exists>readiness. validation_allowed readiness \<and> s = status_with Inactive readiness settings))"

definition lifecycle_inv :: "replay_runtime_status \<Rightarrow> bool" where
  "lifecycle_inv s \<longleftrightarrow>
     st_capability s = readiness_capability (st_backend_readiness s)
     \<and> (st_phase s = Unavailable \<longleftrightarrow> \<not> validation_allowed (st_backend_readiness s))
     \<and> (st_last_failure s \<noteq> None \<longleftrightarrow> st_phase s = Failed)
     \<and> st_budget s = budget_from_settings (st_settings s)"

lemmas lifecycle_ops = request_start_def begin_save_def complete_save_def lifecycle_fail_def
  lifecycle_stop_def

lemma request_start_Inr:
  "request_start s = Inr t \<longleftrightarrow>
     st_phase s = Inactive \<and> t = s\<lparr>st_phase := Buffering, st_last_failure := None\<rparr>
     \<and> (st_capability s = Available \<and> activation_allowed (st_backend_readiness s)
        \<or> st_capability s = ValidationCandidate \<and> \<not> activation_allowed (st_backend_readiness s)
          \<and> validation_allowed (st_backend_readiness s))"
  by (auto simp: request_start_def split: prod.splits replay_capability.splits bool.splits
      replay_phase.splits if_splits)

lemma lifecycle_inv_step: "lifecycle_inv s \<Longrightarrow> lifecycle_step s e t \<Longrightarrow> lifecycle_inv t"
  by (cases e)
    (auto simp: lifecycle_step_def lifecycle_inv_def request_start_Inr begin_save_def
      complete_save_def lifecycle_fail_def lifecycle_stop_def split: if_splits)

lemma lifecycle_inv_init: "lifecycle_init s \<Longrightarrow> lifecycle_inv s"
  by (auto simp: lifecycle_init_def lifecycle_inv_def status_unavailable_def
      status_validation_candidate_def status_with_def headless_foundation_def
      hardware_validation_candidate_def validation_allowed_def readiness_bits)

interpretation lifecycle: event_system lifecycle_init lifecycle_step lifecycle_inv
  by unfold_locales (auto intro: lifecycle_inv_init lifecycle_inv_step)

section \<open>Properties\<close>

lemma validation_bits:
  "validation_allowed r \<longleftrightarrow> (\<forall>c. c \<noteq> PerformanceBudget \<longrightarrow> is_verified r c)"
  "activation_allowed r \<longleftrightarrow> (\<forall>c. is_verified r c)"
proof -
  have all: "(\<forall>c. P c) \<longleftrightarrow> P EncodedPacketRing \<and> P AtomicClipStore \<and> P LiveFrameTransfer
      \<and> P HardwareEncoder \<and> P PlayableContainer \<and> P PerformanceBudget" for P
    by (metis replay_backend_component.exhaust)
  have b: "r AND push_bit n 1 \<noteq> 0 \<longleftrightarrow> bit r n" for n
    by (simp add: and_exp_eq_0_iff_not_bit)
  have v: "VALIDATION_REQUIRED = mask 5" and a: "READINESS_REQUIRED = mask 6"
    by (simp_all add: readiness_bits mask_eq_exp_minus_1)
  have m: "r AND mask n = mask n \<longleftrightarrow> (\<forall>i < n. bit r i)" if "n < 8" for n
    using that by (simp add: bit_eq_iff bit_simps) (metis less_trans)
  have lt: "(\<forall>i < 5. P i) \<longleftrightarrow> P 0 \<and> P 1 \<and> P 2 \<and> P 3 \<and> P (4 :: nat)"
    "(\<forall>i < 6. P i) \<longleftrightarrow> P 0 \<and> P 1 \<and> P 2 \<and> P 3 \<and> P 4 \<and> P (5 :: nat)" for P
    by (simp_all add: numeral_eq_Suc All_less_Suc conj_ac)
  note bits = ENCODED_PACKET_RING_def ATOMIC_CLIP_STORE_def LIVE_FRAME_TRANSFER_def
    HARDWARE_ENCODER_def PLAYABLE_CONTAINER_def PERFORMANCE_BUDGET_def
  show "validation_allowed r \<longleftrightarrow> (\<forall>c. c \<noteq> PerformanceBudget \<longrightarrow> is_verified r c)"
    by (simp only: all) (simp add: validation_allowed_def v m lt is_verified_def bits b
        b [of 0, simplified] b [of 1, simplified] b [of 2, simplified] b [of 3, simplified]
        b [of 4, simplified] b [of 5, simplified])
  show "activation_allowed r \<longleftrightarrow> (\<forall>c. is_verified r c)"
    by (simp only: all) (simp add: activation_allowed_def a m lt is_verified_def bits b
        b [of 0, simplified] b [of 1, simplified] b [of 2, simplified] b [of 3, simplified]
        b [of 4, simplified] b [of 5, simplified])
qed

text \<open>The guard of the start: whatever status the operations begin with.\<close>

definition idle_init :: "replay_runtime_status \<Rightarrow> bool" where
  "idle_init s \<longleftrightarrow> st_phase s = Unavailable \<or> st_phase s = Inactive"

definition startable :: "replay_capability \<Rightarrow> replay_backend_readiness \<Rightarrow> bool" where
  "startable capability r \<longleftrightarrow> capability = Available \<and> activation_allowed r \<or> capability = ValidationCandidate \<and> validation_allowed r"

definition started_inv :: "replay_runtime_status \<Rightarrow> bool" where
  "started_inv s \<longleftrightarrow> st_phase s \<in> {Unavailable, Inactive} \<or> startable (st_capability s) (st_backend_readiness s)"

lemma request_start_startable: "request_start s = Inr t \<Longrightarrow> startable (st_capability t) (st_backend_readiness t)"
  unfolding request_start_Inr startable_def by auto

lemma lifecycle_ops_keep:
  assumes "lifecycle_apply e s = Inr t" "e \<noteq> RequestStart"
  shows "st_capability t = st_capability s \<and> st_backend_readiness t = st_backend_readiness s \<and> st_phase s \<notin> {Unavailable, Inactive}"
  using assms by (cases e) (auto simp: begin_save_def complete_save_def lifecycle_fail_def lifecycle_stop_def split: if_splits)

lemma started_inv_step: "started_inv s \<Longrightarrow> lifecycle_step s e t \<Longrightarrow> started_inv t"
  using request_start_startable [of s t] lifecycle_ops_keep [of e s t]
  by (cases "e = RequestStart") (auto simp: lifecycle_step_def started_inv_def)

interpretation gate: event_system idle_init lifecycle_step started_inv
proof
  show "started_inv s" if "idle_init s" for s using that by (auto simp: idle_init_def started_inv_def)
qed (rule started_inv_step)

text \<open>C22: Recording is gated. Take any status in phase Unavailable or Inactive, whatever capability, readiness bits,
  failure and counters it carries, and apply the five operations in any order. Once the phase is Buffering, Saving or
  Failed, every backend component but the performance budget is verified, the capability is Available or
  ValidationCandidate, and if it is Available the performance budget is verified too: no run of the operations starts a
  recording that the readiness does not allow.\<close>

theorem reachable_recording_is_gated:
  assumes "reach idle_init lifecycle_step s" "st_phase s \<in> {Buffering, Saving, Failed}"
  shows "(\<forall>c. c \<noteq> PerformanceBudget \<longrightarrow> is_verified (st_backend_readiness s) c)
    \<and> (st_capability s = Available \<or> st_capability s = ValidationCandidate)
    \<and> (st_capability s = Available \<longrightarrow> is_verified (st_backend_readiness s) PerformanceBudget)"
proof -
  have "startable (st_capability s) (st_backend_readiness s)"
    using gate.inv_reach [OF assms(1)] assms(2) by (auto simp: started_inv_def)
  then show ?thesis unfolding startable_def validation_bits by auto
qed

theorem reachable_recording_is_gated_witness:
  "\<exists>t. request_start (status_with Inactive READINESS_REQUIRED default_replay_settings) = Inr t
   \<and> is_verified (st_backend_readiness t) HardwareEncoder \<and> is_verified (st_backend_readiness t) PerformanceBudget"
proof -
  let ?s = "status_with Inactive READINESS_REQUIRED default_replay_settings"
  let ?t = "?s\<lparr>st_phase := Buffering, st_last_failure := None\<rparr>"
  have "activation_allowed READINESS_REQUIRED" by (simp add: activation_allowed_def)
  then have cap: "st_capability ?s = Available" "activation_allowed (st_backend_readiness ?s)" "st_phase ?s = Inactive"
    by (simp_all add: status_with_def readiness_capability_def)
  then have start: "request_start ?s = Inr ?t" by (simp add: request_start_def)
  have "reach idle_init lifecycle_step ?s" using cap(3) by (intro reach_init) (simp add: idle_init_def)
  then have "reach idle_init lifecycle_step ?t"
    by (rule reach_step [of _ _ _ RequestStart]) (simp add: lifecycle_step_def start)
  from reachable_recording_is_gated [OF this] cap(1) start show ?thesis by auto
qed

text \<open>Runs as sequences of accepted events.\<close>

fun lifecycle_run :: "lifecycle_event list \<Rightarrow> replay_runtime_status \<Rightarrow>
    lifecycle_error + replay_runtime_status" where
  "lifecycle_run [] s = Inr s"
| "lifecycle_run (e # es) s = and_then (lifecycle_apply e s) (lifecycle_run es)"

text \<open>The abstract machine: which phase an event leads to from which phase.\<close>

fun phase_next :: "replay_phase \<Rightarrow> lifecycle_event \<Rightarrow> replay_phase option" where
  "phase_next Inactive RequestStart = Some Buffering"
| "phase_next Buffering BeginSave = Some Saving"
| "phase_next Saving CompleteSave = Some Buffering"
| "phase_next Buffering (Fail f) = Some Failed"
| "phase_next Saving (Fail f) = Some Failed"
| "phase_next Buffering Stop = Some Inactive"
| "phase_next Saving Stop = Some Inactive"
| "phase_next Failed Stop = Some Inactive"
| "phase_next _ _ = None"

lemma request_start_accepts:
  "lifecycle_inv s \<Longrightarrow> is_ok (request_start s) \<longleftrightarrow> st_phase s = Inactive"
  unfolding is_ok_iff request_start_Inr lifecycle_inv_def readiness_capability_def by auto

lemma lifecycle_apply_phase:
  assumes "lifecycle_inv s"
  shows "(case lifecycle_apply e s of Inl _ \<Rightarrow> None | Inr t \<Rightarrow> Some (st_phase t))
    = phase_next (st_phase s) e"
proof (cases e)
  case RequestStart
  show ?thesis
  proof (cases "request_start s")
    case (Inl err)
    then have "st_phase s \<noteq> Inactive" using request_start_accepts [OF assms] by auto
    with RequestStart Inl show ?thesis by (cases "st_phase s") auto
  next
    case (Inr t)
    then have "st_phase s = Inactive" "st_phase t = Buffering" by (auto simp: request_start_Inr)
    with RequestStart Inr show ?thesis by simp
  qed
qed (cases "st_phase s"; simp add: begin_save_def complete_save_def lifecycle_fail_def
    lifecycle_stop_def)+

text \<open>C21: From every reachable status each operation refines the five-phase machine: it is
  accepted exactly when the machine has that transition, and it leads to the machine's next phase.\<close>

theorem lifecycle_refines_phase_machine:
  assumes "reach lifecycle_init lifecycle_step s"
  shows "(case lifecycle_apply e s of Inl _ \<Rightarrow> None | Inr t \<Rightarrow> Some (st_phase t))
    = phase_next (st_phase s) e"
  by (rule lifecycle_apply_phase [OF lifecycle.inv_reach [OF assms]])

theorem lifecycle_refines_phase_machine_witness:
  "reach lifecycle_init lifecycle_step (status_validation_candidate default_replay_settings)
   \<and> (case lifecycle_apply RequestStart (status_validation_candidate default_replay_settings) of
        Inl _ \<Rightarrow> None | Inr t \<Rightarrow> Some (st_phase t)) = Some Buffering"
proof -
  let ?s = "status_validation_candidate default_replay_settings"
  have r: "reach lifecycle_init lifecycle_step ?s"
    by (rule reach_init) (auto simp: lifecycle_init_def)
  have p: "st_phase ?s = Inactive" by (simp add: status_validation_candidate_def status_with_def)
  show ?thesis
    using r lifecycle_refines_phase_machine [OF r, of RequestStart] by (simp add: p)
qed

fun count_saves :: "lifecycle_event list \<Rightarrow> nat" where
  "count_saves [] = 0"
| "count_saves (CompleteSave # es) = Suc (count_saves es)"
| "count_saves (_ # es) = count_saves es"

lemma apply_save_revision:
  "lifecycle_apply e s = Inr t \<Longrightarrow> unat (st_completed_save_revision t) =
     min (unat (st_completed_save_revision s) + count_saves [e]) (2 ^ 64 - 1)"
  using unat_lt_2p [of "st_completed_save_revision s"]
  by (cases e) (auto simp: request_start_Inr begin_save_def complete_save_def lifecycle_fail_def
      lifecycle_stop_def unat_saturating_add split: if_splits)

lemma run_save_revision:
  "lifecycle_run es s = Inr t \<Longrightarrow> unat (st_completed_save_revision t) =
     min (unat (st_completed_save_revision s) + count_saves es) (2 ^ 64 - 1)"
proof (induction es arbitrary: s)
  case Nil
  then show ?case using unat_lt_2p [of "st_completed_save_revision s"] by (simp add: min_def)
next
  case (Cons e es)
  then obtain u where u: "lifecycle_apply e s = Inr u" "lifecycle_run es u = Inr t"
    by (auto simp: and_then_Inr)
  have "count_saves (e # es) = count_saves [e] + count_saves es" by (cases e) auto
  with Cons.IH [OF u(2)] apply_save_revision [OF u(1)] show ?case by simp
qed

text \<open>The published save revision counts exactly the saves a run completed (saturating at
  the largest 64-bit value), whatever starts, stops and failures lie between them.\<close>

theorem save_revision_counts_completed_saves:
  assumes "lifecycle_run es (status_validation_candidate settings) = Inr t"
  shows "unat (st_completed_save_revision t) = min (count_saves es) (2 ^ 64 - 1)"
  using run_save_revision [OF assms] by (simp add: status_validation_candidate_def status_with_def)

theorem save_revision_counts_completed_saves_witness:
  "case lifecycle_run [RequestStart, BeginSave, CompleteSave, BeginSave, Fail StorageFailed, Stop]
      (status_validation_candidate default_replay_settings) of
     Inl _ \<Rightarrow> False | Inr t \<Rightarrow> unat (st_completed_save_revision t) = 1"
proof -
  let ?es = "[RequestStart, BeginSave, CompleteSave, BeginSave, Fail StorageFailed, Stop]"
  let ?s = "status_validation_candidate default_replay_settings"
  have "is_ok (lifecycle_run ?es ?s)"
    by (simp add: status_validation_candidate_def status_with_def lifecycle_ops
        readiness_capability_def activation_allowed_def validation_allowed_def
        hardware_validation_candidate_def readiness_bits)
  then obtain t where "lifecycle_run ?es ?s = Inr t" by (auto simp: is_ok_iff)
  with save_revision_counts_completed_saves [OF this] show ?thesis by simp
qed

lemma seconds_bound: "unat (duration_seconds d) \<le> 900"
  by (cases d) simp_all

lemma bitrate_bound: "unat (target_megabits_per_second q) \<le> 40"
  by (cases q) simp_all

lemma mul_bound: "(a :: nat) \<le> x \<Longrightarrow> b \<le> y \<Longrightarrow> a * b \<le> x * y"
  by (rule mult_le_mono)

lemma budget_ring_bytes:
  "unat (bu_maximum_ring_bytes (budget_from_settings s)) =
     unat (duration_seconds (rs_duration s)) * unat (target_megabits_per_second (rs_quality s))
       * 137500 * (if rs_frame_rate s = Variable then 2 else 1)"
proof -
  let ?d = "unat (duration_seconds (rs_duration s))"
    and ?q = "unat (target_megabits_per_second (rs_quality s))"
  define m :: u64 where "m = (if rs_frame_rate s = Variable then 2 else 1)"
  have m: "unat m \<le> 2" by (simp add: m_def)
  have p: "?d * ?q \<le> 36000" using mul_bound [OF seconds_bound bitrate_bound] by simp
  have pm: "unat m * (?d * ?q) \<le> 72000" using mul_bound [OF m p] by simp
  define v where "v = saturating_mul (saturating_mul (saturating_mul
      (ucast (duration_seconds (rs_duration s)) :: u64)
      (ucast (target_megabits_per_second (rs_quality s)))) BYTES_PER_MEGABIT) m"
  have v: "unat v = ?d * ?q * 125000 * unat m"
    using p pm by (simp add: v_def unat_saturating_mul BYTES_PER_MEGABIT_def unat_ucast_widen min_def)
  have w: "unat (saturating_mul v (100 + CONTAINER_HEADROOM_PERCENT)) = 100 * (?d * ?q * 137500 * unat m)"
    using pm by (simp add: unat_saturating_mul v CONTAINER_HEADROOM_PERCENT_def min_def)
  have "unat (div_ceil (saturating_mul v (100 + CONTAINER_HEADROOM_PERCENT)) 100)
      = ?d * ?q * 137500 * unat m"
    by (subst unat_div_ceil_dvd) (simp_all add: w)
  then show ?thesis
    by (simp add: budget_from_settings_def Let_def v_def m_def cong: if_cong)
qed

lemma budget_frame_capacity:
  "unat (bu_frame_capacity (budget_from_settings s)) =
     unat (duration_seconds (rs_duration s)) * (if rs_frame_rate s = Variable then 240 else 60)"
  using seconds_bound [of "rs_duration s"]
  by (cases "rs_frame_rate s")
    (simp_all add: budget_from_settings_def Let_def unat_try_from_max unat_saturating_mul
      unat_ucast_widen)

text \<open>The budget arithmetic never saturates on the closed set of settings: the byte limit is
  exactly duration x bitrate plus ten percent (doubled for variable rate) and the frame limit is
  duration x 60 or x 240.\<close>

theorem budget_is_exact:
  "unat (bu_maximum_ring_bytes (budget_from_settings s)) * 10 =
     unat (duration_seconds (rs_duration s)) * unat (target_megabits_per_second (rs_quality s))
       * 125000 * 11 * (if rs_frame_rate s = Variable then 2 else 1)
   \<and> unat (bu_frame_capacity (budget_from_settings s)) =
     unat (duration_seconds (rs_duration s)) * (if rs_frame_rate s = Variable then 240 else 60)"
  by (simp add: budget_ring_bytes budget_frame_capacity)

end
