(* ===== verification/Replay_Ring.thy ===== *)
theory Replay_Ring
  imports Replay_Lifecycle
begin

text \<open>
  The in-memory history of encoded video packets, \<open>redunar-daemon/src/replay_ring.rs\<close>: validated
  packets, the ring with its byte, packet and duration limits, eviction to a keyframe boundary,
  and the bounded snapshot for a save. The first eviction loop of \<open>push\<close> pops the front while a
  limit is exceeded; popping an empty deque changes nothing, so the loop is a partial function
  whose return is proved from the ring's invariant.
\<close>

section \<open>Packets\<close>

definition NANOSECONDS_PER_SECOND :: u64 where "NANOSECONDS_PER_SECOND = 1000000000"
definition MAX_PACKET_DURATION_NS :: u64 where "MAX_PACKET_DURATION_NS = NANOSECONDS_PER_SECOND"
definition MAX_SINGLE_PACKET_BYTES :: nat where "MAX_SINGLE_PACKET_BYTES = 8 * 1024 * 1024"
definition MAX_IN_MEMORY_REPLAY_BYTES :: u64 where "MAX_IN_MEMORY_REPLAY_BYTES = 256 * 1024 * 1024"

record encoded_replay_packet =
  pk_timestamp_ns :: u64
  pk_duration_ns :: u64
  pk_keyframe :: bool
  pk_bytes :: "u8 list"

datatype replay_packet_error = Empty | TooLarge | InvalidDuration | TimestampOverflow

definition packet_new :: "u64 \<Rightarrow> u64 \<Rightarrow> bool \<Rightarrow> u8 list \<Rightarrow> replay_packet_error + encoded_replay_packet" where
  "packet_new timestamp_ns duration_ns keyframe bytes =
     (if bytes = [] then Inl Empty
      else if length bytes > MAX_SINGLE_PACKET_BYTES then Inl TooLarge
      else if duration_ns = 0 \<or> duration_ns > MAX_PACKET_DURATION_NS then Inl InvalidDuration
      else and_then (ok_or (checked_add timestamp_ns duration_ns) TimestampOverflow) (\<lambda>_.
        Inr \<lparr>pk_timestamp_ns = timestamp_ns, pk_duration_ns = duration_ns,
             pk_keyframe = keyframe, pk_bytes = bytes\<rparr>))"

text \<open>The bytes of a packet as \<open>u64::try_from(len).unwrap_or(u64::MAX)\<close>.\<close>

definition len_u64 :: "'a list \<Rightarrow> u64" where
  "len_u64 xs = unwrap_or (try_from (length xs)) (- 1)"

section \<open>The ring\<close>

record replay_ring_stats =
  rrs_stored_packets :: u32
  rrs_stored_bytes :: u64
  rrs_dropped_awaiting_keyframe :: u64
  rrs_evicted_packets :: u64
  rrs_evicted_bytes :: u64

datatype replay_push_outcome = Stored u32 u64 | DroppedAwaitingKeyframe
datatype replay_ring_error = NonMonotonicTimestamp | PacketExceedsRingBudget

record replay_ring =
  rr_duration_limit_ns :: u64
  rr_packet_limit :: u32
  rr_byte_limit :: u64
  rr_packets :: "encoded_replay_packet list"
  rr_last_timestamp_ns :: "u64 option"
  rr_stored_bytes :: u64
  rr_dropped_awaiting_keyframe :: u64
  rr_evicted_packets :: u64
  rr_evicted_bytes :: u64

definition ring_new :: "replay_settings \<Rightarrow> replay_ring" where
  "ring_new settings =
     (let budget = budget_from_settings settings
      in \<lparr>rr_duration_limit_ns = saturating_mul (ucast (duration_seconds (rs_duration settings)))
            NANOSECONDS_PER_SECOND,
          rr_packet_limit = max (bu_frame_capacity budget) 1,
          rr_byte_limit = min (max (bu_maximum_ring_bytes budget) 1) MAX_IN_MEMORY_REPLAY_BYTES,
          rr_packets = [], rr_last_timestamp_ns = None, rr_stored_bytes = 0,
          rr_dropped_awaiting_keyframe = 0, rr_evicted_packets = 0, rr_evicted_bytes = 0\<rparr>)"

text \<open>\<open>front().zip(back())\<close> and the span between them.\<close>

definition history_span :: "encoded_replay_packet list \<Rightarrow> u64" where
  "history_span ps = (if ps = [] then 0
     else saturating_sub (saturating_add (pk_timestamp_ns (last ps)) (pk_duration_ns (last ps)))
            (pk_timestamp_ns (hd ps)))"

definition span_exceeds :: "encoded_replay_packet list \<Rightarrow> u64 \<Rightarrow> bool" where
  "span_exceeds ps limit \<longleftrightarrow> ps \<noteq> [] \<and> history_span ps > limit"

definition exceeds_any_limit :: "replay_ring \<Rightarrow> bool" where
  "exceeds_any_limit r \<longleftrightarrow> length (rr_packets r) > unat (rr_packet_limit r)
     \<or> rr_stored_bytes r > rr_byte_limit r
     \<or> span_exceeds (rr_packets r) (rr_duration_limit_ns r)"

definition evict_front :: "replay_ring \<Rightarrow> u32 \<Rightarrow> u64 \<Rightarrow> replay_ring \<times> u32 \<times> u64" where
  "evict_front r packet_count byte_count = (case rr_packets r of
       [] \<Rightarrow> (r, packet_count, byte_count)
     | packet # rest \<Rightarrow>
         (let bytes = len_u64 (pk_bytes packet)
          in (r\<lparr>rr_packets := rest, rr_stored_bytes := saturating_sub (rr_stored_bytes r) bytes\<rparr>,
              saturating_add packet_count 1, saturating_add byte_count bytes)))"

text \<open>The two loops of \<open>push\<close>.\<close>

partial_function (option) evict_over_limit ::
    "replay_ring \<Rightarrow> u32 \<Rightarrow> u64 \<Rightarrow> (replay_ring \<times> u32 \<times> u64) option" where
  "evict_over_limit r n b =
     (if exceeds_any_limit r
      then (case evict_front r n b of (r', n', b') \<Rightarrow> evict_over_limit r' n' b')
      else Some (r, n, b))"

lemma evict_front_shorter:
  "(r', n', b') = evict_front r n b \<Longrightarrow> rr_packets r \<noteq> [] \<Longrightarrow>
    length (rr_packets r') < length (rr_packets r)"
  by (auto simp: evict_front_def Let_def split: list.splits)

function evict_non_keyframes :: "replay_ring \<Rightarrow> u32 \<Rightarrow> u64 \<Rightarrow> replay_ring \<times> u32 \<times> u64" where
  "evict_non_keyframes r n b =
     (if rr_packets r \<noteq> [] \<and> \<not> pk_keyframe (hd (rr_packets r))
      then (case evict_front r n b of (r', n', b') \<Rightarrow> evict_non_keyframes r' n' b')
      else (r, n, b))"
  by pat_completeness auto
termination
  by (relation "measure (\<lambda>(r, n, b). length (rr_packets r))", simp)
    (metis (no_types, lifting) case_prod_conv evict_front_shorter in_measure)

declare evict_non_keyframes.simps [simp del]

text \<open>\<open>push\<close>: the ring after the call and the result; \<open>None\<close> when the first loop does not end.\<close>

definition ring_push :: "encoded_replay_packet \<Rightarrow> replay_ring \<Rightarrow>
    (replay_ring \<times> (replay_ring_error + replay_push_outcome)) option" where
  "ring_push packet r =
     (if len_u64 (pk_bytes packet) > rr_byte_limit r then Some (r, Inl PacketExceedsRingBudget)
      else if (case rr_last_timestamp_ns r of None \<Rightarrow> False
               | Some prev \<Rightarrow> pk_timestamp_ns packet \<le> prev) then Some (r, Inl NonMonotonicTimestamp)
      else
        (let r = r\<lparr>rr_last_timestamp_ns := Some (pk_timestamp_ns packet)\<rparr>
         in if rr_packets r = [] \<and> \<not> pk_keyframe packet
            then Some (r\<lparr>rr_dropped_awaiting_keyframe :=
                    saturating_add (rr_dropped_awaiting_keyframe r) 1\<rparr>, Inr DroppedAwaitingKeyframe)
            else
              (let r = r\<lparr>rr_stored_bytes := saturating_add (rr_stored_bytes r) (len_u64 (pk_bytes packet)),
                         rr_packets := rr_packets r @ [packet]\<rparr>
               in case evict_over_limit r 0 0 of None \<Rightarrow> None
                | Some (r, n, b) \<Rightarrow>
                    (case evict_non_keyframes r n b of (r, n, b) \<Rightarrow>
                       Some (r\<lparr>rr_evicted_packets := saturating_add (rr_evicted_packets r) (ucast n),
                               rr_evicted_bytes := saturating_add (rr_evicted_bytes r) b\<rparr>,
                             Inr (Stored n b))))))"

function snapshot_loop :: "u64 \<Rightarrow> replay_ring \<Rightarrow> u32 \<Rightarrow> u64 \<Rightarrow> replay_ring" where
  "snapshot_loop limit r n b =
     (if span_exceeds (rr_packets r) limit
      then (case evict_front r n b of (r, n, b) \<Rightarrow>
              (case evict_non_keyframes r n b of (r, n, b) \<Rightarrow> snapshot_loop limit r n b))
      else r)"
  by pat_completeness auto

definition snapshot_for_duration :: "replay_duration \<Rightarrow> replay_ring \<Rightarrow> replay_ring" where
  "snapshot_for_duration duration r =
     snapshot_loop (saturating_mul (ucast (duration_seconds duration)) NANOSECONDS_PER_SECOND) r 0 0"

definition ring_stats :: "replay_ring \<Rightarrow> replay_ring_stats" where
  "ring_stats r = \<lparr>rrs_stored_packets = unwrap_or (try_from (length (rr_packets r))) (- 1),
     rrs_stored_bytes = rr_stored_bytes r,
     rrs_dropped_awaiting_keyframe = rr_dropped_awaiting_keyframe r,
     rrs_evicted_packets = rr_evicted_packets r, rrs_evicted_bytes = rr_evicted_bytes r\<rparr>"

definition reset_epoch :: "replay_ring \<Rightarrow> replay_ring" where
  "reset_epoch r = r\<lparr>
     rr_evicted_packets := saturating_add (rr_evicted_packets r) (len_u64 (rr_packets r)),
     rr_evicted_bytes := saturating_add (rr_evicted_bytes r) (rr_stored_bytes r),
     rr_packets := [], rr_last_timestamp_ns := None, rr_stored_bytes := 0\<rparr>"

section \<open>Termination of the snapshot loop\<close>

lemma evict_front_le: "evict_front r n b = (r', n', b') \<Longrightarrow>
    length (rr_packets r') \<le> length (rr_packets r)"
  by (auto simp: evict_front_def Let_def split: list.splits)

lemma evict_non_keyframes_le:
  "evict_non_keyframes r n b = (r', n', b') \<Longrightarrow> length (rr_packets r') \<le> length (rr_packets r)"
proof (induction r n b rule: evict_non_keyframes.induct)
  case (1 r n b)
  show ?case
  proof (cases "rr_packets r \<noteq> [] \<and> \<not> pk_keyframe (hd (rr_packets r))")
    case True
    obtain r1 n1 b1 where e: "evict_front r n b = (r1, n1, b1)" by (metis prod_cases3)
    with True 1 have "length (rr_packets r') \<le> length (rr_packets r1)"
      by (simp add: evict_non_keyframes.simps [of r])
    with evict_front_le [OF e] show ?thesis by simp
  next
    case False
    with 1(2) show ?thesis by (auto simp: evict_non_keyframes.simps [of r])
  qed
qed

termination snapshot_loop
proof (relation "measure (\<lambda>(limit, r, n, b). length (rr_packets r))", simp, clarify)
  fix limit r n b r1 n1 b1 r2 n2 b2
  assume span: "span_exceeds (rr_packets r) limit"
    and e1: "(r1, n1, b1) = evict_front r n b"
    and e2: "(r2, n2, b2) = evict_non_keyframes r1 n1 b1"
  have "length (rr_packets r1) < length (rr_packets r)"
    using span evict_front_shorter [OF e1] by (simp add: span_exceeds_def)
  with evict_non_keyframes_le [OF e2 [symmetric]]
  show "((limit, r2, n2, b2), limit, r, n, b) \<in> measure (\<lambda>(limit, r, n, b). length (rr_packets r))"
    by simp
qed

declare snapshot_loop.simps [simp del]

section \<open>Specification: what the ring holds\<close>

definition payload :: "encoded_replay_packet list \<Rightarrow> nat" where
  "payload ps = sum_list (map (\<lambda>p. length (pk_bytes p)) ps)"

text \<open>A packet that \<open>packet_new\<close> returned.\<close>

definition packet_ok :: "encoded_replay_packet \<Rightarrow> bool" where
  "packet_ok p \<longleftrightarrow>
     packet_new (pk_timestamp_ns p) (pk_duration_ns p) (pk_keyframe p) (pk_bytes p) = Inr p"

definition within_limits :: "replay_ring \<Rightarrow> encoded_replay_packet list \<Rightarrow> bool" where
  "within_limits r ps \<longleftrightarrow> length ps \<le> unat (rr_packet_limit r)
     \<and> payload ps \<le> unat (rr_byte_limit r) \<and> \<not> span_exceeds ps (rr_duration_limit_ns r)"

definition keyframe_start :: "encoded_replay_packet list \<Rightarrow> bool" where
  "keyframe_start ps \<longleftrightarrow> (ps \<noteq> [] \<longrightarrow> pk_keyframe (hd ps))"

definition timestamps_increase :: "encoded_replay_packet list \<Rightarrow> bool" where
  "timestamps_increase ps \<longleftrightarrow> sorted_wrt (\<lambda>a b. pk_timestamp_ns a < pk_timestamp_ns b) ps"

definition ring_config :: "replay_ring \<Rightarrow> bool" where
  "ring_config r \<longleftrightarrow> rr_packet_limit r \<ge> 1 \<and> rr_packet_limit r \<le> 216000 \<and> rr_byte_limit r \<ge> 1
     \<and> rr_byte_limit r \<le> MAX_IN_MEMORY_REPLAY_BYTES \<and> rr_duration_limit_ns r \<ge> MAX_PACKET_DURATION_NS"

definition ring_inv :: "replay_ring \<Rightarrow> bool" where
  "ring_inv r \<longleftrightarrow> ring_config r \<and> (\<forall>p \<in> set (rr_packets r). packet_ok p)
     \<and> timestamps_increase (rr_packets r) \<and> keyframe_start (rr_packets r)
     \<and> within_limits r (rr_packets r) \<and> unat (rr_stored_bytes r) = payload (rr_packets r)
     \<and> (rr_packets r \<noteq> [] \<longrightarrow>
          rr_last_timestamp_ns r = Some (pk_timestamp_ns (last (rr_packets r))))"

lemma packet_ok_iff:
  "packet_ok p \<longleftrightarrow> pk_bytes p \<noteq> [] \<and> length (pk_bytes p) \<le> 8388608 \<and> 0 < unat (pk_duration_ns p)
     \<and> unat (pk_duration_ns p) \<le> 1000000000
     \<and> unat (pk_timestamp_ns p) + unat (pk_duration_ns p) < 2 ^ 64"
  by (auto simp: packet_ok_def packet_new_def MAX_SINGLE_PACKET_BYTES_def MAX_PACKET_DURATION_NS_def
      NANOSECONDS_PER_SECOND_def checked_add_def word_le_nat_alt word_less_nat_alt unat_eq_0 unat_gt_0
      split: if_splits)

lemma packet_new_Inr:
  "packet_new t d k bs = Inr p \<longleftrightarrow>
     packet_ok p \<and> pk_timestamp_ns p = t \<and> pk_duration_ns p = d \<and> pk_keyframe p = k \<and> pk_bytes p = bs"
  by (cases p) (auto simp: packet_ok_def packet_new_def result_iffs split: if_splits)

lemma unat_len_u64: "length xs < 2 ^ 64 \<Longrightarrow> unat (len_u64 xs) = length xs"
  by (simp add: len_u64_def unat_try_from_max)

lemma payload_simps [simp]: "payload [] = 0" "payload (p # ps) = length (pk_bytes p) + payload ps"
  "payload (ps @ qs) = payload ps + payload qs"
  by (simp_all add: payload_def)

lemma keyframe_start_simps [simp]:
  "keyframe_start []" "keyframe_start (p # ps) \<longleftrightarrow> pk_keyframe p"
  by (simp_all add: keyframe_start_def)

lemma payload_suffix: "suffix ps qs \<Longrightarrow> payload ps \<le> payload qs"
  by (auto simp: suffix_def)

lemma timestamps_suffix: "suffix ps qs \<Longrightarrow> timestamps_increase qs \<Longrightarrow> timestamps_increase ps"
  unfolding timestamps_increase_def by (rule sorted_wrt_suffix)

lemma span_suffix:
  assumes "suffix ps qs" "ps \<noteq> []" "timestamps_increase qs"
  shows "history_span ps \<le> history_span qs"
proof -
  obtain as where qs: "qs = as @ ps" using assms(1) by (auto simp: suffix_def)
  have "pk_timestamp_ns (hd qs) \<le> pk_timestamp_ns (hd ps)"
    using assms(2,3) by (cases as) (auto simp: qs timestamps_increase_def hd_append order_less_imp_le)
  with assms(2) qs show ?thesis
    by (simp add: history_span_def word_le_nat_alt unat_saturating_sub)
qed

lemma within_limits_suffix:
  assumes "suffix ps qs" "timestamps_increase qs" "within_limits r qs"
  shows "within_limits r ps"
proof -
  have "\<not> span_exceeds ps (rr_duration_limit_ns r)"
    using assms span_suffix [OF assms(1) _ assms(2)]
    by (auto simp: within_limits_def span_exceeds_def suffix_bot.extremum_unique)
  with assms payload_suffix [OF assms(1)] suffix_length_le [OF assms(1)] show ?thesis
    by (auto simp: within_limits_def)
qed

section \<open>The eviction loops drop the longest necessary prefix\<close>

text \<open>A ring whose byte counter is exact, seen as a function of its packets.\<close>

definition ring_with :: "replay_ring \<Rightarrow> encoded_replay_packet list \<Rightarrow> replay_ring" where
  "ring_with r ps = r\<lparr>rr_packets := ps, rr_stored_bytes := word_of_nat (payload ps)\<rparr>"

lemma ring_with_simps [simp]:
  "rr_packets (ring_with r ps) = ps" "rr_packet_limit (ring_with r ps) = rr_packet_limit r"
  "rr_byte_limit (ring_with r ps) = rr_byte_limit r"
  "rr_duration_limit_ns (ring_with r ps) = rr_duration_limit_ns r"
  "rr_last_timestamp_ns (ring_with r ps) = rr_last_timestamp_ns r"
  "rr_dropped_awaiting_keyframe (ring_with r ps) = rr_dropped_awaiting_keyframe r"
  "rr_evicted_packets (ring_with r ps) = rr_evicted_packets r"
  "rr_evicted_bytes (ring_with r ps) = rr_evicted_bytes r"
  by (simp_all add: ring_with_def)

lemma unat_payload: "payload ps < 2 ^ 64 \<Longrightarrow> unat (word_of_nat (payload ps) :: u64) = payload ps"
  by (simp add: unat_of_nat)

lemma unat_ring_with_bytes [simp]:
  "payload ps < 2 ^ 64 \<Longrightarrow> unat (rr_stored_bytes (ring_with r ps)) = payload ps"
  by (simp add: ring_with_def unat_of_nat)

lemma ring_with_self: "unat (rr_stored_bytes r) = payload (rr_packets r) \<Longrightarrow> ring_with r (rr_packets r) = r"
  by (cases r) (simp add: ring_with_def, metis of_nat_unat ucast_id)

lemma exceeds_ring_with:
  "payload ps < 2 ^ 64 \<Longrightarrow> exceeds_any_limit (ring_with r ps) \<longleftrightarrow> \<not> within_limits r ps"
  by (auto simp: exceeds_any_limit_def within_limits_def word_less_nat_alt)

lemma evict_front_ring_with:
  assumes "payload (p # ps) < 2 ^ 64"
  shows "evict_front (ring_with r (p # ps)) n b =
    (ring_with r ps, sadd n 1, sadd b (length (pk_bytes p)))"
proof -
  have l: "unat (len_u64 (pk_bytes p)) = length (pk_bytes p)" using assms by (simp add: unat_len_u64)
  have "saturating_sub (word_of_nat (payload (p # ps))) (len_u64 (pk_bytes p)) = word_of_nat (payload ps)"
    using unat_payload [OF assms] unat_payload [of ps] assms
    by (simp add: word_eq_iff_unat unat_saturating_sub l)
  with l show ?thesis by (simp add: evict_front_def ring_with_def Let_def saturating_add_sadd)
qed

lemma evict_over_limit_ring_with:
  assumes "within_limits r []" "payload ps < 2 ^ 64"
  shows "evict_over_limit (ring_with r ps) n b =
    (let ls = longest_suffix (within_limits r) ps
     in Some (ring_with r ls, sadd n (length ps - length ls), sadd b (payload ps - payload ls)))"
  using assms(2)
proof (induction ps arbitrary: n b)
  case Nil
  with assms show ?case
    by (subst evict_over_limit.simps) (simp add: exceeds_ring_with)
next
  case (Cons p ps)
  let ?ls = "longest_suffix (within_limits r) ps"
  have s: "suffix ?ls ps" by (rule longest_suffix_suffix)
  show ?case
  proof (cases "within_limits r (p # ps)")
    case True
    with Cons.prems show ?thesis
      by (subst evict_over_limit.simps) (simp add: exceeds_ring_with)
  next
    case False
    have "evict_over_limit (ring_with r (p # ps)) n b =
        evict_over_limit (ring_with r ps) (sadd n 1) (sadd b (length (pk_bytes p)))"
      using False Cons.prems
      by (subst evict_over_limit.simps) (simp add: exceeds_ring_with evict_front_ring_with del: payload_simps)
    with Cons False suffix_length_le [OF s] payload_suffix [OF s] show ?thesis
      by (simp add: Let_def Suc_diff_le)
  qed
qed

lemma evict_non_keyframes_ring_with:
  assumes "payload ps < 2 ^ 64"
  shows "evict_non_keyframes (ring_with r ps) n b =
    (let ls = longest_suffix keyframe_start ps
     in (ring_with r ls, sadd n (length ps - length ls), sadd b (payload ps - payload ls)))"
  using assms
proof (induction ps arbitrary: n b)
  case Nil
  then show ?case by (subst evict_non_keyframes.simps) simp
next
  case (Cons p ps)
  let ?ls = "longest_suffix keyframe_start ps"
  have s: "suffix ?ls ps" by (rule longest_suffix_suffix)
  show ?case
  proof (cases "pk_keyframe p")
    case True
    then show ?thesis by (subst evict_non_keyframes.simps) simp
  next
    case False
    have "evict_non_keyframes (ring_with r (p # ps)) n b =
        evict_non_keyframes (ring_with r ps) (sadd n 1) (sadd b (length (pk_bytes p)))"
      using False Cons.prems
      by (subst evict_non_keyframes.simps) (simp add: evict_front_ring_with del: payload_simps)
    with Cons False suffix_length_le [OF s] payload_suffix [OF s] show ?thesis
      by (simp add: Let_def Suc_diff_le)
  qed
qed

text \<open>The suffix a push keeps.\<close>

definition kept :: "replay_ring \<Rightarrow> encoded_replay_packet list \<Rightarrow> encoded_replay_packet list" where
  "kept r ps = longest_suffix (\<lambda>qs. within_limits r qs \<and> keyframe_start qs) ps"

lemma kept_two_loops:
  assumes "timestamps_increase ps"
  shows "longest_suffix keyframe_start (longest_suffix (within_limits r) ps) = kept r ps"
  unfolding kept_def
  by (rule longest_suffix_conj) (blast intro: within_limits_suffix timestamps_suffix assms)

section \<open>What a push does\<close>

lemma ring_config_nat:
  assumes "ring_config r"
  shows "1 \<le> unat (rr_packet_limit r)" "unat (rr_packet_limit r) \<le> 216000"
    "1 \<le> unat (rr_byte_limit r)" "unat (rr_byte_limit r) \<le> 268435456"
    "1000000000 \<le> unat (rr_duration_limit_ns r)"
  using assms
  by (simp_all add: ring_config_def word_le_nat_alt MAX_IN_MEMORY_REPLAY_BYTES_def
      MAX_PACKET_DURATION_NS_def NANOSECONDS_PER_SECOND_def)

lemma within_limits_empty: "ring_config r \<Longrightarrow> within_limits r []"
  by (simp add: within_limits_def span_exceeds_def)

lemma within_limits_cong:
  "rr_packet_limit r = rr_packet_limit q \<Longrightarrow> rr_byte_limit r = rr_byte_limit q \<Longrightarrow>
   rr_duration_limit_ns r = rr_duration_limit_ns q \<Longrightarrow> within_limits r = within_limits q"
  by (simp add: within_limits_def fun_eq_iff)

lemma kept_cong: "within_limits r = within_limits q \<Longrightarrow> kept r = kept q"
  by (simp add: kept_def fun_eq_iff)

definition after_push :: "encoded_replay_packet \<Rightarrow> replay_ring \<Rightarrow> replay_ring" where
  "after_push p r =
     (let ps = rr_packets r @ [p]; ls = kept r ps
      in (ring_with r ls)\<lparr>rr_last_timestamp_ns := Some (pk_timestamp_ns p),
           rr_evicted_packets := sadd (rr_evicted_packets r) (length ps - length ls),
           rr_evicted_bytes := sadd (rr_evicted_bytes r) (payload ps - payload ls)\<rparr>)"

definition stale :: "encoded_replay_packet \<Rightarrow> replay_ring \<Rightarrow> bool" where
  "stale p r \<longleftrightarrow> (\<exists>prev. rr_last_timestamp_ns r = Some prev \<and> pk_timestamp_ns p \<le> prev)"

definition push_result :: "encoded_replay_packet \<Rightarrow> replay_ring \<Rightarrow>
    replay_ring \<times> (replay_ring_error + replay_push_outcome)" where
  "push_result p r =
     (if length (pk_bytes p) > unat (rr_byte_limit r) then (r, Inl PacketExceedsRingBudget)
      else if stale p r then (r, Inl NonMonotonicTimestamp)
      else if rr_packets r = [] \<and> \<not> pk_keyframe p
      then (r\<lparr>rr_last_timestamp_ns := Some (pk_timestamp_ns p),
              rr_dropped_awaiting_keyframe := sadd (rr_dropped_awaiting_keyframe r) 1\<rparr>,
            Inr DroppedAwaitingKeyframe)
      else (after_push p r,
            Inr (Stored (word_of_nat (length (rr_packets r) + 1 - length (kept r (rr_packets r @ [p]))))
                   (word_of_nat (payload (rr_packets r @ [p]) - payload (kept r (rr_packets r @ [p])))))))"

lemma timestamps_last:
  "timestamps_increase ps \<Longrightarrow> q \<in> set ps \<Longrightarrow> pk_timestamp_ns q \<le> pk_timestamp_ns (last ps)"
  by (cases ps rule: rev_cases)
    (auto simp: timestamps_increase_def sorted_wrt_append order_less_imp_le)

lemma sadd_zero: "k < 2 ^ LENGTH('a) \<Longrightarrow> sadd (0 :: 'a::len word) k = word_of_nat k"
  by (auto simp: word_eq_iff_unat unat_sadd unat_of_nat min_def)

lemma timestamps_snoc:
  assumes "ring_inv r" "\<not> stale p r"
  shows "timestamps_increase (rr_packets r @ [p])"
proof -
  have "\<forall>q \<in> set (rr_packets r). pk_timestamp_ns q < pk_timestamp_ns p"
  proof (cases "rr_packets r = []")
    case False
    with assms have l: "pk_timestamp_ns (last (rr_packets r)) < pk_timestamp_ns p"
      and s: "timestamps_increase (rr_packets r)" by (auto simp: ring_inv_def stale_def)
    then show ?thesis using timestamps_last [OF s] by (meson le_less_trans)
  qed simp
  with assms show ?thesis by (auto simp: ring_inv_def timestamps_increase_def sorted_wrt_append)
qed

lemma kept_bounds:
  "length (kept r ps) \<le> length ps" "payload (kept r ps) \<le> payload ps" "suffix (kept r ps) ps"
  unfolding kept_def using longest_suffix_suffix [of _ ps]
  by (auto intro: suffix_length_le payload_suffix)

lemma payload_snoc_small:
  assumes "ring_inv r" "packet_ok p"
  shows "payload (rr_packets r @ [p]) < 2 ^ 64" "length (rr_packets r) < 2 ^ 32 - 1"
  using assms ring_config_nat [of r] by (auto simp: ring_inv_def within_limits_def packet_ok_iff)

lemma ring_push_result:
  assumes "ring_inv r" "packet_ok p"
  shows "ring_push p r = Some (push_result p r)"
proof -
  let ?ps = "rr_packets r @ [p]"
  let ?q = "r\<lparr>rr_last_timestamp_ns := Some (pk_timestamp_ns p)\<rparr>"
  have len: "unat (len_u64 (pk_bytes p)) = length (pk_bytes p)"
    using assms(2) by (simp add: unat_len_u64 packet_ok_iff)
  have small: "payload ?ps < 2 ^ 64" using payload_snoc_small(1) [OF assms] .
  have bytes: "rr_stored_bytes r = word_of_nat (payload (rr_packets r))"
    using assms(1) by (metis ring_inv_def word_of_nat_unat)
  have "sadd (rr_stored_bytes r) (length (pk_bytes p)) = word_of_nat (payload ?ps)"
    using small unat_payload [of "rr_packets r"] unat_payload [OF small]
    by (simp add: word_eq_iff_unat unat_sadd bytes)
  then have pushed: "?q\<lparr>rr_stored_bytes := sadd (rr_stored_bytes r) (length (pk_bytes p)),
      rr_packets := ?ps\<rparr> = ring_with ?q ?ps" by (simp add: ring_with_def)
  have within: "within_limits ?q = within_limits r" by (rule within_limits_cong) simp_all
  show ?thesis
  proof (cases "length (pk_bytes p) > unat (rr_byte_limit r) \<or> stale p r
      \<or> rr_packets r = [] \<and> \<not> pk_keyframe p")
    case True
    then show ?thesis
      by (auto simp: ring_push_def push_result_def word_less_nat_alt len stale_def
          saturating_add_sadd split: option.splits)
  next
    case False
    let ?ws = "longest_suffix (within_limits r) ?ps"
    have ws: "suffix ?ws ?ps" by (rule longest_suffix_suffix)
    have two: "longest_suffix keyframe_start ?ws = kept r ?ps"
      using False by (intro kept_two_loops timestamps_snoc [OF assms(1)]) simp
    have sub: "suffix (kept r ?ps) ?ws" by (simp add: longest_suffix_suffix flip: two)
    have l1: "evict_over_limit (ring_with ?q ?ps) 0 0 = Some (ring_with ?q ?ws,
        sadd 0 (length ?ps - length ?ws), sadd 0 (payload ?ps - payload ?ws))"
      using evict_over_limit_ring_with [of ?q ?ps 0 0] small assms(1)
      by (simp add: within Let_def within_limits_empty ring_inv_def)
    have l2: "evict_non_keyframes (ring_with ?q ?ws) n b = (ring_with ?q (kept r ?ps),
        sadd n (length ?ws - length (kept r ?ps)), sadd b (payload ?ws - payload (kept r ?ps)))" for n b
      using evict_non_keyframes_ring_with [of ?ws ?q n b] small payload_suffix [OF ws]
      by (simp add: two Let_def)
    have d: "length ?ps - length ?ws + (length ?ws - length (kept r ?ps)) = length ?ps - length (kept r ?ps)"
      "payload ?ps - payload ?ws + (payload ?ws - payload (kept r ?ps)) = payload ?ps - payload (kept r ?ps)"
      using suffix_length_le [OF ws] suffix_length_le [OF sub] payload_suffix [OF ws]
        payload_suffix [OF sub] by linarith+
    have n: "sadd (0 :: u32) (length ?ps - length (kept r ?ps))
        = word_of_nat (length (rr_packets r) + 1 - length (kept r ?ps))"
      "unat (sadd (0 :: u32) (length ?ps - length (kept r ?ps))) = length ?ps - length (kept r ?ps)"
      using payload_snoc_small(2) [OF assms] by (simp_all add: sadd_zero unat_sadd unat_of_nat)
    have b: "sadd (0 :: u64) (payload ?ps - payload (kept r ?ps))
        = word_of_nat (payload ?ps - payload (kept r ?ps))"
      "unat (sadd (0 :: u64) (payload ?ps - payload (kept r ?ps))) = payload ?ps - payload (kept r ?ps)"
      using small by (simp_all add: sadd_zero unat_sadd unat_of_nat)
    have "ring_push p r = Some ((ring_with ?q (kept r ?ps))\<lparr>
          rr_evicted_packets := sadd (rr_evicted_packets r) (length ?ps - length (kept r ?ps)),
          rr_evicted_bytes := sadd (rr_evicted_bytes r) (payload ?ps - payload (kept r ?ps))\<rparr>,
        Inr (Stored (sadd 0 (length ?ps - length (kept r ?ps)))
               (sadd 0 (payload ?ps - payload (kept r ?ps)))))"
      using False
      by (auto simp: ring_push_def word_less_nat_alt len stale_def pushed l1 l2 d Let_def
          saturating_add_sadd unat_ucast_widen n(2) b(2)
          simp del: length_append payload_simps split: option.splits)
    also have "(ring_with ?q (kept r ?ps))\<lparr>
          rr_evicted_packets := sadd (rr_evicted_packets r) (length ?ps - length (kept r ?ps)),
          rr_evicted_bytes := sadd (rr_evicted_bytes r) (payload ?ps - payload (kept r ?ps))\<rparr>
        = after_push p r" by (simp add: after_push_def ring_with_def Let_def)
    finally have "ring_push p r = Some (after_push p r, Inr (Stored
        (sadd 0 (length ?ps - length (kept r ?ps))) (sadd 0 (payload ?ps - payload (kept r ?ps)))))" .
    with False show ?thesis
      by (simp add: push_result_def n(1) b(1) del: length_append payload_simps)
  qed
qed

section \<open>The invariant\<close>

lemma ring_new_inv: "ring_inv (ring_new settings)"
proof -
  let ?d = "unat (duration_seconds (rs_duration settings))"
  have d: "15 \<le> ?d" "?d \<le> 900" by (cases "rs_duration settings"; simp)+
  have "unat (saturating_mul (ucast (duration_seconds (rs_duration settings)) :: u64)
      NANOSECONDS_PER_SECOND) = ?d * 1000000000"
    using d by (simp add: unat_saturating_mul unat_ucast_widen NANOSECONDS_PER_SECOND_def)
  then have "MAX_PACKET_DURATION_NS \<le> rr_duration_limit_ns (ring_new settings)"
    using d by (simp add: ring_new_def Let_def word_le_nat_alt MAX_PACKET_DURATION_NS_def
        NANOSECONDS_PER_SECOND_def)
  moreover have "bu_frame_capacity (budget_from_settings settings) \<le> 216000"
    using d by (simp add: word_le_nat_alt budget_frame_capacity)
  ultimately have "ring_config (ring_new settings)"
    by (auto simp: ring_config_def ring_new_def Let_def max_def MAX_IN_MEMORY_REPLAY_BYTES_def)
  then show ?thesis
    by (simp add: ring_inv_def within_limits_empty timestamps_increase_def ring_new_def Let_def)
qed

lemma kept_props:
  assumes "ring_config r"
  shows "within_limits r (kept r ps)" "keyframe_start (kept r ps)"
  using longest_suffix_holds [of "\<lambda>qs. within_limits r qs \<and> keyframe_start qs" ps]
    within_limits_empty [OF assms] by (simp_all add: kept_def)

lemma after_push_fields [simp]:
  "rr_packets (after_push p r) = kept r (rr_packets r @ [p])"
  "rr_packet_limit (after_push p r) = rr_packet_limit r"
  "rr_byte_limit (after_push p r) = rr_byte_limit r"
  "rr_duration_limit_ns (after_push p r) = rr_duration_limit_ns r"
  "rr_last_timestamp_ns (after_push p r) = Some (pk_timestamp_ns p)"
  "rr_stored_bytes (after_push p r) = rr_stored_bytes (ring_with r (kept r (rr_packets r @ [p])))"
  by (simp_all add: after_push_def Let_def)

lemma ring_config_cong:
  "rr_packet_limit r = rr_packet_limit q \<Longrightarrow> rr_byte_limit r = rr_byte_limit q \<Longrightarrow>
   rr_duration_limit_ns r = rr_duration_limit_ns q \<Longrightarrow> ring_config r = ring_config q"
  by (simp add: ring_config_def)

lemma after_push_inv:
  assumes "ring_inv r" "packet_ok p" "\<not> stale p r"
  shows "ring_inv (after_push p r)"
proof -
  let ?ps = "rr_packets r @ [p]"
  have c: "ring_config r" using assms(1) by (simp add: ring_inv_def)
  have s: "suffix (kept r ?ps) ?ps" by (rule kept_bounds)
  have "payload (kept r ?ps) < 2 ^ 64"
    using payload_snoc_small(1) [OF assms(1,2)] kept_bounds(2) [of r ?ps] by linarith
  moreover have "\<forall>q \<in> set (kept r ?ps). packet_ok q"
    using assms(1,2) set_mono_suffix [OF s] by (auto simp: ring_inv_def)
  moreover have "last (kept r ?ps) = p" if "kept r ?ps \<noteq> []"
    using s that by (metis last_appendR last_snoc suffix_def)
  moreover have "within_limits (after_push p r) = within_limits r" "ring_config (after_push p r) = ring_config r"
    by (rule within_limits_cong ring_config_cong; simp)+
  ultimately show ?thesis
    using c kept_props [OF c, of ?ps] timestamps_suffix [OF s timestamps_snoc [OF assms(1,3)]]
    by (simp add: ring_inv_def)
qed

lemma push_result_inv:
  assumes "ring_inv r" "packet_ok p"
  shows "ring_inv (fst (push_result p r))"
proof -
  have "ring_inv (r\<lparr>rr_last_timestamp_ns := l, rr_dropped_awaiting_keyframe := n\<rparr>)"
    if "rr_packets r = []" for l n
    using assms(1) that
    by (simp add: ring_inv_def within_limits_def ring_config_def)
  with assms after_push_inv show ?thesis by (simp add: push_result_def)
qed

lemma push_result_suffix:
  "push_result p r = (q, Inr u) \<Longrightarrow> suffix (rr_packets q) (rr_packets r @ [p])"
  "push_result p r = (q, Inl e) \<Longrightarrow> q = r"
  using kept_bounds(3) [of r "rr_packets r @ [p]"]
  by (auto simp: push_result_def simp del: suffix_snoc split: if_splits)

lemma reset_epoch_inv: "ring_inv r \<Longrightarrow> ring_inv (reset_epoch r)"
  by (simp add: ring_inv_def reset_epoch_def within_limits_def ring_config_def span_exceeds_def
      timestamps_increase_def)

interpretation ring: bounded_history rr_packets ring_inv packet_ok ring_push reset_epoch
proof unfold_locales
  fix r p q and u :: "replay_ring_error + replay_push_outcome"
  assume *: "ring_inv r" "packet_ok p"
  show "\<exists>t v. ring_push p r = Some (t, v)" by (simp add: ring_push_result [OF *])
  show "ring_inv q" if "ring_push p r = Some (q, u)"
    using that push_result_inv [OF *] by (simp add: ring_push_result [OF *])
  show "suffix (rr_packets q) (rr_packets r @ [p])" if "ring_push p r = Some (q, Inr v)" for v
    using that push_result_suffix(1) [of p r q v] by (simp add: ring_push_result [OF *])
  show "suffix (rr_packets q) (rr_packets r)" if "ring_push p r = Some (q, Inl e)" for e
    using that push_result_suffix(2) [of p r q e] by (simp add: ring_push_result [OF *])
qed (simp_all add: reset_epoch_inv, simp add: reset_epoch_def)

section \<open>Snapshots\<close>

lemma snapshot_loop_ring_with:
  assumes "timestamps_increase ps" "payload ps < 2 ^ 64"
  shows "snapshot_loop limit (ring_with r ps) n b =
    ring_with r (if span_exceeds ps limit
      then longest_suffix (\<lambda>qs. \<not> span_exceeds qs limit \<and> keyframe_start qs) ps else ps)"
  using assms
proof (induction "length ps" arbitrary: ps n b rule: less_induct)
  case less
  show ?case
  proof (cases "span_exceeds ps limit")
    case False
    then show ?thesis by (subst snapshot_loop.simps) simp
  next
    case True
    then obtain p qs where ps: "ps = p # qs" by (cases ps) (auto simp: span_exceeds_def)
    let ?P = "\<lambda>qs. \<not> span_exceeds qs limit \<and> keyframe_start qs"
    let ?ks = "longest_suffix keyframe_start qs"
    have s: "suffix ?ks qs" by (rule longest_suffix_suffix)
    have small: "payload ?ks < 2 ^ 64" "payload qs < 2 ^ 64"
      using less.prems(2) payload_suffix [OF s] by (auto simp: ps)
    have inc: "timestamps_increase ?ks"
      using less.prems(1) timestamps_suffix [OF s] by (simp add: ps timestamps_increase_def)
    have "snapshot_loop limit (ring_with r ps) n b = snapshot_loop limit (ring_with r ?ks)
        (sadd (sadd n 1) (length qs - length ?ks))
        (sadd (sadd b (length (pk_bytes p))) (payload qs - payload ?ks))"
      using True less.prems(2) small(2)
      by (subst snapshot_loop.simps)
        (simp add: ps evict_front_ring_with evict_non_keyframes_ring_with Let_def)
    also have "\<dots> = ring_with r (if span_exceeds ?ks limit then longest_suffix ?P ?ks else ?ks)"
      using less.hyps [OF _ inc small(1)] suffix_length_le [OF s] by (simp add: ps)
    also have "(if span_exceeds ?ks limit then longest_suffix ?P ?ks else ?ks) = longest_suffix ?P ?ks"
      using longest_suffix_holds [of keyframe_start qs] by (auto simp: longest_suffix_id)
    also have "longest_suffix ?P ?ks = longest_suffix ?P qs"
      by (rule longest_suffix_absorb) simp
    finally show ?thesis using True by (simp add: ps)
  qed
qed

lemma snapshot_packets:
  assumes "ring_inv r"
  shows "snapshot_for_duration d r = ring_with r (longest_suffix
    (\<lambda>qs. \<not> span_exceeds qs (saturating_mul (ucast (duration_seconds d)) NANOSECONDS_PER_SECOND)
       \<and> keyframe_start qs) (rr_packets r))"
proof -
  have "ring_with r (rr_packets r) = r" "timestamps_increase (rr_packets r)"
    "keyframe_start (rr_packets r)" "payload (rr_packets r) < 2 ^ 64"
    using assms unat_lt_2p [of "rr_stored_bytes r"] by (auto simp: ring_inv_def intro: ring_with_self)
  then show ?thesis
    using snapshot_loop_ring_with [of "rr_packets r" _ r 0 0]
    by (simp add: snapshot_for_duration_def longest_suffix_id)
qed

section \<open>Properties\<close>

text \<open>C2: A stored packet leaves the ring with the longest suffix of its history (the new packet
  included) that starts at a keyframe and meets the packet, byte and duration limits: no shorter
  history is kept, and the reported eviction counts are exact.\<close>

theorem push_keeps_longest_decodable_suffix:
  assumes "ring_inv r" "packet_ok p" "ring_push p r = Some (q, Inr (Stored n b))"
  shows "suffix (rr_packets q) (rr_packets r @ [p])
    \<and> within_limits r (rr_packets q) \<and> keyframe_start (rr_packets q)
    \<and> (\<forall>ps. suffix ps (rr_packets r @ [p]) \<and> within_limits r ps \<and> keyframe_start ps \<longrightarrow>
          suffix ps (rr_packets q))
    \<and> length (rr_packets r) + 1 = length (rr_packets q) + unat n
    \<and> payload (rr_packets r) + length (pk_bytes p) = payload (rr_packets q) + unat b"
proof -
  let ?ps = "rr_packets r @ [p]"
  have "push_result p r = (q, Inr (Stored n b))"
    using assms(3) by (simp add: ring_push_result [OF assms(1,2)])
  then have q: "rr_packets q = kept r ?ps" "n = word_of_nat (length ?ps - length (kept r ?ps))"
    "b = word_of_nat (payload ?ps - payload (kept r ?ps))"
    by (auto simp: push_result_def split: if_splits)
  have "unat n = length ?ps - length (kept r ?ps)"
    using payload_snoc_small(2) [OF assms(1,2)] by (simp add: q(2) unat_of_nat)
  moreover have "unat b = payload ?ps - payload (kept r ?ps)"
    using payload_snoc_small(1) [OF assms(1,2)] by (simp add: q(3) unat_of_nat)
  ultimately show ?thesis
    using kept_bounds [of r ?ps] kept_props [of r ?ps] assms(1)
      longest_suffix_maximal [of _ ?ps "\<lambda>qs. within_limits r qs \<and> keyframe_start qs"]
    by (simp add: q(1) ring_inv_def flip: kept_def del: suffix_snoc)
qed

definition sample_packet :: "u64 \<Rightarrow> bool \<Rightarrow> encoded_replay_packet" where
  "sample_packet t k = \<lparr>pk_timestamp_ns = t, pk_duration_ns = 16000000, pk_keyframe = k,
     pk_bytes = [1, 2, 3]\<rparr>"

definition sample_ring :: replay_ring where
  "sample_ring = ring_new default_replay_settings"

lemma sample_packet_ok: "packet_ok (sample_packet 1000 k)"
  by (simp add: packet_ok_iff sample_packet_def)

lemma sample_ring_inv: "ring_inv sample_ring"
  by (simp add: sample_ring_def ring_new_inv)

lemma sample_ring_fields: "rr_packets sample_ring = []" "rr_last_timestamp_ns sample_ring = None"
  by (simp_all add: sample_ring_def ring_new_def Let_def)

lemma sample_ring_limits: "rr_byte_limit sample_ring = 99000000"
  "rr_packet_limit sample_ring = 1800" "rr_duration_limit_ns sample_ring = 30000000000"
proof -
  have "bu_maximum_ring_bytes (budget_from_settings default_replay_settings) = 99000000"
    "bu_frame_capacity (budget_from_settings default_replay_settings) = 1800"
    by (simp_all add: word_eq_iff_unat budget_ring_bytes budget_frame_capacity default_replay_settings_def)
  then show "rr_byte_limit sample_ring = 99000000" "rr_packet_limit sample_ring = 1800"
    "rr_duration_limit_ns sample_ring = 30000000000"
    by (simp_all add: sample_ring_def ring_new_def Let_def MAX_IN_MEMORY_REPLAY_BYTES_def
        default_replay_settings_def saturating_mul_def NANOSECONDS_PER_SECOND_def)
qed

lemma sample_push: "ring_push (sample_packet 1000 True) sample_ring =
    Some (after_push (sample_packet 1000 True) sample_ring, Inr (Stored 0 0))"
proof -
  have k: "kept sample_ring [sample_packet 1000 True] = [sample_packet 1000 True]"
    by (simp add: kept_def within_limits_def sample_ring_limits sample_packet_def span_exceeds_def
        history_span_def saturating_sub_def saturating_add_def)
  have "length (pk_bytes (sample_packet 1000 True)) = 3" "pk_keyframe (sample_packet 1000 True)"
    by (simp_all add: sample_packet_def)
  then show ?thesis
    by (simp add: ring_push_result sample_ring_inv sample_packet_ok push_result_def stale_def
        sample_ring_fields k sample_ring_limits)
qed

theorem push_keeps_longest_decodable_suffix_witness:
  "ring_inv sample_ring \<and> packet_ok (sample_packet 1000 True)
   \<and> ring_push (sample_packet 1000 True) sample_ring =
       Some (after_push (sample_packet 1000 True) sample_ring, Inr (Stored 0 0))
   \<and> length (rr_packets (after_push (sample_packet 1000 True) sample_ring)) = 1"
  using push_keeps_longest_decodable_suffix [OF sample_ring_inv sample_packet_ok sample_push]
    sample_ring_inv sample_packet_ok sample_push sample_ring_fields by simp

text \<open>The ring as an event system: pushes of validated packets, resets and snapshots.\<close>

datatype ring_event = RingPush encoded_replay_packet | RingReset | RingSnapshot replay_duration

inductive ring_step :: "replay_ring \<Rightarrow> ring_event \<Rightarrow> replay_ring \<Rightarrow> bool" where
  step_push: "packet_ok p \<Longrightarrow> ring_push p r = Some (q, res) \<Longrightarrow> ring_step r (RingPush p) q"
| step_reset: "ring_step r RingReset (reset_epoch r)"
| step_snapshot: "ring_step r (RingSnapshot d) (snapshot_for_duration d r)"

inductive_cases ring_stepE: "ring_step r e q"

definition ring_init :: "replay_ring \<Rightarrow> bool" where
  "ring_init r \<longleftrightarrow> (\<exists>settings. r = ring_new settings)"

lemma snapshot_inv:
  assumes "ring_inv r"
  shows "ring_inv (snapshot_for_duration d r)"
proof -
  define limit :: u64 where
    "limit = saturating_mul (ucast (duration_seconds d)) NANOSECONDS_PER_SECOND"
  let ?P = "\<lambda>qs. \<not> span_exceeds qs limit \<and> keyframe_start qs"
  define ls where "ls = longest_suffix ?P (rr_packets r)"
  have s: "suffix ls (rr_packets r)" unfolding ls_def by (rule longest_suffix_suffix)
  have kf: "keyframe_start ls"
    unfolding ls_def using longest_suffix_holds [of ?P "rr_packets r"] by (simp add: span_exceeds_def)
  have small: "payload ls < 2 ^ 64"
    using assms payload_suffix [OF s] unat_lt_2p [of "rr_stored_bytes r"] by (simp add: ring_inv_def)
  have "last ls = last (rr_packets r)" "rr_packets r \<noteq> []" if "ls \<noteq> []"
    using s that by (auto simp: suffix_def)
  moreover have "\<forall>p \<in> set ls. packet_ok p"
    using assms set_mono_suffix [OF s] by (auto simp: ring_inv_def)
  moreover have "within_limits (ring_with r ls) ls"
    using assms within_limits_suffix [OF s] within_limits_cong [of "ring_with r ls" r]
    by (simp add: ring_inv_def)
  moreover have "ring_config (ring_with r ls)"
    using assms ring_config_cong [of "ring_with r ls" r] by (simp add: ring_inv_def)
  ultimately have "ring_inv (ring_with r ls)"
    using assms timestamps_suffix [OF s] kf small by (simp add: ring_inv_def)
  then show ?thesis by (simp add: snapshot_packets [OF assms] ls_def limit_def)
qed

interpretation ring_events: event_system ring_init ring_step ring_inv
  by unfold_locales
    (auto simp: ring_init_def ring_new_inv reset_epoch_inv snapshot_inv
      elim!: ring_stepE intro: ring.push_inv)

text \<open>C7: After any sequence of pushes, epoch resets and snapshots from a new ring: the history is
  empty or starts at a keyframe, timestamps strictly increase, the byte counter is exact and at
  most 256 MiB, and the span is within the configured duration.\<close>

theorem reachable_ring_is_bounded:
  assumes "reach ring_init ring_step r"
  shows "keyframe_start (rr_packets r) \<and> timestamps_increase (rr_packets r)
    \<and> unat (rr_stored_bytes r) = payload (rr_packets r) \<and> payload (rr_packets r) \<le> 256 * 1024 * 1024
    \<and> length (rr_packets r) \<le> unat (rr_packet_limit r)
    \<and> \<not> span_exceeds (rr_packets r) (rr_duration_limit_ns r)"
  using ring_events.inv_reach [OF assms] ring_config_nat [of r]
  by (fastforce simp: ring_inv_def within_limits_def)

theorem reachable_ring_is_bounded_witness:
  "reach ring_init ring_step (after_push (sample_packet 1000 True) sample_ring)
   \<and> keyframe_start (rr_packets (after_push (sample_packet 1000 True) sample_ring))"
proof -
  have "ring_init sample_ring" by (auto simp: ring_init_def sample_ring_def)
  then have "reach ring_init ring_step sample_ring" by (rule reach_init)
  then have "reach ring_init ring_step (after_push (sample_packet 1000 True) sample_ring)"
    by (rule reach_step) (rule step_push [OF sample_packet_ok sample_push])
  with reachable_ring_is_bounded [OF this] show ?thesis by blast
qed

text \<open>A recorder pushes packet after packet; a push that does not return stops it for good.\<close>

primrec push_all :: "encoded_replay_packet list \<Rightarrow> replay_ring \<Rightarrow> replay_ring option" where
  "push_all [] r = Some r"
| "push_all (p # ps) r = Option.bind (ring_push p r) (\<lambda>(q, _). push_all ps q)"

lemma push_all_ends:
  "ring_inv r \<Longrightarrow> \<forall>p \<in> set ps. packet_ok p \<Longrightarrow> \<exists>q. push_all ps r = Some q \<and> ring_inv q"
proof (induction ps arbitrary: r)
  case (Cons p ps)
  then have "ring_push p r = Some (push_result p r)" "ring_inv (fst (push_result p r))"
    using ring_push_result push_result_inv by simp_all
  with Cons show ?case by (simp add: case_prod_beta)
qed simp

text \<open>C8: The eviction loops of the ring end: from any reachable ring, every push of a sequence of
  validated packets returns, however long the sequence and whatever the limits. The loop of the
  source runs until no limit is exceeded and does not look at whether packets are left, so this
  rests on the configuration: an empty ring exceeds none.\<close>

theorem pushes_always_return:
  assumes "reach ring_init ring_step r" "\<forall>p \<in> set ps. packet_ok p"
  shows "\<exists>q. push_all ps r = Some q"
  using push_all_ends [OF ring_events.inv_reach [OF assms(1)] assms(2)] by blast

theorem pushes_always_return_witness:
  "\<exists>q. push_all (replicate 3 (sample_packet 1000 True)) sample_ring = Some q"
proof (rule pushes_always_return)
  show "reach ring_init ring_step sample_ring"
    by (rule reach_init) (auto simp: ring_init_def sample_ring_def)
qed (simp add: sample_packet_ok)

text \<open>A rejected push changes nothing, and the two errors are decided by the payload size
  against the byte limit first and the timestamp against the last accepted one second.\<close>

theorem push_error_iff:
  assumes "ring_inv r" "packet_ok p"
  shows "ring_push p r = Some (q, Inl e) \<longleftrightarrow> q = r
    \<and> (if length (pk_bytes p) > unat (rr_byte_limit r) then e = PacketExceedsRingBudget
       else (\<exists>prev. rr_last_timestamp_ns r = Some prev \<and> pk_timestamp_ns p \<le> prev)
            \<and> e = NonMonotonicTimestamp)"
  by (auto simp: ring_push_result [OF assms] push_result_def stale_def)

theorem push_error_iff_witness:
  "ring_push (sample_packet 1000 False) (after_push (sample_packet 1000 True) sample_ring) =
     Some (after_push (sample_packet 1000 True) sample_ring, Inl NonMonotonicTimestamp)"
proof -
  have "ring_inv (after_push (sample_packet 1000 True) sample_ring)"
    by (rule after_push_inv) (simp_all add: sample_ring_inv sample_packet_ok stale_def sample_ring_fields)
  from push_error_iff [OF this sample_packet_ok] show ?thesis
    by (simp add: sample_ring_limits) (simp add: sample_packet_def)
qed

text \<open>C4: A save snapshot holds the longest keyframe-started suffix of the history whose span is
  at most the requested duration, with an exact byte count; the limits and counters are copied.\<close>

theorem snapshot_is_longest_recent_suffix:
  assumes "ring_inv r"
  shows "let limit = saturating_mul (ucast (duration_seconds d)) NANOSECONDS_PER_SECOND;
             q = snapshot_for_duration d r
    in suffix (rr_packets q) (rr_packets r)
    \<and> keyframe_start (rr_packets q) \<and> \<not> span_exceeds (rr_packets q) limit
    \<and> (\<forall>ps. suffix ps (rr_packets r) \<and> keyframe_start ps \<and> \<not> span_exceeds ps limit \<longrightarrow>
          suffix ps (rr_packets q))
    \<and> q = r\<lparr>rr_packets := rr_packets q, rr_stored_bytes := word_of_nat (payload (rr_packets q))\<rparr>"
proof -
  define limit :: u64 where
    "limit = saturating_mul (ucast (duration_seconds d)) NANOSECONDS_PER_SECOND"
  let ?P = "\<lambda>qs. \<not> span_exceeds qs limit \<and> keyframe_start qs"
  let ?ls = "longest_suffix ?P (rr_packets r)"
  have q: "snapshot_for_duration d r = ring_with r ?ls"
    by (simp add: limit_def snapshot_packets [OF assms(1)])
  have "?P ?ls" by (rule longest_suffix_holds) (simp add: span_exceeds_def)
  moreover have "\<forall>ps. suffix ps (rr_packets r) \<and> keyframe_start ps \<and> \<not> span_exceeds ps limit \<longrightarrow>
      suffix ps ?ls"
    using longest_suffix_maximal [of _ "rr_packets r" ?P] by blast
  ultimately show ?thesis
    unfolding Let_def q limit_def [symmetric]
    by (simp add: longest_suffix_suffix) (simp add: ring_with_def)
qed

theorem snapshot_is_longest_recent_suffix_witness:
  "rr_packets (snapshot_for_duration Seconds15 (after_push (sample_packet 1000 True) sample_ring))
   = [sample_packet 1000 True]"
proof -
  have i: "ring_inv (after_push (sample_packet 1000 True) sample_ring)"
    by (rule after_push_inv) (simp_all add: sample_ring_inv sample_packet_ok stale_def sample_ring_fields)
  have p: "rr_packets (after_push (sample_packet 1000 True) sample_ring) = [sample_packet 1000 True]"
    by (simp add: sample_ring_fields kept_def within_limits_def sample_ring_limits sample_packet_def
        span_exceeds_def history_span_def saturating_sub_def saturating_add_def)
  have "keyframe_start [sample_packet 1000 True]
    \<and> \<not> span_exceeds [sample_packet 1000 True]
        (saturating_mul (ucast (duration_seconds Seconds15)) NANOSECONDS_PER_SECOND)"
    by (simp add: sample_packet_def span_exceeds_def history_span_def saturating_sub_def
        saturating_add_def saturating_mul_def NANOSECONDS_PER_SECOND_def)
  with snapshot_is_longest_recent_suffix [OF i, of Seconds15] show ?thesis
    by (metis p suffix_order.antisym suffix_order.refl)
qed

end
