(* ===== verification/Video_Stream.thy ===== *)
theory Video_Stream
  imports Replay_Ring Capture_Protocol
begin

text \<open>
  Encoder-side data of \<open>redunar-daemon/src/replay_encoder.rs\<close>: the video stream description and
  its codec headers, the DMA-BUF input frame, the bounded packet batch and the hardware result,
  and the validators of packet framing and decoder configuration. A file descriptor is an \<open>int\<close>.
\<close>

section \<open>Errors and constants\<close>

datatype replay_encoder_error = InvalidStream | InvalidCodecHeaders | InvalidDmaBufFrame
  | InvalidPacketFraming | PacketBatchExceeded | PacketError replay_packet_error
  | RingError replay_ring_error | InvalidLifecycle | InvalidInputCompletion | BackendFailed string

definition MAX_DMABUF_PLANES :: nat where "MAX_DMABUF_PLANES = 4"
definition MAX_DMABUF_OBJECTS :: nat where "MAX_DMABUF_OBJECTS = 4"
definition MAX_CODEC_PRIVATE_BYTES :: nat where "MAX_CODEC_PRIVATE_BYTES = 64 * 1024"
definition MAX_PACKETS_PER_FRAME :: nat where "MAX_PACKETS_PER_FRAME = 8"
definition MAX_ENCODED_BYTES_PER_FRAME :: nat where "MAX_ENCODED_BYTES_PER_FRAME = 8 * 1024 * 1024"
definition MAX_HARDWARE_INPUTS_IN_FLIGHT :: nat where
  "MAX_HARDWARE_INPUTS_IN_FLIGHT = REPLAY_ENCODER_PIPELINE_DEPTH"

definition DRM_FORMAT_R8G8B8A8 :: u32 where "DRM_FORMAT_R8G8B8A8 = u32_from_le_bytes (ascii ''RA24'')"
definition DRM_FORMAT_B8G8R8A8 :: u32 where "DRM_FORMAT_B8G8R8A8 = u32_from_le_bytes (ascii ''BA24'')"
definition DRM_FORMAT_A2B10G10R10 :: u32 where "DRM_FORMAT_A2B10G10R10 = u32_from_le_bytes (ascii ''AB30'')"
definition DRM_FORMAT_A2R10G10B10 :: u32 where "DRM_FORMAT_A2R10G10B10 = u32_from_le_bytes (ascii ''AR30'')"
definition DRM_FORMAT_XRGB8888 :: u32 where "DRM_FORMAT_XRGB8888 = u32_from_le_bytes (ascii ''XR24'')"
definition DRM_FORMAT_ARGB8888 :: u32 where "DRM_FORMAT_ARGB8888 = u32_from_le_bytes (ascii ''AR24'')"
definition DRM_FORMAT_XBGR8888 :: u32 where "DRM_FORMAT_XBGR8888 = u32_from_le_bytes (ascii ''XB24'')"
definition DRM_FORMAT_ABGR8888 :: u32 where "DRM_FORMAT_ABGR8888 = u32_from_le_bytes (ascii ''AB24'')"

section \<open>Packet framing and codec headers\<close>

text \<open>The \<open>while\<close> loop of \<open>validate_h264_packet\<close> with its saturating unit counter.\<close>

function h264_units_loop :: "u8 list \<Rightarrow> u8 \<Rightarrow> replay_encoder_error + u8" where
  "h264_units_loop remaining units =
     (if remaining = [] then Inr units
      else if length remaining < 4 then Inl InvalidPacketFraming
      else
        let len = unat (u32_from_be_bytes (take 4 remaining))
        in if len = 0 \<or> length remaining < 4 + len then Inl InvalidPacketFraming
           else h264_units_loop (drop (4 + len) remaining) (saturating_add units 1))"
  by pat_completeness auto
termination
  by (relation "measure (\<lambda>(remaining, units). length remaining)") auto

declare h264_units_loop.simps [simp del]

definition validate_h264_packet :: "u8 list \<Rightarrow> replay_encoder_error + unit" where
  "validate_h264_packet packet =
     and_then (h264_units_loop packet 0)
       (\<lambda>units. if units = 0 then Inl InvalidPacketFraming else Inr ())"

definition skip_avc_parameter_set :: "u8 list \<Rightarrow> nat \<Rightarrow> replay_encoder_error + nat" where
  "skip_avc_parameter_set data offset =
     (if offset + 2 > length data then Inl InvalidStream
      else
        let len = unat (u16_from_be_bytes (slice offset 2 data))
        in if len = 0 then Inl InvalidStream
           else if offset + 2 + len \<le> length data then Inr (offset + 2 + len)
           else Inl InvalidStream)"

text \<open>\<open>for _ in 0..count { offset = skip(...)? }\<close>.\<close>

fun skip_avc_parameter_sets :: "nat \<Rightarrow> u8 list \<Rightarrow> nat \<Rightarrow> replay_encoder_error + nat" where
  "skip_avc_parameter_sets 0 data offset = Inr offset"
| "skip_avc_parameter_sets (Suc n) data offset =
     and_then (skip_avc_parameter_set data offset) (skip_avc_parameter_sets n data)"

definition validate_avc_decoder_configuration :: "u8 list \<Rightarrow> replay_encoder_error + unit" where
  "validate_avc_decoder_configuration data =
     (if length data < 7 \<or> data ! 0 \<noteq> 1 \<or> data ! 4 AND 3 \<noteq> 3 then Inl InvalidStream
      else
        let sequence_count = unat (data ! 5 AND 0x1f)
        in if sequence_count = 0 then Inl InvalidStream
           else and_then (skip_avc_parameter_sets sequence_count data 6) (\<lambda>offset.
             if \<not> offset < length data then Inl InvalidStream
             else
               let picture_count = unat (data ! offset); offset = offset + 1
               in if picture_count = 0 then Inl InvalidStream
                  else and_then (skip_avc_parameter_sets picture_count data offset) (\<lambda>offset.
                    if offset > length data then Inl InvalidStream else Inr ())))"

definition validate_av1_codec_configuration :: "u8 list \<Rightarrow> replay_encoder_error + unit" where
  "validate_av1_codec_configuration data =
     (if length data < 4 \<or> data ! 0 \<noteq> 0x81 then Inl InvalidStream else Inr ())"

section \<open>Streams\<close>

datatype replay_video_codec = H264 | Av1
datatype replay_packet_format = H264LengthPrefixed4 | Av1Obu

primrec matroska_codec_id :: "replay_video_codec \<Rightarrow> u8 list" where
  "matroska_codec_id H264 = ascii ''V_MPEG4/ISO/AVC''"
| "matroska_codec_id Av1 = ascii ''V_AV1''"

record replay_video_stream =
  vs_codec :: replay_video_codec
  vs_packet_format :: replay_packet_format
  vs_width :: u32
  vs_height :: u32
  vs_frames_per_second :: u8
  vs_codec_private :: "u8 list"

definition video_stream_new :: "replay_video_codec \<Rightarrow> replay_packet_format \<Rightarrow> u32 \<Rightarrow> u32 \<Rightarrow> u8 \<Rightarrow> u8 list \<Rightarrow>
    replay_encoder_error + replay_video_stream" where
  "video_stream_new codec packet_format width height fps codec_private =
     (if \<not> replay_source_dimensions_supported width height then Inl InvalidStream
      else if \<not> ((fps = 30 \<or> fps = 60 \<or> fps = 120) \<or> codec = H264 \<and> 1 \<le> fps \<and> fps \<le> 240)
      then Inl InvalidStream
      else if length codec_private > MAX_CODEC_PRIVATE_BYTES then Inl InvalidStream
      else
        and_then
          (case (codec, packet_format) of
             (H264, H264LengthPrefixed4) \<Rightarrow> validate_avc_decoder_configuration codec_private
           | (Av1, Av1Obu) \<Rightarrow> validate_av1_codec_configuration codec_private
           | _ \<Rightarrow> Inl InvalidStream)
          (\<lambda>_. Inr \<lparr>vs_codec = codec, vs_packet_format = packet_format, vs_width = width,
                   vs_height = height, vs_frames_per_second = fps, vs_codec_private = codec_private\<rparr>))"

definition validate_packet :: "replay_video_stream \<Rightarrow> u8 list \<Rightarrow> replay_encoder_error + unit" where
  "validate_packet stream packet = (case vs_packet_format stream of
       H264LengthPrefixed4 \<Rightarrow> validate_h264_packet packet
     | Av1Obu \<Rightarrow> if packet = [] then Inl InvalidPacketFraming else Inr ())"

section \<open>Input frames\<close>

record dma_buf_plane =
  pl_offset :: u32
  pl_stride :: u32

record dma_buf_image_plane =
  ip_object_index :: u8
  ip_offset :: u32
  ip_stride :: u32

record dma_buf_replay_frame =
  df_gpu_identity :: "capture_gpu_identity option"
  df_objects :: "int list"
  df_width :: u32
  df_height :: u32
  df_drm_fourcc :: u32
  df_modifier :: u64
  df_timestamp_ns :: u64
  df_duration_ns :: u64
  df_planes :: "dma_buf_image_plane list"

definition with_gpu_identity :: "capture_gpu_identity option \<Rightarrow> dma_buf_replay_frame \<Rightarrow> dma_buf_replay_frame" where
  "with_gpu_identity identity f = f\<lparr>df_gpu_identity := identity\<rparr>"

definition frame_new_multi_object :: "int list \<Rightarrow> u32 \<Rightarrow> u32 \<Rightarrow> u32 \<Rightarrow> u64 \<Rightarrow> u64 \<Rightarrow> u64 \<Rightarrow>
    dma_buf_image_plane list \<Rightarrow> replay_encoder_error + dma_buf_replay_frame" where
  "frame_new_multi_object objects width height drm_fourcc modifier timestamp_ns duration_ns planes =
     (if \<not> replay_source_dimensions_supported width height \<or> drm_fourcc = 0 \<or> duration_ns = 0
         \<or> duration_ns > NANOSECONDS_PER_SECOND \<or> checked_add timestamp_ns duration_ns = None
         \<or> objects = [] \<or> length objects > MAX_DMABUF_OBJECTS
         \<or> planes = [] \<or> length planes > MAX_DMABUF_PLANES
         \<or> drm_fourcc \<notin> {DRM_FORMAT_R8G8B8A8, DRM_FORMAT_B8G8R8A8, DRM_FORMAT_A2B10G10R10,
              DRM_FORMAT_A2R10G10B10, DRM_FORMAT_XRGB8888, DRM_FORMAT_ARGB8888, DRM_FORMAT_XBGR8888,
              DRM_FORMAT_ABGR8888}
         \<or> list_ex (\<lambda>plane. unat (ip_object_index plane) \<ge> length objects
              \<or> ip_stride plane < saturating_mul width 4
              \<or> ip_offset plane > saturating_mul (saturating_mul width height) 4) planes
      then Inl InvalidDmaBufFrame
      else Inr \<lparr>df_gpu_identity = None, df_objects = objects, df_width = width, df_height = height,
             df_drm_fourcc = drm_fourcc, df_modifier = modifier, df_timestamp_ns = timestamp_ns,
             df_duration_ns = duration_ns, df_planes = planes\<rparr>)"

definition frame_new :: "int \<Rightarrow> u32 \<Rightarrow> u32 \<Rightarrow> u32 \<Rightarrow> u64 \<Rightarrow> u64 \<Rightarrow> u64 \<Rightarrow>
    dma_buf_plane list \<Rightarrow> replay_encoder_error + dma_buf_replay_frame" where
  "frame_new fd width height drm_fourcc modifier timestamp_ns duration_ns planes =
     (if \<not> replay_source_dimensions_supported width height \<or> drm_fourcc = 0 \<or> duration_ns = 0
         \<or> duration_ns > NANOSECONDS_PER_SECOND \<or> checked_add timestamp_ns duration_ns = None
         \<or> planes = [] \<or> length planes > MAX_DMABUF_PLANES
         \<or> drm_fourcc \<notin> {DRM_FORMAT_R8G8B8A8, DRM_FORMAT_B8G8R8A8, DRM_FORMAT_A2B10G10R10,
              DRM_FORMAT_A2R10G10B10}
         \<or> list_ex (\<lambda>plane. pl_stride plane < saturating_mul width 4
              \<or> pl_offset plane > saturating_mul (saturating_mul width height) 4) planes
      then Inl InvalidDmaBufFrame
      else frame_new_multi_object [fd] width height drm_fourcc modifier timestamp_ns duration_ns
             (map (\<lambda>plane. \<lparr>ip_object_index = 0, ip_offset = pl_offset plane, ip_stride = pl_stride plane\<rparr>)
                planes))"

definition frame_planes :: "dma_buf_replay_frame \<Rightarrow> dma_buf_plane list" where
  "frame_planes f = map (\<lambda>plane. \<lparr>pl_offset = ip_offset plane, pl_stride = ip_stride plane\<rparr>) (df_planes f)"

section \<open>Batches and hardware results\<close>

type_synonym encoded_packet_batch = "encoded_replay_packet list"

fun batch_loop :: "encoded_replay_packet list \<Rightarrow> nat \<Rightarrow> u64 option \<Rightarrow> replay_encoder_error + unit" where
  "batch_loop [] sum_bytes last_timestamp = Inr ()"
| "batch_loop (packet # rest) sum_bytes last_timestamp =
     (let sum_bytes = sum_bytes + length (pk_bytes packet)
      in if \<not> sum_bytes < 2 ^ 64 then Inl PacketBatchExceeded
         else if sum_bytes > MAX_ENCODED_BYTES_PER_FRAME
            \<or> (case last_timestamp of None \<Rightarrow> False | Some t \<Rightarrow> pk_timestamp_ns packet \<le> t)
         then Inl PacketBatchExceeded
         else batch_loop rest sum_bytes (Some (pk_timestamp_ns packet)))"

definition packet_batch_new :: "encoded_replay_packet list \<Rightarrow> replay_encoder_error + encoded_packet_batch" where
  "packet_batch_new packets =
     (if length packets > MAX_PACKETS_PER_FRAME then Inl PacketBatchExceeded
      else and_then (batch_loop packets 0 None) (\<lambda>_. Inr packets))"

record hardware_encode_output =
  ho_batch :: encoded_packet_batch
  ho_completed_inputs :: "u64 list"

definition hardware_output_new :: "encoded_packet_batch \<Rightarrow> u64 list \<Rightarrow>
    replay_encoder_error + hardware_encode_output" where
  "hardware_output_new batch completed_inputs =
     (if length completed_inputs > MAX_HARDWARE_INPUTS_IN_FLIGHT \<or> 0 \<in> set completed_inputs
         \<or> (\<exists>index < length completed_inputs.
              completed_inputs ! index \<in> set (take index completed_inputs))
      then Inl InvalidInputCompletion
      else Inr \<lparr>ho_batch = batch, ho_completed_inputs = completed_inputs\<rparr>)"

section \<open>Length-prefixed framing as a codec\<close>

text \<open>One AVC unit on the wire, and how it is taken off the front.\<close>

definition avc_unit :: "u8 list \<Rightarrow> u8 list" where
  "avc_unit u = u32_to_be_bytes (word_of_nat (length u)) @ u"

definition avc_unit_ok :: "u8 list \<Rightarrow> bool" where
  "avc_unit_ok u \<longleftrightarrow> u \<noteq> [] \<and> length u < 2 ^ 32"

definition take_avc_unit :: "u8 list \<Rightarrow> (u8 list \<times> u8 list) option" where
  "take_avc_unit bs = (let n = unat (u32_from_be_bytes (take 4 bs))
     in if length bs < 4 \<or> n = 0 \<or> length bs < 4 + n then None
        else Some (slice 4 n bs, drop (4 + n) bs))"

lemma take_avc_unit_avc_unit: "avc_unit_ok u \<Longrightarrow> take_avc_unit (avc_unit u @ rest) = Some (u, rest)"
  by (auto simp: take_avc_unit_def avc_unit_def avc_unit_ok_def Let_def unat_of_nat slice_def)

interpretation avc: prefix_codec avc_unit take_avc_unit avc_unit_ok
proof unfold_locales
  show "take_avc_unit (avc_unit u @ rest) = Some (u, rest)" if "avc_unit_ok u" for u rest
    using that by (rule take_avc_unit_avc_unit)
  show "avc_unit u \<noteq> []" if "avc_unit_ok u" for u
    using that by (simp add: avc_unit_def avc_unit_ok_def)
qed

lemma h264_loop_units:
  "(\<forall>u \<in> set us. avc_unit_ok u) \<Longrightarrow> h264_units_loop (concat (map avc_unit us)) n = Inr (sadd n (length us))"
proof (induction us arbitrary: n)
  case Nil
  then show ?case by (subst h264_units_loop.simps) simp
next
  case (Cons u us)
  have "h264_units_loop (avc_unit u @ concat (map avc_unit us)) n
      = h264_units_loop (concat (map avc_unit us)) (saturating_add n 1)"
    using Cons.prems by (subst h264_units_loop.simps) (auto simp: avc_unit_def avc_unit_ok_def Let_def unat_of_nat)
  with Cons show ?case by (simp add: saturating_add_sadd)
qed

lemma h264_loop_complete:
  "h264_units_loop bs n = Inr k \<Longrightarrow> \<exists>us. bs = concat (map avc_unit us) \<and> (\<forall>u \<in> set us. avc_unit_ok u)"
proof (induction bs n rule: h264_units_loop.induct)
  case (1 bs n)
  show ?case
  proof (cases "bs = []")
    case True
    then show ?thesis by (intro exI [of _ "[]"]) simp
  next
    case False
    define len where "len = unat (u32_from_be_bytes (take 4 bs))"
    have "(if length bs < 4 then Inl InvalidPacketFraming
        else if len = 0 \<or> length bs < 4 + len then Inl InvalidPacketFraming
        else h264_units_loop (drop (4 + len) bs) (saturating_add n 1)) = Inr k"
      using 1(2) False by (simp only: h264_units_loop.simps [of bs n] Let_def len_def if_False)
    then have c: "\<not> length bs < 4" "\<not> (len = 0 \<or> length bs < 4 + len)"
      "h264_units_loop (drop (4 + len) bs) (saturating_add n 1) = Inr k"
      by (metis Inl_Inr_False)+
    then obtain us where us: "drop (4 + len) bs = concat (map avc_unit us)" "\<forall>u \<in> set us. avc_unit_ok u"
      using 1(1) [OF False c(1) len_def c(2) c(3)] by (elim exE conjE)
    let ?u = "slice 4 len bs"
    have u: "avc_unit_ok ?u" "length ?u = len"
      using c unat_lt_2p [of "u32_from_be_bytes (take 4 bs)"]
      by (auto simp: avc_unit_ok_def len_def slice_def)
    have "be_nat 4 (nat_of_be (take 4 bs)) = take 4 bs"
      using be_nat_nat_of_be [of "take 4 bs"] c(1) by (simp add: min_absorb2)
    then have "avc_unit ?u = take 4 bs @ ?u"
      using u(2) nat_of_be_bound [of "take 4 bs"] c(1)
      by (simp add: avc_unit_def u32_to_be_bytes_def len_def u32_from_be_bytes_def unat_of_nat)
    moreover have "bs = take 4 bs @ ?u @ drop (4 + len) bs"
      by (simp add: slice_def) (metis append_take_drop_id drop_drop add.commute)
    ultimately have "bs = concat (map avc_unit (?u # us))" using us(1) by simp
    with us(2) u(1) show ?thesis by (intro exI [of _ "?u # us"]) simp
  qed
qed

lemma validate_h264_packet_iff:
  "validate_h264_packet bs = Inr () \<longleftrightarrow>
     (\<exists>us. us \<noteq> [] \<and> (\<forall>u \<in> set us. avc_unit_ok u) \<and> bs = concat (map avc_unit us))"
proof
  assume "validate_h264_packet bs = Inr ()"
  then obtain k where k: "h264_units_loop bs 0 = Inr k" "k \<noteq> 0"
    by (auto simp: validate_h264_packet_def and_then_Inr split: if_splits)
  then obtain us where us: "bs = concat (map avc_unit us)" "\<forall>u \<in> set us. avc_unit_ok u"
    using h264_loop_complete by blast
  with k h264_loop_units [OF us(2), of 0] have "us \<noteq> []" by auto
  with us show "\<exists>us. us \<noteq> [] \<and> (\<forall>u \<in> set us. avc_unit_ok u) \<and> bs = concat (map avc_unit us)" by blast
next
  assume "\<exists>us. us \<noteq> [] \<and> (\<forall>u \<in> set us. avc_unit_ok u) \<and> bs = concat (map avc_unit us)"
  then obtain us where us: "us \<noteq> []" "\<forall>u \<in> set us. avc_unit_ok u" "bs = concat (map avc_unit us)" by blast
  then have "sadd (0 :: u8) (length us) \<noteq> 0"
    by (simp add: word_eq_iff_unat unat_sadd)
  with us h264_loop_units [OF us(2), of 0] show "validate_h264_packet bs = Inr ()"
    by (simp add: validate_h264_packet_def)
qed

section \<open>Properties\<close>

text \<open>A packet passes the H.264 framing check exactly when it is a non-empty sequence of
  non-empty units, each behind its 32-bit big-endian length, with nothing left over.\<close>

theorem h264_packet_framing:
  "validate_h264_packet bs = Inr () \<longleftrightarrow>
     (\<exists>us. us \<noteq> [] \<and> (\<forall>u \<in> set us. avc_unit_ok u) \<and> bs = concat (map avc_unit us)
        \<and> decode_all take_avc_unit bs = Some us)"
  unfolding validate_h264_packet_iff using avc.decode_all_concat by metis

theorem h264_packet_framing_witness:
  "validate_h264_packet [0, 0, 0, 1, 9, 0, 0, 0, 2, 7, 7] = Inr ()"
proof -
  let ?us = "[[9], [7, 7]] :: u8 list list"
  have eq: "concat (map avc_unit ?us) = [0, 0, 0, 1, 9, 0, 0, 0, 2, 7, 7]"
    by (simp add: avc_unit_def u32_to_be_bytes_def be_nat_4)
  have ok: "\<forall>u \<in> set ?us. avc_unit_ok u" by (simp add: avc_unit_ok_def)
  have "\<exists>us. us \<noteq> [] \<and> (\<forall>u \<in> set us. avc_unit_ok u) \<and> concat (map avc_unit ?us) = concat (map avc_unit us)
      \<and> decode_all take_avc_unit (concat (map avc_unit ?us)) = Some us"
    by (rule exI [of _ ?us]) (use ok avc.decode_all_concat [OF ok] in \<open>simp only: list.distinct simp_thms\<close>)
  then have "validate_h264_packet (concat (map avc_unit ?us)) = Inr ()"
    unfolding h264_packet_framing .
  then show ?thesis unfolding eq .
qed

lemma hardware_output_new_iff:
  "hardware_output_new b cs = Inr out \<longleftrightarrow> length cs \<le> 4 \<and> 0 \<notin> set cs \<and> distinct cs
     \<and> out = \<lparr>ho_batch = b, ho_completed_inputs = cs\<rparr>"
proof -
  have "(\<exists>i < length cs. cs ! i \<in> set (take i cs)) \<longleftrightarrow> \<not> distinct cs"
    by (induction cs rule: rev_induct) (auto simp: less_Suc_eq nth_append)
  then show ?thesis
    by (auto simp: hardware_output_new_def MAX_HARDWARE_INPUTS_IN_FLIGHT_def REPLAY_ENCODER_PIPELINE_DEPTH_def)
qed

lemma batch_loop_iff:
  "batch_loop ps n t = Inr () \<longleftrightarrow>
     (ps \<noteq> [] \<longrightarrow> n + payload ps \<le> 8388608
        \<and> (case t of None \<Rightarrow> True | Some t \<Rightarrow> t < pk_timestamp_ns (hd ps)))
     \<and> timestamps_increase ps"
proof (induction ps arbitrary: n t)
  case Nil
  then show ?case by (simp add: timestamps_increase_def)
next
  case (Cons p ps)
  have inc: "timestamps_increase (p # ps) \<longleftrightarrow> (ps \<noteq> [] \<longrightarrow> pk_timestamp_ns p < pk_timestamp_ns (hd ps)) \<and> timestamps_increase ps"
    by (cases ps) (auto simp: timestamps_increase_def)
  have one: "timestamps_increase [p]" by (simp add: timestamps_increase_def)
  have small: "n + length (pk_bytes p) \<le> 8388608 \<Longrightarrow> n + length (pk_bytes p) < 2 ^ 64" by simp
  show ?case
    by (cases "ps = []"; cases t)
      (auto simp: Cons.IH inc one Let_def MAX_ENCODED_BYTES_PER_FRAME_def not_le split: if_splits)
qed

lemma packet_batch_new_iff:
  "packet_batch_new ps = Inr b \<longleftrightarrow> b = ps \<and> length ps \<le> 8 \<and> payload ps \<le> 8388608 \<and> timestamps_increase ps"
  by (auto simp: packet_batch_new_def and_then_Inr batch_loop_iff MAX_PACKETS_PER_FRAME_def)

text \<open>One hardware result is bounded: a batch is accepted exactly when it has at most 8 packets
  and 8 MiB and strictly increasing timestamps, a completion list exactly when it has at most four
  distinct non-zero tokens.\<close>

theorem hardware_result_bounds:
  "(packet_batch_new ps = Inr b \<longleftrightarrow>
      b = ps \<and> length ps \<le> 8 \<and> payload ps \<le> 8 * 1024 * 1024 \<and> timestamps_increase ps)
   \<and> (hardware_output_new b cs = Inr out \<longleftrightarrow>
      length cs \<le> 4 \<and> 0 \<notin> set cs \<and> distinct cs \<and> out = \<lparr>ho_batch = b, ho_completed_inputs = cs\<rparr>)"
  by (simp add: packet_batch_new_iff hardware_output_new_iff)

lemma dimensions_pixels:
  assumes "replay_source_dimensions_supported w h"
  shows "0 < unat w" "0 < unat h" "unat w \<le> 8192" "unat h \<le> 8192" "unat w * unat h \<le> 8294400"
proof -
  show *: "0 < unat w" "0 < unat h" "unat w \<le> 8192" "unat h \<le> 8192"
    using assms by (auto simp: replay_source_dimensions_supported_def MAX_REPLAY_SOURCE_WIDTH_def
        MAX_REPLAY_SOURCE_HEIGHT_def word_le_nat_alt unat_gt_0)
  have "unat w * unat h \<le> 8192 * 8192" using * by (intro mult_le_mono)
  then have "unat ((ucast w :: u64) * ucast h) = unat w * unat h"
    by (simp add: unat_word_ariths unat_ucast_widen)
  with assms show "unat w * unat h \<le> 8294400"
    by (simp add: replay_source_dimensions_supported_def word_le_nat_alt MAX_REPLAY_SOURCE_PIXELS_def)
qed

text \<open>An accepted single-object input frame keeps its planes and its descriptor, its time does
  not overflow, and every plane holds full rows and starts inside the unpadded image, which is at
  most 4K.\<close>

theorem frame_new_is_bounded:
  assumes "frame_new fd w h fourcc modifier t d planes = Inr f"
  shows "df_objects f = [fd] \<and> frame_planes f = planes
    \<and> unat t + unat d < 2 ^ 64 \<and> 0 < unat d \<and> unat d \<le> 1000000000
    \<and> unat w * unat h \<le> 3840 * 2160
    \<and> (\<forall>p \<in> set planes. 4 * unat w \<le> unat (pl_stride p) \<and> unat (pl_offset p) \<le> 4 * unat w * unat h)
    \<and> (\<forall>p \<in> set (df_planes f). unat (ip_object_index p) < length (df_objects f))"
proof -
  from assms have dims: "replay_source_dimensions_supported w h" and t: "checked_add t d \<noteq> None"
    "d \<noteq> 0" "\<not> d > NANOSECONDS_PER_SECOND"
    and pl: "\<not> list_ex (\<lambda>plane. pl_stride plane < saturating_mul w 4
              \<or> pl_offset plane > saturating_mul (saturating_mul w h) 4) planes"
    by (auto simp: frame_new_def split: if_splits)
  from assms have f: "f = \<lparr>df_gpu_identity = None, df_objects = [fd], df_width = w, df_height = h,
      df_drm_fourcc = fourcc, df_modifier = modifier, df_timestamp_ns = t, df_duration_ns = d,
      df_planes = map (\<lambda>plane. \<lparr>ip_object_index = 0, ip_offset = pl_offset plane,
        ip_stride = pl_stride plane\<rparr>) planes\<rparr>"
    by (auto simp: frame_new_def frame_new_multi_object_def split: if_splits)
  have sat: "unat (saturating_mul w 4) = 4 * unat w"
    "unat (saturating_mul (saturating_mul w h) 4) = 4 * unat w * unat h"
    using dimensions_pixels [OF dims] by (auto simp: unat_saturating_mul)
  have "frame_planes f = planes" by (simp add: frame_planes_def f comp_def map_idI)
  with t pl dimensions_pixels [OF dims] show ?thesis
    by (auto simp: f list_ex_iff word_less_nat_alt sat not_less checked_add_None unat_gt_0
        NANOSECONDS_PER_SECOND_def word_le_nat_alt)
qed

theorem frame_new_is_bounded_witness:
  "\<exists>f. frame_new 5 16 16 DRM_FORMAT_R8G8B8A8 0 1000 16000000 [\<lparr>pl_offset = 0, pl_stride = 64\<rparr>] = Inr f
     \<and> frame_planes f = [\<lparr>pl_offset = 0, pl_stride = 64\<rparr>]"
proof -
  have "is_ok (frame_new 5 16 16 DRM_FORMAT_R8G8B8A8 0 1000 16000000 [\<lparr>pl_offset = 0, pl_stride = 64\<rparr>])"
    by (simp add: frame_new_def frame_new_multi_object_def replay_source_dimensions_supported_def
        MAX_REPLAY_SOURCE_WIDTH_def MAX_REPLAY_SOURCE_HEIGHT_def MAX_REPLAY_SOURCE_PIXELS_def div_ceil_def
        NANOSECONDS_PER_SECOND_def checked_add_def MAX_DMABUF_PLANES_def MAX_DMABUF_OBJECTS_def
        saturating_mul_def DRM_FORMAT_R8G8B8A8_def u32_from_le_bytes_def ascii_def nat_of_be_def)
  then obtain f where "frame_new 5 16 16 DRM_FORMAT_R8G8B8A8 0 1000 16000000
      [\<lparr>pl_offset = 0, pl_stride = 64\<rparr>] = Inr f" by (auto simp: is_ok_iff)
  with frame_new_is_bounded [OF this] show ?thesis by blast
qed

end
