(* ===== verification/Packet_Flow.thy ===== *)
theory Packet_Flow
  imports Video_Stream
begin

text \<open>
  \<open>ReplayPacketFlow\<close> of \<open>redunar-daemon/src/replay_encoder.rs\<close>: the bridge from bounded encoder
  batches into the ring. It relies on the ring only through the bounded-history interface; its
  own invariant says that a stored history belongs to the current stream.
\<close>

datatype replay_packet_flow_phase = Running | ResetRequired | FlowFailed | Shutdown

record replay_packet_flow =
  pf_stream :: replay_video_stream
  pf_ring :: replay_ring
  pf_phase :: replay_packet_flow_phase

definition flow_new :: "replay_settings \<Rightarrow> replay_video_stream \<Rightarrow> replay_packet_flow" where
  "flow_new settings stream = \<lparr>pf_stream = stream, pf_ring = ring_new settings, pf_phase = Running\<rparr>"

definition fail_closed :: "replay_packet_flow \<Rightarrow> replay_packet_flow" where
  "fail_closed f = f\<lparr>pf_ring := reset_epoch (pf_ring f), pf_phase := FlowFailed\<rparr>"

fun push_packets :: "encoded_replay_packet list \<Rightarrow> replay_ring \<Rightarrow> replay_push_outcome list \<Rightarrow>
    (replay_ring \<times> (replay_ring_error + replay_push_outcome list)) option" where
  "push_packets [] r outcomes = Some (r, Inr outcomes)"
| "push_packets (packet # rest) r outcomes = (case ring_push packet r of
       None \<Rightarrow> None
     | Some (r, Inr outcome) \<Rightarrow> push_packets rest r (outcomes @ [outcome])
     | Some (r, Inl error) \<Rightarrow> Some (r, Inl error))"

definition push_batch :: "encoded_packet_batch \<Rightarrow> replay_packet_flow \<Rightarrow>
    (replay_packet_flow \<times> (replay_encoder_error + replay_push_outcome list)) option" where
  "push_batch batch f =
     (if pf_phase f \<noteq> Running then Some (f, Inl InvalidLifecycle)
      else case try_all (\<lambda>packet. validate_packet (pf_stream f) (pk_bytes packet)) batch of
        Inl error \<Rightarrow> Some (fail_closed f, Inl error)
      | Inr _ \<Rightarrow>
          (case push_packets batch (pf_ring f) [] of
             None \<Rightarrow> None
           | Some (r, Inr outcomes) \<Rightarrow> Some (f\<lparr>pf_ring := r\<rparr>, Inr outcomes)
           | Some (r, Inl error) \<Rightarrow> Some (fail_closed (f\<lparr>pf_ring := r\<rparr>), Inl (RingError error))))"

definition begin_reset :: "replay_packet_flow \<Rightarrow> replay_packet_flow" where
  "begin_reset f = (if pf_phase f = Running
     then f\<lparr>pf_ring := reset_epoch (pf_ring f), pf_phase := ResetRequired\<rparr> else f)"

definition complete_reset :: "replay_video_stream \<Rightarrow> replay_packet_flow \<Rightarrow>
    replay_packet_flow \<times> (replay_encoder_error + unit)" where
  "complete_reset stream f = (if pf_phase f \<noteq> ResetRequired then (f, Inl InvalidLifecycle)
     else (f\<lparr>pf_stream := stream, pf_phase := Running\<rparr>, Inr ()))"

definition flow_fail :: "replay_packet_flow \<Rightarrow> replay_packet_flow" where
  "flow_fail f = (if pf_phase f = Running \<or> pf_phase f = ResetRequired then fail_closed f else f)"

definition flow_shutdown :: "replay_packet_flow \<Rightarrow> replay_packet_flow" where
  "flow_shutdown f = f\<lparr>pf_ring := reset_epoch (pf_ring f), pf_phase := Shutdown\<rparr>"

section \<open>The flow as an event system\<close>

datatype flow_event = PushBatch encoded_packet_batch | BeginReset
  | CompleteReset replay_video_stream | FlowFail | FlowShutdown

text \<open>A batch carries packets of \<open>packet_new\<close>, accepted by \<open>packet_batch_new\<close>.\<close>

inductive flow_step :: "replay_packet_flow \<Rightarrow> flow_event \<Rightarrow> replay_packet_flow \<Rightarrow> bool" where
  step_batch: "(\<forall>p \<in> set b. packet_ok p) \<Longrightarrow> packet_batch_new b = Inr b \<Longrightarrow>
     push_batch b f = Some (g, res) \<Longrightarrow> flow_step f (PushBatch b) g"
| step_begin_reset: "flow_step f BeginReset (begin_reset f)"
| step_complete_reset: "flow_step f (CompleteReset s) (fst (complete_reset s f))"
| step_fail: "flow_step f FlowFail (flow_fail f)"
| step_shutdown: "flow_step f FlowShutdown (flow_shutdown f)"

inductive_cases flow_stepE: "flow_step f e g"

definition flow_init :: "replay_packet_flow \<Rightarrow> bool" where
  "flow_init f \<longleftrightarrow> (\<exists>settings stream. f = flow_new settings stream)"

definition valid_for :: "replay_video_stream \<Rightarrow> encoded_replay_packet \<Rightarrow> bool" where
  "valid_for s p \<longleftrightarrow> validate_packet s (pk_bytes p) = Inr ()"

definition flow_inv :: "replay_packet_flow \<Rightarrow> bool" where
  "flow_inv f \<longleftrightarrow> ring_inv (pf_ring f)
     \<and> (pf_phase f \<noteq> Running \<longrightarrow> rr_packets (pf_ring f) = [])
     \<and> (\<forall>p \<in> set (rr_packets (pf_ring f)). valid_for (pf_stream f) p)"

text \<open>Through the interface: pushing a list returns, keeps the ring's invariant and adds only
  packets of the list.\<close>

lemma push_packets_returns:
  assumes "ring_inv r" "\<forall>p \<in> set ps. packet_ok p"
  shows "\<exists>q res. push_packets ps r outs = Some (q, res) \<and> ring_inv q
    \<and> set (rr_packets q) \<subseteq> set ps \<union> set (rr_packets r)"
  using assms
proof (induction ps arbitrary: r outs)
  case Nil
  then show ?case by simp
next
  case (Cons p ps)
  obtain q res where q: "ring_push p r = Some (q, res)"
    using ring.push_returns [OF Cons.prems(1), of p] Cons.prems(2) by auto
  then have i: "ring_inv q" and sub: "set (rr_packets q) \<subseteq> insert p (set (rr_packets r))"
    using ring.push_inv ring.push_set Cons.prems by (simp_all) blast+
  show ?case
  proof (cases res)
    case (Inl e)
    with q i sub show ?thesis by auto
  next
    case (Inr u)
    from Cons.IH [OF i, of "outs @ [u]"] Cons.prems(2) obtain q' res' where
      "push_packets ps q (outs @ [u]) = Some (q', res')" "ring_inv q'"
      "set (rr_packets q') \<subseteq> set ps \<union> set (rr_packets q)" by auto
    with q Inr sub show ?thesis by auto
  qed
qed

lemma push_packets_suffix:
  assumes "ring_inv r" "\<forall>p \<in> set ps. packet_ok p" "push_packets ps r outs = Some (q, Inr outs')"
  shows "suffix (rr_packets q) (rr_packets r @ ps) \<and> length outs' = length outs + length ps"
  using assms
proof (induction ps arbitrary: r outs)
  case Nil
  then show ?case by simp
next
  case (Cons p ps)
  then obtain t u where t: "ring_push p r = Some (t, Inr u)" "push_packets ps t (outs @ [u]) = Some (q, Inr outs')"
    by (auto split: option.splits sum.splits)
  have "suffix (rr_packets t) (rr_packets r @ [p])" "ring_inv t"
    using ring.push_ok [OF Cons.prems(1) _ t(1)] ring.push_inv [OF Cons.prems(1) _ t(1)] Cons.prems(2) by auto
  moreover from this have "suffix (rr_packets t @ ps) ((rr_packets r @ [p]) @ ps)"
    by (auto simp: suffix_def simp del: suffix_snoc)
  ultimately show ?case
    using Cons.IH [OF _ _ t(2)] Cons.prems(2)
    by (metis append.assoc append_Cons append_Nil length_append length_Cons list.set_intros(2)
        list.size(3) add.assoc plus_1_eq_Suc suffix_order.trans)
qed

lemma fail_closed_inv: "ring_inv (pf_ring f) \<Longrightarrow> flow_inv (fail_closed f)"
  using ring.clear_inv ring.clear_items by (simp add: flow_inv_def fail_closed_def)

lemma push_batch_returns:
  assumes "flow_inv f" "\<forall>p \<in> set b. packet_ok p"
  shows "\<exists>g res. push_batch b f = Some (g, res) \<and> flow_inv g
    \<and> (is_ok res \<or> pf_phase f \<noteq> Running \<and> g = f \<or> pf_phase g = FlowFailed \<and> rr_packets (pf_ring g) = [])"
proof (cases "pf_phase f = Running")
  case False
  with assms(1) show ?thesis by (simp add: push_batch_def)
next
  case run: True
  have i: "ring_inv (pf_ring f)" using assms(1) by (simp add: flow_inv_def)
  have closed: "rr_packets (pf_ring (fail_closed g)) = []" for g
    using ring.clear_items by (simp add: fail_closed_def)
  show ?thesis
  proof (cases "try_all (\<lambda>p. validate_packet (pf_stream f) (pk_bytes p)) b")
    case (Inl e)
    with run fail_closed_inv [OF i] closed show ?thesis
      by (simp add: push_batch_def) (simp add: fail_closed_def)
  next
    case (Inr u)
    then have v: "\<forall>p \<in> set b. valid_for (pf_stream f) p" by (simp add: try_all_Inr valid_for_def)
    obtain q res where q: "push_packets b (pf_ring f) [] = Some (q, res)" "ring_inv q"
      "set (rr_packets q) \<subseteq> set b \<union> set (rr_packets (pf_ring f))"
      using push_packets_returns [OF i assms(2)] by blast
    have all: "\<forall>p \<in> set (rr_packets q). valid_for (pf_stream f) p"
      using q(3) v assms(1) by (auto simp: flow_inv_def)
    show ?thesis
    proof (cases res)
      case (Inl e)
      have "flow_inv (fail_closed (f\<lparr>pf_ring := q\<rparr>))" by (rule fail_closed_inv) (simp add: q(2))
      with run Inl Inr q(1) closed [of "f\<lparr>pf_ring := q\<rparr>"] show ?thesis
        by (simp add: push_batch_def) (simp add: fail_closed_def)
    next
      case ok: (Inr outs)
      with run Inr q all show ?thesis by (simp add: push_batch_def flow_inv_def)
    qed
  qed
qed

lemma flow_inv_step: "flow_inv f \<Longrightarrow> flow_step f e g \<Longrightarrow> flow_inv g"
proof (erule flow_stepE)
  fix b res
  assume "flow_inv f" "\<forall>p \<in> set b. packet_ok p" "push_batch b f = Some (g, res)"
  then show "flow_inv g" using push_batch_returns [of f b] by auto
next
  fix s
  assume "flow_inv f" "g = fst (complete_reset s f)"
  then show "flow_inv g" by (auto simp: complete_reset_def flow_inv_def)
qed (use ring.clear_inv ring.clear_items fail_closed_inv in
      \<open>auto simp: begin_reset_def flow_fail_def flow_shutdown_def flow_inv_def\<close>)

lemma flow_inv_init: "flow_init f \<Longrightarrow> flow_inv f"
proof -
  have "rr_packets (ring_new settings) = []" for settings by (simp add: ring_new_def Let_def)
  then show "flow_init f \<Longrightarrow> flow_inv f"
    by (auto simp: flow_init_def flow_new_def flow_inv_def ring_new_inv)
qed

interpretation flow: event_system flow_init flow_step flow_inv
  by unfold_locales (fact flow_inv_init, fact flow_inv_step)

section \<open>Properties\<close>

text \<open>C5: In every reachable state of the packet flow the whole stored history is framed for the
  current stream (a clip never mixes stream epochs), no phase but Running holds any packet, and
  the ring's own invariant holds, so the history is a decodable, bounded one.\<close>

theorem flow_never_mixes_epochs:
  assumes "reach flow_init flow_step f"
  shows "ring_inv (pf_ring f)
    \<and> (pf_phase f \<noteq> Running \<longrightarrow> rr_packets (pf_ring f) = [])
    \<and> (\<forall>p \<in> set (rr_packets (pf_ring f)). validate_packet (pf_stream f) (pk_bytes p) = Inr ())"
  using flow.inv_reach [OF assms] by (simp add: flow_inv_def valid_for_def)

definition sample_stream :: replay_video_stream where
  "sample_stream = \<lparr>vs_codec = Av1, vs_packet_format = Av1Obu, vs_width = 16, vs_height = 16,
     vs_frames_per_second = 60, vs_codec_private = [0x81, 0, 0, 0]\<rparr>"

lemma sample_batch: "push_batch [sample_packet 1000 True] (flow_new default_replay_settings sample_stream) =
    Some ((flow_new default_replay_settings sample_stream)
      \<lparr>pf_ring := after_push (sample_packet 1000 True) sample_ring\<rparr>, Inr [Stored 0 0])"
proof -
  have "validate_packet sample_stream (pk_bytes (sample_packet 1000 True)) = Inr ()"
    by (simp add: validate_packet_def sample_stream_def sample_packet_def)
  then show ?thesis
    using sample_push by (simp add: push_batch_def flow_new_def sample_ring_def)
qed

theorem flow_never_mixes_epochs_witness:
  "\<exists>f. reach flow_init flow_step f \<and> rr_packets (pf_ring f) = [sample_packet 1000 True]
     \<and> (\<forall>p \<in> set (rr_packets (pf_ring f)). validate_packet (pf_stream f) (pk_bytes p) = Inr ())"
proof -
  let ?f = "flow_new default_replay_settings sample_stream"
  let ?g = "?f\<lparr>pf_ring := after_push (sample_packet 1000 True) sample_ring\<rparr>"
  have "flow_init ?f" by (auto simp: flow_init_def)
  then have "reach flow_init flow_step ?f" by (rule reach_init)
  moreover have "flow_step ?f (PushBatch [sample_packet 1000 True]) ?g"
    by (rule step_batch [OF _ _ sample_batch])
      (simp_all add: sample_packet_ok packet_batch_new_iff timestamps_increase_def, simp add: sample_packet_def)
  ultimately have r: "reach flow_init flow_step ?g" by (rule reach_step)
  have "rr_packets (pf_ring ?g) = [sample_packet 1000 True]"
    by (simp add: sample_ring_fields kept_def within_limits_def sample_ring_limits sample_packet_def
        span_exceeds_def history_span_def saturating_sub_def saturating_add_def)
  with r flow_never_mixes_epochs [OF r] show ?thesis by blast
qed

text \<open>A batch push always returns and fails closed: on success the history is a suffix of the
  old history followed by the batch with one outcome per packet; on any error the state is either
  untouched (wrong phase) or Failed with an empty ring.\<close>

theorem push_batch_fails_closed:
  assumes "flow_inv f" "\<forall>p \<in> set b. packet_ok p"
  shows "\<exists>g res. push_batch b f = Some (g, res) \<and> flow_inv g
    \<and> (case res of
         Inr outcomes \<Rightarrow> pf_phase f = Running \<and> pf_phase g = Running
           \<and> suffix (rr_packets (pf_ring g)) (rr_packets (pf_ring f) @ b)
           \<and> length outcomes = length b
       | Inl e \<Rightarrow> pf_phase f \<noteq> Running \<and> e = InvalidLifecycle \<and> g = f
           \<or> pf_phase f = Running \<and> pf_phase g = FlowFailed \<and> rr_packets (pf_ring g) = [])"
proof -
  obtain g res where g: "push_batch b f = Some (g, res)" "flow_inv g"
    and e: "is_ok res \<or> pf_phase f \<noteq> Running \<and> g = f \<or> pf_phase g = FlowFailed \<and> rr_packets (pf_ring g) = []"
    using push_batch_returns [OF assms] by blast
  have i: "ring_inv (pf_ring f)" using assms(1) by (simp add: flow_inv_def)
  show ?thesis
  proof (cases res)
    case (Inl err)
    have "err = InvalidLifecycle" if "pf_phase f \<noteq> Running"
      using g(1) Inl that by (simp add: push_batch_def)
    moreover have "g = f" if "pf_phase f \<noteq> Running" using g(1) that by (simp add: push_batch_def)
    ultimately show ?thesis using g e Inl by auto
  next
    case (Inr outs)
    with g(1) obtain q where "pf_phase f = Running" "push_packets b (pf_ring f) [] = Some (q, Inr outs)"
      "g = f\<lparr>pf_ring := q\<rparr>"
      by (auto simp: push_batch_def split: if_splits sum.splits option.splits)
    with push_packets_suffix [OF i assms(2), of "[]" q outs] g Inr show ?thesis by simp
  qed
qed

theorem push_batch_fails_closed_witness:
  "flow_inv (flow_new default_replay_settings sample_stream)
   \<and> (\<exists>g res. push_batch [sample_packet 1000 True] (flow_new default_replay_settings sample_stream) = Some (g, res)
        \<and> flow_inv g)"
proof -
  have i: "flow_inv (flow_new default_replay_settings sample_stream)"
    by (rule flow.inv_init) (auto simp: flow_init_def)
  have p: "\<forall>p \<in> set [sample_packet 1000 True]. packet_ok p" by (simp add: sample_packet_ok)
  show ?thesis using push_batch_fails_closed [OF i p] i by blast
qed

text \<open>Shutdown is final: whatever events follow, the phase stays Shutdown and the ring stays
  empty.\<close>

theorem shutdown_is_final:
  assumes "flow_step f e g" "pf_phase f = Shutdown" "rr_packets (pf_ring f) = []"
  shows "pf_phase g = Shutdown \<and> rr_packets (pf_ring g) = [] \<and> pf_stream g = pf_stream f"
  using assms
  by (auto elim!: flow_stepE simp: push_batch_def begin_reset_def complete_reset_def flow_fail_def
      flow_shutdown_def reset_epoch_def)

theorem shutdown_is_final_witness:
  "pf_phase (flow_fail (flow_shutdown (flow_new default_replay_settings sample_stream))) = Shutdown"
proof -
  let ?f = "flow_shutdown (flow_new default_replay_settings sample_stream)"
  have "pf_phase ?f = Shutdown" "rr_packets (pf_ring ?f) = []"
    by (simp_all add: flow_shutdown_def reset_epoch_def)
  with shutdown_is_final [OF step_fail this] show ?thesis by blast
qed

end
