(* ===== verification/H264_Annex_B.thy ===== *)
theory H264_Annex_B
  imports Video_Stream
begin

text \<open>
  \<open>redunar-daemon/src/replay_h264.rs\<close>: the Annex B byte stream of a hardware encoder is split at
  its start codes, parameter sets become an AVC decoder configuration, and an access unit becomes
  a length-prefixed packet. Positions and ranges are those of the source. A panic
  (\<open>expect\<close> on a length) is \<open>None\<close> and is excluded by a property.
\<close>

definition MAX_PARAMETER_SET_BYTES :: nat where "MAX_PARAMETER_SET_BYTES = 65535"
definition H264_NAL_TYPE_MASK :: u8 where "H264_NAL_TYPE_MASK = 0x1f"
definition H264_NAL_TYPE_IDR :: u8 where "H264_NAL_TYPE_IDR = 5"
definition H264_NAL_TYPE_SPS :: u8 where "H264_NAL_TYPE_SPS = 7"
definition H264_NAL_TYPE_PPS :: u8 where "H264_NAL_TYPE_PPS = 8"

section \<open>Splitting at start codes\<close>

definition starts_with :: "'a list \<Rightarrow> 'a list \<Rightarrow> bool" where
  "starts_with tail pat \<longleftrightarrow> take (length pat) tail = pat"

definition start_code_at :: "u8 list \<Rightarrow> nat \<Rightarrow> (nat \<times> nat) option" where
  "start_code_at bytes position =
     (if position > length bytes then None
      else
        let tail = drop position bytes
        in if starts_with tail [0, 0, 0, 1] then Some (position + 4, 4)
           else if starts_with tail [0, 0, 1] then Some (position + 3, 3)
           else None)"

text \<open>\<open>(from..bytes.len()).find_map(..)\<close>.\<close>

definition find_start_code :: "u8 list \<Rightarrow> nat \<Rightarrow> (nat \<times> nat) option" where
  "find_start_code bytes start =
     (case List.find (\<lambda>position. start_code_at bytes position \<noteq> None) [start..<length bytes] of
        None \<Rightarrow> None
      | Some position \<Rightarrow> map_option (\<lambda>(_, len). (position, len)) (start_code_at bytes position))"

lemma find_upt_Some:
  "List.find P [a..<b] = Some i \<longleftrightarrow> a \<le> i \<and> i < b \<and> P i \<and> (\<forall>j. a \<le> j \<and> j < i \<longrightarrow> \<not> P j)"
proof (induction "b - a" arbitrary: a)
  case 0
  then show ?case by simp
next
  case (Suc n)
  then have *: "[a..<b] = a # [Suc a..<b]" "n = b - Suc a" by (simp_all add: upt_conv_Cons)
  show ?case
  proof (cases "P a")
    case True
    then show ?thesis using Suc.hyps(2) by (auto simp: *(1))
  next
    case False
    then show ?thesis using Suc.hyps(1) [OF *(2)] Suc_le_eq
      by (auto simp: *(1)) (metis le_neq_implies_less)
  qed
qed

lemma starts_with_code:
  "starts_with t [a, b, c, d] \<longleftrightarrow> take 4 t = [a, b, c, d]" "starts_with t [a, b, c] \<longleftrightarrow> take 3 t = [a, b, c]"
  by (simp_all add: starts_with_def numeral_eq_Suc)

lemma find_start_code_None:
  "find_start_code bs a = None \<Longrightarrow> a \<le> j \<Longrightarrow> j < length bs \<Longrightarrow> start_code_at bs j = None"
proof -
  assume none: "find_start_code bs a = None" and j: "a \<le> j" "j < length bs"
  let ?P = "\<lambda>j. start_code_at bs j \<noteq> None"
  have "List.find ?P [a..<length bs] = None"
  proof (rule ccontr)
    assume "List.find ?P [a..<length bs] \<noteq> None"
    then obtain i where i: "List.find ?P [a..<length bs] = Some i" by blast
    then have "?P i" unfolding find_upt_Some by blast
    with none i show False by (auto simp: find_start_code_def)
  qed
  with j show ?thesis by (simp add: find_None_iff del: not_None_eq)
qed

lemma find_start_code_Some:
  "find_start_code bs a = Some (i, n) \<Longrightarrow>
     a \<le> i \<and> i < length bs \<and> start_code_at bs i = Some (i + n, n) \<and> (n = 3 \<or> n = 4)
     \<and> (\<forall>j. a \<le> j \<and> j < i \<longrightarrow> start_code_at bs j = None)"
proof -
  assume "find_start_code bs a = Some (i, n)"
  then obtain e where f: "List.find (\<lambda>j. start_code_at bs j \<noteq> None) [a..<length bs] = Some i"
    and e: "start_code_at bs i = Some (e, n)"
    by (auto simp: find_start_code_def split: option.splits)
  from e have "e = i + n \<and> (n = 3 \<or> n = 4)"
    by (auto simp: start_code_at_def Let_def split: if_splits)
  with e f [unfolded find_upt_Some] show ?thesis by blast
qed

function annex_b_loop :: "u8 list \<Rightarrow> nat \<Rightarrow> u8 list list \<Rightarrow> replay_encoder_error + u8 list list" where
  "annex_b_loop bytes unit_start units =
     (let next = find_start_code bytes unit_start;
          unit_end = (case next of None \<Rightarrow> length bytes | Some (position, _) \<Rightarrow> position)
      in if unit_start > unit_end \<or> unit_end > length bytes \<or> unit_end = unit_start
         then Inl InvalidPacketFraming
         else
           let units = units @ [slice unit_start (unit_end - unit_start) bytes]
           in case next of
                None \<Rightarrow> Inr units
              | Some (position, len) \<Rightarrow>
                  if position + len \<ge> length bytes then Inl InvalidPacketFraming
                  else annex_b_loop bytes (position + len) units)"
  by pat_completeness auto
termination
  by (relation "measure (\<lambda>(bytes, unit_start, units). length bytes - unit_start)")
    (auto dest!: find_start_code_Some [OF sym])

declare annex_b_loop.simps [simp del]

definition annex_b_units :: "u8 list \<Rightarrow> replay_encoder_error + u8 list list" where
  "annex_b_units bytes = (case start_code_at bytes 0 of
       None \<Rightarrow> Inl InvalidPacketFraming
     | Some (unit_start, _) \<Rightarrow> annex_b_loop bytes unit_start [])"

definition nal_type :: "u8 list \<Rightarrow> replay_encoder_error + u8" where
  "nal_type u = (case u of [] \<Rightarrow> Inl InvalidPacketFraming
     | header # _ \<Rightarrow> if header AND 0x80 \<noteq> 0 then Inl InvalidPacketFraming
                    else Inr (header AND H264_NAL_TYPE_MASK))"

section \<open>Parameter sets\<close>

record h264_parameter_sets =
  ps_sequence :: "u8 list"
  ps_picture :: "u8 list"

definition collect_parameter_set :: "u8 list option \<times> u8 list option \<Rightarrow> u8 list \<Rightarrow>
    replay_encoder_error + (u8 list option \<times> u8 list option)" where
  "collect_parameter_set st u = (case st of (sequence, picture) \<Rightarrow>
     and_then (nal_type u) (\<lambda>t.
       if t = H264_NAL_TYPE_SPS \<and> sequence = None then Inr (Some u, picture)
       else if t = H264_NAL_TYPE_PPS \<and> picture = None then Inr (sequence, Some u)
       else if t = H264_NAL_TYPE_SPS \<or> t = H264_NAL_TYPE_PPS then Inl InvalidCodecHeaders
       else Inr (sequence, picture)))"

definition from_annex_b :: "u8 list \<Rightarrow> replay_encoder_error + h264_parameter_sets" where
  "from_annex_b bytes =
     and_then (annex_b_units bytes) (\<lambda>units.
       and_then (try_fold collect_parameter_set (None, None) units) (\<lambda>st.
         case st of
           (Some sequence, Some picture) \<Rightarrow>
             if length sequence < 4 \<or> length sequence > MAX_PARAMETER_SET_BYTES
                \<or> length picture > MAX_PARAMETER_SET_BYTES
             then Inl InvalidCodecHeaders
             else Inr \<lparr>ps_sequence = sequence, ps_picture = picture\<rparr>
         | _ \<Rightarrow> Inl InvalidCodecHeaders))"

text \<open>\<open>None\<close>: one of the two \<open>expect\<close>s or an index panics.\<close>

definition avc_decoder_configuration :: "h264_parameter_sets \<Rightarrow> u8 list option" where
  "avc_decoder_configuration p =
     (case (try_from (length (ps_sequence p)) :: u16 option, try_from (length (ps_picture p)) :: u16 option) of
        (Some sequence_length, Some picture_length) \<Rightarrow>
          if length (ps_sequence p) < 4 then None
          else Some ([1, ps_sequence p ! 1, ps_sequence p ! 2, ps_sequence p ! 3, 0xff, 0xe1]
            @ u16_to_be_bytes sequence_length @ ps_sequence p @ [1]
            @ u16_to_be_bytes picture_length @ ps_picture p)
      | _ \<Rightarrow> None)"

section \<open>Access units\<close>

record access_unit_state =
  au_payload :: "u8 list"
  au_keyframe :: bool
  au_has_vcl :: bool

definition append_unit :: "access_unit_state \<Rightarrow> u8 list \<Rightarrow> replay_encoder_error + access_unit_state" where
  "append_unit st u =
     and_then (nal_type u) (\<lambda>unit_type.
       and_then (ok_or (try_from (length u) :: u32 option) InvalidPacketFraming) (\<lambda>len.
         Inr \<lparr>au_payload = au_payload st @ u32_to_be_bytes len @ u,
              au_keyframe = (au_keyframe st \<or> unit_type = H264_NAL_TYPE_IDR),
              au_has_vcl = (au_has_vcl st \<or> 1 \<le> unit_type \<and> unit_type \<le> 5)\<rparr>))"

definition h264_annex_b_access_unit :: "u64 \<Rightarrow> u64 \<Rightarrow> u8 list \<Rightarrow> replay_encoder_error + encoded_replay_packet" where
  "h264_annex_b_access_unit timestamp_ns duration_ns bytes =
     and_then (annex_b_units bytes) (\<lambda>units.
       and_then (try_fold append_unit \<lparr>au_payload = [], au_keyframe = False, au_has_vcl = False\<rparr> units)
         (\<lambda>st. if \<not> au_has_vcl st then Inl InvalidPacketFraming
               else map_err PacketError
                      (packet_new timestamp_ns duration_ns (au_keyframe st) (au_payload st))))"

section \<open>The splitter is lossless\<close>

definition start_code :: "u8 list \<Rightarrow> bool" where
  "start_code c \<longleftrightarrow> c = [0, 0, 1] \<or> c = [0, 0, 0, 1]"

text \<open>A byte stream from start codes and units.\<close>

definition annex_b_join :: "(u8 list \<times> u8 list) list \<Rightarrow> u8 list" where
  "annex_b_join cus = concat (map (\<lambda>(c, u). c @ u) cus)"

lemma start_code_at_Some:
  assumes "start_code_at bs i = Some (e, n)"
  shows "e = i + n \<and> start_code (slice i n bs) \<and> i + n \<le> length bs \<and> bs = take i bs @ slice i n bs @ drop (i + n) bs"
proof -
  have d: "bs = take i bs @ slice i n bs @ drop (i + n) bs"
    by (simp add: slice_def) (metis append_take_drop_id drop_drop add.commute)
  have c: "e = i + n \<and> (slice i n bs = [0, 0, 1] \<and> n = 3 \<or> slice i n bs = [0, 0, 0, 1] \<and> n = 4)"
    using assms by (auto simp: start_code_at_def starts_with_code slice_def Let_def split: if_splits)
  then have "length (slice i n bs) = n" by auto
  then have "i + n \<le> length bs \<or> n = 0" by (auto simp: slice_def)
  with c d show ?thesis by (auto simp: start_code_def)
qed


text \<open>The cut is the one at the start codes: no start code opens anywhere inside a unit, not even one that
  reaches into what follows.\<close>

definition opens_code :: "u8 list \<Rightarrow> bool" where
  "opens_code w \<longleftrightarrow> (\<exists>c rest. start_code c \<and> w = c @ rest)"

definition code_free :: "u8 list \<Rightarrow> u8 list \<Rightarrow> bool" where
  "code_free u rest \<longleftrightarrow> u \<noteq> [] \<and> (\<forall>i < length u. \<not> opens_code (drop i (u @ rest)))"

fun cut_at_codes :: "(u8 list \<times> u8 list) list \<Rightarrow> bool" where
  "cut_at_codes [] \<longleftrightarrow> True"
| "cut_at_codes ((c, u) # cus) \<longleftrightarrow> start_code c \<and> code_free u (annex_b_join cus) \<and> cut_at_codes cus"

lemma no_code_opens:
  assumes "start_code_at bs j = None" "j \<le> length bs"
  shows "\<not> opens_code (drop j bs)"
  using assms by (auto simp: start_code_at_def opens_code_def start_code_def starts_with_def Let_def split: if_splits)

lemma cut_units: "cut_at_codes cus \<Longrightarrow> (c, u) \<in> set cus \<Longrightarrow> start_code c \<and> u \<noteq> []"
  by (induction cus rule: cut_at_codes.induct) (auto simp: code_free_def)

lemma code_freeI:
  assumes "drop a bs = u @ rest" "u \<noteq> []" "\<forall>j. a \<le> j \<and> j < a + length u \<longrightarrow> start_code_at bs j = None"
  shows "code_free u rest"
proof -
  have "\<not> opens_code (drop i (u @ rest))" if "i < length u" for i
  proof -
    have "drop i (u @ rest) = drop (a + i) bs" using assms(1) by (metis add.commute drop_drop)
    moreover have "length bs - a = length u + length rest" using arg_cong [OF assms(1), of length] by simp
    then have "a + i \<le> length bs" using that by linarith
    ultimately show ?thesis using no_code_opens [of bs "a + i"] assms(3) that by simp
  qed
  with assms(2) show ?thesis by (simp add: code_free_def)
qed

lemma annex_b_loop_sound:
  "annex_b_loop bs a acc = Inr units \<Longrightarrow> a \<le> length bs \<Longrightarrow>
    \<exists>u cus. units = acc @ u # map snd cus \<and> drop a bs = u @ annex_b_join cus \<and> code_free u (annex_b_join cus)
      \<and> cut_at_codes cus"
proof (induction bs a acc rule: annex_b_loop.induct)
  case (1 bs a acc)
  show ?case
  proof (cases "find_start_code bs a")
    case None
    with 1(2,3) have "units = acc @ [drop a bs]" "drop a bs \<noteq> []"
      by (auto simp: annex_b_loop.simps [of bs a] Let_def slice_def split: if_splits)
    moreover have "code_free (drop a bs) []"
      using calculation(2) find_start_code_None [OF None] by (intro code_freeI [of a bs]) auto
    ultimately show ?thesis
      by (intro exI [of _ "drop a bs"] exI [of _ "[]"]) (simp add: annex_b_join_def)
  next
    case (Some iv)
    obtain i n where iv: "iv = (i, n)" by (cases iv)
    let ?u = "slice a (i - a) bs"
    note f = find_start_code_Some [OF Some [unfolded iv]]
    from 1(2) Some iv have i: "a \<noteq> i" "\<not> i + n \<ge> length bs"
      and rec: "annex_b_loop bs (i + n) (acc @ [?u]) = Inr units"
      by (simp_all add: annex_b_loop.simps [of bs a] Let_def split: if_splits)
    obtain v cus where v: "units = (acc @ [?u]) @ v # map snd cus" "drop (i + n) bs = v @ annex_b_join cus"
      "code_free v (annex_b_join cus)" "cut_at_codes cus"
      using 1(1) [OF Some [unfolded iv, symmetric] refl _ refl refl refl i(2)] rec f i
      by (simp add: order.order_iff_strict) blast
    have c: "start_code (slice i n bs)" "i + n \<le> length bs"
      using start_code_at_Some [of bs i "i + n" n] f by auto
    have "drop a bs = ?u @ drop i bs"
      using f by (simp add: slice_def) (metis append_take_drop_id drop_drop le_add_diff_inverse2)
    also have "drop i bs = slice i n bs @ drop (i + n) bs"
      by (simp add: slice_def) (metis append_take_drop_id drop_drop add.commute)
    finally have "drop a bs = ?u @ annex_b_join ((slice i n bs, v) # cus)"
      by (simp add: v(2) annex_b_join_def)
    moreover from this have "code_free ?u (annex_b_join ((slice i n bs, v) # cus))"
      using f i by (intro code_freeI [of a bs]) (auto simp: slice_def)
    ultimately show ?thesis
      using v c by (intro exI [of _ ?u] exI [of _ "(slice i n bs, v) # cus"]) auto
  qed
qed

lemma annex_b_units_sound:
  assumes "annex_b_units bs = Inr units"
  shows "\<exists>cus. cus \<noteq> [] \<and> bs = annex_b_join cus \<and> units = map snd cus
    \<and> cut_at_codes cus"
proof -
  from assms obtain e n where e: "start_code_at bs 0 = Some (e, n)" "annex_b_loop bs e [] = Inr units"
    by (auto simp: annex_b_units_def split: option.splits)
  note c = start_code_at_Some [OF e(1)]
  obtain u cus where u: "units = u # map snd cus" "drop n bs = u @ annex_b_join cus" "code_free u (annex_b_join cus)" "cut_at_codes cus"
    using annex_b_loop_sound [OF e(2)] c by auto
  have "bs = slice 0 n bs @ drop n bs" by (simp add: slice_def)
  then have "bs = annex_b_join ((slice 0 n bs, u) # cus)" using u(2) by (simp add: annex_b_join_def)
  with u c show ?thesis by (intro exI [of _ "(slice 0 n bs, u) # cus"]) auto
qed

section \<open>The splitter finds every unit\<close>

text \<open>A unit without a start code inside that does not end in a zero byte, as the H.264
  byte-stream format requires of an encoder.\<close>

definition nal_clean :: "u8 list \<Rightarrow> bool" where
  "nal_clean u \<longleftrightarrow> u \<noteq> [] \<and> last u \<noteq> 0 \<and> (\<forall>i < length u. \<not> starts_with (drop i u) [0, 0, 1])"

lemma starts_with_nth:
  assumes "starts_with (drop j xs) pat" "k < length pat"
  shows "xs ! (j + k) = pat ! k"
proof -
  have t: "take (length pat) (drop j xs) = pat" using assms(1) by (simp add: starts_with_def)
  then have "length pat \<le> length (drop j xs)" by (metis length_take min.cobounded1)
  with assms(2) have "j \<le> length xs" by auto
  with t assms(2) show ?thesis by (metis nth_drop nth_take)
qed

lemma clean_no_code:
  assumes "nal_clean u" "j < length u"
  shows "\<not> starts_with (drop j (u @ w)) [0, 0, 1]" "\<not> starts_with (drop j (u @ w)) [0, 0, 0, 1]"
proof -
  have l: "u ! (length u - 1) \<noteq> 0" using assms(1) by (auto simp: nal_clean_def last_conv_nth)
  show "\<not> starts_with (drop j (u @ w)) [0, 0, 1]"
  proof
    assume s: "starts_with (drop j (u @ w)) [0, 0, 1]"
    then have n: "(u @ w) ! (j + k) = [0, 0, 1] ! k" if "k < 3" for k
      using that starts_with_nth [of j "u @ w" "[0, 0, 1]" k] by simp
    show False
    proof (cases "j + 3 \<le> length u")
      case True
      with s have "starts_with (drop j u) [0, 0, 1]" by (simp add: starts_with_code)
      with assms show False by (simp add: nal_clean_def)
    next
      case False
      with assms(2) have "length u - 1 = j + 0 \<or> length u - 1 = j + 1" by linarith
      with n [of 0] n [of 1] l assms(2) show False by (auto simp: nth_append split: if_splits)
    qed
  qed
  show "\<not> starts_with (drop j (u @ w)) [0, 0, 0, 1]"
  proof
    assume s: "starts_with (drop j (u @ w)) [0, 0, 0, 1]"
    then have n: "(u @ w) ! (j + k) = [0, 0, 0, 1] ! k" if "k < 4" for k
      using that starts_with_nth [of j "u @ w" "[0, 0, 0, 1]" k] by simp
    show False
    proof (cases "j + 4 \<le> length u")
      case True
      have "take 3 (drop (j + 1) u) = drop 1 (take 4 (drop j u))" by (simp add: drop_take)
      also have "\<dots> = [0, 0, 1]" using s True by (simp add: starts_with_code)
      finally have "starts_with (drop (j + 1) u) [0, 0, 1]" by (simp only: starts_with_code)
      with assms True show False by (simp add: nal_clean_def)
    next
      case False
      with assms(2) have "length u - 1 = j + 0 \<or> length u - 1 = j + 1 \<or> length u - 1 = j + 2" by linarith
      with n [of 0] n [of 1] n [of 2] l assms(2) show False by (auto simp: nth_append split: if_splits)
    qed
  qed
qed


lemma no_code_before:
  assumes "drop a bs = u @ w" "nal_clean u" "a \<le> j" "j < a + length u"
  shows "start_code_at bs j = None"
proof -
  have "drop j bs = drop (j - a) (u @ w)"
    using assms(1,3) by (metis drop_drop le_add_diff_inverse2)
  moreover have "j - a < length u" using assms(3,4) by linarith
  ultimately show ?thesis
    using clean_no_code [OF assms(2), of "j - a" w] by (simp add: start_code_at_def Let_def)
qed

lemma find_none:
  assumes "drop a bs = u" "nal_clean u"
  shows "find_start_code bs a = None"
proof -
  have "length bs = a + length u"
    using assms by (metis add_diff_inverse_nat drop_all leD length_drop nal_clean_def nat_less_le order_refl)
  then have "\<forall>j \<in> set [a..<length bs]. start_code_at bs j = None"
    using no_code_before [of a bs u "[]"] assms by simp
  then have "List.find (\<lambda>j. start_code_at bs j \<noteq> None) [a..<length bs] = None"
    by (simp add: find_None_iff)
  then show ?thesis by (simp add: find_start_code_def)
qed

lemma find_next:
  assumes "drop a bs = u @ c @ r" "nal_clean u" "start_code c"
  shows "find_start_code bs a = Some (a + length u, length c)"
proof -
  let ?i = "a + length u"
  have d: "drop ?i bs = c @ r" using assms(1) by (metis add.commute append_eq_conv_conj drop_drop)
  have "length (drop ?i bs) > 0" using assms(3) by (auto simp: d start_code_def)
  then have lt: "?i < length bs" by simp
  have at: "start_code_at bs ?i = Some (?i + length c, length c)"
    using assms(3) lt by (auto simp: start_code_at_def d start_code_def starts_with_def)
  have "List.find (\<lambda>j. start_code_at bs j \<noteq> None) [a..<length bs] = Some ?i"
    unfolding find_upt_Some using lt at no_code_before [OF assms(1,2)] by auto
  with at show ?thesis by (simp add: find_start_code_def)
qed

lemma annex_b_loop_complete:
  "drop a bs = u @ annex_b_join cus \<Longrightarrow> nal_clean u \<Longrightarrow>
    (\<forall>(c, v) \<in> set cus. start_code c \<and> nal_clean v) \<Longrightarrow>
    annex_b_loop bs a acc = Inr (acc @ u # map snd cus)"
proof (induction cus arbitrary: a u acc)
  case Nil
  then have d: "drop a bs = u" by (simp add: annex_b_join_def)
  have "length u > 0" using Nil(2) by (simp add: nal_clean_def)
  then have "a < length bs" using d by auto
  moreover have "length u = length bs - a" using d by (metis length_drop)
  ultimately show ?case
    using Nil(2) d find_none [OF d] by (simp add: annex_b_loop.simps [of bs a] slice_def)
next
  case (Cons cv cus)
  obtain c v where cv: "cv = (c, v)" by (cases cv)
  have d: "drop a bs = u @ c @ v @ annex_b_join cus" using Cons.prems(1) by (simp add: cv annex_b_join_def)
  have ok: "start_code c" "nal_clean v" using Cons.prems(3) by (simp_all add: cv)
  note f = find_next [OF d Cons.prems(2) ok(1)]
  have d2: "drop (a + length u + length c) bs = v @ annex_b_join cus"
    using d by (metis add.commute append_eq_conv_conj drop_drop)
  have pos: "length u > 0" "length v > 0" using Cons.prems(2) ok(2) by (simp_all add: nal_clean_def)
  have "length bs - (a + length u + length c) = length v + length (annex_b_join cus)"
    using arg_cong [OF d2, of length] by simp
  with pos(2) have lt: "a + length u + length c < length bs" by linarith
  have "slice a (length u) bs = u" using d by (simp add: slice_def)
  then have "annex_b_loop bs a acc = annex_b_loop bs (a + length u + length c) (acc @ [u])"
    using lt pos by (simp add: annex_b_loop.simps [of bs a] f)
  with Cons.IH [OF d2 ok(2)] Cons.prems(3) show ?case by (simp add: cv)
qed

lemma annex_b_units_complete:
  assumes "cus \<noteq> []" "\<forall>(c, u) \<in> set cus. start_code c \<and> nal_clean u"
  shows "annex_b_units (annex_b_join cus) = Inr (map snd cus)"
proof -
  obtain c u rest where cus: "cus = (c, u) # rest" using assms(1) by (cases cus) auto
  have ok: "start_code c" "nal_clean u" using assms(2) by (simp_all add: cus)
  let ?bs = "annex_b_join cus"
  have j: "?bs = c @ u @ annex_b_join rest" by (simp add: cus annex_b_join_def)
  have "start_code_at ?bs 0 = Some (length c, length c)"
    using ok(1) by (auto simp: j start_code_at_def start_code_def starts_with_def)
  moreover have "annex_b_loop ?bs (length c) [] = Inr ([] @ u # map snd rest)"
  proof (rule annex_b_loop_complete [OF _ ok(2)])
    show "drop (length c) ?bs = u @ annex_b_join rest" by (simp add: j)
    show "\<forall>(c, u) \<in> set rest. start_code c \<and> nal_clean u" using assms(2) by (simp add: cus)
  qed
  ultimately show ?thesis by (simp add: annex_b_units_def cus)
qed

section \<open>Access units and parameter sets\<close>

lemma append_units:
  "try_fold append_unit st us = Inr st' \<Longrightarrow>
     au_payload st' = au_payload st @ concat (map avc_unit us)
     \<and> (\<forall>u \<in> set us. avc_unit_ok u)
     \<and> (au_keyframe st' \<longleftrightarrow> au_keyframe st \<or> (\<exists>u \<in> set us. nal_type u = Inr H264_NAL_TYPE_IDR))"
proof (induction us arbitrary: st)
  case Nil
  then show ?case by simp
next
  case (Cons u us)
  then obtain s1 where s1: "append_unit st u = Inr s1" "try_fold append_unit s1 us = Inr st'"
    by (auto simp: and_then_Inr)
  from s1(1) obtain t len where t: "nal_type u = Inr t" and len: "try_from (length u) = Some (len :: u32)"
    and s: "s1 = \<lparr>au_payload = au_payload st @ u32_to_be_bytes len @ u,
      au_keyframe = (au_keyframe st \<or> t = H264_NAL_TYPE_IDR),
      au_has_vcl = (au_has_vcl st \<or> 1 \<le> t \<and> t \<le> 5)\<rparr>"
    by (auto simp: append_unit_def result_iffs)
  have u: "u \<noteq> []" using t by (auto simp: nal_type_def)
  have l: "length u < 2 ^ 32" "len = word_of_nat (length u)"
    using len by (auto simp: try_from_def split: if_splits)
  show ?case
    using Cons.IH [OF s1(2)] u l t by (auto simp: s avc_unit_def avc_unit_ok_def)
qed

text \<open>C29: Conversion of an access unit is lossless: the input is a sequence of start codes, each followed by a unit, cut at
  every place where a start code of three or four bytes opens and nowhere else, and the packet's length-prefixed units are
  exactly these units in order. The keyframe flag is derived from them, and the packet passes the framing check and
  the packet bounds.\<close>

theorem access_unit_lossless:
  assumes "h264_annex_b_access_unit t d bytes = Inr p"
  shows "\<exists>cus. bytes = annex_b_join cus \<and> cut_at_codes cus
    \<and> decode_all take_avc_unit (pk_bytes p) = Some (map snd cus)
    \<and> (pk_keyframe p \<longleftrightarrow> (\<exists>u \<in> set (map snd cus). nal_type u = Inr H264_NAL_TYPE_IDR))
    \<and> validate_h264_packet (pk_bytes p) = Inr () \<and> packet_ok p
    \<and> pk_timestamp_ns p = t \<and> pk_duration_ns p = d"
proof -
  from assms obtain units st where u: "annex_b_units bytes = Inr units"
    and st: "try_fold append_unit \<lparr>au_payload = [], au_keyframe = False, au_has_vcl = False\<rparr> units = Inr st"
    and p: "packet_new t d (au_keyframe st) (au_payload st) = Inr p"
    by (auto simp: h264_annex_b_access_unit_def result_iffs split: if_splits)
  obtain cus where c: "cus \<noteq> []" "bytes = annex_b_join cus" "units = map snd cus"
    "cut_at_codes cus" using annex_b_units_sound [OF u] by blast
  note a = append_units [OF st]
  have b: "pk_bytes p = concat (map avc_unit units)" "\<forall>u \<in> set units. avc_unit_ok u"
    "pk_keyframe p \<longleftrightarrow> (\<exists>u \<in> set units. nal_type u = Inr H264_NAL_TYPE_IDR)"
    using a p by (auto simp: packet_new_Inr)
  have "validate_h264_packet (pk_bytes p) = Inr ()"
    unfolding validate_h264_packet_iff using b c(1,3) by blast
  moreover have "decode_all take_avc_unit (pk_bytes p) = Some units"
    unfolding b(1) by (rule avc.decode_all_concat [OF b(2)])
  ultimately show ?thesis
    using c b(3) p by (intro exI [of _ cus]) (auto simp: packet_new_Inr)
qed

lemma sample_access_unit:
  "h264_annex_b_access_unit 0 16000000 [0, 0, 1, 0x65, 9] =
     Inr \<lparr>pk_timestamp_ns = 0, pk_duration_ns = 16000000, pk_keyframe = True,
          pk_bytes = [0, 0, 0, 2, 0x65, 9]\<rparr>"
proof -
  have "annex_b_units (annex_b_join [([0, 0, 1], [0x65, 9])]) = Inr (map snd [([0, 0, 1] :: u8 list, [0x65, 9])])"
    by (rule annex_b_units_complete)
      (auto simp: start_code_def nal_clean_def less_Suc_eq starts_with_def)
  then have "annex_b_units [0, 0, 1, 0x65, 9] = Inr [[0x65, 9]]" by (simp add: annex_b_join_def)
  then show ?thesis
    by (simp add: h264_annex_b_access_unit_def append_unit_def nal_type_def H264_NAL_TYPE_MASK_def
        H264_NAL_TYPE_IDR_def try_from_def packet_new_def MAX_SINGLE_PACKET_BYTES_def
        MAX_PACKET_DURATION_NS_def NANOSECONDS_PER_SECOND_def checked_add_def u32_to_be_bytes_def be_nat_4)
qed

theorem access_unit_lossless_witness:
  "\<exists>cus. [0, 0, 1, 0x65, 9] = annex_b_join cus \<and> cut_at_codes cus
     \<and> decode_all take_avc_unit [0, 0, 0, 2, 0x65, 9] = Some (map snd cus)"
  using access_unit_lossless [OF sample_access_unit] by auto

text \<open>The splitter finds every unit: a stream of three- and four-byte start codes and units
  that contain no start code and do not end in zero is split into exactly those units.\<close>

theorem annex_b_units_roundtrip:
  assumes "cus \<noteq> []" "\<forall>(c, u) \<in> set cus. start_code c \<and> nal_clean u"
  shows "annex_b_units (annex_b_join cus) = Inr (map snd cus)"
  by (rule annex_b_units_complete [OF assms])

theorem annex_b_units_roundtrip_witness:
  "annex_b_units (annex_b_join [([0, 0, 0, 1], [7]), ([0, 0, 1], [0, 5])]) = Inr [[7], [0, 5]]"
  using annex_b_units_roundtrip [of "[([0, 0, 0, 1], [7]), ([0, 0, 1], [0, 5])]"]
  by (simp add: start_code_def nal_clean_def less_Suc_eq starts_with_def)


section \<open>Decoder configuration\<close>

lemma from_annex_b_bounds:
  assumes "from_annex_b bytes = Inr p"
  shows "4 \<le> length (ps_sequence p)" "length (ps_sequence p) \<le> 65535" "ps_picture p \<noteq> []"
    "length (ps_picture p) \<le> 65535"
proof -
  from assms obtain units st where f0: "try_fold collect_parameter_set (None, None) units = Inr st"
    and g: "(case st of (Some sequence, Some picture) \<Rightarrow>
             if length sequence < 4 \<or> length sequence > 65535 \<or> length picture > 65535
             then Inl InvalidCodecHeaders
             else Inr \<lparr>ps_sequence = sequence, ps_picture = picture\<rparr>
         | _ \<Rightarrow> Inl InvalidCodecHeaders) = Inr p"
    unfolding from_annex_b_def and_then_Inr MAX_PARAMETER_SET_BYTES_def by blast
  from f0 g obtain sq pc where f: "try_fold collect_parameter_set (None, None) units = Inr (Some sq, Some pc)"
    and b: "\<not> length sq < 4" "\<not> length sq > 65535" "\<not> length pc > 65535"
    and p: "p = \<lparr>ps_sequence = sq, ps_picture = pc\<rparr>"
    by (auto split: prod.splits option.splits if_splits)
  have "(\<lambda>(_, pic). pic \<noteq> Some []) (Some sq, Some pc)"
    by (rule try_fold_invariant [OF f])
      (auto simp: collect_parameter_set_def result_iffs nal_type_def split: if_splits)
  with b p show "4 \<le> length (ps_sequence p)" "length (ps_sequence p) \<le> 65535" "ps_picture p \<noteq> []"
    "length (ps_picture p) \<le> 65535" by auto
qed

lemma skip_set:
  assumes "x \<noteq> []" "length x \<le> 65535" "length pre = k"
  shows "skip_avc_parameter_set (pre @ u16_to_be_bytes (word_of_nat (length x)) @ x @ post) k
    = Inr (k + 2 + length x)"
  using assms by (simp add: skip_avc_parameter_set_def slice_def unat_of_nat Let_def)

text \<open>Parameter sets taken from an encoder's headers always build a decoder configuration (the
  length conversions cannot panic), and that configuration passes the check a video stream makes
  of it.\<close>

theorem parameter_sets_configure:
  assumes "from_annex_b bytes = Inr p"
  shows "\<exists>config. avc_decoder_configuration p = Some config
    \<and> validate_avc_decoder_configuration config = Inr ()
    \<and> length config = 11 + length (ps_sequence p) + length (ps_picture p)"
proof -
  note b = from_annex_b_bounds [OF assms]
  let ?s = "ps_sequence p" and ?q = "ps_picture p"
  let ?hd = "[1, ?s ! 1, ?s ! 2, ?s ! 3, 0xff, 0xe1] :: u8 list"
  let ?sl = "u16_to_be_bytes (word_of_nat (length ?s))" and ?ql = "u16_to_be_bytes (word_of_nat (length ?q))"
  let ?c = "?hd @ ?sl @ ?s @ [1] @ ?ql @ ?q"
  have c: "avc_decoder_configuration p = Some ?c"
    using b by (simp add: avc_decoder_configuration_def try_from_def)
  have s1: "skip_avc_parameter_set ?c 6 = Inr (8 + length ?s)"
    using skip_set [of ?s ?hd 6 "[1] @ ?ql @ ?q"] b by fastforce
  have s2: "skip_avc_parameter_set ?c (9 + length ?s) = Inr (11 + length ?s + length ?q)"
    using skip_set [of ?q "?hd @ ?sl @ ?s @ [1]" "9 + length ?s" "[]"] b by simp
  have one: "skip_avc_parameter_sets (Suc 0) d off = skip_avc_parameter_set d off" for d off
    by (cases "skip_avc_parameter_set d off") simp_all
  have n: "?c ! (8 + length ?s) = 1" by (simp add: nth_append nth_Cons')
  have h: "?c ! 0 = 1" "?c ! 4 AND 3 = 3" "unat (?c ! 5 AND 0x1f) = Suc 0" by simp_all
  have len: "length ?c = 11 + length ?s + length ?q" by simp
  have "validate_avc_decoder_configuration ?c = Inr ()"
    unfolding validate_avc_decoder_configuration_def h Let_def one s1 and_then_simps n len
    using s2 b by (simp add: one del: skip_avc_parameter_sets.simps)
  with c len show ?thesis by blast
qed

definition sample_headers :: "u8 list" where
  "sample_headers = annex_b_join [([0, 0, 0, 1], [0x67, 0x64, 0x01, 0x28]), ([0, 0, 1], [0x68, 0xee])]"

theorem parameter_sets_configure_witness:
  "\<exists>p config. from_annex_b sample_headers = Inr p \<and> avc_decoder_configuration p = Some config
     \<and> validate_avc_decoder_configuration config = Inr ()"
proof -
  have "annex_b_units sample_headers = Inr (map snd [([0, 0, 0, 1] :: u8 list, [0x67, 0x64, 0x01, 0x28]), ([0, 0, 1], [0x68, 0xee])])"
    unfolding sample_headers_def
    by (rule annex_b_units_complete) (auto simp: start_code_def nal_clean_def less_Suc_eq starts_with_def)
  then have "is_ok (from_annex_b sample_headers)"
    by (simp add: from_annex_b_def collect_parameter_set_def nal_type_def H264_NAL_TYPE_MASK_def
        H264_NAL_TYPE_SPS_def H264_NAL_TYPE_PPS_def MAX_PARAMETER_SET_BYTES_def)
  then obtain p where "from_annex_b sample_headers = Inr p" by (auto simp: is_ok_iff)
  with parameter_sets_configure [OF this] show ?thesis by blast
qed

end
