(* ===== verification/Replay_Audio.thy ===== *)
theory Replay_Audio
  imports Replay_Ring
begin

text \<open>
  The bounded timeline of encoded audio, \<open>redunar-daemon/src/replay_audio.rs\<close>, with the Opus
  stream description and packet of \<open>redunar-capture-audio/src/opus.rs\<close>. The buffer is a second
  provider of the bounded-history interface: a push may evict expired packets even when it is
  then rejected.
\<close>

section \<open>Opus streams and packets\<close>

definition AUDIO_SAMPLE_RATE :: u32 where "AUDIO_SAMPLE_RATE = 48000"
definition AUDIO_CHANNELS :: u8 where "AUDIO_CHANNELS = 2"

record opus_stream_description =
  op_sample_rate :: u32
  op_channels :: u8
  op_codec_private :: "u8 list"

definition opus_default :: opus_stream_description where
  "opus_default =
     (let codec_private = replicate 19 0;
          codec_private = copy_at 0 (ascii ''OpusHead'') codec_private;
          codec_private = codec_private[8 := 1];
          codec_private = codec_private[9 := AUDIO_CHANNELS];
          codec_private = copy_at 10 (u16_to_le_bytes 312) codec_private;
          codec_private = copy_at 12 (u32_to_le_bytes AUDIO_SAMPLE_RATE) codec_private
      in \<lparr>op_sample_rate = AUDIO_SAMPLE_RATE, op_channels = AUDIO_CHANNELS,
          op_codec_private = codec_private\<rparr>)"

record encoded_opus_packet =
  ao_timestamp_ns :: u64
  ao_duration_ns :: u64
  ao_bytes :: "u8 list"

section \<open>The buffer\<close>

definition MAX_AUDIO_PACKET_BYTES :: nat where "MAX_AUDIO_PACKET_BYTES = 4096"
definition MAX_AUDIO_BUFFER_BYTES :: nat where "MAX_AUDIO_BUFFER_BYTES = 32 * 1024 * 1024"
definition MAX_AUDIO_PACKETS :: nat where "MAX_AUDIO_PACKETS = 45000"

datatype replay_audio_error = InvalidPacket | TimestampNotMonotonic | BufferLimitExceeded

record replay_audio_snapshot =
  as_stream :: opus_stream_description
  as_packets :: "encoded_opus_packet list"

record replay_audio_tracks =
  at_system :: replay_audio_snapshot
  at_microphone :: "replay_audio_snapshot option"

text \<open>\<open>bytes\<close> is a \<open>usize\<close> of 64 bits.\<close>

record replay_audio_buffer =
  ab_stream :: opus_stream_description
  ab_duration_ns :: u64
  ab_bytes :: nat
  ab_packets :: "encoded_opus_packet list"

definition audio_buffer_new :: "replay_duration \<Rightarrow> opus_stream_description \<Rightarrow> replay_audio_buffer" where
  "audio_buffer_new duration stream = \<lparr>ab_stream = stream,
     ab_duration_ns = saturating_mul (ucast (duration_seconds duration)) 1000000000,
     ab_bytes = 0, ab_packets = []\<rparr>"

fun evict_expired :: "u64 \<Rightarrow> encoded_opus_packet list \<Rightarrow> nat \<Rightarrow> encoded_opus_packet list \<times> nat" where
  "evict_expired keep_from [] bytes = ([], bytes)"
| "evict_expired keep_from (packet # rest) bytes =
     (if saturating_add (ao_timestamp_ns packet) (ao_duration_ns packet) \<le> keep_from
      then evict_expired keep_from rest (bytes - length (ao_bytes packet))
      else (packet # rest, bytes))"

definition evict_old :: "replay_audio_buffer \<Rightarrow> replay_audio_buffer" where
  "evict_old b =
     (case (if ab_packets b = [] then None
            else checked_add (ao_timestamp_ns (last (ab_packets b))) (ao_duration_ns (last (ab_packets b)))) of
        None \<Rightarrow> b
      | Some end_ns \<Rightarrow>
          (case evict_expired (saturating_sub end_ns (ab_duration_ns b)) (ab_packets b) (ab_bytes b) of
             (packets, bytes) \<Rightarrow> b\<lparr>ab_packets := packets, ab_bytes := bytes\<rparr>))"

definition audio_push :: "encoded_opus_packet \<Rightarrow> replay_audio_buffer \<Rightarrow>
    replay_audio_buffer \<times> (replay_audio_error + unit)" where
  "audio_push packet b =
     (if ao_bytes packet = [] \<or> length (ao_bytes packet) > MAX_AUDIO_PACKET_BYTES
         \<or> ao_duration_ns packet = 0
         \<or> checked_add (ao_timestamp_ns packet) (ao_duration_ns packet) = None
      then (b, Inl InvalidPacket)
      else if ab_packets b \<noteq> [] \<and> ao_timestamp_ns packet \<le> ao_timestamp_ns (last (ab_packets b))
      then (b, Inl TimestampNotMonotonic)
      else if \<not> ab_bytes b + length (ao_bytes packet) < 2 ^ 64 then (b, Inl BufferLimitExceeded)
      else
        (let b = evict_old (b\<lparr>ab_bytes := ab_bytes b + length (ao_bytes packet),
                             ab_packets := ab_packets b @ [packet]\<rparr>)
         in if ab_bytes b > MAX_AUDIO_BUFFER_BYTES \<or> length (ab_packets b) > MAX_AUDIO_PACKETS
            then ((if ab_packets b = [] then b
                   else b\<lparr>ab_packets := butlast (ab_packets b),
                          ab_bytes := ab_bytes b - length (ao_bytes (last (ab_packets b)))\<rparr>),
                  Inl BufferLimitExceeded)
            else (b, Inr ())))"

definition audio_clear :: "replay_audio_buffer \<Rightarrow> replay_audio_buffer" where
  "audio_clear b = b\<lparr>ab_packets := [], ab_bytes := 0\<rparr>"

definition packet_count :: "replay_audio_buffer \<Rightarrow> u64" where
  "packet_count b = word_of_nat (length (ab_packets b))"

definition byte_count :: "replay_audio_buffer \<Rightarrow> u64" where
  "byte_count b = word_of_nat (ab_bytes b)"

definition snapshot_between :: "u64 \<Rightarrow> u64 \<Rightarrow> replay_audio_buffer \<Rightarrow> replay_audio_snapshot" where
  "snapshot_between start_ns end_ns b = \<lparr>as_stream = ab_stream b,
     as_packets = filter (\<lambda>packet. ao_timestamp_ns packet < end_ns
       \<and> saturating_add (ao_timestamp_ns packet) (ao_duration_ns packet) > start_ns) (ab_packets b)\<rparr>"

section \<open>Invariant\<close>

definition audio_payload :: "encoded_opus_packet list \<Rightarrow> nat" where
  "audio_payload ps = sum_list (map (\<lambda>p. length (ao_bytes p)) ps)"

definition audio_packet_ok :: "encoded_opus_packet \<Rightarrow> bool" where
  "audio_packet_ok p \<longleftrightarrow> ao_bytes p \<noteq> [] \<and> length (ao_bytes p) \<le> MAX_AUDIO_PACKET_BYTES
     \<and> ao_duration_ns p \<noteq> 0 \<and> unat (ao_timestamp_ns p) + unat (ao_duration_ns p) < 2 ^ 64"

definition audio_increasing :: "encoded_opus_packet list \<Rightarrow> bool" where
  "audio_increasing ps \<longleftrightarrow> sorted_wrt (\<lambda>a b. ao_timestamp_ns a < ao_timestamp_ns b) ps"

definition audio_inv :: "replay_audio_buffer \<Rightarrow> bool" where
  "audio_inv b \<longleftrightarrow> ab_duration_ns b > 0 \<and> (\<forall>p \<in> set (ab_packets b). audio_packet_ok p)
     \<and> audio_increasing (ab_packets b) \<and> ab_bytes b = audio_payload (ab_packets b)
     \<and> ab_bytes b \<le> MAX_AUDIO_BUFFER_BYTES \<and> length (ab_packets b) \<le> MAX_AUDIO_PACKETS"

lemma audio_payload_simps [simp]: "audio_payload [] = 0"
  "audio_payload (p # ps) = length (ao_bytes p) + audio_payload ps"
  "audio_payload (ps @ qs) = audio_payload ps + audio_payload qs"
  by (simp_all add: audio_payload_def)

definition expired :: "u64 \<Rightarrow> encoded_opus_packet \<Rightarrow> bool" where
  "expired keep_from p \<longleftrightarrow> saturating_add (ao_timestamp_ns p) (ao_duration_ns p) \<le> keep_from"

lemma evict_expired_eq:
  "evict_expired k ps (n + audio_payload ps) =
     (dropWhile (expired k) ps, n + audio_payload (dropWhile (expired k) ps))"
  by (induction ps) (auto simp: expired_def add.left_commute)

lemma evict_expired_exact:
  "evict_expired k ps (audio_payload ps) = (dropWhile (expired k) ps, audio_payload (dropWhile (expired k) ps))"
  using evict_expired_eq [of k ps 0] by simp

text \<open>The window a push leaves: everything that ends after the newest end minus the duration,
  from the first such packet on.\<close>

definition audio_window :: "u64 \<Rightarrow> encoded_opus_packet list \<Rightarrow> encoded_opus_packet list" where
  "audio_window duration ps = dropWhile (expired (saturating_sub
     (ao_timestamp_ns (last ps) + ao_duration_ns (last ps)) duration)) ps"

lemma evict_old_exact:
  assumes "ps \<noteq> []" "audio_packet_ok (last ps)"
  shows "evict_old (b\<lparr>ab_bytes := audio_payload ps, ab_packets := ps\<rparr>) =
    b\<lparr>ab_bytes := audio_payload (audio_window (ab_duration_ns b) ps),
      ab_packets := audio_window (ab_duration_ns b) ps\<rparr>"
  using assms
  by (simp add: evict_old_def checked_add_def audio_packet_ok_def evict_expired_exact
      audio_window_def)

lemma audio_window_suffix: "suffix (audio_window d ps) ps"
  by (simp add: audio_window_def suffix_dropWhile)

lemma audio_window_keeps_last:
  assumes "audio_packet_ok p" "d > 0"
  shows "\<exists>qs. audio_window d (ps @ [p]) = qs @ [p] \<and> suffix qs ps"
proof -
  let ?e = "ao_timestamp_ns p + ao_duration_ns p"
  have e: "unat ?e = unat (ao_timestamp_ns p) + unat (ao_duration_ns p)" "0 < unat (ao_duration_ns p)"
    using assms(1) by (auto simp: audio_packet_ok_def unat_word_ariths unat_gt_0)
  have "unat (saturating_add (ao_timestamp_ns p) (ao_duration_ns p)) = unat ?e"
    using assms(1) by (simp add: unat_saturating_add e audio_packet_ok_def)
  then have "\<not> expired (saturating_sub ?e d) p"
    using assms(2) e by (simp add: expired_def word_le_nat_alt word_less_nat_alt unat_saturating_sub)
  then have "audio_window d (ps @ [p]) = dropWhile (expired (saturating_sub ?e d)) ps @ [p]"
    by (simp add: audio_window_def dropWhile_append3)
  then show ?thesis by (blast intro: suffix_dropWhile)
qed

lemma audio_push_exact:
  assumes "audio_inv b" "audio_packet_ok p"
  shows "audio_push p b =
    (let w = audio_window (ab_duration_ns b) (ab_packets b @ [p])
     in if ab_packets b \<noteq> [] \<and> ao_timestamp_ns p \<le> ao_timestamp_ns (last (ab_packets b))
        then (b, Inl TimestampNotMonotonic)
        else if audio_payload w > MAX_AUDIO_BUFFER_BYTES \<or> length w > MAX_AUDIO_PACKETS
        then (b\<lparr>ab_packets := butlast w, ab_bytes := audio_payload (butlast w)\<rparr>, Inl BufferLimitExceeded)
        else (b\<lparr>ab_packets := w, ab_bytes := audio_payload w\<rparr>, Inr ()))"
proof -
  let ?ps = "ab_packets b @ [p]"
  let ?w = "audio_window (ab_duration_ns b) ?ps"
  obtain qs where w: "?w = qs @ [p]"
    using audio_window_keeps_last [OF assms(2), of "ab_duration_ns b" "ab_packets b"] assms(1) by (auto simp: audio_inv_def)
  have bytes: "ab_bytes b = audio_payload (ab_packets b)"
    and small: "ab_bytes b + length (ao_bytes p) < 2 ^ 64"
    using assms by (simp_all add: audio_inv_def audio_packet_ok_def MAX_AUDIO_BUFFER_BYTES_def
        MAX_AUDIO_PACKET_BYTES_def)
  have "evict_old (b\<lparr>ab_bytes := ab_bytes b + length (ao_bytes p), ab_packets := ?ps\<rparr>)
      = b\<lparr>ab_bytes := audio_payload ?w, ab_packets := ?w\<rparr>"
    using evict_old_exact [of ?ps b] assms(2) by (simp add: bytes)
  then show ?thesis
    using assms(2) small
    by (auto simp: audio_push_def audio_packet_ok_def checked_add_def Let_def w)
qed

lemma audio_push_invalid: "\<not> audio_packet_ok p \<Longrightarrow> audio_push p b = (b, Inl InvalidPacket)"
  by (auto simp: audio_push_def audio_packet_ok_def checked_add_def)

lemma audio_inv_suffix:
  assumes "audio_inv b" "audio_packet_ok p" "suffix ps (ab_packets b @ [p])"
    "ab_packets b = [] \<or> ao_timestamp_ns (last (ab_packets b)) < ao_timestamp_ns p"
    "audio_payload ps \<le> MAX_AUDIO_BUFFER_BYTES" "length ps \<le> MAX_AUDIO_PACKETS"
  shows "audio_inv (b\<lparr>ab_packets := ps, ab_bytes := audio_payload ps\<rparr>)"
proof -
  have "audio_increasing (ab_packets b @ [p])"
    using assms(1,4)
    by (cases "ab_packets b" rule: rev_cases)
      (auto simp: audio_inv_def audio_increasing_def sorted_wrt_append intro: order_less_trans)
  then have "audio_increasing ps"
    using sorted_wrt_suffix [OF assms(3)] by (simp only: audio_increasing_def)
  moreover have "\<forall>q \<in> set ps. audio_packet_ok q"
    using assms(1,2) set_mono_suffix [OF assms(3)] by (auto simp: audio_inv_def)
  ultimately show ?thesis using assms by (simp add: audio_inv_def)
qed

lemma butlast_window:
  assumes "audio_inv b" "audio_packet_ok p"
  shows "suffix (butlast (audio_window (ab_duration_ns b) (ab_packets b @ [p]))) (ab_packets b)"
  using audio_window_keeps_last [OF assms(2), of "ab_duration_ns b" "ab_packets b"] assms(1)
  by (auto simp: audio_inv_def)

lemma audio_inv_shrink:
  "audio_inv b \<Longrightarrow> suffix ps (ab_packets b) \<Longrightarrow> audio_inv (b\<lparr>ab_packets := ps, ab_bytes := audio_payload ps\<rparr>)"
  by (auto simp: audio_inv_def suffix_def audio_increasing_def sorted_wrt_append)

lemma audio_push_inv:
  assumes "audio_inv b" "audio_push p b = (c, res)"
  shows "audio_inv c \<and> (res = Inr () \<longrightarrow> audio_packet_ok p
      \<and> ab_packets c = audio_window (ab_duration_ns b) (ab_packets b @ [p]) \<and> ab_duration_ns c = ab_duration_ns b
      \<and> ab_stream c = ab_stream b)
    \<and> (is_ok res \<or> suffix (ab_packets c) (ab_packets b))"
proof (cases "audio_packet_ok p")
  case False
  with assms show ?thesis by (auto simp: audio_push_invalid)
next
  case True
  let ?w = "audio_window (ab_duration_ns b) (ab_packets b @ [p])"
  have "audio_inv (b\<lparr>ab_packets := ?w, ab_bytes := audio_payload ?w\<rparr>)"
    if "ab_packets b = [] \<or> ao_timestamp_ns (last (ab_packets b)) < ao_timestamp_ns p"
      "audio_payload ?w \<le> MAX_AUDIO_BUFFER_BYTES" "length ?w \<le> MAX_AUDIO_PACKETS"
    by (rule audio_inv_suffix [OF assms(1) True audio_window_suffix that])
  with assms True butlast_window [OF assms(1) True] audio_inv_shrink [OF assms(1) butlast_window [OF assms(1) True]]
  show ?thesis
    by (auto simp: audio_push_exact Let_def not_le not_less split: if_splits)
qed

lemma audio_buffer_new_inv: "audio_inv (audio_buffer_new d stream)"
proof -
  have "ab_duration_ns (audio_buffer_new d stream) > 0"
    by (cases d) (simp_all add: audio_buffer_new_def saturating_mul_def)
  then show ?thesis by (simp add: audio_inv_def audio_increasing_def audio_buffer_new_def)
qed

interpretation audio: bounded_history ab_packets audio_inv "\<lambda>_. True"
  "\<lambda>p b. Some (audio_push p b)" audio_clear
proof unfold_locales
  fix b p c and res :: "replay_audio_error + unit"
  assume i: "audio_inv b"
  show "\<exists>t r. Some (audio_push p b) = Some (t, r)" by simp
  show "audio_inv c" if "Some (audio_push p b) = Some (c, res)"
    using audio_push_inv [OF i, of p c res] that by simp
  show "suffix (ab_packets c) (ab_packets b @ [p])" if "Some (audio_push p b) = Some (c, Inr u)" for u
    using audio_push_inv [OF i, of p c "Inr u"] that audio_window_suffix [of "ab_duration_ns b" "ab_packets b @ [p]"]
    by (simp del: suffix_snoc)
  show "suffix (ab_packets c) (ab_packets b)" if "Some (audio_push p b) = Some (c, Inl e)" for e
    using audio_push_inv [OF i, of p c "Inl e"] that by simp
qed (simp_all add: audio_inv_def audio_clear_def audio_increasing_def)

section \<open>Properties\<close>

fun audio_push_all :: "encoded_opus_packet list \<Rightarrow> replay_audio_buffer \<Rightarrow>
    replay_audio_error + replay_audio_buffer" where
  "audio_push_all [] b = Inr b"
| "audio_push_all (p # ps) b = (case audio_push p b of
       (c, Inl e) \<Rightarrow> Inl e
     | (c, Inr _) \<Rightarrow> audio_push_all ps c)"

definition audio_end :: "encoded_opus_packet \<Rightarrow> nat" where
  "audio_end p = unat (ao_timestamp_ns p) + unat (ao_duration_ns p)"

definition overlaps :: "u64 \<Rightarrow> u64 \<Rightarrow> encoded_opus_packet \<Rightarrow> bool" where
  "overlaps start_ns end_ns p \<longleftrightarrow> unat (ao_timestamp_ns p) < unat end_ns \<and> audio_end p > unat start_ns"

lemma snapshot_overlaps:
  assumes "\<forall>p \<in> set (ab_packets b). audio_packet_ok p"
  shows "as_packets (snapshot_between s e b) = filter (overlaps s e) (ab_packets b)"
  unfolding snapshot_between_def replay_audio_snapshot.simps
  by (rule filter_cong) (use assms in \<open>auto simp: overlaps_def audio_end_def word_less_nat_alt
    unat_saturating_add audio_packet_ok_def\<close>)

lemma window_drops_expired:
  assumes "audio_packet_ok p" "\<forall>q \<in> set ps. audio_packet_ok q"
  shows "\<exists>ds. ps @ [p] = ds @ audio_window d (ps @ [p]) \<and> (\<forall>q \<in> set ds. audio_end q + unat d \<le> audio_end p \<or> audio_end q = 0)"
proof -
  let ?k = "saturating_sub (ao_timestamp_ns p + ao_duration_ns p) d"
  let ?ds = "takeWhile (expired ?k) (ps @ [p])"
  have e: "unat (ao_timestamp_ns p + ao_duration_ns p) = audio_end p"
    using assms(1) by (simp add: audio_packet_ok_def audio_end_def unat_word_ariths)
  have old: "audio_end q + unat d \<le> audio_end p \<or> audio_end q = 0" if "q \<in> set ?ds" for q
  proof -
    from set_takeWhileD [OF that] have x: "expired ?k q" and "audio_packet_ok q" using assms by auto
    then have "unat (saturating_add (ao_timestamp_ns q) (ao_duration_ns q)) = audio_end q"
      by (simp add: unat_saturating_add audio_packet_ok_def audio_end_def)
    with x have "audio_end q \<le> audio_end p - unat d"
      by (simp add: expired_def word_le_nat_alt unat_saturating_sub e)
    then show ?thesis by linarith
  qed
  have "ps @ [p] = ?ds @ audio_window d (ps @ [p])"
    by (simp add: audio_window_def takeWhile_dropWhile_id del: takeWhile_append dropWhile_append)
  with old show ?thesis by (intro exI [of _ ?ds] conjI ballI)
qed

lemma audio_end_pos: "audio_packet_ok q \<Longrightarrow> 0 < audio_end q"
  by (simp add: audio_packet_ok_def audio_end_def unat_gt_0)

lemma audio_run_history:
  assumes "audio_push_all ps b = Inr c" "audio_inv b"
    "\<forall>p \<in> set ps. audio_end p \<le> s + unat (ab_duration_ns b)"
  shows "\<exists>ds. ab_packets b @ ps = ds @ ab_packets c \<and> (\<forall>q \<in> set ds. audio_end q \<le> s) \<and> audio_inv c"
  using assms
proof (induction ps arbitrary: b)
  case Nil
  then show ?case by (intro exI [of _ "[]"]) simp
next
  case (Cons p ps)
  then obtain d where d: "audio_push p b = (d, Inr ())" "audio_push_all ps d = Inr c"
    by (auto split: prod.splits sum.splits)
  note i = audio_push_inv [OF Cons.prems(2) d(1)]
  have inv_b: "\<forall>q \<in> set (ab_packets b). audio_packet_ok q" using Cons.prems(2) by (simp add: audio_inv_def)
  have ok: "audio_packet_ok p" using i by simp
  obtain ds where ds: "ab_packets b @ [p] = ds @ ab_packets d"
    "\<forall>q \<in> set ds. audio_end q + unat (ab_duration_ns b) \<le> audio_end p \<or> audio_end q = 0"
    using window_drops_expired [OF ok inv_b, of "ab_duration_ns b"] i by auto
  have old: "audio_end q \<le> s" if "q \<in> set ds" for q
    using ds(2) that Cons.prems(3) by fastforce
  obtain es where es: "ab_packets d @ ps = es @ ab_packets c" "\<forall>q \<in> set es. audio_end q \<le> s" "audio_inv c"
    using Cons.IH [OF d(2)] i Cons.prems(3) by auto
  have "ab_packets b @ p # ps = (ds @ es) @ ab_packets c"
    using ds(1) es(1) by (metis append.assoc append_Cons append_Nil)
  with old es show ?case by (intro exI [of _ "ds @ es"]) auto
qed

text \<open>C40: A save takes from the audio timeline every packet ever accepted that overlaps the clip,
  although the buffer evicts: if all pushes of a fresh buffer succeeded and no pushed packet ends later than the
  clip's start plus the configured duration, the snapshot is the filter of the whole pushed sequence.\<close>

theorem audio_snapshot_complete:
  assumes "audio_push_all ps (audio_buffer_new d stream) = Inr b"
    and "\<forall>p \<in> set ps. audio_end p \<le> unat start_ns + unat (ab_duration_ns b)"
  shows "as_packets (snapshot_between start_ns end_ns b) = filter (overlaps start_ns end_ns) ps"
proof -
  have dur: "ab_duration_ns b = ab_duration_ns (audio_buffer_new d stream)"
  proof -
    have "audio_inv c \<Longrightarrow> audio_push_all ps c = Inr b \<Longrightarrow> ab_duration_ns b = ab_duration_ns c" for c
    proof (induction ps arbitrary: c)
      case (Cons p ps)
      then obtain e where "audio_push p c = (e, Inr ())" "audio_push_all ps e = Inr b"
        by (auto split: prod.splits sum.splits)
      with Cons.IH [of e] audio_push_inv [OF Cons.prems(1), of p e] show ?case by simp
    qed simp
    then show ?thesis using assms(1) audio_buffer_new_inv by blast
  qed
  obtain ds where ds: "ps = ds @ ab_packets b" "\<forall>q \<in> set ds. audio_end q \<le> unat start_ns" "audio_inv b"
    using audio_run_history [OF assms(1) audio_buffer_new_inv, of "unat start_ns"] assms(2)
    by (auto simp: dur) (auto simp: audio_buffer_new_def)
  then have "filter (overlaps start_ns end_ns) ds = []"
    by (auto simp: filter_empty_conv overlaps_def not_less)
  with ds show ?thesis by (simp add: snapshot_overlaps audio_inv_def)
qed

definition sample_opus :: "u64 \<Rightarrow> encoded_opus_packet" where
  "sample_opus t = \<lparr>ao_timestamp_ns = t, ao_duration_ns = 20000000, ao_bytes = [7, 7]\<rparr>"

theorem audio_snapshot_complete_witness:
  "case audio_push_all [sample_opus 0, sample_opus 20000000, sample_opus 40000000]
      (audio_buffer_new Seconds15 opus_default) of Inl _ \<Rightarrow> False
   | Inr b \<Rightarrow> as_packets (snapshot_between 25000000 30000000 b) = [sample_opus 20000000]"
proof -
  let ?ps = "[sample_opus 0, sample_opus 20000000, sample_opus 40000000]"
  let ?b = "audio_buffer_new Seconds15 opus_default"
  have "is_ok (audio_push_all ?ps ?b)"
    by (simp add: sample_opus_def audio_buffer_new_def audio_push_def evict_old_def Let_def
        checked_add_def saturating_mul_def saturating_sub_def saturating_add_def
        MAX_AUDIO_PACKET_BYTES_def MAX_AUDIO_BUFFER_BYTES_def MAX_AUDIO_PACKETS_def)
  then obtain b where b: "audio_push_all ?ps ?b = Inr b" by (auto simp: is_ok_iff)
  have d: "\<forall>p \<in> set ?ps. audio_end p \<le> unat (25000000 :: u64) + n" if "n \<ge> 15000000000" for n
    using that by (simp add: audio_end_def sample_opus_def)
  have "unat (ab_duration_ns b) \<ge> 15000000000"
    using b by (auto simp: sample_opus_def audio_buffer_new_def audio_push_def evict_old_def Let_def
        checked_add_def saturating_mul_def saturating_sub_def saturating_add_def
        MAX_AUDIO_PACKET_BYTES_def MAX_AUDIO_BUFFER_BYTES_def MAX_AUDIO_PACKETS_def)
  from audio_snapshot_complete [OF b d [OF this], of 30000000] b show ?thesis
    by (simp add: overlaps_def audio_end_def sample_opus_def)
qed

end
