(* ===== verification/Ebml.thy ===== *)
theory Ebml
  imports Replay_Audio Video_Stream
begin

text \<open>
  The EBML primitives of \<open>redunar-daemon/src/replay_matroska.rs\<close>: variable-length integers,
  elements appended to byte vectors, and the counting writer every container writer shares. An
  output is an \<open>impl Write\<close> of the caller: \<open>sink\<close> decides from what was written so far and the next
  buffer whether \<open>write_all\<close> fails. A 64-bit float is computed with exact rounding to nearest even.
\<close>

type_synonym io_error = string

datatype matroska_error = EmptyRing | MissingInitialKeyframe | InvalidMuxPacket
  | MuxTimestampOverflow | ContainerTooLarge | Io io_error

definition MAX_EBML_SIZE :: u64 where "MAX_EBML_SIZE = push_bit 56 1 - 2"

section \<open>Writers\<close>

record counting_writer =
  cw_contents :: "u8 list"
  cw_written :: u64

type_synonym sink = "u8 list \<Rightarrow> u8 list \<Rightarrow> io_error option"

definition counting_writer_new :: counting_writer where
  "counting_writer_new = \<lparr>cw_contents = [], cw_written = 0\<rparr>"

definition write_all :: "sink \<Rightarrow> u8 list \<Rightarrow> counting_writer \<Rightarrow> matroska_error + counting_writer" where
  "write_all sink buffer w = (case sink (cw_contents w) buffer of
       Some e \<Rightarrow> Inl (Io e)
     | None \<Rightarrow> Inr \<lparr>cw_contents = cw_contents w @ buffer,
                   cw_written = saturating_add (cw_written w) (len_u64 buffer)\<rparr>)"

text \<open>Several calls one after the other, each with \<open>?\<close>.\<close>

definition in_order :: "('w \<Rightarrow> 'e + 'w) list \<Rightarrow> 'w \<Rightarrow> 'e + 'w" where
  "in_order ops w = try_fold (\<lambda>w op. op w) w ops"

section \<open>Variable-length integers\<close>

definition vint_fits :: "u64 \<Rightarrow> nat \<Rightarrow> bool" where
  "vint_fits value width \<longleftrightarrow> value < push_bit (7 * width) 1 - 1"

text \<open>\<open>(1..=8).find(..)\<close>.\<close>

definition find_vint_width :: "u64 \<Rightarrow> nat option" where
  "find_vint_width value = List.find (vint_fits value) [1, 2, 3, 4, 5, 6, 7, 8]"

definition encode_vint :: "u64 \<Rightarrow> matroska_error + u8 list" where
  "encode_vint value =
     (if value > MAX_EBML_SIZE then Inl ContainerTooLarge
      else and_then (ok_or (find_vint_width value) ContainerTooLarge) (\<lambda>width.
        let encoded = value OR push_bit (7 * width) 1
        in Inr (drop (8 - width) (u64_to_be_bytes encoded))))"

definition vint_width :: "u64 \<Rightarrow> u64" where
  "vint_width value = word_of_nat (unwrap_or (find_vint_width value) 8)"

definition leading_zeros :: "u64 \<Rightarrow> nat" where
  "leading_zeros w = length (takeWhile (\<lambda>i. \<not> bit w i) (rev [0..<64]))"

definition unsigned_width :: "u64 \<Rightarrow> u64" where
  "unsigned_width value = word_of_nat (max (8 - leading_zeros value div 8) 1)"

definition element_size :: "u8 list \<Rightarrow> u64 \<Rightarrow> u64" where
  "element_size ident content_size =
     saturating_add (saturating_add (len_u64 ident) (vint_width content_size)) content_size"

section \<open>Appending to byte vectors\<close>

type_synonym vec = "u8 list"

definition append_vint :: "u64 \<Rightarrow> vec \<Rightarrow> matroska_error + vec" where
  "append_vint value destination =
     and_then (encode_vint value) (\<lambda>encoded. Inr (destination @ encoded))"

definition append_master :: "u8 list \<Rightarrow> u8 list \<Rightarrow> vec \<Rightarrow> matroska_error + vec" where
  "append_master ident contents destination =
     and_then (append_vint (len_u64 contents) (destination @ ident)) (\<lambda>d. Inr (d @ contents))"

definition append_bytes :: "u8 list \<Rightarrow> u8 list \<Rightarrow> vec \<Rightarrow> matroska_error + vec" where
  "append_bytes ident value destination = append_master ident value destination"

definition append_unsigned :: "u8 list \<Rightarrow> u64 \<Rightarrow> vec \<Rightarrow> matroska_error + vec" where
  "append_unsigned ident value destination =
     (let width = unsigned_width value
      in and_then (append_vint width (destination @ ident)) (\<lambda>d.
           Inr (d @ drop (8 - unat width) (u64_to_be_bytes value))))"

section \<open>Floats\<close>

fun ilog2 :: "nat \<Rightarrow> nat" where
  "ilog2 n = (if n \<le> 1 then 0 else Suc (ilog2 (n div 2)))"

declare ilog2.simps [simp del]

definition round_half_even :: "nat \<Rightarrow> nat \<Rightarrow> nat" where
  "round_half_even n d = (let q = n div d; r = n mod d
     in if 2 * r < d then q else if 2 * r > d then q + 1 else if even q then q else q + 1)"

text \<open>\<open>n as f64\<close> for a \<open>u64\<close>, as the natural number that float is.\<close>

definition u64_as_f64 :: "nat \<Rightarrow> nat" where
  "u64_as_f64 n = (if n < 2 ^ 53 then n
     else let s = ilog2 n - 52 in round_half_even n (2 ^ s) * 2 ^ s)"

text \<open>How often \<open>n\<close> has to be doubled to reach \<open>d\<close>.\<close>

function doublings :: "nat \<Rightarrow> nat \<Rightarrow> nat" where
  "doublings n d = (if n = 0 \<or> d \<le> n then 0 else Suc (doublings (2 * n) d))"
  by pat_completeness auto
termination
  by (relation "measure (\<lambda>(n, d). d - n)") auto

declare doublings.simps [simp del]

text \<open>The bits of the float nearest to \<open>n / d\<close> for a quotient in the normal range.\<close>

definition f64_bits :: "nat \<Rightarrow> nat \<Rightarrow> u64" where
  "f64_bits n d =
     (if n = 0 then 0
      else if d \<le> n then
        (let e = ilog2 (n div d);
             m = (if e \<le> 52 then round_half_even (n * 2 ^ (52 - e)) d
                  else round_half_even n (d * 2 ^ (e - 52)))
         in word_of_nat ((e + 1022) * 2 ^ 52 + m))
      else
        (let k = doublings n d; m = round_half_even (n * 2 ^ (52 + k)) d
         in word_of_nat ((1022 - k) * 2 ^ 52 + m)))"

definition append_float :: "u8 list \<Rightarrow> u64 \<Rightarrow> vec \<Rightarrow> matroska_error + vec" where
  "append_float ident bits destination =
     and_then (append_vint 8 (destination @ ident)) (\<lambda>d. Inr (d @ u64_to_be_bytes bits))"

section \<open>Writing elements\<close>

definition write_master_header :: "sink \<Rightarrow> u8 list \<Rightarrow> u64 \<Rightarrow> counting_writer \<Rightarrow> matroska_error + counting_writer" where
  "write_master_header sink ident content_size w =
     and_then (write_all sink ident w) (\<lambda>w.
       and_then (encode_vint content_size) (\<lambda>encoded. write_all sink encoded w))"

definition write_element :: "sink \<Rightarrow> u8 list \<Rightarrow> u8 list \<Rightarrow> counting_writer \<Rightarrow> matroska_error + counting_writer" where
  "write_element sink ident contents w =
     and_then (write_master_header sink ident (len_u64 contents) w) (write_all sink contents)"

definition write_unsigned :: "sink \<Rightarrow> u8 list \<Rightarrow> u64 \<Rightarrow> counting_writer \<Rightarrow> matroska_error + counting_writer" where
  "write_unsigned sink ident value w =
     and_then (write_all sink ident w) (\<lambda>w.
       let width = unsigned_width value
       in and_then (encode_vint width) (\<lambda>encoded.
            and_then (write_all sink encoded w)
              (write_all sink (drop (8 - unat width) (u64_to_be_bytes value)))))"

end
