(* ===== verification/Matroska.thy ===== *)
theory Matroska
  imports Ebml
begin

text \<open>
  The three container writers of \<open>redunar-daemon/src/replay_matroska.rs\<close> and the in-memory packet
  source of \<open>replay_packet_source.rs\<close>: video only, audio and video with sized clusters, and the
  streaming writer with unknown-sized clusters. The atomic cancellation flag is set by another
  thread: \<open>mp_cancel n\<close> says what the \<open>n\<close>-th load of it sees.
\<close>

definition TIMESTAMP_SCALE_NS :: u64 where "TIMESTAMP_SCALE_NS = 1000000"
definition MAX_CLUSTER_DURATION_MS :: u64 where "MAX_CLUSTER_DURATION_MS = 30000"

definition ID_EBML :: "u8 list" where "ID_EBML = [0x1a, 0x45, 0xdf, 0xa3]"
definition ID_SEGMENT :: "u8 list" where "ID_SEGMENT = [0x18, 0x53, 0x80, 0x67]"
definition ID_INFO :: "u8 list" where "ID_INFO = [0x15, 0x49, 0xa9, 0x66]"
definition ID_DURATION :: "u8 list" where "ID_DURATION = [0x44, 0x89]"
definition ID_TRACKS :: "u8 list" where "ID_TRACKS = [0x16, 0x54, 0xae, 0x6b]"
definition ID_CLUSTER :: "u8 list" where "ID_CLUSTER = [0x1f, 0x43, 0xb6, 0x75]"
definition ID_SIMPLE_BLOCK :: "u8 list" where "ID_SIMPLE_BLOCK = [0xa3]"
definition ID_TIMESTAMP :: "u8 list" where "ID_TIMESTAMP = [0xe7]"
definition UNKNOWN_SIZE :: "u8 list" where
  "UNKNOWN_SIZE = [0x01, 0xff, 0xff, 0xff, 0xff, 0xff, 0xff, 0xff]"

section \<open>Packet source\<close>

record memory_packets =
  mp_packets :: "encoded_replay_packet list"
  mp_window :: "u64 \<times> u64"
  mp_cancel :: "nat \<Rightarrow> bool"
  mp_loads :: nat

definition memory_packets_new :: "replay_ring \<Rightarrow> (nat \<Rightarrow> bool) \<Rightarrow> io_error + memory_packets" where
  "memory_packets_new ring cancel = (case rr_packets ring of
       [] \<Rightarrow> Inl ''empty Replay snapshot''
     | first # rest \<Rightarrow>
         let lst = last (first # rest)
         in Inr \<lparr>mp_packets = first # rest,
                 mp_window = (pk_timestamp_ns first, pk_timestamp_ns lst + pk_duration_ns lst),
                 mp_cancel = cancel, mp_loads = 0\<rparr>)"

definition check_cancel :: "memory_packets \<Rightarrow> io_error + memory_packets" where
  "check_cancel src = (if mp_cancel src (mp_loads src) then Inl ''Replay save cancelled''
     else Inr (src\<lparr>mp_loads := mp_loads src + 1\<rparr>))"

definition next_packet :: "memory_packets \<Rightarrow>
    io_error + (encoded_replay_packet option \<times> memory_packets)" where
  "next_packet src = and_then (check_cancel src) (\<lambda>src. case mp_packets src of
       [] \<Rightarrow> Inr (None, src)
     | packet # rest \<Rightarrow> Inr (Some packet, src\<lparr>mp_packets := rest\<rparr>))"

section \<open>Blocks\<close>

datatype matroska_block = Video encoded_replay_packet | Audio encoded_opus_packet u8

primrec block_timestamp_ns :: "matroska_block \<Rightarrow> u64" where
  "block_timestamp_ns (Video p) = pk_timestamp_ns p"
| "block_timestamp_ns (Audio p _) = ao_timestamp_ns p"

primrec block_bytes :: "matroska_block \<Rightarrow> u8 list" where
  "block_bytes (Video p) = pk_bytes p"
| "block_bytes (Audio p _) = ao_bytes p"

primrec track_byte :: "matroska_block \<Rightarrow> u8" where
  "track_byte (Video _) = 0x81"
| "track_byte (Audio _ track) = 0x80 OR track"

primrec block_flags :: "matroska_block \<Rightarrow> u8" where
  "block_flags (Video p) = (if pk_keyframe p then 0x80 else 0)"
| "block_flags (Audio _ _) = 0x80"

definition invalid_audio_packet :: "encoded_opus_packet \<Rightarrow> bool" where
  "invalid_audio_packet p \<longleftrightarrow> ao_bytes p = [] \<or> length (ao_bytes p) > 4096 \<or> ao_duration_ns p = 0
     \<or> checked_add (ao_timestamp_ns p) (ao_duration_ns p) = None"

definition relative_milliseconds :: "u64 \<Rightarrow> u64 \<Rightarrow> matroska_error + u64" where
  "relative_milliseconds timestamp_ns origin_ns =
     ok_or (map_option (\<lambda>relative. relative div TIMESTAMP_SCALE_NS) (checked_sub timestamp_ns origin_ns))
       MuxTimestampOverflow"

text \<open>\<open>i16::try_from(value).ok()\<close> of a \<open>u64\<close>; the result is not negative.\<close>

definition i16_try_from :: "u64 \<Rightarrow> u16 option" where
  "i16_try_from value = (if unat value \<le> 32767 then Some (ucast value) else None)"

definition block_relative :: "u64 \<Rightarrow> u64 \<Rightarrow> matroska_error + u16" where
  "block_relative timestamp_ms cluster_timestamp_ms =
     ok_or (Option.bind (checked_sub timestamp_ms cluster_timestamp_ms) i16_try_from) MuxTimestampOverflow"

section \<open>Headers\<close>

definition write_ebml_header :: "sink \<Rightarrow> counting_writer \<Rightarrow> matroska_error + counting_writer" where
  "write_ebml_header sink w =
     and_then (in_order
       [append_unsigned [0x42, 0x86] 1, append_unsigned [0x42, 0xf7] 1, append_unsigned [0x42, 0xf2] 4,
        append_unsigned [0x42, 0xf3] 8, append_bytes [0x42, 0x82] (ascii ''matroska''),
        append_unsigned [0x42, 0x87] 4, append_unsigned [0x42, 0x85] 2] [])
       (\<lambda>contents. write_element sink ID_EBML contents w)"

definition write_info :: "sink \<Rightarrow> u64 \<Rightarrow> counting_writer \<Rightarrow> matroska_error + counting_writer" where
  "write_info sink duration_ns w =
     and_then (in_order
       [append_unsigned [0x2a, 0xd7, 0xb1] TIMESTAMP_SCALE_NS,
        append_float ID_DURATION
          (f64_bits (u64_as_f64 (unat duration_ns)) (u64_as_f64 (unat TIMESTAMP_SCALE_NS))),
        append_bytes [0x4d, 0x80] (ascii ''Redunar''), append_bytes [0x57, 0x41] (ascii ''Redunar'')] [])
       (\<lambda>contents. write_element sink ID_INFO contents w)"

definition video_settings :: "replay_video_stream \<Rightarrow> matroska_error + vec" where
  "video_settings stream = in_order
     [append_unsigned [0xb0] (ucast (vs_width stream)), append_unsigned [0xba] (ucast (vs_height stream))] []"

text \<open>The quotient by the frame rate panics for a rate of 0, which no stream has.\<close>

definition write_tracks :: "sink \<Rightarrow> replay_video_stream \<Rightarrow> counting_writer \<Rightarrow> matroska_error + counting_writer" where
  "write_tracks sink stream w =
     and_then (video_settings stream) (\<lambda>video.
     and_then (in_order
       ([append_unsigned [0xd7] 1, append_unsigned [0x73, 0xc5] 1, append_unsigned [0x83] 1,
         append_unsigned [0x9c] 0,
         append_unsigned [0x23, 0xe3, 0x83] (1000000000 div ucast (vs_frames_per_second stream)),
         append_bytes [0x86] (matroska_codec_id (vs_codec stream))]
        @ (if vs_codec_private stream \<noteq> [] then [append_bytes [0x63, 0xa2] (vs_codec_private stream)] else [])
        @ [append_master [0xe0] video]) []) (\<lambda>track.
     and_then (append_master [0xae] track []) (\<lambda>tracks.
       write_element sink ID_TRACKS tracks w)))"

definition audio_track :: "u64 \<Rightarrow> u8 list \<Rightarrow> opus_stream_description \<Rightarrow> matroska_error + vec" where
  "audio_track number name stream =
     and_then (in_order
       [append_float [0xb5] (f64_bits (unat (op_sample_rate stream)) 1),
        append_unsigned [0x9f] (ucast (op_channels stream))] []) (\<lambda>settings.
     in_order
       [append_unsigned [0xd7] number, append_unsigned [0x73, 0xc5] number,
        append_bytes [0x53, 0x6e] name, append_unsigned [0x83] 2, append_unsigned [0x9c] 0,
        append_unsigned [0x56, 0xaa] 6500000, append_unsigned [0x56, 0xbb] 80000000,
        append_bytes [0x86] (ascii ''A_OPUS''), append_bytes [0x63, 0xa2] (op_codec_private stream),
        append_master [0xe1] settings] [])"

definition write_audio_video_tracks :: "sink \<Rightarrow> replay_video_stream \<Rightarrow> replay_audio_snapshot \<Rightarrow>
    replay_audio_snapshot option \<Rightarrow> counting_writer \<Rightarrow> matroska_error + counting_writer" where
  "write_audio_video_tracks sink stream audio microphone w =
     and_then (video_settings stream) (\<lambda>video.
     and_then (in_order
       [append_unsigned [0xd7] 1, append_unsigned [0x73, 0xc5] 1, append_unsigned [0x83] 1,
        append_unsigned [0x9c] 0, append_bytes [0x86] (matroska_codec_id (vs_codec stream)),
        append_bytes [0x63, 0xa2] (vs_codec_private stream), append_master [0xe0] video] [])
       (\<lambda>video_track.
     and_then (audio_track 2 (ascii ''System audio'') (as_stream audio)) (\<lambda>system_track.
     and_then (in_order [append_master [0xae] video_track, append_master [0xae] system_track] [])
       (\<lambda>tracks.
     and_then (case microphone of None \<Rightarrow> Inr tracks
        | Some mic \<Rightarrow> and_then (audio_track 3 (ascii ''Microphone'') (as_stream mic))
                        (\<lambda>track. append_master [0xae] track tracks)) (\<lambda>tracks.
       write_element sink ID_TRACKS tracks w)))))"

section \<open>Video-only clips\<close>

fun cluster_end_loop :: "encoded_replay_packet list \<Rightarrow> u64 \<Rightarrow> u64 \<Rightarrow> nat \<Rightarrow> matroska_error + nat" where
  "cluster_end_loop [] origin_ns cluster_timestamp_ms stop = Inr stop"
| "cluster_end_loop (packet # rest) origin_ns cluster_timestamp_ms stop =
     and_then (relative_milliseconds (pk_timestamp_ns packet) origin_ns) (\<lambda>timestamp_ms.
     and_then (ok_or (checked_sub timestamp_ms cluster_timestamp_ms) MuxTimestampOverflow) (\<lambda>relative.
       if relative > MAX_CLUSTER_DURATION_MS \<or> relative > 32767 then Inr stop
       else cluster_end_loop rest origin_ns cluster_timestamp_ms (stop + 1)))"

definition cluster_end :: "encoded_replay_packet list \<Rightarrow> nat \<Rightarrow> u64 \<Rightarrow> u64 \<Rightarrow> matroska_error + nat" where
  "cluster_end packets start origin_ns cluster_timestamp_ms =
     cluster_end_loop (drop (start + 1) packets) origin_ns cluster_timestamp_ms (start + 1)"

definition write_packet_block :: "sink \<Rightarrow> u64 \<Rightarrow> u64 \<Rightarrow> counting_writer \<Rightarrow> encoded_replay_packet \<Rightarrow>
    matroska_error + counting_writer" where
  "write_packet_block sink origin_ns cluster_timestamp_ms w packet =
     and_then (relative_milliseconds (pk_timestamp_ns packet) origin_ns) (\<lambda>timestamp_ms.
     and_then (block_relative timestamp_ms cluster_timestamp_ms) (\<lambda>relative.
     and_then (ok_or (checked_add 4 (len_u64 (pk_bytes packet))) ContainerTooLarge) (\<lambda>payload_size.
       in_order [write_master_header sink ID_SIMPLE_BLOCK payload_size, write_all sink [0x81],
         write_all sink (u16_to_be_bytes relative), write_all sink [if pk_keyframe packet then 0x80 else 0],
         write_all sink (pk_bytes packet)] w)))"

definition cluster_content_size :: "encoded_replay_packet list \<Rightarrow> u64 \<Rightarrow> matroska_error + u64" where
  "cluster_content_size packets cluster_timestamp_ms =
     try_fold (\<lambda>sum packet.
         and_then (ok_or (checked_add 4 (len_u64 (pk_bytes packet))) ContainerTooLarge) (\<lambda>block_payload.
           ok_or (checked_add sum (element_size ID_SIMPLE_BLOCK block_payload)) ContainerTooLarge))
       (element_size ID_TIMESTAMP (unsigned_width cluster_timestamp_ms)) packets"

definition write_cluster :: "sink \<Rightarrow> encoded_replay_packet list \<Rightarrow> u64 \<Rightarrow> u64 \<Rightarrow> counting_writer \<Rightarrow>
    matroska_error + counting_writer" where
  "write_cluster sink packets origin_ns cluster_timestamp_ms w =
     and_then (cluster_content_size packets cluster_timestamp_ms) (\<lambda>content_size.
     and_then (write_master_header sink ID_CLUSTER content_size w) (\<lambda>w.
     and_then (write_unsigned sink ID_TIMESTAMP cluster_timestamp_ms w) (\<lambda>w.
       try_fold (write_packet_block sink origin_ns cluster_timestamp_ms) w packets)))"

lemma cluster_end_loop_ge: "cluster_end_loop ps o' t n = Inr k \<Longrightarrow> n \<le> k"
  by (induction ps arbitrary: n) (auto simp: and_then_Inr Suc_leD split: if_splits)

function write_clusters :: "sink \<Rightarrow> encoded_replay_packet list \<Rightarrow> u64 \<Rightarrow> nat \<Rightarrow> u32 \<Rightarrow> counting_writer \<Rightarrow>
    matroska_error + (u32 \<times> counting_writer)" where
  "write_clusters sink packets origin_ns index clusters w =
     (if index < length packets then
        (case relative_milliseconds (pk_timestamp_ns (packets ! index)) origin_ns of
           Inl e \<Rightarrow> Inl e
         | Inr cluster_timestamp_ms \<Rightarrow>
             (case cluster_end packets index origin_ns cluster_timestamp_ms of
                Inl e \<Rightarrow> Inl e
              | Inr stop \<Rightarrow>
                  (case write_cluster sink (slice index (stop - index) packets) origin_ns
                          cluster_timestamp_ms w of
                     Inl e \<Rightarrow> Inl e
                   | Inr w \<Rightarrow> write_clusters sink packets origin_ns stop (saturating_add clusters 1) w)))
      else Inr (clusters, w))"
  by pat_completeness auto
termination
  by (relation "measure (\<lambda>(sink, packets, origin_ns, index, clusters, w). length packets - index)")
    (auto simp: cluster_end_def dest!: cluster_end_loop_ge)

declare write_clusters.simps [simp del]

record matroska_summary =
  ms_packets :: u32
  ms_clusters :: u32
  ms_duration_ns :: u64
  ms_bytes_written :: u64

text \<open>The writers return the summary and, for the model, the bytes the destination received.\<close>

definition write_video_only_matroska :: "sink \<Rightarrow> replay_video_stream \<Rightarrow> replay_ring \<Rightarrow>
    matroska_error + (matroska_summary \<times> u8 list)" where
  "write_video_only_matroska sink stream ring =
     (let packets = rr_packets ring
      in if packets = [] then Inl EmptyRing
         else if \<not> pk_keyframe (hd packets) then Inl MissingInitialKeyframe
         else
           and_then (try_all (\<lambda>packet. map_err (\<lambda>_. InvalidMuxPacket)
                       (validate_packet stream (pk_bytes packet))) packets) (\<lambda>_.
           and_then (ok_or (Option.bind
                        (checked_add (pk_timestamp_ns (last packets)) (pk_duration_ns (last packets)))
                        (\<lambda>stop. checked_sub stop (pk_timestamp_ns (hd packets)))) MuxTimestampOverflow)
             (\<lambda>duration_ns.
           and_then (in_order [write_ebml_header sink, write_all sink ID_SEGMENT,
                       write_all sink UNKNOWN_SIZE, write_info sink duration_ns,
                       write_tracks sink stream] counting_writer_new) (\<lambda>w.
           and_then (write_clusters sink packets (pk_timestamp_ns (hd packets)) 0 0 w) (\<lambda>(clusters, w).
             Inr (\<lparr>ms_packets = unwrap_or (try_from (length packets)) (- 1), ms_clusters = clusters,
                    ms_duration_ns = duration_ns, ms_bytes_written = cw_written w\<rparr>, cw_contents w))))))"

section \<open>Clips with audio\<close>

definition write_block :: "sink \<Rightarrow> u64 \<Rightarrow> u64 \<Rightarrow> counting_writer \<Rightarrow> matroska_block \<Rightarrow>
    matroska_error + counting_writer" where
  "write_block sink origin_ns cluster_timestamp_ms w block =
     and_then (relative_milliseconds (block_timestamp_ns block) origin_ns) (\<lambda>timestamp_ms.
     and_then (block_relative timestamp_ms cluster_timestamp_ms) (\<lambda>relative.
       in_order [write_master_header sink ID_SIMPLE_BLOCK (saturating_add 4 (len_u64 (block_bytes block))),
         write_all sink [track_byte block], write_all sink (u16_to_be_bytes relative),
         write_all sink [block_flags block], write_all sink (block_bytes block)] w))"

definition write_av_cluster :: "sink \<Rightarrow> matroska_block list \<Rightarrow> u64 \<Rightarrow> u64 \<Rightarrow> counting_writer \<Rightarrow>
    matroska_error + counting_writer" where
  "write_av_cluster sink blocks origin_ns cluster_timestamp_ms w =
     and_then (try_fold (\<lambda>sum block.
           ok_or (checked_add sum (element_size ID_SIMPLE_BLOCK
                    (saturating_add 4 (len_u64 (block_bytes block))))) ContainerTooLarge)
         (element_size ID_TIMESTAMP (unsigned_width cluster_timestamp_ms)) blocks) (\<lambda>content_size.
     and_then (write_master_header sink ID_CLUSTER content_size w) (\<lambda>w.
     and_then (write_unsigned sink ID_TIMESTAMP cluster_timestamp_ms w) (\<lambda>w.
       try_fold (write_block sink origin_ns cluster_timestamp_ms) w blocks)))"

fun av_cluster_end :: "matroska_block list \<Rightarrow> u64 \<Rightarrow> u64 \<Rightarrow> nat \<Rightarrow> matroska_error + nat" where
  "av_cluster_end [] origin_ns cluster_timestamp_ms stop = Inr stop"
| "av_cluster_end (block # rest) origin_ns cluster_timestamp_ms stop =
     and_then (relative_milliseconds (block_timestamp_ns block) origin_ns) (\<lambda>timestamp_ms.
       if saturating_sub timestamp_ms cluster_timestamp_ms \<le> MAX_CLUSTER_DURATION_MS
       then av_cluster_end rest origin_ns cluster_timestamp_ms (stop + 1) else Inr stop)"

lemma av_cluster_end_ge: "av_cluster_end ps o' t n = Inr k \<Longrightarrow> n \<le> k"
  by (induction ps arbitrary: n) (auto simp: and_then_Inr Suc_leD split: if_splits)

function write_av_clusters :: "sink \<Rightarrow> matroska_block list \<Rightarrow> u64 \<Rightarrow> nat \<Rightarrow> u32 \<Rightarrow> counting_writer \<Rightarrow>
    matroska_error + (u32 \<times> counting_writer)" where
  "write_av_clusters sink blocks origin_ns start clusters w =
     (if start < length blocks then
        (case relative_milliseconds (block_timestamp_ns (blocks ! start)) origin_ns of
           Inl e \<Rightarrow> Inl e
         | Inr cluster_timestamp_ms \<Rightarrow>
             (case av_cluster_end (drop (start + 1) blocks) origin_ns cluster_timestamp_ms (start + 1) of
                Inl e \<Rightarrow> Inl e
              | Inr stop \<Rightarrow>
                  (case write_av_cluster sink (slice start (stop - start) blocks) origin_ns
                          cluster_timestamp_ms w of
                     Inl e \<Rightarrow> Inl e
                   | Inr w \<Rightarrow> write_av_clusters sink blocks origin_ns stop (saturating_add clusters 1) w)))
      else Inr (clusters, w))"
  by pat_completeness auto
termination
  by (relation "measure (\<lambda>(sink, blocks, origin_ns, start, clusters, w). length blocks - start)")
    (auto dest!: av_cluster_end_ge)

declare write_av_clusters.simps [simp del]

definition in_window :: "u64 \<Rightarrow> u64 \<Rightarrow> encoded_opus_packet \<Rightarrow> bool" where
  "in_window origin stop p \<longleftrightarrow> ao_timestamp_ns p \<ge> origin \<and> ao_timestamp_ns p < stop"

definition microphone_packets :: "replay_audio_tracks \<Rightarrow> encoded_opus_packet list" where
  "microphone_packets audio = (case at_microphone audio of None \<Rightarrow> [] | Some mic \<Rightarrow> as_packets mic)"

definition write_audio_video_matroska_tracks :: "sink \<Rightarrow> replay_video_stream \<Rightarrow> replay_ring \<Rightarrow>
    replay_audio_tracks \<Rightarrow> matroska_error + (matroska_summary \<times> u8 list)" where
  "write_audio_video_matroska_tracks sink stream ring audio =
     (let video = rr_packets ring
      in if video = [] then Inl EmptyRing
         else if \<not> pk_keyframe (hd video) then Inl MissingInitialKeyframe
         else
           and_then (try_all (\<lambda>packet. map_err (\<lambda>_. InvalidMuxPacket)
                       (validate_packet stream (pk_bytes packet))) video) (\<lambda>_.
           and_then (ok_or (checked_add (pk_timestamp_ns (last video)) (pk_duration_ns (last video)))
                       MuxTimestampOverflow) (\<lambda>video_end.
             let origin_ns = pk_timestamp_ns (hd video);
                 audio_packets = filter (in_window origin_ns video_end) (as_packets (at_system audio));
                 mic_packets = filter (in_window origin_ns video_end) (microphone_packets audio)
             in if list_ex invalid_audio_packet (audio_packets @ mic_packets) then Inl InvalidMuxPacket
                else
                  let blocks = sort_key block_timestamp_ns (map Video video
                        @ map (\<lambda>p. Audio p 2) audio_packets @ map (\<lambda>p. Audio p 3) mic_packets)
                  in and_then (in_order [write_ebml_header sink, write_all sink ID_SEGMENT,
                       write_all sink UNKNOWN_SIZE, write_info sink (saturating_sub video_end origin_ns),
                       write_audio_video_tracks sink stream (at_system audio) (at_microphone audio)]
                       counting_writer_new) (\<lambda>w.
                     and_then (write_av_clusters sink blocks origin_ns 0 0 w) (\<lambda>(clusters, w).
                       Inr (\<lparr>ms_packets = unwrap_or (try_from (length video)) (- 1), ms_clusters = clusters,
                              ms_duration_ns = saturating_sub video_end origin_ns,
                              ms_bytes_written = cw_written w\<rparr>, cw_contents w))))))"

definition write_audio_video_matroska :: "sink \<Rightarrow> replay_video_stream \<Rightarrow> replay_ring \<Rightarrow>
    replay_audio_snapshot \<Rightarrow> matroska_error + (matroska_summary \<times> u8 list)" where
  "write_audio_video_matroska sink stream ring audio =
     write_audio_video_matroska_tracks sink stream ring \<lparr>at_system = audio, at_microphone = None\<rparr>"

section \<open>Streaming\<close>

definition write_streaming_block :: "sink \<Rightarrow> u64 \<Rightarrow> counting_writer \<times> u64 option \<Rightarrow> matroska_block \<Rightarrow>
    matroska_error + (counting_writer \<times> u64 option)" where
  "write_streaming_block sink origin st block = (case st of (w, cluster) \<Rightarrow>
     if (case block of Audio p _ \<Rightarrow> invalid_audio_packet p | Video _ \<Rightarrow> False) then Inl InvalidMuxPacket
     else
       and_then (relative_milliseconds (block_timestamp_ns block) origin) (\<lambda>timestamp.
       and_then
         (if (case cluster of None \<Rightarrow> True
              | Some start \<Rightarrow> saturating_sub timestamp start > MAX_CLUSTER_DURATION_MS)
          then and_then (in_order [write_all sink ID_CLUSTER, write_all sink UNKNOWN_SIZE,
                 write_unsigned sink ID_TIMESTAMP timestamp] w) (\<lambda>w. Inr (w, Some timestamp))
          else Inr (w, cluster)) (\<lambda>(w, cluster).
       and_then (block_relative timestamp (unwrap_or cluster timestamp)) (\<lambda>relative.
       and_then (in_order [write_master_header sink ID_SIMPLE_BLOCK (4 + len_u64 (block_bytes block)),
           write_all sink [track_byte block], write_all sink (u16_to_be_bytes relative),
           write_all sink [block_flags block], write_all sink (block_bytes block)] w) (\<lambda>w.
         Inr (w, cluster))))))"

definition audio_before :: "u64 \<Rightarrow> matroska_block \<Rightarrow> bool" where
  "audio_before t b \<longleftrightarrow> block_timestamp_ns b < t"

function streaming_loop :: "sink \<Rightarrow> replay_video_stream \<Rightarrow> u64 \<Rightarrow> memory_packets \<Rightarrow> matroska_block list \<Rightarrow>
    bool \<Rightarrow> counting_writer \<times> u64 option \<Rightarrow>
    matroska_error + (memory_packets \<times> matroska_block list \<times> bool \<times> counting_writer \<times> u64 option)" where
  "streaming_loop sink stream origin src audio first st =
     (case next_packet src of
        Inl e \<Rightarrow> Inl (Io e)
      | Inr (None, src) \<Rightarrow> Inr (src, audio, first, st)
      | Inr (Some packet, src) \<Rightarrow>
          if first \<and> \<not> pk_keyframe packet then Inl MissingInitialKeyframe
          else case map_err (\<lambda>_. InvalidMuxPacket) (validate_packet stream (pk_bytes packet)) of
            Inl e \<Rightarrow> Inl e
          | Inr _ \<Rightarrow>
              (case try_fold (write_streaming_block sink origin) st
                      (takeWhile (audio_before (pk_timestamp_ns packet)) audio) of
                 Inl e \<Rightarrow> Inl e
               | Inr st \<Rightarrow>
                   (case write_streaming_block sink origin st (Video packet) of
                      Inl e \<Rightarrow> Inl e
                    | Inr st \<Rightarrow> streaming_loop sink stream origin src
                        (dropWhile (audio_before (pk_timestamp_ns packet)) audio) False st)))"
  by pat_completeness auto
termination
  by (relation "measure (\<lambda>(sink, stream, origin, src, audio, first, st). length (mp_packets src))")
    (auto simp: next_packet_def check_cancel_def split: if_splits list.splits)

declare streaming_loop.simps [simp del]

fun streaming_tail :: "sink \<Rightarrow> u64 \<Rightarrow> memory_packets \<Rightarrow> matroska_block list \<Rightarrow>
    counting_writer \<times> u64 option \<Rightarrow> matroska_error + (counting_writer \<times> u64 option)" where
  "streaming_tail sink origin src [] st = Inr st"
| "streaming_tail sink origin src (b # bs) st =
     and_then (map_err Io (check_cancel src)) (\<lambda>src.
       and_then (write_streaming_block sink origin st b) (streaming_tail sink origin src bs))"

definition streaming_audio :: "replay_audio_tracks \<Rightarrow> u64 \<Rightarrow> u64 \<Rightarrow> matroska_block list" where
  "streaming_audio audio origin stop =
     sort_key block_timestamp_ns
       (map (\<lambda>(p, track). Audio p track)
         (filter (\<lambda>(p, track). in_window origin stop p)
           (map (\<lambda>p. (p, 2)) (as_packets (at_system audio)) @ map (\<lambda>p. (p, 3)) (microphone_packets audio))))"

definition write_streaming_matroska_tracks :: "sink \<Rightarrow> replay_video_stream \<Rightarrow> memory_packets \<Rightarrow>
    replay_audio_tracks \<Rightarrow> matroska_error + (u64 \<times> u8 list)" where
  "write_streaming_matroska_tracks sink stream src audio =
     (case mp_window src of (origin, stop) \<Rightarrow>
        let audio_packets = streaming_audio audio origin stop
        in and_then (in_order [write_ebml_header sink, write_all sink ID_SEGMENT, write_all sink UNKNOWN_SIZE]
             counting_writer_new) (\<lambda>w.
           and_then (ok_or (checked_sub stop origin) MuxTimestampOverflow) (\<lambda>duration.
           and_then (write_info sink duration w) (\<lambda>w.
           and_then (if audio_packets = [] then write_tracks sink stream w
              else write_audio_video_tracks sink stream (at_system audio) (at_microphone audio) w) (\<lambda>w.
           and_then (streaming_loop sink stream origin src audio_packets True (w, None))
             (\<lambda>(src, rest, first, st).
              if first then Inl EmptyRing
              else and_then (streaming_tail sink origin src rest st)
                     (\<lambda>(w, _). Inr (cw_written w, cw_contents w))))))))"

end
