(* ===== verification/Ebml_Codec.thy ===== *)
theory Ebml_Codec
  imports Matroska
begin

text \<open>
  Variable-length integers as a prefix codec, element sizes as byte counts, and the calculus of
  writer operations: for a destination that accepts every write, an operation \<^emph>\<open>adds\<close> a fixed
  byte string, and operations in a row add the concatenation.
\<close>

section \<open>Variable-length integers\<close>

lemma drop_be_nat: "drop k (be_nat (k + n) x) = be_nat n x"
  by (induction k) auto

lemma drop_u64_be: "w \<le> 8 \<Longrightarrow> drop (8 - w) (u64_to_be_bytes v) = be_nat w (unat v)"
  using drop_be_nat [of "8 - w" w "unat v"] by (simp add: u64_to_be_bytes_def)

lemma unat_vint_limit: "1 \<le> w \<Longrightarrow> w \<le> 8 \<Longrightarrow> unat (push_bit (7 * w) 1 - 1 :: u64) = 2 ^ (7 * w) - 1"
proof -
  assume "1 \<le> w" "w \<le> 8"
  then have "7 * w < 64" by simp
  then have u: "unat (push_bit (7 * w) 1 :: u64) = 2 ^ (7 * w)"
    by (intro unat_push_bit_1) simp
  have "(1 :: u64) \<le> push_bit (7 * w) 1"
    unfolding word_le_nat_alt u by simp
  then show ?thesis by (simp only: unat_sub u unat_1)
qed

lemma vint_fits_nat: "1 \<le> w \<Longrightarrow> w \<le> 8 \<Longrightarrow> vint_fits v w \<longleftrightarrow> unat v < 2 ^ (7 * w) - 1"
  by (simp only: vint_fits_def word_less_nat_alt unat_vint_limit)

lemma find_vint_width_Some:
  assumes "find_vint_width v = Some w"
  shows "1 \<le> w \<and> w \<le> 8 \<and> unat v < 2 ^ (7 * w) - 1"
proof -
  from assms have "w \<in> set [1, 2, 3, 4, 5, 6, 7, 8]" "vint_fits v w"
    unfolding find_vint_width_def by (blast dest: find_SomeD)+
  then have "1 \<le> w" "w \<le> 8" by auto
  with \<open>vint_fits v w\<close> show ?thesis by (simp add: vint_fits_nat)
qed

lemma max_ebml: "unat MAX_EBML_SIZE = 2 ^ 56 - 2"
  by (simp add: MAX_EBML_SIZE_def)

lemma find_vint_width_total:
  assumes "unat v \<le> 2 ^ 56 - 2"
  shows "\<exists>w. find_vint_width v = Some w"
proof -
  have "vint_fits v 8" using assms by (subst vint_fits_nat) auto
  then have "find_vint_width v \<noteq> None" by (auto simp: find_vint_width_def find_None_iff)
  then show ?thesis by blast
qed

lemma unat_or_marker:
  fixes v :: u64
  assumes "unat v < 2 ^ k" "k < 64"
  shows "unat (v OR push_bit k 1) = unat v + 2 ^ k"
proof -
  have "bit (unat v) k = bit v k" using assms(2) by (simp add: bit_unsigned_iff)
  moreover have "\<not> bit (unat v) k" using assms(1) by (simp add: bit_iff_odd)
  ultimately have "\<not> bit v k" by simp
  then have "v AND push_bit k 1 = 0" by (simp add: and_exp_eq_0_iff_not_bit)
  then have "v OR push_bit k 1 = v + push_bit k 1" by (simp only: disjunctive_add_eq_or)
  moreover have "unat (push_bit k 1 :: u64) = 2 ^ k" using assms(2) by (intro unat_push_bit_1) simp
  moreover have "(2 :: nat) ^ Suc k \<le> 2 ^ 64" using assms(2) by (intro power_increasing) auto
  ultimately show ?thesis using assms(1) by (simp add: unat_word_ariths)
qed

lemma encode_vint_be:
  assumes "unat v \<le> 2 ^ 56 - 2"
  shows "\<exists>w. find_vint_width v = Some w \<and> 1 \<le> w \<and> w \<le> 8 \<and> unat v < 2 ^ (7 * w) - 1
    \<and> encode_vint v = Inr (be_nat w (unat v + 2 ^ (7 * w)))"
proof -
  obtain w where w: "find_vint_width v = Some w" using find_vint_width_total [OF assms] by blast
  note b = find_vint_width_Some [OF w]
  have "unat (v OR push_bit (7 * w) 1) = unat v + 2 ^ (7 * w)"
    using b by (intro unat_or_marker) auto
  moreover have "\<not> v > MAX_EBML_SIZE" using assms by (simp add: word_less_nat_alt max_ebml not_less)
  ultimately show ?thesis using w b by (simp add: encode_vint_def drop_u64_be Let_def)
qed

text \<open>Reading one back: the leading zero bits of the first byte give the width; the all-ones value
  is the reserved unknown size.\<close>

definition vint_length :: "u8 \<Rightarrow> nat option" where
  "vint_length b = List.find (\<lambda>w. 2 ^ (8 - w) \<le> unat b) [1, 2, 3, 4, 5, 6, 7, 8]"

definition decode_vint :: "u8 list \<Rightarrow> (u64 \<times> u8 list) option" where
  "decode_vint bs = (case bs of [] \<Rightarrow> None | b # _ \<Rightarrow>
     (case vint_length b of None \<Rightarrow> None
      | Some w \<Rightarrow> let value = nat_of_be (take w bs) - 2 ^ (7 * w)
                 in if length bs < w \<or> value = 2 ^ (7 * w) - 1 then None
                    else Some (word_of_nat value, drop w bs)))"

lemma vint_width_cases: "1 \<le> w \<Longrightarrow> w \<le> (8 :: nat) \<Longrightarrow> w \<in> {1, 2, 3, 4, 5, 6, 7, 8}"
  unfolding insert_iff empty_iff by presburger

lemma vint_length_marker:
  assumes "1 \<le> w" "w \<le> 8" "x < 2 ^ (7 * w)"
  shows "vint_length (word_of_nat ((x + 2 ^ (7 * w)) div 256 ^ (w - 1))) = Some w"
proof -
  define q where "q = (x + 2 ^ (7 * w)) div 256 ^ (w - 1)"
  have lo: "2 ^ (8 - w) \<le> q" and hi: "q < 2 ^ (9 - w)"
    using vint_width_cases [OF assms(1,2)] assms(3) unfolding q_def
    by (auto simp: less_eq_div_iff_mult_less_eq div_less_iff_less_mult)
  have "q < 256" using hi assms(1) vint_width_cases [OF assms(1,2)] by auto
  then have u: "unat (word_of_nat q :: u8) = q" by (simp add: unat_of_nat)
  show ?thesis
    unfolding q_def [symmetric] vint_length_def u
    using vint_width_cases [OF assms(1,2)] lo hi by auto
qed

lemma decode_encode_vint:
  assumes "unat v \<le> 2 ^ 56 - 2" "encode_vint v = Inr bs"
  shows "decode_vint (bs @ rest) = Some (v, rest)" "bs \<noteq> []" "unat (vint_width v) = length bs" "length bs \<le> 8"
proof -
  obtain w where w: "find_vint_width v = Some w" "1 \<le> w" "w \<le> 8" "unat v < 2 ^ (7 * w) - 1"
    and bs: "bs = be_nat w (unat v + 2 ^ (7 * w))"
    using encode_vint_be [OF assms(1)] assms(2) by auto
  obtain k where k: "w = Suc k" using w(2) by (cases w) auto
  let ?x = "unat v + 2 ^ (7 * w)"
  have "2 ^ (7 * w) + 2 ^ (7 * w) \<le> (256 :: nat) ^ w"
    using vint_width_cases [OF w(2,3)] by auto
  then have x: "?x < 256 ^ w" using w(4) by linarith
  have hd: "bs = word_of_nat (?x div 256 ^ k) # be_nat k ?x" by (simp add: bs k)
  have len: "vint_length (word_of_nat (?x div 256 ^ k)) = Some w"
    using vint_length_marker [OF w(2,3), of "unat v"] w(4) by (simp add: k)
  have val: "nat_of_be (take w (bs @ rest)) - 2 ^ (7 * w) = unat v"
    using x by (simp add: bs)
  show "decode_vint (bs @ rest) = Some (v, rest)"
    using w(4) val len by (simp add: decode_vint_def hd Let_def) (simp add: k bs)
  show "bs \<noteq> []" by (simp add: hd)
  show "unat (vint_width v) = length bs" "length bs \<le> 8"
    using w by (simp_all add: vint_width_def bs unat_of_nat)
qed

definition vint_ok :: "u64 \<Rightarrow> bool" where
  "vint_ok v \<longleftrightarrow> unat v \<le> 2 ^ 56 - 2"

definition vint :: "u64 \<Rightarrow> u8 list" where
  "vint v = projr (encode_vint v)"

lemma encode_vint_ok: "vint_ok v \<Longrightarrow> encode_vint v = Inr (vint v)"
  using encode_vint_be [of v] by (auto simp: vint_ok_def vint_def)

interpretation vint: prefix_codec vint decode_vint vint_ok
  by unfold_locales (use decode_encode_vint encode_vint_ok in \<open>auto simp: vint_ok_def\<close>)

lemma length_vint: "vint_ok v \<Longrightarrow> length (vint v) = unat (vint_width v)" "vint_ok v \<Longrightarrow> length (vint v) \<le> 8"
  using decode_encode_vint(3,4) [OF _ encode_vint_ok] by (auto simp: vint_ok_def)

section \<open>Unsigned integers\<close>

lemma leading_zeros_bound: "unat v < 2 ^ (64 - leading_zeros v)" "leading_zeros v \<le> 64"
proof -
  let ?P = "\<lambda>i. \<not> bit v i"
  show le: "leading_zeros v \<le> 64"
    using length_takeWhile_le [of ?P "rev [0..<64]"] by (simp add: leading_zeros_def)
  have "\<not> bit v i" if "64 - leading_zeros v \<le> i" "i < 64" for i
  proof -
    let ?j = "63 - i"
    have j: "?j < leading_zeros v" using that le by linarith
    then have "takeWhile ?P (rev [0..<64]) ! ?j \<in> set (takeWhile ?P (rev [0..<64]))"
      by (intro nth_mem) (simp add: leading_zeros_def)
    moreover have "takeWhile ?P (rev [0..<64]) ! ?j = rev [0..<64] ! ?j"
      using j by (intro takeWhile_nth) (simp add: leading_zeros_def)
    moreover have "rev [0..<64] ! ?j = i" using that by (simp add: rev_nth)
    ultimately show ?thesis using set_takeWhileD by metis
  qed
  then have "take_bit (64 - leading_zeros v) v = v"
    by (intro bit_word_eqI) (use leI in \<open>auto simp: bit_take_bit_iff\<close>)
  then have "take_bit (64 - leading_zeros v) (unat v) = unat v"
    by (metis unsigned_take_bit_eq)
  then show "unat v < 2 ^ (64 - leading_zeros v)" by (metis take_bit_nat_eq_self_iff)
qed

definition ubytes :: "u64 \<Rightarrow> u8 list" where
  "ubytes v = drop (8 - unat (unsigned_width v)) (u64_to_be_bytes v)"

lemma unsigned_width_bounds:
  "1 \<le> unat (unsigned_width v)" "unat (unsigned_width v) \<le> 8" "unat v < 256 ^ unat (unsigned_width v)"
proof -
  let ?w = "max (8 - leading_zeros v div 8) 1"
  have u: "unat (unsigned_width v) = ?w" by (simp add: unsigned_width_def unat_of_nat)
  have "64 - leading_zeros v \<le> 8 * ?w" using leading_zeros_bound(2) [of v] by (simp add: max_def) linarith
  then have "(2 :: nat) ^ (64 - leading_zeros v) \<le> 2 ^ (8 * ?w)" by (rule power_increasing) simp
  also have "(2 :: nat) ^ (8 * ?w) = 256 ^ ?w" by (simp add: power_mult)
  finally show "unat v < 256 ^ unat (unsigned_width v)" using leading_zeros_bound(1) [of v] u by simp
  show "1 \<le> unat (unsigned_width v)" "unat (unsigned_width v) \<le> 8" by (simp_all add: u)
qed

lemma ubytes_be: "ubytes v = be_nat (unat (unsigned_width v)) (unat v)"
  by (simp add: ubytes_def drop_u64_be unsigned_width_bounds)

lemma length_ubytes [simp]: "length (ubytes v) = unat (unsigned_width v)"
  by (simp add: ubytes_be)

lemma nat_of_be_ubytes [simp]: "nat_of_be (ubytes v) = unat v"
  by (simp add: ubytes_be unsigned_width_bounds)

lemma vint_ok_small: "unat v \<le> 2 ^ 40 \<Longrightarrow> vint_ok v"
  by (simp add: vint_ok_def)

lemma vint_ok_unsigned_width [simp]: "vint_ok (unsigned_width v)"
  by (rule vint_ok_small) (rule order_trans [OF unsigned_width_bounds(2)], simp)

section \<open>Element sizes are byte counts\<close>

lemma unat_element_size:
  assumes "vint_ok n" "length ident \<le> 8"
  shows "unat (element_size ident n) = length (ident @ vint n) + unat n"
proof -
  have "unat n \<le> 2 ^ 56" using assms(1) by (simp add: vint_ok_def)
  then show ?thesis
    using assms(2) length_vint [OF assms(1)]
    by (simp add: element_size_def unat_saturating_add unat_len_u64)
qed

section \<open>Writer operations\<close>

definition accepts :: "sink \<Rightarrow> bool" where
  "accepts sink \<longleftrightarrow> (\<forall>c b. sink c b = None)"

definition cw_append :: "u8 list \<Rightarrow> counting_writer \<Rightarrow> counting_writer" where
  "cw_append bs w = \<lparr>cw_contents = cw_contents w @ bs, cw_written = sadd (cw_written w) (length bs)\<rparr>"

definition adds :: "(counting_writer \<Rightarrow> 'e + counting_writer) \<Rightarrow> u8 list \<Rightarrow> bool" where
  "adds f bs \<longleftrightarrow> (\<forall>w. f w = Inr (cw_append bs w))"

lemma cw_append_append [simp]: "cw_append b (cw_append a w) = cw_append (a @ b) w"
  by (simp add: cw_append_def)

lemma cw_append_Nil [simp]: "cw_append [] w = w"
  by (simp add: cw_append_def)

lemma addsD: "adds f bs \<Longrightarrow> f w = Inr (cw_append bs w)"
  by (simp add: adds_def)

lemma saturating_add_len: "saturating_add w (len_u64 bs) = sadd w (length bs)"
  by (auto simp: word_eq_iff_unat unat_saturating_add unat_sadd len_u64_def unat_try_from_max)

lemma write_all_adds: "accepts sink \<Longrightarrow> adds (write_all sink b) b"
  by (simp add: adds_def write_all_def accepts_def cw_append_def saturating_add_len)

lemma adds_seq: "adds f a \<Longrightarrow> adds g b \<Longrightarrow> adds (\<lambda>w. and_then (f w) g) (a @ b)"
  by (simp add: adds_def)

lemma adds_in_order:
  "list_all2 adds ops bss \<Longrightarrow> adds (in_order ops) (concat bss)"
proof (induction rule: list_all2_induct)
  case Nil
  then show ?case by (simp add: adds_def in_order_def)
next
  case (Cons op ops bs bss)
  then show ?case by (simp add: adds_def in_order_def)
qed

lemma adds_try_fold:
  "(\<And>x. x \<in> set xs \<Longrightarrow> adds (\<lambda>w. f w x) (g x)) \<Longrightarrow> adds (\<lambda>w. try_fold f w xs) (concat (map g xs))"
  by (induction xs) (simp_all add: adds_def)

lemma write_master_header_adds:
  "accepts sink \<Longrightarrow> vint_ok n \<Longrightarrow> adds (write_master_header sink ident n) (ident @ vint n)"
  using write_all_adds [of sink] by (simp add: adds_def write_master_header_def encode_vint_ok)

lemma write_element_adds:
  "accepts sink \<Longrightarrow> vint_ok (len_u64 c) \<Longrightarrow> adds (write_element sink ident c) (ident @ vint (len_u64 c) @ c)"
  using write_master_header_adds [of sink "len_u64 c" ident] write_all_adds [of sink c]
  by (simp add: adds_def write_element_def)

lemma write_unsigned_adds:
  "accepts sink \<Longrightarrow> adds (write_unsigned sink ident v) (ident @ vint (unsigned_width v) @ ubytes v)"
  using write_all_adds [of sink]
  by (simp add: adds_def write_unsigned_def encode_vint_ok Let_def flip: ubytes_def)

end
