(* ===== verification/Matroska_Demux.thy ===== *)
theory Matroska_Demux
  imports Ebml_Codec Packet_Flow "HOL-Library.Multiset"
begin

text \<open>
  What a reader of the written clips sees. Blocks and clusters are prefix codecs, the clusters the
  writers emit are described by a grouping of the block list, and the demultiplexer turns the
  cluster bytes back into blocks with absolute millisecond timestamps.
\<close>

section \<open>Blocks\<close>

record wire_block =
  wb_track :: u8
  wb_relative :: u16
  wb_flags :: u8
  wb_bytes :: "u8 list"

definition enc_block :: "wire_block \<Rightarrow> u8 list" where
  "enc_block b = ID_SIMPLE_BLOCK @ vint (word_of_nat (4 + length (wb_bytes b))) @ [wb_track b]
     @ u16_to_be_bytes (wb_relative b) @ [wb_flags b] @ wb_bytes b"

definition block_ok :: "wire_block \<Rightarrow> bool" where
  "block_ok b \<longleftrightarrow> length (wb_bytes b) \<le> 2 ^ 40"

definition take_block :: "u8 list \<Rightarrow> (wire_block \<times> u8 list) option" where
  "take_block bs = (case bs of [] \<Rightarrow> None | i # bs \<Rightarrow>
     if [i] \<noteq> ID_SIMPLE_BLOCK then None
     else (case decode_vint bs of None \<Rightarrow> None
       | Some (n, rest) \<Rightarrow>
           if unat n < 4 \<or> length rest < unat n then None
           else Some (\<lparr>wb_track = rest ! 0, wb_relative = u16_from_be_bytes (slice 1 2 rest),
                       wb_flags = rest ! 3, wb_bytes = slice 4 (unat n - 4) rest\<rparr>, drop (unat n) rest)))"

lemma take_enc_block: "block_ok b \<Longrightarrow> take_block (enc_block b @ rest) = Some (b, rest)"
proof -
  assume ok: "block_ok b"
  let ?n = "word_of_nat (4 + length (wb_bytes b)) :: u64"
  have n: "unat ?n = 4 + length (wb_bytes b)"
    using ok by (simp add: block_ok_def unat_of_nat del: of_nat_add)
  then have v: "vint_ok ?n" using ok by (simp add: vint_ok_def block_ok_def)
  obtain x y where xy: "u16_to_be_bytes (wb_relative b) = [x, y]"
    by (metis be_nat_2 u16_to_be_bytes_def)
  then have "u16_from_be_bytes [x, y] = wb_relative b" by (metis u16_from_to_be)
  moreover have "drop (4 + n) (a # x # y # f # bs) = drop n bs" for n a x y f and bs :: "u8 list"
    by (simp add: numeral_eq_Suc)
  ultimately show ?thesis
    by (simp add: take_block_def enc_block_def ID_SIMPLE_BLOCK_def vint.dec_enc [OF v] n xy slice_def
        del: of_nat_add)
qed

interpretation block: prefix_codec enc_block take_block block_ok
proof
  show "take_block (enc_block b @ rest) = Some (b, rest)" if "block_ok b" for b rest
    using that by (rule take_enc_block)
  show "enc_block b \<noteq> []" for b by (simp add: enc_block_def ID_SIMPLE_BLOCK_def)
qed

lemma length_enc_block: "block_ok b \<Longrightarrow> length (enc_block b) \<le> length (wb_bytes b) + 13"
  using length_vint(2) [of "word_of_nat (4 + length (wb_bytes b))"]
  by (simp add: enc_block_def ID_SIMPLE_BLOCK_def block_ok_def vint_ok_def unat_of_nat del: of_nat_add)

section \<open>Clusters\<close>

record wire_cluster =
  wc_timestamp_ms :: u64
  wc_blocks :: "wire_block list"

definition cluster_body :: "wire_cluster \<Rightarrow> u8 list" where
  "cluster_body c = ID_TIMESTAMP @ vint (unsigned_width (wc_timestamp_ms c)) @ ubytes (wc_timestamp_ms c)
     @ concat (map enc_block (wc_blocks c))"

definition enc_cluster :: "wire_cluster \<Rightarrow> u8 list" where
  "enc_cluster c = ID_CLUSTER @ vint (word_of_nat (length (cluster_body c))) @ cluster_body c"

definition blocks_weight :: "wire_block list \<Rightarrow> nat" where
  "blocks_weight bs = (\<Sum>b \<leftarrow> bs. length (wb_bytes b) + 13)"

definition cluster_ok :: "wire_cluster \<Rightarrow> bool" where
  "cluster_ok c \<longleftrightarrow> (\<forall>b \<in> set (wc_blocks c). block_ok b) \<and> blocks_weight (wc_blocks c) \<le> 2 ^ 50"

definition take_cluster :: "u8 list \<Rightarrow> (wire_cluster \<times> u8 list) option" where
  "take_cluster bs =
     (if take 4 bs \<noteq> ID_CLUSTER then None
      else case decode_vint (drop 4 bs) of None \<Rightarrow> None
        | Some (n, rest) \<Rightarrow>
            if length rest < unat n \<or> take 1 rest \<noteq> ID_TIMESTAMP then None
            else case decode_vint (drop 1 (take (unat n) rest)) of None \<Rightarrow> None
              | Some (w, body) \<Rightarrow>
                  (case decode_all take_block (drop (unat w) body) of None \<Rightarrow> None
                   | Some blocks \<Rightarrow>
                       Some (\<lparr>wc_timestamp_ms = word_of_nat (nat_of_be (take (unat w) body)),
                              wc_blocks = blocks\<rparr>, drop (unat n) rest)))"

lemma length_concat_enc_block:
  "(\<forall>b \<in> set bs. block_ok b) \<Longrightarrow> length (concat (map enc_block bs)) \<le> blocks_weight bs"
proof (induction bs)
  case (Cons b bs)
  then show ?case using length_enc_block [of b] by (simp add: blocks_weight_def)
qed (simp add: blocks_weight_def)

lemma length_cluster_body: "cluster_ok c \<Longrightarrow> length (cluster_body c) \<le> 2 ^ 50 + 17"
  using length_concat_enc_block [of "wc_blocks c"] unsigned_width_bounds(2) [of "wc_timestamp_ms c"]
    length_vint(2) [of "unsigned_width (wc_timestamp_ms c)"]
  by (simp add: cluster_body_def cluster_ok_def ID_TIMESTAMP_def)

lemma unat_cluster_size:
  "cluster_ok c \<Longrightarrow> unat (word_of_nat (length (cluster_body c)) :: u64) = length (cluster_body c)"
  using length_cluster_body [of c] by (simp add: unat_of_nat)

lemma take_enc_cluster: "cluster_ok c \<Longrightarrow> take_cluster (enc_cluster c @ rest) = Some (c, rest)"
proof -
  assume ok: "cluster_ok c"
  let ?n = "word_of_nat (length (cluster_body c)) :: u64"
  let ?blocks = "concat (map enc_block (wc_blocks c))"
  have n: "unat ?n = length (cluster_body c)" using ok by (rule unat_cluster_size)
  then have v: "vint_ok ?n" using length_cluster_body [OF ok] by (simp add: vint_ok_def)
  have outer: "decode_vint (drop 4 (enc_cluster c @ rest)) = Some (?n, cluster_body c @ rest)"
    by (simp add: enc_cluster_def ID_CLUSTER_def vint.dec_enc [OF v])
  have inner: "decode_vint (drop 1 (cluster_body c))
      = Some (unsigned_width (wc_timestamp_ms c), ubytes (wc_timestamp_ms c) @ ?blocks)"
    by (simp add: cluster_body_def ID_TIMESTAMP_def vint.dec_enc)
  have blocks: "decode_all take_block ?blocks = Some (wc_blocks c)"
    using ok by (intro block.decode_all_concat) (simp add: cluster_ok_def)
  have ids: "take 4 (enc_cluster c @ rest) = ID_CLUSTER" "take 1 (cluster_body c @ rest) = ID_TIMESTAMP"
    by (simp_all add: enc_cluster_def cluster_body_def ID_CLUSTER_def ID_TIMESTAMP_def)
  have body: "take (length (cluster_body c)) (cluster_body c @ rest) = cluster_body c"
    "drop (length (cluster_body c)) (cluster_body c @ rest) = rest" by simp_all
  show ?thesis
    unfolding take_cluster_def ids outer
    by (simp only: n option.case prod.case body inner ids if_False if_True not_True_eq_False simp_thms)
      (simp add: blocks)
qed

interpretation cluster: prefix_codec enc_cluster take_cluster cluster_ok
proof
  show "take_cluster (enc_cluster c @ rest) = Some (c, rest)" if "cluster_ok c" for c rest
    using that by (rule take_enc_cluster)
  show "enc_cluster c \<noteq> []" for c by (simp add: enc_cluster_def ID_CLUSTER_def)
qed

section \<open>What the writers add\<close>

definition rel_ms :: "u64 \<Rightarrow> matroska_block \<Rightarrow> u64" where
  "rel_ms origin b = (block_timestamp_ns b - origin) div TIMESTAMP_SCALE_NS"

definition wire :: "u64 \<Rightarrow> u64 \<Rightarrow> matroska_block \<Rightarrow> wire_block" where
  "wire origin t b = \<lparr>wb_track = track_byte b, wb_relative = ucast (rel_ms origin b - t),
     wb_flags = block_flags b, wb_bytes = block_bytes b\<rparr>"

definition wire_cluster_of :: "u64 \<Rightarrow> u64 \<times> matroska_block list \<Rightarrow> wire_cluster" where
  "wire_cluster_of origin c = \<lparr>wc_timestamp_ms = fst c, wc_blocks = map (wire origin (fst c)) (snd c)\<rparr>"

text \<open>A block that a cluster starting at \<open>t\<close> milliseconds can hold.\<close>

definition fits_cluster :: "u64 \<Rightarrow> u64 \<Rightarrow> matroska_block \<Rightarrow> bool" where
  "fits_cluster origin t b \<longleftrightarrow> origin \<le> block_timestamp_ns b \<and> t \<le> rel_ms origin b
     \<and> unat (rel_ms origin b) \<le> unat t + 30000 \<and> length (block_bytes b) \<le> 2 ^ 40"

definition weight :: "matroska_block list \<Rightarrow> nat" where
  "weight bs = (\<Sum>b \<leftarrow> bs. length (block_bytes b) + 13)"

lemma relative_milliseconds_ok:
  "origin \<le> block_timestamp_ns b \<Longrightarrow>
    relative_milliseconds (block_timestamp_ns b) origin = Inr (rel_ms origin b)"
  by (simp add: relative_milliseconds_def rel_ms_def checked_sub_def)

lemma len_u64_small: "length bs < 2 ^ 64 \<Longrightarrow> len_u64 bs = word_of_nat (length bs)"
  by (simp add: word_eq_iff_unat unat_len_u64 unat_of_nat)

lemma saturating_add_4_len:
  assumes "length bs \<le> 2 ^ 40"
  shows "saturating_add 4 (len_u64 bs) = word_of_nat (4 + length bs)"
    "checked_add 4 (len_u64 bs) = Some (word_of_nat (4 + length bs))"
    "4 + len_u64 bs = word_of_nat (4 + length bs)"
  using assms
  by (simp_all add: word_eq_iff_unat unat_saturating_add unat_len_u64 unat_of_nat len_u64_small
      checked_add_def unat_word_ariths del: of_nat_add)

lemma block_relative_ok:
  assumes "t \<le> m" "unat m \<le> unat t + 30000"
  shows "block_relative m t = Inr (ucast (m - t))"
proof -
  have "unat (m - t) \<le> 32767" using assms by (simp add: unat_sub)
  then show ?thesis using assms(1) by (simp add: block_relative_def checked_sub_def i16_try_from_def)
qed

lemma in_order_block:
  assumes "accepts sink" "length bytes \<le> 2 ^ 40" "n = word_of_nat (4 + length bytes)"
  shows "adds (in_order [write_master_header sink ID_SIMPLE_BLOCK n, write_all sink [track],
           write_all sink (u16_to_be_bytes rel), write_all sink [flags], write_all sink bytes])
         (enc_block \<lparr>wb_track = track, wb_relative = rel, wb_flags = flags, wb_bytes = bytes\<rparr>)"
proof -
  have "vint_ok n" using assms(2) by (simp add: assms(3) vint_ok_def unat_of_nat del: of_nat_add)
  then have "list_all2 adds
     [write_master_header sink ID_SIMPLE_BLOCK n, write_all sink [track],
        write_all sink (u16_to_be_bytes rel), write_all sink [flags], write_all sink bytes]
     [ID_SIMPLE_BLOCK @ vint n, [track], u16_to_be_bytes rel, [flags], bytes]"
    using assms(1) by (simp add: write_all_adds write_master_header_adds)
  from adds_in_order [OF this] show ?thesis by (simp add: enc_block_def assms(3))
qed

lemma write_block_adds:
  assumes "accepts sink" "fits_cluster origin t b"
  shows "adds (\<lambda>w. write_block sink origin t w b) (enc_block (wire origin t b))"
  using in_order_block [OF assms(1), of "block_bytes b" _ "track_byte b" _ "block_flags b"] assms(2)
  by (simp add: fits_cluster_def write_block_def relative_milliseconds_ok block_relative_ok
      saturating_add_4_len wire_def del: of_nat_add)

lemma unat_simple_block_size:
  assumes "length (wb_bytes b) \<le> 2 ^ 40"
  shows "unat (element_size ID_SIMPLE_BLOCK (word_of_nat (4 + length (wb_bytes b)))) = length (enc_block b)"
proof -
  let ?n = "word_of_nat (4 + length (wb_bytes b)) :: u64"
  have n: "unat ?n = 4 + length (wb_bytes b)" using assms by (simp add: unat_of_nat del: of_nat_add)
  then have v: "vint_ok ?n" using assms by (simp add: vint_ok_def)
  show ?thesis
    by (subst unat_element_size [OF v]) (simp_all add: n enc_block_def ID_SIMPLE_BLOCK_def del: of_nat_add)
qed

lemma content_size:
  assumes "\<forall>b \<in> set bs. length (block_bytes b) \<le> 2 ^ 40" "unat s + weight bs \<le> 2 ^ 60"
  shows "\<exists>n. try_fold (\<lambda>s b. ok_or (checked_add s (element_size ID_SIMPLE_BLOCK
            (saturating_add 4 (len_u64 (block_bytes b))))) ContainerTooLarge) s bs = Inr n
    \<and> unat n = unat s + length (concat (map enc_block (map (wire origin t) bs)))"
  using assms
proof (induction bs arbitrary: s)
  case (Cons b bs)
  have len: "length (block_bytes b) \<le> 2 ^ 40" using Cons.prems by simp
  let ?e = "element_size ID_SIMPLE_BLOCK (saturating_add 4 (len_u64 (block_bytes b)))"
  have e: "unat ?e = length (enc_block (wire origin t b))"
    using unat_simple_block_size [of "wire origin t b"] len
    by (simp add: wire_def saturating_add_4_len del: of_nat_add)
  moreover have "length (enc_block (wire origin t b)) \<le> length (block_bytes b) + 13"
    using length_enc_block [of "wire origin t b"] len by (simp add: block_ok_def wire_def)
  ultimately have le: "unat s + unat ?e + weight bs \<le> 2 ^ 60"
    using Cons.prems(2) by (simp add: weight_def)
  then have u: "unat (s + ?e) = unat s + unat ?e" and c: "checked_add s ?e = Some (s + ?e)"
    by (simp_all add: unat_word_ariths checked_add_def)
  show ?case using Cons.IH [of "s + ?e"] Cons.prems(1) le by (simp add: c u e add.assoc)
qed simp

lemma weight_wire: "blocks_weight (map (wire origin t) bs) = weight bs"
  by (simp add: blocks_weight_def weight_def wire_def comp_def)

lemma wire_cluster_ok:
  "\<forall>b \<in> set bs. fits_cluster origin t b \<Longrightarrow> weight bs \<le> 2 ^ 50 \<Longrightarrow>
    cluster_ok (wire_cluster_of origin (t, bs))"
  by (auto simp: cluster_ok_def wire_cluster_of_def weight_wire block_ok_def wire_def fits_cluster_def)

lemma write_av_cluster_adds:
  assumes "accepts sink" "\<forall>b \<in> set bs. fits_cluster origin t b" "weight bs \<le> 2 ^ 50"
  shows "adds (write_av_cluster sink bs origin t) (enc_cluster (wire_cluster_of origin (t, bs)))"
proof -
  let ?c = "wire_cluster_of origin (t, bs)"
  let ?s = "element_size ID_TIMESTAMP (unsigned_width t)"
  have ok: "cluster_ok ?c" using assms(2,3) by (rule wire_cluster_ok)
  have s: "unat ?s = length (ID_TIMESTAMP @ vint (unsigned_width t) @ ubytes t)"
    by (simp add: unat_element_size ID_TIMESTAMP_def)
  then have "unat ?s + weight bs \<le> 2 ^ 60"
    using assms(3) length_vint(2) [of "unsigned_width t"] unsigned_width_bounds(2) [of t]
    by (simp add: ID_TIMESTAMP_def)
  then obtain n where n: "try_fold (\<lambda>s b. ok_or (checked_add s (element_size ID_SIMPLE_BLOCK
            (saturating_add 4 (len_u64 (block_bytes b))))) ContainerTooLarge) ?s bs = Inr n"
    and "unat n = unat ?s + length (concat (map enc_block (map (wire origin t) bs)))"
    using content_size [of bs ?s origin t] assms(2) by (auto simp: fits_cluster_def)
  then have "unat n = length (cluster_body ?c)"
    by (simp add: s cluster_body_def wire_cluster_of_def)
  then have size: "n = word_of_nat (length (cluster_body ?c))"
    using unat_cluster_size [OF ok] by (simp add: word_eq_iff_unat)
  have v: "vint_ok n"
    using length_cluster_body [OF ok] \<open>unat n = length (cluster_body ?c)\<close> by (simp add: vint_ok_def)
  have blocks: "adds (\<lambda>w. try_fold (write_block sink origin t) w bs)
      (concat (map (\<lambda>b. enc_block (wire origin t b)) bs))"
    using assms(1,2) by (intro adds_try_fold write_block_adds) auto
  show ?thesis
    using addsD [OF write_master_header_adds [OF assms(1) v, of ID_CLUSTER]]
      addsD [OF write_unsigned_adds [OF assms(1), of ID_TIMESTAMP t]] addsD [OF blocks]
    by (simp add: adds_def write_av_cluster_def n enc_cluster_def cluster_body_def
        wire_cluster_of_def size comp_def)
qed

section \<open>Grouping into clusters\<close>

definition near :: "u64 \<Rightarrow> u64 \<Rightarrow> matroska_block \<Rightarrow> bool" where
  "near origin t b \<longleftrightarrow> unat (rel_ms origin b) \<le> unat t + 30000"

function cluster_groups :: "u64 \<Rightarrow> matroska_block list \<Rightarrow> (u64 \<times> matroska_block list) list" where
  "cluster_groups origin [] = []"
| "cluster_groups origin (b # bs) = (let t = rel_ms origin b in
     (t, b # takeWhile (near origin t) bs) # cluster_groups origin (dropWhile (near origin t) bs))"
  by pat_completeness auto
termination
  by (relation "measure (\<lambda>(origin, bs). length bs)") (auto simp: le_imp_less_Suc length_dropWhile_le)

text \<open>A block sequence a clip can hold: in order of time, not before the origin, of a bounded size.\<close>

definition muxable :: "u64 \<Rightarrow> matroska_block list \<Rightarrow> bool" where
  "muxable origin bs \<longleftrightarrow> sorted (map block_timestamp_ns bs) \<and> weight bs \<le> 2 ^ 40
     \<and> (\<forall>b \<in> set bs. origin \<le> block_timestamp_ns b)"

lemma rel_ms_mono:
  assumes "origin \<le> block_timestamp_ns a" "block_timestamp_ns a \<le> block_timestamp_ns b"
  shows "rel_ms origin a \<le> rel_ms origin b"
  using assms
  by (simp add: rel_ms_def word_le_nat_alt unat_div unat_sub div_le_mono diff_le_mono)

lemma av_cluster_end_near:
  assumes "\<forall>b \<in> set bs. origin \<le> block_timestamp_ns b \<and> t \<le> rel_ms origin b"
  shows "av_cluster_end bs origin t n = Inr (n + length (takeWhile (near origin t) bs))"
  using assms
proof (induction bs arbitrary: n)
  case (Cons b bs)
  have "saturating_sub (rel_ms origin b) t \<le> MAX_CLUSTER_DURATION_MS \<longleftrightarrow> near origin t b"
    by (auto simp: word_le_nat_alt unat_saturating_sub near_def MAX_CLUSTER_DURATION_MS_def)
  then show ?case using Cons by (simp add: relative_milliseconds_ok)
qed simp

lemma weight_append [simp]: "weight (xs @ ys) = weight xs + weight ys"
  by (simp add: weight_def)

lemma weight_Cons: "weight (b # bs) = length (block_bytes b) + 13 + weight bs"
  by (simp add: weight_def)

lemma length_le_weight: "b \<in> set bs \<Longrightarrow> length (block_bytes b) \<le> weight bs"
  by (induction bs) (auto simp: weight_Cons)

lemma muxable_append: "muxable origin (xs @ ys) \<Longrightarrow> muxable origin xs \<and> muxable origin ys"
  by (auto simp: muxable_def sorted_append)

lemma muxable_rel_ms:
  "muxable origin (b # bs) \<Longrightarrow> \<forall>c \<in> set bs. origin \<le> block_timestamp_ns c \<and> rel_ms origin b \<le> rel_ms origin c"
  by (auto simp: muxable_def intro: rel_ms_mono)

lemma muxable_first_group:
  assumes "muxable origin (b # bs)"
  shows "\<forall>c \<in> set (b # takeWhile (near origin (rel_ms origin b)) bs). fits_cluster origin (rel_ms origin b) c"
proof -
  have "length (block_bytes c) \<le> 2 ^ 40" if "c \<in> set (b # bs)" for c
    using length_le_weight [OF that] assms by (simp add: muxable_def)
  then show ?thesis
    using assms muxable_rel_ms [OF assms]
    by (auto simp: fits_cluster_def near_def muxable_def dest: set_takeWhileD)
qed

lemma write_av_clusters_adds:
  assumes "accepts sink" "drop start bs = rest" "muxable origin rest"
  shows "write_av_clusters sink bs origin start n w
    = Inr (sadd n (length (cluster_groups origin rest)),
           cw_append (concat (map (\<lambda>g. enc_cluster (wire_cluster_of origin g)) (cluster_groups origin rest))) w)"
  using assms
proof (induction origin rest arbitrary: start n w rule: cluster_groups.induct)
  case (1 origin)
  then show ?case by (simp add: write_av_clusters.simps [of sink bs])
next
  case (2 origin b rs)
  let ?t = "rel_ms origin b"
  let ?k = "length (takeWhile (near origin ?t) rs)"
  have start: "start < length bs" using "2.prems"(2) by (cases "start < length bs") auto
  then have b: "bs ! start = b" and rs: "drop (start + 1) bs = rs"
    using "2.prems"(2) Cons_nth_drop_Suc [OF start] by auto
  have stop: "av_cluster_end (drop (start + 1) bs) origin ?t (start + 1) = Inr (start + 1 + ?k)"
    unfolding rs using muxable_rel_ms [OF "2.prems"(3)] by (rule av_cluster_end_near)
  have slice: "slice start (start + 1 + ?k - start) bs = b # takeWhile (near origin ?t) rs"
    using "2.prems"(2) by (simp add: slice_def takeWhile_eq_take [symmetric])
  have rest: "drop (start + 1 + ?k) bs = dropWhile (near origin ?t) rs"
    unfolding dropWhile_eq_drop rs [symmetric] by (simp add: add.commute)
  have mux: "muxable origin (b # takeWhile (near origin ?t) rs)" "muxable origin (dropWhile (near origin ?t) rs)"
    using muxable_append [of origin "b # takeWhile (near origin ?t) rs" "dropWhile (near origin ?t) rs"]
      "2.prems"(3) by simp_all
  have cluster: "write_av_cluster sink (b # takeWhile (near origin ?t) rs) origin ?t w
      = Inr (cw_append (enc_cluster (wire_cluster_of origin (?t, b # takeWhile (near origin ?t) rs))) w)"
    using mux(1) by (intro addsD write_av_cluster_adds [OF "2.prems"(1) muxable_first_group [OF "2.prems"(3)]])
      (simp add: muxable_def)
  have "origin \<le> block_timestamp_ns b" using "2.prems"(3) by (simp add: muxable_def)
  then show ?case
    using "2.IH" [OF refl "2.prems"(1) rest mux(2)] start
    by (simp add: write_av_clusters.simps [of sink bs origin start] b relative_milliseconds_ok
        stop [simplified] slice [simplified] cluster Let_def saturating_add_sadd)
qed

section \<open>The reader\<close>

type_synonym sample = "u8 \<times> nat \<times> u8 \<times> u8 list"

definition block_sample :: "u64 \<Rightarrow> wire_block \<Rightarrow> sample" where
  "block_sample t b = (wb_track b, unat t + unat (wb_relative b), wb_flags b, wb_bytes b)"

text \<open>All samples of a cluster sequence: track byte, milliseconds from the start, flags, payload.\<close>

definition demux :: "u8 list \<Rightarrow> sample list option" where
  "demux body = map_option
     (\<lambda>cs. concat (map (\<lambda>c. map (block_sample (wc_timestamp_ms c)) (wc_blocks c)) cs))
     (decode_all take_cluster body)"

definition sample_of :: "u64 \<Rightarrow> matroska_block \<Rightarrow> sample" where
  "sample_of origin b = (track_byte b, unat (rel_ms origin b), block_flags b, block_bytes b)"

definition clusters_of :: "u64 \<Rightarrow> matroska_block list \<Rightarrow> u8 list" where
  "clusters_of origin bs = concat (map (\<lambda>g. enc_cluster (wire_cluster_of origin g)) (cluster_groups origin bs))"

lemma block_sample_wire: "fits_cluster origin t b \<Longrightarrow> block_sample t (wire origin t b) = sample_of origin b"
proof -
  assume f: "fits_cluster origin t b"
  then have "unat (rel_ms origin b - t) = unat (rel_ms origin b) - unat t" "unat t \<le> unat (rel_ms origin b)"
    by (simp_all add: fits_cluster_def unat_sub word_le_nat_alt)
  moreover from this f have "unat (rel_ms origin b - t) < 2 ^ 16" by (auto simp: fits_cluster_def)
  then have "unat (ucast (rel_ms origin b - t) :: u16) = unat (rel_ms origin b - t)"
    by (simp add: unsigned_ucast_eq take_bit_nat_eq_self)
  ultimately show ?thesis by (simp add: block_sample_def wire_def sample_of_def)
qed

lemma groups_ok:
  "muxable origin bs \<Longrightarrow> concat (map snd (cluster_groups origin bs)) = bs
    \<and> (\<forall>(t, g) \<in> set (cluster_groups origin bs). weight g \<le> 2 ^ 40 \<and> (\<forall>b \<in> set g. fits_cluster origin t b))"
proof (induction origin bs rule: cluster_groups.induct)
  case (2 origin b rs)
  let ?t = "rel_ms origin b"
  have mux: "muxable origin (b # takeWhile (near origin ?t) rs)" "muxable origin (dropWhile (near origin ?t) rs)"
    using muxable_append [of origin "b # takeWhile (near origin ?t) rs" "dropWhile (near origin ?t) rs"]
      "2.prems" by simp_all
  show ?case using "2.IH" [OF refl mux(2)] muxable_first_group [OF "2.prems"] mux(1)
    by (simp add: Let_def muxable_def)
qed simp_all

lemmas group_facts = groups_ok [THEN conjunct1] groups_ok [THEN conjunct2]

text \<open>How many clusters a reader finds.\<close>

definition count_clusters :: "u8 list \<Rightarrow> nat option" where
  "count_clusters body = map_option length (decode_all take_cluster body)"

lemma read_clusters_of:
  assumes "muxable origin bs"
  shows "decode_all take_cluster (clusters_of origin bs) = Some (map (wire_cluster_of origin) (cluster_groups origin bs))"
proof -
  have "\<forall>c \<in> set (map (wire_cluster_of origin) (cluster_groups origin bs)). cluster_ok c"
    using group_facts(2) [OF assms] by (auto intro!: wire_cluster_ok simp: split_beta)
  from cluster.decode_all_concat [OF this] show ?thesis by (simp add: clusters_of_def comp_def)
qed

lemma count_clusters_of: "muxable origin bs \<Longrightarrow> count_clusters (clusters_of origin bs) = Some (length (cluster_groups origin bs))"
  by (simp add: count_clusters_def read_clusters_of)

lemma groups_at_most: "length (cluster_groups origin bs) \<le> length bs"
proof (induction origin bs rule: cluster_groups.induct)
  case (2 origin b bs)
  then show ?case using length_dropWhile_le [of "near origin (rel_ms origin b)" bs] by (fastforce simp: Let_def)
qed simp

lemma demux_clusters_of: "muxable origin bs \<Longrightarrow> demux (clusters_of origin bs) = Some (map (sample_of origin) bs)"
proof -
  assume mux: "muxable origin bs"
  let ?gs = "cluster_groups origin bs"
  note g = group_facts [OF mux]
  note d = read_clusters_of [OF mux]
  have "map (\<lambda>g. map (\<lambda>b. block_sample (fst g) (wire origin (fst g) b)) (snd g)) ?gs
      = map (\<lambda>g. map (sample_of origin) (snd g)) ?gs"
    using g(2) by (intro map_cong refl) (auto simp: split_beta block_sample_wire)
  moreover have "concat (map (\<lambda>g. map (sample_of origin) (snd g)) ?gs) = map (sample_of origin) bs"
    by (subst (2) g(1) [symmetric]) (simp add: map_concat comp_def)
  ultimately show ?thesis
    by (simp add: demux_def d wire_cluster_of_def comp_def del: map_eq_conv)
qed

section \<open>Headers\<close>

definition appends :: "nat \<Rightarrow> (vec \<Rightarrow> matroska_error + vec) \<Rightarrow> bool" where
  "appends k f \<longleftrightarrow> (\<exists>bs. length bs \<le> k \<and> (\<forall>d. f d = Inr (d @ bs)))"

lemma appends_master:
  assumes "length ident \<le> 4" "length c + 12 \<le> k" "k \<le> 2 ^ 40"
  shows "appends k (append_master ident c)" "appends k (append_bytes ident c)"
proof -
  have v: "vint_ok (len_u64 c)" using assms by (intro vint_ok_small) (simp add: unat_len_u64)
  have "append_bytes ident c = append_master ident c" by (rule ext) (simp add: append_bytes_def)
  moreover show "appends k (append_master ident c)"
    using assms length_vint(2) [OF v] unfolding appends_def
    by (intro exI [of _ "ident @ vint (len_u64 c) @ c"])
      (simp add: append_master_def append_vint_def encode_vint_ok [OF v])
  ultimately show "appends k (append_bytes ident c)" by simp
qed

lemma appends_unsigned: "length ident \<le> 4 \<Longrightarrow> appends 20 (append_unsigned ident v)"
  using length_vint(2) [of "unsigned_width v"] unsigned_width_bounds(2) [of v] unfolding appends_def
  by (intro exI [of _ "ident @ vint (unsigned_width v) @ ubytes v"])
    (simp add: append_unsigned_def append_vint_def encode_vint_ok Let_def flip: ubytes_def)

lemma appends_float: "length ident \<le> 4 \<Longrightarrow> appends 20 (append_float ident v)"
  using length_vint(2) [of 8] unfolding appends_def
  by (intro exI [of _ "ident @ vint 8 @ u64_to_be_bytes v"])
    (simp add: append_float_def append_vint_def encode_vint_ok vint_ok_def)

lemma appends_in_order:
  assumes "list_all2 appends ks ops"
  shows "\<exists>bs. length bs \<le> sum_list ks \<and> in_order ops [] = Inr bs"
proof -
  have "\<exists>bs. length bs \<le> sum_list ks \<and> in_order ops d = Inr (d @ bs)" for d
    using assms
  proof (induction arbitrary: d rule: list_all2_induct)
    case Nil
    then show ?case by (simp add: in_order_def)
  next
    case (Cons k ks op ops)
    obtain b where b: "length b \<le> k" "op d = Inr (d @ b)" using Cons.hyps unfolding appends_def by blast
    obtain bs where "length bs \<le> sum_list ks" "in_order ops (d @ b) = Inr ((d @ b) @ bs)"
      using Cons.IH by blast
    then show ?case using b by (intro exI [of _ "b @ bs"]) (simp add: in_order_def)
  qed
  from this [of "[]"] show ?thesis by simp
qed

lemma in_order_single: "in_order [f] w = f w"
  by (cases "f w") (simp_all add: in_order_def)

lemma appends_obtain:
  assumes "list_all2 appends ks ops" "sum_list ks \<le> n"
  obtains bs where "length bs \<le> n" "in_order ops [] = Inr bs"
  using appends_in_order [OF assms(1)] assms(2) order_trans by blast

lemma write_element_exists:
  assumes "accepts sink" "list_all2 appends ks ops" "sum_list ks \<le> 2 ^ 40"
  shows "\<exists>h. adds (\<lambda>w. and_then (in_order ops []) (\<lambda>c. write_element sink ident c w)) h"
proof -
  obtain c where c: "length c \<le> sum_list ks" "in_order ops [] = Inr c"
    using appends_in_order [OF assms(2)] by blast
  then have "vint_ok (len_u64 c)" using assms(3) by (intro vint_ok_small) (simp add: unat_len_u64)
  from write_element_adds [OF assms(1) this, of ident] show ?thesis by (auto simp: c(2))
qed

lemmas appends_simps = appends_unsigned appends_float appends_master ascii_def

lemma write_ebml_header_adds: "accepts sink \<Longrightarrow> \<exists>h. adds (write_ebml_header sink) h"
  unfolding write_ebml_header_def
  by (rule write_element_exists [where ks = "[20, 20, 20, 20, 20, 20, 20]"])
    (simp_all add: appends_simps)

lemma write_info_adds: "accepts sink \<Longrightarrow> \<exists>h. adds (write_info sink duration) h"
  unfolding write_info_def
  by (rule write_element_exists [where ks = "[20, 20, 20, 20]"]) (simp_all add: appends_simps ID_DURATION_def)

lemma video_settings_ok:
  obtains v where "length v \<le> 40" "video_settings stream = Inr v"
proof -
  have "list_all2 appends [20, 20]
     [append_unsigned [0xb0] (ucast (vs_width stream)), append_unsigned [0xba] (ucast (vs_height stream))]"
    by (simp add: appends_simps)
  from appends_in_order [OF this] that show ?thesis by (auto simp: video_settings_def)
qed

lemma audio_track_ok:
  assumes "length name \<le> 20" "length (op_codec_private stream) \<le> 65536"
  obtains v where "length v \<le> 2 ^ 20" "audio_track n name stream = Inr v"
proof -
  let ?ops = "[append_float [0xb5] (f64_bits (unat (op_sample_rate stream)) 1),
        append_unsigned [0x9f] (ucast (op_channels stream))]"
  have "list_all2 appends [20, 20] ?ops" by (simp add: appends_simps)
  from appends_in_order [OF this] obtain s where s: "length s \<le> 40" "in_order ?ops [] = Inr s" by auto
  have "list_all2 appends [20, 20, 32, 20, 20, 20, 20, 20, 65548, 60]
      [append_unsigned [0xd7] n, append_unsigned [0x73, 0xc5] n,
        append_bytes [0x53, 0x6e] name, append_unsigned [0x83] 2, append_unsigned [0x9c] 0,
        append_unsigned [0x56, 0xaa] 6500000, append_unsigned [0x56, 0xbb] 80000000,
        append_bytes [0x86] (ascii ''A_OPUS''), append_bytes [0x63, 0xa2] (op_codec_private stream),
        append_master [0xe1] s]"
    using assms s(1) by (simp add: appends_simps)
  from appends_in_order [OF this] obtain v where "length v \<le> 65780" "audio_track n name stream = Inr v"
    unfolding audio_track_def s(2) and_then_simps by auto
  then show ?thesis by (intro that [of v]) simp_all
qed

definition stream_ok :: "replay_video_stream \<Rightarrow> bool" where
  "stream_ok stream \<longleftrightarrow> length (vs_codec_private stream) \<le> 65536"

lemma length_codec_id [simp]: "length (matroska_codec_id c) \<le> 20"
  by (cases c) (simp_all add: ascii_def)

lemma write_tracks_adds:
  assumes "accepts sink" "stream_ok stream"
  shows "\<exists>h. adds (write_tracks sink stream) h"
proof -
  obtain v where v: "length v \<le> 40" "video_settings stream = Inr v" by (rule video_settings_ok)
  let ?private = "if vs_codec_private stream \<noteq> [] then [append_bytes [0x63, 0xa2] (vs_codec_private stream)] else []"
  let ?ops = "[append_unsigned [0xd7] 1, append_unsigned [0x73, 0xc5] 1, append_unsigned [0x83] 1,
         append_unsigned [0x9c] 0,
         append_unsigned [0x23, 0xe3, 0x83] (1000000000 div ucast (vs_frames_per_second stream)),
         append_bytes [0x86] (matroska_codec_id (vs_codec stream))]
        @ ?private @ [append_master [0xe0] v]"
  have "list_all2 appends (if vs_codec_private stream \<noteq> [] then [65548] else []) ?private"
    using assms(2) by (simp add: appends_simps stream_ok_def)
  then have "list_all2 appends ([20, 20, 20, 20, 20, 32]
      @ (if vs_codec_private stream \<noteq> [] then [65548] else []) @ [60]) ?ops"
    using v(1) by (intro list_all2_appendI) (simp_all add: appends_simps)
  then obtain t where t: "length t \<le> 70000" "in_order ?ops [] = Inr t"
    by (rule appends_obtain [where n = 70000]) simp_all
  have "list_all2 appends [70012] [append_master [0xae] t]" using t(1) by (simp add: appends_simps)
  from write_element_exists [OF assms(1) this, of ID_TRACKS] show ?thesis
    unfolding write_tracks_def v(2) and_then_simps t(2) in_order_single by simp
qed

lemma write_audio_video_tracks_adds:
  assumes "accepts sink" "stream_ok stream" "length (op_codec_private (as_stream system)) \<le> 65536"
    and mic: "\<And>m. microphone = Some m \<Longrightarrow> length (op_codec_private (as_stream m)) \<le> 65536"
  shows "\<exists>h. adds (write_audio_video_tracks sink stream system microphone) h"
proof -
  obtain v where v: "length v \<le> 40" "video_settings stream = Inr v" by (rule video_settings_ok)
  let ?ops = "[append_unsigned [0xd7] 1, append_unsigned [0x73, 0xc5] 1, append_unsigned [0x83] 1,
        append_unsigned [0x9c] 0, append_bytes [0x86] (matroska_codec_id (vs_codec stream)),
        append_bytes [0x63, 0xa2] (vs_codec_private stream), append_master [0xe0] v]"
  have "list_all2 appends [20, 20, 20, 20, 32, 65548, 60] ?ops"
    using v(1) assms(2) by (simp add: appends_simps stream_ok_def)
  then obtain t where t: "length t \<le> 70000" "in_order ?ops [] = Inr t"
    by (rule appends_obtain [where n = 70000]) simp_all
  have names: "length (ascii ''System audio'') \<le> 20" "length (ascii ''Microphone'') \<le> 20"
    by (simp_all add: ascii_def)
  obtain a where a: "length a \<le> 2 ^ 20" "audio_track 2 (ascii ''System audio'') (as_stream system) = Inr a"
    by (rule audio_track_ok [OF names(1) assms(3)])
  have "list_all2 appends [70012, 2 ^ 20 + 12] [append_master [0xae] t, append_master [0xae] a]"
    using t(1) a(1) by (simp add: appends_simps)
  then obtain d where d: "length d \<le> 2 ^ 21" "in_order [append_master [0xae] t, append_master [0xae] a] [] = Inr d"
    by (rule appends_obtain [where n = "2 ^ 21"]) simp_all
  obtain c where c: "length c \<le> 2 ^ 22" "(case microphone of None \<Rightarrow> Inr d
        | Some mic \<Rightarrow> and_then (audio_track 3 (ascii ''Microphone'') (as_stream mic))
                        (\<lambda>track. append_master [0xae] track d)) = Inr c"
  proof (cases microphone)
    case None
    then show ?thesis using that [of d] d(1) by simp
  next
    case (Some m)
    obtain b where b: "length b \<le> 2 ^ 20" "audio_track 3 (ascii ''Microphone'') (as_stream m) = Inr b"
      by (rule audio_track_ok [OF names(2) mic [OF Some]])
    have "appends (2 ^ 20 + 12) (append_master [0xae] b)" using b(1) by (simp add: appends_simps)
    then obtain x where "length x \<le> 2 ^ 20 + 12" "append_master [0xae] b d = Inr (d @ x)"
      by (auto simp: appends_def)
    then show ?thesis using that [of "d @ x"] d(1) Some b(2) by simp
  qed
  have "vint_ok (len_u64 c)" using c(1) by (intro vint_ok_small) (simp add: unat_len_u64)
  from write_element_adds [OF assms(1) this, of ID_TRACKS] show ?thesis
    unfolding write_audio_video_tracks_def v(2) and_then_simps t(2) a(2) d(2) c(2) by blast
qed

section \<open>The video-only writer is the audio-video writer without audio\<close>

lemma write_packet_block_Video:
  "length (pk_bytes p) \<le> 2 ^ 40 \<Longrightarrow>
    write_packet_block sink origin t w p = write_block sink origin t w (Video p)"
  by (simp add: write_packet_block_def write_block_def saturating_add_4_len del: of_nat_add)

lemma try_fold_map: "try_fold f s (map g xs) = try_fold (\<lambda>s x. f s (g x)) s xs"
  by (induction xs arbitrary: s) (simp_all add: and_then_def)

lemma try_fold_cong:
  "(\<And>s x. x \<in> set xs \<Longrightarrow> f s x = g s x) \<Longrightarrow> try_fold f s xs = try_fold g s xs"
  by (induction xs arbitrary: s) (simp_all add: and_then_def split: sum.split)

lemma write_cluster_Video:
  assumes "\<forall>p \<in> set ps. length (pk_bytes p) \<le> 2 ^ 40"
  shows "write_cluster sink ps origin t w = write_av_cluster sink (map Video ps) origin t w"
proof -
  have size: "cluster_content_size ps t = try_fold (\<lambda>s b. ok_or (checked_add s (element_size ID_SIMPLE_BLOCK
            (saturating_add 4 (len_u64 (block_bytes b))))) ContainerTooLarge)
      (element_size ID_TIMESTAMP (unsigned_width t)) (map Video ps)"
    unfolding cluster_content_size_def try_fold_map using assms
    by (intro try_fold_cong) (simp add: saturating_add_4_len del: of_nat_add)
  have blocks: "try_fold (write_packet_block sink origin t) w ps
      = try_fold (write_block sink origin t) w (map Video ps)" for w
    unfolding try_fold_map using assms by (intro try_fold_cong) (simp add: write_packet_block_Video)
  show ?thesis by (simp only: write_cluster_def write_av_cluster_def size blocks)
qed

lemma cluster_end_loop_Video:
  assumes "\<forall>p \<in> set ps. origin \<le> pk_timestamp_ns p \<and> t \<le> rel_ms origin (Video p)"
  shows "cluster_end_loop ps origin t n = av_cluster_end (map Video ps) origin t n"
  using assms
proof (induction ps arbitrary: n)
  case (Cons p ps)
  let ?m = "rel_ms origin (Video p)"
  have rel: "relative_milliseconds (pk_timestamp_ns p) origin = Inr ?m"
    using relative_milliseconds_ok [of origin "Video p"] Cons.prems by simp
  have le: "t \<le> ?m" using Cons.prems by simp
  then have sub: "checked_sub ?m t = Some (?m - t)" "saturating_sub ?m t = ?m - t"
    by (simp_all add: checked_sub_def word_eq_iff_unat unat_saturating_sub unat_sub)
  have "(?m - t > MAX_CLUSTER_DURATION_MS \<or> ?m - t > 32767) \<longleftrightarrow> \<not> ?m - t \<le> MAX_CLUSTER_DURATION_MS"
    by (auto simp: word_less_nat_alt word_le_nat_alt MAX_CLUSTER_DURATION_MS_def)
  then show ?case using Cons by (simp add: rel sub)
qed simp

lemma write_clusters_Video:
  assumes "muxable origin (map Video (drop i ps))"
  shows "write_clusters sink ps origin i n w = write_av_clusters sink (map Video ps) origin i n w"
  using assms
proof (induction "length ps - i" arbitrary: i n w rule: less_induct)
  case less
  show ?case
  proof (cases "i < length ps")
    case True
    let ?m = "rel_ms origin (Video (ps ! i))"
    have split: "drop i ps = ps ! i # drop (i + 1) ps" using True by (simp add: Cons_nth_drop_Suc)
    have mux: "muxable origin (Video (ps ! i) # map Video (drop (i + 1) ps))"
      using less.prems unfolding split by simp
    have small: "length (pk_bytes p) \<le> 2 ^ 40" if "p \<in> set (drop i ps)" for p
      using length_le_weight [of "Video p" "map Video (drop i ps)"] that less.prems by (simp add: muxable_def)
    have rel: "relative_milliseconds (pk_timestamp_ns (ps ! i)) origin = Inr ?m"
      using relative_milliseconds_ok [of origin "Video (ps ! i)"] mux by (simp add: muxable_def)
    have stop: "cluster_end ps i origin ?m = av_cluster_end (drop (i + 1) (map Video ps)) origin ?m (i + 1)"
      unfolding cluster_end_def drop_map
      using muxable_rel_ms [OF mux] by (intro cluster_end_loop_Video) auto
    show ?thesis
    proof (cases "av_cluster_end (drop (i + 1) (map Video ps)) origin ?m (i + 1)")
      case (Inr k)
      then have k: "i < k" using av_cluster_end_ge by fastforce
      have "write_cluster sink (slice i (k - i) ps) origin ?m w
          = write_av_cluster sink (slice i (k - i) (map Video ps)) origin ?m w" for w
        using small by (subst write_cluster_Video) (auto simp: slice_def take_map drop_map dest: in_set_takeD)
      moreover have "muxable origin (map Video (drop k ps))"
        using less.prems muxable_append [of origin "map Video (take (k - i) (drop i ps))" "map Video (drop k ps)"]
          k append_take_drop_id [of "k - i" "drop i ps"]
        by (simp flip: map_append)
      ultimately show ?thesis
        using less.hyps [of k] True k Inr stop rel
        by (simp add: write_clusters.simps [of sink ps origin i] write_av_clusters.simps [of sink _ origin i]
            split: sum.split)
    qed (use True rel stop in \<open>simp add: write_clusters.simps [of sink ps origin i]
           write_av_clusters.simps [of sink _ origin i]\<close>)
  qed (simp add: write_clusters.simps [of sink ps origin i] write_av_clusters.simps [of sink _ origin i])
qed

section \<open>Whole clips\<close>

lemma weight_perm: "mset xs = mset ys \<Longrightarrow> weight xs = weight ys"
proof -
  have "weight bs = sum_mset (image_mset (\<lambda>b. length (block_bytes b) + 13) (mset bs))" for bs
    by (induction bs) (simp_all add: weight_def)
  then show "mset xs = mset ys \<Longrightarrow> weight xs = weight ys" by simp
qed

lemma ring_packets_facts:
  assumes "ring_inv r" "rr_packets r \<noteq> []"
  shows "sorted (map block_timestamp_ns (map Video (rr_packets r)))"
    and "weight (map Video (rr_packets r)) \<le> 300000000"
    and "\<forall>p \<in> set (rr_packets r). pk_timestamp_ns (hd (rr_packets r)) \<le> pk_timestamp_ns p"
    and "pk_keyframe (hd (rr_packets r))"
    and "length (rr_packets r) \<le> 216000"
proof -
  let ?ps = "rr_packets r"
  have inc: "timestamps_increase ?ps" using assms(1) by (simp add: ring_inv_def)
  then show "sorted (map block_timestamp_ns (map Video ?ps))"
    by (auto simp: timestamps_increase_def sorted_wrt_map comp_def elim: sorted_wrt_mono_rel [rotated])
  show "\<forall>p \<in> set ?ps. pk_timestamp_ns (hd ?ps) \<le> pk_timestamp_ns p"
    using inc assms(2) by (cases ?ps) (auto simp: timestamps_increase_def)
  show "pk_keyframe (hd ?ps)" using assms by (simp add: ring_inv_def keyframe_start_def)
  have lim: "length ?ps \<le> unat (rr_packet_limit r)" "unat (rr_packet_limit r) \<le> 216000"
    "payload ?ps \<le> unat (rr_byte_limit r)" "unat (rr_byte_limit r) \<le> 256 * 1024 * 1024"
    using assms(1) by (simp_all add: ring_inv_def within_limits_def ring_config_def word_le_nat_alt
        MAX_IN_MEMORY_REPLAY_BYTES_def)
  then show "length ?ps \<le> 216000" by linarith
  moreover have "weight (map Video ps) = payload ps + 13 * length ps" for ps
    by (induction ps) (simp_all add: weight_def)
  ultimately show "weight (map Video ?ps) \<le> 300000000" using lim(3,4) by simp
qed

lemma ring_clip_end:
  assumes "ring_inv r" "rr_packets r \<noteq> []"
  shows "\<exists>stop. checked_add (pk_timestamp_ns (last (rr_packets r))) (pk_duration_ns (last (rr_packets r))) = Some stop
    \<and> unat stop = unat (pk_timestamp_ns (last (rr_packets r))) + unat (pk_duration_ns (last (rr_packets r)))
    \<and> pk_timestamp_ns (hd (rr_packets r)) \<le> stop"
proof -
  let ?l = "last (rr_packets r)"
  have l: "?l \<in> set (rr_packets r)" using assms(2) by simp
  then have "packet_ok ?l" using assms(1) by (simp add: ring_inv_def)
  moreover have "pk_timestamp_ns (hd (rr_packets r)) \<le> pk_timestamp_ns ?l"
    using ring_packets_facts(3) [OF assms] l by blast
  ultimately show ?thesis
    by (auto simp: packet_ok_iff checked_add_def unat_word_ariths word_le_nat_alt)
qed

lemma validated_all:
  "\<forall>p \<in> set ps. validate_packet stream (pk_bytes p) = Inr () \<Longrightarrow>
    try_all (\<lambda>p. map_err (\<lambda>_. InvalidMuxPacket) (validate_packet stream (pk_bytes p))) ps = Inr ()"
  by (induction ps) (simp_all add: map_err_def)

lemma clip_header_ok:
  assumes "accepts sink" "\<exists>h. adds tracks h"
  obtains h where "in_order [write_ebml_header sink, write_all sink ID_SEGMENT, write_all sink UNKNOWN_SIZE,
      write_info sink duration, tracks] counting_writer_new = Inr (cw_append h counting_writer_new)"
proof -
  obtain a b c where "adds (write_ebml_header sink) a" "adds (write_info sink duration) b" "adds tracks c"
    using write_ebml_header_adds [OF assms(1)] write_info_adds [OF assms(1)] assms(2) by blast
  then have "list_all2 adds [write_ebml_header sink, write_all sink ID_SEGMENT, write_all sink UNKNOWN_SIZE,
      write_info sink duration, tracks] [a, ID_SEGMENT, UNKNOWN_SIZE, b, c]"
    using assms(1) by (simp add: write_all_adds)
  from addsD [OF adds_in_order [OF this]] show ?thesis by (rule that)
qed

text \<open>C23: A ring's history becomes a complete sequence of clusters: for every destination that accepts writes the
  video-only writer succeeds. Its output is what the writers of the EBML header, the segment header, the segment information and
  the track list produce, followed by clusters from which a reader gets back every packet in order, with
  its bytes, its keyframe flag and its time in milliseconds from the first packet. The summary's counts of
  packets, clusters and nanoseconds are exact, and its byte count is the length of the output, saturating
  at 64 bits. The track description is one the writer can encode and the packets pass the stream's framing check.\<close>

theorem video_clip_demux:
  assumes "ring_inv r" "rr_packets r \<noteq> []" "accepts sink" "stream_ok stream"
    and "\<forall>p \<in> set (rr_packets r). validate_packet stream (pk_bytes p) = Inr ()"
  shows "\<exists>summary header body. write_video_only_matroska sink stream r = Inr (summary, header @ body)
    \<and> in_order [write_ebml_header sink, write_all sink ID_SEGMENT, write_all sink UNKNOWN_SIZE,
        write_info sink (ms_duration_ns summary), write_tracks sink stream] counting_writer_new
      = Inr (cw_append header counting_writer_new)
    \<and> count_clusters body = Some (unat (ms_clusters summary))
    \<and> demux body = Some (map (\<lambda>p. (0x81, unat (pk_timestamp_ns p - pk_timestamp_ns (hd (rr_packets r))) div 1000000,
          if pk_keyframe p then 0x80 else 0, pk_bytes p)) (rr_packets r))
    \<and> unat (ms_packets summary) = length (rr_packets r)
    \<and> unat (ms_duration_ns summary) = unat (pk_timestamp_ns (last (rr_packets r)))
        + unat (pk_duration_ns (last (rr_packets r))) - unat (pk_timestamp_ns (hd (rr_packets r)))
    \<and> unat (ms_bytes_written summary) = min (length (header @ body)) (2 ^ 64 - 1)"
proof -
  let ?ps = "rr_packets r" and ?o = "pk_timestamp_ns (hd (rr_packets r))"
  note facts = ring_packets_facts [OF assms(1,2)]
  obtain stop where stop: "checked_add (pk_timestamp_ns (last ?ps)) (pk_duration_ns (last ?ps)) = Some stop"
    "unat stop = unat (pk_timestamp_ns (last ?ps)) + unat (pk_duration_ns (last ?ps))" "?o \<le> stop"
    using ring_clip_end [OF assms(1,2)] by blast
  then have sub: "checked_sub stop ?o = Some (stop - ?o)" "unat (stop - ?o) = unat stop - unat ?o"
    by (simp_all add: checked_sub_def unat_sub)
  obtain h where h: "in_order [write_ebml_header sink, write_all sink ID_SEGMENT, write_all sink UNKNOWN_SIZE,
      write_info sink (stop - ?o), write_tracks sink stream] counting_writer_new = Inr (cw_append h counting_writer_new)"
    by (rule clip_header_ok [OF assms(3) write_tracks_adds [OF assms(3,4)]])
  have mux: "muxable ?o (map Video ?ps)" using facts(1-3) by (simp add: muxable_def)
  then have w: "write_clusters sink ?ps ?o 0 0 (cw_append h counting_writer_new)
    = Inr (sadd 0 (length (cluster_groups ?o (map Video ?ps))),
        cw_append (clusters_of ?o (map Video ?ps)) (cw_append h counting_writer_new))"
    using write_av_clusters_adds [OF assms(3), of 0 "map Video ?ps" "map Video ?ps" ?o]
    by (simp add: write_clusters_Video clusters_of_def)
  have n: "unat (unwrap_or (try_from (length ?ps)) (- 1) :: u32) = length ?ps"
    using facts(5) by (simp add: unat_try_from_max)
  let ?b = "clusters_of ?o (map Video ?ps)"
  let ?s = "\<lparr>ms_packets = unwrap_or (try_from (length ?ps)) (- 1),
      ms_clusters = sadd 0 (length (cluster_groups ?o (map Video ?ps))), ms_duration_ns = stop - ?o,
      ms_bytes_written = sadd 0 (length (h @ ?b))\<rparr>"
  have "write_video_only_matroska sink stream r = Inr (?s, h @ ?b)"
    unfolding write_video_only_matroska_def
    using assms(2) facts(4) validated_all [OF assms(5)] stop(1) sub(1) h w
    by (simp add: Let_def) (simp add: cw_append_def counting_writer_new_def)
  moreover have "demux ?b = Some (map (\<lambda>p. (0x81, unat (pk_timestamp_ns p - ?o) div 1000000,
      if pk_keyframe p then 0x80 else 0, pk_bytes p)) ?ps)"
    by (simp add: demux_clusters_of [OF mux] sample_of_def rel_ms_def unat_div TIMESTAMP_SCALE_NS_def)
  moreover have "unat (ms_packets ?s) = length ?ps" "unat (ms_duration_ns ?s) = unat stop - unat ?o"
    using n sub(2) by simp_all
  moreover have "length (cluster_groups ?o (map Video ?ps)) < 2 ^ 32"
    using groups_at_most [of ?o "map Video ?ps"] facts(5) by simp
  then have "count_clusters ?b = Some (unat (ms_clusters ?s))"
    by (simp add: count_clusters_of [OF mux] unat_sadd)
  ultimately show ?thesis
    using h unfolding stop(2) [symmetric]
    by - (rule exI [of _ ?s], rule exI [of _ h], rule exI [of _ ?b], simp add: unat_sadd)
qed

text \<open>The blocks of a clip with audio: video, then the two audio tracks cut to the clip's window,
  stably sorted by time.\<close>

definition clip_blocks :: "replay_ring \<Rightarrow> replay_audio_tracks \<Rightarrow> u64 \<Rightarrow> matroska_block list" where
  "clip_blocks r audio stop = (let origin = pk_timestamp_ns (hd (rr_packets r)) in
     sort_key block_timestamp_ns (map Video (rr_packets r)
       @ map (\<lambda>p. Audio p 2) (filter (in_window origin stop) (as_packets (at_system audio)))
       @ map (\<lambda>p. Audio p 3) (filter (in_window origin stop) (microphone_packets audio))))"

text \<open>Audio as the buffers of a running recorder hold it.\<close>

definition audio_ok :: "replay_audio_tracks \<Rightarrow> bool" where
  "audio_ok audio \<longleftrightarrow> length (as_packets (at_system audio)) \<le> MAX_AUDIO_PACKETS
     \<and> length (microphone_packets audio) \<le> MAX_AUDIO_PACKETS
     \<and> list_all (\<lambda>p. \<not> invalid_audio_packet p) (as_packets (at_system audio) @ microphone_packets audio)
     \<and> length (op_codec_private (as_stream (at_system audio))) \<le> 65536
     \<and> (case at_microphone audio of None \<Rightarrow> True | Some m \<Rightarrow> length (op_codec_private (as_stream m)) \<le> 65536)"

lemma weight_audio:
  assumes "list_all (\<lambda>p. \<not> invalid_audio_packet p) ps" "length ps \<le> MAX_AUDIO_PACKETS"
  shows "weight (map (\<lambda>p. Audio p n) (filter P ps)) \<le> 200000000"
proof -
  have "weight (map (\<lambda>p. Audio p n) (filter P ps)) \<le> 4109 * length ps"
    using assms(1) by (induction ps) (simp_all add: weight_def invalid_audio_packet_def)
  then show ?thesis using assms(2) by (simp add: MAX_AUDIO_PACKETS_def)
qed

lemma clip_blocks_muxable:
  assumes "ring_inv r" "rr_packets r \<noteq> []" "audio_ok audio"
  shows "muxable (pk_timestamp_ns (hd (rr_packets r))) (clip_blocks r audio stop)"
proof -
  let ?o = "pk_timestamp_ns (hd (rr_packets r))"
  let ?bs = "map Video (rr_packets r)
       @ map (\<lambda>p. Audio p 2) (filter (in_window ?o stop) (as_packets (at_system audio)))
       @ map (\<lambda>p. Audio p 3) (filter (in_window ?o stop) (microphone_packets audio))"
  have "weight (sort_key block_timestamp_ns ?bs) = weight ?bs" by (rule weight_perm) simp
  also have "\<dots> \<le> 300000000 + 200000000 + 200000000"
    unfolding weight_append add.assoc using assms(3)
    by (intro add_mono ring_packets_facts(2) [OF assms(1,2)] weight_audio) (simp_all add: audio_ok_def)
  finally show ?thesis
    using ring_packets_facts(3) [OF assms(1,2)]
    by (auto simp: muxable_def clip_blocks_def Let_def in_window_def)
qed

text \<open>C24: A clip with audio holds everything it should: for every ring history and audio tracks of a
  running recorder the writer succeeds, and a reader gets back exactly the video packets and the
  audio packets that start inside the clip, each on its track with its bytes and time, in time
  order with video before system audio before microphone at equal times.\<close>

theorem audio_video_clip_demux:
  assumes "ring_inv r" "rr_packets r \<noteq> []" "accepts sink" "stream_ok stream" "audio_ok audio"
    and "\<forall>p \<in> set (rr_packets r). validate_packet stream (pk_bytes p) = Inr ()"
  shows "\<exists>summary header body stop.
      write_audio_video_matroska_tracks sink stream r audio = Inr (summary, header @ body)
    \<and> unat stop = unat (pk_timestamp_ns (last (rr_packets r))) + unat (pk_duration_ns (last (rr_packets r)))
    \<and> demux body = Some (map (sample_of (pk_timestamp_ns (hd (rr_packets r)))) (clip_blocks r audio stop))
    \<and> unat (ms_packets summary) = length (rr_packets r)
    \<and> unat (ms_bytes_written summary) = min (length (header @ body)) (2 ^ 64 - 1)"
proof -
  let ?ps = "rr_packets r" and ?o = "pk_timestamp_ns (hd (rr_packets r))"
  note facts = ring_packets_facts [OF assms(1,2)]
  obtain stop where stop: "checked_add (pk_timestamp_ns (last ?ps)) (pk_duration_ns (last ?ps)) = Some stop"
    "unat stop = unat (pk_timestamp_ns (last ?ps)) + unat (pk_duration_ns (last ?ps))"
    using ring_clip_end [OF assms(1,2)] by blast
  let ?bs = "clip_blocks r audio stop"
  let ?b = "clusters_of ?o ?bs"
  have "length (op_codec_private (as_stream m)) \<le> 65536" if "at_microphone audio = Some m" for m
    using assms(5) that by (simp add: audio_ok_def)
  then have "\<exists>h. adds (write_audio_video_tracks sink stream (at_system audio) (at_microphone audio)) h"
    using assms(5) by (intro write_audio_video_tracks_adds [OF assms(3,4)]) (simp_all add: audio_ok_def)
  then obtain h where h: "in_order [write_ebml_header sink, write_all sink ID_SEGMENT, write_all sink UNKNOWN_SIZE,
      write_info sink (saturating_sub stop ?o),
      write_audio_video_tracks sink stream (at_system audio) (at_microphone audio)] counting_writer_new
      = Inr (cw_append h counting_writer_new)"
    by (rule clip_header_ok [OF assms(3)])
  have mux: "muxable ?o ?bs" using assms(1,2,5) by (rule clip_blocks_muxable)
  have w: "write_av_clusters sink ?bs ?o 0 0 (cw_append h counting_writer_new)
    = Inr (sadd 0 (length (cluster_groups ?o ?bs)), cw_append ?b (cw_append h counting_writer_new))"
    using write_av_clusters_adds [OF assms(3) _ mux, of 0 ?bs] by (simp add: clusters_of_def)
  have valid: "\<not> list_ex invalid_audio_packet (filter (in_window ?o stop) (as_packets (at_system audio))
      @ filter (in_window ?o stop) (microphone_packets audio))"
    using assms(5) by (auto simp: audio_ok_def list_all_iff list_ex_iff)
  let ?s = "\<lparr>ms_packets = unwrap_or (try_from (length ?ps)) (- 1),
      ms_clusters = sadd 0 (length (cluster_groups ?o ?bs)), ms_duration_ns = saturating_sub stop ?o,
      ms_bytes_written = sadd 0 (length (h @ ?b))\<rparr>"
  have "write_audio_video_matroska_tracks sink stream r audio = Inr (?s, h @ ?b)"
    unfolding write_audio_video_matroska_tracks_def
    using assms(2) facts(4) validated_all [OF assms(6)] stop(1) h valid w [unfolded clip_blocks_def Let_def]
    by (simp add: Let_def clip_blocks_def) (simp add: cw_append_def counting_writer_new_def)
  moreover have "unat (ms_packets ?s) = length ?ps" using facts(5) by (simp add: unat_try_from_max)
  ultimately show ?thesis
    using stop(2) demux_clusters_of [OF mux]
    by - (rule exI [of _ ?s], rule exI [of _ h], rule exI [of _ ?b], rule exI [of _ stop], simp add: unat_sadd)
qed

section \<open>Witnesses\<close>

definition sample_clip :: replay_ring where
  "sample_clip = after_push (sample_packet 1000 True) sample_ring"

definition accepting :: sink where
  "accepting contents buffer = None"

definition sample_audio :: replay_audio_tracks where
  "sample_audio = \<lparr>at_system = \<lparr>as_stream = opus_default,
      as_packets = [sample_opus 1000, sample_opus 2001000, sample_opus 90000000]\<rparr>, at_microphone = None\<rparr>"

lemma sample_clip_facts:
  "ring_inv sample_clip" "rr_packets sample_clip = [sample_packet 1000 True]" "accepts accepting"
  "stream_ok sample_stream" "\<forall>p \<in> set (rr_packets sample_clip). validate_packet sample_stream (pk_bytes p) = Inr ()"
proof -
  show "ring_inv sample_clip" unfolding sample_clip_def
    by (rule after_push_inv) (simp_all add: sample_ring_inv sample_packet_ok stale_def sample_ring_fields)
  show ps: "rr_packets sample_clip = [sample_packet 1000 True]"
    by (simp add: sample_clip_def sample_ring_fields kept_def within_limits_def sample_ring_limits
        sample_packet_def span_exceeds_def history_span_def saturating_sub_def saturating_add_def)
  show "accepts accepting" by (simp add: accepts_def accepting_def)
  show "stream_ok sample_stream" by (simp add: stream_ok_def sample_stream_def)
  show "\<forall>p \<in> set (rr_packets sample_clip). validate_packet sample_stream (pk_bytes p) = Inr ()"
    by (simp add: ps validate_packet_def sample_stream_def sample_packet_def)
qed

theorem video_clip_demux_witness:
  "\<exists>summary header body. write_video_only_matroska accepting sample_stream sample_clip = Inr (summary, header @ body)
     \<and> demux body = Some [(0x81, 0, 0x80, [1, 2, 3])] \<and> unat (ms_duration_ns summary) = 16000000"
  using video_clip_demux [OF sample_clip_facts(1) _ sample_clip_facts(3-5)]
  by (fastforce simp: sample_clip_facts(2) sample_packet_def)

lemma sample_audio_ok: "audio_ok sample_audio"
  by (simp add: audio_ok_def sample_audio_def microphone_packets_def MAX_AUDIO_PACKETS_def sample_opus_def
      invalid_audio_packet_def checked_add_def opus_default_def)

lemma sample_clip_blocks: "clip_blocks sample_clip sample_audio 16001000
    = [Video (sample_packet 1000 True), Audio (sample_opus 1000) 2, Audio (sample_opus 2001000) 2]"
  by (simp add: clip_blocks_def sample_clip_facts(2) sample_audio_def microphone_packets_def in_window_def
      sample_packet_def sample_opus_def)

theorem audio_video_clip_demux_witness:
  "\<exists>summary header body.
     write_audio_video_matroska_tracks accepting sample_stream sample_clip sample_audio = Inr (summary, header @ body)
     \<and> demux body = Some [(0x81, 0, 0x80, [1, 2, 3]), (0x82, 0, 0x80, [7, 7]), (0x82, 2, 0x80, [7, 7])]"
proof -
  have ne: "rr_packets sample_clip \<noteq> []" by (simp add: sample_clip_facts(2))
  obtain summary header body and stop :: u64 where r:
    "write_audio_video_matroska_tracks accepting sample_stream sample_clip sample_audio = Inr (summary, header @ body)"
    "unat stop = unat (pk_timestamp_ns (sample_packet 1000 True)) + unat (pk_duration_ns (sample_packet 1000 True))"
    "demux body = Some (map (sample_of 1000) (clip_blocks sample_clip sample_audio stop))"
    using audio_video_clip_demux [OF sample_clip_facts(1) ne sample_clip_facts(3,4) sample_audio_ok sample_clip_facts(5)]
    by (fastforce simp: sample_clip_facts(2) sample_packet_def)
  have stop: "stop = 16001000" using r(2) by (simp add: sample_packet_def word_eq_iff_unat)
  from sample_clip_blocks
  have "demux body = Some [(0x81, 0, 0x80, [1, 2, 3]), (0x82, 0, 0x80, [7, 7]), (0x82, 2, 0x80, [7, 7])]"
    unfolding r(3) stop by (simp add: sample_of_def rel_ms_def TIMESTAMP_SCALE_NS_def sample_packet_def sample_opus_def)
  with r(1) show ?thesis by blast
qed

end
