(* ===== verification/Matroska_Streaming.thy ===== *)
theory Matroska_Streaming
  imports Matroska_Demux
begin

text \<open>
  The streaming writer, which never holds the whole clip: it pulls one video packet at a time,
  merges the audio in between and opens clusters of unknown size. Its output is read back element
  by element, and holds the same samples as the buffered writer's.
\<close>

section \<open>Merge order\<close>

fun interleave :: "encoded_replay_packet list \<Rightarrow> matroska_block list \<Rightarrow> matroska_block list \<times> matroska_block list" where
  "interleave [] audio = ([], audio)"
| "interleave (v # vs) audio =
     (case interleave vs (dropWhile (audio_before (pk_timestamp_ns v)) audio) of (written, rest) \<Rightarrow>
        (takeWhile (audio_before (pk_timestamp_ns v)) audio @ Video v # written, rest))"

definition merged :: "encoded_replay_packet list \<Rightarrow> matroska_block list \<Rightarrow> matroska_block list" where
  "merged vs audio = fst (interleave vs audio) @ snd (interleave vs audio)"

lemma merged_simps:
  "merged [] audio = audio"
  "merged (v # vs) audio = takeWhile (audio_before (pk_timestamp_ns v)) audio
     @ Video v # merged vs (dropWhile (audio_before (pk_timestamp_ns v)) audio)"
  by (simp_all add: merged_def split: prod.split)

definition at_time :: "u64 \<Rightarrow> matroska_block \<Rightarrow> bool" where
  "at_time k b \<longleftrightarrow> k = block_timestamp_ns b"

lemma dropWhile_not_before:
  "sorted (map block_timestamp_ns bs) \<Longrightarrow> b \<in> set (dropWhile (audio_before t) bs) \<Longrightarrow> t \<le> block_timestamp_ns b"
  by (induction bs) (auto simp: audio_before_def split: if_splits)

lemma takeWhile_before: "b \<in> set (takeWhile (audio_before t) bs) \<Longrightarrow> block_timestamp_ns b < t"
  by (drule set_takeWhileD) (simp add: audio_before_def)

lemma sorted_dropWhile_before:
  "sorted (map block_timestamp_ns bs) \<Longrightarrow> sorted (map block_timestamp_ns (dropWhile P bs))"
  by (simp add: dropWhile_map [symmetric] sorted_dropWhile dropWhile_eq_drop drop_map [symmetric] sorted_wrt_drop)

lemma filter_merged:
  assumes "sorted (map pk_timestamp_ns vs)" "sorted (map block_timestamp_ns audio)"
  shows "filter (at_time k) (merged vs audio) = filter (at_time k) (map Video vs @ audio)"
  using assms
proof (induction vs arbitrary: audio)
  case (Cons v vs)
  let ?t = "pk_timestamp_ns v"
  let ?a = "takeWhile (audio_before ?t) audio" and ?d = "dropWhile (audio_before ?t) audio"
  have "sorted (map block_timestamp_ns ?d)" using Cons.prems(2) by (rule sorted_dropWhile_before)
  then have ih: "filter (at_time k) (merged vs ?d) = filter (at_time k) (map Video vs @ ?d)"
    using Cons by simp
  have a: "filter (at_time k) audio = filter (at_time k) ?a @ filter (at_time k) ?d"
    by (simp flip: filter_append)
  show ?case
  proof (cases "k < ?t")
    case True
    have "filter (at_time k) ?d = []"
      using True dropWhile_not_before [OF Cons.prems(2)] by (force simp: filter_empty_conv at_time_def)
    moreover have "filter (at_time k) (map Video vs) = []"
      using True Cons.prems(1) by (fastforce simp: filter_empty_conv at_time_def)
    moreover have "\<not> at_time k (Video v)" using True by (simp add: at_time_def)
    ultimately show ?thesis using ih a by (simp add: merged_simps)
  next
    case False
    then have "filter (at_time k) ?a = []"
      by (auto simp: filter_empty_conv at_time_def dest: takeWhile_before)
    then show ?thesis using ih a by (simp add: merged_simps)
  qed
qed (simp add: merged_simps)

lemma mset_merged: "mset (merged vs audio) = mset (map Video vs @ audio)"
proof (induction vs arbitrary: audio)
  case (Cons v vs)
  have "mset audio = mset (takeWhile P audio) + mset (dropWhile P audio)" for P
    by (metis mset_append takeWhile_dropWhile_id)
  then show ?case using Cons by (simp add: merged_simps)
qed (simp add: merged_simps)

lemma set_merged: "set (merged vs audio) = Video ` set vs \<union> set audio"
  using mset_eq_setD [OF mset_merged] by simp

lemma sorted_merged:
  assumes "sorted (map pk_timestamp_ns vs)" "sorted (map block_timestamp_ns audio)"
  shows "sorted (map block_timestamp_ns (merged vs audio))"
  using assms
proof (induction vs arbitrary: audio)
  case (Cons v vs)
  let ?t = "pk_timestamp_ns v"
  have d: "sorted (map block_timestamp_ns (dropWhile (audio_before ?t) audio))"
    using Cons.prems(2) by (rule sorted_dropWhile_before)
  then have "\<forall>b \<in> set (merged vs (dropWhile (audio_before ?t) audio)). ?t \<le> block_timestamp_ns b"
    using Cons.prems dropWhile_not_before [OF Cons.prems(2)] by (auto simp: set_merged)
  moreover have "sorted (map block_timestamp_ns (takeWhile (audio_before ?t) audio))"
    using Cons.prems(2) by (metis takeWhile_eq_take take_map sorted_wrt_take)
  ultimately show ?case
    using Cons.IH [OF _ d] Cons.prems(1)
    by (auto simp: merged_simps sorted_append intro: order_less_imp_le order_trans dest!: takeWhile_before)
qed (simp add: merged_simps)

text \<open>The streaming merge is the stable sort of the buffered writer.\<close>

lemma merged_is_sort:
  assumes "sorted (map pk_timestamp_ns vs)" "sorted (map block_timestamp_ns audio)"
  shows "merged vs audio = sort_key block_timestamp_ns (map Video vs @ audio)"
proof (rule properties_for_sort_key [symmetric])
  show "mset (merged vs audio) = mset (map Video vs @ audio)" by (rule mset_merged)
  show "filter (\<lambda>x. block_timestamp_ns k = block_timestamp_ns x) (merged vs audio)
      = filter (\<lambda>x. block_timestamp_ns k = block_timestamp_ns x) (map Video vs @ audio)" for k
    using filter_merged [OF assms, of "block_timestamp_ns k"] by (simp add: at_time_def [abs_def])
  show "sorted (map block_timestamp_ns (merged vs audio))" using assms by (rule sorted_merged)
qed

section \<open>Elements of a streamed clip\<close>

datatype stream_element = Open_cluster u64 | Simple wire_block

definition open_cluster :: "u64 \<Rightarrow> u8 list" where
  "open_cluster t = ID_CLUSTER @ UNKNOWN_SIZE @ ID_TIMESTAMP @ vint (unsigned_width t) @ ubytes t"

primrec enc_element :: "stream_element \<Rightarrow> u8 list" where
  "enc_element (Open_cluster t) = open_cluster t"
| "enc_element (Simple b) = enc_block b"

primrec element_ok :: "stream_element \<Rightarrow> bool" where
  "element_ok (Open_cluster t) = True"
| "element_ok (Simple b) = block_ok b"

definition take_element :: "u8 list \<Rightarrow> (stream_element \<times> u8 list) option" where
  "take_element bs =
     (if take 13 bs = ID_CLUSTER @ UNKNOWN_SIZE @ ID_TIMESTAMP
      then case decode_vint (drop 13 bs) of None \<Rightarrow> None
        | Some (w, rest) \<Rightarrow>
            Some (Open_cluster (word_of_nat (nat_of_be (take (unat w) rest))), drop (unat w) rest)
      else map_option (apfst Simple) (take_block bs))"

interpretation element: prefix_codec enc_element take_element element_ok
proof
  show "take_element (enc_element e @ rest) = Some (e, rest)" if "element_ok e" for e rest
  proof (cases e)
    case (Open_cluster t)
    then show ?thesis
      by (simp add: take_element_def open_cluster_def ID_CLUSTER_def UNKNOWN_SIZE_def ID_TIMESTAMP_def
          vint.dec_enc)
  next
    case (Simple b)
    then have "take_block (enc_block b @ rest) = Some (b, rest)" using that by (simp add: take_enc_block)
    moreover have "take 13 (enc_block b @ rest) \<noteq> ID_CLUSTER @ UNKNOWN_SIZE @ ID_TIMESTAMP"
      by (simp add: enc_block_def ID_SIMPLE_BLOCK_def ID_CLUSTER_def take_Cons')
    ultimately show ?thesis using Simple by (simp add: take_element_def)
  qed
  show "enc_element e \<noteq> []" for e
    by (cases e) (simp_all add: open_cluster_def enc_block_def ID_CLUSTER_def ID_SIMPLE_BLOCK_def)
qed

fun stream_elements :: "u64 \<Rightarrow> u64 option \<Rightarrow> matroska_block list \<Rightarrow> stream_element list" where
  "stream_elements origin cluster [] = []"
| "stream_elements origin cluster (b # bs) =
     (case cluster of
        None \<Rightarrow> Open_cluster (rel_ms origin b) # Simple (wire origin (rel_ms origin b) b)
                  # stream_elements origin (Some (rel_ms origin b)) bs
      | Some t \<Rightarrow>
          if near origin t b then Simple (wire origin t b) # stream_elements origin (Some t) bs
          else Open_cluster (rel_ms origin b) # Simple (wire origin (rel_ms origin b) b)
                  # stream_elements origin (Some (rel_ms origin b)) bs)"

text \<open>The reader of a stream: a block's time is that of the cluster it stands in plus its own.\<close>

fun stream_samples :: "u64 \<Rightarrow> stream_element list \<Rightarrow> sample list" where
  "stream_samples t [] = []"
| "stream_samples t (Open_cluster u # es) = stream_samples u es"
| "stream_samples t (Simple b # es) = block_sample t b # stream_samples t es"

definition demux_stream :: "u8 list \<Rightarrow> sample list option" where
  "demux_stream body = map_option (stream_samples 0) (decode_all take_element body)"

lemma fits_own_cluster: "muxable origin (b # bs) \<Longrightarrow> fits_cluster origin (rel_ms origin b) b"
  using muxable_first_group by fastforce

definition follows :: "u64 \<Rightarrow> u64 option \<Rightarrow> matroska_block list \<Rightarrow> bool" where
  "follows origin cluster bs \<longleftrightarrow> (\<forall>t. cluster = Some t \<longrightarrow> (\<forall>b \<in> set bs. t \<le> rel_ms origin b))"

lemma muxable_tl: "muxable origin (b # bs) \<Longrightarrow> muxable origin bs"
  using muxable_append [of origin "[b]" bs] by simp

lemma follows_own: "muxable origin (b # bs) \<Longrightarrow> follows origin (Some (rel_ms origin b)) bs"
  using muxable_rel_ms by (auto simp: follows_def)

lemma fits_open_cluster:
  assumes "muxable origin (b # bs)" "follows origin (Some t) (b # bs)" "near origin t b"
  shows "fits_cluster origin t b"
  using fits_own_cluster [OF assms(1)] assms(2,3) by (simp add: fits_cluster_def follows_def near_def)

lemma stream_elements_samples:
  assumes "muxable origin bs" "follows origin cluster bs"
  shows "stream_samples (case cluster of None \<Rightarrow> u | Some t \<Rightarrow> t) (stream_elements origin cluster bs)
      = map (sample_of origin) bs"
    and "\<forall>e \<in> set (stream_elements origin cluster bs). element_ok e"
proof -
  have "stream_samples (case cluster of None \<Rightarrow> u | Some t \<Rightarrow> t) (stream_elements origin cluster bs)
      = map (sample_of origin) bs \<and> (\<forall>e \<in> set (stream_elements origin cluster bs). element_ok e)"
    using assms
  proof (induction bs arbitrary: cluster u)
    case (Cons b bs)
    note own = fits_own_cluster [OF Cons.prems(1)]
    note ih = Cons.IH [OF muxable_tl [OF Cons.prems(1)] follows_own [OF Cons.prems(1)]]
    have ok: "block_ok (wire origin t b)" for t using own by (simp add: block_ok_def wire_def fits_cluster_def)
    have tl: "follows origin (Some t) bs" if "cluster = Some t" for t
      using Cons.prems(2) that by (simp add: follows_def)
    show ?case
    proof (cases cluster)
      case None
      then show ?thesis using ih block_sample_wire [OF own] ok by simp
    next
      case (Some t)
      show ?thesis
      proof (cases "near origin t b")
        case True
        then have "fits_cluster origin t b" using fits_open_cluster Cons.prems Some by blast
        then show ?thesis
          using Cons.IH [OF muxable_tl [OF Cons.prems(1)] tl [OF Some]] Some True ok by (simp add: block_sample_wire)
      next
        case False
        then show ?thesis using ih block_sample_wire [OF own] ok Some by simp
      qed
    qed
  qed simp
  then show "stream_samples (case cluster of None \<Rightarrow> u | Some t \<Rightarrow> t) (stream_elements origin cluster bs)
      = map (sample_of origin) bs" "\<forall>e \<in> set (stream_elements origin cluster bs). element_ok e" by blast+
qed

lemma demux_stream_elements:
  assumes "muxable origin bs"
  shows "demux_stream (concat (map enc_element (stream_elements origin None bs))) = Some (map (sample_of origin) bs)"
proof -
  have f: "follows origin None bs" by (simp add: follows_def)
  have "decode_all take_element (concat (map enc_element (stream_elements origin None bs)))
      = Some (stream_elements origin None bs)"
    by (rule element.decode_all_concat [OF stream_elements_samples(2) [OF assms f]])
  then show ?thesis using stream_elements_samples(1) [OF assms f, of 0] by (simp add: demux_stream_def)
qed

section \<open>What the streaming writer adds\<close>

definition valid_block :: "matroska_block \<Rightarrow> bool" where
  "valid_block b = (case b of Audio p _ \<Rightarrow> \<not> invalid_audio_packet p | Video _ \<Rightarrow> True)"

lemma open_cluster_adds:
  "accepts sink \<Longrightarrow> adds (in_order [write_all sink ID_CLUSTER, write_all sink UNKNOWN_SIZE,
     write_unsigned sink ID_TIMESTAMP t]) (open_cluster t)"
proof -
  assume "accepts sink"
  then have "list_all2 adds [write_all sink ID_CLUSTER, write_all sink UNKNOWN_SIZE, write_unsigned sink ID_TIMESTAMP t]
      [ID_CLUSTER, UNKNOWN_SIZE, ID_TIMESTAMP @ vint (unsigned_width t) @ ubytes t]"
    by (simp add: write_all_adds write_unsigned_adds)
  from adds_in_order [OF this] show ?thesis by (simp add: open_cluster_def)
qed

lemma streaming_block_tail:
  assumes "accepts sink" "fits_cluster origin t b"
  shows "and_then (block_relative (rel_ms origin b) t) (\<lambda>relative.
       and_then (in_order [write_master_header sink ID_SIMPLE_BLOCK (4 + len_u64 (block_bytes b)),
           write_all sink [track_byte b], write_all sink (u16_to_be_bytes relative),
           write_all sink [block_flags b], write_all sink (block_bytes b)] w) (\<lambda>w. Inr (w, c)))
     = Inr (cw_append (enc_block (wire origin t b)) w, c)"
proof -
  have "block_relative (rel_ms origin b) t = Inr (ucast (rel_ms origin b - t))"
    using assms(2) by (simp add: fits_cluster_def block_relative_ok)
  moreover have len: "length (block_bytes b) \<le> 2 ^ 40" using assms(2) by (simp add: fits_cluster_def)
  ultimately show ?thesis
    using addsD [OF in_order_block [OF assms(1) len saturating_add_4_len(3) [OF len],
        of "track_byte b" "ucast (rel_ms origin b - t)" "block_flags b"], of w]
    by (simp add: wire_def)
qed

lemma write_streaming_block_adds:
  assumes "accepts sink" "valid_block b" "muxable origin (b # bs)" "follows origin cluster (b # bs)"
  shows "\<exists>cluster'. write_streaming_block sink origin (w, cluster) b
      = Inr (cw_append (concat (map enc_element (stream_elements origin cluster [b]))) w, cluster')
    \<and> follows origin cluster' bs
    \<and> stream_elements origin cluster (b # bs) = stream_elements origin cluster [b] @ stream_elements origin cluster' bs"
proof -
  let ?m = "rel_ms origin b"
  have o: "relative_milliseconds (block_timestamp_ns b) origin = Inr ?m"
    using assms(3) by (simp add: relative_milliseconds_ok muxable_def)
  have v: "\<not> (case b of Audio p _ \<Rightarrow> invalid_audio_packet p | Video _ \<Rightarrow> False)"
    using assms(2) by (simp add: valid_block_def split: matroska_block.splits)
  note own = fits_own_cluster [OF assms(3)]
  show ?thesis
  proof (cases "\<exists>t. cluster = Some t \<and> near origin t b")
    case True
    then obtain t where t: "cluster = Some t" "near origin t b" by blast
    then have fits: "fits_cluster origin t b" using fits_open_cluster assms(3,4) by blast
    have "\<not> saturating_sub ?m t > MAX_CLUSTER_DURATION_MS"
      using t(2) by (simp add: word_less_nat_alt unat_saturating_sub near_def MAX_CLUSTER_DURATION_MS_def)
    then have "write_streaming_block sink origin (w, cluster) b = Inr (cw_append (enc_block (wire origin t b)) w, Some t)"
      using streaming_block_tail [OF assms(1) fits, of w "Some t"] v t(1)
      by (simp add: write_streaming_block_def o)
    then show ?thesis using t assms(4) by (intro exI [of _ "Some t"]) (simp add: follows_def)
  next
    case False
    have "case cluster of None \<Rightarrow> True | Some start \<Rightarrow> saturating_sub ?m start > MAX_CLUSTER_DURATION_MS"
      using False by (auto simp: word_less_nat_alt unat_saturating_sub near_def MAX_CLUSTER_DURATION_MS_def
          split: option.split)
    then have "write_streaming_block sink origin (w, cluster) b
        = Inr (cw_append (open_cluster ?m @ enc_block (wire origin ?m b)) w, Some ?m)"
      using streaming_block_tail [OF assms(1) own, of _ "Some ?m"] v
        addsD [OF open_cluster_adds [OF assms(1), of ?m], of w]
      by (simp add: write_streaming_block_def o)
    moreover have "stream_elements origin cluster (b # xs)
        = Open_cluster ?m # Simple (wire origin ?m b) # stream_elements origin (Some ?m) xs" for xs
      using False by (simp split: option.split)
    ultimately show ?thesis using follows_own [OF assms(3)] by (intro exI [of _ "Some ?m"]) simp
  qed
qed

lemma streaming_fold:
  assumes "accepts sink" "\<forall>b \<in> set bs. valid_block b" "muxable origin bs" "follows origin cluster bs"
  shows "\<exists>cluster'. try_fold (write_streaming_block sink origin) (w, cluster) bs
    = Inr (cw_append (concat (map enc_element (stream_elements origin cluster bs))) w, cluster')"
  using assms
proof (induction bs arbitrary: w cluster)
  case (Cons b bs)
  obtain c where c: "write_streaming_block sink origin (w, cluster) b
      = Inr (cw_append (concat (map enc_element (stream_elements origin cluster [b]))) w, c)"
    "follows origin c bs"
    "stream_elements origin cluster (b # bs) = stream_elements origin cluster [b] @ stream_elements origin c bs"
    using write_streaming_block_adds [OF Cons.prems(1) _ Cons.prems(3,4)] Cons.prems(2) by fastforce
  let ?w = "cw_append (concat (map enc_element (stream_elements origin cluster [b]))) w"
  obtain d where "try_fold (write_streaming_block sink origin) (?w, c) bs
      = Inr (cw_append (concat (map enc_element (stream_elements origin c bs))) ?w, d)"
    using Cons.IH [OF Cons.prems(1) _ muxable_tl [OF Cons.prems(3)] c(2)] Cons.prems(2) by fastforce
  then show ?case by (simp only: try_fold.simps c(1) c(3) and_then_simps cw_append_append map_append concat_append) blast
qed simp

section \<open>The loop\<close>

definition uncancelled :: "memory_packets \<Rightarrow> bool" where
  "uncancelled src \<longleftrightarrow> (\<forall>n. \<not> mp_cancel src n)"

lemma streaming_tail_fold:
  "uncancelled src \<Longrightarrow> streaming_tail sink origin src bs st = try_fold (write_streaming_block sink origin) st bs"
  by (induction bs arbitrary: src st) (simp_all add: check_cancel_def uncancelled_def and_then_def split: sum.split)

lemma streaming_loop_fold:
  assumes "uncancelled src" "\<forall>p \<in> set (mp_packets src). validate_packet stream (pk_bytes p) = Inr ()"
    and "first \<and> mp_packets src \<noteq> [] \<longrightarrow> pk_keyframe (hd (mp_packets src))"
  shows "\<exists>src'. uncancelled src' \<and> streaming_loop sink stream origin src audio first st
    = and_then (try_fold (write_streaming_block sink origin) st (fst (interleave (mp_packets src) audio)))
        (\<lambda>st. Inr (src', snd (interleave (mp_packets src) audio), first \<and> mp_packets src = [], st))"
  using assms
proof (induction "mp_packets src" arbitrary: src audio first st)
  case Nil
  then show ?case
    by (auto simp: streaming_loop.simps [of sink stream origin src] next_packet_def check_cancel_def
        uncancelled_def split: list.splits intro!: exI [of _ "src\<lparr>mp_loads := mp_loads src + 1\<rparr>"])
next
  case (Cons v vs)
  let ?src = "src\<lparr>mp_loads := mp_loads src + 1, mp_packets := vs\<rparr>"
  let ?t = "pk_timestamp_ns v"
  have nxt: "next_packet src = Inr (Some v, ?src)"
    using Cons.prems(1) Cons.hyps(2) [symmetric] by (simp add: next_packet_def check_cancel_def uncancelled_def)
  have v: "validate_packet stream (pk_bytes v) = Inr ()" "\<not> (first \<and> \<not> pk_keyframe v)"
    using Cons.prems(2,3) Cons.hyps(2) [symmetric] by simp_all
  have ih: "\<exists>src'. uncancelled src' \<and> streaming_loop sink stream origin ?src audio False st
    = and_then (try_fold (write_streaming_block sink origin) st (fst (interleave vs audio)))
        (\<lambda>st. Inr (src', snd (interleave vs audio), False, st))" for audio st
    using Cons.hyps(1) [of ?src False audio st] Cons.prems Cons.hyps(2) [symmetric]
    by (simp add: uncancelled_def)
  show ?case
  proof (cases "try_fold (write_streaming_block sink origin) st (takeWhile (audio_before ?t) audio)")
    case (Inl e)
    then show ?thesis
      using Cons.prems(1) nxt v Cons.hyps(2) [symmetric]
      by (auto simp: streaming_loop.simps [of sink stream origin src] try_fold_append split: prod.split)
  next
    case st: (Inr st')
    show ?thesis
    proof (cases "write_streaming_block sink origin st' (Video v)")
      case (Inl e)
      then show ?thesis
        using Cons.prems(1) nxt v st Cons.hyps(2) [symmetric]
        by (auto simp: streaming_loop.simps [of sink stream origin src] try_fold_append split: prod.split)
    next
      case (Inr st'')
      then show ?thesis
        using ih [of "dropWhile (audio_before ?t) audio" st''] nxt v st Cons.hyps(2) [symmetric]
        by (auto simp: streaming_loop.simps [of sink stream origin src] try_fold_append split: prod.split)
    qed
  qed
qed

section \<open>Whole streamed clips\<close>

lemma sort_key_append_sort:
  fixes f :: "'a \<Rightarrow> 'b::linorder"
  shows "sort_key f (xs @ sort_key f ys) = sort_key f (xs @ ys)"
proof (rule properties_for_sort_key [symmetric])
  show "filter (\<lambda>x. f k = f x) (sort_key f (xs @ sort_key f ys)) = filter (\<lambda>x. f k = f x) (xs @ ys)" for k
    using sort_key_stable [of f "f k" "xs @ sort_key f ys"] sort_key_stable [of f "f k" ys]
    by (simp add: eq_commute [of "f k"])
qed simp_all

lemma clip_blocks_merged:
  assumes "ring_inv r" "rr_packets r \<noteq> []"
  shows "merged (rr_packets r) (streaming_audio audio (pk_timestamp_ns (hd (rr_packets r))) stop)
    = clip_blocks r audio stop"
proof -
  let ?o = "pk_timestamp_ns (hd (rr_packets r))"
  have f: "map (\<lambda>(p, n). Audio p n) (filter (\<lambda>(p, n). in_window ?o stop p) (map (\<lambda>p. (p, m)) ps))
      = map (\<lambda>p. Audio p m) (filter (in_window ?o stop) ps)" for m ps
    by (induction ps) simp_all
  have "sorted (map pk_timestamp_ns (rr_packets r))"
    using ring_packets_facts(1) [OF assms] by (simp add: comp_def)
  then show ?thesis
    by (subst merged_is_sort) (simp_all add: streaming_audio_def clip_blocks_def Let_def f sort_key_append_sort)
qed

lemma clip_blocks_valid: "audio_ok audio \<Longrightarrow> b \<in> set (clip_blocks r audio stop) \<Longrightarrow> valid_block b"
  by (auto simp: clip_blocks_def Let_def valid_block_def audio_ok_def list_all_iff)

text \<open>C25: Streaming loses nothing: from an in-memory source that is not cancelled the streaming writer
  succeeds, and a reader of its open-ended clusters gets back the same samples in the same order as
  from the buffered writer, although the writer only ever holds one video packet.\<close>

theorem streaming_clip_demux:
  assumes "ring_inv r" "accepts sink" "stream_ok stream" "audio_ok audio"
    and "\<forall>p \<in> set (rr_packets r). validate_packet stream (pk_bytes p) = Inr ()"
    and "memory_packets_new r cancel = Inr src" "\<forall>n. \<not> cancel n"
  shows "\<exists>written header body. write_streaming_matroska_tracks sink stream src audio = Inr (written, header @ body)
    \<and> unat (snd (mp_window src)) = unat (pk_timestamp_ns (last (rr_packets r))) + unat (pk_duration_ns (last (rr_packets r)))
    \<and> demux_stream body = Some (map (sample_of (pk_timestamp_ns (hd (rr_packets r))))
          (clip_blocks r audio (snd (mp_window src))))
    \<and> unat written = min (length (header @ body)) (2 ^ 64 - 1)"
proof -
  let ?ps = "rr_packets r" and ?o = "pk_timestamp_ns (hd (rr_packets r))"
  have ne: "?ps \<noteq> []" using assms(6) by (auto simp: memory_packets_new_def)
  obtain stop where stop: "checked_add (pk_timestamp_ns (last ?ps)) (pk_duration_ns (last ?ps)) = Some stop"
    "unat stop = unat (pk_timestamp_ns (last ?ps)) + unat (pk_duration_ns (last ?ps))" "?o \<le> stop"
    using ring_clip_end [OF assms(1) ne] by blast
  have "stop = pk_timestamp_ns (last ?ps) + pk_duration_ns (last ?ps)"
    using stop(1) by (simp add: checked_add_def split: if_splits)
  then have src: "mp_packets src = ?ps" "mp_window src = (?o, stop)" "uncancelled src"
    using assms(6,7) ne by (auto simp: memory_packets_new_def uncancelled_def Let_def split: list.splits)
  let ?a = "streaming_audio audio ?o stop" and ?bs = "clip_blocks r audio stop"
  have mux: "muxable ?o ?bs" using assms(1) ne assms(4) by (rule clip_blocks_muxable)
  have mic: "length (op_codec_private (as_stream m)) \<le> 65536" if "at_microphone audio = Some m" for m
    using assms(4) that by (simp add: audio_ok_def)
  obtain h1 h2 h3 h4 where h: "adds (write_ebml_header sink) h1" "adds (write_info sink (stop - ?o)) h2"
    "adds (write_tracks sink stream) h3"
    "adds (write_audio_video_tracks sink stream (at_system audio) (at_microphone audio)) h4"
    using write_ebml_header_adds [OF assms(2)] write_info_adds [OF assms(2)] write_tracks_adds [OF assms(2,3)]
      write_audio_video_tracks_adds [OF assms(2,3) _ mic] assms(4) by (metis audio_ok_def)
  let ?h = "h1 @ ID_SEGMENT @ UNKNOWN_SIZE @ h2 @ (if ?a = [] then h3 else h4)"
  let ?b = "concat (map enc_element (stream_elements ?o None ?bs))"
  have "list_all2 adds [write_ebml_header sink, write_all sink ID_SEGMENT, write_all sink UNKNOWN_SIZE]
      [h1, ID_SEGMENT, UNKNOWN_SIZE]" using assms(2) h(1) by (simp add: write_all_adds)
  note start = addsD [OF adds_in_order [OF this], of counting_writer_new]
  let ?w = "cw_append ?h counting_writer_new"
  obtain src' where loop: "uncancelled src'" "streaming_loop sink stream ?o src ?a True (?w, None)
      = and_then (try_fold (write_streaming_block sink ?o) (?w, None) (fst (interleave ?ps ?a)))
        (\<lambda>st. Inr (src', snd (interleave ?ps ?a), False, st))"
    using streaming_loop_fold [OF src(3), of stream True sink ?o ?a "(?w, None)"] assms(5)
      ring_packets_facts(4) [OF assms(1) ne] src(1) ne by auto
  have "\<exists>c. try_fold (write_streaming_block sink ?o) (?w, None) ?bs = Inr (cw_append ?b ?w, c)"
    using clip_blocks_valid [OF assms(4)] by (intro streaming_fold [OF assms(2) _ mux]) (auto simp: follows_def)
  then obtain st c where fold: "try_fold (write_streaming_block sink ?o) (?w, None) (fst (interleave ?ps ?a)) = Inr st"
    "try_fold (write_streaming_block sink ?o) st (snd (interleave ?ps ?a)) = Inr (cw_append ?b ?w, c)"
    using clip_blocks_merged [OF assms(1) ne, of audio stop, symmetric]
    by (auto simp: merged_def try_fold_append and_then_Inr)
  have tracks: "(if ?a = [] then write_tracks sink stream w
      else write_audio_video_tracks sink stream (at_system audio) (at_microphone audio) w)
      = Inr (cw_append (if ?a = [] then h3 else h4) w)" for w
    using addsD [OF h(3)] addsD [OF h(4)] by simp
  have sub: "checked_sub stop ?o = Some (stop - ?o)" using stop(3) by (simp add: checked_sub_def)
  have "write_streaming_matroska_tracks sink stream src audio
      = Inr (cw_written (cw_append ?b ?w), cw_contents (cw_append ?b ?w))"
    unfolding write_streaming_matroska_tracks_def src(2) prod.case Let_def start and_then_simps sub ok_or_simps
      addsD [OF h(2)] tracks cw_append_append
    using loop fold streaming_tail_fold [OF loop(1)] by (simp split del: if_split)
  then show ?thesis
    using stop(2) src(2) demux_stream_elements [OF mux]
    by - (rule exI [of _ "sadd 0 (length (?h @ ?b))"], rule exI [of _ ?h], rule exI [of _ ?b],
      simp add: cw_append_def counting_writer_new_def unat_sadd add.assoc split del: if_split)
qed

definition sample_source :: memory_packets where
  "sample_source = \<lparr>mp_packets = [sample_packet 1000 True], mp_window = (1000, 16001000),
     mp_cancel = (\<lambda>_. False), mp_loads = 0\<rparr>"

theorem streaming_clip_demux_witness:
  "\<exists>written header body.
     write_streaming_matroska_tracks accepting sample_stream sample_source sample_audio = Inr (written, header @ body)
     \<and> demux_stream body = Some [(0x81, 0, 0x80, [1, 2, 3]), (0x82, 0, 0x80, [7, 7]), (0x82, 2, 0x80, [7, 7])]"
proof -
  have new: "memory_packets_new sample_clip (\<lambda>_. False) = Inr sample_source"
    by (simp add: memory_packets_new_def sample_clip_facts(2) sample_source_def Let_def)
      (simp add: sample_packet_def)
  have "clip_blocks sample_clip sample_audio (snd (mp_window sample_source))
      = [Video (sample_packet 1000 True), Audio (sample_opus 1000) 2, Audio (sample_opus 2001000) 2]"
    by (simp add: sample_source_def sample_clip_blocks)
  with streaming_clip_demux [OF sample_clip_facts(1,3,4) sample_audio_ok sample_clip_facts(5) new]
  show ?thesis
    by (fastforce simp: sample_of_def rel_ms_def TIMESTAMP_SCALE_NS_def sample_packet_def sample_opus_def
        sample_clip_facts(2))
qed

end
