(* ===== verification/Mp4.thy ===== *)
theory Mp4
  imports Matroska
begin

text \<open>
  The fragmented MP4 writers of \<open>redunar-daemon/src/replay_mp4.rs\<close>: boxes, the movie header, video
  and audio fragments, and the three writers (video only, audio and video, streaming). The output
  and the packet source are those of the Matroska writers. A vector built by several \<open>put\<close> calls is
  the vector the calls return one after the other; a data offset is an \<open>i32\<close> that is never
  negative and is kept as the 32-bit word with its bytes.
\<close>

datatype mp4_error = Mp4EmptyRing | Mp4MissingInitialKeyframe | Mp4UnsupportedCodec | Mp4InvalidPacket
  | Mp4TimestampOverflow | Mp4ContainerTooLarge | Mp4Io io_error

definition TIMESCALE :: u32 where "TIMESCALE = 1000000"
definition TRACK_ID :: u32 where "TRACK_ID = 1"
definition AUDIO_TRACK_ID :: u32 where "AUDIO_TRACK_ID = 2"
definition MICROPHONE_TRACK_ID :: u32 where "MICROPHONE_TRACK_ID = 3"
definition MAX_FRAGMENT_DURATION_NS :: u64 where "MAX_FRAGMENT_DURATION_NS = 30000000000"
definition MAX_STREAM_FRAGMENT_BYTES :: nat where "MAX_STREAM_FRAGMENT_BYTES = 8 * 1024 * 1024"

section \<open>Boxes\<close>

definition put_u16 :: "u16 \<Rightarrow> vec \<Rightarrow> vec" where "put_u16 number v = v @ u16_to_be_bytes number"
definition put_u32 :: "u32 \<Rightarrow> vec \<Rightarrow> vec" where "put_u32 number v = v @ u32_to_be_bytes number"
definition put_u64 :: "u64 \<Rightarrow> vec \<Rightarrow> vec" where "put_u64 number v = v @ u64_to_be_bytes number"
definition extend_from_slice :: "u8 list \<Rightarrow> vec \<Rightarrow> vec" where "extend_from_slice bytes v = v @ bytes"
definition zeros :: "nat \<Rightarrow> vec \<Rightarrow> vec" where "zeros n = extend_from_slice (replicate n 0)"

text \<open>Statements that cannot fail, one after the other.\<close>

definition statements :: "('a \<Rightarrow> 'a) list \<Rightarrow> 'a \<Rightarrow> 'a" where
  "statements ops v = fold (\<lambda>op v. op v) ops v"

definition full_box :: "u8 \<Rightarrow> u32 \<Rightarrow> vec" where
  "full_box version flags = version # drop 1 (u32_to_be_bytes flags)"

definition push_box :: "string \<Rightarrow> u8 list \<Rightarrow> vec \<Rightarrow> mp4_error + vec" where
  "push_box kind contents destination =
     and_then (ok_or (try_from (length contents + 8)) Mp4ContainerTooLarge) (\<lambda>size.
       Inr (statements [put_u32 size, extend_from_slice (ascii kind), extend_from_slice contents] destination))"

definition make_box :: "string \<Rightarrow> u8 list \<Rightarrow> mp4_error + vec" where
  "make_box kind contents = push_box kind contents []"

definition mp4_write_all :: "sink \<Rightarrow> u8 list \<Rightarrow> counting_writer \<Rightarrow> mp4_error + counting_writer" where
  "mp4_write_all sink buffer w = (case sink (cw_contents w) buffer of
       Some e \<Rightarrow> Inl (Mp4Io e)
     | None \<Rightarrow> Inr \<lparr>cw_contents = cw_contents w @ buffer,
                   cw_written = saturating_add (cw_written w) (len_u64 buffer)\<rparr>)"

definition write_box_header :: "sink \<Rightarrow> string \<Rightarrow> u64 \<Rightarrow> counting_writer \<Rightarrow> mp4_error + counting_writer" where
  "write_box_header sink kind box_payload w =
     and_then (ok_or (checked_add box_payload 8) Mp4ContainerTooLarge) (\<lambda>size.
     and_then (ok_or (try_from (unat size)) Mp4ContainerTooLarge) (\<lambda>size.
       in_order [mp4_write_all sink (u32_to_be_bytes size), mp4_write_all sink (ascii kind)] w))"

definition to_timescale :: "u64 \<Rightarrow> mp4_error + u64" where
  "to_timescale nanoseconds =
     ok_or (map_option (\<lambda>value. value div 1000000000) (checked_mul nanoseconds (ucast TIMESCALE)))
       Mp4TimestampOverflow"

definition matrix :: "vec \<Rightarrow> vec" where
  "matrix = statements (map put_u32 [0x00010000, 0, 0, 0, 0x00010000, 0, 0, 0, 0x40000000])"

section \<open>Movie header\<close>

definition ftyp :: "mp4_error + vec" where
  "ftyp = make_box ''ftyp'' (ascii ''isom'' @ [0, 0, 2, 0] @ ascii ''isomiso6avc1mp41'')"

definition mvhd_for_next_track :: "u32 \<Rightarrow> vec" where
  "mvhd_for_next_track next_track_id = statements
     [put_u32 0, put_u32 0, put_u32 TIMESCALE, put_u32 0, put_u32 0x00010000, put_u16 0x0100, zeros 10,
      matrix, zeros 24, put_u32 next_track_id] (full_box 0 0)"

definition mvhd :: vec where "mvhd = mvhd_for_next_track (TRACK_ID + 1)"

definition tkhd :: "replay_video_stream \<Rightarrow> vec" where
  "tkhd stream = statements
     [put_u32 0, put_u32 0, put_u32 TRACK_ID, put_u32 0, put_u32 0, zeros 8, put_u16 0, put_u16 0, put_u16 0,
      put_u16 0, matrix, put_u32 (push_bit 16 (vs_width stream)), put_u32 (push_bit 16 (vs_height stream))]
     (full_box 0 7)"

definition mdhd :: vec where
  "mdhd = statements [put_u32 0, put_u32 0, put_u32 TIMESCALE, put_u32 0, put_u16 0x55c4, put_u16 0] (full_box 0 0)"

definition hdlr :: vec where
  "hdlr = statements [put_u32 0, extend_from_slice (ascii ''vide''), zeros 12, extend_from_slice (ascii ''Redunar Video'' @ [0])]
     (full_box 0 0)"

definition avc1 :: "replay_video_stream \<Rightarrow> mp4_error + vec" where
  "avc1 stream =
     (let value = statements [put_u16 1, zeros 16] (replicate 6 0)
      in and_then (ok_or (try_from (unat (vs_width stream))) Mp4ContainerTooLarge) (\<lambda>width.
         and_then (ok_or (try_from (unat (vs_height stream))) Mp4ContainerTooLarge) (\<lambda>height.
           push_box ''avcC'' (vs_codec_private stream) (statements
             [put_u16 width, put_u16 height, put_u32 0x00480000, put_u32 0x00480000, put_u32 0, put_u16 1,
              zeros 32, put_u16 0x0018, put_u16 0xffff] value))))"

text \<open>The tables of a track without samples of its own: every sample is in a fragment.\<close>

definition empty_sample_tables :: "vec \<Rightarrow> mp4_error + vec" where
  "empty_sample_tables = in_order
     [push_box ''stts'' (put_u32 0 (full_box 0 0)), push_box ''stsc'' (put_u32 0 (full_box 0 0)),
      push_box ''stsz'' (statements [put_u32 0, put_u32 0] (full_box 0 0)),
      push_box ''stco'' (put_u32 0 (full_box 0 0))]"

definition stbl :: "replay_video_stream \<Rightarrow> mp4_error + vec" where
  "stbl stream =
     and_then (avc1 stream) (\<lambda>entry.
     and_then (push_box ''avc1'' entry (put_u32 1 (full_box 0 0))) (\<lambda>stsd.
     and_then (push_box ''stsd'' stsd []) empty_sample_tables))"

definition data_information :: "vec \<Rightarrow> mp4_error + vec" where
  "data_information value =
     and_then (push_box ''url '' (full_box 0 1) (put_u32 1 (full_box 0 0))) (\<lambda>dref.
     and_then (push_box ''dref'' dref []) (\<lambda>dinf.
       push_box ''dinf'' dinf value))"

definition minf :: "replay_video_stream \<Rightarrow> mp4_error + vec" where
  "minf stream =
     and_then (in_order [push_box ''vmhd'' (zeros 8 (full_box 0 1)), data_information] []) (\<lambda>value.
     and_then (stbl stream) (\<lambda>tables. push_box ''stbl'' tables value))"

definition mdia :: "replay_video_stream \<Rightarrow> mp4_error + vec" where
  "mdia stream =
     and_then (in_order [push_box ''mdhd'' mdhd, push_box ''hdlr'' hdlr] []) (\<lambda>value.
     and_then (minf stream) (\<lambda>contents. push_box ''minf'' contents value))"

definition trak :: "replay_video_stream \<Rightarrow> mp4_error + vec" where
  "trak stream =
     and_then (push_box ''tkhd'' (tkhd stream) []) (\<lambda>value.
     and_then (mdia stream) (\<lambda>contents. push_box ''mdia'' contents value))"

definition trex :: vec where
  "trex = statements [put_u32 TRACK_ID, put_u32 1, put_u32 0, put_u32 0, put_u32 0] (full_box 0 0)"

definition moov :: "replay_video_stream \<Rightarrow> mp4_error + vec" where
  "moov stream =
     and_then (push_box ''mvhd'' mvhd []) (\<lambda>contents.
     and_then (trak stream) (\<lambda>track.
     and_then (push_box ''trak'' track contents) (\<lambda>contents.
     and_then (push_box ''trex'' trex []) (\<lambda>mvex.
     and_then (push_box ''mvex'' mvex contents) (\<lambda>contents.
       make_box ''moov'' contents)))))"

section \<open>Audio tracks\<close>

definition opus_sample_entry :: "replay_audio_snapshot \<Rightarrow> mp4_error + vec" where
  "opus_sample_entry audio =
     (let channels = op_channels (as_stream audio); sample_rate = op_sample_rate (as_stream audio);
          value = statements [put_u16 1, zeros 8, put_u16 (ucast channels), put_u16 16, put_u16 0, put_u16 0,
                    put_u32 (push_bit 16 sample_rate)] (replicate 6 0);
          dops = statements [extend_from_slice [0], extend_from_slice [channels], put_u16 312, put_u32 sample_rate, put_u16 0, extend_from_slice [0]] []
      in push_box ''dOps'' dops value)"

definition audio_minf :: "replay_audio_snapshot \<Rightarrow> mp4_error + vec" where
  "audio_minf audio =
     and_then (in_order [push_box ''smhd'' (zeros 4 (full_box 0 0)), data_information] []) (\<lambda>value.
     and_then (opus_sample_entry audio) (\<lambda>entry.
     and_then (push_box ''Opus'' entry (put_u32 1 (full_box 0 0))) (\<lambda>stsd.
     and_then (push_box ''stsd'' stsd []) (\<lambda>tables.
     and_then (empty_sample_tables tables) (\<lambda>tables.
       push_box ''stbl'' tables value)))))"

definition audio_trak :: "replay_audio_snapshot \<Rightarrow> u32 \<Rightarrow> mp4_error + vec" where
  "audio_trak audio track_id =
     (let tkhd = statements [zeros 8, put_u32 track_id, zeros 12, put_u16 0, put_u16 0, put_u16 0x0100, put_u16 0,
                   matrix, zeros 8] (full_box 0 7);
          mdhd = statements [zeros 8, put_u32 (op_sample_rate (as_stream audio)), put_u32 0, put_u16 0x55c4,
                   put_u16 0] (full_box 0 0);
          hdlr = statements [put_u32 0, extend_from_slice (ascii ''soun''), zeros 12,
                   extend_from_slice ((if track_id = MICROPHONE_TRACK_ID then ascii ''Redunar Microphone''
                            else ascii ''Redunar System Audio'') @ [0])] (full_box 0 0)
      in and_then (push_box ''tkhd'' tkhd []) (\<lambda>contents.
         and_then (in_order [push_box ''mdhd'' mdhd, push_box ''hdlr'' hdlr] []) (\<lambda>mdia.
         and_then (audio_minf audio) (\<lambda>minf.
         and_then (push_box ''minf'' minf mdia) (\<lambda>mdia.
           push_box ''mdia'' mdia contents)))))"

definition trex_for :: "u32 \<Rightarrow> vec" where
  "trex_for track_id = statements [put_u32 track_id, put_u32 1, zeros 12] (full_box 0 0)"

definition moov_with_audio_tracks :: "replay_video_stream \<Rightarrow> replay_audio_tracks \<Rightarrow> mp4_error + vec" where
  "moov_with_audio_tracks stream audio =
     (let next_track = (if at_microphone audio \<noteq> None then 4 else 3)
      in and_then (push_box ''mvhd'' (mvhd_for_next_track next_track) []) (\<lambda>contents.
         and_then (trak stream) (\<lambda>track.
         and_then (push_box ''trak'' track contents) (\<lambda>contents.
         and_then (audio_trak (at_system audio) AUDIO_TRACK_ID) (\<lambda>track.
         and_then (push_box ''trak'' track contents) (\<lambda>contents.
         and_then (case at_microphone audio of None \<Rightarrow> Inr contents
            | Some microphone \<Rightarrow> and_then (audio_trak microphone MICROPHONE_TRACK_ID)
                (\<lambda>track. push_box ''trak'' track contents)) (\<lambda>contents.
         and_then (in_order ([push_box ''trex'' trex, push_box ''trex'' (trex_for AUDIO_TRACK_ID)]
            @ (if at_microphone audio \<noteq> None then [push_box ''trex'' (trex_for MICROPHONE_TRACK_ID)] else [])) [])
           (\<lambda>mvex.
         and_then (push_box ''mvex'' mvex contents) (\<lambda>contents.
           make_box ''moov'' contents)))))))))"

section \<open>Fragments\<close>

text \<open>The boxes around a track run, which both kinds of fragment push in the same order.\<close>

definition fragment_boxes :: "u32 \<Rightarrow> u32 \<Rightarrow> u64 \<Rightarrow> vec \<Rightarrow> mp4_error + vec" where
  "fragment_boxes sequence track_id base_time trun =
     (let mfhd = put_u32 sequence (full_box 0 0);
          tfhd = put_u32 track_id (full_box 0 0x00020000);
          tfdt = put_u64 base_time (full_box 1 0)
      in and_then (in_order [push_box ''tfhd'' tfhd, push_box ''tfdt'' tfdt, push_box ''trun'' trun] []) (\<lambda>traf.
         and_then (in_order [push_box ''mfhd'' mfhd, push_box ''traf'' traf] []) (\<lambda>contents.
           make_box ''moof'' contents)))"

text \<open>The end of a sample: the start of the next one, in this fragment or the next, and for the last
  sample of the clip its own duration.\<close>

definition sample_end :: "encoded_replay_packet \<Rightarrow> encoded_replay_packet list \<Rightarrow> u64 option \<Rightarrow> u64 option" where
  "sample_end packet rest next_timestamp_ns = (case rest of
       following # _ \<Rightarrow> Some (pk_timestamp_ns following)
     | [] \<Rightarrow> (case next_timestamp_ns of Some t \<Rightarrow> Some t
              | None \<Rightarrow> checked_add (pk_timestamp_ns packet) (pk_duration_ns packet)))"

fun trun_samples :: "u64 \<Rightarrow> u64 option \<Rightarrow> encoded_replay_packet list \<Rightarrow> vec \<Rightarrow> mp4_error + vec" where
  "trun_samples origin_ns next_timestamp_ns [] trun = Inr trun"
| "trun_samples origin_ns next_timestamp_ns (packet # rest) trun =
     and_then (ok_or (sample_end packet rest next_timestamp_ns) Mp4TimestampOverflow) (\<lambda>end_ns.
     and_then (ok_or (checked_sub (pk_timestamp_ns packet) origin_ns) Mp4TimestampOverflow) (\<lambda>offset.
     and_then (to_timescale offset) (\<lambda>start.
     and_then (ok_or (checked_sub end_ns origin_ns) Mp4TimestampOverflow) (\<lambda>offset.
     and_then (to_timescale offset) (\<lambda>stop.
     and_then (ok_or (case checked_sub stop start of Some duration \<Rightarrow> if duration > 0 then Some duration else None
                | None \<Rightarrow> None) Mp4TimestampOverflow) (\<lambda>duration.
     and_then (ok_or (try_from (unat duration)) Mp4TimestampOverflow) (\<lambda>duration.
     and_then (ok_or (try_from (length (pk_bytes packet))) Mp4ContainerTooLarge) (\<lambda>size.
       trun_samples origin_ns next_timestamp_ns rest (statements [put_u32 duration, put_u32 size,
         put_u32 (if pk_keyframe packet then 0x02000000 else 0x01010000)] trun)))))))))"

text \<open>Every caller passes a fragment with at least one packet.\<close>

definition moof :: "u32 \<Rightarrow> u64 \<Rightarrow> encoded_replay_packet list \<Rightarrow> u64 option \<Rightarrow> u32 \<Rightarrow> mp4_error + vec" where
  "moof sequence origin_ns packets next_timestamp_ns data_offset =
     and_then (ok_or (checked_sub (pk_timestamp_ns (hd packets)) origin_ns) Mp4TimestampOverflow) (\<lambda>offset.
     and_then (to_timescale offset) (\<lambda>base_time.
     and_then (ok_or (try_from (length packets)) Mp4ContainerTooLarge) (\<lambda>count.
     and_then (trun_samples origin_ns next_timestamp_ns packets
                 (statements [put_u32 count, put_u32 data_offset] (full_box 0 0x00000701))) (\<lambda>trun.
       fragment_boxes sequence TRACK_ID base_time trun))))"

text \<open>\<open>i32::try_from(length)\<close>.\<close>

definition i32_try_from_len :: "nat \<Rightarrow> mp4_error + u32" where
  "i32_try_from_len n = (if n < 2 ^ 31 then Inr (word_of_nat n) else Inl Mp4ContainerTooLarge)"

definition total_payload :: "u8 list list \<Rightarrow> mp4_error + u64" where
  "total_payload payloads = try_fold (\<lambda>sum bytes. ok_or (checked_add sum (len_u64 bytes)) Mp4ContainerTooLarge) 0 payloads"

definition write_fragment :: "sink \<Rightarrow> u32 \<Rightarrow> u64 \<Rightarrow> encoded_replay_packet list \<Rightarrow> u64 option \<Rightarrow>
    counting_writer \<Rightarrow> mp4_error + counting_writer" where
  "write_fragment sink sequence origin_ns packets next_timestamp_ns w =
     and_then (moof sequence origin_ns packets next_timestamp_ns 0) (\<lambda>provisional.
     and_then (i32_try_from_len (length provisional + 8)) (\<lambda>data_offset.
     and_then (moof sequence origin_ns packets next_timestamp_ns data_offset) (\<lambda>header.
     and_then (mp4_write_all sink header w) (\<lambda>w.
     and_then (total_payload (map pk_bytes packets)) (\<lambda>payload_bytes.
     and_then (write_box_header sink ''mdat'' payload_bytes w) (\<lambda>w.
       try_fold (\<lambda>w packet. mp4_write_all sink (pk_bytes packet) w) w packets))))))"

text \<open>The first index after \<open>stop\<close> at which a video fragment ends.\<close>

fun fragment_end_loop :: "u64 \<Rightarrow> encoded_replay_packet list \<Rightarrow> nat \<Rightarrow> nat" where
  "fragment_end_loop first_ns [] stop = stop"
| "fragment_end_loop first_ns (packet # rest) stop =
     (if pk_keyframe packet \<or> saturating_sub (pk_timestamp_ns packet) first_ns \<ge> MAX_FRAGMENT_DURATION_NS
      then stop else fragment_end_loop first_ns rest (stop + 1))"

definition fragment_end :: "encoded_replay_packet list \<Rightarrow> nat \<Rightarrow> nat" where
  "fragment_end packets start =
     fragment_end_loop (pk_timestamp_ns (packets ! start)) (drop (start + 1) packets) (start + 1)"

lemma fragment_end_loop_ge: "stop \<le> fragment_end_loop t ps stop"
  by (induction ps arbitrary: stop) (auto intro: Suc_leD)

lemma fragment_end_gt: "start < fragment_end packets start"
  using fragment_end_loop_ge [of "start + 1"] by (simp add: fragment_end_def Suc_le_eq)

function write_video_fragments :: "sink \<Rightarrow> encoded_replay_packet list \<Rightarrow> u64 \<Rightarrow> nat \<Rightarrow> u32 \<Rightarrow> counting_writer \<Rightarrow>
    mp4_error + (u32 \<times> counting_writer)" where
  "write_video_fragments sink packets origin start fragments w =
     (if start < length packets then
        (let stop = fragment_end packets start
         in case write_fragment sink (saturating_add fragments 1) origin (slice start (stop - start) packets)
                   (if stop < length packets then Some (pk_timestamp_ns (packets ! stop)) else None) w of
              Inl e \<Rightarrow> Inl e
            | Inr w \<Rightarrow> write_video_fragments sink packets origin stop (saturating_add fragments 1) w)
      else Inr (fragments, w))"
  by pat_completeness auto
termination
proof (relation "measure (\<lambda>(sink, packets, origin, start, fragments, w). length packets - start)")
  show "((sink, packets, origin, stop, saturating_add fragments 1, w'), sink, packets, origin, start, fragments, w)
      \<in> measure (\<lambda>(sink, packets, origin, start, fragments, w). length packets - start)"
    if "start < length packets" "stop = fragment_end packets start"
    for sink :: sink and packets :: "encoded_replay_packet list" and origin :: u64 and start stop :: nat
      and fragments :: u32 and w w' :: counting_writer
    using that by (auto intro: diff_less_mono2 fragment_end_gt)
qed simp

declare write_video_fragments.simps [simp del]

section \<open>Audio fragments\<close>

definition audio_moof :: "u32 \<Rightarrow> u64 \<Rightarrow> encoded_opus_packet list \<Rightarrow> u32 \<Rightarrow> u32 \<Rightarrow> mp4_error + vec" where
  "audio_moof sequence base_time packets data_offset track_id =
     and_then (ok_or (try_from (length packets)) Mp4ContainerTooLarge) (\<lambda>count.
     and_then (try_fold (\<lambda>trun packet.
           and_then (ok_or (try_from (length (ao_bytes packet))) Mp4ContainerTooLarge) (\<lambda>size.
             Inr (statements [put_u32 960, put_u32 size] trun)))
         (statements [put_u32 count, put_u32 data_offset] (full_box 0 0x00000301)) packets) (\<lambda>trun.
       fragment_boxes sequence track_id base_time trun))"

definition write_audio_fragment :: "sink \<Rightarrow> u32 \<Rightarrow> u64 \<Rightarrow> encoded_opus_packet list \<Rightarrow> u32 \<Rightarrow>
    counting_writer \<Rightarrow> mp4_error + counting_writer" where
  "write_audio_fragment sink sequence origin_ns packets track_id w =
     and_then (ok_or (map_option (\<lambda>value. value div 1000000000)
         (Option.bind (checked_sub (ao_timestamp_ns (hd packets)) origin_ns) (\<lambda>value. checked_mul value 48000)))
       Mp4TimestampOverflow) (\<lambda>base_time.
     and_then (audio_moof sequence base_time packets 0 track_id) (\<lambda>provisional.
     and_then (i32_try_from_len (length provisional + 8)) (\<lambda>offset.
     and_then (audio_moof sequence base_time packets offset track_id) (\<lambda>header.
     and_then (mp4_write_all sink header w) (\<lambda>w.
     and_then (total_payload (map ao_bytes packets)) (\<lambda>payload_bytes.
     and_then (write_box_header sink ''mdat'' payload_bytes w) (\<lambda>w.
       try_fold (\<lambda>w packet. mp4_write_all sink (ao_bytes packet) w) w packets)))))))"

fun audio_fragment_end_loop :: "nat \<Rightarrow> encoded_opus_packet \<Rightarrow> encoded_opus_packet list \<Rightarrow> nat \<Rightarrow> nat" where
  "audio_fragment_end_loop start previous [] stop = stop"
| "audio_fragment_end_loop start previous (packet # rest) stop =
     (if \<not> stop - start < 1500 then stop
      else if saturating_sub (ao_timestamp_ns packet)
                (saturating_add (ao_timestamp_ns previous) (ao_duration_ns previous)) > 5000000
      then stop else audio_fragment_end_loop start packet rest (stop + 1))"

definition audio_fragment_end :: "encoded_opus_packet list \<Rightarrow> nat \<Rightarrow> nat" where
  "audio_fragment_end packets start =
     audio_fragment_end_loop start (packets ! start) (drop (start + 1) packets) (start + 1)"

lemma audio_fragment_end_loop_ge: "stop \<le> audio_fragment_end_loop start p ps stop"
  by (induction ps arbitrary: p stop) (auto intro: Suc_leD)

lemma audio_fragment_end_gt: "start < audio_fragment_end packets start"
  using audio_fragment_end_loop_ge [of "start + 1"] by (simp add: audio_fragment_end_def Suc_le_eq)

function write_audio_fragments :: "sink \<Rightarrow> u64 \<Rightarrow> encoded_opus_packet list \<Rightarrow> u32 \<Rightarrow> nat \<Rightarrow>
    u32 \<times> counting_writer \<Rightarrow> mp4_error + (u32 \<times> counting_writer)" where
  "write_audio_fragments sink origin packets track_id start (fragments, w) =
     (if start < length packets then
        (let stop = audio_fragment_end packets start; fragments = saturating_add fragments 1
         in case write_audio_fragment sink fragments origin (slice start (stop - start) packets) track_id w of
              Inl e \<Rightarrow> Inl e
            | Inr w \<Rightarrow> write_audio_fragments sink origin packets track_id stop (fragments, w))
      else Inr (fragments, w))"
  by pat_completeness auto
termination
proof (relation "measure (\<lambda>(sink, origin, packets, track_id, start, st). length packets - start)")
  show "((sink, origin, packets, track_id, stop, fragments', w'), sink, origin, packets, track_id, start, fragments, w)
      \<in> measure (\<lambda>(sink, origin, packets, track_id, start, st). length packets - start)"
    if "start < length packets" "stop = audio_fragment_end packets start"
    for sink :: sink and packets :: "encoded_opus_packet list" and origin :: u64 and start stop :: nat
      and track_id fragments fragments' :: u32 and w w' :: counting_writer
    using that by (auto intro: diff_less_mono2 audio_fragment_end_gt)
qed simp

declare write_audio_fragments.simps [simp del]

section \<open>Clips from the ring\<close>

record mp4_summary =
  m4_packets :: u32
  m4_fragments :: u32
  m4_duration_ns :: u64
  m4_bytes_written :: u64

definition write_video_only_mp4 :: "sink \<Rightarrow> replay_video_stream \<Rightarrow> replay_ring \<Rightarrow>
    mp4_error + (mp4_summary \<times> u8 list)" where
  "write_video_only_mp4 sink stream ring =
     (let packets = rr_packets ring
      in if vs_codec stream \<noteq> H264 then Inl Mp4UnsupportedCodec
         else if packets = [] then Inl Mp4EmptyRing
         else if \<not> pk_keyframe (hd packets) then Inl Mp4MissingInitialKeyframe
         else
           and_then (try_all (\<lambda>packet. map_err (\<lambda>_. Mp4InvalidPacket)
                       (validate_packet stream (pk_bytes packet))) packets) (\<lambda>_.
           and_then ftyp (\<lambda>header.
           and_then (mp4_write_all sink header counting_writer_new) (\<lambda>w.
           and_then (moov stream) (\<lambda>header.
           and_then (mp4_write_all sink header w) (\<lambda>w.
           and_then (write_video_fragments sink packets (pk_timestamp_ns (hd packets)) 0 0 w) (\<lambda>(fragments, w).
           and_then (ok_or (Option.bind
                        (checked_add (pk_timestamp_ns (last packets)) (pk_duration_ns (last packets)))
                        (\<lambda>stop. checked_sub stop (pk_timestamp_ns (hd packets)))) Mp4TimestampOverflow)
             (\<lambda>duration_ns.
             Inr (\<lparr>m4_packets = unwrap_or (try_from (length packets)) (- 1), m4_fragments = fragments,
                    m4_duration_ns = duration_ns, m4_bytes_written = cw_written w\<rparr>, cw_contents w)))))))))"

definition oversized_audio_packet :: "encoded_opus_packet \<Rightarrow> bool" where
  "oversized_audio_packet p \<longleftrightarrow> ao_bytes p = [] \<or> length (ao_bytes p) > 4096"

definition write_audio_video_mp4_tracks :: "sink \<Rightarrow> replay_video_stream \<Rightarrow> replay_ring \<Rightarrow> replay_audio_tracks \<Rightarrow>
    mp4_error + (mp4_summary \<times> u8 list)" where
  "write_audio_video_mp4_tracks sink stream ring audio =
     (let packets = rr_packets ring
      in if vs_codec stream \<noteq> H264 then Inl Mp4UnsupportedCodec
         else if packets = [] then Inl Mp4EmptyRing
         else if \<not> pk_keyframe (hd packets) then Inl Mp4MissingInitialKeyframe
         else
           and_then (try_all (\<lambda>packet. map_err (\<lambda>_. Mp4InvalidPacket)
                       (validate_packet stream (pk_bytes packet))) packets) (\<lambda>_.
           and_then (ok_or (checked_add (pk_timestamp_ns (last packets)) (pk_duration_ns (last packets)))
                       Mp4TimestampOverflow) (\<lambda>video_end.
             let origin = pk_timestamp_ns (hd packets);
                 audio_packets = filter (in_window origin video_end) (as_packets (at_system audio));
                 mic_packets = filter (in_window origin video_end) (microphone_packets audio)
             in if list_ex oversized_audio_packet (audio_packets @ mic_packets) then Inl Mp4InvalidPacket
                else
                  and_then ftyp (\<lambda>header.
                  and_then (mp4_write_all sink header counting_writer_new) (\<lambda>w.
                  and_then (moov_with_audio_tracks stream audio) (\<lambda>header.
                  and_then (mp4_write_all sink header w) (\<lambda>w.
                  and_then (write_video_fragments sink packets origin 0 0 w) (\<lambda>st.
                  and_then (write_audio_fragments sink origin audio_packets AUDIO_TRACK_ID 0 st) (\<lambda>st.
                  and_then (write_audio_fragments sink origin mic_packets MICROPHONE_TRACK_ID 0 st) (\<lambda>(fragments, w).
                    Inr (\<lparr>m4_packets = unwrap_or (try_from (length packets)) (- 1), m4_fragments = fragments,
                           m4_duration_ns = saturating_sub video_end origin,
                           m4_bytes_written = cw_written w\<rparr>, cw_contents w)))))))))))"

definition write_audio_video_mp4 :: "sink \<Rightarrow> replay_video_stream \<Rightarrow> replay_ring \<Rightarrow> replay_audio_snapshot \<Rightarrow>
    mp4_error + (mp4_summary \<times> u8 list)" where
  "write_audio_video_mp4 sink stream ring audio =
     write_audio_video_mp4_tracks sink stream ring \<lparr>at_system = audio, at_microphone = None\<rparr>"

section \<open>Streaming\<close>

definition ends_chunk :: "encoded_replay_packet list \<Rightarrow> nat \<Rightarrow> encoded_replay_packet \<Rightarrow> bool" where
  "ends_chunk chunk bytes packet = (case chunk of [] \<Rightarrow> False
     | first # _ \<Rightarrow> pk_keyframe packet
         \<or> saturating_sub (pk_timestamp_ns packet) (pk_timestamp_ns first) \<ge> MAX_FRAGMENT_DURATION_NS
         \<or> bytes + length (pk_bytes packet) > MAX_STREAM_FRAGMENT_BYTES)"

function mp4_streaming_loop :: "sink \<Rightarrow> replay_video_stream \<Rightarrow> u64 \<Rightarrow> memory_packets \<Rightarrow>
    encoded_replay_packet list \<Rightarrow> nat \<Rightarrow> u32 \<Rightarrow> counting_writer \<Rightarrow>
    mp4_error + (memory_packets \<times> encoded_replay_packet list \<times> u32 \<times> counting_writer)" where
  "mp4_streaming_loop sink stream origin src chunk bytes fragments w =
     (case next_packet src of
        Inl e \<Rightarrow> Inl (Mp4Io e)
      | Inr (None, src) \<Rightarrow> Inr (src, chunk, fragments, w)
      | Inr (Some packet, src) \<Rightarrow>
          if fragments = 0 \<and> chunk = [] \<and> \<not> pk_keyframe packet then Inl Mp4MissingInitialKeyframe
          else case map_err (\<lambda>_. Mp4InvalidPacket) (validate_packet stream (pk_bytes packet)) of
            Inl e \<Rightarrow> Inl e
          | Inr _ \<Rightarrow>
              if ends_chunk chunk bytes packet then
                (case write_fragment sink (fragments + 1) origin chunk (Some (pk_timestamp_ns packet)) w of
                   Inl e \<Rightarrow> Inl e
                 | Inr w \<Rightarrow> mp4_streaming_loop sink stream origin src [packet] (length (pk_bytes packet))
                              (fragments + 1) w)
              else mp4_streaming_loop sink stream origin src (chunk @ [packet])
                     (bytes + length (pk_bytes packet)) fragments w)"
  by pat_completeness auto
termination
  by (relation "measure (\<lambda>(sink, stream, origin, src, chunk, bytes, fragments, w). length (mp_packets src))")
    (auto simp: next_packet_def check_cancel_def split: if_splits list.splits)

declare mp4_streaming_loop.simps [simp del]

function write_streaming_audio_fragments :: "sink \<Rightarrow> u64 \<Rightarrow> encoded_opus_packet list \<Rightarrow> u32 \<Rightarrow> nat \<Rightarrow>
    memory_packets \<times> u32 \<times> counting_writer \<Rightarrow> mp4_error + (memory_packets \<times> u32 \<times> counting_writer)" where
  "write_streaming_audio_fragments sink origin packets track_id start (src, fragments, w) =
     (if start < length packets then
        (case check_cancel src of
           Inl e \<Rightarrow> Inl (Mp4Io e)
         | Inr src \<Rightarrow>
             (let stop = audio_fragment_end packets start
              in case write_audio_fragment sink (fragments + 1) origin (slice start (stop - start) packets) track_id w of
                   Inl e \<Rightarrow> Inl e
                 | Inr w \<Rightarrow> write_streaming_audio_fragments sink origin packets track_id stop (src, fragments + 1, w)))
      else Inr (src, fragments, w))"
  by pat_completeness auto
termination
proof (relation "measure (\<lambda>(sink, origin, packets, track_id, start, st). length packets - start)")
  show "((sink, origin, packets, track_id, stop, src', fragments', w'), sink, origin, packets, track_id, start, src, fragments, w)
      \<in> measure (\<lambda>(sink, origin, packets, track_id, start, st). length packets - start)"
    if "start < length packets" "stop = audio_fragment_end packets start"
    for sink :: sink and packets :: "encoded_opus_packet list" and origin :: u64 and start stop :: nat
      and track_id fragments fragments' :: u32 and w w' :: counting_writer and src src' :: memory_packets
    using that by (auto intro: diff_less_mono2 audio_fragment_end_gt)
qed simp

declare write_streaming_audio_fragments.simps [simp del]

definition write_streaming_mp4_tracks :: "sink \<Rightarrow> replay_video_stream \<Rightarrow> memory_packets \<Rightarrow> replay_audio_tracks \<Rightarrow>
    mp4_error + (u64 \<times> u8 list)" where
  "write_streaming_mp4_tracks sink stream src audio =
     (if vs_codec stream \<noteq> H264 then Inl Mp4UnsupportedCodec
      else case mp_window src of (origin, video_end) \<Rightarrow>
        let audio_packets = filter (in_window origin video_end) (as_packets (at_system audio));
            mic_packets = filter (in_window origin video_end) (microphone_packets audio)
        in if list_ex (\<lambda>p. oversized_audio_packet p \<or> ao_duration_ns p = 0) (audio_packets @ mic_packets)
           then Inl Mp4InvalidPacket
           else
             and_then ftyp (\<lambda>header.
             and_then (mp4_write_all sink header counting_writer_new) (\<lambda>w.
             and_then (if audio_packets = [] \<and> mic_packets = [] then moov stream
                       else moov_with_audio_tracks stream audio) (\<lambda>header.
             and_then (mp4_write_all sink header w) (\<lambda>w.
             and_then (mp4_streaming_loop sink stream origin src [] 0 0 w) (\<lambda>(src, chunk, fragments, w).
             and_then (if chunk = [] then Inr (fragments, w)
                       else and_then (write_fragment sink (fragments + 1) origin chunk None w)
                              (\<lambda>w. Inr (fragments + 1, w))) (\<lambda>(fragments, w).
             if fragments = 0 then Inl Mp4EmptyRing
             else
               and_then (write_streaming_audio_fragments sink origin audio_packets AUDIO_TRACK_ID 0 (src, fragments, w))
                 (\<lambda>st.
               and_then (write_streaming_audio_fragments sink origin mic_packets MICROPHONE_TRACK_ID 0 st)
                 (\<lambda>(src, fragments, w). Inr (cw_written w, cw_contents w))))))))))"

end
