(* ===== verification/Mp4_Demux.thy ===== *)
theory Mp4_Demux
  imports Mp4 Ebml_Codec
begin

text \<open>
  What a reader of the written MP4 files sees. A box is a prefix codec, and so is a top-level item
  of the file: a header box, or a fragment made of a movie fragment box and its media data. The
  reader follows the format: it takes the track from \<open>tfhd\<close>, the start time from \<open>tfdt\<close>, the
  durations, sizes and flags of the samples from \<open>trun\<close>, and the bytes at the data offset counted
  from the start of the movie fragment.
\<close>

section \<open>Boxes\<close>

lemma be_nat_nonempty [simp]: "be_nat 4 n \<noteq> []"
  by (simp add: be_nat_4)

definition enc_box :: "u8 list \<times> u8 list \<Rightarrow> u8 list" where
  "enc_box b = be_nat 4 (length (snd b) + 8) @ fst b @ snd b"

definition box_ok :: "u8 list \<times> u8 list \<Rightarrow> bool" where
  "box_ok b \<longleftrightarrow> length (fst b) = 4 \<and> length (snd b) + 8 < 2 ^ 32"

definition take_box :: "u8 list \<Rightarrow> ((u8 list \<times> u8 list) \<times> u8 list) option" where
  "take_box bs = (let n = nat_of_be (take 4 bs)
     in if length bs < 8 \<or> n < 8 \<or> length bs < n then None
        else Some ((slice 4 4 bs, slice 8 (n - 8) bs), drop n bs))"

lemma take_enc_box: "box_ok b \<Longrightarrow> take_box (enc_box b @ rest) = Some (b, rest)"
  by (cases b) (simp add: take_box_def enc_box_def box_ok_def Let_def slice_def)

interpretation box: prefix_codec enc_box take_box box_ok
proof
  show "take_box (enc_box b @ rest) = Some (b, rest)" if "box_ok b" for b rest
    using that by (rule take_enc_box)
  show "enc_box b \<noteq> []" if "box_ok b" for b
    using that by (cases "fst b") (simp_all add: enc_box_def box_ok_def)
qed

lemma length_enc_box: "length (fst b) = 4 \<Longrightarrow> length (enc_box b) = length (snd b) + 8"
  by (simp add: enc_box_def)

definition find_box :: "string \<Rightarrow> u8 list \<Rightarrow> u8 list option" where
  "find_box kind bs = (case decode_all take_box bs of None \<Rightarrow> None
     | Some boxes \<Rightarrow> map_option snd (List.find (\<lambda>b. fst b = ascii kind) boxes))"

lemma find_box_concat:
  "\<forall>b \<in> set boxes. box_ok b \<Longrightarrow>
    find_box kind (concat (map enc_box boxes)) = map_option snd (List.find (\<lambda>b. fst b = ascii kind) boxes)"
  by (simp add: find_box_def box.decode_all_concat)

section \<open>Fragments\<close>

text \<open>A sample of a run: its duration, its flags and its bytes.\<close>

type_synonym run_sample = "nat \<times> u32 \<times> u8 list"

datatype mp4_item = Header "u8 list" "u8 list" | Fragment u32 u32 nat bool "run_sample list"

definition run_entry :: "bool \<Rightarrow> run_sample \<Rightarrow> u8 list" where
  "run_entry flagged s = be_nat 4 (fst s) @ be_nat 4 (length (snd (snd s)))
     @ (if flagged then be_nat 4 (unat (fst (snd s))) else [])"

definition trun_contents :: "bool \<Rightarrow> run_sample list \<Rightarrow> nat \<Rightarrow> u8 list" where
  "trun_contents flagged ss offset = full_box 0 (if flagged then 0x701 else 0x301) @ be_nat 4 (length ss)
     @ be_nat 4 offset @ concat (map (run_entry flagged) ss)"

definition traf_boxes :: "u32 \<Rightarrow> nat \<Rightarrow> u8 list \<Rightarrow> (u8 list \<times> u8 list) list" where
  "traf_boxes track base trun = [(ascii ''tfhd'', full_box 0 0x20000 @ be_nat 4 (unat track)),
     (ascii ''tfdt'', full_box 1 0 @ be_nat 8 base), (ascii ''trun'', trun)]"

definition moof_boxes :: "u32 \<Rightarrow> u32 \<Rightarrow> nat \<Rightarrow> u8 list \<Rightarrow> (u8 list \<times> u8 list) list" where
  "moof_boxes sequence track base trun = [(ascii ''mfhd'', full_box 0 0 @ be_nat 4 (unat sequence)),
     (ascii ''traf'', concat (map enc_box (traf_boxes track base trun)))]"

definition moof_box :: "u32 \<Rightarrow> u32 \<Rightarrow> nat \<Rightarrow> u8 list \<Rightarrow> u8 list \<times> u8 list" where
  "moof_box sequence track base trun = (ascii ''moof'', concat (map enc_box (moof_boxes sequence track base trun)))"

definition run_width :: "bool \<Rightarrow> nat" where
  "run_width flagged = (if flagged then 12 else 8)"

text \<open>The media data starts after the movie fragment and the eight bytes of its own box header.\<close>

definition data_start :: "bool \<Rightarrow> run_sample list \<Rightarrow> nat" where
  "data_start flagged ss = 96 + run_width flagged * length ss"

definition media_data :: "run_sample list \<Rightarrow> u8 list" where
  "media_data ss = concat (map (\<lambda>s. snd (snd s)) ss)"

primrec enc_item :: "mp4_item \<Rightarrow> u8 list" where
  "enc_item (Header kind contents) = enc_box (kind, contents)"
| "enc_item (Fragment sequence track base flagged ss) =
     enc_box (moof_box sequence track base (trun_contents flagged ss (data_start flagged ss)))
     @ enc_box (ascii ''mdat'', media_data ss)"

primrec item_ok :: "mp4_item \<Rightarrow> bool" where
  "item_ok (Header kind contents) \<longleftrightarrow> box_ok (kind, contents) \<and> kind \<noteq> ascii ''moof''"
| "item_ok (Fragment sequence track base flagged ss) \<longleftrightarrow> base < 2 ^ 64 \<and> length ss < 2 ^ 24
     \<and> length (media_data ss) + 8 < 2 ^ 32 \<and> (\<forall>s \<in> set ss. fst s < 2 ^ 32 \<and> (flagged \<or> fst (snd s) = 0))"

section \<open>Reading\<close>

fun read_run :: "bool \<Rightarrow> nat \<Rightarrow> u8 list \<Rightarrow> u8 list \<Rightarrow> run_sample list option" where
  "read_run flagged 0 entries media = (if entries = [] then Some [] else None)"
| "read_run flagged (Suc n) entries media =
     (let size = nat_of_be (slice 4 4 entries)
      in if length entries < run_width flagged \<or> length media < size then None
         else map_option ((#) (nat_of_be (take 4 entries),
                if flagged then word_of_nat (nat_of_be (slice 8 4 entries)) else 0, take size media))
              (read_run flagged n (drop (run_width flagged) entries) (drop size media)))"

definition read_fragment :: "u8 list \<Rightarrow> u8 list \<Rightarrow> mp4_item option" where
  "read_fragment contents bs =
     Option.bind (find_box ''mfhd'' contents) (\<lambda>mfhd.
     Option.bind (find_box ''traf'' contents) (\<lambda>traf.
     Option.bind (find_box ''tfhd'' traf) (\<lambda>tfhd.
     Option.bind (find_box ''tfdt'' traf) (\<lambda>tfdt.
     Option.bind (find_box ''trun'' traf) (\<lambda>trun.
       let flags = nat_of_be (slice 1 3 trun); flagged = (flags = 0x701)
       in if flags \<noteq> 0x701 \<and> flags \<noteq> 0x301 then None
          else map_option (Fragment (word_of_nat (nat_of_be (slice 4 4 mfhd)))
                 (word_of_nat (nat_of_be (slice 4 4 tfhd))) (nat_of_be (slice 4 8 tfdt)) flagged)
               (read_run flagged (nat_of_be (slice 4 4 trun)) (drop 12 trun)
                  (drop (nat_of_be (slice 8 4 trun)) bs)))))))"

definition take_item :: "u8 list \<Rightarrow> (mp4_item \<times> u8 list) option" where
  "take_item bs = (case take_box bs of None \<Rightarrow> None
     | Some ((kind, contents), rest) \<Rightarrow>
         if kind \<noteq> ascii ''moof'' then Some (Header kind contents, rest)
         else (case (read_fragment contents bs, take_box rest) of
             (Some fragment, Some ((kind, _), rest)) \<Rightarrow>
               if kind = ascii ''mdat'' then Some (fragment, rest) else None
           | _ \<Rightarrow> None))"

record mp4_sample =
  sm_track :: u32
  sm_time :: nat
  sm_duration :: nat
  sm_flags :: u32
  sm_bytes :: "u8 list"

text \<open>Each sample of a run starts where the one before it ended.\<close>

fun timed :: "u32 \<Rightarrow> nat \<Rightarrow> run_sample list \<Rightarrow> mp4_sample list" where
  "timed track time [] = []"
| "timed track time ((duration, flags, bytes) # ss) =
     \<lparr>sm_track = track, sm_time = time, sm_duration = duration, sm_flags = flags, sm_bytes = bytes\<rparr>
     # timed track (time + duration) ss"

primrec item_samples :: "mp4_item \<Rightarrow> mp4_sample list" where
  "item_samples (Header _ _) = []"
| "item_samples (Fragment _ track base _ ss) = timed track base ss"

definition demux_mp4 :: "u8 list \<Rightarrow> mp4_sample list option" where
  "demux_mp4 bs = map_option (\<lambda>items. concat (map item_samples items)) (decode_all take_item bs)"

lemma length_run_entries: "length (concat (map (run_entry flagged) ss)) = run_width flagged * length ss"
  by (induction ss) (simp_all add: run_entry_def run_width_def)

lemma length_full_box [simp]: "length (full_box version flags) = 4"
  by (simp add: full_box_def u32_to_be_bytes_def)

lemma length_trun: "length (trun_contents flagged ss off) = 12 + run_width flagged * length ss"
  by (simp add: trun_contents_def length_run_entries)

lemma length_moof:
  "length (snd (moof_box sequence track base trun)) = 68 + length trun"
  "length (concat (map enc_box (traf_boxes track base trun))) = 44 + length trun"
  by (simp_all add: moof_box_def moof_boxes_def traf_boxes_def enc_box_def)

lemma run_width_le: "run_width flagged \<le> 12" by (simp add: run_width_def)

lemma item_sizes:
  assumes "item_ok (Fragment sequence track base flagged ss)"
  shows "length (trun_contents flagged ss off) \<le> 12 + 12 * 2 ^ 24" "data_start flagged ss < 2 ^ 32"
    "\<forall>s \<in> set ss. length (snd (snd s)) < 2 ^ 32"
proof -
  have n: "run_width flagged * length ss \<le> 12 * 2 ^ 24"
    using assms run_width_le by (intro mult_mono) simp_all
  show "length (trun_contents flagged ss off) \<le> 12 + 12 * 2 ^ 24" using n by (simp only: length_trun add_le_cancel_left)
  show "data_start flagged ss < 2 ^ 32" using n by (simp add: data_start_def)
  have "length (snd (snd s)) \<le> length (media_data ss)" if "s \<in> set ss" for s
    using that by (induction ss) (auto simp: media_data_def)
  then show "\<forall>s \<in> set ss. length (snd (snd s)) < 2 ^ 32" using assms by fastforce
qed

lemma read_run_entries:
  assumes "\<forall>s \<in> set ss. fst s < 2 ^ 32 \<and> length (snd (snd s)) < 2 ^ 32 \<and> (flagged \<or> fst (snd s) = 0)"
  shows "read_run flagged (length ss) (concat (map (run_entry flagged) ss)) (media_data ss @ rest) = Some ss"
  using assms
proof (induction ss)
  case (Cons s ss)
  obtain d f b where s: "s = (d, f, b)" by (cases s) auto
  let ?tail = "concat (map (run_entry flagged) ss)"
  have fields: "nat_of_be (take 4 (run_entry flagged s @ ?tail)) = d"
    "nat_of_be (slice 4 4 (run_entry flagged s @ ?tail)) = length b"
    "length (run_entry flagged s) = run_width flagged"
    "(if flagged then word_of_nat (nat_of_be (slice 8 4 (run_entry flagged s @ ?tail))) else 0) = f"
    using Cons.prems unat_lt_2p [of f] by (auto simp: s run_entry_def slice_def run_width_def)
  have "read_run flagged (length ss) ?tail (media_data ss @ rest) = Some ss" using Cons by simp
  then show ?case using fields by (cases flagged) (simp_all add: s media_data_def Let_def)
qed (simp add: media_data_def)

lemma ascii_distinct [simp]: "ascii a = ascii b \<longleftrightarrow> a = b"
proof
  have "unat (word_of_nat (of_char c) :: u8) = of_char c" for c :: char by (simp add: unat_of_nat)
  then have "inj (\<lambda>c :: char. word_of_nat (of_char c) :: u8)" by (metis injI of_char_eq_iff)
  then show "ascii a = ascii b \<Longrightarrow> a = b" by (auto simp: ascii_def dest: map_injective)
qed simp

lemma read_fragment_moof:
  assumes ok: "item_ok (Fragment sequence track base flagged ss)"
  shows "read_fragment (snd (moof_box sequence track base (trun_contents flagged ss (data_start flagged ss))))
    (enc_item (Fragment sequence track base flagged ss) @ rest) = Some (Fragment sequence track base flagged ss)"
proof -
  let ?trun = "trun_contents flagged ss (data_start flagged ss)"
  let ?bs = "enc_item (Fragment sequence track base flagged ss) @ rest"
  note sizes = item_sizes [OF ok]
  have boxes: "\<forall>b \<in> set (traf_boxes track base ?trun). box_ok b" "\<forall>b \<in> set (moof_boxes sequence track base ?trun). box_ok b"
    using sizes(1) [of "data_start flagged ss"] length_moof(2) [of track base ?trun]
    by (simp_all add: box_ok_def traf_boxes_def moof_boxes_def)
  have inner: "find_box ''tfhd'' (concat (map enc_box (traf_boxes track base ?trun))) = Some (full_box 0 0x20000 @ be_nat 4 (unat track))"
    "find_box ''tfdt'' (concat (map enc_box (traf_boxes track base ?trun))) = Some (full_box 1 0 @ be_nat 8 base)"
    "find_box ''trun'' (concat (map enc_box (traf_boxes track base ?trun))) = Some ?trun"
    unfolding find_box_concat [OF boxes(1)] by (simp_all add: traf_boxes_def)
  have outer: "find_box ''mfhd'' (snd (moof_box sequence track base ?trun)) = Some (full_box 0 0 @ be_nat 4 (unat sequence))"
    "find_box ''traf'' (snd (moof_box sequence track base ?trun)) = Some (concat (map enc_box (traf_boxes track base ?trun)))"
    unfolding moof_box_def snd_conv find_box_concat [OF boxes(2)] by (simp_all add: moof_boxes_def)
  have words: "word_of_nat (nat_of_be (slice 4 4 (full_box v f @ be_nat 4 (unat (w :: u32))))) = w"
    "base < 2 ^ 64 \<Longrightarrow> nat_of_be (slice 4 8 (full_box v f @ be_nat 8 base)) = base" for v f w
    using unat_lt_2p [of w] by (simp_all add: slice_def)
  have flags: "nat_of_be (slice 1 3 ?trun) = (if flagged then 0x701 else 0x301)"
    by (simp add: trun_contents_def slice_def full_box_def u32_to_be_bytes_def be_nat_4 nat_of_be_Cons)
  have fields: "nat_of_be (slice 4 4 ?trun) = length ss" "nat_of_be (slice 8 4 ?trun) = data_start flagged ss"
    "drop 12 ?trun = concat (map (run_entry flagged) ss)"
    using ok sizes(2) by (simp_all add: trun_contents_def slice_def)
  have "length (enc_box (moof_box sequence track base ?trun)) = 88 + run_width flagged * length ss"
    by (subst length_enc_box) (simp_all add: length_moof length_trun, simp add: moof_box_def)
  then have media: "drop (data_start flagged ss) ?bs = media_data ss @ rest"
    by (simp add: data_start_def enc_box_def [of "(ascii ''mdat'', media_data ss)"])
  have run: "read_run flagged (length ss) (concat (map (run_entry flagged) ss)) (media_data ss @ rest) = Some ss"
    using ok sizes(3) by (intro read_run_entries) auto
  have base: "base < 2 ^ 64" using ok by simp
  show ?thesis
    unfolding read_fragment_def outer inner bind.bind_lunit flags fields Let_def media words words(2) [OF base]
    using run by (cases flagged) simp_all
qed

lemma take_enc_item: "item_ok i \<Longrightarrow> take_item (enc_item i @ rest) = Some (i, rest)"
proof (cases i)
  case (Header kind contents)
  moreover assume "item_ok i"
  ultimately show ?thesis by (simp add: take_item_def take_enc_box)
next
  case (Fragment sequence track base flagged ss)
  let ?moof = "moof_box sequence track base (trun_contents flagged ss (data_start flagged ss))"
  assume ok: "item_ok i"
  then have ok': "item_ok (Fragment sequence track base flagged ss)" by (simp add: Fragment)
  have moof: "box_ok ?moof"
    using item_sizes(1) [OF ok', of "data_start flagged ss"]
      length_moof(1) [of sequence track base "trun_contents flagged ss (data_start flagged ss)"]
    by (simp add: box_ok_def moof_box_def)
  have mdat: "box_ok (ascii ''mdat'', media_data ss)" using ok' by (simp add: box_ok_def)
  obtain c where c: "?moof = (ascii ''moof'', c)" by (simp add: moof_box_def)
  have "take_box (enc_item i @ rest) = Some (?moof, enc_box (ascii ''mdat'', media_data ss) @ rest)"
    using take_enc_box [OF moof] by (simp add: Fragment)
  moreover have "read_fragment c (enc_item i @ rest) = Some i"
    using read_fragment_moof [OF ok', of rest] unfolding Fragment c snd_conv .
  moreover note take_enc_box [OF mdat, of rest]
  ultimately show ?thesis by (simp add: take_item_def c)
qed

interpretation item: prefix_codec enc_item take_item item_ok
proof
  show "take_item (enc_item i @ rest) = Some (i, rest)" if "item_ok i" for i rest
    using that by (rule take_enc_item)
  show "enc_item i \<noteq> []" if "item_ok i" for i
    using that by (cases i) (auto simp: enc_box_def box_ok_def)
qed

lemma demux_items:
  "\<forall>i \<in> set items. item_ok i \<Longrightarrow>
    demux_mp4 (concat (map enc_item items)) = Some (concat (map item_samples items))"
  by (simp add: demux_mp4_def item.decode_all_concat)

section \<open>Writing boxes\<close>

lemma push_box_ok:
  "length contents + 8 < 2 ^ 32 \<Longrightarrow> push_box kind contents d = Inr (d @ enc_box (ascii kind, contents))"
  by (simp add: push_box_def try_from_def statements_def put_u32_def extend_from_slice_def enc_box_def u32_to_be_bytes_def
      unat_of_nat del: of_nat_add)

lemma fragment_boxes_ok:
  assumes "length trun \<le> 2 ^ 31"
  shows "fragment_boxes sequence track base trun = Inr (enc_box (moof_box sequence track (unat base) trun))"
proof -
  have "length trun + 52 < 2 ^ 32" using assms by simp
  then show ?thesis
    using length_moof(1) [of sequence track "unat base" trun] length_moof(2) [of track "unat base" trun] assms
    by (simp add: fragment_boxes_def in_order_def push_box_ok make_box_def put_u32_def put_u64_def
        u32_to_be_bytes_def u64_to_be_bytes_def moof_box_def moof_boxes_def traf_boxes_def)
qed

lemma mp4_write_all_adds: "accepts sink \<Longrightarrow> adds (mp4_write_all sink b) b"
  by (simp add: adds_def mp4_write_all_def accepts_def cw_append_def saturating_add_len)

lemma total_payload_from:
  "unat acc + length (concat bss) < 2 ^ 64 \<Longrightarrow>
    try_fold (\<lambda>sum bytes. ok_or (checked_add sum (len_u64 bytes)) Mp4ContainerTooLarge) acc bss
      = Inr (word_of_nat (unat acc + length (concat bss)))"
proof (induction bss arbitrary: acc)
  case (Cons b bss)
  have "length b < 2 ^ 64" using Cons.prems by simp
  then have b: "unat (len_u64 b) = length b" by (rule unat_len_u64)
  then have sum: "unat (acc + len_u64 b) = unat acc + length b" "unat acc + unat (len_u64 b) < 2 ^ 64"
    using Cons.prems by (simp_all add: unat_word_ariths)
  then have "checked_add acc (len_u64 b) = Some (acc + len_u64 b)" by (simp add: checked_add_def)
  moreover have "try_fold (\<lambda>sum bytes. ok_or (checked_add sum (len_u64 bytes)) Mp4ContainerTooLarge) (acc + len_u64 b) bss
      = Inr (word_of_nat (unat (acc + len_u64 b) + length (concat bss)))"
    using Cons.prems by (intro Cons.IH) (simp add: sum(1))
  ultimately show ?case unfolding sum(1) by (simp add: add.assoc del: of_nat_add)
qed simp

lemma write_media_adds:
  assumes "accepts sink" "length (concat (map f ps)) + 8 < 2 ^ 32"
  shows "adds (\<lambda>w. and_then (total_payload (map f ps)) (\<lambda>n. and_then (write_box_header sink ''mdat'' n w)
      (\<lambda>w. try_fold (\<lambda>w p. mp4_write_all sink (f p) w) w ps))) (enc_box (ascii ''mdat'', concat (map f ps)))"
proof -
  let ?n = "length (concat (map f ps))"
  have n: "total_payload (map f ps) = Inr (word_of_nat ?n)"
    unfolding total_payload_def using total_payload_from [of 0 "map f ps"] assms(2) by simp
  have u: "unat (word_of_nat ?n :: u64) = ?n" using assms(2) by (simp add: unat_of_nat)
  then have add: "checked_add (word_of_nat ?n :: u64) 8 = Some (word_of_nat (?n + 8))"
    "unat (word_of_nat (?n + 8) :: u64) = ?n + 8"
    using assms(2) by (simp_all add: checked_add_def unat_of_nat del: of_nat_add, simp)
  have "unat (word_of_nat (?n + 8) :: u32) = ?n + 8" using assms(2) by (simp add: unat_of_nat del: of_nat_add)
  then have "write_box_header sink ''mdat'' (word_of_nat ?n)
      = in_order [mp4_write_all sink (be_nat 4 (?n + 8)), mp4_write_all sink (ascii ''mdat'')]"
    using assms(2) by (simp add: fun_eq_iff write_box_header_def add try_from_def u32_to_be_bytes_def del: of_nat_add)
  moreover have "adds (in_order [mp4_write_all sink (be_nat 4 (?n + 8)), mp4_write_all sink (ascii ''mdat'')])
      (concat [be_nat 4 (?n + 8), ascii ''mdat''])"
    using assms(1) by (intro adds_in_order) (simp add: mp4_write_all_adds)
  ultimately have "adds (write_box_header sink ''mdat'' (word_of_nat ?n)) (be_nat 4 (?n + 8) @ ascii ''mdat'')"
    by simp
  moreover have "adds (\<lambda>w. try_fold (\<lambda>w p. mp4_write_all sink (f p) w) w ps) (concat (map f ps))"
    using assms(1) by (intro adds_try_fold mp4_write_all_adds)
  ultimately show ?thesis using adds_seq by (fastforce simp: n enc_box_def)
qed

section \<open>The movie header\<close>

text \<open>Streams an MP4 file can describe.\<close>

definition mp4_stream_ok :: "replay_video_stream \<Rightarrow> bool" where
  "mp4_stream_ok stream \<longleftrightarrow> vs_codec stream = H264 \<and> unat (vs_width stream) < 2 ^ 16
     \<and> unat (vs_height stream) < 2 ^ 16 \<and> length (vs_codec_private stream) \<le> 65536"

definition small :: "nat \<Rightarrow> mp4_error + vec \<Rightarrow> bool" where
  "small n r \<longleftrightarrow> (\<exists>v. r = Inr v \<and> length v \<le> n)"

lemma smallE: "small n r \<Longrightarrow> (\<And>v. r = Inr v \<Longrightarrow> length v \<le> n \<Longrightarrow> P) \<Longrightarrow> P"
  by (auto simp: small_def)

lemma length_statements [simp]:
  "length (statements [] v) = length v" "length (statements (op # ops) v) = length (statements ops (op v))"
  by (simp_all add: statements_def)

lemma length_put [simp]:
  "length (put_u16 a v) = length v + 2" "length (put_u32 b v) = length v + 4" "length (zeros n v) = length v + n"
  "length (extend_from_slice bs v) = length v + length bs" "length (matrix v) = length v + 36"
  by (simp_all add: put_u16_def put_u32_def zeros_def extend_from_slice_def matrix_def u16_to_be_bytes_def
      u32_to_be_bytes_def statements_def)

lemma in_order_Nil [simp]: "in_order [] v = Inr v" "in_order (op # ops) v = and_then (op v) (in_order ops)"
  by (simp_all add: in_order_def [abs_def])

lemma small_push:
  "length c + 8 < 2 ^ 32 \<Longrightarrow> length kind = 4 \<Longrightarrow> length v + length c + 8 \<le> n \<Longrightarrow> small n (push_box kind c v)"
  by (simp add: small_def push_box_ok length_enc_box)

lemma small_then: "small n r \<Longrightarrow> (\<And>v. length v \<le> n \<Longrightarrow> small k (f v)) \<Longrightarrow> small k (and_then r f)"
  by (auto simp: small_def)

lemma empty_sample_tables_small: "length v \<le> n \<Longrightarrow> small (n + 68) (empty_sample_tables v)"
  by (simp add: empty_sample_tables_def push_box_ok small_def length_enc_box)

lemma data_information_small: "length v \<le> n \<Longrightarrow> small (n + 36) (data_information v)"
  by (simp add: data_information_def push_box_ok small_def length_enc_box)

lemma trak_small:
  assumes "mp4_stream_ok stream"
  shows "small 67000 (trak stream)"
proof -
  have avc1: "small 65630 (avc1 stream)"
    using assms by (auto simp: avc1_def mp4_stream_ok_def try_from_def Let_def intro!: small_push)
  have "small 65722 (stbl stream)" unfolding stbl_def
    by (rule small_then [OF avc1], rule small_then [of 65646], rule small_push, simp_all,
        rule small_then [of 65654], rule small_push, simp_all)
      (use empty_sample_tables_small [of _ 65654] in \<open>auto simp: small_def\<close>)
  moreover have "small 56 (in_order [push_box ''vmhd'' (zeros 8 (full_box 0 1)), data_information] [])"
    using data_information_small [of "enc_box (ascii ''vmhd'', zeros 8 (full_box 0 1))" 20]
    by (auto simp: push_box_ok length_enc_box small_def)
  ultimately have "small 65800 (minf stream)" unfolding minf_def
    by (elim smallE) (auto intro!: small_push)
  moreover have "small 100 (in_order [push_box ''mdhd'' mdhd, push_box ''hdlr'' hdlr] [])"
    by (simp add: push_box_ok small_def length_enc_box mdhd_def hdlr_def)
  ultimately have "small 66000 (mdia stream)" unfolding mdia_def
    by (elim smallE) (auto intro!: small_push)
  moreover have "small 100 (push_box ''tkhd'' (tkhd stream) [])"
    by (intro small_push) (simp_all add: tkhd_def)
  ultimately show ?thesis unfolding trak_def by (elim smallE) (auto intro!: small_push)
qed

lemma audio_trak_small: "small 1000 (audio_trak audio track)"
proof -
  have "small 60 (opus_sample_entry audio)"
    by (simp add: opus_sample_entry_def Let_def push_box_ok small_def length_enc_box)
  then obtain e where e: "opus_sample_entry audio = Inr e" "length e \<le> 60" by (rule smallE)
  have stsd: "length (enc_box (ascii ''stsd'', put_u32 1 (full_box 0 0) @ enc_box (ascii ''Opus'', e))) \<le> 90"
    using e(2) by (simp add: length_enc_box)
  obtain t where t: "empty_sample_tables (enc_box (ascii ''stsd'', put_u32 1 (full_box 0 0) @ enc_box (ascii ''Opus'', e))) = Inr t"
    "length t \<le> 90 + 68"
    using empty_sample_tables_small [OF stsd] by (rule smallE)
  obtain d where d: "data_information (enc_box (ascii ''smhd'', zeros 4 (full_box 0 0))) = Inr d" "length d \<le> 16 + 36"
    using data_information_small [of "enc_box (ascii ''smhd'', zeros 4 (full_box 0 0))" 16]
    by (rule smallE) (simp_all add: length_enc_box)
  have "small 300 (audio_minf audio)"
    using e t d by (simp add: audio_minf_def push_box_ok small_def length_enc_box)
  then obtain m where m: "audio_minf audio = Inr m" "length m \<le> 300" by (rule smallE)
  then show ?thesis
    by (simp add: audio_trak_def Let_def push_box_ok small_def length_enc_box)
qed

lemma ftyp_item: "\<exists>c. ftyp = Inr (enc_item (Header (ascii ''ftyp'') c)) \<and> item_ok (Header (ascii ''ftyp'') c)"
  by (simp add: ftyp_def make_box_def push_box_ok box_ok_def) (intro exI conjI, rule refl, simp)

lemma moov_item:
  assumes "mp4_stream_ok stream"
  shows "\<exists>c. moov stream = Inr (enc_item (Header (ascii ''moov'') c)) \<and> item_ok (Header (ascii ''moov'') c)"
proof -
  obtain t where t: "trak stream = Inr t" "length t \<le> 67000" using trak_small [OF assms] by (rule smallE)
  have "length mvhd = 100" "length trex = 24" by (simp_all add: mvhd_def mvhd_for_next_track_def trex_def)
  then show ?thesis
    using t by (simp add: moov_def push_box_ok make_box_def box_ok_def length_enc_box)
      (intro exI conjI, rule refl, simp add: length_enc_box)
qed

lemma moov_with_audio_tracks_item:
  assumes "mp4_stream_ok stream"
  shows "\<exists>c. moov_with_audio_tracks stream audio = Inr (enc_item (Header (ascii ''moov'') c))
    \<and> item_ok (Header (ascii ''moov'') c)"
proof -
  obtain t where t: "trak stream = Inr t" "length t \<le> 67000" using trak_small [OF assms] by (rule smallE)
  obtain a where a: "audio_trak (at_system audio) AUDIO_TRACK_ID = Inr a" "length a \<le> 1000"
    using audio_trak_small by (rule smallE)
  have len: "length (mvhd_for_next_track n) = 100" "length trex = 24" "length (trex_for k) = 24" for n k
    by (simp_all add: mvhd_for_next_track_def trex_def trex_for_def)
  show ?thesis
  proof (cases "at_microphone audio")
    case None
    then show ?thesis using t a len
      by (simp add: moov_with_audio_tracks_def push_box_ok make_box_def box_ok_def length_enc_box)
        (intro exI conjI, rule refl, simp add: length_enc_box)
  next
    case (Some m)
    obtain b where "audio_trak m MICROPHONE_TRACK_ID = Inr b" "length b \<le> 1000"
      using audio_trak_small by (rule smallE)
    with Some t a len show ?thesis
      by (simp add: moov_with_audio_tracks_def push_box_ok make_box_def box_ok_def length_enc_box)
        (intro exI conjI, rule refl, simp add: length_enc_box)
  qed
qed

end
