(* ===== verification/Mp4_Clips.thy ===== *)
theory Mp4_Clips
  imports Mp4_Demux Matroska_Streaming
begin

text \<open>
  What the MP4 writers put into a file, sample by sample. A clip is cut into fragments in different
  ways by the writers, but every cut of the same packets gives a reader the same samples: each
  starts exactly where the one before it ended, at its packet's time in microseconds.
\<close>

section \<open>Video samples\<close>

text \<open>The time of a packet in the clip, in units of the time scale.\<close>

definition clip_us :: "u64 \<Rightarrow> u64 \<Rightarrow> nat" where
  "clip_us origin t = unat (t - origin) div 1000"

definition next_time :: "u64 \<Rightarrow> encoded_replay_packet list \<Rightarrow> u64" where
  "next_time final ps = (case ps of [] \<Rightarrow> final | p # _ \<Rightarrow> pk_timestamp_ns p)"

definition sync_flags :: "encoded_replay_packet \<Rightarrow> u32" where
  "sync_flags p = (if pk_keyframe p then 0x02000000 else 0x01010000)"

fun sample_data :: "u64 \<Rightarrow> u64 \<Rightarrow> encoded_replay_packet list \<Rightarrow> run_sample list" where
  "sample_data origin final [] = []"
| "sample_data origin final (p # ps) =
     (clip_us origin (next_time final ps) - clip_us origin (pk_timestamp_ns p), sync_flags p, pk_bytes p)
     # sample_data origin final ps"

text \<open>No two samples start in the same microsecond, and the last one does not end in the one it
  starts in.\<close>

fun rising :: "u64 \<Rightarrow> u64 \<Rightarrow> encoded_replay_packet list \<Rightarrow> bool" where
  "rising origin final [] \<longleftrightarrow> True"
| "rising origin final (p # ps) \<longleftrightarrow>
     clip_us origin (pk_timestamp_ns p) < clip_us origin (next_time final ps) \<and> rising origin final ps"

fun video_samples :: "u64 \<Rightarrow> u64 \<Rightarrow> encoded_replay_packet list \<Rightarrow> mp4_sample list" where
  "video_samples origin final [] = []"
| "video_samples origin final (p # ps) =
     \<lparr>sm_track = 1, sm_time = clip_us origin (pk_timestamp_ns p),
      sm_duration = clip_us origin (next_time final ps) - clip_us origin (pk_timestamp_ns p),
      sm_flags = sync_flags p, sm_bytes = pk_bytes p\<rparr>
     # video_samples origin final ps"

lemma video_samples_append:
  "qs \<noteq> [] \<Longrightarrow> video_samples origin final (ps @ qs)
    = video_samples origin (next_time final qs) ps @ video_samples origin final qs"
proof (induction ps)
  case (Cons p ps)
  then show ?case by (cases ps; cases qs) (simp_all add: next_time_def)
qed simp

lemma rising_append:
  "qs \<noteq> [] \<Longrightarrow> rising origin final (ps @ qs)
    \<longleftrightarrow> rising origin (next_time final qs) ps \<and> rising origin final qs"
proof (induction ps)
  case (Cons p ps)
  then show ?case by (cases ps; cases qs) (simp_all add: next_time_def)
qed simp

lemma timed_video:
  "rising origin final ps \<Longrightarrow> ps \<noteq> [] \<Longrightarrow>
    timed TRACK_ID (clip_us origin (pk_timestamp_ns (hd ps))) (sample_data origin final ps)
      = video_samples origin final ps"
proof (induction ps)
  case (Cons p ps)
  then show ?case by (cases ps) (simp_all add: next_time_def TRACK_ID_def)
qed simp

section \<open>Video fragments\<close>

text \<open>Packets of one clip: in time order, from the origin to the end, within the longest replay.\<close>

definition clip_times :: "u64 \<Rightarrow> u64 \<Rightarrow> encoded_replay_packet list \<Rightarrow> bool" where
  "clip_times origin final ps \<longleftrightarrow> sorted (map pk_timestamp_ns ps @ [final])
     \<and> (\<forall>p \<in> set ps. origin \<le> pk_timestamp_ns p \<and> length (pk_bytes p) \<le> 8388608)
     \<and> origin \<le> final \<and> unat (final - origin) \<le> 10 ^ 12"

definition clip_ends :: "u64 \<Rightarrow> u64 option \<Rightarrow> encoded_replay_packet list \<Rightarrow> bool" where
  "clip_ends final next_ns ps = (case next_ns of Some t \<Rightarrow> t = final
     | None \<Rightarrow> ps \<noteq> [] \<longrightarrow> checked_add (pk_timestamp_ns (last ps)) (pk_duration_ns (last ps)) = Some final)"

lemma clip_times_Cons:
  assumes "clip_times origin final (p # ps)"
  shows "clip_times origin final ps" "origin \<le> pk_timestamp_ns p" "pk_timestamp_ns p \<le> next_time final ps"
    "next_time final ps \<le> final"
  using assms by (auto simp: clip_times_def next_time_def split: list.splits)

lemma to_timescale_ok:
  assumes "origin \<le> t" "t \<le> final" "unat (final - origin) \<le> 10 ^ 12"
  shows "checked_sub t origin = Some (t - origin)"
    "to_timescale (t - origin) = Inr (word_of_nat (clip_us origin t))" "clip_us origin t \<le> 10 ^ 9"
proof -
  have "unat (t - origin) \<le> unat (final - origin)"
    using assms(1,2) by (simp add: unat_sub word_le_nat_alt diff_le_mono)
  with assms(3) have b: "unat (t - origin) \<le> 10 ^ 12" by simp
  show "checked_sub t origin = Some (t - origin)" using assms(1) by (simp add: checked_sub_def)
  show "clip_us origin t \<le> 10 ^ 9" using b by (simp add: clip_us_def)
  define x where "x = t - origin"
  have x: "unat x \<le> 10 ^ 12" "clip_us origin t = unat x div 1000" using b by (simp_all add: x_def clip_us_def)
  then have "unat x * unat (1000000 :: u64) < 2 ^ 64" by simp
  then have m: "checked_mul x (ucast TIMESCALE) = Some (x * 1000000)" "unat (x * 1000000) = unat x * 1000000"
    by (simp_all add: checked_mul_def TIMESCALE_def unat_word_ariths)
  have "clip_us origin t = unat (x * 1000000 div 1000000000)"
    by (simp add: unat_div m(2) x(2))
  then have "word_of_nat (clip_us origin t) = x * 1000000 div 1000000000"
    by (simp only: word_of_nat_unat)
  then show "to_timescale (t - origin) = Inr (word_of_nat (clip_us origin t))"
    unfolding to_timescale_def x_def [symmetric] m(1) by (simp only: option.map ok_or_simps)
qed

lemma sample_end_ok: "clip_ends final next_ns (p # ps) \<Longrightarrow> sample_end p ps next_ns = Some (next_time final ps)"
  by (auto simp: sample_end_def clip_ends_def next_time_def split: list.splits option.splits)

lemma clip_ends_tl: "clip_ends final next_ns (p # ps) \<Longrightarrow> clip_ends final next_ns ps"
  by (auto simp: clip_ends_def split: option.splits)

lemma checked_sub_of_nat:
  assumes "a < 2 ^ 64" "b < 2 ^ 64"
  shows "checked_sub (word_of_nat b :: u64) (word_of_nat a) = (if b < a then None else Some (word_of_nat (b - a)))"
  using assms by (auto simp: checked_sub_def word_less_nat_alt unat_of_nat of_nat_diff)

lemma trun_samples_spec:
  "clip_times origin final ps \<Longrightarrow> clip_ends final next_ns ps \<Longrightarrow>
    trun_samples origin next_ns ps trun = (if rising origin final ps
      then Inr (trun @ concat (map (run_entry True) (sample_data origin final ps))) else Inl Mp4TimestampOverflow)"
proof (induction ps arbitrary: trun)
  case (Cons p ps)
  let ?t = "pk_timestamp_ns p" and ?n = "next_time final ps"
  note c = clip_times_Cons [OF Cons.prems(1)]
  have lim: "unat (final - origin) \<le> 10 ^ 12" using Cons.prems(1) by (simp add: clip_times_def)
  have t: "origin \<le> ?t" "?t \<le> final" "origin \<le> ?n" "?n \<le> final" using c(2-4) by auto
  note a = to_timescale_ok [OF t(1,2) lim] and b = to_timescale_ok [OF t(3,4) lim]
  let ?d = "clip_us origin ?n - clip_us origin ?t"
  have sub: "checked_sub (word_of_nat (clip_us origin ?n) :: u64) (word_of_nat (clip_us origin ?t))
      = (if clip_us origin ?n < clip_us origin ?t then None else Some (word_of_nat ?d))"
    using a(3) b(3) by (intro checked_sub_of_nat) simp_all
  have d: "unat (word_of_nat ?d :: u64) = ?d" "?d < 2 ^ 32" "unat (word_of_nat ?d :: u32) = ?d"
    using b(3) by (simp_all add: unat_of_nat)
  then have pos: "(0 < (word_of_nat ?d :: u64)) = (0 < ?d)" by (simp add: word_less_nat_alt)
  have z: "length (pk_bytes p) < 2 ^ 32" "unat (word_of_nat (length (pk_bytes p)) :: u32) = length (pk_bytes p)"
    using Cons.prems(1) by (simp_all add: clip_times_def unat_of_nat)
  note ih = Cons.IH [OF c(1) clip_ends_tl [OF Cons.prems(2)]]
  show ?case
  proof (cases "clip_us origin ?t < clip_us origin ?n")
    case True
    then have "0 < ?d" "\<not> clip_us origin ?n < clip_us origin ?t" by simp_all
    then show ?thesis
      unfolding trun_samples.simps sample_end_ok [OF Cons.prems(2)] ok_or_simps and_then_simps a(1,2) b(1,2) sub
      using True d z
      by (simp add: pos try_from_def ih statements_def put_u32_def run_entry_def u32_to_be_bytes_def sync_flags_def
          del: of_nat_diff)
  next
    case False
    then have "\<not> rising origin final (p # ps)" "?d = 0" by simp_all
    then show ?thesis
      unfolding trun_samples.simps sample_end_ok [OF Cons.prems(2)] ok_or_simps and_then_simps a(1,2) b(1,2) sub
      by simp
  qed
qed simp

lemma sample_data_facts:
  assumes "clip_times origin final ps"
  shows "length (sample_data origin final ps) = length ps" "media_data (sample_data origin final ps) = concat (map pk_bytes ps)"
    "\<forall>s \<in> set (sample_data origin final ps). fst s < 2 ^ 32"
proof -
  show "length (sample_data origin final ps) = length ps" "media_data (sample_data origin final ps) = concat (map pk_bytes ps)"
    by (induction ps) (simp_all add: media_data_def)
  show "\<forall>s \<in> set (sample_data origin final ps). fst s < 2 ^ 32"
    using assms
  proof (induction ps)
    case (Cons p ps)
    note c = clip_times_Cons [OF Cons.prems]
    have "clip_us origin (next_time final ps) \<le> 10 ^ 9"
      using c(2-4) Cons.prems by (intro to_timescale_ok(3) [of origin _ final]) (auto simp: clip_times_def)
    with Cons c(1) show ?case by simp
  qed simp
qed

text \<open>A fragment the writer may be asked for.\<close>

definition fragment_fits :: "encoded_replay_packet list \<Rightarrow> bool" where
  "fragment_fits ps \<longleftrightarrow> ps \<noteq> [] \<and> length ps < 2 ^ 24 \<and> payload ps + 8 < 2 ^ 32"

definition video_item :: "u32 \<Rightarrow> u64 \<Rightarrow> u64 \<Rightarrow> encoded_replay_packet list \<Rightarrow> mp4_item" where
  "video_item sequence origin final ps =
     Fragment sequence TRACK_ID (clip_us origin (pk_timestamp_ns (hd ps))) True (sample_data origin final ps)"

lemma moof_spec:
  assumes "clip_times origin final ps" "clip_ends final next_ns ps" "fragment_fits ps"
  shows "moof sequence origin ps next_ns offset = (if rising origin final ps
    then Inr (enc_box (moof_box sequence TRACK_ID (clip_us origin (pk_timestamp_ns (hd ps)))
      (trun_contents True (sample_data origin final ps) (unat offset)))) else Inl Mp4TimestampOverflow)"
proof -
  let ?t = "pk_timestamp_ns (hd ps)"
  have ps: "ps \<noteq> []" "length ps < 2 ^ 24" using assms(3) by (simp_all add: fragment_fits_def)
  then have t: "origin \<le> ?t" "?t \<le> final" "unat (final - origin) \<le> 10 ^ 12"
    using assms(1) by (auto simp: clip_times_def neq_Nil_conv)
  note base = to_timescale_ok [OF t]
  have u: "unat (word_of_nat (clip_us origin ?t) :: u64) = clip_us origin ?t"
    "unat (word_of_nat (length ps) :: u32) = length ps"
    "(try_from (length ps) :: u32 option) = Some (word_of_nat (length ps))"
    using base(3) ps(2) by (simp_all add: unat_of_nat try_from_def)
  let ?start = "statements [put_u32 (word_of_nat (length ps)), put_u32 offset] (full_box 0 0x701)"
  have start: "?start @ concat (map (run_entry True) ss) = trun_contents True ss (unat offset)"
    if "length ss = length ps" for ss
    using that u(2) by (simp add: statements_def put_u32_def trun_contents_def u32_to_be_bytes_def)
  have len: "length (trun_contents True ss n) \<le> 2 ^ 31" if "length ss = length ps" for ss n
    using that ps(2) by (simp add: length_trun run_width_def)
  show ?thesis
    unfolding moof_def base(1,2) ok_or_simps and_then_simps u(3)
    using trun_samples_spec [OF assms(1,2), of ?start] sample_data_facts(1) [OF assms(1)] start len
    by (simp add: fragment_boxes_ok u(1) split del: if_split split: if_split)
qed

lemma video_item_ok:
  assumes "clip_times origin final ps" "fragment_fits ps"
  shows "item_ok (video_item sequence origin final ps)"
proof -
  have "ps \<noteq> []" using assms(2) by (simp add: fragment_fits_def)
  then have t: "origin \<le> pk_timestamp_ns (hd ps)" "pk_timestamp_ns (hd ps) \<le> final" "unat (final - origin) \<le> 10 ^ 12"
    using assms(1) by (auto simp: clip_times_def neq_Nil_conv)
  have "length (concat (map pk_bytes ps)) = payload ps" by (induction ps) simp_all
  with to_timescale_ok(3) [OF t] sample_data_facts [OF assms(1)] assms(2) show ?thesis
    by (simp add: video_item_def fragment_fits_def)
qed

lemma write_fragment_spec:
  assumes "accepts sink" "clip_times origin final ps" "clip_ends final next_ns ps" "fragment_fits ps"
  shows "write_fragment sink sequence origin ps next_ns w = (if rising origin final ps
    then Inr (cw_append (enc_item (video_item sequence origin final ps)) w) else Inl Mp4TimestampOverflow)"
proof (cases "rising origin final ps")
  case True
  let ?ss = "sample_data origin final ps" and ?b = "clip_us origin (pk_timestamp_ns (hd ps))"
  let ?moof = "\<lambda>n. enc_box (moof_box sequence TRACK_ID ?b (trun_contents True ?ss n))"
  note moof = moof_spec [OF assms(2-4), of sequence]
  note facts = sample_data_facts [OF assms(2)]
  have fits: "length ps < 2 ^ 24" "length (concat (map pk_bytes ps)) + 8 < 2 ^ 32"
  proof -
    have "length (concat (map pk_bytes ps)) = payload ps" by (induction ps) simp_all
    then show "length ps < 2 ^ 24" "length (concat (map pk_bytes ps)) + 8 < 2 ^ 32"
      using assms(4) by (simp_all add: fragment_fits_def)
  qed
  have len: "length (?moof n) + 8 = data_start True ?ss" for n
    using length_moof(1) [of sequence TRACK_ID ?b "trun_contents True ?ss n"]
    by (subst length_enc_box) (simp_all add: length_trun data_start_def, simp add: moof_box_def)
  have off: "i32_try_from_len (data_start True ?ss) = Inr (word_of_nat (data_start True ?ss))"
    "unat (word_of_nat (data_start True ?ss) :: u32) = data_start True ?ss"
    using fits(1) facts(1) by (simp_all add: i32_try_from_len_def data_start_def run_width_def unat_of_nat del: of_nat_add of_nat_mult)
  have "write_fragment sink sequence origin ps next_ns w
      = and_then (mp4_write_all sink (?moof (data_start True ?ss)) w) (\<lambda>w.
          and_then (total_payload (map pk_bytes ps)) (\<lambda>n. and_then (write_box_header sink ''mdat'' n w)
            (\<lambda>w. try_fold (\<lambda>w p. mp4_write_all sink (pk_bytes p) w) w ps)))"
    unfolding write_fragment_def moof if_P [OF True] and_then_simps len off ..
  also have "\<dots> = Inr (cw_append (?moof (data_start True ?ss) @ enc_box (ascii ''mdat'', concat (map pk_bytes ps))) w)"
    using adds_seq [OF mp4_write_all_adds [OF assms(1)] write_media_adds [OF assms(1) fits(2)]]
    by (rule addsD)
  finally show ?thesis using True by (simp add: video_item_def facts(2))
qed (simp add: write_fragment_def moof_spec [OF assms(2-4)])

section \<open>A clip in fragments\<close>

fun video_items :: "u32 \<Rightarrow> u64 \<Rightarrow> u64 \<Rightarrow> encoded_replay_packet list list \<Rightarrow> mp4_item list" where
  "video_items n origin final [] = []"
| "video_items n origin final (g # gs) =
     video_item (saturating_add n 1) origin (next_time final (concat gs)) g
     # video_items (saturating_add n 1) origin final gs"

lemma next_time_concat: "next_time (next_time final qs) ps = next_time final (ps @ qs)"
  by (cases ps) (simp_all add: next_time_def)

lemma rising_parts:
  "rising origin final (ps @ qs) \<longleftrightarrow> rising origin (next_time final qs) ps \<and> rising origin final qs"
  by (cases "qs = []") (simp_all add: rising_append next_time_def)

lemma samples_parts:
  "video_samples origin final (ps @ qs) = video_samples origin (next_time final qs) ps @ video_samples origin final qs"
  by (cases "qs = []") (simp_all add: video_samples_append next_time_def)

lemma video_items_samples:
  "rising origin final (concat gs) \<Longrightarrow> \<forall>g \<in> set gs. g \<noteq> [] \<Longrightarrow>
    concat (map item_samples (video_items n origin final gs)) = video_samples origin final (concat gs)"
proof (induction gs arbitrary: n)
  case (Cons g gs)
  then show ?case by (simp add: rising_parts samples_parts video_item_def timed_video)
qed simp

lemma clip_times_parts:
  assumes "clip_times origin final (ps @ qs)"
  shows "clip_times origin (next_time final qs) ps" "clip_times origin final qs"
proof -
  show "clip_times origin final qs" using assms by (auto simp: clip_times_def sorted_append)
  have "next_time final qs \<le> final" "origin \<le> next_time final qs"
    using assms by (auto simp: clip_times_def next_time_def sorted_append split: list.splits)
  then have "unat (next_time final qs - origin) \<le> unat (final - origin)"
    by (simp add: unat_sub word_le_nat_alt diff_le_mono)
  moreover have "sorted (map pk_timestamp_ns ps @ [next_time final qs])"
    using assms by (auto simp: clip_times_def next_time_def sorted_append split: list.splits)
  ultimately show "clip_times origin (next_time final qs) ps"
    using assms \<open>origin \<le> next_time final qs\<close> by (auto simp: clip_times_def)
qed

lemma clip_ends_parts:
  "clip_ends final None (ps @ qs) \<Longrightarrow>
    clip_ends (next_time final qs) (case qs of [] \<Rightarrow> None | q # _ \<Rightarrow> Some (pk_timestamp_ns q)) ps"
  "clip_ends final None (ps @ qs) \<Longrightarrow> clip_ends final None qs"
  by (auto simp: clip_ends_def next_time_def split: list.splits)

lemma fragment_fits_parts:
  "length (ps @ qs) < 2 ^ 24 \<Longrightarrow> payload (ps @ qs) + 8 < 2 ^ 32 \<Longrightarrow> ps \<noteq> [] \<Longrightarrow> fragment_fits ps"
proof -
  have "payload (ps @ qs) = payload ps + payload qs" by (induction ps) simp_all
  then show "length (ps @ qs) < 2 ^ 24 \<Longrightarrow> payload (ps @ qs) + 8 < 2 ^ 32 \<Longrightarrow> ps \<noteq> [] \<Longrightarrow> fragment_fits ps"
    by (simp add: fragment_fits_def)
qed

lemma payload_append [simp]: "payload (ps @ qs) = payload ps + payload qs"
  by (induction ps) simp_all

text \<open>The packets of a clip as every writer gets them.\<close>

definition clip_fits :: "u64 \<Rightarrow> u64 \<Rightarrow> encoded_replay_packet list \<Rightarrow> bool" where
  "clip_fits origin final ps \<longleftrightarrow> clip_times origin final ps \<and> clip_ends final None ps
     \<and> length ps < 2 ^ 24 \<and> payload ps + 8 < 2 ^ 32"

lemma clip_fits_suffix: "clip_fits origin final (ps @ qs) \<Longrightarrow> clip_fits origin final qs"
  by (auto simp: clip_fits_def dest: clip_times_parts(2) clip_ends_parts(2))

lemma write_fragment_of_clip:
  assumes "accepts sink" "clip_fits origin final (g @ qs)" "g \<noteq> []"
  shows "write_fragment sink sequence origin g (case qs of [] \<Rightarrow> None | q # _ \<Rightarrow> Some (pk_timestamp_ns q)) w
    = (if rising origin (next_time final qs) g
       then Inr (cw_append (enc_item (video_item sequence origin (next_time final qs) g)) w)
       else Inl Mp4TimestampOverflow)"
    and "item_ok (video_item sequence origin (next_time final qs) g)"
  using assms clip_times_parts(1) [of origin final g qs] clip_ends_parts(1) [of final g qs] fragment_fits_parts [of g qs]
  by (simp_all add: clip_fits_def write_fragment_spec video_item_ok)

lemma video_items_ok:
  "clip_fits origin final (concat gs) \<Longrightarrow> \<forall>g \<in> set gs. g \<noteq> [] \<Longrightarrow>
    \<forall>i \<in> set (video_items n origin final gs). item_ok i"
proof (induction gs arbitrary: n)
  case (Cons g gs)
  have "clip_fits origin final (concat gs)" using Cons.prems(1) clip_fits_suffix by simp
  with Cons write_fragment_of_clip(2) [of "\<lambda>_ _. None" origin final g "concat gs"] show ?case
    by (simp add: accepts_def)
qed simp

lemma fragment_end_loop_le: "fragment_end_loop t ps n \<le> n + length ps"
proof (induction ps arbitrary: n)
  case (Cons p ps)
  show ?case using Cons.IH [of "n + 1"] by simp
qed simp

lemma fragment_end_le: "start < length ps \<Longrightarrow> fragment_end ps start \<le> length ps"
  using fragment_end_loop_le [of "pk_timestamp_ns (ps ! start)" "drop (start + 1) ps" "start + 1"]
  by (simp add: fragment_end_def)

lemma write_video_fragments_spec:
  assumes "accepts sink" "clip_fits origin final (drop start ps)"
  shows "\<exists>gs. concat gs = drop start ps \<and> (\<forall>g \<in> set gs. g \<noteq> [])
    \<and> write_video_fragments sink ps origin start n w = (if rising origin final (drop start ps)
        then Inr (sadd n (length gs), cw_append (concat (map enc_item (video_items n origin final gs))) w)
        else Inl Mp4TimestampOverflow)"
  using assms(2)
proof (induction "length ps - start" arbitrary: start n w rule: less_induct)
  case less
  show ?case
  proof (cases "start < length ps")
    case True
    define stop where "stop = fragment_end ps start"
    have stop: "start < stop" "stop \<le> length ps"
      using fragment_end_gt fragment_end_le [OF True] by (simp_all add: stop_def)
    define g where "g = slice start (stop - start) ps"
    have split: "drop start ps = g @ drop stop ps" and g: "g \<noteq> []"
      using stop append_take_drop_id [of "stop - start" "drop start ps"] by (simp_all add: g_def slice_def)
    have fits: "clip_fits origin final (g @ drop stop ps)" using less.prems by (simp only: split)
    have nxt: "(if stop < length ps then Some (pk_timestamp_ns (ps ! stop)) else None)
        = (case drop stop ps of [] \<Rightarrow> None | q # _ \<Rightarrow> Some (pk_timestamp_ns q))"
      using stop by (auto simp: Cons_nth_drop_Suc [symmetric])
    note frag = write_fragment_of_clip [OF assms(1) fits g]
    let ?n = "saturating_add n 1"
    note loop = write_video_fragments.simps [of sink ps origin start n w, folded stop_def,
        unfolded Let_def, folded stop_def g_def]
    let ?w = "cw_append (enc_item (video_item ?n origin (next_time final (drop stop ps)) g)) w"
    have "length ps - stop < length ps - start" using stop by simp
    from less.hyps [OF this clip_fits_suffix [OF fits], of ?n ?w]
    obtain gs where gs: "concat gs = drop stop ps" "\<forall>g \<in> set gs. g \<noteq> []"
      "write_video_fragments sink ps origin stop ?n ?w = (if rising origin final (drop stop ps)
        then Inr (sadd ?n (length gs), cw_append (concat (map enc_item (video_items ?n origin final gs))) ?w)
        else Inl Mp4TimestampOverflow)" by blast
    show ?thesis
      using True gs g
      by (intro exI [of _ "g # gs"]) (simp add: loop nxt frag rising_parts split saturating_add_sadd)
  qed (intro exI [of _ "[]"], simp add: write_video_fragments.simps [of sink ps origin start])
qed

section \<open>Audio\<close>

text \<open>Audio times count samples at 48 kHz; a packet is 960 of them.\<close>

definition audio_ticks :: "u64 \<Rightarrow> u64 \<Rightarrow> nat" where
  "audio_ticks origin t = unat (t - origin) * 48000 div 1000000000"

definition audio_data :: "encoded_opus_packet list \<Rightarrow> run_sample list" where
  "audio_data ps = map (\<lambda>p. (960, 0, ao_bytes p)) ps"

definition audio_item :: "u32 \<Rightarrow> u32 \<Rightarrow> u64 \<Rightarrow> encoded_opus_packet list \<Rightarrow> mp4_item" where
  "audio_item sequence track origin ps =
     Fragment sequence track (audio_ticks origin (ao_timestamp_ns (hd ps))) False (audio_data ps)"

definition audio_sample :: "u32 \<Rightarrow> u64 \<Rightarrow> encoded_opus_packet \<Rightarrow> mp4_sample" where
  "audio_sample track origin p = \<lparr>sm_track = track, sm_time = audio_ticks origin (ao_timestamp_ns p),
     sm_duration = 960, sm_flags = 0, sm_bytes = ao_bytes p\<rparr>"

text \<open>Audio as the encoder produces it: packets of 20 ms, each starting where the one before it
  ended or, after a gap in the capture, more than 5 ms later.\<close>

definition continues :: "encoded_opus_packet \<Rightarrow> encoded_opus_packet \<Rightarrow> bool" where
  "continues p q \<longleftrightarrow> unat (ao_timestamp_ns q) = unat (ao_timestamp_ns p) + 20000000"

definition after_gap :: "encoded_opus_packet \<Rightarrow> encoded_opus_packet \<Rightarrow> bool" where
  "after_gap p q \<longleftrightarrow> unat (ao_timestamp_ns p) + 25000000 < unat (ao_timestamp_ns q)"

definition steady :: "encoded_opus_packet list \<Rightarrow> bool" where
  "steady ps \<longleftrightarrow> (\<forall>p \<in> set ps. ao_duration_ns p = 20000000) \<and> successively (\<lambda>p q. continues p q \<or> after_gap p q) ps"

definition audio_fits :: "u64 \<Rightarrow> encoded_opus_packet list \<Rightarrow> bool" where
  "audio_fits origin ps \<longleftrightarrow> length ps < 2 ^ 16 \<and> (\<forall>p \<in> set ps. length (ao_bytes p) \<le> 4096
     \<and> origin \<le> ao_timestamp_ns p \<and> unat (ao_timestamp_ns p - origin) \<le> 10 ^ 12)"

lemma audio_ticks_continues:
  assumes "continues p q" "origin \<le> ao_timestamp_ns p"
  shows "audio_ticks origin (ao_timestamp_ns q) = audio_ticks origin (ao_timestamp_ns p) + 960"
proof -
  have "unat (ao_timestamp_ns q - origin) = unat (ao_timestamp_ns p - origin) + 20000000"
    using assms by (simp add: continues_def unat_sub word_le_nat_alt)
  then have "audio_ticks origin (ao_timestamp_ns q) = (unat (ao_timestamp_ns p - origin) * 48000 + 960 * 1000000000) div 1000000000"
    by (simp add: audio_ticks_def algebra_simps)
  then show ?thesis by (simp add: audio_ticks_def)
qed

lemma timed_audio:
  "successively continues ps \<Longrightarrow> \<forall>p \<in> set ps. origin \<le> ao_timestamp_ns p \<Longrightarrow> ps \<noteq> [] \<Longrightarrow>
    timed track (audio_ticks origin (ao_timestamp_ns (hd ps))) (audio_data ps) = map (audio_sample track origin) ps"
proof (induction ps)
  case (Cons p ps)
  note ih = Cons.IH and prems = Cons.prems
  show ?case
  proof (cases ps)
    case (Cons q qs)
    with prems audio_ticks_continues [of p q origin]
    have "audio_ticks origin (ao_timestamp_ns p) + 960 = audio_ticks origin (ao_timestamp_ns q)" by simp
    with Cons ih prems show ?thesis by (simp add: audio_data_def audio_sample_def)
  qed (simp add: audio_data_def audio_sample_def)
qed simp

lemma length_audio_payload:
  "\<forall>p \<in> set ps. length (ao_bytes p) \<le> 4096 \<Longrightarrow> length (concat (map ao_bytes ps)) \<le> 4096 * length ps"
  by (induction ps) simp_all

lemma audio_run:
  "\<forall>p \<in> set ps. length (ao_bytes p) \<le> 4096 \<Longrightarrow>
    try_fold (\<lambda>trun packet. and_then (ok_or (try_from (length (ao_bytes packet))) Mp4ContainerTooLarge) (\<lambda>size.
        Inr (statements [put_u32 960, put_u32 size] trun))) trun ps
      = Inr (trun @ concat (map (run_entry False) (audio_data ps)))"
proof (induction ps arbitrary: trun)
  case (Cons p ps)
  have "length (ao_bytes p) < 2 ^ 32" "unat (word_of_nat (length (ao_bytes p)) :: u32) = length (ao_bytes p)"
    using Cons.prems by (simp_all add: unat_of_nat)
  with Cons show ?case
    by (simp add: try_from_def statements_def put_u32_def run_entry_def u32_to_be_bytes_def audio_data_def)
qed (simp add: audio_data_def)

lemma audio_moof_spec:
  assumes "audio_fits origin ps"
  shows "audio_moof sequence base ps offset track
    = Inr (enc_box (moof_box sequence track (unat base) (trun_contents False (audio_data ps) (unat offset))))"
proof -
  have n: "length ps < 2 ^ 16" "\<forall>p \<in> set ps. length (ao_bytes p) \<le> 4096" using assms by (simp_all add: audio_fits_def)
  have u: "unat (word_of_nat (length ps) :: u32) = length ps"
    "(try_from (length ps) :: u32 option) = Some (word_of_nat (length ps))"
    using n(1) by (simp_all add: unat_of_nat try_from_def)
  have "statements [put_u32 (word_of_nat (length ps)), put_u32 offset] (full_box 0 0x301)
      @ concat (map (run_entry False) (audio_data ps)) = trun_contents False (audio_data ps) (unat offset)"
    by (simp add: statements_def put_u32_def trun_contents_def u32_to_be_bytes_def u(1) audio_data_def)
  moreover have "length (trun_contents False (audio_data ps) (unat offset)) \<le> 2 ^ 31"
    using n(1) by (simp add: length_trun run_width_def audio_data_def)
  ultimately show ?thesis
    unfolding audio_moof_def u(2) ok_or_simps and_then_simps audio_run [OF n(2)] by (simp add: fragment_boxes_ok)
qed

lemma audio_item_ok:
  assumes "audio_fits origin ps" "ps \<noteq> []"
  shows "item_ok (audio_item sequence track origin ps)"
proof -
  have b: "unat (ao_timestamp_ns (hd ps) - origin) \<le> 10 ^ 12" "\<forall>p \<in> set ps. length (ao_bytes p) \<le> 4096"
    "length ps < 2 ^ 16" using assms by (auto simp: audio_fits_def)
  then have "audio_ticks origin (ao_timestamp_ns (hd ps)) < 2 ^ 64"
    by (simp add: audio_ticks_def div_less_iff_less_mult)
  moreover have "media_data (audio_data ps) = concat (map ao_bytes ps)"
    by (simp add: media_data_def audio_data_def comp_def)
  ultimately show ?thesis
    using b(3) length_audio_payload [OF b(2)] by (auto simp: audio_item_def audio_data_def)
qed

lemma write_audio_fragment_spec:
  assumes "accepts sink" "audio_fits origin ps" "ps \<noteq> []"
  shows "write_audio_fragment sink sequence origin ps track w
    = Inr (cw_append (enc_item (audio_item sequence track origin ps)) w)"
proof -
  let ?t = "ao_timestamp_ns (hd ps)" and ?ss = "audio_data ps"
  define x where "x = ?t - origin"
  have b: "origin \<le> ?t" "unat x \<le> 10 ^ 12" "\<forall>p \<in> set ps. length (ao_bytes p) \<le> 4096" "length ps < 2 ^ 16"
    using assms(2,3) by (auto simp: audio_fits_def x_def)
  have sub: "checked_sub ?t origin = Some x" using b(1) by (simp add: checked_sub_def x_def)
  have "unat x * unat (48000 :: u64) < 2 ^ 64" using b(2) by simp
  then have m: "checked_mul x 48000 = Some (x * 48000)" "unat (x * 48000 div 1000000000) = audio_ticks origin ?t"
    by (simp_all add: checked_mul_def audio_ticks_def unat_div unat_word_ariths flip: x_def)
  let ?moof = "\<lambda>n. enc_box (moof_box sequence track (audio_ticks origin ?t) (trun_contents False ?ss n))"
  have len: "length (?moof n) + 8 = data_start False ?ss" for n
    using length_moof(1) [of sequence track "audio_ticks origin ?t" "trun_contents False ?ss n"]
    by (subst length_enc_box) (simp_all add: length_trun data_start_def, simp add: moof_box_def)
  have off: "i32_try_from_len (data_start False ?ss) = Inr (word_of_nat (data_start False ?ss))"
    "unat (word_of_nat (data_start False ?ss) :: u32) = data_start False ?ss"
    using b(4) by (simp_all add: i32_try_from_len_def data_start_def run_width_def audio_data_def unat_of_nat
        del: of_nat_add of_nat_mult)
  have fits: "length (concat (map ao_bytes ps)) + 8 < 2 ^ 32" using length_audio_payload [OF b(3)] b(4) by simp
  have "write_audio_fragment sink sequence origin ps track w
      = and_then (mp4_write_all sink (?moof (data_start False ?ss)) w) (\<lambda>w.
          and_then (total_payload (map ao_bytes ps)) (\<lambda>n. and_then (write_box_header sink ''mdat'' n w)
            (\<lambda>w. try_fold (\<lambda>w p. mp4_write_all sink (ao_bytes p) w) w ps)))"
    unfolding write_audio_fragment_def sub bind.bind_lunit m option.map ok_or_simps and_then_simps
      audio_moof_spec [OF assms(2)] len off ..
  also have "\<dots> = Inr (cw_append (?moof (data_start False ?ss) @ enc_box (ascii ''mdat'', concat (map ao_bytes ps))) w)"
    using adds_seq [OF mp4_write_all_adds [OF assms(1)] write_media_adds [OF assms(1) fits]]
    by (rule addsD)
  finally show ?thesis by (simp add: audio_item_def media_data_def audio_data_def comp_def)
qed

text \<open>Inside an audio fragment every packet continues the one before it.\<close>

lemma audio_fragment_end_loop_spec:
  assumes "steady (previous # ps)" "start < stop" "unat (ao_timestamp_ns (last (previous # ps))) + 20000000 < 2 ^ 64"
  shows "\<exists>k \<le> length ps. audio_fragment_end_loop start previous ps stop = stop + k
    \<and> successively continues (previous # take k ps)"
  using assms
proof (induction ps arbitrary: previous stop)
  case (Cons p ps)
  have st: "steady (p # ps)" "continues previous p \<or> after_gap previous p" "ao_duration_ns previous = 20000000"
    using Cons.prems(1) by (simp_all add: steady_def)
  show ?case
  proof (cases "stop - start < 1500 \<and> continues previous p")
    case True
    obtain k where k: "k \<le> length ps" "audio_fragment_end_loop start p ps (stop + 1) = stop + 1 + k"
      "successively continues (p # take k ps)"
      using Cons.IH [OF st(1), of "stop + 1"] Cons.prems(2,3) by auto
    have "unat (ao_timestamp_ns p) = unat (ao_timestamp_ns previous) + 20000000" using True by (simp add: continues_def)
    then have "\<not> saturating_sub (ao_timestamp_ns p) (saturating_add (ao_timestamp_ns previous) (ao_duration_ns previous)) > 5000000"
      using unat_lt_2p [of "ao_timestamp_ns p"]
      by (simp add: word_less_nat_alt unat_saturating_sub unat_saturating_add st(3))
    with True k show ?thesis by (intro exI [of _ "Suc k"]) simp
  next
    case False
    have "after_gap previous p \<Longrightarrow> saturating_sub (ao_timestamp_ns p) (saturating_add (ao_timestamp_ns previous) (ao_duration_ns previous)) > 5000000"
      using unat_lt_2p [of "ao_timestamp_ns p"]
      by (simp add: after_gap_def word_less_nat_alt unat_saturating_sub unat_saturating_add st(3))
    with False st(2) show ?thesis by (intro exI [of _ 0]) auto
  qed
qed (intro exI [of _ 0], simp)

fun audio_items :: "u32 \<Rightarrow> u32 \<Rightarrow> u64 \<Rightarrow> encoded_opus_packet list list \<Rightarrow> mp4_item list" where
  "audio_items n track origin [] = []"
| "audio_items n track origin (g # gs) = audio_item (saturating_add n 1) track origin g
     # audio_items (saturating_add n 1) track origin gs"

definition audio_groups_ok :: "u64 \<Rightarrow> encoded_opus_packet list list \<Rightarrow> bool" where
  "audio_groups_ok origin gs \<longleftrightarrow> (\<forall>g \<in> set gs. g \<noteq> [] \<and> successively continues g \<and> audio_fits origin g)"

lemma audio_items_facts:
  assumes "audio_groups_ok origin gs"
  shows "concat (map item_samples (audio_items n track origin gs)) = map (audio_sample track origin) (concat gs)"
    "\<forall>i \<in> set (audio_items n track origin gs). item_ok i"
proof -
  have t: "timed track (audio_ticks origin (ao_timestamp_ns (hd g))) (audio_data g) = map (audio_sample track origin) g"
    if "g \<noteq> []" "successively continues g" "audio_fits origin g" for g
    using that by (intro timed_audio) (simp_all add: audio_fits_def)
  show "concat (map item_samples (audio_items n track origin gs)) = map (audio_sample track origin) (concat gs)"
    using assms by (induction gs arbitrary: n) (simp_all add: audio_groups_ok_def audio_item_def t)
  show "\<forall>i \<in> set (audio_items n track origin gs). item_ok i"
    using assms by (induction gs arbitrary: n) (simp_all add: audio_groups_ok_def audio_item_ok)
qed

lemma steady_drop: "steady ps \<Longrightarrow> steady (drop n ps)"
  unfolding steady_def by (metis append_take_drop_id in_set_dropD successively_append_iff)

text \<open>The first fragment of what remains, and the rest.\<close>

lemma audio_fragment_split:
  assumes "steady ps" "audio_fits origin ps" "start < length ps" "\<forall>p \<in> set ps. unat (ao_timestamp_ns p) + 20000000 < 2 ^ 64"
  defines "stop \<equiv> audio_fragment_end ps start"
  defines "g \<equiv> slice start (stop - start) ps"
  shows "drop start ps = g @ drop stop ps" "stop \<le> length ps" "g \<noteq> []" "successively continues g" "audio_fits origin g"
proof -
  have split: "drop start ps = ps ! start # drop (start + 1) ps" using assms(3) by (simp add: Cons_nth_drop_Suc)
  have "last (drop start ps) \<in> set ps" using assms(3) by (intro in_set_dropD [OF last_in_set]) simp
  then have "unat (ao_timestamp_ns (last (drop start ps))) + 20000000 < 2 ^ 64" using assms(4) by blast
  then obtain k where k: "k \<le> length ps - (start + 1)" "stop = start + 1 + k"
    "successively continues (ps ! start # take k (drop (start + 1) ps))"
    using audio_fragment_end_loop_spec [of "ps ! start" "drop (start + 1) ps" start "start + 1"]
      steady_drop [OF assms(1), of start] unfolding split stop_def audio_fragment_end_def by auto
  have g: "g = ps ! start # take k (drop (start + 1) ps)"
    unfolding g_def slice_def split k(2) by simp
  show "stop \<le> length ps" using k(1,2) assms(3) by simp
  show "g \<noteq> []" "successively continues g" using k(3) by (simp_all add: g)
  show "drop start ps = g @ drop stop ps" unfolding g split k(2)
    using append_take_drop_id [of k "drop (start + 1) ps"] by (simp add: add.commute)
  have "set g \<subseteq> set ps" "length g \<le> length ps"
    using assms(3) by (auto simp: g_def slice_def dest: in_set_takeD in_set_dropD)
  then show "audio_fits origin g" using assms(2) by (auto simp: audio_fits_def)
qed

lemma write_audio_fragments_spec:
  assumes "accepts sink" "steady ps" "audio_fits origin ps" "\<forall>p \<in> set ps. unat (ao_timestamp_ns p) + 20000000 < 2 ^ 64"
  shows "\<exists>gs. concat gs = drop start ps \<and> audio_groups_ok origin gs
    \<and> write_audio_fragments sink origin ps track start (n, w)
      = Inr (sadd n (length gs), cw_append (concat (map enc_item (audio_items n track origin gs))) w)"
proof (induction "length ps - start" arbitrary: start n w rule: less_induct)
  case less
  show ?case
  proof (cases "start < length ps")
    case True
    define stop where "stop = audio_fragment_end ps start"
    define g where "g = slice start (stop - start) ps"
    note split = audio_fragment_split [OF assms(2,3) True assms(4), folded stop_def, folded g_def]
    let ?n = "saturating_add n 1"
    let ?w = "cw_append (enc_item (audio_item ?n track origin g)) w"
    have "length ps - stop < length ps - start" using split(2) audio_fragment_end_gt [of start ps] by (simp add: stop_def)
    from less.hyps [OF this, of ?n ?w]
    obtain gs where gs: "concat gs = drop stop ps" "audio_groups_ok origin gs"
      "write_audio_fragments sink origin ps track stop (?n, ?w)
        = Inr (sadd ?n (length gs), cw_append (concat (map enc_item (audio_items ?n track origin gs))) ?w)" by blast
    have "audio_groups_ok origin (g # gs)" using gs(2) split(3-5) by (simp add: audio_groups_ok_def)
    with gs True show ?thesis
      using write_audio_fragment_spec [OF assms(1) split(5,3)]
      by (intro exI [of _ "g # gs"])
        (simp add: write_audio_fragments.simps [of sink origin ps track start] Let_def split(1) saturating_add_sadd
          flip: stop_def g_def)
  qed (intro exI [of _ "[]"], simp add: write_audio_fragments.simps [of sink origin ps track start] audio_groups_ok_def)
qed

end
