(* ===== verification/Mp4_Files.thy ===== *)
theory Mp4_Files
  imports Mp4_Clips
begin

text \<open>
  Complete MP4 files: what a reader gets from the output of the video-only writer, of the writer
  with audio tracks, and of the streaming writer.
\<close>

section \<open>Whole files\<close>

lemma clip_of_ring:
  assumes "ring_inv r" "rr_packets r \<noteq> []" "unat (rr_duration_limit_ns r) \<le> 900 * 10 ^ 9"
    and "unat stop = unat (pk_timestamp_ns (last (rr_packets r))) + unat (pk_duration_ns (last (rr_packets r)))"
  shows "clip_fits (pk_timestamp_ns (hd (rr_packets r))) stop (rr_packets r)"
    "checked_add (pk_timestamp_ns (last (rr_packets r))) (pk_duration_ns (last (rr_packets r))) = Some stop"
    "checked_sub stop (pk_timestamp_ns (hd (rr_packets r))) = Some (stop - pk_timestamp_ns (hd (rr_packets r)))"
    "unat (stop - pk_timestamp_ns (hd (rr_packets r))) = unat stop - unat (pk_timestamp_ns (hd (rr_packets r)))"
    "unat stop - unat (pk_timestamp_ns (hd (rr_packets r))) \<le> 900 * 10 ^ 9"
proof -
  let ?ps = "rr_packets r" and ?o = "pk_timestamp_ns (hd (rr_packets r))"
  note facts = ring_packets_facts [OF assms(1,2)]
  obtain stop' where e: "checked_add (pk_timestamp_ns (last ?ps)) (pk_duration_ns (last ?ps)) = Some stop'"
    "unat stop' = unat (pk_timestamp_ns (last ?ps)) + unat (pk_duration_ns (last ?ps))" "?o \<le> stop'"
    using ring_clip_end [OF assms(1,2)] by blast
  then have [simp]: "stop' = stop" using assms(4) by (simp add: word_eq_iff_unat)
  show add: "checked_add (pk_timestamp_ns (last ?ps)) (pk_duration_ns (last ?ps)) = Some stop" using e(1) by simp
  show "checked_sub stop ?o = Some (stop - ?o)" and sub: "unat (stop - ?o) = unat stop - unat ?o"
    using e(3) by (simp_all add: checked_sub_def unat_sub)
  have "\<not> span_exceeds ?ps (rr_duration_limit_ns r)" using assms(1) by (simp add: ring_inv_def within_limits_def)
  then show span: "unat stop - unat ?o \<le> 900 * 10 ^ 9"
    using assms(2-4) unat_lt_2p [of stop]
    by (simp add: span_exceeds_def history_span_def word_less_nat_alt unat_saturating_sub unat_saturating_add)
  have ok: "\<forall>p \<in> set ?ps. packet_ok p" using assms(1) by (simp add: ring_inv_def)
  then have "\<forall>p \<in> set ?ps. length (pk_bytes p) \<le> 8388608" by (simp add: packet_ok_iff)
  moreover have "sorted (map pk_timestamp_ns ?ps @ [stop])"
  proof -
    have s: "sorted (map pk_timestamp_ns ?ps)" using facts(1) by (simp add: comp_def)
    have "pk_timestamp_ns p \<le> pk_timestamp_ns (last ?ps)" if "p \<in> set ?ps" for p
      using s that assms(2) by (cases ?ps rule: rev_cases) (auto simp: sorted_append)
    moreover have "pk_timestamp_ns (last ?ps) \<le> stop" using assms(4) by (simp add: word_le_nat_alt)
    ultimately show ?thesis using s by (auto simp: sorted_append intro: order_trans)
  qed
  moreover have "payload ?ps \<le> 268435456"
    using assms(1) ring_config_nat [of r] by (simp add: ring_inv_def within_limits_def)
  ultimately show "clip_fits ?o stop ?ps"
    using facts(3,5) e(3) span add sub by (simp add: clip_fits_def clip_times_def clip_ends_def)
qed

lemma mp4_validated:
  "\<forall>p \<in> set ps. validate_packet stream (pk_bytes p) = Inr () \<Longrightarrow>
    try_all (\<lambda>p. map_err (\<lambda>_. Mp4InvalidPacket) (validate_packet stream (pk_bytes p))) ps = Inr ()"
  by (induction ps) simp_all

text \<open>The items an operation writes and the samples a reader gets from them.\<close>

definition writes_items :: "(u32 \<times> counting_writer \<Rightarrow> mp4_error + (u32 \<times> counting_writer)) \<Rightarrow> mp4_sample list \<Rightarrow> bool" where
  "writes_items f samples \<longleftrightarrow> (\<forall>n w. \<exists>n' items. f (n, w) = Inr (n', cw_append (concat (map enc_item items)) w)
     \<and> (\<forall>i \<in> set items. item_ok i) \<and> concat (map item_samples items) = samples)"

lemma writes_itemsE:
  assumes "writes_items f samples"
  obtains n' items where "f (n, w) = Inr (n', cw_append (concat (map enc_item items)) w)"
    "\<forall>i \<in> set items. item_ok i" "concat (map item_samples items) = samples"
  using assms unfolding writes_items_def by blast

lemma writes_items_seq:
  assumes "writes_items f ss" "writes_items g ts"
  shows "writes_items (\<lambda>st. and_then (f st) g) (ss @ ts)"
  unfolding writes_items_def
proof (intro allI)
  fix n w
  obtain n1 xs where xs: "f (n, w) = Inr (n1, cw_append (concat (map enc_item xs)) w)" "\<forall>i \<in> set xs. item_ok i"
    "concat (map item_samples xs) = ss" using assms(1) by (rule writes_itemsE)
  obtain n2 ys where ys: "g (n1, cw_append (concat (map enc_item xs)) w)
      = Inr (n2, cw_append (concat (map enc_item ys)) (cw_append (concat (map enc_item xs)) w))"
    "\<forall>i \<in> set ys. item_ok i" "concat (map item_samples ys) = ts" using assms(2) by (rule writes_itemsE)
  show "\<exists>n' items. and_then (f (n, w)) g = Inr (n', cw_append (concat (map enc_item items)) w)
      \<and> (\<forall>i \<in> set items. item_ok i) \<and> concat (map item_samples items) = ss @ ts"
    using xs ys by (intro exI [of _ n2] exI [of _ "xs @ ys"]) auto
qed

lemma video_part:
  assumes "accepts sink" "clip_fits origin stop ps"
  shows "if rising origin stop ps
    then writes_items (\<lambda>(n, w). write_video_fragments sink ps origin 0 n w) (video_samples origin stop ps)
    else write_video_fragments sink ps origin 0 n w = Inl Mp4TimestampOverflow"
proof -
  have "\<exists>gs. concat gs = ps \<and> (\<forall>g \<in> set gs. g \<noteq> []) \<and> write_video_fragments sink ps origin 0 n w
      = (if rising origin stop ps then Inr (sadd n (length gs), cw_append (concat (map enc_item (video_items n origin stop gs))) w)
         else Inl Mp4TimestampOverflow)" for n w
    using write_video_fragments_spec [OF assms(1), of origin stop 0 ps n w] assms(2) by simp
  then show ?thesis
    using video_items_samples [of origin stop] video_items_ok [of origin stop] assms(2)
    unfolding writes_items_def by (simp split: if_split) metis
qed

lemma audio_part:
  assumes "accepts sink" "steady ps" "audio_fits origin ps" "\<forall>p \<in> set ps. unat (ao_timestamp_ns p) + 20000000 < 2 ^ 64"
  shows "writes_items (write_audio_fragments sink origin ps track 0) (map (audio_sample track origin) ps)"
  unfolding writes_items_def
proof (intro allI)
  fix n w
  obtain gs where "concat gs = ps" "audio_groups_ok origin gs"
    "write_audio_fragments sink origin ps track 0 (n, w)
      = Inr (sadd n (length gs), cw_append (concat (map enc_item (audio_items n track origin gs))) w)"
    using write_audio_fragments_spec [OF assms, of 0 track n w] by auto
  then show "\<exists>n' items. write_audio_fragments sink origin ps track 0 (n, w) = Inr (n', cw_append (concat (map enc_item items)) w)
      \<and> (\<forall>i \<in> set items. item_ok i) \<and> concat (map item_samples items) = map (audio_sample track origin) ps"
    using audio_items_facts [of origin gs n track] by blast
qed

text \<open>A file is its two header boxes and what the fragment writers add to them.\<close>

lemma file_of_items:
  assumes "writes_items f samples" "item_ok (Header (ascii ''ftyp'') a)" "item_ok (Header (ascii ''moov'') b)"
  obtains n w where
    "f (0, cw_append (enc_item (Header (ascii ''moov'') b)) (cw_append (enc_item (Header (ascii ''ftyp'') a)) counting_writer_new)) = Inr (n, w)"
    "demux_mp4 (cw_contents w) = Some samples" "unat (cw_written w) = min (length (cw_contents w)) (2 ^ 64 - 1)"
proof -
  let ?w = "cw_append (enc_item (Header (ascii ''moov'') b)) (cw_append (enc_item (Header (ascii ''ftyp'') a)) counting_writer_new)"
  obtain n items where i: "f (0, ?w) = Inr (n, cw_append (concat (map enc_item items)) ?w)"
    "\<forall>i \<in> set items. item_ok i" "concat (map item_samples items) = samples"
    using assms(1) by (rule writes_itemsE)
  let ?items = "[Header (ascii ''ftyp'') a, Header (ascii ''moov'') b] @ items"
  have "demux_mp4 (concat (map enc_item ?items)) = Some (concat (map item_samples ?items))"
    using i(2) assms(2,3) by (intro demux_items) (simp del: item_ok.simps)
  then have "demux_mp4 (cw_contents (cw_append (concat (map enc_item items)) ?w)) = Some samples"
    using i(3) by (simp add: cw_append_def counting_writer_new_def)
  moreover have "unat (cw_written (cw_append (concat (map enc_item items)) ?w))
      = min (length (cw_contents (cw_append (concat (map enc_item items)) ?w))) (2 ^ 64 - 1)"
    by (simp add: cw_append_def counting_writer_new_def unat_sadd)
  ultimately show thesis using i(1) by (rule that [rotated])
qed

text \<open>C26: An MP4 clip holds the whole history of the ring without drift. For a ring of at most 900 seconds, an H.264
  stream with width and height below 65536 and a codec header of at most 65536 bytes whose packets all pass the
  framing check, and a destination that accepts writes, the video-only writer succeeds exactly when every packet starts in an earlier
  microsecond of the clip than the next one and the last one ends in a later microsecond than it starts. A reader of
  the file then gets every packet in order with its bytes and its sync flag, at its time in microseconds from the
  first packet rounded down once, each sample lasting to the start of the next one and the last to the end of the
  clip. Otherwise the writer reports the timestamp error and no file is claimed.\<close>

theorem mp4_video_clip_demux:
  assumes "ring_inv r" "rr_packets r \<noteq> []" "unat (rr_duration_limit_ns r) \<le> 900 * 10 ^ 9"
    and "accepts sink" "mp4_stream_ok stream"
    and "\<forall>p \<in> set (rr_packets r). validate_packet stream (pk_bytes p) = Inr ()"
    and "unat stop = unat (pk_timestamp_ns (last (rr_packets r))) + unat (pk_duration_ns (last (rr_packets r)))"
  shows "let origin = pk_timestamp_ns (hd (rr_packets r)) in
    if rising origin stop (rr_packets r)
    then \<exists>summary bytes. write_video_only_mp4 sink stream r = Inr (summary, bytes)
      \<and> demux_mp4 bytes = Some (video_samples origin stop (rr_packets r))
      \<and> unat (m4_packets summary) = length (rr_packets r)
      \<and> unat (m4_duration_ns summary) = unat stop - unat origin
      \<and> unat (m4_bytes_written summary) = min (length bytes) (2 ^ 64 - 1)
    else write_video_only_mp4 sink stream r = Inl Mp4TimestampOverflow"
proof -
  let ?ps = "rr_packets r" and ?o = "pk_timestamp_ns (hd (rr_packets r))"
  note clip = clip_of_ring [OF assms(1-3,7)]
  note facts = ring_packets_facts [OF assms(1,2)]
  obtain f m where f: "ftyp = Inr (enc_item (Header (ascii ''ftyp'') f))" "item_ok (Header (ascii ''ftyp'') f)"
    and m: "moov stream = Inr (enc_item (Header (ascii ''moov'') m))" "item_ok (Header (ascii ''moov'') m)"
    using ftyp_item moov_item [OF assms(5)] by blast
  have codec: "vs_codec stream = H264" using assms(5) by (simp add: mp4_stream_ok_def)
  note start = write_video_only_mp4_def [of sink stream r, unfolded Let_def mp4_validated [OF assms(6)] f(1) m(1)
      and_then_simps addsD [OF mp4_write_all_adds [OF assms(4)]]]
  show ?thesis
  proof (cases "rising ?o stop ?ps")
    case True
    then have "writes_items (\<lambda>(n, w). write_video_fragments sink ?ps ?o 0 n w) (video_samples ?o stop ?ps)"
      using video_part [OF assms(4) clip(1)] by simp
    from file_of_items [OF this f(2) m(2)] obtain n w where w:
      "write_video_fragments sink ?ps ?o 0 0 (cw_append (enc_item (Header (ascii ''moov'') m))
        (cw_append (enc_item (Header (ascii ''ftyp'') f)) counting_writer_new)) = Inr (n, w)"
      "demux_mp4 (cw_contents w) = Some (video_samples ?o stop ?ps)"
      "unat (cw_written w) = min (length (cw_contents w)) (2 ^ 64 - 1)" by auto
    have "unat (unwrap_or (try_from (length ?ps)) (- 1) :: u32) = length ?ps"
      using facts(5) by (simp add: unat_try_from_max)
    then show ?thesis
      using True w clip(2-4) assms(2) facts(4) codec by (simp add: start Let_def)
  next
    case False
    then show ?thesis
      using video_part [OF assms(4) clip(1)] assms(2) facts(4) codec by (simp add: start Let_def)
  qed
qed

text \<open>The audio packets of a clip can be written, whatever the track.\<close>

lemma clip_audio_fits:
  assumes "list_all (\<lambda>p. \<not> invalid_audio_packet p) ps" "length ps \<le> MAX_AUDIO_PACKETS"
    and "unat stop - unat origin \<le> 900 * 10 ^ 9"
  shows "audio_fits origin (filter (in_window origin stop) ps)"
    "\<not> list_ex oversized_audio_packet (filter (in_window origin stop) ps)"
    "\<forall>p \<in> set (filter (in_window origin stop) ps). ao_duration_ns p \<noteq> 0"
proof -
  have "unat (ao_timestamp_ns p - origin) \<le> 10 ^ 12" if "in_window origin stop p" for p
    using that assms(3) by (simp add: in_window_def unat_sub word_le_nat_alt word_less_nat_alt; linarith)
  moreover have "length (filter (in_window origin stop) ps) < 2 ^ 16"
    using assms(2) by (intro le_less_trans [OF length_filter_le]) (simp add: MAX_AUDIO_PACKETS_def)
  ultimately show "audio_fits origin (filter (in_window origin stop) ps)"
    using assms(1) by (auto simp: audio_fits_def invalid_audio_packet_def list_all_iff in_window_def)
  show "\<not> list_ex oversized_audio_packet (filter (in_window origin stop) ps)"
    "\<forall>p \<in> set (filter (in_window origin stop) ps). ao_duration_ns p \<noteq> 0"
    using assms(1) by (auto simp: list_ex_iff list_all_iff invalid_audio_packet_def oversized_audio_packet_def)
qed

lemma steady_ends:
  assumes "list_all (\<lambda>p. \<not> invalid_audio_packet p) ps" "steady (filter P ps)"
  shows "\<forall>p \<in> set (filter P ps). unat (ao_timestamp_ns p) + 20000000 < 2 ^ 64"
  using assms by (auto simp: list_all_iff invalid_audio_packet_def steady_def checked_add_def split: if_splits)

lemma clip_audio_part:
  assumes "accepts sink" "audio_ok audio" "unat stop - unat origin \<le> 900 * 10 ^ 9"
    and "steady (filter (in_window origin stop) (as_packets (at_system audio)))"
    and "steady (filter (in_window origin stop) (microphone_packets audio))"
  defines "system \<equiv> filter (in_window origin stop) (as_packets (at_system audio))"
    and "microphone \<equiv> filter (in_window origin stop) (microphone_packets audio)"
  shows "writes_items (\<lambda>st. and_then (write_audio_fragments sink origin system AUDIO_TRACK_ID 0 st)
      (write_audio_fragments sink origin microphone MICROPHONE_TRACK_ID 0))
      (map (audio_sample 2 origin) system @ map (audio_sample 3 origin) microphone)"
    "\<not> list_ex oversized_audio_packet (system @ microphone)"
proof -
  have s: "list_all (\<lambda>p. \<not> invalid_audio_packet p) (as_packets (at_system audio))"
    "length (as_packets (at_system audio)) \<le> MAX_AUDIO_PACKETS"
    and m: "list_all (\<lambda>p. \<not> invalid_audio_packet p) (microphone_packets audio)"
    "length (microphone_packets audio) \<le> MAX_AUDIO_PACKETS"
    using assms(2) by (simp_all add: audio_ok_def)
  note fits = clip_audio_fits [OF s assms(3)] clip_audio_fits [OF m assms(3)]
  show "\<not> list_ex oversized_audio_packet (system @ microphone)"
    using fits(2,5) by (simp add: system_def microphone_def)
  show "writes_items (\<lambda>st. and_then (write_audio_fragments sink origin system AUDIO_TRACK_ID 0 st)
      (write_audio_fragments sink origin microphone MICROPHONE_TRACK_ID 0))
      (map (audio_sample 2 origin) system @ map (audio_sample 3 origin) microphone)"
    using writes_items_seq [OF audio_part [OF assms(1,4) fits(1) steady_ends [OF s(1) assms(4)], of AUDIO_TRACK_ID]
        audio_part [OF assms(1,5) fits(4) steady_ends [OF m(1) assms(5)], of MICROPHONE_TRACK_ID]]
    by (simp add: system_def microphone_def AUDIO_TRACK_ID_def MICROPHONE_TRACK_ID_def)
qed

text \<open>C27: An MP4 clip with sound keeps picture and sound in step. For a ring of at most 900 seconds, an H.264 stream
  with width and height below 65536 and a codec header of at most 65536 bytes whose packets all pass the framing
  check, a destination that accepts writes, and audio as the encoder produces it (at most 45000 valid packets on a
  track, codec headers of at most 65536 bytes, and inside the clip packets of 20 ms, each continuing the one before or
  following a gap), the writer succeeds under the same condition as the video-only writer. A reader then gets the video samples at
  their exact microseconds and every system and microphone packet that starts inside the clip on its own
  track, at its exact 48 kHz sample position, also after gaps in the capture.\<close>

theorem mp4_audio_video_clip_demux:
  fixes audio :: replay_audio_tracks
  defines "clip_audio \<equiv> \<lambda>origin stop ps. filter (in_window origin stop) ps"
  assumes "ring_inv r" "rr_packets r \<noteq> []" "unat (rr_duration_limit_ns r) \<le> 900 * 10 ^ 9"
    and "accepts sink" "mp4_stream_ok stream" "audio_ok audio"
    and "\<forall>p \<in> set (rr_packets r). validate_packet stream (pk_bytes p) = Inr ()"
    and "unat stop = unat (pk_timestamp_ns (last (rr_packets r))) + unat (pk_duration_ns (last (rr_packets r)))"
    and "steady (clip_audio (pk_timestamp_ns (hd (rr_packets r))) stop (as_packets (at_system audio)))"
    and "steady (clip_audio (pk_timestamp_ns (hd (rr_packets r))) stop (microphone_packets audio))"
  shows "let origin = pk_timestamp_ns (hd (rr_packets r)) in
    if rising origin stop (rr_packets r)
    then \<exists>summary bytes. write_audio_video_mp4_tracks sink stream r audio = Inr (summary, bytes)
      \<and> demux_mp4 bytes = Some (video_samples origin stop (rr_packets r)
          @ map (audio_sample 2 origin) (clip_audio origin stop (as_packets (at_system audio)))
          @ map (audio_sample 3 origin) (clip_audio origin stop (microphone_packets audio)))
      \<and> unat (m4_duration_ns summary) = unat stop - unat origin
      \<and> unat (m4_bytes_written summary) = min (length bytes) (2 ^ 64 - 1)
    else write_audio_video_mp4_tracks sink stream r audio = Inl Mp4TimestampOverflow"
proof -
  let ?ps = "rr_packets r" and ?o = "pk_timestamp_ns (hd (rr_packets r))"
  let ?as = "filter (in_window ?o stop) (as_packets (at_system audio))"
  let ?ms = "filter (in_window ?o stop) (microphone_packets audio)"
  note clip = clip_of_ring [OF assms(2-4,9)]
  note facts = ring_packets_facts [OF assms(2,3)]
  note sounds = clip_audio_part [OF assms(5,7) clip(5) assms(10,11) [unfolded clip_audio_def]]
  obtain f m where f: "ftyp = Inr (enc_item (Header (ascii ''ftyp'') f))" "item_ok (Header (ascii ''ftyp'') f)"
    and m: "moov_with_audio_tracks stream audio = Inr (enc_item (Header (ascii ''moov'') m))"
      "item_ok (Header (ascii ''moov'') m)"
    using ftyp_item moov_with_audio_tracks_item [OF assms(6)] by blast
  have codec: "vs_codec stream = H264" using assms(6) by (simp add: mp4_stream_ok_def)
  note start = write_audio_video_mp4_tracks_def [of sink stream r audio, unfolded Let_def mp4_validated [OF assms(8)]
      clip(2) f(1) m(1) ok_or_simps and_then_simps addsD [OF mp4_write_all_adds [OF assms(5)]]]
  show ?thesis
  proof (cases "rising ?o stop ?ps")
    case True
    then have "writes_items (\<lambda>(n, w). write_video_fragments sink ?ps ?o 0 n w) (video_samples ?o stop ?ps)"
      using video_part [OF assms(5) clip(1)] by simp
    from file_of_items [OF writes_items_seq [OF this sounds(1)] f(2) m(2)] obtain n w where w:
      "and_then (write_video_fragments sink ?ps ?o 0 0 (cw_append (enc_item (Header (ascii ''moov'') m))
        (cw_append (enc_item (Header (ascii ''ftyp'') f)) counting_writer_new)))
        (\<lambda>st. and_then (write_audio_fragments sink ?o ?as AUDIO_TRACK_ID 0 st)
           (write_audio_fragments sink ?o ?ms MICROPHONE_TRACK_ID 0)) = Inr (n, w)"
      "demux_mp4 (cw_contents w) = Some (video_samples ?o stop ?ps @ map (audio_sample 2 ?o) ?as @ map (audio_sample 3 ?o) ?ms)"
      "unat (cw_written w) = min (length (cw_contents w)) (2 ^ 64 - 1)" by auto
    then show ?thesis
      using True assms(3) facts(4) codec sounds(2)
      by (auto simp: start Let_def and_then_Inr clip_audio_def unat_saturating_sub)
  next
    case False
    then show ?thesis
      using video_part [OF assms(5) clip(1)] assms(3) facts(4) codec sounds(2) by (simp add: start Let_def)
  qed
qed

section \<open>Witnesses\<close>

definition h264_packet :: "u64 \<Rightarrow> bool \<Rightarrow> encoded_replay_packet" where
  "h264_packet t k = \<lparr>pk_timestamp_ns = t, pk_duration_ns = 16000000, pk_keyframe = k, pk_bytes = [0, 0, 0, 1, 0x65]\<rparr>"

definition h264_ring :: replay_ring where
  "h264_ring = sample_ring\<lparr>rr_packets := [h264_packet 1000 True, h264_packet 16668000 False],
     rr_last_timestamp_ns := Some 16668000, rr_stored_bytes := 10\<rparr>"

definition h264_stream :: replay_video_stream where
  "h264_stream = \<lparr>vs_codec = H264, vs_packet_format = H264LengthPrefixed4, vs_width = 640, vs_height = 480,
     vs_frames_per_second = 60, vs_codec_private = [1]\<rparr>"

definition steady_audio :: replay_audio_tracks where
  "steady_audio = \<lparr>at_system = \<lparr>as_stream = opus_default,
      as_packets = [sample_opus 1000, sample_opus 20001000, sample_opus 90000000]\<rparr>, at_microphone = None\<rparr>"

lemma h264_ring_facts:
  "rr_packets h264_ring = [h264_packet 1000 True, h264_packet 16668000 False]"
  "ring_inv h264_ring" "rr_packets h264_ring \<noteq> []" "unat (rr_duration_limit_ns h264_ring) \<le> 900 * 10 ^ 9"
  "accepts accepting" "mp4_stream_ok h264_stream"
  "\<forall>p \<in> set (rr_packets h264_ring). validate_packet h264_stream (pk_bytes p) = Inr ()"
  "rising 1000 32668000 (rr_packets h264_ring)"
proof -
  show ps: "rr_packets h264_ring = [h264_packet 1000 True, h264_packet 16668000 False]"
    and "rr_packets h264_ring \<noteq> []" by (simp_all add: h264_ring_def)
  have "ring_config h264_ring" using sample_ring_inv by (simp add: ring_inv_def ring_config_def h264_ring_def)
  then show "ring_inv h264_ring"
    by (simp add: ring_inv_def ps packet_ok_iff timestamps_increase_def keyframe_start_def within_limits_def
        h264_packet_def sample_ring_limits span_exceeds_def history_span_def saturating_sub_def saturating_add_def)
      (simp add: h264_ring_def sample_ring_limits)
  show "unat (rr_duration_limit_ns h264_ring) \<le> 900 * 10 ^ 9" by (simp add: h264_ring_def sample_ring_limits)
  show "accepts accepting" by (rule sample_clip_facts(3))
  show "mp4_stream_ok h264_stream" by (simp add: mp4_stream_ok_def h264_stream_def)
  have "h264_units_loop [0, 0, 0, 1, 0x65] 0 = Inr 1"
    by (simp add: h264_units_loop.simps u32_from_be_bytes_def nat_of_be_def saturating_add_def)
  then show "\<forall>p \<in> set (rr_packets h264_ring). validate_packet h264_stream (pk_bytes p) = Inr ()"
    by (simp add: ps validate_packet_def h264_stream_def h264_packet_def validate_h264_packet_def)
  show "rising 1000 32668000 (rr_packets h264_ring)"
    by (simp add: ps h264_packet_def clip_us_def next_time_def)
qed

lemma h264_end:
  "unat (32668000 :: u64) = unat (pk_timestamp_ns (last (rr_packets h264_ring))) + unat (pk_duration_ns (last (rr_packets h264_ring)))"
  "pk_timestamp_ns (hd (rr_packets h264_ring)) = 1000"
  by (simp_all add: h264_ring_facts(1) h264_packet_def)

lemma steady_audio_facts:
  "audio_ok steady_audio" "filter (in_window 1000 32668000) (as_packets (at_system steady_audio)) = [sample_opus 1000, sample_opus 20001000]"
  "filter (in_window 1000 32668000) (microphone_packets steady_audio) = []"
  "steady [sample_opus 1000, sample_opus 20001000]" "steady []"
  by (simp_all add: audio_ok_def steady_audio_def microphone_packets_def MAX_AUDIO_PACKETS_def sample_opus_def
      invalid_audio_packet_def checked_add_def opus_default_def in_window_def steady_def continues_def)

definition h264_samples :: "mp4_sample list" where
  "h264_samples = [\<lparr>sm_track = 1, sm_time = 0, sm_duration = 16667, sm_flags = 0x02000000, sm_bytes = [0, 0, 0, 1, 0x65]\<rparr>,
     \<lparr>sm_track = 1, sm_time = 16667, sm_duration = 16000, sm_flags = 0x01010000, sm_bytes = [0, 0, 0, 1, 0x65]\<rparr>]"

definition opus_samples :: "mp4_sample list" where
  "opus_samples = [\<lparr>sm_track = 2, sm_time = 0, sm_duration = 960, sm_flags = 0, sm_bytes = [7, 7]\<rparr>,
     \<lparr>sm_track = 2, sm_time = 960, sm_duration = 960, sm_flags = 0, sm_bytes = [7, 7]\<rparr>]"

lemma sample_lists:
  "video_samples 1000 32668000 (rr_packets h264_ring) = h264_samples"
  "map (audio_sample 2 1000) [sample_opus 1000, sample_opus 20001000] = opus_samples"
  by (simp_all add: h264_ring_facts(1) h264_packet_def h264_samples_def opus_samples_def clip_us_def next_time_def
      sync_flags_def audio_sample_def audio_ticks_def sample_opus_def)

theorem mp4_video_clip_demux_witness:
  "\<exists>summary bytes. write_video_only_mp4 accepting h264_stream h264_ring = Inr (summary, bytes)
     \<and> demux_mp4 bytes = Some h264_samples \<and> unat (m4_packets summary) = 2"
  using mp4_video_clip_demux [OF h264_ring_facts(2-7) h264_end(1)] h264_ring_facts(8)
  by (auto simp: Let_def h264_end(2) sample_lists(1)) (simp add: h264_ring_facts(1))

theorem mp4_audio_video_clip_demux_witness:
  "\<exists>summary bytes. write_audio_video_mp4_tracks accepting h264_stream h264_ring steady_audio = Inr (summary, bytes)
     \<and> demux_mp4 bytes = Some (h264_samples @ opus_samples)"
  using mp4_audio_video_clip_demux [OF h264_ring_facts(2-6) steady_audio_facts(1) h264_ring_facts(7) h264_end(1)]
    h264_ring_facts(8) sample_lists(2)
  by (simp add: Let_def h264_end(2) sample_lists(1) steady_audio_facts) blast

end
