(* ===== verification/Mp4_Streaming.thy ===== *)
theory Mp4_Streaming
  imports Mp4_Files
begin

text \<open>
  The streaming MP4 writer cuts fragments by size as well as by time and asks the packet source for
  cancellation between packets. Without a cancellation a reader gets from its output exactly the
  samples of the other writers.
\<close>

section \<open>Video\<close>

lemma video_items_append:
  "video_items n origin final (gs @ hs) = video_items n origin (next_time final (concat hs)) gs
    @ video_items (sadd n (length gs)) origin final hs"
  by (induction gs arbitrary: n) (simp_all add: next_time_concat saturating_add_sadd)

lemma increment_saturates: "unat n + 1 < 2 ^ 32 \<Longrightarrow> (n :: u32) + 1 = saturating_add n 1"
  by (simp add: saturating_add_def)

lemma next_packet_uncancelled:
  assumes "uncancelled src"
  shows "mp_packets src = [] \<Longrightarrow> next_packet src = Inr (None, src\<lparr>mp_loads := Suc (mp_loads src)\<rparr>)"
    "mp_packets src = p # qs \<Longrightarrow> next_packet src = Inr (Some p, src\<lparr>mp_loads := Suc (mp_loads src), mp_packets := qs\<rparr>)"
  using assms by (simp_all add: next_packet_def check_cancel_def uncancelled_def)

text \<open>What the loop leaves: the groups it wrote and a last chunk.\<close>

definition loop_outcome :: "sink \<Rightarrow> u64 \<Rightarrow> u64 \<Rightarrow> encoded_replay_packet list \<Rightarrow> nat \<Rightarrow> u32 \<Rightarrow> counting_writer \<Rightarrow>
    mp4_error + (memory_packets \<times> encoded_replay_packet list \<times> u32 \<times> counting_writer) \<Rightarrow> bool" where
  "loop_outcome sink origin final ps k n w result \<longleftrightarrow> (\<exists>gs rest src'. uncancelled src' \<and> concat gs @ rest = ps
     \<and> rest \<noteq> [] \<and> (\<forall>g \<in> set gs. g \<noteq> []) \<and> length gs \<le> k
     \<and> result = (if rising origin (next_time final rest) (concat gs)
         then Inr (src', rest, sadd n (length gs),
           cw_append (concat (map enc_item (video_items n origin (next_time final rest) gs))) w)
         else Inl Mp4TimestampOverflow))"

lemma loop_outcome_flush:
  assumes "accepts sink" "clip_fits origin final (chunk @ p # qs)" "chunk \<noteq> []" "unat n + 1 < 2 ^ 32"
    and "\<And>w. loop_outcome sink origin final (p # qs) k (n + 1) w (f w)" "uncancelled src"
  shows "loop_outcome sink origin final (chunk @ p # qs) (Suc k) n w
    (case write_fragment sink (n + 1) origin chunk (Some (pk_timestamp_ns p)) w of Inl e \<Rightarrow> Inl e | Inr w \<Rightarrow> f w)"
proof -
  let ?t = "next_time final (p # qs)"
  let ?i = "video_item (n + 1) origin ?t chunk"
  have frag: "write_fragment sink (n + 1) origin chunk (Some (pk_timestamp_ns p)) w = (if rising origin ?t chunk
      then Inr (cw_append (enc_item ?i) w) else Inl Mp4TimestampOverflow)"
    using write_fragment_of_clip(1) [OF assms(1-3), of "n + 1" w] by simp
  show ?thesis
  proof (cases "rising origin ?t chunk")
    case True
    obtain gs rest src' where gs: "uncancelled src'" "concat gs @ rest = p # qs" "rest \<noteq> []" "\<forall>g \<in> set gs. g \<noteq> []"
      "length gs \<le> k" "f (cw_append (enc_item ?i) w) = (if rising origin (next_time final rest) (concat gs)
         then Inr (src', rest, sadd (n + 1) (length gs),
           cw_append (concat (map enc_item (video_items (n + 1) origin (next_time final rest) gs)))
             (cw_append (enc_item ?i) w))
         else Inl Mp4TimestampOverflow)"
      using assms(5) [of "cw_append (enc_item ?i) w"] unfolding loop_outcome_def by blast
    have t: "next_time (next_time final rest) (concat gs) = ?t" by (simp add: next_time_concat gs(2))
    have "rising origin (next_time final rest) (chunk @ concat gs) \<longleftrightarrow> rising origin (next_time final rest) (concat gs)"
      using True by (simp add: rising_parts t)
    moreover note increment_saturates [OF assms(4)]
    ultimately show ?thesis
      unfolding loop_outcome_def frag using True gs assms(3) t
      by (intro exI [of _ "chunk # gs"] exI [of _ rest] exI [of _ src']) (simp add: saturating_add_sadd)
  next
    case False
    then show ?thesis
      unfolding loop_outcome_def frag using assms(3,6)
      by (intro exI [of _ "[chunk]"] exI [of _ "p # qs"] exI [of _ src]) (simp add: next_time_def)
  qed
qed

lemma mp4_streaming_loop_spec:
  assumes "accepts sink" "uncancelled src" "\<forall>p \<in> set (mp_packets src). validate_packet stream (pk_bytes p) = Inr ()"
    and "clip_fits origin final (chunk @ mp_packets src)" "chunk @ mp_packets src \<noteq> []"
    and "chunk = [] \<longrightarrow> pk_keyframe (hd (mp_packets src))" "unat n + length (mp_packets src) < 2 ^ 32 - 1"
  shows "loop_outcome sink origin final (chunk @ mp_packets src) (length (mp_packets src)) n w
    (mp4_streaming_loop sink stream origin src chunk bytes n w)"
  using assms(2-7)
proof (induction "mp_packets src" arbitrary: src chunk bytes n w)
  case Nil
  then show ?case
    using next_packet_uncancelled(1) [OF Nil.prems(1)] unfolding loop_outcome_def
    by (intro exI [of _ "[]"] exI [of _ chunk] exI [of _ "src\<lparr>mp_loads := Suc (mp_loads src)\<rparr>"])
      (simp add: mp4_streaming_loop.simps [of sink stream origin src] uncancelled_def)
next
  case (Cons p qs)
  let ?src = "src\<lparr>mp_loads := Suc (mp_loads src), mp_packets := qs\<rparr>"
  have src: "mp_packets src = p # qs" using Cons.hyps(2) by simp
  have un: "uncancelled ?src" using Cons.prems(1) by (simp add: uncancelled_def)
  have valid: "validate_packet stream (pk_bytes p) = Inr ()" "\<forall>p \<in> set qs. validate_packet stream (pk_bytes p) = Inr ()"
    using Cons.prems(2) by (simp_all add: src)
  have n: "unat n + 1 < 2 ^ 32" "unat (n + 1) = unat n + 1" using Cons.prems(6) by (simp_all add: src unat_word_ariths)
  have step: "mp4_streaming_loop sink stream origin src chunk bytes n w =
      (if ends_chunk chunk bytes p then
         (case write_fragment sink (n + 1) origin chunk (Some (pk_timestamp_ns p)) w of Inl e \<Rightarrow> Inl e
          | Inr w \<Rightarrow> mp4_streaming_loop sink stream origin ?src [p] (length (pk_bytes p)) (n + 1) w)
       else mp4_streaming_loop sink stream origin ?src (chunk @ [p]) (bytes + length (pk_bytes p)) n w)"
    using Cons.prems(5) valid(1)
    by (cases "chunk = []") (simp_all add: mp4_streaming_loop.simps [of sink stream origin src] next_packet_uncancelled(2) [OF Cons.prems(1) src] src)
  have fits: "clip_fits origin final (chunk @ p # qs)" using Cons.prems(3) by (simp add: src)
  show ?case
  proof (cases "ends_chunk chunk bytes p")
    case True
    then have ne: "chunk \<noteq> []" by (auto simp: ends_chunk_def)
    have "loop_outcome sink origin final (p # qs) (length qs) (n + 1) w
        (mp4_streaming_loop sink stream origin ?src [p] (length (pk_bytes p)) (n + 1) w)" for w
      using Cons.hyps(1) [of ?src "[p]" "n + 1" w "length (pk_bytes p)"] un valid(2) clip_fits_suffix [OF fits] n(2) Cons.prems(6)
      by (simp add: src)
    from loop_outcome_flush [OF assms(1) fits ne n(1) this un] show ?thesis by (simp add: step True src)
  next
    case False
    have "loop_outcome sink origin final (chunk @ p # qs) (length qs) n w
        (mp4_streaming_loop sink stream origin ?src (chunk @ [p]) (bytes + length (pk_bytes p)) n w)"
      using Cons.hyps(1) [of ?src "chunk @ [p]" n w] un valid(2) fits Cons.prems(6) by (simp add: src)
    with False show ?thesis by (simp add: step src loop_outcome_def) (meson le_SucI)
  qed
qed

text \<open>The loop and the last chunk together.\<close>

lemma streaming_video_part:
  assumes "accepts sink" "uncancelled src" "\<forall>p \<in> set (mp_packets src). validate_packet stream (pk_bytes p) = Inr ()"
    and "clip_fits origin final (mp_packets src)" "mp_packets src \<noteq> []" "pk_keyframe (hd (mp_packets src))"
  shows "if rising origin final (mp_packets src)
    then \<exists>src' rest n w' items. mp4_streaming_loop sink stream origin src [] 0 0 w = Inr (src', rest, n, w') \<and> rest \<noteq> []
      \<and> uncancelled src' \<and> unat n \<le> length (mp_packets src)
      \<and> write_fragment sink (n + 1) origin rest None w' = Inr (cw_append (concat (map enc_item items)) w)
      \<and> (\<forall>i \<in> set items. item_ok i) \<and> concat (map item_samples items) = video_samples origin final (mp_packets src)
    else mp4_streaming_loop sink stream origin src [] 0 0 w = Inl Mp4TimestampOverflow
      \<or> (\<exists>src' rest n w'. mp4_streaming_loop sink stream origin src [] 0 0 w = Inr (src', rest, n, w') \<and> rest \<noteq> []
          \<and> write_fragment sink (n + 1) origin rest None w' = Inl Mp4TimestampOverflow)"
proof -
  let ?ps = "mp_packets src"
  have len: "length ?ps < 2 ^ 24" using assms(4) by (simp add: clip_fits_def)
  then have "loop_outcome sink origin final ?ps (length ?ps) 0 w (mp4_streaming_loop sink stream origin src [] 0 0 w)"
    using mp4_streaming_loop_spec [OF assms(1-3), of origin final "[]" 0 w 0] assms(4-6) by simp
  then obtain gs rest src' where gs: "uncancelled src'" "concat gs @ rest = ?ps" "rest \<noteq> []" "\<forall>g \<in> set gs. g \<noteq> []"
    "length gs \<le> length ?ps" "mp4_streaming_loop sink stream origin src [] 0 0 w =
      (if rising origin (next_time final rest) (concat gs)
       then Inr (src', rest, sadd 0 (length gs),
         cw_append (concat (map enc_item (video_items 0 origin (next_time final rest) gs))) w)
       else Inl Mp4TimestampOverflow)"
    unfolding loop_outcome_def by blast
  let ?n = "sadd 0 (length gs) :: u32"
  have n: "unat ?n = length gs" using gs(5) len by (simp add: unat_sadd)
  then have sat: "?n + 1 = saturating_add ?n 1" using gs(5) len by (intro increment_saturates) simp
  have rise: "rising origin final ?ps \<longleftrightarrow> rising origin (next_time final rest) (concat gs) \<and> rising origin final rest"
    unfolding gs(2) [symmetric] by (rule rising_parts)
  have "clip_fits origin final (rest @ [])" using assms(4) gs(2) clip_fits_suffix [of origin final "concat gs" rest] by simp
  from write_fragment_of_clip(1) [OF assms(1) this gs(3)]
  have frag: "write_fragment sink (?n + 1) origin rest None w' = (if rising origin final rest
      then Inr (cw_append (enc_item (video_item (?n + 1) origin final rest)) w') else Inl Mp4TimestampOverflow)" for w'
    by (simp add: next_time_def)
  let ?items = "video_items 0 origin final (gs @ [rest])"
  have items: "?items = video_items 0 origin (next_time final rest) gs @ [video_item (?n + 1) origin final rest]"
    by (simp only: video_items_append) (simp add: sat next_time_def)
  have "concat (gs @ [rest]) = ?ps" "\<forall>g \<in> set (gs @ [rest]). g \<noteq> []" using gs(2-4) by auto
  then have ok: "\<forall>i \<in> set ?items. item_ok i"
    "rising origin final ?ps \<Longrightarrow> concat (map item_samples ?items) = video_samples origin final ?ps"
    using video_items_ok [of origin final "gs @ [rest]" 0] video_items_samples [of origin final "gs @ [rest]" 0] assms(4)
    by simp_all
  show ?thesis
  proof (cases "rising origin final ?ps")
    case True
    moreover have "write_fragment sink (?n + 1) origin rest None
        (cw_append (concat (map enc_item (video_items 0 origin (next_time final rest) gs))) w)
        = Inr (cw_append (concat (map enc_item ?items)) w)"
      using True rise by (simp add: frag items)
    ultimately show ?thesis
      using gs ok n rise by (auto intro!: exI [of _ ?items])
  next
    case False
    then show ?thesis using gs(3,6) rise frag by auto
  qed
qed

section \<open>Audio\<close>

lemma streaming_audio_part:
  assumes "accepts sink" "steady ps" "audio_fits origin ps" "\<forall>p \<in> set ps. unat (ao_timestamp_ns p) + 20000000 < 2 ^ 64"
    and "uncancelled src" "unat n + length (drop start ps) < 2 ^ 32 - 1"
  shows "\<exists>src' n' gs. write_streaming_audio_fragments sink origin ps track start (src, n, w)
      = Inr (src', n', cw_append (concat (map enc_item (audio_items n track origin gs))) w)
    \<and> uncancelled src' \<and> unat n' \<le> unat n + length (drop start ps) \<and> unat n \<le> unat n'
    \<and> concat gs = drop start ps \<and> audio_groups_ok origin gs"
  using assms(5,6)
proof (induction "length ps - start" arbitrary: start src n w rule: less_induct)
  case less
  show ?case
  proof (cases "start < length ps")
    case True
    define stop where "stop = audio_fragment_end ps start"
    define g where "g = slice start (stop - start) ps"
    note split = audio_fragment_split [OF assms(2,3) True assms(4), folded stop_def, folded g_def]
    let ?src = "src\<lparr>mp_loads := mp_loads src + 1\<rparr>" and ?w = "cw_append (enc_item (audio_item (n + 1) track origin g)) w"
    have shorter: "length (drop stop ps) + 1 \<le> length (drop start ps)" using split(1,3) by (cases g) simp_all
    have lt: "unat n + 1 < 2 ^ 32" using less.prems(2) shorter by linarith
    then have n: "unat (n + 1) = unat n + 1" by (simp add: unat_word_ariths)
    note sat = increment_saturates [OF lt]
    have un: "uncancelled ?src" "check_cancel src = Inr ?src"
      using less.prems(1) by (simp_all add: uncancelled_def check_cancel_def)
    have "length ps - stop < length ps - start" using split(2) audio_fragment_end_gt [of start ps] by (simp add: stop_def)
    moreover have "unat (n + 1) + length (drop stop ps) < 2 ^ 32 - 1" using n shorter less.prems(2) by linarith
    ultimately obtain src' n' gs where gs: "write_streaming_audio_fragments sink origin ps track stop (?src, n + 1, ?w)
        = Inr (src', n', cw_append (concat (map enc_item (audio_items (n + 1) track origin gs))) ?w)"
      "uncancelled src'" "unat n' \<le> unat (n + 1) + length (drop stop ps)" "unat (n + 1) \<le> unat n'"
      "concat gs = drop stop ps" "audio_groups_ok origin gs"
      using less.hyps [OF _ un(1), of stop "n + 1" ?w] by blast
    have "write_streaming_audio_fragments sink origin ps track start (src, n, w)
        = Inr (src', n', cw_append (concat (map enc_item (audio_items n track origin (g # gs)))) w)"
      using True un(2) gs(1) write_audio_fragment_spec [OF assms(1) split(5,3)] sat
      by (simp add: write_streaming_audio_fragments.simps [of sink origin ps track start] Let_def
          flip: stop_def g_def)
    moreover have "unat n' \<le> unat n + length (drop start ps)" "unat n \<le> unat n'"
      using gs(3,4) n shorter by linarith+
    moreover have "audio_groups_ok origin (g # gs)" using gs(6) split(3-5) by (simp add: audio_groups_ok_def)
    ultimately show ?thesis
      using gs(2,5) by (intro exI [of _ src'] exI [of _ n'] exI [of _ "g # gs"]) (simp add: split(1))
  next
    case False
    then show ?thesis using less.prems(1)
      by (intro exI [of _ src] exI [of _ n] exI [of _ "[]"])
        (simp add: write_streaming_audio_fragments.simps [of sink origin ps track start] audio_groups_ok_def)
  qed
qed

lemma streaming_sounds:
  assumes "accepts sink" "audio_ok audio" "unat stop - unat origin \<le> 900 * 10 ^ 9"
    and "steady (filter (in_window origin stop) (as_packets (at_system audio)))"
    and "steady (filter (in_window origin stop) (microphone_packets audio))"
    and "uncancelled src" "unat n < 2 ^ 24"
  defines "system \<equiv> filter (in_window origin stop) (as_packets (at_system audio))"
    and "microphone \<equiv> filter (in_window origin stop) (microphone_packets audio)"
  shows "\<exists>src' n' items. and_then (write_streaming_audio_fragments sink origin system AUDIO_TRACK_ID 0 (src, n, w))
      (write_streaming_audio_fragments sink origin microphone MICROPHONE_TRACK_ID 0)
      = Inr (src', n', cw_append (concat (map enc_item items)) w) \<and> (\<forall>i \<in> set items. item_ok i)
    \<and> concat (map item_samples items) = map (audio_sample 2 origin) system @ map (audio_sample 3 origin) microphone"
proof -
  have s: "list_all (\<lambda>p. \<not> invalid_audio_packet p) (as_packets (at_system audio))"
    "length (as_packets (at_system audio)) \<le> MAX_AUDIO_PACKETS"
    and m: "list_all (\<lambda>p. \<not> invalid_audio_packet p) (microphone_packets audio)"
    "length (microphone_packets audio) \<le> MAX_AUDIO_PACKETS"
    using assms(2) by (simp_all add: audio_ok_def)
  note fits = clip_audio_fits(1) [OF s assms(3), folded system_def]
    clip_audio_fits(1) [OF m assms(3), folded microphone_def]
  have len: "length system < 2 ^ 16" "length microphone < 2 ^ 16" using fits by (simp_all add: audio_fits_def)
  obtain src1 n1 gs where gs: "write_streaming_audio_fragments sink origin system AUDIO_TRACK_ID 0 (src, n, w)
      = Inr (src1, n1, cw_append (concat (map enc_item (audio_items n AUDIO_TRACK_ID origin gs))) w)"
    "uncancelled src1" "unat n1 \<le> unat n + length system" "concat gs = system" "audio_groups_ok origin gs"
    using streaming_audio_part [OF assms(1) assms(4) [folded system_def] fits(1) steady_ends [OF s(1) assms(4), folded system_def]
        assms(6), of n 0 AUDIO_TRACK_ID w] assms(7) len(1) by auto
  let ?w = "cw_append (concat (map enc_item (audio_items n AUDIO_TRACK_ID origin gs))) w"
  obtain src2 n2 hs where hs: "write_streaming_audio_fragments sink origin microphone MICROPHONE_TRACK_ID 0 (src1, n1, ?w)
      = Inr (src2, n2, cw_append (concat (map enc_item (audio_items n1 MICROPHONE_TRACK_ID origin hs))) ?w)"
    "concat hs = microphone" "audio_groups_ok origin hs"
    using streaming_audio_part [OF assms(1) assms(5) [folded microphone_def] fits(2)
        steady_ends [OF m(1) assms(5), folded microphone_def] gs(2), of n1 0 MICROPHONE_TRACK_ID ?w]
      assms(7) len gs(3) by auto
  let ?items = "audio_items n AUDIO_TRACK_ID origin gs @ audio_items n1 MICROPHONE_TRACK_ID origin hs"
  show ?thesis
    using gs(1) hs(1) audio_items_facts [OF gs(5)] audio_items_facts [OF hs(3)]
    by (intro exI [of _ src2] exI [of _ n2] exI [of _ ?items])
      (auto simp: gs(4) hs(2) AUDIO_TRACK_ID_def MICROPHONE_TRACK_ID_def)
qed

section \<open>Whole files\<close>

text \<open>C28: The streaming writer gives a reader the same clip. Under the conditions of the buffered writer with sound (a
  ring of at most 900 seconds, an H.264 stream with width and height below 65536 and a codec header of at most 65536
  bytes whose packets pass the framing check, a destination that accepts writes, and audio as the encoder produces it:
  at most 45000 valid packets on a track, codec headers of at most 65536 bytes, and inside the clip packets of 20 ms,
  each continuing the one before or following a gap; the streaming writer refuses packets without duration, which
  the buffered one accepts), from an in-memory source of the ring that is not cancelled, it succeeds exactly when the buffered
  writer does, and its file has the same video and audio samples, although it cuts other fragments.\<close>

theorem mp4_streaming_clip_demux:
  fixes audio :: replay_audio_tracks
  defines "clip_audio \<equiv> \<lambda>origin stop ps. filter (in_window origin stop) ps"
  assumes "ring_inv r" "rr_packets r \<noteq> []" "unat (rr_duration_limit_ns r) \<le> 900 * 10 ^ 9"
    and "accepts sink" "mp4_stream_ok stream" "audio_ok audio"
    and "\<forall>p \<in> set (rr_packets r). validate_packet stream (pk_bytes p) = Inr ()"
    and "unat stop = unat (pk_timestamp_ns (last (rr_packets r))) + unat (pk_duration_ns (last (rr_packets r)))"
    and "steady (clip_audio (pk_timestamp_ns (hd (rr_packets r))) stop (as_packets (at_system audio)))"
    and "steady (clip_audio (pk_timestamp_ns (hd (rr_packets r))) stop (microphone_packets audio))"
    and "memory_packets_new r (\<lambda>_. False) = Inr src"
  shows "let origin = pk_timestamp_ns (hd (rr_packets r)) in
    if rising origin stop (rr_packets r)
    then \<exists>written bytes. write_streaming_mp4_tracks sink stream src audio = Inr (written, bytes)
      \<and> demux_mp4 bytes = Some (video_samples origin stop (rr_packets r)
          @ map (audio_sample 2 origin) (clip_audio origin stop (as_packets (at_system audio)))
          @ map (audio_sample 3 origin) (clip_audio origin stop (microphone_packets audio)))
      \<and> unat written = min (length bytes) (2 ^ 64 - 1)
    else write_streaming_mp4_tracks sink stream src audio = Inl Mp4TimestampOverflow"
proof -
  let ?ps = "rr_packets r" and ?o = "pk_timestamp_ns (hd (rr_packets r))"
  let ?as = "filter (in_window ?o stop) (as_packets (at_system audio))"
  let ?ms = "filter (in_window ?o stop) (microphone_packets audio)"
  note clip = clip_of_ring [OF assms(2-4,9)]
  note facts = ring_packets_facts [OF assms(2,3)]
  have stop: "stop = pk_timestamp_ns (last ?ps) + pk_duration_ns (last ?ps)"
    using clip(2) by (simp add: checked_add_def split: if_splits)
  have src: "mp_packets src = ?ps" "mp_window src = (?o, stop)" "uncancelled src"
    using assms(3,12) stop
    by (auto simp: memory_packets_new_def uncancelled_def Let_def split: list.splits)
  obtain f m where f: "ftyp = Inr (enc_item (Header (ascii ''ftyp'') f))" "item_ok (Header (ascii ''ftyp'') f)"
    and m: "(if ?as = [] \<and> ?ms = [] then moov stream else moov_with_audio_tracks stream audio)
        = Inr (enc_item (Header (ascii ''moov'') m))" "item_ok (Header (ascii ''moov'') m)"
    using ftyp_item moov_item [OF assms(6)] moov_with_audio_tracks_item [OF assms(6)] by metis
  let ?w = "cw_append (enc_item (Header (ascii ''moov'') m)) (cw_append (enc_item (Header (ascii ''ftyp'') f)) counting_writer_new)"
  have audio: "list_all (\<lambda>p. \<not> invalid_audio_packet p) (as_packets (at_system audio) @ microphone_packets audio)"
    using assms(7) by (simp add: audio_ok_def)
  then have valid: "\<not> list_ex (\<lambda>p. oversized_audio_packet p \<or> ao_duration_ns p = 0) (?as @ ?ms)"
    by (auto simp: list_ex_iff list_all_iff invalid_audio_packet_def oversized_audio_packet_def)
  have codec: "vs_codec stream = H264" using assms(6) by (simp add: mp4_stream_ok_def)
  note start = write_streaming_mp4_tracks_def [of sink stream src audio, unfolded src(2) prod.case Let_def
      f(1) m(1) and_then_simps addsD [OF mp4_write_all_adds [OF assms(5)]]]
  note video = streaming_video_part [OF assms(5) src(3), unfolded src(1), OF assms(8) clip(1) assms(3) facts(4), of ?w]
  show ?thesis
  proof (cases "rising ?o stop ?ps")
    case True
    then obtain src' rest n w' items where v: "mp4_streaming_loop sink stream ?o src [] 0 0 ?w = Inr (src', rest, n, w')"
      "rest \<noteq> []" "uncancelled src'" "unat n \<le> length ?ps"
      "write_fragment sink (n + 1) ?o rest None w' = Inr (cw_append (concat (map enc_item items)) ?w)"
      "\<forall>i \<in> set items. item_ok i" "concat (map item_samples items) = video_samples ?o stop ?ps"
      using video by auto
    have n: "unat (n + 1) < 2 ^ 24" "n + 1 \<noteq> 0"
      using v(4) facts(5) by (simp_all add: unat_word_ariths word_eq_iff_unat)
    let ?w1 = "cw_append (concat (map enc_item items)) ?w"
    obtain src'' n' sounds where a: "and_then (write_streaming_audio_fragments sink ?o ?as AUDIO_TRACK_ID 0 (src', n + 1, ?w1))
        (write_streaming_audio_fragments sink ?o ?ms MICROPHONE_TRACK_ID 0)
        = Inr (src'', n', cw_append (concat (map enc_item sounds)) ?w1)" "\<forall>i \<in> set sounds. item_ok i"
      "concat (map item_samples sounds) = map (audio_sample 2 ?o) ?as @ map (audio_sample 3 ?o) ?ms"
      using streaming_sounds [OF assms(5,7) clip(5) assms(10,11) [unfolded clip_audio_def] v(3) n(1), of ?w1] by blast
    have w: "writes_items (\<lambda>(n, w). Inr (n, cw_append (concat (map enc_item (items @ sounds))) w))
        (video_samples ?o stop ?ps @ map (audio_sample 2 ?o) ?as @ map (audio_sample 3 ?o) ?ms)"
      using v(6,7) a(2,3) by (fastforce simp: writes_items_def intro!: exI [of _ "items @ sounds"])
    from file_of_items [OF w f(2) m(2)]
    have "demux_mp4 (cw_contents (cw_append (concat (map enc_item sounds)) ?w1))
        = Some (video_samples ?o stop ?ps @ map (audio_sample 2 ?o) ?as @ map (audio_sample 3 ?o) ?ms)"
      "unat (cw_written (cw_append (concat (map enc_item sounds)) ?w1))
        = min (length (cw_contents (cw_append (concat (map enc_item sounds)) ?w1))) (2 ^ 64 - 1)"
      by (fastforce simp: cw_append_append)+
    with True a(1) v n(2) valid codec show ?thesis
      by (auto simp: start Let_def clip_audio_def and_then_Inr)
  next
    case False
    then show ?thesis using video valid codec by (auto simp: start Let_def)
  qed
qed

definition h264_source :: memory_packets where
  "h264_source = \<lparr>mp_packets = rr_packets h264_ring, mp_window = (1000, 32668000), mp_cancel = (\<lambda>_. False), mp_loads = 0\<rparr>"

theorem mp4_streaming_clip_demux_witness:
  "\<exists>written bytes. write_streaming_mp4_tracks accepting h264_stream h264_source steady_audio = Inr (written, bytes)
     \<and> demux_mp4 bytes = Some (h264_samples @ opus_samples)"
proof -
  have "memory_packets_new h264_ring (\<lambda>_. False) = Inr h264_source"
    by (simp add: memory_packets_new_def h264_source_def h264_ring_facts(1) h264_packet_def)
  then show ?thesis
    using mp4_streaming_clip_demux [OF h264_ring_facts(2-6) steady_audio_facts(1) h264_ring_facts(7) h264_end(1)]
      h264_ring_facts(8) sample_lists(2)
    by (simp add: Let_def h264_end(2) sample_lists(1) steady_audio_facts) blast
qed

end
