(* ===== verification/State_File.thy ===== *)
theory State_File
  imports Redunar_Text
begin

text \<open>
  The daemon's state files: small text files that are read whole, up to a size limit, and replaced
  through a temporary file and a rename. The file system is the environment: its answers are the
  fields of \<open>file_env\<close>, and an operation sees the destination file before and leaves it after.
  \<open>atomic_replace\<close> occurs with the same body in \<open>app_preferences.rs\<close> and \<open>replay_preferences.rs\<close>.
\<close>

section \<open>The file system as environment\<close>

datatype state_file = Missing | Irregular | Regular string

datatype open_outcome = Opened | AlreadyExists | OpenFailed string

record file_env =
  fe_stat_error :: "string option"
  fe_read_error :: "string option"
  fe_create_directory :: "string option"
  fe_set_permissions :: "string option"
  fe_open_temporary :: "nat \<Rightarrow> open_outcome"
  fe_write :: "string option"
  fe_sync :: "string option"
  fe_rename :: "string option"
  fe_open_directory :: "string option"
  fe_sync_directory :: "string option"

definition os :: "string option \<Rightarrow> string + unit" where
  "os result = (case result of None \<Rightarrow> Inr () | Some e \<Rightarrow> Inl e)"

lemma os_simps [simp]: "os None = Inr ()" "os (Some e) = Inl e"
  by (simp_all add: os_def)

text \<open>The environment in which every call succeeds.\<close>

definition calm :: file_env where
  "calm = \<lparr>fe_stat_error = None, fe_read_error = None, fe_create_directory = None, fe_set_permissions = None,
     fe_open_temporary = (\<lambda>_. Opened), fe_write = None, fe_sync = None, fe_rename = None,
     fe_open_directory = None, fe_sync_directory = None\<rparr>"

section \<open>Replacing a file\<close>

definition replace_with :: "file_env \<Rightarrow> string \<Rightarrow> state_file \<Rightarrow> state_file \<times> (string + unit)" where
  "replace_with env contents file =
     (case and_then (os (fe_write env)) (\<lambda>_. and_then (os (fe_sync env)) (\<lambda>_. os (fe_rename env))) of
        Inl e \<Rightarrow> (file, Inl e)
      | Inr _ \<Rightarrow> (Regular contents,
          and_then (os (fe_open_directory env)) (\<lambda>_. os (fe_sync_directory env))))"

fun replace_attempts :: "file_env \<Rightarrow> string \<Rightarrow> nat \<Rightarrow> nat \<Rightarrow> string option \<Rightarrow> state_file \<Rightarrow>
    state_file \<times> (string + unit)" where
  "replace_attempts env contents 0 ident last_collision file =
     (file, Inl (unwrap_or last_collision ''could not allocate state file''))"
| "replace_attempts env contents (Suc n) ident last_collision file =
     (case fe_open_temporary env ident of
        AlreadyExists \<Rightarrow> replace_attempts env contents n (ident + 1) (Some ''already exists'') file
      | OpenFailed e \<Rightarrow> (file, Inl e)
      | Opened \<Rightarrow> replace_with env contents file)"

definition atomic_replace :: "file_env \<Rightarrow> nat \<Rightarrow> string \<Rightarrow> state_file \<Rightarrow> state_file \<times> (string + unit)" where
  "atomic_replace env ident contents file = replace_attempts env contents 32 ident None file"

lemma replace_with_cases:
  assumes "replace_with env contents file = (file', r)"
  shows "(file' = file \<and> (\<exists>e. r = Inl e)) \<or> file' = Regular contents"
proof (cases "and_then (os (fe_write env)) (\<lambda>_. and_then (os (fe_sync env)) (\<lambda>_. os (fe_rename env)))")
  case (Inl e)
  then have "replace_with env contents file = (file, Inl e)" by (simp add: replace_with_def)
  then show ?thesis using assms by simp
qed (use assms in \<open>simp add: replace_with_def\<close>)

lemma replace_attempts_cases:
  "replace_attempts env contents n ident c file = (file', r) \<Longrightarrow>
     (file' = file \<and> (\<exists>e. r = Inl e)) \<or> file' = Regular contents"
  by (induction n arbitrary: ident c) (auto split: open_outcome.splits dest: replace_with_cases)

text \<open>The destination holds the old or the new contents, never a part of them; success means the new.\<close>

lemma atomic_replace_cases:
  "atomic_replace env ident contents file = (file', r) \<Longrightarrow>
     (file' = file \<and> (\<exists>e. r = Inl e)) \<or> file' = Regular contents"
  unfolding atomic_replace_def by (rule replace_attempts_cases)

lemma atomic_replace_calm: "atomic_replace calm ident contents file = (Regular contents, Inr ())"
proof -
  have "replace_with calm contents file = (Regular contents, Inr ())" by (simp add: replace_with_def calm_def)
  moreover have "fe_open_temporary calm ident = Opened" by (simp add: calm_def)
  ultimately have "replace_attempts calm contents (Suc 31) ident None file = (Regular contents, Inr ())"
    by (simp only: replace_attempts.simps open_outcome.case)
  then show ?thesis by (simp add: atomic_replace_def)
qed

section \<open>Reading lines\<close>

text \<open>\<open>lines.next()\<close> is the head of the remaining lines, if there is one.\<close>

definition next_line :: "string list \<Rightarrow> string option" where
  "next_line ls = (case ls of [] \<Rightarrow> None | l # _ \<Rightarrow> Some l)"

lemma next_line_simps [simp]: "next_line [] = None" "next_line (l # ls) = Some l"
  by (simp_all add: next_line_def)

lemma guard_Inr [simp]: "(if b then Inl e else Inr x) = Inr y \<longleftrightarrow> \<not> b \<and> y = x"
  by auto

section \<open>Read, change, write\<close>

text \<open>The body the setters of the state files share: load, change (or reject), save, and return the
  changed value.\<close>

definition modify_state :: "(file_env \<Rightarrow> state_file \<Rightarrow> string + 'p) \<Rightarrow>
    (file_env \<Rightarrow> nat \<Rightarrow> 'p \<Rightarrow> state_file \<Rightarrow> state_file \<times> (string + unit)) \<Rightarrow> ('p \<Rightarrow> string + 'p) \<Rightarrow>
    file_env \<Rightarrow> nat \<Rightarrow> state_file \<Rightarrow> state_file \<times> (string + 'p)" where
  "modify_state load save change env ident file =
     (case and_then (load env file) change of
        Inl e \<Rightarrow> (file, Inl e)
      | Inr p \<Rightarrow> (case save env ident p file of (file, r) \<Rightarrow> (file, and_then r (\<lambda>_. Inr p))))"

section \<open>Interface: persistent state\<close>

text \<open>
  A component that keeps one value in a state file provides its text form and how it loads it. The
  client lemmas say what a later load finds after a save, whether or not the save reported success.
\<close>

locale persistent_state =
  fixes serialize :: "'p \<Rightarrow> string"
    and load :: "file_env \<Rightarrow> state_file \<Rightarrow> string + 'p"
    and save :: "file_env \<Rightarrow> nat \<Rightarrow> 'p \<Rightarrow> state_file \<Rightarrow> state_file \<times> (string + unit)"
    and ok :: "'p \<Rightarrow> bool"
  assumes load_serialized: "ok p \<Longrightarrow> load calm (Regular (serialize p)) = Inr p"
    and save_cases: "save env ident p file = (file', r) \<Longrightarrow>
      (file' = file \<and> (\<exists>e. r = Inl e)) \<or> file' = Regular (serialize p)"
    and load_env: "load env file = Inr q \<Longrightarrow> load calm file = Inr q"
    and save_calm: "save calm ident p file = (Regular (serialize p), Inr ())"
begin

lemma load_after_save:
  assumes "save env ident p file = (file', Inr ())" "ok p"
  shows "load calm file' = Inr p"
  using save_cases [OF assms(1)] load_serialized [OF assms(2)] by auto

lemma load_after_any_save:
  assumes "save env ident p file = (file', r)" "ok p" "load calm file = Inr q"
  shows "load calm file' = Inr p \<or> load calm file' = Inr q"
  using save_cases [OF assms(1)] load_serialized [OF assms(2)] assms(3) by auto

lemma update_load:
  assumes "ok p" "save calm ident p file = (file', r)"
  shows "load calm file' = Inr p \<and> r = Inr ()"
  using assms(2) load_serialized [OF assms(1)] by (auto simp: save_calm)

lemma modify_consistent:
  assumes "load calm file = Inr p" "\<And>q. change p = Inr q \<Longrightarrow> ok q"
    and "modify_state load save change env ident file = (file', r)"
  shows "case r of Inr q \<Rightarrow> change p = Inr q \<and> load calm file' = Inr q
    | Inl _ \<Rightarrow> load calm file' = Inr p \<or> (\<exists>q. change p = Inr q \<and> load calm file' = Inr q)"
proof (cases "and_then (load env file) change")
  case (Inl e)
  then have "modify_state load save change env ident file = (file, Inl e)" by (simp add: modify_state_def)
  then show ?thesis using assms(1,3) by auto
next
  case (Inr q)
  then have q: "change p = Inr q" using load_env assms(1) by (auto simp: and_then_Inr)
  obtain s where s: "save env ident q file = (file', s)" and r: "r = and_then s (\<lambda>_. Inr q)"
    using assms(3) Inr by (auto simp: modify_state_def split: prod.splits)
  show ?thesis
    using load_after_any_save [OF s assms(2) [OF q] assms(1)] load_after_save [of env ident q] s r assms(2) [OF q] q
    by (cases s) auto
qed

lemma modify_calm:
  assumes "load calm file = Inr p" "change p = Inr q"
  shows "modify_state load save change calm ident file = (Regular (serialize q), Inr q)"
  using assms by (simp add: modify_state_def save_calm)

end

section \<open>ASCII text is UTF-8\<close>

definition ascii_text :: "string \<Rightarrow> bool" where
  "ascii_text s \<longleftrightarrow> (\<forall>c \<in> set s. (of_char c :: nat) < 128)"

lemma ascii_text_simps [simp]:
  "ascii_text []" "ascii_text (c # s) \<longleftrightarrow> (of_char c :: nat) < 128 \<and> ascii_text s"
  "ascii_text (s @ t) \<longleftrightarrow> ascii_text s \<and> ascii_text t"
  by (auto simp: ascii_text_def)

lemma chars_ascii: "ascii_text s \<Longrightarrow> chars s = Some (map of_char s)"
  by (induction s) (simp_all add: chars_def)

lemma ascii_show_nat [simp]: "ascii_text (show_nat n)"
  using show_nat_digits by (fastforce simp: ascii_text_def is_digit_def)

lemma ascii_show_int [simp]: "ascii_text (show_int i)"
  by (simp add: show_int_def)

end
