(* ===== verification/App_Preferences.thy ===== *)
theory App_Preferences
  imports State_File
begin

text \<open>
  Application preferences, \<open>redunar-daemon/src/app_preferences.rs\<close>: nine versions of a line-based
  file, of which the newest is written, and setters that load, change one group of fields and save.
  The operation lock makes every setter one step.
\<close>

section \<open>Text form\<close>

definition HEADER_V1 :: string where "HEADER_V1 = ''redunar-app-preferences-v1''"
definition HEADER_V2 :: string where "HEADER_V2 = ''redunar-app-preferences-v2''"
definition HEADER_V3 :: string where "HEADER_V3 = ''redunar-app-preferences-v3''"
definition HEADER_V4 :: string where "HEADER_V4 = ''redunar-app-preferences-v4''"
definition HEADER_V5 :: string where "HEADER_V5 = ''redunar-app-preferences-v5''"
definition HEADER_V6 :: string where "HEADER_V6 = ''redunar-app-preferences-v6''"
definition HEADER_V7 :: string where "HEADER_V7 = ''redunar-app-preferences-v7''"
definition HEADER_V8 :: string where "HEADER_V8 = ''redunar-app-preferences-v8''"
definition HEADER_V9 :: string where "HEADER_V9 = ''redunar-app-preferences-v9''"
definition MAX_APP_PREFERENCES_BYTES :: nat where "MAX_APP_PREFERENCES_BYTES = 1024"
definition MIN_WINDOW_WIDTH :: int where "MIN_WINDOW_WIDTH = 800"
definition MAX_WINDOW_WIDTH :: int where "MAX_WINDOW_WIDTH = 7680"
definition MIN_WINDOW_HEIGHT :: int where "MIN_WINDOW_HEIGHT = 600"
definition MAX_WINDOW_HEIGHT :: int where "MAX_WINDOW_HEIGHT = 4320"

lemmas header_defs = HEADER_V1_def HEADER_V2_def HEADER_V3_def HEADER_V4_def HEADER_V5_def
  HEADER_V6_def HEADER_V7_def HEADER_V8_def HEADER_V9_def

record app_preferences =
  ap_close_to_tray :: bool
  ap_automatic_updates :: bool
  ap_window_width :: int
  ap_window_height :: int
  ap_window_maximized :: bool
  ap_window_size_is_physical :: bool
  ap_diagnostic_log :: bool

definition default_app_preferences :: app_preferences where
  "default_app_preferences = \<lparr>ap_close_to_tray = False, ap_automatic_updates = True,
     ap_window_width = 1280, ap_window_height = 720, ap_window_maximized = False,
     ap_window_size_is_physical = False, ap_diagnostic_log = False\<rparr>"

definition on_off :: "bool \<Rightarrow> string" where
  "on_off b = (if b then ''on'' else ''off'')"

definition app_lines :: "app_preferences \<Rightarrow> string list" where
  "app_lines p =
     [HEADER_V9,
      ''close-to-tray='' @ on_off (ap_close_to_tray p),
      ''window-width='' @ show_int (ap_window_width p),
      ''window-height='' @ show_int (ap_window_height p),
      ''window-maximized='' @ on_off (ap_window_maximized p),
      ''automatic-updates='' @ on_off (ap_automatic_updates p),
      ''window-size-units='' @ (if ap_window_size_is_physical p then ''physical'' else ''logical''),
      ''diagnostic-log='' @ on_off (ap_diagnostic_log p)]"

definition app_serialize :: "app_preferences \<Rightarrow> string" where
  "app_serialize p = concat (map (\<lambda>l. l @ [newline]) (app_lines p))"

definition switch_value :: "string \<Rightarrow> string + bool" where
  "switch_value value = (if value = ''on'' then Inr True else if value = ''off'' then Inr False
     else Inl ''preferences contain an invalid switch value'')"

definition named_field :: "string option \<Rightarrow> string \<Rightarrow> string \<Rightarrow> string + string" where
  "named_field line expected missing =
     and_then (ok_or (Option.bind line (split_once (CHR ''=''))) missing) (\<lambda>(name, value).
       if name \<noteq> expected then Inl ''preferences contain missing or reordered fields'' else Inr value)"

definition parse_compatibility_bool :: "string option \<Rightarrow> string + unit" where
  "parse_compatibility_bool line =
     and_then (ok_or (Option.bind line (split_once (CHR ''='')))
         ''preferences are missing a version 3 compatibility field'') (\<lambda>(_, value).
       and_then (switch_value value) (\<lambda>_. Inr ()))"

definition parse_i32 :: "string option \<Rightarrow> string \<Rightarrow> string + int" where
  "parse_i32 line expected =
     and_then (named_field line expected ''preferences are missing a window field'') (\<lambda>value.
       ok_or (parse_signed (2 ^ 31) value) ''preferences contain an invalid window size'')"

definition app_parse_bool :: "string option \<Rightarrow> string \<Rightarrow> string + bool" where
  "app_parse_bool line expected =
     and_then (named_field line expected ''preferences are missing a boolean field'') switch_value"

definition window_bounds :: "int \<Rightarrow> int \<Rightarrow> bool" where
  "window_bounds width height \<longleftrightarrow> MIN_WINDOW_WIDTH \<le> width \<and> width \<le> MAX_WINDOW_WIDTH
     \<and> MIN_WINDOW_HEIGHT \<le> height \<and> height \<le> MAX_WINDOW_HEIGHT"

text \<open>The fields after the window fields, by version; each group consumes its lines.\<close>

definition parse_tail :: "string \<Rightarrow> bool \<Rightarrow> int \<Rightarrow> int \<Rightarrow> bool \<Rightarrow> string list \<Rightarrow> string + app_preferences" where
  "parse_tail version close_to_tray width height maximized ls =
     and_then (if version = HEADER_V3 then and_then (parse_compatibility_bool (next_line ls)) (\<lambda>_. Inr (tl ls))
               else Inr ls) (\<lambda>ls.
     and_then (if version \<in> {HEADER_V5, HEADER_V6, HEADER_V7, HEADER_V8, HEADER_V9}
               then and_then (app_parse_bool (next_line ls) ''automatic-updates'') (\<lambda>b. Inr (b, tl ls))
               else Inr (True, ls)) (\<lambda>(automatic_updates, ls).
     and_then (if version \<in> {HEADER_V6, HEADER_V7, HEADER_V8, HEADER_V9}
               then (if next_line ls = Some ''window-size-units=physical'' then Inr (True, tl ls)
                     else if next_line ls = Some ''window-size-units=logical'' then Inr (False, tl ls)
                     else Inl ''preferences contain invalid window size units'')
               else Inr (True, ls)) (\<lambda>(window_size_is_physical, ls).
     and_then (if version \<in> {HEADER_V7, HEADER_V8, HEADER_V9}
               then and_then (app_parse_bool (next_line ls) ''diagnostic-log'') (\<lambda>b. Inr (b, tl ls))
               else Inr (False, ls)) (\<lambda>(diagnostic_log, ls).
     and_then (if version = HEADER_V8
               then and_then (app_parse_bool (next_line ls) ''beta-access'') (\<lambda>_. Inr (tl ls))
               else Inr ls) (\<lambda>ls.
       if next_line ls \<noteq> None \<or> \<not> window_bounds width height
       then Inl ''preferences contain unknown fields or an invalid window size''
       else Inr \<lparr>ap_close_to_tray = close_to_tray, ap_automatic_updates = automatic_updates,
                 ap_window_width = width, ap_window_height = height, ap_window_maximized = maximized,
                 ap_window_size_is_physical = window_size_is_physical, ap_diagnostic_log = diagnostic_log\<rparr>)))))"

definition app_parse :: "string \<Rightarrow> string + app_preferences" where
  "app_parse contents =
     (let ls = lines contents
      in and_then (ok_or (next_line ls) ''preferences are empty'') (\<lambda>version.
         and_then (named_field (next_line (tl ls)) ''close-to-tray''
             ''preferences are missing the close-to-tray field'') (\<lambda>value.
         and_then (switch_value value) (\<lambda>close_to_tray.
           let ls = tl (tl ls)
           in if version = HEADER_V1 then
                (if next_line ls \<noteq> None then Inl ''preferences contain unknown fields''
                 else Inr (default_app_preferences\<lparr>ap_close_to_tray := close_to_tray\<rparr>))
              else if version \<notin> {HEADER_V2, HEADER_V3, HEADER_V4, HEADER_V5, HEADER_V6, HEADER_V7,
                        HEADER_V8, HEADER_V9} then Inl ''unsupported preferences version''
              else
                and_then (parse_i32 (next_line ls) ''window-width'') (\<lambda>width.
                and_then (parse_i32 (next_line (tl ls)) ''window-height'') (\<lambda>height.
                and_then (app_parse_bool (next_line (tl (tl ls))) ''window-maximized'') (\<lambda>maximized.
                  parse_tail version close_to_tray width height maximized (tl (tl (tl ls))))))))))"

section \<open>Loading, saving and the setters\<close>

definition app_load_unlocked :: "string \<Rightarrow> file_env \<Rightarrow> state_file \<Rightarrow> string + app_preferences" where
  "app_load_unlocked path env file =
     (let problem = \<lambda>message. ''could not load app preferences from '' @ path @ '': '' @ message;
          too_large = problem (''state exceeds 1024 bytes'')
      in case fe_stat_error env of Some e \<Rightarrow> Inl (problem e)
       | None \<Rightarrow>
          (case file of
             Missing \<Rightarrow> Inr default_app_preferences
           | Irregular \<Rightarrow> Inl (problem ''state is not a regular file'')
           | Regular contents \<Rightarrow>
               if length contents > MAX_APP_PREFERENCES_BYTES then Inl too_large
               else and_then (map_err problem (os (fe_read_error env))) (\<lambda>_.
                    if chars contents = None then Inl (problem ''stream did not contain valid UTF-8'')
                    else if length contents > MAX_APP_PREFERENCES_BYTES then Inl too_large
                    else map_err problem (app_parse contents))))"

definition app_save_unlocked :: "string \<Rightarrow> string \<Rightarrow> file_env \<Rightarrow> nat \<Rightarrow> app_preferences \<Rightarrow> state_file \<Rightarrow>
    state_file \<times> (string + unit)" where
  "app_save_unlocked directory path env ident preferences file =
     (case fe_create_directory env of
        Some e \<Rightarrow> (file, Inl (''could not create Redunar state directory '' @ directory @ '': '' @ e))
      | None \<Rightarrow>
         (case fe_set_permissions env of
            Some e \<Rightarrow> (file, Inl (''could not make Redunar state directory private at '' @ directory @ '': '' @ e))
          | None \<Rightarrow>
             (case atomic_replace env ident (app_serialize preferences) file of (file, r) \<Rightarrow>
                (file, map_err (\<lambda>e. ''could not save app preferences to '' @ path @ '': '' @ e) r))))"

text \<open>The body the setters share: load, change, save, return the changed value.\<close>

definition app_update :: "(app_preferences \<Rightarrow> app_preferences) \<Rightarrow> string \<Rightarrow> string \<Rightarrow> file_env \<Rightarrow> nat \<Rightarrow>
    state_file \<Rightarrow> state_file \<times> (string + app_preferences)" where
  "app_update change directory path =
     modify_state (app_load_unlocked path) (app_save_unlocked directory path) (\<lambda>p. Inr (change p))"

definition set_close_to_tray :: "bool \<Rightarrow> string \<Rightarrow> string \<Rightarrow> file_env \<Rightarrow> nat \<Rightarrow> state_file \<Rightarrow>
    state_file \<times> (string + app_preferences)" where
  "set_close_to_tray enabled = app_update (\<lambda>p. p\<lparr>ap_close_to_tray := enabled\<rparr>)"

definition set_automatic_updates :: "bool \<Rightarrow> string \<Rightarrow> string \<Rightarrow> file_env \<Rightarrow> nat \<Rightarrow> state_file \<Rightarrow>
    state_file \<times> (string + app_preferences)" where
  "set_automatic_updates enabled = app_update (\<lambda>p. p\<lparr>ap_automatic_updates := enabled\<rparr>)"

definition set_diagnostic_log :: "bool \<Rightarrow> string \<Rightarrow> string \<Rightarrow> file_env \<Rightarrow> nat \<Rightarrow> state_file \<Rightarrow>
    state_file \<times> (string + app_preferences)" where
  "set_diagnostic_log enabled = app_update (\<lambda>p. p\<lparr>ap_diagnostic_log := enabled\<rparr>)"

definition set_window_state :: "int \<Rightarrow> int \<Rightarrow> bool \<Rightarrow> string \<Rightarrow> string \<Rightarrow> file_env \<Rightarrow> nat \<Rightarrow> state_file \<Rightarrow>
    state_file \<times> (string + app_preferences)" where
  "set_window_state width height maximized directory path env ident file =
     (if \<not> window_bounds width height
      then (file, Inl (''window size is outside Redunar'' @ CHR 0x27 # ''s supported bounds''))
      else app_update (\<lambda>p. p\<lparr>ap_window_width := width, ap_window_height := height,
             ap_window_maximized := maximized, ap_window_size_is_physical := False\<rparr>)
             directory path env ident file)"

section \<open>Round trip\<close>

definition app_ok :: "app_preferences \<Rightarrow> bool" where
  "app_ok p \<longleftrightarrow> window_bounds (ap_window_width p) (ap_window_height p)"

lemma window_bounds_iff: "window_bounds w h \<longleftrightarrow> 800 \<le> w \<and> w \<le> 7680 \<and> 600 \<le> h \<and> h \<le> 4320"
  by (auto simp: window_bounds_def MIN_WINDOW_WIDTH_def MAX_WINDOW_WIDTH_def MIN_WINDOW_HEIGHT_def
      MAX_WINDOW_HEIGHT_def)

lemma on_off_text: "line_text (on_off b)" "on_off b \<noteq> []"
  by (simp_all add: on_off_def line_text_def newline_def carriage_return_def)

lemma app_lines_text: "\<forall>l \<in> set (app_lines p). line_text l"
  by (simp add: app_lines_def header_defs line_text_Cons line_text_show_int on_off_text newline_def
      carriage_return_def)

lemma lines_app_serialize: "lines (app_serialize p) = app_lines p"
  unfolding app_serialize_def by (rule lines_concat [OF app_lines_text])

lemma switch_on_off [simp]: "switch_value (on_off b) = Inr b"
  by (simp add: switch_value_def on_off_def)

lemma app_parse_serialize:
  assumes "app_ok p"
  shows "app_parse (app_serialize p) = Inr p"
proof -
  have "parse_signed 2147483648 (show_int (ap_window_width p)) = Some (ap_window_width p)"
    "parse_signed 2147483648 (show_int (ap_window_height p)) = Some (ap_window_height p)"
    using assms by (simp_all add: app_ok_def window_bounds_iff parse_signed_show)
  then show ?thesis
    using assms
    by (simp add: app_parse_def lines_app_serialize app_lines_def named_field_def parse_i32_def
        app_parse_bool_def parse_tail_def header_defs app_ok_def)
qed

lemma app_serialize_small:
  assumes "app_ok p"
  shows "length (app_serialize p) \<le> 1024" "ascii_text (app_serialize p)"
proof -
  have "length (show_int (ap_window_width p)) \<le> 5" "length (show_int (ap_window_height p)) \<le> 5"
    using assms length_show_int [of "ap_window_width p" 4] length_show_int [of "ap_window_height p" 4]
    by (simp_all add: app_ok_def window_bounds_iff)
  then show "length (app_serialize p) \<le> 1024"
    by (simp add: app_serialize_def app_lines_def header_defs on_off_def)
  show "ascii_text (app_serialize p)"
    by (simp add: app_serialize_def app_lines_def header_defs on_off_def newline_def)
qed

lemma default_app_ok: "app_ok default_app_preferences"
  by (simp add: app_ok_def window_bounds_iff default_app_preferences_def)

lemma parse_tail_ok: "parse_tail version c w h m ls = Inr p \<Longrightarrow> app_ok p"
  unfolding parse_tail_def and_then_Inr by (elim exE conjE) (auto simp: and_then_Inr app_ok_def)

lemma app_parse_ok:
  assumes "app_parse contents = Inr p"
  shows "app_ok p"
proof -
  consider c where "p = default_app_preferences\<lparr>ap_close_to_tray := c\<rparr>"
    | version c w h m ls where "parse_tail version c w h m ls = Inr p"
    using assms unfolding app_parse_def Let_def and_then_Inr
    by (elim exE conjE) (auto simp: and_then_Inr split: if_split_asm)
  then show ?thesis using default_app_ok parse_tail_ok by cases (auto simp: app_ok_def)
qed

lemma app_load_ok: "app_load_unlocked path env file = Inr p \<Longrightarrow> app_ok p"
  by (auto simp: app_load_unlocked_def Let_def result_iffs default_app_ok app_parse_ok
      split: option.splits state_file.splits if_splits)

interpretation app: persistent_state app_serialize "app_load_unlocked path"
    "app_save_unlocked directory path" app_ok for path directory
proof
  show "app_load_unlocked path calm (Regular (app_serialize p)) = Inr p" if "app_ok p" for p
    using app_serialize_small [OF that] app_parse_serialize [OF that]
    by (simp add: app_load_unlocked_def calm_def chars_ascii MAX_APP_PREFERENCES_BYTES_def Let_def)
  show "(file' = sf \<and> (\<exists>e. r = Inl e)) \<or> file' = Regular (app_serialize p)"
    if "app_save_unlocked directory path env ident p sf = (file', r)" for env ident p sf file' r
    using that
    by (auto simp: app_save_unlocked_def split: option.splits prod.splits dest!: atomic_replace_cases)
  show "app_load_unlocked path calm sf = Inr q" if "app_load_unlocked path env sf = Inr q" for env sf q
    using that
    by (auto simp: app_load_unlocked_def Let_def calm_def result_iffs split: option.splits state_file.splits if_splits)
  show "app_save_unlocked directory path calm ident p sf = (Regular (app_serialize p), Inr ())" for ident p sf
    using atomic_replace_calm [of ident "app_serialize p" sf]
    by (simp add: app_save_unlocked_def) (simp add: calm_def)
qed

section \<open>The setters as one operation\<close>

datatype app_setter = Close_to_tray bool | Automatic_updates bool | Diagnostic_log bool
  | Window_state int int bool

primrec app_apply :: "app_setter \<Rightarrow> string \<Rightarrow> string \<Rightarrow> file_env \<Rightarrow> nat \<Rightarrow> state_file \<Rightarrow>
    state_file \<times> (string + app_preferences)" where
  "app_apply (Close_to_tray b) = set_close_to_tray b"
| "app_apply (Automatic_updates b) = set_automatic_updates b"
| "app_apply (Diagnostic_log b) = set_diagnostic_log b"
| "app_apply (Window_state w h m) = set_window_state w h m"

primrec app_change :: "app_setter \<Rightarrow> app_preferences \<Rightarrow> app_preferences" where
  "app_change (Close_to_tray b) p = p\<lparr>ap_close_to_tray := b\<rparr>"
| "app_change (Automatic_updates b) p = p\<lparr>ap_automatic_updates := b\<rparr>"
| "app_change (Diagnostic_log b) p = p\<lparr>ap_diagnostic_log := b\<rparr>"
| "app_change (Window_state w h m) p = (if window_bounds w h
     then p\<lparr>ap_window_width := w, ap_window_height := h, ap_window_maximized := m, ap_window_size_is_physical := False\<rparr>
     else p)"

primrec setter_ok :: "app_setter \<Rightarrow> bool" where
  "setter_ok (Close_to_tray b) = True"
| "setter_ok (Automatic_updates b) = True"
| "setter_ok (Diagnostic_log b) = True"
| "setter_ok (Window_state w h m) = window_bounds w h"

lemma app_change_ok: "setter_ok s \<Longrightarrow> app_ok p \<Longrightarrow> app_ok (app_change s p)"
  by (cases s) (simp_all add: app_ok_def)

lemma app_apply_update:
  assumes "setter_ok s"
  shows "app_apply s directory path env ident sf = app_update (app_change s) directory path env ident sf"
proof -
  have "app_change (Close_to_tray b) = (\<lambda>p. p\<lparr>ap_close_to_tray := b\<rparr>)"
    "app_change (Automatic_updates b) = (\<lambda>p. p\<lparr>ap_automatic_updates := b\<rparr>)"
    "app_change (Diagnostic_log b) = (\<lambda>p. p\<lparr>ap_diagnostic_log := b\<rparr>)"
    "window_bounds w h \<Longrightarrow> app_change (Window_state w h m) = (\<lambda>p. p\<lparr>ap_window_width := w, ap_window_height := h,
        ap_window_maximized := m, ap_window_size_is_physical := False\<rparr>)" for b w h m
    by (rule ext, simp)+
  then show ?thesis
    using assms by (cases s) (simp_all add: set_close_to_tray_def set_automatic_updates_def
        set_diagnostic_log_def set_window_state_def)
qed

text \<open>C39: Settings survive failures: when the file could be loaded before, whatever the file system answers, a setter that reports success has
  changed exactly its own fields and the next load returns that value; one that reports an error
  leaves a file from which the next load returns the old or the new value, never a broken state.\<close>

theorem app_setters_are_atomic:
  assumes "app_load_unlocked path calm file = Inr p"
    and "app_apply setter directory path env ident file = (file', r)"
  shows "(case r of Inr q \<Rightarrow> q = app_change setter p \<and> app_load_unlocked path calm file' = Inr q
    | Inl _ \<Rightarrow> app_load_unlocked path calm file' \<in> {Inr p, Inr (app_change setter p)})"
proof (cases "setter_ok setter")
  case True
  then have "app_update (app_change setter) directory path env ident file = (file', r)"
    using assms(2) app_apply_update by simp
  from app.modify_consistent [OF assms(1) _ this [unfolded app_update_def]] show ?thesis
    using app_change_ok [OF True app_load_ok [OF assms(1)]] by (auto split: sum.splits)
next
  case False
  then show ?thesis using assms by (cases setter) (auto simp: set_window_state_def)
qed

theorem app_setters_are_atomic_witness:
  "case app_apply (Close_to_tray True) ''d'' ''p'' calm 0 Missing of (file', r) \<Rightarrow>
     app_load_unlocked ''p'' calm Missing = Inr default_app_preferences
     \<and> r = Inr (default_app_preferences\<lparr>ap_close_to_tray := True\<rparr>)
     \<and> app_load_unlocked ''p'' calm file' = r"
proof -
  have l: "app_load_unlocked ''p'' calm Missing = Inr default_app_preferences"
    by (simp add: app_load_unlocked_def calm_def Let_def)
  obtain file' r where f: "app_apply (Close_to_tray True) ''d'' ''p'' calm 0 Missing = (file', r)" by fastforce
  then have "r = Inr (default_app_preferences\<lparr>ap_close_to_tray := True\<rparr>)"
    using l by (simp add: set_close_to_tray_def app_update_def app.modify_calm [OF l])
  then show ?thesis using app_setters_are_atomic [OF l f] f l by simp
qed

end
