(* ===== verification/Overlay_Telemetry.thy ===== *)
theory Overlay_Telemetry
  imports Capture_Wire Redunar_Text
begin

text \<open>
  The two fixed-size snapshots the daemon publishes to the in-game overlay,
  \<open>redunar-capture/src/overlay.rs\<close>: hardware metrics and the Replay menu. Each carries its revision
  twice, so that a reader rejects a torn update. The little-endian readers and writers of that file
  have the bodies of those of \<open>lib.rs\<close> and share their definitions.
\<close>

section \<open>Constants\<close>

definition OVERLAY_HARDWARE_TELEMETRY_BYTES :: nat where "OVERLAY_HARDWARE_TELEMETRY_BYTES = 48"
definition REPLAY_MENU_TELEMETRY_BYTES :: nat where "REPLAY_MENU_TELEMETRY_BYTES = 128"
definition REPLAY_SHORTCUT_LABEL_BYTES :: nat where "REPLAY_SHORTCUT_LABEL_BYTES = 40"
definition REPLAY_MENU_VARIABLE_FPS :: u8 where "REPLAY_MENU_VARIABLE_FPS = 240"
definition OVERLAY_MAGIC :: "u8 list" where "OVERLAY_MAGIC = ascii ''RDOVL001''"
definition OVERLAY_VERSION :: u16 where "OVERLAY_VERSION = 4"
definition CPU_UTILIZATION_PRESENT :: u16 where "CPU_UTILIZATION_PRESENT = 1"
definition CPU_TEMPERATURE_PRESENT :: u16 where "CPU_TEMPERATURE_PRESENT = 2"
definition GPU_UTILIZATION_PRESENT :: u16 where "GPU_UTILIZATION_PRESENT = 4"
definition GPU_TEMPERATURE_PRESENT :: u16 where "GPU_TEMPERATURE_PRESENT = 8"
definition KNOWN_FLAGS :: u16 where
  "KNOWN_FLAGS = CPU_UTILIZATION_PRESENT OR CPU_TEMPERATURE_PRESENT OR GPU_UTILIZATION_PRESENT
     OR GPU_TEMPERATURE_PRESENT"
definition MAX_UTILIZATION_TENTHS :: u16 where "MAX_UTILIZATION_TENTHS = 1000"
definition MAX_TEMPERATURE_TENTHS_CELSIUS :: u16 where "MAX_TEMPERATURE_TENTHS_CELSIUS = 2000"
definition REPLAY_MENU_MAGIC :: "u8 list" where "REPLAY_MENU_MAGIC = ascii ''RDRPM001''"
definition REPLAY_MENU_VERSION :: u16 where "REPLAY_MENU_VERSION = 2"

type_synonym overlay_telemetry_error = string

definition is_multiple_of :: "'a::len word \<Rightarrow> 'a word \<Rightarrow> bool" where
  "is_multiple_of a b \<longleftrightarrow> (if b = 0 then a = 0 else a mod b = 0)"

lemma is_multiple_of_2 [simp]: "is_multiple_of (x :: u64) 2 \<longleftrightarrow> even x"
  by (simp add: is_multiple_of_def even_iff_mod_2_eq_zero)

section \<open>Shortcut labels\<close>

record replay_shortcut_label =
  sl_bytes :: "u8 list"
  sl_length :: u8

definition label_EMPTY :: replay_shortcut_label where
  "label_EMPTY = \<lparr>sl_bytes = replicate REPLAY_SHORTCUT_LABEL_BYTES 0, sl_length = 0\<rparr>"

definition is_ascii_graphic :: "u8 \<Rightarrow> bool" where
  "is_ascii_graphic b \<longleftrightarrow> 33 \<le> unat b \<and> unat b \<le> 126"

definition label_byte :: "u8 \<Rightarrow> bool" where
  "label_byte b \<longleftrightarrow> is_ascii_graphic b \<or> b = 32"

definition label_push :: "replay_shortcut_label \<Rightarrow> u8 \<Rightarrow> replay_shortcut_label" where
  "label_push label byte =
     (let index = unat (sl_length label)
      in if index < length (sl_bytes label) \<and> (is_ascii_graphic byte \<or> byte = 32)
         then \<lparr>sl_bytes = (sl_bytes label)[index := byte], sl_length = saturating_add (sl_length label) 1\<rparr>
         else label)"

definition push_bytes :: "replay_shortcut_label \<Rightarrow> u8 list \<Rightarrow> replay_shortcut_label" where
  "push_bytes label bytes = fold (\<lambda>b l. label_push l b) bytes label"

definition to_ascii_uppercase :: "u8 \<Rightarrow> u8" where
  "to_ascii_uppercase b = (if 97 \<le> unat b \<and> unat b \<le> 122 then b - 32 else b)"

text \<open>\<open>str::trim\<close>, for the ASCII shortcuts the preferences admit: leading and trailing white space.\<close>

definition is_space :: "char \<Rightarrow> bool" where
  "is_space c \<longleftrightarrow> (of_char c :: nat) = 32 \<or> 9 \<le> (of_char c :: nat) \<and> (of_char c :: nat) \<le> 13"

definition trim :: "string \<Rightarrow> string" where
  "trim s = rev (dropWhile is_space (rev (dropWhile is_space s)))"

fun label_parts :: "nat \<Rightarrow> string list \<Rightarrow> replay_shortcut_label \<Rightarrow> replay_shortcut_label" where
  "label_parts index [] label = label"
| "label_parts index (part # rest) label =
     (let label = (if index > 0 then push_bytes label (ascii '' + '') else label)
      in label_parts (index + 1) rest (push_bytes label (map to_ascii_uppercase (ascii part))))"

definition label_from_shortcut :: "string \<Rightarrow> replay_shortcut_label" where
  "label_from_shortcut shortcut =
     label_parts 0 (filter (\<lambda>part. part \<noteq> []) (map trim (split_on (CHR ''+'') shortcut))) label_EMPTY"

definition label_as_bytes :: "replay_shortcut_label \<Rightarrow> u8 list" where
  "label_as_bytes label = take (unat (sl_length label)) (sl_bytes label)"

definition decode_shortcut_label :: "u8 \<Rightarrow> u8 list \<Rightarrow> overlay_telemetry_error + replay_shortcut_label" where
  "decode_shortcut_label len bytes =
     (let n = unat len
      in if n > REPLAY_SHORTCUT_LABEL_BYTES \<or> length bytes \<noteq> REPLAY_SHORTCUT_LABEL_BYTES
            \<or> list_ex (\<lambda>b. \<not> is_ascii_graphic b \<and> b \<noteq> 32) (take n bytes)
            \<or> list_ex (\<lambda>b. b \<noteq> 0) (drop n bytes)
         then Inl ''Replay shortcut label is invalid''
         else Inr \<lparr>sl_bytes = bytes, sl_length = word_of_nat n\<rparr>)"

section \<open>Replay menu snapshots\<close>

datatype replay_menu_status = Menu_unavailable | Menu_inactive | Menu_buffering | Menu_saving | Menu_failed

primrec menu_status_wire :: "replay_menu_status \<Rightarrow> u8" where
  "menu_status_wire Menu_unavailable = 0"
| "menu_status_wire Menu_inactive = 1"
| "menu_status_wire Menu_buffering = 2"
| "menu_status_wire Menu_saving = 3"
| "menu_status_wire Menu_failed = 4"

record replay_menu_telemetry =
  mt_revision :: u64
  mt_visible :: bool
  mt_pointer_pressed :: bool
  mt_cursor_x :: u16
  mt_cursor_y :: u16
  mt_hover_target :: u8
  mt_pressed_target :: u8
  mt_selected_duration_index :: u8
  mt_status :: replay_menu_status
  mt_available_seconds :: u16
  mt_click_revision :: u16
  mt_frame_rate :: u8
  mt_quality :: u8
  mt_output_format :: u8
  mt_save_enabled :: bool
  mt_overlay_shortcut :: replay_shortcut_label
  mt_save_shortcut :: replay_shortcut_label

definition validate_replay_menu :: "replay_menu_telemetry \<Rightarrow> overlay_telemetry_error + unit" where
  "validate_replay_menu v =
     (if mt_revision v = 0 \<or> \<not> is_multiple_of (mt_revision v) 2 \<or> mt_cursor_x v > 10000 \<or> mt_cursor_y v > 10000
         \<or> mt_hover_target v > 11 \<or> mt_pressed_target v > 11 \<or> mt_selected_duration_index v > 7
         \<or> mt_available_seconds v > 900
         \<or> \<not> (mt_frame_rate v = 60 \<or> mt_frame_rate v = REPLAY_MENU_VARIABLE_FPS)
         \<or> mt_quality v > 2 \<or> mt_output_format v > 1
         \<or> (\<not> mt_pointer_pressed v \<and> mt_pressed_target v \<noteq> 0)
      then Inl ''Replay menu configuration is invalid'' else Inr ())"

definition encode_replay_menu_telemetry :: "replay_menu_telemetry \<Rightarrow> u8 list \<Rightarrow>
    overlay_telemetry_error + (u8 list \<times> nat)" where
  "encode_replay_menu_telemetry v output =
     and_then (validate_replay_menu v) (\<lambda>_.
       if length output < REPLAY_MENU_TELEMETRY_BYTES then Inl ''Replay menu output buffer is too small''
       else
         let out = copy_at 0 (replicate REPLAY_MENU_TELEMETRY_BYTES 0) output;
             out = copy_at 0 REPLAY_MENU_MAGIC out;
             out = write_u16 8 REPLAY_MENU_VERSION out;
             out = write_u8 10 (of_bool (mt_visible v)) out;
             out = write_u8 11 (of_bool (mt_pointer_pressed v)) out;
             out = write_u16 12 (mt_cursor_x v) out;
             out = write_u16 14 (mt_cursor_y v) out;
             out = write_u64 16 (mt_revision v) out;
             out = write_u8 24 (mt_hover_target v) out;
             out = write_u8 25 (mt_pressed_target v) out;
             out = write_u8 26 (mt_selected_duration_index v) out;
             out = write_u8 27 (menu_status_wire (mt_status v)) out;
             out = write_u16 28 (mt_available_seconds v) out;
             out = write_u16 30 (mt_click_revision v) out;
             out = write_u8 32 (mt_frame_rate v) out;
             out = write_u8 33 (mt_quality v) out;
             out = write_u8 34 (mt_output_format v) out;
             out = write_u8 35 (of_bool (mt_save_enabled v)) out;
             out = write_u8 36 (sl_length (mt_overlay_shortcut v)) out;
             out = write_u8 37 (sl_length (mt_save_shortcut v)) out;
             out = copy_at 40 (sl_bytes (mt_overlay_shortcut v)) out;
             out = copy_at 80 (sl_bytes (mt_save_shortcut v)) out;
             out = write_u64 120 (mt_revision v) out
         in Inr (out, REPLAY_MENU_TELEMETRY_BYTES))"

definition menu_status_from_wire :: "u8 \<Rightarrow> overlay_telemetry_error + replay_menu_status" where
  "menu_status_from_wire b =
     (if b = 0 then Inr Menu_unavailable else if b = 1 then Inr Menu_inactive else if b = 2 then Inr Menu_buffering
      else if b = 3 then Inr Menu_saving else if b = 4 then Inr Menu_failed
      else Inl ''Replay menu status is invalid'')"

definition decode_replay_menu_telemetry :: "u8 list \<Rightarrow> overlay_telemetry_error + replay_menu_telemetry" where
  "decode_replay_menu_telemetry inp =
     (if length inp \<noteq> REPLAY_MENU_TELEMETRY_BYTES \<or> take 8 inp \<noteq> REPLAY_MENU_MAGIC
      then Inl ''Replay menu telemetry is invalid''
      else if read_u16 inp 8 \<noteq> REPLAY_MENU_VERSION then Inl ''Replay menu version is unsupported''
      else
        and_then (menu_status_from_wire (inp ! 27)) (\<lambda>status.
        and_then (decode_shortcut_label (inp ! 36) (slice 40 40 inp)) (\<lambda>overlay_shortcut.
        and_then (decode_shortcut_label (inp ! 37) (slice 80 40 inp)) (\<lambda>save_shortcut.
          let v = \<lparr>mt_revision = read_u64 inp 16, mt_visible = (inp ! 10 = 1), mt_pointer_pressed = (inp ! 11 = 1),
                mt_cursor_x = read_u16 inp 12, mt_cursor_y = read_u16 inp 14, mt_hover_target = inp ! 24,
                mt_pressed_target = inp ! 25, mt_selected_duration_index = inp ! 26, mt_status = status,
                mt_available_seconds = read_u16 inp 28, mt_click_revision = read_u16 inp 30,
                mt_frame_rate = inp ! 32, mt_quality = inp ! 33, mt_output_format = inp ! 34,
                mt_save_enabled = (inp ! 35 = 1), mt_overlay_shortcut = overlay_shortcut,
                mt_save_shortcut = save_shortcut\<rparr>
          in if inp ! 10 > 1 \<or> inp ! 11 > 1 \<or> inp ! 35 > 1 \<or> slice 38 2 inp \<noteq> [0, 0]
             then Inl ''Replay menu encoding is not canonical''
             else if read_u64 inp 120 \<noteq> mt_revision v then Inl ''Replay menu update is incomplete''
             else and_then (validate_replay_menu v) (\<lambda>_. Inr v)))))"

section \<open>Hardware snapshots\<close>

record overlay_hardware_telemetry =
  ht_revision :: u64
  ht_corner :: u8
  ht_preset :: u8
  ht_layout :: u8
  ht_palette :: u8
  ht_metrics :: u16
  ht_opacity_percent :: u8
  ht_scale_percent :: u8
  ht_replay_saved_revision :: u16
  ht_metrics_visible :: "bool option"
  ht_branding_visible :: bool
  ht_cpu_utilization_tenths :: "u16 option"
  ht_cpu_temperature_tenths_celsius :: "u16 option"
  ht_gpu_utilization_tenths :: "u16 option"
  ht_gpu_temperature_tenths_celsius :: "u16 option"

definition any_above :: "u16 \<Rightarrow> u16 option list \<Rightarrow> bool" where
  "any_above limit vs = list_ex (\<lambda>v. case v of None \<Rightarrow> False | Some x \<Rightarrow> x > limit) vs"

definition validate_hardware :: "overlay_hardware_telemetry \<Rightarrow> overlay_telemetry_error + unit" where
  "validate_hardware t =
     (if ht_revision t = 0 \<or> \<not> is_multiple_of (ht_revision t) 2
      then Inl ''overlay telemetry revision must be positive and even''
      else if ht_corner t > 3 \<or> ht_preset t > 3 \<or> ht_layout t > 2 \<or> ht_palette t > 7 \<or> ht_metrics t = 0
        \<or> ht_opacity_percent t > 100 \<or> \<not> (50 \<le> ht_scale_percent t \<and> ht_scale_percent t \<le> 200)
        \<or> \<not> is_multiple_of (ht_scale_percent t) 5
      then Inl ''overlay configuration is invalid''
      else if any_above MAX_UTILIZATION_TENTHS [ht_cpu_utilization_tenths t, ht_gpu_utilization_tenths t]
      then Inl ''overlay utilization is outside 0 to 100 percent''
      else if any_above MAX_TEMPERATURE_TENTHS_CELSIUS
        [ht_cpu_temperature_tenths_celsius t, ht_gpu_temperature_tenths_celsius t]
      then Inl ''overlay temperature is outside the supported range''
      else Inr ())"

definition write_optional :: "nat \<Rightarrow> u16 option \<Rightarrow> u16 \<Rightarrow> u8 list \<times> u16 \<Rightarrow> u8 list \<times> u16" where
  "write_optional offset value flag = (\<lambda>(out, flags).
     case value of None \<Rightarrow> (out, flags) | Some v \<Rightarrow> (write_u16 offset v out, flags OR flag))"

definition visible_code :: "bool option \<Rightarrow> u8" where
  "visible_code v = (case v of None \<Rightarrow> 0 | Some b \<Rightarrow> if b then 1 else 2)"

definition encode_overlay_hardware_telemetry :: "overlay_hardware_telemetry \<Rightarrow> u8 list \<Rightarrow>
    overlay_telemetry_error + (u8 list \<times> nat)" where
  "encode_overlay_hardware_telemetry t output =
     and_then (validate_hardware t) (\<lambda>_.
       if length output < OVERLAY_HARDWARE_TELEMETRY_BYTES
       then Inl ''overlay telemetry output buffer is too small''
       else
         let out = copy_at 0 (replicate OVERLAY_HARDWARE_TELEMETRY_BYTES 0) output;
             out = copy_at 0 OVERLAY_MAGIC out;
             out = write_u16 8 OVERLAY_VERSION out;
             (out, flags) = write_optional 24 (ht_cpu_utilization_tenths t) CPU_UTILIZATION_PRESENT (out, 0);
             (out, flags) = write_optional 26 (ht_cpu_temperature_tenths_celsius t) CPU_TEMPERATURE_PRESENT
                              (out, flags);
             (out, flags) = write_optional 28 (ht_gpu_utilization_tenths t) GPU_UTILIZATION_PRESENT (out, flags);
             (out, flags) = write_optional 30 (ht_gpu_temperature_tenths_celsius t) GPU_TEMPERATURE_PRESENT
                              (out, flags);
             out = write_u16 10 flags out;
             out = write_u8 12 (ht_corner t) out;
             out = write_u8 13 (ht_preset t) out;
             out = write_u16 14 (ht_metrics t) out;
             out = write_u8 32 (ht_opacity_percent t) out;
             out = write_u8 33 (ht_scale_percent t) out;
             out = write_u16 34 (ht_replay_saved_revision t) out;
             out = write_u8 36 (visible_code (ht_metrics_visible t)) out;
             out = write_u8 37 (ht_layout t) out;
             out = write_u8 38 (ht_palette t) out;
             out = write_u8 39 (of_bool (ht_branding_visible t)) out;
             out = write_u64 16 (ht_revision t) out;
             out = write_u64 40 (ht_revision t) out
         in Inr (out, OVERLAY_HARDWARE_TELEMETRY_BYTES))"

definition read_optional :: "u8 list \<Rightarrow> nat \<Rightarrow> u16 \<Rightarrow> u16 \<Rightarrow> u16 option" where
  "read_optional inp offset flags flag = (if flags AND flag \<noteq> 0 then Some (read_u16 inp offset) else None)"

definition visible_from_code :: "u8 \<Rightarrow> overlay_telemetry_error + bool option" where
  "visible_from_code b =
     (if b = 0 then Inr None else if b = 1 then Inr (Some True) else if b = 2 then Inr (Some False)
      else Inl ''invalid overlay visibility'')"

definition branding_from_code :: "u8 \<Rightarrow> overlay_telemetry_error + bool" where
  "branding_from_code b =
     (if b = 0 then Inr False else if b = 1 then Inr True else Inl ''invalid branding visibility'')"

definition decode_overlay_hardware_telemetry :: "u8 list \<Rightarrow>
    overlay_telemetry_error + overlay_hardware_telemetry" where
  "decode_overlay_hardware_telemetry inp =
     (if length inp \<noteq> OVERLAY_HARDWARE_TELEMETRY_BYTES then Inl ''overlay telemetry has invalid size''
      else if take 8 inp \<noteq> OVERLAY_MAGIC then Inl ''overlay telemetry has invalid magic''
      else if read_u16 inp 8 \<noteq> OVERLAY_VERSION then Inl ''overlay telemetry version is unsupported''
      else
        let flags = read_u16 inp 10
        in if flags AND NOT KNOWN_FLAGS \<noteq> 0 then Inl ''overlay telemetry flags are unsupported''
           else
             let revision = read_u64 inp 16
             in if revision = 0 \<or> \<not> is_multiple_of revision 2 \<or> revision \<noteq> read_u64 inp 40
                then Inl ''overlay telemetry update is incomplete''
                else
                  and_then (visible_from_code (inp ! 36)) (\<lambda>metrics_visible.
                  and_then (branding_from_code (inp ! 39)) (\<lambda>branding_visible.
                    let t = \<lparr>ht_revision = revision, ht_corner = inp ! 12, ht_preset = inp ! 13,
                          ht_layout = inp ! 37, ht_palette = inp ! 38, ht_metrics = read_u16 inp 14,
                          ht_opacity_percent = inp ! 32, ht_scale_percent = inp ! 33,
                          ht_replay_saved_revision = read_u16 inp 34, ht_metrics_visible = metrics_visible,
                          ht_branding_visible = branding_visible,
                          ht_cpu_utilization_tenths = read_optional inp 24 flags CPU_UTILIZATION_PRESENT,
                          ht_cpu_temperature_tenths_celsius = read_optional inp 26 flags CPU_TEMPERATURE_PRESENT,
                          ht_gpu_utilization_tenths = read_optional inp 28 flags GPU_UTILIZATION_PRESENT,
                          ht_gpu_temperature_tenths_celsius = read_optional inp 30 flags GPU_TEMPERATURE_PRESENT\<rparr>
                    in and_then (validate_hardware t) (\<lambda>_. Inr t))))"

section \<open>Labels\<close>

text \<open>The fields of a label are private, so every label satisfies what its constructors establish.\<close>

definition label_ok :: "replay_shortcut_label \<Rightarrow> bool" where
  "label_ok l \<longleftrightarrow> length (sl_bytes l) = REPLAY_SHORTCUT_LABEL_BYTES
     \<and> unat (sl_length l) \<le> REPLAY_SHORTCUT_LABEL_BYTES
     \<and> list_all label_byte (label_as_bytes l) \<and> list_all (\<lambda>b. b = 0) (drop (unat (sl_length l)) (sl_bytes l))"

lemma label_ok_EMPTY [simp]: "label_ok label_EMPTY"
  by (simp add: label_ok_def label_EMPTY_def label_as_bytes_def list_all_iff)

lemma label_push_append:
  assumes "label_ok l"
  shows "label_as_bytes (label_push l b) =
    (if label_byte b \<and> length (label_as_bytes l) < REPLAY_SHORTCUT_LABEL_BYTES
     then label_as_bytes l @ [b] else label_as_bytes l) \<and> label_ok (label_push l b)"
proof (cases "label_byte b \<and> unat (sl_length l) < length (sl_bytes l)")
  case True
  have n: "unat (sl_length l) < 40" using True assms by (simp add: label_ok_def REPLAY_SHORTCUT_LABEL_BYTES_def)
  then have "unat (saturating_add (sl_length l) 1) = Suc (unat (sl_length l))"
    by (simp add: unat_saturating_add)
  then show ?thesis
    using True assms set_drop_subset_set_drop [of "unat (sl_length l)" "Suc (unat (sl_length l))" "sl_bytes l"]
    by (auto simp: label_push_def label_byte_def label_ok_def label_as_bytes_def take_Suc_conv_app_nth
        list_all_iff drop_update_cancel)
qed (use assms in \<open>auto simp: label_push_def label_byte_def label_ok_def label_as_bytes_def\<close>)

lemma push_bytes_ok: "label_ok l \<Longrightarrow> label_ok (push_bytes l bs)"
  unfolding push_bytes_def by (induction bs arbitrary: l) (simp_all add: label_push_append)

lemma label_parts_ok: "label_ok l \<Longrightarrow> label_ok (label_parts i ps l)"
  by (induction i ps l rule: label_parts.induct) (simp_all add: push_bytes_ok Let_def)

lemma label_from_shortcut_ok [simp]: "label_ok (label_from_shortcut s)"
  by (simp add: label_from_shortcut_def label_parts_ok)

section \<open>The menu snapshot as one layout\<close>

definition menu_wire :: "replay_menu_telemetry \<Rightarrow> u8 list" where
  "menu_wire v = REPLAY_MENU_MAGIC @ u16_to_le_bytes REPLAY_MENU_VERSION
     @ [of_bool (mt_visible v)] @ [of_bool (mt_pointer_pressed v)] @ u16_to_le_bytes (mt_cursor_x v)
     @ u16_to_le_bytes (mt_cursor_y v) @ u64_to_le_bytes (mt_revision v)
     @ [mt_hover_target v] @ [mt_pressed_target v] @ [mt_selected_duration_index v]
     @ [menu_status_wire (mt_status v)] @ u16_to_le_bytes (mt_available_seconds v)
     @ u16_to_le_bytes (mt_click_revision v) @ [mt_frame_rate v] @ [mt_quality v] @ [mt_output_format v]
     @ [of_bool (mt_save_enabled v)] @ [sl_length (mt_overlay_shortcut v)]
     @ [sl_length (mt_save_shortcut v)] @ [0, 0]
     @ sl_bytes (mt_overlay_shortcut v) @ sl_bytes (mt_save_shortcut v) @ u64_to_le_bytes (mt_revision v)"

definition menu_labels_ok :: "replay_menu_telemetry \<Rightarrow> bool" where
  "menu_labels_ok v \<longleftrightarrow> label_ok (mt_overlay_shortcut v) \<and> label_ok (mt_save_shortcut v)"

lemmas menu_sizes = REPLAY_MENU_TELEMETRY_BYTES_def REPLAY_SHORTCUT_LABEL_BYTES_def

lemma length_menu_magic [simp]: "length REPLAY_MENU_MAGIC = 8" "length OVERLAY_MAGIC = 8"
  by (simp_all add: REPLAY_MENU_MAGIC_def OVERLAY_MAGIC_def)

lemma label_ok_length: "label_ok l \<Longrightarrow> length (sl_bytes l) = 40"
  by (simp add: label_ok_def menu_sizes)

lemma encode_menu_wire:
  assumes "validate_replay_menu v = Inr ()" "menu_labels_ok v" "128 \<le> length out"
  shows "encode_replay_menu_telemetry v out = Inr (menu_wire v @ drop 128 out, 128)"
proof -
  have z: "copy_at 0 (replicate 128 0) out = zbuf [] 128 (drop 128 out)"
    by (simp add: copy_at_def zbuf_def)
  have l: "length (sl_bytes (mt_overlay_shortcut v)) = 40" "length (sl_bytes (mt_save_shortcut v)) = 40"
    using assms(2) by (simp_all add: menu_labels_ok_def label_ok_length)
  show ?thesis
    using assms(1,3)
    by (simp add: encode_replay_menu_telemetry_def menu_sizes Let_def z write_u16_def write_u64_def
        write_u8_zbuf copy_at_zbuf l menu_wire_def numeral_2_eq_2 and_then_Inr)
      (simp add: zbuf_def)
qed

lemma menu_status_wire_inverse: "menu_status_from_wire b = Inr st \<longleftrightarrow> b = menu_status_wire st"
  by (cases st) (auto simp: menu_status_from_wire_def)

lemma decode_shortcut_label_iff:
  "decode_shortcut_label n bs = Inr l \<longleftrightarrow> label_ok l \<and> n = sl_length l \<and> bs = sl_bytes l"
  by (cases l) (auto simp: decode_shortcut_label_def label_ok_def label_as_bytes_def label_byte_def
      list_ex_iff list_all_iff Let_def menu_sizes)

lemma bool_byte_iff: "\<not> 1 < (b :: u8) \<and> x = (b = 1) \<longleftrightarrow> b = of_bool x"
proof -
  have "\<not> 1 < b \<longleftrightarrow> b = 0 \<or> b = 1"
    by (simp add: word_less_nat_alt word_eq_iff_unat not_less le_Suc_eq)
  then show ?thesis by (cases x) auto
qed

lemma slice_pair: "i + 2 \<le> length p \<Longrightarrow> slice i 2 p = [p ! i, p ! (i + 1)]"
  using slice_one [of i p] slice_one [of "i + 1" p]
  by (auto simp: slice_def numeral_2_eq_2 take_Suc_conv_app_nth)

lemma menu_eta [simp]:
  "\<lparr>mt_revision = mt_revision v, mt_visible = mt_visible v, mt_pointer_pressed = mt_pointer_pressed v,
    mt_cursor_x = mt_cursor_x v, mt_cursor_y = mt_cursor_y v, mt_hover_target = mt_hover_target v,
    mt_pressed_target = mt_pressed_target v, mt_selected_duration_index = mt_selected_duration_index v,
    mt_status = mt_status v, mt_available_seconds = mt_available_seconds v,
    mt_click_revision = mt_click_revision v, mt_frame_rate = mt_frame_rate v, mt_quality = mt_quality v,
    mt_output_format = mt_output_format v, mt_save_enabled = mt_save_enabled v,
    mt_overlay_shortcut = mt_overlay_shortcut v, mt_save_shortcut = mt_save_shortcut v\<rparr> = v"
  by (cases v) simp

lemma decode_menu_wire:
  assumes "validate_replay_menu v = Inr ()" "menu_labels_ok v"
  shows "decode_replay_menu_telemetry (menu_wire v) = Inr v"
proof -
  have l: "length (sl_bytes (mt_overlay_shortcut v)) = 40" "length (sl_bytes (mt_save_shortcut v)) = 40"
    using assms(2) by (simp_all add: menu_labels_ok_def label_ok_length)
  have d: "decode_shortcut_label (sl_length (mt_overlay_shortcut v)) (sl_bytes (mt_overlay_shortcut v))
      = Inr (mt_overlay_shortcut v)"
    "decode_shortcut_label (sl_length (mt_save_shortcut v)) (sl_bytes (mt_save_shortcut v))
      = Inr (mt_save_shortcut v)"
    "menu_status_from_wire (menu_status_wire (mt_status v)) = Inr (mt_status v)"
    using assms(2) by (simp_all add: decode_shortcut_label_iff menu_labels_ok_def menu_status_wire_inverse)
  have b: "\<not> 1 < (of_bool b :: u8)" for b by simp
  show ?thesis
    using assms(1)
    by (simp add: decode_replay_menu_telemetry_def menu_sizes menu_wire_def l d b read_u16_def read_u64_def
        slice_layout nth_append nth_Cons' Let_def)
qed

lemma decode_menu_sound:
  assumes "decode_replay_menu_telemetry inp = Inr v"
  shows "validate_replay_menu v = Inr () \<and> menu_labels_ok v \<and> inp = menu_wire v"
proof -
  from assms have len: "length inp = 128" and mg: "take 8 inp = REPLAY_MENU_MAGIC"
    and ver: "u16_from_le_bytes (slice 8 2 inp) = REPLAY_MENU_VERSION"
    and val: "validate_replay_menu v = Inr ()"
    and st: "menu_status_from_wire (inp ! 27) = Inr (mt_status v)"
    and ol: "decode_shortcut_label (inp ! 36) (slice 40 40 inp) = Inr (mt_overlay_shortcut v)"
    and sl: "decode_shortcut_label (inp ! 37) (slice 80 40 inp) = Inr (mt_save_shortcut v)"
    and res: "slice 38 2 inp = [0, 0]"
    and bools: "inp ! 10 = of_bool (mt_visible v)" "inp ! 11 = of_bool (mt_pointer_pressed v)"
      "inp ! 35 = of_bool (mt_save_enabled v)"
    and words: "mt_revision v = u64_from_le_bytes (slice 16 8 inp)" "mt_revision v = u64_from_le_bytes (slice 120 8 inp)"
      "mt_cursor_x v = u16_from_le_bytes (slice 12 2 inp)" "mt_cursor_y v = u16_from_le_bytes (slice 14 2 inp)"
      "mt_available_seconds v = u16_from_le_bytes (slice 28 2 inp)"
      "mt_click_revision v = u16_from_le_bytes (slice 30 2 inp)"
    and bytes: "mt_hover_target v = inp ! 24" "mt_pressed_target v = inp ! 25"
      "mt_selected_duration_index v = inp ! 26" "mt_frame_rate v = inp ! 32" "mt_quality v = inp ! 33"
      "mt_output_format v = inp ! 34"
    by (auto simp: decode_replay_menu_telemetry_def menu_sizes and_then_Inr Let_def read_u16_def read_u64_def
        simp flip: bool_byte_iff split: if_splits)
  note lab = ol [unfolded decode_shortcut_label_iff] sl [unfolded decode_shortcut_label_iff]
  have mg': "slice 0 8 inp = REPLAY_MENU_MAGIC" by (simp add: slice_def mg)
  have v: "slice 8 2 inp = u16_to_le_bytes REPLAY_MENU_VERSION"
    using le_to_from(1) [of "slice 8 2 inp"] len by (simp add: ver)
  have r: "slice 120 8 inp = u64_to_le_bytes (mt_revision v)"
    using le_to_from(3) [of "slice 120 8 inp"] len by (simp add: words(2))
  have "inp = parts 0 [8, 2, 1, 1, 2, 2, 8, 1, 1, 1, 1, 2, 2, 1, 1, 1, 1, 1, 1, 2, 40, 40, 8] inp"
    by (rule parts_all) (simp add: len)
  also have "\<dots> = menu_wire v"
    using len lab st [unfolded menu_status_wire_inverse]
    by (simp add: menu_wire_def mg' v r res bools words bytes le_to_from slice_byte)
  finally show ?thesis using lab val by (simp add: menu_labels_ok_def)
qed

section \<open>The hardware snapshot as one layout\<close>

definition opt_wire :: "u16 option \<Rightarrow> u8 list" where
  "opt_wire v = (case v of None \<Rightarrow> [0, 0] | Some x \<Rightarrow> u16_to_le_bytes x)"

definition opt_flag :: "u16 option \<Rightarrow> u16 \<Rightarrow> u16" where
  "opt_flag v flag = (case v of None \<Rightarrow> 0 | Some _ \<Rightarrow> flag)"

definition hardware_flags :: "overlay_hardware_telemetry \<Rightarrow> u16" where
  "hardware_flags t = opt_flag (ht_cpu_utilization_tenths t) CPU_UTILIZATION_PRESENT
     OR opt_flag (ht_cpu_temperature_tenths_celsius t) CPU_TEMPERATURE_PRESENT
     OR opt_flag (ht_gpu_utilization_tenths t) GPU_UTILIZATION_PRESENT
     OR opt_flag (ht_gpu_temperature_tenths_celsius t) GPU_TEMPERATURE_PRESENT"

definition hardware_wire :: "overlay_hardware_telemetry \<Rightarrow> u8 list" where
  "hardware_wire t = OVERLAY_MAGIC @ u16_to_le_bytes OVERLAY_VERSION @ u16_to_le_bytes (hardware_flags t)
     @ [ht_corner t] @ [ht_preset t] @ u16_to_le_bytes (ht_metrics t) @ u64_to_le_bytes (ht_revision t)
     @ opt_wire (ht_cpu_utilization_tenths t) @ opt_wire (ht_cpu_temperature_tenths_celsius t)
     @ opt_wire (ht_gpu_utilization_tenths t) @ opt_wire (ht_gpu_temperature_tenths_celsius t)
     @ [ht_opacity_percent t] @ [ht_scale_percent t] @ u16_to_le_bytes (ht_replay_saved_revision t)
     @ [visible_code (ht_metrics_visible t)] @ [ht_layout t] @ [ht_palette t]
     @ [of_bool (ht_branding_visible t)] @ u64_to_le_bytes (ht_revision t)"

lemma length_opt_wire [simp]: "length (opt_wire v) = 2"
  by (simp add: opt_wire_def split: option.split)

lemma write_optional_as_copy:
  "slice off 2 out = [0, 0] \<Longrightarrow> off + 2 \<le> length out \<Longrightarrow>
   write_optional off v flag (out, fl) = (copy_at off (opt_wire v) out, fl OR opt_flag v flag)"
  using append_take_drop_id [of 2 "drop off out"]
  by (auto simp: write_optional_def opt_wire_def opt_flag_def write_u16_def copy_at_def slice_def
      add.commute split: option.split)

lemma write_u8_as_copy: "off < length out \<Longrightarrow> write_u8 off b out = copy_at off [b] out"
  by (simp add: write_u8_def copy_at_def upd_conv_take_nth_drop)

lemma copy_at_append1: "off + length bs \<le> length A \<Longrightarrow> copy_at off bs (A @ B) = copy_at off bs A @ B"
  by (simp add: copy_at_def)

lemma copy_at_append2: "length A \<le> off \<Longrightarrow> copy_at off bs (A @ B) = A @ copy_at (off - length A) bs B"
  by (simp add: copy_at_def)

lemma copy_at_Cons: "0 < off \<Longrightarrow> copy_at off bs (x # xs) = x # copy_at (off - 1) bs xs"
  by (cases off) (simp_all add: copy_at_def)

lemma copy_at_zeros:
  "off + length bs \<le> k \<Longrightarrow>
   copy_at off bs (replicate k 0) = replicate off 0 @ bs @ replicate (k - off - length bs) 0"
  by (simp add: copy_at_def min_def)

lemma zero_pair: "replicate 2 x = [x, x]"
  by (simp add: numeral_2_eq_2)

lemmas copy_layout = copy_at_Cons copy_at_append1 copy_at_append2 copy_at_zeros zero_pair slice_layout slice_replicate

lemma write_optional_zeros:
  assumes "length A = off"
  shows "write_optional off v flag (A @ replicate (2 + k) 0 @ R, fl)
    = ((A @ opt_wire v) @ replicate k 0 @ R, fl OR opt_flag v flag)"
  using assms by (simp add: write_optional_as_copy copy_layout) (simp add: copy_at_def)

lemma encode_hardware_wire:
  assumes "validate_hardware t = Inr ()" "48 \<le> length out"
  shows "encode_overlay_hardware_telemetry t out = Inr (hardware_wire t @ drop 48 out, 48)"
proof -
  let ?R = "drop 48 out" and ?A = "OVERLAY_MAGIC @ u16_to_le_bytes OVERLAY_VERSION @ replicate 14 0"
  let ?o = "opt_wire (ht_cpu_utilization_tenths t)" and ?p = "opt_wire (ht_cpu_temperature_tenths_celsius t)"
    and ?q = "opt_wire (ht_gpu_utilization_tenths t)" and ?r = "opt_wire (ht_gpu_temperature_tenths_celsius t)"
  have z: "copy_at 0 (replicate 48 0) out = replicate 48 0 @ ?R" by (simp add: copy_at_def)
  have a: "write_u16 8 OVERLAY_VERSION (copy_at 0 OVERLAY_MAGIC (replicate 48 0 @ ?R))
      = ?A @ replicate 24 0 @ ?R"
    using replicate_add [of 14 24 "0 :: u8"] by (simp add: write_u16_def copy_layout)
  have b: "write_u64 40 (ht_revision t) (write_u64 16 (ht_revision t) (write_u8 39 (of_bool (ht_branding_visible t))
      (write_u8 38 (ht_palette t) (write_u8 37 (ht_layout t) (write_u8 36 (visible_code (ht_metrics_visible t))
      (write_u16 34 (ht_replay_saved_revision t) (write_u8 33 (ht_scale_percent t)
      (write_u8 32 (ht_opacity_percent t) (write_u16 14 (ht_metrics t) (write_u8 13 (ht_preset t)
      (write_u8 12 (ht_corner t) (write_u16 10 (hardware_flags t)
        (((((?A @ ?o) @ ?p) @ ?q) @ ?r) @ replicate 16 0 @ ?R)))))))))))))
    = hardware_wire t @ ?R"
    by (simp add: write_u16_def write_u64_def write_u8_as_copy copy_layout hardware_wire_def)
  have w1: "write_optional 24 (ht_cpu_utilization_tenths t) CPU_UTILIZATION_PRESENT (?A @ replicate 24 0 @ ?R, fl)
      = ((?A @ ?o) @ replicate 22 0 @ ?R, fl OR opt_flag (ht_cpu_utilization_tenths t) CPU_UTILIZATION_PRESENT)" for fl
    using write_optional_zeros [of ?A 24 _ _ 22 ?R] by simp
  have w2: "write_optional 26 (ht_cpu_temperature_tenths_celsius t) CPU_TEMPERATURE_PRESENT ((?A @ ?o) @ replicate 22 0 @ ?R, fl)
      = (((?A @ ?o) @ ?p) @ replicate 20 0 @ ?R, fl OR opt_flag (ht_cpu_temperature_tenths_celsius t) CPU_TEMPERATURE_PRESENT)" for fl
    using write_optional_zeros [of "(?A @ ?o)" 26 _ _ 20 ?R] by simp
  have w3: "write_optional 28 (ht_gpu_utilization_tenths t) GPU_UTILIZATION_PRESENT (((?A @ ?o) @ ?p) @ replicate 20 0 @ ?R, fl)
      = ((((?A @ ?o) @ ?p) @ ?q) @ replicate 18 0 @ ?R, fl OR opt_flag (ht_gpu_utilization_tenths t) GPU_UTILIZATION_PRESENT)" for fl
    using write_optional_zeros [of "((?A @ ?o) @ ?p)" 28 _ _ 18 ?R] by simp
  have w4: "write_optional 30 (ht_gpu_temperature_tenths_celsius t) GPU_TEMPERATURE_PRESENT ((((?A @ ?o) @ ?p) @ ?q) @ replicate 18 0 @ ?R, fl)
      = (((((?A @ ?o) @ ?p) @ ?q) @ ?r) @ replicate 16 0 @ ?R, fl OR opt_flag (ht_gpu_temperature_tenths_celsius t) GPU_TEMPERATURE_PRESENT)" for fl
    using write_optional_zeros [of "(((?A @ ?o) @ ?p) @ ?q)" 30 _ _ 16 ?R] by simp
  have f: "(((0 OR opt_flag (ht_cpu_utilization_tenths t) CPU_UTILIZATION_PRESENT)
      OR opt_flag (ht_cpu_temperature_tenths_celsius t) CPU_TEMPERATURE_PRESENT)
      OR opt_flag (ht_gpu_utilization_tenths t) GPU_UTILIZATION_PRESENT)
      OR opt_flag (ht_gpu_temperature_tenths_celsius t) GPU_TEMPERATURE_PRESENT = hardware_flags t"
    by (simp add: hardware_flags_def or.assoc)
  have "\<not> length out < 48" using assms(2) by simp
  then show ?thesis
    by (simp only: encode_overlay_hardware_telemetry_def OVERLAY_HARDWARE_TELEMETRY_BYTES_def assms(1)
        and_then_def sum.case if_False Let_def z a w1 w2 w3 w4 prod.case f b)
qed

lemma hardware_eta [simp]:
  "\<lparr>ht_revision = ht_revision t, ht_corner = ht_corner t, ht_preset = ht_preset t, ht_layout = ht_layout t,
    ht_palette = ht_palette t, ht_metrics = ht_metrics t, ht_opacity_percent = ht_opacity_percent t,
    ht_scale_percent = ht_scale_percent t, ht_replay_saved_revision = ht_replay_saved_revision t,
    ht_metrics_visible = ht_metrics_visible t, ht_branding_visible = ht_branding_visible t,
    ht_cpu_utilization_tenths = ht_cpu_utilization_tenths t,
    ht_cpu_temperature_tenths_celsius = ht_cpu_temperature_tenths_celsius t,
    ht_gpu_utilization_tenths = ht_gpu_utilization_tenths t,
    ht_gpu_temperature_tenths_celsius = ht_gpu_temperature_tenths_celsius t\<rparr> = t"
  by (cases t) simp

lemma hardware_flags_test:
  "hardware_flags t AND CPU_UTILIZATION_PRESENT = opt_flag (ht_cpu_utilization_tenths t) CPU_UTILIZATION_PRESENT"
  "hardware_flags t AND CPU_TEMPERATURE_PRESENT
    = opt_flag (ht_cpu_temperature_tenths_celsius t) CPU_TEMPERATURE_PRESENT"
  "hardware_flags t AND GPU_UTILIZATION_PRESENT = opt_flag (ht_gpu_utilization_tenths t) GPU_UTILIZATION_PRESENT"
  "hardware_flags t AND GPU_TEMPERATURE_PRESENT
    = opt_flag (ht_gpu_temperature_tenths_celsius t) GPU_TEMPERATURE_PRESENT"
  "hardware_flags t AND NOT KNOWN_FLAGS = 0"
  by (simp_all add: hardware_flags_def opt_flag_def CPU_UTILIZATION_PRESENT_def CPU_TEMPERATURE_PRESENT_def
      GPU_UTILIZATION_PRESENT_def GPU_TEMPERATURE_PRESENT_def KNOWN_FLAGS_def split: option.split)

lemma read_opt_wire:
  "slice off 2 p = opt_wire v \<Longrightarrow> flags AND flag = opt_flag v flag \<Longrightarrow> flag \<noteq> 0 \<Longrightarrow>
   read_optional p off flags flag = v"
  by (simp add: read_optional_def read_u16_def opt_flag_def opt_wire_def split: option.splits)

lemma flags_nonzero [simp]: "CPU_UTILIZATION_PRESENT \<noteq> 0" "CPU_TEMPERATURE_PRESENT \<noteq> 0"
  "GPU_UTILIZATION_PRESENT \<noteq> 0" "GPU_TEMPERATURE_PRESENT \<noteq> 0"
  by (simp_all add: CPU_UTILIZATION_PRESENT_def CPU_TEMPERATURE_PRESENT_def
      GPU_UTILIZATION_PRESENT_def GPU_TEMPERATURE_PRESENT_def)

lemma visible_code_inverse: "visible_from_code b = Inr x \<longleftrightarrow> b = visible_code x"
  by (auto simp: visible_from_code_def visible_code_def split: option.split)

lemma branding_code_inverse: "branding_from_code b = Inr x \<longleftrightarrow> b = of_bool x"
  by (cases x) (auto simp: branding_from_code_def)

lemma decode_hardware_wire:
  assumes "validate_hardware t = Inr ()"
  shows "decode_overlay_hardware_telemetry (hardware_wire t) = Inr t"
proof -
  have d: "visible_from_code (visible_code (ht_metrics_visible t)) = Inr (ht_metrics_visible t)"
    "branding_from_code (of_bool (ht_branding_visible t)) = Inr (ht_branding_visible t)"
    by (simp_all only: visible_code_inverse branding_code_inverse)
  have r: "ht_revision t \<noteq> 0" "even (ht_revision t)"
    using assms by (auto simp: validate_hardware_def split: if_splits)
  let ?w = "hardware_wire t"
  have sl: "slice 24 2 ?w = opt_wire (ht_cpu_utilization_tenths t)"
    "slice 26 2 ?w = opt_wire (ht_cpu_temperature_tenths_celsius t)"
    "slice 28 2 ?w = opt_wire (ht_gpu_utilization_tenths t)"
    "slice 30 2 ?w = opt_wire (ht_gpu_temperature_tenths_celsius t)"
    by (simp_all add: hardware_wire_def slice_layout)
  note o1 = read_opt_wire [OF sl(1) hardware_flags_test(1) flags_nonzero(1)]
  note o2 = read_opt_wire [OF sl(2) hardware_flags_test(2) flags_nonzero(2)]
  note o3 = read_opt_wire [OF sl(3) hardware_flags_test(3) flags_nonzero(3)]
  note o4 = read_opt_wire [OF sl(4) hardware_flags_test(4) flags_nonzero(4)]
  have w: "length ?w = 48" "take 8 ?w = OVERLAY_MAGIC" "read_u16 ?w 8 = OVERLAY_VERSION"
    "read_u16 ?w 10 = hardware_flags t" "read_u64 ?w 16 = ht_revision t" "read_u64 ?w 40 = ht_revision t"
    "read_u16 ?w 14 = ht_metrics t" "read_u16 ?w 34 = ht_replay_saved_revision t" "?w ! 12 = ht_corner t"
    "?w ! 13 = ht_preset t" "?w ! 37 = ht_layout t" "?w ! 38 = ht_palette t" "?w ! 32 = ht_opacity_percent t"
    "?w ! 33 = ht_scale_percent t" "?w ! 36 = visible_code (ht_metrics_visible t)"
    "?w ! 39 = of_bool (ht_branding_visible t)"
    by (simp_all add: hardware_wire_def read_u16_def read_u64_def slice_layout nth_append)
  show ?thesis
    using assms r
    by (simp add: decode_overlay_hardware_telemetry_def OVERLAY_HARDWARE_TELEMETRY_BYTES_def w o1 o2 o3 o4 d
        hardware_flags_test Let_def del: of_bool_eq)
qed

section \<open>Round trips\<close>

lemma encode_menu_validates:
  "encode_replay_menu_telemetry v out = Inr r \<Longrightarrow> validate_replay_menu v = Inr ()"
  by (auto simp: encode_replay_menu_telemetry_def and_then_Inr)

lemma length_menu_wire [simp]: "menu_labels_ok v \<Longrightarrow> length (menu_wire v) = 128"
  by (simp add: menu_wire_def menu_labels_ok_def label_ok_length)

text \<open>The menu decoder accepts exactly the encoder's output. A buffer decodes to a snapshot if and only
  if the snapshot's shortcut labels are well-formed and encoding the snapshot gives that very buffer: the
  decoder inverts the encoder, and there is one encoding per snapshot, so torn updates, non-canonical
  booleans, reserved bytes and label padding are all rejected.\<close>
theorem menu_telemetry_canonical:
  "decode_replay_menu_telemetry inp = Inr v \<longleftrightarrow>
   menu_labels_ok v \<and> encode_replay_menu_telemetry v (replicate 128 0) = Inr (inp, 128)"
proof
  assume "decode_replay_menu_telemetry inp = Inr v"
  then have "validate_replay_menu v = Inr ()" "menu_labels_ok v" "inp = menu_wire v"
    using decode_menu_sound by blast+
  then show "menu_labels_ok v \<and> encode_replay_menu_telemetry v (replicate 128 0) = Inr (inp, 128)"
    using encode_menu_wire [of v "replicate 128 0"] by simp
next
  assume e: "menu_labels_ok v \<and> encode_replay_menu_telemetry v (replicate 128 0) = Inr (inp, 128)"
  then have v: "validate_replay_menu v = Inr ()" using encode_menu_validates by blast
  then have "inp = menu_wire v" using e encode_menu_wire [of v "replicate 128 0"] by simp
  then show "decode_replay_menu_telemetry inp = Inr v" using decode_menu_wire [OF v] e by simp
qed

definition sample_hardware :: overlay_hardware_telemetry where
  "sample_hardware = \<lparr>ht_revision = 2, ht_corner = 1, ht_preset = 0, ht_layout = 0, ht_palette = 7,
     ht_metrics = 1, ht_opacity_percent = 80, ht_scale_percent = 100, ht_replay_saved_revision = 0,
     ht_metrics_visible = Some False, ht_branding_visible = True, ht_cpu_utilization_tenths = None,
     ht_cpu_temperature_tenths_celsius = Some 655, ht_gpu_utilization_tenths = Some 1000,
     ht_gpu_temperature_tenths_celsius = None\<rparr>"

lemma sample_hardware_valid: "validate_hardware sample_hardware = Inr ()"
  by (simp add: is_multiple_of_def validate_hardware_def sample_hardware_def any_above_def MAX_UTILIZATION_TENTHS_def
      MAX_TEMPERATURE_TENTHS_CELSIUS_def)

text \<open>A hardware snapshot that passes validation is always encoded when the buffer holds 48 bytes,
  nothing past the first 48 bytes of the buffer changes, and those 48 bytes decode back to the same
  snapshot, each absent metric staying absent.\<close>
theorem hardware_telemetry_roundtrip:
  assumes "validate_hardware t = Inr ()" "48 \<le> length out"
  shows "\<exists>w. encode_overlay_hardware_telemetry t out = Inr (w @ drop 48 out, 48) \<and> length w = 48
    \<and> decode_overlay_hardware_telemetry w = Inr t"
  using encode_hardware_wire [OF assms] decode_hardware_wire [OF assms(1)]
  by - (rule exI [of _ "hardware_wire t"], simp add: hardware_wire_def)

theorem hardware_telemetry_roundtrip_witness:
  "\<exists>w. encode_overlay_hardware_telemetry sample_hardware (replicate 50 9) = Inr (w @ [9, 9], 48) \<and> length w = 48
    \<and> decode_overlay_hardware_telemetry w = Inr sample_hardware"
  using hardware_telemetry_roundtrip [OF sample_hardware_valid, of "replicate 50 9"]
  by (simp add: numeral_2_eq_2)

text \<open>The hardware decoder does not look at the two bytes of an absent metric, so it accepts buffers that
  the encoder never produces.\<close>
lemma hardware_absent_metric_bytes_ignored:
  assumes "validate_hardware t = Inr ()" "ht_cpu_utilization_tenths t = None"
  shows "decode_overlay_hardware_telemetry (copy_at 24 [1, 0] (hardware_wire t)) = Inr t
    \<and> copy_at 24 [1, 0] (hardware_wire t) \<noteq> hardware_wire t"
proof
  let ?w = "hardware_wire t" and ?x = "copy_at 24 [1, 0] (hardware_wire t)"
  have len: "length ?w = 48" by (simp add: hardware_wire_def)
  then have n: "?x ! i = ?w ! i" if "i < 48" "i < 24 \<or> 26 \<le> i" for i
    using that by (auto simp: nth_copy_at)
  have sl: "slice off n ?x = slice off n ?w" if "off + n \<le> 24 \<or> 26 \<le> off" "off + n \<le> 48" for off n
    using that len by (intro slice_copy_at_other) auto
  have "?w ! 24 = 0" using assms(2) by (simp add: hardware_wire_def nth_append opt_wire_def)
  moreover have "?x ! 24 = 1" using len by (simp add: nth_copy_at)
  ultimately show "?x \<noteq> ?w" by auto
  have o: "read_optional ?x 24 (hardware_flags t) CPU_UTILIZATION_PRESENT
      = read_optional ?w 24 (hardware_flags t) CPU_UTILIZATION_PRESENT"
    using assms(2) by (simp add: read_optional_def hardware_flags_test opt_flag_def)
  have f: "read_u16 ?w 10 = hardware_flags t" "read_u64 ?w 16 = ht_revision t" "read_u64 ?w 40 = ht_revision t"
    by (simp_all add: hardware_wire_def read_u16_def read_u64_def slice_layout)
  have r: "take 8 ?x = take 8 ?w" "length ?x = 48" using len sl [of 0 8] by (simp_all add: slice_def)
  have u: "read_u16 ?x i = read_u16 ?w i" if "i + 2 \<le> 24 \<or> 26 \<le> i" "i + 2 \<le> 48" for i
    using that sl [of i 2] by (simp add: read_u16_def)
  have u8: "read_u64 ?x i = read_u64 ?w i" if "i + 8 \<le> 24 \<or> 26 \<le> i" "i + 8 \<le> 48" for i
    using that sl [of i 8] by (simp add: read_u64_def)
  have p: "read_optional ?x i fl m = read_optional ?w i fl m" if "26 \<le> i" "i + 2 \<le> 48" for i fl m
    using that u [of i] by (simp add: read_optional_def)
  have "decode_overlay_hardware_telemetry ?x = decode_overlay_hardware_telemetry ?w"
    using len by (simp add: decode_overlay_hardware_telemetry_def OVERLAY_HARDWARE_TELEMETRY_BYTES_def
        Let_def n r u u8 p f o)
  then show "decode_overlay_hardware_telemetry ?x = Inr t" using decode_hardware_wire [OF assms(1)] by simp
qed

end
