(* ===== verification/Overlay_Publication.thy ===== *)
theory Overlay_Publication
  imports Overlay_Telemetry Game_Settings
begin

text \<open>
  How the daemon publishes overlay snapshots to a running game, from \<open>redunar-daemon/src/capture_session.rs\<close>:
  one private file holds the hardware block at offset 0 and the menu block at offset 48. Every update
  first stores the odd revision in both revision fields of its block, then the whole even block. The
  interface \<open>seqlock\<close> shows once why a reader never takes a torn block for a snapshot, whatever byte
  an update stops at; both blocks interpret it.
\<close>

section \<open>Positioned writes\<close>

text \<open>
  \<open>File::write_all_at\<close> stores the bytes in order. It either finishes, or stops with an error after some
  prefix; the state after a prefix is also what a concurrent reader can observe of a write that finishes
  later. Writing past the end fills the gap with zeros, as \<open>pwrite\<close> does.
\<close>

type_synonym write_outcome = "(nat \<times> string) option"

definition write_all_at :: "write_outcome \<Rightarrow> u8 list \<Rightarrow> nat \<Rightarrow> u8 list \<Rightarrow> u8 list \<times> (string + unit)" where
  "write_all_at io bytes offset file =
     (let file = file @ replicate (offset - length file) 0
      in case io of None \<Rightarrow> (copy_at offset bytes file, Inr ())
         | Some (n, e) \<Rightarrow> (copy_at offset (take n bytes) file, Inl e))"

definition read_exact_at :: "string option \<Rightarrow> nat \<Rightarrow> nat \<Rightarrow> u8 list \<Rightarrow> string + u8 list" where
  "read_exact_at io offset n file =
     (case io of Some e \<Rightarrow> Inl e
      | None \<Rightarrow> if length file < offset + n then Inl ''failed to fill whole buffer'' else Inr (slice offset n file))"

record write_env =
  we_read :: "string option"
  we_first :: write_outcome
  we_second :: write_outcome
  we_block :: write_outcome

definition writes_succeed :: write_env where
  "writes_succeed = \<lparr>we_read = None, we_first = None, we_second = None, we_block = None\<rparr>"

text \<open>The two stores of the odd revision that open every update of a block at \<open>base\<close>.\<close>

definition begin_update :: "write_env \<Rightarrow> u64 \<Rightarrow> nat \<Rightarrow> nat \<Rightarrow> u8 list \<Rightarrow> u8 list \<times> (string + unit)" where
  "begin_update env odd_revision first second file =
     (case write_all_at (we_first env) (u64_to_le_bytes odd_revision) first file of
        (file, Inl e) \<Rightarrow> (file, Inl e)
      | (file, Inr _) \<Rightarrow> write_all_at (we_second env) (u64_to_le_bytes odd_revision) second file)"

section \<open>The menu block\<close>

definition update_replay_menu :: "write_env \<Rightarrow> replay_menu_telemetry \<Rightarrow> u8 list \<Rightarrow>
    u8 list \<times> (string + unit)" where
  "update_replay_menu env telemetry file =
     (case encode_replay_menu_telemetry telemetry (replicate REPLAY_MENU_TELEMETRY_BYTES 0) of
        Inl e \<Rightarrow> (file, Inl e)
      | Inr (bytes, _) \<Rightarrow>
          (case begin_update env (saturating_sub (mt_revision telemetry) 1)
             (OVERLAY_HARDWARE_TELEMETRY_BYTES + 16) (OVERLAY_HARDWARE_TELEMETRY_BYTES + 120) file of
             (file, Inl e) \<Rightarrow> (file, Inl (''could not begin Replay menu telemetry update: '' @ e))
           | (file, Inr _) \<Rightarrow>
               (case write_all_at (we_block env) bytes OVERLAY_HARDWARE_TELEMETRY_BYTES file of
                  (file, Inl e) \<Rightarrow> (file, Inl (''could not update Replay menu telemetry: '' @ e))
                | (file, Inr _) \<Rightarrow> (file, Inr ()))))"

definition initial_menu_telemetry :: replay_menu_telemetry where
  "initial_menu_telemetry = \<lparr>mt_revision = 2, mt_visible = False, mt_pointer_pressed = False,
     mt_cursor_x = 5000, mt_cursor_y = 5000, mt_hover_target = 0, mt_pressed_target = 0,
     mt_selected_duration_index = 1, mt_status = Menu_inactive, mt_available_seconds = 0,
     mt_click_revision = 0, mt_frame_rate = 60, mt_quality = 1, mt_output_format = 0,
     mt_save_enabled = False, mt_overlay_shortcut = label_EMPTY, mt_save_shortcut = label_EMPTY\<rparr>"

definition initial_hardware_telemetry :: overlay_hardware_telemetry where
  "initial_hardware_telemetry = \<lparr>ht_revision = 2, ht_corner = 0, ht_preset = 0, ht_layout = 0, ht_palette = 0,
     ht_metrics = 1, ht_opacity_percent = 50, ht_scale_percent = 100, ht_replay_saved_revision = 0,
     ht_metrics_visible = None, ht_branding_visible = True, ht_cpu_utilization_tenths = None,
     ht_cpu_temperature_tenths_celsius = None, ht_gpu_utilization_tenths = None,
     ht_gpu_temperature_tenths_celsius = None\<rparr>"

definition create_overlay_telemetry_file :: "write_outcome \<Rightarrow> write_outcome \<Rightarrow> u8 list \<times> (string + unit)" where
  "create_overlay_telemetry_file io io' =
     (case encode_overlay_hardware_telemetry initial_hardware_telemetry
        (replicate OVERLAY_HARDWARE_TELEMETRY_BYTES 0) of
        Inl e \<Rightarrow> ([], Inl e)
      | Inr (bytes, _) \<Rightarrow>
          (case write_all_at io bytes 0 [] of
             (file, Inl e) \<Rightarrow> (file, Inl e)
           | (file, Inr _) \<Rightarrow>
               (case encode_replay_menu_telemetry initial_menu_telemetry
                  (replicate REPLAY_MENU_TELEMETRY_BYTES 0) of
                  Inl e \<Rightarrow> (file, Inl e)
                | Inr (menu_bytes, _) \<Rightarrow> write_all_at io' menu_bytes OVERLAY_HARDWARE_TELEMETRY_BYTES file)))"

section \<open>The hardware block\<close>

primrec overlay_corner_code :: "overlay_corner \<Rightarrow> u8" where
  "overlay_corner_code TopLeft = 0"
| "overlay_corner_code TopRight = 1"
| "overlay_corner_code BottomLeft = 2"
| "overlay_corner_code BottomRight = 3"

primrec overlay_preset_code :: "overlay_preset \<Rightarrow> u8" where
  "overlay_preset_code Compact = 0"
| "overlay_preset_code Detailed = 1"
| "overlay_preset_code FpsOnly = 2"
| "overlay_preset_code Custom_preset = 3"

primrec overlay_layout_code :: "overlay_layout \<Rightarrow> u8" where
  "overlay_layout_code Grid = 0"
| "overlay_layout_code Ribbon = 1"
| "overlay_layout_code Telemetry = 2"

primrec overlay_palette_code :: "overlay_palette \<Rightarrow> u8" where
  "overlay_palette_code Redunar = 0"
| "overlay_palette_code Glacier = 1"
| "overlay_palette_code Ember = 2"
| "overlay_palette_code Mint = 3"
| "overlay_palette_code Mono = 4"
| "overlay_palette_code Amethyst = 5"
| "overlay_palette_code Solar = 6"
| "overlay_palette_code Rose = 7"

definition pack_overlay_config :: "u8 \<Rightarrow> u8 \<Rightarrow> u16 \<Rightarrow> u8 \<Rightarrow> u8 \<Rightarrow> u8 \<Rightarrow> u8 \<Rightarrow> bool \<Rightarrow> u64" where
  "pack_overlay_config corner preset metrics opacity scale layout palette branding_visible =
     ucast corner OR push_bit 8 (ucast preset) OR push_bit 16 (ucast metrics) OR push_bit 32 (ucast opacity)
     OR push_bit 40 (ucast scale) OR push_bit 50 (of_bool branding_visible)
     OR push_bit 56 (ucast (layout AND 15)) OR push_bit 60 (ucast (palette AND 15))"

text \<open>The four metrics arrive as the tenths that \<open>metric_tenths\<close> makes of the sampled floats.\<close>

record hardware_tenths =
  tn_cpu_utilization :: "u16 option"
  tn_cpu_temperature :: "u16 option"
  tn_gpu_utilization :: "u16 option"
  tn_gpu_temperature :: "u16 option"

definition packed_visible :: "u64 \<Rightarrow> bool option" where
  "packed_visible packed =
     (let value = drop_bit 48 packed AND 255
      in if value AND 3 = 1 then Some True else if value AND 3 = 2 then Some False else None)"

definition hardware_from_config :: "u64 \<Rightarrow> hardware_tenths \<Rightarrow> u64 \<Rightarrow> u16 \<Rightarrow> overlay_hardware_telemetry" where
  "hardware_from_config next_revision m packed saved = \<lparr>ht_revision = next_revision,
     ht_corner = ucast (packed AND 255), ht_preset = ucast (drop_bit 8 packed AND 255),
     ht_layout = ucast (drop_bit 56 packed AND 15), ht_palette = ucast (drop_bit 60 packed AND 15),
     ht_metrics = ucast (drop_bit 16 packed AND 65535), ht_opacity_percent = ucast (drop_bit 32 packed AND 255),
     ht_scale_percent = ucast (drop_bit 40 packed AND 255), ht_replay_saved_revision = saved,
     ht_metrics_visible = packed_visible packed, ht_branding_visible = (drop_bit 48 packed AND 4 \<noteq> 0),
     ht_cpu_utilization_tenths = tn_cpu_utilization m, ht_cpu_temperature_tenths_celsius = tn_cpu_temperature m,
     ht_gpu_utilization_tenths = tn_gpu_utilization m, ht_gpu_temperature_tenths_celsius = tn_gpu_temperature m\<rparr>"

definition write_overlay_hardware :: "write_env \<Rightarrow> hardware_tenths \<Rightarrow> u64 \<Rightarrow> u16 \<Rightarrow> u8 list \<Rightarrow> u64 \<Rightarrow>
    u8 list \<times> u64 \<times> (string + unit)" where
  "write_overlay_hardware env m packed_config saved file revision =
     (case checked_add revision 2 of
        None \<Rightarrow> (file, revision + 2, Inl ''overlay telemetry revision overflowed'')
      | Some next_revision \<Rightarrow>
          if \<not> (next_revision > 0 \<and> is_multiple_of next_revision 2)
          then (file, revision + 2, Inl ''overlay telemetry revision overflowed'')
          else
            case begin_update env (next_revision - 1) 16 40 file of
              (file, Inl e) \<Rightarrow> (file, revision + 2, Inl e)
            | (file, Inr _) \<Rightarrow>
                (case encode_overlay_hardware_telemetry (hardware_from_config next_revision m packed_config saved)
                   (replicate OVERLAY_HARDWARE_TELEMETRY_BYTES 0) of
                   Inl e \<Rightarrow> (file, revision + 2, Inl e)
                 | Inr (bytes, _) \<Rightarrow>
                     (case write_all_at (we_block env) bytes 0 file of
                        (file, r) \<Rightarrow> (file, revision + 2, r))))"

definition config_bytes :: "u64 \<Rightarrow> u64 \<Rightarrow> u8 list \<Rightarrow> u8 list" where
  "config_bytes packed next_revision bytes =
     (let bytes = write_u8 12 (ucast (packed AND 255)) bytes;
          bytes = write_u8 13 (ucast (drop_bit 8 packed AND 255)) bytes;
          bytes = copy_at 14 (u16_to_le_bytes (ucast (drop_bit 16 packed AND 65535))) bytes;
          bytes = write_u8 32 (ucast (drop_bit 32 packed AND 255)) bytes;
          bytes = write_u8 33 (ucast (drop_bit 40 packed AND 255)) bytes;
          bytes = write_u8 36 (ucast (drop_bit 48 packed AND 3)) bytes;
          bytes = write_u8 37 (ucast (drop_bit 56 packed AND 15)) bytes;
          bytes = write_u8 38 (ucast (drop_bit 60 packed AND 15)) bytes;
          bytes = write_u8 39 (of_bool (drop_bit 48 packed AND 4 \<noteq> 0)) bytes;
          bytes = copy_at 16 (u64_to_le_bytes next_revision) bytes
      in copy_at 40 (u64_to_le_bytes next_revision) bytes)"

definition notice_bytes :: "u16 \<Rightarrow> u64 \<Rightarrow> u8 list \<Rightarrow> u8 list" where
  "notice_bytes saved next_revision bytes =
     (let bytes = copy_at 34 (u16_to_le_bytes saved) bytes;
          bytes = copy_at 16 (u64_to_le_bytes next_revision) bytes
      in copy_at 40 (u64_to_le_bytes next_revision) bytes)"

text \<open>The read-modify-write both functions below share: read the block, take the next revision, open the
  update, store the changed block.\<close>

definition rewrite_block :: "write_env \<Rightarrow> (u64 \<Rightarrow> u8 list \<Rightarrow> u8 list) \<Rightarrow> u8 list \<Rightarrow> u64 \<Rightarrow>
    u8 list \<times> u64 \<times> (string + unit)" where
  "rewrite_block env change file revision =
     (case read_exact_at (we_read env) 0 OVERLAY_HARDWARE_TELEMETRY_BYTES file of
        Inl e \<Rightarrow> (file, revision, Inl e)
      | Inr bytes \<Rightarrow>
          (case checked_add revision 2 of
             None \<Rightarrow> (file, revision + 2, Inl ''overlay telemetry revision overflowed'')
           | Some next_revision \<Rightarrow>
               (case begin_update env (next_revision - 1) 16 40 file of
                  (file, Inl e) \<Rightarrow> (file, revision + 2, Inl e)
                | (file, Inr _) \<Rightarrow>
                    (case write_all_at (we_block env) (change next_revision bytes) 0 file of
                       (file, r) \<Rightarrow> (file, revision + 2, r)))))"

definition write_overlay_config :: "write_env \<Rightarrow> u64 \<Rightarrow> u8 list \<Rightarrow> u64 \<Rightarrow> u8 list \<times> u64 \<times> (string + unit)" where
  "write_overlay_config env packed = rewrite_block env (config_bytes packed)"

definition write_overlay_replay_notice :: "write_env \<Rightarrow> u16 \<Rightarrow> u8 list \<Rightarrow> u64 \<Rightarrow>
    u8 list \<times> u64 \<times> (string + unit)" where
  "write_overlay_replay_notice env saved = rewrite_block env (notice_bytes saved)"

section \<open>The publishing part of a capture session\<close>

record overlay_session =
  ov_file :: "u8 list"
  ov_revision :: u64
  ov_config :: u64
  ov_saved_revision :: u16

definition update_overlay_hardware :: "write_env \<Rightarrow> hardware_tenths \<Rightarrow> overlay_session \<Rightarrow>
    overlay_session \<times> (string + unit)" where
  "update_overlay_hardware env m s =
     (case write_overlay_hardware env m (ov_config s) (ov_saved_revision s) (ov_file s) (ov_revision s) of
        (file, revision, r) \<Rightarrow> (s\<lparr>ov_file := file, ov_revision := revision\<rparr>,
          map_err (\<lambda>e. ''could not update overlay telemetry: '' @ e) r))"

definition publish_replay_menu_block :: "write_env \<Rightarrow> replay_menu_telemetry \<Rightarrow> overlay_session \<Rightarrow>
    overlay_session \<times> (string + unit)" where
  "publish_replay_menu_block env telemetry s =
     (case update_replay_menu env telemetry (ov_file s) of (file, r) \<Rightarrow> (s\<lparr>ov_file := file\<rparr>, r))"

definition publish_replay_saved_notice :: "write_env \<Rightarrow> overlay_session \<Rightarrow> overlay_session \<times> (string + unit)" where
  "publish_replay_saved_notice env s =
     (let previous = ov_saved_revision s;
          s = s\<lparr>ov_saved_revision := previous + 1\<rparr>;
          next_saved = max (previous + 1) 1;
          s = (if next_saved = 1 \<and> previous = - 1 then s\<lparr>ov_saved_revision := next_saved\<rparr> else s)
      in case write_overlay_replay_notice env next_saved (ov_file s) (ov_revision s) of
           (file, revision, r) \<Rightarrow> (s\<lparr>ov_file := file, ov_revision := revision\<rparr>,
             map_err (\<lambda>e. ''could not publish Replay save notice: '' @ e) r))"

definition profile_config :: "effective_game_profile \<Rightarrow> u64" where
  "profile_config profile =
     pack_overlay_config (overlay_corner_code (eg_overlay_corner profile))
       (overlay_preset_code (eg_overlay_preset profile)) (eg_overlay_metrics profile)
       (eg_overlay_opacity profile) (eg_overlay_scale profile)
       (overlay_layout_code (eg_overlay_layout profile)) (overlay_palette_code (eg_overlay_palette profile))
       (eg_overlay_branding profile)
     OR push_bit 48 (if eg_overlay_visible profile then 1 else 2)"

definition update_overlay_config :: "write_env \<Rightarrow> effective_game_profile \<Rightarrow> overlay_session \<Rightarrow>
    overlay_session \<times> (string + unit)" where
  "update_overlay_config env profile s =
     (case write_overlay_config env (profile_config profile) (ov_file s) (ov_revision s) of
        (file, revision, r) \<Rightarrow>
          let s = s\<lparr>ov_file := file, ov_revision := revision\<rparr>
          in (case r of Inl e \<Rightarrow> (s, Inl (''could not update overlay configuration: '' @ e))
              | Inr _ \<Rightarrow> (s\<lparr>ov_config := profile_config profile\<rparr>, Inr ())))"

section \<open>Why a torn block is never read\<close>

lemma last_be_nat: "last (be_nat (Suc k) n) = word_of_nat n"
  by (induction k) simp_all

lemma u64_first_byte: "even (u64_to_le_bytes x ! 0) \<longleftrightarrow> even x"
proof -
  have "u64_to_le_bytes x ! 0 = last (be_nat (Suc 7) (unat x))"
    by (simp add: u64_to_le_bytes_def rev_nth last_conv_nth del: be_nat.simps flip: length_0_conv)
  also have "\<dots> = word_of_nat (unat x)" by (rule last_be_nat)
  finally have "even (u64_to_le_bytes x ! 0) \<longleftrightarrow> even (unat x)" by (simp only: even_of_nat)
  then show ?thesis using even_of_nat [of "unat x", where 'a = u64] by simp
qed

lemma even_first_byte:
  assumes "off + 8 \<le> length w"
  shows "even (u64_from_le_bytes (slice off 8 w)) \<longleftrightarrow> even (w ! off)"
proof -
  have "u64_to_le_bytes (u64_from_le_bytes (slice off 8 w)) ! 0 = w ! off"
    using assms le_to_from(3) [of "slice off 8 w"] by (simp add: slice_def)
  then show ?thesis by (metis u64_first_byte)
qed

lemma slice_take: "off + n \<le> k \<Longrightarrow> slice off n (take k w) = slice off n w"
  by (simp add: slice_def drop_take min_def)

lemma write_all_at_prefix:
  assumes "write_all_at io bs off f = (f', r)" "off + length bs \<le> length f"
  shows "\<exists>n. f' = copy_at off (take n bs) f \<and> (r = Inr () \<longrightarrow> n = length bs)"
  using assms by (cases io) (auto simp: write_all_at_def Let_def)

lemma write_all_at_length:
  assumes "write_all_at io bs off f = (f', r)" "off + length bs \<le> length f"
  shows "length f' = length f"
  using assms by (cases io) (auto simp: write_all_at_def Let_def)

lemma write_all_at_elsewhere:
  assumes "write_all_at io bs off f = (f', r)" "off + length bs \<le> length f"
    and "b + n \<le> off \<or> off + length bs \<le> b" "b + n \<le> length f"
  shows "slice b n f' = slice b n f"
  using assms by (cases io) (auto simp: write_all_at_def Let_def intro!: slice_copy_at_other)

lemma begin_update_frame:
  assumes "begin_update env x p q f = (f', r)" "p + 8 \<le> length f" "q + 8 \<le> length f"
  shows "length f' = length f \<and> ((b + n \<le> p \<or> p + 8 \<le> b) \<longrightarrow> (b + n \<le> q \<or> q + 8 \<le> b) \<longrightarrow> b + n \<le> length f \<longrightarrow>
    slice b n f' = slice b n f)"
proof -
  obtain f1 r0 where w1: "write_all_at (we_first env) (u64_to_le_bytes x) p f = (f1, r0)" by (metis surj_pair)
  then have 1: "length f1 = length f" "(b + n \<le> p \<or> p + 8 \<le> b) \<longrightarrow> b + n \<le> length f \<longrightarrow> slice b n f1 = slice b n f"
    using write_all_at_length [OF w1] write_all_at_elsewhere [OF w1, of b n] assms(2) by auto
  show ?thesis
  proof (cases r0)
    case (Inl e)
    then show ?thesis using assms(1) w1 1 by (simp add: begin_update_def)
  next
    case (Inr u)
    then have w2: "write_all_at (we_second env) (u64_to_le_bytes x) q f1 = (f', r)"
      using assms(1) w1 by (simp add: begin_update_def)
    then show ?thesis
      using 1 write_all_at_length [OF w2] write_all_at_elsewhere [OF w2, of b n] assms(3) by auto
  qed
qed

lemma slice_copy_inside:
  assumes "off + length bs \<le> n" "b + n \<le> length f"
  shows "slice b n (copy_at (b + off) bs f) = copy_at off bs (slice b n f)"
proof (rule nth_equalityI)
  show "length (slice b n (copy_at (b + off) bs f)) = length (copy_at off bs (slice b n f))"
    using assms by simp
  fix i
  assume "i < length (slice b n (copy_at (b + off) bs f))"
  then show "slice b n (copy_at (b + off) bs f) ! i = copy_at off bs (slice b n f) ! i"
    using assms by (auto simp: slice_def nth_copy_at)
qed

text \<open>
  \<open>seq_state r1 r2 w B\<close> holds of a block \<open>w\<close> at every moment of its life, where \<open>B\<close> is the block last
  handed to a final write: a revision field is visibly odd, or everything up to the second revision is \<open>B\<close>.
\<close>

definition seq_state :: "nat \<Rightarrow> nat \<Rightarrow> u8 list \<Rightarrow> u8 list \<Rightarrow> bool" where
  "seq_state r1 r2 w B \<longleftrightarrow> odd (w ! r1) \<or> odd (w ! r2) \<or> take r2 w = take r2 B"

locale seqlock =
  fixes size r1 r2 :: nat and decode :: "u8 list \<Rightarrow> 'e + 'v"
  assumes fields: "r1 + 8 \<le> r2" "r2 + 8 = size"
    and decode_length: "decode w = Inr v \<Longrightarrow> length w = size"
    and decode_revisions: "decode w = Inr v \<Longrightarrow> slice r1 8 w = slice r2 8 w"
    and decode_even: "decode w = Inr v \<Longrightarrow> even (w ! r1)"
begin

lemma read_published:
  assumes "seq_state r1 r2 w B" "decode w = Inr v" "length B = size" "slice r1 8 B = slice r2 8 B"
  shows "w = B"
proof -
  have len: "length w = size" and rev: "slice r1 8 w = slice r2 8 w" and ev: "even (w ! r1)"
    using assms(2) decode_length decode_revisions decode_even by blast+
  have "slice r2 8 w ! 0 = w ! r2" "slice r1 8 w ! 0 = w ! r1"
    using len fields by (simp_all add: slice_def)
  then have t: "take r2 w = take r2 B" using assms(1) rev ev by (auto simp: seq_state_def)
  then have "slice r1 8 w = slice r1 8 B"
    using slice_take [of r1 8 r2 w] slice_take [of r1 8 r2 B] fields by simp
  then have "slice r2 8 w = slice r2 8 B" using rev assms(4) by simp
  then have "drop r2 w = drop r2 B" using len assms(3) fields by (simp add: slice_def)
  then show ?thesis using t by (metis append_take_drop_id)
qed

lemma first_write:
  assumes "seq_state r1 r2 w B" "length w = size" "odd x"
  shows "seq_state r1 r2 (copy_at r1 (take n (u64_to_le_bytes x)) w) B"
    and "n = 8 \<Longrightarrow> odd (copy_at r1 (take n (u64_to_le_bytes x)) w ! r1)"
proof -
  have o: "odd (copy_at r1 (take n (u64_to_le_bytes x)) w ! r1)" if "0 < n"
    using that assms fields u64_first_byte [of x] by (simp add: nth_copy_at)
  have "copy_at r1 (take n (u64_to_le_bytes x)) w = w" if "n = 0"
    using that by (simp add: copy_at_def)
  then show "seq_state r1 r2 (copy_at r1 (take n (u64_to_le_bytes x)) w) B"
    using assms(1) o by (cases "n = 0") (simp_all add: seq_state_def)
  show "odd (copy_at r1 (take n (u64_to_le_bytes x)) w ! r1)" if "n = 8" using o that by simp
qed

lemma second_write:
  assumes "odd (w ! r1)" "length w = size" "odd x"
  shows "odd (copy_at r2 (take n (u64_to_le_bytes x)) w ! r1)"
    and "n = 8 \<Longrightarrow> odd (copy_at r2 (take n (u64_to_le_bytes x)) w ! r2)"
  using assms fields u64_first_byte [of x] by (simp_all add: nth_copy_at)

lemma block_write:
  assumes "odd (w ! r2)" "length w = size" "length B = size"
  shows "seq_state r1 r2 (copy_at 0 (take n B) w) B"
proof (cases "n \<le> r2")
  case True
  then have "copy_at 0 (take n B) w ! r2 = w ! r2" using assms fields by (auto simp: nth_copy_at)
  then show ?thesis using assms by (simp add: seq_state_def)
next
  case False
  then have "take r2 (copy_at 0 (take n B) w) = take r2 B" using assms by (simp add: copy_at_def min_def)
  then show ?thesis by (simp add: seq_state_def)
qed

lemma opened:
  assumes "begin_update env x (base + r1) (base + r2) f = (f', r)" "odd x" "base + size \<le> length f"
    and "seq_state r1 r2 (slice base size f) B"
  shows "seq_state r1 r2 (slice base size f') B \<and> (r = Inr () \<longrightarrow> odd (slice base size f' ! r2))"
proof -
  obtain f1 r0 where w1: "write_all_at (we_first env) (u64_to_le_bytes x) (base + r1) f = (f1, r0)"
    by (metis surj_pair)
  then obtain n where n: "f1 = copy_at (base + r1) (take n (u64_to_le_bytes x)) f" "r0 = Inr () \<longrightarrow> n = 8"
    using write_all_at_prefix [OF w1] assms(3) fields by auto
  have l1: "length f1 = length f" using write_all_at_length [OF w1] assms(3) fields by simp
  have v1: "slice base size f1 = copy_at r1 (take n (u64_to_le_bytes x)) (slice base size f)"
    using assms(3) fields unfolding n(1) by (intro slice_copy_inside) auto
  have len: "length (slice base size f) = size" "length (slice base size f1) = size"
    using assms(3) l1 by simp_all
  have s1: "seq_state r1 r2 (slice base size f1) B"
    unfolding v1 by (rule first_write(1) [OF assms(4) len(1) assms(2)])
  show ?thesis
  proof (cases r0)
    case (Inl e)
    then have "f' = f1 \<and> r = Inl e" using assms(1) w1 by (simp add: begin_update_def)
    then show ?thesis using s1 by simp
  next
    case (Inr u)
    then have o1: "odd (slice base size f1 ! r1)"
      unfolding v1 using first_write(2) [OF assms(4) len(1) assms(2), of n] n(2) by simp
    have w2: "write_all_at (we_second env) (u64_to_le_bytes x) (base + r2) f1 = (f', r)"
      using assms(1) w1 Inr by (simp add: begin_update_def)
    then obtain k where k: "f' = copy_at (base + r2) (take k (u64_to_le_bytes x)) f1" "r = Inr () \<longrightarrow> k = 8"
      using write_all_at_prefix [OF w2] assms(3) l1 fields by auto
    have v2: "slice base size f' = copy_at r2 (take k (u64_to_le_bytes x)) (slice base size f1)"
      using assms(3) l1 fields unfolding k(1) by (intro slice_copy_inside) auto
    show ?thesis using second_write [OF o1 len(2) assms(2), of k] k(2) by (simp add: v2 seq_state_def)
  qed
qed

lemma stored:
  assumes "write_all_at io B base f = (f', r)" "odd (slice base size f ! r2)" "base + size \<le> length f"
    and "length B = size"
  shows "seq_state r1 r2 (slice base size f') B \<and> (r = Inr () \<longrightarrow> slice base size f' = B)"
proof -
  obtain n where n: "f' = copy_at base (take n B) f" "r = Inr () \<longrightarrow> n = size"
    using write_all_at_prefix [OF assms(1)] assms(3,4) by auto
  have v: "slice base size f' = copy_at 0 (take n B) (slice base size f)"
    using slice_copy_inside [of 0 "take n B" size base f] assms(3,4) by (simp add: n(1))
  have "slice base size f' = B" if "r = Inr ()"
    using n(2) that v assms(3,4) by (simp add: copy_at_def)
  then show ?thesis using block_write [OF assms(2) _ assms(4), of n] assms(3) by (simp add: v)
qed

end

interpretation menu_block: seqlock 128 16 120 decode_replay_menu_telemetry
proof
  show "(16 :: nat) + 8 \<le> 120" "(120 :: nat) + 8 = 128" by simp_all
  fix w v
  assume "decode_replay_menu_telemetry w = Inr v"
  then have v: "validate_replay_menu v = Inr ()" "menu_labels_ok v" "w = menu_wire v"
    using decode_menu_sound by blast+
  then show len: "length w = 128" by simp
  have l: "length (sl_bytes (mt_overlay_shortcut v)) = 40" "length (sl_bytes (mt_save_shortcut v)) = 40"
    using v(2) by (simp_all add: menu_labels_ok_def label_ok_length)
  then have f: "slice 16 8 w = u64_to_le_bytes (mt_revision v)" "slice 120 8 w = u64_to_le_bytes (mt_revision v)"
    by (simp_all add: v(3) menu_wire_def slice_layout)
  then show "slice 16 8 w = slice 120 8 w" by simp
  have "even (mt_revision v)" using v(1) by (auto simp: validate_replay_menu_def split: if_splits)
  then show "even (w ! 16)" using even_first_byte [of 16 w] f(1) len by simp
qed

interpretation hardware_block: seqlock 48 16 40 decode_overlay_hardware_telemetry
proof
  show "(16 :: nat) + 8 \<le> 40" "(40 :: nat) + 8 = 48" by simp_all
  fix w v
  assume d: "decode_overlay_hardware_telemetry w = Inr v"
  then show l: "length w = 48"
    by (auto simp: decode_overlay_hardware_telemetry_def OVERLAY_HARDWARE_TELEMETRY_BYTES_def split: if_splits)
  have e: "even (u64_from_le_bytes (slice 16 8 w))" and
    q: "u64_from_le_bytes (slice 16 8 w) = u64_from_le_bytes (slice 40 8 w)"
    using d by (auto simp: decode_overlay_hardware_telemetry_def Let_def read_u64_def split: if_splits)
  show "even (w ! 16)" using even_first_byte [of 16 w] e l by simp
  have "length (slice 16 8 w) = 8" "length (slice 40 8 w) = 8" using l by simp_all
  then show "slice 16 8 w = slice 40 8 w" using q le_to_from(3) by metis
qed

section \<open>A session's file over time\<close>

definition session_new :: "u8 list \<Rightarrow> overlay_session" where
  "session_new file = \<lparr>ov_file = file, ov_revision = 2, ov_config = pack_overlay_config 0 0 1 50 100 0 0 True,
     ov_saved_revision = 0\<rparr>"

text \<open>
  The file after any sequence of updates, each with any outcome of its writes. The first argument collects
  the menu snapshots that were published, or that an update began to publish.
\<close>

inductive overlay_reach :: "replay_menu_telemetry set \<Rightarrow> overlay_session \<Rightarrow> bool" where
  created: "create_overlay_telemetry_file None None = (file, Inr ()) \<Longrightarrow>
    overlay_reach {initial_menu_telemetry} (session_new file)"
| menu: "overlay_reach S s \<Longrightarrow> menu_labels_ok t \<Longrightarrow> publish_replay_menu_block env t s = (s', r) \<Longrightarrow>
    overlay_reach (insert t S) s'"
| hardware: "overlay_reach S s \<Longrightarrow> update_overlay_hardware env m s = (s', r) \<Longrightarrow> overlay_reach S s'"
| notice: "overlay_reach S s \<Longrightarrow> publish_replay_saved_notice env s = (s', r) \<Longrightarrow> overlay_reach S s'"
| config: "overlay_reach S s \<Longrightarrow> update_overlay_config env profile s = (s', r) \<Longrightarrow> overlay_reach S s'"

lemma initial_menu_ok: "menu_labels_ok initial_menu_telemetry" "validate_replay_menu initial_menu_telemetry = Inr ()"
  by (simp_all add: menu_labels_ok_def initial_menu_telemetry_def validate_replay_menu_def)

lemma initial_hardware_ok: "validate_hardware initial_hardware_telemetry = Inr ()"
  by (simp add: validate_hardware_def initial_hardware_telemetry_def any_above_def is_multiple_of_def)

lemma length_hardware_wire [simp]: "length (hardware_wire t) = 48"
  by (simp add: hardware_wire_def)

lemma create_file:
  "create_overlay_telemetry_file None None
   = (hardware_wire initial_hardware_telemetry @ menu_wire initial_menu_telemetry, Inr ())"
  using encode_hardware_wire [OF initial_hardware_ok, of "replicate 48 0"]
    encode_menu_wire [OF initial_menu_ok(2,1), of "replicate 128 0"]
  by (simp add: create_overlay_telemetry_file_def OVERLAY_HARDWARE_TELEMETRY_BYTES_def
      REPLAY_MENU_TELEMETRY_BYTES_def write_all_at_def copy_at_def)

text \<open>Updates of the hardware block leave the rest of the file alone.\<close>

lemma block_update_frame:
  assumes "begin_update env x 16 40 f = (f1, r1)" "write_all_at io bs 0 f1 = (f2, r2)" "length bs = 48"
    and "176 \<le> length f"
  shows "length f1 = length f \<and> slice 48 128 f1 = slice 48 128 f
    \<and> length f2 = length f \<and> slice 48 128 f2 = slice 48 128 f"
  using begin_update_frame [OF assms(1), of 48 128] write_all_at_length [OF assms(2)]
    write_all_at_elsewhere [OF assms(2), of 48 128] assms(3,4) by auto

lemma encode_hardware_exact:
  "encode_overlay_hardware_telemetry t (replicate 48 0) = Inr (bytes, n) \<longleftrightarrow>
   validate_hardware t = Inr () \<and> bytes = hardware_wire t \<and> n = 48"
proof (cases "validate_hardware t")
  case (Inl e)
  then show ?thesis by (simp add: encode_overlay_hardware_telemetry_def)
next
  case (Inr u)
  then show ?thesis using encode_hardware_wire [of t "replicate 48 0"] by auto
qed

lemma length_config_bytes: "length b = 48 \<Longrightarrow> length (config_bytes p n b) = 48"
  by (simp add: config_bytes_def Let_def write_u8_def)

lemma length_notice_bytes: "length b = 48 \<Longrightarrow> length (notice_bytes p n b) = 48"
  by (simp add: notice_bytes_def Let_def)

lemma write_overlay_hardware_frame:
  assumes "write_overlay_hardware env m packed saved f rv = (f', rv', r)" "176 \<le> length f"
  shows "length f' = length f \<and> slice 48 128 f' = slice 48 128 f"
proof -
  obtain f1 r1 where b: "begin_update env (rv + 2 - 1) 16 40 f = (f1, r1)" by (metis surj_pair)
  let ?w = "hardware_wire (hardware_from_config (rv + 2) m packed saved)"
  obtain f2 r2 where c: "write_all_at (we_block env) ?w 0 f1 = (f2, r2)" by (metis surj_pair)
  have "f' = f \<or> f' = f1 \<or> f' = f2"
    using assms(1) b c unfolding write_overlay_hardware_def checked_add_def OVERLAY_HARDWARE_TELEMETRY_BYTES_def
    by (auto simp: encode_hardware_exact split: if_splits sum.splits prod.splits)
  then show ?thesis using block_update_frame [OF b c] assms(2) by auto
qed

lemma rewrite_block_frame:
  assumes "rewrite_block env change f rv = (f', rv', r)" "176 \<le> length f"
    and "\<And>n b. length b = 48 \<Longrightarrow> length (change n b) = 48"
  shows "length f' = length f \<and> slice 48 128 f' = slice 48 128 f"
proof -
  obtain f1 r1 where b: "begin_update env (rv + 2 - 1) 16 40 f = (f1, r1)" by (metis surj_pair)
  let ?w = "change (rv + 2) (slice 0 48 f)"
  obtain f2 r2 where c: "write_all_at (we_block env) ?w 0 f1 = (f2, r2)" by (metis surj_pair)
  have "f' = f \<or> f' = f1 \<or> f' = f2"
    using assms(1) b c
    unfolding rewrite_block_def checked_add_def OVERLAY_HARDWARE_TELEMETRY_BYTES_def read_exact_at_def
    by (auto split: if_splits sum.splits prod.splits option.splits)
  moreover have "length ?w = 48" using assms(2) by (intro assms(3)) simp
  ultimately show ?thesis using block_update_frame [OF b c] assms(2) by auto
qed

lemma hardware_ops_frame:
  assumes "update_overlay_hardware env m s = (s', r) \<or> publish_replay_saved_notice env s = (s', r)
    \<or> update_overlay_config env profile s = (s', r)" "176 \<le> length (ov_file s)"
  shows "length (ov_file s') = length (ov_file s) \<and> slice 48 128 (ov_file s') = slice 48 128 (ov_file s)"
  using assms
  by (auto simp: update_overlay_hardware_def publish_replay_saved_notice_def update_overlay_config_def
      write_overlay_config_def write_overlay_replay_notice_def Let_def
      dest: write_overlay_hardware_frame
      dest!: rewrite_block_frame [OF _ _ length_config_bytes] rewrite_block_frame [OF _ _ length_notice_bytes]
      split: prod.splits sum.splits if_splits)

lemma encode_menu_exact:
  assumes "menu_labels_ok t"
  shows "encode_replay_menu_telemetry t (replicate 128 0) = Inr (bytes, n) \<longleftrightarrow>
    validate_replay_menu t = Inr () \<and> bytes = menu_wire t \<and> n = 128"
proof (cases "validate_replay_menu t")
  case (Inl e)
  then show ?thesis by (simp add: encode_replay_menu_telemetry_def)
next
  case (Inr u)
  then show ?thesis using encode_menu_wire [of t "replicate 128 0"] assms by auto
qed

lemma odd_before_even: "even (x :: u64) \<Longrightarrow> x \<noteq> 0 \<Longrightarrow> odd (saturating_sub x 1)"
  by (simp add: saturating_sub_def word_less_nat_alt unat_gt_0 less_Suc_eq)

lemma menu_wire_block:
  assumes "menu_labels_ok t"
  shows "slice 16 8 (menu_wire t) = slice 120 8 (menu_wire t)"
  using assms by (simp add: menu_wire_def slice_layout menu_labels_ok_def label_ok_length)

lemma update_replay_menu_step:
  assumes "update_replay_menu env t f = (f', r)" "menu_labels_ok t" "176 \<le> length f"
    and "seq_state 16 120 (slice 48 128 f) B"
  shows "length f' = length f \<and> slice 0 48 f' = slice 0 48 f
    \<and> (seq_state 16 120 (slice 48 128 f') B
       \<or> validate_replay_menu t = Inr () \<and> seq_state 16 120 (slice 48 128 f') (menu_wire t))
    \<and> (r = Inr () \<longrightarrow> slice 48 128 f' = menu_wire t)"
proof (cases "encode_replay_menu_telemetry t (replicate 128 0)")
  case (Inl e)
  then show ?thesis
    using assms by (auto simp: update_replay_menu_def REPLAY_MENU_TELEMETRY_BYTES_def)
next
  case (Inr p)
  then have e: "encode_replay_menu_telemetry t (replicate 128 0) = Inr (menu_wire t, 128)"
    and val: "validate_replay_menu t = Inr ()"
    using encode_menu_exact [OF assms(2)] by (metis surj_pair)+
  let ?x = "saturating_sub (mt_revision t) 1"
  have x: "odd ?x" using val by (intro odd_before_even) (auto simp: validate_replay_menu_def split: if_splits)
  obtain f1 r1 where b: "begin_update env ?x 64 168 f = (f1, r1)" by (metis surj_pair)
  then have fr: "length f1 = length f" "slice 0 48 f1 = slice 0 48 f"
    using begin_update_frame [OF b, of 0 48] assms(3) by simp_all
  have op: "seq_state 16 120 (slice 48 128 f1) B" "r1 = Inr () \<longrightarrow> odd (slice 48 128 f1 ! 120)"
    using menu_block.opened [of env ?x 48 f f1 r1 B] b x assms(3,4) by simp_all
  show ?thesis
  proof (cases r1)
    case (Inl m)
    then have "f' = f1 \<and> r \<noteq> Inr ()"
      using assms(1) e b
      by (auto simp: update_replay_menu_def REPLAY_MENU_TELEMETRY_BYTES_def OVERLAY_HARDWARE_TELEMETRY_BYTES_def)
    then show ?thesis using fr op by simp
  next
    case (Inr u)
    obtain f2 r2 where c: "write_all_at (we_block env) (menu_wire t) 48 f1 = (f2, r2)" by (metis surj_pair)
    then have f2: "f' = f2" "r = Inr () \<longrightarrow> r2 = Inr ()"
      using assms(1) e b Inr
      by (auto simp: update_replay_menu_def REPLAY_MENU_TELEMETRY_BYTES_def OVERLAY_HARDWARE_TELEMETRY_BYTES_def
          split: sum.splits)
    have "seq_state 16 120 (slice 48 128 f2) (menu_wire t) \<and> (r2 = Inr () \<longrightarrow> slice 48 128 f2 = menu_wire t)"
      using menu_block.stored [OF c] op(2) Inr fr(1) assms(2,3) by simp
    moreover have "length f2 = length f" "slice 0 48 f2 = slice 0 48 f"
      using write_all_at_length [OF c] write_all_at_elsewhere [OF c, of 0 48] fr assms(2,3) by simp_all
    ultimately show ?thesis using f2 val by simp
  qed
qed

definition menu_inv :: "replay_menu_telemetry set \<Rightarrow> overlay_session \<Rightarrow> bool" where
  "menu_inv S s \<longleftrightarrow> length (ov_file s) = 176 \<and> (\<forall>t\<in>S. menu_labels_ok t)
     \<and> (\<exists>t\<in>S. validate_replay_menu t = Inr () \<and> seq_state 16 120 (slice 48 128 (ov_file s)) (menu_wire t))"

lemma menu_inv_reach: "overlay_reach S s \<Longrightarrow> menu_inv S s"
proof (induction rule: overlay_reach.induct)
  case (created f)
  have "slice 48 128 (hardware_wire initial_hardware_telemetry @ menu_wire initial_menu_telemetry)
      = menu_wire initial_menu_telemetry"
    by (simp add: slice_layout initial_menu_ok)
  with created initial_menu_ok show ?case
    by (auto simp: create_file menu_inv_def session_new_def seq_state_def)
next
  case (menu S s t env s' r)
  then obtain u where u: "u \<in> S" "seq_state 16 120 (slice 48 128 (ov_file s)) (menu_wire u)"
    "validate_replay_menu u = Inr ()"
    by (auto simp: menu_inv_def)
  obtain f' where f': "update_replay_menu env t (ov_file s) = (f', r)" "ov_file s' = f'"
    using menu.hyps(3) by (auto simp: publish_replay_menu_block_def split: prod.splits)
  show ?case
    using update_replay_menu_step [OF f'(1) menu.hyps(2) _ u(2)] menu.IH menu.hyps(2) u(1,3) f'(2)
    by (auto simp: menu_inv_def)
qed (use hardware_ops_frame in \<open>fastforce simp: menu_inv_def\<close>)+

text \<open>C35: The overlay never acts on a menu snapshot that the daemon did not publish. Take any sequence of menu,
  hardware, notice and configuration updates of a session file, each stopped by an error (or observed by the
  reader) after any number of bytes of any of its three writes: if the menu block then decodes, it decodes
  to the initial snapshot or to one that was passed to an update.\<close>
theorem menu_reader_sees_published:
  assumes "overlay_reach S s" "decode_replay_menu_telemetry (slice 48 128 (ov_file s)) = Inr v"
  shows "v \<in> S"
proof -
  from menu_inv_reach [OF assms(1)] obtain t where t: "t \<in> S" "menu_labels_ok t"
    "seq_state 16 120 (slice 48 128 (ov_file s)) (menu_wire t)" "validate_replay_menu t = Inr ()"
    by (auto simp: menu_inv_def)
  then have "slice 48 128 (ov_file s) = menu_wire t"
    using menu_block.read_published [OF t(3) assms(2)] menu_wire_block by simp
  then have "v = t" using decode_menu_wire [OF t(4,2)] assms(2) by simp
  then show ?thesis using t(1) by simp
qed

lemma session_new_reach:
  "overlay_reach {initial_menu_telemetry}
    (session_new (hardware_wire initial_hardware_telemetry @ menu_wire initial_menu_telemetry))"
  by (rule overlay_reach.created) (rule create_file)

theorem menu_reader_sees_published_witness:
  "decode_replay_menu_telemetry (slice 48 128 (ov_file (session_new
      (hardware_wire initial_hardware_telemetry @ menu_wire initial_menu_telemetry)))) = Inr initial_menu_telemetry
   \<and> initial_menu_telemetry \<in> {initial_menu_telemetry}"
proof
  show *: "decode_replay_menu_telemetry (slice 48 128 (ov_file (session_new
      (hardware_wire initial_hardware_telemetry @ menu_wire initial_menu_telemetry)))) = Inr initial_menu_telemetry"
    using decode_menu_wire [OF initial_menu_ok(2,1)]
    by (simp add: session_new_def slice_layout initial_menu_ok)
  show "initial_menu_telemetry \<in> {initial_menu_telemetry}"
    by (rule menu_reader_sees_published [OF session_new_reach *])
qed

lemma publish_block_arrives:
  assumes "overlay_reach S s" "menu_labels_ok t" "validate_replay_menu t = Inr ()"
  shows "\<exists>f. publish_replay_menu_block writes_succeed t s = (s\<lparr>ov_file := f\<rparr>, Inr ())
    \<and> decode_replay_menu_telemetry (slice 48 128 f) = Inr t \<and> slice 0 48 f = slice 0 48 (ov_file s)"
proof -
  from menu_inv_reach [OF assms(1)] obtain u where len: "length (ov_file s) = 176"
    and u: "seq_state 16 120 (slice 48 128 (ov_file s)) (menu_wire u)" by (auto simp: menu_inv_def)
  obtain f r where f: "update_replay_menu writes_succeed t (ov_file s) = (f, r)" by (metis surj_pair)
  have "encode_replay_menu_telemetry t (replicate 128 0) = Inr (menu_wire t, 128)"
    using encode_menu_exact [OF assms(2)] assms(3) by simp
  then have r: "r = Inr ()"
    using f by (simp add: update_replay_menu_def REPLAY_MENU_TELEMETRY_BYTES_def begin_update_def write_all_at_def
        writes_succeed_def Let_def)
  show ?thesis
    using update_replay_menu_step [OF f assms(2) _ u] len r f decode_menu_wire [OF assms(3,2)]
    by - (rule exI [of _ f], simp add: publish_replay_menu_block_def)
qed

text \<open>C36: A menu update whose writes succeed is what the overlay then reads: in every reachable session a
  snapshot that passes validation is stored without an error, the menu block decodes to it, the hardware
  block keeps its bytes, and no other part of the session changes.\<close>
theorem menu_update_arrives:
  assumes "overlay_reach S s" "menu_labels_ok t" "validate_replay_menu t = Inr ()"
  shows "\<exists>f. publish_replay_menu_block writes_succeed t s = (s\<lparr>ov_file := f\<rparr>, Inr ())
    \<and> decode_replay_menu_telemetry (slice 48 128 f) = Inr t \<and> slice 0 48 f = slice 0 48 (ov_file s)"
  by (rule publish_block_arrives [OF assms])

theorem menu_update_arrives_witness:
  "\<exists>f. publish_replay_menu_block writes_succeed (initial_menu_telemetry\<lparr>mt_revision := 4, mt_visible := True\<rparr>)
      (session_new (hardware_wire initial_hardware_telemetry @ menu_wire initial_menu_telemetry))
      = ((session_new (hardware_wire initial_hardware_telemetry @ menu_wire initial_menu_telemetry))\<lparr>ov_file := f\<rparr>, Inr ())
    \<and> decode_replay_menu_telemetry (slice 48 128 f)
      = Inr (initial_menu_telemetry\<lparr>mt_revision := 4, mt_visible := True\<rparr>)
    \<and> slice 0 48 f = slice 0 48 (ov_file (session_new
        (hardware_wire initial_hardware_telemetry @ menu_wire initial_menu_telemetry)))"
  by (rule menu_update_arrives [OF session_new_reach])
    (simp_all add: menu_labels_ok_def initial_menu_telemetry_def validate_replay_menu_def)

section \<open>Configuration changes\<close>

definition shows_profile :: "effective_game_profile \<Rightarrow> overlay_hardware_telemetry \<Rightarrow> bool" where
  "shows_profile profile t \<longleftrightarrow> ht_corner t = overlay_corner_code (eg_overlay_corner profile)
     \<and> ht_preset t = overlay_preset_code (eg_overlay_preset profile)
     \<and> ht_layout t = overlay_layout_code (eg_overlay_layout profile)
     \<and> ht_palette t = overlay_palette_code (eg_overlay_palette profile)
     \<and> ht_metrics t = eg_overlay_metrics profile \<and> ht_opacity_percent t = eg_overlay_opacity profile
     \<and> ht_scale_percent t = eg_overlay_scale profile
     \<and> ht_metrics_visible t = Some (eg_overlay_visible profile)
     \<and> ht_branding_visible t = eg_overlay_branding profile"

lemma layout_code_masked: "overlay_layout_code l AND 15 = overlay_layout_code l" by (cases l) simp_all
lemma palette_code_masked: "overlay_palette_code l AND 15 = overlay_palette_code l" by (cases l) simp_all

lemma low_byte: "bit (255 :: 'a::len word) n \<longleftrightarrow> n < 8 \<and> n < LENGTH('a)"
  using bit_mask_iff [of 8 n, where 'a = "'a word"] by (auto simp: mask_eq_exp_minus_1 dest: bit_imp_le_length)

lemma low_half: "bit (65535 :: 'a::len word) n \<longleftrightarrow> n < 16 \<and> n < LENGTH('a)"
  using bit_mask_iff [of 16 n, where 'a = "'a word"] by (auto simp: mask_eq_exp_minus_1 dest: bit_imp_le_length)

lemma low_nibble: "bit (15 :: 'a::len word) n \<longleftrightarrow> n < 4 \<and> n < LENGTH('a)"
  using bit_mask_iff [of 4 n, where 'a = "'a word"] by (auto simp: mask_eq_exp_minus_1 dest: bit_imp_le_length)

lemma short_bit: "bit (b :: u8) n \<Longrightarrow> n < 8" "bit (h :: u16) n \<Longrightarrow> n < 16"
  by (auto dest: bit_imp_le_length)

lemma narrow_bit: "(b :: u8) AND 15 = b \<Longrightarrow> bit b n \<Longrightarrow> n < 4"
  by (metis bit_and_iff low_nibble)

definition packed_bit :: "u8 \<Rightarrow> u8 \<Rightarrow> u16 \<Rightarrow> u8 \<Rightarrow> u8 \<Rightarrow> u8 \<Rightarrow> u8 \<Rightarrow> bool \<Rightarrow> bool \<Rightarrow> nat \<Rightarrow> bool" where
  "packed_bit corner preset metrics opacity scale layout palette branding visible n \<longleftrightarrow>
     (if n < 8 then bit corner n else if n < 16 then bit preset (n - 8)
      else if n < 32 then bit metrics (n - 16) else if n < 40 then bit opacity (n - 32)
      else if n < 48 then bit scale (n - 40)
      else if n < 56 then n = 50 \<and> branding \<or> n = 48 \<and> visible \<or> n = 49 \<and> \<not> visible
      else if n < 60 then bit layout (n - 56) else n < 64 \<and> bit palette (n - 60))"

lemma shifted_bits:
  "bit (ucast (b :: u8) :: u64) n \<longleftrightarrow> n < 8 \<and> bit b n"
  "k \<le> 56 \<Longrightarrow> bit (push_bit k (ucast (b :: u8)) :: u64) n \<longleftrightarrow> k \<le> n \<and> n < k + 8 \<and> bit b (n - k)"
  "k \<le> 48 \<Longrightarrow> bit (push_bit k (ucast (h :: u16)) :: u64) n \<longleftrightarrow> k \<le> n \<and> n < k + 16 \<and> bit h (n - k)"
  "k \<le> 60 \<Longrightarrow> c AND 15 = c \<Longrightarrow> bit (push_bit k (ucast (c :: u8)) :: u64) n \<longleftrightarrow> k \<le> n \<and> n < k + 4 \<and> bit c (n - k)"
  "bit (push_bit 50 (of_bool q) :: u64) n \<longleftrightarrow> q \<and> n = 50"
  "bit (push_bit 48 (if v then 1 else 2) :: u64) n \<longleftrightarrow> n = (if v then 48 else 49)"
proof -
  show "bit (ucast b :: u64) n \<longleftrightarrow> n < 8 \<and> bit b n" by (auto simp: bit_simps dest: short_bit)
  show "bit (push_bit k (ucast b) :: u64) n \<longleftrightarrow> k \<le> n \<and> n < k + 8 \<and> bit b (n - k)" if "k \<le> 56"
    using that short_bit(1) [of b "n - k"] by (auto simp: bit_simps)
  show "bit (push_bit k (ucast h) :: u64) n \<longleftrightarrow> k \<le> n \<and> n < k + 16 \<and> bit h (n - k)" if "k \<le> 48"
    using that short_bit(2) [of h "n - k"] by (auto simp: bit_simps)
  show "bit (push_bit k (ucast c) :: u64) n \<longleftrightarrow> k \<le> n \<and> n < k + 4 \<and> bit c (n - k)" if "k \<le> 60" "c AND 15 = c"
    using that(1) narrow_bit [OF that(2), of "n - k"] by (auto simp: bit_simps)
  show "bit (push_bit 50 (of_bool q) :: u64) n \<longleftrightarrow> q \<and> n = 50" by (auto simp: bit_simps bit_1_iff)
  show "bit (push_bit 48 (if v then 1 else 2) :: u64) n \<longleftrightarrow> n = (if v then 48 else 49)"
    by (auto simp: bit_simps bit_1_iff bit_2_iff)
qed

lemma pack_bits:
  assumes "layout AND 15 = layout" "palette AND 15 = palette"
  shows "bit (pack_overlay_config corner preset metrics opacity scale layout palette branding
      OR push_bit 48 (if visible then 1 else 2)) n
    \<longleftrightarrow> packed_bit corner preset metrics opacity scale layout palette branding visible n"
  unfolding pack_overlay_config_def assms bit_or_iff packed_bit_def
  by (simp only: shifted_bits(1,3,5,6) shifted_bits(2) [of 8] shifted_bits(2) [of 32] shifted_bits(2) [of 40]
      shifted_bits(4) [OF _ assms(1), of 56] shifted_bits(4) [OF _ assms(2), of 60]) auto

lemma pack_fields:
  assumes n: "layout AND 15 = layout" "palette AND 15 = palette"
    and p: "p = pack_overlay_config corner preset metrics opacity scale layout palette branding
      OR push_bit 48 (if visible then 1 else 2)"
  shows "ucast (p AND 255) = corner" "ucast (drop_bit 8 p AND 255) = preset"
    "ucast (drop_bit 16 p AND 65535) = metrics" "ucast (drop_bit 32 p AND 255) = opacity"
    "ucast (drop_bit 40 p AND 255) = scale" "ucast (drop_bit 56 p AND 15) = layout"
    "ucast (drop_bit 60 p AND 15) = palette" "drop_bit 48 p AND 4 \<noteq> 0 \<longleftrightarrow> branding"
    "drop_bit 48 p AND 3 = (if visible then 1 else 2)"
    "(drop_bit 48 p AND 255) AND 3 = (if visible then 1 else 2)"
proof -
  have b: "bit p i \<longleftrightarrow> packed_bit corner preset metrics opacity scale layout palette branding visible i" for i
    unfolding p by (rule pack_bits [OF n])
  note rules = bit_ucast_iff bit_and_iff bit_drop_bit_eq comp_apply b low_byte low_half low_nibble
  show "ucast (p AND 255) = corner"
    by (rule bit_word_eqI) (simp only: rules, simp add: packed_bit_def)
  show "ucast (drop_bit 8 p AND 255) = preset" by (rule bit_word_eqI) (simp only: rules, simp add: packed_bit_def)
  show "ucast (drop_bit 16 p AND 65535) = metrics" by (rule bit_word_eqI) (simp only: rules, simp add: packed_bit_def)
  show "ucast (drop_bit 32 p AND 255) = opacity" by (rule bit_word_eqI) (simp only: rules, simp add: packed_bit_def)
  show "ucast (drop_bit 40 p AND 255) = scale" by (rule bit_word_eqI) (simp only: rules, simp add: packed_bit_def)
  show "ucast (drop_bit 56 p AND 15) = layout"
    by (rule bit_word_eqI) (simp only: rules, use narrow_bit [OF n(1)] in \<open>auto simp: packed_bit_def\<close>)
  show "ucast (drop_bit 60 p AND 15) = palette"
    by (rule bit_word_eqI) (simp only: rules, use narrow_bit [OF n(2)] in \<open>auto simp: packed_bit_def\<close>)
  have three: "bit (3 :: u64) i \<longleftrightarrow> i = 0 \<or> i = 1" for i
    using bit_mask_iff [of 2 i, where 'a = u64] by (auto simp: mask_eq_exp_minus_1)
  have four: "bit (4 :: u64) i \<longleftrightarrow> i = 2" for i
    using bit_exp_iff [of 2 i, where 'a = u64] by auto
  show v: "drop_bit 48 p AND 3 = (if visible then 1 else 2)"
    by (rule bit_word_eqI) (simp only: rules three, auto simp: packed_bit_def bit_1_iff bit_2_iff)
  show "(drop_bit 48 p AND 255) AND 3 = (if visible then 1 else 2)"
    by (rule bit_word_eqI) (simp only: rules three, auto simp: packed_bit_def bit_1_iff bit_2_iff)
  have "bit (drop_bit 48 p AND 4) i \<longleftrightarrow> i = 2 \<and> branding" for i by (simp only: rules four) (auto simp: packed_bit_def)
  then show "drop_bit 48 p AND 4 \<noteq> 0 \<longleftrightarrow> branding" by (metis bit_0_eq bot_apply bot_bool_def bit_eqI)
qed

lemma copy_at_same: "length bs = length A \<Longrightarrow> copy_at 0 bs (A @ R) = bs @ R"
  by (simp add: copy_at_def)

lemma copy_at_head: "copy_at 0 [b] (x # xs) = b # xs"
  by (simp add: copy_at_def)

lemma copy_at_all: "length bs = length A \<Longrightarrow> copy_at 0 bs A = bs"
  by (simp add: copy_at_def)

lemmas overwrite = copy_at_all copy_at_Cons copy_at_append2 copy_at_same copy_at_head write_u8_as_copy

definition with_config :: "u64 \<Rightarrow> u64 \<Rightarrow> overlay_hardware_telemetry \<Rightarrow> overlay_hardware_telemetry" where
  "with_config packed revision t = t\<lparr>ht_revision := revision,
     ht_corner := ucast (packed AND 255), ht_preset := ucast (drop_bit 8 packed AND 255),
     ht_metrics := ucast (drop_bit 16 packed AND 65535), ht_opacity_percent := ucast (drop_bit 32 packed AND 255),
     ht_scale_percent := ucast (drop_bit 40 packed AND 255), ht_metrics_visible := packed_visible packed,
     ht_layout := ucast (drop_bit 56 packed AND 15), ht_palette := ucast (drop_bit 60 packed AND 15),
     ht_branding_visible := (drop_bit 48 packed AND 4 \<noteq> 0)\<rparr>"

lemma config_bytes_wire:
  assumes "ucast (drop_bit 48 packed AND 3) = visible_code (packed_visible packed)"
  shows "config_bytes packed n (hardware_wire t) = hardware_wire (with_config packed n t)"
proof -
  have "hardware_flags (with_config packed n t) = hardware_flags t"
    by (simp add: hardware_flags_def with_config_def)
  then show ?thesis
    unfolding config_bytes_def Let_def assms
    by (simp add: hardware_wire_def overwrite) (simp add: with_config_def)
qed

lemma notice_bytes_wire:
  "notice_bytes saved n (hardware_wire t) = hardware_wire (t\<lparr>ht_revision := n, ht_replay_saved_revision := saved\<rparr>)"
proof -
  have "hardware_flags (t\<lparr>ht_revision := n, ht_replay_saved_revision := saved\<rparr>) = hardware_flags t"
    by (simp add: hardware_flags_def)
  then show ?thesis unfolding notice_bytes_def Let_def by (simp add: hardware_wire_def overwrite)
qed

lemma profile_config_fields:
  defines "p \<equiv> \<lambda>profile. profile_config profile"
  shows "shows_profile profile (with_config (p profile) n t)"
    and "shows_profile profile (hardware_from_config n m (p profile) saved)"
    and "ucast (drop_bit 48 (p profile) AND 3) = visible_code (packed_visible (p profile))"
proof -
  note f = pack_fields [OF layout_code_masked palette_code_masked, of "p profile"
      "overlay_corner_code (eg_overlay_corner profile)" "overlay_preset_code (eg_overlay_preset profile)"
      "eg_overlay_metrics profile" "eg_overlay_opacity profile" "eg_overlay_scale profile"
      "eg_overlay_layout profile" "eg_overlay_palette profile" "eg_overlay_branding profile" "eg_overlay_visible profile",
      OF p_def [THEN meta_eq_to_obj_eq, THEN fun_cong, unfolded profile_config_def]]
  have v: "packed_visible (p profile) = Some (eg_overlay_visible profile)"
    by (simp only: packed_visible_def Let_def f(10)) simp
  show "shows_profile profile (with_config (p profile) n t)"
    using f v by (simp add: shows_profile_def with_config_def)
  show "shows_profile profile (hardware_from_config n m (p profile) saved)"
    using f v by (simp add: shows_profile_def hardware_from_config_def)
  show "ucast (drop_bit 48 (p profile) AND 3) = visible_code (packed_visible (p profile))"
    using f(9) v by (simp add: visible_code_def)
qed

text \<open>What the types of the profile's fields guarantee, and the range \<open>metric_tenths\<close> maps into.\<close>

definition profile_ok :: "effective_game_profile \<Rightarrow> bool" where
  "profile_ok profile \<longleftrightarrow> metric_set_from_bits (eg_overlay_metrics profile) = Inr (eg_overlay_metrics profile)
     \<and> overlay_opacity_new (eg_overlay_opacity profile) = Inr (eg_overlay_opacity profile)
     \<and> overlay_scale_new (eg_overlay_scale profile) = Some (eg_overlay_scale profile)"

definition tenths_ok :: "hardware_tenths \<Rightarrow> bool" where
  "tenths_ok m \<longleftrightarrow> \<not> any_above MAX_UTILIZATION_TENTHS [tn_cpu_utilization m, tn_gpu_utilization m]
     \<and> \<not> any_above MAX_TEMPERATURE_TENTHS_CELSIUS [tn_cpu_temperature m, tn_gpu_temperature m]"

lemma begin_update_calm:
  assumes "48 \<le> length f"
  obtains f1 where "begin_update writes_succeed x 16 40 f = (f1, Inr ())" "length f1 = length f"
    "drop 48 f1 = drop 48 f"
  using assms by (simp add: begin_update_def writes_succeed_def write_all_at_def Let_def copy_at_def)

lemma next_revision:
  assumes "even (v :: u64)" "unat v + 2 < 2 ^ 64"
  shows "checked_add v 2 = Some (v + 2)" "0 < v + 2" "even (v + 2)" "unat (v + 2) = unat v + 2"
proof -
  show u: "unat (v + 2) = unat v + 2" using assms(2) by (simp add: unat_word_ariths)
  show "checked_add v 2 = Some (v + 2)" using assms(2) by (simp add: checked_add_def)
  show "0 < v + 2" using u by (simp add: word_less_nat_alt)
  show "even (v + 2)" using assms(1) by simp
qed

lemma codes_bounded: "\<not> 3 < overlay_corner_code c" "\<not> 3 < overlay_preset_code q" "\<not> 2 < overlay_layout_code l"
  "\<not> 7 < overlay_palette_code a"
  by (cases c; cases q; cases l; cases a; simp)+

lemma shown_valid:
  assumes "shows_profile profile t" "profile_ok profile" "0 < ht_revision t" "even (ht_revision t)"
    and "\<not> any_above MAX_UTILIZATION_TENTHS [ht_cpu_utilization_tenths t, ht_gpu_utilization_tenths t]"
    and "\<not> any_above MAX_TEMPERATURE_TENTHS_CELSIUS
      [ht_cpu_temperature_tenths_celsius t, ht_gpu_temperature_tenths_celsius t]"
  shows "validate_hardware t = Inr ()"
  using assms
  by (auto simp: validate_hardware_def is_multiple_of_def [where 'a = 8] shows_profile_def profile_ok_def codes_bounded metric_set_from_bits_def
      overlay_opacity_new_def overlay_scale_new_def split: if_splits)

lemma write_block_calm: "length B = 48 \<Longrightarrow> write_all_at None B 0 f = (B @ drop 48 f, Inr ())"
  by (simp add: write_all_at_def copy_at_def)

lemma update_config_calm:
  assumes "slice 0 48 (ov_file s) = hardware_wire t" "48 \<le> length (ov_file s)" "even (ov_revision s)"
    and "unat (ov_revision s) + 2 < 2 ^ 64"
  shows "update_overlay_config writes_succeed profile s =
    (s\<lparr>ov_file := hardware_wire (with_config (profile_config profile) (ov_revision s + 2) t) @ drop 48 (ov_file s),
       ov_revision := ov_revision s + 2, ov_config := profile_config profile\<rparr>, Inr ())"
proof -
  obtain f1 where f1: "begin_update writes_succeed (ov_revision s + 2 - 1) 16 40 (ov_file s) = (f1, Inr ())"
    "drop 48 f1 = drop 48 (ov_file s)"
    using begin_update_calm [OF assms(2)] by metis
  have r: "read_exact_at (we_read writes_succeed) 0 48 (ov_file s) = Inr (hardware_wire t)"
    using assms(1,2) by (simp add: read_exact_at_def writes_succeed_def)
  have w: "we_block writes_succeed = None" by (simp add: writes_succeed_def)
  show ?thesis
    using f1 by (simp add: update_overlay_config_def write_overlay_config_def rewrite_block_def
        OVERLAY_HARDWARE_TELEMETRY_BYTES_def r next_revision(1) [OF assms(3,4)] w
        config_bytes_wire [OF profile_config_fields(3)] write_block_calm Let_def)
qed

lemma update_hardware_calm:
  assumes "48 \<le> length (ov_file s)" "even (ov_revision s)" "unat (ov_revision s) + 2 < 2 ^ 64"
    and v: "validate_hardware (hardware_from_config (ov_revision s + 2) m (ov_config s) (ov_saved_revision s)) = Inr ()"
  shows "update_overlay_hardware writes_succeed m s =
    (s\<lparr>ov_file := hardware_wire (hardware_from_config (ov_revision s + 2) m (ov_config s) (ov_saved_revision s))
         @ drop 48 (ov_file s), ov_revision := ov_revision s + 2\<rparr>, Inr ())"
proof -
  obtain f1 where f1: "begin_update writes_succeed (ov_revision s + 2 - 1) 16 40 (ov_file s) = (f1, Inr ())"
    "drop 48 f1 = drop 48 (ov_file s)"
    using begin_update_calm [OF assms(1)] by metis
  have e: "encode_overlay_hardware_telemetry (hardware_from_config (ov_revision s + 2) m (ov_config s)
      (ov_saved_revision s)) (replicate 48 0)
    = Inr (hardware_wire (hardware_from_config (ov_revision s + 2) m (ov_config s) (ov_saved_revision s)), 48)"
    using v encode_hardware_exact by blast
  have w: "we_block writes_succeed = None" by (simp add: writes_succeed_def)
  show ?thesis
    using next_revision [OF assms(2,3)] f1
    by (simp add: update_overlay_hardware_def write_overlay_hardware_def
        OVERLAY_HARDWARE_TELEMETRY_BYTES_def e w write_block_calm map_err_def)
qed

text \<open>A profile change reaches the overlay and stays. When the hardware block is a complete valid snapshot,
  applying a profile to the running session rewrites the block so that it decodes to a snapshot showing
  exactly that profile (corner, preset, layout, palette, metric set, opacity, scale, visibility and branding)
  with the sampled metrics and the save counter unchanged; and the next hardware sample, which rebuilds the
  block from the packed configuration word, shows the same profile with the new metrics.\<close>
theorem profile_change_is_shown:
  assumes "profile_ok profile" "tenths_ok m"
    and "slice 0 48 (ov_file s) = hardware_wire t" "validate_hardware t = Inr ()" "48 \<le> length (ov_file s)"
    and "even (ov_revision s)" "unat (ov_revision s) + 4 < 2 ^ 64"
  shows "\<exists>s1 t1 s2 t2. update_overlay_config writes_succeed profile s = (s1, Inr ())
    \<and> decode_overlay_hardware_telemetry (slice 0 48 (ov_file s1)) = Inr t1 \<and> shows_profile profile t1
    \<and> ht_cpu_utilization_tenths t1 = ht_cpu_utilization_tenths t
    \<and> ht_cpu_temperature_tenths_celsius t1 = ht_cpu_temperature_tenths_celsius t
    \<and> ht_gpu_utilization_tenths t1 = ht_gpu_utilization_tenths t
    \<and> ht_gpu_temperature_tenths_celsius t1 = ht_gpu_temperature_tenths_celsius t
    \<and> ht_replay_saved_revision t1 = ht_replay_saved_revision t
    \<and> update_overlay_hardware writes_succeed m s1 = (s2, Inr ())
    \<and> decode_overlay_hardware_telemetry (slice 0 48 (ov_file s2)) = Inr t2 \<and> shows_profile profile t2
    \<and> ht_cpu_utilization_tenths t2 = tn_cpu_utilization m"
proof -
  let ?p = "profile_config profile" and ?n = "ov_revision s + 2"
  have b: "unat (ov_revision s) + 2 < 2 ^ 64" using assms(7) by simp
  define t1 where "t1 = with_config ?p ?n t"
  define s1 where "s1 = s\<lparr>ov_file := hardware_wire t1 @ drop 48 (ov_file s), ov_revision := ?n, ov_config := ?p\<rparr>"
  have u1: "update_overlay_config writes_succeed profile s = (s1, Inr ())"
    unfolding s1_def t1_def by (rule update_config_calm [OF assms(3,5,6) b])
  have v1: "validate_hardware t1 = Inr ()"
    using shown_valid [OF profile_config_fields(1) assms(1), of ?n t] next_revision [OF assms(6) b] assms(4)
    by (auto simp: t1_def with_config_def validate_hardware_def split: if_splits)
  define t2 where "t2 = hardware_from_config (?n + 2) m ?p (ov_saved_revision s1)"
  have n1: "even (ov_revision s1)" "unat (ov_revision s1) + 2 < 2 ^ 64"
    using next_revision [OF assms(6) b] assms(7) by (simp_all add: s1_def)
  have v2: "validate_hardware t2 = Inr ()"
    using shown_valid [OF profile_config_fields(2) assms(1), of "?n + 2" m "ov_saved_revision s1"]
      next_revision [OF n1] assms(2)
    by (simp add: t2_def hardware_from_config_def tenths_ok_def s1_def)
  define s2 where "s2 = s1\<lparr>ov_file := hardware_wire t2 @ drop 48 (ov_file s1), ov_revision := ?n + 2\<rparr>"
  have u2: "update_overlay_hardware writes_succeed m s1 = (s2, Inr ())"
    using update_hardware_calm [of s1 m] n1 v2 assms(5) by (simp add: s1_def s2_def t2_def)
  have d: "decode_overlay_hardware_telemetry (slice 0 48 (ov_file s1)) = Inr t1"
    "decode_overlay_hardware_telemetry (slice 0 48 (ov_file s2)) = Inr t2"
    using decode_hardware_wire [OF v1] decode_hardware_wire [OF v2]
    by (simp_all add: s1_def s2_def slice_layout)
  have "shows_profile profile t1" "shows_profile profile t2"
    unfolding t1_def t2_def by (rule profile_config_fields)+
  with u1 u2 d show ?thesis
    by - (rule exI [of _ s1], rule exI [of _ t1], rule exI [of _ s2], rule exI [of _ t2],
        simp add: t1_def with_config_def t2_def hardware_from_config_def)
qed

definition sample_profile :: effective_game_profile where
  "sample_profile = profile_resolve default_per_game_profile default_global_profile"

definition sample_tenths :: hardware_tenths where
  "sample_tenths = \<lparr>tn_cpu_utilization = Some 1000, tn_cpu_temperature = None, tn_gpu_utilization = None,
     tn_gpu_temperature = Some 2000\<rparr>"

lemma sample_profile_ok: "profile_ok sample_profile" "tenths_ok sample_tenths"
  by (simp_all add: profile_ok_def sample_profile_def profile_resolve_def default_global_profile_def
      metric_set_from_bits_def METRIC_SET_COMPACT_def METRIC_KNOWN_def metric_bits overlay_opacity_new_def
      overlay_scale_new_def tenths_ok_def sample_tenths_def any_above_def MAX_UTILIZATION_TENTHS_def
      MAX_TEMPERATURE_TENTHS_CELSIUS_def)

theorem profile_change_is_shown_witness:
  "\<exists>s1 t1 s2 t2. update_overlay_config writes_succeed sample_profile
      (session_new (hardware_wire initial_hardware_telemetry @ menu_wire initial_menu_telemetry)) = (s1, Inr ())
    \<and> decode_overlay_hardware_telemetry (slice 0 48 (ov_file s1)) = Inr t1 \<and> shows_profile sample_profile t1
    \<and> update_overlay_hardware writes_succeed sample_tenths s1 = (s2, Inr ())
    \<and> decode_overlay_hardware_telemetry (slice 0 48 (ov_file s2)) = Inr t2 \<and> shows_profile sample_profile t2
    \<and> ht_cpu_utilization_tenths t2 = Some 1000"
proof -
  let ?s = "session_new (hardware_wire initial_hardware_telemetry @ menu_wire initial_menu_telemetry)"
  have "slice 0 48 (ov_file ?s) = hardware_wire initial_hardware_telemetry" "48 \<le> length (ov_file ?s)"
    "even (ov_revision ?s)" "unat (ov_revision ?s) + 4 < 2 ^ 64"
    by (simp_all add: session_new_def slice_layout)
  from profile_change_is_shown [OF sample_profile_ok this(1) initial_hardware_ok this(2,3,4)]
  show ?thesis by (auto simp: sample_tenths_def)
qed

section \<open>A stopped update followed by a notice\<close>

definition write_stops_at_26 :: write_env where
  "write_stops_at_26 = writes_succeed\<lparr>we_block := Some (26, ''input/output error'')\<rparr>"

lemma stopped_update:
  fixes s u
  defines "s \<equiv> session_new (hardware_wire initial_hardware_telemetry @ menu_wire initial_menu_telemetry)"
    and "u \<equiv> hardware_from_config 4 sample_tenths (ov_config s) 0"
  assumes v: "validate_hardware u = Inr ()"
  shows "update_overlay_hardware write_stops_at_26 sample_tenths s = (s', r) \<Longrightarrow>
    slice 0 48 (ov_file s') = take 26 (hardware_wire u) @ drop 26 (copy_at 40 (u64_to_le_bytes 3) (hardware_wire initial_hardware_telemetry))
    \<and> ov_revision s' = 4 \<and> length (ov_file s') = 176 \<and> ov_saved_revision s' = 0"
proof -
  let ?m = "menu_wire initial_menu_telemetry" and ?h = "hardware_wire initial_hardware_telemetry"
  have e: "encode_overlay_hardware_telemetry u (replicate 48 0) = Inr (hardware_wire u, 48)"
    using v encode_hardware_exact by blast
  have b: "begin_update write_stops_at_26 3 16 40 (?h @ ?m) = (copy_at 40 (u64_to_le_bytes 3) (copy_at 16 (u64_to_le_bytes 3) ?h) @ ?m, Inr ())"
    by (simp add: begin_update_def write_stops_at_26_def writes_succeed_def write_all_at_def copy_at_append1)
  have c: "checked_add (2::u64) 2 = Some 4" by (simp add: checked_add_def)
  have d: "drop 26 (copy_at 40 (u64_to_le_bytes 3) (copy_at 16 (u64_to_le_bytes 3) ?h)) = drop 26 (copy_at 40 (u64_to_le_bytes 3) ?h)"
    by (simp add: copy_at_def drop_take)
  assume "update_overlay_hardware write_stops_at_26 sample_tenths s = (s', r)"
  then show ?thesis
    using e b d initial_menu_ok
    by (auto simp: u_def s_def update_overlay_hardware_def session_new_def write_overlay_hardware_def c
      OVERLAY_HARDWARE_TELEMETRY_BYTES_def write_stops_at_26_def writes_succeed_def write_all_at_def copy_at_def slice_def)
qed

text \<open>A save notice republishes whatever bytes it finds. A hardware update that stops after 26 bytes leaves a
  block that the decoder rejects; the next notice copies that block under a fresh even revision, and the
  overlay then reads a GPU temperature of zero that no sample contained.\<close>
lemma notice_republishes_torn_block:
  fixes s
  defines "s \<equiv> session_new (hardware_wire initial_hardware_telemetry @ menu_wire initial_menu_telemetry)"
  shows "\<exists>s1 e s2 t. update_overlay_hardware write_stops_at_26 sample_tenths s = (s1, Inl e)
    \<and> publish_replay_saved_notice writes_succeed s1 = (s2, Inr ())
    \<and> decode_overlay_hardware_telemetry (slice 0 48 (ov_file s2)) = Inr t
    \<and> tn_gpu_temperature sample_tenths = Some 2000 \<and> ht_gpu_temperature_tenths_celsius t = Some 0"
proof -
  define u where "u = hardware_from_config 4 sample_tenths (ov_config s) 0"
  have u: "u = initial_hardware_telemetry\<lparr>ht_revision := 4, ht_cpu_utilization_tenths := Some 1000,
    ht_gpu_temperature_tenths_celsius := Some 2000\<rparr>"
    by (simp add: u_def s_def session_new_def hardware_from_config_def pack_overlay_config_def sample_tenths_def
      initial_hardware_telemetry_def packed_visible_def)
  have v: "validate_hardware u = Inr ()"
    by (simp add: u validate_hardware_def initial_hardware_telemetry_def any_above_def is_multiple_of_def
      MAX_UTILIZATION_TENTHS_def MAX_TEMPERATURE_TENTHS_CELSIUS_def)
  define t where "t = initial_hardware_telemetry\<lparr>ht_revision := 6, ht_cpu_utilization_tenths := Some 1000,
    ht_gpu_temperature_tenths_celsius := Some 0, ht_replay_saved_revision := 1\<rparr>"
  have vt: "validate_hardware t = Inr ()"
    by (simp add: t_def validate_hardware_def initial_hardware_telemetry_def any_above_def is_multiple_of_def
      MAX_UTILIZATION_TENTHS_def MAX_TEMPERATURE_TENTHS_CELSIUS_def)
  have z: "u16_to_le_bytes 0 = [0, 0]" by (simp add: u16_to_le_bytes_def numeral_2_eq_2)
  have f: "hardware_flags t = hardware_flags u" by (simp add: hardware_flags_def t_def u opt_flag_def)
  let ?b = "take 26 (hardware_wire u) @ drop 26 (copy_at 40 (u64_to_le_bytes 3) (hardware_wire initial_hardware_telemetry))"
  have n: "notice_bytes 1 6 ?b = hardware_wire t"
    unfolding notice_bytes_def Let_def hardware_wire_def f
    by (simp add: overwrite t_def u initial_hardware_telemetry_def opt_wire_def z) (simp add: copy_at_def)
  obtain s1 r where s1: "update_overlay_hardware write_stops_at_26 sample_tenths s = (s1, r)" by (metis surj_pair)
  note t1 = stopped_update [folded s_def, folded u_def, OF v s1]
  have "r \<noteq> Inr ()" using s1 unfolding update_overlay_hardware_def write_overlay_hardware_def write_stops_at_26_def
    by (auto simp: map_err_def write_all_at_def Let_def split: if_splits sum.splits prod.splits option.splits)
  then obtain e where r: "r = Inl e" by (cases r) auto
  obtain f1 where f1: "begin_update writes_succeed 5 16 40 (ov_file s1) = (f1, Inr ())"
    using begin_update_calm [of "ov_file s1" 5] t1 by auto
  have rd: "read_exact_at (we_read writes_succeed) 0 48 (ov_file s1) = Inr ?b"
    using t1 by (simp add: read_exact_at_def writes_succeed_def)
  have w: "we_block writes_succeed = None" "checked_add (4 :: u64) 2 = Some 6"
    by (simp_all add: writes_succeed_def checked_add_def)
  define s2 where "s2 = s1\<lparr>ov_saved_revision := 1, ov_file := hardware_wire t @ drop 48 f1, ov_revision := 6\<rparr>"
  have "publish_replay_saved_notice writes_succeed s1 = (s2, Inr ())"
    using t1 f1 rd w n
    by (simp add: publish_replay_saved_notice_def write_overlay_replay_notice_def rewrite_block_def
      OVERLAY_HARDWARE_TELEMETRY_BYTES_def write_block_calm s2_def map_err_def Let_def)
  moreover have "decode_overlay_hardware_telemetry (slice 0 48 (ov_file s2)) = Inr t"
    using decode_hardware_wire [OF vt] by (simp add: s2_def slice_layout)
  ultimately show ?thesis using s1 r
    by - (rule exI [of _ s1], rule exI [of _ e], rule exI [of _ s2], rule exI [of _ t], simp add: t_def sample_tenths_def)
qed

end
