(* ===== verification/Replay_Preferences.thy ===== *)
theory Replay_Preferences
  imports State_File Game_Settings
begin

text \<open>
  Replay preferences, \<open>redunar-daemon/src/replay_preferences.rs\<close>: shortcuts, output format, save
  directory and microphone, kept in a line-based file with eight versions. Paths and source names
  are stored in hexadecimal, so that any byte can occur in them.
\<close>

section \<open>Values\<close>

definition RP_HEADER_V1 :: string where "RP_HEADER_V1 = ''redunar-replay-preferences-v1''"
definition RP_HEADER_V2 :: string where "RP_HEADER_V2 = ''redunar-replay-preferences-v2''"
definition RP_HEADER_V3 :: string where "RP_HEADER_V3 = ''redunar-replay-preferences-v3''"
definition RP_HEADER_V4 :: string where "RP_HEADER_V4 = ''redunar-replay-preferences-v4''"
definition RP_HEADER_V5 :: string where "RP_HEADER_V5 = ''redunar-replay-preferences-v5''"
definition RP_HEADER_V6 :: string where "RP_HEADER_V6 = ''redunar-replay-preferences-v6''"
definition RP_HEADER_V7 :: string where "RP_HEADER_V7 = ''redunar-replay-preferences-v7''"
definition RP_HEADER_V8 :: string where "RP_HEADER_V8 = ''redunar-replay-preferences-v8''"

lemmas rp_header_defs = RP_HEADER_V1_def RP_HEADER_V2_def RP_HEADER_V3_def RP_HEADER_V4_def
  RP_HEADER_V5_def RP_HEADER_V6_def RP_HEADER_V7_def RP_HEADER_V8_def

definition DEFAULT_OVERLAY_SHORTCUT :: string where "DEFAULT_OVERLAY_SHORTCUT = ''Alt+Shift+Z''"
definition LEGACY_OVERLAY_SHORTCUT :: string where "LEGACY_OVERLAY_SHORTCUT = ''Shift+Tab''"
definition REPLAY_DIRECTORY_NAME :: string where "REPLAY_DIRECTORY_NAME = ''Redunar Replays''"
definition MAX_PREFERENCES_BYTES :: nat where "MAX_PREFERENCES_BYTES = 8 * 1024"
definition MAX_PATH_BYTES :: nat where "MAX_PATH_BYTES = 4 * 1024"
definition MAX_SHORTCUT_BYTES :: nat where "MAX_SHORTCUT_BYTES = 64"
definition MAX_REPLAY_SHORTCUTS :: nat where "MAX_REPLAY_SHORTCUTS = 8"
definition MIN_MICROPHONE_GAIN_DB :: int where "MIN_MICROPHONE_GAIN_DB = -12"
definition MAX_MICROPHONE_GAIN_DB :: int where "MAX_MICROPHONE_GAIN_DB = 24"

record replay_shortcut_binding =
  sb_shortcut :: string
  sb_duration :: replay_duration

datatype microphone_mode = Off | DefaultInput | SelectedInput string

datatype replay_output_format = Matroska | Mp4

primrec format_extension :: "replay_output_format \<Rightarrow> string" where
  "format_extension Matroska = ''mkv''"
| "format_extension Mp4 = ''mp4''"

record replay_preferences =
  rp_custom_save_parent :: "string option"
  rp_output_format :: replay_output_format
  rp_overlay_shortcut :: string
  rp_close_overlay_on_outside_click :: bool
  rp_initial_save_duration :: replay_duration
  rp_save_shortcuts :: "replay_shortcut_binding list"
  rp_microphone :: microphone_mode
  rp_microphone_gain_db :: int

definition default_replay_preferences :: replay_preferences where
  "default_replay_preferences = \<lparr>rp_custom_save_parent = None, rp_output_format = Matroska,
     rp_overlay_shortcut = DEFAULT_OVERLAY_SHORTCUT, rp_close_overlay_on_outside_click = True,
     rp_initial_save_duration = Seconds30, rp_save_shortcuts = [], rp_microphone = DefaultInput,
     rp_microphone_gain_db = 0\<rparr>"

definition is_absolute :: "string \<Rightarrow> bool" where
  "is_absolute path \<longleftrightarrow> path \<noteq> [] \<and> hd path = CHR ''/''"

text \<open>\<open>Path::join\<close> with a relative name.\<close>

definition path_join :: "string \<Rightarrow> string \<Rightarrow> string" where
  "path_join path name = (if path = [] \<or> last path = CHR ''/'' then path @ name else path @ CHR ''/'' # name)"

definition resolved_directory :: "replay_preferences \<Rightarrow> string option \<Rightarrow> string \<Rightarrow> string" where
  "resolved_directory p home state_directory =
     (case rp_custom_save_parent p of
        Some parent \<Rightarrow> path_join parent REPLAY_DIRECTORY_NAME
      | None \<Rightarrow>
         (case home of
            Some path \<Rightarrow> if is_absolute path then path_join (path_join path ''Videos'') REPLAY_DIRECTORY_NAME
                         else path_join state_directory ''replays-v1''
          | None \<Rightarrow> path_join state_directory ''replays-v1''))"

section \<open>Validation\<close>

definition validate_parent :: "string \<Rightarrow> string + unit" where
  "validate_parent parent =
     (if \<not> is_absolute parent \<or> length parent > MAX_PATH_BYTES
      then Inl ''replay save parent must be an absolute path within the supported length'' else Inr ())"

definition is_ascii_control :: "char \<Rightarrow> bool" where
  "is_ascii_control c \<longleftrightarrow> (of_char c :: nat) < 32 \<or> (of_char c :: nat) = 127"

definition validate_shortcut :: "string \<Rightarrow> string + unit" where
  "validate_shortcut shortcut =
     (if shortcut = [] \<or> length shortcut > MAX_SHORTCUT_BYTES \<or> \<not> ascii_text shortcut
         \<or> list_ex is_ascii_control shortcut
      then Inl (''replay shortcut must be 1'' @ [CHR 0xE2, CHR 0x80, CHR 0x93] @ ''64 printable ASCII characters'') else Inr ())"

fun unique_shortcuts :: "string list \<Rightarrow> replay_shortcut_binding list \<Rightarrow> string + unit" where
  "unique_shortcuts seen [] = Inr ()"
| "unique_shortcuts seen (b # bs) =
     and_then (validate_shortcut (sb_shortcut b)) (\<lambda>_.
       if sb_shortcut b \<in> set seen then Inl ''Replay save shortcuts must be unique''
       else unique_shortcuts (sb_shortcut b # seen) bs)"

definition validate_shortcuts :: "replay_shortcut_binding list \<Rightarrow> string + unit" where
  "validate_shortcuts bindings =
     (if length bindings > MAX_REPLAY_SHORTCUTS then Inl ''Replay supports up to eight save shortcuts''
      else unique_shortcuts [] bindings)"

definition validate_hotkeys :: "string \<Rightarrow> replay_shortcut_binding list \<Rightarrow> string + unit" where
  "validate_hotkeys overlay_shortcut bindings =
     and_then (if overlay_shortcut \<noteq> [] then validate_shortcut overlay_shortcut else Inr ()) (\<lambda>_.
     and_then (validate_shortcuts bindings) (\<lambda>_.
       if list_ex (\<lambda>b. sb_shortcut b = overlay_shortcut) bindings
       then Inl ''Replay overlay and save shortcuts must be unique'' else Inr ()))"

text \<open>A name is a string, so its bytes are UTF-8; the length counts bytes, the check characters.\<close>

definition validate_microphone :: "microphone_mode \<Rightarrow> string + unit" where
  "validate_microphone value = (case value of
       SelectedInput name \<Rightarrow>
         if name = [] \<or> length name > 256 \<or> (case chars name of None \<Rightarrow> True | Some cs \<Rightarrow> list_ex is_control cs)
         then Inl ''microphone source is invalid'' else Inr ()
     | _ \<Rightarrow> Inr ())"

section \<open>Tokens\<close>

definition hex_digit :: "nat \<Rightarrow> char" where
  "hex_digit n = ''0123456789abcdef'' ! n"

definition hex :: "string \<Rightarrow> string" where
  "hex bytes = concat (map (\<lambda>c. [hex_digit (of_char c div 16), hex_digit (of_char c mod 16)]) bytes)"

definition digit :: "char \<Rightarrow> string + nat" where
  "digit value = (let v = of_char value in
     if 48 \<le> v \<and> v \<le> 57 then Inr (v - 48) else if 97 \<le> v \<and> v \<le> 102 then Inr (v - 97 + 10)
     else Inl ''save parent encoding is invalid'')"

fun unhex_pairs :: "string \<Rightarrow> string + string" where
  "unhex_pairs (a # b # rest) =
     and_then (digit a) (\<lambda>high. and_then (digit b) (\<lambda>low.
       and_then (unhex_pairs rest) (\<lambda>bytes. Inr (char_of (high * 16 + low) # bytes))))"
| "unhex_pairs _ = Inr []"

definition unhex :: "string \<Rightarrow> string + string" where
  "unhex value = (if value = [] \<or> odd (length value) then Inl ''save parent encoding is invalid''
     else unhex_pairs value)"

definition microphone_token :: "microphone_mode \<Rightarrow> string" where
  "microphone_token value = (case value of Off \<Rightarrow> ''off'' | DefaultInput \<Rightarrow> ''default''
     | SelectedInput name \<Rightarrow> ''selected:'' @ hex name)"

definition parse_microphone :: "string \<Rightarrow> string + microphone_mode" where
  "parse_microphone value =
     (if value = ''off'' then Inr Off else if value = ''default'' then Inr DefaultInput
      else case strip_prefix ''selected:'' value of
        None \<Rightarrow> Inl ''microphone mode is invalid''
      | Some encoded \<Rightarrow>
          and_then (unhex encoded) (\<lambda>bytes.
            if chars bytes = None then Inl ''microphone source is invalid''
            else and_then (map_err (\<lambda>_. ''microphone source is invalid'')
                     (validate_microphone (SelectedInput bytes))) (\<lambda>_. Inr (SelectedInput bytes))))"

definition rp_parse_bool :: "string \<Rightarrow> string + bool" where
  "rp_parse_bool value = (if value = ''true'' then Inr True else if value = ''false'' then Inr False
     else Inl ''Replay overlay behavior is invalid'')"

primrec output_format_token :: "replay_output_format \<Rightarrow> string" where
  "output_format_token Matroska = ''mkv''"
| "output_format_token Mp4 = ''mp4''"

definition parse_output_format :: "string \<Rightarrow> string + replay_output_format" where
  "parse_output_format value = (if value = ''mkv'' then Inr Matroska else if value = ''mp4'' then Inr Mp4
     else Inl ''Replay output format is invalid'')"

primrec duration_token :: "replay_duration \<Rightarrow> string" where
  "duration_token Seconds15 = ''15''"
| "duration_token Seconds30 = ''30''"
| "duration_token Seconds60 = ''60''"
| "duration_token Seconds120 = ''120''"
| "duration_token Seconds180 = ''180''"
| "duration_token Seconds300 = ''300''"
| "duration_token Seconds600 = ''600''"
| "duration_token Seconds900 = ''900''"

definition parse_duration_token :: "string \<Rightarrow> string + replay_duration" where
  "parse_duration_token value =
     (if value = ''15'' then Inr Seconds15 else if value = ''30'' then Inr Seconds30
      else if value = ''60'' then Inr Seconds60 else if value = ''120'' then Inr Seconds120
      else if value = ''180'' then Inr Seconds180 else if value = ''300'' then Inr Seconds300
      else if value = ''600'' then Inr Seconds600 else if value = ''900'' then Inr Seconds900
      else Inl ''shortcut duration is invalid'')"

definition parse_save_parent :: "string \<Rightarrow> string + string option" where
  "parse_save_parent parent =
     (if parent = ''default'' then Inr None
      else and_then (unhex parent) (\<lambda>bytes.
        if length bytes > MAX_PATH_BYTES then Inl ''save parent exceeds the supported length''
        else and_then (map_err (\<lambda>_. ''save parent is invalid'') (validate_parent bytes)) (\<lambda>_. Inr (Some bytes))))"

definition field :: "string option \<Rightarrow> string \<Rightarrow> string + string" where
  "field line expected =
     and_then (ok_or (Option.bind line (split_once (CHR ''=''))) ''preferences contain a missing field'')
       (\<lambda>(name, value). if name \<noteq> expected then Inl ''preferences contain missing or reordered fields''
          else Inr value)"

section \<open>Text form\<close>

definition binding_line :: "replay_shortcut_binding \<Rightarrow> string" where
  "binding_line b = ''binding='' @ duration_token (sb_duration b) @ CHR '':'' # sb_shortcut b"

definition rp_lines :: "replay_preferences \<Rightarrow> string list" where
  "rp_lines p =
     [RP_HEADER_V8,
      ''save-parent='' @ (case rp_custom_save_parent p of None \<Rightarrow> ''default'' | Some path \<Rightarrow> hex path),
      ''output-format='' @ output_format_token (rp_output_format p),
      ''overlay-shortcut='' @ rp_overlay_shortcut p,
      ''close-on-outside-click='' @ (if rp_close_overlay_on_outside_click p then ''true'' else ''false''),
      ''initial-save-duration='' @ duration_token (rp_initial_save_duration p),
      ''microphone='' @ microphone_token (rp_microphone p),
      ''microphone-gain-db='' @ show_int (rp_microphone_gain_db p),
      ''binding-count='' @ show_nat (length (rp_save_shortcuts p))]
     @ map binding_line (rp_save_shortcuts p)"

definition rp_serialize :: "replay_preferences \<Rightarrow> string" where
  "rp_serialize p = concat (map (\<lambda>l. l @ [newline]) (rp_lines p))"

fun parse_bindings :: "nat \<Rightarrow> string list \<Rightarrow> string + (replay_shortcut_binding list \<times> string list)" where
  "parse_bindings 0 ls = Inr ([], ls)"
| "parse_bindings (Suc n) ls =
     and_then (field (next_line ls) ''binding'') (\<lambda>value.
     and_then (ok_or (split_once (CHR '':'') value) ''shortcut binding is invalid'') (\<lambda>(duration, shortcut).
     and_then (parse_duration_token duration) (\<lambda>duration.
     and_then (parse_bindings n (tl ls)) (\<lambda>(bindings, ls).
       Inr (\<lparr>sb_shortcut = shortcut, sb_duration = duration\<rparr> # bindings, ls)))))"

text \<open>A field that versions from \<open>versions\<close> on carry; older files use the given value.\<close>

definition versioned :: "string \<Rightarrow> string set \<Rightarrow> string \<Rightarrow> (string \<Rightarrow> string + 'a) \<Rightarrow> 'a \<Rightarrow> string list \<Rightarrow>
    string + ('a \<times> string list)" where
  "versioned version versions name convert older ls =
     (if version \<in> versions
      then and_then (field (next_line ls) name) (\<lambda>value. and_then (convert value) (\<lambda>x. Inr (x, tl ls)))
      else Inr (older, ls))"

definition parse_gain :: "string \<Rightarrow> string + int" where
  "parse_gain value =
     and_then (ok_or (parse_signed 32768 value) ''microphone recording level is invalid'') (\<lambda>gain.
       if \<not> (MIN_MICROPHONE_GAIN_DB \<le> gain \<and> gain \<le> MAX_MICROPHONE_GAIN_DB)
       then Inl ''microphone recording level is invalid'' else Inr gain)"

definition parse_shortcuts :: "string \<Rightarrow> string list \<Rightarrow> string + replay_shortcut_binding list" where
  "parse_shortcuts version ls =
     (if version = RP_HEADER_V1 then
        and_then (field (next_line ls) ''save-shortcut'') (\<lambda>shortcut.
          if next_line (tl ls) \<noteq> None then Inl ''preferences contain unknown fields''
          else Inr [\<lparr>sb_shortcut = shortcut, sb_duration = Seconds30\<rparr>])
      else
        and_then (field (next_line ls) ''binding-count'') (\<lambda>value.
        and_then (ok_or (parse_unsigned (2 ^ 64 - 1) value) ''shortcut binding count is invalid'') (\<lambda>count.
          if count > MAX_REPLAY_SHORTCUTS then Inl ''shortcut binding count is invalid''
          else and_then (parse_bindings count (tl ls)) (\<lambda>(bindings, ls).
            if next_line ls \<noteq> None then Inl ''preferences contain unknown fields'' else Inr bindings))))"

definition rp_parse :: "string \<Rightarrow> string + replay_preferences" where
  "rp_parse contents =
     (let ls = lines contents
      in and_then (ok_or (next_line ls) ''preferences are empty'') (\<lambda>version.
         if version \<notin> {RP_HEADER_V1, RP_HEADER_V2, RP_HEADER_V3, RP_HEADER_V4, RP_HEADER_V5, RP_HEADER_V6,
              RP_HEADER_V7, RP_HEADER_V8} then Inl ''unsupported preferences version''
         else
         and_then (field (next_line (tl ls)) ''save-parent'') (\<lambda>parent.
         and_then (parse_save_parent parent) (\<lambda>custom_save_parent.
         and_then (versioned version {RP_HEADER_V3, RP_HEADER_V4, RP_HEADER_V5, RP_HEADER_V6, RP_HEADER_V7, RP_HEADER_V8}
             ''output-format'' parse_output_format Matroska (tl (tl ls))) (\<lambda>(output_format, ls).
         and_then (versioned version {RP_HEADER_V4, RP_HEADER_V5, RP_HEADER_V6, RP_HEADER_V7, RP_HEADER_V8}
             ''overlay-shortcut'' Inr LEGACY_OVERLAY_SHORTCUT ls) (\<lambda>(overlay_shortcut, ls).
         and_then (versioned version {RP_HEADER_V5, RP_HEADER_V6, RP_HEADER_V7, RP_HEADER_V8}
             ''close-on-outside-click'' rp_parse_bool True ls) (\<lambda>(close_overlay_on_outside_click, ls).
         and_then (versioned version {RP_HEADER_V6, RP_HEADER_V7, RP_HEADER_V8}
             ''initial-save-duration'' parse_duration_token Seconds30 ls) (\<lambda>(initial_save_duration, ls).
         and_then (versioned version {RP_HEADER_V7, RP_HEADER_V8}
             ''microphone'' parse_microphone Off ls) (\<lambda>(microphone, ls).
         and_then (versioned version {RP_HEADER_V8} ''microphone-gain-db'' parse_gain 0 ls)
             (\<lambda>(microphone_gain_db, ls).
         and_then (parse_shortcuts version ls) (\<lambda>save_shortcuts.
         and_then (map_err (\<lambda>_. ''Replay shortcuts are invalid'')
             (validate_hotkeys overlay_shortcut save_shortcuts)) (\<lambda>_.
           Inr \<lparr>rp_custom_save_parent = custom_save_parent, rp_output_format = output_format,
                rp_overlay_shortcut = overlay_shortcut,
                rp_close_overlay_on_outside_click = close_overlay_on_outside_click,
                rp_initial_save_duration = initial_save_duration, rp_save_shortcuts = save_shortcuts,
                rp_microphone = microphone, rp_microphone_gain_db = microphone_gain_db\<rparr>))))))))))))"

section \<open>Loading, saving and the setters\<close>

definition rp_load_unlocked :: "string \<Rightarrow> file_env \<Rightarrow> state_file \<Rightarrow> string + replay_preferences" where
  "rp_load_unlocked path env file =
     (let problem = \<lambda>message. ''could not load Replay preferences from '' @ path @ '': '' @ message
      in case fe_stat_error env of Some e \<Rightarrow> Inl (problem e)
       | None \<Rightarrow>
          (case file of
             Missing \<Rightarrow> Inr default_replay_preferences
           | Irregular \<Rightarrow> Inl (problem ''state is not a regular file'')
           | Regular contents \<Rightarrow>
               if length contents > MAX_PREFERENCES_BYTES then Inl (problem ''state is too large'')
               else and_then (map_err problem (os (fe_read_error env))) (\<lambda>_.
                    if chars contents = None then Inl (problem ''stream did not contain valid UTF-8'')
                    else map_err problem (rp_parse contents))))"

definition rp_save_unlocked :: "string \<Rightarrow> string \<Rightarrow> file_env \<Rightarrow> nat \<Rightarrow> replay_preferences \<Rightarrow> state_file \<Rightarrow>
    state_file \<times> (string + unit)" where
  "rp_save_unlocked directory destination env ident preferences file =
     (case fe_create_directory env of
        Some e \<Rightarrow> (file, Inl (''could not create Redunar state directory '' @ directory @ '': '' @ e))
      | None \<Rightarrow>
         (case fe_set_permissions env of
            Some e \<Rightarrow> (file, Inl (''could not make Redunar state directory private at '' @ directory @ '': '' @ e))
          | None \<Rightarrow>
             (case atomic_replace env ident (rp_serialize preferences) file of (file, r) \<Rightarrow>
                (file, map_err (\<lambda>e. ''could not save Replay preferences to '' @ destination @ '': '' @ e) r))))"

type_synonym rp_setter = "string \<Rightarrow> string \<Rightarrow> file_env \<Rightarrow> nat \<Rightarrow> state_file \<Rightarrow>
    state_file \<times> (string + replay_preferences)"

definition rp_update :: "(replay_preferences \<Rightarrow> string + replay_preferences) \<Rightarrow> rp_setter" where
  "rp_update change directory path =
     modify_state (rp_load_unlocked path) (rp_save_unlocked directory path) change"

text \<open>A check made before the file is touched.\<close>

definition checked :: "string + unit \<Rightarrow> rp_setter \<Rightarrow> rp_setter" where
  "checked check setter directory path env ident file =
     (case check of Inl e \<Rightarrow> (file, Inl e) | Inr _ \<Rightarrow> setter directory path env ident file)"

definition set_initial_save_duration :: "replay_duration \<Rightarrow> rp_setter" where
  "set_initial_save_duration duration = rp_update (\<lambda>p. Inr (p\<lparr>rp_initial_save_duration := duration\<rparr>))"

definition set_save_parent :: "string option \<Rightarrow> rp_setter" where
  "set_save_parent parent =
     checked (case parent of None \<Rightarrow> Inr () | Some path \<Rightarrow> validate_parent path)
       (rp_update (\<lambda>p. Inr (p\<lparr>rp_custom_save_parent := parent\<rparr>)))"

definition set_save_shortcuts :: "replay_shortcut_binding list \<Rightarrow> rp_setter" where
  "set_save_shortcuts bindings = rp_update (\<lambda>p.
     and_then (validate_hotkeys (rp_overlay_shortcut p) bindings) (\<lambda>_. Inr (p\<lparr>rp_save_shortcuts := bindings\<rparr>)))"

definition set_hotkeys :: "string \<Rightarrow> replay_shortcut_binding list \<Rightarrow> rp_setter" where
  "set_hotkeys overlay_shortcut bindings =
     checked (validate_hotkeys overlay_shortcut bindings)
       (rp_update (\<lambda>p. Inr (p\<lparr>rp_overlay_shortcut := overlay_shortcut, rp_save_shortcuts := bindings\<rparr>)))"

definition set_overlay_behavior :: "string \<Rightarrow> bool \<Rightarrow> rp_setter" where
  "set_overlay_behavior overlay_shortcut close_on_outside_click = rp_update (\<lambda>p.
     and_then (validate_hotkeys overlay_shortcut (rp_save_shortcuts p)) (\<lambda>_.
       Inr (p\<lparr>rp_overlay_shortcut := overlay_shortcut,
              rp_close_overlay_on_outside_click := close_on_outside_click\<rparr>)))"

definition set_outside_click :: "bool \<Rightarrow> rp_setter" where
  "set_outside_click enabled = rp_update (\<lambda>p. Inr (p\<lparr>rp_close_overlay_on_outside_click := enabled\<rparr>))"

definition set_microphone :: "microphone_mode \<Rightarrow> rp_setter" where
  "set_microphone microphone =
     checked (validate_microphone microphone) (rp_update (\<lambda>p. Inr (p\<lparr>rp_microphone := microphone\<rparr>)))"

definition set_microphone_gain :: "int \<Rightarrow> rp_setter" where
  "set_microphone_gain gain_db =
     checked (if \<not> (MIN_MICROPHONE_GAIN_DB \<le> gain_db \<and> gain_db \<le> MAX_MICROPHONE_GAIN_DB)
              then Inl ''Microphone recording level must be between -12 and +24 dB.'' else Inr ())
       (rp_update (\<lambda>p. Inr (p\<lparr>rp_microphone_gain_db := gain_db\<rparr>)))"

definition set_output_format :: "replay_output_format \<Rightarrow> rp_setter" where
  "set_output_format output_format = rp_update (\<lambda>p. Inr (p\<lparr>rp_output_format := output_format\<rparr>))"

section \<open>Hexadecimal round trip\<close>

lemma of_char_less: "(of_char c :: nat) < 256"
  by simp

lemma hex_digit_facts:
  assumes "n < 16"
  shows "digit (hex_digit n) = Inr n" "(of_char (hex_digit n) :: nat) < 128" "hex_digit n \<noteq> newline"
    "hex_digit n \<noteq> carriage_return" "hex_digit n \<noteq> CHR ''l'' "
proof -
  have "n \<in> {0, 1, 2, 3, 4, 5, 6, 7, 8, 9, 10, 11, 12, 13, 14, 15}"
    using assms unfolding insert_iff empty_iff by presburger
  then show "digit (hex_digit n) = Inr n" "(of_char (hex_digit n) :: nat) < 128" "hex_digit n \<noteq> newline"
    "hex_digit n \<noteq> carriage_return" "hex_digit n \<noteq> CHR ''l'' "
    by (auto simp: hex_digit_def digit_def newline_def carriage_return_def)
qed

lemma div_mod_16: "n < 256 \<Longrightarrow> n div 16 < 16 \<and> n mod 16 < (16 :: nat)"
  by simp

lemma unhex_pairs_hex: "unhex_pairs (hex s) = Inr s"
proof (induction s)
  case (Cons c s)
  let ?n = "of_char c :: nat"
  have "digit (hex_digit (?n div 16)) = Inr (?n div 16)" "digit (hex_digit (?n mod 16)) = Inr (?n mod 16)"
    using div_mod_16 [OF of_char_less] by (simp_all add: hex_digit_facts)
  moreover have "char_of (?n div 16 * 16 + ?n mod 16) = c" by simp
  ultimately show ?case using Cons by (simp add: hex_def)
qed (simp add: hex_def)

lemma length_hex [simp]: "length (hex s) = 2 * length s"
  by (induction s) (simp_all add: hex_def)

lemma unhex_hex: "s \<noteq> [] \<Longrightarrow> unhex (hex s) = Inr s"
proof -
  assume "s \<noteq> []"
  then have "hex s \<noteq> []" by (metis length_0_conv length_hex mult_eq_0_iff zero_neq_numeral)
  then show ?thesis by (simp add: unhex_def unhex_pairs_hex)
qed

lemma hex_chars:
  assumes "c \<in> set (hex s)"
  shows "(of_char c :: nat) < 128" "c \<noteq> newline" "c \<noteq> carriage_return" "c \<noteq> CHR ''l'' "
proof -
  obtain x where "c = hex_digit (of_char x div 16) \<or> c = hex_digit (of_char x mod 16)"
    using assms by (auto simp: hex_def)
  then obtain n where "n < 16" "c = hex_digit n" using div_mod_16 [OF of_char_less [of x]] by blast
  then show "(of_char c :: nat) < 128" "c \<noteq> newline" "c \<noteq> carriage_return" "c \<noteq> CHR ''l'' "
    by (simp_all add: hex_digit_facts)
qed

lemma hex_text: "line_text (hex s)" "ascii_text (hex s)" "hex s \<noteq> ''default''"
proof -
  show "line_text (hex s)" unfolding line_text_def using hex_chars last_in_set by blast
  show "ascii_text (hex s)" unfolding ascii_text_def using hex_chars(1) by blast
  have "CHR ''l'' \<in> set ''default''" by simp
  then show "hex s \<noteq> ''default''" using hex_chars(4) [of "CHR ''l''" s] by metis
qed

section \<open>Round trip\<close>

text \<open>Values that pass the checks of the setters.\<close>

definition rp_ok :: "replay_preferences \<Rightarrow> bool" where
  "rp_ok p \<longleftrightarrow> (case rp_custom_save_parent p of None \<Rightarrow> True | Some path \<Rightarrow> validate_parent path = Inr ())
     \<and> validate_hotkeys (rp_overlay_shortcut p) (rp_save_shortcuts p) = Inr ()
     \<and> validate_microphone (rp_microphone p) = Inr ()
     \<and> MIN_MICROPHONE_GAIN_DB \<le> rp_microphone_gain_db p \<and> rp_microphone_gain_db p \<le> MAX_MICROPHONE_GAIN_DB"

lemma validate_shortcut_Inr:
  "validate_shortcut s = Inr () \<longleftrightarrow> s \<noteq> [] \<and> length s \<le> 64 \<and> ascii_text s \<and> \<not> list_ex is_ascii_control s"
  by (auto simp: validate_shortcut_def MAX_SHORTCUT_BYTES_def)

lemma shortcut_text: "validate_shortcut s = Inr () \<Longrightarrow> line_text s"
proof -
  assume v: "validate_shortcut s = Inr ()"
  have "\<not> is_ascii_control c" if "c \<in> set s" for c using v that by (auto simp: validate_shortcut_Inr list_ex_iff)
  moreover have "is_ascii_control newline" "is_ascii_control carriage_return"
    by (simp_all add: is_ascii_control_def newline_def carriage_return_def)
  moreover have "last s \<in> set s" using v by (simp add: validate_shortcut_Inr)
  ultimately show ?thesis unfolding line_text_def by metis
qed

lemma unique_shortcuts_Inr:
  "unique_shortcuts seen bs = Inr () \<longleftrightarrow> (\<forall>b \<in> set bs. validate_shortcut (sb_shortcut b) = Inr ())
     \<and> distinct (map sb_shortcut bs) \<and> set (map sb_shortcut bs) \<inter> set seen = {}"
  by (induction bs arbitrary: seen) (auto simp: and_then_Inr)

lemma validate_hotkeys_Inr:
  "validate_hotkeys overlay bs = Inr () \<longleftrightarrow> (overlay = [] \<or> validate_shortcut overlay = Inr ())
     \<and> length bs \<le> 8 \<and> (\<forall>b \<in> set bs. validate_shortcut (sb_shortcut b) = Inr ())
     \<and> distinct (overlay # map sb_shortcut bs)"
proof -
  have "list_ex (\<lambda>b. sb_shortcut b = overlay) bs \<longleftrightarrow> overlay \<in> set (map sb_shortcut bs)"
    by (auto simp: list_ex_iff)
  then show ?thesis
    by (simp add: validate_hotkeys_def validate_shortcuts_def and_then_Inr unique_shortcuts_Inr
        MAX_REPLAY_SHORTCUTS_def) auto
qed

lemma duration_token_facts [simp]:
  "parse_duration_token (duration_token d) = Inr d" "line_text (duration_token d)" "duration_token d \<noteq> []"
  "CHR '':'' \<notin> set (duration_token d)" "ascii_text (duration_token d)" "length (duration_token d) \<le> 3"
  by (cases d; simp add: parse_duration_token_def line_text_def newline_def carriage_return_def)+

lemma microphone_token_facts:
  assumes "validate_microphone m = Inr ()"
  shows "parse_microphone (microphone_token m) = Inr m" "line_text (microphone_token m)"
    "microphone_token m \<noteq> []" "ascii_text (microphone_token m)" "length (microphone_token m) \<le> 521"
proof -
  have n: "name \<noteq> []" "length name \<le> 256" "chars name \<noteq> None" if "m = SelectedInput name" for name
    using assms that by (auto simp: validate_microphone_def split: option.splits if_splits)
  have "strip_prefix ''selected:'' (''selected:'' @ hex name) = Some (hex name)" for name
    by (rule strip_prefix_append)
  then show "parse_microphone (microphone_token m) = Inr m"
    using assms n by (cases m) (auto simp: parse_microphone_def microphone_token_def unhex_hex)
  show "line_text (microphone_token m)" using n
    by (cases m) (auto simp: microphone_token_def line_text_Cons hex_text newline_def carriage_return_def)
  show "microphone_token m \<noteq> []" "ascii_text (microphone_token m)"
    by (cases m; simp add: microphone_token_def hex_text)+
  show "length (microphone_token m) \<le> 521" using n(2) by (cases m) (auto simp: microphone_token_def)
qed

lemma rp_lines_text: "rp_ok p \<Longrightarrow> \<forall>l \<in> set (rp_lines p). line_text l"
proof -
  assume ok: "rp_ok p"
  have parent: "line_text (case rp_custom_save_parent p of None \<Rightarrow> ''default'' | Some path \<Rightarrow> hex path)"
    by (simp add: hex_text(1) line_text_Cons newline_def carriage_return_def split: option.split)
  have overlay: "line_text (rp_overlay_shortcut p)"
    using ok by (auto simp: rp_ok_def validate_hotkeys_Inr shortcut_text line_text_Cons)
  have binding: "line_text (binding_line b)" if "b \<in> set (rp_save_shortcuts p)" for b
  proof -
    have "line_text (sb_shortcut b)" "sb_shortcut b \<noteq> []"
      using ok that by (auto simp: rp_ok_def validate_hotkeys_Inr shortcut_text validate_shortcut_Inr)
    then show ?thesis
      by (cases "sb_duration b")
        (simp_all add: binding_line_def line_text_Cons newline_def carriage_return_def)
  qed
  have name: "line_text (a @ b)" if "newline \<notin> set a" "a \<noteq> []" "last a \<noteq> carriage_return" "line_text b" for a b
    using that by (cases "b = []") (auto simp: line_text_def)
  have "line_text RP_HEADER_V8" by (simp add: rp_header_defs line_text_def newline_def carriage_return_def)
  moreover have "line_text (output_format_token f)" for f
    by (cases f) (simp_all add: line_text_def newline_def carriage_return_def)
  ultimately show ?thesis
    using parent overlay binding microphone_token_facts(2) ok
    unfolding rp_lines_def
    by (simp add: rp_ok_def)
      (intro conjI name; simp add: line_text_show_int line_text_show_nat newline_def carriage_return_def line_text_Cons)
qed

lemma lines_rp_serialize: "rp_ok p \<Longrightarrow> lines (rp_serialize p) = rp_lines p"
  unfolding rp_serialize_def by (rule lines_concat [OF rp_lines_text])

lemma field_append [simp]: "CHR ''='' \<notin> set name \<Longrightarrow> field (Some (name @ CHR ''='' # value)) name = Inr value"
  by (simp add: field_def)

lemma field_binding_line: "field (Some (binding_line b)) ''binding'' = Inr (duration_token (sb_duration b) @ CHR '':'' # sb_shortcut b)"
  using field_append [of "''binding''"] by (simp add: binding_line_def)

lemma parse_bindings_lines:
  "parse_bindings (length bs) (map binding_line bs) = Inr (bs, [])"
  by (induction bs) (simp_all add: field_binding_line)

lemma named_lines:
  "''save-parent='' @ v = ''save-parent'' @ CHR ''='' # v"
  "''output-format='' @ v = ''output-format'' @ CHR ''='' # v"
  "''overlay-shortcut='' @ v = ''overlay-shortcut'' @ CHR ''='' # v"
  "''close-on-outside-click='' @ v = ''close-on-outside-click'' @ CHR ''='' # v"
  "''initial-save-duration='' @ v = ''initial-save-duration'' @ CHR ''='' # v"
  "''microphone='' @ v = ''microphone'' @ CHR ''='' # v"
  "''microphone-gain-db='' @ v = ''microphone-gain-db'' @ CHR ''='' # v"
  "''binding-count='' @ v = ''binding-count'' @ CHR ''='' # v"
  by simp_all

lemma field_lines:
  "field (Some (''save-parent='' @ v)) ''save-parent'' = Inr v"
  "field (Some (''output-format='' @ v)) ''output-format'' = Inr v"
  "field (Some (''overlay-shortcut='' @ v)) ''overlay-shortcut'' = Inr v"
  "field (Some (''close-on-outside-click='' @ v)) ''close-on-outside-click'' = Inr v"
  "field (Some (''initial-save-duration='' @ v)) ''initial-save-duration'' = Inr v"
  "field (Some (''microphone='' @ v)) ''microphone'' = Inr v"
  "field (Some (''microphone-gain-db='' @ v)) ''microphone-gain-db'' = Inr v"
  "field (Some (''binding-count='' @ v)) ''binding-count'' = Inr v"
  unfolding named_lines by (rule field_append, simp)+

lemma parse_parent_token:
  assumes "case parent of None \<Rightarrow> True | Some path \<Rightarrow> validate_parent path = Inr ()"
  shows "parse_save_parent (case parent of None \<Rightarrow> ''default'' | Some path \<Rightarrow> hex path) = Inr parent"
proof (cases parent)
  case (Some path)
  then have "path \<noteq> []" "length path \<le> MAX_PATH_BYTES" "validate_parent path = Inr ()"
    using assms by (auto simp: validate_parent_def is_absolute_def split: if_splits)
  then show ?thesis using Some hex_text(3) by (simp add: parse_save_parent_def unhex_hex)
qed (simp add: parse_save_parent_def)

lemma parse_tokens:
  "parse_output_format (output_format_token f) = Inr f"
  "rp_parse_bool (if b then ''true'' else ''false'') = Inr b"
  "- 12 \<le> g \<Longrightarrow> g \<le> 24 \<Longrightarrow> parse_gain (show_int g) = Inr g"
  by (cases f; simp add: parse_output_format_def) (simp_all add: rp_parse_bool_def parse_gain_def parse_signed_show
      MIN_MICROPHONE_GAIN_DB_def MAX_MICROPHONE_GAIN_DB_def)

lemma rp_lines_fields:
  obtains a b c d e f g k where
    "rp_lines p = RP_HEADER_V8 # a # b # c # d # e # f # g # k # map binding_line (rp_save_shortcuts p)"
    "field (Some a) ''save-parent'' = Inr (case rp_custom_save_parent p of None \<Rightarrow> ''default'' | Some path \<Rightarrow> hex path)"
    "field (Some b) ''output-format'' = Inr (output_format_token (rp_output_format p))"
    "field (Some c) ''overlay-shortcut'' = Inr (rp_overlay_shortcut p)"
    "field (Some d) ''close-on-outside-click'' = Inr (if rp_close_overlay_on_outside_click p then ''true'' else ''false'')"
    "field (Some e) ''initial-save-duration'' = Inr (duration_token (rp_initial_save_duration p))"
    "field (Some f) ''microphone'' = Inr (microphone_token (rp_microphone p))"
    "field (Some g) ''microphone-gain-db'' = Inr (show_int (rp_microphone_gain_db p))"
    "field (Some k) ''binding-count'' = Inr (show_nat (length (rp_save_shortcuts p)))"
proof (rule that)
  show "rp_lines p = RP_HEADER_V8
      # (''save-parent='' @ (case rp_custom_save_parent p of None \<Rightarrow> ''default'' | Some path \<Rightarrow> hex path))
      # (''output-format='' @ output_format_token (rp_output_format p))
      # (''overlay-shortcut='' @ rp_overlay_shortcut p)
      # (''close-on-outside-click='' @ (if rp_close_overlay_on_outside_click p then ''true'' else ''false''))
      # (''initial-save-duration='' @ duration_token (rp_initial_save_duration p))
      # (''microphone='' @ microphone_token (rp_microphone p))
      # (''microphone-gain-db='' @ show_int (rp_microphone_gain_db p))
      # (''binding-count='' @ show_nat (length (rp_save_shortcuts p))) # map binding_line (rp_save_shortcuts p)"
    by (simp only: rp_lines_def append_Cons append_Nil)
qed (rule field_lines)+

lemma versioned_V8:
  "RP_HEADER_V8 \<in> vs \<Longrightarrow> field (Some l) name = Inr v \<Longrightarrow> convert v = Inr x \<Longrightarrow>
    versioned RP_HEADER_V8 vs name convert older (l # ls) = Inr (x, ls)"
  by (simp add: versioned_def)

lemma rp_parse_serialize:
  assumes "rp_ok p"
  shows "rp_parse (rp_serialize p) = Inr p"
proof -
  note facts = assms [unfolded rp_ok_def MIN_MICROPHONE_GAIN_DB_def MAX_MICROPHONE_GAIN_DB_def]
  obtain a b c d e f g k where l: "rp_lines p = RP_HEADER_V8 # a # b # c # d # e # f # g # k # map binding_line (rp_save_shortcuts p)"
    and fs: "field (Some a) ''save-parent'' = Inr (case rp_custom_save_parent p of None \<Rightarrow> ''default'' | Some path \<Rightarrow> hex path)"
    "field (Some b) ''output-format'' = Inr (output_format_token (rp_output_format p))"
    "field (Some c) ''overlay-shortcut'' = Inr (rp_overlay_shortcut p)"
    "field (Some d) ''close-on-outside-click'' = Inr (if rp_close_overlay_on_outside_click p then ''true'' else ''false'')"
    "field (Some e) ''initial-save-duration'' = Inr (duration_token (rp_initial_save_duration p))"
    "field (Some f) ''microphone'' = Inr (microphone_token (rp_microphone p))"
    "field (Some g) ''microphone-gain-db'' = Inr (show_int (rp_microphone_gain_db p))"
    "field (Some k) ''binding-count'' = Inr (show_nat (length (rp_save_shortcuts p)))"
    by (rule rp_lines_fields)
  have shortcuts: "parse_shortcuts RP_HEADER_V8 (k # map binding_line (rp_save_shortcuts p)) = Inr (rp_save_shortcuts p)"
    using facts fs(8)
    by (simp add: parse_shortcuts_def rp_header_defs parse_unsigned_show MAX_REPLAY_SHORTCUTS_def
        parse_bindings_lines validate_hotkeys_Inr)
  have parent: "parse_save_parent (case rp_custom_save_parent p of None \<Rightarrow> ''default'' | Some path \<Rightarrow> hex path)
      = Inr (rp_custom_save_parent p)"
    using facts by (intro parse_parent_token) blast
  have mic: "parse_microphone (microphone_token (rp_microphone p)) = Inr (rp_microphone p)"
    using facts by (simp add: microphone_token_facts)
  have gain: "parse_gain (show_int (rp_microphone_gain_db p)) = Inr (rp_microphone_gain_db p)"
    using facts by (simp add: parse_tokens)
  note step = versioned_V8 [where convert = parse_output_format, OF _ fs(2) parse_tokens(1)]
    versioned_V8 [where convert = Inr, OF _ fs(3) refl]
    versioned_V8 [where convert = rp_parse_bool, OF _ fs(4) parse_tokens(2)]
    versioned_V8 [where convert = parse_duration_token, OF _ fs(5) duration_token_facts(1)]
    versioned_V8 [where convert = parse_microphone, OF _ fs(6) mic]
    versioned_V8 [where convert = parse_gain, OF _ fs(7) gain]
  show ?thesis
    using facts by (simp add: rp_parse_def Let_def lines_rp_serialize [OF assms] l fs(1) parent step shortcuts)
qed

section \<open>The state file\<close>

lemma rp_serialize_ascii: "rp_ok p \<Longrightarrow> ascii_text (rp_serialize p)"
proof -
  assume ok: "rp_ok p"
  have "ascii_text (rp_overlay_shortcut p)"
    using ok by (auto simp: rp_ok_def validate_hotkeys_Inr validate_shortcut_Inr)
  moreover have "ascii_text (case rp_custom_save_parent p of None \<Rightarrow> ''default'' | Some path \<Rightarrow> hex path)"
    by (simp add: hex_text split: option.split)
  moreover have "ascii_text (output_format_token f)" for f by (cases f) simp_all
  moreover have "\<forall>b \<in> set (rp_save_shortcuts p). ascii_text (binding_line b)"
    using ok by (auto simp: rp_ok_def validate_hotkeys_Inr validate_shortcut_Inr binding_line_def)
  then have "ascii_text (concat (map (\<lambda>b. binding_line b @ [newline]) (rp_save_shortcuts p)))"
    by (auto simp: ascii_text_def newline_def)
  moreover have "ascii_text (microphone_token (rp_microphone p))"
    using ok by (simp add: rp_ok_def microphone_token_facts)
  ultimately show ?thesis
    by (simp add: rp_serialize_def rp_lines_def rp_header_defs newline_def comp_def)
qed

definition rp_storable :: "replay_preferences \<Rightarrow> bool" where
  "rp_storable p \<longleftrightarrow> rp_ok p \<and> length (rp_serialize p) \<le> MAX_PREFERENCES_BYTES"

interpretation replay_state: persistent_state rp_serialize "rp_load_unlocked path"
    "rp_save_unlocked directory path" rp_storable for path directory
proof
  show "rp_load_unlocked path calm (Regular (rp_serialize p)) = Inr p" if "rp_storable p" for p
    using that rp_serialize_ascii [of p] rp_parse_serialize [of p]
    by (simp add: rp_load_unlocked_def calm_def chars_ascii rp_storable_def Let_def)
  show "(file' = sf \<and> (\<exists>e. r = Inl e)) \<or> file' = Regular (rp_serialize p)"
    if "rp_save_unlocked directory path env ident p sf = (file', r)" for env ident p sf file' r
    using that
    by (auto simp: rp_save_unlocked_def split: option.splits prod.splits dest!: atomic_replace_cases)
  show "rp_load_unlocked path calm sf = Inr q" if "rp_load_unlocked path env sf = Inr q" for env sf q
    using that
    by (auto simp: rp_load_unlocked_def Let_def calm_def result_iffs split: option.splits state_file.splits if_splits)
  show "rp_save_unlocked directory path calm ident p sf = (Regular (rp_serialize p), Inr ())" for ident p sf
    using atomic_replace_calm [of ident "rp_serialize p" sf]
    by (simp add: rp_save_unlocked_def) (simp add: calm_def)
qed

lemma load_serialized:
  assumes "rp_ok p" "fe_stat_error env = None" "fe_read_error env = None"
  shows "rp_load_unlocked path env (Regular (rp_serialize p)) =
    (if length (rp_serialize p) \<le> MAX_PREFERENCES_BYTES then Inr p
     else Inl (''could not load Replay preferences from '' @ path @ '': state is too large''))"
  using assms rp_serialize_ascii [of p] rp_parse_serialize [of p]
  by (simp add: rp_load_unlocked_def chars_ascii Let_def)

text \<open>C37: Preferences survive a restart, up to the size limit of their file. Let a save of preferences that the
  setters accept (an absolute path of at most 4096 bytes or none, a valid microphone, printable ASCII shortcuts, a
  gain in range) report success, whatever the file system did. When their text has at most 8192 bytes, every later load
  whose file access succeeds returns exactly these preferences. When it is longer, as with a save path of
  4096 bytes, every later load refuses the file as too large. A save that reports an error leaves a file with
  its old contents or with the whole new text.\<close>

theorem replay_preferences_roundtrip:
  assumes "rp_ok p" "rp_save_unlocked directory path env ident p file = (file', r)"
    and "fe_stat_error later = None" "fe_read_error later = None"
  shows "case r of
      Inr _ \<Rightarrow> rp_load_unlocked path later file' =
        (if length (rp_serialize p) \<le> MAX_PREFERENCES_BYTES then Inr p
         else Inl (''could not load Replay preferences from '' @ path @ '': state is too large''))
    | Inl _ \<Rightarrow> file' = file \<or> file' = Regular (rp_serialize p)"
  using replay_state.save_cases [OF assms(2)] load_serialized [OF assms(1,3,4)] by (auto split: sum.split)

theorem replay_preferences_roundtrip_witness:
  "\<exists>file'. rp_save_unlocked ''d'' ''p'' calm 0 (default_replay_preferences\<lparr>rp_custom_save_parent := Some ''/a=b'',
        rp_save_shortcuts := [\<lparr>sb_shortcut = ''Alt+=:1'', sb_duration = Seconds900\<rparr>]\<rparr>) Missing = (file', Inr ())
    \<and> rp_load_unlocked ''p'' calm file' = Inr (default_replay_preferences\<lparr>rp_custom_save_parent := Some ''/a=b'',
        rp_save_shortcuts := [\<lparr>sb_shortcut = ''Alt+=:1'', sb_duration = Seconds900\<rparr>]\<rparr>)"
proof -
  let ?p = "default_replay_preferences\<lparr>rp_custom_save_parent := Some ''/a=b'',
      rp_save_shortcuts := [\<lparr>sb_shortcut = ''Alt+=:1'', sb_duration = Seconds900\<rparr>]\<rparr>"
  have ok: "rp_ok ?p"
    by (simp add: rp_ok_def default_replay_preferences_def validate_parent_def is_absolute_def MAX_PATH_BYTES_def
        validate_hotkeys_def validate_shortcuts_def validate_shortcut_def MAX_SHORTCUT_BYTES_def
        MAX_REPLAY_SHORTCUTS_def is_ascii_control_def validate_microphone_def DEFAULT_OVERLAY_SHORTCUT_def
        MIN_MICROPHONE_GAIN_DB_def MAX_MICROPHONE_GAIN_DB_def)
  have fits: "length (rp_serialize ?p) \<le> MAX_PREFERENCES_BYTES"
    by code_simp
  have save: "rp_save_unlocked ''d'' ''p'' calm 0 ?p Missing = (Regular (rp_serialize ?p), Inr ())"
    by (rule replay_state.save_calm)
  moreover have "fe_stat_error calm = None" "fe_read_error calm = None" by (simp_all add: calm_def)
  ultimately show ?thesis using replay_preferences_roundtrip [OF ok save] fits by simp
qed

text \<open>A save directory can lock the user out of all Replay preferences: the setter accepts an
  absolute path of 4096 bytes and reports success, but its hexadecimal form alone is 8192 bytes, so
  the file written exceeds the limit of the loader and every later load (and so every later setter)
  fails.\<close>

theorem long_save_parent_locks_preferences:
  "\<exists>parent file' p. set_save_parent (Some parent) directory path calm ident Missing = (file', Inr p)
     \<and> rp_custom_save_parent p = Some parent
     \<and> rp_load_unlocked path calm file' = Inl (''could not load Replay preferences from '' @ path @ '': state is too large'')
     \<and> (\<forall>enabled. set_outside_click enabled directory path calm ident file'
          = (file', Inl (''could not load Replay preferences from '' @ path @ '': state is too large'')))"
proof -
  let ?parent = "CHR ''/'' # replicate 4095 (CHR ''a'')"
  let ?p = "default_replay_preferences\<lparr>rp_custom_save_parent := Some ?parent\<rparr>"
  have load: "rp_load_unlocked path calm Missing = Inr default_replay_preferences"
    by (simp add: rp_load_unlocked_def calm_def Let_def)
  have "validate_parent ?parent = Inr ()"
    by (simp add: validate_parent_def is_absolute_def MAX_PATH_BYTES_def)
  then have set: "set_save_parent (Some ?parent) directory path calm ident Missing = (Regular (rp_serialize ?p), Inr ?p)"
    using replay_state.modify_calm [OF load, of "\<lambda>p. Inr (p\<lparr>rp_custom_save_parent := Some ?parent\<rparr>)" ?p]
    by (simp add: set_save_parent_def checked_def rp_update_def)
  have "length (hex ?parent) \<le> length (concat (map (\<lambda>l. l @ [newline]) (rp_lines ?p))) - 100"
    by (simp add: rp_lines_def rp_header_defs default_replay_preferences_def)
  then have "length (rp_serialize ?p) > MAX_PREFERENCES_BYTES"
    by (simp add: rp_serialize_def MAX_PREFERENCES_BYTES_def)
  then have fail: "rp_load_unlocked path calm (Regular (rp_serialize ?p))
      = Inl (''could not load Replay preferences from '' @ path @ '': state is too large'')"
    by (simp add: rp_load_unlocked_def calm_def Let_def)
  then have "set_outside_click enabled directory path calm ident (Regular (rp_serialize ?p))
      = (Regular (rp_serialize ?p), Inl (''could not load Replay preferences from '' @ path @ '': state is too large''))"
    for enabled by (simp add: set_outside_click_def rp_update_def modify_state_def)
  then show ?thesis using set fail by (intro exI [of _ ?parent] exI [of _ "Regular (rp_serialize ?p)"] exI [of _ ?p]) simp
qed

end
