(* ===== verification/Replay_Menu.thy ===== *)
theory Replay_Menu
  imports Overlay_Publication Replay_Preferences Replay_Lifecycle
begin

text \<open>
  The in-game Replay menu of \<open>redunar-daemon/src/replay_menu.rs\<close>: a cursor, a pressed control and a selected
  duration, driven by pointer input and closed by a watchdog. Instants are nanoseconds on the monotonic
  clock. \<open>i32\<close> values are integers; the one addition that could leave the range wraps explicitly.
\<close>

section \<open>State\<close>

definition CURSOR_MAX :: int where "CURSOR_MAX = 10000"
definition WATCHDOG_TIMEOUT :: nat where "WATCHDOG_TIMEOUT = 2 * 1000000000"
definition DURATIONS :: "replay_duration list" where
  "DURATIONS = [Seconds15, Seconds30, Seconds60, Seconds120, Seconds180, Seconds300, Seconds600, Seconds900]"

datatype menu_target = Target_none | Target_duration u8 | Target_save | Target_format replay_output_format

datatype replay_menu_action = Action_save replay_duration | Action_set_output_format replay_output_format

record replay_menu_state =
  rm_visible :: bool
  rm_cursor_x :: int
  rm_cursor_y :: int
  rm_pressed :: bool
  rm_pressed_target :: menu_target
  rm_selected :: u8
  rm_click_revision :: u16
  rm_last_input :: "nat option"

definition default_menu_state :: replay_menu_state where
  "default_menu_state = \<lparr>rm_visible = False, rm_cursor_x = 5000, rm_cursor_y = 5000, rm_pressed = False,
     rm_pressed_target = Target_none, rm_selected = 1, rm_click_revision = 0, rm_last_input = None\<rparr>"

definition i32_add :: "int \<Rightarrow> int \<Rightarrow> int" where
  "i32_add a b = (a + b + 2 ^ 31) mod 2 ^ 32 - 2 ^ 31"

definition clamp :: "int \<Rightarrow> int \<Rightarrow> int \<Rightarrow> int" where
  "clamp lo hi x = (if x < lo then lo else if x > hi then hi else x)"

section \<open>Controls on the panel\<close>

definition within :: "int \<Rightarrow> int \<Rightarrow> int \<Rightarrow> bool" where
  "within lo hi x \<longleftrightarrow> lo \<le> x \<and> x < hi"

definition hit_test :: "int \<Rightarrow> int \<Rightarrow> menu_target" where
  "hit_test x y =
     (if within 462 9539 x \<and> within 4336 7273 y
      then let column = clamp 0 3 ((x - 462) * 4 div (9539 - 462));
               row = clamp 0 1 ((y - 4336) * 2 div (7273 - 4336))
           in Target_duration (unwrap_or (try_from (nat (row * 4 + column))) 0)
      else if within 4231 9539 x \<and> within 7763 9371 y then Target_save
      else if within 462 2193 x \<and> within 7763 9371 y then Target_format Matroska
      else if within 2193 3924 x \<and> within 7763 9371 y then Target_format Mp4
      else Target_none)"

fun target_code :: "menu_target \<Rightarrow> u8" where
  "target_code Target_none = 0"
| "target_code (Target_duration index) = index + 1"
| "target_code Target_save = 9"
| "target_code (Target_format Matroska) = 10"
| "target_code (Target_format Mp4) = 11"

section \<open>Operations\<close>

definition menu_close :: "replay_menu_state \<Rightarrow> replay_menu_state" where
  "menu_close m = m\<lparr>rm_visible := False, rm_pressed := False, rm_pressed_target := Target_none,
     rm_last_input := None\<rparr>"

definition menu_toggle :: "nat \<Rightarrow> replay_menu_state \<Rightarrow> replay_menu_state \<times> bool" where
  "menu_toggle now m =
     (let m = m\<lparr>rm_visible := \<not> rm_visible m, rm_pressed := False, rm_pressed_target := Target_none\<rparr>;
          m = m\<lparr>rm_last_input := (if rm_visible m then Some now else None)\<rparr>
      in (m, rm_visible m))"

definition move_cursor :: "int \<Rightarrow> int \<Rightarrow> nat \<Rightarrow> replay_menu_state \<Rightarrow> replay_menu_state" where
  "move_cursor dx dy now m =
     (if rm_visible m
      then m\<lparr>rm_cursor_x := clamp 0 CURSOR_MAX (i32_add (rm_cursor_x m) dx),
             rm_cursor_y := clamp 0 CURSOR_MAX (i32_add (rm_cursor_y m) dy), rm_last_input := Some now\<rparr>
      else m)"

definition menu_button :: "bool \<Rightarrow> bool \<Rightarrow> nat \<Rightarrow> replay_menu_state \<Rightarrow>
    replay_menu_state \<times> replay_menu_action option" where
  "menu_button pressed replay_ready now m =
     (if \<not> rm_visible m then (m, None)
      else
        let m = m\<lparr>rm_last_input := Some now\<rparr>;
            target = hit_test (rm_cursor_x m) (rm_cursor_y m)
        in if pressed then (m\<lparr>rm_pressed := True, rm_pressed_target := target\<rparr>, None)
           else
             let activated = (rm_pressed m \<and> rm_pressed_target m = target);
                 m = m\<lparr>rm_pressed := False, rm_pressed_target := Target_none\<rparr>
             in if \<not> activated then (m, None)
                else
                  case target of
                    Target_duration index \<Rightarrow> (m\<lparr>rm_selected := index\<rparr>, None)
                  | Target_save \<Rightarrow>
                      if replay_ready
                      then let m = m\<lparr>rm_click_revision := max (rm_click_revision m + 1) 1\<rparr>;
                               duration = (if unat (rm_selected m) < length DURATIONS
                                           then Some (DURATIONS ! unat (rm_selected m)) else None)
                           in (menu_close m, map_option Action_save duration)
                      else (m, None)
                  | Target_format format \<Rightarrow> (m, Some (Action_set_output_format format))
                  | Target_none \<Rightarrow> (menu_close m, None))"

definition menu_heartbeat :: "nat \<Rightarrow> replay_menu_state \<Rightarrow> replay_menu_state" where
  "menu_heartbeat now m = (if rm_visible m then m\<lparr>rm_last_input := Some now\<rparr> else m)"

definition close_if_stale :: "nat \<Rightarrow> replay_menu_state \<Rightarrow> replay_menu_state \<times> bool" where
  "close_if_stale now m =
     (if rm_visible m \<and> (case rm_last_input m of None \<Rightarrow> False | Some l \<Rightarrow> now - l > WATCHDOG_TIMEOUT)
      then (menu_close m, True) else (m, False))"

primrec index_of :: "'a \<Rightarrow> 'a list \<Rightarrow> nat option" where
  "index_of x [] = None"
| "index_of x (y # ys) = (if y = x then Some 0 else map_option Suc (index_of x ys))"

definition set_initial_duration :: "replay_duration \<Rightarrow> replay_menu_state \<Rightarrow> replay_menu_state" where
  "set_initial_duration duration m =
     (case index_of duration DURATIONS of None \<Rightarrow> m
      | Some index \<Rightarrow> m\<lparr>rm_selected := unwrap_or (try_from index) 1\<rparr>)"

section \<open>Snapshots\<close>

primrec menu_status :: "replay_phase \<Rightarrow> replay_menu_status" where
  "menu_status Unavailable = Menu_unavailable"
| "menu_status Inactive = Menu_inactive"
| "menu_status Buffering = Menu_buffering"
| "menu_status Saving = Menu_saving"
| "menu_status Failed = Menu_failed"

primrec menu_frame_rate :: "replay_frame_rate \<Rightarrow> u8" where
  "menu_frame_rate Fps60 = 60"
| "menu_frame_rate Variable = REPLAY_MENU_VARIABLE_FPS"

primrec menu_quality :: "replay_quality \<Rightarrow> u8" where
  "menu_quality Efficient = 0"
| "menu_quality Balanced = 1"
| "menu_quality High = 2"

definition u16_from_i32 :: "int \<Rightarrow> u16" where
  "u16_from_i32 x = (if 0 \<le> x \<and> x < 2 ^ 16 then word_of_int x else 0)"

definition menu_telemetry :: "u64 \<Rightarrow> replay_runtime_status \<Rightarrow> replay_output_format \<Rightarrow> replay_preferences \<Rightarrow>
    replay_menu_state \<Rightarrow> replay_menu_telemetry" where
  "menu_telemetry revision runtime format preferences m =
     (let selected_duration = (if unat (rm_selected m) < length DURATIONS
            then DURATIONS ! unat (rm_selected m) else Seconds30);
          save_shortcut = (case find (\<lambda>b. sb_duration b = selected_duration) (rp_save_shortcuts preferences) of
            None \<Rightarrow> label_EMPTY | Some b \<Rightarrow> label_from_shortcut (sb_shortcut b))
      in \<lparr>mt_revision = revision, mt_visible = rm_visible m, mt_pointer_pressed = rm_pressed m,
          mt_cursor_x = u16_from_i32 (rm_cursor_x m), mt_cursor_y = u16_from_i32 (rm_cursor_y m),
          mt_hover_target = target_code (hit_test (rm_cursor_x m) (rm_cursor_y m)),
          mt_pressed_target = target_code (rm_pressed_target m), mt_selected_duration_index = rm_selected m,
          mt_status = menu_status (st_phase runtime),
          mt_available_seconds =
            min (unwrap_or (try_from (unat (st_buffered_duration_ns runtime div 1000000000))) (- 1)) 900,
          mt_click_revision = rm_click_revision m,
          mt_frame_rate = menu_frame_rate (rs_frame_rate (st_settings runtime)),
          mt_quality = menu_quality (rs_quality (st_settings runtime)),
          mt_output_format = of_bool (format = Mp4),
          mt_save_enabled = (st_phase runtime = Buffering \<and> st_buffered_duration_ns runtime \<ge> 1000000000),
          mt_overlay_shortcut = label_from_shortcut (rp_overlay_shortcut preferences),
          mt_save_shortcut = save_shortcut\<rparr>)"

section \<open>Invariant\<close>

text \<open>A target the panel has: a duration index below eight, or one of the other controls.\<close>

definition target_ok :: "menu_target \<Rightarrow> bool" where
  "target_ok t \<longleftrightarrow> (case t of Target_duration i \<Rightarrow> i < 8 | _ \<Rightarrow> True)"

definition menu_ok :: "replay_menu_state \<Rightarrow> bool" where
  "menu_ok m \<longleftrightarrow> 0 \<le> rm_cursor_x m \<and> rm_cursor_x m \<le> 10000 \<and> 0 \<le> rm_cursor_y m \<and> rm_cursor_y m \<le> 10000
     \<and> rm_selected m < 8 \<and> target_ok (rm_pressed_target m)
     \<and> (\<not> rm_pressed m \<longrightarrow> rm_pressed_target m = Target_none)
     \<and> (\<not> rm_visible m \<longrightarrow> \<not> rm_pressed m) \<and> (rm_visible m \<longleftrightarrow> rm_last_input m \<noteq> None)"

lemma clamp_range: "lo \<le> hi \<Longrightarrow> lo \<le> clamp lo hi x \<and> clamp lo hi x \<le> hi"
  by (simp add: clamp_def)

lemma hit_test_ok: "target_ok (hit_test x y)"
proof -
  have small: "(unwrap_or (try_from n) 0 :: u8) < 8" if "n < 8" for n
    using that by (simp add: unwrap_or_def try_from_def word_less_nat_alt unat_of_nat)
  have "nat (clamp 0 1 r * 4 + clamp 0 3 c) < 8" for r c
    using clamp_range [of 0 1 r] clamp_range [of 0 3 c] by linarith
  note cell = small [OF this]
  show ?thesis unfolding hit_test_def target_ok_def Let_def using cell by simp
qed

lemma clamp_bounds: "0 \<le> clamp 0 CURSOR_MAX x \<and> clamp 0 CURSOR_MAX x \<le> 10000"
  by (simp add: clamp_def CURSOR_MAX_def)

lemma default_menu_ok: "menu_ok default_menu_state"
  by (simp add: menu_ok_def default_menu_state_def target_ok_def)

lemma menu_ok_close: "menu_ok m \<Longrightarrow> menu_ok (menu_close m)"
  by (simp add: menu_ok_def menu_close_def target_ok_def)

lemma menu_ok_toggle: "menu_ok m \<Longrightarrow> menu_ok (fst (menu_toggle now m))"
  by (auto simp: menu_ok_def menu_toggle_def target_ok_def Let_def)

lemma menu_ok_move: "menu_ok m \<Longrightarrow> menu_ok (move_cursor dx dy now m)"
  by (auto simp: menu_ok_def move_cursor_def clamp_bounds)

lemma menu_ok_button: "menu_ok m \<Longrightarrow> menu_ok (fst (menu_button pressed ready now m))"
  using hit_test_ok [of "rm_cursor_x m" "rm_cursor_y m"]
  by (auto simp: menu_ok_def menu_button_def menu_close_def target_ok_def Let_def split: menu_target.splits)

lemma menu_ok_heartbeat: "menu_ok m \<Longrightarrow> menu_ok (menu_heartbeat now m)"
  by (auto simp: menu_ok_def menu_heartbeat_def)

lemma menu_ok_stale: "menu_ok m \<Longrightarrow> menu_ok (fst (close_if_stale now m))"
  by (simp add: close_if_stale_def menu_ok_close)

lemma menu_ok_initial: "menu_ok m \<Longrightarrow> menu_ok (set_initial_duration d m)"
  by (cases d) (simp_all add: menu_ok_def set_initial_duration_def DURATIONS_def unwrap_or_def try_from_def)

lemmas menu_ok_intros = default_menu_ok menu_ok_close menu_ok_toggle menu_ok_move menu_ok_button
  menu_ok_heartbeat menu_ok_stale menu_ok_initial

lemma target_code_bound: "target_ok t \<Longrightarrow> \<not> 11 < target_code t"
  by (cases t rule: target_code.cases)
    (auto simp: target_ok_def word_less_nat_alt unat_word_ariths)

text \<open>Every state the menu can be in has a snapshot that the overlay protocol accepts.\<close>

lemma menu_telemetry_valid:
  assumes "menu_ok m" "even revision" "revision \<noteq> 0"
  shows "validate_replay_menu (menu_telemetry revision runtime format preferences m) = Inr ()"
    and "menu_labels_ok (menu_telemetry revision runtime format preferences m)"
proof -
  have x: "\<not> 10000 < u16_from_i32 z" if "0 \<le> z" "z \<le> 10000" for z
    using that by (simp add: u16_from_i32_def word_less_def uint_word_of_int)
  have p: "\<not> 11 < target_code (rm_pressed_target m)" "\<not> 7 < rm_selected m"
    using assms(1) target_code_bound by (auto simp: menu_ok_def word_less_nat_alt)
  have h: "\<not> 11 < target_code (hit_test (rm_cursor_x m) (rm_cursor_y m))"
    by (rule target_code_bound [OF hit_test_ok])
  have f: "menu_frame_rate r = 60 \<or> menu_frame_rate r = REPLAY_MENU_VARIABLE_FPS" for r by (cases r) simp_all
  have q: "\<not> 2 < menu_quality k" for k by (cases k) simp_all
  show "validate_replay_menu (menu_telemetry revision runtime format preferences m) = Inr ()"
    using assms x [of "rm_cursor_x m"] x [of "rm_cursor_y m"] p h f q
    by (auto simp: validate_replay_menu_def menu_telemetry_def menu_ok_def Let_def min_def not_less)
  show "menu_labels_ok (menu_telemetry revision runtime format preferences m)"
    by (simp add: menu_labels_ok_def menu_telemetry_def Let_def split: option.split)
qed

section \<open>Clicks\<close>

text \<open>The menu asks for a clip exactly when a full click on Save ends while Replay is ready: the menu is
  visible, the event is a release, the press began on Save and the cursor is still on Save. The clip then has
  the selected duration, the menu closes with nothing pressed, and so a second release asks for nothing.\<close>
theorem save_needs_full_click:
  assumes "menu_ok m"
  shows "((\<exists>m'. menu_button pressed ready now m = (m', Some (Action_save d))) \<longleftrightarrow>
      rm_visible m \<and> \<not> pressed \<and> rm_pressed m \<and> rm_pressed_target m = Target_save
      \<and> hit_test (rm_cursor_x m) (rm_cursor_y m) = Target_save \<and> ready
      \<and> d = DURATIONS ! unat (rm_selected m))
    \<and> (\<forall>m'. menu_button pressed ready now m = (m', Some (Action_save d)) \<longrightarrow>
      \<not> rm_visible m' \<and> \<not> rm_pressed m' \<and> rm_click_revision m' \<noteq> 0
      \<and> menu_button pressed' ready' now' m' = (m', None))"
proof
  have sel: "unat (rm_selected m) < length DURATIONS"
    using assms by (simp add: menu_ok_def DURATIONS_def word_less_nat_alt)
  then show "(\<exists>m'. menu_button pressed ready now m = (m', Some (Action_save d))) \<longleftrightarrow>
      rm_visible m \<and> \<not> pressed \<and> rm_pressed m \<and> rm_pressed_target m = Target_save
      \<and> hit_test (rm_cursor_x m) (rm_cursor_y m) = Target_save \<and> ready
      \<and> d = DURATIONS ! unat (rm_selected m)"
    by (auto simp: menu_button_def Let_def split: menu_target.splits)
  have "1 \<le> max (r + 1) (1 :: u16)" for r by (rule max.cobounded2)
  then have "max (r + 1) 1 \<noteq> (0 :: u16)" for r by (metis word_le_0_iff zero_neq_one)
  then show "\<forall>m'. menu_button pressed ready now m = (m', Some (Action_save d)) \<longrightarrow>
      \<not> rm_visible m' \<and> \<not> rm_pressed m' \<and> rm_click_revision m' \<noteq> 0
      \<and> menu_button pressed' ready' now' m' = (m', None)"
    by (auto simp: menu_button_def Let_def menu_close_def split: menu_target.splits if_splits)
qed

definition armed_menu :: replay_menu_state where
  "armed_menu = \<lparr>rm_visible = True, rm_cursor_x = 5000, rm_cursor_y = 8500, rm_pressed = True,
     rm_pressed_target = Target_save, rm_selected = 1, rm_click_revision = - 1, rm_last_input = Some 7\<rparr>"

theorem save_needs_full_click_witness:
  "(\<exists>m'. menu_button False True 9 armed_menu = (m', Some (Action_save Seconds30)))"
proof -
  have ok: "menu_ok armed_menu" by (simp add: menu_ok_def armed_menu_def target_ok_def)
  have "hit_test 5000 8500 = Target_save" by (simp add: hit_test_def within_def)
  then show ?thesis
    using save_needs_full_click [OF ok, of False True 9 Seconds30] by (simp add: armed_menu_def DURATIONS_def)
qed

end
