(* ===== verification/Replay_Control.thy ===== *)
theory Replay_Control
  imports Replay_Menu
begin

text \<open>
  The local control protocol of \<open>redunar-daemon/src/replay_control.rs\<close> and the menu operations of the session
  coordinator it drives (\<open>game_session.rs\<close>). A connection is a list of read outcomes. What the coordinator asks
  other parts of the daemon for while it handles one command (the clock, the replay runtime, the game state,
  file writes) is the environment \<open>control_env\<close> of that command.
\<close>

section \<open>Commands\<close>

definition MAX_COMMAND_BYTES :: nat where "MAX_COMMAND_BYTES = 64"

datatype read_outcome = Read_byte char | Read_end | Read_failed string

text \<open>\<open>read_command\<close>: one byte per read, until a newline, the end of the stream or 65 bytes.\<close>

fun read_bytes :: "read_outcome list \<Rightarrow> string \<Rightarrow> (string + string option) \<times> read_outcome list" where
  "read_bytes [] command =
     (if command = [] then Inr None else Inl ''incomplete Replay command'', [])"
| "read_bytes (Read_end # input) command =
     (if command = [] then Inr None else Inl ''incomplete Replay command'', input)"
| "read_bytes (Read_failed e # input) command = (Inl (''command read failed: '' @ e), input)"
| "read_bytes (Read_byte b # input) command =
     (let command = command @ [b]
      in if b = newline \<or> \<not> length command \<le> MAX_COMMAND_BYTES
         then (if command = [] \<or> length command > MAX_COMMAND_BYTES \<or> b \<noteq> newline
               then Inl ''invalid Replay command length'' else Inr (Some command), input)
         else read_bytes input command)"

definition read_command :: "read_outcome list \<Rightarrow> (string + string option) \<times> read_outcome list" where
  "read_command input = read_bytes input []"

datatype replay_control_command = Save_command replay_duration | ToggleMenu | Move_command int int
  | Button_command bool | Escape | Ping

definition replay_duration_of :: "nat \<Rightarrow> replay_duration option" where
  "replay_duration_of seconds =
     (if seconds = 15 then Some Seconds15 else if seconds = 30 then Some Seconds30
      else if seconds = 60 then Some Seconds60 else if seconds = 120 then Some Seconds120
      else if seconds = 180 then Some Seconds180 else if seconds = 300 then Some Seconds300
      else if seconds = 600 then Some Seconds600 else if seconds = 900 then Some Seconds900 else None)"

definition in_delta :: "int option \<Rightarrow> bool" where
  "in_delta v \<longleftrightarrow> (case v of None \<Rightarrow> False | Some d \<Rightarrow> - 4096 \<le> d \<and> d \<le> 4096)"

definition parse_move :: "string \<Rightarrow> string + replay_control_command" where
  "parse_move value =
     (let values = split_on (CHR '' '') value;
          dx = Option.bind (next_line values) (parse_signed (2 ^ 31));
          dy = Option.bind (next_line (tl values)) (parse_signed (2 ^ 31))
      in if next_line (tl (tl values)) \<noteq> None \<or> \<not> in_delta dx \<or> \<not> in_delta dy
         then Inl ''Replay pointer delta is invalid''
         else Inr (Move_command (unwrap_or dx 0) (unwrap_or dy 0)))"

definition parse_command :: "string \<Rightarrow> string + replay_control_command" where
  "parse_command bytes =
     (if chars bytes = None then Inl ''command is not UTF-8''
      else and_then (ok_or (strip_suffix [newline] bytes) ''invalid Replay command'') (\<lambda>line.
        if line = ''MENU TOGGLE'' then Inr ToggleMenu
        else if line = ''MENU ESCAPE'' then Inr Escape
        else if line = ''MENU PING'' then Inr Ping
        else
          case strip_prefix ''MENU BUTTON '' line of
            Some value \<Rightarrow>
              if value = ''0'' then Inr (Button_command False)
              else if value = ''1'' then Inr (Button_command True)
              else Inl ''invalid Replay button state''
          | None \<Rightarrow>
              (case strip_prefix ''MENU MOVE '' line of
                 Some value \<Rightarrow> parse_move value
               | None \<Rightarrow>
                   and_then (ok_or (Option.bind (strip_prefix ''SAVE '' line) (parse_unsigned 65535))
                       ''invalid Replay command'') (\<lambda>seconds.
                     ok_or (map_option Save_command (replay_duration_of seconds))
                       ''unsupported Replay duration''))))"

section \<open>The coordinator's menu operations\<close>

text \<open>
  \<open>ce_running\<close>, \<open>ce_capturing\<close> and \<open>ce_capture_api\<close> are the session status and capture snapshot that
  \<open>replay_menu_has_render_target\<close> reads; \<open>ce_save\<close> is \<open>ProductionReplayRuntime::save\<close>. The runtime's status is
  read once before a button is applied (\<open>ce_ready_status\<close>) and again when a snapshot is made (\<open>ce_status\<close>):
  a save that has just started, or the runtime's own threads, may change it in between.
\<close>

record control_env =
  ce_now :: nat
  ce_running :: bool
  ce_capturing :: bool
  ce_capture_api :: "capture_api option"
  ce_ready_status :: replay_runtime_status
  ce_status :: replay_runtime_status
  ce_save :: "replay_duration \<Rightarrow> string + unit"
  ce_writes :: write_env
  ce_files :: file_env
  ce_temporary :: nat
  ce_reply :: "string option"

record menu_coordinator =
  mc_menu :: replay_menu_state
  mc_preferences :: replay_preferences
  mc_preferences_file :: state_file
  mc_output_format :: replay_output_format
  mc_menu_revision :: u64
  mc_capture :: "overlay_session option"

text \<open>The coordinator before any capture; \<open>format\<close> is the output format of the new replay runtime.\<close>

definition coordinator_new :: "file_env \<Rightarrow> replay_output_format \<Rightarrow> state_file \<Rightarrow> menu_coordinator" where
  "coordinator_new env format sf =
     (let preferences = (case rp_load_unlocked [] env sf of Inr p \<Rightarrow> p | Inl _ \<Rightarrow> default_replay_preferences)
      in \<lparr>mc_menu = set_initial_duration (rp_initial_save_duration preferences) default_menu_state,
          mc_preferences = preferences, mc_preferences_file = sf, mc_output_format = format,
          mc_menu_revision = 2, mc_capture = None\<rparr>)"

definition replay_menu_has_render_target :: "control_env \<Rightarrow> menu_coordinator \<Rightarrow> bool" where
  "replay_menu_has_render_target env c \<longleftrightarrow> ce_running env \<and> mc_capture c \<noteq> None \<and> ce_capturing env
     \<and> (ce_capture_api env = Some Vulkan \<or> ce_capture_api env = Some OpenGl)"

definition replay_menu_telemetry_of :: "control_env \<Rightarrow> u64 \<Rightarrow> menu_coordinator \<Rightarrow> replay_menu_telemetry" where
  "replay_menu_telemetry_of env revision c =
     menu_telemetry revision (ce_status env) (mc_output_format c) (mc_preferences c) (mc_menu c)"

definition try_publish_replay_menu :: "control_env \<Rightarrow> menu_coordinator \<Rightarrow> menu_coordinator \<times> (string + unit)" where
  "try_publish_replay_menu env c =
     (let revision = saturating_add (mc_menu_revision c) 2;
          c = c\<lparr>mc_menu_revision := mc_menu_revision c + 2\<rparr>;
          telemetry = replay_menu_telemetry_of env revision c
      in case mc_capture c of
           None \<Rightarrow> (c, Inl ''Replay menu has no connected game capture'')
         | Some capture \<Rightarrow>
             (case publish_replay_menu_block (ce_writes env) telemetry capture of
                (capture, r) \<Rightarrow> (c\<lparr>mc_capture := Some capture\<rparr>,
                  map_err (\<lambda>_. ''Replay menu could not be sent to the game'') r)))"

definition publish_replay_menu :: "control_env \<Rightarrow> menu_coordinator \<Rightarrow> menu_coordinator" where
  "publish_replay_menu env c = fst (try_publish_replay_menu env c)"

definition toggle_replay_menu :: "control_env \<Rightarrow> menu_coordinator \<Rightarrow> menu_coordinator \<times> (string + bool)" where
  "toggle_replay_menu env c =
     (let can_open = replay_menu_has_render_target env c;
          currently_visible = rm_visible (mc_menu c)
      in if \<not> currently_visible \<and> \<not> can_open then (c, Inl ''Replay menu requires a connected game capture'')
         else
           case menu_toggle (ce_now env) (mc_menu c) of (menu, visible) \<Rightarrow>
             (case try_publish_replay_menu env (c\<lparr>mc_menu := menu\<rparr>) of
                (c, Inl e) \<Rightarrow> if visible then (c\<lparr>mc_menu := menu_close (mc_menu c)\<rparr>, Inl e) else (c, Inr visible)
              | (c, Inr _) \<Rightarrow> (c, Inr visible)))"

definition close_replay_menu :: "control_env \<Rightarrow> menu_coordinator \<Rightarrow> menu_coordinator" where
  "close_replay_menu env c = publish_replay_menu env (c\<lparr>mc_menu := menu_close (mc_menu c)\<rparr>)"

definition move_replay_menu_cursor :: "int \<Rightarrow> int \<Rightarrow> control_env \<Rightarrow> menu_coordinator \<Rightarrow> menu_coordinator" where
  "move_replay_menu_cursor dx dy env c =
     publish_replay_menu env (c\<lparr>mc_menu := move_cursor dx dy (ce_now env) (mc_menu c)\<rparr>)"

definition replay_ready :: "replay_runtime_status \<Rightarrow> bool" where
  "replay_ready runtime \<longleftrightarrow> st_phase runtime = Buffering \<and> st_buffered_duration_ns runtime \<ge> 1000000000"

definition replay_menu_button :: "bool \<Rightarrow> control_env \<Rightarrow> menu_coordinator \<Rightarrow>
    menu_coordinator \<times> (string + bool)" where
  "replay_menu_button pressed env c =
     (case menu_button pressed (replay_ready (ce_ready_status env)) (ce_now env) (mc_menu c) of (menu, action) \<Rightarrow>
        let c = c\<lparr>mc_menu := menu\<rparr>;
            closed = (\<not> rm_visible menu)
        in case action of
             None \<Rightarrow> (publish_replay_menu env c, Inr closed)
           | Some (Action_save duration) \<Rightarrow>
               (case ce_save env duration of
                  Inl e \<Rightarrow> (c, Inl e)
                | Inr _ \<Rightarrow> (publish_replay_menu env c, Inr closed))
           | Some (Action_set_output_format format) \<Rightarrow>
               (case set_output_format format [] [] (ce_files env) (ce_temporary env) (mc_preferences_file c) of
                  (sf, Inl e) \<Rightarrow> (c\<lparr>mc_preferences_file := sf\<rparr>, Inl e)
                | (sf, Inr preferences) \<Rightarrow>
                    (publish_replay_menu env (c\<lparr>mc_preferences_file := sf, mc_output_format := format,
                       mc_preferences := preferences\<rparr>), Inr closed)))"

definition replay_menu_heartbeat :: "control_env \<Rightarrow> menu_coordinator \<Rightarrow> menu_coordinator" where
  "replay_menu_heartbeat env c = publish_replay_menu env (c\<lparr>mc_menu := menu_heartbeat (ce_now env) (mc_menu c)\<rparr>)"

definition replay_menu_watchdog :: "control_env \<Rightarrow> menu_coordinator \<Rightarrow> menu_coordinator \<times> bool" where
  "replay_menu_watchdog env c =
     (let render_target_available = replay_menu_has_render_target env c;
          (menu, closed) = (if rm_visible (mc_menu c) \<and> \<not> render_target_available
                            then (menu_close (mc_menu c), True)
                            else close_if_stale (ce_now env) (mc_menu c));
          c = c\<lparr>mc_menu := menu\<rparr>
      in (if closed then publish_replay_menu env c else c, closed))"

definition update_replay_preferences :: "replay_preferences \<Rightarrow> control_env \<Rightarrow> menu_coordinator \<Rightarrow> menu_coordinator" where
  "update_replay_preferences preferences env c =
     (let c = c\<lparr>mc_menu := set_initial_duration (rp_initial_save_duration preferences) (mc_menu c)\<rparr>;
          preferences = preferences\<lparr>rp_microphone := rp_microphone (mc_preferences c),
            rp_microphone_gain_db := rp_microphone_gain_db (mc_preferences c)\<rparr>
      in publish_replay_menu env (c\<lparr>mc_preferences := preferences\<rparr>))"

section \<open>Applying commands\<close>

definition visible_reply :: "menu_coordinator \<Rightarrow> string" where
  "visible_reply c = (if rm_visible (mc_menu c) then ''OK'' @ [newline] else ''OK RELEASE'' @ [newline])"

fun apply_command :: "replay_control_command \<Rightarrow> control_env \<Rightarrow> menu_coordinator \<Rightarrow>
    menu_coordinator \<times> (string + string)" where
  "apply_command (Save_command duration) env c =
     (c, and_then (ce_save env duration) (\<lambda>_. Inr (''OK'' @ [newline])))"
| "apply_command ToggleMenu env c =
     (case toggle_replay_menu env c of (c, r) \<Rightarrow>
        (c, and_then r (\<lambda>visible. Inr (if visible then ''OK GRAB'' @ [newline] else ''OK RELEASE'' @ [newline]))))"
| "apply_command (Move_command dx dy) env c =
     (let c = move_replay_menu_cursor dx dy env c in (c, Inr (visible_reply c)))"
| "apply_command (Button_command pressed) env c =
     (case replay_menu_button pressed env c of (c, r) \<Rightarrow>
        (c, and_then r (\<lambda>closed. Inr (if closed then ''OK RELEASE'' @ [newline] else ''OK'' @ [newline]))))"
| "apply_command Escape env c = (close_replay_menu env c, Inr (''OK RELEASE'' @ [newline]))"
| "apply_command Ping env c =
     (let c = replay_menu_heartbeat env c in (c, Inr (visible_reply c)))"

definition handle_command :: "string \<Rightarrow> control_env \<Rightarrow> menu_coordinator \<Rightarrow> menu_coordinator \<times> (string + string)" where
  "handle_command bytes env c =
     (case replay_menu_watchdog env c of (c, closed) \<Rightarrow>
        if closed then (c, Inr (''OK RELEASE'' @ [newline]))
        else case parse_command bytes of Inl e \<Rightarrow> (c, Inl e) | Inr command \<Rightarrow> apply_command command env c)"

definition reply_text :: "string + string \<Rightarrow> string" where
  "reply_text response = (case response of Inr text \<Rightarrow> text | Inl e \<Rightarrow> ''ERROR '' @ e @ [newline])"

lemma read_bytes_consumes: "read_bytes input cmd = (Inr (Some bytes), rest) \<Longrightarrow> length rest < length input"
  by (induction input cmd rule: read_bytes.induct) (auto simp: Let_def split: if_splits)

text \<open>One connection: the replies written, and the coordinator afterwards. \<open>env k\<close> is the environment of the
  \<open>k\<close>-th command.\<close>

function handle_connection :: "(nat \<Rightarrow> control_env) \<Rightarrow> nat \<Rightarrow> read_outcome list \<Rightarrow> menu_coordinator \<Rightarrow>
    menu_coordinator \<times> string list" where
  "handle_connection env k input c =
     (case read_command input of
        (Inl e, input) \<Rightarrow> (c, [''ERROR '' @ e @ [newline]])
      | (Inr None, input) \<Rightarrow> (c, [])
      | (Inr (Some bytes), rest) \<Rightarrow>
          (case handle_command bytes (env k) c of (c, response) \<Rightarrow>
             let release = (response = Inr (''OK RELEASE'' @ [newline]))
             in if ce_reply (env k) \<noteq> None then (c, [])
                else if release then (c, [reply_text response])
                else case handle_connection env (k + 1) rest c of (c, replies) \<Rightarrow> (c, reply_text response # replies)))"
  by pat_completeness auto

termination
  by (relation "measure (\<lambda>(_, _, input, _). length input)")
    (auto simp: read_command_def dest!: read_bytes_consumes [OF sym])

section \<open>The coordinator's invariant\<close>

definition coordinator_ok :: "menu_coordinator \<Rightarrow> bool" where
  "coordinator_ok c \<longleftrightarrow> menu_ok (mc_menu c) \<and> even (mc_menu_revision c)
     \<and> (case mc_capture c of None \<Rightarrow> True | Some s \<Rightarrow> \<exists>S. overlay_reach S s)"

lemma coordinator_new_ok: "coordinator_ok (coordinator_new env format sf)"
  by (simp add: coordinator_ok_def coordinator_new_def Let_def menu_ok_initial default_menu_ok)

lemma menu_labels: "menu_labels_ok (replay_menu_telemetry_of env revision c)"
  by (simp add: replay_menu_telemetry_of_def menu_labels_ok_def menu_telemetry_def Let_def split: option.split)

lemma try_publish_keeps:
  assumes "try_publish_replay_menu env c = (c', r)"
  shows "mc_menu c' = mc_menu c \<and> mc_preferences c' = mc_preferences c \<and> mc_output_format c' = mc_output_format c
    \<and> mc_preferences_file c' = mc_preferences_file c \<and> mc_menu_revision c' = mc_menu_revision c + 2
    \<and> (mc_capture c' = None \<longleftrightarrow> mc_capture c = None)"
  using assms by (auto simp: try_publish_replay_menu_def Let_def split: option.splits prod.splits)

lemma try_publish_ok:
  assumes "try_publish_replay_menu env c = (c', r)" "coordinator_ok c"
  shows "coordinator_ok c'"
proof (cases "mc_capture c")
  case None
  then show ?thesis using assms by (auto simp: try_publish_replay_menu_def Let_def coordinator_ok_def)
next
  case (Some s)
  then obtain S where S: "overlay_reach S s" using assms(2) by (auto simp: coordinator_ok_def)
  let ?t = "replay_menu_telemetry_of env (saturating_add (mc_menu_revision c) 2)
    (c\<lparr>mc_menu_revision := mc_menu_revision c + 2\<rparr>)"
  obtain s' q where p: "publish_replay_menu_block (ce_writes env) ?t s = (s', q)" by (metis surj_pair)
  have "overlay_reach (insert ?t S) s'" by (rule overlay_reach.menu [OF S menu_labels p])
  moreover have "mc_capture c' = Some s'"
    using assms(1) Some p by (auto simp: try_publish_replay_menu_def Let_def split: prod.splits)
  ultimately show ?thesis
    using try_publish_keeps [OF assms(1)] assms(2) by (auto simp: coordinator_ok_def)
qed

lemma publish_ok: "coordinator_ok c \<Longrightarrow> coordinator_ok (publish_replay_menu env c)"
  using try_publish_ok [of env c] by (metis fst_eqD publish_replay_menu_def surj_pair)

lemma publish_menu [simp]: "mc_menu (publish_replay_menu env c) = mc_menu c"
  using try_publish_keeps [of env c] by (metis fst_eqD publish_replay_menu_def surj_pair)

lemma coordinator_ok_menu: "coordinator_ok c \<Longrightarrow> menu_ok m \<Longrightarrow> coordinator_ok (c\<lparr>mc_menu := m\<rparr>)"
  by (simp add: coordinator_ok_def)

lemma coordinator_menu_ok: "coordinator_ok c \<Longrightarrow> menu_ok (mc_menu c)"
  by (simp add: coordinator_ok_def)

lemmas coordinator_intros = publish_ok coordinator_ok_menu coordinator_menu_ok menu_ok_close menu_ok_move
  menu_ok_heartbeat

lemma toggle_ok:
  assumes "toggle_replay_menu env c = (c', r)" "coordinator_ok c"
  shows "coordinator_ok c'"
proof -
  obtain m v where m: "menu_toggle (ce_now env) (mc_menu c) = (m, v)" by (metis surj_pair)
  then have ok: "coordinator_ok (c\<lparr>mc_menu := m\<rparr>)"
    using menu_ok_toggle [OF coordinator_menu_ok [OF assms(2)], of "ce_now env"] assms(2)
    by (simp add: coordinator_ok_menu)
  obtain c1 r1 where t: "try_publish_replay_menu env (c\<lparr>mc_menu := m\<rparr>) = (c1, r1)" by (metis surj_pair)
  have "coordinator_ok c1" by (rule try_publish_ok [OF t ok])
  then show ?thesis
    using assms m t
    by (auto simp: toggle_replay_menu_def Let_def split: if_splits sum.splits intro: coordinator_intros)
qed

lemma button_ok:
  assumes "replay_menu_button pressed env c = (c', r)" "coordinator_ok c"
  shows "coordinator_ok c'"
proof -
  obtain m a where m: "menu_button pressed (replay_ready (ce_ready_status env)) (ce_now env) (mc_menu c) = (m, a)"
    by (metis surj_pair)
  then have ok: "coordinator_ok (c\<lparr>mc_menu := m\<rparr>)"
    using menu_ok_button [OF coordinator_menu_ok [OF assms(2)], of pressed "replay_ready (ce_ready_status env)" "ce_now env"]
      assms(2) by (simp add: coordinator_ok_menu)
  then have "coordinator_ok (c\<lparr>mc_menu := m, mc_preferences_file := f\<rparr>)"
    "coordinator_ok (c\<lparr>mc_menu := m, mc_preferences_file := f, mc_output_format := fm, mc_preferences := p\<rparr>)" for f fm p
    by (simp_all add: coordinator_ok_def)
  with ok show ?thesis
    using assms(1) m
    by (auto simp: replay_menu_button_def Let_def intro: publish_ok
        split: option.splits replay_menu_action.splits sum.splits prod.splits)
qed

lemma watchdog_ok:
  assumes "replay_menu_watchdog env c = (c', closed)" "coordinator_ok c"
  shows "coordinator_ok c'"
  using assms menu_ok_stale [OF coordinator_menu_ok [OF assms(2)], of "ce_now env"]
  by (auto simp: replay_menu_watchdog_def Let_def intro!: coordinator_intros
      split: if_splits prod.splits)

lemma apply_command_ok:
  assumes "apply_command command env c = (c', r)" "coordinator_ok c"
  shows "coordinator_ok c'"
  using assms
  by (cases command) (auto simp: Let_def move_replay_menu_cursor_def close_replay_menu_def replay_menu_heartbeat_def
      dest: toggle_ok button_ok intro: coordinator_intros split: prod.splits)

lemma handle_command_ok:
  assumes "handle_command bytes env c = (c', r)" "coordinator_ok c"
  shows "coordinator_ok c'"
  using assms
  by (auto simp: handle_command_def dest: watchdog_ok apply_command_ok split: prod.splits if_splits sum.splits)

lemma handle_connection_ok:
  "handle_connection env k input c = (c', replies) \<Longrightarrow> coordinator_ok c \<Longrightarrow> coordinator_ok c'"
proof (induction env k input c arbitrary: c' replies rule: handle_connection.induct)
  case (1 env k input c)
  obtain q rest where q: "read_command input = (q, rest)" by (metis surj_pair)
  show ?case
  proof (cases "\<exists>bytes. q = Inr (Some bytes)")
    case False
    then have "c' = c" using "1.prems"(1) q
      by (subst (asm) handle_connection.simps) (auto split: sum.splits option.splits)
    then show ?thesis using "1.prems"(2) by simp
  next
    case True
    then obtain bytes where b: "q = Inr (Some bytes)" by blast
    obtain c1 r1 where h: "handle_command bytes (env k) c = (c1, r1)" by (metis surj_pair)
    have ok: "coordinator_ok c1" by (rule handle_command_ok [OF h "1.prems"(2)])
    obtain c2 rs where n: "handle_connection env (k + 1) rest c1 = (c2, rs)" by (metis surj_pair)
    have "c' = c1 \<or> (c' = c2 \<and> ce_reply (env k) = None \<and> r1 \<noteq> Inr (''OK RELEASE'' @ [newline]))"
      using "1.prems"(1) q b h n by (subst (asm) handle_connection.simps) (auto simp: Let_def split: if_splits)
    then show ?thesis
      using ok "1.IH" [OF q [symmetric] b refl h [symmetric] refl _ _ n ok] by (auto simp: Let_def)
  qed
qed

lemma update_preferences_ok: "coordinator_ok c \<Longrightarrow> coordinator_ok (update_replay_preferences p env c)"
  unfolding update_replay_preferences_def Let_def
  by (rule publish_ok) (simp add: coordinator_ok_def menu_ok_initial)

text \<open>The coordinator as an event system: commands and preference changes arrive in any order and with any
  environment, and captures come and go.\<close>

datatype control_event = Command string control_env | Preferences replay_preferences control_env
  | Capture_started | Capture_ended

inductive control_step :: "menu_coordinator \<Rightarrow> control_event \<Rightarrow> menu_coordinator \<Rightarrow> bool" where
  step_command: "handle_command bytes env c = (c', r) \<Longrightarrow> control_step c (Command bytes env) c'"
| step_preferences: "control_step c (Preferences p env) (update_replay_preferences p env c)"
| step_started: "create_overlay_telemetry_file None None = (f, Inr ()) \<Longrightarrow>
     control_step c Capture_started (c\<lparr>mc_capture := Some (session_new f)\<rparr>)"
| step_ended: "control_step c Capture_ended (c\<lparr>mc_capture := None\<rparr>)"

inductive_cases control_stepE: "control_step c e c'"

definition control_init :: "menu_coordinator \<Rightarrow> bool" where
  "control_init c \<longleftrightarrow> (\<exists>env format sf. c = coordinator_new env format sf)"

interpretation control: event_system control_init control_step coordinator_ok
proof
  show "coordinator_ok c" if "control_init c" for c
    using that coordinator_new_ok by (auto simp: control_init_def)
  show "coordinator_ok c'" if "coordinator_ok c" "control_step c e c'" for c e c'
    using that(2,1)
  proof cases
    case (step_started f)
    then have "overlay_reach {initial_menu_telemetry} (session_new f)" by (intro overlay_reach.created)
    then show ?thesis using that(1) step_started by (auto simp: coordinator_ok_def)
  next
    case (step_preferences p env)
    then show ?thesis using that(1) update_preferences_ok by simp
  qed (auto simp: coordinator_ok_def dest: handle_command_ok)
qed

section \<open>What a reply promises\<close>

lemma stale_closes: "close_if_stale now m = (m', True) \<Longrightarrow> \<not> rm_visible m'"
  by (auto simp: close_if_stale_def menu_close_def split: if_splits)

lemma watchdog_closes:
  "replay_menu_watchdog env c = (c', True) \<Longrightarrow> \<not> rm_visible (mc_menu c')"
  by (auto simp: replay_menu_watchdog_def Let_def menu_close_def dest: stale_closes split: prod.splits if_splits)

lemma watchdog_idle: "replay_menu_watchdog env c = (c', False) \<Longrightarrow> c' = c"
  by (auto simp: replay_menu_watchdog_def Let_def close_if_stale_def split: prod.splits if_splits)

lemma toggle_visible:
  assumes "toggle_replay_menu env c = (c', Inr v)"
  shows "rm_visible (mc_menu c') = v \<and> (v \<longrightarrow> replay_menu_has_render_target env c)"
  using assms try_publish_keeps
  by (fastforce simp: toggle_replay_menu_def menu_toggle_def Let_def split: prod.splits if_splits sum.splits)

lemma button_visible:
  "replay_menu_button pressed env c = (c', Inr closed) \<Longrightarrow> closed = (\<not> rm_visible (mc_menu c'))"
  by (auto simp: replay_menu_button_def Let_def
      split: option.splits replay_menu_action.splits sum.splits prod.splits)

text \<open>C38: The pointer-grabbing helper can rely on the replies. Whenever a command is answered with
  \<open>OK RELEASE\<close> the menu is hidden afterwards; \<open>OK GRAB\<close> is only sent when the menu has become visible and the
  game session has a connected renderer; and a plain \<open>OK\<close> means that the menu is still visible, unless the
  command was a save request.\<close>
theorem replies_match_menu:
  assumes "handle_command bytes env c = (c', Inr reply)"
  shows "(reply = ''OK RELEASE'' @ [newline] \<longrightarrow> \<not> rm_visible (mc_menu c'))
    \<and> (reply = ''OK GRAB'' @ [newline] \<longrightarrow> rm_visible (mc_menu c') \<and> replay_menu_has_render_target env c)
    \<and> (reply = ''OK'' @ [newline] \<longrightarrow> rm_visible (mc_menu c') \<or> (\<exists>d. parse_command bytes = Inr (Save_command d)))"
proof -
  obtain c1 closed where w: "replay_menu_watchdog env c = (c1, closed)" by (metis surj_pair)
  show ?thesis
  proof (cases closed)
    case True
    then show ?thesis using assms w watchdog_closes by (auto simp: handle_command_def newline_def)
  next
    case False
    then have c1: "c1 = c" using w watchdog_idle [of env c c1] by simp
    obtain command where p: "parse_command bytes = Inr command"
      using assms w False by (auto simp: handle_command_def split: sum.splits)
    then have a: "apply_command command env c = (c', Inr reply)"
      using assms w False c1 by (simp add: handle_command_def)
    show ?thesis
    proof (cases command)
      case ToggleMenu
      then show ?thesis using a toggle_visible [of env c c']
        by (auto simp: newline_def and_then_Inr split: prod.splits if_splits)
    next
      case (Button_command b)
      then show ?thesis using a button_visible [of b env c c']
        by (auto simp: newline_def and_then_Inr split: prod.splits if_splits)
    qed (use a p in \<open>auto simp: Let_def visible_reply_def close_replay_menu_def menu_close_def newline_def
        and_then_Inr split: if_splits\<close>)
  qed
qed

section \<open>From a command to the game\<close>

lemma publish_reaches_game:
  assumes "coordinator_ok c" "mc_capture c = Some s" "ce_writes env = writes_succeed"
    and "unat (mc_menu_revision c) + 2 < 2 ^ 64"
  shows "\<exists>s'. try_publish_replay_menu env c
      = (c\<lparr>mc_menu_revision := mc_menu_revision c + 2, mc_capture := Some s'\<rparr>, Inr ())
    \<and> decode_replay_menu_telemetry (slice 48 128 (ov_file s'))
      = Inr (replay_menu_telemetry_of env (mc_menu_revision c + 2) c)"
proof -
  have ev: "even (mc_menu_revision c)" and m: "menu_ok (mc_menu c)" using assms(1) by (simp_all add: coordinator_ok_def)
  obtain S where S: "overlay_reach S s" using assms(1,2) by (auto simp: coordinator_ok_def)
  have r: "saturating_add (mc_menu_revision c) 2 = mc_menu_revision c + 2"
    using assms(4) by (simp add: saturating_add_def)
  note n = next_revision [OF ev assms(4)]
  let ?t = "replay_menu_telemetry_of env (mc_menu_revision c + 2) c"
  have nz: "mc_menu_revision c + 2 \<noteq> 0" using n(2) by auto
  have v: "validate_replay_menu ?t = Inr ()"
    unfolding replay_menu_telemetry_of_def by (rule menu_telemetry_valid(1) [OF m n(3) nz])
  have t: "replay_menu_telemetry_of env (mc_menu_revision c + 2) (c\<lparr>mc_menu_revision := mc_menu_revision c + 2\<rparr>) = ?t"
    by (simp add: replay_menu_telemetry_of_def)
  obtain s' q where p: "publish_replay_menu_block writes_succeed ?t s = (s', q)" by (metis surj_pair)
  have "q = Inr () \<and> decode_replay_menu_telemetry (slice 48 128 (ov_file s')) = Inr ?t"
    using publish_block_arrives [OF S menu_labels v] p by auto
  then show ?thesis
    using p assms(2,3)
    by - (rule exI [of _ s'], simp add: try_publish_replay_menu_def r t Let_def map_err_def)
qed

definition game_sees :: "control_env \<Rightarrow> menu_coordinator \<Rightarrow> bool" where
  "game_sees env c \<longleftrightarrow> (\<exists>s. mc_capture c = Some s \<and> decode_replay_menu_telemetry (slice 48 128 (ov_file s))
     = Inr (replay_menu_telemetry_of env (mc_menu_revision c) c))"

lemma game_sees_publish:
  assumes "coordinator_ok c" "mc_capture c = Some s" "ce_writes env = writes_succeed"
    and "unat (mc_menu_revision c) + 2 < 2 ^ 64"
  shows "game_sees env (publish_replay_menu env c)"
    and "\<exists>c'. try_publish_replay_menu env c = (c', Inr ()) \<and> game_sees env c'"
  using publish_reaches_game [OF assms]
  by (auto simp: game_sees_def publish_replay_menu_def replay_menu_telemetry_of_def)

lemma game_sees_toggle:
  assumes "coordinator_ok c" "mc_capture c = Some s" "ce_writes env = writes_succeed"
    and "unat (mc_menu_revision c) + 2 < 2 ^ 64" "toggle_replay_menu env c = (c', Inr v)"
  shows "game_sees env c'"
proof -
  obtain m w where m: "menu_toggle (ce_now env) (mc_menu c) = (m, w)" by (metis surj_pair)
  then have "coordinator_ok (c\<lparr>mc_menu := m\<rparr>)"
    using menu_ok_toggle [OF coordinator_menu_ok [OF assms(1)], of "ce_now env"] assms(1)
    by (simp add: coordinator_ok_menu)
  then obtain c1 where "try_publish_replay_menu env (c\<lparr>mc_menu := m\<rparr>) = (c1, Inr ())" "game_sees env c1"
    using game_sees_publish(2) [of "c\<lparr>mc_menu := m\<rparr>" s env] assms(2,3,4) by auto
  then show ?thesis using assms(5) m by (auto simp: toggle_replay_menu_def Let_def split: if_splits)
qed

lemma game_sees_button:
  assumes "coordinator_ok c" "mc_capture c = Some s" "ce_writes env = writes_succeed"
    and "unat (mc_menu_revision c) + 2 < 2 ^ 64" "replay_menu_button pressed env c = (c', Inr v)"
  shows "game_sees env c'"
proof -
  obtain m a where m: "menu_button pressed (replay_ready (ce_ready_status env)) (ce_now env) (mc_menu c) = (m, a)"
    by (metis surj_pair)
  have ok: "menu_ok m"
    using menu_ok_button [OF coordinator_menu_ok [OF assms(1)], of pressed "replay_ready (ce_ready_status env)" "ce_now env"]
    by (simp add: m)
  then have 1: "game_sees env (publish_replay_menu env (c\<lparr>mc_menu := m\<rparr>))"
    using assms(1-4) by (intro game_sees_publish(1) [of _ s]) (simp_all add: coordinator_ok_menu)
  have 2: "game_sees env (publish_replay_menu env (c\<lparr>mc_menu := m, mc_preferences_file := f, mc_output_format := fm,
      mc_preferences := p\<rparr>))" for f fm p
    using assms(1-4) ok by (intro game_sees_publish(1) [of _ s]) (simp_all add: coordinator_ok_def)
  show ?thesis
    using assms(5) m 1 2
    by (auto simp: replay_menu_button_def Let_def
        split: option.splits replay_menu_action.splits sum.splits prod.splits)
qed

text \<open>C32: What the player sees is what the daemon decided. In every reachable state with a connected capture and
  succeeding writes, and while the menu revision does not overflow, after every accepted command that is not a save request of
  the control protocol the game's copy of the menu block decodes to exactly the
  snapshot of the coordinator's new state (visibility, cursor, hovered and pressed control, selection,
  format and shortcut labels) with the runtime's status as it is read for the snapshot, whether the command moved the
  cursor, clicked, toggled or closed the menu, or the watchdog closed it instead. A click on the menu's
  Save button is included: the status may then already be that of the save it started.\<close>

theorem command_reaches_game:
  assumes reachable: "reach control_init control_step c" and capture: "mc_capture c = Some s" "ce_writes env = writes_succeed"
    and bound: "unat (mc_menu_revision c) + 2 < 2 ^ 64"
    and handled: "handle_command bytes env c = (c', Inr reply)" "\<nexists>d. parse_command bytes = Inr (Save_command d)"
  shows "game_sees env c'"
proof -
  have c: "coordinator_ok c" by (rule control.inv_reach [OF reachable])
  note ctx = c capture bound
  have pub: "game_sees env (publish_replay_menu env (c\<lparr>mc_menu := m\<rparr>))" if "menu_ok m" for m
    using ctx that by (intro game_sees_publish(1) [of _ s]) (simp_all add: coordinator_ok_menu)
  obtain c1 closed where w: "replay_menu_watchdog env c = (c1, closed)" by (metis surj_pair)
  have ok: "menu_ok (mc_menu c)" by (rule coordinator_menu_ok [OF c])
  show ?thesis
  proof (cases closed)
    case True
    have "game_sees env c1"
      using w True pub [OF menu_ok_close [OF ok]] pub [OF menu_ok_stale [OF ok, of "ce_now env"]]
      by (auto simp: replay_menu_watchdog_def Let_def split: prod.splits if_splits)
    then show ?thesis using handled(1) w True by (simp add: handle_command_def)
  next
    case False
    then have c1: "c1 = c" using w watchdog_idle [of env c c1] by simp
    obtain command where p: "parse_command bytes = Inr command"
      using handled(1) w False by (auto simp: handle_command_def split: sum.splits)
    then have a: "apply_command command env c = (c', Inr reply)"
      using handled(1) w False c1 by (simp add: handle_command_def)
    show ?thesis
    proof (cases command)
      case ToggleMenu
      then show ?thesis using a game_sees_toggle [OF ctx] by (auto simp: and_then_Inr split: prod.splits)
    next
      case (Button_command b)
      then show ?thesis using a game_sees_button [OF ctx] by (auto simp: and_then_Inr split: prod.splits)
    next
      case (Save_command d)
      then show ?thesis using handled(2) p by simp
    qed (use a pub ok in \<open>auto simp: Let_def close_replay_menu_def move_replay_menu_cursor_def
        replay_menu_heartbeat_def intro: coordinator_intros\<close>)
  qed
qed

section \<open>A sample session\<close>

definition sample_control_env :: control_env where
  "sample_control_env = \<lparr>ce_now = 5, ce_running = True, ce_capturing = True, ce_capture_api = Some Vulkan,
     ce_ready_status = status_validation_candidate default_replay_settings,
     ce_status = status_validation_candidate default_replay_settings, ce_save = (\<lambda>_. Inl ''Replay is inactive''),
     ce_writes = writes_succeed, ce_files = calm, ce_temporary = 0, ce_reply = None\<rparr>"

definition sample_coordinator :: menu_coordinator where
  "sample_coordinator = \<lparr>mc_menu = default_menu_state, mc_preferences = default_replay_preferences,
     mc_preferences_file = Missing, mc_output_format = Matroska, mc_menu_revision = 2,
     mc_capture = Some (session_new (hardware_wire initial_hardware_telemetry @ menu_wire initial_menu_telemetry))\<rparr>"

lemma sample_coordinator_reach: "reach control_init control_step sample_coordinator"
proof -
  let ?c = "coordinator_new calm Matroska Missing"
  have "reach control_init control_step ?c" by (intro reach.reach_init) (auto simp: control_init_def)
  then have "reach control_init control_step (?c\<lparr>mc_capture := Some (session_new
      (hardware_wire initial_hardware_telemetry @ menu_wire initial_menu_telemetry))\<rparr>)"
    by (rule reach.reach_step) (rule step_started [OF create_file])
  moreover have "set_initial_duration Seconds30 default_menu_state = default_menu_state"
    by (simp add: set_initial_duration_def default_menu_state_def DURATIONS_def unwrap_or_def try_from_def)
  moreover have "rp_load_unlocked [] calm Missing = Inr default_replay_preferences"
    by (simp add: rp_load_unlocked_def calm_def Let_def)
  moreover have "rp_initial_save_duration default_replay_preferences = Seconds30"
    by (simp add: default_replay_preferences_def)
  ultimately show ?thesis by (simp add: coordinator_new_def sample_coordinator_def)
qed

lemma sample_coordinator_ok: "coordinator_ok sample_coordinator"
  by (rule control.inv_reach [OF sample_coordinator_reach])

lemma sample_toggle: "parse_command (''MENU TOGGLE'' @ [newline]) = Inr ToggleMenu"
  unfolding parse_command_def by (simp add: chars_def newline_def strip_suffix_def strip_prefix_def ok_or_def)

lemma sample_grab:
  "\<exists>c' s. handle_command (''MENU TOGGLE'' @ [newline]) sample_control_env sample_coordinator
      = (c', Inr (''OK GRAB'' @ [newline]))
    \<and> mc_menu c' = default_menu_state\<lparr>rm_visible := True, rm_last_input := Some 5\<rparr> \<and> mc_menu_revision c' = 4
    \<and> mc_capture c' = Some s"
proof -
  let ?c = sample_coordinator and ?e = sample_control_env
  let ?m = "default_menu_state\<lparr>rm_visible := True, rm_last_input := Some 5\<rparr>"
  have w: "replay_menu_watchdog ?e ?c = (?c, False)"
    by (simp add: replay_menu_watchdog_def close_if_stale_def sample_coordinator_def default_menu_state_def Let_def)
  have m: "menu_toggle (ce_now ?e) (mc_menu ?c) = (?m, True)"
    by (simp add: menu_toggle_def sample_control_env_def sample_coordinator_def default_menu_state_def Let_def)
  have g: "replay_menu_has_render_target ?e ?c"
    by (simp add: replay_menu_has_render_target_def sample_control_env_def sample_coordinator_def)
  have "coordinator_ok (?c\<lparr>mc_menu := ?m\<rparr>)"
    using sample_coordinator_ok by (simp add: coordinator_ok_def menu_ok_def default_menu_state_def target_ok_def)
  then obtain s' where "try_publish_replay_menu ?e (?c\<lparr>mc_menu := ?m\<rparr>)
      = (?c\<lparr>mc_menu := ?m, mc_menu_revision := 4, mc_capture := Some s'\<rparr>, Inr ())"
    using publish_reaches_game [of "?c\<lparr>mc_menu := ?m\<rparr>"
        "session_new (hardware_wire initial_hardware_telemetry @ menu_wire initial_menu_telemetry)" ?e]
    by (auto simp: sample_control_env_def sample_coordinator_def)
  then have "toggle_replay_menu ?e ?c = (?c\<lparr>mc_menu := ?m, mc_menu_revision := 4, mc_capture := Some s'\<rparr>, Inr True)"
    by (simp add: toggle_replay_menu_def m g)
  then show ?thesis by (simp add: handle_command_def w sample_toggle [simplified])
qed

theorem replies_match_menu_witness:
  "\<exists>c'. handle_command (''MENU TOGGLE'' @ [newline]) sample_control_env sample_coordinator
      = (c', Inr (''OK GRAB'' @ [newline])) \<and> rm_visible (mc_menu c')"
  using sample_grab replies_match_menu by blast

theorem command_reaches_game_witness:
  "\<exists>c' reply. handle_command (''MENU TOGGLE'' @ [newline]) sample_control_env sample_coordinator = (c', Inr reply)
    \<and> game_sees sample_control_env c'"
proof -
  obtain c' where h: "handle_command (''MENU TOGGLE'' @ [newline]) sample_control_env sample_coordinator
      = (c', Inr (''OK GRAB'' @ [newline]))" using sample_grab by blast
  have "game_sees sample_control_env c'"
    by (rule command_reaches_game [OF sample_coordinator_reach _ _ _ h])
      (simp_all add: sample_coordinator_def sample_control_env_def sample_toggle [simplified])
  with h show ?thesis by blast
qed

end
