(* ===== verification/Hotkeys.thy ===== *)
theory Hotkeys
  imports Replay_Control
begin

text \<open>
  The shortcut helper of \<open>redunar-hotkeys/src/main.rs\<close>: shortcut configuration, pointer motion, and how key
  events open and close the in-game menu. The helper is the client of the control protocol of
  \<open>Replay_Control\<close>. Device discovery, grabbing and the worker threads are not modelled: the model starts at
  the decoded input events, and the daemon's answers are arguments.
\<close>

section \<open>Constants\<close>

definition MAX_BINDINGS :: nat where "MAX_BINDINGS = 9"
definition KEY_ESC :: u16 where "KEY_ESC = 1"
definition MOTION_LIMIT :: int where "MOTION_LIMIT = 4096"
definition POINTER_BASE_GAIN_MILLI :: int where "POINTER_BASE_GAIN_MILLI = 8500"
definition POINTER_SPEED_GAIN_MILLI :: int where "POINTER_SPEED_GAIN_MILLI = 300"
definition POINTER_SPEED_LIMIT :: int where "POINTER_SPEED_LIMIT = 32"
definition POINTER_VERTICAL_RATIO_MILLI :: int where "POINTER_VERTICAL_RATIO_MILLI = 1568"
definition KEY_LEFTCTRL :: u16 where "KEY_LEFTCTRL = 29"
definition KEY_LEFTSHIFT :: u16 where "KEY_LEFTSHIFT = 42"
definition KEY_LEFTALT :: u16 where "KEY_LEFTALT = 56"
definition KEY_LEFTMETA :: u16 where "KEY_LEFTMETA = 125"
definition KEY_RIGHTCTRL :: u16 where "KEY_RIGHTCTRL = 97"
definition KEY_RIGHTSHIFT :: u16 where "KEY_RIGHTSHIFT = 54"
definition KEY_RIGHTALT :: u16 where "KEY_RIGHTALT = 100"
definition KEY_RIGHTMETA :: u16 where "KEY_RIGHTMETA = 126"
definition MOD_CONTROL :: u8 where "MOD_CONTROL = push_bit 0 1"
definition MOD_SHIFT :: u8 where "MOD_SHIFT = push_bit 1 1"
definition MOD_ALT :: u8 where "MOD_ALT = push_bit 2 1"
definition MOD_META :: u8 where "MOD_META = push_bit 3 1"

lemmas key_consts = KEY_ESC_def KEY_LEFTCTRL_def KEY_LEFTSHIFT_def KEY_LEFTALT_def KEY_LEFTMETA_def
  KEY_RIGHTCTRL_def KEY_RIGHTSHIFT_def KEY_RIGHTALT_def KEY_RIGHTMETA_def

section \<open>Shortcut configuration\<close>

datatype hotkey_action = ToggleOverlay | Save_action nat

record key_chord =
  kc_key :: u16
  kc_modifiers :: u8
  kc_action :: hotkey_action

definition key_table :: "(string \<times> u16) list" where
  "key_table = [(''1'', 2), (''2'', 3), (''3'', 4), (''4'', 5), (''5'', 6), (''6'', 7), (''7'', 8), (''8'', 9),
     (''9'', 10), (''0'', 11), (''tab'', 15), (''q'', 16), (''w'', 17), (''e'', 18), (''r'', 19), (''t'', 20),
     (''y'', 21), (''u'', 22), (''i'', 23), (''o'', 24), (''p'', 25), (''a'', 30), (''s'', 31), (''d'', 32),
     (''f'', 33), (''g'', 34), (''h'', 35), (''j'', 36), (''k'', 37), (''l'', 38), (''z'', 44), (''x'', 45),
     (''c'', 46), (''v'', 47), (''b'', 48), (''n'', 49), (''m'', 50), (''space'', 57), (''enter'', 28),
     (''return'', 28), (''f1'', 59), (''f2'', 60), (''f3'', 61), (''f4'', 62), (''f5'', 63), (''f6'', 64),
     (''f7'', 65), (''f8'', 66), (''f9'', 67), (''f10'', 68), (''f11'', 87), (''f12'', 88)]"

definition key_code :: "string \<Rightarrow> u16 option" where
  "key_code key = map_of key_table key"

definition to_ascii_lowercase :: "string \<Rightarrow> string" where
  "to_ascii_lowercase s = map (\<lambda>c. if 65 \<le> (of_char c :: nat) \<and> (of_char c :: nat) \<le> 90
     then char_of ((of_char c :: nat) + 32) else c) s"

fun chord_parts :: "string list \<Rightarrow> key_chord \<Rightarrow> string + key_chord" where
  "chord_parts [] chord = Inr chord"
| "chord_parts (part # rest) chord =
     (let key = to_ascii_lowercase part
      in if key = ''ctrl'' \<or> key = ''control'' then chord_parts rest (chord\<lparr>kc_modifiers := kc_modifiers chord OR MOD_CONTROL\<rparr>)
         else if key = ''shift'' then chord_parts rest (chord\<lparr>kc_modifiers := kc_modifiers chord OR MOD_SHIFT\<rparr>)
         else if key = ''alt'' then chord_parts rest (chord\<lparr>kc_modifiers := kc_modifiers chord OR MOD_ALT\<rparr>)
         else if key = ''super'' \<or> key = ''meta'' \<or> key = ''win''
         then chord_parts rest (chord\<lparr>kc_modifiers := kc_modifiers chord OR MOD_META\<rparr>)
         else if kc_key chord = 0
         then (case key_code key of None \<Rightarrow> Inl ''unsupported shortcut key''
               | Some code \<Rightarrow> chord_parts rest (chord\<lparr>kc_key := code\<rparr>))
         else Inl ''shortcut contains more than one non-modifier key'')"

definition parse_chord :: "string \<Rightarrow> string + key_chord" where
  "parse_chord shortcut =
     (let normalized = filter (\<lambda>c. c \<noteq> CHR '' '')
            (map (\<lambda>c. if c = CHR ''<'' \<or> c = CHR ''>'' then CHR ''+'' else c) shortcut)
      in and_then (chord_parts (filter (\<lambda>part. part \<noteq> []) (split_on (CHR ''+'') normalized))
             \<lparr>kc_key = 0, kc_modifiers = 0, kc_action = ToggleOverlay\<rparr>) (\<lambda>chord.
         if kc_key chord = 0 then Inl ''shortcut has no key'' else Inr chord))"

text \<open>\<open>BufRead::read_line\<close>: the bytes up to and with the next newline, empty at the end of the input.\<close>

definition read_line :: "string \<Rightarrow> string \<times> string" where
  "read_line input =
     (case split_once newline input of None \<Rightarrow> (input, []) | Some (line, rest) \<Rightarrow> (line @ [newline], rest))"

definition trim_line_end :: "string \<Rightarrow> string" where
  "trim_line_end line = rev (dropWhile (\<lambda>c. c = carriage_return \<or> c = newline) (rev line))"

definition rsplit_once :: "'a \<Rightarrow> 'a list \<Rightarrow> ('a list \<times> 'a list) option" where
  "rsplit_once sep s = map_option (\<lambda>(b, a). (rev a, rev b)) (split_once sep (rev s))"

definition binding_of_line :: "string \<Rightarrow> string + (string \<times> hotkey_action)" where
  "binding_of_line line =
     (case strip_prefix ''TOGGLE '' line of
        Some shortcut \<Rightarrow> Inr (shortcut, ToggleOverlay)
      | None \<Rightarrow>
          and_then (ok_or (Option.bind (strip_prefix ''BIND '' line) (rsplit_once (CHR '' '')))
              ''invalid shortcut binding'') (\<lambda>(shortcut, seconds).
            case parse_unsigned 65535 seconds of
              Some n \<Rightarrow> if n \<in> {15, 30, 60, 120, 180, 300, 600, 900} then Inr (shortcut, Save_action n)
                        else Inl ''unsupported Replay duration''
            | None \<Rightarrow> Inl ''unsupported Replay duration''))"

definition add_binding :: "key_chord list \<Rightarrow> string \<Rightarrow> string + key_chord list" where
  "add_binding bindings line =
     (if length bindings \<ge> MAX_BINDINGS then Inl ''too many shortcut bindings''
      else
        and_then (binding_of_line line) (\<lambda>(shortcut, action).
        and_then (parse_chord shortcut) (\<lambda>chord.
          let chord = chord\<lparr>kc_action := action\<rparr>
          in if list_ex (\<lambda>existing. kc_key existing = kc_key chord \<and> kc_modifiers existing = kc_modifiers chord) bindings
             then Inl ''duplicate shortcut binding''
             else Inr (bindings @ [chord]))))"

lemma read_line_shorter: "read_line input = (line, rest) \<Longrightarrow> line \<noteq> [] \<Longrightarrow> length rest < length input"
  by (auto simp: read_line_def dest: split_once_Some split: option.splits)

function read_binding_lines :: "string \<Rightarrow> key_chord list \<Rightarrow> string + key_chord list" where
  "read_binding_lines input bindings =
     (case read_line input of (line, rest) \<Rightarrow>
        if chars line = None then Inl ''stream did not contain valid UTF-8''
        else if line = [] then Inl ''shortcut configuration ended before START''
        else if trim_line_end line = ''START'' then Inr bindings
        else case add_binding bindings (trim_line_end line) of
               Inl e \<Rightarrow> Inl e
             | Inr bindings \<Rightarrow> read_binding_lines rest bindings)"
  by pat_completeness auto

termination
  by (relation "measure (\<lambda>(input, _). length input)") (auto dest!: read_line_shorter [OF sym])

declare read_binding_lines.simps [simp del]

definition read_bindings :: "string \<Rightarrow> string + key_chord list" where
  "read_bindings input =
     and_then (read_binding_lines input []) (\<lambda>bindings.
       if bindings = [] then Inl ''at least one shortcut binding is required''
       else if length (filter (\<lambda>b. kc_action b = ToggleOverlay) bindings) > 1
       then Inl ''at most one Replay overlay shortcut is allowed''
       else Inr bindings)"

section \<open>Pointer motion\<close>

datatype pointer_event = MotionX int | MotionY int | LeftButton bool

record pending_motion =
  pm_x :: int
  pm_y :: int

definition no_motion :: pending_motion where "no_motion = \<lparr>pm_x = 0, pm_y = 0\<rparr>"

text \<open>Saturating arithmetic at 32 and 64 bits, and division that truncates toward zero.\<close>

definition sat32 :: "int \<Rightarrow> int" where "sat32 x = clamp (- (2 ^ 31)) (2 ^ 31 - 1) x"
definition sat64 :: "int \<Rightarrow> int" where "sat64 x = clamp (- (2 ^ 63)) (2 ^ 63 - 1) x"
definition truncated_div :: "int \<Rightarrow> int \<Rightarrow> int" where
  "truncated_div a b = (if a \<ge> 0 then a div b else - (- a div b))"

definition bounded_motion :: "int \<Rightarrow> int \<Rightarrow> int" where
  "bounded_motion current delta = clamp (- MOTION_LIMIT) MOTION_LIMIT (sat32 (current + delta))"

fun pending_add :: "pointer_event \<Rightarrow> pending_motion \<Rightarrow> pending_motion" where
  "pending_add (MotionX v) m = m\<lparr>pm_x := bounded_motion (pm_x m) v\<rparr>"
| "pending_add (MotionY v) m = m\<lparr>pm_y := bounded_motion (pm_y m) v\<rparr>"
| "pending_add (LeftButton _) m = m"

definition pending_take :: "pending_motion \<Rightarrow> pending_motion \<times> (int \<times> int) option" where
  "pending_take m = (no_motion, if (pm_x m, pm_y m) \<noteq> (0, 0) then Some (pm_x m, pm_y m) else None)"

definition scaled_motion :: "int \<Rightarrow> int \<Rightarrow> int \<Rightarrow> int" where
  "scaled_motion gain v axis_ratio =
     (let numerator = sat64 (sat64 (v * gain) * axis_ratio);
          denominator = 1000000;
          rounded = truncated_div (if numerator \<ge> 0 then sat64 (numerator + denominator div 2)
                                   else sat64 (numerator - denominator div 2)) denominator
      in clamp (- MOTION_LIMIT) MOTION_LIMIT
           (if - (2 ^ 31) \<le> rounded \<and> rounded < 2 ^ 31 then rounded
            else if rounded < 0 then - (2 ^ 31) else 2 ^ 31 - 1))"

definition accelerated_pointer_motion :: "int \<Rightarrow> int \<Rightarrow> int \<times> int" where
  "accelerated_pointer_motion x y =
     (let speed = min (max \<bar>x\<bar> \<bar>y\<bar>) POINTER_SPEED_LIMIT;
          gain = POINTER_BASE_GAIN_MILLI + speed * POINTER_SPEED_GAIN_MILLI
      in (scaled_motion gain x 1000, scaled_motion gain y POINTER_VERTICAL_RATIO_MILLI))"

section \<open>Menu sessions\<close>

definition MOTION_INTERVAL :: nat where "MOTION_INTERVAL = 8 * 1000000"
definition MENU_PING_INTERVAL :: nat where "MENU_PING_INTERVAL = 500 * 1000000"
definition MENU_INACTIVITY_TIMEOUT :: nat where "MENU_INACTIVITY_TIMEOUT = 30 * 1000000000"

text \<open>\<open>hc_sent\<close> is the log of the commands the helper has written to the control socket; the \<open>k\<close>-th of them
  is answered by \<open>answer k\<close>, a transport error or the line that was read.\<close>

record menu_capture =
  hc_open :: bool
  hc_pointer_grabbed :: bool
  hc_control :: bool
  hc_pending_motion :: pending_motion
  hc_last_motion_sent :: nat
  hc_last_input :: nat
  hc_last_ping :: nat
  hc_pressed :: "(nat \<times> u16) set"
  hc_sent :: "string list"

definition capture_closed :: "nat \<Rightarrow> menu_capture" where
  "capture_closed now = \<lparr>hc_open = False, hc_pointer_grabbed = False, hc_control = False,
     hc_pending_motion = no_motion, hc_last_motion_sent = now, hc_last_input = now, hc_last_ping = now,
     hc_pressed = {}, hc_sent = []\<rparr>"

definition capture_opened :: "nat \<Rightarrow> bool \<Rightarrow> menu_capture \<Rightarrow> menu_capture" where
  "capture_opened now pointer_grabbed h = h\<lparr>hc_open := True, hc_pointer_grabbed := pointer_grabbed,
     hc_control := True, hc_pending_motion := no_motion, hc_last_motion_sent := now, hc_last_input := now,
     hc_last_ping := now\<rparr>"

definition closed_by_release :: "menu_capture \<Rightarrow> menu_capture" where
  "closed_by_release h = h\<lparr>hc_open := False, hc_pointer_grabbed := False, hc_control := False,
     hc_pending_motion := no_motion\<rparr>"

definition trim_end :: "string \<Rightarrow> string" where
  "trim_end s = rev (dropWhile is_space (rev s))"

definition response_result :: "string \<Rightarrow> string + string" where
  "response_result response =
     (case strip_prefix ''ERROR '' response of
        Some error \<Rightarrow> Inl (trim_end error)
      | None \<Rightarrow>
          if response = ''OK'' @ [newline] \<or> response = ''OK GRAB'' @ [newline] \<or> response = ''OK RELEASE'' @ [newline]
          then Inr response else Inl ''Replay control returned an invalid response'')"

definition request_on_stream :: "(nat \<Rightarrow> string + string) \<Rightarrow> string \<Rightarrow> menu_capture \<Rightarrow>
    menu_capture \<times> (string + string)" where
  "request_on_stream answer command h =
     (h\<lparr>hc_sent := hc_sent h @ [command]\<rparr>, and_then (answer (length (hc_sent h))) response_result)"

definition menu_request :: "(nat \<Rightarrow> string + string) \<Rightarrow> string \<Rightarrow> menu_capture \<Rightarrow>
    menu_capture \<times> (string + string)" where
  "menu_request answer command h =
     (if hc_control h then request_on_stream answer command h
      else (h, Inl ''Replay menu control session is unavailable''))"

definition close_menu :: "(nat \<Rightarrow> string + string) \<Rightarrow> string \<Rightarrow> menu_capture \<Rightarrow> menu_capture" where
  "close_menu answer command h =
     (case menu_request answer command h of
        (h, Inl _) \<Rightarrow> closed_by_release (fst (request_on_stream answer command h))
      | (h, Inr _) \<Rightarrow> closed_by_release h)"

definition line_of :: "string \<Rightarrow> string" where "line_of s = s @ [newline]"

definition toggle_menu :: "(nat \<Rightarrow> string + string) \<Rightarrow> nat \<Rightarrow> bool \<Rightarrow> bool \<Rightarrow> menu_capture \<Rightarrow> menu_capture" where
  "toggle_menu answer now connects grabs h =
     (if hc_open h then close_menu answer (line_of ''MENU TOGGLE'') h
      else if \<not> connects then h
      else case request_on_stream answer (line_of ''MENU TOGGLE'') h of
             (h, r) \<Rightarrow> if r = Inr (''OK GRAB'' @ [newline]) then capture_opened now grabs h else h)"

definition request_keeps_menu_open :: "(nat \<Rightarrow> string + string) \<Rightarrow> string \<Rightarrow> menu_capture \<Rightarrow>
    menu_capture \<times> bool" where
  "request_keeps_menu_open answer command h =
     (case menu_request answer command h of
        (h, Inl _) \<Rightarrow> (h, False)
      | (h, Inr response) \<Rightarrow> (h, response \<noteq> ''OK RELEASE'' @ [newline]))"

definition send_menu_button :: "(nat \<Rightarrow> string + string) \<Rightarrow> bool \<Rightarrow> menu_capture \<Rightarrow> menu_capture \<times> bool" where
  "send_menu_button answer pressed =
     request_keeps_menu_open answer (if pressed then line_of ''MENU BUTTON 1'' else line_of ''MENU BUTTON 0'')"

fun pointer_events :: "(nat \<Rightarrow> string + string) \<Rightarrow> nat \<Rightarrow> pointer_event list \<Rightarrow> menu_capture \<Rightarrow>
    menu_capture \<times> bool" where
  "pointer_events answer now [] h = (h, True)"
| "pointer_events answer now (event # events) h =
     (let h = h\<lparr>hc_last_input := now\<rparr>
      in case event of
           LeftButton pressed \<Rightarrow>
             (case send_menu_button answer pressed h of
                (h, keeps) \<Rightarrow> if keeps then pointer_events answer now events h else (h, False))
         | _ \<Rightarrow> pointer_events answer now events
                  (h\<lparr>hc_pending_motion := pending_add event (hc_pending_motion h)\<rparr>))"

definition move_line :: "int \<times> int \<Rightarrow> string" where
  "move_line p = line_of (''MENU MOVE '' @ show_int (fst p) @ CHR '' '' # show_int (snd p))"

definition flush_motion :: "(nat \<Rightarrow> string + string) \<Rightarrow> nat \<Rightarrow> menu_capture \<Rightarrow> menu_capture \<times> bool" where
  "flush_motion answer now h =
     (if now - hc_last_motion_sent h \<ge> MOTION_INTERVAL
      then case pending_take (hc_pending_motion h) of (pending, motion) \<Rightarrow>
             let h = h\<lparr>hc_pending_motion := pending\<rparr>
             in (case motion of None \<Rightarrow> (h, True)
                 | Some (x, y) \<Rightarrow>
                     (case request_keeps_menu_open answer (move_line (accelerated_pointer_motion x y)) h of
                        (h, keeps) \<Rightarrow> if keeps then (h\<lparr>hc_last_motion_sent := now\<rparr>, True) else (h, False)))
      else (h, True))"

definition process_pointer_input :: "(nat \<Rightarrow> string + string) \<Rightarrow> nat \<Rightarrow> pointer_event list option \<Rightarrow> menu_capture \<Rightarrow>
    menu_capture \<times> bool" where
  "process_pointer_input answer now events h =
     (if hc_pointer_grabbed h \<and> events = None then (h, False)
      else
        case pointer_events answer now (if hc_pointer_grabbed h then the events else []) h of
          (h, False) \<Rightarrow> (h, False)
        | (h, True) \<Rightarrow>
            (case flush_motion answer now h of
               (h, False) \<Rightarrow> (h, False)
             | (h, True) \<Rightarrow>
                 if now - hc_last_ping h \<ge> MENU_PING_INTERVAL
                 then (case request_keeps_menu_open answer (line_of ''MENU PING'') h of
                         (h, keeps) \<Rightarrow> if keeps then (h\<lparr>hc_last_ping := now\<rparr>, True) else (h, False))
                 else (h, True)))"

section \<open>Key events\<close>

record key_event =
  ke_device :: nat
  ke_code :: u16
  ke_value :: int

datatype keyboard_event = Key key_event | Removed nat | Availability nat

definition active_modifiers :: "(nat \<times> u16) set \<Rightarrow> u8" where
  "active_modifiers pressed =
     (let active = snd ` pressed;
          flag = (\<lambda>a b m. if a \<in> active \<or> b \<in> active then m else 0)
      in flag KEY_LEFTCTRL KEY_RIGHTCTRL MOD_CONTROL OR flag KEY_LEFTSHIFT KEY_RIGHTSHIFT MOD_SHIFT
         OR flag KEY_LEFTALT KEY_RIGHTALT MOD_ALT OR flag KEY_LEFTMETA KEY_RIGHTMETA MOD_META)"

definition logical_press_is_new :: "(nat \<times> u16) set \<Rightarrow> u16 \<Rightarrow> bool" where
  "logical_press_is_new pressed code \<longleftrightarrow> code \<notin> snd ` pressed"

definition escape_closes_menu :: "key_event \<Rightarrow> bool" where
  "escape_closes_menu event \<longleftrightarrow> ke_code event = KEY_ESC \<and> (ke_value event = 1 \<or> ke_value event = 2)"

definition is_modifier_key :: "u16 \<Rightarrow> bool" where
  "is_modifier_key code \<longleftrightarrow> code \<in> {KEY_LEFTCTRL, KEY_RIGHTCTRL, KEY_LEFTSHIFT, KEY_RIGHTSHIFT, KEY_LEFTALT,
     KEY_RIGHTALT, KEY_LEFTMETA, KEY_RIGHTMETA}"

record monitor_env =
  me_answer :: "nat \<Rightarrow> string + string"
  me_now :: nat
  me_connects :: bool
  me_grabs :: bool

definition save_line :: "nat \<Rightarrow> string" where
  "save_line seconds = line_of (''SAVE '' @ show_nat seconds)"

definition run_action :: "monitor_env \<Rightarrow> hotkey_action \<Rightarrow> menu_capture \<Rightarrow> menu_capture" where
  "run_action env action h =
     (case action of
        ToggleOverlay \<Rightarrow> toggle_menu (me_answer env) (me_now env) (me_connects env) (me_grabs env) h
      | Save_action seconds \<Rightarrow>
          if me_connects env then fst (request_on_stream (me_answer env) (save_line seconds) h) else h)"

definition key_press :: "key_chord list \<Rightarrow> monitor_env \<Rightarrow> key_event \<Rightarrow> menu_capture \<Rightarrow> menu_capture" where
  "key_press bindings env event h =
     (let first_logical_press = logical_press_is_new (hc_pressed h) (ke_code event);
          h = h\<lparr>hc_pressed := insert (ke_device event, ke_code event) (hc_pressed h)\<rparr>
      in if \<not> first_logical_press then h
         else
           let modifiers = active_modifiers (hc_pressed h);
               action = map_option kc_action
                 (find (\<lambda>b. kc_key b = ke_code event \<and> kc_modifiers b = modifiers) bindings);
               h = (if hc_open h \<and> action \<noteq> Some ToggleOverlay \<and> \<not> is_modifier_key (ke_code event)
                    then close_menu (me_answer env) (line_of ''MENU ESCAPE'') h else h)
           in (case action of None \<Rightarrow> h | Some action \<Rightarrow> run_action env action h))"

fun keyboard_event_step :: "key_chord list \<Rightarrow> monitor_env \<Rightarrow> keyboard_event \<Rightarrow> menu_capture \<Rightarrow> menu_capture" where
  "keyboard_event_step bindings env (Removed device) h =
     (let h = h\<lparr>hc_pressed := {k \<in> hc_pressed h. fst k \<noteq> device}\<rparr>
      in if hc_open h then close_menu (me_answer env) (line_of ''MENU ESCAPE'') h else h)"
| "keyboard_event_step bindings env (Availability count) h = h"
| "keyboard_event_step bindings env (Key event) h =
     (if hc_open h \<and> escape_closes_menu event
      then close_menu (me_answer env) (line_of ''MENU ESCAPE'')
             (if ke_value event = 1 then h\<lparr>hc_pressed := insert (ke_device event, ke_code event) (hc_pressed h)\<rparr> else h)
      else if ke_value event = 0 then h\<lparr>hc_pressed := hc_pressed h - {(ke_device event, ke_code event)}\<rparr>
      else if ke_value event = 1 then key_press bindings env event h
      else h)"

text \<open>The end of every turn of the monitor loop: pointer input, then the inactivity watchdog.\<close>

definition monitor_turn_end :: "monitor_env \<Rightarrow> pointer_event list option \<Rightarrow> menu_capture \<Rightarrow> menu_capture" where
  "monitor_turn_end env events h =
     (let h = (if hc_open h
               then case process_pointer_input (me_answer env) (me_now env) events h of
                      (h, keeps) \<Rightarrow> if keeps then h else close_menu (me_answer env) (line_of ''MENU ESCAPE'') h
               else h)
      in if hc_open h \<and> me_now env - hc_last_input h \<ge> MENU_INACTIVITY_TIMEOUT
         then close_menu (me_answer env) (line_of ''MENU ESCAPE'') h else h)"

section \<open>Every command is understood\<close>

lemma accelerated_bounds:
  assumes "accelerated_pointer_motion x y = (dx, dy)"
  shows "\<bar>dx\<bar> \<le> 4096" "\<bar>dy\<bar> \<le> 4096"
proof -
  have "\<bar>scaled_motion g v r\<bar> \<le> 4096" for g v r
    using clamp_range [of "- 4096" 4096] by (simp add: scaled_motion_def Let_def MOTION_LIMIT_def abs_le_iff)
      (metis minus_le_iff)
  then show "\<bar>dx\<bar> \<le> 4096" "\<bar>dy\<bar> \<le> 4096" using assms by (auto simp: accelerated_pointer_motion_def Let_def)
qed

lemma strip_newline [simp]: "strip_suffix [newline] (line_of s) = Some s"
  by (simp add: line_of_def)

lemma parse_line:
  assumes "ascii_text s"
  shows "parse_command (line_of s) =
    (if s = ''MENU TOGGLE'' then Inr ToggleMenu else if s = ''MENU ESCAPE'' then Inr Escape
     else if s = ''MENU PING'' then Inr Ping
     else case strip_prefix ''MENU BUTTON '' s of
       Some value \<Rightarrow> if value = ''0'' then Inr (Button_command False) else if value = ''1'' then Inr (Button_command True)
         else Inl ''invalid Replay button state''
     | None \<Rightarrow> (case strip_prefix ''MENU MOVE '' s of Some value \<Rightarrow> parse_move value
       | None \<Rightarrow> and_then (ok_or (Option.bind (strip_prefix ''SAVE '' s) (parse_unsigned 65535)) ''invalid Replay command'')
           (\<lambda>seconds. ok_or (map_option Save_command (replay_duration_of seconds)) ''unsupported Replay duration'')))"
proof -
  have "ascii_text (line_of s)" using assms by (simp add: line_of_def newline_def)
  then show ?thesis by (simp add: parse_command_def chars_ascii)
qed

lemma parse_fixed:
  "parse_command (line_of ''MENU TOGGLE'') = Inr ToggleMenu" "parse_command (line_of ''MENU ESCAPE'') = Inr Escape"
  "parse_command (line_of ''MENU PING'') = Inr Ping"
  "parse_command (line_of ''MENU BUTTON 0'') = Inr (Button_command False)"
  "parse_command (line_of ''MENU BUTTON 1'') = Inr (Button_command True)"
  by (simp_all add: parse_line strip_prefix_def)

lemma show_int_free: "c \<noteq> CHR ''-'' \<Longrightarrow> \<not> is_digit c \<Longrightarrow> c \<notin> set (show_int i)"
  using show_nat_free by (auto simp: show_int_def)

lemma parse_move_line:
  assumes "\<bar>dx\<bar> \<le> 4096" "\<bar>dy\<bar> \<le> 4096"
  shows "parse_command (move_line (dx, dy)) = Inr (Move_command dx dy)"
proof -
  let ?v = "show_int dx @ CHR '' '' # show_int dy"
  have free: "CHR '' '' \<notin> set (show_int i)" for i by (rule show_int_free) (simp_all add: is_digit_def)
  have p: "parse_signed (2 ^ 31) (show_int dx) = Some dx" "parse_signed (2 ^ 31) (show_int dy) = Some dy"
    using assms by (intro parse_signed_show; simp add: abs_le_iff)+
  have "parse_move ?v = Inr (Move_command dx dy)"
    using p assms by (simp add: parse_move_def split_on_append [OF free] split_on_free [OF free] in_delta_def
        unwrap_or_def abs_le_iff)
  moreover have "strip_prefix ''MENU BUTTON '' (''MENU MOVE '' @ ?v) = None" by (simp add: strip_prefix_def)
  moreover have "strip_prefix ''MENU MOVE '' (''MENU MOVE '' @ ?v) = Some ?v" by (rule strip_prefix_append)
  ultimately show ?thesis unfolding move_line_def fst_conv snd_conv by (subst parse_line) simp_all
qed

lemma parse_save_line:
  assumes "n \<in> {15, 30, 60, 120, 180, 300, 600, 900}"
  shows "\<exists>d. parse_command (save_line n) = Inr (Save_command d)"
proof -
  obtain d where d: "replay_duration_of n = Some d" using assms by (auto simp: replay_duration_of_def)
  have "parse_unsigned 65535 (show_nat n) = Some n" using assms by (intro parse_unsigned_show) auto
  moreover have "strip_prefix ''MENU BUTTON '' (''SAVE '' @ show_nat n) = None"
    "strip_prefix ''MENU MOVE '' (''SAVE '' @ show_nat n) = None" by (simp_all add: strip_prefix_def)
  moreover have "strip_prefix ''SAVE '' (''SAVE '' @ show_nat n) = Some (show_nat n)" by (rule strip_prefix_append)
  ultimately have "parse_command (save_line n) = Inr (Save_command d)"
    unfolding save_line_def by (subst parse_line) (simp_all add: d ok_or_def)
  then show ?thesis by blast
qed

section \<open>What a configuration may contain\<close>

definition bindings_ok :: "key_chord list \<Rightarrow> bool" where
  "bindings_ok bs \<longleftrightarrow> length bs \<le> MAX_BINDINGS \<and> distinct (map (\<lambda>b. (kc_key b, kc_modifiers b)) bs)
     \<and> (\<forall>b \<in> set bs. kc_key b \<noteq> 0 \<and> (\<forall>n. kc_action b = Save_action n \<longrightarrow> n \<in> {15, 30, 60, 120, 180, 300, 600, 900}))"

lemma binding_of_line_ok:
  "binding_of_line line = Inr (s, Save_action n) \<Longrightarrow> n \<in> {15, 30, 60, 120, 180, 300, 600, 900}"
  by (auto simp: binding_of_line_def and_then_Inr split: option.splits if_splits)

lemma add_binding_ok:
  assumes "add_binding bs line = Inr bs'" "bindings_ok bs"
  shows "bindings_ok bs'"
proof -
  obtain s a ch where b: "binding_of_line line = Inr (s, a)" "parse_chord s = Inr ch" "length bs < MAX_BINDINGS"
    and n: "\<not> list_ex (\<lambda>e. kc_key e = kc_key ch \<and> kc_modifiers e = kc_modifiers ch) bs"
    and bs': "bs' = bs @ [ch\<lparr>kc_action := a\<rparr>]"
    using assms(1) by (auto simp: add_binding_def and_then_Inr Let_def not_le split: if_splits)
  have "kc_key ch \<noteq> 0" using b(2) by (auto simp: parse_chord_def and_then_Inr Let_def split: if_splits)
  then show ?thesis
    using assms(2) n b(1,3) binding_of_line_ok [of line s] by (auto simp: bs' bindings_ok_def list_ex_iff image_iff)
qed

lemma read_binding_lines_ok: "read_binding_lines input bs = Inr bs' \<Longrightarrow> bindings_ok bs \<Longrightarrow> bindings_ok bs'"
proof (induction input bs arbitrary: bs' rule: read_binding_lines.induct)
  case (1 input bs)
  obtain line rest where l: "read_line input = (line, rest)" by (metis surj_pair)
  show ?case
  proof (cases "trim_line_end line = ''START''")
    case True
    then show ?thesis using "1.prems" l by (simp add: read_binding_lines.simps [of input] split: if_splits)
  next
    case False
    then obtain b where "chars line \<noteq> None" "line \<noteq> []" "add_binding bs (trim_line_end line) = Inr b"
      "read_binding_lines rest b = Inr bs'"
      using "1.prems"(1) l by (auto simp: read_binding_lines.simps [of input] split: if_splits sum.splits)
    then show ?thesis using "1.IH" [OF l [symmetric] _ _ False] add_binding_ok "1.prems"(2) by blast
  qed
qed

lemma read_bindings_ok: "read_bindings input = Inr bs \<Longrightarrow> bindings_ok bs \<and> bs \<noteq> []
    \<and> length (filter (\<lambda>b. kc_action b = ToggleOverlay) bs) \<le> 1"
  using read_binding_lines_ok [of input "[]"]
  by (auto simp: read_bindings_def and_then_Inr bindings_ok_def split: if_splits)

section \<open>The helper over time\<close>

inductive helper_reach :: "key_chord list \<Rightarrow> menu_capture \<Rightarrow> bool" for bindings where
  start: "helper_reach bindings (capture_closed now)"
| key: "helper_reach bindings h \<Longrightarrow> helper_reach bindings (keyboard_event_step bindings env event h)"
| turn: "helper_reach bindings h \<Longrightarrow> helper_reach bindings (monitor_turn_end env events h)"

definition sent_ok :: "menu_capture \<Rightarrow> bool" where
  "sent_ok h \<longleftrightarrow> (\<forall>cmd \<in> set (hc_sent h). \<exists>c. parse_command cmd = Inr c)"

definition understood :: "string \<Rightarrow> bool" where
  "understood cmd \<longleftrightarrow> (\<exists>c. parse_command cmd = Inr c)"

lemma understood_fixed [simp]: "understood (line_of ''MENU TOGGLE'')" "understood (line_of ''MENU ESCAPE'')"
  "understood (line_of ''MENU PING'')" "understood (line_of ''MENU BUTTON 0'')" "understood (line_of ''MENU BUTTON 1'')"
  by (simp_all add: understood_def parse_fixed)

lemma understood_move [simp]: "understood (move_line (accelerated_pointer_motion x y))"
  using parse_move_line accelerated_bounds [of x y] by (metis surj_pair understood_def)

lemma sent_ok_request: "sent_ok h \<Longrightarrow> understood cmd \<Longrightarrow> sent_ok (fst (request_on_stream answer cmd h))"
  by (auto simp: request_on_stream_def sent_ok_def understood_def)

lemma sent_ok_menu_request: "sent_ok h \<Longrightarrow> understood cmd \<Longrightarrow> sent_ok (fst (menu_request answer cmd h))"
  by (simp add: menu_request_def sent_ok_request)

lemma sent_ok_closed_by_release [simp]: "sent_ok (closed_by_release h) = sent_ok h"
  by (simp add: sent_ok_def closed_by_release_def)

lemma sent_ok_update [simp]:
  "sent_ok (h\<lparr>hc_pressed := p\<rparr>) = sent_ok h" "sent_ok (h\<lparr>hc_last_input := n\<rparr>) = sent_ok h"
  "sent_ok (h\<lparr>hc_last_ping := n\<rparr>) = sent_ok h" "sent_ok (h\<lparr>hc_last_motion_sent := n\<rparr>) = sent_ok h"
  "sent_ok (h\<lparr>hc_pending_motion := m\<rparr>) = sent_ok h" "sent_ok (capture_opened n g h) = sent_ok h"
  by (simp_all add: sent_ok_def capture_opened_def)

lemma sent_ok_close: "sent_ok h \<Longrightarrow> understood cmd \<Longrightarrow> sent_ok (close_menu answer cmd h)"
  using sent_ok_menu_request [of h cmd answer]
  by (auto simp: close_menu_def sent_ok_request split: prod.splits sum.splits)

lemma sent_ok_keeps:
  "sent_ok h \<Longrightarrow> understood cmd \<Longrightarrow> sent_ok (fst (request_keeps_menu_open answer cmd h))"
  using sent_ok_menu_request [of h cmd answer] by (auto simp: request_keeps_menu_open_def split: prod.splits sum.splits)

lemma sent_ok_button: "sent_ok h \<Longrightarrow> sent_ok (fst (send_menu_button answer p h))"
  by (simp add: send_menu_button_def sent_ok_keeps)

lemma sent_ok_pointer_events: "sent_ok h \<Longrightarrow> sent_ok (fst (pointer_events answer now es h))"
proof (induction answer now es h rule: pointer_events.induct)
  case (2 answer now event events h)
  then show ?case
    using sent_ok_button [of "h\<lparr>hc_last_input := now\<rparr>" answer]
    by (auto simp: Let_def split: pointer_event.splits prod.splits) (metis fst_conv)+
qed simp

lemma sent_ok_flush: "sent_ok h \<Longrightarrow> sent_ok (fst (flush_motion answer now h))"
  by (simp add: flush_motion_def pending_take_def Let_def split_beta sent_ok_keeps)

lemma sent_ok_pointer:
  assumes "sent_ok h"
  shows "sent_ok (fst (process_pointer_input answer now es h))"
proof -
  obtain h1 k1 where e: "pointer_events answer now (if hc_pointer_grabbed h then the es else []) h = (h1, k1)"
    by (metis surj_pair)
  obtain h2 k2 where f: "flush_motion answer now h1 = (h2, k2)" by (metis surj_pair)
  obtain h3 k3 where g: "request_keeps_menu_open answer (line_of ''MENU PING'') h2 = (h3, k3)" by (metis surj_pair)
  have "sent_ok h1" using sent_ok_pointer_events [OF assms] e by (metis fst_conv)
  moreover from this have "sent_ok h2" using sent_ok_flush f by (metis fst_conv)
  moreover from this have "sent_ok h3" using sent_ok_keeps [OF _ understood_fixed(3)] g by (metis fst_conv)
  ultimately show ?thesis using assms e f g by (cases k1; cases k2) (simp_all add: process_pointer_input_def)
qed

lemma sent_ok_turn: "sent_ok h \<Longrightarrow> sent_ok (monitor_turn_end env events h)"
  using sent_ok_pointer [of h "me_answer env" "me_now env" events]
  by (simp add: monitor_turn_end_def Let_def sent_ok_close split_beta)

lemma sent_ok_toggle: "sent_ok h \<Longrightarrow> sent_ok (toggle_menu answer now connects grabs h)"
  using sent_ok_request [OF _ understood_fixed(1), of h answer]
  by (simp add: toggle_menu_def sent_ok_close split_beta)

lemma sent_ok_action:
  assumes "sent_ok h" "bindings_ok bs" "b \<in> set bs"
  shows "sent_ok (run_action env (kc_action b) h)"
proof (cases "kc_action b")
  case ToggleOverlay
  then show ?thesis using assms by (simp add: run_action_def sent_ok_toggle)
next
  case (Save_action n)
  then have "understood (save_line n)"
    using assms(2,3) parse_save_line [of n] by (auto simp: bindings_ok_def understood_def)
  then show ?thesis
    using assms(1) Save_action by (simp add: run_action_def sent_ok_request)
qed

lemma sent_ok_key_press:
  assumes "sent_ok h" "bindings_ok bs"
  shows "sent_ok (key_press bs env event h)"
proof -
  have f: "b \<in> set bs" if "find P bs = Some b" for P b using that by (metis find_Some_iff nth_mem)
  show ?thesis
    using assms f by (auto simp: key_press_def Let_def sent_ok_close sent_ok_action split: option.splits)
qed

lemma sent_ok_step: "sent_ok h \<Longrightarrow> bindings_ok bs \<Longrightarrow> sent_ok (keyboard_event_step bs env event h)"
  by (cases event) (auto simp: Let_def sent_ok_close sent_ok_key_press)

text \<open>C34: The helper speaks the daemon's language. From any accepted shortcut configuration, through any sequence
  of key events, device removals, pointer batches and daemon answers, every line the helper writes to the
  control socket is parsed by the daemon as a command: pointer motion is accelerated but stays within the
  accepted range, and only durations the daemon knows are requested.\<close>
theorem helper_commands_understood:
  assumes "read_bindings input = Inr bindings" "helper_reach bindings h" "cmd \<in> set (hc_sent h)"
  shows "\<exists>command. parse_command cmd = Inr command"
proof -
  have b: "bindings_ok bindings" using read_bindings_ok [OF assms(1)] by simp
  have "sent_ok h"
    using assms(2) by induction (simp_all add: sent_ok_step b sent_ok_turn, simp add: sent_ok_def capture_closed_def)
  then show ?thesis using assms(3) by (simp add: sent_ok_def)
qed

lemma close_menu_closes: "\<not> hc_open (close_menu answer cmd h) \<and> \<not> hc_pointer_grabbed (close_menu answer cmd h)"
  by (auto simp: close_menu_def closed_by_release_def split: prod.splits sum.splits)

lemma save_keeps_closed:
  "\<not> hc_open (fst (request_on_stream answer cmd h)) \<longleftrightarrow> \<not> hc_open h"
  "\<not> hc_pointer_grabbed (fst (request_on_stream answer cmd h)) \<longleftrightarrow> \<not> hc_pointer_grabbed h"
  by (simp_all add: request_on_stream_def)

text \<open>An open menu cannot hold the keyboard user captive. Whatever the daemon answers, the first press of any
  key that is not a modifier, any press or repeat of Escape even when the helper believes the key is already
  down, and the removal of a keyboard each leave the menu closed and the pointer released.\<close>
theorem open_menu_always_closes:
  assumes "hc_open h"
    and "(\<exists>d. event = Removed d) \<or> (\<exists>e. event = Key e \<and> (escape_closes_menu e
      \<or> ke_value e = 1 \<and> \<not> is_modifier_key (ke_code e) \<and> logical_press_is_new (hc_pressed h) (ke_code e)))"
  shows "\<not> hc_open (keyboard_event_step bindings env event h)
    \<and> \<not> hc_pointer_grabbed (keyboard_event_step bindings env event h)"
proof -
  have "\<not> hc_open (key_press bindings env e h) \<and> \<not> hc_pointer_grabbed (key_press bindings env e h)"
    if "\<not> is_modifier_key (ke_code e)" "logical_press_is_new (hc_pressed h) (ke_code e)" for e
    using that assms(1)
    by (auto simp: key_press_def Let_def run_action_def toggle_menu_def close_menu_closes save_keeps_closed
        split: option.splits hotkey_action.splits)
  then show ?thesis using assms by (auto simp: Let_def close_menu_closes split: if_splits)
qed

section \<open>Sample runs\<close>

definition sample_bindings :: "key_chord list" where
  "sample_bindings = [\<lparr>kc_key = 66, kc_modifiers = 0, kc_action = Save_action 30\<rparr>]"

definition sample_monitor_env :: monitor_env where
  "sample_monitor_env = \<lparr>me_answer = (\<lambda>_. Inr (''OK'' @ [newline])), me_now = 0, me_connects = True, me_grabs = False\<rparr>"

definition sample_press :: keyboard_event where
  "sample_press = Key \<lparr>ke_device = 0, ke_code = 66, ke_value = 1\<rparr>"

lemma sample_configuration: "read_bindings (line_of ''BIND F8 30'' @ line_of ''START'') = Inr sample_bindings"
proof -
  have r: "read_line (line_of ''BIND F8 30'' @ line_of ''START'') = (line_of ''BIND F8 30'', line_of ''START'')"
    "read_line (line_of ''START'') = (line_of ''START'', [])"
    by (simp_all add: read_line_def line_of_def newline_def split_once_def)
  have t: "trim_line_end (line_of ''BIND F8 30'') = ''BIND F8 30''" "trim_line_end (line_of ''START'') = ''START''"
    by (simp_all add: trim_line_end_def line_of_def newline_def carriage_return_def)
  have c: "chars (line_of ''BIND F8 30'') \<noteq> None" "chars (line_of ''START'') \<noteq> None"
    "line_of ''BIND F8 30'' \<noteq> []" "line_of ''START'' \<noteq> []"
    by (simp_all add: chars_ascii line_of_def newline_def)
  have lower: "to_ascii_lowercase ''F8'' = ''f8''" by code_simp
  have p: "parse_chord ''F8'' = Inr \<lparr>kc_key = 66, kc_modifiers = 0, kc_action = ToggleOverlay\<rparr>"
    by (simp add: parse_chord_def lower key_code_def key_table_def Let_def)
  have b: "binding_of_line ''BIND F8 30'' = Inr (''F8'', Save_action 30)"
    by (simp add: binding_of_line_def strip_prefix_def rsplit_once_def split_once_def ok_or_def parse_unsigned_def
        parse_number_def is_digit_def)
  have a: "add_binding [] ''BIND F8 30'' = Inr sample_bindings"
    by (simp add: add_binding_def b p MAX_BINDINGS_def sample_bindings_def)
  have "read_binding_lines (line_of ''START'') sample_bindings = Inr sample_bindings"
    by (subst read_binding_lines.simps) (simp add: r t c)
  then have "read_binding_lines (line_of ''BIND F8 30'' @ line_of ''START'') [] = Inr sample_bindings"
    by (subst read_binding_lines.simps) (simp add: r t c a)
  then show ?thesis by (simp add: read_bindings_def sample_bindings_def)
qed

theorem helper_commands_understood_witness: "\<exists>command. parse_command (save_line 30) = Inr command"
proof (rule helper_commands_understood [OF sample_configuration])
  show "helper_reach sample_bindings (keyboard_event_step sample_bindings sample_monitor_env sample_press
      (capture_closed 0))"
    by (intro helper_reach.intros)
  show "save_line 30 \<in> set (hc_sent (keyboard_event_step sample_bindings sample_monitor_env sample_press
      (capture_closed 0)))"
    by (simp add: sample_press_def sample_bindings_def capture_closed_def key_press_def Let_def
        logical_press_is_new_def active_modifiers_def key_consts run_action_def sample_monitor_env_def
        request_on_stream_def)
qed

theorem open_menu_always_closes_witness:
  "\<not> hc_open (keyboard_event_step sample_bindings sample_monitor_env sample_press
     (capture_opened 3 True (capture_closed 0)))"
  using open_menu_always_closes [of "capture_opened 3 True (capture_closed 0)" sample_press sample_bindings
      sample_monitor_env]
  by (simp add: sample_press_def capture_opened_def capture_closed_def is_modifier_key_def key_consts
      logical_press_is_new_def)

end
