(* ===== verification/Spool_Segments.thy ===== *)
theory Spool_Segments
  imports Replay_Ring Redunar_Text
begin

text \<open>
  The disk history of encoded packets, \<open>redunar-daemon/src/replay_spool.rs\<close>: the spool directory, the
  names and the layout of segment files, writing and committing a segment, retention, epoch reset, the
  snapshot plan and recovery after a restart. The directory is a map from file names to entries. Any
  file-system call may fail: \<open>fs_fault\<close> answers the \<open>n\<close>-th call of a run, and a call that fails changes
  nothing. Written bytes count as in the file at once: the write buffer in front of a temporary file is
  only visible through the failures of the calls that flush it.
\<close>

section \<open>Constants\<close>

definition SPOOL_MARKER :: string where "SPOOL_MARKER = ''.redunar-replay-spool-v1''"
definition MARKER_CONTENTS :: "u8 list" where "MARKER_CONTENTS = ascii (''redunar-replay-spool-v1'' @ [newline])"
definition SEGMENT_PREFIX :: string where "SEGMENT_PREFIX = ''redunar-segment-''"
definition SEGMENT_SUFFIX :: string where "SEGMENT_SUFFIX = ''.rseg''"
definition TEMP_SUFFIX :: string where "TEMP_SUFFIX = ''.tmp''"
definition SEGMENT_MAGIC :: "u8 list" where "SEGMENT_MAGIC = ascii ''RDNSEG01''"
definition MIN_SAVABLE_HISTORY_NS :: u64 where "MIN_SAVABLE_HISTORY_NS = NANOSECONDS_PER_SECOND"
definition TARGET_SEGMENT_NS :: u64 where "TARGET_SEGMENT_NS = 2000000000"
definition MAX_SEGMENT_NS :: u64 where "MAX_SEGMENT_NS = 4000000000"
definition MAX_SEGMENT_BYTES :: u64 where "MAX_SEGMENT_BYTES = 32 * 1024 * 1024"
definition MAX_SEGMENTS :: nat where "MAX_SEGMENTS = 512"
definition RETAINED_DURATION :: replay_duration where "RETAINED_DURATION = Seconds900"

lemmas segment_consts = TARGET_SEGMENT_NS_def MAX_SEGMENT_NS_def MAX_SEGMENT_BYTES_def MAX_SEGMENTS_def
  MIN_SAVABLE_HISTORY_NS_def NANOSECONDS_PER_SECOND_def

section \<open>Errors\<close>

datatype replay_spool_error_kind = General | InsufficientHistory | StorageFailure

record replay_spool_error =
  se_message :: string
  se_kind :: replay_spool_error_kind

definition spool_error_new :: "string \<Rightarrow> replay_spool_error" where
  "spool_error_new message = \<lparr>se_message = message, se_kind = General\<rparr>"

definition insufficient_history :: replay_spool_error where
  "insufficient_history = \<lparr>se_message = ''Replay just started; try saving again in a moment'',
     se_kind = InsufficientHistory\<rparr>"

definition storage_failure :: "string \<Rightarrow> replay_spool_error" where
  "storage_failure message = \<lparr>se_message = message, se_kind = StorageFailure\<rparr>"

definition is_insufficient_history :: "replay_spool_error \<Rightarrow> bool" where
  "is_insufficient_history e \<longleftrightarrow> se_kind e = InsufficientHistory"

definition is_storage_failure :: "replay_spool_error \<Rightarrow> bool" where
  "is_storage_failure e \<longleftrightarrow> se_kind e = StorageFailure"

section \<open>The spool directory\<close>

text \<open>Of an error the code looks at the kind and prints the rest.\<close>

datatype os_error_kind = KindNotFound | KindAlreadyExists | KindOther

record os_error =
  oe_kind :: os_error_kind
  oe_text :: string

definition io_error :: "string \<Rightarrow> os_error \<Rightarrow> replay_spool_error" where
  "io_error context error = storage_failure (context @ '': '' @ oe_text error)"

definition not_found :: os_error where
  "not_found = \<lparr>oe_kind = KindNotFound,
     oe_text = ''kind=NotFound errno=Some(2) detail=No such file or directory (os error 2)''\<rparr>"

definition already_exists :: os_error where
  "already_exists = \<lparr>oe_kind = KindAlreadyExists,
     oe_text = ''kind=AlreadyExists errno=Some(17) detail=File exists (os error 17)''\<rparr>"

definition unexpected_eof :: os_error where
  "unexpected_eof = \<lparr>oe_kind = KindOther,
     oe_text = ''kind=UnexpectedEof errno=None detail=failed to fill whole buffer''\<rparr>"

text \<open>An entry is a regular file with its contents, or something else with the length the system reports.\<close>

datatype spool_entry = Plain "u8 list" | Special u64

primrec is_file :: "spool_entry \<Rightarrow> bool" where
  "is_file (Plain _) = True"
| "is_file (Special _) = False"

primrec entry_len :: "spool_entry \<Rightarrow> u64" where
  "entry_len (Plain contents) = len_u64 contents"
| "entry_len (Special n) = n"

datatype directory_state = DirectoryPresent | DirectoryMissing | NotADirectory

record spool_fs =
  fs_directory :: directory_state
  fs_entries :: "string \<rightharpoonup> spool_entry"
  fs_fault :: "nat \<Rightarrow> os_error option"
  fs_calls :: nat

text \<open>Operations on the directory: the state after, and the result. \<open>then_op\<close> is \<open>?\<close>, \<open>with_context\<close> the
  \<open>map_err\<close> that names what was tried.\<close>

type_synonym ('e, 'a) fs_op = "spool_fs \<Rightarrow> spool_fs \<times> ('e + 'a)"

definition then_op :: "('e, 'a) fs_op \<Rightarrow> ('a \<Rightarrow> ('e, 'b) fs_op) \<Rightarrow> ('e, 'b) fs_op" where
  "then_op m f fs = (case m fs of (fs, Inl e) \<Rightarrow> (fs, Inl e) | (fs, Inr x) \<Rightarrow> f x fs)"

definition with_context :: "string \<Rightarrow> (os_error, 'a) fs_op \<Rightarrow> (replay_spool_error, 'a) fs_op" where
  "with_context context m fs = (case m fs of (fs, r) \<Rightarrow> (fs, map_err (io_error context) r))"

definition fs_call :: "(os_error, 'a) fs_op \<Rightarrow> (os_error, 'a) fs_op" where
  "fs_call m fs =
     (case fs_fault fs (fs_calls fs) of
        Some e \<Rightarrow> (fs\<lparr>fs_calls := Suc (fs_calls fs)\<rparr>, Inl e)
      | None \<Rightarrow> m (fs\<lparr>fs_calls := Suc (fs_calls fs)\<rparr>))"

definition open_new :: "string \<Rightarrow> (os_error, unit) fs_op" where
  "open_new name = fs_call (\<lambda>fs. case fs_entries fs name of
       Some _ \<Rightarrow> (fs, Inl already_exists)
     | None \<Rightarrow> (fs\<lparr>fs_entries := (fs_entries fs)(name \<mapsto> Plain [])\<rparr>, Inr ()))"

definition append_file :: "string \<Rightarrow> u8 list \<Rightarrow> (os_error, unit) fs_op" where
  "append_file name bytes = fs_call (\<lambda>fs. case fs_entries fs name of
       Some (Plain contents) \<Rightarrow> (fs\<lparr>fs_entries := (fs_entries fs)(name \<mapsto> Plain (contents @ bytes))\<rparr>, Inr ())
     | _ \<Rightarrow> (fs, Inr ()))"

text \<open>A call without effect on the directory: flush and sync, changing permissions, reading the next name of a
  listing.\<close>

definition fs_probe :: "(os_error, unit) fs_op" where
  "fs_probe = fs_call (\<lambda>fs. (fs, Inr ()))"

definition rename_file :: "string \<Rightarrow> string \<Rightarrow> (os_error, unit) fs_op" where
  "rename_file from_name to_name = fs_call (\<lambda>fs. case fs_entries fs from_name of
       None \<Rightarrow> (fs, Inl not_found)
     | Some entry \<Rightarrow> (fs\<lparr>fs_entries := (fs_entries fs)(from_name := None, to_name \<mapsto> entry)\<rparr>, Inr ()))"

definition remove_file :: "string \<Rightarrow> (os_error, unit) fs_op" where
  "remove_file name = fs_call (\<lambda>fs. case fs_entries fs name of
       None \<Rightarrow> (fs, Inl not_found)
     | Some _ \<Rightarrow> (fs\<lparr>fs_entries := (fs_entries fs)(name := None)\<rparr>, Inr ()))"

definition symlink_metadata :: "string \<Rightarrow> (os_error, spool_entry) fs_op" where
  "symlink_metadata name = fs_call (\<lambda>fs. case fs_entries fs name of
       None \<Rightarrow> (fs, Inl not_found)
     | Some entry \<Rightarrow> (fs, Inr entry))"

text \<open>Opening for reading, and reading to the end: the contents of a regular file.\<close>

definition open_read :: "string \<Rightarrow> (os_error, u8 list) fs_op" where
  "open_read name = fs_call (\<lambda>fs. case fs_entries fs name of
       Some (Plain contents) \<Rightarrow> (fs, Inr contents)
     | _ \<Rightarrow> (fs, Inl not_found))"

definition sync_directory :: "(replay_spool_error, unit) fs_op" where
  "sync_directory = with_context ''could not flush Replay spool directory'' (\<lambda>fs.
     then_op fs_probe (\<lambda>_. fs_probe) fs)"

section \<open>File names\<close>

definition hex_digit :: "nat \<Rightarrow> char" where
  "hex_digit d = char_of (if d < 10 then 48 + d else 87 + d)"

text \<open>\<open>{:016x}\<close>.\<close>

fun hex_digits :: "nat \<Rightarrow> nat \<Rightarrow> string" where
  "hex_digits 0 n = []"
| "hex_digits (Suc k) n = hex_digit (n div 16 ^ k mod 16) # hex_digits k n"

definition hex16 :: "u64 \<Rightarrow> string" where
  "hex16 w = hex_digits 16 (unat w)"

text \<open>\<open>u64::from_str_radix(s, 16)\<close>: either case, an optional plus sign, at least one digit, no overflow.\<close>

definition hex_value :: "char \<Rightarrow> nat option" where
  "hex_value c = (let n = of_char c :: nat
     in if 48 \<le> n \<and> n \<le> 57 then Some (n - 48)
        else if 97 \<le> n \<and> n \<le> 102 then Some (n - 87)
        else if 65 \<le> n \<and> n \<le> 70 then Some (n - 55) else None)"

fun parse_hex :: "nat \<Rightarrow> string \<Rightarrow> nat option" where
  "parse_hex acc [] = Some acc"
| "parse_hex acc (c # s) = (case hex_value c of None \<Rightarrow> None | Some d \<Rightarrow> parse_hex (acc * 16 + d) s)"

definition from_str_radix_16 :: "string \<Rightarrow> u64 option" where
  "from_str_radix_16 s =
     (let digits = (if s \<noteq> [] \<and> hd s = CHR ''+'' then tl s else s)
      in if digits = [] then None
         else case parse_hex 0 digits of None \<Rightarrow> None | Some n \<Rightarrow> try_from n)"

definition temporary_name :: "u64 \<Rightarrow> string" where
  "temporary_name sequence = ''.'' @ SEGMENT_PREFIX @ hex16 sequence @ TEMP_SUFFIX"

definition segment_name :: "u64 \<Rightarrow> u64 \<Rightarrow> u64 \<Rightarrow> string" where
  "segment_name sequence start_timestamp_ns end_timestamp_ns =
     SEGMENT_PREFIX @ hex16 sequence @ ''-'' @ hex16 start_timestamp_ns @ ''-'' @ hex16 end_timestamp_ns
       @ SEGMENT_SUFFIX"

definition parse_segment_name :: "string \<Rightarrow> (u64 \<times> u64 \<times> u64) option" where
  "parse_segment_name name =
     (case strip_prefix SEGMENT_PREFIX name of None \<Rightarrow> None | Some name \<Rightarrow>
      case strip_suffix SEGMENT_SUFFIX name of None \<Rightarrow> None | Some body \<Rightarrow>
      case split_on (CHR ''-'') body of
        [a, b, c] \<Rightarrow>
          (case (from_str_radix_16 a, from_str_radix_16 b, from_str_radix_16 c) of
             (Some sequence, Some start, Some end_ns) \<Rightarrow> Some (sequence, start, end_ns)
           | _ \<Rightarrow> None)
      | _ \<Rightarrow> None)"

section \<open>Segments and the index\<close>

record replay_spool_segment =
  ss_path :: string
  ss_start_timestamp_ns :: u64
  ss_end_timestamp_ns :: u64
  ss_bytes :: u64

record replay_spool_snapshot_plan =
  sp_segments :: "replay_spool_segment list"
  sp_requested_duration :: replay_duration
  sp_available_duration_ns :: u64
  sp_generation :: u64

record spool_limits =
  sl_duration_ns :: u64
  sl_bytes :: u64

definition spool_limits_new :: "replay_duration \<Rightarrow> replay_quality \<Rightarrow> replay_frame_rate \<Rightarrow> spool_limits" where
  "spool_limits_new duration quality frame_rate =
     (let seconds = (ucast (duration_seconds duration) :: u64);
          rate_multiplier = (if frame_rate = Variable then 2 else 1);
          video_bytes = saturating_mul (saturating_mul (saturating_mul seconds
             (ucast (target_megabits_per_second quality))) BYTES_PER_MEGABIT) rate_multiplier
      in \<lparr>sl_duration_ns = saturating_mul seconds NANOSECONDS_PER_SECOND,
          sl_bytes = div_ceil (saturating_mul video_bytes 110) 100\<rparr>)"

record spool_index =
  si_segments :: "replay_spool_segment list"
  si_active_bytes :: u64
  si_generation :: u64
  si_recovered_segments :: u32
  si_dropped_awaiting_keyframe :: u64

definition spool_index_default :: spool_index where
  "spool_index_default = \<lparr>si_segments = [], si_active_bytes = 0, si_generation = 0,
     si_recovered_segments = 0, si_dropped_awaiting_keyframe = 0\<rparr>"

record segment_writer =
  sw_temporary_path :: string
  sw_start_timestamp_ns :: u64
  sw_end_timestamp_ns :: u64
  sw_bytes :: u64
  sw_sequence :: u64

text \<open>What the worker owns besides the shared counters.\<close>

record spool_disk =
  sd_fs :: spool_fs
  sd_index :: spool_index
  sd_current :: "segment_writer option"
  sd_next_sequence :: u64

section \<open>Retention\<close>

definition over_limits :: "spool_limits \<Rightarrow> replay_spool_segment list \<Rightarrow> u64 \<Rightarrow> bool" where
  "over_limits limits segments active_bytes \<longleftrightarrow>
     length segments > MAX_SEGMENTS \<or> active_bytes > sl_bytes limits
     \<or> segments \<noteq> [] \<and> saturating_sub (ss_end_timestamp_ns (last segments))
         (ss_start_timestamp_ns (hd segments)) > sl_duration_ns limits"

fun enforce_loop :: "spool_limits \<Rightarrow> replay_spool_segment list \<Rightarrow> u64 \<Rightarrow> bool \<Rightarrow> spool_fs \<Rightarrow>
    spool_fs \<times> replay_spool_segment list \<times> u64 \<times> (replay_spool_error + bool)" where
  "enforce_loop limits [] active_bytes removed fs =
     (if over_limits limits [] active_bytes
      then (fs, [], active_bytes, Inl (spool_error_new ''Replay spool limits are invalid''))
      else (fs, [], active_bytes, Inr removed))"
| "enforce_loop limits (segment # rest) active_bytes removed fs =
     (if over_limits limits (segment # rest) active_bytes
      then (case with_context ''could not remove expired Replay segment'' (remove_file (ss_path segment)) fs of
              (fs, Inl e) \<Rightarrow> (fs, rest, active_bytes, Inl e)
            | (fs, Inr _) \<Rightarrow>
                enforce_loop limits rest (saturating_sub active_bytes (ss_bytes segment)) True fs)
      else (fs, segment # rest, active_bytes, Inr removed))"

definition enforce_limits :: "spool_limits \<Rightarrow> spool_index \<Rightarrow> spool_fs \<Rightarrow>
    spool_fs \<times> spool_index \<times> (replay_spool_error + unit)" where
  "enforce_limits limits index fs =
     (case enforce_loop limits (si_segments index) (si_active_bytes index) False fs of
        (fs, segments, active_bytes, r) \<Rightarrow>
          (let index = index\<lparr>si_segments := segments, si_active_bytes := active_bytes\<rparr>
           in case r of Inl e \<Rightarrow> (fs, index, Inl e)
              | Inr removed \<Rightarrow>
                  (if removed then (case sync_directory fs of (fs, r) \<Rightarrow> (fs, index, r))
                   else (fs, index, Inr ()))))"

section \<open>Writing segments\<close>

definition create_segment :: "u64 \<Rightarrow> u64 \<Rightarrow> (replay_spool_error, segment_writer) fs_op" where
  "create_segment sequence start_timestamp_ns =
     (let temporary_path = temporary_name sequence
      in then_op (with_context ''could not create Replay segment'' (\<lambda>fs.
           case open_new temporary_path fs of
             (fs, Inl e) \<Rightarrow>
               (if oe_kind e \<noteq> KindAlreadyExists then (fs, Inl e)
                else open_new temporary_path (fst (remove_file temporary_path fs)))
           | (fs, Inr _) \<Rightarrow> (fs, Inr ()))) (\<lambda>_.
         then_op (with_context ''could not write Replay segment header'' (append_file temporary_path SEGMENT_MAGIC)) (\<lambda>_ fs.
           (fs, Inr \<lparr>sw_temporary_path = temporary_path, sw_start_timestamp_ns = start_timestamp_ns,
              sw_end_timestamp_ns = start_timestamp_ns, sw_bytes = len_u64 SEGMENT_MAGIC, sw_sequence = sequence\<rparr>))))"

definition commit_rename :: "string \<Rightarrow> string \<Rightarrow> (replay_spool_error, unit) fs_op" where
  "commit_rename temporary_path destination fs =
     (case rename_file temporary_path destination fs of
        (fs, Inl e) \<Rightarrow> (fst (remove_file temporary_path fs), Inl (io_error ''could not commit Replay segment'' e))
      | (fs, Inr _) \<Rightarrow> (fs, Inr ()))"

definition commit_segment :: "spool_limits \<Rightarrow> segment_writer \<Rightarrow> spool_index \<Rightarrow> spool_fs \<Rightarrow>
    spool_fs \<times> spool_index \<times> (replay_spool_error + unit)" where
  "commit_segment limits writer index fs =
     (let destination = segment_name (sw_sequence writer) (sw_start_timestamp_ns writer) (sw_end_timestamp_ns writer)
      in case then_op (with_context ''could not flush Replay segment'' fs_probe) (\<lambda>_.
              then_op (with_context ''could not flush Replay segment'' fs_probe) (\<lambda>_.
              then_op (commit_rename (sw_temporary_path writer) destination) (\<lambda>_.
              then_op sync_directory (\<lambda>_.
              with_context ''could not inspect Replay segment'' (symlink_metadata destination))))) fs of
           (fs, Inl e) \<Rightarrow> (fs, index, Inl e)
         | (fs, Inr metadata) \<Rightarrow>
             enforce_limits limits (index\<lparr>
               si_active_bytes := saturating_add (si_active_bytes index) (entry_len metadata),
               si_generation := saturating_add (si_generation index) 1,
               si_segments := si_segments index @ [\<lparr>ss_path = destination,
                 ss_start_timestamp_ns = sw_start_timestamp_ns writer,
                 ss_end_timestamp_ns = sw_end_timestamp_ns writer, ss_bytes = entry_len metadata\<rparr>]\<rparr>) fs)"

text \<open>One record of a segment file.\<close>

definition record_header :: "encoded_replay_packet \<Rightarrow> u8 list" where
  "record_header packet = u64_to_le_bytes (pk_timestamp_ns packet) @ u64_to_le_bytes (pk_duration_ns packet)
     @ [of_bool (pk_keyframe packet)] @ u32_to_le_bytes (unwrap_or (try_from (length (pk_bytes packet))) (- 1))"

definition record_bytes :: "encoded_replay_packet \<Rightarrow> u64" where
  "record_bytes packet = 8 + 8 + 1 + 4 + len_u64 (pk_bytes packet)"

definition should_rotate :: "encoded_replay_packet \<Rightarrow> segment_writer \<Rightarrow> bool" where
  "should_rotate packet writer \<longleftrightarrow> pk_keyframe packet
     \<and> (saturating_sub (pk_timestamp_ns packet) (sw_start_timestamp_ns writer) \<ge> TARGET_SEGMENT_NS
        \<or> saturating_add (sw_bytes writer) (record_bytes packet) > MAX_SEGMENT_BYTES)"

definition write_record :: "encoded_replay_packet \<Rightarrow> segment_writer \<Rightarrow> spool_disk \<Rightarrow>
    spool_disk \<times> (replay_spool_error + bool)" where
  "write_record packet writer d =
     (let packet_end = saturating_add (pk_timestamp_ns packet) (pk_duration_ns packet);
          elapsed = saturating_sub packet_end (sw_start_timestamp_ns writer)
      in if elapsed > MAX_SEGMENT_NS \<or> saturating_add (sw_bytes writer) (record_bytes packet) > MAX_SEGMENT_BYTES
         then (d, Inl (spool_error_new ''encoder did not provide a keyframe within the segment bound''))
         else case with_context ''could not write Replay segment'' (then_op
                (append_file (sw_temporary_path writer) (record_header packet)) (\<lambda>_.
                 append_file (sw_temporary_path writer) (pk_bytes packet))) (sd_fs d) of
                (fs, Inl e) \<Rightarrow> (d\<lparr>sd_fs := fs\<rparr>, Inl e)
              | (fs, Inr _) \<Rightarrow>
                  (d\<lparr>sd_fs := fs, sd_current := Some (writer\<lparr>sw_end_timestamp_ns := packet_end,
                     sw_bytes := saturating_add (sw_bytes writer) (record_bytes packet)\<rparr>)\<rparr>, Inr True))"

text \<open>The three stages of \<open>process_packet\<close>: rotation, opening a segment at a keyframe, the record.\<close>

definition rotate_segment :: "spool_limits \<Rightarrow> encoded_replay_packet \<Rightarrow> spool_disk \<Rightarrow>
    spool_disk \<times> (replay_spool_error + unit)" where
  "rotate_segment limits packet d =
     (case sd_current d of
        Some writer \<Rightarrow>
          (if should_rotate packet writer
           then (case commit_segment limits writer (sd_index d) (sd_fs d) of
                   (fs, index, r) \<Rightarrow> (d\<lparr>sd_fs := fs, sd_index := index, sd_current := None\<rparr>, r))
           else (d, Inr ()))
      | None \<Rightarrow> (d, Inr ()))"

definition open_segment :: "encoded_replay_packet \<Rightarrow> spool_disk \<Rightarrow>
    spool_disk \<times> (replay_spool_error + segment_writer option)" where
  "open_segment packet d =
     (case sd_current d of
        Some writer \<Rightarrow> (d, Inr (Some writer))
      | None \<Rightarrow>
          (if \<not> pk_keyframe packet
           then (d\<lparr>sd_index := (sd_index d)\<lparr>si_dropped_awaiting_keyframe :=
                   saturating_add (si_dropped_awaiting_keyframe (sd_index d)) 1\<rparr>\<rparr>, Inr None)
           else case create_segment (sd_next_sequence d) (pk_timestamp_ns packet) (sd_fs d) of
                  (fs, Inl e) \<Rightarrow> (d\<lparr>sd_fs := fs\<rparr>, Inl e)
                | (fs, Inr writer) \<Rightarrow> (d\<lparr>sd_fs := fs, sd_current := Some writer,
                    sd_next_sequence := saturating_add (sd_next_sequence d) 1\<rparr>, Inr (Some writer))))"

definition process_packet :: "spool_limits \<Rightarrow> encoded_replay_packet \<Rightarrow> spool_disk \<Rightarrow>
    spool_disk \<times> (replay_spool_error + bool)" where
  "process_packet limits packet d =
     (case rotate_segment limits packet d of
        (d, Inl e) \<Rightarrow> (d, Inl e)
      | (d, Inr _) \<Rightarrow>
          (case open_segment packet d of
             (d, Inl e) \<Rightarrow> (d, Inl e)
           | (d, Inr None) \<Rightarrow> (d, Inr False)
           | (d, Inr (Some writer)) \<Rightarrow> write_record packet writer d))"

section \<open>Epoch reset\<close>

fun clear_loop :: "replay_spool_segment list \<Rightarrow> spool_fs \<Rightarrow>
    spool_fs \<times> replay_spool_segment list \<times> (replay_spool_error + unit)" where
  "clear_loop [] fs = (fs, [], Inr ())"
| "clear_loop (segment # rest) fs =
     (case with_context ''could not remove Replay segment from old epoch'' (remove_file (ss_path segment)) fs of
        (fs, Inl e) \<Rightarrow> (fs, rest, Inl e)
      | (fs, Inr _) \<Rightarrow> clear_loop rest fs)"

definition clear_completed_segments :: "spool_index \<Rightarrow> spool_fs \<Rightarrow>
    spool_fs \<times> spool_index \<times> (replay_spool_error + unit)" where
  "clear_completed_segments index fs =
     (case clear_loop (si_segments index) fs of
        (fs, segments, Inl e) \<Rightarrow> (fs, index\<lparr>si_segments := segments\<rparr>, Inl e)
      | (fs, segments, Inr _) \<Rightarrow>
          (let removed = (si_segments index \<noteq> []);
               index = index\<lparr>si_segments := segments, si_active_bytes := 0,
                 si_generation := saturating_add (si_generation index) 1\<rparr>
           in if removed then (case sync_directory fs of (fs, r) \<Rightarrow> (fs, index, r))
              else (fs, index, Inr ())))"

section \<open>Snapshots\<close>

definition plan_snapshot :: "spool_index \<Rightarrow> replay_duration \<Rightarrow> replay_spool_error + replay_spool_snapshot_plan" where
  "plan_snapshot index requested =
     (if si_segments index = [] then Inl (spool_error_new ''no complete Replay segment is available'')
      else let newest = last (si_segments index);
               cutoff = saturating_sub (ss_end_timestamp_ns newest)
                          (ucast (duration_seconds requested) * NANOSECONDS_PER_SECOND);
               segments = rev (takeWhile (\<lambda>segment. ss_end_timestamp_ns segment > cutoff) (rev (si_segments index)));
               available_duration_ns = (case segments of [] \<Rightarrow> 0
                 | first # _ \<Rightarrow> saturating_sub (ss_end_timestamp_ns newest) (ss_start_timestamp_ns first))
           in if available_duration_ns < MIN_SAVABLE_HISTORY_NS then Inl insufficient_history
              else Inr \<lparr>sp_segments = segments, sp_requested_duration = requested,
                sp_available_duration_ns = available_duration_ns, sp_generation = si_generation index\<rparr>)"

text \<open>The result is the open file, which keeps its contents after the name is removed. The second look at
  the entry finds the same inode: nothing but the worker itself changes the directory in between.\<close>

definition open_snapshot_segment :: "replay_spool_segment \<Rightarrow> (replay_spool_error, u8 list) fs_op" where
  "open_snapshot_segment segment =
     then_op (with_context ''could not inspect Replay snapshot segment'' (symlink_metadata (ss_path segment))) (\<lambda>metadata.
       if \<not> is_file metadata \<or> entry_len metadata \<noteq> ss_bytes segment
       then (\<lambda>fs. (fs, Inl (spool_error_new ''Replay snapshot segment changed before assembly'')))
       else then_op (with_context ''could not open Replay snapshot segment'' (open_read (ss_path segment))) (\<lambda>file.
            then_op (with_context ''could not inspect opened snapshot'' fs_probe) (\<lambda>_ fs.
              if len_u64 file \<noteq> ss_bytes segment
              then (fs, Inl (spool_error_new ''Replay snapshot changed while opening''))
              else (fs, Inr file))))"

fun open_snapshot_segments :: "replay_spool_segment list \<Rightarrow>
    (replay_spool_error, (replay_spool_segment \<times> u8 list) list) fs_op" where
  "open_snapshot_segments [] fs = (fs, Inr [])"
| "open_snapshot_segments (segment # rest) fs =
     then_op (open_snapshot_segment segment) (\<lambda>file.
     then_op (open_snapshot_segments rest) (\<lambda>opened fs. (fs, Inr ((segment, file) # opened)))) fs"

definition pin_snapshot :: "spool_limits \<Rightarrow> replay_duration \<Rightarrow> spool_disk \<Rightarrow>
    spool_disk \<times> (replay_spool_error + (replay_spool_segment \<times> u8 list) list)" where
  "pin_snapshot limits requested d =
     (case (case sd_current d of
              Some writer \<Rightarrow>
                (case commit_segment limits writer (sd_index d) (sd_fs d) of
                   (fs, index, r) \<Rightarrow> (d\<lparr>sd_fs := fs, sd_index := index, sd_current := None\<rparr>, r))
            | None \<Rightarrow> (d, Inr ())) of
        (d, Inl e) \<Rightarrow> (d, Inl e)
      | (d, Inr _) \<Rightarrow>
          (case plan_snapshot (sd_index d) requested of
             Inl e \<Rightarrow> (d, Inl e)
           | Inr plan \<Rightarrow>
               (case open_snapshot_segments (sp_segments plan) (sd_fs d) of
                  (fs, r) \<Rightarrow> (d\<lparr>sd_fs := fs\<rparr>, r))))"

section \<open>Opening a spool\<close>

definition validate_marker :: "(replay_spool_error, unit) fs_op" where
  "validate_marker =
     then_op (with_context ''could not inspect Replay spool marker'' (symlink_metadata SPOOL_MARKER)) (\<lambda>metadata.
       if \<not> is_file metadata \<or> entry_len metadata \<noteq> len_u64 MARKER_CONTENTS
       then (\<lambda>fs. (fs, Inl (spool_error_new ''Replay spool marker is invalid'')))
       else then_op (with_context ''could not read Replay spool marker'' (open_read SPOOL_MARKER)) (\<lambda>contents fs.
              if contents \<noteq> MARKER_CONTENTS then (fs, Inl (spool_error_new ''Replay spool marker is invalid''))
              else (fs, Inr ())))"

definition create_directory :: "(os_error, unit) fs_op" where
  "create_directory = fs_call (\<lambda>fs. (fs\<lparr>fs_directory := DirectoryPresent\<rparr>, Inr ()))"

definition directory_metadata :: "(os_error, directory_state) fs_op" where
  "directory_metadata = fs_call (\<lambda>fs. if fs_directory fs = DirectoryMissing then (fs, Inl not_found)
     else (fs, Inr (fs_directory fs)))"

text \<open>Whether a directory listing has an entry; \<open>listing\<close> is the order in which the system lists names.\<close>

definition claim_spool :: "string list \<Rightarrow> (replay_spool_error, unit) fs_op" where
  "claim_spool listing =
     then_op (with_context ''could not inspect Replay spool'' fs_probe) (\<lambda>_.
       if listing \<noteq> [] then (\<lambda>fs. (fs, Inl (spool_error_new ''refusing to claim a non-empty Replay spool'')))
       else then_op (with_context ''could not create Replay spool marker'' (open_new SPOOL_MARKER)) (\<lambda>_.
            then_op (with_context ''could not write Replay spool marker'' (then_op
              (append_file SPOOL_MARKER MARKER_CONTENTS) (\<lambda>_. fs_probe))) (\<lambda>_.
            sync_directory)))"

definition initialize_spool :: "string list \<Rightarrow> (replay_spool_error, unit) fs_op" where
  "initialize_spool listing =
     then_op (\<lambda>fs. case directory_metadata fs of
         (fs, Inr DirectoryPresent) \<Rightarrow> (fs, Inr ())
       | (fs, Inr _) \<Rightarrow> (fs, Inl (spool_error_new ''Replay spool is not a directory''))
       | (fs, Inl e) \<Rightarrow>
           (if oe_kind e = KindNotFound
            then with_context ''could not create Replay spool'' create_directory fs
            else (fs, Inl (io_error ''could not inspect Replay spool'' e)))) (\<lambda>_.
     then_op (with_context ''could not secure Replay spool'' fs_probe) (\<lambda>_ fs.
       case symlink_metadata SPOOL_MARKER fs of
         (fs, Inr _) \<Rightarrow> validate_marker fs
       | (fs, Inl e) \<Rightarrow>
           (if oe_kind e = KindNotFound then claim_spool listing fs
            else (fs, Inl (io_error ''could not inspect Replay spool marker'' e)))))"

definition has_suffix :: "string \<Rightarrow> string \<Rightarrow> bool" where
  "has_suffix name end_part \<longleftrightarrow> strip_suffix end_part name \<noteq> None"

definition is_temporary_name :: "string \<Rightarrow> bool" where
  "is_temporary_name name \<longleftrightarrow> strip_prefix (''.'' @ SEGMENT_PREFIX) name \<noteq> None \<and> has_suffix name TEMP_SUFFIX"

text \<open>One directory entry of the recovery scan.\<close>

definition recover_segment :: "string \<Rightarrow> u64 \<times> u64 \<times> u64 \<Rightarrow> spool_index \<Rightarrow> (replay_spool_error, spool_index) fs_op" where
  "recover_segment name parsed index =
     (case parsed of (sequence, start, end_ns) \<Rightarrow>
       then_op (with_context ''could not inspect Replay segment'' (symlink_metadata name)) (\<lambda>metadata.
         if \<not> is_file metadata \<or> start \<ge> end_ns \<or> entry_len metadata > MAX_SEGMENT_BYTES
         then (\<lambda>fs. (fs, Inl (spool_error_new ''owned Replay segment is invalid'')))
         else then_op (with_context ''could not read Replay segment'' (then_op (open_read name) (\<lambda>contents fs.
                if length contents < 8 then (fs, Inl unexpected_eof) else (fs, Inr (take 8 contents))))) (\<lambda>magic fs.
              if magic \<noteq> SEGMENT_MAGIC then (fs, Inl (spool_error_new ''owned Replay segment header is invalid''))
              else (fs, Inr (index\<lparr>
                si_active_bytes := saturating_add (si_active_bytes index) (entry_len metadata),
                si_generation := max (si_generation index) sequence,
                si_recovered_segments := saturating_add (si_recovered_segments index) 1,
                si_segments := si_segments index @ [\<lparr>ss_path = name, ss_start_timestamp_ns = start,
                  ss_end_timestamp_ns = end_ns, ss_bytes = entry_len metadata\<rparr>]\<rparr>)))))"

definition recover_entry :: "string \<Rightarrow> spool_index \<Rightarrow> (replay_spool_error, spool_index) fs_op" where
  "recover_entry name index =
     (if chars name = None then (\<lambda>fs. (fs, Inr index))
      else if is_temporary_name name
      then then_op (with_context ''could not inspect temporary Replay segment'' (symlink_metadata name)) (\<lambda>metadata.
             if is_file metadata
             then then_op (with_context ''could not remove abandoned Replay segment'' (remove_file name)) (\<lambda>_ fs. (fs, Inr index))
             else (\<lambda>fs. (fs, Inr index)))
      else case parse_segment_name name of
             None \<Rightarrow> (\<lambda>fs. (fs, Inr index))
           | Some parsed \<Rightarrow> recover_segment name parsed index)"

fun recover_entries :: "nat \<Rightarrow> string list \<Rightarrow> spool_index \<Rightarrow> (replay_spool_error, spool_index) fs_op" where
  "recover_entries entry_count [] index fs = (fs, Inr index)"
| "recover_entries entry_count (name # rest) index fs =
     then_op (with_context ''could not scan Replay spool'' fs_probe) (\<lambda>_.
       if entry_count + 1 > MAX_SEGMENTS + 64
       then (\<lambda>fs. (fs, Inl (spool_error_new ''Replay spool contains too many entries'')))
       else then_op (recover_entry name index) (recover_entries (entry_count + 1) rest)) fs"

definition recover_index :: "string list \<Rightarrow> (replay_spool_error, spool_index) fs_op" where
  "recover_index listing =
     then_op (with_context ''could not scan Replay spool'' fs_probe) (\<lambda>_.
     then_op (recover_entries 0 listing spool_index_default) (\<lambda>index fs.
       (fs, Inr (index\<lparr>si_segments := sort_key ss_start_timestamp_ns (si_segments index)\<rparr>))))"

definition spool_open :: "bool \<Rightarrow> replay_settings \<Rightarrow> string list \<Rightarrow> string list \<Rightarrow> spool_fs \<Rightarrow>
    spool_fs \<times> (replay_spool_error + spool_index \<times> spool_limits)" where
  "spool_open is_absolute settings claim_listing listing fs =
     (if \<not> is_absolute then (fs, Inl (spool_error_new ''Replay spool path must be absolute''))
      else let limits = spool_limits_new RETAINED_DURATION (rs_quality settings) (rs_frame_rate settings)
           in then_op (initialize_spool claim_listing) (\<lambda>_.
              then_op (recover_index listing) (\<lambda>index fs.
                case enforce_limits limits index fs of
                  (fs, index, Inl e) \<Rightarrow> (fs, Inl e)
                | (fs, index, Inr _) \<Rightarrow> (fs, Inr (index, limits)))) fs)"


section \<open>File names are unambiguous\<close>

lemma hex_value_digit: "d < 16 \<Longrightarrow> hex_value (hex_digit d) = Some d"
  by (auto simp: hex_value_def hex_digit_def)

lemma length_hex_digits [simp]: "length (hex_digits k n) = k"
  by (induction k) auto

lemma parse_hex_digits: "n < 16 ^ k \<Longrightarrow> parse_hex acc (hex_digits k n) = Some (acc * 16 ^ k + n)"
proof (induction k arbitrary: acc n)
  case (Suc k)
  have split: "hex_digits k n = hex_digits k (n mod 16 ^ k)" for n
  proof -
    have "hex_digits j n = hex_digits j (n mod 16 ^ k)" if "j \<le> k" for j
      using that
    proof (induction j)
      case (Suc j)
      have "n mod 16 ^ k div 16 ^ j mod 16 = n div 16 ^ j mod 16"
      proof -
        have "(16 :: nat) ^ k = 16 ^ j * 16 ^ (k - j)" using Suc.prems by (simp flip: power_add)
        then have "n mod 16 ^ k div 16 ^ j = n div 16 ^ j mod 16 ^ (k - j)"
          by (simp add: mod_mult2_eq)
        moreover have "(16 :: nat) dvd 16 ^ (k - j)" using Suc.prems by simp
        ultimately show ?thesis by (simp add: mod_mod_cancel)
      qed
      with Suc show ?case by simp
    qed simp
    then show ?thesis by simp
  qed
  have "n div 16 ^ k < 16" using Suc.prems by (simp add: less_mult_imp_div_less mult.commute)
  moreover have "parse_hex a (hex_digits k (n mod 16 ^ k)) = Some (a * 16 ^ k + n mod 16 ^ k)" for a
    by (rule Suc.IH) simp
  ultimately have "parse_hex acc (hex_digits (Suc k) n) = Some ((acc * 16 + n div 16 ^ k) * 16 ^ k + n mod 16 ^ k)"
    using split [of n] by (simp add: hex_value_digit)
  also have "(acc * 16 + n div 16 ^ k) * 16 ^ k + n mod 16 ^ k = acc * 16 ^ Suc k + n"
    using div_mult_mod_eq [of n "16 ^ k"] by (simp add: algebra_simps)
  finally show ?case .
qed simp

lemma hex_digit_free: "d < 16 \<Longrightarrow> c \<in> set ''+-./'' \<Longrightarrow> hex_digit d \<noteq> c"
  using hex_value_digit [of d] by (auto simp: hex_value_def)

lemma hex_digits_free: "c \<in> set ''+-./'' \<Longrightarrow> c \<notin> set (hex_digits k n)"
proof (induction k)
  case (Suc k)
  then have "hex_digit (n div 16 ^ k mod 16) \<noteq> c" by (intro hex_digit_free) auto
  with Suc show ?case by auto
qed simp

lemma from_str_radix_hex16 [simp]: "from_str_radix_16 (hex16 w) = Some w"
proof -
  have n: "unat w < 16 ^ 16" using unat_lt_2p [of w] by simp
  have "hex16 w \<noteq> []" by (metis hex16_def length_hex_digits list.size(3) zero_neq_numeral)
  moreover from this have "hd (hex16 w) \<noteq> CHR ''+''"
    using hex_digits_free [of "CHR ''+''" 16 "unat w"] by (metis hd_in_set hex16_def list.set_intros(1))
  ultimately show ?thesis
    using parse_hex_digits [OF n, of 0] by (simp add: from_str_radix_16_def hex16_def try_from_def Let_def
        unat_lt_2p [of w, simplified])
qed

lemma parse_segment_name_roundtrip [simp]: "parse_segment_name (segment_name n a b) = Some (n, a, b)"
proof -
  have f: "CHR ''-'' \<notin> set (hex16 w)" for w by (simp add: hex16_def hex_digits_free)
  have "split_on (CHR ''-'') (hex16 n @ CHR ''-'' # hex16 a @ CHR ''-'' # hex16 b) = [hex16 n, hex16 a, hex16 b]"
    by (simp add: split_on_append split_on_free f)
  moreover have "strip_suffix SEGMENT_SUFFIX (hex16 n @ ''-'' @ hex16 a @ ''-'' @ hex16 b @ SEGMENT_SUFFIX)
      = Some (hex16 n @ CHR ''-'' # hex16 a @ CHR ''-'' # hex16 b)"
    using strip_suffix_append [of SEGMENT_SUFFIX "hex16 n @ CHR ''-'' # hex16 a @ CHR ''-'' # hex16 b"] by simp
  ultimately show ?thesis by (simp add: parse_segment_name_def segment_name_def)
qed

lemma segment_name_inject [simp]: "segment_name n a b = segment_name n' a' b' \<longleftrightarrow> n = n' \<and> a = a' \<and> b = b'"
  by (metis Pair_inject option.inject parse_segment_name_roundtrip)

lemma temporary_not_segment [simp]: "temporary_name n \<noteq> segment_name m a b" "segment_name m a b \<noteq> temporary_name n"
  by (simp_all add: temporary_name_def segment_name_def SEGMENT_PREFIX_def)

end
