(* ===== verification/Spool_History.thy ===== *)
theory Spool_History
  imports Spool_Segments
begin

text \<open>
  What the spool holds. The specification is a history of closed segments and one open segment, each a
  list of packets, without files, names or byte counts. A relation ties the worker's disk state to such a
  history; every operation that succeeds makes the corresponding step of the specification, whatever the
  file system did, and an operation that fails leaves the committed segments complete.
\<close>

section \<open>Calls that succeed and calls that fail\<close>

lemma then_op_Inr: "then_op m f fs = (fs', Inr y) \<longleftrightarrow> (\<exists>fs1 x. m fs = (fs1, Inr x) \<and> f x fs1 = (fs', Inr y))"
  by (cases "m fs"; cases "snd (m fs)") (auto simp: then_op_def)

lemma then_op_Inl: "then_op m f fs = (fs', Inl e) \<longleftrightarrow>
    m fs = (fs', Inl e) \<or> (\<exists>fs1 x. m fs = (fs1, Inr x) \<and> f x fs1 = (fs', Inl e))"
  by (cases "m fs"; cases "snd (m fs)") (auto simp: then_op_def)

lemma with_context_Inr: "with_context c m fs = (fs', Inr x) \<longleftrightarrow> m fs = (fs', Inr x)"
  by (cases "m fs") (auto simp: with_context_def map_err_Inr)

lemma with_context_Inl: "with_context c m fs = (fs', Inl e) \<longleftrightarrow> (\<exists>o'. m fs = (fs', Inl o') \<and> e = io_error c o')"
  by (cases "m fs"; cases "snd (m fs)") (auto simp: with_context_def)

lemma then_op_cases:
  assumes "then_op m f fs = (fs', r)"
  obtains (Fail) e where "r = Inl e" "m fs = (fs', Inl e)"
    | (Ok) fs1 x where "m fs = (fs1, Inr x)" "f x fs1 = (fs', r)"
  using assms by (cases "m fs"; cases "snd (m fs)") (auto simp: then_op_def)

lemma fs_call_cases:
  assumes "fs_call m fs = (fs', r)"
  obtains (Fault) e where "fs_fault fs (fs_calls fs) = Some e" "r = Inl e" "fs_entries fs' = fs_entries fs"
      "fs_fault fs' = fs_fault fs"
    | (Call) "fs_fault fs (fs_calls fs) = None" "m (fs\<lparr>fs_calls := Suc (fs_calls fs)\<rparr>) = (fs', r)"
  using assms by (auto simp: fs_call_def split: option.splits)

text \<open>The effect of each call on the directory; a call that fails has none.\<close>

lemma probe_entries: "fs_probe fs = (fs', r) \<Longrightarrow> fs_entries fs' = fs_entries fs"
  by (auto simp: fs_probe_def elim!: fs_call_cases)

lemma sync_directory_entries: "sync_directory fs = (fs', r) \<Longrightarrow> fs_entries fs' = fs_entries fs"
  by (cases r) (auto simp: sync_directory_def with_context_Inr with_context_Inl then_op_Inr then_op_Inl dest!: probe_entries)

lemma open_new_Inr: "open_new name fs = (fs', Inr u) \<Longrightarrow>
    fs_entries fs name = None \<and> fs_entries fs' = (fs_entries fs)(name \<mapsto> Plain [])"
  by (auto simp: open_new_def elim!: fs_call_cases split: option.splits)

lemma open_new_Inl: "open_new name fs = (fs', Inl e) \<Longrightarrow> fs_entries fs' = fs_entries fs"
  by (auto simp: open_new_def elim!: fs_call_cases split: option.splits)

lemma append_file_Inr: "append_file name bs fs = (fs', Inr u) \<Longrightarrow> fs_entries fs name = Some (Plain c) \<Longrightarrow>
    fs_entries fs' = (fs_entries fs)(name \<mapsto> Plain (c @ bs))"
  by (auto simp: append_file_def elim!: fs_call_cases)

lemma append_file_other: "append_file name bs fs = (fs', r) \<Longrightarrow> n \<noteq> name \<Longrightarrow> fs_entries fs' n = fs_entries fs n"
  by (auto simp: append_file_def elim!: fs_call_cases split: option.splits spool_entry.splits)

lemma rename_file_Inr: "rename_file a b fs = (fs', Inr u) \<Longrightarrow>
    \<exists>entry. fs_entries fs a = Some entry \<and> fs_entries fs' = (fs_entries fs)(a := None, b \<mapsto> entry)"
  by (auto simp: rename_file_def elim!: fs_call_cases split: option.splits)

lemma rename_file_Inl: "rename_file a b fs = (fs', Inl e) \<Longrightarrow> fs_entries fs' = fs_entries fs"
  by (auto simp: rename_file_def elim!: fs_call_cases split: option.splits)

lemma remove_file_Inr: "remove_file name fs = (fs', Inr u) \<Longrightarrow> fs_entries fs' = (fs_entries fs)(name := None)"
  by (auto simp: remove_file_def elim!: fs_call_cases split: option.splits)

lemma remove_file_Inl: "remove_file name fs = (fs', Inl e) \<Longrightarrow> fs_entries fs' = fs_entries fs"
  by (auto simp: remove_file_def elim!: fs_call_cases split: option.splits)

lemma remove_file_other: "n \<noteq> name \<Longrightarrow> fs_entries (fst (remove_file name fs)) n = fs_entries fs n"
  by (cases "remove_file name fs"; cases "snd (remove_file name fs)")
    (auto dest!: remove_file_Inr remove_file_Inl)

lemma symlink_metadata_cases: "symlink_metadata name fs = (fs', r) \<Longrightarrow>
    fs_entries fs' = fs_entries fs \<and> (\<forall>entry. r = Inr entry \<longrightarrow> fs_entries fs name = Some entry)"
  by (auto simp: symlink_metadata_def elim!: fs_call_cases split: option.splits)

lemma open_read_cases: "open_read name fs = (fs', r) \<Longrightarrow>
    fs_entries fs' = fs_entries fs \<and> (\<forall>c. r = Inr c \<longrightarrow> fs_entries fs name = Some (Plain c))"
  by (auto simp: open_read_def elim!: fs_call_cases split: option.splits spool_entry.splits)

section \<open>Layout of a segment file\<close>

definition packet_record :: "encoded_replay_packet \<Rightarrow> u8 list" where
  "packet_record p = record_header p @ pk_bytes p"

definition segment_file :: "encoded_replay_packet list \<Rightarrow> u8 list" where
  "segment_file ps = SEGMENT_MAGIC @ concat (map packet_record ps)"

definition record_size :: "encoded_replay_packet \<Rightarrow> nat" where
  "record_size p = 21 + length (pk_bytes p)"

definition segment_size :: "encoded_replay_packet list \<Rightarrow> nat" where
  "segment_size ps = 8 + sum_list (map record_size ps)"

definition packet_end :: "encoded_replay_packet \<Rightarrow> nat" where
  "packet_end p = unat (pk_timestamp_ns p) + unat (pk_duration_ns p)"

lemma length_packet_record: "length (packet_record p) = record_size p"
  by (simp add: packet_record_def record_header_def record_size_def)

lemma length_segment_file: "length (segment_file ps) = segment_size ps"
  by (simp add: segment_file_def segment_size_def length_concat SEGMENT_MAGIC_def comp_def length_packet_record)

lemma segment_size_simps [simp]: "segment_size [] = 8" "segment_size (ps @ [p]) = segment_size ps + record_size p"
  by (simp_all add: segment_size_def)

lemma segment_file_snoc: "segment_file (ps @ [p]) = (segment_file ps @ record_header p) @ pk_bytes p"
  by (simp add: segment_file_def packet_record_def)

lemma unat_record_bytes: "packet_ok p \<Longrightarrow> unat (record_bytes p) = record_size p"
  by (simp add: record_bytes_def record_size_def packet_ok_iff unat_word_ariths unat_len_u64)

lemma unat_packet_end: "packet_ok p \<Longrightarrow>
    unat (saturating_add (pk_timestamp_ns p) (pk_duration_ns p)) = packet_end p"
  by (simp add: packet_ok_iff unat_saturating_add packet_end_def)

section \<open>Specification: segmented histories\<close>

record spool_history =
  sh_closed :: "encoded_replay_packet list list"
  sh_open :: "encoded_replay_packet list"

definition history_packets :: "spool_history \<Rightarrow> encoded_replay_packet list" where
  "history_packets h = concat (sh_closed h) @ sh_open h"

definition retained :: "spool_limits \<Rightarrow> encoded_replay_packet list list \<Rightarrow> bool" where
  "retained limits pss \<longleftrightarrow> length pss \<le> MAX_SEGMENTS
     \<and> sum_list (map segment_size pss) \<le> unat (sl_bytes limits)
     \<and> (pss \<noteq> [] \<longrightarrow> packet_end (last (last pss)) - unat (pk_timestamp_ns (hd (hd pss))) \<le> unat (sl_duration_ns limits))"

definition seal :: "spool_limits \<Rightarrow> spool_history \<Rightarrow> spool_history" where
  "seal limits h = (if sh_open h = [] then h
     else \<lparr>sh_closed = longest_suffix (retained limits) (sh_closed h @ [sh_open h]), sh_open = []\<rparr>)"

text \<open>A keyframe two seconds into a segment, or past its size bound, starts the next one.\<close>

definition rotates :: "encoded_replay_packet \<Rightarrow> encoded_replay_packet list \<Rightarrow> bool" where
  "rotates p ps \<longleftrightarrow> ps \<noteq> [] \<and> pk_keyframe p
     \<and> (unat (pk_timestamp_ns p) - unat (pk_timestamp_ns (hd ps)) \<ge> 2000000000
        \<or> segment_size ps + record_size p > 33554432)"

definition fits :: "encoded_replay_packet \<Rightarrow> encoded_replay_packet list \<Rightarrow> bool" where
  "fits p ps \<longleftrightarrow> packet_end p - unat (pk_timestamp_ns (hd (ps @ [p]))) \<le> 4000000000
     \<and> segment_size ps + record_size p \<le> 33554432"

datatype append_outcome = Appended | AwaitingKeyframe | NoKeyframeInBound

definition history_append :: "spool_limits \<Rightarrow> encoded_replay_packet \<Rightarrow> spool_history \<Rightarrow>
    spool_history \<times> append_outcome" where
  "history_append limits p h =
     (let h = (if rotates p (sh_open h) then seal limits h else h)
      in if sh_open h = [] \<and> \<not> pk_keyframe p then (h, AwaitingKeyframe)
         else if fits p (sh_open h) then (h\<lparr>sh_open := sh_open h @ [p]\<rparr>, Appended)
         else (h, NoKeyframeInBound))"

definition segment_ok :: "encoded_replay_packet list \<Rightarrow> bool" where
  "segment_ok ps \<longleftrightarrow> ps \<noteq> [] \<and> pk_keyframe (hd ps) \<and> (\<forall>p \<in> set ps. packet_ok p)
     \<and> segment_size ps \<le> 33554432 \<and> packet_end (last ps) - unat (pk_timestamp_ns (hd ps)) \<le> 4000000000"

section \<open>The disk state and a history\<close>

definition holds_segment :: "spool_fs \<Rightarrow> replay_spool_segment \<Rightarrow> encoded_replay_packet list \<Rightarrow> bool" where
  "holds_segment fs s ps \<longleftrightarrow> segment_ok ps \<and> fs_entries fs (ss_path s) = Some (Plain (segment_file ps))
     \<and> ss_start_timestamp_ns s = pk_timestamp_ns (hd ps) \<and> unat (ss_end_timestamp_ns s) = packet_end (last ps)
     \<and> unat (ss_bytes s) = segment_size ps
     \<and> (\<exists>n. ss_path s = segment_name n (ss_start_timestamp_ns s) (ss_end_timestamp_ns s))"

definition holds_writer :: "spool_fs \<Rightarrow> segment_writer option \<Rightarrow> encoded_replay_packet list \<Rightarrow> bool" where
  "holds_writer fs current ps \<longleftrightarrow> (case current of None \<Rightarrow> ps = []
     | Some w \<Rightarrow> segment_ok ps \<and> fs_entries fs (sw_temporary_path w) = Some (Plain (segment_file ps))
         \<and> sw_start_timestamp_ns w = pk_timestamp_ns (hd ps) \<and> unat (sw_end_timestamp_ns w) = packet_end (last ps)
         \<and> unat (sw_bytes w) = segment_size ps \<and> sw_temporary_path w = temporary_name (sw_sequence w))"

text \<open>The committed part: every indexed segment is a complete file.\<close>

definition committed :: "spool_fs \<Rightarrow> replay_spool_segment list \<Rightarrow> encoded_replay_packet list list \<Rightarrow> bool" where
  "committed fs segments pss \<longleftrightarrow> list_all2 (holds_segment fs) segments pss \<and> timestamps_increase (concat pss)"

definition limits_ok :: "spool_limits \<Rightarrow> bool" where
  "limits_ok limits \<longleftrightarrow> unat (sl_bytes limits) < 2 ^ 63"

definition spool_rel :: "spool_limits \<Rightarrow> spool_disk \<Rightarrow> spool_history \<Rightarrow> bool" where
  "spool_rel limits d h \<longleftrightarrow> limits_ok limits
     \<and> list_all2 (holds_segment (sd_fs d)) (si_segments (sd_index d)) (sh_closed h)
     \<and> holds_writer (sd_fs d) (sd_current d) (sh_open h)
     \<and> timestamps_increase (history_packets h)
     \<and> retained limits (sh_closed h)
     \<and> unat (si_active_bytes (sd_index d)) = sum_list (map segment_size (sh_closed h))"

lemma limits_new_ok: "limits_ok (spool_limits_new duration quality frame_rate)"
proof -
  let ?m = "(if frame_rate = Variable then 2 else 1) :: u64"
  let ?v = "saturating_mul (saturating_mul (saturating_mul (ucast (duration_seconds duration))
     (ucast (target_megabits_per_second quality))) BYTES_PER_MEGABIT) ?m :: u64"
  have "unat (div_ceil (saturating_mul ?v 110) 100) \<le> unat (saturating_mul ?v 110) div 100 + 1"
    by (simp add: div_ceil_def unat_div unat_word_ariths)
  also have "\<dots> < 2 ^ 63"
    using unat_lt_2p [of "saturating_mul ?v 110"] by simp
  finally show ?thesis by (simp add: limits_ok_def spool_limits_new_def Let_def)
qed

lemma holds_segment_cong:
  "holds_segment fs s ps \<Longrightarrow> fs_entries fs' (ss_path s) = fs_entries fs (ss_path s) \<Longrightarrow> holds_segment fs' s ps"
  unfolding holds_segment_def by auto

lemma holds_segments_cong:
  assumes "list_all2 (holds_segment fs) segments pss"
    and "\<And>s. s \<in> set segments \<Longrightarrow> fs_entries fs' (ss_path s) = fs_entries fs (ss_path s)"
  shows "list_all2 (holds_segment fs') segments pss"
  unfolding list_all2_conv_all_nth
proof (intro conjI allI impI)
  show "length segments = length pss" using assms(1) by (rule list_all2_lengthD)
  fix i assume i: "i < length segments"
  with assms(1) have "holds_segment fs (segments ! i) (pss ! i)" by (simp add: list_all2_conv_all_nth)
  then show "holds_segment fs' (segments ! i) (pss ! i)"
    by (rule holds_segment_cong) (simp add: assms(2) i)
qed

lemma holds_segment_in:
  assumes "list_all2 (holds_segment fs) segments pss" "s \<in> set segments"
  shows "\<exists>ps \<in> set pss. holds_segment fs s ps"
  using assms by (metis in_set_conv_nth list_all2_conv_all_nth)

lemma holds_segment_name:
  assumes "list_all2 (holds_segment fs) segments pss" "s \<in> set segments"
  shows "\<exists>n. ss_path s = segment_name n (ss_start_timestamp_ns s) (ss_end_timestamp_ns s)"
  using holds_segment_in [OF assms] by (auto simp: holds_segment_def)

lemma first_segment_earlier:
  assumes "timestamps_increase (concat (ps # pss))" "list_all2 (holds_segment fs) segments pss" "ps \<noteq> []" "s \<in> set segments"
  shows "pk_timestamp_ns (hd ps) < ss_start_timestamp_ns s"
proof -
  obtain qs where "qs \<in> set pss" "ss_start_timestamp_ns s = pk_timestamp_ns (hd qs)" "qs \<noteq> []"
    using holds_segment_in [OF assms(2,4)] by (auto simp: holds_segment_def segment_ok_def)
  then show ?thesis
    using assms(1,3) by (force simp: timestamps_increase_def sorted_wrt_append)
qed

lemma without_first_segment:
  assumes "holds_segment fs s ps" "list_all2 (holds_segment fs) segments rest" "timestamps_increase (concat (ps # rest))"
    and "\<And>name. name \<noteq> ss_path s \<Longrightarrow> fs_entries fs' name = fs_entries fs name"
  shows "list_all2 (holds_segment fs') segments rest" "timestamps_increase (concat rest)"
proof -
  have ps: "ps \<noteq> []" "ss_start_timestamp_ns s = pk_timestamp_ns (hd ps)"
    using assms(1) by (auto simp: holds_segment_def segment_ok_def)
  have "ss_path t \<noteq> ss_path s" if "t \<in> set segments" for t
    using first_segment_earlier [OF assms(3,2) ps(1) that] holds_segment_name [OF assms(2) that] assms(1) ps(2)
    by (auto simp: holds_segment_def)
  then show "list_all2 (holds_segment fs') segments rest"
    using assms(2,4) by (auto intro: holds_segments_cong)
  show "timestamps_increase (concat rest)"
    using assms(3) by (auto simp: timestamps_increase_def sorted_wrt_append)
qed

section \<open>Retention\<close>

lemma over_limits_retained:
  assumes "list_all2 (holds_segment fs) segments pss" "unat active = sum_list (map segment_size pss)"
  shows "over_limits limits segments active \<longleftrightarrow> \<not> retained limits pss"
proof (cases "segments = []")
  case True
  then show ?thesis using assms by (auto simp: over_limits_def retained_def word_less_nat_alt)
next
  case False
  then have ne: "pss \<noteq> []" using assms(1) by auto
  have "holds_segment fs (hd segments) (hd pss)" "holds_segment fs (last segments) (last pss)"
    using assms(1) False ne by (simp_all add: hd_conv_nth last_conv_nth list_all2_conv_all_nth)
  then show ?thesis
    using False ne assms list_all2_lengthD [OF assms(1)]
    by (auto simp: over_limits_def retained_def holds_segment_def word_less_nat_alt unat_saturating_sub)
qed

definition segment_path :: "string \<Rightarrow> bool" where
  "segment_path name \<longleftrightarrow> (\<exists>n a b. name = segment_name n a b)"

lemma temporary_not_path [simp]: "\<not> segment_path (temporary_name n)"
  by (simp add: segment_path_def)

lemma enforce_loop_spec:
  assumes "enforce_loop limits segments active removed fs = (fs', segments', active', r)"
    and "list_all2 (holds_segment fs) segments pss" "timestamps_increase (concat pss)"
    and "unat active = sum_list (map segment_size pss)"
  shows "\<exists>pss'. suffix pss' pss \<and> list_all2 (holds_segment fs') segments' pss'
    \<and> (\<forall>b. r = Inr b \<longrightarrow> pss' = longest_suffix (retained limits) pss \<and> unat active' = sum_list (map segment_size pss'))
    \<and> (\<forall>name. \<not> segment_path name \<longrightarrow> fs_entries fs' name = fs_entries fs name)
    \<and> (\<forall>e. r = Inl e \<longrightarrow> is_storage_failure e)"
  using assms
proof (induction limits segments active removed fs arbitrary: pss rule: enforce_loop.induct)
  case (1 limits active removed fs)
  then show ?case by (auto simp: over_limits_def word_less_nat_alt)
next
  case (2 limits s segments active removed fs)
  then obtain ps rest where pss: "pss = ps # rest" and h: "holds_segment fs s ps"
    and hs: "list_all2 (holds_segment fs) segments rest" by (auto simp: list_all2_Cons1)
  show ?case
  proof (cases "over_limits limits (s # segments) active")
    case False
    then have "retained limits pss" using over_limits_retained [OF 2(3,5)] by simp
    then have "longest_suffix (retained limits) pss = pss" by (rule longest_suffix_id)
    with False 2 show ?thesis by auto
  next
    case over: True
    then have nr: "\<not> retained limits pss" using over_limits_retained [OF 2(3,5)] by simp
    obtain fs1 r1 where rm: "with_context ''could not remove expired Replay segment'' (remove_file (ss_path s)) fs = (fs1, r1)"
      by (metis surj_pair)
    show ?thesis
    proof (cases r1)
      case (Inl e)
      then have "fs_entries fs1 = fs_entries fs" "is_storage_failure e"
        using rm by (auto simp: with_context_Inl io_error_def storage_failure_def is_storage_failure_def dest!: remove_file_Inl)
      moreover have "fs' = fs1" "segments' = segments" "r = Inl e" using 2(2) over rm Inl by auto
      ultimately show ?thesis using hs pss
        by (auto simp: suffix_Cons intro!: exI [of _ rest] intro: holds_segments_cong)
    next
      case (Inr u)
      then have fs1: "fs_entries fs1 = (fs_entries fs)(ss_path s := None)"
        using rm by (auto simp: with_context_Inr dest!: remove_file_Inr)
      have sp: "segment_path (ss_path s)" using h by (auto simp: holds_segment_def segment_path_def)
      note R = without_first_segment [OF h hs 2(4) [unfolded pss], of fs1]
      have hs1: "list_all2 (holds_segment fs1) segments rest" and ti: "timestamps_increase (concat rest)"
        using R by (simp_all add: fs1)
      have ab: "unat (saturating_sub active (ss_bytes s)) = sum_list (map segment_size rest)"
        using 2(5) pss h by (simp add: unat_saturating_sub holds_segment_def)
      have "enforce_loop limits segments (saturating_sub active (ss_bytes s)) True fs1 = (fs', segments', active', r)"
        using 2(2) over rm Inr by simp
      from 2(1) [OF over rm [symmetric] Inr this hs1 ti ab] show ?thesis
        using pss nr fs1 sp by (fastforce simp: suffix_Cons)
    qed
  qed
qed

lemma enforce_limits_spec:
  assumes "enforce_limits limits index fs = (fs', index', r)"
    and "list_all2 (holds_segment fs) (si_segments index) pss" "timestamps_increase (concat pss)"
    and "unat (si_active_bytes index) = sum_list (map segment_size pss)"
  shows "\<exists>pss'. suffix pss' pss \<and> list_all2 (holds_segment fs') (si_segments index') pss'
    \<and> (\<forall>u. r = Inr u \<longrightarrow> pss' = longest_suffix (retained limits) pss
         \<and> unat (si_active_bytes index') = sum_list (map segment_size pss'))
    \<and> (\<forall>name. \<not> segment_path name \<longrightarrow> fs_entries fs' name = fs_entries fs name)
    \<and> (\<forall>e. r = Inl e \<longrightarrow> is_storage_failure e)"
proof -
  obtain fs1 segments active r1 where loop:
    "enforce_loop limits (si_segments index) (si_active_bytes index) False fs = (fs1, segments, active, r1)"
    by (metis prod_cases4)
  from enforce_loop_spec [OF this assms(2-4)] obtain pss' where spec: "suffix pss' pss"
    "list_all2 (holds_segment fs1) segments pss'"
    "\<forall>b. r1 = Inr b \<longrightarrow> pss' = longest_suffix (retained limits) pss \<and> unat active = sum_list (map segment_size pss')"
    "\<forall>name. \<not> segment_path name \<longrightarrow> fs_entries fs1 name = fs_entries fs name"
    "\<forall>e. r1 = Inl e \<longrightarrow> is_storage_failure e" by blast
  have sync: "is_storage_failure e" if "sync_directory fs1 = (f, Inl e)" for f e
    using that by (auto simp: sync_directory_def with_context_Inl io_error_def storage_failure_def is_storage_failure_def)
  have idx: "si_segments index' = segments" "si_active_bytes index' = active"
    "fs_entries fs' = fs_entries fs1" "r = Inr u \<Longrightarrow> \<exists>b. r1 = Inr b" "r = Inl e \<Longrightarrow> is_storage_failure e" for u e
    using assms(1) loop spec(5) by (auto simp: enforce_limits_def Let_def split: sum.splits prod.splits if_splits
        dest: sync_directory_entries sync)
  have "list_all2 (holds_segment fs') (si_segments index') pss'"
    using spec(2) by (auto simp: idx intro: holds_segments_cong)
  with spec idx show ?thesis by (intro exI [of _ pss']) auto
qed

section \<open>Committing a segment\<close>

lemma indexed_earlier:
  assumes "timestamps_increase (concat pss @ ps)" "list_all2 (holds_segment fs) segments pss" "ps \<noteq> []" "s \<in> set segments"
  shows "ss_start_timestamp_ns s < pk_timestamp_ns (hd ps)"
proof -
  obtain qs where "qs \<in> set pss" "ss_start_timestamp_ns s = pk_timestamp_ns (hd qs)" "qs \<noteq> []"
    using holds_segment_in [OF assms(2,4)] by (auto simp: holds_segment_def segment_ok_def)
  then show ?thesis
    using assms(1,3) by (auto simp: timestamps_increase_def sorted_wrt_append)
qed

lemma storage_io_error [simp]: "is_storage_failure (io_error c e)"
  by (simp add: io_error_def storage_failure_def is_storage_failure_def)

text \<open>The calls of a commit up to the index update.\<close>

definition commit_file :: "segment_writer \<Rightarrow> (replay_spool_error, spool_entry) fs_op" where
  "commit_file w =
     (let destination = segment_name (sw_sequence w) (sw_start_timestamp_ns w) (sw_end_timestamp_ns w)
      in then_op (with_context ''could not flush Replay segment'' fs_probe) (\<lambda>_.
         then_op (with_context ''could not flush Replay segment'' fs_probe) (\<lambda>_.
         then_op (commit_rename (sw_temporary_path w) destination) (\<lambda>_.
         then_op sync_directory (\<lambda>_.
         with_context ''could not inspect Replay segment'' (symlink_metadata destination))))))"

definition indexed :: "segment_writer \<Rightarrow> spool_entry \<Rightarrow> spool_index \<Rightarrow> spool_index" where
  "indexed w metadata index = index\<lparr>
     si_active_bytes := saturating_add (si_active_bytes index) (entry_len metadata),
     si_generation := saturating_add (si_generation index) 1,
     si_segments := si_segments index @ [\<lparr>
       ss_path = segment_name (sw_sequence w) (sw_start_timestamp_ns w) (sw_end_timestamp_ns w),
       ss_start_timestamp_ns = sw_start_timestamp_ns w, ss_end_timestamp_ns = sw_end_timestamp_ns w,
       ss_bytes = entry_len metadata\<rparr>]\<rparr>"

lemma commit_segment_alt: "commit_segment limits w index fs =
    (case commit_file w fs of (fs, Inl e) \<Rightarrow> (fs, index, Inl e)
     | (fs, Inr metadata) \<Rightarrow> enforce_limits limits (indexed w metadata index) fs)"
  unfolding commit_segment_def commit_file_def indexed_def Let_def ..

lemma commit_rename_cases:
  assumes "commit_rename a b fs = (fs', r)"
  shows "(\<exists>e. r = Inl e \<and> is_storage_failure e \<and> (\<forall>name. name \<noteq> a \<longrightarrow> fs_entries fs' name = fs_entries fs name))
    \<or> (r = Inr () \<and> (\<exists>entry. fs_entries fs a = Some entry \<and> fs_entries fs' = (fs_entries fs)(a := None, b \<mapsto> entry)))"
proof -
  obtain fs1 r1 where rn: "rename_file a b fs = (fs1, r1)" by (metis surj_pair)
  show ?thesis
  proof (cases r1)
    case (Inl e)
    then show ?thesis using assms rn rename_file_Inl [of a b fs fs1 e]
      by (auto simp: commit_rename_def remove_file_other)
  next
    case (Inr u)
    then show ?thesis using assms rn rename_file_Inr [of a b fs fs1 u] by (auto simp: commit_rename_def)
  qed
qed

lemma commit_file_spec:
  assumes "commit_file w fs = (fs', r)" "fs_entries fs (sw_temporary_path w) = Some (Plain c)"
    and "sw_temporary_path w = temporary_name n"
  defines "dest \<equiv> segment_name (sw_sequence w) (sw_start_timestamp_ns w) (sw_end_timestamp_ns w)"
  shows "(\<forall>name. name \<noteq> sw_temporary_path w \<and> name \<noteq> dest \<longrightarrow> fs_entries fs' name = fs_entries fs name)
    \<and> (\<forall>e. r = Inl e \<longrightarrow> is_storage_failure e)
    \<and> (\<forall>metadata. r = Inr metadata \<longrightarrow> metadata = Plain c \<and> fs_entries fs' dest = Some (Plain c))"
proof -
  have s: "sync_directory g = (g', Inl e) \<Longrightarrow> is_storage_failure e" for g g' e
    by (auto simp: sync_directory_def with_context_Inl)
  have p: "with_context ctx fs_probe g = (g', q) \<Longrightarrow> fs_entries g' = fs_entries g \<and> (\<forall>e. q = Inl e \<longrightarrow> is_storage_failure e)"
    for ctx g g' and q :: "replay_spool_error + unit"
    by (cases q) (auto simp: with_context_Inl with_context_Inr dest: probe_entries)
  have m: "with_context ctx (symlink_metadata name) g = (g', q) \<Longrightarrow>
      fs_entries g' = fs_entries g \<and> (\<forall>e. q = Inl e \<longrightarrow> is_storage_failure e) \<and> (\<forall>x. q = Inr x \<longrightarrow> fs_entries g name = Some x)"
    for ctx name g g' q
    by (cases q) (auto simp: with_context_Inl with_context_Inr dest!: symlink_metadata_cases)
  show ?thesis
    using assms(1,2) unfolding commit_file_def Let_def dest_def [symmetric]
  proof (elim then_op_cases, goal_cases)
    case (1 e)
    with p [OF 1(3)] show ?case by auto
  next
    case (2 fs1 x e)
    with p [OF 2(2)] p [OF 2(4)] show ?case by auto
  next
    case (3 fs1 x fs2 y e)
    with p [OF 3(2)] p [OF 3(3)] commit_rename_cases [OF 3(5)] show ?case by auto
  next
    case (4 fs1 x fs2 y fs3 z e)
    with p [OF 4(2)] p [OF 4(3)] commit_rename_cases [OF 4(4)] sync_directory_entries [OF 4(6)] s [of fs3 fs' e]
    show ?case by auto
  next
    case (5 fs1 x fs2 y fs3 z fs4 v)
    with p [OF 5(2)] p [OF 5(3)] commit_rename_cases [OF 5(4)] sync_directory_entries [OF 5(5)] m [OF 5(6)]
    show ?case by auto
  qed
qed

lemma segment_file_small: "segment_ok ps \<Longrightarrow> unat (len_u64 (segment_file ps)) = segment_size ps"
  by (simp add: unat_len_u64 length_segment_file segment_ok_def)

lemma commit_file_index:
  assumes "commit_file w fs = (fs1, q)"
    and "list_all2 (holds_segment fs) (si_segments index) pss" "holds_writer fs (Some w) ps"
    and "timestamps_increase (concat pss @ ps)"
    and "unat (si_active_bytes index) = sum_list (map segment_size pss)" "sum_list (map segment_size pss) < 2 ^ 63"
  shows "list_all2 (holds_segment fs1) (si_segments index) pss"
    and "q = Inl e \<Longrightarrow> is_storage_failure e"
    and "q = Inr metadata \<Longrightarrow> list_all2 (holds_segment fs1) (si_segments (indexed w metadata index)) (pss @ [ps])"
    and "q = Inr metadata \<Longrightarrow> unat (si_active_bytes (indexed w metadata index)) = sum_list (map segment_size (pss @ [ps]))"
proof -
  have w: "segment_ok ps" "fs_entries fs (sw_temporary_path w) = Some (Plain (segment_file ps))"
    "sw_start_timestamp_ns w = pk_timestamp_ns (hd ps)" "unat (sw_end_timestamp_ns w) = packet_end (last ps)"
    "sw_temporary_path w = temporary_name (sw_sequence w)"
    using assms(3) unfolding holds_writer_def by auto
  note cfile = commit_file_spec [OF assms(1) w(2) w(5)]
  have ne: "ps \<noteq> []" using w(1) by (simp add: segment_ok_def)
  show kept: "list_all2 (holds_segment fs1) (si_segments index) pss"
  proof (rule holds_segments_cong [OF assms(2)])
    fix s assume s: "s \<in> set (si_segments index)"
    have "ss_path s \<noteq> segment_name (sw_sequence w) (sw_start_timestamp_ns w) (sw_end_timestamp_ns w)"
      "ss_path s \<noteq> sw_temporary_path w"
      using indexed_earlier [OF assms(4,2) ne s] holds_segment_name [OF assms(2) s] w(3,5) by auto
    then show "fs_entries fs1 (ss_path s) = fs_entries fs (ss_path s)" using cfile by blast
  qed
  show "is_storage_failure e" if "q = Inl e" using cfile that by blast
  assume "q = Inr metadata"
  with cfile have meta: "metadata = Plain (segment_file ps)"
    "fs_entries fs1 (segment_name (sw_sequence w) (sw_start_timestamp_ns w) (sw_end_timestamp_ns w)) = Some (Plain (segment_file ps))"
    by auto
  show "list_all2 (holds_segment fs1) (si_segments (indexed w metadata index)) (pss @ [ps])"
    using kept meta w by (auto simp: indexed_def list_all2_append holds_segment_def segment_file_small
        intro!: list_all2_appendI)
  show "unat (si_active_bytes (indexed w metadata index)) = sum_list (map segment_size (pss @ [ps]))"
    using assms(5,6) w(1) meta(1) by (simp add: indexed_def unat_saturating_add segment_file_small segment_ok_def)
qed

lemma commit_segment_spec:
  assumes "commit_segment limits w index fs = (fs', index', r)"
    and "list_all2 (holds_segment fs) (si_segments index) pss" "holds_writer fs (Some w) ps"
    and "timestamps_increase (concat pss @ ps)"
    and "unat (si_active_bytes index) = sum_list (map segment_size pss)" "sum_list (map segment_size pss) < 2 ^ 63"
  shows "\<exists>pss'. timestamps_increase (concat pss') \<and> list_all2 (holds_segment fs') (si_segments index') pss'
    \<and> (\<forall>u. r = Inr u \<longrightarrow> pss' = longest_suffix (retained limits) (pss @ [ps])
         \<and> unat (si_active_bytes index') = sum_list (map segment_size pss'))
    \<and> (\<forall>e. r = Inl e \<longrightarrow> is_storage_failure e)"
proof -
  obtain fs1 q where q: "commit_file w fs = (fs1, q)" by (metis surj_pair)
  note C = commit_file_index [OF q assms(2-6)]
  show ?thesis
  proof (cases q)
    case (Inl e)
    then have "fs' = fs1" "index' = index" "r = Inl e" using assms(1) q by (simp_all add: commit_segment_alt)
    moreover have "timestamps_increase (concat pss)"
      using assms(4) by (simp add: timestamps_increase_def sorted_wrt_append)
    ultimately show ?thesis using C(1) C(2) [OF Inl] by auto
  next
    case (Inr metadata)
    then have enf: "enforce_limits limits (indexed w metadata index) fs1 = (fs', index', r)"
      using assms(1) q by (simp add: commit_segment_alt)
    have inc: "timestamps_increase (concat (pss @ [ps]))" using assms(4) by simp
    from enforce_limits_spec [OF enf C(3) [OF Inr] inc C(4) [OF Inr]] obtain pss' where spec: "suffix pss' (pss @ [ps])"
      "list_all2 (holds_segment fs') (si_segments index') pss'"
      "\<forall>u. r = Inr u \<longrightarrow> pss' = longest_suffix (retained limits) (pss @ [ps])
         \<and> unat (si_active_bytes index') = sum_list (map segment_size pss')"
      "\<forall>e. r = Inl e \<longrightarrow> is_storage_failure e" by blast
    from spec(1) obtain front where "pss @ [ps] = front @ pss'" by (auto simp: suffix_def)
    then have "concat (pss @ [ps]) = concat front @ concat pss'" by (simp only: concat_append)
    with inc have "timestamps_increase (concat pss')"
      by (simp only: timestamps_increase_def sorted_wrt_append)
    with spec show ?thesis by blast
  qed
qed

text \<open>What holds even after a failure: the indexed segments are complete, and the open file is a temporary.\<close>

definition writes_temporary :: "segment_writer option \<Rightarrow> bool" where
  "writes_temporary current \<longleftrightarrow> (\<forall>w. current = Some w \<longrightarrow> (\<exists>n. sw_temporary_path w = temporary_name n))"

definition intact :: "spool_disk \<Rightarrow> bool" where
  "intact d \<longleftrightarrow> (\<exists>pss. committed (sd_fs d) (si_segments (sd_index d)) pss) \<and> writes_temporary (sd_current d)"

lemma holds_writer_temporary: "holds_writer fs current ps \<Longrightarrow> writes_temporary current"
  by (cases current) (auto simp: holds_writer_def writes_temporary_def)

lemma writes_temporary_simps [simp]: "writes_temporary None"
  "writes_temporary (Some w) \<longleftrightarrow> (\<exists>n. sw_temporary_path w = temporary_name n)"
  by (auto simp: writes_temporary_def)

lemma spool_rel_intact: "spool_rel limits d h \<Longrightarrow> intact d"
  by (auto simp: spool_rel_def intact_def committed_def history_packets_def timestamps_increase_def sorted_wrt_append
      intro: holds_writer_temporary)

lemma retained_bytes: "limits_ok limits \<Longrightarrow> retained limits pss \<Longrightarrow> sum_list (map segment_size pss) < 2 ^ 63"
  by (simp add: limits_ok_def retained_def)

lemma retained_Nil [simp]: "retained limits []"
  by (simp add: retained_def)

lemma seal_refines:
  assumes "spool_rel limits d h" "sd_current d = Some w"
    and "commit_segment limits w (sd_index d) (sd_fs d) = (fs', index', r)"
  shows "intact (d\<lparr>sd_fs := fs', sd_index := index', sd_current := None\<rparr>)"
    and "r = Inr u \<Longrightarrow> spool_rel limits (d\<lparr>sd_fs := fs', sd_index := index', sd_current := None\<rparr>) (seal limits h)"
    and "r = Inl e \<Longrightarrow> is_storage_failure e"
proof -
  have ne: "sh_open h \<noteq> []"
    using assms(1,2) by (auto simp: spool_rel_def holds_writer_def segment_ok_def)
  have *: "\<exists>pss'. timestamps_increase (concat pss') \<and> list_all2 (holds_segment fs') (si_segments index') pss'
    \<and> (\<forall>u. r = Inr u \<longrightarrow> pss' = longest_suffix (retained limits) (sh_closed h @ [sh_open h])
         \<and> unat (si_active_bytes index') = sum_list (map segment_size pss'))
    \<and> (\<forall>e. r = Inl e \<longrightarrow> is_storage_failure e)"
    by (rule commit_segment_spec [OF assms(3)])
      (use assms(1,2) in \<open>auto simp: spool_rel_def history_packets_def dest: retained_bytes\<close>)
  then show "intact (d\<lparr>sd_fs := fs', sd_index := index', sd_current := None\<rparr>)"
    and "r = Inl e \<Longrightarrow> is_storage_failure e"
    by (auto simp: intact_def committed_def)
  show "spool_rel limits (d\<lparr>sd_fs := fs', sd_index := index', sd_current := None\<rparr>) (seal limits h)" if "r = Inr u"
    using * that ne assms(1)
    by (auto simp: spool_rel_def seal_def holds_writer_def history_packets_def longest_suffix_holds)
qed

section \<open>Processing a packet\<close>

lemma writer_facts:
  assumes "holds_writer fs (Some w) ps"
  shows "segment_ok ps" "ps \<noteq> []" "sw_start_timestamp_ns w = pk_timestamp_ns (hd ps)"
    "unat (sw_bytes w) = segment_size ps" "segment_size ps \<le> 33554432"
    "fs_entries fs (sw_temporary_path w) = Some (Plain (segment_file ps))"
    "sw_temporary_path w = temporary_name (sw_sequence w)"
  using assms unfolding holds_writer_def segment_ok_def by auto

lemma record_size_bound: "packet_ok p \<Longrightarrow> record_size p \<le> 8388629"
  by (simp add: record_size_def packet_ok_iff)

lemma unat_grown_bytes:
  assumes "unat b = segment_size ps" "segment_size ps \<le> 33554432" "packet_ok p"
  shows "unat (saturating_add b (record_bytes p)) = segment_size ps + record_size p"
  using assms record_size_bound [of p] by (simp add: unat_saturating_add unat_record_bytes)

lemma should_rotate_iff:
  assumes "holds_writer fs (Some w) ps" "packet_ok p"
  shows "should_rotate p w \<longleftrightarrow> rotates p ps"
  using writer_facts [OF assms(1)] unat_grown_bytes [OF _ _ assms(2), of "sw_bytes w" ps]
  by (simp add: should_rotate_def rotates_def word_le_nat_alt word_less_nat_alt unat_saturating_sub
      TARGET_SEGMENT_NS_def MAX_SEGMENT_BYTES_def)

lemma create_segment_cases:
  assumes "create_segment n t fs = (fs', r)"
  shows "(\<forall>name. name \<noteq> temporary_name n \<longrightarrow> fs_entries fs' name = fs_entries fs name)
    \<and> (\<forall>e. r = Inl e \<longrightarrow> is_storage_failure e)
    \<and> (\<forall>w. r = Inr w \<longrightarrow> w = \<lparr>sw_temporary_path = temporary_name n, sw_start_timestamp_ns = t,
           sw_end_timestamp_ns = t, sw_bytes = len_u64 SEGMENT_MAGIC, sw_sequence = n\<rparr>
         \<and> fs_entries fs' (temporary_name n) = Some (Plain SEGMENT_MAGIC))"
proof -
  define open_tmp where "open_tmp = (\<lambda>fs. case open_new (temporary_name n) fs of
       (fs, Inl e) \<Rightarrow> (if oe_kind e \<noteq> KindAlreadyExists then (fs, Inl e)
          else open_new (temporary_name n) (fst (remove_file (temporary_name n) fs)))
     | (fs, Inr _) \<Rightarrow> (fs, Inr ()))"
  have open_tmp: "(\<forall>name. name \<noteq> temporary_name n \<longrightarrow> fs_entries g' name = fs_entries g name)
      \<and> (\<forall>u. q = Inr u \<longrightarrow> fs_entries g' (temporary_name n) = Some (Plain []))"
    if "open_tmp g = (g', q)" for g g' q
  proof -
    obtain g1 q1 where q1: "open_new (temporary_name n) g = (g1, q1)" by (metis surj_pair)
    obtain g2 q2 where q2: "open_new (temporary_name n) (fst (remove_file (temporary_name n) g1)) = (g2, q2)"
      by (metis surj_pair)
    have 2: "(\<forall>name. name \<noteq> temporary_name n \<longrightarrow> fs_entries g2 name = fs_entries g1 name)
        \<and> (\<forall>u. q2 = Inr u \<longrightarrow> fs_entries g2 (temporary_name n) = Some (Plain []))"
      using q2 by (cases q2) (auto dest!: open_new_Inr open_new_Inl simp: remove_file_other)
    show ?thesis
    proof (cases q1)
      case (Inl e)
      then have "fs_entries g1 = fs_entries g" using q1 by (auto dest: open_new_Inl)
      with Inl q1 q2 2 that show ?thesis by (auto simp: open_tmp_def split: if_splits)
    next
      case (Inr u)
      with q1 that show ?thesis by (auto simp: open_tmp_def dest!: open_new_Inr)
    qed
  qed
  from assms have "then_op (with_context ''could not create Replay segment'' open_tmp) (\<lambda>_.
      then_op (with_context ''could not write Replay segment header'' (append_file (temporary_name n) SEGMENT_MAGIC)) (\<lambda>_ fs.
        (fs, Inr \<lparr>sw_temporary_path = temporary_name n, sw_start_timestamp_ns = t,
           sw_end_timestamp_ns = t, sw_bytes = len_u64 SEGMENT_MAGIC, sw_sequence = n\<rparr>))) fs = (fs', r)"
    by (simp add: create_segment_def open_tmp_def Let_def)
  then show ?thesis
  proof (elim then_op_cases, goal_cases)
    case (1 e)
    then show ?case using open_tmp by (auto simp: with_context_Inl)
  next
    case (2 fs1 x e)
    then show ?case using open_tmp [of fs fs1] append_file_other
      by (auto simp: with_context_Inl with_context_Inr)
  next
    case (3 fs1 x fs2 y)
    then have o1: "open_tmp fs = (fs1, Inr x)" and a: "append_file (temporary_name n) SEGMENT_MAGIC fs1 = (fs2, Inr y)"
      by (simp_all add: with_context_Inr)
    from open_tmp [OF o1] append_file_Inr [OF a] 3 show ?case by auto
  qed
qed

lemma write_record_spec:
  assumes "write_record p w d = (d', r)" "holds_writer (sd_fs d) (Some w) ps \<or> (ps = [] \<and> sw_start_timestamp_ns w = pk_timestamp_ns p
      \<and> pk_keyframe p \<and> unat (sw_bytes w) = 8 \<and> sw_temporary_path w = temporary_name (sw_sequence w)
      \<and> fs_entries (sd_fs d) (sw_temporary_path w) = Some (Plain (segment_file [])))"
    and "packet_ok p" "\<forall>q \<in> set ps. pk_timestamp_ns q < pk_timestamp_ns p"
  shows "(\<forall>name. name \<noteq> sw_temporary_path w \<longrightarrow> fs_entries (sd_fs d') name = fs_entries (sd_fs d) name)
    \<and> sd_index d' = sd_index d
    \<and> (\<forall>b. r = Inr b \<longrightarrow> b \<and> fits p ps \<and> holds_writer (sd_fs d') (sd_current d') (ps @ [p]))
    \<and> (\<forall>e. r = Inl e \<longrightarrow> is_storage_failure e \<or> \<not> fits p ps \<and> d' = d)"
proof -
  have w: "sw_start_timestamp_ns w = pk_timestamp_ns (hd (ps @ [p]))" "unat (sw_bytes w) = segment_size ps"
    "segment_size ps \<le> 33554432" "fs_entries (sd_fs d) (sw_temporary_path w) = Some (Plain (segment_file ps))"
    "sw_temporary_path w = temporary_name (sw_sequence w)" "pk_keyframe (hd (ps @ [p]))" "\<forall>q \<in> set ps. packet_ok q"
    using assms(2) writer_facts [of "sd_fs d" w ps] by (auto simp: segment_ok_def)
  let ?big = "saturating_sub (saturating_add (pk_timestamp_ns p) (pk_duration_ns p)) (sw_start_timestamp_ns w) > MAX_SEGMENT_NS
    \<or> saturating_add (sw_bytes w) (record_bytes p) > MAX_SEGMENT_BYTES"
  have big: "?big \<longleftrightarrow> \<not> fits p ps"
    using w unat_grown_bytes [OF w(2,3) assms(3)] unat_packet_end [OF assms(3)]
    by (simp add: fits_def word_less_nat_alt unat_saturating_sub MAX_SEGMENT_NS_def MAX_SEGMENT_BYTES_def not_le)
  show ?thesis
  proof (cases "fits p ps")
    case False
    then show ?thesis using assms(1) big by (auto simp: write_record_def Let_def)
  next
    case True
    then have nb: "\<not> ?big" using big by simp
    let ?op = "then_op (append_file (sw_temporary_path w) (record_header p)) (\<lambda>_.
        append_file (sw_temporary_path w) (pk_bytes p))"
    obtain fs1 q where q: "with_context ''could not write Replay segment'' ?op (sd_fs d) = (fs1, q)" by (metis surj_pair)
    have other: "fs_entries fs1 name = fs_entries (sd_fs d) name" if "name \<noteq> sw_temporary_path w" for name
      using q that by (cases q) (auto simp: with_context_Inl with_context_Inr then_op_Inl then_op_Inr dest!: append_file_other)
    show ?thesis
    proof (cases q)
      case (Inl e)
      then have "d' = d\<lparr>sd_fs := fs1\<rparr>" "r = Inl e" "is_storage_failure e"
        using assms(1) q nb by (auto simp: write_record_def Let_def with_context_Inl)
      then show ?thesis using other by simp
    next
      case (Inr u)
      then have d': "sd_fs d' = fs1" "sd_index d' = sd_index d" "r = Inr True"
        "sd_current d' = Some (w\<lparr>sw_end_timestamp_ns := saturating_add (pk_timestamp_ns p) (pk_duration_ns p),
          sw_bytes := saturating_add (sw_bytes w) (record_bytes p)\<rparr>)"
        using assms(1) q nb by (auto simp: write_record_def Let_def)
      from q Inr obtain g where a: "append_file (sw_temporary_path w) (record_header p) (sd_fs d) = (g, Inr ())"
        "append_file (sw_temporary_path w) (pk_bytes p) g = (fs1, Inr ())"
        by (auto simp: with_context_Inr then_op_Inr)
      have "fs_entries fs1 (sw_temporary_path w) = Some (Plain (segment_file (ps @ [p])))"
        using append_file_Inr [OF a(1) w(4)] append_file_Inr [OF a(2), of "segment_file ps @ record_header p"]
        by (simp add: segment_file_snoc)
      moreover have "segment_ok (ps @ [p])" using w(6,7) True assms(3)
        by (auto simp: segment_ok_def fits_def)
      ultimately have "holds_writer fs1 (sd_current d') (ps @ [p])"
        using d'(4) w(1,5) unat_packet_end [OF assms(3)] unat_grown_bytes [OF w(2,3) assms(3)]
        by (simp add: holds_writer_def)
      then show ?thesis using d' other True by simp
    qed
  qed
qed

lemma closed_unaffected:
  assumes "list_all2 (holds_segment fs) segments pss" "\<And>name. name \<noteq> temporary_name n \<Longrightarrow> fs_entries fs' name = fs_entries fs name"
  shows "list_all2 (holds_segment fs') segments pss"
  by (rule holds_segments_cong [OF assms(1)], rule assms(2)) (use holds_segment_name [OF assms(1)] in fastforce)

lemma seal_packets: "set (history_packets (seal limits h)) \<subseteq> set (history_packets h)"
  using longest_suffix_suffix [of "retained limits" "sh_closed h @ [sh_open h]"]
  by (auto simp: seal_def history_packets_def suffix_def) (metis UnE UN_I Un_iff set_append set_concat set_ConsD empty_iff list.set(1))

lemma rotate_refines:
  assumes "rotate_segment limits p d = (d', r)" "spool_rel limits d h" "packet_ok p"
  defines "h' \<equiv> if rotates p (sh_open h) then seal limits h else h"
  shows "intact d'" and "r = Inr u \<Longrightarrow> spool_rel limits d' h'" and "r = Inl e \<Longrightarrow> is_storage_failure e"
proof -
  have "intact d' \<and> (\<forall>u. r = Inr u \<longrightarrow> spool_rel limits d' h') \<and> (\<forall>e. r = Inl e \<longrightarrow> is_storage_failure e)"
  proof (cases "sd_current d")
    case None
    then have "\<not> rotates p (sh_open h)" using assms(2) by (auto simp: spool_rel_def holds_writer_def rotates_def)
    then show ?thesis using None assms spool_rel_intact by (auto simp: rotate_segment_def)
  next
    case (Some w)
    then have rot: "should_rotate p w \<longleftrightarrow> rotates p (sh_open h)"
      using assms(2,3) should_rotate_iff [of "sd_fs d" w "sh_open h" p] by (simp add: spool_rel_def)
    obtain fs1 i1 r1 where c: "commit_segment limits w (sd_index d) (sd_fs d) = (fs1, i1, r1)" by (metis prod_cases3)
    show ?thesis
    proof (cases "should_rotate p w")
      case True
      then have "d' = d\<lparr>sd_fs := fs1, sd_index := i1, sd_current := None\<rparr>" "r = r1"
        using assms(1) Some c by (auto simp: rotate_segment_def)
      then show ?thesis using seal_refines [OF assms(2) Some c] True rot by (auto simp: h'_def)
    next
      case False
      then show ?thesis using assms(1,2) Some rot spool_rel_intact by (auto simp: rotate_segment_def h'_def)
    qed
  qed
  then show "intact d'" "r = Inr u \<Longrightarrow> spool_rel limits d' h'" "r = Inl e \<Longrightarrow> is_storage_failure e" by auto
qed

lemma timestamps_append_one:
  "timestamps_increase ps \<Longrightarrow> \<forall>q \<in> set ps. pk_timestamp_ns q < pk_timestamp_ns p \<Longrightarrow> timestamps_increase (ps @ [p])"
  by (simp add: timestamps_increase_def sorted_wrt_append)

lemma append_refines:
  assumes "write_record p w d = (d', r)" "spool_rel limits d0 h" "sd_index d = sd_index d0" "sd_current d = Some w"
    and "\<And>name. name \<noteq> temporary_name n \<Longrightarrow> fs_entries (sd_fs d) name = fs_entries (sd_fs d0) name"
    and "holds_writer (sd_fs d) (Some w) (sh_open h) \<or> (sh_open h = [] \<and> sw_start_timestamp_ns w = pk_timestamp_ns p
      \<and> pk_keyframe p \<and> unat (sw_bytes w) = 8 \<and> sw_temporary_path w = temporary_name (sw_sequence w)
      \<and> fs_entries (sd_fs d) (sw_temporary_path w) = Some (Plain (segment_file [])))"
    and "packet_ok p" "\<forall>q \<in> set (history_packets h). pk_timestamp_ns q < pk_timestamp_ns p"
  shows "intact d'" and "r = Inr b \<Longrightarrow> b \<and> fits p (sh_open h) \<and> spool_rel limits d' (h\<lparr>sh_open := sh_open h @ [p]\<rparr>)"
    and "r = Inl e \<Longrightarrow> is_storage_failure e \<or> \<not> fits p (sh_open h) \<and> d' = d"
proof -
  have sub: "\<forall>q \<in> set (sh_open h). pk_timestamp_ns q < pk_timestamp_ns p"
    using assms(8) by (simp add: history_packets_def)
  note spec = write_record_spec [OF assms(1,6,7) sub]
  obtain k where k: "sw_temporary_path w = temporary_name k" using assms(6) writer_facts(7) by blast
  have c0: "list_all2 (holds_segment (sd_fs d0)) (si_segments (sd_index d)) (sh_closed h)"
    using assms(2,3) by (simp add: spool_rel_def)
  have "list_all2 (holds_segment (sd_fs d)) (si_segments (sd_index d)) (sh_closed h)"
    by (rule closed_unaffected [OF c0 assms(5)])
  then have c: "list_all2 (holds_segment (sd_fs d')) (si_segments (sd_index d')) (sh_closed h)"
    using closed_unaffected [of "sd_fs d" _ _ k "sd_fs d'"] spec k by simp
  have ti: "timestamps_increase (history_packets h)" using assms(2) by (simp add: spool_rel_def)
  moreover have "writes_temporary (sd_current d')"
    using assms(1,4) k by (auto simp: write_record_def Let_def split: if_splits prod.splits sum.splits)
  ultimately show "intact d'" using c
    by (auto simp: intact_def committed_def history_packets_def timestamps_increase_def sorted_wrt_append)
  have "timestamps_increase (history_packets (h\<lparr>sh_open := sh_open h @ [p]\<rparr>))"
    using timestamps_append_one [OF ti assms(8)] by (simp add: history_packets_def)
  then show "b \<and> fits p (sh_open h) \<and> spool_rel limits d' (h\<lparr>sh_open := sh_open h @ [p]\<rparr>)" if "r = Inr b"
    using that spec c assms(2,3) by (auto simp: spool_rel_def)
  show "is_storage_failure e \<or> \<not> fits p (sh_open h) \<and> d' = d" if "r = Inl e" using that spec by blast
qed

lemma fits_fresh: "packet_ok p \<Longrightarrow> fits p []"
  using record_size_bound [of p] by (simp add: fits_def packet_end_def packet_ok_iff)

lemma process_packet_refines:
  assumes "process_packet limits p d = (d', r)" "spool_rel limits d h" "packet_ok p"
    and "\<forall>q \<in> set (history_packets h). pk_timestamp_ns q < pk_timestamp_ns p"
  shows "intact d' \<and>
    (case r of Inr b \<Rightarrow> \<exists>h'. history_append limits p h = (h', if b then Appended else AwaitingKeyframe) \<and> spool_rel limits d' h'
     | Inl e \<Rightarrow> is_storage_failure e \<or> (history_append limits p h = (h, NoKeyframeInBound) \<and> d' = d))"
proof -
  define h1 where "h1 = (if rotates p (sh_open h) then seal limits h else h)"
  obtain d1 r1 where rot: "rotate_segment limits p d = (d1, r1)" by (metis surj_pair)
  note R = rotate_refines [OF rot assms(2,3), folded h1_def]
  have app: "history_append limits p h = (if sh_open h1 = [] \<and> \<not> pk_keyframe p then (h1, AwaitingKeyframe)
      else if fits p (sh_open h1) then (h1\<lparr>sh_open := sh_open h1 @ [p]\<rparr>, Appended) else (h1, NoKeyframeInBound))"
    by (simp add: history_append_def h1_def Let_def)
  have later: "\<forall>q \<in> set (history_packets h1). pk_timestamp_ns q < pk_timestamp_ns p"
    using assms(4) seal_packets [of limits h] by (auto simp: h1_def)
  show ?thesis
  proof (cases r1)
    case (Inl e)
    then have "d' = d1" "r = Inl e" using assms(1) rot by (auto simp: process_packet_def)
    then show ?thesis using R(1) R(3) [OF Inl] by simp
  next
    case (Inr u)
    note rel = R(2) [OF Inr]
    show ?thesis
    proof (cases "sd_current d1")
      case (Some w)
      have wr: "write_record p w d1 = (d', r)"
        using assms(1) rot Inr Some by (simp add: process_packet_def open_segment_def)
      have hw: "holds_writer (sd_fs d1) (Some w) (sh_open h1)" using rel Some by (simp add: spool_rel_def)
      then have ne: "sh_open h1 \<noteq> []" using writer_facts(2) by blast
      note A = append_refines [OF wr rel refl Some refl disjI1 [OF hw] assms(3) later]
      have nf: "h1 = h \<and> d1 = d" if "\<not> fits p (sh_open h1)"
      proof -
        have "\<not> rotates p (sh_open h)"
          using ne by (auto simp: h1_def seal_def split: if_splits)
        moreover from this have "d1 = d" using rot assms(2,3)
          by (auto simp: rotate_segment_def spool_rel_def should_rotate_iff split: option.splits)
        ultimately show ?thesis by (simp add: h1_def)
      qed
      show ?thesis using A app ne nf by (cases r) auto
    next
      case None
      then have op: "sh_open h1 = []" using rel by (simp add: spool_rel_def holds_writer_def)
      show ?thesis
      proof (cases "pk_keyframe p")
        case False
        then have "d' = d1\<lparr>sd_index := (sd_index d1)\<lparr>si_dropped_awaiting_keyframe :=
              saturating_add (si_dropped_awaiting_keyframe (sd_index d1)) 1\<rparr>\<rparr>" "r = Inr False"
          using assms(1) rot Inr None by (auto simp: process_packet_def open_segment_def)
        then show ?thesis using rel app op False None
          by (auto simp: spool_rel_def intact_def committed_def history_packets_def timestamps_increase_def sorted_wrt_append)
      next
        case True
        obtain fs1 q where q: "create_segment (sd_next_sequence d1) (pk_timestamp_ns p) (sd_fs d1) = (fs1, q)"
          by (metis surj_pair)
        note C = create_segment_cases [OF q]
        show ?thesis
        proof (cases q)
          case (Inl e)
          then have d': "d' = d1\<lparr>sd_fs := fs1\<rparr>" "r = Inl e"
            using assms(1) rot Inr None True q by (auto simp: process_packet_def open_segment_def)
          have "list_all2 (holds_segment fs1) (si_segments (sd_index d1)) (sh_closed h1)"
            by (rule closed_unaffected [of "sd_fs d1" _ _ "sd_next_sequence d1"]) (use rel C in \<open>simp_all add: spool_rel_def\<close>)
          then have "intact d'" using rel d' None
            by (auto simp: intact_def committed_def spool_rel_def history_packets_def timestamps_increase_def sorted_wrt_append)
          then show ?thesis using d' C Inl by simp
        next
          case (Inr w)
          let ?d2 = "d1\<lparr>sd_fs := fs1, sd_current := Some w, sd_next_sequence := saturating_add (sd_next_sequence d1) 1\<rparr>"
          have wr: "write_record p w ?d2 = (d', r)"
            using assms(1) rot \<open>r1 = Inr u\<close> None True q Inr by (simp add: process_packet_def open_segment_def)
          have "sh_open h1 = [] \<and> sw_start_timestamp_ns w = pk_timestamp_ns p \<and> pk_keyframe p \<and> unat (sw_bytes w) = 8
            \<and> sw_temporary_path w = temporary_name (sw_sequence w)
            \<and> fs_entries (sd_fs ?d2) (sw_temporary_path w) = Some (Plain (segment_file []))"
            using C Inr op True by (simp add: segment_file_def unat_len_u64 SEGMENT_MAGIC_def)
          note A = append_refines [OF wr rel _ _ _ disjI2 [OF this] assms(3) later, of "sd_next_sequence d1"]
          have "fs_entries (sd_fs ?d2) name = fs_entries (sd_fs d1) name" if "name \<noteq> temporary_name (sd_next_sequence d1)" for name
            using C that by simp
          with A show ?thesis using app op True fits_fresh [OF assms(3)] by (cases r) auto
        qed
      qed
    qed
  qed
qed

section \<open>Epoch reset\<close>

lemma clear_loop_Inr: "clear_loop segments fs = (fs', rest, Inr u) \<Longrightarrow> rest = []"
  by (induction segments fs rule: clear_loop.induct) (auto split: prod.splits sum.splits)

lemma clear_refines:
  assumes "clear_completed_segments index fs = (fs', index', Inr u)"
  shows "si_segments index' = []" "si_active_bytes index' = 0"
  using assms by (auto simp: clear_completed_segments_def Let_def split: prod.splits sum.splits if_splits dest: clear_loop_Inr)

lemma clear_loop_intact:
  assumes "clear_loop segments fs = (fs', rest, r)"
    and "list_all2 (holds_segment fs) segments pss" "timestamps_increase (concat pss)"
  shows "\<exists>pss'. list_all2 (holds_segment fs') rest pss' \<and> timestamps_increase (concat pss')"
  using assms
proof (induction segments fs arbitrary: pss rule: clear_loop.induct)
  case (2 s segments fs)
  then obtain ps rest' where pss: "pss = ps # rest'" and h: "holds_segment fs s ps"
    and hs: "list_all2 (holds_segment fs) segments rest'" by (auto simp: list_all2_Cons1)
  obtain fs1 q where q: "with_context ''could not remove Replay segment from old epoch'' (remove_file (ss_path s)) fs = (fs1, q)"
    by (metis surj_pair)
  have other: "fs_entries fs1 name = fs_entries fs name" if "name \<noteq> ss_path s" for name
    using q that by (cases q) (auto simp: with_context_Inl with_context_Inr dest!: remove_file_Inl remove_file_Inr)
  note R = without_first_segment [OF h hs 2(4) [unfolded pss], of fs1]
  have hs1: "list_all2 (holds_segment fs1) segments rest'" and ti: "timestamps_increase (concat rest')"
    using R other by simp_all
  show ?case
  proof (cases q)
    case (Inl e)
    then show ?thesis using 2(2) q hs1 ti by auto
  next
    case (Inr v)
    then have "clear_loop segments fs1 = (fs', rest, r)" using 2(2) q by simp
    from 2(1) [OF q [symmetric] Inr this hs1 ti] show ?thesis .
  qed
qed auto

lemma clear_intact:
  assumes "clear_completed_segments (sd_index d) fs = (fs', index', r)" "spool_rel limits d h"
    and "\<And>name. name \<noteq> temporary_name n \<Longrightarrow> fs_entries fs name = fs_entries (sd_fs d) name"
    and "writes_temporary (sd_current d')"
  shows "intact (d'\<lparr>sd_fs := fs', sd_index := index'\<rparr>)"
proof -
  have c: "list_all2 (holds_segment fs) (si_segments (sd_index d)) (sh_closed h)" "timestamps_increase (concat (sh_closed h))"
    using assms(2,3) by (auto simp: spool_rel_def history_packets_def timestamps_increase_def sorted_wrt_append
        intro: closed_unaffected [where fs = "sd_fs d"])
  obtain fs1 rest q where loop: "clear_loop (si_segments (sd_index d)) fs = (fs1, rest, q)" by (metis prod_cases3)
  from clear_loop_intact [OF loop c] obtain pss' where "list_all2 (holds_segment fs1) rest pss'"
    "timestamps_increase (concat pss')" by blast
  moreover have "si_segments index' = rest" "fs_entries fs' = fs_entries fs1"
    using assms(1) loop by (auto simp: clear_completed_segments_def Let_def split: sum.splits prod.splits if_splits
        dest: sync_directory_entries)
  ultimately show ?thesis using holds_segments_cong [of fs1 rest pss' fs'] assms(4) by (auto simp: intact_def committed_def)
qed

section \<open>Snapshots\<close>

definition recent_segments :: "replay_duration \<Rightarrow> encoded_replay_packet list list \<Rightarrow> encoded_replay_packet list list" where
  "recent_segments requested pss =
     rev (takeWhile (\<lambda>ps. packet_end (last ps) > packet_end (last (last pss))
       - unat (duration_seconds requested) * 1000000000) (rev pss))"

text \<open>Less than a second of history.\<close>

definition too_short :: "replay_duration \<Rightarrow> encoded_replay_packet list list \<Rightarrow> bool" where
  "too_short requested pss \<longleftrightarrow> recent_segments requested pss = []
     \<or> packet_end (last (last pss)) - unat (pk_timestamp_ns (hd (hd (recent_segments requested pss)))) < 1000000000"

lemma list_all2_takeWhile:
  "list_all2 R xs ys \<Longrightarrow> (\<And>x y. R x y \<Longrightarrow> P x \<longleftrightarrow> Q y) \<Longrightarrow> list_all2 R (takeWhile P xs) (takeWhile Q ys)"
  by (induction rule: list_all2_induct) auto

lemma duration_ns: "unat (ucast (duration_seconds d) * NANOSECONDS_PER_SECOND :: u64) = unat (duration_seconds d) * 1000000000"
  by (cases d) (simp_all add: NANOSECONDS_PER_SECOND_def)

lemma plan_snapshot_spec:
  assumes "list_all2 (holds_segment fs) (si_segments index) pss"
  shows "case plan_snapshot index requested of
     Inl e \<Rightarrow> too_short requested pss \<and> \<not> is_storage_failure e
   | Inr plan \<Rightarrow> \<not> too_short requested pss \<and> list_all2 (holds_segment fs) (sp_segments plan) (recent_segments requested pss)"
proof (cases "si_segments index = []")
  case True
  then show ?thesis using assms
    by (simp add: plan_snapshot_def too_short_def recent_segments_def spool_error_new_def is_storage_failure_def)
next
  case False
  then have ne: "pss \<noteq> []" using assms by auto
  define newest where "newest = last (si_segments index)"
  define cutoff where "cutoff = saturating_sub (ss_end_timestamp_ns newest)
     (ucast (duration_seconds requested) * NANOSECONDS_PER_SECOND)"
  define segments where "segments = rev (takeWhile (\<lambda>s. ss_end_timestamp_ns s > cutoff) (rev (si_segments index)))"
  have "holds_segment fs newest (last pss)"
    using assms False ne by (simp add: newest_def last_conv_nth list_all2_conv_all_nth)
  then have en: "unat (ss_end_timestamp_ns newest) = packet_end (last (last pss))" by (simp add: holds_segment_def)
  then have cut: "unat cutoff = packet_end (last (last pss)) - unat (duration_seconds requested) * 1000000000"
    by (simp add: cutoff_def unat_saturating_sub duration_ns)
  have all: "list_all2 (holds_segment fs) segments (recent_segments requested pss)"
    unfolding segments_def recent_segments_def list_all2_rev
    by (rule list_all2_takeWhile) (use assms in \<open>auto simp: holds_segment_def word_less_nat_alt cut\<close>)
  define available where "available = (case segments of [] \<Rightarrow> 0
     | first # _ \<Rightarrow> saturating_sub (ss_end_timestamp_ns newest) (ss_start_timestamp_ns first))"
  have "available < MIN_SAVABLE_HISTORY_NS \<longleftrightarrow> too_short requested pss"
  proof (cases segments)
    case Nil
    then show ?thesis using all by (simp add: available_def too_short_def MIN_SAVABLE_HISTORY_NS_def NANOSECONDS_PER_SECOND_def)
  next
    case (Cons s rest)
    then obtain ps qss where "recent_segments requested pss = ps # qss" "holds_segment fs s ps"
      using all by (auto simp: list_all2_Cons1)
    then show ?thesis using Cons en
      by (simp add: available_def too_short_def MIN_SAVABLE_HISTORY_NS_def NANOSECONDS_PER_SECOND_def
          word_less_nat_alt unat_saturating_sub holds_segment_def)
  qed
  moreover have "plan_snapshot index requested = (if available < MIN_SAVABLE_HISTORY_NS then Inl insufficient_history
      else Inr \<lparr>sp_segments = segments, sp_requested_duration = requested,
        sp_available_duration_ns = available, sp_generation = si_generation index\<rparr>)"
    using False unfolding plan_snapshot_def Let_def available_def segments_def cutoff_def newest_def by simp
  ultimately show ?thesis using all by (simp add: insufficient_history_def is_storage_failure_def)
qed

lemma open_snapshot_segment_spec:
  assumes "open_snapshot_segment s fs = (fs', r)" "holds_segment fs s ps"
  shows "fs_entries fs' = fs_entries fs \<and> (\<forall>c. r = Inr c \<longrightarrow> c = segment_file ps) \<and> (\<forall>e. r = Inl e \<longrightarrow> is_storage_failure e)"
proof -
  have h: "fs_entries fs (ss_path s) = Some (Plain (segment_file ps))" "len_u64 (segment_file ps) = ss_bytes s"
    using assms(2) segment_file_small [of ps] unfolding holds_segment_def by (auto simp: word_eq_iff_unat)
  show ?thesis
    using assms(1) unfolding open_snapshot_segment_def
  proof (elim then_op_cases, goal_cases)
    case (1 e)
    then show ?case by (auto simp: with_context_Inl dest!: symlink_metadata_cases)
  next
    case (2 fs1 metadata)
    then have m: "fs_entries fs1 = fs_entries fs" "metadata = Plain (segment_file ps)"
      using h by (auto simp: with_context_Inr dest!: symlink_metadata_cases)
    then have "then_op (with_context ''could not open Replay snapshot segment'' (open_read (ss_path s))) (\<lambda>file.
        then_op (with_context ''could not inspect opened snapshot'' fs_probe) (\<lambda>_ fs.
          if len_u64 file \<noteq> ss_bytes s then (fs, Inl (spool_error_new ''Replay snapshot changed while opening''))
          else (fs, Inr file))) fs1 = (fs', r)"
      using 2(2) h by simp
    then show ?case
    proof (elim then_op_cases, goal_cases)
      case (1 e)
      then show ?case using m by (auto simp: with_context_Inl dest!: open_read_cases)
    next
      case (2 fs2 c e)
      then show ?case using m by (auto simp: with_context_Inl with_context_Inr dest!: open_read_cases probe_entries)
    next
      case (3 fs2 c fs3 u)
      then show ?case using m h by (auto simp: with_context_Inr dest!: open_read_cases probe_entries)
    qed
  qed
qed

lemma open_snapshot_segments_spec:
  assumes "open_snapshot_segments segments fs = (fs', r)" "list_all2 (holds_segment fs) segments pss"
  shows "fs_entries fs' = fs_entries fs
    \<and> (\<forall>opened. r = Inr opened \<longrightarrow> map fst opened = segments \<and> map snd opened = map segment_file pss)
    \<and> (\<forall>e. r = Inl e \<longrightarrow> is_storage_failure e)"
  using assms
proof (induction segments arbitrary: fs fs' pss r)
  case (Cons s segments)
  then obtain ps rest where pss: "pss = ps # rest" "holds_segment fs s ps"
    "list_all2 (holds_segment fs) segments rest" by (auto simp: list_all2_Cons1)
  from Cons.prems(1) have "then_op (open_snapshot_segment s) (\<lambda>file.
     then_op (open_snapshot_segments segments) (\<lambda>opened fs. (fs, Inr ((s, file) # opened)))) fs = (fs', r)" by simp
  then show ?case
  proof (elim then_op_cases, goal_cases)
    case (1 e)
    then show ?case using open_snapshot_segment_spec [OF 1(2) pss(2)] by auto
  next
    case (2 fs1 c e)
    note one = open_snapshot_segment_spec [OF 2(1) pss(2)]
    then have "list_all2 (holds_segment fs1) segments rest" using pss(3) by (auto intro: holds_segments_cong)
    from Cons.IH [OF 2(3) this] one 2(2) show ?case by auto
  next
    case (3 fs1 c fs2 opened)
    note one = open_snapshot_segment_spec [OF 3(1) pss(2)]
    then have "list_all2 (holds_segment fs1) segments rest" using pss(3) by (auto intro: holds_segments_cong)
    from Cons.IH [OF 3(2) this] one 3(3) pss(1) show ?case by auto
  qed
qed simp

lemma pin_snapshot_refines:
  assumes "pin_snapshot limits requested d = (d', r)" "spool_rel limits d h"
  defines "h' \<equiv> seal limits h"
  shows "intact d' \<and>
    (case r of
       Inr opened \<Rightarrow> spool_rel limits d' h' \<and> \<not> too_short requested (sh_closed h')
         \<and> list_all2 (holds_segment (sd_fs d')) (map fst opened) (recent_segments requested (sh_closed h'))
         \<and> map snd opened = map segment_file (recent_segments requested (sh_closed h'))
     | Inl e \<Rightarrow> is_storage_failure e \<or> spool_rel limits d' h' \<and> too_short requested (sh_closed h'))"
proof -
  obtain d1 r1 where c: "(case sd_current d of
      Some writer \<Rightarrow> (case commit_segment limits writer (sd_index d) (sd_fs d) of
         (fs, index, r) \<Rightarrow> (d\<lparr>sd_fs := fs, sd_index := index, sd_current := None\<rparr>, r))
    | None \<Rightarrow> (d, Inr ())) = (d1, r1)" by (metis surj_pair)
  have s: "intact d1 \<and> (\<forall>u. r1 = Inr u \<longrightarrow> spool_rel limits d1 h') \<and> (\<forall>e. r1 = Inl e \<longrightarrow> is_storage_failure e)"
  proof (cases "sd_current d")
    case None
    then have "h' = h" using assms(2) by (simp add: spool_rel_def holds_writer_def h'_def seal_def)
    then show ?thesis using None c assms(2) spool_rel_intact by auto
  next
    case (Some w)
    obtain fs1 i1 q where q: "commit_segment limits w (sd_index d) (sd_fs d) = (fs1, i1, q)" by (metis prod_cases3)
    with c Some have "d1 = d\<lparr>sd_fs := fs1, sd_index := i1, sd_current := None\<rparr>" "r1 = q" by auto
    then show ?thesis using seal_refines [OF assms(2) Some q] by (auto simp: h'_def)
  qed
  show ?thesis
  proof (cases r1)
    case (Inl e)
    then show ?thesis using assms(1) c s by (auto simp: pin_snapshot_def)
  next
    case (Inr u)
    then have rel: "spool_rel limits d1 h'" using s by simp
    then have all: "list_all2 (holds_segment (sd_fs d1)) (si_segments (sd_index d1)) (sh_closed h')"
      by (simp add: spool_rel_def)
    note P = plan_snapshot_spec [OF all, of requested]
    show ?thesis
    proof (cases "plan_snapshot (sd_index d1) requested")
      case (Inl e)
      then have "d' = d1" "r = Inl e" using assms(1) c Inr by (auto simp: pin_snapshot_def)
      then show ?thesis using P Inl rel s by simp
    next
      case (Inr plan)
      obtain fs2 q where q: "open_snapshot_segments (sp_segments plan) (sd_fs d1) = (fs2, q)" by (metis surj_pair)
      have d': "d' = d1\<lparr>sd_fs := fs2\<rparr>" "r = q" using assms(1) c \<open>r1 = Inr u\<close> Inr q by (auto simp: pin_snapshot_def)
      have sel: "list_all2 (holds_segment (sd_fs d1)) (sp_segments plan) (recent_segments requested (sh_closed h'))"
        and long: "\<not> too_short requested (sh_closed h')" using P Inr by simp_all
      note O = open_snapshot_segments_spec [OF q sel]
      have cong: "holds_segment fs2 = holds_segment (sd_fs d1)" "holds_writer fs2 = holds_writer (sd_fs d1)"
        using O by (auto simp: fun_eq_iff holds_segment_def holds_writer_def split: option.splits)
      then have "spool_rel limits d' h'" using rel d' by (simp add: spool_rel_def)
      then show ?thesis using O d' sel long cong spool_rel_intact by (cases q) auto
    qed
  qed
qed

section \<open>On a healthy disk\<close>

text \<open>Without faults of the file system no operation reports a storage failure.\<close>

definition healthy :: "spool_fs \<Rightarrow> bool" where
  "healthy fs \<longleftrightarrow> (\<forall>n. fs_fault fs n = None)"

definition keeps_health :: "('e, 'a) fs_op \<Rightarrow> bool" where
  "keeps_health m \<longleftrightarrow> (\<forall>fs fs' r. m fs = (fs', r) \<longrightarrow> healthy fs \<longrightarrow> healthy fs')"

lemma fs_call_healthy: "healthy fs \<Longrightarrow> fs_call m fs = m (fs\<lparr>fs_calls := Suc (fs_calls fs)\<rparr>)"
  by (simp add: fs_call_def healthy_def)

lemma healthy_update [simp]: "healthy (fs\<lparr>fs_calls := n\<rparr>) = healthy fs" "healthy (fs\<lparr>fs_entries := m\<rparr>) = healthy fs"
  by (simp_all add: healthy_def)

lemma keeps_health_call: "(\<And>fs fs' r. m fs = (fs', r) \<Longrightarrow> healthy fs \<Longrightarrow> healthy fs') \<Longrightarrow> keeps_health (fs_call m)"
  unfolding keeps_health_def by (metis fs_call_healthy healthy_update(1))

lemma keeps_health_calls:
  "keeps_health fs_probe" "keeps_health (open_new name)" "keeps_health (append_file name bs)"
  "keeps_health (rename_file name name')" "keeps_health (remove_file name)" "keeps_health (symlink_metadata name)"
  "keeps_health (open_read name)"
  unfolding fs_probe_def open_new_def append_file_def rename_file_def remove_file_def symlink_metadata_def open_read_def
  by (rule keeps_health_call; auto split: option.splits spool_entry.splits)+

lemma keeps_health_with_context: "keeps_health m \<Longrightarrow> keeps_health (with_context c m)"
  by (auto simp: keeps_health_def with_context_def split: prod.splits)

lemma keeps_health_then: "keeps_health m \<Longrightarrow> (\<And>x. keeps_health (f x)) \<Longrightarrow> keeps_health (then_op m f)"
  unfolding keeps_health_def by (metis then_op_cases)

lemma keeps_health_sync: "keeps_health sync_directory"
  using keeps_health_with_context [OF keeps_health_then [OF keeps_health_calls(1) keeps_health_calls(1)]]
  by (simp add: sync_directory_def)

lemma healthy_after: "keeps_health m \<Longrightarrow> healthy fs \<Longrightarrow> m fs = (fs', r) \<Longrightarrow> healthy fs'"
  by (auto simp: keeps_health_def)

lemma probe_healthy: "healthy fs \<Longrightarrow> \<exists>fs'. fs_probe fs = (fs', Inr ()) \<and> healthy fs'"
  by (simp add: fs_probe_def fs_call_healthy)

lemma sync_healthy: "healthy fs \<Longrightarrow> \<exists>fs'. sync_directory fs = (fs', Inr ()) \<and> healthy fs'"
  using probe_healthy [of fs] probe_healthy by (fastforce simp: sync_directory_def with_context_Inr then_op_Inr)

lemma remove_healthy: "healthy fs \<Longrightarrow> fs_entries fs name = Some x \<Longrightarrow> \<exists>fs'. remove_file name fs = (fs', Inr ()) \<and> healthy fs'"
  by (simp add: remove_file_def fs_call_healthy)

lemma append_healthy: "healthy fs \<Longrightarrow> \<exists>fs'. append_file name bs fs = (fs', Inr ()) \<and> healthy fs'"
  by (simp add: append_file_def fs_call_healthy split: option.split spool_entry.split)

lemma enforce_loop_healthy:
  assumes "enforce_loop limits segments active removed fs = (fs', segments', active', r)" "healthy fs"
    and "list_all2 (holds_segment fs) segments pss" "timestamps_increase (concat pss)"
    and "unat active = sum_list (map segment_size pss)"
  shows "(\<exists>b. r = Inr b) \<and> healthy fs'"
  using assms
proof (induction limits segments active removed fs arbitrary: pss rule: enforce_loop.induct)
  case (1 limits active removed fs)
  then show ?case by (auto simp: over_limits_def word_less_nat_alt)
next
  case (2 limits s segments active removed fs)
  then obtain ps rest where pss: "pss = ps # rest" and h: "holds_segment fs s ps"
    and hs: "list_all2 (holds_segment fs) segments rest" by (auto simp: list_all2_Cons1)
  show ?case
  proof (cases "over_limits limits (s # segments) active")
    case False
    then show ?thesis using 2 by auto
  next
    case over: True
    obtain fs1 where rm: "remove_file (ss_path s) fs = (fs1, Inr ())" "healthy fs1"
      using remove_healthy [OF 2(3)] h by (auto simp: holds_segment_def)
    then have wc: "with_context ''could not remove expired Replay segment'' (remove_file (ss_path s)) fs = (fs1, Inr ())"
      by (simp add: with_context_Inr)
    note R = without_first_segment [OF h hs 2(5) [unfolded pss], of fs1]
    have hs1: "list_all2 (holds_segment fs1) segments rest" and ti: "timestamps_increase (concat rest)"
      using R by (simp_all add: remove_file_Inr [OF rm(1)])
    have ab: "unat (saturating_sub active (ss_bytes s)) = sum_list (map segment_size rest)"
      using 2(6) pss h by (simp add: unat_saturating_sub holds_segment_def)
    have "enforce_loop limits segments (saturating_sub active (ss_bytes s)) True fs1 = (fs', segments', active', r)"
      using 2(2) over wc by simp
    from 2(1) [OF over wc [symmetric] refl this rm(2) hs1 ti ab] show ?thesis .
  qed
qed

lemma enforce_limits_healthy:
  assumes "enforce_limits limits index fs = (fs', index', r)" "healthy fs"
    and "list_all2 (holds_segment fs) (si_segments index) pss" "timestamps_increase (concat pss)"
    and "unat (si_active_bytes index) = sum_list (map segment_size pss)"
  shows "r = Inr () \<and> healthy fs'"
proof -
  obtain fs1 segments active r1 where loop:
    "enforce_loop limits (si_segments index) (si_active_bytes index) False fs = (fs1, segments, active, r1)"
    by (metis prod_cases4)
  from enforce_loop_healthy [OF this assms(2-5)] obtain b where "r1 = Inr b" "healthy fs1" by blast
  then show ?thesis using assms(1) loop sync_healthy [of fs1]
    by (auto simp: enforce_limits_def Let_def split: if_splits)
qed

lemma commit_file_healthy:
  assumes "healthy fs" "fs_entries fs (sw_temporary_path w) = Some x"
  shows "\<exists>fs' metadata. commit_file w fs = (fs', Inr metadata) \<and> healthy fs'"
proof -
  let ?dest = "segment_name (sw_sequence w) (sw_start_timestamp_ns w) (sw_end_timestamp_ns w)"
  obtain fs1 where 1: "fs_probe fs = (fs1, Inr ())" "healthy fs1" using probe_healthy [OF assms(1)] by blast
  obtain fs2 where 2: "fs_probe fs1 = (fs2, Inr ())" "healthy fs2" using probe_healthy [OF 1(2)] by blast
  have e: "fs_entries fs2 (sw_temporary_path w) = Some x"
    using assms(2) probe_entries [OF 1(1)] probe_entries [OF 2(1)] by simp
  let ?fs3 = "fs2\<lparr>fs_calls := Suc (fs_calls fs2), fs_entries := (fs_entries fs2)(sw_temporary_path w := None, ?dest \<mapsto> x)\<rparr>"
  have 3: "commit_rename (sw_temporary_path w) ?dest fs2 = (?fs3, Inr ())"
    using e 2(2) by (simp add: commit_rename_def rename_file_def fs_call_healthy)
  obtain fs4 where 4: "sync_directory ?fs3 = (fs4, Inr ())" "healthy fs4" using sync_healthy [of ?fs3] 2(2) by auto
  have "fs_entries fs4 ?dest = Some x" using sync_directory_entries [OF 4(1)] by simp
  then have 5: "symlink_metadata ?dest fs4 = (fs4\<lparr>fs_calls := Suc (fs_calls fs4)\<rparr>, Inr x)"
    using 4(2) by (simp add: symlink_metadata_def fs_call_healthy)
  have "commit_file w fs = (fs4\<lparr>fs_calls := Suc (fs_calls fs4)\<rparr>, Inr x)"
    unfolding commit_file_def Let_def then_op_Inr with_context_Inr using 1 2 3 4 5 by blast
  then show ?thesis using 4(2) by auto
qed

lemma commit_segment_healthy:
  assumes "commit_segment limits w (sd_index d) (sd_fs d) = (fs', index', r)" "spool_rel limits d h"
    and "sd_current d = Some w" "healthy (sd_fs d)"
  shows "r = Inr () \<and> healthy fs'"
proof -
  have hw: "holds_writer (sd_fs d) (Some w) (sh_open h)" using assms(2,3) by (simp add: spool_rel_def)
  obtain fs1 metadata where cf: "commit_file w (sd_fs d) = (fs1, Inr metadata)" "healthy fs1"
    using commit_file_healthy [OF assms(4)] writer_facts(6) [OF hw] by blast
  have enf: "enforce_limits limits (indexed w metadata (sd_index d)) fs1 = (fs', index', r)"
    using assms(1) cf(1) by (simp add: commit_segment_alt)
  note C = commit_file_index [OF cf(1) _ hw, of "sd_index d" "sh_closed h"]
  show ?thesis
    by (rule enforce_limits_healthy [OF enf cf(2) C(3) _ C(4)])
      (use assms(2) in \<open>auto simp: spool_rel_def history_packets_def dest: retained_bytes\<close>)
qed


lemma create_segment_healthy:
  assumes "healthy fs"
  shows "\<exists>fs' w. create_segment n t fs = (fs', Inr w) \<and> healthy fs'"
proof -
  let ?t = "temporary_name n"
  have "\<exists>fs1. (case open_new ?t fs of
      (fs, Inl e) \<Rightarrow> (if oe_kind e \<noteq> KindAlreadyExists then (fs, Inl e) else open_new ?t (fst (remove_file ?t fs)))
    | (fs, Inr _) \<Rightarrow> (fs, Inr ())) = (fs1, Inr ()) \<and> healthy fs1"
    using assms by (auto simp: open_new_def remove_file_def fs_call_healthy already_exists_def split: option.split)
  then obtain fs1 where 1: "(case open_new ?t fs of
      (fs, Inl e) \<Rightarrow> (if oe_kind e \<noteq> KindAlreadyExists then (fs, Inl e) else open_new ?t (fst (remove_file ?t fs)))
    | (fs, Inr _) \<Rightarrow> (fs, Inr ())) = (fs1, Inr ())" "healthy fs1" by blast
  obtain fs2 where 2: "append_file ?t SEGMENT_MAGIC fs1 = (fs2, Inr ())" "healthy fs2" using append_healthy [OF 1(2)] by blast
  show ?thesis
    unfolding create_segment_def Let_def then_op_Inr with_context_Inr using 1 2 by blast
qed

lemma write_record_healthy:
  assumes "write_record p w d = (d', r)" "healthy (sd_fs d)"
  shows "healthy (sd_fs d') \<and> (\<forall>e. r = Inl e \<longrightarrow> \<not> is_storage_failure e)"
proof -
  obtain fs1 where 1: "append_file (sw_temporary_path w) (record_header p) (sd_fs d) = (fs1, Inr ())" "healthy fs1"
    using append_healthy [OF assms(2)] by blast
  obtain fs2 where 2: "append_file (sw_temporary_path w) (pk_bytes p) fs1 = (fs2, Inr ())" "healthy fs2"
    using append_healthy [OF 1(2)] by blast
  have "with_context ''could not write Replay segment'' (then_op (append_file (sw_temporary_path w) (record_header p)) (\<lambda>_.
      append_file (sw_temporary_path w) (pk_bytes p))) (sd_fs d) = (fs2, Inr ())"
    unfolding with_context_Inr then_op_Inr using 1 2 by blast
  then show ?thesis using assms 2(2)
    by (auto simp: write_record_def Let_def spool_error_new_def is_storage_failure_def split: if_splits)
qed

lemma process_packet_healthy:
  assumes "process_packet limits p d = (d', r)" "spool_rel limits d h" "packet_ok p" "healthy (sd_fs d)"
  shows "healthy (sd_fs d') \<and> (\<forall>e. r = Inl e \<longrightarrow> \<not> is_storage_failure e)"
proof -
  obtain d1 r1 where rot: "rotate_segment limits p d = (d1, r1)" by (metis surj_pair)
  have 1: "r1 = Inr () \<and> healthy (sd_fs d1)"
  proof (cases "sd_current d")
    case (Some w)
    obtain fs1 i1 q where c: "commit_segment limits w (sd_index d) (sd_fs d) = (fs1, i1, q)" by (metis prod_cases3)
    from commit_segment_healthy [OF c assms(2) Some assms(4)] rot Some c assms(4) show ?thesis
      by (auto simp: rotate_segment_def split: if_splits)
  qed (use rot assms(4) in \<open>auto simp: rotate_segment_def\<close>)
  obtain d2 r2 where op: "open_segment p d1 = (d2, r2)" by (metis surj_pair)
  have 2: "(\<exists>x. r2 = Inr x) \<and> healthy (sd_fs d2)"
    using op 1 create_segment_healthy [of "sd_fs d1" "sd_next_sequence d1" "pk_timestamp_ns p"]
    by (auto simp: open_segment_def split: option.splits if_splits)
  then show ?thesis using assms(1) rot 1 op
    by (auto simp: process_packet_def split: option.splits dest!: write_record_healthy)
qed

lemma open_snapshot_segment_healthy:
  assumes "healthy fs" "holds_segment fs s ps"
  shows "\<exists>fs' c. open_snapshot_segment s fs = (fs', Inr c) \<and> healthy fs'"
proof -
  have h: "fs_entries fs (ss_path s) = Some (Plain (segment_file ps))" "len_u64 (segment_file ps) = ss_bytes s"
    using assms(2) segment_file_small [of ps] unfolding holds_segment_def by (auto simp: word_eq_iff_unat)
  then show ?thesis using assms(1)
    by (simp add: open_snapshot_segment_def then_op_def with_context_def symlink_metadata_def open_read_def fs_probe_def
        fs_call_healthy)
qed

lemma open_snapshot_segments_healthy:
  assumes "healthy fs" "list_all2 (holds_segment fs) segments pss"
  shows "\<exists>fs' opened. open_snapshot_segments segments fs = (fs', Inr opened) \<and> healthy fs'"
  using assms
proof (induction segments arbitrary: fs pss)
  case (Cons s segments)
  then obtain ps rest where pss: "holds_segment fs s ps" "list_all2 (holds_segment fs) segments rest"
    by (auto simp: list_all2_Cons1)
  obtain fs1 c where 1: "open_snapshot_segment s fs = (fs1, Inr c)" "healthy fs1"
    using open_snapshot_segment_healthy [OF Cons.prems(1) pss(1)] by blast
  have "list_all2 (holds_segment fs1) segments rest"
    using open_snapshot_segment_spec [OF 1(1) pss(1)] pss(2) by (auto intro: holds_segments_cong)
  from Cons.IH [OF 1(2) this] obtain fs2 opened where
    2: "open_snapshot_segments segments fs1 = (fs2, Inr opened)" "healthy fs2" by blast
  then show ?case using 1(1) by (auto simp: then_op_Inr)
qed simp

lemma pin_snapshot_healthy:
  assumes "pin_snapshot limits requested d = (d', r)" "spool_rel limits d h" "healthy (sd_fs d)"
  shows "healthy (sd_fs d') \<and> (\<forall>e. r = Inl e \<longrightarrow> \<not> is_storage_failure e)"
proof -
  obtain d1 r1 where c: "(case sd_current d of
      Some writer \<Rightarrow> (case commit_segment limits writer (sd_index d) (sd_fs d) of
         (fs, index, r) \<Rightarrow> (d\<lparr>sd_fs := fs, sd_index := index, sd_current := None\<rparr>, r))
    | None \<Rightarrow> (d, Inr ())) = (d1, r1)" by (metis surj_pair)
  have 1: "r1 = Inr () \<and> healthy (sd_fs d1) \<and> spool_rel limits d1 (seal limits h)"
  proof (cases "sd_current d")
    case None
    then have "seal limits h = h" using assms(2) by (simp add: spool_rel_def holds_writer_def seal_def)
    then show ?thesis using None c assms by auto
  next
    case (Some w)
    obtain fs1 i1 q where q: "commit_segment limits w (sd_index d) (sd_fs d) = (fs1, i1, q)" by (metis prod_cases3)
    with c Some have "d1 = d\<lparr>sd_fs := fs1, sd_index := i1, sd_current := None\<rparr>" "r1 = q" by auto
    then show ?thesis using commit_segment_healthy [OF q assms(2) Some assms(3)] seal_refines(2) [OF assms(2) Some q]
      by simp
  qed
  then have all: "list_all2 (holds_segment (sd_fs d1)) (si_segments (sd_index d1)) (sh_closed (seal limits h))"
    by (simp add: spool_rel_def)
  show ?thesis
  proof (cases "plan_snapshot (sd_index d1) requested")
    case (Inl e)
    then show ?thesis using plan_snapshot_spec [OF all, of requested] assms(1) c 1 by (auto simp: pin_snapshot_def)
  next
    case (Inr plan)
    then have "list_all2 (holds_segment (sd_fs d1)) (sp_segments plan) (recent_segments requested (sh_closed (seal limits h)))"
      using plan_snapshot_spec [OF all, of requested] by simp
    from open_snapshot_segments_healthy [OF _ this] 1 obtain fs2 opened where
      "open_snapshot_segments (sp_segments plan) (sd_fs d1) = (fs2, Inr opened)" "healthy fs2" by blast
    then show ?thesis using assms(1) c 1 Inr by (auto simp: pin_snapshot_def)
  qed
qed

lemma clear_loop_healthy:
  assumes "clear_loop segments fs = (fs', rest, r)" "healthy fs"
    and "list_all2 (holds_segment fs) segments pss" "timestamps_increase (concat pss)"
  shows "r = Inr () \<and> healthy fs'"
  using assms
proof (induction segments fs arbitrary: pss rule: clear_loop.induct)
  case (2 s segments fs)
  then obtain ps rest' where pss: "pss = ps # rest'" and h: "holds_segment fs s ps"
    and hs: "list_all2 (holds_segment fs) segments rest'" by (auto simp: list_all2_Cons1)
  obtain fs1 where rm: "remove_file (ss_path s) fs = (fs1, Inr ())" "healthy fs1"
    using remove_healthy [OF 2(3)] h by (auto simp: holds_segment_def)
  then have wc: "with_context ''could not remove Replay segment from old epoch'' (remove_file (ss_path s)) fs = (fs1, Inr ())"
    by (simp add: with_context_Inr)
  note R = without_first_segment [OF h hs 2(5) [unfolded pss], of fs1]
  have hs1: "list_all2 (holds_segment fs1) segments rest'" and ti: "timestamps_increase (concat rest')"
    using R by (simp_all add: remove_file_Inr [OF rm(1)])
  have "clear_loop segments fs1 = (fs', rest, r)" using 2(2) wc by simp
  from 2(1) [OF wc [symmetric] refl this rm(2) hs1 ti] show ?case .
qed auto

lemma clear_healthy:
  assumes "clear_completed_segments index fs = (fs', index', r)" "healthy fs"
    and "list_all2 (holds_segment fs) (si_segments index) pss" "timestamps_increase (concat pss)"
  shows "r = Inr () \<and> healthy fs'"
proof -
  obtain fs1 rest q where loop: "clear_loop (si_segments index) fs = (fs1, rest, q)" by (metis prod_cases3)
  from clear_loop_healthy [OF this assms(2-4)] show ?thesis
    using assms(1) loop sync_healthy [of fs1] by (auto simp: clear_completed_segments_def Let_def split: if_splits)
qed

end
