(* ===== verification/Spool_Reader.thy ===== *)
theory Spool_Reader
  imports Spool_History
begin

text \<open>
  Reading a disk snapshot back, \<open>redunar-daemon/src/replay_spool_reader.rs\<close>: the scan of the pinned
  segment files into a bounded index of records, and the packet source that loads one payload at a time.
  A pinned file is its contents. The environment answers the \<open>n\<close>-th load of the cancel flag and the \<open>n\<close>-th
  file operation. The scan's suffix policy is proved to be the one of the in-memory ring.
\<close>

section \<open>The scan\<close>

definition READER_MAX_PACKET_BYTES :: u32 where "READER_MAX_PACKET_BYTES = 8 * 1024 * 1024"

record reader_env =
  re_cancel :: "nat \<Rightarrow> bool"
  re_fault :: "nat \<Rightarrow> string option"

record spool_record =
  rc_file :: nat
  rc_offset :: u64
  rc_timestamp :: u64
  rc_duration :: u64
  rc_keyframe :: bool
  rc_bytes :: u32

definition invalid_record :: string where "invalid_record = ''invalid Replay snapshot record''"
definition save_cancelled :: string where "save_cancelled = ''Replay save cancelled''"

record scan_state =
  sn_records :: "spool_record list"
  sn_bytes :: u64
  sn_previous :: "u64 option"
  sn_loads :: nat
  sn_ops :: nat

definition file_op :: "reader_env \<Rightarrow> nat \<Rightarrow> string + unit" where
  "file_op env n = (case re_fault env n of None \<Rightarrow> Inr () | Some e \<Rightarrow> Inl e)"

definition read_exact :: "nat \<Rightarrow> nat \<Rightarrow> u8 list \<Rightarrow> string + u8 list" where
  "read_exact off n contents = (if off + n \<le> length contents then Inr (slice off n contents)
     else Inl ''failed to fill whole buffer'')"

fun trim_records :: "replay_settings \<Rightarrow> u64 \<Rightarrow> spool_record list \<Rightarrow> u64 \<Rightarrow> spool_record list \<times> u64" where
  "trim_records settings end_ns [] bytes = ([], bytes)"
| "trim_records settings end_ns (first # rest) bytes =
     (let budget = budget_from_settings settings
      in if length (first # rest) > unat (bu_frame_capacity budget) \<or> bytes > bu_maximum_ring_bytes budget
            \<or> saturating_sub end_ns (rc_timestamp first) > ucast (duration_seconds (rs_duration settings)) * 1000000000
            \<or> \<not> rc_keyframe first
         then trim_records settings end_ns rest (bytes - ucast (rc_bytes first))
         else (first # rest, bytes))"

text \<open>One round of the loop over a file: the state and the offset of the next record.\<close>

definition scan_record :: "reader_env \<Rightarrow> replay_settings \<Rightarrow> nat \<Rightarrow> u8 list \<Rightarrow> u64 \<Rightarrow> u64 \<Rightarrow> scan_state \<Rightarrow>
    string + (scan_state \<times> u64)" where
  "scan_record env settings file_index contents segment_bytes offset s =
     (if re_cancel env (sn_loads s) then Inl save_cancelled
      else and_then (file_op env (sn_ops s)) (\<lambda>_. and_then (read_exact (unat offset) 21 contents) (\<lambda>header.
        let timestamp = u64_from_le_bytes (slice 0 8 header);
            duration = u64_from_le_bytes (slice 8 8 header);
            len = u32_from_le_bytes (slice 17 4 header);
            flag = header ! 16
        in and_then (ok_or (checked_add timestamp duration) invalid_record) (\<lambda>end_ns.
           and_then (ok_or (checked_add offset 21) invalid_record) (\<lambda>offset.
           and_then (ok_or (checked_add offset (ucast len)) invalid_record) (\<lambda>next_offset.
             if flag > 1 \<or> duration = 0 \<or> duration > 1000000000 \<or> len = 0 \<or> len > READER_MAX_PACKET_BYTES
                \<or> next_offset > segment_bytes
                \<or> (case sn_previous s of None \<Rightarrow> False | Some prev \<Rightarrow> timestamp \<le> prev)
             then Inl invalid_record
             else if ucast len > bu_maximum_ring_bytes (budget_from_settings settings) then Inl invalid_record
             else
               let s = s\<lparr>sn_previous := Some timestamp, sn_loads := sn_loads s + 1, sn_ops := sn_ops s + 2\<rparr>;
                   s = (if sn_records s \<noteq> [] \<or> flag = 1
                        then (case trim_records settings end_ns (sn_records s @ [\<lparr>rc_file = file_index, rc_offset = offset,
                                rc_timestamp = timestamp, rc_duration = duration, rc_keyframe = (flag = 1),
                                rc_bytes = len\<rparr>]) (sn_bytes s + ucast len) of
                              (records, bytes) \<Rightarrow> s\<lparr>sn_records := records, sn_bytes := bytes\<rparr>)
                        else s)
               in and_then (file_op env (sn_ops s - 1)) (\<lambda>_. Inr (s, next_offset))))))))"

lemma scan_record_advances:
  assumes "scan_record env settings k contents segment_bytes offset s = Inr (s', next_offset)"
  shows "unat offset < unat next_offset \<and> unat next_offset \<le> unat segment_bytes"
  using assms
  by (auto simp: scan_record_def Let_def result_iffs checked_add_Some word_le_nat_alt word_less_nat_alt split: if_splits)

function scan_file :: "reader_env \<Rightarrow> replay_settings \<Rightarrow> nat \<Rightarrow> u8 list \<Rightarrow> u64 \<Rightarrow> u64 \<Rightarrow> scan_state \<Rightarrow> string + scan_state" where
  "scan_file env settings k contents segment_bytes offset s =
     (if offset < segment_bytes
      then (case scan_record env settings k contents segment_bytes offset s of
              Inl e \<Rightarrow> Inl e
            | Inr (s, next_offset) \<Rightarrow> scan_file env settings k contents segment_bytes next_offset s)
      else Inr s)"
  by pat_completeness auto
termination
  by (relation "measure (\<lambda>(_, _, _, _, n, offset, _). unat n - unat offset)")
    (auto dest!: scan_record_advances)

declare scan_file.simps [simp del]

fun scan_segments :: "reader_env \<Rightarrow> replay_settings \<Rightarrow> nat \<Rightarrow> (replay_spool_segment \<times> u8 list) list \<Rightarrow> scan_state \<Rightarrow>
    string + scan_state" where
  "scan_segments env settings k [] s = Inr s"
| "scan_segments env settings k ((segment, contents) # rest) s =
     and_then (file_op env (sn_ops s)) (\<lambda>_. and_then (read_exact 0 8 contents) (\<lambda>magic.
       if magic \<noteq> SEGMENT_MAGIC then Inl invalid_record
       else and_then (file_op env (sn_ops s + 1)) (\<lambda>_.
         if len_u64 contents \<noteq> ss_bytes segment then Inl invalid_record
         else and_then (scan_file env settings k contents (ss_bytes segment) 8 (s\<lparr>sn_ops := sn_ops s + 2\<rparr>)) (\<lambda>s.
           scan_segments env settings (k + 1) rest s))))"

section \<open>The packet source\<close>

record spool_packets =
  sq_files :: "u8 list list"
  sq_records :: "spool_record list"
  sq_window :: "u64 \<times> u64"
  sq_env :: reader_env
  sq_loads :: nat
  sq_ops :: nat

definition spool_scan :: "(replay_spool_segment \<times> u8 list) list \<Rightarrow> replay_settings \<Rightarrow> reader_env \<Rightarrow>
    string + spool_packets" where
  "spool_scan segments settings env =
     and_then (scan_segments env settings 0 segments
       \<lparr>sn_records = [], sn_bytes = 0, sn_previous = None, sn_loads = 0, sn_ops = 0\<rparr>) (\<lambda>s.
       case sn_records s of
         [] \<Rightarrow> Inl invalid_record
       | first # _ \<Rightarrow>
           (let lst = last (sn_records s)
            in Inr \<lparr>sq_files = map snd segments, sq_records = sn_records s,
                 sq_window = (rc_timestamp first, rc_timestamp lst + rc_duration lst),
                 sq_env = env, sq_loads = sn_loads s, sq_ops = sn_ops s\<rparr>))"

definition spool_check_cancel :: "spool_packets \<Rightarrow> string + spool_packets" where
  "spool_check_cancel src = (if re_cancel (sq_env src) (sq_loads src) then Inl save_cancelled
     else Inr (src\<lparr>sq_loads := sq_loads src + 1\<rparr>))"

definition spool_next_packet :: "spool_packets \<Rightarrow> string + (encoded_replay_packet option \<times> spool_packets)" where
  "spool_next_packet src = and_then (spool_check_cancel src) (\<lambda>src.
     case sq_records src of
       [] \<Rightarrow> Inr (None, src)
     | r # rest \<Rightarrow>
         (let contents = sq_files src ! rc_file r;
              src = src\<lparr>sq_records := rest, sq_ops := sq_ops src + 2\<rparr>
          in and_then (file_op (sq_env src) (sq_ops src - 2)) (\<lambda>_.
             and_then (file_op (sq_env src) (sq_ops src - 1)) (\<lambda>_.
             and_then (read_exact (unat (rc_offset r)) (unat (rc_bytes r)) contents) (\<lambda>bytes.
             and_then (map_err (\<lambda>_. invalid_record)
               (packet_new (rc_timestamp r) (rc_duration r) (rc_keyframe r) bytes)) (\<lambda>packet.
               Inr (Some packet, src)))))))"

text \<open>Pulling every packet, as the muxers do.\<close>

function drain_packets :: "spool_packets \<Rightarrow> string + encoded_replay_packet list" where
  "drain_packets src = (case spool_next_packet src of
       Inl e \<Rightarrow> Inl e
     | Inr (None, _) \<Rightarrow> Inr []
     | Inr (Some packet, src) \<Rightarrow> and_then (drain_packets src) (\<lambda>rest. Inr (packet # rest)))"
  by pat_completeness auto
termination
  by (relation "measure (\<lambda>src. length (sq_records src))")
    (auto simp: spool_next_packet_def spool_check_cancel_def Let_def result_iffs split: if_splits list.splits)

declare drain_packets.simps [simp del]

section \<open>Specification: the rolling suffix\<close>

definition within_budget :: "replay_settings \<Rightarrow> encoded_replay_packet list \<Rightarrow> bool" where
  "within_budget settings ps \<longleftrightarrow> length ps \<le> unat (bu_frame_capacity (budget_from_settings settings))
     \<and> payload ps \<le> unat (bu_maximum_ring_bytes (budget_from_settings settings))
     \<and> \<not> span_exceeds ps (ucast (duration_seconds (rs_duration settings)) * 1000000000)
     \<and> keyframe_start ps"

text \<open>After every packet, the longest suffix with \<open>P\<close> of what was kept so far and the packet.\<close>

definition rolling :: "('a list \<Rightarrow> bool) \<Rightarrow> 'a list \<Rightarrow> 'a list" where
  "rolling P xs = foldl (\<lambda>acc x. longest_suffix P (acc @ [x])) [] xs"

lemma rolling_simps [simp]: "rolling P [] = []" "rolling P (xs @ [x]) = longest_suffix P (rolling P xs @ [x])"
  by (simp_all add: rolling_def)

lemma rolling_suffix: "suffix (rolling P xs) xs"
proof (induction xs rule: rev_induct)
  case (snoc x xs)
  then have "suffix (rolling P xs @ [x]) (xs @ [x])" by (auto simp: suffix_def)
  then show ?case using longest_suffix_suffix [of P "rolling P xs @ [x]"] suffix_order.trans by (simp, blast)
qed simp

lemma rolling_last: "rolling P xs \<noteq> [] \<Longrightarrow> last (rolling P xs) = last xs"
  using rolling_suffix [of P xs] by (metis last_appendR suffix_def)

lemma rolling_holds: "P [] \<Longrightarrow> P (rolling P xs)"
  by (cases xs rule: rev_cases) (auto simp: longest_suffix_holds)


lemma longest_suffix_nonempty: "longest_suffix P xs \<noteq> [] \<Longrightarrow> P (longest_suffix P xs)"
  by (induction xs) (auto split: if_splits)

lemma longest_suffix_squeeze:
  assumes "suffix (longest_suffix P ys) zs" "suffix zs ys"
  shows "longest_suffix P zs = longest_suffix P ys"
proof (rule suffix_order.antisym)
  show "suffix (longest_suffix P ys) (longest_suffix P zs)"
    using assms(1) longest_suffix_nonempty [of P ys] by (cases "longest_suffix P ys = []") (auto intro: longest_suffix_maximal)
  show "suffix (longest_suffix P zs) (longest_suffix P ys)"
    using longest_suffix_suffix [of P zs] assms(2) longest_suffix_nonempty [of P zs]
    by (cases "longest_suffix P zs = []") (auto intro: longest_suffix_maximal suffix_order.trans)
qed

text \<open>For a condition that survives dropping the newest element, it is the longest suffix with \<open>P\<close>.\<close>

lemma rolling_longest:
  assumes "\<And>zs ys x ws. xs = zs @ ys @ [x] @ ws \<Longrightarrow> P (ys @ [x]) \<Longrightarrow> P ys"
  shows "rolling P xs = longest_suffix P xs"
  using assms
proof (induction xs rule: rev_induct)
  case (snoc x xs)
  have ih: "rolling P xs = longest_suffix P xs"
    by (rule snoc.IH) (use snoc.prems in \<open>metis append.assoc\<close>)
  let ?k = "longest_suffix P xs"
  have "suffix (longest_suffix P (xs @ [x])) (?k @ [x])"
  proof (cases "longest_suffix P (xs @ [x])" rule: rev_cases)
    case (snoc ys y)
    obtain zs where zs: "xs @ [x] = zs @ ys @ [y]"
      using longest_suffix_suffix [of P "xs @ [x]"] snoc by (auto simp: suffix_def)
    then have eq: "y = x" "xs = zs @ ys" by (metis append.assoc append1_eq_conv)+
    have "P (ys @ [y])"
      using longest_suffix_nonempty [of P "xs @ [x]"] snoc by simp
    then have "P ys" using snoc.prems [of zs ys x "[]"] eq by simp
    then have "suffix ys ?k" using eq by (intro longest_suffix_maximal) (simp_all add: suffix_def)
    then show ?thesis using snoc eq by (auto simp: suffix_def)
  qed simp
  then have "longest_suffix P (?k @ [x]) = longest_suffix P (xs @ [x])"
    by (rule longest_suffix_squeeze) (use longest_suffix_suffix [of P xs] in \<open>auto simp: suffix_def\<close>)
  then show ?case by (simp add: ih)
qed simp

section \<open>The scan computes the rolling suffix\<close>

definition denotes :: "u8 list list \<Rightarrow> spool_record \<Rightarrow> encoded_replay_packet \<Rightarrow> bool" where
  "denotes files r p \<longleftrightarrow> rc_file r < length files \<and> rc_timestamp r = pk_timestamp_ns p
     \<and> rc_duration r = pk_duration_ns p \<and> rc_keyframe r = pk_keyframe p \<and> unat (rc_bytes r) = length (pk_bytes p)
     \<and> unat (rc_offset r) + length (pk_bytes p) \<le> length (files ! rc_file r)
     \<and> slice (unat (rc_offset r)) (length (pk_bytes p)) (files ! rc_file r) = pk_bytes p"

definition reader_calm :: "reader_env \<Rightarrow> bool" where
  "reader_calm env \<longleftrightarrow> (\<forall>n. \<not> re_cancel env n) \<and> (\<forall>n. re_fault env n = None)"

lemma file_op_calm [simp]: "reader_calm env \<Longrightarrow> file_op env n = Inr ()"
  by (simp add: reader_calm_def file_op_def)

lemma span_exceeds_last:
  "ps \<noteq> [] \<Longrightarrow> span_exceeds ps limit \<longleftrightarrow>
     saturating_sub (saturating_add (pk_timestamp_ns (last ps)) (pk_duration_ns (last ps))) (pk_timestamp_ns (hd ps)) > limit"
  by (simp add: span_exceeds_def history_span_def)

lemma within_budget_Nil [simp]: "within_budget settings []"
  by (simp add: within_budget_def span_exceeds_def)

lemma trim_records_spec:
  assumes "list_all2 (denotes files) rs ps" "unat bytes = payload ps"
    and "ps \<noteq> [] \<Longrightarrow> end_ns = saturating_add (pk_timestamp_ns (last ps)) (pk_duration_ns (last ps))"
  shows "list_all2 (denotes files) (fst (trim_records settings end_ns rs bytes)) (longest_suffix (within_budget settings) ps)
    \<and> unat (snd (trim_records settings end_ns rs bytes)) = payload (longest_suffix (within_budget settings) ps)"
  using assms
proof (induction settings end_ns rs bytes arbitrary: ps rule: trim_records.induct)
  case (2 settings end_ns r rs bytes)
  then obtain p qs where ps: "ps = p # qs" "denotes files r p" "list_all2 (denotes files) rs qs"
    by (auto simp: list_all2_Cons1)
  let ?b = "budget_from_settings settings"
  let ?c = "length (r # rs) > unat (bu_frame_capacity ?b) \<or> bytes > bu_maximum_ring_bytes ?b
    \<or> saturating_sub end_ns (rc_timestamp r) > ucast (duration_seconds (rs_duration settings)) * 1000000000
    \<or> \<not> rc_keyframe r"
  have r: "rc_timestamp r = pk_timestamp_ns p" "rc_keyframe r = pk_keyframe p" "unat (rc_bytes r) = length (pk_bytes p)"
    using ps(2) by (simp_all add: denotes_def)
  have en: "end_ns = saturating_add (pk_timestamp_ns (last ps)) (pk_duration_ns (last ps))" using 2(4) ps(1) by simp
  have "span_exceeds ps (ucast (duration_seconds (rs_duration settings)) * 1000000000) \<longleftrightarrow>
      saturating_sub end_ns (rc_timestamp r) > ucast (duration_seconds (rs_duration settings)) * 1000000000"
    using ps(1) en r(1) by (simp add: span_exceeds_last)
  then have c: "?c \<longleftrightarrow> \<not> within_budget settings ps"
    using ps(1) r list_all2_lengthD [OF ps(3)] 2(3)
    by (simp add: within_budget_def word_less_nat_alt not_le)
  show ?case
  proof (cases ?c)
    case True
    have u: "unat (ucast (rc_bytes r) :: u64) = length (pk_bytes p)" using r(3) by (simp add: unat_ucast_widen)
    then have "unat (bytes - ucast (rc_bytes r)) = payload qs"
      using 2(3) ps(1) by (simp add: unat_sub_if_size word_le_nat_alt)
    moreover have "qs \<noteq> [] \<Longrightarrow> end_ns = saturating_add (pk_timestamp_ns (last qs)) (pk_duration_ns (last qs))"
      using en ps(1) by simp
    ultimately have "list_all2 (denotes files) (fst (trim_records settings end_ns rs (bytes - ucast (rc_bytes r))))
        (longest_suffix (within_budget settings) qs)
      \<and> unat (snd (trim_records settings end_ns rs (bytes - ucast (rc_bytes r)))) = payload (longest_suffix (within_budget settings) qs)"
      using 2(1) [OF refl True ps(3)] by blast
    then show ?thesis using True c ps(1) by (simp add: Let_def)
  next
    case False
    then have "trim_records settings end_ns (r # rs) bytes = (r # rs, bytes)" by (auto simp: Let_def)
    then show ?thesis using False c 2(2,3) ps(1) by (simp add: longest_suffix_id)
  qed
qed simp


definition scan_inv :: "replay_settings \<Rightarrow> u8 list list \<Rightarrow> encoded_replay_packet list \<Rightarrow> scan_state \<Rightarrow> bool" where
  "scan_inv settings files ps s \<longleftrightarrow>
     list_all2 (denotes files) (sn_records s) (rolling (within_budget settings) ps)
     \<and> unat (sn_bytes s) = payload (rolling (within_budget settings) ps)
     \<and> sn_previous s = (if ps = [] then None else Some (pk_timestamp_ns (last ps)))"

lemma ring_bytes_bound: "unat (bu_maximum_ring_bytes (budget_from_settings settings)) \<le> 9900000000"
proof -
  have "unat (duration_seconds (rs_duration settings)) * unat (target_megabits_per_second (rs_quality settings)) \<le> 900 * 40"
    by (rule mul_bound [OF seconds_bound bitrate_bound])
  then show ?thesis by (simp add: budget_ring_bytes)
qed

lemma header_fields:
  assumes "packet_ok p"
  shows "length (record_header p) = 21" "u64_from_le_bytes (slice 0 8 (record_header p)) = pk_timestamp_ns p"
    "u64_from_le_bytes (slice 8 8 (record_header p)) = pk_duration_ns p"
    "unat (u32_from_le_bytes (slice 17 4 (record_header p))) = length (pk_bytes p)"
    "record_header p ! 16 = of_bool (pk_keyframe p)"
proof -
  have "unat (unwrap_or (try_from (length (pk_bytes p))) (- 1) :: u32) = length (pk_bytes p)"
    using assms by (simp add: unat_try_from_max packet_ok_iff)
  then show "unat (u32_from_le_bytes (slice 17 4 (record_header p))) = length (pk_bytes p)"
    by (simp add: record_header_def slice_layout)
qed (simp_all add: record_header_def slice_layout nth_append)

lemma scan_record_spec:
  assumes "reader_calm env" "scan_inv settings files ps s" "packet_ok p"
    and "ps \<noteq> [] \<Longrightarrow> pk_timestamp_ns (last ps) < pk_timestamp_ns p"
    and "length (pk_bytes p) \<le> unat (bu_maximum_ring_bytes (budget_from_settings settings))"
    and "k < length files" "files ! k = pre @ packet_record p @ post"
    and "unat offset = length pre" "unat segment_bytes = length (files ! k)"
  shows "\<exists>s' next_offset. scan_record env settings k (files ! k) segment_bytes offset s = Inr (s', next_offset)
    \<and> unat next_offset = length pre + record_size p \<and> scan_inv settings files (ps @ [p]) s'"
proof -
  let ?len = "u32_from_le_bytes (slice 17 4 (record_header p))"
  note H = header_fields [OF assms(3)]
  have len: "unat (ucast ?len :: u64) = length (pk_bytes p)" using H(4) by (simp add: unat_ucast_widen)
  have pk: "pk_bytes p \<noteq> []" "length (pk_bytes p) \<le> 8388608" "0 < unat (pk_duration_ns p)"
    "unat (pk_duration_ns p) \<le> 1000000000" "unat (pk_timestamp_ns p) + unat (pk_duration_ns p) < 2 ^ 64"
    using assms(3) by (simp_all add: packet_ok_iff)
  have total: "length pre + record_size p \<le> unat segment_bytes"
    using assms(7,9) by (simp add: length_packet_record)
  then have fit: "length pre + 21 + length (pk_bytes p) < 2 ^ 64"
    using unat_lt_2p [of segment_bytes] by (simp add: record_size_def)
  have rd: "read_exact (unat offset) 21 (files ! k) = Inr (record_header p)"
    using assms(7,8) H(1) by (simp add: read_exact_def packet_record_def slice_layout)
  define off where "off = offset + 21"
  have off: "checked_add offset 21 = Some off" "unat off = length pre + 21"
    using fit assms(8) by (simp_all add: checked_add_def off_def unat_word_ariths)
  define nxt where "nxt = off + ucast ?len"
  have nxt: "checked_add off (ucast ?len) = Some nxt" "unat nxt = length pre + record_size p"
    using fit off(2) len by (simp_all add: checked_add_def nxt_def unat_word_ariths record_size_def)
  define en where "en = pk_timestamp_ns p + pk_duration_ns p"
  have en: "checked_add (pk_timestamp_ns p) (pk_duration_ns p) = Some en"
    "en = saturating_add (pk_timestamp_ns p) (pk_duration_ns p)"
    using pk(5) by (simp_all add: checked_add_def saturating_add_def en_def)
  let ?r = "\<lparr>rc_file = k, rc_offset = off, rc_timestamp = pk_timestamp_ns p, rc_duration = pk_duration_ns p,
    rc_keyframe = (of_bool (pk_keyframe p) = (1 :: u8)), rc_bytes = ?len\<rparr>"
  have key: "(of_bool (pk_keyframe p) = (1 :: u8)) = pk_keyframe p" "\<not> of_bool (pk_keyframe p) > (1 :: u8)" by simp_all
  have "slice (length pre + 21) (length (pk_bytes p)) (files ! k) = pk_bytes p"
    using assms(7) H(1) by (simp add: packet_record_def slice_layout)
  then have den: "denotes files ?r p"
    using assms(6,7) off(2) H(4) key total assms(9) by (simp add: denotes_def record_size_def)
  have bounds: "\<not> (of_bool (pk_keyframe p) > (1 :: u8) \<or> pk_duration_ns p = 0 \<or> pk_duration_ns p > 1000000000 \<or> ?len = 0 \<or> ?len > READER_MAX_PACKET_BYTES
      \<or> nxt > segment_bytes \<or> (case sn_previous s of None \<Rightarrow> False | Some prev \<Rightarrow> pk_timestamp_ns p \<le> prev))"
    using pk H(4) nxt(2) total assms(2,4) key(2)
    by (auto simp: word_less_nat_alt word_le_nat_alt READER_MAX_PACKET_BYTES_def scan_inv_def unat_eq_0 split: if_splits)
  have small: "\<not> ucast ?len > bu_maximum_ring_bytes (budget_from_settings settings)"
    using assms(5) len by (simp add: word_less_nat_alt)
  define s1 where "s1 = s\<lparr>sn_previous := Some (pk_timestamp_ns p), sn_loads := sn_loads s + 1, sn_ops := sn_ops s + 2\<rparr>"
  define s2 where "s2 = (if sn_records s1 \<noteq> [] \<or> of_bool (pk_keyframe p) = (1 :: u8)
     then (case trim_records settings en (sn_records s1 @ [?r]) (sn_bytes s1 + ucast ?len) of
        (records, bytes) \<Rightarrow> s1\<lparr>sn_records := records, sn_bytes := bytes\<rparr>) else s1)"
  have calm: "\<not> re_cancel env n" for n using assms(1) by (simp add: reader_calm_def)
  have "scan_record env settings k (files ! k) segment_bytes offset s = Inr (s2, nxt)"
    by (simp only: scan_record_def Let_def calm if_False file_op_calm [OF assms(1)] and_then_simps rd H(2,3,5) en(1)
        off(1) nxt(1) ok_or_simps bounds small s2_def s1_def)
  moreover have "scan_inv settings files (ps @ [p]) s2"
  proof -
    let ?old = "rolling (within_budget settings) ps"
    have I: "list_all2 (denotes files) (sn_records s) ?old" "unat (sn_bytes s) = payload ?old"
      using assms(2) by (simp_all add: scan_inv_def)
    show ?thesis
    proof (cases "sn_records s \<noteq> [] \<or> pk_keyframe p")
      case True
      have "list_all2 (denotes files) (sn_records s @ [?r]) (?old @ [p])"
        using I(1) den by (simp add: list_all2_appendI)
      moreover have "payload ?old \<le> 9900000000"
        using rolling_holds [of "within_budget settings" ps, OF within_budget_Nil] ring_bytes_bound [of settings] by (simp add: within_budget_def)
      then have "unat (sn_bytes s + ucast ?len) = payload (?old @ [p])"
        using I(2) len pk(2) by (simp add: unat_word_ariths)
      ultimately have "list_all2 (denotes files) (fst (trim_records settings en (sn_records s @ [?r]) (sn_bytes s + ucast ?len)))
          (longest_suffix (within_budget settings) (?old @ [p]))
        \<and> unat (snd (trim_records settings en (sn_records s @ [?r]) (sn_bytes s + ucast ?len))) =
          payload (longest_suffix (within_budget settings) (?old @ [p]))"
        by (rule trim_records_spec) (simp add: en(2))
      then show ?thesis using True key(1)
        by (cases "trim_records settings en (sn_records s @ [?r]) (sn_bytes s + ucast ?len)")
          (simp add: scan_inv_def s2_def s1_def)
    next
      case False
      then have "?old = []" using I(1) by simp
      moreover have "\<not> within_budget settings [p]" using False by (simp add: within_budget_def)
      ultimately show ?thesis using False I by (simp add: scan_inv_def s2_def s1_def)
    qed
  qed
  ultimately show ?thesis using nxt(2) by blast
qed


definition readable :: "replay_settings \<Rightarrow> encoded_replay_packet list \<Rightarrow> bool" where
  "readable settings ps \<longleftrightarrow> timestamps_increase ps
     \<and> (\<forall>p \<in> set ps. packet_ok p \<and> length (pk_bytes p) \<le> unat (bu_maximum_ring_bytes (budget_from_settings settings)))"

lemma readable_next:
  assumes "readable settings (ps @ p # qs)"
  shows "packet_ok p" "length (pk_bytes p) \<le> unat (bu_maximum_ring_bytes (budget_from_settings settings))"
    "ps \<noteq> [] \<Longrightarrow> pk_timestamp_ns (last ps) < pk_timestamp_ns p"
  using assms by (auto simp: readable_def timestamps_increase_def sorted_wrt_append)

lemma scan_file_spec:
  assumes "reader_calm env" "scan_inv settings files ps s" "readable settings (ps @ qs)"
    and "k < length files" "files ! k = pre @ concat (map packet_record qs)"
    and "unat offset = length pre" "unat segment_bytes = length (files ! k)"
  shows "\<exists>s'. scan_file env settings k (files ! k) segment_bytes offset s = Inr s' \<and> scan_inv settings files (ps @ qs) s'"
  using assms(2,3,5,6)
proof (induction qs arbitrary: ps pre offset s)
  case Nil
  then have "\<not> offset < segment_bytes" using assms(7) by (simp add: word_less_nat_alt)
  then show ?case using Nil by (simp add: scan_file.simps)
next
  case (Cons q qs)
  note next_q = readable_next [OF Cons.prems(2)]
  have split: "files ! k = pre @ packet_record q @ concat (map packet_record qs)" using Cons.prems(3) by simp
  have "offset < segment_bytes"
    using Cons.prems(3,4) assms(7) by (simp add: word_less_nat_alt length_packet_record record_size_def)
  moreover from scan_record_spec [OF assms(1) Cons.prems(1) next_q(1) next_q(3,2) assms(4) split Cons.prems(4) assms(7)]
  obtain s1 nxt where s1: "scan_record env settings k (files ! k) segment_bytes offset s = Inr (s1, nxt)"
    "unat nxt = length pre + record_size q" "scan_inv settings files (ps @ [q]) s1" by blast
  have "\<exists>s'. scan_file env settings k (files ! k) segment_bytes nxt s1 = Inr s' \<and> scan_inv settings files ((ps @ [q]) @ qs) s'"
    by (rule Cons.IH [of _ _ "pre @ packet_record q"]) (use s1 Cons.prems in \<open>simp_all add: length_packet_record\<close>)
  ultimately show ?case using s1(1) by (simp add: scan_file.simps [of _ _ _ _ _ offset])
qed

lemma scan_inv_ops: "scan_inv settings files ps (s\<lparr>sn_ops := n\<rparr>) = scan_inv settings files ps s"
  by (simp add: scan_inv_def)

text \<open>Segments whose files hold the packet lists \<open>pss\<close>.\<close>

definition segments_hold :: "(replay_spool_segment \<times> u8 list) list \<Rightarrow> encoded_replay_packet list list \<Rightarrow> bool" where
  "segments_hold opened pss \<longleftrightarrow>
     list_all2 (\<lambda>(s, c) ps. c = segment_file ps \<and> unat (ss_bytes s) = segment_size ps) opened pss"

lemma scan_segments_spec:
  assumes "reader_calm env" "scan_inv settings (map snd all_opened) (concat (take k all_pss)) s"
    and "readable settings (concat all_pss)" "segments_hold all_opened all_pss"
    and "opened = drop k all_opened" "pss = drop k all_pss" "k \<le> length all_opened"
  shows "\<exists>s'. scan_segments env settings k opened s = Inr s' \<and> scan_inv settings (map snd all_opened) (concat all_pss) s'"
  using assms(2,5-7)
proof (induction opened arbitrary: k s pss)
  case Nil
  then have "length all_opened \<le> k" by simp
  with assms(4) have "concat (take k all_pss) = concat all_pss"
    by (simp add: segments_hold_def list_all2_conv_all_nth)
  with Nil show ?case by simp
next
  case (Cons oc opened)
  obtain seg c where oc: "oc = (seg, c)" by (metis surj_pair)
  have k: "k < length all_opened" using Cons.prems(2) by (metis drop_all linorder_not_less list.distinct(1))
  have nth: "all_opened ! k = (seg, c)" "opened = drop (Suc k) all_opened"
    using Cons.prems(2) oc k by (metis Cons_nth_drop_Suc list.inject)+
  define ps where "ps = all_pss ! k"
  have lens: "length all_pss = length all_opened" using assms(4) by (simp add: segments_hold_def list_all2_lengthD)
  have c: "c = segment_file ps" "unat (ss_bytes seg) = segment_size ps"
    using assms(4) k nth(1) by (auto simp: segments_hold_def list_all2_conv_all_nth ps_def)
  let ?files = "map snd all_opened"
  have fk: "k < length ?files" "?files ! k = c" using k nth(1) by simp_all
  have seglen: "segment_size ps < 2 ^ 64" using unat_lt_2p [of "ss_bytes seg"] c(2) by simp
  have magic: "read_exact 0 8 c = Inr SEGMENT_MAGIC" "len_u64 c = ss_bytes seg"
    using c seglen by (simp_all add: read_exact_def length_segment_file word_eq_iff_unat unat_len_u64)
      (simp add: segment_file_def slice_def SEGMENT_MAGIC_def segment_size_def)
  have split: "all_pss = take k all_pss @ ps # drop (Suc k) all_pss"
    using k lens by (simp add: ps_def id_take_nth_drop)
  have rd: "readable settings (concat (take k all_pss) @ ps)"
  proof -
    have "concat all_pss = (concat (take k all_pss) @ ps) @ concat (drop (Suc k) all_pss)"
      using arg_cong [OF split, of concat] by simp
    then show ?thesis using assms(3) by (auto simp: readable_def timestamps_increase_def sorted_wrt_append)
  qed
  have "\<exists>s'. scan_file env settings k (?files ! k) (ss_bytes seg) 8 (s\<lparr>sn_ops := sn_ops s + 2\<rparr>) = Inr s'
      \<and> scan_inv settings ?files (concat (take k all_pss) @ ps) s'"
    by (rule scan_file_spec [OF assms(1) _ rd fk(1), of _ SEGMENT_MAGIC])
      (use Cons.prems(1) fk c in \<open>simp_all add: scan_inv_ops segment_file_def [symmetric] length_segment_file, simp add: SEGMENT_MAGIC_def\<close>)
  then obtain s1 where s1: "scan_file env settings k c (ss_bytes seg) 8 (s\<lparr>sn_ops := sn_ops s + 2\<rparr>) = Inr s1"
    "scan_inv settings ?files (concat (take k all_pss) @ ps) s1" using fk(2) by auto
  have "concat (take (Suc k) all_pss) = concat (take k all_pss) @ ps"
    using k lens by (simp add: take_Suc_conv_app_nth ps_def)
  then have "\<exists>s'. scan_segments env settings (Suc k) opened s1 = Inr s' \<and> scan_inv settings ?files (concat all_pss) s'"
    using s1(2) nth(2) k by (intro Cons.IH [of "Suc k" s1 "drop (Suc k) all_pss"]) simp_all
  then show ?case using oc s1(1) magic assms(1) by simp
qed

section \<open>The source yields the packets\<close>

lemma next_packet_spec:
  assumes "reader_calm (sq_env src)" "sq_records src = r # rs" "denotes (sq_files src) r p" "packet_ok p"
  shows "\<exists>src'. spool_next_packet src = Inr (Some p, src') \<and> sq_records src' = rs \<and> sq_files src' = sq_files src
    \<and> sq_env src' = sq_env src"
proof -
  have "packet_new (rc_timestamp r) (rc_duration r) (rc_keyframe r) (pk_bytes p) = Inr p"
    using assms(3,4) by (simp add: denotes_def packet_ok_def)
  moreover have "read_exact (unat (rc_offset r)) (unat (rc_bytes r)) (sq_files src ! rc_file r) = Inr (pk_bytes p)"
    using assms(3) by (simp add: denotes_def read_exact_def)
  moreover have "\<not> re_cancel (sq_env src) n" for n using assms(1) by (simp add: reader_calm_def)
  ultimately show ?thesis using assms(1,2)
    by (simp add: spool_next_packet_def spool_check_cancel_def Let_def)
qed

lemma drain_packets_spec:
  assumes "reader_calm (sq_env src)" "list_all2 (denotes (sq_files src)) (sq_records src) ps" "\<forall>p \<in> set ps. packet_ok p"
  shows "drain_packets src = Inr ps"
  using assms
proof (induction ps arbitrary: src)
  case Nil
  then have "\<not> re_cancel (sq_env src) n" for n by (simp add: reader_calm_def)
  then show ?case using Nil by (simp add: drain_packets.simps [of src] spool_next_packet_def spool_check_cancel_def)
next
  case (Cons p ps)
  then obtain r rs where r: "sq_records src = r # rs" "denotes (sq_files src) r p"
    "list_all2 (denotes (sq_files src)) rs ps" by (auto simp: list_all2_Cons2)
  from next_packet_spec [OF Cons.prems(1) r(1,2)] Cons.prems(3) obtain src' where
    "spool_next_packet src = Inr (Some p, src')" "sq_records src' = rs" "sq_files src' = sq_files src" "sq_env src' = sq_env src"
    by auto
  then show ?case using Cons.IH [of src'] Cons.prems r(3) by (simp add: drain_packets.simps [of src])
qed

lemma list_all2_last: "list_all2 R xs ys \<Longrightarrow> xs \<noteq> [] \<Longrightarrow> R (last xs) (last ys)"
  by (induction rule: list_all2_induct) auto

lemma spool_scan_spec:
  assumes "reader_calm env" "readable settings (concat pss)" "segments_hold opened pss"
    and "rolling (within_budget settings) (concat pss) \<noteq> []"
  shows "\<exists>src. spool_scan opened settings env = Inr src \<and> sq_env src = env
    \<and> list_all2 (denotes (sq_files src)) (sq_records src) (rolling (within_budget settings) (concat pss))
    \<and> unat (fst (sq_window src)) = unat (pk_timestamp_ns (hd (rolling (within_budget settings) (concat pss))))
    \<and> unat (snd (sq_window src)) = packet_end (last (concat pss))"
proof -
  let ?s0 = "\<lparr>sn_records = [], sn_bytes = 0, sn_previous = None, sn_loads = 0, sn_ops = 0\<rparr>"
  let ?ps = "rolling (within_budget settings) (concat pss)"
  have "\<exists>s'. scan_segments env settings 0 opened ?s0 = Inr s' \<and> scan_inv settings (map snd opened) (concat pss) s'"
    by (rule scan_segments_spec [OF assms(1) _ assms(2,3)]) (simp_all add: scan_inv_def)
  then obtain s where s: "scan_segments env settings 0 opened ?s0 = Inr s"
    "list_all2 (denotes (map snd opened)) (sn_records s) ?ps" by (auto simp: scan_inv_def)
  then obtain r rs p ps where rs: "sn_records s = r # rs" "?ps = p # ps" "denotes (map snd opened) r p"
    using assms(4) by (cases ?ps) (auto simp: list_all2_Cons2)
  have "denotes (map snd opened) (last (sn_records s)) (last ?ps)"
    by (rule list_all2_last [OF s(2)]) (simp add: rs)
  moreover have lp: "last ?ps = last (concat pss)" using rolling_last [OF assms(4)] .
  moreover have "concat pss \<noteq> []" using assms(4) by (metis rolling_simps(1))
  then have "packet_ok (last (concat pss))" using assms(2) last_in_set unfolding readable_def by blast
  ultimately have "unat (rc_timestamp (last (sn_records s)) + rc_duration (last (sn_records s))) = packet_end (last (concat pss))"
    by (simp add: denotes_def packet_end_def packet_ok_iff unat_word_ariths)
  then show ?thesis using s rs by (simp add: spool_scan_def Let_def denotes_def)
qed


section \<open>The same policy as the ring\<close>

lemma ring_new_limits:
  assumes "unat (bu_maximum_ring_bytes (budget_from_settings settings)) \<le> 268435456"
  shows "unat (rr_packet_limit (ring_new settings)) = unat (bu_frame_capacity (budget_from_settings settings))"
    "unat (rr_byte_limit (ring_new settings)) = unat (bu_maximum_ring_bytes (budget_from_settings settings))"
    "rr_duration_limit_ns (ring_new settings) = ucast (duration_seconds (rs_duration settings)) * 1000000000"
proof -
  have d: "15 \<le> unat (duration_seconds (rs_duration settings))" by (cases "rs_duration settings") simp_all
  have q: "12 \<le> unat (target_megabits_per_second (rs_quality settings))" by (cases "rs_quality settings") simp_all
  have m: "1 \<le> unat (bu_maximum_ring_bytes (budget_from_settings settings))" using d q by (simp add: budget_ring_bytes)
  have c: "1 \<le> unat (bu_frame_capacity (budget_from_settings settings))" using d by (simp add: budget_frame_capacity)
  show "unat (rr_packet_limit (ring_new settings)) = unat (bu_frame_capacity (budget_from_settings settings))"
    using c by (simp add: ring_new_def Let_def max_def word_le_nat_alt)
  show "unat (rr_byte_limit (ring_new settings)) = unat (bu_maximum_ring_bytes (budget_from_settings settings))"
    using m assms by (simp add: ring_new_def Let_def max_def min_def word_le_nat_alt MAX_IN_MEMORY_REPLAY_BYTES_def)
  show "rr_duration_limit_ns (ring_new settings) = ucast (duration_seconds (rs_duration settings)) * 1000000000"
    by (cases "rs_duration settings") (simp_all add: ring_new_def Let_def saturating_mul_def NANOSECONDS_PER_SECOND_def)
qed

lemma kept_within_budget:
  assumes "unat (bu_maximum_ring_bytes (budget_from_settings settings)) \<le> 268435456"
    and "rr_packet_limit r = rr_packet_limit (ring_new settings)" "rr_byte_limit r = rr_byte_limit (ring_new settings)"
    and "rr_duration_limit_ns r = rr_duration_limit_ns (ring_new settings)"
  shows "kept r = longest_suffix (within_budget settings)"
proof -
  have "within_limits r ps \<and> keyframe_start ps \<longleftrightarrow> within_budget settings ps" for ps
    using ring_new_limits [OF assms(1)] assms(2-4) by (auto simp: within_limits_def within_budget_def)
  then have "(\<lambda>ps. within_limits r ps \<and> keyframe_start ps) = within_budget settings" by auto
  then show ?thesis by (simp add: kept_def fun_eq_iff)
qed

lemma ring_push_all_rolling:
  assumes "unat (bu_maximum_ring_bytes (budget_from_settings settings)) \<le> 268435456"
    and "ring_inv r" "rr_packet_limit r = rr_packet_limit (ring_new settings)"
    and "rr_byte_limit r = rr_byte_limit (ring_new settings)"
    and "rr_duration_limit_ns r = rr_duration_limit_ns (ring_new settings)"
    and "rr_packets r = rolling (within_budget settings) ps" "readable settings (ps @ qs)"
    and "rr_last_timestamp_ns r = (if ps = [] then None else Some (pk_timestamp_ns (last ps)))"
  shows "\<exists>r'. ring.push_all qs r = Some (r', Inr ()) \<and> rr_packets r' = rolling (within_budget settings) (ps @ qs)"
  using assms(2-)
proof (induction qs arbitrary: ps r)
  case (Cons q qs)
  note next_q = readable_next [OF Cons.prems(6)]
  have kept: "kept r = longest_suffix (within_budget settings)"
    by (rule kept_within_budget [OF assms(1) Cons.prems(2-4)])
  let ?r' = "fst (push_result q r)"
  have "\<not> stale q r" using Cons.prems(7) next_q(3) by (auto simp: stale_def split: if_splits)
  moreover have "\<not> length (pk_bytes q) > unat (rr_byte_limit r)"
    using next_q(2) ring_new_limits(2) [OF assms(1)] Cons.prems(3) by simp
  ultimately have pr: "push_result q r = (if rr_packets r = [] \<and> \<not> pk_keyframe q
      then (r\<lparr>rr_last_timestamp_ns := Some (pk_timestamp_ns q),
              rr_dropped_awaiting_keyframe := sadd (rr_dropped_awaiting_keyframe r) 1\<rparr>, Inr DroppedAwaitingKeyframe)
      else (after_push q r,
            Inr (Stored (word_of_nat (length (rr_packets r) + 1 - length (kept r (rr_packets r @ [q]))))
                   (word_of_nat (payload (rr_packets r @ [q]) - payload (kept r (rr_packets r @ [q])))))))"
    by (simp add: push_result_def)
  have "\<not> within_budget settings [q]" if "\<not> pk_keyframe q" using that by (simp add: within_budget_def)
  then have fields: "rr_packets ?r' = rolling (within_budget settings) (ps @ [q])"
    "rr_packet_limit ?r' = rr_packet_limit r" "rr_byte_limit ?r' = rr_byte_limit r"
    "rr_duration_limit_ns ?r' = rr_duration_limit_ns r" "rr_last_timestamp_ns ?r' = Some (pk_timestamp_ns q)"
    using pr Cons.prems(5) kept by auto
  obtain u where u: "ring_push q r = Some (?r', Inr u)"
    using ring_push_result [OF Cons.prems(1) next_q(1)] pr by (cases "rr_packets r = [] \<and> \<not> pk_keyframe q") auto
  have inv: "ring_inv ?r'" by (rule push_result_inv [OF Cons.prems(1) next_q(1)])
  have "\<exists>r'. ring.push_all qs ?r' = Some (r', Inr ()) \<and> rr_packets r' = rolling (within_budget settings) ((ps @ [q]) @ qs)"
    by (rule Cons.IH [OF inv]) (use fields Cons.prems in simp_all)
  then show ?case using u by simp
qed simp

text \<open>C16: Reading a snapshot back from disk gives the packets the in-memory ring would hold. For any settings
  whose budget the ring admits in full, and pinned segment files that hold packets with increasing timestamps,
  each of them within the budget, when no read fails the scan succeeds and the source it returns yields, in order and
  byte for byte, exactly the packets left in a fresh ring after pushing all of them (provided that the ring is not
  empty then).\<close>

theorem spool_reader_matches_ring:
  assumes "reader_calm env" "segments_hold opened pss" "readable settings (concat pss)"
    and "unat (bu_maximum_ring_bytes (budget_from_settings settings)) \<le> 268435456"
    and "ring.push_all (concat pss) (ring_new settings) = Some (r, res)" "rr_packets r \<noteq> []"
  shows "\<exists>src. spool_scan opened settings env = Inr src \<and> drain_packets src = Inr (rr_packets r)"
proof -
  have new: "rr_packets (ring_new settings) = []" "rr_last_timestamp_ns (ring_new settings) = None"
    by (simp_all add: ring_new_def Let_def)
  have "\<exists>r'. ring.push_all (concat pss) (ring_new settings) = Some (r', Inr ())
      \<and> rr_packets r' = rolling (within_budget settings) ([] @ concat pss)"
    by (rule ring_push_all_rolling [OF assms(4) ring_new_inv]) (use new assms(3) in simp_all)
  then have r: "rr_packets r = rolling (within_budget settings) (concat pss)" using assms(5) by auto
  with spool_scan_spec [OF assms(1,3,2)] assms(6) obtain src where src: "spool_scan opened settings env = Inr src"
    "sq_env src = env" "list_all2 (denotes (sq_files src)) (sq_records src) (rr_packets r)" by auto
  have "\<forall>p \<in> set (rr_packets r). packet_ok p"
    using assms(3) r set_mono_suffix [OF rolling_suffix [of "within_budget settings" "concat pss"]]
    unfolding readable_def by (metis subsetD)
  then have "drain_packets src = Inr (rr_packets r)"
    using drain_packets_spec [of src] src(2,3) assms(1) by simp
  with src(1) show ?thesis by blast
qed


definition calm_reader :: reader_env where
  "calm_reader = \<lparr>re_cancel = (\<lambda>_. False), re_fault = (\<lambda>_. None)\<rparr>"

definition sample_opened :: "(replay_spool_segment \<times> u8 list) list" where
  "sample_opened = [(\<lparr>ss_path = segment_name 1 1000 16001000, ss_start_timestamp_ns = 1000,
     ss_end_timestamp_ns = 16001000, ss_bytes = 32\<rparr>, segment_file [sample_packet 1000 True])]"

lemma calm_reader_calm: "reader_calm calm_reader"
  by (simp add: calm_reader_def reader_calm_def)

theorem spool_reader_matches_ring_witness:
  "\<exists>src. spool_scan sample_opened default_replay_settings calm_reader = Inr src
    \<and> drain_packets src = Inr [sample_packet 1000 True]"
proof -
  let ?p = "sample_packet 1000 True"
  have b: "unat (bu_maximum_ring_bytes (budget_from_settings default_replay_settings)) = 99000000"
    by (simp add: budget_ring_bytes default_replay_settings_def)
  have h: "segments_hold sample_opened [[?p]]"
    by (simp add: segments_hold_def sample_opened_def segment_size_def record_size_def sample_packet_def)
  have r: "readable default_replay_settings (concat [[?p]])"
    using sample_packet_ok [of True] b by (simp add: readable_def timestamps_increase_def) (simp add: sample_packet_def)
  have push: "ring.push_all (concat [[?p]]) (ring_new default_replay_settings) = Some (after_push ?p sample_ring, Inr ())"
    using sample_push by (simp add: sample_ring_def)
  have k: "rr_packets (after_push ?p sample_ring) = [?p]"
    by (simp add: sample_ring_fields kept_def within_limits_def sample_ring_limits sample_packet_def span_exceeds_def
        history_span_def saturating_sub_def saturating_add_def)
  show ?thesis
    using spool_reader_matches_ring [OF calm_reader_calm h r _ push] b k by simp
qed

section \<open>The longest suffix\<close>

definition ends_increase :: "encoded_replay_packet list \<Rightarrow> bool" where
  "ends_increase ps \<longleftrightarrow> sorted (map packet_end ps)"

lemma within_budget_butlast:
  assumes "within_budget settings (ys @ [x])" "ends_increase (ys @ [x])" "\<forall>p \<in> set (ys @ [x]). packet_ok p"
  shows "within_budget settings ys"
proof (cases "ys = []")
  case False
  have "packet_end (last ys) \<le> packet_end x"
    using assms(2) False by (auto simp: ends_increase_def sorted_append)
  moreover have "packet_ok (last ys)" "packet_ok x" using assms(3) False by auto
  ultimately have "\<not> span_exceeds ys limit" if "\<not> span_exceeds (ys @ [x]) limit" for limit
    using that False by (auto simp: span_exceeds_last word_less_nat_alt unat_saturating_sub unat_packet_end)
  then show ?thesis using assms(1) False by (auto simp: within_budget_def keyframe_start_def)
qed simp

lemma rolling_is_longest:
  assumes "readable settings ps" "ends_increase ps"
  shows "rolling (within_budget settings) ps = longest_suffix (within_budget settings) ps"
proof (rule rolling_longest)
  fix zs ys x ws
  assume *: "ps = zs @ ys @ [x] @ ws" "within_budget settings (ys @ [x])"
  have "ends_increase (ys @ [x])" using assms(2) *(1) by (auto simp: ends_increase_def sorted_append)
  moreover have "\<forall>p \<in> set (ys @ [x]). packet_ok p" using assms(1) *(1) by (auto simp: readable_def)
  ultimately show "within_budget settings ys" using *(2) within_budget_butlast by blast
qed

end
