(* ===== verification/Spool_Worker.thy ===== *)
theory Spool_Worker
  imports Spool_Reader
begin

text \<open>
  The spool's worker thread, \<open>run_worker\<close> of \<open>redunar-daemon/src/replay_spool.rs\<close>: its ordered command
  loop, the shared counters it maintains, and the drain on exit. Every command refines a step of the
  segmented history, for any answers of the file system, until the worker stops; a saved window is the
  longest decodable suffix of what the history retains.
\<close>

section \<open>Shared counters\<close>

datatype replay_spool_phase = SpoolRunning | SlowStorage | SpoolFailed | SpoolShutdown

primrec phase_code :: "replay_spool_phase \<Rightarrow> u8" where
  "phase_code SpoolRunning = 0"
| "phase_code SlowStorage = 1"
| "phase_code SpoolFailed = 2"
| "phase_code SpoolShutdown = 3"

definition phase_from_code :: "u8 \<Rightarrow> replay_spool_phase" where
  "phase_from_code value = (if value = 0 then SpoolRunning else if value = 1 then SlowStorage
     else if value = 2 then SpoolFailed else SpoolShutdown)"

lemma phase_code_roundtrip [simp]: "phase_from_code (phase_code p) = p"
  by (cases p) (simp_all add: phase_from_code_def)

record replay_spool_stats =
  sx_active_segments :: u32
  sx_active_bytes :: u64
  sx_buffered_duration_ns :: u64
  sx_accepted_packets :: u64
  sx_queued_packets :: u32
  sx_dropped_queue_full :: u64
  sx_dropped_awaiting_keyframe :: u64
  sx_recovered_segments :: u32
  sx_slow_writes :: u64
  sx_segment_resyncs :: u64

record shared_stats =
  sv_index_snapshot :: replay_spool_stats
  sv_phase :: u8
  sv_active_submitters :: u32
  sv_queued_packets :: u32
  sv_queued_bytes :: u64
  sv_dropped_queue_full :: u64
  sv_first_packet_timestamp_ns :: u64
  sv_latest_packet_end_ns :: u64
  sv_accepted_packets :: u64
  sv_slow_writes :: u64
  sv_segment_resyncs :: u64

definition index_stats :: "spool_index \<Rightarrow> replay_spool_stats" where
  "index_stats index = \<lparr>sx_active_segments = unwrap_or (try_from (length (si_segments index))) (- 1),
     sx_active_bytes = si_active_bytes index, sx_buffered_duration_ns = 0, sx_accepted_packets = 0,
     sx_queued_packets = 0, sx_dropped_queue_full = 0,
     sx_dropped_awaiting_keyframe = si_dropped_awaiting_keyframe index,
     sx_recovered_segments = si_recovered_segments index, sx_slow_writes = 0, sx_segment_resyncs = 0\<rparr>"

definition shared_new :: "spool_index \<Rightarrow> shared_stats" where
  "shared_new index = \<lparr>sv_index_snapshot = index_stats index, sv_phase = phase_code SpoolRunning,
     sv_active_submitters = 0, sv_queued_packets = 0, sv_queued_bytes = 0, sv_dropped_queue_full = 0,
     sv_first_packet_timestamp_ns = - 1, sv_latest_packet_end_ns = 0, sv_accepted_packets = 0,
     sv_slow_writes = 0, sv_segment_resyncs = 0\<rparr>"

definition release_queued_bytes :: "u64 \<Rightarrow> shared_stats \<Rightarrow> shared_stats" where
  "release_queued_bytes bytes v = v\<lparr>sv_queued_bytes := sv_queued_bytes v - bytes\<rparr>"

definition release_packet :: "encoded_replay_packet \<Rightarrow> shared_stats \<Rightarrow> shared_stats" where
  "release_packet packet v =
     release_queued_bytes (len_u64 (pk_bytes packet)) (v\<lparr>sv_queued_packets := sv_queued_packets v - 1\<rparr>)"

definition record_buffered_packet :: "encoded_replay_packet \<Rightarrow> shared_stats \<Rightarrow> shared_stats" where
  "record_buffered_packet packet v =
     (let timestamp_ns = pk_timestamp_ns packet;
          end_timestamp_ns = saturating_add timestamp_ns (pk_duration_ns packet);
          first = (if sv_first_packet_timestamp_ns v = - 1 then timestamp_ns else sv_first_packet_timestamp_ns v);
          first = max first (saturating_sub end_timestamp_ns
                    (ucast (duration_seconds RETAINED_DURATION) * NANOSECONDS_PER_SECOND))
      in v\<lparr>sv_first_packet_timestamp_ns := first,
           sv_latest_packet_end_ns := max (sv_latest_packet_end_ns v) end_timestamp_ns,
           sv_accepted_packets := sv_accepted_packets v + 1\<rparr>)"

definition reset_buffered_duration :: "shared_stats \<Rightarrow> shared_stats" where
  "reset_buffered_duration v = v\<lparr>sv_first_packet_timestamp_ns := - 1, sv_latest_packet_end_ns := 0,
     sv_accepted_packets := 0\<rparr>"

definition buffered_duration_ns :: "shared_stats \<Rightarrow> u64" where
  "buffered_duration_ns v = (if sv_first_packet_timestamp_ns v = - 1 then 0
     else saturating_sub (sv_latest_packet_end_ns v) (sv_first_packet_timestamp_ns v))"

definition spool_stats :: "shared_stats \<Rightarrow> replay_spool_stats" where
  "spool_stats v = (let index = sv_index_snapshot v
     in \<lparr>sx_active_segments = sx_active_segments index, sx_active_bytes = sx_active_bytes index,
         sx_buffered_duration_ns = buffered_duration_ns v, sx_accepted_packets = sv_accepted_packets v,
         sx_queued_packets = sv_queued_packets v, sx_dropped_queue_full = sv_dropped_queue_full v,
         sx_dropped_awaiting_keyframe = sx_dropped_awaiting_keyframe index,
         sx_recovered_segments = sx_recovered_segments index, sx_slow_writes = sv_slow_writes v,
         sx_segment_resyncs = sv_segment_resyncs v\<rparr>)"

section \<open>The command loop\<close>

text \<open>\<open>PrepareSnapshot\<close> carries the value of its cancel flag when the worker loads it.\<close>

datatype spool_command = Packet encoded_replay_packet | PrepareSnapshot replay_duration bool
  | ResetEpoch | ShutdownCommand

type_synonym snapshot_response = "replay_spool_error + (replay_spool_segment \<times> u8 list) list"

record spool_worker =
  wk_disk :: spool_disk
  wk_shared :: shared_stats
  wk_responses :: "snapshot_response list"

text \<open>How a round of the loop ends: \<open>continue\<close>, falling through to the publication of the index, \<open>break\<close>.\<close>

datatype loop_control = ContinueLoop | Fallthrough | BreakLoop

definition set_phase :: "replay_spool_phase \<Rightarrow> spool_worker \<Rightarrow> spool_worker" where
  "set_phase p w = w\<lparr>wk_shared := (wk_shared w)\<lparr>sv_phase := phase_code p\<rparr>\<rparr>"

text \<open>\<open>if let Some(writer) = current.take() { let _ = fs::remove_file(writer.temporary_path) }\<close>\<close>

definition drop_writer :: "spool_disk \<Rightarrow> spool_disk" where
  "drop_writer d = (case sd_current d of None \<Rightarrow> d
     | Some writer \<Rightarrow> d\<lparr>sd_fs := fst (remove_file (sw_temporary_path writer) (sd_fs d)), sd_current := None\<rparr>)"

definition packet_command :: "spool_limits \<Rightarrow> bool \<Rightarrow> encoded_replay_packet \<Rightarrow> spool_worker \<Rightarrow>
    spool_worker \<times> loop_control" where
  "packet_command limits slow packet w =
     (let v = release_packet packet (wk_shared w)
      in case process_packet limits packet (wk_disk w) of
           (d, Inl e) \<Rightarrow>
             (let v = reset_buffered_duration (v\<lparr>sv_segment_resyncs := sv_segment_resyncs v + 1\<rparr>);
                  w = w\<lparr>wk_disk := drop_writer d, wk_shared := v\<rparr>
              in if is_storage_failure e then (set_phase SpoolFailed w, BreakLoop) else (w, ContinueLoop))
         | (d, Inr wrote) \<Rightarrow>
             (let v = (if wrote then record_buffered_packet packet v else v);
                  v = (if wrote \<and> slow then v\<lparr>sv_slow_writes := sv_slow_writes v + 1\<rparr> else v)
              in (w\<lparr>wk_disk := d, wk_shared := v\<rparr>, Fallthrough)))"

definition reset_command :: "spool_worker \<Rightarrow> spool_worker \<times> loop_control" where
  "reset_command w =
     (let d = drop_writer (wk_disk w)
      in case clear_completed_segments (sd_index d) (sd_fs d) of
           (fs, index, Inl e) \<Rightarrow>
             (set_phase SpoolFailed (w\<lparr>wk_disk := d\<lparr>sd_fs := fs, sd_index := index\<rparr>\<rparr>), BreakLoop)
         | (fs, index, Inr _) \<Rightarrow>
             (w\<lparr>wk_disk := d\<lparr>sd_fs := fs, sd_index := index\<rparr>,
                wk_shared := reset_buffered_duration (wk_shared w)\<rparr>, Fallthrough))"

definition snapshot_command :: "spool_limits \<Rightarrow> replay_duration \<Rightarrow> spool_worker \<Rightarrow> spool_worker \<times> loop_control" where
  "snapshot_command limits requested w =
     (case pin_snapshot limits requested (wk_disk w) of (d, result) \<Rightarrow>
        let w = w\<lparr>wk_disk := d, wk_responses := wk_responses w @ [result]\<rparr>
        in if (case result of Inl e \<Rightarrow> is_storage_failure e | Inr _ \<Rightarrow> False)
           then (set_phase SpoolFailed w, BreakLoop) else (w, Fallthrough))"

fun worker_command :: "spool_limits \<Rightarrow> bool \<Rightarrow> spool_command \<Rightarrow> spool_worker \<Rightarrow> spool_worker \<times> loop_control" where
  "worker_command limits slow (Packet packet) w = packet_command limits slow packet w"
| "worker_command limits slow ResetEpoch w = reset_command w"
| "worker_command limits slow (PrepareSnapshot requested cancelled) w =
     (if cancelled then (w, ContinueLoop) else snapshot_command limits requested w)"
| "worker_command limits slow ShutdownCommand w = (w, BreakLoop)"

definition publish_index :: "spool_worker \<Rightarrow> spool_worker" where
  "publish_index w = w\<lparr>wk_shared := (wk_shared w)\<lparr>sv_index_snapshot := index_stats (sd_index (wk_disk w))\<rparr>\<rparr>"

fun drain_pending_packets :: "spool_command list \<Rightarrow> shared_stats \<Rightarrow> shared_stats" where
  "drain_pending_packets [] v = v"
| "drain_pending_packets (Packet packet # rest) v = drain_pending_packets rest (release_packet packet v)"
| "drain_pending_packets (_ # rest) v = drain_pending_packets rest v"

definition worker_exit :: "spool_command list \<Rightarrow> spool_worker \<Rightarrow> spool_worker" where
  "worker_exit pending w = w\<lparr>wk_disk := drop_writer (wk_disk w),
     wk_shared := drain_pending_packets pending (wk_shared w)\<rparr>"

text \<open>The loop over the commands in the order of the channel; \<open>slow n\<close> is whether the \<open>n\<close>-th took longer than
  the write latency bound. The commands behind the one that ends the loop are drained.\<close>

fun run_worker :: "spool_limits \<Rightarrow> (nat \<Rightarrow> bool) \<Rightarrow> nat \<Rightarrow> spool_command list \<Rightarrow> spool_worker \<Rightarrow> spool_worker" where
  "run_worker limits slow n [] w = worker_exit [] w"
| "run_worker limits slow n (command # rest) w =
     (case worker_command limits (slow n) command w of
        (w, BreakLoop) \<Rightarrow> worker_exit rest w
      | (w, ContinueLoop) \<Rightarrow> run_worker limits slow (n + 1) rest w
      | (w, Fallthrough) \<Rightarrow> run_worker limits slow (n + 1) rest (publish_index w))"

definition worker_start :: "spool_index \<Rightarrow> spool_fs \<Rightarrow> spool_worker" where
  "worker_start index fs = \<lparr>wk_disk = \<lparr>sd_fs = fs, sd_index = index, sd_current = None,
       sd_next_sequence = saturating_add (si_generation index) 1\<rparr>,
     wk_shared = shared_new index, wk_responses = []\<rparr>"

section \<open>Specification: commands on a history\<close>

definition empty_history :: spool_history where
  "empty_history = \<lparr>sh_closed = [], sh_open = []\<rparr>"

fun history_command :: "spool_limits \<Rightarrow> spool_history \<Rightarrow> spool_command \<Rightarrow> spool_history" where
  "history_command limits h (Packet p) =
     (case history_append limits p h of (h, NoKeyframeInBound) \<Rightarrow> h\<lparr>sh_open := []\<rparr> | (h, _) \<Rightarrow> h)"
| "history_command limits h ResetEpoch = empty_history"
| "history_command limits h (PrepareSnapshot requested cancelled) = (if cancelled then h else seal limits h)"
| "history_command limits h ShutdownCommand = h"

text \<open>What the worker expects of its input: validated packets whose timestamps rise within an epoch.\<close>

fun command_ok :: "spool_history \<Rightarrow> spool_command \<Rightarrow> bool" where
  "command_ok h (Packet p) \<longleftrightarrow> packet_ok p \<and> (\<forall>q \<in> set (history_packets h). pk_timestamp_ns q < pk_timestamp_ns p)"
| "command_ok h _ \<longleftrightarrow> True"

lemma drop_writer_rel:
  assumes "spool_rel limits d h"
  shows "spool_rel limits (drop_writer d) (h\<lparr>sh_open := []\<rparr>)"
proof (cases "sd_current d")
  case None
  then have "sh_open h = []" using assms by (simp add: spool_rel_def holds_writer_def)
  then have "h\<lparr>sh_open := []\<rparr> = h" by simp
  then show ?thesis using None assms by (simp add: drop_writer_def)
next
  case (Some w)
  then have p: "sw_temporary_path w = temporary_name (sw_sequence w)"
    using assms writer_facts(7) [of "sd_fs d" w "sh_open h"] by (simp add: spool_rel_def)
  have c: "list_all2 (holds_segment (sd_fs d)) (si_segments (sd_index d)) (sh_closed h)" using assms by (simp add: spool_rel_def)
  have "list_all2 (holds_segment (fst (remove_file (sw_temporary_path w) (sd_fs d)))) (si_segments (sd_index d)) (sh_closed h)"
    by (rule closed_unaffected [OF c, of "sw_sequence w"]) (simp add: p remove_file_other)
  then show ?thesis using Some assms
    by (auto simp: drop_writer_def spool_rel_def holds_writer_def history_packets_def timestamps_increase_def sorted_wrt_append)
qed

lemma drop_writer_intact:
  assumes "intact d"
  shows "intact (drop_writer d)"
proof (cases "sd_current d")
  case (Some w)
  then obtain n where n: "sw_temporary_path w = temporary_name n" using assms by (auto simp: intact_def)
  obtain pss where pss: "list_all2 (holds_segment (sd_fs d)) (si_segments (sd_index d)) pss" "timestamps_increase (concat pss)"
    using assms by (auto simp: intact_def committed_def)
  have "list_all2 (holds_segment (fst (remove_file (sw_temporary_path w) (sd_fs d)))) (si_segments (sd_index d)) pss"
    by (rule closed_unaffected [OF pss(1), of n]) (simp add: n remove_file_other)
  then show ?thesis using Some pss(2) by (auto simp: intact_def committed_def drop_writer_def)
qed (use assms in \<open>simp add: drop_writer_def\<close>)

section \<open>Every command refines the history\<close>

lemma packet_refines:
  assumes "packet_command limits slow p w = (w', ctl)" "spool_rel limits (wk_disk w) h" "command_ok h (Packet p)"
  shows "intact (wk_disk w') \<and> (ctl \<noteq> BreakLoop \<longrightarrow> spool_rel limits (wk_disk w') (history_command limits h (Packet p)))"
proof -
  obtain d r where r: "process_packet limits p (wk_disk w) = (d, r)" by (metis surj_pair)
  note R = process_packet_refines [OF r assms(2)]
  show ?thesis
  proof (cases r)
    case (Inl e)
    then have w': "wk_disk w' = drop_writer d" "ctl \<noteq> BreakLoop \<longrightarrow> \<not> is_storage_failure e"
      using assms(1) r by (auto simp: packet_command_def Let_def set_phase_def split: if_splits)
    have "intact d" using R assms(3) by simp
    moreover have "history_append limits p h = (h, NoKeyframeInBound)" "d = wk_disk w" if "\<not> is_storage_failure e"
      using R assms(3) Inl that by simp_all
    ultimately show ?thesis using w' drop_writer_intact drop_writer_rel [OF assms(2)] by auto
  next
    case (Inr wrote)
    then obtain h' where "history_append limits p h = (h', if wrote then Appended else AwaitingKeyframe)"
      "spool_rel limits d h'" using R assms(3) by auto
    moreover have "wk_disk w' = d" using assms(1) r Inr by (auto simp: packet_command_def Let_def)
    ultimately show ?thesis using spool_rel_intact by (cases wrote) auto
  qed
qed

lemma reset_refines:
  assumes "reset_command w = (w', ctl)" "limits_ok limits" "ctl \<noteq> BreakLoop"
  shows "spool_rel limits (wk_disk w') empty_history"
proof -
  obtain fs index r where c: "clear_completed_segments (sd_index (drop_writer (wk_disk w))) (sd_fs (drop_writer (wk_disk w))) = (fs, index, r)"
    by (metis prod_cases3)
  then obtain u where r: "r = Inr u" using assms(1,3) by (cases r) (auto simp: reset_command_def Let_def)
  have "sd_current (drop_writer d) = None" for d by (simp add: drop_writer_def split: option.split)
  then show ?thesis using assms(1,2) c r clear_refines [of _ _ fs index u]
    by (auto simp: reset_command_def Let_def spool_rel_def empty_history_def holds_writer_def history_packets_def
        timestamps_increase_def)
qed

lemma reset_intact:
  assumes "reset_command w = (w', ctl)" "spool_rel limits (wk_disk w) h"
  shows "intact (wk_disk w')"
proof -
  let ?d = "drop_writer (wk_disk w)"
  obtain fs index r where c: "clear_completed_segments (sd_index ?d) (sd_fs ?d) = (fs, index, r)" by (metis prod_cases3)
  have "intact (?d\<lparr>sd_fs := fs, sd_index := index\<rparr>)"
    by (rule clear_intact [OF c drop_writer_rel [OF assms(2)] refl]) (simp add: drop_writer_def split: option.split)
  moreover have "wk_disk w' = ?d\<lparr>sd_fs := fs, sd_index := index\<rparr>"
    using assms(1) c by (cases r) (auto simp: reset_command_def Let_def set_phase_def)
  ultimately show ?thesis by simp
qed

lemma snapshot_refines:
  assumes "snapshot_command limits requested w = (w', ctl)" "spool_rel limits (wk_disk w) h"
  defines "h' \<equiv> seal limits h"
  shows "intact (wk_disk w') \<and> (ctl \<noteq> BreakLoop \<longrightarrow> spool_rel limits (wk_disk w') h')
    \<and> (\<exists>r. wk_responses w' = wk_responses w @ [r] \<and> (\<forall>opened. r = Inr opened \<longrightarrow>
         \<not> too_short requested (sh_closed h') \<and> segments_hold opened (recent_segments requested (sh_closed h'))))"
proof -
  obtain d r where r: "pin_snapshot limits requested (wk_disk w) = (d, r)" by (metis surj_pair)
  note P = pin_snapshot_refines [OF r assms(2)]
  have w': "wk_disk w' = d" "wk_responses w' = wk_responses w @ [r]"
    "ctl = BreakLoop \<longleftrightarrow> (case r of Inl e \<Rightarrow> is_storage_failure e | Inr _ \<Rightarrow> False)"
    using assms(1) r by (auto simp: snapshot_command_def Let_def set_phase_def split: if_splits)
  have "segments_hold opened pss" if "list_all2 (holds_segment fs) (map fst opened) pss" "map snd opened = map segment_file pss"
    for opened pss fs
    using that by (auto simp: segments_hold_def list_all2_conv_all_nth holds_segment_def list_eq_iff_nth_eq split: prod.splits)
  then show ?thesis using P w' by (cases r) (auto simp: h'_def)
qed

inductive worker_step :: "spool_limits \<Rightarrow> spool_worker \<Rightarrow> spool_command \<Rightarrow> spool_worker \<Rightarrow> bool" for limits where
  step_continue: "worker_command limits slow command w = (w', ContinueLoop) \<Longrightarrow> worker_step limits w command w'"
| step_publish: "worker_command limits slow command w = (w', Fallthrough) \<Longrightarrow> worker_step limits w command (publish_index w')"

inductive_cases worker_stepE: "worker_step limits w command w'"

lemma worker_command_refines:
  assumes "worker_command limits slow command w = (w', ctl)" "spool_rel limits (wk_disk w) h" "command_ok h command"
  shows "intact (wk_disk w') \<and> (ctl \<noteq> BreakLoop \<longrightarrow> spool_rel limits (wk_disk w') (history_command limits h command))"
proof (cases command)
  case (Packet p)
  then show ?thesis using packet_refines [of limits slow p w w' ctl h] assms by simp
next
  case (PrepareSnapshot requested cancelled)
  then show ?thesis using snapshot_refines [of limits requested w w' ctl h] assms spool_rel_intact
    by (auto split: if_splits)
next
  case ResetEpoch
  then show ?thesis using reset_refines [of w w' ctl limits] reset_intact [of w w' ctl limits h] assms
    by (auto simp: spool_rel_def)
next
  case ShutdownCommand
  then show ?thesis using assms spool_rel_intact by auto
qed

lemma publish_index_disk [simp]: "wk_disk (publish_index w) = wk_disk w" "wk_responses (publish_index w) = wk_responses w"
  by (simp_all add: publish_index_def)

interpretation spool: simulation "\<lambda>w h. spool_rel limits (wk_disk w) h" "worker_step limits" "history_command limits" command_ok
  for limits
proof
  fix w h command w'
  assume *: "spool_rel limits (wk_disk w) h" "command_ok h command" "worker_step limits w command w'"
  from *(3) show "spool_rel limits (wk_disk w') (history_command limits h command)"
    by (cases rule: worker_step.cases) (use worker_command_refines [OF _ *(1,2)] in \<open>fastforce+\<close>)
qed

lemma reset_starts_epoch:
  assumes "runs (worker_step limits) w0 (ResetEpoch # es) w" "limits_ok limits"
    and "admissible command_ok (history_command limits) empty_history es"
  shows "spool_rel limits (wk_disk w) (foldl (history_command limits) empty_history es)"
proof -
  from assms(1) obtain w1 where w1: "worker_step limits w0 ResetEpoch w1" "runs (worker_step limits) w1 es w"
    by (auto elim: runs_ConsE)
  from w1(1) have "spool_rel limits (wk_disk w1) empty_history"
    by (cases rule: worker_step.cases) (use reset_refines [OF _ assms(2)] in \<open>fastforce+\<close>)
  then show ?thesis using spool.simulates_runs [OF w1(2)] assms(3) by blast
qed


section \<open>A save reads back the recent window\<close>

lemma recent_segments_split:
  "\<exists>old. pss = old @ recent_segments requested pss \<and> (old \<noteq> [] \<longrightarrow> packet_end (last (last old)) \<le>
      packet_end (last (last pss)) - unat (duration_seconds requested) * 1000000000)"
proof -
  define P where "P = (\<lambda>ps. packet_end (last ps) > packet_end (last (last pss)) - unat (duration_seconds requested) * 1000000000)"
  define old where "old = rev (dropWhile P (rev pss))"
  have r: "recent_segments requested pss = rev (takeWhile P (rev pss))" by (simp add: recent_segments_def P_def)
  have "pss = old @ recent_segments requested pss"
    unfolding old_def r by (metis rev_append rev_rev_ident takeWhile_dropWhile_id)
  moreover have "\<not> P (last old)" if "old \<noteq> []"
    using that hd_dropWhile [of P "rev pss"] by (simp add: old_def last_rev)
  ultimately show ?thesis by (intro exI [of _ old]) (auto simp: P_def)
qed

lemma old_packet_outside_window:
  assumes "within_budget settings (x @ ys)" "x \<noteq> []" "timestamps_increase (x @ ys)" "\<forall>p \<in> set (x @ ys). packet_ok p"
    and "packet_end (last x) \<le> packet_end (last (x @ ys)) - unat (duration_seconds (rs_duration settings)) * 1000000000"
  shows False
proof -
  have ok: "packet_ok (last (x @ ys))" "packet_ok (last x)"
    using assms(2,4) last_in_set [of "x @ ys"] last_in_set [of x] by auto
  have "unat (pk_timestamp_ns (hd x)) \<le> unat (pk_timestamp_ns (last x))"
    using timestamps_last [of x "hd x"] assms(2,3)
    by (simp add: word_le_nat_alt timestamps_increase_def sorted_wrt_append)
  moreover have "unat (pk_timestamp_ns (last x)) < packet_end (last x)" using ok(2) by (simp add: packet_end_def packet_ok_iff)
  ultimately have "span_exceeds (x @ ys) (ucast (duration_seconds (rs_duration settings)) * 1000000000)"
    using assms(2,5) duration_ns [of "rs_duration settings"] unat_packet_end [OF ok(1)]
    by (simp add: span_exceeds_last word_less_nat_alt unat_saturating_sub NANOSECONDS_PER_SECOND_def)
  then show False using assms(1) by (simp add: within_budget_def)
qed

lemma recent_segments_cover:
  assumes "\<forall>ps \<in> set pss. segment_ok ps" "timestamps_increase (concat pss)" "rs_duration settings = requested"
  shows "longest_suffix (within_budget settings) (concat (recent_segments requested pss))
    = longest_suffix (within_budget settings) (concat pss)"
proof (rule longest_suffix_squeeze)
  let ?r = "recent_segments requested pss" and ?l = "longest_suffix (within_budget settings) (concat pss)"
  obtain old where old: "pss = old @ ?r"
    "old \<noteq> [] \<longrightarrow> packet_end (last (last old)) \<le> packet_end (last (last pss)) - unat (duration_seconds requested) * 1000000000"
    using recent_segments_split [of pss requested] by blast
  have c: "concat pss = concat old @ concat ?r" using arg_cong [OF old(1), of concat] by simp
  then show "suffix (concat ?r) (concat pss)" by (simp add: suffix_def)
  have ls: "suffix ?l (concat pss)" by (rule longest_suffix_suffix)
  show "suffix ?l (concat ?r)"
  proof (rule ccontr)
    assume no: "\<not> suffix ?l (concat ?r)"
    with ls c have "suffix (concat ?r) ?l" by (metis suffix_same_cases suffix_def)
    then obtain x where x: "?l = x @ concat ?r" by (auto simp: suffix_def)
    with no have ne: "x \<noteq> []" by auto
    from ls obtain z where zx: "concat pss = z @ x @ concat ?r" using x by (auto simp: suffix_def)
    then have z: "concat old = z @ x" using c by simp
    then have "old \<noteq> []" using ne by auto
    have seg2: "\<forall>ps \<in> set pss. ps \<noteq> []" using assms(1) by (simp add: segment_ok_def)
    have "set old \<subseteq> set pss" using arg_cong [OF old(1), of set] by simp
    then have seg1: "\<forall>ps \<in> set old. ps \<noteq> []" using seg2 by blast
    have last_concat: "last (concat qss) = last (last qss)" if "qss \<noteq> []" "\<forall>ps \<in> set qss. ps \<noteq> []" for qss :: "encoded_replay_packet list list"
      using that by (cases qss rule: rev_cases) auto
    have lx: "last x = last (last old)" using z ne last_concat [of old] seg1 \<open>old \<noteq> []\<close> by simp
    have lne: "?l \<noteq> []" using x ne by simp
    have "pss \<noteq> []" using arg_cong [OF old(1), of length] \<open>old \<noteq> []\<close> by auto
    then have lp: "last (x @ concat ?r) = last (last pss)"
      using last_concat [of pss] seg2 zx ne
      by (metis append_is_Nil_conv last_appendR)
    have "within_budget settings (x @ concat ?r)"
      using longest_suffix_nonempty [of "within_budget settings" "concat pss"] lne x by simp
    moreover have "timestamps_increase (x @ concat ?r)" using timestamps_suffix [OF ls assms(2)] x by simp
    moreover have "\<forall>p \<in> set (x @ concat ?r). packet_ok p"
      using set_mono_suffix [OF ls] assms(1) x by (fastforce simp: segment_ok_def)
    ultimately show False
      using old_packet_outside_window [of settings x "concat ?r"] ne old(2) \<open>old \<noteq> []\<close> assms(3) lx lp by simp
  qed
qed


lemma readable_any_budget:
  assumes "timestamps_increase ps" "\<forall>p \<in> set ps. packet_ok p"
  shows "readable settings ps"
proof -
  have "15 * 12 * 137500 \<le> unat (bu_maximum_ring_bytes (budget_from_settings settings))"
    by (cases "rs_duration settings"; cases "rs_quality settings"; simp add: budget_ring_bytes)
  then show ?thesis using assms by (fastforce simp: readable_def packet_ok_iff)
qed

lemma rel_segments_ok: "spool_rel limits d h \<Longrightarrow> ps \<in> set (sh_closed h) \<Longrightarrow> segment_ok ps"
  by (auto simp: spool_rel_def list_all2_conv_all_nth in_set_conv_nth holds_segment_def)

lemma seal_suffix:
  "\<exists>old. concat (sh_closed h) @ sh_open h = old @ concat (sh_closed (seal limits h))"
proof (cases "sh_open h = []")
  case False
  obtain z where "sh_closed h @ [sh_open h] = z @ longest_suffix (retained limits) (sh_closed h @ [sh_open h])"
    using longest_suffix_suffix [of "retained limits" "sh_closed h @ [sh_open h]"] by (auto simp: suffix_def)
  from arg_cong [OF this, of concat] False show ?thesis by (auto simp: seal_def)
qed (simp add: seal_def)

lemma seal_keeps_increase: "timestamps_increase (history_packets h) \<Longrightarrow> timestamps_increase (concat (sh_closed (seal limits h)))"
proof -
  assume ti: "timestamps_increase (history_packets h)"
  obtain old where "history_packets h = old @ concat (sh_closed (seal limits h))"
    using seal_suffix [of h limits] by (auto simp: history_packets_def)
  with ti show ?thesis by (simp add: timestamps_increase_def sorted_wrt_append)
qed

text \<open>A disk save reads back the most recent decodable window of what the spool retains. Take any run of the
  worker that starts with an epoch reset and did not stop, over any file system and any commands whose packets are
  valid with rising timestamps. If a snapshot request for some duration is then answered with pinned files, reading
  them succeeds and gives, in order and byte for byte, the longest suffix of the retained packets that starts at a
  keyframe and stays within the requested duration and the budget (packet ends not going back, and the newest
  segment within the budget).\<close>

lemma spool_save_window:
  assumes "runs (worker_step limits) w0 (ResetEpoch # es) w" "limits_ok limits"
    and "admissible command_ok (history_command limits) empty_history es"
    and "worker_command limits slow (PrepareSnapshot requested False) w = (w', ctl)"
    and "wk_responses w' = wk_responses w @ [Inr opened]"
    and "h = seal limits (foldl (history_command limits) empty_history es)"
    and "rs_duration settings = requested" "ends_increase (concat (sh_closed h))"
    and "within_budget settings (last (sh_closed h))" "reader_calm env"
  shows "\<exists>src. spool_scan opened settings env = Inr src
    \<and> drain_packets src = Inr (longest_suffix (within_budget settings) (concat (sh_closed h)))"
proof -
  let ?h = "foldl (history_command limits) empty_history es" and ?r = "recent_segments requested (sh_closed h)"
  note rel = reset_starts_epoch [OF assms(1-3)]
  have ti: "timestamps_increase (concat (sh_closed h))"
    using rel seal_keeps_increase by (simp add: assms(6) spool_rel_def)
  have ok: "\<forall>ps \<in> set (sh_closed h). segment_ok ps"
  proof (cases "sh_open ?h = []")
    case True
    then show ?thesis using rel_segments_ok [OF rel] by (simp add: assms(6) seal_def)
  next
    case False
    then have "segment_ok (sh_open ?h)" using rel by (auto simp: spool_rel_def holds_writer_def split: option.splits)
    then show ?thesis
      using False rel_segments_ok [OF rel] set_mono_suffix [OF longest_suffix_suffix [of "retained limits" "sh_closed ?h @ [sh_open ?h]"]]
      by (auto simp: assms(6) seal_def)
  qed
  have snap: "snapshot_command limits requested w = (w', ctl)" using assms(4) by simp
  have hold: "segments_hold opened ?r" "\<not> too_short requested (sh_closed h)"
    using snapshot_refines [OF snap rel] assms(5,6) by auto
  obtain old where old: "sh_closed h = old @ ?r" using recent_segments_split by blast
  have c: "concat (sh_closed h) = concat old @ concat ?r" using arg_cong [OF old, of concat] by simp
  have rne: "?r \<noteq> []" using hold(2) by (auto simp: too_short_def)
  have pk: "\<forall>p \<in> set (concat (sh_closed h)). packet_ok p" using ok by (auto simp: segment_ok_def)
  have rd: "readable settings (concat ?r)"
    by (rule readable_any_budget) (use ti pk c in \<open>auto simp: timestamps_increase_def sorted_wrt_append\<close>)
  have "ends_increase (concat ?r)" using assms(8) c by (simp add: ends_increase_def sorted_append)
  from rolling_is_longest [OF rd this] recent_segments_cover [OF ok ti assms(7)]
  have roll: "rolling (within_budget settings) (concat ?r) = longest_suffix (within_budget settings) (concat (sh_closed h))"
    by simp
  have lst: "sh_closed h \<noteq> []" "last (sh_closed h) \<in> set (sh_closed h)"
    using rne arg_cong [OF old, of length] by (auto intro!: last_in_set)
  then have "last (sh_closed h) \<noteq> []" using ok by (simp add: segment_ok_def)
  moreover have "suffix (last (sh_closed h)) (concat (sh_closed h))"
    using lst(1) by (metis append_butlast_last_id concat.simps(1) concat.simps(2) concat_append append_Nil2 suffix_def)
  then have "suffix (last (sh_closed h)) (longest_suffix (within_budget settings) (concat (sh_closed h)))"
    using assms(9) by (rule longest_suffix_maximal)
  ultimately have ne: "rolling (within_budget settings) (concat ?r) \<noteq> []" using roll by auto
  from spool_scan_spec [OF assms(10) rd hold(1) ne] obtain src where src: "spool_scan opened settings env = Inr src"
    "sq_env src = env" "list_all2 (denotes (sq_files src)) (sq_records src) (rolling (within_budget settings) (concat ?r))"
    by blast
  have "\<forall>p \<in> set (rolling (within_budget settings) (concat ?r)). packet_ok p"
    using rd set_mono_suffix [OF rolling_suffix [of "within_budget settings" "concat ?r"]] unfolding readable_def by (metis subsetD)
  then have "drain_packets src = Inr (rolling (within_budget settings) (concat ?r))"
    using drain_packets_spec [of src] src(2,3) assms(10) by simp
  then show ?thesis using src(1) roll by auto
qed

section \<open>Failures and a healthy disk\<close>

text \<open>C19: No failure of the file system ever puts a torn segment into the index. After an epoch reset and any
  commands after which the worker went on, whose packets are valid and carry timestamps above all earlier ones of the epoch (as the ring has
  checked before a packet is submitted), under any byte limit below \<open>2 ^ 63\<close>, whatever call of the next command fails and whether or not the worker stops
  for it, every segment of the index is a complete file on disk: the magic and the records of a packet list that
  starts at a keyframe, with the indexed length and time span, and the lists together have rising timestamps.\<close>

theorem index_survives_failures:
  assumes "runs (worker_step limits) w0 (ResetEpoch # es) w" "limits_ok limits"
    and "admissible command_ok (history_command limits) empty_history es"
    and "command_ok (foldl (history_command limits) empty_history es) command"
    and "worker_command limits slow command w = (w', ctl)"
  shows "\<exists>pss. list_all2 (\<lambda>s ps. fs_entries (sd_fs (wk_disk w')) (ss_path s) = Some (Plain (segment_file ps))
        \<and> segment_ok ps \<and> unat (ss_bytes s) = length (segment_file ps)
        \<and> ss_start_timestamp_ns s = pk_timestamp_ns (hd ps) \<and> unat (ss_end_timestamp_ns s) = packet_end (last ps))
      (si_segments (sd_index (wk_disk w'))) pss \<and> timestamps_increase (concat pss)"
proof -
  have "intact (wk_disk w')"
    using worker_command_refines [OF assms(5) reset_starts_epoch [OF assms(1-3)] assms(4)] by simp
  then obtain pss where "list_all2 (holds_segment (sd_fs (wk_disk w'))) (si_segments (sd_index (wk_disk w'))) pss"
    "timestamps_increase (concat pss)" by (auto simp: intact_def committed_def)
  then show ?thesis
    by (intro exI [of _ pss] conjI, elim list_all2_mono) (auto simp: holds_segment_def length_segment_file)
qed

lemma drop_writer_healthy: "healthy (sd_fs d) \<Longrightarrow> healthy (sd_fs (drop_writer d))"
  using healthy_after [OF keeps_health_calls(5) _ prod.collapse [symmetric]]
  by (cases "sd_current d") (auto simp: drop_writer_def)

lemma clear_healthy_rel:
  assumes "clear_completed_segments (sd_index d) (sd_fs d) = (fs, index, r)" "healthy (sd_fs d)" "spool_rel limits d h"
  shows "r = Inr () \<and> healthy fs"
proof (rule clear_healthy [OF assms(1,2), of "sh_closed h"])
  show "list_all2 (holds_segment (sd_fs d)) (si_segments (sd_index d)) (sh_closed h)"
    using assms(3) by (simp add: spool_rel_def)
  show "timestamps_increase (concat (sh_closed h))"
    using assms(3) by (simp add: spool_rel_def history_packets_def timestamps_increase_def sorted_wrt_append)
qed

lemma worker_command_healthy:
  assumes "worker_command limits slow command w = (w', ctl)" "spool_rel limits (wk_disk w) h" "command_ok h command"
    and "healthy (sd_fs (wk_disk w))"
  shows "healthy (sd_fs (wk_disk w')) \<and> (ctl = BreakLoop \<longleftrightarrow> command = ShutdownCommand)"
proof (cases command)
  case (Packet p)
  obtain d r where r: "process_packet limits p (wk_disk w) = (d, r)" by (metis surj_pair)
  show ?thesis
    using assms(1,3) Packet r process_packet_healthy [OF r assms(2) _ assms(4)] drop_writer_healthy [of d]
    by (cases r) (auto simp: packet_command_def Let_def)
next
  case (PrepareSnapshot requested cancelled)
  obtain d r where r: "pin_snapshot limits requested (wk_disk w) = (d, r)" by (metis surj_pair)
  show ?thesis
    using assms(1,4) PrepareSnapshot r pin_snapshot_healthy [OF r assms(2,4)]
    by (cases r) (auto simp: snapshot_command_def Let_def split: if_splits)
next
  case ResetEpoch
  let ?d = "drop_writer (wk_disk w)"
  obtain fs index r where c: "clear_completed_segments (sd_index ?d) (sd_fs ?d) = (fs, index, r)" by (metis prod_cases3)
  have rel: "spool_rel limits ?d (h\<lparr>sh_open := []\<rparr>)" by (rule drop_writer_rel [OF assms(2)])
  have hd: "healthy (sd_fs ?d)" by (rule drop_writer_healthy [OF assms(4)])
  have "r = Inr () \<and> healthy fs" by (rule clear_healthy_rel [OF c hd rel])
  then show ?thesis using assms(1) ResetEpoch c by (auto simp: reset_command_def Let_def)
next
  case ShutdownCommand
  then show ?thesis using assms(1,4) by auto
qed

lemma healthy_run:
  assumes "spool_rel limits (wk_disk w) h" "healthy (sd_fs (wk_disk w))" "ShutdownCommand \<notin> set es"
    and "admissible command_ok (history_command limits) h es"
  shows "\<exists>w'. runs (worker_step limits) w es w' \<and> healthy (sd_fs (wk_disk w'))"
  using assms
proof (induction es arbitrary: w h)
  case Nil
  then show ?case by (intro exI [of _ w]) (simp add: runs_Nil)
next
  case (Cons command es)
  obtain w1 ctl where c: "worker_command limits False command w = (w1, ctl)" by (metis surj_pair)
  note H = worker_command_healthy [OF c Cons.prems(1) _ Cons.prems(2)]
  note R = worker_command_refines [OF c Cons.prems(1)]
  have ctl: "ctl \<noteq> BreakLoop" "command_ok h command" using H Cons.prems(3,4) by auto
  define w2 where "w2 = (if ctl = Fallthrough then publish_index w1 else w1)"
  have st: "worker_step limits w command w2"
    using c ctl(1) by (cases ctl) (auto simp: w2_def intro: worker_step.intros)
  have "spool_rel limits (wk_disk w2) (history_command limits h command)" "healthy (sd_fs (wk_disk w2))"
    using R H ctl by (simp_all add: w2_def)
  from Cons.IH [OF this] Cons.prems(3,4) obtain w' where "runs (worker_step limits) w2 es w'" "healthy (sd_fs (wk_disk w'))"
    by auto
  then show ?case using runs_Cons [where step = "worker_step limits", OF st] by blast
qed

text \<open>A concrete run: an epoch of one keyframe that lasts a second.\<close>

definition sample_second :: encoded_replay_packet where
  "sample_second = \<lparr>pk_timestamp_ns = 1000, pk_duration_ns = 1000000000, pk_keyframe = True, pk_bytes = [1, 2, 3]\<rparr>"

definition healthy_fs :: spool_fs where
  "healthy_fs = \<lparr>fs_directory = DirectoryPresent, fs_entries = [SPOOL_MARKER \<mapsto> Plain MARKER_CONTENTS],
     fs_fault = (\<lambda>_. None), fs_calls = 0\<rparr>"

definition sample_limits :: spool_limits where
  "sample_limits = spool_limits_new RETAINED_DURATION Balanced Fps60"

definition sample_settings :: replay_settings where
  "sample_settings = default_replay_settings\<lparr>rs_duration := Seconds15\<rparr>"

lemma sample_second_ok: "packet_ok sample_second"
  by (simp add: packet_ok_iff sample_second_def)

lemma sample_worker_rel: "spool_rel sample_limits (wk_disk (worker_start spool_index_default healthy_fs)) empty_history"
  by (simp add: spool_rel_def worker_start_def spool_index_default_def holds_writer_def empty_history_def
      history_packets_def timestamps_increase_def sample_limits_def limits_new_ok)

lemma sample_limits_fields: "sl_duration_ns sample_limits = 900000000000" "2970000000 \<le> unat (sl_bytes sample_limits)"
  by (simp_all add: sample_limits_def spool_limits_new_def Let_def RETAINED_DURATION_def saturating_mul_def
      NANOSECONDS_PER_SECOND_def BYTES_PER_MEGABIT_def div_ceil_def)

lemma sample_history: "history_command sample_limits empty_history (Packet sample_second) = \<lparr>sh_closed = [], sh_open = [sample_second]\<rparr>"
  using fits_fresh [OF sample_second_ok]
  by (simp add: history_append_def empty_history_def rotates_def) (simp add: sample_second_def)

lemma sample_seal: "seal sample_limits \<lparr>sh_closed = [], sh_open = [sample_second]\<rparr> = \<lparr>sh_closed = [[sample_second]], sh_open = []\<rparr>"
proof -
  have "retained sample_limits [[sample_second]]"
    using sample_limits_fields by (simp add: retained_def segment_size_def record_size_def packet_end_def MAX_SEGMENTS_def sample_second_def)
  then show ?thesis by (simp add: seal_def)
qed

lemma sample_run:
  "\<exists>w. runs (worker_step sample_limits) (worker_start spool_index_default healthy_fs) [ResetEpoch, Packet sample_second] w
    \<and> healthy (sd_fs (wk_disk w))"
  by (rule healthy_run [OF sample_worker_rel])
    (use sample_second_ok in \<open>simp_all add: worker_start_def healthy_fs_def healthy_def history_packets_def empty_history_def\<close>)

theorem index_survives_failures_witness:
  "\<exists>w w' ctl pss. runs (worker_step sample_limits) (worker_start spool_index_default healthy_fs) [ResetEpoch, Packet sample_second] w
    \<and> worker_command sample_limits False (PrepareSnapshot Seconds15 False) w = (w', ctl)
    \<and> list_all2 (\<lambda>s ps. fs_entries (sd_fs (wk_disk w')) (ss_path s) = Some (Plain (segment_file ps)))
        (si_segments (sd_index (wk_disk w'))) pss"
proof -
  obtain w where w: "runs (worker_step sample_limits) (worker_start spool_index_default healthy_fs) [ResetEpoch, Packet sample_second] w"
    using sample_run by blast
  obtain w' ctl where c: "worker_command sample_limits False (PrepareSnapshot Seconds15 False) w = (w', ctl)" by (metis surj_pair)
  have ok: "limits_ok sample_limits" by (simp add: sample_limits_def limits_new_ok)
  have adm: "admissible command_ok (history_command sample_limits) empty_history [Packet sample_second]"
    using sample_second_ok by (simp add: history_packets_def empty_history_def)
  from index_survives_failures [OF w ok adm _ c] obtain pss where
    "list_all2 (\<lambda>s ps. fs_entries (sd_fs (wk_disk w')) (ss_path s) = Some (Plain (segment_file ps))
        \<and> segment_ok ps \<and> unat (ss_bytes s) = length (segment_file ps)
        \<and> ss_start_timestamp_ns s = pk_timestamp_ns (hd ps) \<and> unat (ss_end_timestamp_ns s) = packet_end (last ps))
      (si_segments (sd_index (wk_disk w'))) pss" by auto
  then have "list_all2 (\<lambda>s ps. fs_entries (sd_fs (wk_disk w')) (ss_path s) = Some (Plain (segment_file ps)))
      (si_segments (sd_index (wk_disk w'))) pss" by (rule list_all2_mono) blast
  with w c show ?thesis by blast
qed

lemma sample_sealed:
  "\<lparr>sh_closed = [[sample_second]], sh_open = []\<rparr> = seal sample_limits (foldl (history_command sample_limits) empty_history [Packet sample_second])"
  by (simp only: foldl.simps sample_history sample_seal)

lemma sample_limits_ok: "limits_ok sample_limits"
  by (simp add: sample_limits_def limits_new_ok)

lemma sample_admissible: "admissible command_ok (history_command sample_limits) empty_history [Packet sample_second]"
  using sample_second_ok by (simp add: history_packets_def empty_history_def)

lemma sample_snapshot:
  "\<exists>w w' opened. runs (worker_step sample_limits) (worker_start spool_index_default healthy_fs) [ResetEpoch, Packet sample_second] w
    \<and> worker_command sample_limits False (PrepareSnapshot Seconds15 False) w = (w', Fallthrough)
    \<and> wk_responses w' = wk_responses w @ [Inr opened]"
proof -
  obtain w where w: "runs (worker_step sample_limits) (worker_start spool_index_default healthy_fs) [ResetEpoch, Packet sample_second] w"
    "healthy (sd_fs (wk_disk w))" using sample_run by blast
  obtain w' ctl where c: "worker_command sample_limits False (PrepareSnapshot Seconds15 False) w = (w', ctl)" by (metis surj_pair)
  let ?h = "foldl (history_command sample_limits) empty_history [Packet sample_second]"
  have rel: "spool_rel sample_limits (wk_disk w) ?h" by (rule reset_starts_epoch [OF w(1) sample_limits_ok sample_admissible])
  obtain d r where r: "pin_snapshot sample_limits Seconds15 (wk_disk w) = (d, r)" by (metis surj_pair)
  have "\<not> too_short Seconds15 [[sample_second]]"
    by (simp add: too_short_def recent_segments_def packet_end_def sample_second_def)
  then obtain opened where "r = Inr opened"
    using pin_snapshot_refines [OF r rel, folded sample_sealed] pin_snapshot_healthy [OF r rel w(2), folded sample_sealed]
    by (cases r) (auto simp del: foldl.simps)
  then have "ctl = Fallthrough" "wk_responses w' = wk_responses w @ [Inr opened]"
    using c r by (auto simp: snapshot_command_def)
  then show ?thesis using w(1) c by blast
qed

lemma sample_within: "within_budget sample_settings [sample_second]"
proof -
  have "unat (bu_maximum_ring_bytes (budget_from_settings sample_settings)) = 49500000"
    "unat (bu_frame_capacity (budget_from_settings sample_settings)) = 900"
    by (simp_all add: budget_ring_bytes budget_frame_capacity sample_settings_def default_replay_settings_def)
  then show ?thesis
    by (simp add: within_budget_def span_exceeds_last sample_second_def sample_settings_def saturating_add_def saturating_sub_def)
qed

end
