(* ===== verification/Spool_Admission.thy ===== *)
theory Spool_Admission
  imports Spool_Worker
begin

text \<open>
  The concurrent side of the spool of \<open>redunar-daemon/src/replay_spool.rs\<close>: submitters that enter through
  \<open>try_submit\<close>, the worker that receives, closes admission and drains, and the owner that shuts down.
  Every access to a shared atomic is a step of its own and the threads interleave freely; a weak
  compare-exchange may fail spuriously. \<open>close_admission\<close> stores the phase with release ordering, which
  allows the store to stay in the storing thread's buffer while that thread goes on to load the number
  of active submitters: the memory order is a parameter of the step relation, and which guarantees
  survive the weaker order is part of what is proved.
\<close>

section \<open>State\<close>

definition COMMAND_CAPACITY :: nat where "COMMAND_CAPACITY = 64"

definition MAX_QUEUED_BYTES :: u64 where "MAX_QUEUED_BYTES = 32 * 1024 * 1024"

datatype memory_order = Sequential | StoreBuffered

datatype replay_spool_submit_error = QueueFull encoded_replay_packet | NotRunning encoded_replay_packet

type_synonym submit_result = "replay_spool_submit_error + unit"

text \<open>
  Where a submitter is in \<open>try_submit\<close>. \<open>Resting\<close> is outside it, with the last result; \<open>LoadActive\<close> to
  \<open>LeaveEntry\<close> are \<open>begin_submit\<close>, \<open>LoadQueued\<close> and \<open>ReserveCas\<close> are \<open>reserve_queued_bytes\<close>.
\<close>

datatype submitter =
    Resting "submit_result option"
  | LoadActive encoded_replay_packet
  | CheckPhase encoded_replay_packet u32
  | EnterCas encoded_replay_packet u32
  | Recheck encoded_replay_packet
  | LeaveEntry encoded_replay_packet
  | LoadQueued encoded_replay_packet
  | ReserveCas encoded_replay_packet u64
  | CountQueued encoded_replay_packet
  | Sending encoded_replay_packet
  | UndoCount encoded_replay_packet replay_spool_submit_error
  | UndoBytes encoded_replay_packet replay_spool_submit_error
  | CountDrop encoded_replay_packet
  | Leaving submit_result

text \<open>Where the worker is: its loop, \<open>close_admission (Failed)\<close>, the drain, and the end of its thread.\<close>

datatype worker_position =
    Receiving
  | Uncounting encoded_replay_packet
  | Releasing encoded_replay_packet
  | Handling
  | ClosingStore
  | ClosingWait
  | Draining
  | DrainUncount encoded_replay_packet
  | DrainRelease encoded_replay_packet
  | Dropping
  | Exited

text \<open>Where the owner is in \<open>shutdown (&mut self)\<close>: no other call can overlap it.\<close>

datatype owner_position = OwnerIdle | OwnerWait | OwnerSend | OwnerJoin | OwnerDone

record admission =
  ad_shared :: shared_stats
  ad_queue :: "spool_command list"
  ad_receiver :: bool
  ad_submitters :: "submitter list"
  ad_worker :: worker_position
  ad_owner :: owner_position
  ad_store :: "u8 option"
  ad_lost :: "spool_command list"

text \<open>\<open>ad_store\<close> is the worker's buffered store of the phase; \<open>ad_lost\<close> records what was still in the
  channel when its receiver was dropped.\<close>

definition admission_new :: "nat \<Rightarrow> spool_index \<Rightarrow> admission" where
  "admission_new n index = \<lparr>ad_shared = shared_new index, ad_queue = [], ad_receiver = True,
     ad_submitters = replicate n (Resting None), ad_worker = Receiving, ad_owner = OwnerIdle,
     ad_store = None, ad_lost = []\<rparr>"

section \<open>Steps\<close>

definition phase_running :: "admission \<Rightarrow> bool" where
  "phase_running a \<longleftrightarrow> sv_phase (ad_shared a) = phase_code SpoolRunning"

definition on_shared :: "(shared_stats \<Rightarrow> shared_stats) \<Rightarrow> admission \<Rightarrow> admission" where
  "on_shared f a = a\<lparr>ad_shared := f (ad_shared a)\<rparr>"

definition add_active :: "u32 \<Rightarrow> shared_stats \<Rightarrow> shared_stats" where
  "add_active n v = v\<lparr>sv_active_submitters := sv_active_submitters v + n\<rparr>"

definition add_queued :: "u32 \<Rightarrow> shared_stats \<Rightarrow> shared_stats" where
  "add_queued n v = v\<lparr>sv_queued_packets := sv_queued_packets v + n\<rparr>"

definition add_dropped :: "u64 \<Rightarrow> shared_stats \<Rightarrow> shared_stats" where
  "add_dropped n v = v\<lparr>sv_dropped_queue_full := sv_dropped_queue_full v + n\<rparr>"

text \<open>\<open>begin_submit\<close>: one access of a shared atomic per step.\<close>

definition check_phase :: "encoded_replay_packet \<Rightarrow> u32 \<Rightarrow> admission \<Rightarrow> submitter" where
  "check_phase p current a = (if \<not> phase_running a then Resting (Some (Inl (NotRunning p))) else EnterCas p current)"

definition enter_cas :: "bool \<Rightarrow> encoded_replay_packet \<Rightarrow> u32 \<Rightarrow> admission \<Rightarrow> submitter \<times> admission" where
  "enter_cas spurious p current a =
     (case checked_add current 1 of
        None \<Rightarrow> (Resting (Some (Inl (NotRunning p))), a)
      | Some after \<Rightarrow>
          let observed = sv_active_submitters (ad_shared a)
          in if observed = current \<and> \<not> spurious
             then (Recheck p, on_shared (\<lambda>v. v\<lparr>sv_active_submitters := after\<rparr>) a)
             else (CheckPhase p observed, a))"

text \<open>One round of \<open>reserve_queued_bytes\<close>.\<close>

definition reserve_round :: "bool \<Rightarrow> encoded_replay_packet \<Rightarrow> u64 \<Rightarrow> admission \<Rightarrow> submitter \<times> admission" where
  "reserve_round spurious p current a =
     (case checked_add current (len_u64 (pk_bytes p)) of
        None \<Rightarrow> (CountDrop p, a)
      | Some after \<Rightarrow>
          if MAX_QUEUED_BYTES < after then (CountDrop p, a)
          else let observed = sv_queued_bytes (ad_shared a)
               in if observed = current \<and> \<not> spurious
                  then (CountQueued p, on_shared (\<lambda>v. v\<lparr>sv_queued_bytes := after\<rparr>) a)
                  else (ReserveCas p observed, a))"

definition try_send :: "encoded_replay_packet \<Rightarrow> admission \<Rightarrow> submitter \<times> admission" where
  "try_send p a =
     (if \<not> ad_receiver a then (UndoCount p (NotRunning p), a)
      else if COMMAND_CAPACITY \<le> length (ad_queue a) then (UndoCount p (QueueFull p), a)
      else (Leaving (Inr ()), a\<lparr>ad_queue := ad_queue a @ [Packet p]\<rparr>))"

fun submitter_step :: "bool \<Rightarrow> submitter \<Rightarrow> admission \<Rightarrow> submitter \<times> admission" where
  "submitter_step spurious (Resting r) a = (Resting r, a)"
| "submitter_step spurious (LoadActive p) a = (CheckPhase p (sv_active_submitters (ad_shared a)), a)"
| "submitter_step spurious (CheckPhase p current) a = (check_phase p current a, a)"
| "submitter_step spurious (EnterCas p current) a = enter_cas spurious p current a"
| "submitter_step spurious (Recheck p) a = (if phase_running a then LoadQueued p else LeaveEntry p, a)"
| "submitter_step spurious (LeaveEntry p) a = (Resting (Some (Inl (NotRunning p))), on_shared (add_active (- 1)) a)"
| "submitter_step spurious (LoadQueued p) a = (ReserveCas p (sv_queued_bytes (ad_shared a)), a)"
| "submitter_step spurious (ReserveCas p current) a = reserve_round spurious p current a"
| "submitter_step spurious (CountQueued p) a = (Sending p, on_shared (add_queued 1) a)"
| "submitter_step spurious (Sending p) a = try_send p a"
| "submitter_step spurious (UndoCount p e) a = (UndoBytes p e, on_shared (add_queued (- 1)) a)"
| "submitter_step spurious (UndoBytes p e) a =
     (case e of QueueFull q \<Rightarrow> CountDrop q | NotRunning q \<Rightarrow> Leaving (Inl (NotRunning q)),
      on_shared (release_queued_bytes (len_u64 (pk_bytes p))) a)"
| "submitter_step spurious (CountDrop p) a = (Leaving (Inl (QueueFull p)), on_shared (add_dropped 1) a)"
| "submitter_step spurious (Leaving r) a = (Resting (Some r), on_shared (add_active (- 1)) a)"

text \<open>
  The worker. A receive, a read-modify-write or a thread exit completes the buffered store first, so
  those steps wait for it. \<open>failed\<close> is the outcome of the handled command: a storage failure or not.
  The code stores the phase with release ordering, which is \<open>StoreBuffered\<close>: the store may become visible
  after the worker's next load. \<open>Sequential\<close> is the stronger order of a sequentially consistent store.
\<close>

definition store_phase :: "memory_order \<Rightarrow> u8 \<Rightarrow> admission \<Rightarrow> admission" where
  "store_phase order code a = (case order of
     Sequential \<Rightarrow> on_shared (\<lambda>v. v\<lparr>sv_phase := code\<rparr>) a
   | StoreBuffered \<Rightarrow> a\<lparr>ad_store := Some code\<rparr>)"

fun worker_move :: "memory_order \<Rightarrow> bool \<Rightarrow> worker_position \<Rightarrow> admission \<Rightarrow> admission option" where
  "worker_move order failed Receiving a =
     (case ad_queue a of
        [] \<Rightarrow> None
      | Packet p # q \<Rightarrow> Some (a\<lparr>ad_queue := q, ad_worker := Uncounting p\<rparr>)
      | ShutdownCommand # q \<Rightarrow> Some (a\<lparr>ad_queue := q, ad_worker := Draining\<rparr>)
      | _ # q \<Rightarrow> Some (a\<lparr>ad_queue := q, ad_worker := Handling\<rparr>))"
| "worker_move order failed (Uncounting p) a = Some (on_shared (add_queued (- 1)) (a\<lparr>ad_worker := Releasing p\<rparr>))"
| "worker_move order failed (Releasing p) a =
     Some (on_shared (release_queued_bytes (len_u64 (pk_bytes p))) (a\<lparr>ad_worker := Handling\<rparr>))"
| "worker_move order failed Handling a = Some (a\<lparr>ad_worker := if failed then ClosingStore else Receiving\<rparr>)"
| "worker_move order failed ClosingStore a =
     Some (store_phase order (phase_code SpoolFailed) (a\<lparr>ad_worker := ClosingWait\<rparr>))"
| "worker_move order failed ClosingWait a =
     (if sv_active_submitters (ad_shared a) = 0 then Some (a\<lparr>ad_worker := Draining\<rparr>) else Some a)"
| "worker_move order failed Draining a =
     (if ad_store a \<noteq> None then None
      else case ad_queue a of
        [] \<Rightarrow> Some (a\<lparr>ad_worker := Dropping\<rparr>)
      | Packet p # q \<Rightarrow> Some (a\<lparr>ad_queue := q, ad_worker := DrainUncount p\<rparr>)
      | _ # q \<Rightarrow> Some (a\<lparr>ad_queue := q\<rparr>))"
| "worker_move order failed (DrainUncount p) a = Some (on_shared (add_queued (- 1)) (a\<lparr>ad_worker := DrainRelease p\<rparr>))"
| "worker_move order failed (DrainRelease p) a =
     Some (on_shared (release_queued_bytes (len_u64 (pk_bytes p))) (a\<lparr>ad_worker := Draining\<rparr>))"
| "worker_move order failed Dropping a =
     Some (a\<lparr>ad_receiver := False, ad_queue := [], ad_lost := ad_queue a, ad_worker := Exited\<rparr>)"
| "worker_move order failed Exited a = None"

text \<open>\<open>shutdown\<close>: it needs exclusive access, so it starts when every submitter rests.\<close>

fun resting :: "submitter \<Rightarrow> bool" where
  "resting (Resting r) \<longleftrightarrow> True"
| "resting _ \<longleftrightarrow> False"

fun owner_move :: "owner_position \<Rightarrow> admission \<Rightarrow> admission option" where
  "owner_move OwnerIdle a =
     (if list_all resting (ad_submitters a)
      then Some (on_shared (\<lambda>v. v\<lparr>sv_phase := phase_code SpoolShutdown\<rparr>) (a\<lparr>ad_owner := OwnerWait\<rparr>)) else None)"
| "owner_move OwnerWait a =
     (if sv_active_submitters (ad_shared a) = 0 then Some (a\<lparr>ad_owner := OwnerSend\<rparr>) else Some a)"
| "owner_move OwnerSend a =
     (if \<not> ad_receiver a then Some (a\<lparr>ad_owner := OwnerJoin\<rparr>)
      else if COMMAND_CAPACITY \<le> length (ad_queue a) then None
      else Some (a\<lparr>ad_queue := ad_queue a @ [ShutdownCommand], ad_owner := OwnerJoin\<rparr>))"
| "owner_move OwnerJoin a = (if ad_worker a = Exited then Some (a\<lparr>ad_owner := OwnerDone\<rparr>) else None)"
| "owner_move OwnerDone a = None"

datatype admission_event =
    Submit nat encoded_replay_packet
  | Advance nat bool
  | WorkerMove bool
  | CommitStore
  | Control spool_command
  | OwnerMove

inductive admission_step :: "memory_order \<Rightarrow> admission \<Rightarrow> admission_event \<Rightarrow> admission \<Rightarrow> bool" for order where
  submit: "i < length (ad_submitters a) \<Longrightarrow> resting (ad_submitters a ! i) \<Longrightarrow> ad_owner a \<in> {OwnerIdle, OwnerDone} \<Longrightarrow>
    admission_step order a (Submit i p) (a\<lparr>ad_submitters := (ad_submitters a)[i := LoadActive p]\<rparr>)"
| advance: "i < length (ad_submitters a) \<Longrightarrow> submitter_step spurious (ad_submitters a ! i) a = (t, b) \<Longrightarrow>
    admission_step order a (Advance i spurious) (b\<lparr>ad_submitters := (ad_submitters a)[i := t]\<rparr>)"
| worker: "worker_move order failed (ad_worker a) a = Some b \<Longrightarrow> admission_step order a (WorkerMove failed) b"
| commit: "ad_store a = Some code \<Longrightarrow>
    admission_step order a CommitStore (on_shared (\<lambda>v. v\<lparr>sv_phase := code\<rparr>) (a\<lparr>ad_store := None\<rparr>))"
| control: "ad_receiver a \<Longrightarrow> length (ad_queue a) < COMMAND_CAPACITY \<Longrightarrow> ad_owner a = OwnerIdle \<Longrightarrow>
    command = ResetEpoch \<or> (\<exists>requested cancelled. command = PrepareSnapshot requested cancelled) \<Longrightarrow>
    admission_step order a (Control command) (a\<lparr>ad_queue := ad_queue a @ [command]\<rparr>)"
| owner: "owner_move (ad_owner a) a = Some b \<Longrightarrow> admission_step order a OwnerMove b"

inductive_cases admission_stepE: "admission_step order a e b"

definition admission_init :: "admission \<Rightarrow> bool" where
  "admission_init a \<longleftrightarrow> (\<exists>n index. a = admission_new n index)"

section \<open>Accounting\<close>

text \<open>What each thread, and each queued command, contributes to the shared counters.\<close>

abbreviation packet_payload :: "encoded_replay_packet \<Rightarrow> nat" where
  "packet_payload p \<equiv> unat (len_u64 (pk_bytes p))"

fun inside :: "submitter \<Rightarrow> nat" where
  "inside (Resting _) = 0"
| "inside (LoadActive _) = 0"
| "inside (CheckPhase _ _) = 0"
| "inside (EnterCas _ _) = 0"
| "inside _ = 1"

fun admitted :: "submitter \<Rightarrow> bool" where
  "admitted (Recheck _) \<longleftrightarrow> False"
| "admitted (LeaveEntry _) \<longleftrightarrow> False"
| "admitted t \<longleftrightarrow> inside t = 1"

fun reserved :: "submitter \<Rightarrow> nat" where
  "reserved (CountQueued p) = packet_payload p"
| "reserved (Sending p) = packet_payload p"
| "reserved (UndoCount p _) = packet_payload p"
| "reserved (UndoBytes p _) = packet_payload p"
| "reserved _ = 0"

fun counted :: "submitter \<Rightarrow> nat" where
  "counted (Sending _) = 1"
| "counted (UndoCount _ _) = 1"
| "counted _ = 0"

fun held_bytes :: "worker_position \<Rightarrow> nat" where
  "held_bytes (Uncounting p) = packet_payload p"
| "held_bytes (Releasing p) = packet_payload p"
| "held_bytes (DrainUncount p) = packet_payload p"
| "held_bytes (DrainRelease p) = packet_payload p"
| "held_bytes _ = 0"

fun held_count :: "worker_position \<Rightarrow> nat" where
  "held_count (Uncounting _) = 1"
| "held_count (DrainUncount _) = 1"
| "held_count _ = 0"

fun command_bytes :: "spool_command \<Rightarrow> nat" where
  "command_bytes (Packet p) = packet_payload p"
| "command_bytes _ = 0"

fun command_count :: "spool_command \<Rightarrow> nat" where
  "command_count (Packet _) = 1"
| "command_count _ = 0"

abbreviation total_of :: "('a \<Rightarrow> nat) \<Rightarrow> 'a list \<Rightarrow> nat" where
  "total_of f xs \<equiv> sum_list (map f xs)"

text \<open>What is accounted for outside the submitters.\<close>

definition stock_bytes :: "admission \<Rightarrow> nat" where
  "stock_bytes a = total_of command_bytes (ad_queue a) + total_of command_bytes (ad_lost a) + held_bytes (ad_worker a)"

definition stock_count :: "admission \<Rightarrow> nat" where
  "stock_count a = total_of command_count (ad_queue a) + total_of command_count (ad_lost a) + held_count (ad_worker a)"

definition accounted :: "admission \<Rightarrow> bool" where
  "accounted a \<longleftrightarrow>
     unat (sv_active_submitters (ad_shared a)) = total_of inside (ad_submitters a)
   \<and> unat (sv_queued_bytes (ad_shared a)) = total_of reserved (ad_submitters a) + stock_bytes a
   \<and> sv_queued_packets (ad_shared a) = of_nat (total_of counted (ad_submitters a) + stock_count a)
   \<and> sv_queued_bytes (ad_shared a) \<le> MAX_QUEUED_BYTES
   \<and> length (ad_queue a) \<le> COMMAND_CAPACITY
   \<and> (ad_lost a = [] \<or> ad_worker a = Exited)"

lemma total_of_update: "i < length xs \<Longrightarrow> total_of f (xs[i := y]) + f (xs ! i) = total_of f xs + f y"
  by (induction xs arbitrary: i) (auto split: nat.split)

lemma total_of_ge: "i < length xs \<Longrightarrow> f (xs ! i) \<le> total_of f xs"
  by (rule elem_le_sum_list [of i "map f xs", simplified]) simp

lemma step_shape:
  assumes "submitter_step spurious t a = (t', b)"
  shows "ad_submitters b = ad_submitters a" "ad_worker b = ad_worker a" "ad_owner b = ad_owner a"
    "ad_store b = ad_store a" "ad_receiver b = ad_receiver a" "ad_lost b = ad_lost a"
    "sv_phase (ad_shared b) = sv_phase (ad_shared a)"
  using assms
  by (cases "(spurious, t, a)" rule: submitter_step.cases;
      auto simp: enter_cas_def reserve_round_def try_send_def on_shared_def add_active_def add_queued_def add_dropped_def
        release_queued_bytes_def Let_def split: if_splits option.splits)+

lemmas step_defs = check_phase_def enter_cas_def reserve_round_def try_send_def on_shared_def add_active_def add_queued_def
  add_dropped_def release_queued_bytes_def Let_def

lemma unat_decrement: "1 \<le> unat x \<Longrightarrow> unat (x + - 1) = unat x - 1" for x :: "'a::len word"
  using unat_sub [of 1 x] by (simp add: word_le_nat_alt)

lemma unat_checked_add: "checked_add x y = Some z \<Longrightarrow> unat z = unat x + unat y"
  by (auto simp: checked_add_def unat_word_ariths split: if_splits)

lemma step_active:
  assumes "submitter_step spurious t a = (t', b)" "inside t \<le> unat (sv_active_submitters (ad_shared a))"
  shows "unat (sv_active_submitters (ad_shared b)) + inside t = unat (sv_active_submitters (ad_shared a)) + inside t'"
  using assms unat_decrement [of "sv_active_submitters (ad_shared a)"]
  by (cases "(spurious, t, a)" rule: submitter_step.cases)
    (auto simp: step_defs split: if_splits option.splits replay_spool_submit_error.splits dest: unat_checked_add)

lemma step_bytes:
  assumes "submitter_step spurious t a = (t', b)" "reserved t \<le> unat (sv_queued_bytes (ad_shared a))"
  shows "unat (sv_queued_bytes (ad_shared b)) + reserved t + stock_bytes a
    = unat (sv_queued_bytes (ad_shared a)) + reserved t' + stock_bytes b"
  using assms
  by (cases "(spurious, t, a)" rule: submitter_step.cases)
    (auto simp: step_defs stock_bytes_def unat_sub word_le_nat_alt
      split: if_splits option.splits replay_spool_submit_error.splits dest: unat_checked_add)

lemma step_count:
  assumes "submitter_step spurious t a = (t', b)"
  shows "sv_queued_packets (ad_shared b) + of_nat (counted t) + of_nat (stock_count a)
    = sv_queued_packets (ad_shared a) + of_nat (counted t') + of_nat (stock_count b)"
  using assms
  by (cases "(spurious, t, a)" rule: submitter_step.cases)
    (auto simp: step_defs stock_count_def split: if_splits option.splits replay_spool_submit_error.splits)

lemma step_bounds:
  assumes "submitter_step spurious t a = (t', b)" "reserved t \<le> unat (sv_queued_bytes (ad_shared a))"
    and "sv_queued_bytes (ad_shared a) \<le> MAX_QUEUED_BYTES" "length (ad_queue a) \<le> COMMAND_CAPACITY"
  shows "sv_queued_bytes (ad_shared b) \<le> MAX_QUEUED_BYTES \<and> length (ad_queue b) \<le> COMMAND_CAPACITY"
  using assms
  by (cases "(spurious, t, a)" rule: submitter_step.cases)
    (auto simp: step_defs unat_sub word_le_nat_alt word_less_nat_alt
      split: if_splits option.splits replay_spool_submit_error.splits)

lemma advance_accounted:
  assumes "accounted a" "i < length (ad_submitters a)" "submitter_step spurious (ad_submitters a ! i) a = (t, b)"
  shows "accounted (b\<lparr>ad_submitters := (ad_submitters a)[i := t]\<rparr>)"
proof -
  note A = assms(1) [unfolded accounted_def]
  note ge = total_of_ge [OF assms(2)]
  note up = total_of_update [OF assms(2)]
  have ins: "inside (ad_submitters a ! i) \<le> unat (sv_active_submitters (ad_shared a))" using A ge [of inside] by simp
  have res: "reserved (ad_submitters a ! i) \<le> unat (sv_queued_bytes (ad_shared a))" using A ge [of reserved] by simp
  let ?b = "b\<lparr>ad_submitters := (ad_submitters a)[i := t]\<rparr>"
  have stock: "stock_bytes ?b = stock_bytes b" "stock_count ?b = stock_count b" by (simp_all add: stock_bytes_def stock_count_def)
  have "sv_queued_packets (ad_shared b) + of_nat (counted (ad_submitters a ! i)) + of_nat (stock_count a)
      = of_nat (total_of counted (ad_submitters a) + counted t) + of_nat (stock_count a) + of_nat (stock_count b)"
    using step_count [OF assms(3)] A by (simp add: algebra_simps)
  then have "sv_queued_packets (ad_shared b) = of_nat (total_of counted ((ad_submitters a)[i := t]) + stock_count b)"
    unfolding up [of counted t, symmetric] by simp
  then show ?thesis
    using A step_active [OF assms(3) ins] step_bytes [OF assms(3) res] step_bounds [OF assms(3) res] step_shape [OF assms(3)]
      up [of inside t] up [of reserved t]
    unfolding accounted_def stock by simp
qed

lemma submit_accounted:
  assumes "accounted a" "i < length (ad_submitters a)" "resting (ad_submitters a ! i)"
  shows "accounted (a\<lparr>ad_submitters := (ad_submitters a)[i := LoadActive p]\<rparr>)"
proof -
  have "inside (ad_submitters a ! i) = 0" "reserved (ad_submitters a ! i) = 0" "counted (ad_submitters a ! i) = 0"
    using assms(3) by (cases "ad_submitters a ! i"; simp)+
  then show ?thesis
    using assms(1) total_of_update [OF assms(2), of inside "LoadActive p"]
      total_of_update [OF assms(2), of reserved "LoadActive p"] total_of_update [OF assms(2), of counted "LoadActive p"]
    by (simp add: accounted_def stock_bytes_def stock_count_def)
qed

lemma worker_accounted:
  assumes "accounted a" "worker_move order failed (ad_worker a) a = Some b"
  shows "accounted b"
proof -
  have "len_u64 (pk_bytes p) \<le> sv_queued_bytes (ad_shared a)" if "packet_payload p \<le> stock_bytes a" for p
    using assms(1) that by (simp add: accounted_def word_le_nat_alt)
  then show ?thesis
    using assms
    by (cases "(order, failed, ad_worker a, a)" rule: worker_move.cases)
      (auto simp: accounted_def stock_bytes_def stock_count_def step_defs store_phase_def unat_sub word_le_nat_alt
        split: if_splits list.splits spool_command.splits memory_order.splits)
qed

lemma owner_accounted:
  assumes "accounted a" "owner_move (ad_owner a) a = Some b"
  shows "accounted b"
  using assms
  by (cases "(ad_owner a, a)" rule: owner_move.cases)
    (auto simp: accounted_def stock_bytes_def stock_count_def on_shared_def split: if_splits)

lemma commit_accounted: "accounted a \<Longrightarrow> accounted (on_shared (sv_phase_update f) (a\<lparr>ad_store := x\<rparr>))"
  by (simp add: accounted_def stock_bytes_def stock_count_def on_shared_def)

lemma control_accounted:
  assumes "accounted a" "length (ad_queue a) < COMMAND_CAPACITY" "command_bytes command = 0" "command_count command = 0"
  shows "accounted (a\<lparr>ad_queue := ad_queue a @ [command]\<rparr>)"
  using assms by (simp add: accounted_def stock_bytes_def stock_count_def)

lemma accounted_step: "accounted a \<Longrightarrow> admission_step order a e b \<Longrightarrow> accounted b"
  by (erule admission_stepE)
    (auto intro: submit_accounted advance_accounted worker_accounted commit_accounted control_accounted owner_accounted)

lemma accounted_init: "admission_init a \<Longrightarrow> accounted a"
  by (auto simp: admission_init_def admission_new_def accounted_def stock_bytes_def stock_count_def shared_new_def
      map_replicate_const sum_list_replicate)

interpretation counters: event_system admission_init "admission_step order" accounted for order
  by unfold_locales (fact accounted_init, fact accounted_step)

section \<open>Closing admission\<close>

text \<open>Under the sequential order the phase read after entering and the count read after closing cannot both
  be stale: once a closer has seen no active submitter, nobody is admitted again.\<close>

definition closed :: "admission \<Rightarrow> bool" where
  "closed a \<longleftrightarrow> \<not> phase_running a \<and> list_all (\<lambda>t. \<not> admitted t) (ad_submitters a)"

fun past_close :: "worker_position \<Rightarrow> bool" where
  "past_close Draining \<longleftrightarrow> True"
| "past_close (DrainUncount _) \<longleftrightarrow> True"
| "past_close (DrainRelease _) \<longleftrightarrow> True"
| "past_close Dropping \<longleftrightarrow> True"
| "past_close Exited \<longleftrightarrow> True"
| "past_close _ \<longleftrightarrow> False"

definition closes_cleanly :: "admission \<Rightarrow> bool" where
  "closes_cleanly a \<longleftrightarrow> accounted a \<and> ad_store a = None
     \<and> (ad_worker a = ClosingWait \<longrightarrow> \<not> phase_running a)
     \<and> (past_close (ad_worker a) \<or> ShutdownCommand \<in> set (ad_queue a) \<or> ad_owner a \<in> {OwnerSend, OwnerJoin, OwnerDone}
          \<longrightarrow> closed a)
     \<and> (ad_owner a = OwnerWait \<longrightarrow> \<not> phase_running a)
     \<and> (ad_worker a \<in> {Dropping, Exited} \<longrightarrow> total_of command_bytes (ad_queue a) = 0 \<and> total_of command_count (ad_queue a) = 0)
     \<and> (ad_worker a = Exited \<longrightarrow> total_of command_bytes (ad_lost a) = 0 \<and> total_of command_count (ad_lost a) = 0)"

lemma step_closed:
  assumes "submitter_step spurious t a = (t', b)" "\<not> phase_running a" "\<not> admitted t"
  shows "\<not> admitted t' \<and> ad_queue b = ad_queue a"
  using assms
  by (cases "(spurious, t, a)" rule: submitter_step.cases)
    (auto simp: step_defs split: if_splits option.splits)

lemma step_commands:
  assumes "submitter_step spurious t a = (t', b)"
  shows "ShutdownCommand \<in> set (ad_queue b) \<longleftrightarrow> ShutdownCommand \<in> set (ad_queue a)"
  using assms
  by (cases "(spurious, t, a)" rule: submitter_step.cases)
    (auto simp: step_defs split: if_splits option.splits)

lemma no_submitters_closed:
  assumes "accounted a" "sv_active_submitters (ad_shared a) = 0"
  shows "list_all (\<lambda>t. \<not> admitted t) (ad_submitters a)"
proof -
  have "inside t = 0" if "t \<in> set (ad_submitters a)" for t
    using assms that by (auto simp: accounted_def)
  moreover have "\<not> admitted t" if "inside t = 0" for t using that by (cases t) simp_all
  ultimately show ?thesis by (simp add: list_all_iff)
qed

lemma phase_running_update [simp]:
  "phase_running (a\<lparr>ad_queue := q\<rparr>) = phase_running a" "phase_running (a\<lparr>ad_worker := w\<rparr>) = phase_running a"
  "phase_running (a\<lparr>ad_owner := p\<rparr>) = phase_running a" "phase_running (a\<lparr>ad_submitters := ts\<rparr>) = phase_running a"
  "phase_running (a\<lparr>ad_store := x\<rparr>) = phase_running a" "phase_running (a\<lparr>ad_lost := l\<rparr>) = phase_running a"
  "phase_running (a\<lparr>ad_receiver := r\<rparr>) = phase_running a"
  "phase_running (on_shared (add_queued n) a) = phase_running a"
  "phase_running (on_shared (release_queued_bytes m) a) = phase_running a"
  "\<not> phase_running (on_shared (\<lambda>v. v\<lparr>sv_phase := phase_code SpoolFailed\<rparr>) a)"
  "\<not> phase_running (on_shared (\<lambda>v. v\<lparr>sv_phase := phase_code SpoolShutdown\<rparr>) a)"
  by (simp_all add: phase_running_def on_shared_def add_queued_def release_queued_bytes_def)

lemma closes_cleanly_advance:
  assumes "closes_cleanly a" "i < length (ad_submitters a)" "submitter_step spurious (ad_submitters a ! i) a = (t, b)"
  shows "closes_cleanly (b\<lparr>ad_submitters := (ad_submitters a)[i := t]\<rparr>)"
proof -
  note A = assms(1) [unfolded closes_cleanly_def]
  note S = step_shape [OF assms(3)]
  have run: "phase_running b = phase_running a" by (simp add: phase_running_def S(7))
  have stays: "ad_queue b = ad_queue a \<and> closed (b\<lparr>ad_submitters := (ad_submitters a)[i := t]\<rparr>)" if "closed a"
    using that step_closed [OF assms(3)] assms(2) run by (auto simp: closed_def list_all_length nth_list_update)
  have acc: "accounted (b\<lparr>ad_submitters := (ad_submitters a)[i := t]\<rparr>)"
    using advance_accounted [OF _ assms(2,3)] A by blast
  show ?thesis
  proof (cases "closed a")
    case True
    then show ?thesis using A S run stays acc by (auto simp: closes_cleanly_def)
  next
    case False
    then have "\<not> past_close (ad_worker a)" "ShutdownCommand \<notin> set (ad_queue b)" "ad_owner a \<notin> {OwnerSend, OwnerJoin, OwnerDone}"
      using A step_commands [OF assms(3)] by auto
    then show ?thesis using A S run acc by (auto simp: closes_cleanly_def)
  qed
qed

lemma worker_shape:
  assumes "worker_move Sequential failed (ad_worker a) a = Some b"
  shows "ad_submitters b = ad_submitters a" "ad_owner b = ad_owner a" "ad_store b = ad_store a"
    "set (ad_queue b) \<subseteq> set (ad_queue a)" "phase_running b \<Longrightarrow> phase_running a"
  using assms
  by (cases "(Sequential, failed, ad_worker a, a)" rule: worker_move.cases;
      auto simp: store_phase_def on_shared_def add_queued_def release_queued_bytes_def phase_running_def
        split: if_splits list.splits spool_command.splits)+

lemma worker_closes:
  assumes "worker_move Sequential failed (ad_worker a) a = Some b" "past_close (ad_worker b)"
  shows "past_close (ad_worker a) \<or> ShutdownCommand \<in> set (ad_queue a)
    \<or> ad_worker a = ClosingWait \<and> sv_active_submitters (ad_shared a) = 0"
  using assms
  by (cases "(Sequential, failed, ad_worker a, a)" rule: worker_move.cases)
    (auto simp: store_phase_def on_shared_def split: if_splits list.splits spool_command.splits)

lemma worker_waits:
  assumes "worker_move Sequential failed (ad_worker a) a = Some b" "ad_worker b = ClosingWait" "ad_worker a \<noteq> ClosingWait"
  shows "\<not> phase_running b"
  using assms
  by (cases "(Sequential, failed, ad_worker a, a)" rule: worker_move.cases)
    (auto simp: store_phase_def on_shared_def phase_running_def split: if_splits list.splits spool_command.splits)

lemma worker_drops:
  assumes "worker_move Sequential failed (ad_worker a) a = Some b"
  shows "ad_worker b = Dropping \<Longrightarrow> ad_queue b = []"
    and "ad_worker b = Exited \<Longrightarrow> ad_worker a = Dropping \<and> ad_queue b = [] \<and> ad_lost b = ad_queue a"
  using assms
  by (cases "(Sequential, failed, ad_worker a, a)" rule: worker_move.cases;
      auto simp: store_phase_def on_shared_def split: if_splits list.splits spool_command.splits)+

lemma closes_cleanly_worker:
  assumes "closes_cleanly a" "worker_move Sequential failed (ad_worker a) a = Some b"
  shows "closes_cleanly b"
proof -
  note A = assms(1) [unfolded closes_cleanly_def]
  note S = worker_shape [OF assms(2)]
  have acc: "accounted b" using worker_accounted assms(2) A by blast
  have stays: "closed b" if "closed a" using that S(1,5) by (auto simp: closed_def)
  have past: "past_close (ad_worker a) \<or> ShutdownCommand \<in> set (ad_queue a) \<or> ad_owner a \<in> {OwnerSend, OwnerJoin, OwnerDone}
    \<longrightarrow> closed a" using A by blast
  have "closed b" if "past_close (ad_worker b)"
  proof (rule stays)
    have "closed a" if "ad_worker a = ClosingWait" "sv_active_submitters (ad_shared a) = 0"
      using that A no_submitters_closed [of a] by (simp add: closed_def)
    then show "closed a" using worker_closes [OF assms(2) \<open>past_close (ad_worker b)\<close>] past by blast
  qed
  moreover have "closed b" if "ShutdownCommand \<in> set (ad_queue b) \<or> ad_owner b \<in> {OwnerSend, OwnerJoin, OwnerDone}"
    using that S(2,4) past stays by auto
  moreover have "\<not> phase_running b" if "ad_worker b = ClosingWait"
    using worker_waits [OF assms(2) that] S(5) A by blast
  moreover have "\<not> phase_running b" if "ad_owner b = OwnerWait" using that S(2,5) A by auto
  moreover have "total_of command_bytes (ad_queue b) = 0 \<and> total_of command_count (ad_queue b) = 0"
    if "ad_worker b \<in> {Dropping, Exited}" using that worker_drops [OF assms(2)] by auto
  moreover have "total_of command_bytes (ad_lost b) = 0 \<and> total_of command_count (ad_lost b) = 0"
    if "ad_worker b = Exited" using worker_drops(2) [OF assms(2) that] A by simp
  ultimately show ?thesis using acc S(3) A unfolding closes_cleanly_def by simp
qed

lemma owner_shape:
  assumes "owner_move (ad_owner a) a = Some b"
  shows "ad_submitters b = ad_submitters a" "ad_worker b = ad_worker a" "ad_store b = ad_store a" "ad_lost b = ad_lost a"
    "phase_running b \<Longrightarrow> phase_running a" "ad_queue b = ad_queue a \<or> ad_queue b = ad_queue a @ [ShutdownCommand] \<and> ad_owner a = OwnerSend"
    "ad_owner b = OwnerWait \<Longrightarrow> ad_owner a = OwnerIdle \<and> \<not> phase_running b \<or> ad_owner a = OwnerWait"
    "ad_owner b \<in> {OwnerSend, OwnerJoin, OwnerDone} \<Longrightarrow> ad_owner a \<in> {OwnerSend, OwnerJoin, OwnerDone}
      \<or> ad_owner a = OwnerWait \<and> sv_active_submitters (ad_shared a) = 0"
  using assms by (cases "ad_owner a"; auto simp: on_shared_def phase_running_def split: if_splits)+

lemma closes_cleanly_owner:
  assumes "closes_cleanly a" "owner_move (ad_owner a) a = Some b"
  shows "closes_cleanly b"
proof -
  note A = assms(1) [unfolded closes_cleanly_def]
  note S = owner_shape [OF assms(2)]
  have acc: "accounted b" using owner_accounted assms(2) A by blast
  have stays: "closed b" if "closed a" using that S(1,5) by (auto simp: closed_def)
  have "closed a" if "ad_owner b \<in> {OwnerSend, OwnerJoin, OwnerDone}"
    using S(8) [OF that] A no_submitters_closed [of a] by (auto simp: closed_def)
  moreover have "closed a" if "ShutdownCommand \<in> set (ad_queue b) \<or> past_close (ad_worker b)"
    using that S(2,6) A by auto
  moreover have "\<not> phase_running b" if "ad_worker b = ClosingWait" using that S(2,5) A by auto
  moreover have "\<not> phase_running b" if "ad_owner b = OwnerWait" using S(7) [OF that] S(5) A by auto
  moreover have "total_of command_bytes (ad_queue b) = total_of command_bytes (ad_queue a)"
    "total_of command_count (ad_queue b) = total_of command_count (ad_queue a)" using S(6) by auto
  ultimately show ?thesis using acc S(2-4) A stays unfolding closes_cleanly_def by simp
qed

lemma closes_cleanly_submit:
  assumes "closes_cleanly a" "i < length (ad_submitters a)" "resting (ad_submitters a ! i)"
  shows "closes_cleanly (a\<lparr>ad_submitters := (ad_submitters a)[i := LoadActive p]\<rparr>)"
proof -
  note A = assms(1) [unfolded closes_cleanly_def]
  have "accounted (a\<lparr>ad_submitters := (ad_submitters a)[i := LoadActive p]\<rparr>)" using submit_accounted assms(2,3) A by blast
  moreover have "closed (a\<lparr>ad_submitters := (ad_submitters a)[i := LoadActive p]\<rparr>)" if "closed a"
    using that assms(2) by (simp add: closed_def list_all_length nth_list_update)
  ultimately show ?thesis using A by (auto simp: closes_cleanly_def)
qed

lemma closes_cleanly_control:
  assumes "closes_cleanly a" "length (ad_queue a) < COMMAND_CAPACITY" "command_bytes command = 0" "command_count command = 0"
    and "command \<noteq> ShutdownCommand"
  shows "closes_cleanly (a\<lparr>ad_queue := ad_queue a @ [command]\<rparr>)"
  using assms control_accounted [of a command] by (auto simp: closes_cleanly_def closed_def)

lemma closes_cleanly_step: "closes_cleanly a \<Longrightarrow> admission_step Sequential a e b \<Longrightarrow> closes_cleanly b"
proof (erule admission_stepE)
  fix code
  assume "closes_cleanly a" "ad_store a = Some code"
  then show "closes_cleanly b" by (simp add: closes_cleanly_def)
qed (auto intro: closes_cleanly_advance closes_cleanly_worker closes_cleanly_owner closes_cleanly_submit closes_cleanly_control)

lemma closes_cleanly_init: "admission_init a \<Longrightarrow> closes_cleanly a"
  using accounted_init [of a] by (auto simp: closes_cleanly_def admission_init_def admission_new_def)

interpretation closing: event_system admission_init "admission_step Sequential" closes_cleanly
  by unfold_locales (fact closes_cleanly_init, fact closes_cleanly_step)

section \<open>Properties\<close>

text \<open>C20: In every interleaving of submitters, worker, control path and shutdown, under either memory order,
  the queue holds at most 64 commands, and the shared byte counter is exactly the bytes reserved by submitters, those
  of the queued commands, those the worker has just received, and those of packets that went away with the receiver
  (none under the sequential order; under \<open>StoreBuffered\<close>, the order of the code's release and acquire accesses, a
  submitter admitted during the close can lose one, whose bytes then stay counted). The counter never exceeds 32 MiB, so no reservation
  is released twice or wrapped around, and the active-submitter count is exact, whatever compare-exchanges fail.\<close>

theorem spool_queue_is_bounded:
  assumes "reach admission_init (admission_step order) a"
  shows "length (ad_queue a) \<le> 64 \<and> total_of command_bytes (ad_queue a) \<le> 32 * 1024 * 1024
    \<and> unat (sv_queued_bytes (ad_shared a)) = total_of reserved (ad_submitters a) + total_of command_bytes (ad_queue a)
        + total_of command_bytes (ad_lost a) + held_bytes (ad_worker a)
    \<and> unat (sv_queued_bytes (ad_shared a)) \<le> 32 * 1024 * 1024
    \<and> unat (sv_active_submitters (ad_shared a)) = total_of inside (ad_submitters a)
    \<and> (order = Sequential \<longrightarrow> total_of command_bytes (ad_lost a) = 0)"
proof -
  have "total_of command_bytes (ad_lost a) = 0" if "order = Sequential"
  proof -
    have c: "closes_cleanly a" by (rule closing.inv_reach [OF assms [unfolded that]])
    have "ad_lost a = [] \<or> ad_worker a = Exited" using counters.inv_reach [OF assms] unfolding accounted_def by blast
    moreover have "ad_worker a = Exited \<longrightarrow> total_of command_bytes (ad_lost a) = 0" using c unfolding closes_cleanly_def by blast
    ultimately show ?thesis by auto
  qed
  moreover have "accounted a" by (rule counters.inv_reach [OF assms])
  ultimately show ?thesis
    by (simp add: accounted_def stock_bytes_def COMMAND_CAPACITY_def MAX_QUEUED_BYTES_def word_le_nat_alt)
qed

text \<open>If the phase store were sequentially consistent with the later load, then once the worker has exited, after a
  failure or a shutdown, admission would be closed for good: no submitter is past the phase check, the channel's
  receiver has gone away with no packet in it, the packet and byte counters are zero, and when the submitters are
  back the submitter counter is zero too.\<close>

theorem closed_spool_drains:
  assumes "reach admission_init (admission_step Sequential) a" "ad_worker a = Exited"
  shows "sv_phase (ad_shared a) \<noteq> phase_code SpoolRunning \<and> list_all (\<lambda>t. \<not> admitted t) (ad_submitters a)
    \<and> (\<forall>p. Packet p \<notin> set (ad_queue a @ ad_lost a))
    \<and> sv_queued_bytes (ad_shared a) = 0 \<and> sv_queued_packets (ad_shared a) = 0
    \<and> (list_all resting (ad_submitters a) \<longrightarrow> sv_active_submitters (ad_shared a) = 0)"
proof -
  note inv = closing.inv_reach [OF assms(1), unfolded closes_cleanly_def]
  have cl: "closed a" using inv assms(2) by simp
  have no: "Packet p \<notin> set q" if "total_of command_count q = 0" for q p using that by (induction q) auto
  have "reserved t = 0 \<and> counted t = 0" if "\<not> admitted t" for t using that by (cases t) simp_all
  then have z: "total_of reserved (ad_submitters a) = 0" "total_of counted (ad_submitters a) = 0"
    using cl by (auto simp: closed_def list_all_iff)
  have lost: "total_of command_bytes (ad_queue a) = 0" "total_of command_count (ad_queue a) = 0"
    "total_of command_bytes (ad_lost a) = 0" "total_of command_count (ad_lost a) = 0" using inv assms(2) by blast+
  have "inside t = 0" if "resting t" for t using that by (cases t) simp_all
  then have "list_all resting (ad_submitters a) \<longrightarrow> total_of inside (ad_submitters a) = 0"
    by (auto simp: list_all_iff)
  moreover have "unat (sv_active_submitters (ad_shared a)) = total_of inside (ad_submitters a)"
    "unat (sv_queued_bytes (ad_shared a)) = 0" "sv_queued_packets (ad_shared a) = 0"
    using inv assms(2) z lost by (simp_all add: accounted_def stock_bytes_def stock_count_def del: sum_list_eq_0_iff)
  ultimately show ?thesis
    using cl no [OF lost(2)] no [OF lost(4)] by (auto simp: closed_def phase_running_def unat_eq_0 simp del: sum_list_eq_0_iff)
qed

text \<open>A submission runs alone, then the worker receives it; the worker fails on it and stops.\<close>

definition sample_admission :: admission where
  "sample_admission = admission_new 1 spool_index_default"

fun admission_do :: "memory_order \<Rightarrow> admission \<Rightarrow> admission_event \<Rightarrow> admission" where
  "admission_do order a (Submit i p) = a\<lparr>ad_submitters := (ad_submitters a)[i := LoadActive p]\<rparr>"
| "admission_do order a (Advance i spurious) = (case submitter_step spurious (ad_submitters a ! i) a of
     (t, b) \<Rightarrow> b\<lparr>ad_submitters := (ad_submitters a)[i := t]\<rparr>)"
| "admission_do order a (WorkerMove failed) = the (worker_move order failed (ad_worker a) a)"
| "admission_do order a CommitStore = on_shared (\<lambda>v. v\<lparr>sv_phase := the (ad_store a)\<rparr>) (a\<lparr>ad_store := None\<rparr>)"
| "admission_do order a (Control command) = a\<lparr>ad_queue := ad_queue a @ [command]\<rparr>"
| "admission_do order a OwnerMove = the (owner_move (ad_owner a) a)"

fun enabled :: "memory_order \<Rightarrow> admission \<Rightarrow> admission_event \<Rightarrow> bool" where
  "enabled order a (Submit i p) \<longleftrightarrow> i < length (ad_submitters a) \<and> resting (ad_submitters a ! i) \<and> ad_owner a \<in> {OwnerIdle, OwnerDone}"
| "enabled order a (Advance i spurious) \<longleftrightarrow> i < length (ad_submitters a)"
| "enabled order a (WorkerMove failed) \<longleftrightarrow> worker_move order failed (ad_worker a) a \<noteq> None"
| "enabled order a CommitStore \<longleftrightarrow> ad_store a \<noteq> None"
| "enabled order a (Control command) \<longleftrightarrow> False"
| "enabled order a OwnerMove \<longleftrightarrow> owner_move (ad_owner a) a \<noteq> None"

lemma admission_do_step: "enabled order a e \<Longrightarrow> admission_step order a e (admission_do order a e)"
  by (cases e) (auto intro: admission_step.intros split: prod.splits)

fun schedule :: "memory_order \<Rightarrow> admission \<Rightarrow> admission_event list \<Rightarrow> admission option" where
  "schedule order a [] = Some a"
| "schedule order a (e # es) = (if enabled order a e then schedule order (admission_do order a e) es else None)"

lemma schedule_reach:
  "schedule order a es = Some b \<Longrightarrow> reach admission_init (admission_step order) a \<Longrightarrow> reach admission_init (admission_step order) b"
  by (induction es arbitrary: a) (auto intro: reach_step dest: admission_do_step split: if_splits)

definition submit_alone :: "encoded_replay_packet \<Rightarrow> admission_event list" where
  "submit_alone p = [Submit 0 p, Advance 0 False, Advance 0 False, Advance 0 False, Advance 0 False, Advance 0 False,
     Advance 0 False, Advance 0 False, Advance 0 False, Advance 0 False]"

lemmas schedule_simps = submit_alone_def sample_admission_def admission_new_def step_defs phase_running_def store_phase_def
  shared_new_def checked_add_def len_u64_def sample_second_def MAX_QUEUED_BYTES_def COMMAND_CAPACITY_def try_from_def

lemma sample_submit:
  "schedule order sample_admission (submit_alone sample_second) = Some (sample_admission
     \<lparr>ad_submitters := [Resting (Some (Inr ()))], ad_queue := [Packet sample_second],
      ad_shared := (shared_new spool_index_default)\<lparr>sv_queued_packets := 1, sv_queued_bytes := 3\<rparr>\<rparr>)"
  by (simp add: schedule_simps)

definition after_submit :: admission where
  "after_submit = sample_admission
     \<lparr>ad_submitters := [Resting (Some (Inr ()))], ad_queue := [Packet sample_second],
      ad_shared := (shared_new spool_index_default)\<lparr>sv_queued_packets := 1, sv_queued_bytes := 3\<rparr>\<rparr>"

lemma sample_reach: "reach admission_init (admission_step order) after_submit"
  by (rule schedule_reach [OF sample_submit [folded after_submit_def] reach_init])
    (auto simp: admission_init_def sample_admission_def)

theorem spool_queue_is_bounded_witness:
  "reach admission_init (admission_step StoreBuffered) after_submit
    \<and> unat (sv_queued_bytes (ad_shared after_submit)) = total_of reserved (ad_submitters after_submit)
        + total_of command_bytes (ad_queue after_submit) + total_of command_bytes (ad_lost after_submit)
        + held_bytes (ad_worker after_submit)
    \<and> sv_queued_bytes (ad_shared after_submit) = 3"
  using spool_queue_is_bounded [OF sample_reach [of StoreBuffered]] sample_reach [of StoreBuffered]
  by (simp add: after_submit_def)

text \<open>The worker receives the packet, fails on it, closes admission and drains.\<close>

definition worker_fails :: "admission_event list" where
  "worker_fails = [WorkerMove False, WorkerMove False, WorkerMove False, WorkerMove True, WorkerMove False, WorkerMove False]"

lemma sample_failure:
  "\<exists>a. schedule Sequential after_submit (worker_fails @ [WorkerMove False, WorkerMove False]) = Some a \<and> ad_worker a = Exited"
  by (simp add: worker_fails_def after_submit_def schedule_simps)

theorem closed_spool_drains_witness:
  "\<exists>a. reach admission_init (admission_step Sequential) a \<and> ad_worker a = Exited \<and> sv_queued_bytes (ad_shared a) = 0"
proof -
  obtain a where a: "schedule Sequential after_submit (worker_fails @ [WorkerMove False, WorkerMove False]) = Some a"
    "ad_worker a = Exited" using sample_failure by blast
  note r = schedule_reach [OF a(1) sample_reach]
  show ?thesis using r a(2) closed_spool_drains [OF r a(2)] by blast
qed

text \<open>With the release store that the code uses, the close is not final. The failing worker may still
  have its phase store buffered when it reads a submitter count of zero; a submitter that then enters
  reads the old phase, is admitted, and sends after the drain. The call answers Ok, the packet goes
  away with the receiver, and its bytes stay counted.\<close>

theorem buffered_close_loses_packet:
  "\<exists>a. reach admission_init (admission_step StoreBuffered) a \<and> ad_worker a = Exited
    \<and> ad_submitters a = [Resting (Some (Inr ()))] \<and> ad_lost a = [Packet sample_second]
    \<and> sv_queued_bytes (ad_shared a) = 3 \<and> sv_queued_packets (ad_shared a) = 1"
proof -
  let ?race = "worker_fails @ take 8 (submit_alone sample_second)
    @ [CommitStore, WorkerMove False, Advance 0 False, WorkerMove False, Advance 0 False]"
  have "\<exists>a. schedule StoreBuffered after_submit ?race = Some a \<and> ad_worker a = Exited
      \<and> ad_submitters a = [Resting (Some (Inr ()))] \<and> ad_lost a = [Packet sample_second]
      \<and> sv_queued_bytes (ad_shared a) = 3 \<and> sv_queued_packets (ad_shared a) = 1"
    by (simp add: worker_fails_def after_submit_def schedule_simps)
  then show ?thesis using schedule_reach [OF _ sample_reach] by blast
qed

end
