(* ===== verification/Replay_Pipeline.thy ===== *)
theory Replay_Pipeline
  imports Spool_Admission Packet_Flow Replay_Audio Replay_Preferences
begin

text \<open>
  \<open>ReplayHardwarePipeline\<close> of \<open>redunar-daemon/src/replay_pipeline.rs\<close>: frames enter the one hardware
  encoder, its output goes to the packet flow and, in the same order, to the disk spool, and a full
  spool queue is repaired from the in-memory ring. The encoder backend, the spool's queue and its phase
  are the environment: each of their calls takes the next answer of an oracle, so every theorem holds
  for any of their behaviours. Two logs record what was handed over, the encode requests and the
  commands the spool accepted; \<open>pl_stored\<close> is an auxiliary variable, the packets the ring stored in this epoch.
\<close>

section \<open>The environment\<close>

text \<open>\<open>dyn HardwareEncoderBackend\<close>: answers to \<open>encode\<close> and \<open>drain\<close>, and to \<open>shutdown\<close>, by call number.\<close>

record encoder_backend =
  eb_stream :: replay_video_stream
  eb_output :: "nat \<Rightarrow> replay_encoder_error + hardware_encode_output"
  eb_shutdown :: "nat \<Rightarrow> replay_encoder_error + unit"
  eb_calls :: nat
  eb_encodes :: "(u64 \<times> u64 \<times> bool) list"

definition backend_encode :: "u64 \<Rightarrow> u64 \<Rightarrow> bool \<Rightarrow> encoder_backend \<Rightarrow>
    encoder_backend \<times> (replay_encoder_error + hardware_encode_output)" where
  "backend_encode input_sequence timestamp_ns force_keyframe b =
     (b\<lparr>eb_calls := Suc (eb_calls b), eb_encodes := eb_encodes b @ [(input_sequence, timestamp_ns, force_keyframe)]\<rparr>,
      eb_output b (eb_calls b))"

definition backend_drain :: "encoder_backend \<Rightarrow> encoder_backend \<times> (replay_encoder_error + hardware_encode_output)" where
  "backend_drain b = (b\<lparr>eb_calls := Suc (eb_calls b)\<rparr>, eb_output b (eb_calls b))"

definition backend_shutdown :: "encoder_backend \<Rightarrow> encoder_backend \<times> (replay_encoder_error + unit)" where
  "backend_shutdown b = (b\<lparr>eb_calls := Suc (eb_calls b)\<rparr>, eb_shutdown b (eb_calls b))"

text \<open>The pipeline's side of the spool: whether its phase reads Running, and whether its queue takes a command.\<close>

datatype queue_answer = QueueTakes | QueueIsFull | QueueIsGone

record spool_port =
  sp_running :: "nat \<Rightarrow> bool"
  sp_admit :: "nat \<Rightarrow> queue_answer"
  sp_calls :: nat
  sp_sent :: "spool_command list"

definition port_running :: "spool_port \<Rightarrow> spool_port \<times> bool" where
  "port_running s = (s\<lparr>sp_calls := Suc (sp_calls s)\<rparr>, sp_running s (sp_calls s))"

definition port_send :: "spool_command \<Rightarrow> spool_port \<Rightarrow> spool_port \<times> queue_answer" where
  "port_send command s = (case sp_admit s (sp_calls s) of
     QueueTakes \<Rightarrow> (s\<lparr>sp_calls := Suc (sp_calls s), sp_sent := sp_sent s @ [command]\<rparr>, QueueTakes)
   | answer \<Rightarrow> (s\<lparr>sp_calls := Suc (sp_calls s)\<rparr>, answer))"

definition try_submit :: "encoded_replay_packet \<Rightarrow> spool_port \<Rightarrow> spool_port \<times> (replay_spool_submit_error + unit)" where
  "try_submit packet s = (case port_send (Packet packet) s of
     (s, QueueTakes) \<Rightarrow> (s, Inr ())
   | (s, QueueIsFull) \<Rightarrow> (s, Inl (QueueFull packet))
   | (s, QueueIsGone) \<Rightarrow> (s, Inl (NotRunning packet)))"

text \<open>\<open>reset_epoch\<close> blocks until the queue has room, so only a stopped worker refuses it.\<close>

definition port_reset_epoch :: "spool_port \<Rightarrow> spool_port \<times> (replay_spool_error + unit)" where
  "port_reset_epoch s = (case port_running s of
     (s, False) \<Rightarrow> (s, Inl (spool_error_new ''Replay spool is not running''))
   | (s, True) \<Rightarrow>
       if sp_admit s (sp_calls s) = QueueIsGone
       then (s\<lparr>sp_calls := Suc (sp_calls s)\<rparr>, Inl (spool_error_new ''Replay spool stopped before reset''))
       else (s\<lparr>sp_calls := Suc (sp_calls s), sp_sent := sp_sent s @ [ResetEpoch]\<rparr>, Inr ()))"

text \<open>\<open>save_async_tracks_with_audio\<close> up to the start of the assembler thread, which gets the settings with the
  requested duration and the stream; \<open>spawned\<close> is whether the thread starts.\<close>

definition save_async :: "replay_duration \<Rightarrow> replay_settings \<Rightarrow> replay_video_stream \<Rightarrow> bool \<Rightarrow> spool_port \<Rightarrow>
    spool_port \<times> (replay_spool_error + replay_settings \<times> replay_video_stream)" where
  "save_async requested settings stream spawned s =
     (if duration_seconds RETAINED_DURATION < duration_seconds requested
      then (s, Inl (spool_error_new ''Replay snapshot is unavailable''))
      else case port_running s of
        (s, False) \<Rightarrow> (s, Inl (spool_error_new ''Replay snapshot is unavailable''))
      | (s, True) \<Rightarrow>
          (case port_send (PrepareSnapshot requested False) s of
             (s, QueueTakes) \<Rightarrow>
               if spawned then (s, Inr (settings\<lparr>rs_duration := requested\<rparr>, stream))
               else (s, Inl (spool_error_new ''could not start Replay clip assembler''))
           | (s, _) \<Rightarrow> (s, Inl (spool_error_new ''Replay spool is busy; retry saving''))))"

section \<open>State\<close>

definition MAX_IN_MEMORY_HISTORY :: replay_duration where "MAX_IN_MEMORY_HISTORY = Seconds120"
definition MAX_TRACKED_INPUTS :: nat where "MAX_TRACKED_INPUTS = MAX_HARDWARE_INPUTS_IN_FLIGHT"
definition MAX_COMPLETED_INPUTS :: nat where "MAX_COMPLETED_INPUTS = 8"
definition KEYFRAME_REQUEST_INTERVAL_NS :: u64 where "KEYFRAME_REQUEST_INTERVAL_NS = 2000000000"

datatype replay_pipeline_phase = PipelineBuffering | PipelineSaving | PipelineResetting | PipelineFailed | PipelineShutdown

datatype replay_pipeline_error = PipelineLifecycle | BackendStreamMismatch | FrameFormatChanged
  | FrameTimestampNotMonotonic | NoEncodedFrames | InsufficientPipelineHistory
  | PipelineEncoder replay_encoder_error | PipelineSpool replay_spool_error | PipelineStore string
  | PipelineAudio replay_audio_error

record replay_hardware_pipeline =
  pl_settings :: replay_settings
  pl_backend :: "encoder_backend option"
  pl_shutdown_error :: "replay_encoder_error option"
  pl_flow :: replay_packet_flow
  pl_spool :: "spool_port option"
  pl_spool_pending_from_ns :: "u64 option"
  pl_spool_degraded :: bool
  pl_encoded_packets_total :: u64
  pl_phase :: replay_pipeline_phase
  pl_last_frame_timestamp_ns :: "u64 option"
  pl_last_keyframe_request_timestamp_ns :: "u64 option"
  pl_in_flight_inputs :: "u64 list"
  pl_completed_inputs :: "u64 list"
  pl_audio :: replay_audio_buffer
  pl_stored :: "encoded_replay_packet list"

definition maximum_variable_frame_rate :: "u32 \<Rightarrow> u32 \<Rightarrow> u8" where
  "maximum_variable_frame_rate width height =
     (let macroblocks = saturating_mul (div_ceil width 16) (div_ceil height 16)
      in if macroblocks = 0 then 0 else unwrap_or (try_from (unat (min (2073600 div macroblocks) 240))) 240)"

definition stream_matches_settings :: "replay_video_stream \<Rightarrow> replay_settings \<Rightarrow> bool" where
  "stream_matches_settings stream settings \<longleftrightarrow>
     (if rs_frame_rate settings = Variable
      then vs_codec stream = H264
         \<and> vs_frames_per_second stream = maximum_variable_frame_rate (vs_width stream) (vs_height stream)
      else ucast (vs_frames_per_second stream) = frames_per_second (rs_frame_rate settings))"

definition in_memory_settings :: "replay_settings \<Rightarrow> replay_settings" where
  "in_memory_settings settings = (if duration_seconds MAX_IN_MEMORY_HISTORY < duration_seconds (rs_duration settings)
     then settings\<lparr>rs_duration := MAX_IN_MEMORY_HISTORY\<rparr> else settings)"

definition pipeline_new :: "replay_settings \<Rightarrow> encoder_backend \<Rightarrow>
    encoder_backend option \<times> (replay_pipeline_error + replay_hardware_pipeline)" where
  "pipeline_new settings backend =
     (if \<not> stream_matches_settings (eb_stream backend) settings
      then (Some (fst (backend_shutdown backend)), Inl BackendStreamMismatch)
      else (None, Inr \<lparr>pl_settings = settings, pl_backend = Some backend, pl_shutdown_error = None,
        pl_flow = flow_new (in_memory_settings settings) (eb_stream backend), pl_spool = None,
        pl_spool_pending_from_ns = None, pl_spool_degraded = False, pl_encoded_packets_total = 0,
        pl_phase = PipelineBuffering, pl_last_frame_timestamp_ns = None,
        pl_last_keyframe_request_timestamp_ns = None, pl_in_flight_inputs = [], pl_completed_inputs = [],
        pl_audio = audio_buffer_new Seconds900 opus_default, pl_stored = []\<rparr>))"

definition with_spool :: "spool_port \<Rightarrow> replay_hardware_pipeline \<Rightarrow> replay_hardware_pipeline" where
  "with_spool spool p = p\<lparr>pl_spool := Some spool\<rparr>"

definition submit_audio :: "encoded_opus_packet \<Rightarrow> replay_hardware_pipeline \<Rightarrow>
    replay_hardware_pipeline \<times> (replay_pipeline_error + unit)" where
  "submit_audio packet p =
     (if pl_phase p \<noteq> PipelineBuffering then (p, Inl PipelineLifecycle)
      else case audio_push packet (pl_audio p) of
        (audio, Inl error) \<Rightarrow> (p\<lparr>pl_audio := audio\<rparr>, Inl (PipelineAudio error))
      | (audio, Inr _) \<Rightarrow> (p\<lparr>pl_audio := audio\<rparr>, Inr ()))"

section \<open>Releasing the backend\<close>

fun release_inputs :: "u64 list \<Rightarrow> u64 list \<Rightarrow> u64 list" where
  "release_inputs [] completed = completed"
| "release_inputs (sequence # rest) completed =
     release_inputs rest (if length completed < MAX_COMPLETED_INPUTS then completed @ [sequence] else completed)"

definition backend_released :: "replay_hardware_pipeline \<Rightarrow> replay_hardware_pipeline" where
  "backend_released p = p\<lparr>pl_backend := None, pl_in_flight_inputs := [],
     pl_completed_inputs := release_inputs (pl_in_flight_inputs p) (pl_completed_inputs p)\<rparr>"

definition shutdown_backend :: "replay_hardware_pipeline \<Rightarrow> replay_hardware_pipeline \<times> (replay_encoder_error + unit)" where
  "shutdown_backend p = (case pl_shutdown_error p of
     Some error \<Rightarrow> (p, Inl error)
   | None \<Rightarrow> (case pl_backend p of
       None \<Rightarrow> (backend_released p, Inr ())
     | Some backend \<Rightarrow> (case backend_shutdown backend of
         (backend, Inl error) \<Rightarrow> (p\<lparr>pl_backend := Some backend, pl_shutdown_error := Some error\<rparr>, Inl error)
       | (backend, Inr _) \<Rightarrow> (backend_released p, Inr ()))))"

definition pipeline_fail_closed :: "replay_hardware_pipeline \<Rightarrow> replay_hardware_pipeline" where
  "pipeline_fail_closed p =
     (let p = fst (shutdown_backend p);
          p = (if pf_phase (pl_flow p) \<noteq> Shutdown then p\<lparr>pl_flow := flow_fail (pl_flow p)\<rparr> else p)
      in p\<lparr>pl_phase := PipelineFailed\<rparr>)"

definition take_completed_inputs :: "replay_hardware_pipeline \<Rightarrow> replay_hardware_pipeline \<times> u64 list" where
  "take_completed_inputs p = (p\<lparr>pl_completed_inputs := []\<rparr>, pl_completed_inputs p)"

section \<open>From the encoder to the ring and the spool\<close>

definition degrade_spool :: "replay_hardware_pipeline \<Rightarrow> replay_hardware_pipeline" where
  "degrade_spool p = p\<lparr>pl_spool_degraded := True, pl_spool_pending_from_ns := None\<rparr>"

fun is_stored :: "replay_push_outcome \<Rightarrow> bool" where
  "is_stored (Stored _ _) \<longleftrightarrow> True"
| "is_stored DroppedAwaitingKeyframe \<longleftrightarrow> False"

fun submit_stored :: "(encoded_replay_packet \<times> replay_push_outcome) list \<Rightarrow> replay_hardware_pipeline \<Rightarrow>
    replay_hardware_pipeline" where
  "submit_stored [] p = p"
| "submit_stored ((packet, outcome) # rest) p =
     (if \<not> is_stored outcome then submit_stored rest p
      else case pl_spool p of None \<Rightarrow> p
      | Some spool \<Rightarrow> (case try_submit packet spool of
          (spool, Inr _) \<Rightarrow> submit_stored rest (p\<lparr>pl_spool := Some spool\<rparr>)
        | (spool, Inl (QueueFull _)) \<Rightarrow>
            p\<lparr>pl_spool := Some spool, pl_spool_pending_from_ns := Some (pk_timestamp_ns packet)\<rparr>
        | (spool, Inl (NotRunning _)) \<Rightarrow> degrade_spool (p\<lparr>pl_spool := Some spool\<rparr>)))"

fun flush_packets :: "encoded_replay_packet list \<Rightarrow> replay_hardware_pipeline \<Rightarrow>
    replay_hardware_pipeline \<times> (replay_encoder_error + unit)" where
  "flush_packets [] p = (p, Inr ())"
| "flush_packets (packet # rest) p = (case pl_spool p of
     None \<Rightarrow> (p, Inr ())
   | Some spool \<Rightarrow> (case try_submit packet spool of
       (spool, Inr _) \<Rightarrow> flush_packets rest (p\<lparr>pl_spool := Some spool, pl_spool_pending_from_ns := None\<rparr>)
     | (spool, Inl (QueueFull _)) \<Rightarrow>
         (p\<lparr>pl_spool := Some spool, pl_spool_pending_from_ns := Some (pk_timestamp_ns packet)\<rparr>, Inr ())
     | (spool, Inl (NotRunning _)) \<Rightarrow>
         (p\<lparr>pl_spool := Some spool\<rparr>, Inl (BackendFailed ''Replay spool stopped during backlog recovery''))))"

definition flush_spool_backlog :: "replay_hardware_pipeline \<Rightarrow> replay_hardware_pipeline \<times> (replay_encoder_error + unit)" where
  "flush_spool_backlog p = (case pl_spool_pending_from_ns p of
     None \<Rightarrow> (p, Inr ())
   | Some start_timestamp_ns \<Rightarrow>
       (let packets = filter (\<lambda>packet. start_timestamp_ns \<le> pk_timestamp_ns packet) (rr_packets (pf_ring (pl_flow p)))
        in if packets = [] \<or> pk_timestamp_ns (hd packets) \<noteq> start_timestamp_ns
           then (p, Inl (BackendFailed ''Replay spool backlog exceeded the in-memory repair window''))
           else flush_packets packets p))"

text \<open>The phase test that ends \<open>push_encoded\<close>.\<close>

definition check_spool_phase :: "replay_hardware_pipeline \<Rightarrow> replay_hardware_pipeline" where
  "check_spool_phase p = (case pl_spool p of None \<Rightarrow> p
     | Some spool \<Rightarrow> (case port_running spool of
         (spool, True) \<Rightarrow> p\<lparr>pl_spool := Some spool\<rparr>
       | (spool, False) \<Rightarrow> degrade_spool (p\<lparr>pl_spool := Some spool\<rparr>)))"

definition spool_encoded :: "encoded_packet_batch \<Rightarrow> replay_push_outcome list \<Rightarrow> replay_hardware_pipeline \<Rightarrow>
    replay_hardware_pipeline" where
  "spool_encoded batch outcomes p =
     (if pl_spool p \<noteq> None \<and> \<not> pl_spool_degraded p
      then check_spool_phase
        (if pl_spool_pending_from_ns p \<noteq> None
         then (case flush_spool_backlog p of (p, Inl _) \<Rightarrow> degrade_spool p | (p, Inr _) \<Rightarrow> p)
         else submit_stored (zip batch outcomes) p)
      else p)"

definition stored_of :: "encoded_packet_batch \<Rightarrow> replay_push_outcome list \<Rightarrow> encoded_replay_packet list" where
  "stored_of batch outcomes = map fst (filter (\<lambda>(packet, outcome). is_stored outcome) (zip batch outcomes))"

definition push_encoded :: "encoded_packet_batch \<Rightarrow> replay_hardware_pipeline \<Rightarrow>
    (replay_hardware_pipeline \<times> (replay_encoder_error + unit)) option" where
  "push_encoded batch p =
     (case try_all (\<lambda>packet. validate_packet (pf_stream (pl_flow p)) (pk_bytes packet)) batch of
        Inl error \<Rightarrow> Some (p, Inl error)
      | Inr _ \<Rightarrow> (case push_batch batch (pl_flow p) of
          None \<Rightarrow> None
        | Some (flow, Inl error) \<Rightarrow> Some (p\<lparr>pl_flow := flow\<rparr>, Inl error)
        | Some (flow, Inr outcomes) \<Rightarrow>
            Some (spool_encoded batch outcomes
              (p\<lparr>pl_flow := flow,
                 pl_encoded_packets_total := saturating_add (pl_encoded_packets_total p)
                   (unwrap_or (try_from (length (filter is_stored outcomes))) (- 1)),
                 pl_stored := pl_stored p @ stored_of batch outcomes\<rparr>), Inr ())))"

fun complete_inputs :: "u64 list \<Rightarrow> replay_hardware_pipeline \<Rightarrow> replay_hardware_pipeline \<times> (replay_encoder_error + unit)" where
  "complete_inputs [] p = (p, Inr ())"
| "complete_inputs (sequence # rest) p =
     (if sequence \<notin> set (pl_in_flight_inputs p) then (p, Inl InvalidInputCompletion)
      else let p = p\<lparr>pl_in_flight_inputs := remove1 sequence (pl_in_flight_inputs p)\<rparr>
           in if MAX_COMPLETED_INPUTS \<le> length (pl_completed_inputs p) then (p, Inl InvalidInputCompletion)
              else complete_inputs rest (p\<lparr>pl_completed_inputs := pl_completed_inputs p @ [sequence]\<rparr>))"

definition accept_encoded :: "hardware_encode_output \<Rightarrow> replay_hardware_pipeline \<Rightarrow>
    (replay_hardware_pipeline \<times> (replay_encoder_error + unit)) option" where
  "accept_encoded output p = (case complete_inputs (ho_completed_inputs output) p of
     (p, Inl error) \<Rightarrow> Some (p, Inl error)
   | (p, Inr _) \<Rightarrow> push_encoded (ho_batch output) p)"

section \<open>Frames\<close>

definition wants_keyframe :: "u64 \<Rightarrow> replay_hardware_pipeline \<Rightarrow> bool" where
  "wants_keyframe timestamp_ns p = (case pl_last_keyframe_request_timestamp_ns p of None \<Rightarrow> True
     | Some prev \<Rightarrow> KEYFRAME_REQUEST_INTERVAL_NS \<le> saturating_sub timestamp_ns prev)"

text \<open>What a frame does once its output was accepted.\<close>

definition frame_accepted :: "u64 \<Rightarrow> bool \<Rightarrow> replay_hardware_pipeline \<Rightarrow>
    replay_hardware_pipeline \<times> (replay_pipeline_error + unit)" where
  "frame_accepted timestamp_ns force_keyframe p =
     (let p = p\<lparr>pl_last_frame_timestamp_ns := Some timestamp_ns\<rparr>;
          p = (if force_keyframe then p\<lparr>pl_last_keyframe_request_timestamp_ns := Some timestamp_ns\<rparr> else p)
      in if MAX_TRACKED_INPUTS < length (pl_in_flight_inputs p)
         then (pipeline_fail_closed p, Inl (PipelineEncoder InvalidInputCompletion)) else (p, Inr ()))"

definition encode_frame :: "u64 \<Rightarrow> u64 \<Rightarrow> replay_hardware_pipeline \<Rightarrow>
    (replay_hardware_pipeline \<times> (replay_pipeline_error + unit)) option" where
  "encode_frame input_sequence timestamp_ns p =
     (let force_keyframe = wants_keyframe timestamp_ns p
      in case pl_backend p of
           None \<Rightarrow> Some (p, Inl PipelineLifecycle)
         | Some backend \<Rightarrow> (case backend_encode input_sequence timestamp_ns force_keyframe backend of
             (backend, Inl error) \<Rightarrow>
               Some (pipeline_fail_closed (p\<lparr>pl_backend := Some backend\<rparr>), Inl (PipelineEncoder error))
           | (backend, Inr output) \<Rightarrow> (case accept_encoded output (p\<lparr>pl_backend := Some backend\<rparr>) of
               None \<Rightarrow> None
             | Some (p, Inl error) \<Rightarrow> Some (pipeline_fail_closed p, Inl (PipelineEncoder error))
             | Some (p, Inr _) \<Rightarrow> Some (frame_accepted timestamp_ns force_keyframe p))))"

definition submit_frame :: "u64 \<Rightarrow> dma_buf_replay_frame \<Rightarrow> replay_hardware_pipeline \<Rightarrow>
    (replay_hardware_pipeline \<times> (replay_pipeline_error + unit)) option" where
  "submit_frame input_sequence frame p =
     (if pl_phase p \<noteq> PipelineBuffering then Some (p, Inl PipelineLifecycle)
      else if input_sequence = 0 \<or> input_sequence \<in> set (pl_in_flight_inputs p)
      then Some (pipeline_fail_closed p, Inl (PipelineEncoder InvalidInputCompletion))
      else let p = p\<lparr>pl_in_flight_inputs := pl_in_flight_inputs p @ [input_sequence]\<rparr>
           in if df_width frame \<noteq> vs_width (pf_stream (pl_flow p)) \<or> df_height frame \<noteq> vs_height (pf_stream (pl_flow p))
              then Some (pipeline_fail_closed p, Inl FrameFormatChanged)
              else if (case pl_last_frame_timestamp_ns p of None \<Rightarrow> False | Some prev \<Rightarrow> df_timestamp_ns frame \<le> prev)
              then Some (pipeline_fail_closed p, Inl FrameTimestampNotMonotonic)
              else encode_frame input_sequence (df_timestamp_ns frame) p)"

section \<open>Saving\<close>

text \<open>The drain that every save starts with.\<close>

definition drain_backend :: "replay_hardware_pipeline \<Rightarrow> (replay_hardware_pipeline \<times> (replay_pipeline_error + unit)) option" where
  "drain_backend p =
     (if pl_phase p \<noteq> PipelineBuffering then Some (p, Inl PipelineLifecycle)
      else case pl_backend p of
        None \<Rightarrow> Some (p, Inl PipelineLifecycle)
      | Some backend \<Rightarrow> (case backend_drain backend of
          (backend, Inl error) \<Rightarrow>
            Some (pipeline_fail_closed (p\<lparr>pl_backend := Some backend\<rparr>), Inl (PipelineEncoder error))
        | (backend, Inr drained) \<Rightarrow> (case accept_encoded drained (p\<lparr>pl_backend := Some backend\<rparr>) of
            None \<Rightarrow> None
          | Some (p, Inl error) \<Rightarrow> Some (pipeline_fail_closed p, Inl (PipelineEncoder error))
          | Some (p, Inr _) \<Rightarrow> Some (p, Inr ()))))"

definition packet_window :: "encoded_replay_packet list \<Rightarrow> u64 \<times> u64" where
  "packet_window ps = (pk_timestamp_ns (hd ps),
     saturating_add (pk_timestamp_ns (last ps)) (pk_duration_ns (last ps)))"

definition pipeline_audio_snapshot :: "replay_hardware_pipeline \<Rightarrow> replay_audio_snapshot" where
  "pipeline_audio_snapshot p =
     (let packets = rr_packets (pf_ring (pl_flow p))
      in if packets = [] then snapshot_between 0 0 (pl_audio p)
         else case packet_window packets of (first, until) \<Rightarrow> snapshot_between first until (pl_audio p))"

text \<open>\<open>save\<close> is \<open>save_with_audio_as\<close> of the clip store.\<close>

definition save_replay :: "(replay_video_stream \<Rightarrow> replay_ring \<Rightarrow> replay_audio_snapshot \<Rightarrow> string + 'clip) \<Rightarrow>
    replay_hardware_pipeline \<Rightarrow> (replay_hardware_pipeline \<times> (replay_pipeline_error + 'clip)) option" where
  "save_replay save p = (case drain_backend p of
     None \<Rightarrow> None
   | Some (p, Inl error) \<Rightarrow> Some (p, Inl error)
   | Some (p, Inr _) \<Rightarrow>
       if rrs_stored_packets (ring_stats (pf_ring (pl_flow p))) = 0 then Some (p, Inl NoEncodedFrames)
       else let p = p\<lparr>pl_phase := PipelineSaving\<rparr>
            in case save (pf_stream (pl_flow p)) (pf_ring (pl_flow p)) (pipeline_audio_snapshot p) of
                 Inr clip \<Rightarrow> Some (p\<lparr>pl_phase := PipelineBuffering\<rparr>, Inr clip)
               | Inl error \<Rightarrow> Some (pipeline_fail_closed p, Inl (PipelineStore error)))"

text \<open>What a started assembly job works on: a disk snapshot, or the packets, window and tracks of the RAM history.\<close>

datatype assembly_job = SpoolAssembly replay_settings replay_video_stream replay_output_format
  | RamAssembly replay_settings replay_video_stream replay_output_format "encoded_replay_packet list" "u64 \<times> u64"
      replay_audio_tracks

definition save_recent_replay :: "replay_duration \<Rightarrow> replay_output_format \<Rightarrow> (u64 \<Rightarrow> u64 \<Rightarrow> replay_audio_tracks) \<Rightarrow> bool \<Rightarrow>
    replay_hardware_pipeline \<Rightarrow> (replay_hardware_pipeline \<times> (replay_pipeline_error + assembly_job)) option" where
  "save_recent_replay duration output_format audio_snapshot spawned p = (case drain_backend p of
     None \<Rightarrow> None
   | Some (p, Inl error) \<Rightarrow> Some (p, Inl error)
   | Some (p, Inr _) \<Rightarrow>
       (let packets = rr_packets (snapshot_for_duration duration (pf_ring (pl_flow p)))
        in if packets = [] then Some (p, Inl NoEncodedFrames)
           else let window = packet_window packets;
                    audio = audio_snapshot (fst window) (snd window)
                in if spawned
                   then Some (p, Inr (RamAssembly ((pl_settings p)\<lparr>rs_duration := duration\<rparr>) (pf_stream (pl_flow p))
                          output_format packets window audio))
                   else Some (p, Inl (PipelineSpool (spool_error_new ''could not start Replay save'')))))"

definition disk_history_available :: "replay_hardware_pipeline \<Rightarrow> replay_hardware_pipeline \<times> bool" where
  "disk_history_available p = (if pl_spool_degraded p then (p, False)
     else case pl_spool p of None \<Rightarrow> (p, False)
     | Some spool \<Rightarrow> (case port_running spool of (spool, running) \<Rightarrow> (p\<lparr>pl_spool := Some spool\<rparr>, running)))"

definition flush_spool_backlog_before_save :: "replay_hardware_pipeline \<Rightarrow>
    replay_hardware_pipeline \<times> (replay_spool_error + unit)" where
  "flush_spool_backlog_before_save p =
     (case (if pl_spool_degraded p then (p, False)
            else case pl_spool p of None \<Rightarrow> (p, True)
            | Some spool \<Rightarrow> (case port_running spool of (spool, running) \<Rightarrow> (p\<lparr>pl_spool := Some spool\<rparr>, running))) of
        (p, False) \<Rightarrow>
          (p, Inl (spool_error_new ''Replay disk history is unavailable; use the bounded recent RAM history''))
      | (p, True) \<Rightarrow>
          if pl_spool_pending_from_ns p = None then (p, Inr ())
          else case flush_spool_backlog p of
            (p, Inl _) \<Rightarrow> (p, Inl (spool_error_new ''Replay spool could not recover queued history''))
          | (p, Inr _) \<Rightarrow>
              if pl_spool_pending_from_ns p \<noteq> None
              then (p, Inl (spool_error_new ''Replay disk history is still catching up; try saving again''))
              else (p, Inr ()))"

definition save_spooled_replay :: "replay_duration \<Rightarrow> replay_output_format \<Rightarrow> (u64 \<Rightarrow> u64 \<Rightarrow> replay_audio_tracks) \<Rightarrow> bool \<Rightarrow>
    replay_hardware_pipeline \<Rightarrow> (replay_hardware_pipeline \<times> (replay_pipeline_error + assembly_job)) option" where
  "save_spooled_replay duration output_format audio_snapshot spawned p = (case drain_backend p of
     None \<Rightarrow> None
   | Some (p, Inl error) \<Rightarrow> Some (p, Inl error)
   | Some (p, Inr _) \<Rightarrow>
       (case flush_spool_backlog_before_save p of
          (p, Inl error) \<Rightarrow>
            (case disk_history_available p of
               (p, False) \<Rightarrow> save_recent_replay duration output_format audio_snapshot spawned p
             | (p, True) \<Rightarrow> Some (p, Inl (PipelineSpool error)))
        | (p, Inr _) \<Rightarrow>
            (case pl_spool p of
               None \<Rightarrow> Some (p, Inl PipelineLifecycle)
             | Some spool \<Rightarrow>
                 let p = p\<lparr>pl_last_keyframe_request_timestamp_ns := None\<rparr>
                 in case save_async duration (pl_settings p) (pf_stream (pl_flow p)) spawned spool of
                      (spool, Inl error) \<Rightarrow> Some (p\<lparr>pl_spool := Some spool\<rparr>,
                        Inl (if is_insufficient_history error then InsufficientPipelineHistory else PipelineSpool error))
                    | (spool, Inr (settings, stream)) \<Rightarrow>
                        Some (p\<lparr>pl_spool := Some spool\<rparr>, Inr (SpoolAssembly settings stream output_format)))))"

section \<open>Reset and shutdown\<close>

definition reset_spool :: "replay_hardware_pipeline \<Rightarrow> replay_hardware_pipeline" where
  "reset_spool p =
     (let p = (if pl_spool_degraded p then p
               else case pl_spool p of None \<Rightarrow> p
               | Some spool \<Rightarrow> (case port_reset_epoch spool of
                   (spool, Inl _) \<Rightarrow> degrade_spool (p\<lparr>pl_spool := Some spool\<rparr>)
                 | (spool, Inr _) \<Rightarrow> p\<lparr>pl_spool := Some spool\<rparr>))
      in p\<lparr>pl_spool_pending_from_ns := None, pl_encoded_packets_total := 0, pl_stored := []\<rparr>)"

definition reset_failed :: "replay_hardware_pipeline \<Rightarrow> replay_hardware_pipeline" where
  "reset_failed p = p\<lparr>pl_flow := flow_fail (pl_flow p), pl_phase := PipelineFailed\<rparr>"

text \<open>\<open>reset\<close>: the second component of the result is the replacement when it was refused, after its own shutdown.\<close>

definition pipeline_reset :: "encoder_backend \<Rightarrow> replay_hardware_pipeline \<Rightarrow>
    replay_hardware_pipeline \<times> encoder_backend option \<times> (replay_pipeline_error + unit)" where
  "pipeline_reset replacement p =
     (let refused = Some (fst (backend_shutdown replacement))
      in if pl_phase p \<noteq> PipelineBuffering then (p, refused, Inl PipelineLifecycle)
         else case shutdown_backend (reset_spool (p\<lparr>pl_phase := PipelineResetting, pl_flow := begin_reset (pl_flow p)\<rparr>)) of
           (p, Inl error) \<Rightarrow> (reset_failed p, refused, Inl (PipelineEncoder error))
         | (p, Inr _) \<Rightarrow>
             if \<not> stream_matches_settings (eb_stream replacement) (pl_settings p)
             then (reset_failed p, refused, Inl BackendStreamMismatch)
             else case complete_reset (eb_stream replacement) (pl_flow p) of
               (flow, Inl error) \<Rightarrow> (reset_failed (p\<lparr>pl_flow := flow\<rparr>), refused, Inl (PipelineEncoder error))
             | (flow, Inr _) \<Rightarrow>
                 (p\<lparr>pl_flow := flow, pl_backend := Some replacement, pl_audio := audio_clear (pl_audio p),
                    pl_last_frame_timestamp_ns := None, pl_last_keyframe_request_timestamp_ns := None,
                    pl_phase := PipelineBuffering\<rparr>, None, Inr ()))"

definition pipeline_shutdown :: "replay_hardware_pipeline \<Rightarrow> replay_hardware_pipeline \<times> (replay_pipeline_error + unit)" where
  "pipeline_shutdown p =
     (if pl_phase p = PipelineShutdown
      then (p, case pl_shutdown_error p of None \<Rightarrow> Inr () | Some error \<Rightarrow> Inl (PipelineEncoder error))
      else case shutdown_backend p of (p, result) \<Rightarrow>
        (p\<lparr>pl_flow := flow_shutdown (pl_flow p), pl_spool := None, pl_spool_pending_from_ns := None,
           pl_encoded_packets_total := 0, pl_stored := [], pl_phase := PipelineShutdown\<rparr>,
         case result of Inl error \<Rightarrow> Inl (PipelineEncoder error) | Inr _ \<Rightarrow> Inr ()))"

end
