(* ===== verification/Pipeline_History.thy ===== *)
theory Pipeline_History
  imports Replay_Pipeline
begin

text \<open>
  What the pipeline of \<open>Replay_Pipeline\<close> guarantees about its history: the packets handed to the disk spool in an
  epoch are, in order and without a gap, the packets the ring stored, up to the first packet still waiting for
  room in the spool's queue. Failures of the encoder end the epoch, failures of the spool end the disk history, and
  neither can leave a gap behind.
\<close>

section \<open>The stored history\<close>

text \<open>A history \<open>hs\<close> accounts for a ring: the ring holds a suffix of it, and no later packet can precede it.\<close>

definition hist_ok :: "replay_ring \<Rightarrow> encoded_replay_packet list \<Rightarrow> bool" where
  "hist_ok r hs \<longleftrightarrow> ring_inv r \<and> suffix (rr_packets r) hs \<and> timestamps_increase hs
     \<and> (\<forall>x \<in> set hs. packet_ok x \<and> (\<exists>l. rr_last_timestamp_ns r = Some l \<and> pk_timestamp_ns x \<le> l))"

lemma stored_of_simps [simp]:
  "stored_of [] us = []" "stored_of (p # ps) (u # us) = (if is_stored u then [p] else []) @ stored_of ps us"
  by (simp_all add: stored_of_def)

lemma set_stored_of: "set (stored_of ps us) \<subseteq> set ps"
  by (auto simp: stored_of_def dest: set_zip_leftD)

lemma length_stored_of: "length us = length ps \<Longrightarrow> length (stored_of ps us) = length (filter is_stored us)"
  by (induction ps us rule: list_induct2') auto

lemma push_history:
  assumes "hist_ok r hs" "packet_ok p" "ring_push p r = Some (q, Inr u)"
  shows "hist_ok q (hs @ (if is_stored u then [p] else []))"
proof -
  have inv: "ring_inv r" using assms(1) by (simp add: hist_ok_def)
  have q: "push_result p r = (q, Inr u)" using assms(3) by (simp add: ring_push_result [OF inv assms(2)])
  have st: "\<not> stale p r" and ql: "rr_last_timestamp_ns q = Some (pk_timestamp_ns p)"
    using q by (auto simp: push_result_def after_push_def Let_def split: if_splits)
  have older: "pk_timestamp_ns x < pk_timestamp_ns p" if "x \<in> set hs" for x
  proof -
    have "\<exists>l. rr_last_timestamp_ns r = Some l \<and> pk_timestamp_ns x \<le> l" using assms(1) that by (simp add: hist_ok_def)
    then show ?thesis using st by (auto simp: stale_def)
  qed
  have sfx: "suffix (rr_packets q) (hs @ (if is_stored u then [p] else []))"
  proof (cases "is_stored u")
    case True
    have "suffix (rr_packets q) (rr_packets r @ [p])" using push_result_suffix(1) [OF q] .
    moreover have "suffix (rr_packets r @ [p]) (hs @ [p])" using assms(1) by (auto simp: hist_ok_def suffix_def)
    ultimately show ?thesis using True suffix_order.trans by auto
  next
    case False
    then have "rr_packets q = []" using q by (auto simp: push_result_def split: if_splits)
    then show ?thesis by simp
  qed
  have "timestamps_increase (hs @ (if is_stored u then [p] else []))"
    using assms(1) older by (auto simp: hist_ok_def timestamps_increase_def sorted_wrt_append)
  then show ?thesis
    using push_result_inv [OF inv assms(2)] q sfx ql older assms(1,2)
    by (auto simp: hist_ok_def order_less_imp_le)
qed

lemma push_packets_history:
  assumes "hist_ok r hs" "\<forall>p \<in> set ps. packet_ok p" "push_packets ps r outs = Some (q, Inr outs')"
  shows "\<exists>us. outs' = outs @ us \<and> length us = length ps \<and> hist_ok q (hs @ stored_of ps us)"
  using assms
proof (induction ps arbitrary: r hs outs)
  case Nil
  then show ?case by simp
next
  case (Cons p ps)
  then obtain t u where t: "ring_push p r = Some (t, Inr u)" "push_packets ps t (outs @ [u]) = Some (q, Inr outs')"
    by (auto split: option.splits sum.splits)
  from Cons.IH [OF push_history [OF Cons.prems(1) _ t(1)] _ t(2)] Cons.prems(2) obtain us where
    "outs' = (outs @ [u]) @ us" "length us = length ps" "hist_ok q ((hs @ (if is_stored u then [p] else [])) @ stored_of ps us)"
    by auto
  then show ?case by (intro exI [of _ "u # us"]) simp
qed

lemma push_batch_history:
  assumes "flow_inv f" "\<forall>p \<in> set b. packet_ok p" "push_batch b f = Some (g, Inr us)" "hist_ok (pf_ring f) hs"
  shows "hist_ok (pf_ring g) (hs @ stored_of b us) \<and> length us = length b \<and> pf_phase g = Running"
proof -
  have "push_packets b (pf_ring f) [] = Some (pf_ring g, Inr us)" "pf_phase g = Running"
    using assms(3) by (auto simp: push_batch_def split: if_splits option.splits sum.splits)
  with push_packets_history [OF assms(4,2)] show ?thesis by fastforce
qed

section \<open>What the spool was sent\<close>

fun epoch_step :: "encoded_replay_packet list \<Rightarrow> spool_command \<Rightarrow> encoded_replay_packet list" where
  "epoch_step ps (Packet p) = ps @ [p]"
| "epoch_step ps ResetEpoch = []"
| "epoch_step ps _ = ps"

definition epoch_packets :: "spool_command list \<Rightarrow> encoded_replay_packet list" where
  "epoch_packets = foldl epoch_step []"

lemma epoch_packets_snoc [simp]: "epoch_packets (cs @ [c]) = epoch_step (epoch_packets cs) c"
  by (simp add: epoch_packets_def)

text \<open>A spool that has stopped never takes a command again: the phase never returns to Running, and a dropped
  receiver stays dropped. Its first command resets the epoch.\<close>

definition port_ok :: "spool_port \<Rightarrow> bool" where
  "port_ok s \<longleftrightarrow> ResetEpoch \<in> set (sp_sent s) \<and> (\<forall>i j. i \<le> j \<longrightarrow> sp_admit s i = QueueIsGone \<longrightarrow> sp_admit s j = QueueIsGone)"

definition gone :: "spool_port \<Rightarrow> bool" where
  "gone s \<longleftrightarrow> sp_admit s (sp_calls s) = QueueIsGone"

lemma port_ok_update [simp]:
  "port_ok (s\<lparr>sp_calls := n\<rparr>) = port_ok s"
  "port_ok s \<Longrightarrow> port_ok (s\<lparr>sp_calls := n, sp_sent := sp_sent s @ cs\<rparr>)"
  by (simp_all add: port_ok_def)

lemma gone_later: "port_ok s \<Longrightarrow> sp_admit s n = QueueIsGone \<Longrightarrow> sp_admit s (Suc n) = QueueIsGone"
  unfolding port_ok_def by (elim conjE allE [of _ n] allE [of _ "Suc n"]) simp

definition follows :: "encoded_replay_packet list \<Rightarrow> u64 option \<Rightarrow> encoded_replay_packet list \<Rightarrow> bool" where
  "follows sent pending stored \<longleftrightarrow> (case pending of None \<Rightarrow> sent = stored
     | Some t \<Rightarrow> \<exists>q rest. stored = sent @ q # rest \<and> pk_timestamp_ns q = t)"

definition tracks :: "spool_port \<Rightarrow> u64 option \<Rightarrow> encoded_replay_packet list \<Rightarrow> bool" where
  "tracks s pending stored \<longleftrightarrow> follows (epoch_packets (sp_sent s)) pending stored
     \<or> gone s \<and> prefix (epoch_packets (sp_sent s)) stored"

definition spool_follows :: "replay_hardware_pipeline \<Rightarrow> bool" where
  "spool_follows p \<longleftrightarrow> (\<forall>spool. pl_spool p = Some spool \<longrightarrow> port_ok spool \<and>
     (\<not> pl_spool_degraded p \<longrightarrow> tracks spool (pl_spool_pending_from_ns p) (pl_stored p)))"

lemma try_submit_sent:
  "try_submit packet spool = (spool', Inr u) \<Longrightarrow> epoch_packets (sp_sent spool') = epoch_packets (sp_sent spool) @ [packet]"
  "try_submit packet spool = (spool', Inl e) \<Longrightarrow> sp_sent spool' = sp_sent spool"
  by (auto simp: try_submit_def port_send_def split: queue_answer.splits)

lemma try_submit_port:
  assumes "try_submit packet spool = (spool', r)" "port_ok spool"
  shows "port_ok spool'" "gone spool \<Longrightarrow> r = Inl (NotRunning packet) \<and> gone spool'" "r = Inl (NotRunning q) \<Longrightarrow> gone spool'"
  using assms
  by (auto simp: try_submit_def port_send_def gone_def gone_later split: queue_answer.splits)

lemma port_running_sent:
  assumes "port_running spool = (spool', r)"
  shows "sp_sent spool' = sp_sent spool" "port_ok spool' = port_ok spool" "port_ok spool \<Longrightarrow> gone spool \<Longrightarrow> gone spool'"
  using assms by (auto simp: port_running_def gone_def gone_later)

lemma port_running_tracks:
  assumes "port_running spool = (spool', r)" "port_ok spool" "tracks spool pending stored"
  shows "tracks spool' pending stored"
  using assms port_running_sent [OF assms(1)] by (auto simp: tracks_def)

text \<open>Everything but the spool's side is left alone by the submission loops.\<close>

definition spool_erased :: "replay_hardware_pipeline \<Rightarrow> replay_hardware_pipeline" where
  "spool_erased p = p\<lparr>pl_spool := None, pl_spool_pending_from_ns := None, pl_spool_degraded := False\<rparr>"

lemma spool_erased_update [simp]:
  "spool_erased (p\<lparr>pl_spool := s\<rparr>) = spool_erased p"
  "spool_erased (p\<lparr>pl_spool_pending_from_ns := t\<rparr>) = spool_erased p"
  "spool_erased (degrade_spool p) = spool_erased p"
  by (simp_all add: spool_erased_def degrade_spool_def)

lemma spool_erased_fields:
  assumes "spool_erased q = spool_erased p"
  shows "pl_flow q = pl_flow p" "pl_stored q = pl_stored p" "pl_backend q = pl_backend p" "pl_phase q = pl_phase p"
    "pl_shutdown_error q = pl_shutdown_error p" "pl_in_flight_inputs q = pl_in_flight_inputs p"
    "pl_completed_inputs q = pl_completed_inputs p" "pl_encoded_packets_total q = pl_encoded_packets_total p"
    "pl_last_keyframe_request_timestamp_ns q = pl_last_keyframe_request_timestamp_ns p"
    "pl_last_frame_timestamp_ns q = pl_last_frame_timestamp_ns p" "pl_settings q = pl_settings p"
  using arg_cong [OF assms, of pl_flow] arg_cong [OF assms, of pl_stored] arg_cong [OF assms, of pl_backend]
    arg_cong [OF assms, of pl_phase] arg_cong [OF assms, of pl_shutdown_error] arg_cong [OF assms, of pl_in_flight_inputs]
    arg_cong [OF assms, of pl_completed_inputs] arg_cong [OF assms, of pl_encoded_packets_total]
    arg_cong [OF assms, of pl_last_keyframe_request_timestamp_ns] arg_cong [OF assms, of pl_last_frame_timestamp_ns]
    arg_cong [OF assms, of pl_settings]
  by (simp_all add: spool_erased_def)

lemma submit_stored_erased: "spool_erased (submit_stored xs p) = spool_erased p"
  by (induction xs p rule: submit_stored.induct)
    (auto split: option.splits sum.splits replay_spool_submit_error.splits prod.splits)

lemma flush_packets_erased: "flush_packets ps p = (q, r) \<Longrightarrow> spool_erased q = spool_erased p"
  by (induction ps p arbitrary: q r rule: flush_packets.induct)
    (fastforce split: option.splits sum.splits replay_spool_submit_error.splits prod.splits)+

lemma flush_backlog_erased: "flush_spool_backlog p = (q, r) \<Longrightarrow> spool_erased q = spool_erased p"
  by (auto simp: flush_spool_backlog_def Let_def split: option.splits if_splits dest: flush_packets_erased)

lemma check_phase_erased: "spool_erased (check_spool_phase p) = spool_erased p"
  by (auto simp: check_spool_phase_def split: option.split prod.split bool.split)

text \<open>The loop over a fresh batch.\<close>

lemma submit_stored_gone:
  assumes "pl_spool p = Some spool" "port_ok spool" "gone spool" "prefix (epoch_packets (sp_sent spool)) (pl_stored p)"
  shows "spool_follows (submit_stored xs p)"
  using assms
proof (induction xs p rule: submit_stored.induct)
  case (2 packet outcome rest p)
  obtain spool' r where t: "try_submit packet spool = (spool', r)" by (metis surj_pair)
  show ?case
    using 2 t try_submit_port [OF t 2(4)]
    by (cases "is_stored outcome") (simp_all add: spool_follows_def degrade_spool_def)
qed (simp add: spool_follows_def tracks_def)

lemma submit_stored_follows:
  assumes "pl_spool p = Some spool" "port_ok spool" "\<not> pl_spool_degraded p" "pl_spool_pending_from_ns p = None"
    and "pl_stored p = epoch_packets (sp_sent spool) @ map fst (filter (\<lambda>(packet, outcome). is_stored outcome) xs)"
  shows "spool_follows (submit_stored xs p)"
  using assms
proof (induction xs arbitrary: p spool)
  case Nil
  then show ?case by (simp add: spool_follows_def tracks_def follows_def)
next
  case (Cons x xs)
  obtain packet outcome where x: "x = (packet, outcome)" by (cases x)
  show ?case
  proof (cases "is_stored outcome")
    case False
    then show ?thesis using Cons.IH [OF Cons.prems(1-4)] Cons.prems(5) by (simp add: x)
  next
    case True
    obtain spool' r where t: "try_submit packet spool = (spool', r)" by (metis surj_pair)
    note P = try_submit_port [OF t Cons.prems(2)]
    show ?thesis
    proof (cases r)
      case (Inr u)
      then show ?thesis
        using Cons.IH [of "p\<lparr>pl_spool := Some spool'\<rparr>" spool'] Cons.prems True t P try_submit_sent(1) by (simp add: x)
    next
      case (Inl e)
      then have "sp_sent spool' = sp_sent spool" using t try_submit_sent(2) by simp
      then show ?thesis
        using Cons.prems True t Inl P
        by (cases e) (auto simp: x spool_follows_def tracks_def follows_def degrade_spool_def)
    qed
  qed
qed

lemma flush_packets_follows:
  assumes "pl_spool p = Some spool" "port_ok spool"
    and "pl_stored p = epoch_packets (sp_sent spool) @ ps"
    and "ps = [] \<Longrightarrow> pl_spool_pending_from_ns p = None"
    and "flush_packets ps p = (q, r)"
  shows "spool_follows q"
  using assms
proof (induction ps arbitrary: p spool)
  case Nil
  then show ?case by (auto simp: spool_follows_def tracks_def follows_def)
next
  case (Cons packet ps)
  obtain spool' a where t: "try_submit packet spool = (spool', a)" by (metis surj_pair)
  note P = try_submit_port [OF t Cons.prems(2)]
  show ?case
  proof (cases a)
    case (Inr v)
    then show ?thesis
      using Cons.IH [of "p\<lparr>pl_spool := Some spool', pl_spool_pending_from_ns := None\<rparr>" spool'] Cons.prems t P try_submit_sent(1)
      by simp
  next
    case (Inl e)
    then have "sp_sent spool' = sp_sent spool" using t try_submit_sent(2) by simp
    then show ?thesis
      using Cons.prems t Inl P by (cases e) (auto simp: spool_follows_def tracks_def follows_def prefix_def)
  qed
qed

lemma flush_packets_gone:
  assumes "pl_spool p = Some spool" "port_ok spool" "gone spool" "prefix (epoch_packets (sp_sent spool)) (pl_stored p)"
    and "flush_packets ps p = (q, r)"
  shows "spool_follows q"
proof (cases ps)
  case Nil
  then show ?thesis using assms by (auto simp: spool_follows_def tracks_def)
next
  case (Cons packet rest)
  obtain spool' a where t: "try_submit packet spool = (spool', a)" by (metis surj_pair)
  show ?thesis
    using assms Cons t try_submit_port [OF t assms(2)] try_submit_sent(2) [of packet spool spool']
    by (auto simp: spool_follows_def tracks_def)
qed

text \<open>The backlog in the ring is everything not yet sent, when its first packet is still there.\<close>

lemma backlog_is_rest:
  assumes "timestamps_increase (sent @ q # rest)" "suffix ring (sent @ q # rest)"
    and "filter (\<lambda>x. pk_timestamp_ns q \<le> pk_timestamp_ns x) ring \<noteq> []"
    and "pk_timestamp_ns (hd (filter (\<lambda>x. pk_timestamp_ns q \<le> pk_timestamp_ns x) ring)) = pk_timestamp_ns q"
  shows "filter (\<lambda>x. pk_timestamp_ns q \<le> pk_timestamp_ns x) ring = q # rest"
proof -
  let ?f = "filter (\<lambda>x. pk_timestamp_ns q \<le> pk_timestamp_ns x)"
  have all: "?f (sent @ q # rest) = q # rest"
    using assms(1) by (auto simp: timestamps_increase_def sorted_wrt_append filter_empty_conv filter_id_conv order_less_imp_le)
  obtain pre where pre: "sent @ q # rest = pre @ ring" using assms(2) by (auto simp: suffix_def)
  then have f: "?f pre @ ?f ring = q # rest" using all by simp
  show ?thesis
  proof (cases "?f pre")
    case (Cons x xs)
    then have "hd (?f ring) \<in> set rest" using f assms(3) by (cases "?f ring") auto
    then show ?thesis using assms(1,4) by (auto simp: timestamps_increase_def sorted_wrt_append)
  qed (use f in simp)
qed

lemma flush_backlog_follows:
  assumes "spool_follows p" "\<not> pl_spool_degraded p" "hist_ok (pf_ring (pl_flow p)) (pl_stored p)"
    and "flush_spool_backlog p = (q, r)"
  shows "spool_follows q"
proof (cases "pl_spool p")
  case None
  then have "pl_spool q = None"
    using assms(4) by (auto simp: flush_spool_backlog_def Let_def neq_Nil_conv split: option.splits if_splits)
  then show ?thesis by (simp add: spool_follows_def)
next
  case (Some spool)
  note T = assms(1) [unfolded spool_follows_def, rule_format, OF Some]
  show ?thesis
  proof (cases "pl_spool_pending_from_ns p")
    case None
    then show ?thesis using assms(1,4) by (simp add: flush_spool_backlog_def)
  next
    case pending: (Some t)
    let ?ps = "filter (\<lambda>x. t \<le> pk_timestamp_ns x) (rr_packets (pf_ring (pl_flow p)))"
    show ?thesis
    proof (cases "?ps = [] \<or> pk_timestamp_ns (hd ?ps) \<noteq> t")
      case True
      then show ?thesis using assms(1,4) pending by (simp add: flush_spool_backlog_def)
    next
      case False
      then have fl: "flush_packets ?ps p = (q, r)" using assms(4) pending by (simp add: flush_spool_backlog_def Let_def)
      from T assms(2) consider "follows (epoch_packets (sp_sent spool)) (Some t) (pl_stored p)"
        | "gone spool" "prefix (epoch_packets (sp_sent spool)) (pl_stored p)" by (auto simp: tracks_def pending)
      then show ?thesis
      proof cases
        case 1
        then obtain x rest where x: "pl_stored p = epoch_packets (sp_sent spool) @ x # rest" "pk_timestamp_ns x = t"
          by (auto simp: follows_def)
        have "?ps = x # rest"
          using backlog_is_rest [of "epoch_packets (sp_sent spool)" x rest "rr_packets (pf_ring (pl_flow p))"] assms(3) False x
          by (auto simp: hist_ok_def)
        then show ?thesis using flush_packets_follows [OF Some _ _ _ fl] T x by simp
      next
        case 2
        then show ?thesis using flush_packets_gone [OF Some _ _ _ fl] T by blast
      qed
    qed
  qed
qed

section \<open>The invariant\<close>

text \<open>What the type system gives of a backend's answers: packets of \<open>packet_new\<close>.\<close>

definition backend_ok :: "encoder_backend \<Rightarrow> bool" where
  "backend_ok b \<longleftrightarrow> (\<forall>n out. eb_output b n = Inr out \<longrightarrow> (\<forall>p \<in> set (ho_batch out). packet_ok p))"

definition pipeline_core :: "replay_hardware_pipeline \<Rightarrow> bool" where
  "pipeline_core p \<longleftrightarrow> flow_inv (pl_flow p) \<and> spool_follows p \<and> timestamps_increase (pl_stored p)
     \<and> (\<forall>x \<in> set (pl_stored p). packet_ok x)
     \<and> (\<forall>b. pl_backend p = Some b \<longrightarrow> backend_ok b)
     \<and> unat (pl_encoded_packets_total p) = min (length (pl_stored p)) (2 ^ 64 - 1)"

definition pipeline_inv :: "replay_hardware_pipeline \<Rightarrow> bool" where
  "pipeline_inv p \<longleftrightarrow> pipeline_core p
     \<and> (pf_phase (pl_flow p) = Running \<longrightarrow> hist_ok (pf_ring (pl_flow p)) (pl_stored p))
     \<and> (pl_phase p = PipelineBuffering \<longrightarrow>
          pf_phase (pl_flow p) = Running \<and> pl_backend p \<noteq> None \<and> pl_shutdown_error p = None)"

lemma hist_ok_facts: "hist_ok r hs \<Longrightarrow> timestamps_increase hs \<and> (\<forall>x \<in> set hs. packet_ok x)"
  by (simp add: hist_ok_def)

lemma spool_follows_cong:
  "pl_spool q = pl_spool p \<Longrightarrow> pl_spool_degraded q = pl_spool_degraded p \<Longrightarrow>
   pl_spool_pending_from_ns q = pl_spool_pending_from_ns p \<Longrightarrow> pl_stored q = pl_stored p \<Longrightarrow> spool_follows q = spool_follows p"
  by (simp add: spool_follows_def)

lemma degrade_follows: "spool_follows p \<Longrightarrow> spool_follows (degrade_spool p)"
  by (simp add: spool_follows_def degrade_spool_def)

lemma check_phase_follows:
  assumes "spool_follows p"
  shows "spool_follows (check_spool_phase p)"
proof (cases "pl_spool p")
  case None
  then show ?thesis using assms by (simp add: check_spool_phase_def)
next
  case (Some spool)
  obtain spool' r where r: "port_running spool = (spool', r)" by (metis surj_pair)
  have "spool_follows (p\<lparr>pl_spool := Some spool'\<rparr>)"
    using assms Some port_running_sent [OF r] port_running_tracks [OF r] by (simp add: spool_follows_def)
  then show ?thesis using Some r by (cases r) (simp_all add: check_spool_phase_def degrade_follows)
qed

text \<open>The spool's share of \<open>push_encoded\<close>, with \<open>new\<close> just stored.\<close>

lemma spool_encoded_follows:
  assumes "spool_follows p" "hist_ok (pf_ring flow) (pl_stored p @ stored_of batch outcomes)"
    and "q = p\<lparr>pl_flow := flow, pl_encoded_packets_total := n, pl_stored := pl_stored p @ stored_of batch outcomes\<rparr>"
  shows "spool_follows (spool_encoded batch outcomes q)"
proof (cases "pl_spool p")
  case None
  then show ?thesis by (simp add: spool_encoded_def spool_follows_def assms(3))
next
  case (Some spool)
  note T = assms(1) [unfolded spool_follows_def, rule_format, OF Some]
  show ?thesis
  proof (cases "pl_spool_degraded p")
    case True
    then show ?thesis using T Some by (simp add: spool_encoded_def spool_follows_def assms(3))
  next
    case False
    show ?thesis
    proof (cases "pl_spool_pending_from_ns p")
      case None
      have "spool_follows (submit_stored (zip batch outcomes) q)"
      proof (cases "gone spool \<and> prefix (epoch_packets (sp_sent spool)) (pl_stored p)")
        case True
        then show ?thesis using T Some by (intro submit_stored_gone [of _ spool]) (simp_all add: assms(3))
      next
        case other: False
        then have "epoch_packets (sp_sent spool) = pl_stored p" using T False None by (auto simp: tracks_def follows_def)
        then show ?thesis using T Some None False
          by (intro submit_stored_follows [of _ spool]) (simp_all add: assms(3) stored_of_def)
      qed
      then show ?thesis using Some None False by (simp add: spool_encoded_def assms(3) check_phase_follows)
    next
      case pending: (Some t)
      have q: "spool_follows q"
        using T Some pending False
        by (auto simp: assms(3) spool_follows_def tracks_def follows_def prefix_def)
      obtain q' r where f: "flush_spool_backlog q = (q', r)" by (metis surj_pair)
      have "spool_follows q'"
        by (rule flush_backlog_follows [OF q _ _ f]) (use False assms(2) in \<open>simp_all add: assms(3)\<close>)
      then have "spool_follows (case flush_spool_backlog q of (p, Inl _) \<Rightarrow> degrade_spool p | (p, Inr _) \<Rightarrow> p)"
        by (cases r) (simp_all add: f degrade_follows)
      then show ?thesis using Some pending False check_phase_follows by (simp add: spool_encoded_def assms(3))
    qed
  qed
qed

lemma spool_encoded_erased: "spool_erased (spool_encoded batch outcomes p) = spool_erased p"
proof -
  obtain q r where f: "flush_spool_backlog p = (q, r)" by (metis surj_pair)
  show ?thesis
    using flush_backlog_erased [OF f]
    by (cases r) (simp_all add: spool_encoded_def check_phase_erased submit_stored_erased f)
qed

lemma stored_total:
  assumes "unat n = min k (2 ^ 64 - 1)" "length us = length ps"
  shows "unat (saturating_add n (unwrap_or (try_from (length (filter is_stored us))) (- 1)) :: u64)
    = min (k + length (stored_of ps us)) (2 ^ 64 - 1)"
  using assms(1) by (simp add: unat_saturating_add unat_try_from_max length_stored_of [OF assms(2)] min_def)

lemma push_encoded_inv:
  assumes "pipeline_inv p" "pf_phase (pl_flow p) = Running" "\<forall>x \<in> set batch. packet_ok x"
  shows "\<exists>q r. push_encoded batch p = Some (q, r) \<and> flow_inv (pl_flow q)
    \<and> (is_ok r \<longrightarrow> pipeline_inv q \<and> pf_phase (pl_flow q) = Running)
    \<and> (\<not> is_ok r \<longrightarrow> (\<exists>flow. q = p\<lparr>pl_flow := flow\<rparr>))"
proof -
  note I = assms(1) [unfolded pipeline_inv_def pipeline_core_def]
  have fi: "flow_inv (pl_flow p)" and h: "hist_ok (pf_ring (pl_flow p)) (pl_stored p)" using I assms(2) by auto
  have self: "\<exists>flow. p = p\<lparr>pl_flow := flow\<rparr>" by (rule exI [of _ "pl_flow p"]) simp
  show ?thesis
  proof (cases "try_all (\<lambda>packet. validate_packet (pf_stream (pl_flow p)) (pk_bytes packet)) batch")
    case (Inl e)
    then show ?thesis using fi self by (simp add: push_encoded_def)
  next
    case (Inr u)
    obtain g res where g: "push_batch batch (pl_flow p) = Some (g, res)" "flow_inv g"
      using push_batch_returns [OF fi assms(3)] by blast
    show ?thesis
    proof (cases res)
      case Inl': (Inl e)
      then show ?thesis using Inr g by (auto simp: push_encoded_def)
    next
      case Inr': (Inr us)
      have B: "hist_ok (pf_ring g) (pl_stored p @ stored_of batch us)" "length us = length batch" "pf_phase g = Running"
        using push_batch_history [OF fi assms(3) g(1) [unfolded Inr'] h] by blast+
      define q where "q = p\<lparr>pl_flow := g,
        pl_encoded_packets_total := saturating_add (pl_encoded_packets_total p)
          (unwrap_or (try_from (length (filter is_stored us))) (- 1)),
        pl_stored := pl_stored p @ stored_of batch us\<rparr>"
      note E = spool_erased_fields [OF spool_encoded_erased [of batch us q]]
      have "spool_follows (spool_encoded batch us q)"
        by (rule spool_encoded_follows [OF _ B(1) q_def]) (use I in simp)
      then have "pipeline_inv (spool_encoded batch us q)"
        using I B hist_ok_facts [OF B(1)] g(2) stored_total [OF _ B(2), of "pl_encoded_packets_total p" "length (pl_stored p)"]
        by (simp add: pipeline_inv_def pipeline_core_def E) (simp add: q_def)
      moreover have "push_encoded batch p = Some (spool_encoded batch us q, Inr ())"
        using Inr g(1) Inr' by (simp add: push_encoded_def q_def)
      ultimately show ?thesis using B(3) g(2) by (simp add: E) (simp add: q_def)
    qed
  qed
qed

section \<open>Every operation keeps it\<close>

lemma core_update [simp]:
  "pipeline_core (p\<lparr>pl_phase := x\<rparr>) = pipeline_core p" "pipeline_core (p\<lparr>pl_in_flight_inputs := i\<rparr>) = pipeline_core p"
  "pipeline_core (p\<lparr>pl_completed_inputs := c\<rparr>) = pipeline_core p" "pipeline_core (p\<lparr>pl_last_frame_timestamp_ns := l\<rparr>) = pipeline_core p"
  "pipeline_core (p\<lparr>pl_last_keyframe_request_timestamp_ns := k\<rparr>) = pipeline_core p"
  "pipeline_core (p\<lparr>pl_shutdown_error := e\<rparr>) = pipeline_core p" "pipeline_core (p\<lparr>pl_audio := a\<rparr>) = pipeline_core p"
  by (simp_all add: pipeline_core_def spool_follows_def)

lemma core_backend: "pipeline_core p \<Longrightarrow> (\<And>b. b' = Some b \<Longrightarrow> backend_ok b) \<Longrightarrow> pipeline_core (p\<lparr>pl_backend := b'\<rparr>)"
  by (simp add: pipeline_core_def spool_follows_def)

lemma core_backend_simps:
  "pipeline_core p \<Longrightarrow> pipeline_core (p\<lparr>pl_backend := None\<rparr>)"
  "pipeline_core p \<Longrightarrow> backend_ok b \<Longrightarrow> pipeline_core (p\<lparr>pl_backend := Some b\<rparr>)"
  by (rule core_backend; simp)+

lemma core_flow: "pipeline_core p \<Longrightarrow> flow_inv f \<Longrightarrow> pipeline_core (p\<lparr>pl_flow := f\<rparr>)"
  by (simp add: pipeline_core_def spool_follows_def)

lemma inv_core: "pipeline_inv p \<Longrightarrow> pipeline_core p"
  by (simp add: pipeline_inv_def)

lemma inv_update [simp]:
  "pipeline_inv (p\<lparr>pl_in_flight_inputs := i\<rparr>) = pipeline_inv p" "pipeline_inv (p\<lparr>pl_completed_inputs := c\<rparr>) = pipeline_inv p"
  "pipeline_inv (p\<lparr>pl_last_frame_timestamp_ns := l\<rparr>) = pipeline_inv p"
  "pipeline_inv (p\<lparr>pl_last_keyframe_request_timestamp_ns := k\<rparr>) = pipeline_inv p"
  "pipeline_inv (p\<lparr>pl_audio := a\<rparr>) = pipeline_inv p"
  by (simp_all add: pipeline_inv_def)

lemma backend_ok_calls: "backend_ok (b\<lparr>eb_calls := n\<rparr>) = backend_ok b" "backend_ok (b\<lparr>eb_encodes := l\<rparr>) = backend_ok b"
  by (simp_all add: backend_ok_def)

lemma shutdown_backend_frame:
  assumes "shutdown_backend p = (q, r)"
  shows "pl_flow q = pl_flow p" "pl_phase q = pl_phase p" "pl_spool q = pl_spool p" "pl_stored q = pl_stored p"
    "pl_spool_pending_from_ns q = pl_spool_pending_from_ns p" "pl_spool_degraded q = pl_spool_degraded p"
    "pl_settings q = pl_settings p" "pl_encoded_packets_total q = pl_encoded_packets_total p"
    "r = Inr () \<Longrightarrow> pl_backend q = None \<and> pl_shutdown_error q = None"
  using assms
  by (auto simp: shutdown_backend_def backend_released_def split: option.splits sum.splits prod.splits)

lemma shutdown_backend_core:
  assumes "pipeline_core p" "shutdown_backend p = (q, r)"
  shows "pipeline_core q"
proof -
  have "backend_ok b'" if "pl_backend p = Some b" "backend_shutdown b = (b', r')" for b b' r'
    using assms(1) that by (auto simp: pipeline_core_def backend_shutdown_def backend_ok_calls)
  then show ?thesis
    using assms by (auto simp: shutdown_backend_def backend_released_def core_backend_simps split: option.splits sum.splits prod.splits)
qed

lemma flow_fail_props: "flow_inv f \<Longrightarrow> flow_inv (flow_fail f)" "pf_phase (flow_fail f) \<noteq> Running"
  using fail_closed_inv [of f] by (auto simp: flow_fail_def flow_inv_def fail_closed_def)

lemma fail_closed_keeps:
  assumes "pipeline_core p"
  shows "pipeline_inv (pipeline_fail_closed p)" "pl_phase (pipeline_fail_closed p) = PipelineFailed"
proof -
  obtain q r where q: "shutdown_backend p = (q, r)" by (metis surj_pair)
  have c: "pipeline_core q" by (rule shutdown_backend_core [OF assms q])
  then have "flow_inv (flow_fail (pl_flow q))" using flow_fail_props(1) by (simp add: pipeline_core_def)
  then show "pipeline_inv (pipeline_fail_closed p)"
    using c flow_fail_props(2) by (simp add: pipeline_fail_closed_def q pipeline_inv_def Let_def core_flow)
qed (simp add: pipeline_fail_closed_def Let_def)

lemma complete_inputs_frame:
  "complete_inputs ss p = (q, r) \<Longrightarrow> \<exists>i c. q = p\<lparr>pl_in_flight_inputs := i, pl_completed_inputs := c\<rparr>"
proof (induction ss p arbitrary: q r rule: complete_inputs.induct)
  case (1 p)
  then show ?case by (intro exI [of _ "pl_in_flight_inputs p"] exI [of _ "pl_completed_inputs p"]) simp
next
  case (2 s rest p)
  let ?i = "remove1 s (pl_in_flight_inputs p)"
  consider "s \<notin> set (pl_in_flight_inputs p)" | "s \<in> set (pl_in_flight_inputs p)" "MAX_COMPLETED_INPUTS \<le> length (pl_completed_inputs p)"
    | "s \<in> set (pl_in_flight_inputs p)" "\<not> MAX_COMPLETED_INPUTS \<le> length (pl_completed_inputs p)" by blast
  then show ?case
  proof cases
    case 1
    then show ?thesis using 2(2) by (intro exI [of _ "pl_in_flight_inputs p"] exI [of _ "pl_completed_inputs p"]) simp
  next
    case i2: 2
    then have "q = p\<lparr>pl_in_flight_inputs := ?i, pl_completed_inputs := pl_completed_inputs p\<rparr>" using 2(2) by (auto simp: Let_def)
    then show ?thesis by blast
  next
    case 3
    then show ?thesis using 2(1) [of "p\<lparr>pl_in_flight_inputs := ?i\<rparr>" q r] 2(2) by (auto simp: Let_def)
  qed
qed

lemma accept_encoded_inv:
  assumes "pipeline_inv p" "pf_phase (pl_flow p) = Running" "\<forall>x \<in> set (ho_batch out). packet_ok x"
  shows "\<exists>q r. accept_encoded out p = Some (q, r) \<and> (is_ok r \<longrightarrow> pipeline_inv q \<and> pf_phase (pl_flow q) = Running)
    \<and> pipeline_core q"
proof -
  obtain p1 r1 where c: "complete_inputs (ho_completed_inputs out) p = (p1, r1)" by (metis surj_pair)
  then obtain i d where p1: "p1 = p\<lparr>pl_in_flight_inputs := i, pl_completed_inputs := d\<rparr>" using complete_inputs_frame by blast
  then have inv1: "pipeline_inv p1" "pf_phase (pl_flow p1) = Running" using assms by simp_all
  show ?thesis
  proof (cases r1)
    case (Inl e)
    then show ?thesis using c inv_core [OF inv1(1)] by (simp add: accept_encoded_def)
  next
    case (Inr u)
    obtain q r where q: "push_encoded (ho_batch out) p1 = Some (q, r)" "flow_inv (pl_flow q)"
      "is_ok r \<longrightarrow> pipeline_inv q \<and> pf_phase (pl_flow q) = Running" "\<not> is_ok r \<longrightarrow> (\<exists>flow. q = p1\<lparr>pl_flow := flow\<rparr>)"
      using push_encoded_inv [OF inv1 assms(3)] by blast
    have "pipeline_core q"
      using q(2-4) inv_core [OF inv1(1)] inv_core [of q] core_flow [of p1] by (cases "is_ok r") auto
    then show ?thesis using q c Inr by (simp add: accept_encoded_def)
  qed
qed

text \<open>The common part of a frame and of the drain before a save: the backend answers, the answer is accepted or the pipeline
  fails closed.\<close>

lemma backend_answer_inv:
  assumes "pipeline_inv p" "pf_phase (pl_flow p) = Running" "pl_backend p = Some b" "backend_ok b'"
    and "\<And>out. answer = Inr out \<Longrightarrow> \<forall>x \<in> set (ho_batch out). packet_ok x"
  shows "pipeline_core (p\<lparr>pl_backend := Some b'\<rparr>)"
    and "answer = Inr out \<Longrightarrow> \<exists>q r. accept_encoded out (p\<lparr>pl_backend := Some b'\<rparr>) = Some (q, r)
      \<and> (is_ok r \<longrightarrow> pipeline_inv q \<and> pf_phase (pl_flow q) = Running) \<and> pipeline_core q"
proof -
  show c: "pipeline_core (p\<lparr>pl_backend := Some b'\<rparr>)" by (rule core_backend_simps(2) [OF inv_core [OF assms(1)] assms(4)])
  have "pipeline_inv (p\<lparr>pl_backend := Some b'\<rparr>)" using c assms(1) by (simp add: pipeline_inv_def)
  then show "\<exists>q r. accept_encoded out (p\<lparr>pl_backend := Some b'\<rparr>) = Some (q, r)
      \<and> (is_ok r \<longrightarrow> pipeline_inv q \<and> pf_phase (pl_flow q) = Running) \<and> pipeline_core q" if "answer = Inr out"
    by (rule accept_encoded_inv) (use assms(2,5) that in simp_all)
qed

lemma backend_ok_output: "backend_ok b \<Longrightarrow> eb_output b n = Inr out \<Longrightarrow> \<forall>x \<in> set (ho_batch out). packet_ok x"
  by (auto simp: backend_ok_def)

lemma encode_frame_inv:
  assumes "pipeline_inv p" "pl_phase p = PipelineBuffering"
  shows "\<exists>q r. encode_frame s t p = Some (q, r) \<and> pipeline_inv q \<and> (\<not> is_ok r \<longrightarrow> pl_phase q = PipelineFailed)"
proof -
  obtain b where b: "pl_backend p = Some b" "backend_ok b" and run: "pf_phase (pl_flow p) = Running"
    using assms by (auto simp: pipeline_inv_def pipeline_core_def)
  obtain b' answer where e: "backend_encode s t (wants_keyframe t p) b = (b', answer)" by (metis surj_pair)
  have b': "backend_ok b'" "answer = eb_output b (eb_calls b)" using e b(2) by (auto simp: backend_encode_def backend_ok_def)
  note A = backend_answer_inv [OF assms(1) run b(1) b'(1), of answer]
  have out: "\<And>out. answer = Inr out \<Longrightarrow> \<forall>x \<in> set (ho_batch out). packet_ok x"
    using backend_ok_output [OF b(2)] b'(2) by metis
  show ?thesis
  proof (cases answer)
    case (Inl x)
    then show ?thesis using b(1) e fail_closed_keeps [OF A(1) [OF out]] by (simp add: encode_frame_def Let_def)
  next
    case (Inr out')
    from A(2) [OF out Inr] obtain q r where q: "accept_encoded out' (p\<lparr>pl_backend := Some b'\<rparr>) = Some (q, r)"
      "is_ok r \<longrightarrow> pipeline_inv q \<and> pf_phase (pl_flow q) = Running" "pipeline_core q" by blast
    show ?thesis
    proof (cases r)
      case Inl': (Inl x)
      then show ?thesis using b(1) e Inr q(1) fail_closed_keeps [OF q(3)] by (simp add: encode_frame_def Let_def)
    next
      case Inr': (Inr u)
      obtain q' r' where q': "frame_accepted t (wants_keyframe t p) q = (q', r')" by (metis surj_pair)
      have "pipeline_inv q' \<and> (\<not> is_ok r' \<longrightarrow> pl_phase q' = PipelineFailed)"
        using q' q(2,3) Inr' by (auto simp: frame_accepted_def Let_def fail_closed_keeps split: if_splits)
      then show ?thesis using b(1) e Inr Inr' q(1) q' by (simp add: encode_frame_def Let_def)
    qed
  qed
qed

lemma submit_frame_inv:
  assumes "pipeline_inv p"
  shows "\<exists>q r. submit_frame s f p = Some (q, r) \<and> pipeline_inv q
    \<and> (\<not> is_ok r \<longrightarrow> q = p \<and> pl_phase p \<noteq> PipelineBuffering \<or> pl_phase q = PipelineFailed)"
proof (cases "pl_phase p = PipelineBuffering")
  case True
  have e: "\<exists>q r. encode_frame s (df_timestamp_ns f) (p\<lparr>pl_in_flight_inputs := i\<rparr>) = Some (q, r) \<and> pipeline_inv q
      \<and> (\<not> is_ok r \<longrightarrow> pl_phase q = PipelineFailed)" for i
    using encode_frame_inv [of "p\<lparr>pl_in_flight_inputs := i\<rparr>"] assms True by simp
  show ?thesis
    using e [of "pl_in_flight_inputs p @ [s]"] True fail_closed_keeps [OF inv_core, OF assms] fail_closed_keeps [of "p\<lparr>pl_in_flight_inputs := pl_in_flight_inputs p @ [s]\<rparr>"] inv_core [OF assms]
    by (auto simp: submit_frame_def Let_def)
qed (use assms in \<open>simp add: submit_frame_def\<close>)

lemma drain_inv:
  assumes "pipeline_inv p"
  shows "\<exists>q r. drain_backend p = Some (q, r) \<and> pipeline_inv q \<and> (is_ok r \<longrightarrow> pf_phase (pl_flow q) = Running)"
proof (cases "pl_phase p = PipelineBuffering")
  case True
  obtain b where b: "pl_backend p = Some b" "backend_ok b" and run: "pf_phase (pl_flow p) = Running"
    using assms True by (auto simp: pipeline_inv_def pipeline_core_def)
  obtain b' answer where e: "backend_drain b = (b', answer)" by (metis surj_pair)
  have b': "backend_ok b'" "answer = eb_output b (eb_calls b)" using e b(2) by (auto simp: backend_drain_def backend_ok_def)
  note A = backend_answer_inv [OF assms run b(1) b'(1), of answer]
  have out: "\<And>out. answer = Inr out \<Longrightarrow> \<forall>x \<in> set (ho_batch out). packet_ok x"
    using backend_ok_output [OF b(2)] b'(2) by metis
  show ?thesis
  proof (cases answer)
    case (Inl x)
    then show ?thesis using True b(1) e fail_closed_keeps [OF A(1) [OF out]] by (simp add: drain_backend_def)
  next
    case (Inr out')
    from A(2) [OF out Inr] obtain q r where q: "accept_encoded out' (p\<lparr>pl_backend := Some b'\<rparr>) = Some (q, r)"
      "is_ok r \<longrightarrow> pipeline_inv q \<and> pf_phase (pl_flow q) = Running" "pipeline_core q" by blast
    then show ?thesis
      using True b(1) e Inr fail_closed_keeps [OF q(3)] by (cases r) (simp_all add: drain_backend_def)
  qed
qed (use assms in \<open>simp add: drain_backend_def\<close>)

lemma inv_spool:
  assumes "pipeline_inv p" "spool_erased q = spool_erased p" "spool_follows q"
  shows "pipeline_inv q"
  using assms(1,3) by (simp add: pipeline_inv_def pipeline_core_def spool_erased_fields [OF assms(2)])

lemma read_phase_follows:
  assumes "spool_follows p" "pl_spool p = Some spool" "port_running spool = (spool', r)"
  shows "spool_follows (p\<lparr>pl_spool := Some spool'\<rparr>)"
  using assms port_running_sent [OF assms(3)] port_running_tracks [OF assms(3)] by (simp add: spool_follows_def)

lemma disk_available_inv:
  assumes "pipeline_inv p" "disk_history_available p = (q, r)"
  shows "pipeline_inv q" "pl_phase q = pl_phase p"
proof -
  have "spool_erased q = spool_erased p \<and> spool_follows q"
    using assms read_phase_follows [of p]
    by (auto simp: disk_history_available_def pipeline_inv_def pipeline_core_def split: if_splits option.splits prod.splits)
  then show "pipeline_inv q" "pl_phase q = pl_phase p" using inv_spool [OF assms(1)] spool_erased_fields(4) by blast+
qed

lemma flush_packets_degraded: "flush_packets ps p = (q, r) \<Longrightarrow> pl_spool_degraded q = pl_spool_degraded p"
  by (induction ps p arbitrary: q r rule: flush_packets.induct)
    (fastforce split: option.splits sum.splits replay_spool_submit_error.splits prod.splits)+

lemma flush_backlog_degraded: "flush_spool_backlog p = (q, r) \<Longrightarrow> pl_spool_degraded q = pl_spool_degraded p"
  by (auto simp: flush_spool_backlog_def Let_def split: option.splits if_splits dest: flush_packets_degraded)

lemma flush_before_save_inv:
  assumes "pipeline_inv p" "pf_phase (pl_flow p) = Running" "flush_spool_backlog_before_save p = (q, r)"
  shows "pipeline_inv q" "pl_phase q = pl_phase p"
    "r = Inr () \<Longrightarrow> pl_spool_pending_from_ns q = None \<and> \<not> pl_spool_degraded q"
proof -
  define p1b where "p1b = (if pl_spool_degraded p then (p, False)
      else case pl_spool p of None \<Rightarrow> (p, True)
      | Some spool \<Rightarrow> (case port_running spool of (spool, running) \<Rightarrow> (p\<lparr>pl_spool := Some spool\<rparr>, running)))"
  obtain p1 b where p1: "p1b = (p1, b)" by (cases p1b)
  have f: "spool_follows p" using assms(1) by (simp add: pipeline_inv_def pipeline_core_def)
  have e1: "spool_erased p1 = spool_erased p \<and> spool_follows p1 \<and> pl_spool_degraded p1 = pl_spool_degraded p
      \<and> (b \<longrightarrow> \<not> pl_spool_degraded p)"
    using p1 f read_phase_follows [OF f] by (auto simp: p1b_def split: if_splits option.splits prod.splits)
  obtain p2 r2 where p2: "flush_spool_backlog p1 = (p2, r2)" by (metis surj_pair)
  have inv1: "pipeline_inv p1" using inv_spool [OF assms(1)] e1 by blast
  have e2: "spool_erased p2 = spool_erased p \<and> pl_spool_degraded p2 = pl_spool_degraded p"
    using flush_backlog_erased [OF p2] flush_backlog_degraded [OF p2] e1 by simp
  have f2: "spool_follows p2" if b
    using flush_backlog_follows [OF _ _ _ p2] that e1 inv1 assms(2) spool_erased_fields(1) [of p1 p]
    by (simp add: pipeline_inv_def)
  have q: "q = p1 \<or> b \<and> q = p2" "r = Inr () \<Longrightarrow> b \<and> pl_spool_pending_from_ns q = None"
    using assms(3) p2 unfolding flush_spool_backlog_before_save_def p1b_def [symmetric] p1
    by (auto split: bool.splits if_splits sum.splits)
  show "pipeline_inv q" using q(1) inv1 inv_spool [OF assms(1)] e2 f2 by blast
  show "pl_phase q = pl_phase p" using q(1) spool_erased_fields(4) e1 e2 by blast
  show "pl_spool_pending_from_ns q = None \<and> \<not> pl_spool_degraded q" if "r = Inr ()"
    using q(1) q(2) [OF that] e1 e2 by auto
qed

lemma save_async_port:
  assumes "save_async requested settings stream spawned spool = (spool', r)" "port_ok spool"
  shows "port_ok spool'" "epoch_packets (sp_sent spool') = epoch_packets (sp_sent spool)" "gone spool \<Longrightarrow> gone spool'"
    "r = Inr x \<Longrightarrow> \<not> gone spool \<and> sp_sent spool' = sp_sent spool @ [PrepareSnapshot requested False]
       \<and> x = (settings\<lparr>rs_duration := requested\<rparr>, stream)"
  using assms
  by (auto simp: save_async_def port_running_def port_send_def gone_def gone_later
      split: if_splits bool.splits queue_answer.splits)

lemma save_recent_inv:
  assumes "pipeline_inv p"
  shows "\<exists>q r. save_recent_replay d fmt audio spawned p = Some (q, r) \<and> pipeline_inv q"
proof -
  obtain q r where "drain_backend p = Some (q, r)" "pipeline_inv q" using drain_inv [OF assms] by blast
  then show ?thesis by (cases r) (auto simp: save_recent_replay_def Let_def)
qed

lemma push_encoded_frame:
  assumes "push_encoded batch p = Some (q, r)"
  shows "pl_phase q = pl_phase p" "pl_backend q = pl_backend p" "pl_in_flight_inputs q = pl_in_flight_inputs p"
    "pl_completed_inputs q = pl_completed_inputs p" "pl_shutdown_error q = pl_shutdown_error p"
    "pl_last_keyframe_request_timestamp_ns q = pl_last_keyframe_request_timestamp_ns p"
  using assms
  by (auto simp: push_encoded_def spool_erased_fields [OF spool_encoded_erased] split: sum.splits option.splits prod.splits)

lemma accept_encoded_frame:
  assumes "accept_encoded out p = Some (q, r)"
  shows "pl_phase q = pl_phase p" "pl_backend q = pl_backend p" "pl_shutdown_error q = pl_shutdown_error p"
    "pl_last_keyframe_request_timestamp_ns q = pl_last_keyframe_request_timestamp_ns p"
proof -
  obtain p1 r1 where c: "complete_inputs (ho_completed_inputs out) p = (p1, r1)" by (metis surj_pair)
  then obtain i d where p1: "p1 = p\<lparr>pl_in_flight_inputs := i, pl_completed_inputs := d\<rparr>" using complete_inputs_frame by blast
  have "q = p1 \<or> push_encoded (ho_batch out) p1 = Some (q, r)"
    using assms c by (cases r1) (simp_all add: accept_encoded_def)
  then show "pl_phase q = pl_phase p" "pl_backend q = pl_backend p" "pl_shutdown_error q = pl_shutdown_error p"
    "pl_last_keyframe_request_timestamp_ns q = pl_last_keyframe_request_timestamp_ns p"
    using push_encoded_frame [of "ho_batch out" p1 q r] p1 by auto
qed

lemma drain_phase: "drain_backend p = Some (q, Inr u) \<Longrightarrow> pl_phase q = PipelineBuffering \<and> pl_phase p = PipelineBuffering"
  using accept_encoded_frame(1)
  by (fastforce simp: drain_backend_def split: if_splits option.splits sum.splits prod.splits)

lemma save_replay_inv:
  assumes "pipeline_inv p"
  shows "\<exists>q r. save_replay save p = Some (q, r) \<and> pipeline_inv q"
proof -
  obtain q r where q: "drain_backend p = Some (q, r)" "pipeline_inv q" using drain_inv [OF assms] by blast
  show ?thesis
  proof (cases r)
    case (Inl e)
    then show ?thesis using q by (simp add: save_replay_def)
  next
    case (Inr u)
    then have "q\<lparr>pl_phase := PipelineBuffering\<rparr> = q" using q(1) drain_phase [of p q u] by simp
    then show ?thesis
      using q Inr fail_closed_keeps(1) [of "q\<lparr>pl_phase := PipelineSaving\<rparr>"] inv_core [OF q(2)]
      by (auto simp: save_replay_def Let_def split: sum.split)
  qed
qed

text \<open>A save from disk: what was queued before its snapshot command is everything the ring stored in this epoch.\<close>

lemma save_spooled_inv:
  assumes "pipeline_inv p"
  shows "\<exists>q r. save_spooled_replay d fmt audio spawned p = Some (q, r) \<and> pipeline_inv q
    \<and> (\<forall>settings stream f. r = Inr (SpoolAssembly settings stream f) \<longrightarrow> (\<exists>spool cs. pl_spool q = Some spool
          \<and> sp_sent spool = cs @ [PrepareSnapshot d False] \<and> epoch_packets cs = pl_stored q
          \<and> stream = pf_stream (pl_flow q) \<and> settings = (pl_settings q)\<lparr>rs_duration := d\<rparr>))"
proof -
  obtain q r where q: "drain_backend p = Some (q, r)" "pipeline_inv q" "is_ok r \<longrightarrow> pf_phase (pl_flow q) = Running"
    using drain_inv [OF assms] by blast
  show ?thesis
  proof (cases r)
    case (Inl e)
    then show ?thesis using q by (simp add: save_spooled_replay_def)
  next
    case (Inr u)
    obtain q1 r1 where q1: "flush_spool_backlog_before_save q = (q1, r1)" by (metis surj_pair)
    have run: "pf_phase (pl_flow q) = Running" using q(3) Inr by simp
    note F = flush_before_save_inv [OF q(2) run q1]
    show ?thesis
    proof (cases r1)
      case Inl1: (Inl e)
      obtain q2 b where q2: "disk_history_available q1 = (q2, b)" by (metis surj_pair)
      have inv2: "pipeline_inv q2" using disk_available_inv(1) [OF F(1) q2] .
      obtain q3 r3 where q3: "save_recent_replay d fmt audio spawned q2 = Some (q3, r3)" "pipeline_inv q3"
        using save_recent_inv [OF inv2] by blast
      have "r3 \<noteq> Inr (SpoolAssembly settings stream f)" for settings stream f
        using q3(1) by (auto simp: save_recent_replay_def Let_def split: option.splits prod.splits sum.splits if_splits)
      then show ?thesis using q(1) Inr q1 Inl1 q2 inv2 q3 by (cases b) (simp_all add: save_spooled_replay_def)
    next
      case Inr1: (Inr v)
      show ?thesis
      proof (cases "pl_spool q1")
        case None
        then show ?thesis using q(1) Inr q1 Inr1 F(1) by (simp add: save_spooled_replay_def)
      next
        case (Some spool)
        obtain spool' r2 where s: "save_async d (pl_settings q1) (pf_stream (pl_flow q1)) spawned spool = (spool', r2)"
          by (metis surj_pair)
        have pend: "pl_spool_pending_from_ns q1 = None" "\<not> pl_spool_degraded q1" using F(3) Inr1 by auto
        have T: "port_ok spool" "tracks spool None (pl_stored q1)"
          using F(1) Some pend by (auto simp: pipeline_inv_def pipeline_core_def spool_follows_def)
        note P = save_async_port [OF s T(1)]
        let ?q = "q1\<lparr>pl_last_keyframe_request_timestamp_ns := None, pl_spool := Some spool'\<rparr>"
        have inv: "pipeline_inv ?q"
        proof (rule inv_spool)
          show "pipeline_inv (q1\<lparr>pl_last_keyframe_request_timestamp_ns := None\<rparr>)" using F(1) by simp
          show "spool_follows ?q" using P(1-3) T pend by (auto simp: spool_follows_def tracks_def)
        qed simp
        have "epoch_packets (sp_sent spool) = pl_stored q1" if "\<not> gone spool"
          using T(2) that by (simp add: tracks_def follows_def)
        then show ?thesis
          using q(1) Inr q1 Inr1 Some s inv P(4) by (cases r2) (auto simp: save_spooled_replay_def Let_def)
      qed
    qed
  qed
qed

section \<open>Reset and shutdown\<close>

lemma port_reset_sent:
  assumes "port_reset_epoch spool = (spool', r)" "port_ok spool"
  shows "port_ok spool'" "r = Inr () \<Longrightarrow> epoch_packets (sp_sent spool') = []"
  using assms by (auto simp: port_reset_epoch_def port_running_def split: bool.splits if_splits)

lemma reset_spool_core:
  assumes "pipeline_core p"
  shows "pipeline_core (reset_spool p)"
proof -
  have "spool_follows (reset_spool p)"
    using assms port_reset_sent
    by (auto simp: reset_spool_def pipeline_core_def spool_follows_def tracks_def follows_def degrade_spool_def Let_def
        split: option.splits prod.splits sum.splits)
  moreover have "pl_flow (reset_spool p) = pl_flow p" "pl_backend (reset_spool p) = pl_backend p"
    "pl_stored (reset_spool p) = []" "pl_encoded_packets_total (reset_spool p) = 0"
    by (auto simp: reset_spool_def degrade_spool_def Let_def split: option.split prod.split sum.split)
  ultimately show ?thesis using assms by (simp add: pipeline_core_def timestamps_increase_def)
qed

lemma reset_failed_inv: "pipeline_core p \<Longrightarrow> pipeline_inv (reset_failed p)"
  using flow_fail_props [of "pl_flow p"] core_flow [of p "flow_fail (pl_flow p)"]
  by (auto simp: reset_failed_def pipeline_inv_def pipeline_core_def spool_follows_def)

lemma reset_inv:
  assumes "pipeline_inv p" "backend_ok replacement" "pipeline_reset replacement p = (q, refused, r)"
  shows "pipeline_inv q"
proof (cases "pl_phase p = PipelineBuffering")
  case False
  then show ?thesis using assms by (simp add: pipeline_reset_def)
next
  case True
  have f: "flow_inv (pl_flow p)" "pf_phase (pl_flow p) = Running" using assms(1) True by (auto simp: pipeline_inv_def pipeline_core_def)
  let ?f = "begin_reset (pl_flow p)"
  let ?p0 = "p\<lparr>pl_phase := PipelineResetting, pl_flow := ?f\<rparr>"
  have fb: "flow_inv ?f" using flow_inv_step [OF f(1) step_begin_reset] .
  have "pipeline_core ?p0" using core_flow [OF inv_core [OF assms(1)] fb] by (simp add: pipeline_core_def spool_follows_def)
  then have c0: "pipeline_core (reset_spool ?p0)" by (rule reset_spool_core)
  obtain p1 r1 where p1: "shutdown_backend (reset_spool ?p0) = (p1, r1)" by (metis surj_pair)
  have c1: "pipeline_core p1" by (rule shutdown_backend_core [OF c0 p1])
  have flow1: "pl_flow p1 = ?f" "pl_stored p1 = []"
    using shutdown_backend_frame(1,4) [OF p1]
    by (auto simp: reset_spool_def degrade_spool_def Let_def split: option.split prod.split sum.split)
  show ?thesis
  proof (cases "\<exists>e. r1 = Inl e \<or> \<not> stream_matches_settings (eb_stream replacement) (pl_settings p1)")
    case fails: True
    then show ?thesis using assms(3) True p1 reset_failed_inv [OF c1] by (cases r1) (auto simp: pipeline_reset_def Let_def)
  next
    case ok: False
    let ?g = "?f\<lparr>pf_stream := eb_stream replacement, pf_phase := Running\<rparr>"
    let ?q = "p1\<lparr>pl_flow := ?g, pl_backend := Some replacement, pl_audio := audio_clear (pl_audio p1),
        pl_last_frame_timestamp_ns := None, pl_last_keyframe_request_timestamp_ns := None, pl_phase := PipelineBuffering\<rparr>"
    have g: "complete_reset (eb_stream replacement) ?f = (?g, Inr ())" using f(2) by (simp add: complete_reset_def begin_reset_def)
    have q: "q = ?q" using assms(3) True p1 ok g flow1 by (cases r1) (auto simp: pipeline_reset_def Let_def)
    have gi: "flow_inv ?g" using flow_inv_step [OF fb step_complete_reset, of "eb_stream replacement"] by (simp add: g)
    have "rr_packets (pf_ring ?g) = []" "ring_inv (pf_ring ?g)"
      using f gi ring.clear_items by (simp_all add: begin_reset_def flow_inv_def)
    then have "hist_ok (pf_ring ?g) []" by (simp add: hist_ok_def timestamps_increase_def)
    moreover have "pl_shutdown_error p1 = None" using ok shutdown_backend_frame(9) [OF p1] by (cases r1) auto
    moreover have "pipeline_core ?q"
      using core_backend_simps(2) [OF core_flow [OF c1 gi] assms(2)] by (simp add: pipeline_core_def spool_follows_def)
    ultimately show ?thesis by (simp add: q pipeline_inv_def flow1)
  qed
qed

lemma shutdown_inv:
  assumes "pipeline_inv p" "pipeline_shutdown p = (q, r)"
  shows "pipeline_inv q"
proof (cases "pl_phase p = PipelineShutdown")
  case False
  obtain p1 r1 where p1: "shutdown_backend p = (p1, r1)" by (metis surj_pair)
  have c1: "pipeline_core p1" by (rule shutdown_backend_core [OF inv_core [OF assms(1)] p1])
  then have "flow_inv (flow_shutdown (pl_flow p1))" using flow_inv_step [OF _ step_shutdown] by (simp add: pipeline_core_def)
  then show ?thesis
    using assms(2) False p1 c1
    by (auto simp: pipeline_shutdown_def pipeline_inv_def pipeline_core_def spool_follows_def timestamps_increase_def)
      (simp_all add: flow_shutdown_def)
qed (use assms in \<open>auto simp: pipeline_shutdown_def\<close>)

section \<open>The pipeline as an event system\<close>

datatype pipeline_event =
    SubmitFrame u64 dma_buf_replay_frame
  | SubmitAudio encoded_opus_packet
  | SaveRing
  | SaveSpooled replay_duration
  | SaveRecent replay_duration
  | ResetPipeline encoder_backend
  | TakeCompleted
  | ShutdownPipeline

inductive pipeline_step :: "replay_hardware_pipeline \<Rightarrow> pipeline_event \<Rightarrow> replay_hardware_pipeline \<Rightarrow> bool" where
  step_frame: "submit_frame s f p = Some (q, r) \<Longrightarrow> pipeline_step p (SubmitFrame s f) q"
| step_audio: "submit_audio a p = (q, r) \<Longrightarrow> pipeline_step p (SubmitAudio a) q"
| step_save: "save_replay (save :: _ \<Rightarrow> _ \<Rightarrow> _ \<Rightarrow> string + unit) p = Some (q, r') \<Longrightarrow> pipeline_step p SaveRing q"
| step_spooled: "save_spooled_replay d fmt audio spawned p = Some (q, j) \<Longrightarrow> pipeline_step p (SaveSpooled d) q"
| step_recent: "save_recent_replay d fmt audio spawned p = Some (q, j) \<Longrightarrow> pipeline_step p (SaveRecent d) q"
| step_reset: "backend_ok b \<Longrightarrow> eb_encodes b = [] \<Longrightarrow> pipeline_reset b p = (q, refused, r) \<Longrightarrow> pipeline_step p (ResetPipeline b) q"
| step_take: "take_completed_inputs p = (q, ss) \<Longrightarrow> pipeline_step p TakeCompleted q"
| step_stop: "pipeline_shutdown p = (q, r) \<Longrightarrow> pipeline_step p ShutdownPipeline q"

inductive_cases pipeline_stepE: "pipeline_step p e q"

text \<open>A new pipeline, with or without a spool whose epoch was just reset.\<close>

definition pipeline_init :: "replay_hardware_pipeline \<Rightarrow> bool" where
  "pipeline_init p \<longleftrightarrow> (\<exists>settings b p0. backend_ok b \<and> eb_encodes b = [] \<and> pipeline_new settings b = (None, Inr p0)
     \<and> (p = p0 \<or> (\<exists>spool. port_ok spool \<and> sp_sent spool = [ResetEpoch] \<and> p = with_spool spool p0)))"

lemma pipeline_inv_init: "pipeline_init p \<Longrightarrow> pipeline_inv p"
proof -
  have "hist_ok (ring_new settings) []" for settings
    using ring_new_inv [of settings] by (simp add: hist_ok_def timestamps_increase_def ring_new_def Let_def)
  moreover have "flow_inv (flow_new settings stream)" for settings stream
    using flow_inv_init by (auto simp: flow_init_def)
  ultimately show "pipeline_init p \<Longrightarrow> pipeline_inv p"
    by (auto simp: pipeline_init_def pipeline_new_def with_spool_def pipeline_inv_def pipeline_core_def spool_follows_def
        tracks_def follows_def timestamps_increase_def epoch_packets_def flow_new_def split: if_splits)
qed

lemma pipeline_inv_step: "pipeline_inv p \<Longrightarrow> pipeline_step p e q \<Longrightarrow> pipeline_inv q"
proof (erule pipeline_stepE)
  fix a r
  assume "pipeline_inv p" "submit_audio a p = (q, r)"
  then show "pipeline_inv q" by (auto simp: submit_audio_def split: if_splits prod.splits sum.splits)
next
  fix ss
  assume "pipeline_inv p" "take_completed_inputs p = (q, ss)"
  then show "pipeline_inv q" by (auto simp: take_completed_inputs_def)
next
  fix s f r
  assume "pipeline_inv p" "submit_frame s f p = Some (q, r)"
  then show "pipeline_inv q" using submit_frame_inv [of p s f] by simp
next
  fix save :: "replay_video_stream \<Rightarrow> replay_ring \<Rightarrow> replay_audio_snapshot \<Rightarrow> string + unit" and r
  assume "pipeline_inv p" "save_replay save p = Some (q, r)"
  then show "pipeline_inv q" using save_replay_inv [of p save] by simp
next
  fix d fmt audio spawned j
  assume "pipeline_inv p" "save_spooled_replay d fmt audio spawned p = Some (q, j)"
  then show "pipeline_inv q" using save_spooled_inv [of p d fmt audio spawned] by simp
next
  fix d fmt audio spawned j
  assume "pipeline_inv p" "save_recent_replay d fmt audio spawned p = Some (q, j)"
  then show "pipeline_inv q" using save_recent_inv [of p d fmt audio spawned] by simp
qed (blast intro: reset_inv shutdown_inv)+

interpretation pipeline: event_system pipeline_init pipeline_step pipeline_inv
  by unfold_locales (fact pipeline_inv_init, fact pipeline_inv_step)

section \<open>Properties\<close>

text \<open>C3: The disk history never skips a packet while it counts as complete. In every reachable state of the pipeline that
  has not marked its disk history as degraded (as it does when the spool fails or the backlog or a new epoch cannot be
  handed over to it), whatever the encoder and the spool's queue answer, the packets queued for the spool in the
  current epoch are a prefix of the packets the ring stored, in the same order and with rising timestamps. Unless the
  worker has stopped for good, what is missing starts exactly at the recorded pending timestamp, and nothing is missing
  when none is recorded. The ring holds a suffix of the same history while frames are accepted, and the published
  packet total is the number of packets stored, up to the largest 64-bit number.\<close>

theorem spool_never_skips:
  assumes "reach pipeline_init pipeline_step p" "pl_spool p = Some spool" "\<not> pl_spool_degraded p"
  shows "timestamps_increase (pl_stored p) \<and> prefix (epoch_packets (sp_sent spool)) (pl_stored p)
    \<and> (\<not> gone spool \<longrightarrow> (case pl_spool_pending_from_ns p of
          None \<Rightarrow> epoch_packets (sp_sent spool) = pl_stored p
        | Some t \<Rightarrow> \<exists>q rest. pl_stored p = epoch_packets (sp_sent spool) @ q # rest \<and> pk_timestamp_ns q = t))
    \<and> (pl_phase p = PipelineBuffering \<longrightarrow> suffix (rr_packets (pf_ring (pl_flow p))) (pl_stored p))
    \<and> unat (pl_encoded_packets_total p) = min (length (pl_stored p)) (2 ^ 64 - 1)"
proof -
  note I = pipeline.inv_reach [OF assms(1), unfolded pipeline_inv_def pipeline_core_def]
  have "tracks spool (pl_spool_pending_from_ns p) (pl_stored p)" using I assms(2,3) by (auto simp: spool_follows_def)
  then have "prefix (epoch_packets (sp_sent spool)) (pl_stored p)" "\<not> gone spool \<longrightarrow>
      follows (epoch_packets (sp_sent spool)) (pl_spool_pending_from_ns p) (pl_stored p)"
    by (auto simp: tracks_def follows_def split: option.splits)
  then show ?thesis using I by (auto simp: follows_def hist_ok_def split: option.splits)
qed

end
