(* ===== verification/Pipeline_Saves.thy ===== *)
theory Pipeline_Saves
  imports Pipeline_History
begin

text \<open>
  The pipeline, the spool's worker and the snapshot reader together: a clip saved from disk is read from
  the very packets the pipeline stored. The commands a pipeline queues are acceptable input of the
  worker, which is what the refinement of \<open>Spool_Worker\<close> asks for.
\<close>

section \<open>The commands as the worker sees them\<close>

fun command_packets :: "spool_command list \<Rightarrow> encoded_replay_packet list" where
  "command_packets [] = []"
| "command_packets (Packet p # cs) = p # command_packets cs"
| "command_packets (_ # cs) = command_packets cs"

lemma epoch_packets_append: "ResetEpoch \<notin> set cs \<Longrightarrow> foldl epoch_step ps cs = ps @ command_packets cs"
  by (induction cs arbitrary: ps rule: command_packets.induct) auto

lemma epoch_split:
  assumes "ResetEpoch \<notin> set es"
  shows "epoch_packets (pre @ ResetEpoch # es) = command_packets es"
  using epoch_packets_append [OF assms, of "[]"] by (simp add: epoch_packets_def)

lemma subseq_concat_suffix: "suffix xss yss \<Longrightarrow> subseq (concat xss) (concat yss)"
  by (auto simp: suffix_def)

lemma seal_subseq: "subseq (history_packets (seal limits h)) (history_packets h)"
  using subseq_concat_suffix [OF longest_suffix_suffix [of "retained limits" "sh_closed h @ [sh_open h]"]]
  by (simp add: seal_def history_packets_def)

lemma append_subseq:
  assumes "history_append limits p h = (h', r)"
  shows "subseq (history_packets h') (history_packets h @ [p])"
proof -
  let ?h = "if rotates p (sh_open h) then seal limits h else h"
  have s: "subseq (history_packets ?h) (history_packets h)" using seal_subseq by simp
  have "history_packets h' = history_packets ?h \<or> history_packets h' = history_packets ?h @ [p]"
    using assms by (auto simp: history_append_def Let_def history_packets_def split: if_splits)
  then show ?thesis using s by (auto intro: list_emb_append2 list_emb_append_mono)
qed

lemma drop_open_subseq: "subseq (history_packets (h\<lparr>sh_open := []\<rparr>)) (history_packets h)"
  by (simp add: history_packets_def list_emb_prefix)

lemma command_subseq: "command \<noteq> ResetEpoch \<Longrightarrow>
    subseq (history_packets (history_command limits h command)) (history_packets h @ command_packets [command])"
proof (cases command)
  case (Packet p)
  obtain h' r where "history_append limits p h = (h', r)" by (metis surj_pair)
  then show ?thesis
    using append_subseq [of limits p h h' r] subseq_order.trans [OF drop_open_subseq, of h'] Packet by (cases r) simp_all
qed (simp_all add: seal_subseq)

text \<open>The worker's history is a subsequence of what it was sent.\<close>

lemma history_subseq:
  "ResetEpoch \<notin> set es \<Longrightarrow> subseq (history_packets h) ps \<Longrightarrow>
    subseq (history_packets (foldl (history_command limits) h es)) (ps @ command_packets es)"
proof (induction es arbitrary: h ps)
  case (Cons c es)
  have "subseq (history_packets (history_command limits h c)) (ps @ command_packets [c])"
    using subseq_order.trans [OF command_subseq list_emb_append_mono [OF Cons.prems(2) subseq_order.refl]] Cons.prems(1) by auto
  then show ?case
    using Cons.IH [of "history_command limits h c" "ps @ command_packets [c]"] Cons.prems(1) by (cases c) simp_all
qed simp

lemma commands_admissible:
  "ResetEpoch \<notin> set es \<Longrightarrow> subseq (history_packets h) ps \<Longrightarrow> timestamps_increase (ps @ command_packets es) \<Longrightarrow>
   \<forall>x \<in> set (command_packets es). packet_ok x \<Longrightarrow> admissible command_ok (history_command limits) h es"
proof (induction es arbitrary: h ps)
  case (Cons c es)
  have ok: "command_ok h c"
  proof (cases c)
    case (Packet p)
    have "set (history_packets h) \<subseteq> set ps" using Cons.prems(2) by (auto dest: list_emb_set)
    then show ?thesis
      using Packet Cons.prems(3,4) by (auto simp: timestamps_increase_def sorted_wrt_append)
  qed simp_all
  have s: "subseq (history_packets (history_command limits h c)) (ps @ command_packets [c])"
    using subseq_order.trans [OF command_subseq list_emb_append_mono [OF Cons.prems(2) subseq_order.refl]] Cons.prems(1) by auto
  have "(ps @ command_packets [c]) @ command_packets es = ps @ command_packets (c # es)" by (cases c) simp_all
  then have "admissible command_ok (history_command limits) (history_command limits h c) es"
    using Cons.IH [OF _ s] Cons.prems by (cases c) auto
  then show ?case using ok by simp
qed simp

lemma epoch_commands:
  assumes "ResetEpoch \<in> set cs"
  obtains pre es where "cs = pre @ ResetEpoch # es" "ResetEpoch \<notin> set es"
  using split_list_last [OF assms] by blast

section \<open>Properties\<close>

text \<open>C1: End to end, a disk save is made of the packets the pipeline recorded. When a save from disk is started, every
  packet the ring stored in this epoch was queued for the spool before the snapshot command. Suppose the worker (with
  a byte limit below \<open>2 ^ 63\<close>) has run the epoch's commands without stopping and answers the snapshot with pinned files, the ends of the retained
  packets increase (no packet reaches past the end of a later one), the newest retained segment by itself fits the
  packet and byte budget of the clip, and no read of the pinned files fails. Then reading them succeeds, and the clip
  is the longest decodable suffix of the retained history within the requested duration and budget, a subsequence of
  exactly the stored packets.\<close>

theorem disk_save_is_recorded_history:
  assumes "reach pipeline_init pipeline_step p"
    and "save_spooled_replay d fmt audio spawned p = Some (q, Inr (SpoolAssembly settings stream f))"
    and "pl_spool q = Some spool" "sp_sent spool = pre @ ResetEpoch # es @ [PrepareSnapshot d False]" "ResetEpoch \<notin> set es"
    and "runs (worker_step limits) w0 (ResetEpoch # es) w" "limits_ok limits"
    and "worker_command limits slow (PrepareSnapshot d False) w = (w', ctl)" "wk_responses w' = wk_responses w @ [Inr opened]"
    and "h = seal limits (foldl (history_command limits) empty_history es)"
    and "ends_increase (concat (sh_closed h))" "within_budget settings (last (sh_closed h))" "reader_calm env"
  shows "command_packets es = pl_stored q \<and> rs_duration settings = d \<and> (\<exists>src clip. spool_scan opened settings env = Inr src
    \<and> drain_packets src = Inr clip \<and> clip = longest_suffix (within_budget settings) (concat (sh_closed h))
    \<and> subseq clip (pl_stored q))"
proof -
  have S: "pipeline_inv q \<and> (\<exists>cs. sp_sent spool = cs @ [PrepareSnapshot d False] \<and> epoch_packets cs = pl_stored q)
      \<and> settings = (pl_settings q)\<lparr>rs_duration := d\<rparr>"
    using save_spooled_inv [OF pipeline.inv_reach [OF assms(1)], of d fmt audio spawned] assms(2,3) by auto
  then have ep: "command_packets es = pl_stored q" using assms(4) epoch_split [OF assms(5), of pre] by auto
  have ti: "timestamps_increase (pl_stored q)" "\<forall>x \<in> set (pl_stored q). packet_ok x"
    using S by (auto simp: pipeline_inv_def pipeline_core_def)
  have e0: "history_packets empty_history = []" by (simp add: history_packets_def empty_history_def)
  have adm: "admissible command_ok (history_command limits) empty_history es"
    by (rule commands_admissible [OF assms(5), of _ "[]"]) (use ti in \<open>simp_all add: ep e0\<close>)
  have dur: "rs_duration settings = d" using S by simp
  from spool_save_window [OF assms(6,7) adm assms(8-10) dur assms(11-13)] obtain src where
    src: "spool_scan opened settings env = Inr src"
      "drain_packets src = Inr (longest_suffix (within_budget settings) (concat (sh_closed h)))" by blast
  have all: "subseq (history_packets h) (pl_stored q)"
    using subseq_order.trans [OF seal_subseq history_subseq [OF assms(5), of empty_history "[]" limits]]
    by (simp add: assms(10) ep e0)
  have "subseq (concat (sh_closed h)) (history_packets h)" by (simp add: history_packets_def list_emb_prefix)
  from subseq_order.trans [OF suffix_imp_subseq [OF longest_suffix_suffix] subseq_order.trans [OF this all]]
  have "subseq (longest_suffix (within_budget settings) (concat (sh_closed h))) (pl_stored q)" .
  then show ?thesis using src ep dur by blast
qed

text \<open>A pipeline that records one keyframe of a second and saves it.\<close>

definition sample_backend :: encoder_backend where
  "sample_backend = \<lparr>eb_stream = sample_stream,
     eb_output = (\<lambda>n. Inr \<lparr>ho_batch = if n = 0 then [sample_second] else [], ho_completed_inputs = []\<rparr>),
     eb_shutdown = (\<lambda>_. Inr ()), eb_calls = 0, eb_encodes = []\<rparr>"

definition sample_port :: spool_port where
  "sample_port = \<lparr>sp_running = (\<lambda>_. True), sp_admit = (\<lambda>_. QueueTakes), sp_calls = 0, sp_sent = [ResetEpoch]\<rparr>"

definition sample_frame :: dma_buf_replay_frame where
  "sample_frame = \<lparr>df_gpu_identity = None, df_objects = [], df_width = 16, df_height = 16, df_drm_fourcc = DRM_FORMAT_XRGB8888,
     df_modifier = 0, df_timestamp_ns = 1000, df_duration_ns = 1000000000, df_planes = []\<rparr>"

definition sample_pipeline :: replay_hardware_pipeline where
  "sample_pipeline = \<lparr>pl_settings = default_replay_settings, pl_backend = Some sample_backend, pl_shutdown_error = None,
     pl_flow = flow_new default_replay_settings sample_stream, pl_spool = Some sample_port,
     pl_spool_pending_from_ns = None, pl_spool_degraded = False, pl_encoded_packets_total = 0,
     pl_phase = PipelineBuffering, pl_last_frame_timestamp_ns = None,
     pl_last_keyframe_request_timestamp_ns = None, pl_in_flight_inputs = [], pl_completed_inputs = [],
     pl_audio = audio_buffer_new Seconds900 opus_default, pl_stored = []\<rparr>"

lemma sample_pipeline_new: "pipeline_new default_replay_settings sample_backend = (None, Inr (sample_pipeline\<lparr>pl_spool := None\<rparr>))"
  by (simp add: pipeline_new_def stream_matches_settings_def in_memory_settings_def MAX_IN_MEMORY_HISTORY_def
      default_replay_settings_def sample_backend_def sample_pipeline_def) (simp add: sample_stream_def)

lemma sample_second_push: "push_batch [sample_second] (flow_new default_replay_settings sample_stream) =
    Some ((flow_new default_replay_settings sample_stream)\<lparr>pf_ring := after_push sample_second sample_ring\<rparr>, Inr [Stored 0 0])"
proof -
  have k: "kept sample_ring [sample_second] = [sample_second]"
    by (simp add: kept_def within_limits_def sample_ring_limits sample_second_def span_exceeds_def
        history_span_def saturating_sub_def saturating_add_def)
  have "length (pk_bytes sample_second) = 3" "pk_keyframe sample_second" by (simp_all add: sample_second_def)
  then have "ring_push sample_second sample_ring = Some (after_push sample_second sample_ring, Inr (Stored 0 0))"
    by (simp add: ring_push_result sample_ring_inv sample_second_ok push_result_def stale_def sample_ring_fields k sample_ring_limits)
  moreover have "validate_packet sample_stream (pk_bytes sample_second) = Inr ()"
    by (simp add: validate_packet_def sample_stream_def sample_second_def)
  ultimately show ?thesis by (simp add: push_batch_def flow_new_def sample_ring_def)
qed

definition sample_recorded :: replay_hardware_pipeline where
  "sample_recorded = sample_pipeline\<lparr>
     pl_backend := Some (sample_backend\<lparr>eb_calls := Suc 0, eb_encodes := [(7, 1000, True)]\<rparr>),
     pl_flow := (flow_new default_replay_settings sample_stream)\<lparr>pf_ring := after_push sample_second sample_ring\<rparr>,
     pl_spool := Some (sample_port\<lparr>sp_calls := Suc (Suc 0), sp_sent := [ResetEpoch, Packet sample_second]\<rparr>),
     pl_encoded_packets_total := 1, pl_last_frame_timestamp_ns := Some 1000,
     pl_last_keyframe_request_timestamp_ns := Some 1000, pl_in_flight_inputs := [7], pl_stored := [sample_second]\<rparr>"

lemma sample_pipeline_fields:
  "pl_phase sample_pipeline = PipelineBuffering" "pl_in_flight_inputs sample_pipeline = []"
  "pl_backend sample_pipeline = Some sample_backend" "pl_flow sample_pipeline = flow_new default_replay_settings sample_stream"
  "pl_last_frame_timestamp_ns sample_pipeline = None" "pl_last_keyframe_request_timestamp_ns sample_pipeline = None"
  "pl_spool sample_pipeline = Some sample_port" "pl_spool_degraded sample_pipeline = False"
  "pl_spool_pending_from_ns sample_pipeline = None" "pl_stored sample_pipeline = []" "pl_encoded_packets_total sample_pipeline = 0"
  "pf_stream (flow_new default_replay_settings sample_stream) = sample_stream" "pl_settings sample_pipeline = default_replay_settings"
  by (simp_all add: sample_pipeline_def flow_new_def)

lemma sample_submit_frame: "submit_frame 7 sample_frame sample_pipeline = Some (sample_recorded, Inr ())"
proof -
  let ?p = "sample_pipeline\<lparr>pl_in_flight_inputs := [7],
    pl_backend := Some (sample_backend\<lparr>eb_calls := Suc 0, eb_encodes := [(7, 1000, True)]\<rparr>)\<rparr>"
  note f = sample_pipeline_fields
  have v: "validate_packet sample_stream (pk_bytes sample_second) = Inr ()"
    by (simp add: validate_packet_def sample_stream_def sample_second_def)
  have "push_encoded [sample_second] ?p = Some (sample_recorded\<lparr>pl_last_frame_timestamp_ns := None,
      pl_last_keyframe_request_timestamp_ns := None\<rparr>, Inr ())"
    by (simp add: push_encoded_def f sample_second_push v
        spool_encoded_def try_submit_def port_send_def sample_port_def check_spool_phase_def port_running_def
        sample_recorded_def saturating_add_def try_from_def)
  then have a: "accept_encoded \<lparr>ho_batch = [sample_second], ho_completed_inputs = []\<rparr> ?p
      = Some (sample_recorded\<lparr>pl_last_frame_timestamp_ns := None, pl_last_keyframe_request_timestamp_ns := None\<rparr>, Inr ())"
    by (simp add: accept_encoded_def)
  have e: "backend_encode 7 1000 True sample_backend = (sample_backend\<lparr>eb_calls := Suc 0, eb_encodes := [(7, 1000, True)]\<rparr>,
      Inr \<lparr>ho_batch = [sample_second], ho_completed_inputs = []\<rparr>)"
    by (simp add: backend_encode_def sample_backend_def)
  have "encode_frame 7 1000 (sample_pipeline\<lparr>pl_in_flight_inputs := [7]\<rparr>) = Some (sample_recorded, Inr ())"
    using a by (simp add: encode_frame_def wants_keyframe_def f e frame_accepted_def)
      (simp add: sample_recorded_def sample_pipeline_def
        MAX_TRACKED_INPUTS_def MAX_HARDWARE_INPUTS_IN_FLIGHT_def REPLAY_ENCODER_PIPELINE_DEPTH_def)
  then show ?thesis by (simp add: submit_frame_def f sample_frame_def Let_def) (simp add: sample_stream_def)
qed

lemma sample_backend_ok: "backend_ok sample_backend"
  using sample_second_ok by (simp add: backend_ok_def sample_backend_def)

lemma sample_recorded_reach: "reach pipeline_init pipeline_step sample_recorded"
proof (rule reach_step)
  have "port_ok sample_port" by (simp add: port_ok_def sample_port_def)
  moreover have "sp_sent sample_port = [ResetEpoch]" "eb_encodes sample_backend = []"
    by (simp_all add: sample_port_def sample_backend_def)
  moreover have "sample_pipeline = with_spool sample_port (sample_pipeline\<lparr>pl_spool := None\<rparr>)"
    by (simp add: with_spool_def sample_pipeline_def)
  ultimately have "pipeline_init sample_pipeline"
    unfolding pipeline_init_def using sample_backend_ok sample_pipeline_new by blast
  then show "reach pipeline_init pipeline_step sample_pipeline" by (rule reach_init)
qed (rule step_frame [OF sample_submit_frame])

definition sample_saved :: replay_hardware_pipeline where
  "sample_saved = sample_recorded\<lparr>
     pl_backend := Some (sample_backend\<lparr>eb_calls := Suc (Suc 0), eb_encodes := [(7, 1000, True)]\<rparr>),
     pl_last_keyframe_request_timestamp_ns := None,
     pl_spool := Some (sample_port\<lparr>sp_calls := 6, sp_sent := [ResetEpoch, Packet sample_second, PrepareSnapshot Seconds15 False]\<rparr>)\<rparr>"

lemma sample_drain: "drain_backend sample_recorded = Some (sample_recorded\<lparr>
     pl_backend := Some (sample_backend\<lparr>eb_calls := Suc (Suc 0), eb_encodes := [(7, 1000, True)]\<rparr>),
     pl_spool := Some (sample_port\<lparr>sp_calls := 3, sp_sent := [ResetEpoch, Packet sample_second]\<rparr>)\<rparr>, Inr ())"
  by (simp add: drain_backend_def accept_encoded_def push_encoded_def push_batch_def spool_encoded_def check_spool_phase_def port_running_def
      backend_drain_def sample_recorded_def sample_pipeline_def flow_new_def
      sample_backend_def sample_port_def saturating_add_def try_from_def)

lemma sample_save: "save_spooled_replay Seconds15 Matroska audio True sample_recorded
    = Some (sample_saved, Inr (SpoolAssembly sample_settings sample_stream Matroska))"
proof -
  have "pl_spool_degraded sample_recorded = False" "pl_spool_pending_from_ns sample_recorded = None"
    "pl_settings sample_recorded = default_replay_settings" "pf_stream (pl_flow sample_recorded) = sample_stream"
    by (simp_all add: sample_recorded_def sample_pipeline_fields)
  then show ?thesis
    by (simp add: save_spooled_replay_def sample_drain flush_spool_backlog_before_save_def save_async_def port_running_def port_send_def
        sample_port_def sample_saved_def sample_settings_def RETAINED_DURATION_def)
qed

theorem spool_never_skips_witness:
  "reach pipeline_init pipeline_step sample_recorded \<and> prefix (epoch_packets [ResetEpoch, Packet sample_second]) (pl_stored sample_recorded)
    \<and> pl_stored sample_recorded = [sample_second]"
proof -
  have "pl_spool sample_recorded = Some (sample_port\<lparr>sp_calls := Suc (Suc 0), sp_sent := [ResetEpoch, Packet sample_second]\<rparr>)"
    "\<not> pl_spool_degraded sample_recorded" "pl_stored sample_recorded = [sample_second]"
    by (simp_all add: sample_recorded_def sample_pipeline_fields)
  then show ?thesis using spool_never_skips [OF sample_recorded_reach] sample_recorded_reach by fastforce
qed

theorem disk_save_is_recorded_history_witness:
  "\<exists>(w' :: spool_worker) opened src audio. save_spooled_replay Seconds15 Matroska audio True sample_recorded
      = Some (sample_saved, Inr (SpoolAssembly sample_settings sample_stream Matroska))
    \<and> wk_responses w' \<noteq> [] \<and> last (wk_responses w') = Inr opened
    \<and> spool_scan opened sample_settings calm_reader = Inr src \<and> drain_packets src = Inr [sample_second]"
proof -
  obtain w w' opened where w: "runs (worker_step sample_limits) (worker_start spool_index_default healthy_fs) [ResetEpoch, Packet sample_second] w"
    "worker_command sample_limits False (PrepareSnapshot Seconds15 False) w = (w', Fallthrough)"
    "wk_responses w' = wk_responses w @ [Inr opened]" using sample_snapshot by blast
  have s: "pl_spool sample_saved = Some (sample_port\<lparr>sp_calls := 6,
      sp_sent := [ResetEpoch, Packet sample_second, PrepareSnapshot Seconds15 False]\<rparr>)" by (simp add: sample_saved_def)
  obtain src where "spool_scan opened sample_settings calm_reader = Inr src"
    "drain_packets src = Inr (longest_suffix (within_budget sample_settings) (concat [[sample_second]]))"
    using disk_save_is_recorded_history [OF sample_recorded_reach sample_save s _ _ w(1) sample_limits_ok w(2,3) sample_sealed
        _ _ calm_reader_calm, of "[]"] sample_within
    by (auto simp: ends_increase_def)
  then show ?thesis
    using sample_save w(3) sample_within
    by - (rule exI [of _ w'], rule exI [of _ opened], rule exI [of _ src], rule exI [of _ "\<lambda>_ _. undefined"], simp)
qed

end
