(* ===== verification/Pipeline_Inputs.thy ===== *)
theory Pipeline_Inputs
  imports Pipeline_Saves
begin

text \<open>
  The producer's side of the pipeline: which exports it may reuse, and when a keyframe is requested.
  An export is handed back only after its completion was reported or the backend shut down
  cleanly; after a failed shutdown nothing is handed back any more.
\<close>

section \<open>Inputs\<close>

definition inputs_inv :: "replay_hardware_pipeline \<Rightarrow> bool" where
  "inputs_inv p \<longleftrightarrow> distinct (pl_in_flight_inputs p) \<and> 0 \<notin> set (pl_in_flight_inputs p)
     \<and> length (pl_completed_inputs p) \<le> MAX_COMPLETED_INPUTS \<and> length (pl_in_flight_inputs p) \<le> Suc MAX_TRACKED_INPUTS
     \<and> (pl_backend p = None \<longrightarrow> pl_in_flight_inputs p = [])
     \<and> (pl_phase p = PipelineBuffering \<longrightarrow> length (pl_in_flight_inputs p) \<le> MAX_TRACKED_INPUTS
          \<and> pl_shutdown_error p = None \<and> pl_backend p \<noteq> None)"

text \<open>What an operation may do to the inputs: hand some of them back, each for a reason \<open>B\<close>, and lose none of them
  while there is room for all.\<close>

definition handled :: "(u64 \<Rightarrow> bool) \<Rightarrow> replay_hardware_pipeline \<Rightarrow> replay_hardware_pipeline \<Rightarrow> bool" where
  "handled B p q \<longleftrightarrow> (\<exists>done. pl_completed_inputs q = pl_completed_inputs p @ done \<and> (\<forall>s \<in> set done. B s)
       \<and> set done \<subseteq> set (pl_in_flight_inputs p) \<and> set (pl_in_flight_inputs q) \<subseteq> set (pl_in_flight_inputs p) - set done
       \<and> (length (pl_completed_inputs p) + length (pl_in_flight_inputs p) \<le> MAX_COMPLETED_INPUTS \<longrightarrow>
            set (pl_in_flight_inputs p) = set (pl_in_flight_inputs q) \<union> set done))
     \<and> distinct (pl_in_flight_inputs q) \<and> length (pl_completed_inputs q) \<le> MAX_COMPLETED_INPUTS
     \<and> length (pl_in_flight_inputs q) \<le> length (pl_in_flight_inputs p)
     \<and> length (pl_completed_inputs q) + length (pl_in_flight_inputs q)
         \<le> length (pl_completed_inputs p) + length (pl_in_flight_inputs p)"

abbreviation inputs_ok :: "replay_hardware_pipeline \<Rightarrow> bool" where
  "inputs_ok p \<equiv> distinct (pl_in_flight_inputs p) \<and> length (pl_completed_inputs p) \<le> MAX_COMPLETED_INPUTS"

lemma handled_refl: "inputs_ok p \<Longrightarrow> handled B p p"
  by (simp add: handled_def)

lemma handled_cong:
  "pl_in_flight_inputs p' = pl_in_flight_inputs p \<Longrightarrow> pl_completed_inputs p' = pl_completed_inputs p \<Longrightarrow>
   pl_in_flight_inputs q' = pl_in_flight_inputs q \<Longrightarrow> pl_completed_inputs q' = pl_completed_inputs q \<Longrightarrow>
   handled B p' q' = handled B p q"
  by (simp add: handled_def)

lemma handled_ok: "handled B p q \<Longrightarrow> inputs_ok q"
  by (simp add: handled_def)

lemma handled_trans:
  assumes "handled B p q" "handled B q r"
  shows "handled B p r"
proof -
  obtain d where d: "pl_completed_inputs q = pl_completed_inputs p @ d" "\<forall>s \<in> set d. B s" "set d \<subseteq> set (pl_in_flight_inputs p)"
    "set (pl_in_flight_inputs q) \<subseteq> set (pl_in_flight_inputs p) - set d"
    "length (pl_completed_inputs p) + length (pl_in_flight_inputs p) \<le> MAX_COMPLETED_INPUTS \<longrightarrow>
      set (pl_in_flight_inputs p) = set (pl_in_flight_inputs q) \<union> set d"
    using assms(1) unfolding handled_def by blast
  obtain e where e: "pl_completed_inputs r = pl_completed_inputs q @ e" "\<forall>s \<in> set e. B s" "set e \<subseteq> set (pl_in_flight_inputs q)"
    "set (pl_in_flight_inputs r) \<subseteq> set (pl_in_flight_inputs q) - set e"
    "length (pl_completed_inputs q) + length (pl_in_flight_inputs q) \<le> MAX_COMPLETED_INPUTS \<longrightarrow>
      set (pl_in_flight_inputs q) = set (pl_in_flight_inputs r) \<union> set e"
    using assms(2) unfolding handled_def by blast
  have "\<exists>done. pl_completed_inputs r = pl_completed_inputs p @ done \<and> (\<forall>s \<in> set done. B s)
       \<and> set done \<subseteq> set (pl_in_flight_inputs p) \<and> set (pl_in_flight_inputs r) \<subseteq> set (pl_in_flight_inputs p) - set done
       \<and> (length (pl_completed_inputs p) + length (pl_in_flight_inputs p) \<le> MAX_COMPLETED_INPUTS \<longrightarrow>
            set (pl_in_flight_inputs p) = set (pl_in_flight_inputs r) \<union> set done)"
  proof (rule exI [of _ "d @ e"], intro conjI impI)
    assume room: "length (pl_completed_inputs p) + length (pl_in_flight_inputs p) \<le> MAX_COMPLETED_INPUTS"
    then have "length (pl_completed_inputs q) + length (pl_in_flight_inputs q) \<le> MAX_COMPLETED_INPUTS"
      using assms(1) unfolding handled_def by linarith
    then show "set (pl_in_flight_inputs p) = set (pl_in_flight_inputs r) \<union> set (d @ e)" using d(5) e(5) room by auto
  qed (use d e in auto)
  moreover have "length (pl_in_flight_inputs q) \<le> length (pl_in_flight_inputs p)"
    "length (pl_completed_inputs q) + length (pl_in_flight_inputs q) \<le> length (pl_completed_inputs p) + length (pl_in_flight_inputs p)"
    using assms(1) by (simp_all only: handled_def)
  moreover have "length (pl_in_flight_inputs r) \<le> length (pl_in_flight_inputs q)"
    "length (pl_completed_inputs r) + length (pl_in_flight_inputs r) \<le> length (pl_completed_inputs q) + length (pl_in_flight_inputs q)"
    using assms(2) by (simp_all only: handled_def)
  ultimately show ?thesis using handled_ok [OF assms(2)] unfolding handled_def by (intro conjI) (assumption | linarith)+
qed

lemma release_inputs_take: "release_inputs ss completed = completed @ take (MAX_COMPLETED_INPUTS - length completed) ss"
  by (induction ss completed rule: release_inputs.induct) (auto simp: take_Cons' Suc_diff_Suc)

lemma release_inputs_all: "length completed + length ss \<le> MAX_COMPLETED_INPUTS \<Longrightarrow> release_inputs ss completed = completed @ ss"
  by (simp add: release_inputs_take)

lemma complete_inputs_handled:
  assumes "complete_inputs ss p = (q, r)" "inputs_ok p" "\<And>s. s \<in> set ss \<Longrightarrow> B s"
  shows "handled B p q"
  using assms
proof (induction ss p rule: complete_inputs.induct)
  case (1 p)
  then show ?case using handled_refl by auto
next
  case (2 s rest p)
  let ?i = "remove1 s (pl_in_flight_inputs p)"
  consider "s \<notin> set (pl_in_flight_inputs p)" | "s \<in> set (pl_in_flight_inputs p)" "MAX_COMPLETED_INPUTS \<le> length (pl_completed_inputs p)"
    | "s \<in> set (pl_in_flight_inputs p)" "\<not> MAX_COMPLETED_INPUTS \<le> length (pl_completed_inputs p)" by blast
  then show ?case
  proof cases
    case 1
    then show ?thesis using 2(2,3) handled_refl by auto
  next
    case i2: 2
    then have q: "q = p\<lparr>pl_in_flight_inputs := ?i\<rparr>" using 2(2) by (auto simp: Let_def)
    have "0 < length (pl_in_flight_inputs p)" using i2(1) by auto
    then show ?thesis using 2(3) i2 by (auto simp: q handled_def length_remove1)
  next
    case 3
    let ?p = "p\<lparr>pl_in_flight_inputs := ?i, pl_completed_inputs := pl_completed_inputs p @ [s]\<rparr>"
    have "0 < length (pl_in_flight_inputs p)" using 3(1) by auto
    then have step: "handled B p ?p"
      using 2(3,4) 3 unfolding handled_def by (intro conjI exI [of _ "[s]"]) (auto simp: length_remove1)
    have "complete_inputs rest ?p = (q, r)" using 2(2) 3 by (simp add: Let_def)
    then have "handled B ?p q" using 2(1) [of "p\<lparr>pl_in_flight_inputs := ?i\<rparr>"] 3 2(3,4) by simp
    then show ?thesis by (rule handled_trans [OF step])
  qed
qed

lemma accept_encoded_handled:
  assumes "accept_encoded out p = Some (q, r)" "inputs_ok p" "\<And>s. s \<in> set (ho_completed_inputs out) \<Longrightarrow> B s"
  shows "handled B p q"
proof -
  obtain p1 r1 where c: "complete_inputs (ho_completed_inputs out) p = (p1, r1)" by (metis surj_pair)
  have h: "handled B p p1" by (rule complete_inputs_handled [OF c assms(2,3)])
  have "q = p1 \<or> push_encoded (ho_batch out) p1 = Some (q, r)"
    using assms(1) c by (cases r1) (simp_all add: accept_encoded_def)
  then have "pl_in_flight_inputs q = pl_in_flight_inputs p1" "pl_completed_inputs q = pl_completed_inputs p1"
    using push_encoded_frame(3,4) by blast+
  then show ?thesis using h handled_cong [of p p q p1] by simp
qed

text \<open>A shutdown hands back the inputs in flight, if it succeeds.\<close>

lemma shutdown_backend_handled:
  assumes "shutdown_backend p = (q, r)" "inputs_ok p" "pl_backend p = None \<longrightarrow> pl_in_flight_inputs p = []"
    and "\<And>s b. pl_backend p = Some b \<Longrightarrow> eb_shutdown b (eb_calls b) = Inr () \<Longrightarrow> pl_shutdown_error q = None \<Longrightarrow> B s"
  shows "handled B p q" "pl_backend q = None \<longrightarrow> pl_in_flight_inputs q = []"
    "pl_shutdown_error p = Some e \<Longrightarrow> q = p"
    "r = Inl e \<Longrightarrow> pl_shutdown_error q = Some e \<and> pl_completed_inputs q = pl_completed_inputs p
       \<and> pl_in_flight_inputs q = pl_in_flight_inputs p"
proof -
  have rel: "handled B p (backend_released p)" if "\<forall>s \<in> set (pl_in_flight_inputs p). B s"
    unfolding handled_def
  proof (intro conjI exI [of _ "take (MAX_COMPLETED_INPUTS - length (pl_completed_inputs p)) (pl_in_flight_inputs p)"] impI)
    show "\<forall>s \<in> set (take (MAX_COMPLETED_INPUTS - length (pl_completed_inputs p)) (pl_in_flight_inputs p)). B s"
      using that by (meson in_set_takeD)
  qed (use assms(2) in \<open>auto simp: backend_released_def release_inputs_take dest: in_set_takeD\<close>)
  consider (e) x where "pl_shutdown_error p = Some x" | (n) "pl_shutdown_error p = None" "pl_backend p = None"
    | (ok) b where "pl_shutdown_error p = None" "pl_backend p = Some b" "eb_shutdown b (eb_calls b) = Inr ()"
    | (bad) b x where "pl_shutdown_error p = None" "pl_backend p = Some b" "eb_shutdown b (eb_calls b) = Inl x"
    by (cases "pl_shutdown_error p"; cases "pl_backend p") (auto, metis (full_types) old.sum.exhaust old.unit.exhaust)
  note cases = this
  show "handled B p q"
    using cases
  proof cases
    case e
    then show ?thesis using assms(1,2) handled_refl by (simp add: shutdown_backend_def)
  next
    case n
    then show ?thesis using assms(1,3) rel by (simp add: shutdown_backend_def)
  next
    case ok
    then have "q = backend_released p" using assms(1) by (simp add: shutdown_backend_def backend_shutdown_def)
    then show ?thesis using assms(4) [OF ok(2,3)] rel ok(1) by (simp add: backend_released_def)
  next
    case bad
    then have q: "q = p\<lparr>pl_backend := Some (b\<lparr>eb_calls := Suc (eb_calls b)\<rparr>), pl_shutdown_error := Some x\<rparr>"
      using assms(1) by (simp add: shutdown_backend_def backend_shutdown_def)
    show ?thesis using assms(2) by (simp add: q handled_def)
  qed
  show "pl_backend q = None \<longrightarrow> pl_in_flight_inputs q = []"
    using assms(1,3) by (auto simp: shutdown_backend_def backend_released_def split: option.splits sum.splits prod.splits)
  show "pl_shutdown_error p = Some e \<Longrightarrow> q = p" using assms(1) by (simp add: shutdown_backend_def)
  show "r = Inl e \<Longrightarrow> pl_shutdown_error q = Some e \<and> pl_completed_inputs q = pl_completed_inputs p
       \<and> pl_in_flight_inputs q = pl_in_flight_inputs p"
    using assms(1) by (auto simp: shutdown_backend_def split: option.splits sum.splits prod.splits)
qed

lemma fail_closed_handled:
  assumes "inputs_ok p" "pl_backend p = None \<longrightarrow> pl_in_flight_inputs p = []"
    and "\<And>s b. pl_backend p = Some b \<Longrightarrow> eb_shutdown b (eb_calls b) = Inr () \<Longrightarrow> pl_shutdown_error (pipeline_fail_closed p) = None \<Longrightarrow> B s"
  shows "handled B p (pipeline_fail_closed p)"
    "pl_backend (pipeline_fail_closed p) = None \<longrightarrow> pl_in_flight_inputs (pipeline_fail_closed p) = []"
    "pl_phase (pipeline_fail_closed p) = PipelineFailed"
proof -
  obtain q r where q: "shutdown_backend p = (q, r)" by (metis surj_pair)
  have f: "pl_in_flight_inputs (pipeline_fail_closed p) = pl_in_flight_inputs q" "pl_completed_inputs (pipeline_fail_closed p) = pl_completed_inputs q"
    "pl_backend (pipeline_fail_closed p) = pl_backend q" "pl_shutdown_error (pipeline_fail_closed p) = pl_shutdown_error q"
    "pl_phase (pipeline_fail_closed p) = PipelineFailed"
    by (simp_all add: pipeline_fail_closed_def q Let_def)
  note H = shutdown_backend_handled [OF q assms(1,2), of B]
  show "handled B p (pipeline_fail_closed p)" using H(1) assms(3) handled_cong [of p p "pipeline_fail_closed p" q] f by simp
  show "pl_backend (pipeline_fail_closed p) = None \<longrightarrow> pl_in_flight_inputs (pipeline_fail_closed p) = []"
    using H(2) assms(3) f by simp
qed (simp add: pipeline_fail_closed_def Let_def)

text \<open>The reasons an operation that starts with backend \<open>b\<close> and ends in \<open>Q\<close> has to hand an input back: an answer of
  \<open>b\<close> given in the operation reports it complete, or \<open>b\<close> was shut down cleanly in it.\<close>

definition reported :: "encoder_backend \<Rightarrow> u64 \<Rightarrow> bool" where
  "reported b s \<longleftrightarrow> (\<exists>n out. eb_calls b \<le> n \<and> eb_output b n = Inr out \<and> s \<in> set (ho_completed_inputs out))"

definition idle_reason :: "encoder_backend option \<Rightarrow> replay_hardware_pipeline \<Rightarrow> u64 \<Rightarrow> bool" where
  "idle_reason b Q s \<longleftrightarrow> (\<exists>b'. b = Some b' \<and> (reported b' s
     \<or> (\<exists>n. eb_calls b' \<le> n \<and> eb_shutdown b' n = Inr ()) \<and> pl_shutdown_error Q = None))"

text \<open>The same backend, some calls later.\<close>

definition later :: "encoder_backend \<Rightarrow> encoder_backend \<Rightarrow> bool" where
  "later b b' \<longleftrightarrow> eb_calls b \<le> eb_calls b' \<and> eb_output b' = eb_output b \<and> eb_shutdown b' = eb_shutdown b"

lemma later_trans: "later a b \<Longrightarrow> later b c \<Longrightarrow> later a c"
  by (simp add: later_def)

lemma idle_reason_shutdown:
  "later b b' \<Longrightarrow> eb_shutdown b' (eb_calls b') = Inr () \<Longrightarrow> pl_shutdown_error Q = None \<Longrightarrow> idle_reason (Some b) Q s"
  by (auto simp: idle_reason_def later_def)

lemma idle_reason_reported: "later b b' \<Longrightarrow> eb_output b' (eb_calls b') = Inr out \<Longrightarrow> s \<in> set (ho_completed_inputs out) \<Longrightarrow>
    idle_reason (Some b) Q s"
  by (auto simp: idle_reason_def later_def reported_def)

text \<open>An operation of a pipeline whose backend is \<open>b\<close>: its effect on the inputs, for any final state it leads to.\<close>

definition input_step :: "encoder_backend \<Rightarrow> replay_hardware_pipeline \<Rightarrow> replay_hardware_pipeline \<Rightarrow> bool" where
  "input_step b p q \<longleftrightarrow> handled (idle_reason (Some b) q) p q
     \<and> (pl_backend q = None \<longrightarrow> pl_in_flight_inputs q = []) \<and> (pl_phase q = PipelineBuffering \<longrightarrow>
          pl_phase p = PipelineBuffering \<and> pl_shutdown_error q = pl_shutdown_error p \<and> (\<exists>b'. pl_backend q = Some b' \<and> later b b'))"

lemma fail_closed_step:
  assumes "inputs_ok p" "pl_backend p = Some b'" "later b b'"
  shows "input_step b p (pipeline_fail_closed p)"
  using fail_closed_handled [OF assms(1), of "idle_reason (Some b) (pipeline_fail_closed p)"] assms(2) idle_reason_shutdown [OF assms(3)]
  by (simp add: input_step_def)

lemma accepted_step:
  assumes "accept_encoded out (p\<lparr>pl_backend := Some (b'\<lparr>eb_calls := Suc (eb_calls b'), eb_encodes := l\<rparr>)\<rparr>) = Some (q, r)"
    and "inputs_ok p" "later b b'" "eb_output b' (eb_calls b') = Inr out"
  shows "handled (idle_reason (Some b) Q) p q" "pl_backend q = Some (b'\<lparr>eb_calls := Suc (eb_calls b'), eb_encodes := l\<rparr>)"
    "pl_phase q = pl_phase p" "pl_shutdown_error q = pl_shutdown_error p"
proof -
  let ?p = "p\<lparr>pl_backend := Some (b'\<lparr>eb_calls := Suc (eb_calls b'), eb_encodes := l\<rparr>)\<rparr>"
  have "handled (idle_reason (Some b) Q) ?p q"
    by (rule accept_encoded_handled [OF assms(1)]) (use assms(2) idle_reason_reported [OF assms(3,4)] in auto)
  then show "handled (idle_reason (Some b) Q) p q" using handled_cong [of ?p p q q] by simp
qed (use accept_encoded_frame [OF assms(1)] in auto)

lemma then_fail_step:
  assumes "handled (idle_reason (Some b) (pipeline_fail_closed p')) p p'" "pl_backend p' = Some b'" "later b b'"
  shows "input_step b p (pipeline_fail_closed p')"
  using fail_closed_step [OF handled_ok [OF assms(1)] assms(2,3)] handled_trans [OF assms(1)]
  by (simp add: input_step_def pipeline_fail_closed_def Let_def)

lemma later_call: "later b b' \<Longrightarrow> later b (b'\<lparr>eb_calls := Suc (eb_calls b'), eb_encodes := l\<rparr>)"
  by (simp add: later_def)

lemma handled_backend:
  "inputs_ok p \<Longrightarrow> handled B p (p\<lparr>pl_backend := b\<rparr>)"
  using handled_refl handled_cong [of p p "p\<lparr>pl_backend := b\<rparr>" p] by auto

text \<open>The answer of one call of the backend, accepted or not, as every caller treats it.\<close>

lemma answer_step:
  assumes "inputs_ok p" "pl_backend p = Some b'" "later b b'" "pl_phase p = PipelineBuffering"
    and "b'' = b'\<lparr>eb_calls := Suc (eb_calls b'), eb_encodes := l\<rparr>"
  shows "eb_output b' (eb_calls b') = Inl e \<Longrightarrow> input_step b p (pipeline_fail_closed (p\<lparr>pl_backend := Some b''\<rparr>))"
    and "eb_output b' (eb_calls b') = Inr out \<Longrightarrow> accept_encoded out (p\<lparr>pl_backend := Some b''\<rparr>) = Some (q, Inl e) \<Longrightarrow>
      input_step b p (pipeline_fail_closed q)"
    and "eb_output b' (eb_calls b') = Inr out \<Longrightarrow> accept_encoded out (p\<lparr>pl_backend := Some b''\<rparr>) = Some (q, Inr u) \<Longrightarrow>
      input_step b p q \<and> handled (idle_reason (Some b) Q) p q \<and> pl_phase q = PipelineBuffering \<and> pl_backend q = Some b'' \<and> later b b''"
proof -
  have l: "later b b''" using later_call [OF assms(3)] by (simp add: assms(5))
  show "input_step b p (pipeline_fail_closed (p\<lparr>pl_backend := Some b''\<rparr>))"
    by (rule then_fail_step [OF handled_backend [OF assms(1)] _ l]) simp
  show "input_step b p (pipeline_fail_closed q)"
    if "eb_output b' (eb_calls b') = Inr out" "accept_encoded out (p\<lparr>pl_backend := Some b''\<rparr>) = Some (q, Inl e)"
    using then_fail_step [OF _ _ l] accepted_step [OF that(2) [unfolded assms(5)] assms(1,3) that(1)] assms(5) by simp
  show "input_step b p q \<and> handled (idle_reason (Some b) Q) p q \<and> pl_phase q = PipelineBuffering \<and> pl_backend q = Some b'' \<and> later b b''"
    if "eb_output b' (eb_calls b') = Inr out" "accept_encoded out (p\<lparr>pl_backend := Some b''\<rparr>) = Some (q, Inr u)"
    using accepted_step [OF that(2) [unfolded assms(5)] assms(1,3) that(1)] assms(4,5) l by (simp add: input_step_def)
qed

lemma drain_step:
  assumes "inputs_ok p" "pl_backend p = Some b'" "later b b'" "pl_phase p = PipelineBuffering" "drain_backend p = Some (q, r)"
  shows "input_step b p q"
    "r = Inr u \<Longrightarrow> handled (idle_reason (Some b) Q) p q \<and> pl_phase q = PipelineBuffering
       \<and> (\<exists>b'. pl_backend q = Some b' \<and> later b b') \<and> pl_shutdown_error q = pl_shutdown_error p"
proof -
  have be: "b'\<lparr>eb_calls := Suc (eb_calls b')\<rparr> = b'\<lparr>eb_calls := Suc (eb_calls b'), eb_encodes := eb_encodes b'\<rparr>" by simp
  note A = answer_step [OF assms(1-4) be]
  show "input_step b p q"
    using assms(2,4,5) A(1) A(2) A(3)
    by (auto simp: drain_backend_def backend_drain_def split: option.splits sum.splits prod.splits)
  show "r = Inr u \<Longrightarrow> handled (idle_reason (Some b) Q) p q \<and> pl_phase q = PipelineBuffering
       \<and> (\<exists>b'. pl_backend q = Some b' \<and> later b b') \<and> pl_shutdown_error q = pl_shutdown_error p"
    using assms(2,4,5) A(3) accept_encoded_frame(3)
    by (fastforce simp: drain_backend_def backend_drain_def split: option.splits sum.splits prod.splits)
qed

lemma encode_step:
  assumes "inputs_ok p" "pl_backend p = Some b" "pl_phase p = PipelineBuffering" "encode_frame s t p = Some (q, r)"
  shows "input_step b p q \<and> (pl_phase q = PipelineBuffering \<longrightarrow> length (pl_in_flight_inputs q) \<le> MAX_TRACKED_INPUTS)"
proof -
  define b'' where "b'' = b\<lparr>eb_calls := Suc (eb_calls b), eb_encodes := eb_encodes b @ [(s, t, wants_keyframe t p)]\<rparr>"
  have refl: "later b b" by (simp add: later_def)
  note A = answer_step [OF assms(1,2) refl assms(3) b''_def]
  have failed: "pl_phase (pipeline_fail_closed p') = PipelineFailed" for p' by (simp add: pipeline_fail_closed_def Let_def)
  show ?thesis
  proof (cases "eb_output b (eb_calls b)")
    case (Inl e)
    then show ?thesis using assms(2,4) A(1) [OF Inl] failed by (auto simp: encode_frame_def backend_encode_def b''_def [symmetric] Let_def)
  next
    case (Inr out)
    show ?thesis
    proof (cases "accept_encoded out (p\<lparr>pl_backend := Some b''\<rparr>)")
      case None
      then show ?thesis using assms(2,4) Inr by (simp add: encode_frame_def backend_encode_def b''_def [symmetric] Let_def)
    next
      case (Some x)
      obtain p1 r1 where x: "x = (p1, r1)" by (cases x)
      show ?thesis
      proof (cases r1)
        case Inl1: (Inl e)
        then show ?thesis
          using assms(2,4) Inr A(2) [OF Inr, of p1 e] Some x failed
          by (auto simp: encode_frame_def backend_encode_def b''_def [symmetric] Let_def)
      next
        case Inr1: (Inr u)
        have q: "frame_accepted t (wants_keyframe t p) p1 = (q, r)"
          using assms(2,4) Inr Some x Inr1 by (simp add: encode_frame_def backend_encode_def b''_def [symmetric] Let_def)
        note A3 = A(3) [OF Inr Some [unfolded x Inr1]]
        let ?p2 = "(if wants_keyframe t p then p1\<lparr>pl_last_frame_timestamp_ns := Some t, pl_last_keyframe_request_timestamp_ns := Some t\<rparr>
          else p1\<lparr>pl_last_frame_timestamp_ns := Some t\<rparr>)"
        have p2: "handled B p ?p2 = handled B p p1" for B using handled_cong [of p p ?p2 p1] by simp
        have "input_step b p ?p2" "handled (idle_reason (Some b) Q) p ?p2" for Q
          using A3 p2 by (auto simp: input_step_def idle_reason_def)
        moreover have "pl_backend ?p2 = Some b''" "later b b''" using A3 by auto
        ultimately show ?thesis
          using q then_fail_step [of b ?p2 p b''] failed
          by (auto simp: frame_accepted_def Let_def split: if_splits)
      qed
    qed
  qed
qed

section \<open>Every operation\<close>

definition input_effect :: "replay_hardware_pipeline \<Rightarrow> replay_hardware_pipeline \<Rightarrow> replay_hardware_pipeline \<Rightarrow> bool" where
  "input_effect p p' q \<longleftrightarrow> handled (idle_reason (pl_backend p) q) p' q \<and> inputs_inv q"

lemma input_step_effect:
  assumes "inputs_inv p" "pl_backend p = Some b" "input_step b p' q" "pl_shutdown_error p' = pl_shutdown_error p" "pl_phase p' = pl_phase p"
    and "set (pl_in_flight_inputs p') \<subseteq> insert s (set (pl_in_flight_inputs p))" "s \<noteq> 0"
    and "length (pl_in_flight_inputs p') \<le> Suc MAX_TRACKED_INPUTS"
    and "pl_phase q = PipelineBuffering \<Longrightarrow> length (pl_in_flight_inputs q) \<le> MAX_TRACKED_INPUTS"
  shows "input_effect p p' q"
proof -
  have h: "handled (idle_reason (Some b) q) p' q" using assms(3) by (simp add: input_step_def)
  then have "set (pl_in_flight_inputs q) \<subseteq> set (pl_in_flight_inputs p')" "length (pl_in_flight_inputs q) \<le> length (pl_in_flight_inputs p')"
    by (auto simp: handled_def)
  moreover have "0 \<notin> set (pl_in_flight_inputs p')" using assms(1,6,7) by (auto simp: inputs_inv_def)
  ultimately have "inputs_inv q"
    using assms(1,3-5,8,9) handled_ok [OF h] by (auto simp: inputs_inv_def input_step_def)
  then show ?thesis using h assms(2) by (simp add: input_effect_def)
qed

lemma effect_refl: "inputs_inv p \<Longrightarrow> input_effect p p p"
  by (simp add: input_effect_def inputs_inv_def handled_refl)

lemma effect_cong:
  assumes "input_effect p p' q" "pl_in_flight_inputs r = pl_in_flight_inputs q" "pl_completed_inputs r = pl_completed_inputs q"
    "pl_shutdown_error r = pl_shutdown_error q" "pl_backend r = pl_backend q" "pl_phase r = pl_phase q"
  shows "input_effect p p' r"
proof -
  have "idle_reason (pl_backend p) r = idle_reason (pl_backend p) q" using assms(4) by (simp add: fun_eq_iff idle_reason_def)
  then show ?thesis
    using assms handled_cong [of p' p' r q "idle_reason (pl_backend p) q"] by (simp add: input_effect_def inputs_inv_def)
qed

lemma inputs_buffering:
  assumes "inputs_inv p" "pl_phase p = PipelineBuffering"
  obtains b where "pl_backend p = Some b" "inputs_ok p" "length (pl_in_flight_inputs p) \<le> MAX_TRACKED_INPUTS"
  using assms by (auto simp: inputs_inv_def)

lemma submit_frame_effect:
  assumes "inputs_inv p" "submit_frame s f p = Some (q, r)"
  shows "input_effect p p q \<or> s \<noteq> 0 \<and> s \<notin> set (pl_in_flight_inputs p)
    \<and> input_effect p (p\<lparr>pl_in_flight_inputs := pl_in_flight_inputs p @ [s]\<rparr>) q"
proof (cases "pl_phase p = PipelineBuffering")
  case False
  then show ?thesis using assms effect_refl by (simp add: submit_frame_def)
next
  case True
  obtain b where b: "pl_backend p = Some b" "inputs_ok p" "length (pl_in_flight_inputs p) \<le> MAX_TRACKED_INPUTS"
    using inputs_buffering [OF assms(1) True] .
  have refl: "later b b" by (simp add: later_def)
  have failed: "pl_phase (pipeline_fail_closed p') = PipelineFailed" for p' by (simp add: pipeline_fail_closed_def Let_def)
  show ?thesis
  proof (cases "s = 0 \<or> s \<in> set (pl_in_flight_inputs p)")
    case dup: True
    then have q: "q = pipeline_fail_closed p" using assms(2) True by (auto simp: submit_frame_def)
    have "input_effect p p q"
      by (rule input_step_effect [OF assms(1) b(1), of _ _ 1]) (use fail_closed_step [OF b(2,1) refl] q b failed in auto)
    then show ?thesis ..
  next
    case new: False
    let ?p = "p\<lparr>pl_in_flight_inputs := pl_in_flight_inputs p @ [s]\<rparr>"
    have ok: "inputs_ok ?p" "pl_backend ?p = Some b" "pl_phase ?p = PipelineBuffering" using b new True by auto
    have "q = pipeline_fail_closed ?p \<or> encode_frame s (df_timestamp_ns f) ?p = Some (q, r)"
      using assms(2) True new by (auto simp: submit_frame_def Let_def split: if_splits)
    then have "input_step b ?p q \<and> (pl_phase q = PipelineBuffering \<longrightarrow> length (pl_in_flight_inputs q) \<le> MAX_TRACKED_INPUTS)"
      using fail_closed_step [OF ok(1,2) refl] failed [of ?p] encode_step [OF ok] by auto
    then have "input_effect p ?p q"
      by (intro input_step_effect [OF assms(1) b(1), of _ _ s]) (use b(3) new in auto)
    then show ?thesis using new by blast
  qed
qed

text \<open>A drain, and whatever leaves the inputs alone after it.\<close>

lemma drain_effect:
  assumes "inputs_inv p" "drain_backend p = Some (q, r)"
  shows "input_effect p p q"
proof (cases "pl_phase p = PipelineBuffering")
  case False
  then show ?thesis using assms effect_refl by (simp add: drain_backend_def)
next
  case True
  obtain b where b: "pl_backend p = Some b" "inputs_ok p" "length (pl_in_flight_inputs p) \<le> MAX_TRACKED_INPUTS"
    using inputs_buffering [OF assms(1) True] .
  have st: "input_step b p q" by (rule drain_step(1) [OF b(2,1) _ True assms(2)]) (simp add: later_def)
  then have "length (pl_in_flight_inputs q) \<le> length (pl_in_flight_inputs p)" by (simp add: input_step_def handled_def)
  then show ?thesis by (intro input_step_effect [OF assms(1) b(1) st, of 1]) (use b in auto)
qed

lemma effect_trans:
  assumes "input_effect p p q" "pl_phase p = PipelineBuffering" "inputs_inv p" "input_effect q q r"
    and "\<And>b. pl_backend p = Some b \<Longrightarrow> handled (idle_reason (Some b) r) p q \<and> (\<exists>b'. pl_backend q = Some b' \<and> later b b')"
  shows "input_effect p p r"
proof -
  obtain b where b: "pl_backend p = Some b" using inputs_buffering [OF assms(3,2)] .
  obtain b' where b': "pl_backend q = Some b'" "later b b'" and h: "handled (idle_reason (Some b) r) p q" using assms(5) [OF b] by blast
  have "idle_reason (Some b) r s" if "idle_reason (Some b') r s" for s
    using that b'(2) by (auto simp: idle_reason_def reported_def later_def intro: order_trans)
  then have "handled (idle_reason (Some b) r) q r" using assms(4) b'(1) by (auto simp: input_effect_def handled_def)
  then show ?thesis using handled_trans [OF h] assms(4) b by (simp add: input_effect_def)
qed

lemma save_recent_effect:
  assumes "inputs_inv p" "save_recent_replay d fmt audio spawned p = Some (q, r)"
  shows "input_effect p p q"
proof -
  obtain q1 r1 where d: "drain_backend p = Some (q1, r1)" using assms(2) by (auto simp: save_recent_replay_def split: option.splits)
  then have "q = q1" using assms(2) by (cases r1) (auto simp: save_recent_replay_def Let_def split: if_splits)
  then show ?thesis using drain_effect [OF assms(1) d] by simp
qed

lemma shutdown_effect:
  assumes "inputs_inv p" "pipeline_shutdown p = (q, r)"
  shows "input_effect p p q"
proof (cases "pl_phase p = PipelineShutdown")
  case True
  then show ?thesis using assms effect_refl by (auto simp: pipeline_shutdown_def)
next
  case False
  obtain p1 r1 where s: "shutdown_backend p = (p1, r1)" by (metis surj_pair)
  have ok: "inputs_ok p" "pl_backend p = None \<longrightarrow> pl_in_flight_inputs p = []" using assms(1) by (auto simp: inputs_inv_def)
  have q: "pl_in_flight_inputs q = pl_in_flight_inputs p1" "pl_completed_inputs q = pl_completed_inputs p1"
    "pl_backend q = pl_backend p1" "pl_shutdown_error q = pl_shutdown_error p1" "pl_phase q = PipelineShutdown"
    using assms(2) False s by (auto simp: pipeline_shutdown_def)
  have B: "idle_reason (pl_backend p) q x"
    if "pl_backend p = Some b" "eb_shutdown b (eb_calls b) = Inr ()" "pl_shutdown_error p1 = None" for x b
    using that q(4) by (auto simp: idle_reason_def)
  note H = shutdown_backend_handled [OF s ok B]
  have h: "handled (idle_reason (pl_backend p) q) p q" using H(1) handled_cong [of p p q p1] q by simp
  then have "set (pl_in_flight_inputs q) \<subseteq> set (pl_in_flight_inputs p)" "length (pl_in_flight_inputs q) \<le> length (pl_in_flight_inputs p)"
    by (auto simp: handled_def)
  then have "inputs_inv q" using assms(1) handled_ok [OF h] H(2) q by (auto simp: inputs_inv_def)
  then show ?thesis using h by (simp add: input_effect_def)
qed

lemma effect_spool:
  assumes "input_effect p p' q" "spool_erased r = spool_erased q"
  shows "input_effect p p' r"
  by (rule effect_cong [OF assms(1)]) (simp_all add: spool_erased_fields [OF assms(2)])

lemma flush_before_save_erased:
  assumes "flush_spool_backlog_before_save p = (q, r)"
  shows "spool_erased q = spool_erased p"
  using assms flush_backlog_erased
  by (fastforce simp: flush_spool_backlog_before_save_def split: if_splits option.splits prod.splits bool.splits sum.splits)

lemma disk_available_erased: "disk_history_available p = (q, r) \<Longrightarrow> spool_erased q = spool_erased p"
  by (auto simp: disk_history_available_def split: if_splits option.splits prod.splits)

lemma save_replay_effect:
  assumes "inputs_inv p" "save_replay save p = Some (q, r)"
  shows "input_effect p p q"
proof -
  obtain q1 r1 where d: "drain_backend p = Some (q1, r1)" using assms(2) by (auto simp: save_replay_def split: option.splits)
  note E = drain_effect [OF assms(1) d]
  show ?thesis
  proof (cases r1)
    case (Inl e)
    then show ?thesis using E assms(2) d by (simp add: save_replay_def)
  next
    case (Inr u)
    have ph: "pl_phase q1 = PipelineBuffering" "pl_phase p = PipelineBuffering" using drain_phase d Inr by auto
    obtain b where b: "pl_backend p = Some b" "inputs_ok p" using inputs_buffering [OF assms(1) ph(2)] .
    have D: "handled (idle_reason (Some b) Q) p q1 \<and> (\<exists>b'. pl_backend q1 = Some b' \<and> later b b')" for Q
      using drain_step(2) [OF b(2,1) _ ph(2) d Inr, of b Q] by (simp add: later_def)
    then obtain b' where b': "pl_backend q1 = Some b'" "later b b'" by blast
    let ?q = "q1\<lparr>pl_phase := PipelineSaving\<rparr>"
    have "handled B p ?q = handled B p q1" for B by (rule handled_cong) simp_all
    then have st: "input_step b p (pipeline_fail_closed ?q)"
      using then_fail_step [of b ?q p b'] D b' by simp
    have "input_effect p p (pipeline_fail_closed ?q)"
      by (rule input_step_effect [OF assms(1) b(1) st, of 1])
        (use assms(1) in \<open>auto simp: inputs_inv_def pipeline_fail_closed_def Let_def\<close>)
    moreover have "q1\<lparr>pl_phase := PipelineBuffering\<rparr> = q1" using ph(1) by simp
    ultimately show ?thesis
      using E assms(2) d Inr by (auto simp: save_replay_def Let_def split: if_splits sum.splits)
  qed
qed

lemma save_spooled_effect:
  assumes "inputs_inv p" "save_spooled_replay d fmt audio spawned p = Some (q, r)"
  shows "input_effect p p q"
proof -
  obtain q1 r1 where dr: "drain_backend p = Some (q1, r1)" using assms(2) by (auto simp: save_spooled_replay_def split: option.splits)
  note E = drain_effect [OF assms(1) dr]
  show ?thesis
  proof (cases r1)
    case (Inl e)
    then show ?thesis using E assms(2) dr by (simp add: save_spooled_replay_def)
  next
    case (Inr u)
    have ph: "pl_phase q1 = PipelineBuffering" "pl_phase p = PipelineBuffering" using drain_phase dr Inr by auto
    obtain b where b: "pl_backend p = Some b" "inputs_ok p" using inputs_buffering [OF assms(1) ph(2)] .
    have D: "handled (idle_reason (Some b) Q) p q1 \<and> (\<exists>b'. pl_backend q1 = Some b' \<and> later b b')" for Q
      using drain_step(2) [OF b(2,1) _ ph(2) dr Inr, of b Q] by (simp add: later_def)
    obtain q2 r2 where f: "flush_spool_backlog_before_save q1 = (q2, r2)" by (metis surj_pair)
    note e2 = flush_before_save_erased [OF f]
    show ?thesis
    proof (cases r2)
      case Inl2: (Inl e)
      obtain q3 a where a: "disk_history_available q2 = (q3, a)" by (metis surj_pair)
      have e3: "spool_erased q3 = spool_erased q1" using disk_available_erased [OF a] e2 by simp
      have E3: "input_effect p p q3" by (rule effect_spool [OF E e3])
      show ?thesis
      proof (cases a)
        case True
        then show ?thesis using E3 assms(2) dr Inr f Inl2 a by (auto simp: save_spooled_replay_def)
      next
        case False
        then have sr: "save_recent_replay d fmt audio spawned q3 = Some (q, r)"
          using assms(2) dr Inr f Inl2 a by (simp add: save_spooled_replay_def)
        have i3: "inputs_inv q3" using E3 by (simp add: input_effect_def)
        have "handled B p q3 = handled B p q1" for B using spool_erased_fields [OF e3] by (intro handled_cong) simp_all
        then show ?thesis
          using effect_trans [OF E3 ph(2) assms(1) save_recent_effect [OF i3 sr]] D b(1) spool_erased_fields(3) [OF e3] by simp
      qed
    next
      case Inr2: (Inr v)
      have E2: "input_effect p p q2" by (rule effect_spool [OF E e2])
      have "pl_in_flight_inputs q = pl_in_flight_inputs q2 \<and> pl_completed_inputs q = pl_completed_inputs q2
          \<and> pl_shutdown_error q = pl_shutdown_error q2 \<and> pl_backend q = pl_backend q2 \<and> pl_phase q = pl_phase q2"
        using assms(2) dr Inr f Inr2 by (auto simp: save_spooled_replay_def Let_def split: option.splits prod.splits sum.splits)
      then show ?thesis using effect_cong [OF E2] by simp
    qed
  qed
qed

lemma reset_spool_frame:
  "pl_in_flight_inputs (reset_spool p) = pl_in_flight_inputs p" "pl_completed_inputs (reset_spool p) = pl_completed_inputs p"
  "pl_backend (reset_spool p) = pl_backend p" "pl_shutdown_error (reset_spool p) = pl_shutdown_error p"
  by (auto simp: reset_spool_def degrade_spool_def Let_def split: option.split prod.split sum.split)

lemma reset_effect:
  assumes "inputs_inv p" "pipeline_reset replacement p = (q, refused, r)"
  shows "input_effect p p q"
proof (cases "pl_phase p = PipelineBuffering")
  case False
  then show ?thesis using assms effect_refl by (auto simp: pipeline_reset_def Let_def)
next
  case True
  let ?p0 = "reset_spool (p\<lparr>pl_phase := PipelineResetting, pl_flow := begin_reset (pl_flow p)\<rparr>)"
  obtain p1 r1 where s: "shutdown_backend ?p0 = (p1, r1)" by (metis surj_pair)
  have ok: "inputs_ok ?p0" "pl_backend ?p0 = None \<longrightarrow> pl_in_flight_inputs ?p0 = []"
    using assms(1) by (auto simp: inputs_inv_def reset_spool_frame)
  have q: "pl_in_flight_inputs q = pl_in_flight_inputs p1" "pl_completed_inputs q = pl_completed_inputs p1"
    "pl_shutdown_error q = pl_shutdown_error p1"
    "pl_backend q = pl_backend p1 \<and> pl_phase q = PipelineFailed \<or> pl_backend q = Some replacement \<and> r1 = Inr ()"
    using assms(2) True s
    by (auto simp: pipeline_reset_def reset_failed_def Let_def split: sum.splits if_splits prod.splits)
  have B: "idle_reason (pl_backend p) q x"
    if "pl_backend ?p0 = Some b" "eb_shutdown b (eb_calls b) = Inr ()" "pl_shutdown_error p1 = None" for x b
    using that q(3) by (auto simp: idle_reason_def reset_spool_frame)
  note H = shutdown_backend_handled [OF s ok B]
  have h: "handled (idle_reason (pl_backend p) q) p q"
    using H(1) handled_cong [of p ?p0 q p1] q by (simp add: reset_spool_frame)
  then have "set (pl_in_flight_inputs q) \<subseteq> set (pl_in_flight_inputs p)" "length (pl_in_flight_inputs q) \<le> length (pl_in_flight_inputs p)"
    by (auto simp: handled_def)
  moreover have "pl_shutdown_error p1 = None \<and> pl_backend p1 = None" if "r1 = Inr ()" using shutdown_backend_frame(9) [OF s that] by simp
  ultimately have "inputs_inv q"
    using assms(1) True handled_ok [OF h] H(2) q by (auto simp: inputs_inv_def)
  then show ?thesis using h by (simp add: input_effect_def)
qed

lemma step_effect:
  assumes "inputs_inv p" "pipeline_step p e q" "e \<noteq> TakeCompleted"
  shows "input_effect p p q \<or> (\<exists>s f. e = SubmitFrame s f \<and> s \<noteq> 0 \<and> s \<notin> set (pl_in_flight_inputs p)
    \<and> input_effect p (p\<lparr>pl_in_flight_inputs := pl_in_flight_inputs p @ [s]\<rparr>) q)"
  using assms(2)
proof (rule pipeline_stepE)
  fix s f r
  assume "e = SubmitFrame s f" "submit_frame s f p = Some (q, r)"
  then show ?thesis using submit_frame_effect [OF assms(1), of s f q r] by blast
next
  fix a r
  assume "submit_audio a p = (q, r)"
  then have "pl_in_flight_inputs q = pl_in_flight_inputs p \<and> pl_completed_inputs q = pl_completed_inputs p
      \<and> pl_shutdown_error q = pl_shutdown_error p \<and> pl_backend q = pl_backend p \<and> pl_phase q = pl_phase p"
    by (auto simp: submit_audio_def split: if_splits prod.splits sum.splits)
  then show ?thesis using effect_cong [OF effect_refl [OF assms(1)]] by simp
next
  fix save :: "replay_video_stream \<Rightarrow> replay_ring \<Rightarrow> replay_audio_snapshot \<Rightarrow> string + unit" and r
  assume "save_replay save p = Some (q, r)"
  then show ?thesis using save_replay_effect [OF assms(1), of save q r] by simp
next
  fix d fmt audio spawned j
  assume "save_spooled_replay d fmt audio spawned p = Some (q, j)"
  then show ?thesis using save_spooled_effect [OF assms(1)] by simp
next
  fix d fmt audio spawned j
  assume "save_recent_replay d fmt audio spawned p = Some (q, j)"
  then show ?thesis using save_recent_effect [OF assms(1)] by simp
next
  fix b refused r
  assume "pipeline_reset b p = (q, refused, r)"
  then show ?thesis using reset_effect [OF assms(1)] by simp
next
  fix r
  assume "pipeline_shutdown p = (q, r)"
  then show ?thesis using shutdown_effect [OF assms(1)] by simp
qed (use assms(3) in simp)

lemma inputs_inv_init: "pipeline_init p \<Longrightarrow> inputs_inv p"
  by (auto simp: pipeline_init_def pipeline_new_def with_spool_def inputs_inv_def split: if_splits)

inductive_simps take_step: "pipeline_step p TakeCompleted q"

lemma inputs_inv_step:
  assumes "inputs_inv p" "pipeline_step p e q"
  shows "inputs_inv q"
proof (cases "e = TakeCompleted")
  case True
  then show ?thesis using assms by (auto simp: take_step take_completed_inputs_def inputs_inv_def)
next
  case False
  then show ?thesis using step_effect [OF assms] by (auto simp: input_effect_def)
qed

interpretation inputs: event_system pipeline_init pipeline_step inputs_inv
  by unfold_locales (fact inputs_inv_init, fact inputs_inv_step)

section \<open>Keyframe requests\<close>

text \<open>Every encode without a forced keyframe follows a forced one by less than two seconds.\<close>

definition keyframe_cadence :: "(u64 \<times> u64 \<times> bool) list \<Rightarrow> bool" where
  "keyframe_cadence l \<longleftrightarrow> (\<forall>i < length l. \<not> snd (snd (l ! i)) \<longrightarrow>
     (\<exists>j < i. snd (snd (l ! j)) \<and> unat (fst (snd (l ! i))) - unat (fst (snd (l ! j))) < 2000000000))"

lemma cadence_snoc:
  assumes "keyframe_cadence l" "\<not> f \<Longrightarrow> \<exists>s' t'. (s', t', True) \<in> set l \<and> unat t - unat t' < 2000000000"
  shows "keyframe_cadence (l @ [(s, t, f)])"
  unfolding keyframe_cadence_def
proof (intro allI impI)
  fix i
  assume i: "i < length (l @ [(s, t, f)])" "\<not> snd (snd ((l @ [(s, t, f)]) ! i))"
  show "\<exists>j < i. snd (snd ((l @ [(s, t, f)]) ! j))
      \<and> unat (fst (snd ((l @ [(s, t, f)]) ! i))) - unat (fst (snd ((l @ [(s, t, f)]) ! j))) < 2000000000"
  proof (cases "i < length l")
    case True
    then obtain j where "j < i" "snd (snd (l ! j))" "unat (fst (snd (l ! i))) - unat (fst (snd (l ! j))) < 2000000000"
      using assms(1) i(2) unfolding keyframe_cadence_def by (auto simp: nth_append)
    then show ?thesis using True by (intro exI [of _ j]) (simp add: nth_append)
  next
    case False
    then have e: "i = length l" "\<not> f" using i by (auto simp: nth_append)
    then obtain s' t' where "(s', t', True) \<in> set l" "unat t - unat t' < 2000000000" using assms(2) by blast
    then obtain j where "j < length l" "l ! j = (s', t', True)" by (auto simp: in_set_conv_nth)
    then show ?thesis using e \<open>unat t - unat t' < 2000000000\<close> by (intro exI [of _ j]) (simp add: nth_append)
  qed
qed

definition keyframe_inv :: "replay_hardware_pipeline \<Rightarrow> bool" where
  "keyframe_inv p \<longleftrightarrow> (\<forall>b. pl_backend p = Some b \<longrightarrow> keyframe_cadence (eb_encodes b)
     \<and> (\<forall>t. pl_last_keyframe_request_timestamp_ns p = Some t \<longrightarrow> (\<exists>s. (s, t, True) \<in> set (eb_encodes b))))"

text \<open>Only \<open>encode\<close> adds to the log of requests; a backend that stays keeps its log.\<close>

definition same_log :: "replay_hardware_pipeline \<Rightarrow> replay_hardware_pipeline \<Rightarrow> bool" where
  "same_log p q \<longleftrightarrow> (\<forall>b'. pl_backend q = Some b' \<longrightarrow> (\<exists>b. pl_backend p = Some b \<and> eb_encodes b' = eb_encodes b))
     \<and> (pl_last_keyframe_request_timestamp_ns q = pl_last_keyframe_request_timestamp_ns p
        \<or> pl_last_keyframe_request_timestamp_ns q = None)"

lemma same_log_inv: "keyframe_inv p \<Longrightarrow> same_log p q \<Longrightarrow> keyframe_inv q"
  unfolding keyframe_inv_def same_log_def by fastforce

lemma same_log_trans: "same_log p q \<Longrightarrow> same_log q r \<Longrightarrow> same_log p r"
  unfolding same_log_def by fastforce

lemma same_log_fields:
  "pl_backend q = pl_backend p \<Longrightarrow> pl_last_keyframe_request_timestamp_ns q = pl_last_keyframe_request_timestamp_ns p \<Longrightarrow> same_log p q"
  by (simp add: same_log_def)

lemma shutdown_backend_log: "shutdown_backend p = (q, r) \<Longrightarrow> same_log p q"
  by (auto simp: shutdown_backend_def backend_released_def backend_shutdown_def same_log_def split: option.splits sum.splits)

lemma fail_closed_log: "same_log p (pipeline_fail_closed p)"
proof -
  obtain q r where q: "shutdown_backend p = (q, r)" by (metis surj_pair)
  have "same_log q (pipeline_fail_closed p)" by (rule same_log_fields) (simp_all add: pipeline_fail_closed_def q Let_def)
  then show ?thesis using same_log_trans shutdown_backend_log [OF q] by blast
qed

lemma drain_log:
  assumes "drain_backend p = Some (q, r)"
  shows "same_log p q"
proof -
  have drained: "same_log p (p\<lparr>pl_backend := Some (b\<lparr>eb_calls := n\<rparr>)\<rparr>)" if "pl_backend p = Some b" for b n
    using that by (simp add: same_log_def)
  have accepted: "same_log p' q'" if "accept_encoded out p' = Some (q', r')" for out p' q' r'
    using accept_encoded_frame(2,4) [OF that] by (rule same_log_fields)
  show ?thesis
    using assms drained same_log_trans fail_closed_log accepted
    by (auto simp: drain_backend_def backend_drain_def same_log_fields split: if_splits option.splits sum.splits prod.splits)
      blast+
qed

lemma encode_keyframes:
  assumes "keyframe_inv p" "encode_frame s t p = Some (q, r)"
  shows "keyframe_inv q"
proof (cases "pl_backend p")
  case None
  then show ?thesis using assms by (simp add: encode_frame_def Let_def)
next
  case (Some b)
  let ?f = "wants_keyframe t p" and ?l = "eb_encodes b @ [(s, t, wants_keyframe t p)]"
  define p1 where "p1 = p\<lparr>pl_backend := Some (b\<lparr>eb_calls := Suc (eb_calls b), eb_encodes := ?l\<rparr>)\<rparr>"
  have cad: "keyframe_cadence ?l"
  proof (rule cadence_snoc)
    assume "\<not> ?f"
    then obtain t' where t': "pl_last_keyframe_request_timestamp_ns p = Some t'" "\<not> 2000000000 \<le> saturating_sub t t'"
      by (auto simp: wants_keyframe_def KEYFRAME_REQUEST_INTERVAL_NS_def split: option.splits)
    then obtain s' where "(s', t', True) \<in> set (eb_encodes b)" using assms(1) Some by (auto simp: keyframe_inv_def)
    moreover have "unat t - unat t' < 2000000000" using t'(2) by (simp add: word_le_nat_alt unat_saturating_sub)
    ultimately show "\<exists>s' t'. (s', t', True) \<in> set (eb_encodes b) \<and> unat t - unat t' < 2000000000" by blast
  qed (use assms(1) Some in \<open>simp add: keyframe_inv_def\<close>)
  have i1: "keyframe_inv p1"
    unfolding keyframe_inv_def
  proof (intro allI impI conjI)
    fix b' t'
    assume b': "pl_backend p1 = Some b'"
    then show "keyframe_cadence (eb_encodes b')" using cad by (auto simp: p1_def)
    assume "pl_last_keyframe_request_timestamp_ns p1 = Some t'"
    then have "\<exists>s. (s, t', True) \<in> set (eb_encodes b)" using assms(1) Some by (auto simp: keyframe_inv_def p1_def)
    then show "\<exists>s. (s, t', True) \<in> set (eb_encodes b')" using b' by (auto simp: p1_def)
  qed
  have q: "q = pipeline_fail_closed p1 \<or> (\<exists>out p2 r2. accept_encoded out p1 = Some (p2, r2)
      \<and> (q = pipeline_fail_closed p2 \<or> q = fst (frame_accepted t ?f p2)))"
    using assms(2) Some
    by (auto simp: encode_frame_def backend_encode_def p1_def Let_def split: sum.splits option.splits prod.splits)
      (metis fst_conv)+
  have fails: "keyframe_inv (pipeline_fail_closed p')" if "keyframe_inv p'" for p' by (rule same_log_inv [OF that fail_closed_log])
  show ?thesis
    using q
  proof (elim disjE exE conjE)
    fix out p2 r2
    assume acc: "accept_encoded out p1 = Some (p2, r2)"
    have l2: "pl_backend p2 = pl_backend p1" "pl_last_keyframe_request_timestamp_ns p2 = pl_last_keyframe_request_timestamp_ns p1"
      using accept_encoded_frame(2,4) [OF acc] .
    have i2: "keyframe_inv p2" by (rule same_log_inv [OF i1 same_log_fields [OF l2]])
    { assume "q = pipeline_fail_closed p2"
      then show ?thesis using fails [OF i2] by simp }
    define p3 where "p3 = (if ?f then p2\<lparr>pl_last_frame_timestamp_ns := Some t, pl_last_keyframe_request_timestamp_ns := Some t\<rparr>
      else p2\<lparr>pl_last_frame_timestamp_ns := Some t\<rparr>)"
    have "keyframe_inv p3" using i2 l2(1) by (auto simp: p3_def p1_def keyframe_inv_def)
    moreover assume "q = fst (frame_accepted t ?f p2)"
    then have "q = p3 \<or> q = pipeline_fail_closed p3" by (auto simp: frame_accepted_def Let_def p3_def)
    ultimately show ?thesis using fails by blast
  qed (use fails [OF i1] in simp)
qed

lemma reset_keyframes:
  assumes "keyframe_inv p" "eb_encodes b = []" "pipeline_reset b p = (q, refused, r)"
  shows "keyframe_inv q"
proof (cases "pl_phase p = PipelineBuffering")
  case False
  then show ?thesis using assms by (simp add: pipeline_reset_def)
next
  case True
  let ?p0 = "reset_spool (p\<lparr>pl_phase := PipelineResetting, pl_flow := begin_reset (pl_flow p)\<rparr>)"
  obtain p1 r1 where s: "shutdown_backend ?p0 = (p1, r1)" by (metis surj_pair)
  have "same_log p ?p0"
    by (rule same_log_fields) (auto simp: reset_spool_def degrade_spool_def Let_def split: option.split prod.split sum.split)
  then have i1: "keyframe_inv p1" using same_log_inv [OF assms(1)] same_log_trans shutdown_backend_log [OF s] by blast
  have "pl_backend q = pl_backend p1 \<and> pl_last_keyframe_request_timestamp_ns q = pl_last_keyframe_request_timestamp_ns p1
      \<or> pl_backend q = Some b \<and> pl_last_keyframe_request_timestamp_ns q = None"
    using assms(3) True s by (auto simp: pipeline_reset_def reset_failed_def Let_def split: sum.splits if_splits prod.splits)
  then show ?thesis
    using same_log_inv [OF i1 same_log_fields] assms(2) by (auto simp: keyframe_inv_def keyframe_cadence_def)
qed

lemma save_spooled_log:
  assumes "save_spooled_replay d fmt audio spawned p = Some (q, r)"
  shows "same_log p q"
proof -
  obtain q1 r1 where dr: "drain_backend p = Some (q1, r1)" using assms by (auto simp: save_spooled_replay_def split: option.splits)
  obtain q2 r2 where f: "flush_spool_backlog_before_save q1 = (q2, r2)" by (metis surj_pair)
  obtain q3 a where a: "disk_history_available q2 = (q3, a)" by (metis surj_pair)
  have l2: "same_log q1 q2" using spool_erased_fields [OF flush_before_save_erased [OF f]] by (intro same_log_fields)
  have l3: "same_log q2 q3" using spool_erased_fields [OF disk_available_erased [OF a]] by (intro same_log_fields)
  have rec: "same_log q3 q'" if sr: "save_recent_replay d fmt audio spawned q3 = Some (q', r')" for q' r'
  proof -
    obtain q4 r4 where d4: "drain_backend q3 = Some (q4, r4)" using sr by (auto simp: save_recent_replay_def split: option.splits)
    then have "q' = q4" using sr by (cases r4) (auto simp: save_recent_replay_def Let_def split: if_splits)
    then show ?thesis using drain_log [OF d4] by simp
  qed
  have "q = q1 \<or> q = q2 \<or> q = q3 \<or> same_log q3 q \<or> same_log q2 q"
    using assms dr f a rec
    by (auto simp: save_spooled_replay_def Let_def same_log_def split: option.splits prod.splits sum.splits bool.splits)
  then show ?thesis using drain_log [OF dr] l2 l3 same_log_trans by metis
qed

lemma keyframe_inv_step:
  assumes "keyframe_inv p" "pipeline_step p e q"
  shows "keyframe_inv q"
  using assms(2)
proof (rule pipeline_stepE)
  fix s f r
  assume sf: "submit_frame s f p = Some (q, r)"
  let ?p = "p\<lparr>pl_in_flight_inputs := pl_in_flight_inputs p @ [s]\<rparr>"
  have i: "keyframe_inv ?p" using assms(1) by (simp add: keyframe_inv_def)
  have "q = p \<or> q = pipeline_fail_closed p \<or> q = pipeline_fail_closed ?p \<or> encode_frame s (df_timestamp_ns f) ?p = Some (q, r)"
    using sf by (auto simp: submit_frame_def Let_def split: if_splits)
  then show ?thesis
    using assms(1) same_log_inv [OF assms(1) fail_closed_log] same_log_inv [OF i fail_closed_log] encode_keyframes [OF i] by blast
next
  fix a r
  assume "submit_audio a p = (q, r)"
  then show ?thesis
    using assms(1) by (auto simp: submit_audio_def keyframe_inv_def split: if_splits prod.splits sum.splits)
next
  fix save :: "replay_video_stream \<Rightarrow> replay_ring \<Rightarrow> replay_audio_snapshot \<Rightarrow> string + unit" and r
  assume sv: "save_replay save p = Some (q, r)"
  obtain q1 r1 where d: "drain_backend p = Some (q1, r1)" using sv by (auto simp: save_replay_def split: option.splits)
  have i1: "keyframe_inv q1" by (rule same_log_inv [OF assms(1) drain_log [OF d]])
  have ph: "keyframe_inv (q1\<lparr>pl_phase := x\<rparr>)" for x using i1 by (simp add: keyframe_inv_def)
  have "q = q1 \<or> q = q1\<lparr>pl_phase := PipelineBuffering\<rparr> \<or> q = pipeline_fail_closed (q1\<lparr>pl_phase := PipelineSaving\<rparr>)"
    using sv d by (auto simp: save_replay_def Let_def split: if_splits sum.splits)
  then show ?thesis using i1 ph same_log_inv [OF ph fail_closed_log] by blast
next
  fix d fmt audio spawned j
  assume "save_spooled_replay d fmt audio spawned p = Some (q, j)"
  then show ?thesis using same_log_inv [OF assms(1) save_spooled_log] by blast
next
  fix d fmt audio spawned j
  assume sr: "save_recent_replay d fmt audio spawned p = Some (q, j)"
  obtain q1 r1 where d: "drain_backend p = Some (q1, r1)" using sr by (auto simp: save_recent_replay_def split: option.splits)
  then have "q = q1" using sr by (cases r1) (auto simp: save_recent_replay_def Let_def split: if_splits)
  then show ?thesis using same_log_inv [OF assms(1) drain_log [OF d]] by simp
next
  fix b refused r
  assume "eb_encodes b = []" "pipeline_reset b p = (q, refused, r)"
  then show ?thesis using reset_keyframes [OF assms(1)] by blast
next
  fix ss
  assume "take_completed_inputs p = (q, ss)"
  then show ?thesis using assms(1) by (auto simp: take_completed_inputs_def keyframe_inv_def)
next
  fix r
  assume st: "pipeline_shutdown p = (q, r)"
  obtain p1 r1 where s: "shutdown_backend p = (p1, r1)" by (metis surj_pair)
  have "q = p \<or> same_log p1 q" using st s by (auto simp: pipeline_shutdown_def same_log_def split: if_splits)
  then show ?thesis using assms(1) same_log_inv same_log_trans shutdown_backend_log [OF s] by blast
qed

lemma keyframe_inv_init: "pipeline_init p \<Longrightarrow> keyframe_inv p"
  by (auto simp: pipeline_init_def pipeline_new_def with_spool_def keyframe_inv_def keyframe_cadence_def split: if_splits)

interpretation keyframes: event_system pipeline_init pipeline_step keyframe_inv
  by unfold_locales (fact keyframe_inv_init, fact keyframe_inv_step)

section \<open>Properties\<close>

text \<open>C6: An export is handed back to its producer only when the hardware is done with it, and none is lost. In every
  reachable state at most four submitted inputs are in flight while frames are accepted and at most eight completed ones wait.
  Whatever one operation adds to the completed inputs was in flight or just submitted, and was reported
  complete by an answer of the backend in this operation, or the backend was shut down cleanly in it. When there was room for
  all of them, every input is afterwards still in flight or completed.\<close>

theorem completed_inputs_are_idle:
  assumes "reach pipeline_init pipeline_step p" "pipeline_step p e q" "e \<noteq> TakeCompleted"
  defines "taken \<equiv> (case e of SubmitFrame s _ \<Rightarrow> {s} | _ \<Rightarrow> {})"
  shows "length (pl_completed_inputs q) \<le> 8 \<and> (pl_phase q = PipelineBuffering \<longrightarrow> length (pl_in_flight_inputs q) \<le> 4)
    \<and> (\<exists>done. pl_completed_inputs q = pl_completed_inputs p @ done \<and> set done \<subseteq> set (pl_in_flight_inputs p) \<union> taken
         \<and> (\<forall>s \<in> set done. s \<notin> set (pl_in_flight_inputs q) \<and> idle_reason (pl_backend p) q s)
         \<and> (length (pl_completed_inputs p) + length (pl_in_flight_inputs p) < 8 \<longrightarrow>
              set (pl_in_flight_inputs p) \<subseteq> set (pl_in_flight_inputs q) \<union> set done))"
proof -
  have i: "inputs_inv p" by (rule inputs.inv_reach [OF assms(1)])
  obtain p' where p': "pl_completed_inputs p' = pl_completed_inputs p" "set (pl_in_flight_inputs p) \<subseteq> set (pl_in_flight_inputs p')"
    "set (pl_in_flight_inputs p') \<subseteq> set (pl_in_flight_inputs p) \<union> taken"
    "length (pl_in_flight_inputs p') \<le> Suc (length (pl_in_flight_inputs p))" "input_effect p p' q"
  proof (cases "input_effect p p q")
    case True
    then show thesis by (intro that [of p]) auto
  next
    case False
    then obtain s f where s: "e = SubmitFrame s f" "input_effect p (p\<lparr>pl_in_flight_inputs := pl_in_flight_inputs p @ [s]\<rparr>) q"
      using step_effect [OF i assms(2,3)] by blast
    then show thesis by (intro that [OF _ _ _ _ s(2)]) (auto simp: taken_def)
  qed
  have h: "handled (idle_reason (pl_backend p) q) p' q" and iq: "inputs_inv q" using p'(5) by (auto simp: input_effect_def)
  obtain d where d: "pl_completed_inputs q = pl_completed_inputs p' @ d" "\<forall>s \<in> set d. idle_reason (pl_backend p) q s"
    "set d \<subseteq> set (pl_in_flight_inputs p')" "set (pl_in_flight_inputs q) \<subseteq> set (pl_in_flight_inputs p') - set d"
    "length (pl_completed_inputs p') + length (pl_in_flight_inputs p') \<le> MAX_COMPLETED_INPUTS \<longrightarrow>
      set (pl_in_flight_inputs p') = set (pl_in_flight_inputs q) \<union> set d"
    using h unfolding handled_def by blast
  have "\<exists>done. pl_completed_inputs q = pl_completed_inputs p @ done \<and> set done \<subseteq> set (pl_in_flight_inputs p) \<union> taken
         \<and> (\<forall>s \<in> set done. s \<notin> set (pl_in_flight_inputs q) \<and> idle_reason (pl_backend p) q s)
         \<and> (length (pl_completed_inputs p) + length (pl_in_flight_inputs p) < 8 \<longrightarrow>
              set (pl_in_flight_inputs p) \<subseteq> set (pl_in_flight_inputs q) \<union> set done)"
  proof (intro exI [of _ d] conjI impI)
    assume "length (pl_completed_inputs p) + length (pl_in_flight_inputs p) < 8"
    then have "set (pl_in_flight_inputs p') = set (pl_in_flight_inputs q) \<union> set d"
      using d(5) p'(1,4) by (simp add: MAX_COMPLETED_INPUTS_def)
    then show "set (pl_in_flight_inputs p) \<subseteq> set (pl_in_flight_inputs q) \<union> set d" using p'(2) by blast
  qed (use d p' in auto)
  then show ?thesis
    using iq by (simp add: inputs_inv_def MAX_COMPLETED_INPUTS_def MAX_TRACKED_INPUTS_def
        MAX_HARDWARE_INPUTS_IN_FLIGHT_def REPLAY_ENCODER_PIPELINE_DEPTH_def)
qed

text \<open>C30: A failed teardown is final. Once the backend's shutdown has failed, the error is kept, no operation hands
  another input back, and the inputs that were in flight stay in flight for good: repeated cleanup never turns an unfinished read
  into an acknowledgement.\<close>

theorem failed_teardown_keeps_inputs:
  assumes "reach pipeline_init pipeline_step p" "pl_shutdown_error p = Some error" "pipeline_step p e q"
  shows "pl_shutdown_error q = Some error \<and> pl_in_flight_inputs q = pl_in_flight_inputs p
    \<and> set (pl_completed_inputs q) \<subseteq> set (pl_completed_inputs p) \<and> pl_phase q \<in> {PipelineFailed, PipelineShutdown, pl_phase p}"
proof -
  have ph: "pl_phase p \<noteq> PipelineBuffering" using inputs.inv_reach [OF assms(1)] assms(2) by (auto simp: inputs_inv_def)
  have dr: "drain_backend p = Some (p, Inl PipelineLifecycle)" using ph by (simp add: drain_backend_def)
  show ?thesis
    using assms(3)
  proof (rule pipeline_stepE)
    fix r
    assume "pipeline_shutdown p = (q, r)"
    then show ?thesis using assms(2) by (auto simp: pipeline_shutdown_def shutdown_backend_def split: if_splits)
  qed (use assms(2) ph dr in \<open>auto simp: submit_frame_def submit_audio_def save_replay_def save_spooled_replay_def
      save_recent_replay_def pipeline_reset_def take_completed_inputs_def Let_def\<close>)
qed

definition sample_stopped :: replay_hardware_pipeline where
  "sample_stopped = fst (pipeline_shutdown sample_recorded)"

lemma sample_stopped_fields: "pl_completed_inputs sample_stopped = [7]" "pl_in_flight_inputs sample_recorded = [7]"
  "pl_completed_inputs sample_recorded = []" "pl_backend sample_recorded = Some (sample_backend\<lparr>eb_calls := Suc 0, eb_encodes := [(7, 1000, True)]\<rparr>)"
  by (simp_all add: sample_stopped_def pipeline_shutdown_def shutdown_backend_def backend_shutdown_def backend_released_def
      sample_recorded_def sample_pipeline_def sample_backend_def MAX_COMPLETED_INPUTS_def)

theorem completed_inputs_are_idle_witness:
  "pipeline_step sample_recorded ShutdownPipeline sample_stopped \<and> pl_completed_inputs sample_stopped = [7]
    \<and> idle_reason (pl_backend sample_recorded) sample_stopped 7"
proof -
  have st: "pipeline_step sample_recorded ShutdownPipeline sample_stopped"
    by (rule step_stop [of _ _ "snd (pipeline_shutdown sample_recorded)"]) (simp add: sample_stopped_def)
  have "ShutdownPipeline \<noteq> TakeCompleted" by simp
  from completed_inputs_are_idle [OF sample_recorded_reach st this] have "idle_reason (pl_backend sample_recorded) sample_stopped 7"
    by (auto simp: sample_stopped_fields)
  then show ?thesis using st by (simp add: sample_stopped_fields)
qed

text \<open>A backend whose shutdown fails.\<close>

definition stuck_pipeline :: replay_hardware_pipeline where
  "stuck_pipeline = sample_pipeline\<lparr>pl_spool := None, pl_in_flight_inputs := [],
     pl_backend := Some (sample_backend\<lparr>eb_shutdown := \<lambda>_. Inl (BackendFailed ''busy'')\<rparr>)\<rparr>"

lemma stuck_reach: "reach pipeline_init pipeline_step (pipeline_fail_closed stuck_pipeline)"
proof (rule reach_step)
  let ?b = "sample_backend\<lparr>eb_shutdown := \<lambda>_. Inl (BackendFailed ''busy'')\<rparr>"
  have "backend_ok ?b" using sample_backend_ok by (simp add: backend_ok_def)
  moreover have "eb_encodes ?b = []" by (simp add: sample_backend_def)
  moreover have "pipeline_new default_replay_settings ?b = (None, Inr stuck_pipeline)"
    by (simp add: pipeline_new_def stream_matches_settings_def in_memory_settings_def MAX_IN_MEMORY_HISTORY_def
        default_replay_settings_def sample_backend_def sample_pipeline_def stuck_pipeline_def) (simp add: sample_stream_def)
  ultimately show "reach pipeline_init pipeline_step stuck_pipeline"
    by (intro reach_init) (unfold pipeline_init_def, blast)
  have "submit_frame 0 sample_frame stuck_pipeline = Some (pipeline_fail_closed stuck_pipeline, Inl (PipelineEncoder InvalidInputCompletion))"
    by (simp add: submit_frame_def stuck_pipeline_def sample_pipeline_def)
  then show "pipeline_step stuck_pipeline (SubmitFrame 0 sample_frame) (pipeline_fail_closed stuck_pipeline)" by (rule step_frame)
qed

theorem failed_teardown_keeps_inputs_witness:
  "pl_shutdown_error (pipeline_fail_closed stuck_pipeline) = Some (BackendFailed ''busy'')
    \<and> pl_shutdown_error (fst (pipeline_shutdown (pipeline_fail_closed stuck_pipeline))) = Some (BackendFailed ''busy'')"
proof -
  have e: "pl_shutdown_error (pipeline_fail_closed stuck_pipeline) = Some (BackendFailed ''busy'')"
    by (simp add: pipeline_fail_closed_def shutdown_backend_def backend_shutdown_def stuck_pipeline_def sample_pipeline_def Let_def)
  have "pipeline_step (pipeline_fail_closed stuck_pipeline) ShutdownPipeline (fst (pipeline_shutdown (pipeline_fail_closed stuck_pipeline)))"
    by (rule step_stop [of _ _ "snd (pipeline_shutdown (pipeline_fail_closed stuck_pipeline))"]) simp
  from failed_teardown_keeps_inputs [OF stuck_reach e this] e show ?thesis by blast
qed

text \<open>C31: The encoder is asked for a keyframe often enough. In every reachable state, each encode request the current
  backend has received without a forced keyframe comes after a forced one whose timestamp is less than two
  seconds older; the first request of an epoch is always forced.\<close>

theorem keyframes_every_two_seconds:
  assumes "reach pipeline_init pipeline_step p" "pl_backend p = Some b" "i < length (eb_encodes b)"
    and "eb_encodes b ! i = (s, t, False)"
  shows "\<exists>j < i. \<exists>s' t'. eb_encodes b ! j = (s', t', True) \<and> unat t - unat t' < 2000000000"
proof -
  have "keyframe_cadence (eb_encodes b)" using keyframes.inv_reach [OF assms(1)] assms(2) by (simp add: keyframe_inv_def)
  then obtain j where j: "j < i" "snd (snd (eb_encodes b ! j))" "unat t - unat (fst (snd (eb_encodes b ! j))) < 2000000000"
    using assms(3,4) unfolding keyframe_cadence_def by fastforce
  obtain s' t' f where "eb_encodes b ! j = (s', t', f)" by (metis prod_cases3)
  then show ?thesis using j by (intro exI [of _ j]) auto
qed

lemma sample_next_frame: "\<exists>q r b. submit_frame 8 (sample_frame\<lparr>df_timestamp_ns := 2000\<rparr>) sample_recorded = Some (q, r)
    \<and> pl_backend q = Some b \<and> eb_encodes b = [(7, 1000, True), (8, 2000, False)]"
  by (simp add: submit_frame_def encode_frame_def wants_keyframe_def backend_encode_def KEYFRAME_REQUEST_INTERVAL_NS_def saturating_sub_def
      accept_encoded_def push_encoded_def push_batch_def spool_encoded_def check_spool_phase_def port_running_def frame_accepted_def
      sample_frame_def sample_stream_def
      sample_recorded_def sample_pipeline_def flow_new_def sample_backend_def sample_port_def MAX_TRACKED_INPUTS_def
      MAX_HARDWARE_INPUTS_IN_FLIGHT_def REPLAY_ENCODER_PIPELINE_DEPTH_def saturating_add_def try_from_def)

theorem keyframes_every_two_seconds_witness:
  "\<exists>q b. reach pipeline_init pipeline_step q \<and> pl_backend q = Some b \<and> eb_encodes b ! 1 = (8, 2000, False)
    \<and> (\<exists>j < 1. \<exists>s' t'. eb_encodes b ! j = (s', t', True) \<and> unat (2000 :: u64) - unat t' < 2000000000)"
proof -
  obtain q r b where q: "submit_frame 8 (sample_frame\<lparr>df_timestamp_ns := 2000\<rparr>) sample_recorded = Some (q, r)"
    "pl_backend q = Some b" "eb_encodes b = [(7, 1000, True), (8, 2000, False)]" using sample_next_frame by blast
  have r: "reach pipeline_init pipeline_step q" by (rule reach_step [OF sample_recorded_reach step_frame [OF q(1)]])
  have "1 < length (eb_encodes b)" "eb_encodes b ! 1 = (8, 2000, False)" using q(3) by simp_all
  from keyframes_every_two_seconds [OF r q(2) this] show ?thesis using r q(2) \<open>eb_encodes b ! 1 = _\<close> by blast
qed

end
