(* ===== verification/Clip_Labels.thy ===== *)
theory Clip_Labels
  imports Replay_Preferences "HOL-Library.List_Lexorder" "HOL-Library.Char_ord"
begin

text \<open>
  The labels of saved clips, \<open>redunar-daemon/src/replay_clip_labels.rs\<close>: which names a clip may have, the
  record that ties a renamed clip to its inode and its original name, and the text form of the label
  file, which the clip trash shares. A \<open>BTreeMap\<close> is a list of entries with strictly increasing keys.
\<close>

section \<open>Names\<close>

definition CLIP_PREFIX :: string where "CLIP_PREFIX = ''redunar-replay-''"
definition MATROSKA_SUFFIX :: string where "MATROSKA_SUFFIX = ''.mkv''"
definition MP4_SUFFIX :: string where "MP4_SUFFIX = ''.mp4''"

text \<open>\<open>char::is_whitespace\<close>.\<close>

definition is_whitespace :: "nat \<Rightarrow> bool" where
  "is_whitespace p \<longleftrightarrow> 9 \<le> p \<and> p \<le> 13 \<or> p \<in> {32, 133, 160, 5760, 8232, 8233, 8239, 8287, 12288}
     \<or> 8192 \<le> p \<and> p \<le> 8202"

text \<open>\<open>Path::extension\<close>: what follows the last dot of the last component, when something stands before the dot.\<close>

definition path_extension :: "string \<Rightarrow> string option" where
  "path_extension path = Option.bind (path_file_name path) (\<lambda>name.
     (let parts = split_on (CHR ''.'') name; stem = concat (map (\<lambda>p. p @ ''.'') (butlast parts))
      in if length parts < 2 \<or> stem = ''.'' then None else Some (last parts)))"

definition valid_name :: "string \<Rightarrow> bool" where
  "valid_name name \<longleftrightarrow> (case chars name of None \<Rightarrow> False | Some cs \<Rightarrow>
     cs \<noteq> [] \<and> length name \<le> 255 \<and> \<not> is_whitespace (hd cs) \<and> \<not> is_whitespace (last cs)
     \<and> hd name \<noteq> CHR ''.'' \<and> \<not> list_ex is_control cs \<and> CHR ''/'' \<notin> set name \<and> CHR 0x5C \<notin> set name
     \<and> path_extension name \<in> {Some ''mkv'', Some ''mp4''})"

definition digits :: "string \<Rightarrow> bool" where
  "digits s \<longleftrightarrow> s \<noteq> [] \<and> list_all is_digit s"

definition is_owned_clip_name :: "string \<Rightarrow> bool" where
  "is_owned_clip_name name =
     (if chars name = None then False
      else case strip_prefix CLIP_PREFIX name of
        None \<Rightarrow> False
      | Some prefixed \<Rightarrow>
          (case (case strip_suffix MATROSKA_SUFFIX prefixed of
                   Some middle \<Rightarrow> Some middle | None \<Rightarrow> strip_suffix MP4_SUFFIX prefixed) of
             None \<Rightarrow> False
           | Some middle \<Rightarrow>
               (let fields = split_on (CHR ''-'') middle
                in list_all digits (take 3 fields) \<and> length fields \<le> 3)))"

section \<open>Labels\<close>

record clip_label =
  lb_original :: string
  lb_favorite :: bool
  lb_dev :: u64
  lb_ino :: u64

type_synonym clip_labels = "(string \<times> clip_label) list"

fun bt_insert :: "'k :: linorder \<Rightarrow> 'v \<Rightarrow> ('k \<times> 'v) list \<Rightarrow> ('k \<times> 'v) list" where
  "bt_insert k v [] = [(k, v)]"
| "bt_insert k v ((k', v') # m) =
     (if k < k' then (k, v) # (k', v') # m else if k = k' then (k, v) # m else (k', v') # bt_insert k v m)"

definition bt_remove :: "'k \<Rightarrow> ('k \<times> 'v) list \<Rightarrow> ('k \<times> 'v) list" where
  "bt_remove k m = filter (\<lambda>(k', _). k' \<noteq> k) m"

definition bt_ok :: "('k :: linorder \<times> 'v) list \<Rightarrow> bool" where
  "bt_ok m \<longleftrightarrow> sorted_wrt (<) (map fst m)"

lemma map_of_bt_insert [simp]: "map_of (bt_insert k v m) = (map_of m)(k \<mapsto> v)"
  by (induction k v m rule: bt_insert.induct) (auto simp: fun_eq_iff)

lemma map_of_bt_remove [simp]: "map_of (bt_remove k m) = (map_of m)(k := None)"
  by (induction m) (auto simp: bt_remove_def fun_eq_iff)

lemma set_bt_insert: "set (bt_insert k v m) \<subseteq> insert (k, v) (set m)"
  by (induction k v m rule: bt_insert.induct) auto

lemma bt_ok_insert: "bt_ok m \<Longrightarrow> bt_ok (bt_insert k v m)"
proof (induction k v m rule: bt_insert.induct)
  case (2 k v k' v' m)
  have "k' < a" if "\<not> k < k'" "k \<noteq> k'" "(a, b) \<in> set (bt_insert k v m)" for a b
    using that 2(2) set_bt_insert [of k v m] by (force simp: bt_ok_def)
  with 2 show ?case by (auto simp: bt_ok_def)
qed (simp add: bt_ok_def)

lemma bt_ok_filter: "bt_ok m \<Longrightarrow> bt_ok (filter P m)"
  by (induction m) (auto simp: bt_ok_def)

lemma bt_ok_remove: "bt_ok m \<Longrightarrow> bt_ok (bt_remove k m)"
  by (simp add: bt_remove_def bt_ok_filter)

lemma bt_insert_last: "\<forall>k' \<in> fst ` set m. k' < k \<Longrightarrow> bt_insert k v m = m @ [(k, v)]"
  by (induction m) auto

lemma map_of_filter:
  "distinct (map fst m) \<Longrightarrow> map_of (filter P m) k = (case map_of m k of None \<Rightarrow> None | Some v \<Rightarrow> if P (k, v) then Some v else None)"
  by (induction m) (auto split: option.splits simp: map_of_eq_None_iff image_iff)

lemma bt_ok_distinct: "bt_ok m \<Longrightarrow> distinct (map fst m)"
  unfolding bt_ok_def by (induction m) auto

section \<open>The label file\<close>

definition LABEL_FILE :: string where "LABEL_FILE = ''.redunar-clip-labels-v1''"
definition TRASH_FILE :: string where "TRASH_FILE = ''.redunar-clip-trash-v1''"
definition LABEL_HEADER :: string where "LABEL_HEADER = ''redunar-clip-labels-v1''"
definition LABEL_MAX_BYTES :: u64 where "LABEL_MAX_BYTES = 2 * 1024 * 1024"
definition MAX_LABEL_ENTRIES :: nat where "MAX_LABEL_ENTRIES = 4096"

definition invalid_labels :: string where
  "invalid_labels = ''Replay filename metadata is invalid. Recordings have not been changed.''"

text \<open>\<open>u8::from_str_radix(pair, 16)\<close>, which takes a leading plus sign and either case.\<close>

definition radix_digit :: "char \<Rightarrow> nat option" where
  "radix_digit c = (let v = of_char c in
     if 48 \<le> v \<and> v \<le> 57 then Some (v - 48) else if 97 \<le> v \<and> v \<le> 102 then Some (v - 87)
     else if 65 \<le> v \<and> v \<le> 70 then Some (v - 55) else None)"

definition radix_pair :: "char \<Rightarrow> char \<Rightarrow> nat option" where
  "radix_pair a b = (if a = CHR ''+'' then radix_digit b
     else Option.bind (radix_digit a) (\<lambda>high. map_option (\<lambda>low. high * 16 + low) (radix_digit b)))"

fun label_bytes :: "string \<Rightarrow> string option" where
  "label_bytes (a # b # rest) = Option.bind (radix_pair a b) (\<lambda>n. map_option ((#) (char_of n)) (label_bytes rest))"
| "label_bytes _ = Some []"

definition label_unhex :: "string \<Rightarrow> string + string" where
  "label_unhex value = (if odd (length value) then Inl invalid_labels
     else case label_bytes value of
       None \<Rightarrow> Inl invalid_labels
     | Some bytes \<Rightarrow> if chars bytes = None then Inl invalid_labels else Inr bytes)"

definition tab :: char where "tab = CHR 0x09"

definition parse_u64 :: "string \<Rightarrow> string + u64" where
  "parse_u64 s = map_err (\<lambda>_. invalid_labels) (ok_or (map_option word_of_nat (parse_unsigned (2 ^ 64 - 1) s)) ())"

definition parse_favorite :: "string \<Rightarrow> string + bool" where
  "parse_favorite s = (if s = ''0'' then Inr False else if s = ''1'' then Inr True else Inl invalid_labels)"

definition parse_label :: "clip_labels \<Rightarrow> string \<Rightarrow> string + clip_labels" where
  "parse_label labels line =
     (let fields = split_on tab line
      in if length fields \<noteq> 5 \<or> length labels \<ge> MAX_LABEL_ENTRIES then Inl invalid_labels
         else
           and_then (label_unhex (fields ! 0)) (\<lambda>name.
           and_then (label_unhex (fields ! 1)) (\<lambda>original.
             if \<not> valid_name name \<or> path_extension name \<noteq> path_extension original \<or> \<not> is_owned_clip_name original
             then Inl invalid_labels
             else
               and_then (parse_favorite (fields ! 4)) (\<lambda>favorite.
               and_then (parse_u64 (fields ! 2)) (\<lambda>dev.
               and_then (parse_u64 (fields ! 3)) (\<lambda>ino.
                 if map_of labels name \<noteq> None then Inl invalid_labels
                 else Inr (bt_insert name \<lparr>lb_original = original, lb_favorite = favorite, lb_dev = dev, lb_ino = ino\<rparr>
                             labels)))))))"

definition parse_labels :: "string \<Rightarrow> string + clip_labels" where
  "parse_labels text =
     (case lines text of
        [] \<Rightarrow> Inl invalid_labels
      | header # rest \<Rightarrow> if header \<noteq> LABEL_HEADER then Inl invalid_labels else try_fold parse_label [] rest)"

definition label_line :: "string \<times> clip_label \<Rightarrow> string" where
  "label_line entry = (case entry of (name, label) \<Rightarrow>
     hex name @ tab # hex (lb_original label) @ tab # show_nat (unat (lb_dev label)) @ tab
       # show_nat (unat (lb_ino label)) @ tab # (if lb_favorite label then ''1'' else ''0''))"

definition labels_text :: "clip_labels \<Rightarrow> string" where
  "labels_text labels = LABEL_HEADER @ [newline] @ concat (map (\<lambda>entry. label_line entry @ [newline]) labels)"

section \<open>Round trip\<close>

definition clip_label_ok :: "string \<times> clip_label \<Rightarrow> bool" where
  "clip_label_ok entry \<longleftrightarrow> valid_name (fst entry) \<and> path_extension (fst entry) = path_extension (lb_original (snd entry))
     \<and> is_owned_clip_name (lb_original (snd entry))"

definition labels_ok :: "clip_labels \<Rightarrow> bool" where
  "labels_ok labels \<longleftrightarrow> bt_ok labels \<and> list_all clip_label_ok labels \<and> length labels \<le> MAX_LABEL_ENTRIES"

lemma hex_digit_value:
  assumes "n < 16"
  shows "radix_digit (hex_digit n) = Some n" "hex_digit n \<noteq> CHR ''+''" "hex_digit n \<noteq> tab"
proof -
  have "n \<in> {0, 1, 2, 3, 4, 5, 6, 7, 8, 9, 10, 11, 12, 13, 14, 15}"
    using assms unfolding insert_iff empty_iff by presburger
  then show "radix_digit (hex_digit n) = Some n" "hex_digit n \<noteq> CHR ''+''" "hex_digit n \<noteq> tab"
    by (auto simp: hex_digit_def radix_digit_def tab_def)
qed

lemma label_bytes_hex: "label_bytes (hex s) = Some s"
proof (induction s)
  case (Cons c s)
  let ?n = "of_char c :: nat"
  have "radix_pair (hex_digit (?n div 16)) (hex_digit (?n mod 16)) = Some ?n"
    using div_mod_16 [OF of_char_less] by (simp add: radix_pair_def hex_digit_value)
  with Cons show ?case by (simp add: hex_def)
qed (simp add: hex_def)

lemma label_unhex_hex: "chars s \<noteq> None \<Longrightarrow> label_unhex (hex s) = Inr s"
  by (simp add: label_unhex_def label_bytes_hex)

lemma tab_free: "tab \<notin> set (hex s)" "tab \<notin> set (show_nat n)"
proof -
  show "tab \<notin> set (hex s)"
  proof
    assume "tab \<in> set (hex s)"
    then obtain x where "tab = hex_digit (of_char x div 16) \<or> tab = hex_digit (of_char x mod 16)" by (auto simp: hex_def)
    then show False using hex_digit_value(3) div_mod_16 [OF of_char_less [of x]] by metis
  qed
  show "tab \<notin> set (show_nat n)" by (rule show_nat_free) (simp add: tab_def is_digit_def)
qed

lemma parse_u64_show: "parse_u64 (show_nat (unat w)) = Inr w"
proof -
  have "unat w \<le> 2 ^ 64 - 1" using unat_lt_2p [of w] by simp
  then show ?thesis by (simp add: parse_u64_def parse_unsigned_show)
qed

lemma split_label_line:
  "split_on tab (label_line (name, l)) = [hex name, hex (lb_original l), show_nat (unat (lb_dev l)),
     show_nat (unat (lb_ino l)), if lb_favorite l then ''1'' else ''0'']"
  by (simp add: label_line_def split_on_append tab_free) (simp add: tab_def)

lemma names_are_text: "valid_name n \<Longrightarrow> chars n \<noteq> None" "is_owned_clip_name n \<Longrightarrow> chars n \<noteq> None"
  by (auto simp: valid_name_def is_owned_clip_name_def split: option.splits if_splits)

lemma parse_label_line:
  assumes "clip_label_ok e" "length ls < MAX_LABEL_ENTRIES" "\<forall>k \<in> fst ` set ls. k < fst e"
  shows "parse_label ls (label_line e) = Inr (ls @ [e])"
proof -
  obtain name l where e: "e = (name, l)" by fastforce
  have "map_of ls name = None" using assms(3) by (auto simp: e map_of_eq_None_iff)
  then show ?thesis
    using assms names_are_text
    by (simp add: e parse_label_def split_label_line clip_label_ok_def label_unhex_hex parse_u64_show parse_favorite_def
        bt_insert_last)
qed

lemma label_line_text: "line_text (label_line e)"
proof -
  obtain name l where e: "e = (name, l)" by fastforce
  have l: "label_line e = (hex name @ tab # hex (lb_original l) @ tab # show_nat (unat (lb_dev l)) @ tab
      # show_nat (unat (lb_ino l)) @ [tab]) @ (if lb_favorite l then ''1'' else ''0'')"
    by (simp add: label_line_def e)
  have "newline \<notin> set (hex s)" for s using hex_chars(2) by metis
  moreover have "newline \<notin> set (show_nat n)" for n by (rule show_nat_free) (rule not_digits)
  ultimately show ?thesis
    unfolding l by (intro line_text_append) (auto simp: tab_def newline_def line_text_def carriage_return_def)
qed

lemma parse_label_lines:
  assumes "labels_ok (done @ ls)"
  shows "try_fold parse_label done (map label_line ls) = Inr (done @ ls)"
  using assms
proof (induction ls arbitrary: "done")
  case (Cons e ls)
  have "parse_label done (label_line e) = Inr (done @ [e])"
    using Cons.prems by (intro parse_label_line) (auto simp: labels_ok_def bt_ok_def sorted_wrt_append)
  with Cons.IH [of "done @ [e]"] Cons.prems show ?case by simp
qed simp

lemma parse_labels_text:
  assumes "labels_ok ls"
  shows "parse_labels (labels_text ls) = Inr ls"
proof -
  have h: "line_text LABEL_HEADER" by (simp add: LABEL_HEADER_def line_text_def newline_def carriage_return_def)
  have "lines (concat (map (\<lambda>e. label_line e @ [newline]) ls)) = map label_line ls"
    using lines_concat [of "map label_line ls"] label_line_text by (simp add: comp_def)
  then have "lines (labels_text ls) = LABEL_HEADER # map label_line ls"
    by (simp add: labels_text_def lines_Cons [OF h])
  then show ?thesis using parse_label_lines [of "[]" ls] assms by (simp add: parse_labels_def)
qed

text \<open>Whatever is accepted can be written back.\<close>

lemma parse_label_ok:
  assumes "labels_ok ls" "parse_label ls line = Inr ms"
  shows "labels_ok ms"
proof -
  obtain name l where e: "ms = bt_insert name l ls" "clip_label_ok (name, l)" "map_of ls name = None"
      "length ls < MAX_LABEL_ENTRIES"
    using assms(2) by (auto simp: parse_label_def clip_label_ok_def Let_def and_then_Inr split: if_splits)
  have "length (bt_insert name l ls) = Suc (length ls)"
    using e(3) by (induction name l ls rule: bt_insert.induct) (auto split: if_splits)
  with e assms(1) bt_ok_insert show ?thesis
    using set_bt_insert [of name l ls] by (auto simp: labels_ok_def list_all_iff)
qed

lemma parse_labels_ok: "parse_labels text = Inr ls \<Longrightarrow> labels_ok ls"
proof -
  have "try_fold parse_label ms ls' = Inr ls \<Longrightarrow> labels_ok ms \<Longrightarrow> labels_ok ls" for ms ls'
    by (induction ls' arbitrary: ms) (auto simp: and_then_Inr dest: parse_label_ok)
  moreover have "labels_ok []" by (simp add: labels_ok_def bt_ok_def)
  ultimately show "parse_labels text = Inr ls \<Longrightarrow> labels_ok ls"
    by (auto simp: parse_labels_def split: list.splits if_splits)
qed

end
