(* ===== verification/Clip_Files.thy ===== *)
theory Clip_Files
  imports Clip_Labels Spool_Segments
begin

text \<open>
  The directory of saved clips as \<open>replay_store.rs\<close>, \<open>replay_store/trash.rs\<close> and
  \<open>replay_clip_labels.rs\<close> of \<open>redunar-daemon\<close> use it: its ownership marker, temporary files, and the two label
  files. The directory is a list of entries in listing order. A file with several hard links occurs
  once per name, always with the same inode number and contents. The operating system answers from oracles:
  any call may fail and then changes nothing (a failed write can leave a part only in an unpublished temporary file),
  and inode numbers and modification times are its choice. A failure is never a missing or an existing
  name: those two answers follow from the directory.
\<close>

section \<open>The directory\<close>

datatype file_kind = RegularFile | DirectoryFile | SymbolicLink | OtherFile

record clip_file =
  fi_kind :: file_kind
  fi_bytes :: "u8 list"
  fi_modified :: int
  fi_ino :: u64
  fi_links :: nat
  fi_uid :: nat

datatype call_kind = InspectCall | OtherCall

record clip_fs =
  cf_directory :: directory_state
  cf_uid :: nat
  cf_dev :: u64
  cf_entries :: "(string \<times> clip_file) list"
  cf_next_file :: u64
  cf_process :: nat
  cf_fault :: "call_kind \<Rightarrow> nat \<Rightarrow> string option"
  cf_inos :: "nat \<Rightarrow> u64"
  cf_clock :: "nat \<Rightarrow> int"
  cf_calls :: nat

type_synonym ('e, 'a) cf_op = "clip_fs \<Rightarrow> clip_fs \<times> ('e + 'a)"

definition cf_lookup :: "string \<Rightarrow> clip_fs \<Rightarrow> clip_file option" where
  "cf_lookup name fs = map_of (cf_entries fs) name"

definition cf_then :: "('e, 'a) cf_op \<Rightarrow> ('a \<Rightarrow> ('e, 'b) cf_op) \<Rightarrow> ('e, 'b) cf_op" where
  "cf_then m f fs = (case m fs of (fs, Inl e) \<Rightarrow> (fs, Inl e) | (fs, Inr x) \<Rightarrow> f x fs)"

text \<open>\<open>match\<close> on a result.\<close>

definition cf_match :: "('e, 'a) cf_op \<Rightarrow> ('e \<Rightarrow> ('f, 'b) cf_op) \<Rightarrow> ('a \<Rightarrow> ('f, 'b) cf_op) \<Rightarrow> ('f, 'b) cf_op" where
  "cf_match m on_error on_ok fs = (case m fs of (fs, Inl e) \<Rightarrow> on_error e fs | (fs, Inr x) \<Rightarrow> on_ok x fs)"

definition cf_return :: "('e + 'a) \<Rightarrow> ('e, 'a) cf_op" where
  "cf_return r fs = (fs, r)"

definition cf_map_err :: "('e \<Rightarrow> 'f) \<Rightarrow> ('e, 'a) cf_op \<Rightarrow> ('f, 'a) cf_op" where
  "cf_map_err g m fs = (case m fs of (fs, r) \<Rightarrow> (fs, map_err g r))"

definition cf_device :: "('e, u64) cf_op" where
  "cf_device fs = (fs, Inr (cf_dev fs))"

text \<open>A closure whose error runs a clean-up.\<close>

definition cf_or_else :: "('e, 'a) cf_op \<Rightarrow> (clip_fs \<Rightarrow> clip_fs) \<Rightarrow> ('e, 'a) cf_op" where
  "cf_or_else m cleanup fs = (case m fs of (fs, Inr x) \<Rightarrow> (fs, Inr x) | (fs, Inl e) \<Rightarrow> (cleanup fs, Inl e))"

definition cf_call :: "call_kind \<Rightarrow> (os_error, 'a) cf_op \<Rightarrow> (os_error, 'a) cf_op" where
  "cf_call kind m fs =
     (case cf_fault fs kind (cf_calls fs) of
        Some text \<Rightarrow> (fs\<lparr>cf_calls := Suc (cf_calls fs)\<rparr>, Inl \<lparr>oe_kind = KindOther, oe_text = text\<rparr>)
      | None \<Rightarrow> m (fs\<lparr>cf_calls := Suc (cf_calls fs)\<rparr>))"

definition other_error :: "string \<Rightarrow> os_error" where
  "other_error message = \<lparr>oe_kind = KindOther, oe_text = ''kind=Other errno=None detail='' @ message\<rparr>"

text \<open>\<open>io_error\<close> of the store, whose errors are text.\<close>

definition store_io_error :: "string \<Rightarrow> os_error \<Rightarrow> string" where
  "store_io_error context error = context @ '': '' @ oe_text error"

definition cf_io :: "string \<Rightarrow> (os_error, 'a) cf_op \<Rightarrow> (string, 'a) cf_op" where
  "cf_io context = cf_map_err (store_io_error context)"

section \<open>System calls\<close>

text \<open>What happens to the other names of an inode.\<close>

definition on_inode :: "u64 \<Rightarrow> (clip_file \<Rightarrow> clip_file) \<Rightarrow> (string \<times> clip_file) list \<Rightarrow> (string \<times> clip_file) list" where
  "on_inode ino g = map (\<lambda>(name, f). (name, if fi_ino f = ino then g f else f))"

definition drop_link :: "clip_file \<Rightarrow> clip_file" where
  "drop_link f = f\<lparr>fi_links := fi_links f - 1\<rparr>"

definition unlink_entry :: "string \<Rightarrow> clip_file \<Rightarrow> (string \<times> clip_file) list \<Rightarrow> (string \<times> clip_file) list" where
  "unlink_entry name f entries = on_inode (fi_ino f) drop_link (filter (\<lambda>(n, _). n \<noteq> name) entries)"

definition cf_stat :: "string \<Rightarrow> (os_error, clip_file) cf_op" where
  "cf_stat name = cf_call InspectCall (\<lambda>fs. (fs, case cf_lookup name fs of None \<Rightarrow> Inl not_found | Some f \<Rightarrow> Inr f))"

definition cf_probe :: "(os_error, unit) cf_op" where
  "cf_probe = cf_call OtherCall (\<lambda>fs. (fs, Inr ()))"

text \<open>Opening for reading and, without following a symbolic link.\<close>

definition cf_open :: "string \<Rightarrow> (os_error, clip_file) cf_op" where
  "cf_open name = cf_call OtherCall (\<lambda>fs. (fs, case cf_lookup name fs of None \<Rightarrow> Inl not_found | Some f \<Rightarrow> Inr f))"

definition cf_open_nofollow :: "string \<Rightarrow> (os_error, clip_file) cf_op" where
  "cf_open_nofollow name = cf_call OtherCall (\<lambda>fs. (fs, case cf_lookup name fs of
       None \<Rightarrow> Inl not_found
     | Some f \<Rightarrow> if fi_kind f = SymbolicLink
         then Inl \<lparr>oe_kind = KindOther, oe_text = ''kind=FilesystemLoop errno=Some(40) detail=Too many levels of symbolic links (os error 40)''\<rparr>
         else Inr f))"

definition cf_create_new :: "string \<Rightarrow> (os_error, unit) cf_op" where
  "cf_create_new name = cf_call OtherCall (\<lambda>fs. case cf_lookup name fs of
       Some _ \<Rightarrow> (fs, Inl already_exists)
     | None \<Rightarrow> (fs\<lparr>cf_entries := (name, \<lparr>fi_kind = RegularFile, fi_bytes = [], fi_modified = cf_clock fs (cf_calls fs),
                 fi_ino = cf_inos fs (cf_calls fs), fi_links = 1, fi_uid = cf_uid fs\<rparr>) # cf_entries fs\<rparr>, Inr ()))"

definition cf_write :: "string \<Rightarrow> u8 list \<Rightarrow> (os_error, unit) cf_op" where
  "cf_write name bytes = cf_call OtherCall (\<lambda>fs. case cf_lookup name fs of
       None \<Rightarrow> (fs, Inr ())
     | Some f \<Rightarrow> (fs\<lparr>cf_entries := on_inode (fi_ino f) (\<lambda>f. f\<lparr>fi_bytes := fi_bytes f @ bytes,
           fi_modified := cf_clock fs (cf_calls fs)\<rparr>) (cf_entries fs)\<rparr>, Inr ()))"

definition cf_hard_link :: "string \<Rightarrow> string \<Rightarrow> (os_error, unit) cf_op" where
  "cf_hard_link from_name to_name = cf_call OtherCall (\<lambda>fs. case cf_lookup from_name fs of
       None \<Rightarrow> (fs, Inl not_found)
     | Some f \<Rightarrow> if cf_lookup to_name fs \<noteq> None then (fs, Inl already_exists)
         else (fs\<lparr>cf_entries := (to_name, f\<lparr>fi_links := Suc (fi_links f)\<rparr>)
             # on_inode (fi_ino f) (\<lambda>f. f\<lparr>fi_links := Suc (fi_links f)\<rparr>) (cf_entries fs)\<rparr>, Inr ()))"

definition cf_remove_file :: "string \<Rightarrow> (os_error, unit) cf_op" where
  "cf_remove_file name = cf_call OtherCall (\<lambda>fs. case cf_lookup name fs of
       None \<Rightarrow> (fs, Inl not_found)
     | Some f \<Rightarrow> if fi_kind f = DirectoryFile
         then (fs, Inl \<lparr>oe_kind = KindOther, oe_text = ''kind=IsADirectory errno=Some(21) detail=Is a directory (os error 21)''\<rparr>)
         else (fs\<lparr>cf_entries := unlink_entry name f (cf_entries fs)\<rparr>, Inr ()))"

text \<open>A rename takes the place of a file under the new name; two names of one inode are left alone.\<close>

definition rename_entry :: "string \<Rightarrow> string \<Rightarrow> (string \<times> clip_file) list \<Rightarrow> (string \<times> clip_file) list" where
  "rename_entry from_name to_name = map (\<lambda>(n, f). (if n = from_name then to_name else n, f))"

definition cf_rename :: "string \<Rightarrow> string \<Rightarrow> (os_error, unit) cf_op" where
  "cf_rename from_name to_name = cf_call OtherCall (\<lambda>fs. case cf_lookup from_name fs of
       None \<Rightarrow> (fs, Inl not_found)
     | Some f \<Rightarrow>
         (case cf_lookup to_name fs of
            None \<Rightarrow> (fs\<lparr>cf_entries := rename_entry from_name to_name (cf_entries fs)\<rparr>, Inr ())
          | Some g \<Rightarrow>
              if fi_ino f = fi_ino g then (fs, Inr ())
              else if fi_kind g = DirectoryFile
              then (fs, Inl \<lparr>oe_kind = KindOther, oe_text = ''kind=IsADirectory errno=Some(21) detail=Is a directory (os error 21)''\<rparr>)
              else (fs\<lparr>cf_entries := rename_entry from_name to_name (unlink_entry to_name g (cf_entries fs))\<rparr>, Inr ())))"

definition cf_rename_noreplace :: "string \<Rightarrow> string \<Rightarrow> (os_error, unit) cf_op" where
  "cf_rename_noreplace from_name to_name = cf_call OtherCall (\<lambda>fs. case cf_lookup from_name fs of
       None \<Rightarrow> (fs, Inl not_found)
     | Some f \<Rightarrow> if cf_lookup to_name fs \<noteq> None then (fs, Inl already_exists)
         else (fs\<lparr>cf_entries := rename_entry from_name to_name (cf_entries fs)\<rparr>, Inr ()))"

section \<open>The store's own files\<close>

definition STORE_MARKER :: string where "STORE_MARKER = ''.redunar-replay-store-v1''"
definition STORE_MARKER_CONTENTS :: "u8 list" where
  "STORE_MARKER_CONTENTS = ascii (''redunar-replay-store-v1'' @ [newline])"

definition cf_sync_directory :: "(os_error, unit) cf_op" where
  "cf_sync_directory = cf_then cf_probe (\<lambda>_. cf_probe)"

definition cf_stat_directory :: "(os_error, unit) cf_op" where
  "cf_stat_directory = cf_call InspectCall (\<lambda>fs. (fs, if cf_directory fs = DirectoryMissing then Inl not_found else Inr ()))"

definition validate_store :: "(string, unit) cf_op" where
  "validate_store =
     cf_then (cf_io ''could not inspect replay store directory'' cf_stat_directory) (\<lambda>_ fs.
       if cf_directory fs \<noteq> DirectoryPresent then (fs, Inl ''replay store path is not a regular directory'')
       else
         cf_then (cf_io ''could not inspect replay ownership marker'' (cf_stat STORE_MARKER)) (\<lambda>marker_metadata.
           if fi_kind marker_metadata \<noteq> RegularFile \<or> length (fi_bytes marker_metadata) \<noteq> length STORE_MARKER_CONTENTS
           then cf_return (Inl ''replay ownership marker is invalid'')
           else
             cf_then (cf_io ''could not read replay ownership marker''
                 (cf_then (cf_open STORE_MARKER) (\<lambda>f. cf_then cf_probe (\<lambda>_. cf_return (Inr (take 128 (fi_bytes f)))))))
               (\<lambda>contents. cf_return (if contents \<noteq> STORE_MARKER_CONTENTS then Inl ''replay ownership marker is invalid''
                             else Inr ()))) fs)"

definition clip_temporary_name :: "nat \<Rightarrow> u64 \<Rightarrow> string" where
  "clip_temporary_name process i = ''.redunar-replay-'' @ show_nat process @ ''-'' @ show_nat (unat i) @ ''.tmp''"

fun temporary_loop :: "nat \<Rightarrow> (string, string) cf_op" where
  "temporary_loop 0 fs = (fs, Inl ''could not allocate a replay temporary file'')"
| "temporary_loop (Suc n) fs =
     (let name = clip_temporary_name (cf_process fs) (cf_next_file fs)
      in case cf_create_new name (fs\<lparr>cf_next_file := cf_next_file fs + 1\<rparr>) of
           (fs, Inr _) \<Rightarrow> (fs, Inr name)
         | (fs, Inl error) \<Rightarrow>
             if oe_kind error = KindAlreadyExists then temporary_loop n fs
             else (fs, Inl (store_io_error ''could not create replay temporary file'' error)))"

definition create_temporary :: "(string, string) cf_op" where
  "create_temporary = temporary_loop 32"

section \<open>Label files\<close>

definition text_of :: "u8 list \<Rightarrow> string" where
  "text_of bytes = map (\<lambda>b. char_of (unat b)) bytes"

definition label_new :: "string \<Rightarrow> u64 \<Rightarrow> clip_file \<Rightarrow> clip_label" where
  "label_new original dev f = \<lparr>lb_original = original, lb_favorite = False, lb_dev = dev, lb_ino = fi_ino f\<rparr>"

definition label_matches :: "u64 \<Rightarrow> clip_file \<Rightarrow> clip_label \<Rightarrow> bool" where
  "label_matches dev f label \<longleftrightarrow> fi_kind f = RegularFile \<and> fi_links f = 1 \<and> lb_dev label = dev \<and> lb_ino label = fi_ino f"

text \<open>What \<open>load_from\<close> does with the open file.\<close>

definition read_labels :: "clip_file \<Rightarrow> (os_error, clip_labels) cf_op" where
  "read_labels meta =
     cf_then cf_probe (\<lambda>_.
       if fi_kind meta \<noteq> RegularFile \<or> fi_links meta \<noteq> 1 \<or> length (fi_bytes meta) > unat LABEL_MAX_BYTES
       then cf_return (Inl (other_error invalid_labels))
       else
         cf_then cf_stat_directory (\<lambda>_ fs.
           if fi_uid meta \<noteq> cf_uid fs then (fs, Inl (other_error invalid_labels))
           else
             cf_then cf_probe (\<lambda>_.
               cf_return (if chars (text_of (fi_bytes meta)) = None
                 then Inl \<lparr>oe_kind = KindOther,
                        oe_text = ''kind=InvalidData errno=None detail=stream did not contain valid UTF-8''\<rparr>
                 else map_err other_error (parse_labels (text_of (fi_bytes meta))))) fs))"

definition load_from :: "string \<Rightarrow> (os_error, clip_labels) cf_op" where
  "load_from file_name =
     cf_match (cf_open_nofollow file_name)
       (\<lambda>e. cf_return (if oe_kind e = KindNotFound then Inr [] else Inl e))
       read_labels"

definition save_to :: "string \<Rightarrow> clip_labels \<Rightarrow> (os_error, unit) cf_op" where
  "save_to file_name labels =
     (let text = labels_text labels
      in if length labels > MAX_LABEL_ENTRIES then cf_return (Inl (other_error invalid_labels))
         else if length text > unat LABEL_MAX_BYTES then cf_return (Inl (other_error invalid_labels))
         else
           cf_then (cf_map_err other_error create_temporary) (\<lambda>temporary.
             cf_or_else
               (cf_then (cf_write temporary (ascii text)) (\<lambda>_. cf_then cf_probe (\<lambda>_.
                  cf_then (cf_rename temporary file_name) (\<lambda>_. cf_sync_directory))))
               (\<lambda>fs. fst (cf_remove_file temporary fs))))"

fun label_prune :: "clip_labels \<Rightarrow> (string, clip_labels) cf_op" where
  "label_prune [] = cf_return (Inr [])"
| "label_prune ((name, label) # labels) =
     cf_match (cf_stat name)
       (\<lambda>_. label_prune labels)
       (\<lambda>f. cf_then cf_device (\<lambda>dev. cf_then (label_prune labels) (\<lambda>rest.
          cf_return (Inr (if label_matches dev f label then (name, label) # rest else rest)))))"

end
