(* ===== verification/Clip_Store.thy ===== *)
theory Clip_Store
  imports Clip_Files Mp4 "HOL-Library.Product_Lexorder"
begin

text \<open>
  The store of saved clips, \<open>redunar-daemon/src/replay_store.rs\<close> with \<open>replay_store/trash.rs\<close> and
  \<open>replay_store/named_export.rs\<close>: opening, scanning, renaming, favorites, the trash, deletion, saving with
  its quota, and exports that keep every clip. A mutex serialises the operations; only the
  writing of a new clip into its temporary file happens outside, so saving is two operations. The
  thumbnail cache is a call that may fail. The archive directory and the free-space query are not modelled.
\<close>

definition MAX_DIRECTORY_ENTRIES :: nat where "MAX_DIRECTORY_ENTRIES = 4096"
definition MINIMUM_FILESYSTEM_RESERVE_BYTES :: u64 where "MINIMUM_FILESYSTEM_RESERVE_BYTES = 512 * 1024 * 1024"
definition MATROSKA_MAGIC :: "u8 list" where "MATROSKA_MAGIC = [0x1a, 0x45, 0xdf, 0xa3]"
definition MP4_FILE_TYPE_BOX :: "u8 list" where "MP4_FILE_TYPE_BOX = ascii ''ftyp''"

record clip_store =
  ks_maximum_clip_bytes :: u64
  ks_storage_limit_bytes :: u64

record owned_clip =
  oc_name :: string
  oc_bytes :: u64
  oc_modified :: int
  oc_original :: string
  oc_favorite :: bool
  oc_trashed :: bool

record clip_entry =
  ey_file_name :: string
  ey_bytes :: u64
  ey_modified_unix_ns :: nat
  ey_original_file_name :: string
  ey_favorite :: bool

record stored_clip =
  sv_name :: string
  sv_bytes :: u64
  sv_clips_removed :: u32
  sv_bytes_removed :: u64

section \<open>Opening\<close>

definition has_required_free_space :: "u64 \<Rightarrow> u64 \<Rightarrow> bool" where
  "has_required_free_space available expected_clip_bytes =
     (case checked_add expected_clip_bytes MINIMUM_FILESYSTEM_RESERVE_BYTES of
        None \<Rightarrow> False | Some required \<Rightarrow> available \<ge> required)"

definition validate_store_configuration :: "string \<Rightarrow> u64 \<Rightarrow> u64 \<Rightarrow> string + unit" where
  "validate_store_configuration directory maximum_clip_bytes storage_limit_bytes =
     (if \<not> (directory \<noteq> [] \<and> hd directory = CHR ''/'') then Inl ''replay store directory must be absolute''
      else if maximum_clip_bytes = 0 \<or> storage_limit_bytes = 0 \<or> maximum_clip_bytes > storage_limit_bytes
      then Inl ''replay store budget is invalid''
      else Inr ())"

definition write_marker :: "(string, unit) cf_op" where
  "write_marker =
     cf_then create_temporary (\<lambda>temporary.
       cf_or_else (cf_io ''could not create replay ownership marker''
           (cf_then (cf_write temporary STORE_MARKER_CONTENTS) (\<lambda>_. cf_then cf_probe (\<lambda>_.
              cf_then (cf_hard_link temporary STORE_MARKER) (\<lambda>_. cf_then (cf_remove_file temporary) (\<lambda>_.
                cf_sync_directory))))))
         (\<lambda>fs. fst (cf_remove_file temporary fs)))"

definition create_dir_all :: "(os_error, unit) cf_op" where
  "create_dir_all = cf_call OtherCall (\<lambda>fs. (fs\<lparr>cf_directory := DirectoryPresent\<rparr>, Inr ()))"

definition directory_has_entries :: "(string, bool) cf_op" where
  "directory_has_entries =
     cf_io ''could not inspect replay store contents''
       (cf_then cf_probe (\<lambda>_. cf_then cf_probe (\<lambda>_ fs. (fs, Inr (cf_entries fs \<noteq> [])))))"

definition initialize_store :: "(string, unit) cf_op" where
  "initialize_store =
     cf_then
       (cf_match cf_stat_directory
          (\<lambda>e. if oe_kind e = KindNotFound then cf_io ''could not create replay store directory'' create_dir_all
               else cf_return (Inl (store_io_error ''could not inspect replay store directory'' e)))
          (\<lambda>_ fs. (fs, if cf_directory fs = DirectoryPresent then Inr () else Inl ''replay store path is not a regular directory'')))
       (\<lambda>_. cf_then (cf_io ''could not secure replay store directory'' cf_probe) (\<lambda>_.
          cf_match (cf_stat STORE_MARKER)
            (\<lambda>e. if oe_kind e \<noteq> KindNotFound then cf_return (Inl (store_io_error ''could not inspect replay ownership marker'' e))
                 else cf_then directory_has_entries (\<lambda>busy.
                   if busy then cf_return (Inl ''refusing to claim a non-empty replay directory without Redunar's ownership marker'')
                   else cf_then write_marker (\<lambda>_. validate_store)))
            (\<lambda>_. validate_store)))"

definition open_with_limits :: "string \<Rightarrow> u64 \<Rightarrow> u64 \<Rightarrow> (string, clip_store) cf_op" where
  "open_with_limits directory maximum_clip_bytes storage_limit_bytes =
     cf_then (cf_return (validate_store_configuration directory maximum_clip_bytes storage_limit_bytes)) (\<lambda>_.
       cf_then initialize_store (\<lambda>_.
         cf_return (Inr \<lparr>ks_maximum_clip_bytes = maximum_clip_bytes, ks_storage_limit_bytes = storage_limit_bytes\<rparr>)))"

definition open_existing :: "string \<Rightarrow> u64 \<Rightarrow> u64 \<Rightarrow> (string, clip_store) cf_op" where
  "open_existing directory maximum_ring_bytes storage_limit_bytes =
     cf_then (cf_return (validate_store_configuration directory maximum_ring_bytes storage_limit_bytes)) (\<lambda>_.
       cf_then validate_store (\<lambda>_.
         cf_return (Inr \<lparr>ks_maximum_clip_bytes = maximum_ring_bytes, ks_storage_limit_bytes = storage_limit_bytes\<rparr>)))"

section \<open>Owned clips\<close>

definition owned_metadata :: "string \<Rightarrow> (string, clip_file \<times> clip_label) cf_op" where
  "owned_metadata name =
     (if \<not> valid_name name then cf_return (Inl ''Invalid replay clip identifier'')
      else
        cf_then (cf_io ''the clip is unavailable'' (cf_stat name)) (\<lambda>metadata.
          if fi_kind metadata \<noteq> RegularFile \<or> fi_links metadata \<noteq> 1
          then cf_return (Inl ''The clip is not an owned regular video file'')
          else
            cf_then (cf_io ''could not read replay filename metadata'' (load_from LABEL_FILE)) (\<lambda>registry fs.
              (fs, case map_of registry name of
                 Some label \<Rightarrow>
                   if label_matches (cf_dev fs) metadata label then Inr (metadata, label)
                   else if is_owned_clip_name name then Inr (metadata, label_new name (cf_dev fs) metadata)
                   else Inl ''The file is not in Redunar's owned replay inventory''
               | None \<Rightarrow>
                   if is_owned_clip_name name then Inr (metadata, label_new name (cf_dev fs) metadata)
                   else Inl ''The file is not in Redunar's owned replay inventory''))))"

text \<open>The body of the directory scan, and the scan.\<close>

definition scanned_clip :: "u64 \<Rightarrow> clip_labels \<Rightarrow> clip_labels \<Rightarrow> string \<Rightarrow> clip_file \<Rightarrow> owned_clip option" where
  "scanned_clip dev trash labels name f =
     (if fi_kind f = RegularFile \<and> fi_links f = 1 then
        (let label = (case map_of labels name of
               Some l \<Rightarrow> if label_matches dev f l then Some l else None | None \<Rightarrow> None)
         in if \<not> is_owned_clip_name name \<and> label = None then None
            else Some \<lparr>oc_name = name, oc_bytes = len_u64 (fi_bytes f), oc_modified = fi_modified f,
                   oc_original = (case label of None \<Rightarrow> name | Some l \<Rightarrow> lb_original l),
                   oc_favorite = (case label of None \<Rightarrow> False | Some l \<Rightarrow> lb_favorite l),
                   oc_trashed = (case map_of trash name of None \<Rightarrow> False | Some l \<Rightarrow> label_matches dev f l)\<rparr>)
      else None)"

fun scan_loop :: "clip_labels \<Rightarrow> clip_labels \<Rightarrow> nat \<Rightarrow> string list \<Rightarrow> owned_clip list \<Rightarrow> (string, owned_clip list) cf_op" where
  "scan_loop trash labels index [] clips fs = (fs, Inr clips)"
| "scan_loop trash labels index (name # names) clips fs =
     (if index \<ge> MAX_DIRECTORY_ENTRIES then (fs, Inl ''replay store contains too many directory entries'')
      else
        cf_then (cf_io ''could not scan replay store'' cf_probe) (\<lambda>_ fs.
          if \<not> is_owned_clip_name name \<and> map_of labels name = None
          then scan_loop trash labels (Suc index) names clips fs
          else
            cf_then (cf_io ''could not inspect replay clip'' (cf_stat name)) (\<lambda>f fs.
              scan_loop trash labels (Suc index) names
                (case scanned_clip (cf_dev fs) trash labels name f of None \<Rightarrow> clips | Some c \<Rightarrow> clips @ [c]) fs) fs) fs)"

definition scan_owned_clips :: "(string, owned_clip list) cf_op" where
  "scan_owned_clips =
     cf_then (cf_io ''could not read Replay trash bin'' (load_from TRASH_FILE)) (\<lambda>trash.
       cf_then (cf_io ''could not read replay filename metadata'' (load_from LABEL_FILE)) (\<lambda>labels.
         cf_then (cf_io ''could not scan replay store'' cf_probe) (\<lambda>_ fs.
           scan_loop trash labels 0 (map fst (cf_entries fs)) [] fs)))"

text \<open>\<open>inventory_state\<close> sorts descending by time and name; names are distinct, so that is the reverse of ascending.\<close>

definition inventory_state :: "bool \<Rightarrow> (string, clip_entry list) cf_op" where
  "inventory_state trashed =
     cf_then validate_store (\<lambda>_. cf_then scan_owned_clips (\<lambda>clips.
       cf_return (Inr (map (\<lambda>c. \<lparr>ey_file_name = oc_name c, ey_bytes = oc_bytes c,
           ey_modified_unix_ns = nat (oc_modified c), ey_original_file_name = oc_original c, ey_favorite = oc_favorite c\<rparr>)
         (filter (\<lambda>c. oc_trashed c = trashed) (rev (sort_key (\<lambda>c. (oc_modified c, oc_name c)) clips)))))))"

definition total_bytes :: "owned_clip list \<Rightarrow> string + u64" where
  "total_bytes clips = try_fold (\<lambda>total clip. ok_or (checked_add total (oc_bytes clip)) ''replay store size overflows'') 0 clips"

record storage_status =
  ss_initialized :: bool
  ss_owned_clips :: u32
  ss_used_bytes :: u64
  ss_storage_limit_bytes :: u64
  ss_bytes_over_limit :: u64

definition inspect_with_limits :: "string \<Rightarrow> u64 \<Rightarrow> u64 \<Rightarrow> (string, storage_status) cf_op" where
  "inspect_with_limits directory maximum_clip_bytes storage_limit_bytes =
     cf_then (cf_return (validate_store_configuration directory maximum_clip_bytes storage_limit_bytes)) (\<lambda>_.
       cf_match cf_stat_directory
         (\<lambda>e. cf_return (if oe_kind e = KindNotFound
           then Inr \<lparr>ss_initialized = False, ss_owned_clips = 0, ss_used_bytes = 0,
                  ss_storage_limit_bytes = storage_limit_bytes, ss_bytes_over_limit = 0\<rparr>
           else Inl (store_io_error ''could not inspect replay store directory'' e)))
         (\<lambda>_. cf_then validate_store (\<lambda>_. cf_then scan_owned_clips (\<lambda>clips.
             cf_return (map_sum id (\<lambda>used_bytes. \<lparr>ss_initialized = True,
                 ss_owned_clips = unwrap_or (try_from (length clips)) (- 1), ss_used_bytes = used_bytes,
                 ss_storage_limit_bytes = storage_limit_bytes,
                 ss_bytes_over_limit = saturating_sub used_bytes storage_limit_bytes\<rparr>) (total_bytes clips))))))"

section \<open>Names, favorites and trash\<close>

definition require_live :: "string \<Rightarrow> clip_file \<Rightarrow> (string, unit) cf_op" where
  "require_live name metadata =
     cf_then (cf_io ''could not read Replay trash bin'' (load_from TRASH_FILE)) (\<lambda>bin fs.
       (fs, case map_of bin name of
          Some l \<Rightarrow> if label_matches (cf_dev fs) metadata l then Inl ''Restore the clip from the trash bin first'' else Inr ()
        | None \<Rightarrow> Inr ()))"

definition same_file :: "clip_file \<Rightarrow> clip_file \<Rightarrow> bool" where
  "same_file current metadata \<longleftrightarrow> fi_kind current = RegularFile \<and> fi_links current = 1 \<and> fi_ino current = fi_ino metadata"

text \<open>The new name is authorised in the label file before the file gets it.\<close>

definition rename_checked :: "string \<Rightarrow> string \<Rightarrow> clip_file \<Rightarrow> (string, unit) cf_op" where
  "rename_checked file_name new_name metadata =
     cf_then (cf_io ''clip changed before rename'' (cf_stat file_name)) (\<lambda>current.
       if \<not> same_file current metadata then cf_return (Inl ''The clip changed. Reload before renaming it.'')
       else
         cf_then (cf_io ''could not rename replay clip'' (cf_rename_noreplace file_name new_name)) (\<lambda>_.
           cf_io ''could not flush renamed replay clip'' cf_sync_directory))"

definition rename_labelled :: "string \<Rightarrow> string \<Rightarrow> clip_file \<Rightarrow> clip_labels \<Rightarrow> (string, unit) cf_op" where
  "rename_labelled file_name new_name metadata registry =
     cf_then (cf_io ''could not save replay filename metadata'' (save_to LABEL_FILE registry)) (\<lambda>_.
       rename_checked file_name new_name metadata)"

definition rename_clip :: "string \<Rightarrow> string \<Rightarrow> (string, unit) cf_op" where
  "rename_clip file_name new_name =
     (if \<not> valid_name new_name \<or> (is_owned_clip_name new_name \<and> new_name \<noteq> file_name)
        \<or> path_extension file_name \<noteq> path_extension new_name
      then cf_return (Inl ''Use a valid filename and retain the original video type'')
      else
        cf_then validate_store (\<lambda>_. cf_then (owned_metadata file_name) (\<lambda>(metadata, label).
          cf_then (require_live file_name metadata) (\<lambda>_.
            if file_name = new_name then cf_return (Inr ())
            else
              cf_match (cf_stat new_name)
                (\<lambda>_.
                  cf_then (cf_io ''could not read replay filename metadata'' (load_from LABEL_FILE)) (\<lambda>registry.
                  cf_then (label_prune registry) (\<lambda>registry.
                    rename_labelled file_name new_name metadata (bt_insert new_name label registry))))
                (\<lambda>_. cf_return (Inl ''A clip with that filename already exists''))))))"

definition set_favorite :: "string \<Rightarrow> bool \<Rightarrow> (string, unit) cf_op" where
  "set_favorite file_name favorite =
     cf_then validate_store (\<lambda>_. cf_then (owned_metadata file_name) (\<lambda>(metadata, label).
       cf_then (require_live file_name metadata) (\<lambda>_.
         cf_then (cf_io ''could not read replay filename metadata'' (load_from LABEL_FILE)) (\<lambda>registry.
         cf_then (label_prune registry) (\<lambda>registry.
           cf_io ''could not save favorite''
             (save_to LABEL_FILE (bt_insert file_name (label\<lparr>lb_favorite := favorite\<rparr>) registry)))))))"

definition set_trashed :: "string \<Rightarrow> bool \<Rightarrow> (string, unit) cf_op" where
  "set_trashed file_name trashed =
     cf_then validate_store (\<lambda>_. cf_then (owned_metadata file_name) (\<lambda>(metadata, label).
       cf_then (cf_io ''could not read Replay trash bin'' (load_from TRASH_FILE)) (\<lambda>bin fs.
         if (case map_of bin file_name of Some l \<Rightarrow> label_matches (cf_dev fs) metadata l | None \<Rightarrow> False) = trashed
         then (fs, Inr ())
         else
           cf_then (label_prune bin) (\<lambda>bin.
             cf_io ''could not save Replay trash bin''
               (save_to TRASH_FILE (if trashed then bt_insert file_name label bin else bt_remove file_name bin))) fs)))"

section \<open>Deletion and quota\<close>

definition thumbnails_remove :: "(string, unit) cf_op" where
  "thumbnails_remove = cf_io ''could not clear Replay thumbnails'' cf_probe"

definition delete_clip :: "string \<Rightarrow> (string, clip_entry) cf_op" where
  "delete_clip file_name =
     cf_then validate_store (\<lambda>_. cf_then (owned_metadata file_name) (\<lambda>(metadata, label).
       if fi_kind metadata \<noteq> RegularFile then cf_return (Inl ''replay clip deletion target is not a regular file'')
       else cf_then thumbnails_remove (\<lambda>_.
         cf_then (cf_io ''could not delete Redunar replay clip'' (cf_remove_file file_name)) (\<lambda>_.
           cf_then (cf_io ''could not flush replay clip deletion'' cf_sync_directory) (\<lambda>_.
             cf_return (Inr \<lparr>ey_file_name = file_name, ey_bytes = len_u64 (fi_bytes metadata),
               ey_modified_unix_ns = nat (fi_modified metadata), ey_original_file_name = lb_original label,
               ey_favorite = lb_favorite label\<rparr>))))))"

definition quota_order :: "string option \<Rightarrow> owned_clip \<Rightarrow> bool \<times> int \<times> string" where
  "quota_order protected c = (protected = Some (oc_name c), oc_modified c, oc_name c)"

fun quota_loop :: "u64 \<Rightarrow> owned_clip list \<Rightarrow> u64 \<Rightarrow> u32 \<Rightarrow> u64 \<Rightarrow> (string, u32 \<times> u64) cf_op" where
  "quota_loop limit [] held removed removed_bytes fs = (fs, Inr (removed, removed_bytes))"
| "quota_loop limit (clip # clips) held removed removed_bytes fs =
     (if held \<le> limit then (fs, Inr (removed, removed_bytes))
      else
        cf_then (cf_io ''could not inspect old replay clip'' (cf_stat (oc_name clip))) (\<lambda>_.
          cf_then thumbnails_remove (\<lambda>_.
            cf_then (cf_io ''could not remove an old Redunar replay clip'' (cf_remove_file (oc_name clip))) (\<lambda>_.
              quota_loop limit clips (saturating_sub held (oc_bytes clip)) (saturating_add removed 1)
                (saturating_add removed_bytes (oc_bytes clip))))) fs)"

definition enforce_quota :: "owned_clip list \<Rightarrow> u64 \<Rightarrow> string option \<Rightarrow> (string, u32 \<times> u64) cf_op" where
  "enforce_quota clips storage_limit_bytes protected =
     (let clips = sort_key (quota_order protected) clips
      in cf_then (cf_return (total_bytes clips)) (\<lambda>total.
           cf_then (quota_loop storage_limit_bytes clips total 0 0) (\<lambda>(removed, removed_bytes).
             if removed > 0
             then cf_then (cf_io ''could not flush replay quota cleanup'' cf_sync_directory) (\<lambda>_.
                    cf_return (Inr (removed, removed_bytes)))
             else cf_return (Inr (removed, removed_bytes)))))"

definition store_enforce_quota :: "clip_store \<Rightarrow> (string, u32 \<times> u64) cf_op" where
  "store_enforce_quota store =
     cf_then validate_store (\<lambda>_. cf_then scan_owned_clips (\<lambda>owned.
       enforce_quota owned (ks_storage_limit_bytes store) None))"

section \<open>Saving\<close>

definition pad9 :: "nat \<Rightarrow> string" where
  "pad9 n = replicate (9 - length (show_nat n)) (CHR ''0'') @ show_nat n"

definition clip_name :: "nat \<Rightarrow> nat \<Rightarrow> u64 \<Rightarrow> string \<Rightarrow> string" where
  "clip_name seconds nanoseconds i extension =
     CLIP_PREFIX @ show_nat seconds @ ''-'' @ pad9 nanoseconds @ ''-'' @ show_nat (unat i) @ ''.'' @ extension"

fun commit_loop :: "nat \<Rightarrow> nat \<Rightarrow> string \<Rightarrow> string \<Rightarrow> (string, string) cf_op" where
  "commit_loop 0 now temporary extension fs = (fs, Inl ''could not allocate a replay clip name'')"
| "commit_loop (Suc n) now temporary extension fs =
     (let name = clip_name (now div 10 ^ 9) (now mod 10 ^ 9) (cf_next_file fs) extension
      in case cf_hard_link temporary name (fs\<lparr>cf_next_file := cf_next_file fs + 1\<rparr>) of
           (fs, Inr _) \<Rightarrow>
             cf_then (cf_map_err (\<lambda>error. ''replay clip committed but temporary link removal failed: '' @ oe_text error
                 @ ''; clip='' @ name) (cf_remove_file temporary)) (\<lambda>_. cf_return (Inr name)) fs
         | (fs, Inl error) \<Rightarrow>
             if oe_kind error = KindAlreadyExists then commit_loop n now temporary extension fs
             else (fs, Inl (store_io_error ''could not commit replay clip'' error)))"

definition commit_temporary :: "string \<Rightarrow> string \<Rightarrow> (string, string) cf_op" where
  "commit_temporary temporary extension fs =
     (let now = cf_clock fs (cf_calls fs)
      in if now < 0 then (fs, Inl ''system clock is before the Unix epoch'')
         else commit_loop 32 (nat now) temporary extension fs)"

text \<open>The lock is held while the temporary file is created, and again from when it is written until the end. What the
  writer leaves in the file, also when it fails, is \<open>contents\<close>.\<close>

definition save_begin :: "(string, string) cf_op" where
  "save_begin = cf_then validate_store (\<lambda>_. create_temporary)"

definition written_file :: "string \<Rightarrow> u8 list \<Rightarrow> clip_fs \<Rightarrow> clip_fs" where
  "written_file name contents fs = (case cf_lookup name fs of
       None \<Rightarrow> fs
     | Some f \<Rightarrow> fs\<lparr>cf_entries := on_inode (fi_ino f) (\<lambda>f. f\<lparr>fi_bytes := contents,
           fi_modified := cf_clock fs (cf_calls fs)\<rparr>) (cf_entries fs)\<rparr>)"

definition discard :: "string \<Rightarrow> string \<Rightarrow> (string, 'a) cf_op" where
  "discard temporary error fs = (fst (cf_remove_file temporary fs), Inl error)"

definition or_discard :: "string \<Rightarrow> (string, 'a) cf_op \<Rightarrow> ('a \<Rightarrow> (string, 'b) cf_op) \<Rightarrow> (string, 'b) cf_op" where
  "or_discard temporary m = cf_match m (discard temporary)"

definition fits_beside :: "clip_store \<Rightarrow> owned_clip list \<Rightarrow> u64 \<Rightarrow> string \<Rightarrow> string + unit" where
  "fits_beside store owned bytes refusal =
     and_then (total_bytes owned) (\<lambda>used_bytes.
       case checked_add used_bytes bytes of
         None \<Rightarrow> Inl refusal
       | Some after \<Rightarrow> if after > ks_storage_limit_bytes store then Inl refusal else Inr ())"

definition save_finish :: "clip_store \<Rightarrow> replay_output_format \<Rightarrow> bool \<Rightarrow> string \<Rightarrow> string + u64 \<Rightarrow> (string, stored_clip) cf_op" where
  "save_finish store output_format preserve_existing temporary result =
     or_discard temporary (cf_return result) (\<lambda>bytes.
     or_discard temporary (cf_then validate_store (\<lambda>_. scan_owned_clips)) (\<lambda>owned.
     or_discard temporary (cf_return (if preserve_existing
         then fits_beside store owned bytes ''trimmed clip does not fit without removing an existing replay'' else Inr ())) (\<lambda>_.
     or_discard temporary (cf_io ''could not flush replay temporary file'' cf_probe) (\<lambda>_.
     or_discard temporary (commit_temporary temporary (format_extension output_format)) (\<lambda>destination.
       cf_then (cf_map_err (\<lambda>error. ''replay clip committed but directory flush failed: '' @ oe_text error @ ''; clip=''
           @ destination) cf_sync_directory) (\<lambda>_.
       cf_then (cf_io ''could not inspect committed replay clip'' (cf_stat destination)) (\<lambda>metadata.
       cf_then (if preserve_existing then cf_return (Inr (0, 0))
                else cf_map_err (\<lambda>error. ''replay clip saved but quota cleanup failed: '' @ error @ ''; clip='' @ destination)
                  (enforce_quota (owned @ [\<lparr>oc_name = destination, oc_bytes = bytes, oc_modified = fi_modified metadata,
                       oc_original = destination, oc_favorite = False, oc_trashed = False\<rparr>])
                     (ks_storage_limit_bytes store) (Some destination))) (\<lambda>(removed, removed_bytes).
         cf_return (Inr \<lparr>sv_name = destination, sv_bytes = bytes, sv_clips_removed = removed,
           sv_bytes_removed = removed_bytes\<rparr>)))))))))"

definition save_generated :: "clip_store \<Rightarrow> replay_output_format \<Rightarrow> bool \<Rightarrow> (string + u64) \<times> u8 list \<Rightarrow> (string, stored_clip) cf_op" where
  "save_generated store output_format preserve_existing written =
     cf_then save_begin (\<lambda>temporary fs.
       save_finish store output_format preserve_existing temporary (fst written) (written_file temporary (snd written) fs))"

section \<open>What is saved\<close>

text \<open>The disk under the temporary file is a \<open>sink\<close>; the bounded writer in front of it refuses a buffer that would pass the
  clip budget.\<close>

definition bounded_clip_writer :: "u64 \<Rightarrow> sink \<Rightarrow> sink" where
  "bounded_clip_writer limit disk contents buffer =
     (if saturating_add (len_u64 contents) (len_u64 buffer) > limit
      then Some ''replay container exceeds its configured byte budget''
      else disk contents buffer)"

primrec matroska_error_text :: "matroska_error \<Rightarrow> string" where
  "matroska_error_text EmptyRing = ''replay ring contains no encoded video''"
| "matroska_error_text MissingInitialKeyframe = ''replay clip does not start at a keyframe''"
| "matroska_error_text InvalidMuxPacket = ''replay packet cannot be muxed''"
| "matroska_error_text MuxTimestampOverflow = ''replay clip timestamp overflows''"
| "matroska_error_text ContainerTooLarge = ''replay container exceeds EBML limits''"
| "matroska_error_text (Io e) = ''could not write replay container: '' @ e"

primrec mp4_error_text :: "mp4_error \<Rightarrow> string" where
  "mp4_error_text Mp4EmptyRing = ''replay ring contains no encoded video''"
| "mp4_error_text Mp4MissingInitialKeyframe = ''replay clip does not start at a keyframe''"
| "mp4_error_text Mp4UnsupportedCodec = ''MP4 Replay currently requires H.264''"
| "mp4_error_text Mp4InvalidPacket = ''replay packet cannot be muxed''"
| "mp4_error_text Mp4TimestampOverflow = ''replay clip timestamp overflows''"
| "mp4_error_text Mp4ContainerTooLarge = ''replay container exceeds MP4 limits''"
| "mp4_error_text (Mp4Io e) = ''could not write replay container: '' @ e"

text \<open>The outcome of a muxer: what it returned, and what is in the file; a failed one leaves \<open>partial\<close>.\<close>

definition muxed :: "('e \<Rightarrow> string) \<Rightarrow> u8 list \<Rightarrow> 'e + u64 \<times> u8 list \<Rightarrow> (string + u64) \<times> u8 list" where
  "muxed text partial r = (case r of Inl e \<Rightarrow> (Inl (text e), partial) | Inr (bytes, contents) \<Rightarrow> (Inr bytes, contents))"

definition hard_limit :: "clip_store \<Rightarrow> u64" where
  "hard_limit store = min (ks_maximum_clip_bytes store) (ks_storage_limit_bytes store)"

definition save_video_only_as :: "clip_store \<Rightarrow> sink \<Rightarrow> u8 list \<Rightarrow> replay_video_stream \<Rightarrow> replay_ring \<Rightarrow> replay_output_format \<Rightarrow>
    (string, stored_clip) cf_op" where
  "save_video_only_as store disk partial stream ring output_format =
     (let bounded = bounded_clip_writer (hard_limit store) disk
      in save_generated store output_format False (case output_format of
           Matroska \<Rightarrow> muxed (\<lambda>e. ''could not finalize video-only Matroska replay: '' @ matroska_error_text e) partial
             (map_sum id (map_prod ms_bytes_written id) (write_video_only_matroska bounded stream ring))
         | Mp4 \<Rightarrow> muxed (\<lambda>e. ''could not finalize video-only MP4 replay: '' @ mp4_error_text e) partial
             (map_sum id (map_prod m4_bytes_written id) (write_video_only_mp4 bounded stream ring))))"

definition in_video_window :: "u64 \<Rightarrow> u64 \<Rightarrow> encoded_opus_packet \<Rightarrow> bool" where
  "in_video_window start stop packet \<longleftrightarrow> ao_timestamp_ns packet \<ge> start \<and> ao_timestamp_ns packet < stop"

definition save_with_audio_tracks_as :: "clip_store \<Rightarrow> sink \<Rightarrow> u8 list \<Rightarrow> replay_video_stream \<Rightarrow> replay_ring \<Rightarrow>
    replay_audio_tracks \<Rightarrow> replay_output_format \<Rightarrow> (string, stored_clip) cf_op" where
  "save_with_audio_tracks_as store disk partial stream ring audio output_format =
     (let packets = rr_packets ring
      in if packets = [] then save_video_only_as store disk partial stream ring output_format
         else
           let video_start = pk_timestamp_ns (hd packets);
               video_end = saturating_add (pk_timestamp_ns (last packets)) (pk_duration_ns (last packets));
               has_audio = list_ex (in_video_window video_start video_end) (as_packets (at_system audio))
                 \<or> (case at_microphone audio of None \<Rightarrow> False
                    | Some track \<Rightarrow> list_ex (in_video_window video_start video_end) (as_packets track));
               bounded = bounded_clip_writer (hard_limit store) disk
           in if \<not> has_audio then save_video_only_as store disk partial stream ring output_format
              else save_generated store output_format False (case output_format of
                Matroska \<Rightarrow> muxed (\<lambda>e. ''could not finalize audio/video Matroska replay: '' @ matroska_error_text e) partial
                  (map_sum id (map_prod ms_bytes_written id) (write_audio_video_matroska_tracks bounded stream ring audio))
              | Mp4 \<Rightarrow> muxed (\<lambda>e. ''could not finalize audio/video MP4 replay: '' @ mp4_error_text e) partial
                  (map_sum id (map_prod m4_bytes_written id) (write_audio_video_mp4_tracks bounded stream ring audio))))"

definition save_streaming_tracks :: "clip_store \<Rightarrow> sink \<Rightarrow> u8 list \<Rightarrow> replay_video_stream \<Rightarrow> memory_packets \<Rightarrow>
    replay_audio_tracks \<Rightarrow> replay_output_format \<Rightarrow> (string, stored_clip) cf_op" where
  "save_streaming_tracks store disk partial stream source audio output_format =
     (let bounded = bounded_clip_writer (hard_limit store) disk
      in save_generated store output_format False (case output_format of
           Matroska \<Rightarrow> muxed (\<lambda>e. ''could not finalize streamed Matroska replay: '' @ matroska_error_text e) partial
             (write_streaming_matroska_tracks bounded stream source audio)
         | Mp4 \<Rightarrow> muxed (\<lambda>e. ''could not finalize streamed MP4 replay: '' @ mp4_error_text e) partial
             (write_streaming_mp4_tracks bounded stream source audio)))"

text \<open>An \<open>impl Read\<close> is the list of what its reads give: an error, or some bytes. A read takes at most what the buffer
  holds, and no bytes mean the end.\<close>

type_synonym reader = "(os_error + u8 list) list"

definition read_some :: "nat \<Rightarrow> reader \<Rightarrow> (os_error + u8 list) \<times> reader" where
  "read_some n source = (case source of
       [] \<Rightarrow> (Inr [], [])
     | Inl e # rest \<Rightarrow> (Inl e, rest)
     | Inr chunk # rest \<Rightarrow> if length chunk \<le> n then (Inr chunk, rest) else (Inr (take n chunk), Inr (drop n chunk) # rest))"

definition reader_size :: "reader \<Rightarrow> nat" where
  "reader_size source = sum_list (map (\<lambda>r. case r of Inl _ \<Rightarrow> 1 | Inr chunk \<Rightarrow> Suc (length chunk)) source)"

lemma read_some_shorter:
  "read_some n source = (Inr bytes, rest) \<Longrightarrow> bytes \<noteq> [] \<Longrightarrow> reader_size rest < reader_size source"
  by (cases source) (auto simp: read_some_def reader_size_def split: sum.splits if_splits)

function source_exact :: "nat \<Rightarrow> reader \<Rightarrow> (os_error + u8 list) \<times> reader" where
  "source_exact n source =
     (if n = 0 then (Inr [], source)
      else case read_some n source of
        (Inl e, source) \<Rightarrow> (Inl e, source)
      | (Inr bytes, source) \<Rightarrow>
          if bytes = [] then (Inl unexpected_eof, source)
          else case source_exact (n - length bytes) source of
            (Inl e, source) \<Rightarrow> (Inl e, source)
          | (Inr tail_bytes, source) \<Rightarrow> (Inr (bytes @ tail_bytes), source))"
  by pat_completeness auto
termination
  by (relation "measure (\<lambda>(n, source). reader_size source)") (auto dest: read_some_shorter [OF sym])

definition COPY_BUFFER_BYTES :: nat where "COPY_BUFFER_BYTES = 64 * 1024"

text \<open>The copy loop of both bounded writers: its result and what is in the file afterwards.\<close>

function copy_loop :: "string \<Rightarrow> sink \<Rightarrow> u64 \<Rightarrow> u8 list \<Rightarrow> u64 \<Rightarrow> reader \<Rightarrow> (string + u64) \<times> u8 list" where
  "copy_loop context disk limit contents copied source =
     (case read_some COPY_BUFFER_BYTES source of
        (Inl e, _) \<Rightarrow> (Inl (store_io_error context e), contents)
      | (Inr bytes, rest) \<Rightarrow>
          if bytes = [] then (Inr copied, contents)
          else case checked_add copied (len_u64 bytes) of
            None \<Rightarrow> (Inl ''replay container size overflows'', contents)
          | Some copied \<Rightarrow>
              if copied > limit then (Inl ''replay container exceeds its configured byte budget'', contents)
              else case disk contents bytes of
                Some e \<Rightarrow> (Inl (''could not write replay temporary file: '' @ e), contents)
              | None \<Rightarrow> copy_loop context disk limit (contents @ bytes) copied rest)"
  by pat_completeness auto
termination
  by (relation "measure (\<lambda>(context, disk, limit, contents, copied, source). reader_size source)")
    (auto dest: read_some_shorter [OF sym])

declare source_exact.simps [simp del] copy_loop.simps [simp del]

definition write_bounded_matroska :: "sink \<Rightarrow> reader \<Rightarrow> u64 \<Rightarrow> u64 \<Rightarrow> (string + u64) \<times> u8 list" where
  "write_bounded_matroska disk source maximum_clip_bytes storage_limit_bytes =
     (case source_exact (length MATROSKA_MAGIC) source of
        (Inl e, _) \<Rightarrow> (Inl (store_io_error ''replay container is truncated'' e), [])
      | (Inr magic, source) \<Rightarrow>
          if magic \<noteq> MATROSKA_MAGIC then (Inl ''replay container is not Matroska'', [])
          else case disk [] magic of
            Some e \<Rightarrow> (Inl (''could not write replay temporary file: '' @ e), [])
          | None \<Rightarrow> copy_loop ''could not read replay container'' disk (min maximum_clip_bytes storage_limit_bytes)
              magic (len_u64 magic) source)"

definition write_bounded_mp4 :: "sink \<Rightarrow> reader \<Rightarrow> u64 \<Rightarrow> u64 \<Rightarrow> (string + u64) \<times> u8 list" where
  "write_bounded_mp4 disk source maximum_clip_bytes storage_limit_bytes =
     (case source_exact 8 source of
        (Inl e, _) \<Rightarrow> (Inl (store_io_error ''replay MP4 is truncated'' e), [])
      | (Inr header, source) \<Rightarrow>
          if drop 4 header \<noteq> MP4_FILE_TYPE_BOX then (Inl ''replay container is not MP4'', [])
          else case disk [] header of
            Some e \<Rightarrow> (Inl (''could not write replay temporary file: '' @ e), [])
          | None \<Rightarrow> copy_loop ''could not read replay MP4'' disk (min maximum_clip_bytes storage_limit_bytes)
              header (len_u64 header) source)"

definition save_matroska :: "clip_store \<Rightarrow> sink \<Rightarrow> reader \<Rightarrow> (string, stored_clip) cf_op" where
  "save_matroska store disk source = save_generated store Matroska False
     (write_bounded_matroska disk source (ks_maximum_clip_bytes store) (ks_storage_limit_bytes store))"

definition save_mp4_preserving_existing_with_limit :: "clip_store \<Rightarrow> sink \<Rightarrow> reader \<Rightarrow> u64 \<Rightarrow> (string, stored_clip) cf_op" where
  "save_mp4_preserving_existing_with_limit store disk source maximum_output_bytes = save_generated store Mp4 True
     (write_bounded_mp4 disk source maximum_output_bytes (ks_storage_limit_bytes store))"

definition write_bounded_export :: "sink \<Rightarrow> reader \<Rightarrow> replay_output_format \<Rightarrow> u64 \<Rightarrow> u64 \<Rightarrow> (string + u64) \<times> u8 list" where
  "write_bounded_export disk source output_format maximum_output_bytes storage_limit_bytes = (case output_format of
       Mp4 \<Rightarrow> write_bounded_mp4 disk source maximum_output_bytes storage_limit_bytes
     | Matroska \<Rightarrow> write_bounded_matroska disk source maximum_output_bytes storage_limit_bytes)"

text \<open>A named export authorises the inode of its temporary file under the new name before it publishes the name. The
  temporary name is removed in the end, published or not.\<close>

definition trimmed :: "string \<Rightarrow> bool" where
  "trimmed s \<longleftrightarrow> (case chars s of None \<Rightarrow> False
     | Some cs \<Rightarrow> cs = [] \<or> \<not> is_whitespace (hd cs) \<and> \<not> is_whitespace (last cs))"

definition export_begin :: "string \<Rightarrow> (string, string) cf_op" where
  "export_begin name =
     cf_then validate_store (\<lambda>_.
       cf_match (cf_stat name) (\<lambda>_. create_temporary)
         (\<lambda>_. cf_return (Inl ''A clip with that filename already exists'')))"

definition publish_export :: "string \<Rightarrow> string \<Rightarrow> u64 \<Rightarrow> string \<Rightarrow> (string, stored_clip) cf_op" where
  "publish_export name temporary bytes original =
     cf_then (cf_io ''could not inspect export'' (cf_open temporary)) (\<lambda>metadata.
     cf_then (cf_io ''could not read export metadata'' (load_from LABEL_FILE)) (\<lambda>registry.
     cf_then (label_prune registry) (\<lambda>registry.
       cf_match (cf_stat name)
         (\<lambda>_. cf_then cf_device (\<lambda>dev.
           cf_then (cf_io ''could not save export metadata''
               (save_to LABEL_FILE (bt_insert name (label_new original dev metadata) registry))) (\<lambda>_.
           cf_then (cf_io ''could not commit named export'' (cf_rename_noreplace temporary name)) (\<lambda>_.
           cf_then (cf_io ''export committed but directory flush failed'' cf_sync_directory) (\<lambda>_.
             cf_return (Inr \<lparr>sv_name = name, sv_bytes = bytes, sv_clips_removed = 0, sv_bytes_removed = 0\<rparr>))))))
         (\<lambda>_. cf_return (Inl ''A clip with that filename already exists'')))))"

definition export_finish :: "clip_store \<Rightarrow> replay_output_format \<Rightarrow> string \<Rightarrow> string \<Rightarrow> string + u64 \<Rightarrow> (string, stored_clip) cf_op" where
  "export_finish store output_format name temporary result fs =
     (case cf_then (cf_return result) (\<lambda>bytes.
         cf_then (cf_io ''could not flush export'' cf_probe) (\<lambda>_.
         cf_then validate_store (\<lambda>_. cf_then scan_owned_clips (\<lambda>owned.
         cf_then (cf_return (fits_beside store owned bytes ''exported clip does not fit without removing an existing replay'')) (\<lambda>_ fs.
           if cf_clock fs (cf_calls fs) < 0 then (fs, Inl ''system clock is before the Unix epoch'')
           else
             let now = nat (cf_clock fs (cf_calls fs));
                 original = clip_name (now div 10 ^ 9) (now mod 10 ^ 9) (cf_next_file fs) (format_extension output_format)
             in publish_export name temporary bytes original (fs\<lparr>cf_next_file := cf_next_file fs + 1\<rparr>)))))) fs of
       (fs, r) \<Rightarrow> (fst (cf_remove_file temporary fs), r))"

definition save_named_export_with_limit :: "clip_store \<Rightarrow> sink \<Rightarrow> reader \<Rightarrow> string \<Rightarrow> replay_output_format \<Rightarrow> u64 \<Rightarrow>
    (string, stored_clip) cf_op" where
  "save_named_export_with_limit store disk source stem output_format maximum_output_bytes =
     (let name = stem @ ''.'' @ format_extension output_format
      in if stem = [] \<or> \<not> trimmed stem \<or> length stem > 200 \<or> \<not> valid_name name \<or> is_owned_clip_name name
         then cf_return (Inl ''Use a valid export filename'')
         else cf_then (export_begin name) (\<lambda>temporary fs.
           let written = write_bounded_export disk source output_format maximum_output_bytes (ks_storage_limit_bytes store)
           in export_finish store output_format name temporary (fst written) (written_file temporary (snd written) fs)))"

end
