(* ===== verification/Clip_Rules.thy ===== *)
theory Clip_Rules
  imports Clip_Store
begin

text \<open>
  Reasoning about operations on the clip directory: \<open>after m Q fs\<close> says that \<open>Q\<close> holds of the state and the result that
  \<open>m\<close> leaves when it starts in \<open>fs\<close>, whatever calls fail on the way. Each operation gets a rule that reduces
  \<open>after\<close> to the few states it can leave.
\<close>

section \<open>Postconditions\<close>

definition after :: "('e, 'a) cf_op \<Rightarrow> (clip_fs \<Rightarrow> 'e + 'a \<Rightarrow> bool) \<Rightarrow> clip_fs \<Rightarrow> bool" where
  "after m Q fs \<longleftrightarrow> (case m fs of (fs', r) \<Rightarrow> Q fs' r)"

lemma afterD: "after m Q fs \<Longrightarrow> m fs = (fs', r) \<Longrightarrow> Q fs' r"
  by (simp add: after_def)

lemma after_mono: "after m P fs \<Longrightarrow> (\<And>fs' r. P fs' r \<Longrightarrow> Q fs' r) \<Longrightarrow> after m Q fs"
  by (auto simp: after_def)

lemma after_then [simp]:
  "after (cf_then m f) Q fs \<longleftrightarrow>
    after m (\<lambda>fs' r. case r of Inl e \<Rightarrow> Q fs' (Inl e) | Inr x \<Rightarrow> after (f x) Q fs') fs"
  by (simp add: after_def cf_then_def split: prod.split sum.split)

lemma after_return [simp]: "after (cf_return r) Q fs \<longleftrightarrow> Q fs r"
  by (simp add: after_def cf_return_def)

lemma after_map_err [simp]: "after (cf_map_err g m) Q fs \<longleftrightarrow> after m (\<lambda>fs' r. Q fs' (map_err g r)) fs"
  by (simp add: after_def cf_map_err_def split: prod.split)

lemma after_io [simp]: "after (cf_io context m) Q fs \<longleftrightarrow> after m (\<lambda>fs' r. Q fs' (map_err (store_io_error context) r)) fs"
  by (simp add: cf_io_def)

lemma after_match [simp]:
  "after (cf_match m on_error on_ok) Q fs \<longleftrightarrow>
    after m (\<lambda>fs' r. case r of Inl e \<Rightarrow> after (on_error e) Q fs' | Inr x \<Rightarrow> after (on_ok x) Q fs') fs"
  by (simp add: after_def cf_match_def split: prod.split sum.split)

lemma after_device [simp]: "after cf_device Q fs \<longleftrightarrow> Q fs (Inr (cf_dev fs))"
  by (simp add: after_def cf_device_def)

lemma after_or_else [simp]:
  "after (cf_or_else m c) Q fs \<longleftrightarrow> after m (\<lambda>fs' r. case r of Inl e \<Rightarrow> Q (c fs') (Inl e) | Inr x \<Rightarrow> Q fs' (Inr x)) fs"
  by (simp add: after_def cf_or_else_def split: prod.split sum.split)

lemma after_pair [simp]: "after (\<lambda>fs. (g fs, r fs)) Q fs \<longleftrightarrow> Q (g fs) (r fs)"
  by (simp add: after_def)

lemma after_if [simp]:
  "after (\<lambda>fs. if c fs then m fs else k fs) Q fs \<longleftrightarrow> (if c fs then after m Q fs else after k Q fs)"
  by (simp add: after_def)

section \<open>Well-formed directories\<close>

definition cf_links :: "u64 \<Rightarrow> (string \<times> clip_file) list \<Rightarrow> nat" where
  "cf_links ino entries = length (filter (\<lambda>e. fi_ino (snd e) = ino) entries)"

definition fs_ok :: "clip_fs \<Rightarrow> bool" where
  "fs_ok fs \<longleftrightarrow> distinct (map fst (cf_entries fs))
     \<and> (\<forall>e \<in> set (cf_entries fs). cf_links (fi_ino (snd e)) (cf_entries fs) \<le> fi_links (snd e))"

definition fresh_inodes :: "clip_fs \<Rightarrow> bool" where
  "fresh_inodes fs \<longleftrightarrow> (\<forall>n. \<forall>e \<in> set (cf_entries fs). cf_inos fs n \<noteq> fi_ino (snd e))"

definition inspects :: "clip_fs \<Rightarrow> bool" where
  "inspects fs \<longleftrightarrow> (\<forall>n. cf_fault fs InspectCall n = None)"

text \<open>Only the count of calls, and the counter of file names, differ.\<close>

definition quiet :: "nat \<Rightarrow> u64 \<Rightarrow> clip_fs \<Rightarrow> clip_fs" where
  "quiet n i fs = fs\<lparr>cf_calls := n, cf_next_file := i\<rparr>"

lemma quiet_fields [simp]:
  "cf_entries (quiet n i fs) = cf_entries fs" "cf_dev (quiet n i fs) = cf_dev fs" "cf_uid (quiet n i fs) = cf_uid fs"
  "cf_directory (quiet n i fs) = cf_directory fs" "cf_fault (quiet n i fs) = cf_fault fs" "cf_inos (quiet n i fs) = cf_inos fs"
  "cf_clock (quiet n i fs) = cf_clock fs" "cf_calls (quiet n i fs) = n" "cf_next_file (quiet n i fs) = i"
  "cf_process (quiet n i fs) = cf_process fs" "quiet m j (quiet n i fs) = quiet m j fs"
  "cf_lookup name (quiet n i fs) = cf_lookup name fs" "fs_ok (quiet n i fs) = fs_ok fs"
  "fresh_inodes (quiet n i fs) = fresh_inodes fs" "inspects (quiet n i fs) = inspects fs"
  by (simp_all add: quiet_def cf_lookup_def fs_ok_def fresh_inodes_def inspects_def)

lemma quiet_update [simp]: "(quiet n i fs)\<lparr>cf_calls := m\<rparr> = quiet m i fs" "(quiet n i fs)\<lparr>cf_next_file := j\<rparr> = quiet n j fs"
  by (simp_all add: quiet_def)

lemma calls_quiet: "fs\<lparr>cf_calls := n\<rparr> = quiet n (cf_next_file fs) fs" "fs\<lparr>cf_next_file := i\<rparr> = quiet (cf_calls fs) i fs"
  by (simp_all add: quiet_def)

lemma entries_quiet: "(quiet n i fs)\<lparr>cf_entries := es\<rparr> = quiet n i (fs\<lparr>cf_entries := es\<rparr>)"
  by (simp add: quiet_def)

lemma after_call:
  assumes "\<And>e. oe_kind e = KindOther \<Longrightarrow> Q (quiet (Suc (cf_calls fs)) (cf_next_file fs) fs) (Inl e)"
    and "after m Q (quiet (Suc (cf_calls fs)) (cf_next_file fs) fs)"
  shows "after (cf_call k m) Q fs"
  using assms by (simp add: after_def cf_call_def calls_quiet split: option.split)

text \<open>Inspection does not fail when the file system can be inspected.\<close>

lemma after_inspect:
  "inspects fs \<Longrightarrow> after m Q (quiet (Suc (cf_calls fs)) (cf_next_file fs) fs) \<Longrightarrow> after (cf_call InspectCall m) Q fs"
  by (simp add: after_def cf_call_def calls_quiet inspects_def)

section \<open>Calls that only read\<close>

lemma after_metadata:
  assumes "\<And>n e. Q (quiet n (cf_next_file fs) fs) (Inl e)"
    and "\<And>n f. cf_lookup name fs = Some f \<Longrightarrow> Q (quiet n (cf_next_file fs) fs) (Inr f)"
  shows "after (cf_stat name) Q fs"
  unfolding cf_stat_def using assms by (intro after_call) (simp_all split: option.split)

lemma after_metadata_found:
  assumes "inspects fs" "\<And>n. Q (quiet n (cf_next_file fs) fs) (case cf_lookup name fs of None \<Rightarrow> Inl not_found | Some f \<Rightarrow> Inr f)"
  shows "after (cf_stat name) Q fs"
  unfolding cf_stat_def using assms by (intro after_inspect) simp_all

lemma after_open:
  assumes "\<And>n e. Q (quiet n (cf_next_file fs) fs) (Inl e)"
    and "\<And>n f. cf_lookup name fs = Some f \<Longrightarrow> Q (quiet n (cf_next_file fs) fs) (Inr f)"
  shows "after (cf_open name) Q fs"
  unfolding cf_open_def using assms by (intro after_call) (simp_all split: option.split)

lemma after_probe:
  assumes "\<And>n e. Q (quiet n (cf_next_file fs) fs) (Inl e)" "\<And>n. Q (quiet n (cf_next_file fs) fs) (Inr ())"
  shows "after cf_probe Q fs"
  unfolding cf_probe_def using assms by (intro after_call) simp_all

lemma after_sync:
  assumes "\<And>n e. Q (quiet n (cf_next_file fs) fs) (Inl e)" "\<And>n. Q (quiet n (cf_next_file fs) fs) (Inr ())"
  shows "after cf_sync_directory Q fs"
  unfolding cf_sync_directory_def using assms by (auto intro!: after_probe)

lemma after_directory:
  assumes "\<And>n e. Q (quiet n (cf_next_file fs) fs) (Inl e)" "\<And>n. Q (quiet n (cf_next_file fs) fs) (Inr ())"
  shows "after cf_stat_directory Q fs"
  unfolding cf_stat_directory_def using assms by (intro after_call) simp_all

lemma after_validate:
  assumes "\<And>n e. Q (quiet n (cf_next_file fs) fs) (Inl e)" "\<And>n. Q (quiet n (cf_next_file fs) fs) (Inr ())"
  shows "after validate_store Q fs"
  unfolding validate_store_def using assms
  by (auto intro!: after_directory after_metadata after_open after_probe)

section \<open>Entries\<close>

lemma lookup_entries [simp]: "cf_lookup name (fs\<lparr>cf_entries := es\<rparr>) = map_of es name"
  by (simp add: cf_lookup_def)

lemma on_inode_other: "\<forall>e \<in> set es. fi_ino (snd e) \<noteq> ino \<Longrightarrow> on_inode ino g es = es"
  by (induction es) (auto simp: on_inode_def)

lemma fst_on_inode [simp]: "map fst (on_inode ino g es) = map fst es"
  by (induction es) (auto simp: on_inode_def)

lemma links_on_inode [simp]:
  "(\<And>f. fi_ino (g f) = fi_ino f) \<Longrightarrow> cf_links i (on_inode ino g es) = cf_links i es"
  by (induction es) (auto simp: on_inode_def cf_links_def split: if_splits)

lemma links_Cons [simp]: "cf_links i (e # es) = (if fi_ino (snd e) = i then Suc (cf_links i es) else cf_links i es)"
  "cf_links i [] = 0"
  by (simp_all add: cf_links_def)

lemma links_zero: "cf_links i es = 0 \<longleftrightarrow> (\<forall>e \<in> set es. fi_ino (snd e) \<noteq> i)"
  by (auto simp: cf_links_def filter_empty_conv)

lemma links_remove:
  assumes "distinct (map fst es)" "map_of es name = Some f"
  shows "cf_links i es = cf_links i (filter (\<lambda>(n, _). n \<noteq> name) es) + (if fi_ino f = i then 1 else 0)"
  using assms
proof (induction es)
  case (Cons e es)
  show ?case
  proof (cases "fst e = name")
    case True
    then have "name \<notin> fst ` set es" using Cons.prems by auto
    then have "filter (\<lambda>(n, _). n \<noteq> name) es = es" by (intro filter_True) force
    with True Cons.prems show ?thesis by (cases e) auto
  next
    case False
    with Cons show ?thesis by (cases e) auto
  qed
qed simp

text \<open>The entries without a file that has no other name.\<close>

lemma unlink_only:
  assumes "fs_ok fs" "cf_lookup name fs = Some f" "fi_links f \<le> 1"
  shows "unlink_entry name f (cf_entries fs) = filter (\<lambda>(n, _). n \<noteq> name) (cf_entries fs)"
proof -
  let ?es = "filter (\<lambda>(n, _). n \<noteq> name) (cf_entries fs)"
  have "(name, f) \<in> set (cf_entries fs)" using assms(2) by (simp add: cf_lookup_def map_of_SomeD)
  then have "cf_links (fi_ino f) (cf_entries fs) \<le> 1" using assms(1,3) by (force simp: fs_ok_def)
  then have "cf_links (fi_ino f) ?es = 0"
    using links_remove [of "cf_entries fs" name f "fi_ino f"] assms(1,2) by (simp add: fs_ok_def cf_lookup_def)
  then show ?thesis by (simp add: unlink_entry_def links_zero on_inode_other)
qed

lemma lookup_filter: "map_of (filter (\<lambda>(n, _). n \<noteq> name) es) m = (if m = name then None else map_of es m)"
  by (induction es) auto

lemma fs_ok_filter:
  assumes "fs_ok fs"
  shows "fs_ok (fs\<lparr>cf_entries := filter P (cf_entries fs)\<rparr>)"
proof -
  have "cf_links i (filter P es) \<le> cf_links i es" for i es by (induction es) (auto simp: cf_links_def)
  with assms show ?thesis by (fastforce simp: fs_ok_def distinct_map_filter intro: order_trans)
qed

lemma fs_ok_Cons:
  assumes "fs_ok fs" "cf_lookup name fs = None" "\<forall>e \<in> set (cf_entries fs). fi_ino (snd e) \<noteq> fi_ino f" "1 \<le> fi_links f"
  shows "fs_ok (fs\<lparr>cf_entries := (name, f) # cf_entries fs\<rparr>)"
proof -
  have "cf_links (fi_ino f) (cf_entries fs) = 0" using assms(3) by (simp add: links_zero)
  with assms show ?thesis by (auto simp: fs_ok_def cf_lookup_def map_of_eq_None_iff)
qed

lemma rename_entry_absent: "map_of es from_name = None \<Longrightarrow> rename_entry from_name to_name es = es"
  by (induction es) (auto simp: rename_entry_def split: if_splits)

lemma lookup_rename_entry:
  assumes "map_of es to_name = None" "from_name \<noteq> to_name" "distinct (map fst es)"
  shows "map_of (rename_entry from_name to_name es) m =
    (if m = to_name then map_of es from_name else if m = from_name then None else map_of es m)"
  using assms
proof (induction es)
  case (Cons e es)
  obtain n f where e: "e = (n, f)" by fastforce
  show ?case
  proof (cases "n = from_name")
    case True
    then have "map_of es from_name = None" using Cons.prems by (simp add: e map_of_eq_None_iff)
    moreover have "map_of es to_name = None" using Cons.prems by (simp add: e split: if_splits)
    ultimately show ?thesis
      using True Cons.prems rename_entry_absent [of es from_name to_name] by (simp add: e rename_entry_def)
  next
    case False
    with Cons show ?thesis by (simp add: e rename_entry_def split: if_splits)
  qed
qed (simp add: rename_entry_def)

lemma links_rename_entry [simp]: "cf_links i (rename_entry a b es) = cf_links i es"
  by (induction es) (auto simp: rename_entry_def cf_links_def)

lemma fs_ok_rename_entry:
  assumes "fs_ok fs" "cf_lookup to_name fs = None"
  shows "fs_ok (fs\<lparr>cf_entries := rename_entry from_name to_name (cf_entries fs)\<rparr>)"
proof -
  have "distinct (map fst (rename_entry from_name to_name es))"
    if "to_name \<notin> fst ` set es" "distinct (map fst es)" for es :: "(string \<times> clip_file) list"
  proof -
    have "map fst (rename_entry from_name to_name es) = map (\<lambda>n. if n = from_name then to_name else n) (map fst es)"
      by (simp add: rename_entry_def case_prod_beta)
    moreover have "inj_on (\<lambda>n. if n = from_name then to_name else n) (set (map fst es))"
      using that(1) by (auto simp: inj_on_def)
    ultimately show ?thesis using that(2) by (simp add: distinct_map [of _ "map fst es"] del: map_map)
  qed
  moreover have "cf_links (fi_ino (snd e)) (cf_entries fs) \<le> fi_links (snd e)"
    if "e \<in> set (rename_entry from_name to_name (cf_entries fs))" for e
  proof -
    from that obtain e' where "e' \<in> set (cf_entries fs)" "snd e' = snd e" by (force simp: rename_entry_def)
    with assms(1) show ?thesis by (metis fs_ok_def)
  qed
  ultimately show ?thesis using assms by (simp add: fs_ok_def cf_lookup_def map_of_eq_None_iff)
qed

section \<open>Temporary files\<close>

definition is_temporary :: "string \<Rightarrow> bool" where
  "is_temporary name \<longleftrightarrow> name \<noteq> [] \<and> hd name = CHR ''.'' \<and> last name = CHR ''p''"

definition fresh_file :: "clip_fs \<Rightarrow> clip_file \<Rightarrow> bool" where
  "fresh_file fs f \<longleftrightarrow> fi_kind f = RegularFile \<and> fi_links f = 1 \<and> fi_uid f = cf_uid fs
     \<and> (\<forall>e \<in> set (cf_entries fs). fi_ino (snd e) \<noteq> fi_ino f)"

lemma create_new_quiet:
  "cf_create_new name (quiet n i fs) = (case cf_fault fs OtherCall n of
       Some text \<Rightarrow> (quiet (Suc n) i fs, Inl \<lparr>oe_kind = KindOther, oe_text = text\<rparr>)
     | None \<Rightarrow> (case cf_lookup name fs of
         Some _ \<Rightarrow> (quiet (Suc n) i fs, Inl already_exists)
       | None \<Rightarrow> (quiet (Suc n) i (fs\<lparr>cf_entries := (name, \<lparr>fi_kind = RegularFile, fi_bytes = [],
           fi_modified = cf_clock fs (Suc n), fi_ino = cf_inos fs (Suc n), fi_links = 1, fi_uid = cf_uid fs\<rparr>)
           # cf_entries fs\<rparr>), Inr ())))"
  by (simp add: cf_create_new_def cf_call_def entries_quiet split: option.split)

lemma temporary_loop_rule:
  assumes "fresh_inodes fs" "\<And>n i e. Q (quiet n i fs) (Inl e)"
    and "\<And>n i name f. is_temporary name \<Longrightarrow> cf_lookup name fs = None \<Longrightarrow> fresh_file fs f \<Longrightarrow> fi_bytes f = [] \<Longrightarrow>
      Q (quiet n i (fs\<lparr>cf_entries := (name, f) # cf_entries fs\<rparr>)) (Inr name)"
  shows "after (temporary_loop k) Q (quiet n i fs)"
proof (induction k arbitrary: n i)
  case 0
  show ?case using assms(2) by (simp add: after_def)
next
  case (Suc k)
  let ?name = "clip_temporary_name (cf_process fs) i"
  have t: "is_temporary ?name" by (simp add: is_temporary_def clip_temporary_name_def)
  have f: "fresh_file fs \<lparr>fi_kind = RegularFile, fi_bytes = [], fi_modified = c, fi_ino = cf_inos fs m, fi_links = 1,
      fi_uid = cf_uid fs\<rparr>" for c m
    using assms(1) by (force simp: fresh_file_def fresh_inodes_def)
  show ?case
    using Suc.IH [of "Suc n" "i + 1"] assms(2) assms(3) [OF t _ f]
    by (simp add: after_def Let_def create_new_quiet entries_quiet already_exists_def split: option.split)
qed

lemma after_temporary:
  assumes "fresh_inodes fs" "\<And>n i e. Q (quiet n i fs) (Inl e)"
    and "\<And>n i name f. is_temporary name \<Longrightarrow> cf_lookup name fs = None \<Longrightarrow> fresh_file fs f \<Longrightarrow> fi_bytes f = [] \<Longrightarrow>
      Q (quiet n i (fs\<lparr>cf_entries := (name, f) # cf_entries fs\<rparr>)) (Inr name)"
  shows "after create_temporary Q fs"
  using temporary_loop_rule [of fs Q 32 "cf_calls fs" "cf_next_file fs"] assms
  by (simp add: create_temporary_def quiet_def)

section \<open>Label files\<close>

definition labels_of :: "string \<Rightarrow> clip_fs \<Rightarrow> clip_labels option" where
  "labels_of file_name fs = (case cf_lookup file_name fs of
       None \<Rightarrow> Some []
     | Some f \<Rightarrow>
         if fi_kind f = RegularFile \<and> fi_links f = 1 \<and> length (fi_bytes f) \<le> unat LABEL_MAX_BYTES \<and> fi_uid f = cf_uid fs
           \<and> chars (text_of (fi_bytes f)) \<noteq> None
         then (case parse_labels (text_of (fi_bytes f)) of Inl _ \<Rightarrow> None | Inr ls \<Rightarrow> Some ls) else None)"

lemma labels_of_quiet [simp]: "labels_of file_name (quiet n i fs) = labels_of file_name fs"
  by (simp add: labels_of_def cong: option.case_cong)

lemma labels_of_ok: "labels_of file_name fs = Some ls \<Longrightarrow> labels_ok ls"
  by (auto simp: labels_of_def labels_ok_def bt_ok_def split: option.splits if_splits sum.splits dest: parse_labels_ok)

lemma after_read_labels:
  assumes "cf_lookup file_name fs = Some meta" "\<And>n e. Q (quiet n (cf_next_file fs) fs) (Inl e)"
    and "\<And>n ls. labels_of file_name fs = Some ls \<Longrightarrow> Q (quiet n (cf_next_file fs) fs) (Inr ls)"
  shows "after (read_labels meta) Q fs"
proof -
  have "Q (quiet n (cf_next_file fs) fs) (map_err other_error (parse_labels (text_of (fi_bytes meta))))"
    if "fi_kind meta = RegularFile" "fi_links meta = 1" "length (fi_bytes meta) \<le> unat LABEL_MAX_BYTES"
      "fi_uid meta = cf_uid fs" "chars (text_of (fi_bytes meta)) \<noteq> None" for n
    using that assms by (cases "parse_labels (text_of (fi_bytes meta))") (simp_all add: labels_of_def)
  with assms(2) show ?thesis
    unfolding read_labels_def by (auto intro!: after_probe after_directory simp: not_less)
qed

lemma after_load:
  assumes "\<And>n e. Q (quiet n (cf_next_file fs) fs) (Inl e)"
    and "\<And>n ls. labels_of file_name fs = Some ls \<Longrightarrow> Q (quiet n (cf_next_file fs) fs) (Inr ls)"
  shows "after (load_from file_name) Q fs"
  using assms after_read_labels [of file_name "quiet (Suc (cf_calls fs)) (cf_next_file fs) fs" _ Q]
  unfolding load_from_def cf_open_nofollow_def after_match
  by (intro after_call) (auto simp: labels_of_def not_found_def split: option.split)

definition label_live :: "clip_fs \<Rightarrow> string \<times> clip_label \<Rightarrow> bool" where
  "label_live fs entry \<longleftrightarrow> (case cf_lookup (fst entry) fs of
     None \<Rightarrow> False | Some f \<Rightarrow> label_matches (cf_dev fs) f (snd entry))"

lemma label_live_quiet [simp]: "label_live (quiet n i fs) = label_live fs"
  by (simp add: label_live_def fun_eq_iff cong: option.case_cong)

lemma after_prune:
  assumes "inspects fs" "\<And>n. Q (quiet n (cf_next_file fs) fs) (Inr (filter (label_live fs) ls))"
  shows "after (label_prune ls) Q fs"
  using assms
proof (induction ls arbitrary: fs Q)
  case Nil
  from Nil.prems(2) [of "cf_calls fs"] show ?case by (simp add: quiet_def)
next
  case (Cons e ls)
  obtain name l where e: "e = (name, l)" by fastforce
  have live: "label_live fs (name, l) = (case cf_lookup name fs of None \<Rightarrow> False | Some f \<Rightarrow> label_matches (cf_dev fs) f l)"
    by (simp add: label_live_def split: option.split)
  show ?case
    using Cons.prems live unfolding e label_prune.simps after_match
    by (intro after_metadata_found) (auto intro!: Cons.IH split: option.split)
qed

section \<open>Replacing a label file\<close>

text \<open>The three directories a replacement can leave: as before, with a temporary file, or with the new file.\<close>

definition replaced :: "string \<Rightarrow> clip_file \<Rightarrow> clip_fs \<Rightarrow> clip_fs" where
  "replaced file_name f fs = fs\<lparr>cf_entries := (file_name, f) # filter (\<lambda>(n, _). n \<noteq> file_name) (cf_entries fs)\<rparr>"

definition with_entry :: "string \<Rightarrow> clip_file \<Rightarrow> clip_fs \<Rightarrow> clip_fs" where
  "with_entry name f fs = fs\<lparr>cf_entries := (name, f) # cf_entries fs\<rparr>"

lemma with_entry_fields [simp]:
  "cf_lookup m (with_entry name f fs) = (if m = name then Some f else cf_lookup m fs)"
  "cf_dev (with_entry name f fs) = cf_dev fs" "cf_uid (with_entry name f fs) = cf_uid fs"
  "cf_fault (with_entry name f fs) = cf_fault fs" "cf_clock (with_entry name f fs) = cf_clock fs"
  "cf_calls (with_entry name f fs) = cf_calls fs" "cf_next_file (with_entry name f fs) = cf_next_file fs"
  "inspects (with_entry name f fs) = inspects fs" "cf_entries (with_entry name f fs) = (name, f) # cf_entries fs"
  "(with_entry name f fs)\<lparr>cf_entries := es\<rparr> = fs\<lparr>cf_entries := es\<rparr>"
  by (simp_all add: with_entry_def cf_lookup_def inspects_def)

lemma replaced_fields [simp]:
  "cf_lookup m (replaced name f fs) = (if m = name then Some f else cf_lookup m fs)"
  "cf_dev (replaced name f fs) = cf_dev fs" "cf_uid (replaced name f fs) = cf_uid fs"
  "cf_fault (replaced name f fs) = cf_fault fs" "inspects (replaced name f fs) = inspects fs"
  "cf_next_file (replaced name f fs) = cf_next_file fs"
  by (simp_all add: replaced_def cf_lookup_def inspects_def lookup_filter)

lemma fs_ok_with_entry: "fs_ok fs \<Longrightarrow> cf_lookup name fs = None \<Longrightarrow> fresh_file fs f \<Longrightarrow> fs_ok (with_entry name f fs)"
  unfolding with_entry_def by (rule fs_ok_Cons) (simp_all add: fresh_file_def)

lemma fs_ok_replaced: "fs_ok fs \<Longrightarrow> fresh_file fs f \<Longrightarrow> fs_ok (replaced name f fs)"
  using fs_ok_Cons [OF fs_ok_filter [of fs "\<lambda>(n, _). n \<noteq> name"], of name f]
  by (auto simp: replaced_def fresh_file_def lookup_filter)

lemma after_remove_temporary:
  assumes "fs_ok fs" "cf_lookup name fs = None" "fresh_file fs f"
    and "\<And>m j e. Q (quiet m j (with_entry name f fs)) (Inl e)" "\<And>m j. Q (quiet m j fs) (Inr ())"
  shows "after (cf_remove_file name) Q (quiet n i (with_entry name f fs))"
proof -
  have "name \<notin> fst ` set (cf_entries fs)" using assms(2) by (simp add: cf_lookup_def map_of_eq_None_iff)
  then have "filter (\<lambda>(m, _). m \<noteq> name) (cf_entries fs) = cf_entries fs" by (intro filter_True) force
  then have "unlink_entry name f ((name, f) # cf_entries fs) = cf_entries fs"
    using assms(3) by (simp add: unlink_entry_def fresh_file_def on_inode_other)
  then show ?thesis
    using assms(3-5) unfolding cf_remove_file_def
    by (intro after_call) (auto simp: after_def fresh_file_def entries_quiet with_entry_def)
qed

lemma after_write_temporary:
  assumes "fresh_file fs f"
    and "\<And>m e. Q (quiet m i (with_entry name f fs)) (Inl e)"
    and "\<And>m c. Q (quiet m i (with_entry name (f\<lparr>fi_bytes := fi_bytes f @ bytes, fi_modified := c\<rparr>) fs)) (Inr ())"
  shows "after (cf_write name bytes) Q (quiet n i (with_entry name f fs))"
proof -
  have "on_inode (fi_ino f) g ((name, f) # cf_entries fs) = (name, g f) # cf_entries fs" for g
    using assms(1) on_inode_other [of "cf_entries fs" "fi_ino f" g] by (simp add: fresh_file_def on_inode_def)
  then show ?thesis
    using assms(2,3) unfolding cf_write_def
    by (intro after_call) (simp_all add: after_def entries_quiet with_entry_def)
qed

lemma after_rename_temporary:
  assumes "fs_ok fs" "cf_lookup name fs = None" "fresh_file fs f" "name \<noteq> file_name" "labels_of file_name fs \<noteq> None"
    and "\<And>m e. Q (quiet m i (with_entry name f fs)) (Inl e)" "\<And>m. Q (quiet m i (replaced file_name f fs)) (Inr ())"
  shows "after (cf_rename name file_name) Q (quiet n i (with_entry name f fs))"
proof -
  let ?es = "filter (\<lambda>(n, _). n \<noteq> file_name) (cf_entries fs)"
  have r: "rename_entry name file_name ((name, f) # ?es) = (file_name, f) # ?es"
    using assms(2,4) rename_entry_absent [of ?es name file_name]
    by (simp add: rename_entry_def cf_lookup_def lookup_filter)
  show ?thesis
  proof (cases "cf_lookup file_name fs")
    case None
    then have "?es = cf_entries fs"
      by (intro filter_True) (force simp: cf_lookup_def map_of_eq_None_iff)
    with None r assms(4,6,7) show ?thesis
      unfolding cf_rename_def
      by (intro after_call) (simp_all add: after_def entries_quiet replaced_def)
  next
    case (Some g)
    then have g: "fi_kind g = RegularFile" "fi_links g = 1" using assms(5) by (auto simp: labels_of_def split: if_splits)
    have ino: "fi_ino g \<noteq> fi_ino f"
      using Some assms(3) by (force simp: cf_lookup_def fresh_file_def dest!: map_of_SomeD)
    have "unlink_entry file_name g ((name, f) # cf_entries fs) = (name, f) # ?es"
      using unlink_only [OF assms(1) Some] g ino assms(4) by (auto simp: unlink_entry_def on_inode_def)
    with Some g ino r assms(4,6,7) show ?thesis
      unfolding cf_rename_def
      by (intro after_call) (simp_all add: after_def entries_quiet replaced_def)
  qed
qed

lemma after_remove_missing:
  assumes "cf_lookup name fs = None" "\<And>m e. Q (quiet m (cf_next_file fs) fs) (Inl e)"
  shows "after (cf_remove_file name) Q fs"
  unfolding cf_remove_file_def using assms by (intro after_call) (simp_all add: after_def)

lemma fresh_file_update [simp]: "fresh_file fs (f\<lparr>fi_bytes := b, fi_modified := c\<rparr>) = fresh_file fs f"
  by (simp add: fresh_file_def)

lemma after_save_to:
  assumes "fs_ok fs" "fresh_inodes fs" "\<not> is_temporary file_name" "labels_of file_name fs \<noteq> None"
    and quiet: "\<And>n i e. Q (quiet n i fs) (Inl e)"
    and left: "\<And>n i name f e. is_temporary name \<Longrightarrow> cf_lookup name fs = None \<Longrightarrow> fresh_file fs f \<Longrightarrow>
      Q (quiet n i (with_entry name f fs)) (Inl e)"
    and new: "\<And>n i f r. fresh_file fs f \<Longrightarrow> text_of (fi_bytes f) = labels_text ls \<Longrightarrow>
      length (fi_bytes f) \<le> unat LABEL_MAX_BYTES \<Longrightarrow> length ls \<le> MAX_LABEL_ENTRIES \<Longrightarrow>
      Q (quiet n i (replaced file_name f fs)) r"
  shows "after (save_to file_name ls) Q fs"
proof (cases "length ls > MAX_LABEL_ENTRIES \<or> length (labels_text ls) > unat LABEL_MAX_BYTES")
  case True
  then show ?thesis using quiet [of "cf_calls fs" "cf_next_file fs"] by (auto simp: save_to_def Let_def quiet_def)
next
  case False
  let ?text = "ascii (labels_text ls)"
  have written: "text_of ?text = labels_text ls" by (simp add: text_of_def ascii_def comp_def unat_of_nat)
  have cleanup: "Q (fst (cf_remove_file name (quiet n i (with_entry name f fs)))) (Inl e)"
    if "is_temporary name" "cf_lookup name fs = None" "fresh_file fs f" for n i name f e
    using after_remove_temporary [OF assms(1) that(2,3), of "\<lambda>fs' _. Q fs' (Inl e)" n i] quiet left that
    by (simp add: after_def case_prod_beta)
  have finished: "Q (fst (cf_remove_file name (quiet n i (replaced file_name f fs)))) (Inl e)"
    if "is_temporary name" "cf_lookup name fs = None" "fresh_file fs f" "fi_bytes f = ?text" for n i name f e
    using after_remove_missing [of name "quiet n i (replaced file_name f fs)" "\<lambda>fs' _. Q fs' (Inl e)"] new that written False assms(3)
    by (cases "name = file_name") (auto simp: after_def case_prod_beta)
  have inner: "after (cf_or_else (cf_then (cf_write name ?text) (\<lambda>_. cf_then cf_probe (\<lambda>_.
      cf_then (cf_rename name file_name) (\<lambda>_. cf_sync_directory)))) (\<lambda>fs. fst (cf_remove_file name fs)))
      Q (quiet n i (with_entry name f fs))"
    if t: "is_temporary name" "cf_lookup name fs = None" "fresh_file fs f" "fi_bytes f = []" for n i name f
  proof -
    have "name \<noteq> file_name" using t(1) assms(3) by auto
    then show ?thesis
      using t cleanup finished new written False
      by (auto intro!: after_write_temporary after_probe after_sync after_rename_temporary [OF assms(1) t(2) _ _ assms(4)])
  qed
  show ?thesis
    using False quiet unfolding save_to_def
    by (auto simp: Let_def simp del: after_or_else
        intro!: after_temporary [OF assms(2)] inner [unfolded with_entry_def])
qed

end
