(* ===== verification/Clip_Library.thy ===== *)
theory Clip_Library
  imports Clip_Rules
begin

text \<open>
  What the clip directory means: a library of clips by name, each with its contents, original name, favorite flag and
  trash flag. The operations on names, favorites and the trash refine operations on the library, and
  whatever call fails on the way, or if the program stops there, the library is the old or the new one.
\<close>

section \<open>The library\<close>

type_synonym clip_library = "string \<Rightarrow> (owned_clip \<times> u8 list) option"

definition library :: "clip_fs \<Rightarrow> clip_library" where
  "library fs name = (case (labels_of LABEL_FILE fs, labels_of TRASH_FILE fs) of
       (Some labels, Some trash) \<Rightarrow> Option.bind (cf_lookup name fs) (\<lambda>f.
         map_option (\<lambda>c. (c, fi_bytes f)) (scanned_clip (cf_dev fs) trash labels name f))
     | _ \<Rightarrow> None)"

definition hidden :: "string \<Rightarrow> bool" where
  "hidden name \<longleftrightarrow> name \<noteq> [] \<and> hd name = CHR ''.''"

text \<open>A clip in the trash is there under its own name.\<close>

definition trash_ok :: "clip_fs \<Rightarrow> clip_labels \<Rightarrow> bool" where
  "trash_ok fs trash \<longleftrightarrow> (\<forall>n l name f. map_of trash n = Some l \<longrightarrow> cf_lookup name fs = Some f \<longrightarrow> \<not> hidden name \<longrightarrow>
     label_matches (cf_dev fs) f l \<longrightarrow> name = n)"

definition library_ok :: "clip_fs \<Rightarrow> bool" where
  "library_ok fs \<longleftrightarrow> fs_ok fs \<and> labels_of LABEL_FILE fs \<noteq> None
     \<and> (case labels_of TRASH_FILE fs of None \<Rightarrow> False | Some trash \<Rightarrow> trash_ok fs trash)"

lemma library_labels:
  assumes "labels_of LABEL_FILE fs = Some labels" "labels_of TRASH_FILE fs = Some trash"
  shows "library fs name = Option.bind (cf_lookup name fs) (\<lambda>f.
    map_option (\<lambda>c. (c, fi_bytes f)) (scanned_clip (cf_dev fs) trash labels name f))"
  using assms by (simp add: library_def)

lemma library_okE:
  assumes "library_ok fs"
  obtains labels trash where "fs_ok fs" "labels_of LABEL_FILE fs = Some labels" "labels_of TRASH_FILE fs = Some trash"
    "trash_ok fs trash" "labels_ok labels" "labels_ok trash"
  using assms labels_of_ok by (auto simp: library_ok_def split: option.splits)

lemma library_quiet [simp]: "library (quiet n i fs) = library fs" "library_ok (quiet n i fs) = library_ok fs"
  "trash_ok (quiet n i fs) = trash_ok fs"
proof -
  show t: "trash_ok (quiet n i fs) = trash_ok fs" by (simp add: trash_ok_def fun_eq_iff)
  show "library (quiet n i fs) = library fs" by (simp add: library_def fun_eq_iff split: option.split)
  show "library_ok (quiet n i fs) = library_ok fs" by (simp add: library_ok_def t split: option.split)
qed

lemma names_visible: "valid_name name \<Longrightarrow> \<not> hidden name" "is_owned_clip_name name \<Longrightarrow> \<not> hidden name"
proof -
  show "valid_name name \<Longrightarrow> \<not> hidden name" by (auto simp: valid_name_def hidden_def split: option.splits)
  show "is_owned_clip_name name \<Longrightarrow> \<not> hidden name"
    by (auto simp: is_owned_clip_name_def hidden_def strip_prefix_Some CLIP_PREFIX_def split: if_splits option.splits)
qed

lemma label_names: "labels_ok ls \<Longrightarrow> map_of ls name = Some l \<Longrightarrow> clip_label_ok (name, l)"
  by (auto simp: labels_ok_def list_all_iff dest: map_of_SomeD)

lemma label_visible: "labels_ok ls \<Longrightarrow> hidden name \<Longrightarrow> map_of ls name = None"
  using label_names names_visible(1) by (cases "map_of ls name") (fastforce simp: clip_label_ok_def)+

lemma own_files: "hidden LABEL_FILE" "hidden TRASH_FILE" "\<not> is_temporary LABEL_FILE" "\<not> is_temporary TRASH_FILE"
  "LABEL_FILE \<noteq> TRASH_FILE" "is_temporary name \<Longrightarrow> hidden name"
  by (auto simp: hidden_def is_temporary_def LABEL_FILE_def TRASH_FILE_def)

lemma scanned_hidden: "labels_ok labels \<Longrightarrow> hidden name \<Longrightarrow> scanned_clip dev trash labels name f = None"
  using names_visible(2) label_visible by (auto simp: scanned_clip_def)

text \<open>The library depends only on the visible entries and the two label files, and of those only on live labels.\<close>

lemma library_cong:
  assumes "labels_of LABEL_FILE fs = Some labels" "labels_of TRASH_FILE fs = Some trash"
    and "labels_of LABEL_FILE fs' = Some labels'" "labels_of TRASH_FILE fs' = Some trash'"
    and "cf_dev fs' = cf_dev fs" "\<And>name. \<not> hidden name \<Longrightarrow> cf_lookup name fs' = cf_lookup name fs"
    and "\<And>name f. cf_lookup name fs = Some f \<Longrightarrow> \<not> hidden name \<Longrightarrow>
      scanned_clip (cf_dev fs) trash' labels' name f = scanned_clip (cf_dev fs) trash labels name f"
  shows "library fs' = library fs"
proof
  fix name
  have ok: "labels_ok labels" "labels_ok labels'" using assms(1,3) labels_of_ok by auto
  show "library fs' name = library fs name"
  proof (cases "hidden name")
    case True
    then show ?thesis
      using scanned_hidden [OF ok(1)] scanned_hidden [OF ok(2)]
      by (simp add: library_labels [OF assms(1,2)] library_labels [OF assms(3,4)] bind_eq_None_conv split: bind_splits)
  next
    case False
    then show ?thesis
      using assms(5-7) by (simp add: library_labels [OF assms(1,2)] library_labels [OF assms(3,4)] split: bind_splits)
  qed
qed

text \<open>A label that fits no file, or another file, does not count.\<close>

definition fitting :: "u64 \<Rightarrow> clip_file \<Rightarrow> clip_label option \<Rightarrow> clip_label option" where
  "fitting dev f l = (case l of Some l \<Rightarrow> if label_matches dev f l then Some l else None | None \<Rightarrow> None)"

lemma scanned_fitting:
  "scanned_clip dev trash labels name f =
     (if fi_kind f = RegularFile \<and> fi_links f = 1 \<and> (is_owned_clip_name name \<or> fitting dev f (map_of labels name) \<noteq> None)
      then Some \<lparr>oc_name = name, oc_bytes = len_u64 (fi_bytes f), oc_modified = fi_modified f,
             oc_original = (case fitting dev f (map_of labels name) of None \<Rightarrow> name | Some l \<Rightarrow> lb_original l),
             oc_favorite = (case fitting dev f (map_of labels name) of None \<Rightarrow> False | Some l \<Rightarrow> lb_favorite l),
             oc_trashed = (fitting dev f (map_of trash name) \<noteq> None)\<rparr>
      else None)"
  by (auto simp: scanned_clip_def fitting_def Let_def split: option.split)

lemma fitting_live:
  assumes "labels_ok ls" "cf_lookup name fs = Some f"
  shows "fitting (cf_dev fs) f (map_of (filter (label_live fs) ls) name) = fitting (cf_dev fs) f (map_of ls name)"
proof -
  have "distinct (map fst ls)" using assms(1) by (auto simp: labels_ok_def intro: bt_ok_distinct)
  then show ?thesis
    using assms(2) by (simp add: map_of_filter label_live_def fitting_def split: option.split)
qed

section \<open>Writing a label file\<close>

lemma labels_text_ascii: "ascii_text (labels_text ls)"
proof -
  have digit: "(of_char c :: nat) < 128" if "c \<in> set (show_nat n)" for c n
    using show_nat_digits [of n] that by (auto simp: is_digit_def)
  have "ascii_text (label_line e)" for e
    using hex_chars(1) digit by (cases e) (auto simp: label_line_def ascii_text_def tab_def)
  moreover have "ascii_text LABEL_HEADER" "ascii_text [newline]" by (simp_all add: LABEL_HEADER_def ascii_text_def newline_def)
  ultimately show ?thesis by (auto simp: labels_text_def ascii_text_def)
qed

lemma labels_of_replaced:
  assumes "fresh_file fs f" "text_of (fi_bytes f) = labels_text ls" "length (fi_bytes f) \<le> unat LABEL_MAX_BYTES" "labels_ok ls"
  shows "labels_of file_name (replaced file_name f fs) = Some ls"
  using assms chars_ascii [OF labels_text_ascii [of ls]]
  by (simp add: labels_of_def fresh_file_def parse_labels_text)

lemma labels_of_unchanged:
  "other \<noteq> file_name \<Longrightarrow> labels_of other (replaced file_name f fs) = labels_of other fs"
  "other \<noteq> name \<Longrightarrow> labels_of other (with_entry name f fs) = labels_of other fs"
  by (simp_all add: labels_of_def cong: option.case_cong)

text \<open>Another directory with the same visible entries.\<close>

definition beside :: "clip_fs \<Rightarrow> clip_fs \<Rightarrow> bool" where
  "beside fs fs' \<longleftrightarrow> fs_ok fs' \<and> cf_dev fs' = cf_dev fs \<and> inspects fs' = inspects fs
     \<and> (\<forall>name. \<not> hidden name \<longrightarrow> cf_lookup name fs' = cf_lookup name fs)"

lemma after_save_labels:
  assumes "library_ok fs" "fresh_inodes fs" "{file_name, other} = {LABEL_FILE, TRASH_FILE}"
    and "bt_ok ls" "list_all clip_label_ok ls"
    and old: "\<And>fs' e. beside fs fs' \<Longrightarrow> labels_of file_name fs' = labels_of file_name fs \<Longrightarrow>
      labels_of other fs' = labels_of other fs \<Longrightarrow> Q fs' (Inl e)"
    and new: "\<And>fs' r. beside fs fs' \<Longrightarrow> labels_of file_name fs' = Some ls \<Longrightarrow> labels_of other fs' = labels_of other fs \<Longrightarrow> Q fs' r"
  shows "after (save_to file_name ls) Q fs"
proof (rule after_save_to)
  have files: "file_name \<noteq> other" "hidden file_name" "\<not> is_temporary file_name" "\<not> is_temporary other"
    "file_name \<in> {LABEL_FILE, TRASH_FILE}"
    using assms(3) own_files by (auto simp: doubleton_eq_iff)
  from assms(1) show ok: "fs_ok fs" by (rule library_okE)
  show "fresh_inodes fs" "\<not> is_temporary file_name" using assms(2) files by simp_all
  show "labels_of file_name fs \<noteq> None" using assms(1) files(5) by (elim library_okE) auto
  show "Q (quiet n i fs) (Inl e)" for n i e using ok by (intro old) (simp_all add: beside_def)
  show "Q (quiet n i (with_entry name f fs)) (Inl e)"
    if "is_temporary name" "cf_lookup name fs = None" "fresh_file fs f" for n i name f e
  proof (rule old)
    show "beside fs (quiet n i (with_entry name f fs))"
      using fs_ok_with_entry [OF ok that(2,3)] own_files(6) [OF that(1)] by (auto simp: beside_def)
    have "file_name \<noteq> name" "other \<noteq> name" using that(1) files by auto
    then show "labels_of file_name (quiet n i (with_entry name f fs)) = labels_of file_name fs"
      "labels_of other (quiet n i (with_entry name f fs)) = labels_of other fs" by (simp_all add: labels_of_unchanged)
  qed
  show "Q (quiet n i (replaced file_name f fs)) r"
    if "fresh_file fs f" "text_of (fi_bytes f) = labels_text ls" "length (fi_bytes f) \<le> unat LABEL_MAX_BYTES"
      "length ls \<le> MAX_LABEL_ENTRIES" for n i f r
  proof (rule new)
    show "beside fs (quiet n i (replaced file_name f fs))"
      using fs_ok_replaced [OF ok that(1)] files(2) by (auto simp: beside_def)
  qed (use that assms(4,5) files in \<open>auto simp: labels_of_unchanged labels_ok_def intro: labels_of_replaced\<close>)
qed

section \<open>Reading the library\<close>

text \<open>The label \<open>owned_metadata\<close> returns describes the clip.\<close>

definition describes :: "clip_fs \<Rightarrow> string \<Rightarrow> clip_file \<Rightarrow> clip_label \<Rightarrow> bool" where
  "describes fs name f l \<longleftrightarrow> valid_name name \<and> cf_lookup name fs = Some f \<and> label_matches (cf_dev fs) f l
     \<and> clip_label_ok (name, l)
     \<and> (\<exists>labels. labels_of LABEL_FILE fs = Some labels
          \<and> (is_owned_clip_name name \<or> fitting (cf_dev fs) f (map_of labels name) \<noteq> None)
          \<and> lb_original l = (case fitting (cf_dev fs) f (map_of labels name) of None \<Rightarrow> name | Some l \<Rightarrow> lb_original l)
          \<and> lb_favorite l = (case fitting (cf_dev fs) f (map_of labels name) of None \<Rightarrow> False | Some l \<Rightarrow> lb_favorite l))"

lemma describes_quiet [simp]: "describes (quiet n i fs) = describes fs"
  by (simp add: describes_def fun_eq_iff)

lemma after_owned:
  assumes "\<And>n e. Q (quiet n (cf_next_file fs) fs) (Inl e)"
    and "\<And>n f l. describes fs name f l \<Longrightarrow> Q (quiet n (cf_next_file fs) fs) (Inr (f, l))"
  shows "after (owned_metadata name) Q fs"
proof (cases "valid_name name")
  case False
  then show ?thesis using assms(1) [of "cf_calls fs"] by (simp add: owned_metadata_def quiet_def)
next
  case True
  have found: "describes fs name f l"
    if "cf_lookup name fs = Some f" "fi_kind f = RegularFile" "fi_links f = 1" "labels_of LABEL_FILE fs = Some labels"
      "fitting (cf_dev fs) f (map_of labels name) = Some l" for f l labels
    using that True label_names [OF labels_of_ok [OF that(4)], of name l]
    by (auto simp: describes_def fitting_def split: option.splits if_splits)
  have new: "describes fs name f (label_new name (cf_dev fs) f)"
    if "cf_lookup name fs = Some f" "fi_kind f = RegularFile" "fi_links f = 1" "labels_of LABEL_FILE fs = Some labels"
      "fitting (cf_dev fs) f (map_of labels name) = None" "is_owned_clip_name name" for f labels
    using that True by (simp add: describes_def label_new_def label_matches_def clip_label_ok_def)
  show ?thesis
    using True assms found new unfolding owned_metadata_def
    by (auto intro!: after_metadata after_load simp: fitting_def split: option.split)
qed

lemma describes_library:
  assumes "describes fs name f l" "labels_of TRASH_FILE fs = Some trash"
  shows "library fs name = Some (\<lparr>oc_name = name, oc_bytes = len_u64 (fi_bytes f), oc_modified = fi_modified f,
    oc_original = lb_original l, oc_favorite = lb_favorite l, oc_trashed = (fitting (cf_dev fs) f (map_of trash name) \<noteq> None)\<rparr>,
    fi_bytes f)"
  using assms by (auto simp: describes_def library_def scanned_fitting label_matches_def)

lemma after_live:
  assumes "\<And>n e. Q (quiet n (cf_next_file fs) fs) (Inl e)"
    and "\<And>n trash. labels_of TRASH_FILE fs = Some trash \<Longrightarrow> fitting (cf_dev fs) f (map_of trash name) = None \<Longrightarrow>
      Q (quiet n (cf_next_file fs) fs) (Inr ())"
  shows "after (require_live name f) Q fs"
  using assms unfolding require_live_def by (auto intro!: after_load simp: fitting_def split: option.split)

section \<open>Renaming\<close>

text \<open>The old library or the new one, and the new one only if the change is allowed and always after success.\<close>

definition update_post :: "bool \<Rightarrow> clip_library \<Rightarrow> clip_library \<Rightarrow> clip_fs \<Rightarrow> 'e + 'a \<Rightarrow> bool" where
  "update_post allowed lib lib' fs r \<longleftrightarrow> library_ok fs \<and> (library fs = lib \<or> allowed \<and> library fs = lib')
     \<and> (is_ok r \<longrightarrow> allowed \<and> library fs = lib')"

lemma update_post_quiet: "library_ok fs \<Longrightarrow> update_post allowed (library fs) lib' (quiet n i fs) (Inl e)"
  by (simp add: update_post_def)

definition lib_has :: "string \<Rightarrow> clip_library \<Rightarrow> bool" where
  "lib_has name lib \<longleftrightarrow> lib name \<noteq> None"

definition lib_live :: "string \<Rightarrow> clip_library \<Rightarrow> bool" where
  "lib_live name lib \<longleftrightarrow> (case lib name of None \<Rightarrow> False | Some (c, _) \<Rightarrow> \<not> oc_trashed c)"

lemma describes_has: "describes fs name f l \<Longrightarrow> labels_of TRASH_FILE fs = Some trash \<Longrightarrow> lib_has name (library fs)"
  by (simp add: lib_has_def describes_library)

lemma describes_live:
  "describes fs name f l \<Longrightarrow> labels_of TRASH_FILE fs = Some trash \<Longrightarrow> fitting (cf_dev fs) f (map_of trash name) = None \<Longrightarrow>
    lib_live name (library fs)"
  by (simp add: lib_live_def describes_library)

lemma library_missing: "cf_lookup name fs = None \<Longrightarrow> library fs name = None"
  by (simp add: library_def split: option.split)

definition lib_rename :: "string \<Rightarrow> string \<Rightarrow> clip_library \<Rightarrow> clip_library" where
  "lib_rename a b lib = (\<lambda>n. if n = b then map_option (\<lambda>(c, bytes). (c\<lparr>oc_name := b\<rparr>, bytes)) (lib a)
     else if n = a then None else lib n)"

lemma library_name: "library fs name = Some (c, bytes) \<Longrightarrow> oc_name c = name"
  by (auto simp: library_def scanned_fitting bind_eq_Some_conv split: option.splits if_splits)

lemma lib_rename_same: "lib_rename a a (library fs) = library fs"
  by (auto simp: lib_rename_def fun_eq_iff option.map_id dest: library_name split: option.split)
    (cases "library fs a"; auto dest: library_name)

text \<open>Labels that agree on every file do not change the library.\<close>

lemma beside_library:
  assumes "beside fs fs'" "labels_of LABEL_FILE fs = Some labels" "labels_of TRASH_FILE fs = Some trash" "trash_ok fs trash"
    and "labels_of LABEL_FILE fs' = Some labels'" "labels_of TRASH_FILE fs' = Some trash"
    and "\<And>name f. cf_lookup name fs = Some f \<Longrightarrow> \<not> hidden name \<Longrightarrow>
      fitting (cf_dev fs) f (map_of labels' name) = fitting (cf_dev fs) f (map_of labels name)"
  shows "library fs' = library fs" "library_ok fs'"
proof -
  show "library fs' = library fs"
    by (rule library_cong [OF assms(2,3,5,6)]) (use assms(1,7) in \<open>simp_all add: beside_def scanned_fitting\<close>)
  have "trash_ok fs' trash" using assms(1,4) by (auto simp: trash_ok_def beside_def)
  then show "library_ok fs'" using assms(1,5,6) by (simp add: library_ok_def beside_def)
qed

lemma clip_label_ok_rename:
  "clip_label_ok (a, l) \<Longrightarrow> valid_name b \<Longrightarrow> path_extension a = path_extension b \<Longrightarrow> clip_label_ok (b, l)"
  by (simp add: clip_label_ok_def)

lemma labels_ok_live: "labels_ok ls \<Longrightarrow> bt_ok (filter P ls)" "labels_ok ls \<Longrightarrow> list_all clip_label_ok (filter P ls)"
  by (auto simp: labels_ok_def list_all_iff intro: bt_ok_filter)

lemma list_all_bt_insert: "list_all P m \<Longrightarrow> P (k, v) \<Longrightarrow> list_all P (bt_insert k v m)"
  using set_bt_insert [of k v m] by (auto simp: list_all_iff)

text \<open>The last step: the name changes, and the label is already there.\<close>

lemma renamed_library:
  assumes "fs_ok fs" "labels_of LABEL_FILE fs = Some labels" "labels_of TRASH_FILE fs = Some trash" "trash_ok fs trash"
    and "describes fs a f l" "fitting (cf_dev fs) f (map_of trash a) = None" "map_of labels b = Some l"
    and "valid_name b" "cf_lookup b fs = None" "a \<noteq> b"
  defines "fs' \<equiv> fs\<lparr>cf_entries := rename_entry a b (cf_entries fs)\<rparr>"
  shows "library fs' = lib_rename a b (library fs)" "library_ok fs'"
proof -
  have d: "valid_name a" "cf_lookup a fs = Some f" "label_matches (cf_dev fs) f l"
    using assms(5) by (simp_all add: describes_def)
  have lookup: "cf_lookup m fs' = (if m = b then Some f else if m = a then None else cf_lookup m fs)" for m
    using lookup_rename_entry [of "cf_entries fs" b a m] assms(1,9,10) d(2) by (simp add: fs'_def fs_ok_def cf_lookup_def)
  have "labels_of n fs' = labels_of n fs" if "hidden n" for n
  proof -
    have "n \<noteq> a" "n \<noteq> b" using that names_visible(1) d(1) assms(8) by auto
    moreover have "cf_uid fs' = cf_uid fs" by (simp add: fs'_def)
    ultimately show ?thesis by (simp add: labels_of_def lookup cong: option.case_cong)
  qed
  then have labels: "labels_of LABEL_FILE fs' = Some labels" "labels_of TRASH_FILE fs' = Some trash"
    using assms(2,3) own_files by simp_all
  have dev: "cf_dev fs' = cf_dev fs" by (simp add: fs'_def)
  have trash: "fitting (cf_dev fs) f (map_of trash n) = None" for n
  proof (rule ccontr)
    assume "fitting (cf_dev fs) f (map_of trash n) \<noteq> None"
    then obtain k where k: "map_of trash n = Some k" "label_matches (cf_dev fs) f k"
      by (auto simp: fitting_def split: option.splits if_splits)
    then have "a = n" using assms(4) d(2) names_visible(1) [OF d(1)] by (auto simp: trash_ok_def)
    then show False using k assms(6) by (simp add: fitting_def)
  qed
  show "library fs' = lib_rename a b (library fs)"
  proof
    fix n
    have "library fs' b = map_option (\<lambda>(c, bytes). (c\<lparr>oc_name := b\<rparr>, bytes)) (library fs a)"
      using d(3) describes_library [OF assms(5,3)] trash
      by (simp add: library_labels [OF labels] lookup dev scanned_fitting assms(7) fitting_def label_matches_def)
    then show "library fs' n = lib_rename a b (library fs) n"
      by (simp add: lib_rename_def library_labels [OF labels] library_labels [OF assms(2,3)] lookup dev)
  qed
  have "\<not> label_matches (cf_dev fs) f k" if "map_of trash n = Some k" for n k
    using trash [of n] that by (auto simp: fitting_def split: if_splits)
  then have "trash_ok fs' trash" using assms(4) unfolding trash_ok_def lookup dev by (auto split: if_splits)
  then show "library_ok fs'"
    using labels fs_ok_rename_entry [OF assms(1,9)] by (simp add: library_ok_def fs'_def)
qed

lemma after_rename_noreplace:
  assumes "cf_lookup a fs = Some f" "cf_lookup b fs = None" "\<And>n e. Q (quiet n (cf_next_file fs) fs) (Inl e)"
    and "\<And>n. Q (quiet n (cf_next_file fs) (fs\<lparr>cf_entries := rename_entry a b (cf_entries fs)\<rparr>)) (Inr ())"
  shows "after (cf_rename_noreplace a b) Q fs"
  using assms unfolding cf_rename_noreplace_def
  by (intro after_call) (simp_all add: after_def entries_quiet)

text \<open>What may be left of a renaming, and what is left when it succeeds.\<close>

abbreviation (input) rename_post :: "string \<Rightarrow> string \<Rightarrow> clip_library \<Rightarrow> clip_fs \<Rightarrow> string + unit \<Rightarrow> bool" where
  "rename_post a b lib \<equiv> update_post (lib_live a lib \<and> (a = b \<or> lib b = None)) lib (lib_rename a b lib)"

lemma commit_rename:
  assumes ok: "library_ok fs" and side: "beside fs fs'" and desc: "describes fs a f l"
    and labels: "labels_of LABEL_FILE fs = Some labels" "labels_of TRASH_FILE fs = Some trash"
    and labels': "labels_of LABEL_FILE fs' = Some (bt_insert b l (filter (label_live fs) labels))"
      "labels_of TRASH_FILE fs' = Some trash"
    and new: "valid_name b" "cf_lookup b fs = None" "a \<noteq> b" "fitting (cf_dev fs) f (map_of trash a) = None"
  shows "after (rename_checked a b f) (rename_post a b (library fs)) fs'"
proof -
  let ?labels = "bt_insert b l (filter (label_live fs) labels)"
  have t: "trash_ok fs trash" "labels_ok labels" using ok labels by (auto elim: library_okE)
  have fit: "fitting (cf_dev fs) g (map_of ?labels m) = fitting (cf_dev fs) g (map_of labels m)"
    if "cf_lookup m fs = Some g" for m g
    using that new(2) fitting_live [OF t(2) that] by auto
  note same = beside_library [OF side labels t(1) labels' fit]
  have visible: "\<not> hidden a" "\<not> hidden b" using desc new(1) names_visible(1) by (auto simp: describes_def)
  then have look: "cf_lookup a fs' = Some f" "cf_lookup b fs' = None" "fs_ok fs'" "cf_dev fs' = cf_dev fs"
    using side desc new(2) by (simp_all add: beside_def describes_def)
  have desc': "describes fs' a f l"
    using desc look labels' fit [of a f] labels new(3) by (auto simp: describes_def)
  have "trash_ok fs' trash" using same(2) labels'(2) by (simp add: library_ok_def)
  from renamed_library [OF look(3) labels' this desc' _ _ new(1) look(2) new(3)]
  have renamed: "library (fs'\<lparr>cf_entries := rename_entry a b (cf_entries fs')\<rparr>) = lib_rename a b (library fs)"
    "library_ok (fs'\<lparr>cf_entries := rename_entry a b (cf_entries fs')\<rparr>)"
    using new(4) look(4) same(1) by simp_all
  have "lib_live a (library fs)" "library fs b = None"
    using describes_live [OF desc labels(2) new(4)] library_missing new(2) by simp_all
  with same renamed look show ?thesis
    unfolding rename_checked_def by (auto simp: update_post_def entries_quiet intro!: after_metadata after_rename_noreplace [where f = f] after_sync)
qed

text \<open>A label file with a label for a name that no file has yet.\<close>

lemma fitting_new:
  assumes "labels_ok labels" "cf_lookup b fs = None" "cf_lookup m fs = Some g"
  shows "fitting (cf_dev fs) g (map_of (bt_insert b l (filter (label_live fs) labels)) m) = fitting (cf_dev fs) g (map_of labels m)"
  using assms fitting_live [OF assms(1,3)] by auto

lemma after_rename_labelled:
  assumes ok: "library_ok fs" "fresh_inodes fs" and d: "describes fs a f l"
    and labels: "labels_of LABEL_FILE fs = Some labels" "labels_of TRASH_FILE fs = Some trash"
    and b: "valid_name b" "path_extension a = path_extension b" "cf_lookup b fs = None" "a \<noteq> b"
      "fitting (cf_dev fs) f (map_of trash a) = None"
  shows "after (rename_labelled a b f (bt_insert b l (filter (label_live fs) labels))) (rename_post a b (library fs)) (quiet n i fs)"
  unfolding rename_labelled_def after_then after_io
proof (rule after_save_labels [where other = TRASH_FILE])
  have l: "labels_ok labels" "trash_ok fs trash" using ok(1) labels by (auto elim: library_okE)
  show "library_ok (quiet n i fs)" "fresh_inodes (quiet n i fs)" using ok by simp_all
  show "bt_ok (bt_insert b l (filter (label_live fs) labels))" by (intro bt_ok_insert labels_ok_live(1) l(1))
  have "clip_label_ok (b, l)" using d b(1,2) clip_label_ok_rename by (auto simp: describes_def)
  then show "list_all clip_label_ok (bt_insert b l (filter (label_live fs) labels))"
    by (intro list_all_bt_insert labels_ok_live(2) l(1))
  let ?post = "\<lambda>fs' r. case map_err (store_io_error ''could not save replay filename metadata'') r of
      Inl e \<Rightarrow> rename_post a b (library fs) fs' (Inl e) | Inr x \<Rightarrow> after (rename_checked a b f) (rename_post a b (library fs)) fs'"
  show "?post fs' (Inl e)" if "beside (quiet n i fs) fs'" "labels_of LABEL_FILE fs' = labels_of LABEL_FILE (quiet n i fs)"
      "labels_of TRASH_FILE fs' = labels_of TRASH_FILE (quiet n i fs)" for fs' e
    using beside_library [of fs fs' labels trash labels, OF _ labels l(2)] that labels by (simp add: beside_def update_post_def)
  show "?post fs' r" if "beside (quiet n i fs) fs'" "labels_of LABEL_FILE fs' = Some (bt_insert b l (filter (label_live fs) labels))"
      "labels_of TRASH_FILE fs' = labels_of TRASH_FILE (quiet n i fs)" for fs' r
  proof -
    have s: "beside fs fs'" "labels_of TRASH_FILE fs' = Some trash" using that labels by (simp_all add: beside_def)
    from beside_library [OF s(1) labels l(2) that(2) s(2) fitting_new [OF l(1) b(3)]]
      commit_rename [OF ok(1) s(1) d labels that(2) s(2) b(1,3,4,5)]
    show ?thesis by (cases r) (simp_all add: update_post_def)
  qed
qed (use own_files in auto)

lemma after_rename:
  assumes "library_ok fs" "fresh_inodes fs" "inspects fs"
  shows "after (rename_clip a b) (rename_post a b (library fs)) fs"
proof -
  obtain labels trash where l: "labels_of LABEL_FILE fs = Some labels" "labels_of TRASH_FILE fs = Some trash"
    using assms(1) by (rule library_okE)
  have kept: "rename_post a b (library fs) (quiet n i fs) (Inl e)" for n i e
    using assms(1) by (simp add: update_post_def)
  have "rename_post a a (library fs) (quiet n i fs) (Inr ())"
    if "describes fs a f l" "fitting (cf_dev fs) f (map_of trash a) = None" for n i f l
    using assms(1) describes_live [OF that(1) l(2) that(2)] by (simp add: update_post_def lib_rename_same)
  then show ?thesis
    using kept assms(3) l after_rename_labelled [OF assms(1,2) _ l]
      kept [of "cf_calls fs" "cf_next_file fs", unfolded quiet_def, simplified]
    unfolding rename_clip_def
    by (cases "a = b")
      (auto intro!: after_validate after_owned after_live after_metadata_found after_load after_prune split: option.split)
qed

section \<open>Favorites and the trash\<close>

definition lib_update :: "string \<Rightarrow> (owned_clip \<Rightarrow> owned_clip) \<Rightarrow> clip_library \<Rightarrow> clip_library" where
  "lib_update name g lib = lib(name := map_option (\<lambda>(c, bytes). (g c, bytes)) (lib name))"

lemma after_save_library:
  assumes "library_ok fs" "fresh_inodes fs" "{file_name, other} = {LABEL_FILE, TRASH_FILE}" "bt_ok ls" "list_all clip_label_ok ls"
    and "allowed" and new: "\<And>fs'. beside fs fs' \<Longrightarrow> labels_of file_name fs' = Some ls \<Longrightarrow> labels_of other fs' = labels_of other fs \<Longrightarrow>
      library fs' = lib' \<and> library_ok fs'"
  shows "after (save_to file_name ls) (\<lambda>fs' r. update_post allowed (library fs) lib' fs' (map_err g r)) (quiet n i fs)"
proof (rule after_save_labels [where other = other])
  obtain labels trash where l: "labels_of LABEL_FILE fs = Some labels" "labels_of TRASH_FILE fs = Some trash" "trash_ok fs trash"
    using assms(1) by (rule library_okE)
  show "update_post allowed (library fs) lib' fs' (map_err g (Inl e))"
    if "beside (quiet n i fs) fs'" "labels_of file_name fs' = labels_of file_name (quiet n i fs)"
      "labels_of other fs' = labels_of other (quiet n i fs)" for fs' e
  proof -
    have "labels_of LABEL_FILE fs' = Some labels" "labels_of TRASH_FILE fs' = Some trash"
      using that(2,3) assms(3) l by (auto simp: doubleton_eq_iff)
    from beside_library [OF _ l this refl] that(1) show ?thesis by (simp add: beside_def update_post_def)
  qed
  show "update_post allowed (library fs) lib' fs' (map_err g r)"
    if "beside (quiet n i fs) fs'" "labels_of file_name fs' = Some ls" "labels_of other fs' = labels_of other (quiet n i fs)" for fs' r
    using new [of fs'] that assms(6) by (simp add: beside_def update_post_def)
qed (use assms in simp_all)

lemma unique_name:
  assumes "fs_ok fs" "cf_lookup a fs = Some f" "cf_lookup m fs = Some g" "fi_ino g = fi_ino f" "fi_links f = 1"
  shows "m = a"
proof (rule ccontr)
  assume "m \<noteq> a"
  have e: "(a, f) \<in> set (cf_entries fs)" "(m, g) \<in> set (cf_entries fs)"
    using assms(2,3) by (simp_all add: cf_lookup_def map_of_SomeD)
  then have "cf_links (fi_ino f) (cf_entries fs) \<le> 1" using assms(1,5) by (force simp: fs_ok_def)
  then have "cf_links (fi_ino f) (filter (\<lambda>(n, _). n \<noteq> a) (cf_entries fs)) = 0"
    using links_remove [of "cf_entries fs" a f "fi_ino f"] assms(1,2) by (simp add: fs_ok_def cf_lookup_def)
  then show False using e(2) \<open>m \<noteq> a\<close> assms(4) by (force simp: links_zero)
qed

lemma describes_file: "describes fs a f l \<Longrightarrow> cf_lookup a fs = Some f \<and> fi_kind f = RegularFile \<and> fi_links f = 1
  \<and> label_matches (cf_dev fs) f l \<and> clip_label_ok (a, l) \<and> valid_name a"
  by (simp add: describes_def label_matches_def)

text \<open>Labels that differ for one clip.\<close>

lemma update_library:
  assumes "beside fs fs'" "\<not> hidden a"
    and labels: "labels_of LABEL_FILE fs = Some labels" "labels_of TRASH_FILE fs = Some trash"
    and labels': "labels_of LABEL_FILE fs' = Some labels'" "labels_of TRASH_FILE fs' = Some trash'"
    and scan: "\<And>m f. cf_lookup m fs = Some f \<Longrightarrow> scanned_clip (cf_dev fs) trash' labels' m f
      = (if m = a then map_option g (scanned_clip (cf_dev fs) trash labels m f) else scanned_clip (cf_dev fs) trash labels m f)"
  shows "library fs' = lib_update a g (library fs)"
proof
  fix m
  have none: "library k m = None" if "labels_of LABEL_FILE k = Some ls" "labels_of TRASH_FILE k = Some ts" "hidden m" for k ls ts
    using scanned_hidden [OF labels_of_ok [OF that(1)] that(3)] by (simp add: library_labels [OF that(1,2)] bind_eq_None_conv)
  show "library fs' m = lib_update a g (library fs) m"
  proof (cases "hidden m")
    case True
    then show ?thesis using assms(2) none [OF labels] none [OF labels'] by (auto simp: lib_update_def)
  next
    case False
    then have look: "cf_lookup m fs' = cf_lookup m fs" "cf_dev fs' = cf_dev fs" using assms(1) by (simp_all add: beside_def)
    show ?thesis
    proof (cases "cf_lookup m fs")
      case (Some f)
      then show ?thesis
        using scan [OF Some]
        by (auto simp: lib_update_def library_labels [OF labels'] library_labels [OF labels] look option.map_comp comp_def)
    qed (auto simp: lib_update_def library_labels [OF labels'] library_labels [OF labels] look)
  qed
qed

lemma favorite_library:
  assumes ok: "library_ok fs" and d: "describes fs a f l" and side: "beside fs fs'"
    and labels: "labels_of LABEL_FILE fs = Some labels" "labels_of TRASH_FILE fs = Some trash"
    and labels': "labels_of LABEL_FILE fs' = Some (bt_insert a (l\<lparr>lb_favorite := v\<rparr>) (filter (label_live fs) labels))"
      "labels_of TRASH_FILE fs' = labels_of TRASH_FILE fs"
  shows "library fs' = lib_update a (\<lambda>c. c\<lparr>oc_favorite := v\<rparr>) (library fs) \<and> library_ok fs'"
proof
  let ?labels = "bt_insert a (l\<lparr>lb_favorite := v\<rparr>) (filter (label_live fs) labels)"
  have l: "labels_ok labels" "trash_ok fs trash" using ok labels by (auto elim: library_okE)
  have trash: "labels_of TRASH_FILE fs' = Some trash" using labels'(2) labels(2) by simp
  have "trash_ok fs' trash" using l(2) side by (auto simp: trash_ok_def beside_def)
  then show "library_ok fs'" using side labels'(1) trash by (simp add: library_ok_def beside_def)
  note f = describes_file [OF d]
  have scan: "scanned_clip (cf_dev fs) trash ?labels m g = (if m = a
      then map_option (\<lambda>c. c\<lparr>oc_favorite := v\<rparr>) (scanned_clip (cf_dev fs) trash labels m g)
      else scanned_clip (cf_dev fs) trash labels m g)" if m: "cf_lookup m fs = Some g" for m g
  proof (cases "m = a")
    case True
    then have "fitting (cf_dev fs) g (map_of ?labels a) = Some (l\<lparr>lb_favorite := v\<rparr>)" "g = f"
      using f m by (simp_all add: fitting_def label_matches_def)
    then show ?thesis using True d labels(1) by (auto simp: scanned_fitting describes_def label_matches_def)
  next
    case False
    then show ?thesis using fitting_live [OF l(1) m] by (simp add: scanned_fitting)
  qed
  show "library fs' = lib_update a (\<lambda>c. c\<lparr>oc_favorite := v\<rparr>) (library fs)"
    using update_library [OF side _ labels labels'(1) trash scan] names_visible(1) f by simp
qed

lemma after_favorite:
  assumes "library_ok fs" "fresh_inodes fs" "inspects fs"
  shows "after (set_favorite a v) (update_post (lib_live a (library fs)) (library fs) (lib_update a (\<lambda>c. c\<lparr>oc_favorite := v\<rparr>) (library fs))) fs"
proof -
  obtain labels trash where l: "labels_of LABEL_FILE fs = Some labels" "labels_of TRASH_FILE fs = Some trash" "labels_ok labels"
    using assms(1) by (rule library_okE)
  have "after (save_to LABEL_FILE (bt_insert a (k\<lparr>lb_favorite := v\<rparr>) (filter (label_live fs) labels)))
      (\<lambda>fs' r. update_post (lib_live a (library fs)) (library fs) (lib_update a (\<lambda>c. c\<lparr>oc_favorite := v\<rparr>) (library fs)) fs' (map_err g r)) (quiet n i fs)"
    if d: "describes fs a f k" "fitting (cf_dev fs) f (map_of trash a) = None" for f k g n i
  proof (rule after_save_library [OF assms(1,2), where other = TRASH_FILE])
    show "lib_live a (library fs)" by (rule describes_live [OF d(1) l(2) d(2)])
    have "clip_label_ok (a, k\<lparr>lb_favorite := v\<rparr>)" using describes_file [OF d(1)] by (simp add: clip_label_ok_def)
    then show "list_all clip_label_ok (bt_insert a (k\<lparr>lb_favorite := v\<rparr>) (filter (label_live fs) labels))"
      by (intro list_all_bt_insert labels_ok_live(2) l(3))
  qed (use favorite_library [OF assms(1) d(1) _ l(1,2)] l(3) in \<open>simp_all add: bt_ok_insert labels_ok_live(1)\<close>)
  then show ?thesis
    using update_post_quiet [OF assms(1)] assms(3) l unfolding set_favorite_def
    by (auto intro!: after_validate after_owned after_live after_load after_prune)
qed

definition bin_of :: "string \<Rightarrow> bool \<Rightarrow> clip_label \<Rightarrow> clip_labels \<Rightarrow> clip_labels" where
  "bin_of name trashed label bin = (if trashed then bt_insert name label bin else bt_remove name bin)"

lemma map_of_bin: "map_of (bin_of a v l bin) m = (if m = a then if v then Some l else None else map_of bin m)"
  by (simp add: bin_of_def)

lemma fitting_iff:
  "(case x of Some l \<Rightarrow> label_matches dev f l | None \<Rightarrow> False) \<longleftrightarrow> fitting dev f x \<noteq> None"
  by (simp add: fitting_def split: option.split)

lemma trash_library:
  assumes ok: "library_ok fs" and d: "describes fs a f l" and side: "beside fs fs'"
    and labels: "labels_of LABEL_FILE fs = Some labels" "labels_of TRASH_FILE fs = Some trash"
    and labels': "labels_of TRASH_FILE fs' = Some (bin_of a v l (filter (label_live fs) trash))"
      "labels_of LABEL_FILE fs' = labels_of LABEL_FILE fs"
  shows "library fs' = lib_update a (\<lambda>c. c\<lparr>oc_trashed := v\<rparr>) (library fs) \<and> library_ok fs'"
proof
  let ?trash = "bin_of a v l (filter (label_live fs) trash)"
  have l: "labels_ok trash" "trash_ok fs trash" "fs_ok fs" using ok labels by (auto elim: library_okE)
  have lab: "labels_of LABEL_FILE fs' = Some labels" using labels'(2) labels(1) by simp
  note f = describes_file [OF d]
  have fit: "fitting (cf_dev fs) g (map_of ?trash m) = (if m = a then if v then Some l else None else fitting (cf_dev fs) g (map_of trash m))"
    if m: "cf_lookup m fs = Some g" for m g
    using fitting_live [OF l(1) m] m f by (auto simp: map_of_bin fitting_def)
  have "m = n" if "map_of ?trash n = Some k" "cf_lookup m fs = Some g" "\<not> hidden m" "label_matches (cf_dev fs) g k" for n k m g
  proof (cases "n = a")
    case True
    with that(1) have "k = l" by (simp add: map_of_bin split: if_splits)
    then have "fi_ino g = fi_ino f" "cf_lookup a fs = Some f" "fi_links f = 1"
      using that(4) f by (simp_all add: label_matches_def)
    with unique_name [OF l(3) _ that(2)] show ?thesis using True by blast
  next
    case False
    then have "map_of trash n = Some k"
      using that(1) l(1) by (auto simp: map_of_bin map_of_filter bt_ok_distinct labels_ok_def split: option.splits if_splits)
    then show ?thesis using l(2) that(2-4) by (auto simp: trash_ok_def)
  qed
  then have "trash_ok fs' ?trash" using side by (auto simp: trash_ok_def beside_def)
  then show "library_ok fs'" using side labels'(1) lab by (simp add: library_ok_def beside_def)
  have scan: "scanned_clip (cf_dev fs) ?trash labels m g = (if m = a
      then map_option (\<lambda>c. c\<lparr>oc_trashed := v\<rparr>) (scanned_clip (cf_dev fs) trash labels m g)
      else scanned_clip (cf_dev fs) trash labels m g)" if m: "cf_lookup m fs = Some g" for m g
    using fit [OF m] by (cases "m = a") (auto simp: scanned_fitting)
  show "library fs' = lib_update a (\<lambda>c. c\<lparr>oc_trashed := v\<rparr>) (library fs)"
    using update_library [OF side _ labels lab labels'(1) scan] names_visible(1) f by simp
qed

lemma after_trashed:
  assumes "library_ok fs" "fresh_inodes fs" "inspects fs"
  shows "after (set_trashed a v) (update_post (lib_has a (library fs)) (library fs) (lib_update a (\<lambda>c. c\<lparr>oc_trashed := v\<rparr>) (library fs))) fs"
proof -
  obtain labels trash where l: "labels_of LABEL_FILE fs = Some labels" "labels_of TRASH_FILE fs = Some trash" "labels_ok trash"
    using assms(1) by (rule library_okE)
  let ?post = "update_post (lib_has a (library fs)) (library fs) (lib_update a (\<lambda>c. c\<lparr>oc_trashed := v\<rparr>) (library fs))"
  have save: "after (save_to TRASH_FILE (bin_of a v k (filter (label_live fs) trash)))
      (\<lambda>fs' r. ?post fs' (map_err g r)) (quiet n i fs)" if d: "describes fs a f k" for f k g n i
  proof (rule after_save_library [OF assms(1,2), where other = LABEL_FILE])
    show "bt_ok (bin_of a v k (filter (label_live fs) trash))"
      using l(3) by (simp add: bin_of_def bt_ok_insert bt_ok_remove labels_ok_live(1))
    show "list_all clip_label_ok (bin_of a v k (filter (label_live fs) trash))"
      using list_all_bt_insert [OF labels_ok_live(2) [OF l(3)]] labels_ok_live(2) [OF l(3), of "label_live fs"] describes_file [OF d]
      by (auto simp: bin_of_def bt_remove_def list_all_iff)
  qed (use trash_library [OF assms(1) d _ l(1,2)] describes_has [OF d l(2)] in auto)
  have same: "?post (quiet n i fs) (Inr () :: string + unit)" if "describes fs a f k" "(fitting (cf_dev fs) f (map_of trash a) \<noteq> None) = v" for f k n i
  proof -
    have "lib_update a (\<lambda>c. c\<lparr>oc_trashed := v\<rparr>) (library fs) = library fs"
      using describes_library [OF that(1) l(2)] that(2) by (auto simp: lib_update_def fun_eq_iff)
    then show ?thesis using assms(1) describes_has [OF that(1) l(2)] by (simp add: update_post_def)
  qed
  have bin: "(if v then bt_insert a k b else bt_remove a b) = bin_of a v k b" for k b by (simp add: bin_of_def)
  have kept: "?post (quiet n i fs) (Inl e :: string + unit)" for n i e by (rule update_post_quiet [OF assms(1)])
  define unchanged where "unchanged bin f fs \<longleftrightarrow> (fitting (cf_dev fs) f (map_of bin a) \<noteq> None) = v" for bin f and fs :: clip_fs
  have unchanged: "?post (quiet n i fs) (Inr () :: string + unit)" if "describes fs a f k" "unchanged trash f fs" for f k n i
    using same [OF that(1)] that(2) by (simp add: unchanged_def)
  have quiet: "unchanged trash f (quiet n i fs) = unchanged trash f fs" for f n i by (simp add: unchanged_def)
  show ?thesis
    using kept assms(3) l unfolding set_trashed_def bin fitting_iff unchanged_def [symmetric]
    by (auto intro!: after_validate after_owned after_load after_prune save simp: quiet) (use unchanged in fast)+
qed

section \<open>Deletion\<close>

definition lib_delete :: "string \<Rightarrow> clip_library \<Rightarrow> clip_library" where
  "lib_delete name lib = lib(name := None)"

abbreviation without :: "string \<Rightarrow> clip_fs \<Rightarrow> clip_fs" where
  "without name fs \<equiv> fs\<lparr>cf_entries := filter (\<lambda>(n, _). n \<noteq> name) (cf_entries fs)\<rparr>"

lemma deleted_library:
  assumes "library_ok fs" "\<not> hidden a"
  shows "library (without a fs) = lib_delete a (library fs) \<and> library_ok (without a fs)"
proof -
  obtain labels trash where l: "fs_ok fs" "labels_of LABEL_FILE fs = Some labels" "labels_of TRASH_FILE fs = Some trash" "trash_ok fs trash"
    using assms(1) by (rule library_okE)
  have look: "cf_lookup m (without a fs) = (if m = a then None else cf_lookup m fs)" for m
    by (simp add: lookup_filter cf_lookup_def)
  have "labels_of n (without a fs) = labels_of n fs" if "hidden n" for n
    using that assms(2) by (auto simp: labels_of_def look simp del: lookup_entries cong: option.case_cong)
  then have labels: "labels_of LABEL_FILE (without a fs) = Some labels" "labels_of TRASH_FILE (without a fs) = Some trash"
    using l(2,3) own_files by simp_all
  have "trash_ok (without a fs) trash" using l(4) unfolding trash_ok_def look by simp
  with labels fs_ok_filter [OF l(1)] show ?thesis
    by (simp add: library_ok_def fun_eq_iff lib_delete_def library_labels [OF labels] library_labels [OF l(2,3)] look del: lookup_entries)
qed

lemma after_remove_clip:
  assumes "fs_ok fs" "cf_lookup name fs = Some f" "fi_links f = 1" "\<And>n e. Q (quiet n (cf_next_file fs) fs) (Inl e)"
    and "\<And>n. Q (quiet n (cf_next_file fs) (without name fs)) (Inr ())"
  shows "after (cf_remove_file name) Q fs"
  unfolding cf_remove_file_def using assms unlink_only [OF assms(1,2)]
  by (intro after_call) (simp_all add: after_def entries_quiet)

lemma after_delete:
  assumes "library_ok fs"
  shows "after (delete_clip a) (update_post (lib_has a (library fs)) (library fs) (lib_delete a (library fs))) fs"
proof -
  obtain trash where l: "fs_ok fs" "labels_of TRASH_FILE fs = Some trash" using assms(1) by (rule library_okE)
  have kept: "update_post allowed (library fs) lib' (quiet n i fs) (Inl e :: string + clip_entry)" for allowed lib' n i e
    by (rule update_post_quiet [OF assms])
  have gone: "update_post (lib_has a (library fs)) (library fs) (lib_delete a (library fs)) (quiet n i (without a fs)) r"
    if "describes fs a f k" for f k n i and r :: "string + clip_entry"
    using deleted_library [OF assms, of a] names_visible(1) [of a] describes_file [OF that] describes_has [OF that l(2)]
    by (simp add: update_post_def)
  have remove: "after (cf_remove_file a) Q (quiet n i fs)"
    if "describes fs a f k" "\<And>m e. Q (quiet m i fs) (Inl e)" "\<And>m. Q (quiet m i (without a fs)) (Inr ())" for f k n i Q
    using that l(1) describes_file [OF that(1)] by (intro after_remove_clip [where f = f]) (simp_all add: entries_quiet)
  show ?thesis
    unfolding delete_clip_def thumbnails_remove_def
    by (auto intro!: after_validate after_owned after_probe kept) (rule remove, auto intro!: after_sync kept intro: gone)
qed

section \<open>The library's contract\<close>

text \<open>What a user can do to a saved clip, in the store and in the library.\<close>

datatype clip_action = RenameClip string string | FavoriteClip string bool | TrashClip string bool | DeleteClip string

primrec perform :: "clip_action \<Rightarrow> (string, unit) cf_op" where
  "perform (RenameClip a b) = rename_clip a b"
| "perform (FavoriteClip a v) = set_favorite a v"
| "perform (TrashClip a v) = set_trashed a v"
| "perform (DeleteClip a) = cf_then (delete_clip a) (\<lambda>_. cf_return (Inr ()))"

primrec lib_allows :: "clip_action \<Rightarrow> clip_library \<Rightarrow> bool" where
  "lib_allows (RenameClip a b) lib \<longleftrightarrow> lib_live a lib \<and> (a = b \<or> lib b = None)"
| "lib_allows (FavoriteClip a v) lib \<longleftrightarrow> lib_live a lib"
| "lib_allows (TrashClip a v) lib \<longleftrightarrow> lib_has a lib"
| "lib_allows (DeleteClip a) lib \<longleftrightarrow> lib_has a lib"

primrec lib_perform :: "clip_action \<Rightarrow> clip_library \<Rightarrow> clip_library" where
  "lib_perform (RenameClip a b) lib = lib_rename a b lib"
| "lib_perform (FavoriteClip a v) lib = lib_update a (\<lambda>c. c\<lparr>oc_favorite := v\<rparr>) lib"
| "lib_perform (TrashClip a v) lib = lib_update a (\<lambda>c. c\<lparr>oc_trashed := v\<rparr>) lib"
| "lib_perform (DeleteClip a) lib = lib_delete a lib"

lemma update_post_unit: "update_post allowed lib lib' fs (Inr x) \<Longrightarrow> update_post allowed lib lib' fs (Inr y)"
  by (simp add: update_post_def)

lemma after_perform:
  assumes "library_ok fs" "fresh_inodes fs" "inspects fs"
  shows "after (perform act) (update_post (lib_allows act (library fs)) (library fs) (lib_perform act (library fs))) fs"
proof (cases act)
  case (DeleteClip a)
  show ?thesis
    unfolding DeleteClip perform.simps after_then
    by (rule after_mono [OF after_delete [OF assms(1)]])
      (auto split: sum.split intro: update_post_unit simp: update_post_def)
qed (use after_rename [OF assms] after_favorite [OF assms] after_trashed [OF assms] in simp_all)

text \<open>C17: renaming a saved clip, marking it as a favorite, moving it in or out of the trash and deleting it are
  transactions on the library of clips that the store presents. Whichever system call fails on the way, and hence
  wherever the program stops, the library is the old one or exactly the one the action asks for, every other clip
  with its contents untouched; the action happens only if it is allowed (the clip is there, a clip in the trash is not renamed
  or marked, no clip takes the name of another), it has happened when success is reported, and the directory stays
  well formed. The file system never refuses to inspect an entry, and new files get inode numbers no entry has.\<close>

theorem clip_actions_are_atomic:
  assumes "library_ok fs" "fresh_inodes fs" "inspects fs" "perform act fs = (fs', r)"
  shows "library_ok fs' \<and> (library fs' = library fs \<or> lib_allows act (library fs) \<and> library fs' = lib_perform act (library fs))
    \<and> (r = Inr () \<longrightarrow> lib_allows act (library fs) \<and> library fs' = lib_perform act (library fs))"
  using afterD [OF after_perform [OF assms(1-3)] assms(4)] by (auto simp: update_post_def)

text \<open>Comparisons with large numbers as integers, for evaluation.\<close>

lemma is_whitespace_code [code]:
  "is_whitespace p \<longleftrightarrow> (let p = int p in 9 \<le> p \<and> p \<le> 13 \<or> p \<in> {32, 133, 160, 5760, 8232, 8233, 8239, 8287, 12288}
     \<or> 8192 \<le> p \<and> p \<le> 8202)"
  by (simp add: is_whitespace_def Let_def)

lemma save_to_code [code]:
  "save_to file_name labels =
     (let text = labels_text labels
      in if int (length labels) > 4096 \<or> int (length text) > 2097152 then cf_return (Inl (other_error invalid_labels))
         else
           cf_then (cf_map_err other_error create_temporary) (\<lambda>temporary.
             cf_or_else
               (cf_then (cf_write temporary (ascii text)) (\<lambda>_. cf_then cf_probe (\<lambda>_.
                  cf_then (cf_rename temporary file_name) (\<lambda>_. cf_sync_directory))))
               (\<lambda>fs. fst (cf_remove_file temporary fs))))"
proof -
  have "unat LABEL_MAX_BYTES = 2097152" by (simp add: LABEL_MAX_BYTES_def)
  then show ?thesis by (simp add: save_to_def MAX_LABEL_ENTRIES_def Let_def)
qed

text \<open>A store with two clips, one of them renamed.\<close>

definition sample_file :: "u64 \<Rightarrow> u8 list \<Rightarrow> clip_file" where
  "sample_file ino bytes = \<lparr>fi_kind = RegularFile, fi_bytes = bytes, fi_modified = 5, fi_ino = ino, fi_links = 1, fi_uid = 1000\<rparr>"

definition sample_store :: clip_fs where
  "sample_store = \<lparr>cf_directory = DirectoryPresent, cf_uid = 1000, cf_dev = 3,
     cf_entries = [(STORE_MARKER, sample_file 1 STORE_MARKER_CONTENTS), (''redunar-replay-1.mkv'', sample_file 2 [7]),
       (''redunar-replay-2.mkv'', sample_file 4 [8])],
     cf_next_file = 0, cf_process = 1, cf_fault = (\<lambda>_ _. None), cf_inos = (\<lambda>_. 9), cf_clock = (\<lambda>_. 0), cf_calls = 0\<rparr>"

lemma sample_labels: "labels_of LABEL_FILE sample_store = Some []" "labels_of TRASH_FILE sample_store = Some []"
  by code_simp+

lemma sample_store_ok: "library_ok sample_store" "fresh_inodes sample_store" "inspects sample_store"
proof -
  have "fs_ok sample_store" by code_simp
  then show "library_ok sample_store" by (simp add: library_ok_def trash_ok_def sample_labels)
  show "fresh_inodes sample_store" by (simp add: fresh_inodes_def sample_store_def sample_file_def)
  show "inspects sample_store" by (simp add: inspects_def sample_store_def)
qed

theorem clip_actions_are_atomic_witness:
  "snd (perform (RenameClip ''redunar-replay-1.mkv'' ''a.mkv'') sample_store) = Inr ()
   \<and> map_option snd (library (fst (perform (RenameClip ''redunar-replay-1.mkv'' ''a.mkv'') sample_store)) ''a.mkv'') = Some [7]"
proof -
  let ?act = "RenameClip ''redunar-replay-1.mkv'' ''a.mkv''"
  obtain fs' r where run: "perform ?act sample_store = (fs', r)" by fastforce
  have r: "snd (perform ?act sample_store) = Inr ()" by code_simp
  have "is_owned_clip_name ''redunar-replay-1.mkv''" by code_simp
  then have old: "map_option snd (library sample_store ''redunar-replay-1.mkv'') = Some [7]"
    unfolding library_labels [OF sample_labels]
    by (simp add: scanned_fitting fitting_def cf_lookup_def sample_store_def sample_file_def STORE_MARKER_def)
  have "library fs' = lib_perform ?act (library sample_store)"
    using clip_actions_are_atomic [OF sample_store_ok run] r run by simp
  then show ?thesis using r run old by (auto simp: lib_rename_def)
qed

end
