(* ===== verification/Clip_Quota.thy ===== *)
theory Clip_Quota
  imports Clip_Library "HOL-Library.Multiset"
begin

text \<open>
  The quota of the clip directory: which clips \<open>enforce_quota\<close> removes. It takes the oldest clips of the library first,
  stops as soon as the rest fits, and never removes a clip the limit does not ask for, whatever fails on the way.
\<close>

section \<open>The scan\<close>

definition lib_clips :: "clip_fs \<Rightarrow> owned_clip list" where
  "lib_clips fs = List.map_filter (\<lambda>name. map_option fst (library fs name)) (map fst (cf_entries fs))"

lemma lib_clips_quiet [simp]: "lib_clips (quiet n i fs) = lib_clips fs"
  by (simp add: lib_clips_def)

definition scanned :: "clip_fs \<Rightarrow> clip_labels \<Rightarrow> clip_labels \<Rightarrow> string \<Rightarrow> owned_clip option" where
  "scanned fs trash labels name = Option.bind (cf_lookup name fs) (scanned_clip (cf_dev fs) trash labels name)"

lemma scanned_unlabelled: "\<not> is_owned_clip_name name \<Longrightarrow> map_of labels name = None \<Longrightarrow> scanned fs trash labels name = None"
  by (simp add: scanned_def scanned_fitting fitting_def bind_eq_None_conv)

lemma scan_step:
  "scan_loop trash labels index (name # names) clips =
     (if index \<ge> MAX_DIRECTORY_ENTRIES then cf_return (Inl ''replay store contains too many directory entries'')
      else cf_then (cf_io ''could not scan replay store'' cf_probe) (\<lambda>_.
        if \<not> is_owned_clip_name name \<and> map_of labels name = None then scan_loop trash labels (Suc index) names clips
        else cf_then (cf_io ''could not inspect replay clip'' (cf_stat name)) (\<lambda>f fs.
          scan_loop trash labels (Suc index) names
            (case scanned_clip (cf_dev fs) trash labels name f of None \<Rightarrow> clips | Some c \<Rightarrow> clips @ [c]) fs)))"
  by (auto simp: fun_eq_iff cf_return_def cf_then_def)

lemma after_scan_loop:
  assumes "\<And>n e. Q (quiet n (cf_next_file fs) fs) (Inl e)"
    and "\<And>n. Q (quiet n (cf_next_file fs) fs) (Inr (clips @ List.map_filter (scanned fs trash labels) names))"
  shows "after (scan_loop trash labels index names clips) Q (quiet m (cf_next_file fs) fs)"
  using assms(2)
proof (induction names arbitrary: index clips m)
  case Nil
  then show ?case by (simp add: after_def map_filter_simps)
next
  case (Cons name names)
  have skip: "after (scan_loop trash labels (Suc index) names clips) Q (quiet k (cf_next_file fs) fs)"
    if "scanned fs trash labels name = None" for k
    using Cons.prems that by (intro Cons.IH) (simp add: map_filter_simps)
  have found: "after (\<lambda>fs. scan_loop trash labels (Suc index) names
      (case scanned_clip (cf_dev fs) trash labels name f of None \<Rightarrow> clips | Some c \<Rightarrow> clips @ [c]) fs) Q (quiet k (cf_next_file fs) fs)"
    if "cf_lookup name fs = Some f" for k f
  proof -
    have "after (scan_loop trash labels (Suc index) names
        (case scanned_clip (cf_dev fs) trash labels name f of None \<Rightarrow> clips | Some c \<Rightarrow> clips @ [c])) Q (quiet k (cf_next_file fs) fs)"
      using Cons.prems that
      by (cases "scanned_clip (cf_dev fs) trash labels name f") (auto intro!: Cons.IH simp: map_filter_simps scanned_def)
    then show ?thesis by (simp add: after_def)
  qed
  show ?case
    using assms(1) [of m] assms(1) skip scanned_unlabelled found unfolding scan_step
    by (auto intro!: after_probe after_metadata)
qed

lemma after_scan:
  assumes "\<And>n e. Q (quiet n (cf_next_file fs) fs) (Inl e)" "\<And>n. Q (quiet n (cf_next_file fs) fs) (Inr (lib_clips fs))"
  shows "after scan_owned_clips Q fs"
proof -
  have scan: "after (\<lambda>fs. scan_loop trash labels 0 (map fst (cf_entries fs)) [] fs) Q (quiet m (cf_next_file fs) fs)"
    if "labels_of TRASH_FILE fs = Some trash" "labels_of LABEL_FILE fs = Some labels" for trash labels m
  proof -
    have "scanned fs trash labels = (\<lambda>name. map_option fst (library fs name))"
      by (simp add: fun_eq_iff scanned_def library_labels [OF that(2,1)] option.map_comp comp_def map_option_bind option.map_ident)
    then have "after (scan_loop trash labels 0 (map fst (cf_entries fs)) []) Q (quiet m (cf_next_file fs) fs)"
      using assms by (intro after_scan_loop) (simp_all add: lib_clips_def)
    then show ?thesis by (simp add: after_def)
  qed
  then show ?thesis
    unfolding scan_owned_clips_def using assms by (auto intro!: after_load after_probe)
qed

section \<open>What the quota removes\<close>

definition clip_sizes :: "owned_clip list \<Rightarrow> nat" where
  "clip_sizes clips = sum_list (map (\<lambda>c. unat (oc_bytes c)) clips)"

lemma clip_sizes_simps [simp]: "clip_sizes [] = 0" "clip_sizes (c # cs) = unat (oc_bytes c) + clip_sizes cs"
  by (simp_all add: clip_sizes_def)

definition lib_delete_all :: "string set \<Rightarrow> clip_library \<Rightarrow> clip_library" where
  "lib_delete_all names lib = (\<lambda>name. if name \<in> names then None else lib name)"

lemma lib_delete_all_simps [simp]: "lib_delete_all {} lib = lib"
  "lib_delete_all names (lib_delete name lib) = lib_delete_all (insert name names) lib"
  by (auto simp: lib_delete_all_def lib_delete_def)

lemma total_bytes_sizes:
  assumes "total_bytes clips = Inr w"
  shows "unat w = clip_sizes clips"
proof -
  have "unat w = unat v + clip_sizes clips"
    if "try_fold (\<lambda>total clip. ok_or (checked_add total (oc_bytes clip)) ''replay store size overflows'') v clips = Inr w" for v
    using that by (induction clips arbitrary: v) (auto simp: and_then_Inr ok_or_Inr checked_add_Some)
  from this [of 0] assms show ?thesis by (simp add: total_bytes_def)
qed

text \<open>The first \<open>k\<close> clips are gone, each while the limit was passed.\<close>

definition quota_post :: "nat \<Rightarrow> nat \<Rightarrow> owned_clip list \<Rightarrow> clip_library \<Rightarrow> clip_fs \<Rightarrow> string + u32 \<times> u64 \<Rightarrow> bool" where
  "quota_post limit before clips lib fs r \<longleftrightarrow> library_ok fs \<and> (\<exists>k \<le> length clips.
     library fs = lib_delete_all (oc_name ` set (take k clips)) lib
     \<and> (\<forall>j < k. limit < clip_sizes (drop j clips))
     \<and> (\<forall>removed bytes. r = Inr (removed, bytes) \<longrightarrow>
          clip_sizes (drop k clips) \<le> limit \<and> unat bytes = before + clip_sizes (take k clips)))"

lemma quota_post_none:
  "library_ok fs \<Longrightarrow> r = Inl e \<or> clip_sizes clips \<le> limit \<and> (\<exists>removed bytes. r = Inr (removed, bytes) \<and> unat bytes = before) \<Longrightarrow>
    quota_post limit before clips (library fs) (quiet n i fs) r"
  unfolding quota_post_def by (intro conjI exI [of _ 0]) auto

lemma quota_post_step:
  assumes "quota_post limit (before + unat (oc_bytes c)) clips (lib_delete (oc_name c) lib) fs r" "limit < clip_sizes (c # clips)"
  shows "quota_post limit before (c # clips) lib fs r"
proof -
  obtain k where k: "k \<le> length clips" "library fs = lib_delete_all (oc_name ` set (take k clips)) (lib_delete (oc_name c) lib)"
    "\<forall>j < k. limit < clip_sizes (drop j clips)"
    "\<forall>removed bytes. r = Inr (removed, bytes) \<longrightarrow> clip_sizes (drop k clips) \<le> limit
       \<and> unat bytes = before + unat (oc_bytes c) + clip_sizes (take k clips)" "library_ok fs"
    using assms(1) by (auto simp: quota_post_def)
  have "limit < clip_sizes (drop j (c # clips))" if "j < Suc k" for j
    using that k(3) assms(2) by (cases j) auto
  with k show ?thesis
    unfolding quota_post_def by (intro conjI exI [of _ "Suc k"]) (auto simp: add.assoc)
qed

lemma library_entry:
  assumes "library_ok fs" "library fs name \<noteq> None"
  obtains f where "cf_lookup name fs = Some f" "fi_links f = 1" "\<not> hidden name" "fs_ok fs"
proof -
  obtain labels trash where l: "fs_ok fs" "labels_of LABEL_FILE fs = Some labels" "labels_of TRASH_FILE fs = Some trash" "labels_ok labels"
    using assms(1) by (rule library_okE)
  from assms(2) obtain f c where f: "cf_lookup name fs = Some f" "scanned_clip (cf_dev fs) trash labels name f = Some c"
    by (auto simp: library_labels [OF l(2,3)] bind_eq_Some_conv)
  then have "\<not> hidden name" using scanned_hidden [OF l(4)] by auto
  with f l(1) show ?thesis by (intro that) (auto simp: scanned_fitting split: if_splits)
qed

lemma after_quota_loop:
  assumes "library_ok fs" "distinct (map oc_name clips)" "\<forall>c \<in> set clips. library fs (oc_name c) \<noteq> None"
    and "unat held = clip_sizes clips" "unat removed_bytes + clip_sizes clips < 2 ^ 64"
  shows "after (quota_loop limit clips held removed removed_bytes)
    (quota_post (unat limit) (unat removed_bytes) clips (library fs)) (quiet n i fs)"
  using assms
proof (induction clips arbitrary: fs held removed removed_bytes n i)
  case Nil
  then show ?case by (simp add: after_def quota_post_none)
next
  case (Cons c clips)
  let ?post = "quota_post (unat limit) (unat removed_bytes) (c # clips) (library fs)"
  have "library fs (oc_name c) \<noteq> None" using Cons.prems(3) by simp
  then obtain f where f: "cf_lookup (oc_name c) fs = Some f" "fi_links f = 1" "\<not> hidden (oc_name c)" "fs_ok fs"
    by (rule library_entry [OF Cons.prems(1)])
  have gone: "library (without (oc_name c) fs) = lib_delete (oc_name c) (library fs)" "library_ok (without (oc_name c) fs)"
    using deleted_library [OF Cons.prems(1) f(3)] by simp_all
  show ?case
  proof (cases "held \<le> limit")
    case True
    then show ?thesis using Cons.prems by (auto simp: after_def word_le_nat_alt intro!: quota_post_none)
  next
    case False
    then have big: "unat limit < clip_sizes (c # clips)" using Cons.prems(4) by (simp add: word_le_nat_alt)
    have rest: "after (quota_loop limit clips (saturating_sub held (oc_bytes c)) (saturating_add removed 1)
        (saturating_add removed_bytes (oc_bytes c))) ?post (quiet m i (without (oc_name c) fs))" for m
    proof (rule after_mono [OF Cons.IH [OF gone(2)]])
      show "\<forall>c' \<in> set clips. library (without (oc_name c) fs) (oc_name c') \<noteq> None"
        using Cons.prems(2,3) by (auto simp: gone lib_delete_def image_iff)
      have add: "unat (saturating_add removed_bytes (oc_bytes c)) = unat removed_bytes + unat (oc_bytes c)"
        using Cons.prems(5) by (simp add: unat_saturating_add)
      then show "unat (saturating_add removed_bytes (oc_bytes c)) + clip_sizes clips < 2 ^ 64" using Cons.prems(5) by simp
      show "?post fs' r" if "quota_post (unat limit) (unat (saturating_add removed_bytes (oc_bytes c))) clips
          (library (without (oc_name c) fs)) fs' r" for fs' r
        using that big by (intro quota_post_step) (simp_all add: add gone)
    qed (use Cons.prems in \<open>simp_all add: unat_saturating_sub\<close>)
    have kept: "?post (quiet m j fs) (Inl e)" for m j e by (rule quota_post_none) (use Cons.prems(1) in auto)
    have "after (cf_then (cf_io ''could not inspect old replay clip'' (cf_stat (oc_name c))) (\<lambda>_.
          cf_then thumbnails_remove (\<lambda>_.
            cf_then (cf_io ''could not remove an old Redunar replay clip'' (cf_remove_file (oc_name c))) (\<lambda>_.
              quota_loop limit clips (saturating_sub held (oc_bytes c)) (saturating_add removed 1)
                (saturating_add removed_bytes (oc_bytes c)))))) ?post (quiet n i fs)"
      using f kept rest unfolding thumbnails_remove_def
      by (auto intro!: after_metadata after_probe after_remove_clip [where f = f] simp: entries_quiet)
    with False show ?thesis by (simp add: after_def)
  qed
qed

lemma lib_clips_names:
  assumes "library_ok fs"
  shows "distinct (map oc_name (lib_clips fs))" "\<forall>c \<in> set (lib_clips fs). library fs (oc_name c) \<noteq> None"
proof -
  let ?clip = "\<lambda>name. map_option fst (library fs name)"
  have name: "oc_name c = name" if "?clip name = Some c" for name c
    using that library_name by fastforce
  have clips: "oc_name c \<in> set ns \<and> library fs (oc_name c) \<noteq> None" if "c \<in> set (List.map_filter ?clip ns)" for c ns
  proof -
    from that obtain n where "n \<in> set ns" "?clip n = Some c" by (auto simp: List.map_filter_def)
    with name [OF this(2)] show ?thesis by auto
  qed
  then show "\<forall>c \<in> set (lib_clips fs). library fs (oc_name c) \<noteq> None" by (simp add: lib_clips_def)
  have "distinct ns \<Longrightarrow> distinct (map oc_name (List.map_filter ?clip ns))" for ns
  proof (induction ns)
    case (Cons n ns)
    then show ?case
    proof (cases "?clip n")
      case (Some c)
      have "n \<notin> oc_name ` set (List.map_filter ?clip ns)" using clips Cons.prems by fastforce
      with Some name [OF Some] Cons show ?thesis by (auto simp: map_filter_simps)
    qed (simp add: map_filter_simps)
  qed (simp add: map_filter_simps)
  moreover have "distinct (map fst (cf_entries fs))" using assms by (simp add: library_ok_def fs_ok_def)
  ultimately show "distinct (map oc_name (lib_clips fs))" by (simp add: lib_clips_def)
qed

lemma after_enforce_quota:
  fixes limit :: u64
  assumes "library_ok fs" "mset clips = mset (lib_clips fs)"
  shows "after (enforce_quota clips limit protected) (quota_post (unat limit) 0 (sort_key (quota_order protected) clips) (library fs)) fs"
proof -
  let ?clips = "sort_key (quota_order protected) clips"
  have kept: "quota_post (unat limit) 0 cs (library fs) fs (Inl e)" for cs e
    using quota_post_none [OF assms(1), of "Inl e" e cs "unat limit" 0 "cf_calls fs" "cf_next_file fs"] by (simp add: quiet_def)
  have set: "set ?clips = set (lib_clips fs)" using assms(2) by (metis set_mset_mset set_sort)
  have dist: "distinct (map oc_name ?clips)"
    using lib_clips_names(1) [OF assms(1)] assms(2) by (metis mset_map mset_sort mset_eq_imp_distinct_iff)
  have loop: "after (quota_loop limit ?clips t 0 0) (quota_post (unat limit) 0 ?clips (library fs)) fs" if "total_bytes ?clips = Inr t" for t
    using after_quota_loop [OF assms(1) dist, of t 0 limit 0 "cf_calls fs" "cf_next_file fs"] lib_clips_names(2) [OF assms(1)] set
      total_bytes_sizes [OF that] unat_lt_2p [of t] by (simp add: quiet_def)
  have sync: "quota_post l b cs lib (quiet n i fs') r \<longleftrightarrow> quota_post l b cs lib fs' r" for l b cs lib n i fs' r
    by (simp add: quota_post_def)
  have fail: "quota_post l b cs lib fs' (Inr x) \<Longrightarrow> quota_post l b cs lib fs' (Inl e)" for l b cs lib fs' x e
    by (auto simp: quota_post_def)
  show ?thesis
  proof (cases "total_bytes ?clips")
    case (Inl e)
    then show ?thesis using kept by (simp add: enforce_quota_def)
  next
    case (Inr t)
    show ?thesis
      unfolding enforce_quota_def Let_def after_then after_return Inr sum.case
      by (rule after_mono [OF loop [OF Inr]])
        (auto split: sum.split intro!: after_sync simp: sync dest: fail)
  qed
qed

lemma protected_last:
  assumes "distinct (map oc_name clips)" "sort_key (quota_order protected) clips = us @ c # vs" "protected = Some (oc_name c)"
  shows "vs = []"
proof (rule ccontr)
  assume "vs \<noteq> []"
  then obtain d where d: "d \<in> set vs" by (meson last_in_set)
  have "sorted (map (quota_order protected) (us @ c # vs))" using sorted_sort_key assms(2) by metis
  then have "quota_order protected c \<le> quota_order protected d" using d by (auto simp: sorted_append)
  then have "oc_name d = oc_name c" using assms(3) by (auto simp: quota_order_def less_eq_prod_def)
  moreover have "distinct (map oc_name (us @ c # vs))"
    using assms(1,2) by (metis mset_map mset_sort mset_eq_imp_distinct_iff)
  ultimately show False using d by (auto simp: image_iff)
qed

text \<open>C18: The quota removes only what it must. Whatever fails on the way, the clips that are gone are the oldest of the
  library, with the just saved clip counted as the newest, every other clip keeps its contents, and removing the last one was needed
  to come under the limit. When the clean-up reports success the rest fits the limit and the reported bytes are
  the sizes of the removed clips. A saved clip that fits the limit by itself is never removed. The library is every
  clip the scan returns: files with generated names and, although the comment on the clean-up speaks of generated
  names only, also the renamed, favorite and exported clips that a label authorises, which the code removes by age
  like the others.\<close>

theorem quota_removes_only_the_oldest:
  fixes limit :: u64
  assumes "library_ok fs" "mset clips = mset (lib_clips fs)" "enforce_quota clips limit protected fs = (fs', r)"
  shows "library_ok fs' \<and> (\<exists>gone kept. mset clips = mset gone + mset kept
    \<and> library fs' = lib_delete_all (oc_name ` set gone) (library fs)
    \<and> (\<forall>g \<in> set gone. \<forall>c \<in> set kept. protected = Some (oc_name c) \<or> oc_modified g \<le> oc_modified c)
    \<and> (gone \<noteq> [] \<longrightarrow> unat limit < clip_sizes (last gone # kept))
    \<and> (\<forall>removed bytes. r = Inr (removed, bytes) \<longrightarrow> clip_sizes kept \<le> unat limit \<and> unat bytes = clip_sizes gone)
    \<and> (\<forall>c \<in> set clips. protected = Some (oc_name c) \<longrightarrow> unat (oc_bytes c) \<le> unat limit \<longrightarrow> c \<in> set kept))"
proof -
  let ?clips = "sort_key (quota_order protected) clips"
  obtain k where k: "library_ok fs'" "k \<le> length ?clips" "library fs' = lib_delete_all (oc_name ` set (take k ?clips)) (library fs)"
    "\<forall>j < k. unat limit < clip_sizes (drop j ?clips)"
    "\<forall>removed bytes. r = Inr (removed, bytes) \<longrightarrow> clip_sizes (drop k ?clips) \<le> unat limit \<and> unat bytes = clip_sizes (take k ?clips)"
    using afterD [OF after_enforce_quota [OF assms(1,2)] assms(3)] by (auto simp: quota_post_def)
  have names: "distinct (map oc_name clips)"
    using lib_clips_names(1) [OF assms(1)] assms(2) by (metis mset_map mset_eq_imp_distinct_iff)
  have split: "mset clips = mset (take k ?clips) + mset (drop k ?clips)"
    by (metis append_take_drop_id mset_append mset_sort)
  have "sorted (map (quota_order protected) (take k ?clips @ drop k ?clips))" by (simp del: set_sort)
  then have order: "protected = Some (oc_name c) \<or> oc_modified g \<le> oc_modified c"
    if "g \<in> set (take k ?clips)" "c \<in> set (drop k ?clips)" for g c
    using that unfolding map_append sorted_append by (fastforce simp: quota_order_def less_eq_prod_def)
  have last: "unat limit < clip_sizes (last (take k ?clips) # drop k ?clips)" if "take k ?clips \<noteq> []"
  proof -
    from that k(2) have "0 < k" "k - 1 < length ?clips" "min (length ?clips) k = k" by auto
    then have "drop (k - 1) ?clips = last (take k ?clips) # drop k ?clips"
      using Cons_nth_drop_Suc [of "k - 1" ?clips] that by (simp add: last_conv_nth)
    with k(4) \<open>0 < k\<close> show ?thesis by (metis diff_less zero_less_one)
  qed
  have "c \<in> set (drop k ?clips)" if c: "c \<in> set clips" "protected = Some (oc_name c)" "unat (oc_bytes c) \<le> unat limit" for c
  proof (rule ccontr)
    assume "c \<notin> set (drop k ?clips)"
    moreover from c(1) split have "c \<in># mset (take k ?clips) + mset (drop k ?clips)" by (metis set_mset_mset)
    ultimately have c': "c \<in> set (take k ?clips)" by simp
    then obtain j where j: "j < k" "?clips ! j = c" "j < length ?clips" by (auto simp: in_set_conv_nth)
    then have c_first: "drop j ?clips = c # drop (Suc j) ?clips" using Cons_nth_drop_Suc by metis
    then have "?clips = take j ?clips @ c # drop (Suc j) ?clips" by (metis append_take_drop_id)
    then have "drop (Suc j) ?clips = []" using c(2) by (rule protected_last [OF names])
    with c_first k(4) j(1) c(3) show False by fastforce
  qed
  with k split order last show ?thesis by (intro conjI exI [of _ "take k ?clips"] exI [of _ "drop k ?clips"]) blast+
qed

text \<open>The tests for overflow over integers, for evaluation.\<close>

lemma checked_add_code [code]: "checked_add a b = (if uint a + uint b < 2 ^ LENGTH('a) then Some (a + b) else None)" for a b :: "'a::len word"
proof -
  have sum: "uint a + uint b = int (unat a + unat b)" by simp
  have "uint a + uint b < 2 ^ LENGTH('a) \<longleftrightarrow> unat a + unat b < 2 ^ LENGTH('a)"
    unfolding sum by (subst of_nat_less_iff [symmetric, where 'a = int]) simp
  then show ?thesis by (simp add: checked_add_def)
qed

lemma saturating_add_code [code]: "saturating_add a b = (case checked_add a b of None \<Rightarrow> - 1 | Some c \<Rightarrow> c)" for a b :: "'a::len word"
  by (simp add: checked_add_def saturating_add_def)

definition sample_clip :: "string \<Rightarrow> owned_clip" where
  "sample_clip name = \<lparr>oc_name = name, oc_bytes = 1, oc_modified = 5, oc_original = name, oc_favorite = False, oc_trashed = False\<rparr>"

lemma sample_clips: "lib_clips sample_store = [sample_clip ''redunar-replay-1.mkv'', sample_clip ''redunar-replay-2.mkv'']"
proof -
  have owned: "is_owned_clip_name ''redunar-replay-1.mkv''" "is_owned_clip_name ''redunar-replay-2.mkv''"
    "\<not> is_owned_clip_name ''.redunar-replay-store-v1''" by code_simp+
  show ?thesis
    unfolding lib_clips_def library_labels [OF sample_labels]
    by (simp add: map_filter_simps scanned_fitting fitting_def cf_lookup_def sample_store_def sample_file_def STORE_MARKER_def
        owned sample_clip_def len_u64_def try_from_def)
qed

theorem quota_removes_only_the_oldest_witness:
  "\<exists>fs' gone kept. enforce_quota (lib_clips sample_store) 1 (Some ''redunar-replay-2.mkv'') sample_store = (fs', Inr (1, 1))
    \<and> library fs' = lib_delete_all (oc_name ` set gone) (library sample_store) \<and> clip_sizes gone = 1 \<and> clip_sizes kept \<le> 1
    \<and> sample_clip ''redunar-replay-2.mkv'' \<in> set kept"
proof -
  let ?run = "enforce_quota (lib_clips sample_store) 1 (Some ''redunar-replay-2.mkv'') sample_store"
  obtain fs' r where run: "?run = (fs', r)" by fastforce
  have "snd ?run = Inr (1, 1)" unfolding sample_clips by code_simp
  with run quota_removes_only_the_oldest [OF sample_store_ok(1) refl run] show ?thesis
    by (auto simp: sample_clips sample_clip_def)
qed

end
