(* ===== verification/Spec2Isabelle.thy ===== *)
theory Spec2Isabelle
  imports Capture_Wire Capture_Frames Packet_Flow H264_Annex_B Replay_Lifecycle Matroska_Streaming
    Mp4_Streaming App_Preferences Hotkeys Pipeline_Inputs Clip_Quota
begin

text \<open>
  \<^bold>\<open>Redunar: its instant-replay core, verified.\<close>

  Redunar records the last minutes of a running game. A capture layer inside the game announces frames to a
  daemon over a datagram socket and hands over GPU buffers; the daemon encodes them in hardware, keeps the
  newest packets in a bounded ring and, for longer histories, in segment files on disk, and on request writes
  them into a playable file. A menu drawn inside the
  game is driven by a separate shortcut helper, which reads the keyboard and the mouse and talks to the daemon
  over a local control socket; the daemon publishes the menu to the game through a small shared file.

  \<^bold>\<open>How the development follows the sources.\<close> A struct is a \<open>record\<close>, an enum a \<open>datatype\<close>, a fixed-width
  unsigned integer a word (\<open>usize\<close> is \<open>nat\<close>, signed integers are \<open>int\<close> with their wrap or saturation written
  out), \<open>Result\<close> a sum whose left side is the error, and a \<open>&mut self\<close> method returns the new state beside its
  result. Text and paths are byte strings. What the program asks the operating system is an argument: a
  \<open>sink\<close> for file output, \<open>file_env\<close> for state files, \<open>write_env\<close> for positioned writes, \<open>control_env\<close> and
  \<open>monitor_env\<close> for one turn of a loop, \<open>fs_fault\<close> for the spool's directory, \<open>encoder_backend\<close> and \<open>spool_port\<close> for
  the pipeline's neighbours. Locks only serialise the operations, so a run is a sequence of them; only the spool's
  admission uses atomics without a lock, and there the steps are the single accesses.

  \<^bold>\<open>Theories, sources and results.\<close>

  \<^item> \<open>Redunar_Prelude\<close>: checked and saturating arithmetic, results, byte encodings, and the interfaces the
  components interpret: \<open>prefix_codec\<close> (self-delimiting encodings), \<open>event_system\<close> (steps with an invariant),
  \<open>simulation\<close> (steps that refine a specification) and \<open>bounded_history\<close> (push onto a window that evicts its past).

  \<^item> \<open>Redunar_Text\<close>: splitting, lines, decimal numbers and UTF-8 validity as the text parsers use them.

  \<^item> \<open>Game_Settings\<close> (\<open>redunar-core/src/game.rs\<close>): which catalog entry a process belongs to, overlay and replay
  settings, profile inheritance. Resolution returns the best-scoring entry and is automatic only when unique.

  \<^item> \<open>Replay_Lifecycle\<close> (\<open>redunar-daemon/src/replay.rs\<close>): readiness, budget, the published status and its
  transitions. The transitions refine a five-phase machine, recording is gated by the readiness with which a status was
  created (any capability and readiness), the save counter
  counts completed saves, and the budget arithmetic never saturates.

  \<^item> \<open>Replay_Ring\<close> (\<open>replay_ring.rs\<close>): the packet ring. A push keeps exactly the longest decodable suffix within
  the limits, a snapshot the longest recent one, and every reachable ring is bounded and starts at a keyframe.

  \<^item> \<open>Replay_Audio\<close> (\<open>replay_audio.rs\<close>, \<open>opus.rs\<close>): the audio window; a snapshot holds every overlapping packet.

  \<^item> \<open>Capture_Protocol\<close> and \<open>Capture_Wire\<close> (\<open>redunar-capture/src/lib.rs\<close>, \<open>gpu_identity.rs\<close>): the datagrams. The
  decoder inverts the encoder and accepts nothing else, up to the reserved bytes of Hello.

  \<^item> \<open>Capture_Session\<close> and \<open>Capture_Frames\<close> (\<open>capture.rs\<close>): the daemon's model of the producer that sends those
  datagrams. A session is always well formed, a refused message is only counted (but for a batch whose sequence
  numbers overflow, which may add to the drops), and as long as no such batch arrives the received and dropped counters
  are exact against a ledger of the accepted messages. A session never changes its producer process.

  \<^item> \<open>Capture_Lifecycle\<close> (\<open>capture_lifecycle.rs\<close>): the supervision of a launched game. The stat parser is not misled by
  command names, a launch is released only when nothing of it runs, and a producer is given up only after its grace period.

  \<^item> \<open>Video_Stream\<close> and \<open>Packet_Flow\<close> (\<open>replay_encoder.rs\<close>): stream descriptions, DMA-BUF frames, packet framing,
  and the flow of encoder output into the ring; a clip never mixes stream epochs and errors fail closed.

  \<^item> \<open>H264_Annex_B\<close> (\<open>replay_h264.rs\<close>): start-code splitting and conversion to length-prefixed units, lossless.

  \<^item> \<open>Ebml\<close>, \<open>Matroska\<close>, \<open>Ebml_Codec\<close>, \<open>Matroska_Demux\<close>, \<open>Matroska_Streaming\<close> (\<open>replay_matroska.rs\<close>,
  \<open>replay_packet_source.rs\<close>): the three Matroska writers, and a demultiplexer, defined here, that reads back
  from their output exactly the samples, times and flags that went in.

  \<^item> \<open>Mp4\<close>, \<open>Mp4_Demux\<close>, \<open>Mp4_Clips\<close>, \<open>Mp4_Files\<close>, \<open>Mp4_Streaming\<close> (\<open>replay_mp4.rs\<close>): the three fragmented-MP4
  writers and a demultiplexer that follows sizes, track ids and data offsets. It finds every sample with its bytes, time,
  duration and flags, and the streaming writer produces the same clip as the one that holds the ring in memory.

  \<^item> \<open>Spool_Segments\<close>, \<open>Spool_History\<close>, \<open>Spool_Reader\<close>, \<open>Spool_Worker\<close> (\<open>replay_spool.rs\<close>,
  \<open>replay_spool_reader.rs\<close>): the disk history. The directory is a map from names to contents, and an oracle may fail any
  call on it. The specification is a list of closed segments and an open one; every command of the worker refines a step
  of it, the index never names a torn file, and the reader keeps exactly what the ring would keep of the same packets.

  \<^item> \<open>Spool_Admission\<close> (\<open>replay_spool.rs\<close>): the same spool as concurrent threads. Each access of an atomic is a step, the
  threads interleave freely, and the memory order is a parameter. \<open>StoreBuffered\<close>, in which the worker's phase store may
  still be buffered at its next load, is the order of the code's release and acquire accesses; \<open>Sequential\<close> is the stronger
  one it would have with sequentially consistent accesses. The queue's bounds and counters hold under both. A closed spool
  is drained under \<open>Sequential\<close> (\<open>closed_spool_drains\<close>); under \<open>StoreBuffered\<close> a run loses an admitted packet.

  \<^item> \<open>Replay_Pipeline\<close>, \<open>Pipeline_History\<close>, \<open>Pipeline_Saves\<close>, \<open>Pipeline_Inputs\<close> (\<open>replay_pipeline.rs\<close>): the pipeline that
  joins encoder, flow, ring and spool. The spool never skips a stored packet unless the pipeline has marked it degraded, a disk save is made of the recorded
  packets from the pipeline through the worker to the reader, inputs are handed back only when the hardware is
  done with them, and keyframes are requested at least every two seconds.

  \<^item> \<open>Clip_Labels\<close>, \<open>Clip_Files\<close>, \<open>Clip_Store\<close>, \<open>Clip_Rules\<close>, \<open>Clip_Library\<close>, \<open>Clip_Quota\<close> (\<open>replay_store.rs\<close>,
  \<open>replay_store/trash.rs\<close>, \<open>replay_store/named_export.rs\<close>, \<open>replay_clip_labels.rs\<close>): the directory of saved clips with its
  label and trash files, and all operations on it. The directory has inodes and link counts, and an oracle may fail any
  call. What the store presents is a library of clips; renaming, favorites, the trash and deletion refine one
  step of it each, and leave the old library or the new one wherever they stop; the quota removes the oldest clips, no more
  than it must, and never a clip just saved that fits.

  \<^item> \<open>State_File\<close>, \<open>App_Preferences\<close>, \<open>Replay_Preferences\<close> (\<open>app_preferences.rs\<close>, \<open>replay_preferences.rs\<close>):
  text files replaced through a rename. The interface \<open>persistent_state\<close> says what a load finds after a save that
  succeeded or failed; setters are atomic, and every value with a short enough text survives a round trip.

  \<^item> \<open>Overlay_Telemetry\<close> (\<open>redunar-capture/src/overlay.rs\<close>) and \<open>Overlay_Publication\<close> (\<open>capture_session.rs\<close>): the
  two blocks of the shared file and the updates that write them. The interface \<open>seqlock\<close> shows that a reader
  never takes a torn block for a snapshot, at whatever byte an update stops; both blocks interpret it.

  \<^item> \<open>Replay_Menu\<close> (\<open>replay_menu.rs\<close>), \<open>Replay_Control\<close> (\<open>replay_control.rs\<close>, \<open>game_session.rs\<close>) and \<open>Hotkeys\<close>
  (\<open>redunar-hotkeys/src/main.rs\<close>): the menu, the control protocol with the coordinator's menu operations, and
  the helper. Replies agree with the menu's visibility, every accepted command reaches the game's block, the
  helper only sends commands the daemon parses, and an open menu always closes.

  \<^item> This theory: the end-to-end property of a mouse movement.

  \<^bold>\<open>Loops and bounds.\<close> Loops are structural recursion or \<open>function\<close>s with a measure. The one loop of the source
  that runs until a counter fits, the eviction by limit in \<open>Replay_Ring\<close>, is a \<open>partial_function (option)\<close>, and
  \<open>pushes_always_return\<close> proves that it ends. Nothing that models code takes fuel; only \<open>decode_all\<close> of
  \<open>Redunar_Prelude\<close>, with which the specifications read back encoded bytes, runs \<open>decode_fuel\<close> with the length of its
  input as fuel, which is enough since every decoded element takes at least one byte. Byte counts that the code keeps in
  \<open>u64\<close> are words, and the properties state the room they need as hypotheses (for instance that fewer than
  \<open>2^63\<close> menu revisions were published).

  \<^bold>\<open>Not modelled.\<close> The Vulkan layer, the OpenGL library and the KMS helper are calls of drivers and of the kernel
  on GPU state the sources do not define. The sockets, threads and device nodes around the modelled protocols
  are input and output only. Of the clip store, the archive of edited originals, the thumbnail cache and the queries of free
  space are left out, and so are the thread that assembles clips, the audio mixer and the session history. Floating-point metrics are not modelled; the conversion of sampled ones is an input of
  \<open>Overlay_Publication\<close>.
\<close>

section \<open>From the mouse to the game\<close>

lemma fresh_watchdog_idle:
  assumes "rm_visible (mc_menu c)" "replay_menu_has_render_target env c" "rm_last_input (mc_menu c) = Some l"
    and "ce_now env \<le> l + WATCHDOG_TIMEOUT"
  shows "replay_menu_watchdog env c = (c, False)"
  using assms by (simp add: replay_menu_watchdog_def close_if_stale_def)

lemma i32_add_small: "\<bar>a\<bar> \<le> 100000 \<Longrightarrow> \<bar>b\<bar> \<le> 100000 \<Longrightarrow> i32_add a b = a + b"
  by (simp add: i32_add_def)

lemma u16_from_cursor: "0 \<le> z \<Longrightarrow> z \<le> 10000 \<Longrightarrow> uint (u16_from_i32 z) = z"
  by (simp add: u16_from_i32_def uint_word_of_int)

text \<open>C33: End to end, a mouse movement moves the cursor the player sees. Let the helper read a motion while the
  menu is open, its last input is at most two seconds old and the game renders. The helper's line is accepted
  with \<open>OK\<close>, and the game's menu block then decodes to a visible menu whose cursor is the old one plus the
  accelerated motion, clamped to the panel.\<close>
theorem pointer_motion_reaches_game:
  assumes "reach control_init control_step c" "mc_capture c = Some s" "ce_writes env = writes_succeed"
    and "unat (mc_menu_revision c) + 2 < 2 ^ 64"
    and "rm_visible (mc_menu c)" "replay_menu_has_render_target env c"
    and "rm_last_input (mc_menu c) = Some l" "ce_now env \<le> l + WATCHDOG_TIMEOUT"
    and "accelerated_pointer_motion x y = (dx, dy)"
  shows "\<exists>c' s' v. handle_command (move_line (dx, dy)) env c = (c', Inr (''OK'' @ [newline]))
    \<and> mc_capture c' = Some s' \<and> decode_replay_menu_telemetry (slice 48 128 (ov_file s')) = Inr v \<and> mt_visible v
    \<and> int (unat (mt_cursor_x v)) = clamp 0 10000 (rm_cursor_x (mc_menu c) + dx)
    \<and> int (unat (mt_cursor_y v)) = clamp 0 10000 (rm_cursor_y (mc_menu c) + dy)"
proof -
  have c: "coordinator_ok c" by (rule control.inv_reach [OF assms(1)])
  note b = accelerated_bounds [OF assms(9)]
  let ?m = "move_cursor dx dy (ce_now env) (mc_menu c)"
  let ?c = "publish_replay_menu env (c\<lparr>mc_menu := ?m\<rparr>)"
  have ok: "menu_ok (mc_menu c)" by (rule coordinator_menu_ok [OF c])
  then have x: "rm_cursor_x ?m = clamp 0 10000 (rm_cursor_x (mc_menu c) + dx)"
    "rm_cursor_y ?m = clamp 0 10000 (rm_cursor_y (mc_menu c) + dy)" "rm_visible ?m"
    using assms(5) b by (simp_all add: move_cursor_def menu_ok_def CURSOR_MAX_def i32_add_small)
  have "game_sees env ?c"
    using c assms(2-4) menu_ok_move [OF ok] by (intro game_sees_publish(1) [of _ s]) (simp_all add: coordinator_ok_menu)
  then obtain s' where s': "mc_capture ?c = Some s'" "decode_replay_menu_telemetry (slice 48 128 (ov_file s'))
      = Inr (replay_menu_telemetry_of env (mc_menu_revision ?c) ?c)"
    by (auto simp: game_sees_def)
  have h: "handle_command (move_line (dx, dy)) env c = (?c, Inr (''OK'' @ [newline]))"
    using x(3) by (simp add: handle_command_def fresh_watchdog_idle [OF assms(5-8)] parse_move_line [OF b]
        move_replay_menu_cursor_def visible_reply_def)
  have k: "0 \<le> clamp 0 10000 z \<and> clamp 0 10000 z \<le> 10000" for z by (rule clamp_range) simp
  show ?thesis
    using h s' x k
    by - (rule exI [of _ ?c], rule exI [of _ s'],
        rule exI [of _ "replay_menu_telemetry_of env (mc_menu_revision ?c) ?c"],
        simp add: replay_menu_telemetry_of_def menu_telemetry_def Let_def u16_from_cursor)
qed

theorem pointer_motion_reaches_game_witness:
  "\<exists>c c' s' v. handle_command (''MENU TOGGLE'' @ [newline]) sample_control_env sample_coordinator
      = (c, Inr (''OK GRAB'' @ [newline]))
    \<and> handle_command (move_line (accelerated_pointer_motion 10 (- 3))) sample_control_env c
      = (c', Inr (''OK'' @ [newline]))
    \<and> mc_capture c' = Some s' \<and> decode_replay_menu_telemetry (slice 48 128 (ov_file s')) = Inr v \<and> mt_visible v"
proof -
  obtain c s where h: "handle_command (''MENU TOGGLE'' @ [newline]) sample_control_env sample_coordinator
      = (c, Inr (''OK GRAB'' @ [newline]))"
    and m: "mc_menu c = default_menu_state\<lparr>rm_visible := True, rm_last_input := Some 5\<rparr>"
    and r: "mc_menu_revision c = 4" and cap: "mc_capture c = Some s"
    using sample_grab by blast
  have reached: "reach control_init control_step c"
    by (rule reach.reach_step [OF sample_coordinator_reach]) (rule step_command [OF h])
  have t: "replay_menu_has_render_target sample_control_env c"
    by (simp add: replay_menu_has_render_target_def sample_control_env_def cap)
  obtain dx dy where a: "accelerated_pointer_motion 10 (- 3) = (dx, dy)" by (metis surj_pair)
  have "\<exists>c' s' v. handle_command (move_line (dx, dy)) sample_control_env c = (c', Inr (''OK'' @ [newline]))
    \<and> mc_capture c' = Some s' \<and> decode_replay_menu_telemetry (slice 48 128 (ov_file s')) = Inr v \<and> mt_visible v"
    using pointer_motion_reaches_game [OF reached cap _ _ _ t _ _ a, of 5]
    by (auto simp: m r sample_control_env_def)
  then show ?thesis using h a by (metis)
qed

end
